(* ===== verification/Prelude.thy ===== *)
theory Prelude
  imports Complex_Main "HOL-Library.AList" "HOL-Library.Word" "HOL-Library.Char_ord"
    "HOL-Library.List_Lexorder"
begin

text \<open>
  Shared vocabulary of the development.
  \<^item> Exceptions: \<open>py_exc\<close> names the exceptions the source raises; a fallible operation returns
    \<open>py_exc + 'a\<close> (\<open>Inl\<close> the exception) and is sequenced with \<open>res_bind\<close>.
  \<^item> Insertion-ordered dictionaries (\<open>dict\<close>, \<open>OrderedDict\<close>) are association lists with distinct
    keys: \<open>AList.update\<close> overwrites in place or appends, \<open>AList.delete\<close> removes,
    \<open>move_to_end\<close> and \<open>trim_oldest\<close> are the two \<open>OrderedDict\<close>/\<open>deque\<close> idioms the source uses.
  \<^item> Floating point clock readings and fractions are exact reals: rounding is not modelled.
  \<^item> Interfaces that several components share are the locales \<open>bounded_fifo\<close> (a buffer that
    evicts its oldest entries over a cap) and \<open>frame_codec\<close> (a self-delimiting byte encoding).
\<close>

named_theorems odict_simps \<open>facts on insertion-ordered dictionaries\<close>
named_theorems inv_intros \<open>invariants kept by the operations of a component\<close>

section \<open>Exceptions as values\<close>

datatype py_exc =
    ValueError string
  | TypeError
  | RuntimeErr string
  | OSErr
  | IncompleteRead
  | TimeoutErr
  | OverflowErr
  | AddressErr

type_synonym 'a result = "py_exc + 'a"

definition res_bind :: "'e + 'a \<Rightarrow> ('a \<Rightarrow> 'e + 'b) \<Rightarrow> 'e + 'b" where
  "res_bind r f = (case r of Inl e \<Rightarrow> Inl e | Inr x \<Rightarrow> f x)"

lemma res_bind_simps [simp]:
  "res_bind (Inl e) f = Inl e"
  "res_bind (Inr x) f = f x"
  by (simp_all add: res_bind_def)

lemma res_bind_eq_Inr: "res_bind r f = Inr y \<longleftrightarrow> (\<exists>x. r = Inr x \<and> f x = Inr y)"
  by (cases r) auto

section \<open>Insertion-ordered dictionaries\<close>

type_synonym ('k, 'v) odict = "('k \<times> 'v) list"

definition keys :: "('k, 'v) odict \<Rightarrow> 'k list" where
  "keys d = List.map fst d"

definition dict_values :: "('k, 'v) odict \<Rightarrow> 'v list" where
  "dict_values d = List.map snd d"

definition wf_dict :: "('k, 'v) odict \<Rightarrow> bool" where
  "wf_dict d \<longleftrightarrow> distinct (keys d)"

definition get_or :: "('k, 'v) odict \<Rightarrow> 'k \<Rightarrow> 'v \<Rightarrow> 'v" where
  "get_or d k v = (case map_of d k of None \<Rightarrow> v | Some x \<Rightarrow> x)"

definition setdefault :: "'k \<Rightarrow> 'v \<Rightarrow> ('k, 'v) odict \<Rightarrow> ('k, 'v) odict" where
  "setdefault k v d = (case map_of d k of None \<Rightarrow> d @ [(k, v)] | Some _ \<Rightarrow> d)"

definition move_to_end :: "'k \<Rightarrow> ('k, 'v) odict \<Rightarrow> ('k, 'v) odict" where
  "move_to_end k d = (case map_of d k of None \<Rightarrow> d | Some v \<Rightarrow> AList.delete k d @ [(k, v)])"

fun trim_oldest :: "nat \<Rightarrow> 'a list \<Rightarrow> 'a list" where
  "trim_oldest m [] = []"
| "trim_oldest m (x # xs) = (if m < length (x # xs) then trim_oldest m xs else x # xs)"

lemma trim_oldest_drop: "trim_oldest m xs = drop (length xs - m) xs"
proof (induction xs)
  case Nil
  then show ?case by simp
next
  case (Cons x xs)
  show ?case
  proof (cases "m < length (x # xs)")
    case True
    then have "length (x # xs) - m = Suc (length xs - m)" by simp
    with True Cons.IH show ?thesis by simp
  next
    case False
    then show ?thesis by simp
  qed
qed

lemma length_trim_oldest [simp]: "length (trim_oldest m xs) = min m (length xs)"
  by (simp add: trim_oldest_drop)

lemma set_trim_oldest: "set (trim_oldest m xs) \<subseteq> set xs"
  by (simp add: trim_oldest_drop set_drop_subset)

lemma trim_oldest_id [simp]: "length xs \<le> m \<Longrightarrow> trim_oldest m xs = xs"
  by (simp add: trim_oldest_drop)

lemma trim_twice: "trim_oldest cap (trim_oldest cap xs @ ys) = trim_oldest cap (xs @ ys)"
proof (cases "cap \<le> length xs")
  case True
  then have "cap + length ys - cap + (length xs - cap) = length xs + length ys - cap" by simp
  with True show ?thesis by (simp add: trim_oldest_drop min_def)
next
  case False
  then show ?thesis by simp
qed

lemma keys_simps [odict_simps, simp]:
  "keys [] = []"
  "keys ((k, v) # d) = k # keys d"
  "keys (d @ e) = keys d @ keys e"
  by (simp_all add: keys_def)

lemma length_keys [simp]: "length (keys d) = length d"
  by (simp add: keys_def)

lemma keys_trim_oldest: "keys (trim_oldest m d) = trim_oldest m (keys d)"
  by (simp add: keys_def trim_oldest_drop drop_map)

lemma set_keys: "set (keys d) = dom (map_of d)"
  by (simp add: keys_def dom_map_of_conv_image_fst)

lemma map_of_None_keys: "map_of d k = None \<longleftrightarrow> k \<notin> set (keys d)"
  by (simp add: keys_def map_of_eq_None_iff)

lemma keys_update [odict_simps]:
  "keys (AList.update k v d) = (if k \<in> set (keys d) then keys d else keys d @ [k])"
  by (induction d) (auto simp: keys_def)

lemma keys_delete [odict_simps]: "keys (AList.delete k d) = List.filter (\<lambda>x. x \<noteq> k) (keys d)"
  by (simp add: keys_def AList.delete_eq filter_map o_def case_prod_beta' neq_commute)

lemma wf_dict_Nil [simp, intro]: "wf_dict []"
  by (simp add: wf_dict_def)

lemma wf_dict_update [inv_intros, intro]: "wf_dict d \<Longrightarrow> wf_dict (AList.update k v d)"
  by (simp add: wf_dict_def keys_update)

lemma wf_dict_delete [inv_intros, intro]: "wf_dict d \<Longrightarrow> wf_dict (AList.delete k d)"
  by (simp add: wf_dict_def keys_delete)

lemma wf_dict_move_to_end [inv_intros, intro]: "wf_dict d \<Longrightarrow> wf_dict (move_to_end k d)"
  by (auto simp: wf_dict_def move_to_end_def keys_delete split: option.splits)

lemma wf_dict_drop: "wf_dict d \<Longrightarrow> wf_dict (drop n d)"
  by (simp add: wf_dict_def keys_def drop_map[symmetric] distinct_drop)

lemma wf_dict_trim_oldest [inv_intros, intro]: "wf_dict d \<Longrightarrow> wf_dict (trim_oldest m d)"
  by (simp add: trim_oldest_drop wf_dict_drop)

lemma wf_dict_filter: "wf_dict d \<Longrightarrow> wf_dict (List.filter P d)"
  by (simp add: wf_dict_def keys_def distinct_map_filter)

lemma map_of_update [odict_simps]: "map_of (AList.update k v d) = (map_of d)(k \<mapsto> v)"
  by (rule update_conv')

lemma map_of_delete [odict_simps]: "map_of (AList.delete k d) = (map_of d)(k := None)"
  by (rule delete_conv')

lemma map_of_move_to_end [odict_simps]: "map_of (move_to_end k d) = map_of d"
  by (auto simp: move_to_end_def fun_eq_iff map_of_delete map_add_def split: option.splits)

lemma get_or_update: "get_or (AList.update k v d) k' x = (if k' = k then v else get_or d k' x)"
  by (simp add: get_or_def map_of_update)

lemma get_or_delete: "get_or (AList.delete k d) k' x = (if k' = k then x else get_or d k' x)"
  by (simp add: get_or_def map_of_delete)

lemma get_or_move_to_end [simp]: "get_or (move_to_end k d) k' x = get_or d k' x"
  by (simp add: get_or_def map_of_move_to_end)

lemmas get_or_simps = get_or_update get_or_delete get_or_move_to_end

lemma keys_move_to_end [odict_simps]: "set (keys (move_to_end k d)) = set (keys d)"
  by (simp add: set_keys map_of_move_to_end)

lemma length_move_to_end: "wf_dict d \<Longrightarrow> length (move_to_end k d) = length d"
  by (metis distinct_card keys_move_to_end length_keys wf_dict_def wf_dict_move_to_end)

lemma length_update:
  "length (AList.update k v d) = (if k \<in> set (keys d) then length d else Suc (length d))"
  using arg_cong [OF keys_update [of k v d], of length] by (auto split: if_splits)

lemma map_of_trim_oldest_in: "wf_dict d \<Longrightarrow> k \<in> set (keys (trim_oldest m d)) \<Longrightarrow>
  map_of (trim_oldest m d) k = map_of d k"
proof -
  assume wf: "wf_dict d" and k: "k \<in> set (keys (trim_oldest m d))"
  let ?n = "length d - m"
  have split: "d = take ?n d @ trim_oldest m d"
    by (simp add: trim_oldest_drop)
  from wf have "distinct (keys (take ?n d) @ keys (trim_oldest m d))"
    by (metis split keys_simps(3) wf_dict_def)
  with k have "k \<notin> set (keys (take ?n d))" by auto
  then have "map_of (take ?n d) k = None" by (simp add: map_of_None_keys)
  then show "map_of (trim_oldest m d) k = map_of d k"
    by (subst (2) split) (simp add: map_add_def split: option.splits)
qed

lemma in_map_filter: "y \<in> set (List.map_filter f xs) \<longleftrightarrow> (\<exists>x \<in> set xs. f x = Some y)"
  by (auto simp: List.map_filter_def image_iff)

lemma wf_dict_setdefault [intro]: "wf_dict b \<Longrightarrow> wf_dict (setdefault k v b)"
  by (auto simp: setdefault_def wf_dict_def map_of_None_keys split: option.splits)

lemma keys_setdefault: "set (keys (setdefault k v b)) = insert k (set (keys b))"
  by (auto simp: setdefault_def map_of_None_keys domI set_keys split: option.splits)

lemma map_of_setdefault: "map_of (setdefault k v d) q = (if q = k \<and> map_of d k = None then Some v else map_of d q)"
  by (simp add: setdefault_def map_add_def split: option.split)

section \<open>Bounded buffers that evict their oldest entry\<close>

text \<open>
  Job buffers, the submission queue, the pending queues of the capture coordinator and the
  recently-seen sets all promise the same: an added entry is kept, and over the cap the oldest
  entries go first. The contract is stated on the list of the entries, oldest first.
\<close>

locale bounded_fifo =
  fixes items :: "'s \<Rightarrow> 'x list"
    and add :: "'x \<Rightarrow> 's \<Rightarrow> 's"
    and cap :: nat
  assumes cap_pos: "0 < cap"
    and items_add: "length (items s) \<le> cap \<Longrightarrow>
      items (add x s) = drop (length (items s) + 1 - cap) (items s @ [x])"
begin

lemma add_bounded: "length (items s) \<le> cap \<Longrightarrow> length (items (add x s)) \<le> cap"
  by (simp add: items_add)

lemma add_keeps_newest: "length (items s) \<le> cap \<Longrightarrow> last (items (add x s)) = x"
  using cap_pos by (simp add: items_add drop_append)

lemma add_under_cap: "length (items s) < cap \<Longrightarrow> items (add x s) = items s @ [x]"
  by (simp add: items_add)

lemma add_at_cap: "length (items s) = cap \<Longrightarrow> items (add x s) = tl (items s) @ [x]"
  using cap_pos by (cases "items s") (auto simp: items_add)

lemma fold_add:
  "length (items s) \<le> cap \<Longrightarrow>
   items (fold add xs s) = drop (length (items s) + length xs - cap) (items s @ xs)"
proof (induction xs arbitrary: s)
  case Nil
  then show ?case by simp
next
  case (Cons x xs)
  let ?d = "length (items s) + 1 - cap"
  have add_eq: "items (add x s) = drop ?d (items s @ [x])"
    using Cons.prems by (rule items_add)
  have d: "?d \<le> length (items s)" using cap_pos by simp
  have len: "length (items (add x s)) = length (items s) + 1 - ?d"
    using d by (simp add: add_eq)
  have "items (fold add xs (add x s)) =
      drop (length (items (add x s)) + length xs - cap) (items (add x s) @ xs)"
    using Cons.prems add_bounded by (blast intro: Cons.IH)
  also have "items (add x s) @ xs = drop ?d (items s @ x # xs)"
    using d by (simp add: add_eq)
  also have "drop (length (items (add x s)) + length xs - cap) (drop ?d (items s @ x # xs)) =
      drop (length (items s) + length (x # xs) - cap) (items s @ x # xs)"
  proof -
    have "length (items (add x s)) + length xs - cap + ?d = length (items s) + length (x # xs) - cap"
      using len d Cons.prems cap_pos by auto
    then show ?thesis by (simp only: drop_drop)
  qed
  finally show ?case by simp
qed

lemma fold_add_bounded: "length (items s) \<le> cap \<Longrightarrow> length (items (fold add xs s)) \<le> cap"
  by (simp add: fold_add)

end

section \<open>Self-delimiting encodings\<close>

text \<open>
  A wire element: the decoder recovers the encoded value from the front of a stream and returns
  what follows it. Streams of such elements parse unambiguously.
\<close>

locale frame_codec =
  fixes valid :: "'a \<Rightarrow> bool"
    and enc :: "'a \<Rightarrow> 'b list"
    and dec :: "'b list \<Rightarrow> ('e + ('a \<times> 'b list))"
  assumes dec_enc: "valid x \<Longrightarrow> dec (enc x @ rest) = Inr (x, rest)"
begin

lemma enc_inj:
  assumes "valid x" "valid y" "enc x @ r = enc y @ s"
  shows "x = y \<and> r = s"
proof -
  have "Inr (x, r) = dec (enc x @ r)" using assms(1) by (rule dec_enc [symmetric])
  also have "\<dots> = dec (enc y @ s)" by (simp only: assms(3))
  also have "\<dots> = Inr (y, s)" using assms(2) by (rule dec_enc)
  finally show ?thesis by simp
qed

lemma enc_prefix_free: "valid x \<Longrightarrow> valid y \<Longrightarrow> enc x @ r = enc y \<Longrightarrow> r = []"
  using enc_inj [of x y r "[]"] by (simp only: append_Nil2)

lemma enc_stream_inj:
  "list_all valid xs \<Longrightarrow> list_all valid ys \<Longrightarrow> length xs = length ys \<Longrightarrow>
   concat (List.map enc xs) @ r = concat (List.map enc ys) @ s \<Longrightarrow> xs = ys \<and> r = s"
proof (induction xs ys rule: list_induct2')
  case (4 x xs y ys)
  then have "enc x @ (concat (List.map enc xs) @ r) = enc y @ (concat (List.map enc ys) @ s)"
    by simp
  with "4.prems" have eq: "x = y \<and> concat (List.map enc xs) @ r = concat (List.map enc ys) @ s"
    by (intro enc_inj) simp_all
  with "4.IH" "4.prems" show ?case by simp
qed simp_all

end

end
