(* ===== verification/PyText.thy ===== *)
theory PyText
  imports Prelude
begin

text \<open>
  Python text and dynamic values, as far as the source uses them.
  \<^item> A \<open>str\<close> is the list of the bytes of its UTF-8 encoding, one \<open>char\<close> per byte, so that
    \<open>encode("utf-8")\<close> and comparison by code points are the identity and the order on lists;
    \<open>len\<close> and slicing count code points (\<open>py_len\<close>, \<open>py_take\<close>). \<open>strip\<close>, \<open>lower\<close> and \<open>upper\<close>
    act on the ASCII range; the other Unicode spaces and letters are left alone.
  \<^item> \<open>pyval\<close> is a value of \<open>json.loads\<close> or of a config-down block: the type tests, truthiness,
    \<open>int()\<close>, \<open>str()\<close> and dictionary accesses of the source are functions on it. \<open>nan\<close> and the
    infinities are not represented.
\<close>

section \<open>Text\<close>

type_synonym byte = "8 word"

definition is_cont_char :: "char \<Rightarrow> bool" where
  "is_cont_char c \<longleftrightarrow> 128 \<le> (of_char c :: nat) \<and> (of_char c :: nat) < 192"

definition py_len :: "string \<Rightarrow> nat" where
  "py_len s = length (List.filter (\<lambda>c. \<not> is_cont_char c) s)"

fun py_take :: "nat \<Rightarrow> string \<Rightarrow> string" where
  "py_take n [] = []"
| "py_take n (c # cs) =
     (if is_cont_char c then c # py_take n cs
      else (case n of 0 \<Rightarrow> [] | Suc m \<Rightarrow> c # py_take m cs))"

definition is_space :: "char \<Rightarrow> bool" where
  "is_space c \<longleftrightarrow> (let n = (of_char c :: nat) in (9 \<le> n \<and> n \<le> 13) \<or> (28 \<le> n \<and> n \<le> 32))"

definition lstrip_by :: "(char \<Rightarrow> bool) \<Rightarrow> string \<Rightarrow> string" where
  "lstrip_by P s = dropWhile P s"

definition rstrip_by :: "(char \<Rightarrow> bool) \<Rightarrow> string \<Rightarrow> string" where
  "rstrip_by P s = rev (dropWhile P (rev s))"

definition strip :: "string \<Rightarrow> string" where
  "strip s = rstrip_by is_space (lstrip_by is_space s)"

definition lower_char :: "char \<Rightarrow> char" where
  "lower_char c = (let n = (of_char c :: nat) in if 65 \<le> n \<and> n \<le> 90 then char_of (n + 32) else c)"

definition upper_char :: "char \<Rightarrow> char" where
  "upper_char c = (let n = (of_char c :: nat) in if 97 \<le> n \<and> n \<le> 122 then char_of (n - 32) else c)"

definition lower :: "string \<Rightarrow> string" where
  "lower s = List.map lower_char s"

definition upper :: "string \<Rightarrow> string" where
  "upper s = List.map upper_char s"

definition startswith :: "string \<Rightarrow> string \<Rightarrow> bool" where
  "startswith p s \<longleftrightarrow> List.take (length p) s = p"

definition endswith :: "string \<Rightarrow> string \<Rightarrow> bool" where
  "endswith p s \<longleftrightarrow> length p \<le> length s \<and> List.drop (length s - length p) s = p"

fun split_on :: "char \<Rightarrow> string \<Rightarrow> string list" where
  "split_on c [] = [[]]"
| "split_on c (x # xs) =
     (if x = c then [] # split_on c xs
      else (case split_on c xs of [] \<Rightarrow> [[x]] | w # ws \<Rightarrow> (x # w) # ws))"

fun join :: "string \<Rightarrow> string list \<Rightarrow> string" where
  "join sep [] = []"
| "join sep [w] = w"
| "join sep (w # ws) = w @ sep @ join sep ws"

text \<open>\<open>os.path.basename\<close> and \<open>pathlib.Path(...).name\<close> on POSIX paths.\<close>

definition basename :: "string \<Rightarrow> string" where
  "basename s = last (split_on (CHR ''/'') s)"

definition path_name :: "string \<Rightarrow> string" where
  "path_name s = (let ps = List.filter (\<lambda>p. p \<noteq> [] \<and> p \<noteq> ''.'') (split_on (CHR ''/'') s)
     in if ps = [] then [] else last ps)"

lemma split_on_nonempty [simp]: "split_on c s \<noteq> []"
  by (induction s) (auto split: list.splits)

lemma split_on_no_sep: "w \<in> set (split_on c s) \<Longrightarrow> c \<notin> set w"
proof (induction s arbitrary: w)
  case (Cons x xs)
  obtain v vs where vs: "split_on c xs = v # vs"
    using split_on_nonempty by (cases "split_on c xs") blast+
  from Cons.prems show ?case
    using Cons.IH by (auto simp: vs split: if_splits)
qed simp

lemma join_split_on: "join [c] (split_on c s) = s"
proof (induction s)
  case (Cons x xs)
  obtain v vs where vs: "split_on c xs = v # vs"
    using split_on_nonempty by (cases "split_on c xs") blast+
  then show ?case using Cons.IH by (cases vs) auto
qed simp

lemma split_on_simple: "c \<notin> set s \<Longrightarrow> split_on c s = [s]"
  by (induction s) auto

lemma split_on_append: "c \<notin> set s \<Longrightarrow> split_on c (s @ c # t) = s # split_on c t"
  by (induction s) auto

lemma path_name_no_slash: "CHR ''/'' \<notin> set (path_name s)"
proof -
  let ?ps = "List.filter (\<lambda>p. p \<noteq> [] \<and> p \<noteq> ''.'') (split_on (CHR ''/'') s)"
  show ?thesis
  proof (cases "?ps = []")
    case True
    then show ?thesis by (simp add: path_name_def)
  next
    case False
    then have "path_name s \<in> set (split_on (CHR ''/'') s)"
      using last_in_set [OF False] by (simp add: path_name_def del: split_on.simps)
    then show ?thesis by (rule split_on_no_sep)
  qed
qed

lemma basename_no_slash: "CHR ''/'' \<notin> set (basename s)"
  by (metis basename_def last_in_set split_on_no_sep split_on_nonempty)

lemma basename_id: "CHR ''/'' \<notin> set s \<Longrightarrow> basename s = s"
  by (simp add: basename_def split_on_simple)

lemma strip_length: "length (strip s) \<le> length s"
  by (simp add: strip_def rstrip_by_def lstrip_by_def)
     (metis length_dropWhile_le length_rev order_trans)

lemma set_strip: "set (strip s) \<subseteq> set s"
  by (auto simp: strip_def rstrip_by_def lstrip_by_def dest!: set_dropWhileD)

lemma py_len_take: "py_len (py_take n s) \<le> n"
  by (induction n s rule: py_take.induct) (auto simp: py_len_def split: nat.splits)

lemma py_take_id: "py_len s \<le> n \<Longrightarrow> py_take n s = s"
  by (induction n s rule: py_take.induct) (auto simp: py_len_def split: nat.splits if_splits)

section \<open>Integers and their decimal text\<close>

definition is_digit :: "char \<Rightarrow> bool" where
  "is_digit c \<longleftrightarrow> 48 \<le> (of_char c :: nat) \<and> (of_char c :: nat) \<le> 57"

definition digit_val :: "char \<Rightarrow> nat" where
  "digit_val c = (of_char c :: nat) - 48"

definition digit_char :: "nat \<Rightarrow> char" where
  "digit_char d = char_of (d + 48)"

fun nat_str :: "nat \<Rightarrow> string" where
  "nat_str n = (if n < 10 then [digit_char n] else nat_str (n div 10) @ [digit_char (n mod 10)])"

declare nat_str.simps [simp del]

definition int_str :: "int \<Rightarrow> string" where
  "int_str i = (if i < 0 then CHR ''-'' # nat_str (nat (- i)) else nat_str (nat i))"

definition nat_of_digits :: "string \<Rightarrow> nat" where
  "nat_of_digits s = foldl (\<lambda>a c. 10 * a + digit_val c) 0 s"

text \<open>
  The digits \<open>int()\<close> accepts: one or more decimal digits, single underscores between them.
\<close>

fun digit_run :: "string \<Rightarrow> bool" where
  "digit_run [] = False"
| "digit_run [c] = is_digit c"
| "digit_run (c # d # cs) =
     (is_digit c \<and> (if d = CHR ''_'' then digit_run cs else digit_run (d # cs)))"

definition int_of_str :: "string \<Rightarrow> int option" where
  "int_of_str s = (let t = strip s;
     neg = (t \<noteq> [] \<and> hd t = CHR ''-'');
     body = (if t \<noteq> [] \<and> (hd t = CHR ''-'' \<or> hd t = CHR ''+'') then tl t else t)
     in if digit_run body
        then Some ((if neg then -1 else 1) *
                   int (nat_of_digits (List.filter (\<lambda>c. c \<noteq> CHR ''_'') body)))
        else None)"

lemma of_char_digit_char: "d < 10 \<Longrightarrow> (of_char (digit_char d) :: nat) = d + 48"
  by (simp add: digit_char_def)

lemma is_digit_digit_char [simp]: "d < 10 \<Longrightarrow> is_digit (digit_char d)"
  by (simp add: is_digit_def of_char_digit_char)

lemma digit_val_char [simp]: "d < 10 \<Longrightarrow> digit_val (digit_char d) = d"
  by (simp add: digit_val_def of_char_digit_char)

lemma nat_str_digits: "list_all is_digit (nat_str n) \<and> nat_str n \<noteq> []"
proof (induction n rule: nat_str.induct)
  case (1 n)
  then show ?case by (subst (1 2) nat_str.simps) auto
qed

lemma nat_of_digits_snoc: "nat_of_digits (s @ [c]) = 10 * nat_of_digits s + digit_val c"
  by (simp add: nat_of_digits_def)

lemma nat_of_digits_nat_str [simp]: "nat_of_digits (nat_str n) = n"
proof (induction n rule: nat_str.induct)
  case (1 n)
  show ?case
  proof (cases "n < 10")
    case True
    then show ?thesis by (simp add: nat_str.simps nat_of_digits_def)
  next
    case False
    with "1.IH" show ?thesis by (subst nat_str.simps) (simp add: nat_of_digits_snoc)
  qed
qed

lemma digit_not_special: "is_digit c \<Longrightarrow> \<not> is_space c \<and> c \<noteq> CHR ''_'' \<and> c \<noteq> CHR ''-'' \<and> c \<noteq> CHR ''+''"
  by (auto simp: is_digit_def is_space_def Let_def)

lemma digit_run_digits: "list_all is_digit s \<Longrightarrow> s \<noteq> [] \<Longrightarrow> digit_run s"
  by (induction s rule: digit_run.induct) (auto dest: digit_not_special)

lemma strip_ends: "s \<noteq> [] \<Longrightarrow> \<not> is_space (hd s) \<Longrightarrow> \<not> is_space (last s) \<Longrightarrow> strip s = s"
proof -
  assume s: "s \<noteq> []" "\<not> is_space (hd s)" "\<not> is_space (last s)"
  have l: "lstrip_by is_space s = s"
    using s by (cases s) (auto simp: lstrip_by_def)
  have "rev s \<noteq> []" "\<not> is_space (hd (rev s))"
    using s by (simp_all add: hd_rev)
  then have "dropWhile is_space (rev s) = rev s"
    by (cases "rev s") auto
  then show "strip s = s" by (simp add: strip_def l rstrip_by_def)
qed

lemma int_of_str_int_str [simp]: "int_of_str (int_str i) = Some i"
proof -
  let ?n = "nat \<bar>i\<bar>"
  have d: "list_all is_digit (nat_str ?n)" "nat_str ?n \<noteq> []"
    using nat_str_digits by auto
  have run: "digit_run (nat_str ?n)" using d by (rule digit_run_digits)
  have filt: "List.filter (\<lambda>c. c \<noteq> CHR ''_'') (nat_str ?n) = nat_str ?n"
    using d(1) by (auto simp: list_all_iff filter_id_conv dest: digit_not_special)
  have hd: "is_digit (hd (nat_str ?n))" and lst: "is_digit (last (nat_str ?n))"
    using d by (simp_all add: list_all_iff)
  show ?thesis
  proof (cases "i < 0")
    case True
    then have s: "int_str i = CHR ''-'' # nat_str ?n" by (simp add: int_str_def)
    have "strip (int_str i) = int_str i"
      using lst d(2) by (intro strip_ends) (auto simp: s is_space_def Let_def dest: digit_not_special)
    with True run filt show ?thesis by (simp add: int_of_str_def Let_def s)
  next
    case False
    then have s: "int_str i = nat_str ?n" by (simp add: int_str_def)
    have "strip (nat_str ?n) = nat_str ?n"
      using hd lst d(2) by (intro strip_ends) (auto dest: digit_not_special)
    moreover have "hd (nat_str ?n) \<noteq> CHR ''-''" "hd (nat_str ?n) \<noteq> CHR ''+''"
      using hd by (auto dest: digit_not_special)
    ultimately show ?thesis
      using False run filt by (simp add: int_of_str_def Let_def s)
  qed
qed

section \<open>Dynamic values\<close>

datatype pyval =
    PNone
  | PBool bool
  | PInt int
  | PFloat real
  | PStr string
  | PList "pyval list"
  | PDict "(string \<times> pyval) list"

fun truthy :: "pyval \<Rightarrow> bool" where
  "truthy PNone = False"
| "truthy (PBool b) = b"
| "truthy (PInt i) = (i \<noteq> 0)"
| "truthy (PFloat r) = (r \<noteq> 0)"
| "truthy (PStr s) = (s \<noteq> [])"
| "truthy (PList xs) = (xs \<noteq> [])"
| "truthy (PDict d) = (d \<noteq> [])"

fun is_dict :: "pyval \<Rightarrow> bool" where
  "is_dict (PDict d) = True"
| "is_dict _ = False"

fun is_str :: "pyval \<Rightarrow> bool" where
  "is_str (PStr s) = True"
| "is_str _ = False"

fun is_list :: "pyval \<Rightarrow> bool" where
  "is_list (PList xs) = True"
| "is_list _ = False"

fun as_dict :: "pyval \<Rightarrow> (string \<times> pyval) list" where
  "as_dict (PDict d) = d"
| "as_dict _ = []"

text \<open>\<open>d.get(k)\<close>, and the same with a default; \<open>a or b\<close> on values.\<close>

definition pget :: "(string \<times> pyval) list \<Rightarrow> string \<Rightarrow> pyval" where
  "pget d k = get_or d k PNone"

definition por :: "pyval \<Rightarrow> pyval \<Rightarrow> pyval" where
  "por a b = (if truthy a then a else b)"

text \<open>
  \<open>isinstance(v, (int, float))\<close> (a \<open>bool\<close> is an \<open>int\<close>) with the number, and \<open>isinstance(v, int)\<close>.
\<close>

fun num_of :: "pyval \<Rightarrow> real option" where
  "num_of (PBool b) = Some (if b then 1 else 0)"
| "num_of (PInt i) = Some (of_int i)"
| "num_of (PFloat r) = Some r"
| "num_of _ = None"

fun int_of :: "pyval \<Rightarrow> int option" where
  "int_of (PBool b) = Some (if b then 1 else 0)"
| "int_of (PInt i) = Some i"
| "int_of _ = None"

definition trunc_real :: "real \<Rightarrow> int" where
  "trunc_real r = (if 0 \<le> r then \<lfloor>r\<rfloor> else \<lceil>r\<rceil>)"

text \<open>\<open>int(v)\<close>: \<open>None\<close> where it raises \<open>TypeError\<close> or \<open>ValueError\<close>.\<close>

fun py_int :: "pyval \<Rightarrow> int option" where
  "py_int (PBool b) = Some (if b then 1 else 0)"
| "py_int (PInt i) = Some i"
| "py_int (PFloat r) = Some (trunc_real r)"
| "py_int (PStr s) = int_of_str s"
| "py_int _ = None"

text \<open>
  \<open>str(v)\<close>. The text Python prints for floats, lists and dictionaries is a parameter \<open>rep\<close>.
\<close>

fun py_str :: "(pyval \<Rightarrow> string) \<Rightarrow> pyval \<Rightarrow> string" where
  "py_str rep PNone = ''None''"
| "py_str rep (PBool b) = (if b then ''True'' else ''False'')"
| "py_str rep (PInt i) = int_str i"
| "py_str rep (PStr s) = s"
| "py_str rep v = rep v"

text \<open>\<open>round(x)\<close>: to the nearest integer, halves to the even one.\<close>

definition py_round :: "real \<Rightarrow> int" where
  "py_round x = (let f = \<lfloor>x\<rfloor>; d = x - of_int f
     in if d < 1/2 then f else if 1/2 < d then f + 1 else if even f then f else f + 1)"

lemma py_round_of_int [simp]: "py_round (of_int i) = i"
  by (simp add: py_round_def Let_def)

lemma py_round_diff: "\<bar>of_int (py_round x) - x\<bar> \<le> 1/2"
proof -
  have "of_int \<lfloor>x\<rfloor> \<le> x" "x < of_int \<lfloor>x\<rfloor> + 1" by linarith+
  then show ?thesis by (auto simp: py_round_def Let_def abs_le_iff)
qed

lemma py_round_mono: "x \<le> y \<Longrightarrow> py_round x \<le> py_round y"
proof -
  assume xy: "x \<le> y"
  have fx: "of_int \<lfloor>x\<rfloor> \<le> x" "x < of_int \<lfloor>x\<rfloor> + 1"
    and fy: "of_int \<lfloor>y\<rfloor> \<le> y" "y < of_int \<lfloor>y\<rfloor> + 1" by linarith+
  have "\<lfloor>x\<rfloor> \<le> \<lfloor>y\<rfloor>" using xy by (rule floor_mono)
  then consider "\<lfloor>x\<rfloor> = \<lfloor>y\<rfloor>" | "\<lfloor>x\<rfloor> + 1 \<le> \<lfloor>y\<rfloor>" by linarith
  then show ?thesis
  proof cases
    case 1
    then show ?thesis using xy by (auto simp: py_round_def Let_def)
  next
    case 2
    then show ?thesis by (auto simp: py_round_def Let_def)
  qed
qed

lemma py_round_range: "of_int a \<le> x \<Longrightarrow> x \<le> of_int b \<Longrightarrow> a \<le> py_round x \<and> py_round x \<le> b"
  using py_round_mono [of "of_int a" x] py_round_mono [of x "of_int b"] by simp

end
