(* ===== verification/VpAuth.thy ===== *)
theory VpAuth
  imports PyText
begin

text \<open>
  \<open>makeros_hub/vprinter/auth.py\<close>: the access-code check of the virtual printer and its failure
  rate limiter. The clock reading of each call is an argument \<open>now\<close>; the SHA-256 hex digest is
  the parameter \<open>sha\<close>. The lemmas show that the two LRU buckets are bounded, that they
  agree with a plain log of all failures as long as nothing is evicted, and that a grant is backed
  by a configured member hash.
\<close>

section \<open>State\<close>

type_synonym bucket = "(string, real list) odict"

record rate_limiter =
  rl_limit :: int
  rl_window :: real
  rl_max_keys :: nat
  rl_by_ip :: bucket
  rl_by_code :: bucket

definition new_limiter :: "int \<Rightarrow> real \<Rightarrow> int \<Rightarrow> rate_limiter" where
  "new_limiter limit window max_keys =
     \<lparr>rl_limit = limit, rl_window = window, rl_max_keys = nat (max 1 max_keys),
      rl_by_ip = [], rl_by_code = []\<rparr>"

definition default_limiter :: rate_limiter where
  "default_limiter = new_limiter 5 60 1024"

record auth_result =
  ar_ok :: bool
  ar_member :: "string option"
  ar_limited :: bool

record member =
  mem_hash :: string
  mem_id :: string

section \<open>The rate limiter\<close>

definition ip_key :: "string option \<Rightarrow> string" where
  "ip_key ip = (case ip of None \<Rightarrow> ''<unknown>'' | Some s \<Rightarrow> if s = [] then ''<unknown>'' else s)"

definition code_key :: "string option \<Rightarrow> string" where
  "code_key code = (case code of None \<Rightarrow> ''<missing>'' | Some s \<Rightarrow> if s = [] then ''<missing>'' else s)"

definition prune :: "real \<Rightarrow> real list \<Rightarrow> real \<Rightarrow> real list" where
  "prune window events now = dropWhile (\<lambda>e. e < now - window) events"

fun prune_bucket :: "real \<Rightarrow> bucket \<Rightarrow> real \<Rightarrow> bucket" where
  "prune_bucket w [] now = []"
| "prune_bucket w ((k, es) # b) now =
     (if prune w es now = [] then prune_bucket w b now
      else (k, prune w es now) # prune_bucket w b now)"

definition count_for_key :: "real \<Rightarrow> bucket \<Rightarrow> string \<Rightarrow> real \<Rightarrow> nat \<times> bucket" where
  "count_for_key w b key now =
     (case map_of b key of
        None \<Rightarrow> (0, b)
      | Some events \<Rightarrow>
          (let es = prune w events now
           in if es \<noteq> [] then (length es, move_to_end key (AList.update key es b))
              else (0, AList.delete key b)))"

definition append_event :: "real \<Rightarrow> nat \<Rightarrow> bucket \<Rightarrow> string \<Rightarrow> real \<Rightarrow> bucket" where
  "append_event w max_keys b key now =
     (let es = (case map_of b key of None \<Rightarrow> [] | Some events \<Rightarrow> prune w events now);
          b' = AList.update key (es @ [now]) b
      in trim_oldest max_keys (move_to_end key b'))"

definition prune_all :: "rate_limiter \<Rightarrow> real \<Rightarrow> rate_limiter" where
  "prune_all rl now = rl\<lparr>rl_by_ip := prune_bucket (rl_window rl) (rl_by_ip rl) now,
     rl_by_code := prune_bucket (rl_window rl) (rl_by_code rl) now\<rparr>"

definition is_limited :: "rate_limiter \<Rightarrow> string option \<Rightarrow> string option \<Rightarrow> real \<Rightarrow> bool \<times> rate_limiter" where
  "is_limited rl0 ip code now =
     (let rl = prune_all rl0 now;
          (n_ip, b_ip) = count_for_key (rl_window rl) (rl_by_ip rl) (ip_key ip) now;
          rl1 = rl\<lparr>rl_by_ip := b_ip\<rparr>
      in if rl_limit rl \<le> int n_ip then (True, rl1)
         else
           (let (n_code, b_code) = count_for_key (rl_window rl) (rl_by_code rl) (code_key code) now
            in (rl_limit rl \<le> int n_code, rl1\<lparr>rl_by_code := b_code\<rparr>)))"

definition record_failure :: "rate_limiter \<Rightarrow> string option \<Rightarrow> string option \<Rightarrow> real \<Rightarrow> rate_limiter" where
  "record_failure rl0 ip code now =
     (let rl = prune_all rl0 now
      in rl\<lparr>rl_by_ip := append_event (rl_window rl) (rl_max_keys rl) (rl_by_ip rl) (ip_key ip) now,
            rl_by_code := append_event (rl_window rl) (rl_max_keys rl) (rl_by_code rl) (code_key code) now\<rparr>)"

section \<open>The member set\<close>

record auth_set =
  as_members :: "member list"
  as_limiter :: rate_limiter

definition replace_members :: "auth_set \<Rightarrow> member list \<Rightarrow> auth_set" where
  "replace_members a ms = a\<lparr>as_members := ms\<rparr>"

fun lookup_loop :: "bool \<Rightarrow> string \<Rightarrow> string option \<Rightarrow> member list \<Rightarrow> string option" where
  "lookup_loop candidate provided_hash matched [] = matched"
| "lookup_loop candidate provided_hash matched (m # ms) =
     (let is_match = (provided_hash = mem_hash m)
      in lookup_loop candidate provided_hash
           (if candidate \<and> is_match \<and> matched = None then Some (mem_id m) else matched) ms)"

definition lookup_member_id :: "(string \<Rightarrow> string) \<Rightarrow> member list \<Rightarrow> string option \<Rightarrow> string option" where
  "lookup_member_id sha members access_code =
     (let provided = (case access_code of None \<Rightarrow> [] | Some s \<Rightarrow> s);
          provided_hash = sha provided;
          candidate = (8 \<le> py_len provided)
      in lookup_loop candidate provided_hash None members)"

definition authenticate ::
  "(string \<Rightarrow> string) \<Rightarrow> auth_set \<Rightarrow> string option \<Rightarrow> string option \<Rightarrow> real \<Rightarrow> auth_result \<times> auth_set" where
  "authenticate sha a access_code ip now =
     (let (limited, rl) = is_limited (as_limiter a) ip access_code now
      in if limited then
           (\<lparr>ar_ok = False, ar_member = None, ar_limited = True\<rparr>, a\<lparr>as_limiter := rl\<rparr>)
         else
           (case lookup_member_id sha (as_members a) access_code of
              Some mid \<Rightarrow>
                (\<lparr>ar_ok = True, ar_member = Some mid, ar_limited = False\<rparr>, a\<lparr>as_limiter := rl\<rparr>)
            | None \<Rightarrow>
                (\<lparr>ar_ok = False, ar_member = None, ar_limited = False\<rparr>,
                 a\<lparr>as_limiter := record_failure rl ip access_code now\<rparr>)))"

definition auth_record_failure :: "auth_set \<Rightarrow> string option \<Rightarrow> string option \<Rightarrow> real \<Rightarrow> auth_set" where
  "auth_record_failure a access_code ip now =
     a\<lparr>as_limiter := record_failure (as_limiter a) ip access_code now\<rparr>"

section \<open>Lookup: the first member with the code's hash\<close>

lemma lookup_loop_Some [simp]: "lookup_loop c h (Some x) ms = Some x"
  by (induction ms) auto

lemma lookup_loop_find:
  "lookup_loop c h None ms =
     (if c then map_option mem_id (List.find (\<lambda>m. mem_hash m = h) ms) else None)"
  by (induction ms) (auto simp: Let_def)

lemma lookup_member_id_find:
  "lookup_member_id sha ms (Some code) =
     (if 8 \<le> py_len code
      then map_option mem_id (List.find (\<lambda>m. mem_hash m = sha code) ms) else None)"
  by (simp add: lookup_member_id_def lookup_loop_find)

lemma lookup_member_id_None [simp]: "lookup_member_id sha ms None = None"
  by (simp add: lookup_member_id_def lookup_loop_find py_len_def)

lemma lookup_member_id_Some:
  "lookup_member_id sha ms access_code = Some mid \<Longrightarrow>
   \<exists>code m. access_code = Some code \<and> 8 \<le> py_len code \<and> m \<in> set ms \<and>
     mem_hash m = sha code \<and> mem_id m = mid"
  by (cases access_code)
     (auto simp: lookup_member_id_find find_Some_iff in_set_conv_nth split: if_splits)

section \<open>Well-formedness and bounds\<close>

definition limiter_inv :: "rate_limiter \<Rightarrow> bool" where
  "limiter_inv rl \<longleftrightarrow> wf_dict (rl_by_ip rl) \<and> wf_dict (rl_by_code rl) \<and>
     length (rl_by_ip rl) \<le> rl_max_keys rl \<and> length (rl_by_code rl) \<le> rl_max_keys rl"

lemma keys_prune_bucket: "set (keys (prune_bucket w b now)) \<subseteq> set (keys b)"
  by (induction w b now rule: prune_bucket.induct) auto

lemma wf_prune_bucket [inv_intros]: "wf_dict b \<Longrightarrow> wf_dict (prune_bucket w b now)"
proof (induction w b now rule: prune_bucket.induct)
  case (2 w k es b now)
  then show ?case using keys_prune_bucket [of w b now] by (auto simp: wf_dict_def)
qed simp

lemma length_prune_bucket: "length (prune_bucket w b now) \<le> length b"
  by (induction w b now rule: prune_bucket.induct) auto

lemma wf_count_for_key: "wf_dict b \<Longrightarrow> wf_dict (snd (count_for_key w b k now))"
  by (auto simp: count_for_key_def Let_def split: option.splits)

lemma map_of_in_keys: "map_of b k = Some v \<Longrightarrow> k \<in> set (keys b)"
  by (simp add: set_keys domI)

lemma length_count_for_key:
  "wf_dict b \<Longrightarrow> length (snd (count_for_key w b k now)) \<le> length b"
  using AList.length_delete_le [of k b]
  by (auto simp: count_for_key_def Let_def length_move_to_end wf_dict_update length_update
      map_of_in_keys split: option.splits)

lemma wf_append_event: "wf_dict b \<Longrightarrow> wf_dict (append_event w m b k now)"
  by (auto simp: append_event_def Let_def)

lemma length_append_event: "length (append_event w m b k now) \<le> m"
  by (simp add: append_event_def Let_def)

lemma limiter_inv_new [simp]: "limiter_inv (new_limiter l w m)"
  by (simp add: limiter_inv_def new_limiter_def)

lemma limiter_inv_prune_all: "limiter_inv rl \<Longrightarrow> limiter_inv (prune_all rl now)"
  by (auto simp: limiter_inv_def prune_all_def wf_prune_bucket intro: le_trans [OF length_prune_bucket])

lemma limiter_inv_record: "limiter_inv rl \<Longrightarrow> limiter_inv (record_failure rl ip code now)"
  by (auto simp: limiter_inv_def record_failure_def prune_all_def Let_def wf_prune_bucket
      wf_append_event length_append_event)

lemma limiter_inv_is_limited: "limiter_inv rl \<Longrightarrow> limiter_inv (snd (is_limited rl ip code now))"
proof -
  assume inv: "limiter_inv rl"
  then have p: "limiter_inv (prune_all rl now)" by (rule limiter_inv_prune_all)
  let ?r = "prune_all rl now"
  have "wf_dict (snd (count_for_key w b k now)) \<and> length (snd (count_for_key w b k now)) \<le> m"
    if "wf_dict b" "length b \<le> m" for w b k m
    using that wf_count_for_key [of b w k now] length_count_for_key [of b w k now] by linarith
  then show ?thesis using p
    by (simp add: is_limited_def limiter_inv_def Let_def split: prod.split)
       (metis (no_types, lifting) snd_conv)
qed

section \<open>The buckets against a log of all failures\<close>

text \<open>
  The specification keeps every failure as a pair of key and time and counts those of the key that
  are still inside the window. As long as no more than \<open>max_keys\<close> different keys have failed,
  nothing is evicted and the two LRU buckets answer exactly as the log does.
\<close>

definition live :: "real \<Rightarrow> (string \<times> real) list \<Rightarrow> string \<Rightarrow> real \<Rightarrow> real list" where
  "live w h k now = List.map snd (List.filter (\<lambda>(k', t). k' = k \<and> \<not> t < now - w) h)"

definition agrees :: "real \<Rightarrow> bucket \<Rightarrow> (string \<times> real) list \<Rightarrow> real \<Rightarrow> bool" where
  "agrees w b h T \<longleftrightarrow> wf_dict b \<and> set (keys b) \<subseteq> fst ` set h \<and>
     (\<forall>k. \<forall>e \<in> set (get_or b k []). e \<le> T) \<and>
     (\<forall>k now. T \<le> now \<longrightarrow> prune w (get_or b k []) now = live w h k now)"

lemma prune_Nil [simp]: "prune w [] now = []"
  by (simp add: prune_def)

lemma prune_prune: "now \<le> now' \<Longrightarrow> prune w (prune w es now) now' = prune w es now'"
  by (induction es) (auto simp: prune_def)

lemma set_prune: "set (prune w es now) \<subseteq> set es"
  by (auto simp: prune_def dest: set_dropWhileD)

lemma prune_snoc:
  "\<forall>e\<in>set es. e \<le> t \<Longrightarrow>
   prune w (es @ [t]) now = prune w es now @ (if t < now - w then [] else [t])"
  by (induction es) (auto simp: prune_def)

lemma live_snoc:
  "live w (h @ [(k', t)]) k now = live w h k now @ (if k' = k \<and> \<not> t < now - w then [t] else [])"
  by (simp add: live_def)

lemma get_or_prune_bucket:
  "wf_dict b \<Longrightarrow> get_or (prune_bucket w b now) k [] = prune w (get_or b k []) now"
proof (induction w b now rule: prune_bucket.induct)
  case (2 w k' es b now)
  then have "k' \<notin> set (keys (prune_bucket w b now))" "wf_dict b"
    using keys_prune_bucket [of w b now] by (auto simp: wf_dict_def)
  moreover have "k' \<notin> set (keys b)" using "2.prems" by (simp add: wf_dict_def)
  ultimately show ?case
    using 2 by (auto simp: get_or_def map_of_None_keys[symmetric] split: option.splits)
qed (simp add: get_or_def)

lemma agrees_empty [simp]: "agrees w [] [] T"
  by (simp add: agrees_def get_or_def live_def)

lemma agrees_prune_bucket:
  assumes "agrees w b h T" and "T \<le> now"
  shows "agrees w (prune_bucket w b now) h now"
  unfolding agrees_def
proof (intro conjI allI ballI impI)
  show "wf_dict (prune_bucket w b now)"
    using assms by (simp add: agrees_def wf_prune_bucket)
  show "set (keys (prune_bucket w b now)) \<subseteq> fst ` set h"
    using assms(1) keys_prune_bucket [of w b now] by (auto simp: agrees_def)
  fix k
  have g: "get_or (prune_bucket w b now) k [] = prune w (get_or b k []) now"
    using assms(1) by (simp add: agrees_def get_or_prune_bucket)
  {
    fix e assume "e \<in> set (get_or (prune_bucket w b now) k [])"
    then have "e \<in> set (get_or b k [])" using set_prune by (auto simp: g)
    then show "e \<le> now" using assms by (force simp: agrees_def)
  next
    fix now' assume now': "now \<le> now'"
    with assms have "prune w (get_or b k []) now' = live w h k now'"
      by (auto simp: agrees_def)
    with now' show "prune w (get_or (prune_bucket w b now) k []) now' = live w h k now'"
      by (simp add: g prune_prune)
  }
qed

lemma agrees_replace:
  assumes "agrees w b h T" and "T \<le> now" and "wf_dict b'" and "set (keys b') \<subseteq> set (keys b)"
    and "\<And>k'. get_or b' k' [] = (if k' = k then prune w (get_or b k []) now else get_or b k' [])"
  shows "agrees w b' h now"
  unfolding agrees_def
proof (intro conjI allI ballI impI)
  show "wf_dict b'" by (rule assms)
  show "set (keys b') \<subseteq> fst ` set h" using assms by (auto simp: agrees_def)
  fix k'
  {
    fix e assume "e \<in> set (get_or b' k' [])"
    then have "e \<in> set (get_or b k' [])"
      using set_prune by (auto simp: assms(5) split: if_splits)
    then show "e \<le> now" using assms(1,2) by (force simp: agrees_def)
  next
    fix now' assume now': "now \<le> now'"
    with assms(1,2) have "prune w (get_or b k' []) now' = live w h k' now'"
      by (auto simp: agrees_def)
    with now' show "prune w (get_or b' k' []) now' = live w h k' now'"
      by (auto simp: assms(5) prune_prune)
  }
qed

lemma count_for_key_get:
  assumes "wf_dict b"
  shows "fst (count_for_key w b k now) = length (prune w (get_or b k []) now)"
    and "get_or (snd (count_for_key w b k now)) k' [] =
      (if k' = k then prune w (get_or b k []) now else get_or b k' [])"
    and "set (keys (snd (count_for_key w b k now))) \<subseteq> set (keys b)"
  using map_of_in_keys [of b k]
  by (auto simp: count_for_key_def Let_def get_or_def map_of_update map_of_delete
      map_of_move_to_end keys_move_to_end keys_update keys_delete split: option.splits)

lemma agrees_count:
  assumes "agrees w b h T" and "T \<le> now"
  shows "fst (count_for_key w b k now) = length (live w h k now)"
    and "agrees w (snd (count_for_key w b k now)) h now"
proof -
  have wf: "wf_dict b" using assms(1) by (simp add: agrees_def)
  show "fst (count_for_key w b k now) = length (live w h k now)"
    using assms by (simp add: count_for_key_get(1) [OF wf] agrees_def)
  show "agrees w (snd (count_for_key w b k now)) h now"
    using assms(1,2) wf_count_for_key [OF wf] count_for_key_get(3) [OF wf] count_for_key_get(2) [OF wf]
    by (rule agrees_replace)
qed

lemma agrees_append:
  assumes ag: "agrees w b h T" and T: "T \<le> now" and w: "0 \<le> w"
    and room: "card (fst ` set (h @ [(k, now)])) \<le> m"
  shows "agrees w (append_event w m b k now) (h @ [(k, now)]) now"
proof -
  let ?es = "prune w (get_or b k []) now"
  let ?b = "move_to_end k (AList.update k (?es @ [now]) b)"
  have wf: "wf_dict ?b" using ag by (auto simp: agrees_def)
  have ks: "set (keys ?b) \<subseteq> fst ` set (h @ [(k, now)])"
    using ag by (auto simp: agrees_def keys_move_to_end keys_update split: if_splits)
  have "length ?b = card (set (keys ?b))"
    using wf by (metis distinct_card length_keys wf_dict_def)
  also have "\<dots> \<le> card (fst ` set (h @ [(k, now)]))"
    using ks by (intro card_mono) auto
  finally have "length ?b \<le> m" using room by simp
  then have eq: "append_event w m b k now = ?b"
    by (auto simp: append_event_def Let_def get_or_def split: option.splits)
  have le: "e \<le> now" if "e \<in> set (get_or b k' [])" for e k'
    using that ag T by (force simp: agrees_def)
  have es_le: "\<forall>e \<in> set ?es. e \<le> now"
    using le set_prune by blast
  show ?thesis
    unfolding eq agrees_def
  proof (intro conjI allI ballI impI)
    show "wf_dict ?b" by (rule wf)
    show "set (keys ?b) \<subseteq> fst ` set (h @ [(k, now)])" by (rule ks)
    fix k'
    have g: "get_or ?b k' [] = (if k' = k then ?es @ [now] else get_or b k' [])"
      by (simp add: get_or_simps)
    {
      fix e assume "e \<in> set (get_or ?b k' [])"
      then show "e \<le> now" using es_le le unfolding g by (auto split: if_splits)
    next
      fix now' assume now': "now \<le> now'"
      have "prune w (get_or b k' []) now' = live w h k' now'"
        using ag T now' by (simp add: agrees_def)
      then show "prune w (get_or ?b k' []) now' = live w (h @ [(k, now)]) k' now'"
        using now' es_le unfolding g by (auto simp: live_snoc prune_snoc prune_prune)
    }
  qed
qed

section \<open>Histories of limiter calls\<close>

datatype limiter_op =
    Fail "string option" "string option" real
  | Check "string option" "string option" real

fun op_time :: "limiter_op \<Rightarrow> real" where
  "op_time (Fail ip code t) = t"
| "op_time (Check ip code t) = t"

fun apply_op :: "rate_limiter \<Rightarrow> limiter_op \<Rightarrow> rate_limiter" where
  "apply_op rl (Fail ip code t) = record_failure rl ip code t"
| "apply_op rl (Check ip code t) = snd (is_limited rl ip code t)"

fun run_ops :: "rate_limiter \<Rightarrow> limiter_op list \<Rightarrow> rate_limiter" where
  "run_ops rl [] = rl"
| "run_ops rl (x # xs) = run_ops (apply_op rl x) xs"

fun ip_log :: "limiter_op list \<Rightarrow> (string \<times> real) list" where
  "ip_log [] = []"
| "ip_log (Fail ip code t # xs) = (ip_key ip, t) # ip_log xs"
| "ip_log (Check ip code t # xs) = ip_log xs"

fun code_log :: "limiter_op list \<Rightarrow> (string \<times> real) list" where
  "code_log [] = []"
| "code_log (Fail ip code t # xs) = (code_key code, t) # code_log xs"
| "code_log (Check ip code t # xs) = code_log xs"

lemma run_ops_append: "run_ops rl (xs @ ys) = run_ops (run_ops rl xs) ys"
  by (induction xs arbitrary: rl) auto

lemma ip_log_append: "ip_log (xs @ ys) = ip_log xs @ ip_log ys"
  by (induction xs rule: ip_log.induct) auto

lemma code_log_append: "code_log (xs @ ys) = code_log xs @ code_log ys"
  by (induction xs rule: code_log.induct) auto

lemmas log_append = ip_log_append code_log_append

lemma is_limited_frame [simp]:
  "rl_limit (snd (is_limited rl ip code t)) = rl_limit rl"
  "rl_window (snd (is_limited rl ip code t)) = rl_window rl"
  "rl_max_keys (snd (is_limited rl ip code t)) = rl_max_keys rl"
  by (simp_all add: is_limited_def prune_all_def Let_def split: prod.split)

lemma record_failure_frame [simp]:
  "rl_limit (record_failure rl ip code t) = rl_limit rl"
  "rl_window (record_failure rl ip code t) = rl_window rl"
  "rl_max_keys (record_failure rl ip code t) = rl_max_keys rl"
  by (simp_all add: record_failure_def prune_all_def Let_def)

lemma apply_op_frame [simp]:
  "rl_limit (apply_op rl x) = rl_limit rl"
  "rl_window (apply_op rl x) = rl_window rl"
  "rl_max_keys (apply_op rl x) = rl_max_keys rl"
  by (cases x; simp)+

lemma run_ops_frame [simp]:
  "rl_limit (run_ops rl xs) = rl_limit rl"
  "rl_window (run_ops rl xs) = rl_window rl"
  "rl_max_keys (run_ops rl xs) = rl_max_keys rl"
  by (induction xs arbitrary: rl) auto

lemma limiter_inv_run: "limiter_inv rl \<Longrightarrow> limiter_inv (run_ops rl xs)"
proof (induction xs arbitrary: rl)
  case (Cons x xs)
  then show ?case by (cases x) (simp_all add: limiter_inv_record limiter_inv_is_limited)
qed simp

definition limiter_agrees ::
  "rate_limiter \<Rightarrow> (string \<times> real) list \<Rightarrow> (string \<times> real) list \<Rightarrow> real \<Rightarrow> bool" where
  "limiter_agrees rl hi hc T \<longleftrightarrow>
     agrees (rl_window rl) (rl_by_ip rl) hi T \<and> agrees (rl_window rl) (rl_by_code rl) hc T"

lemma limiter_agrees_prune_all:
  "limiter_agrees rl hi hc T \<Longrightarrow> T \<le> now \<Longrightarrow> limiter_agrees (prune_all rl now) hi hc now"
  by (auto simp: limiter_agrees_def prune_all_def intro: agrees_prune_bucket)

lemma limiter_agrees_is_limited:
  assumes "limiter_agrees rl hi hc T" and "T \<le> now"
  shows "fst (is_limited rl ip code now) \<longleftrightarrow>
      rl_limit rl \<le> int (length (live (rl_window rl) hi (ip_key ip) now)) \<or>
      rl_limit rl \<le> int (length (live (rl_window rl) hc (code_key code) now))" (is ?A)
    and "limiter_agrees (snd (is_limited rl ip code now)) hi hc now" (is ?B)
proof -
  let ?r = "prune_all rl now"
  have p: "limiter_agrees ?r hi hc now"
    using assms by (rule limiter_agrees_prune_all)
  have fr: "rl_limit ?r = rl_limit rl" "rl_window ?r = rl_window rl"
    by (simp_all add: prune_all_def)
  have ip: "agrees (rl_window rl) (rl_by_ip ?r) hi now"
    and code: "agrees (rl_window rl) (rl_by_code ?r) hc now"
    using p by (simp_all add: limiter_agrees_def fr)
  note ci = agrees_count [OF ip order_refl, of "ip_key ip"]
  note cc = agrees_count [OF code order_refl, of "code_key code"]
  show ?A using ci(1) cc(1) by (auto simp: is_limited_def fr Let_def split: prod.split)
  show ?B using ci(2) cc(2) ip code
    by (auto simp: is_limited_def limiter_agrees_def fr Let_def split: prod.split)
qed

lemma limiter_agrees_record:
  assumes "limiter_agrees rl hi hc T" and "T \<le> now" and "0 \<le> rl_window rl"
    and "card (fst ` set (hi @ [(ip_key ip, now)])) \<le> rl_max_keys rl"
    and "card (fst ` set (hc @ [(code_key code, now)])) \<le> rl_max_keys rl"
  shows "limiter_agrees (record_failure rl ip code now)
     (hi @ [(ip_key ip, now)]) (hc @ [(code_key code, now)]) now"
proof -
  have p: "limiter_agrees (prune_all rl now) hi hc now"
    using assms(1,2) by (rule limiter_agrees_prune_all)
  have fr: "rl_window (prune_all rl now) = rl_window rl" "rl_max_keys (prune_all rl now) = rl_max_keys rl"
    by (simp_all add: prune_all_def)
  from p assms(3-5) show ?thesis
    by (auto simp: limiter_agrees_def record_failure_def Let_def fr simp del: set_append intro: agrees_append)
qed

lemma run_ops_agrees:
  assumes "sorted_wrt (\<lambda>x y. op_time x \<le> op_time y) ops" and "\<forall>x\<in>set ops. op_time x \<le> T"
    and "0 \<le> w"
    and "card (fst ` set (ip_log ops)) \<le> nat (max 1 m)"
    and "card (fst ` set (code_log ops)) \<le> nat (max 1 m)"
  shows "limiter_agrees (run_ops (new_limiter l w m) ops) (ip_log ops) (code_log ops) T"
  using assms
proof (induction ops arbitrary: T rule: rev_induct)
  case Nil
  then show ?case by (simp add: limiter_agrees_def new_limiter_def)
next
  case (snoc x xs)
  let ?rl = "run_ops (new_limiter l w m) xs"
  have mono: "card (fst ` set a) \<le> card (fst ` set (a @ b))" for a b :: "(string \<times> real) list"
    by (intro card_mono) auto
  have "limiter_agrees ?rl (ip_log xs) (code_log xs) (op_time x)"
    using snoc.prems mono [of "ip_log xs" "ip_log [x]"] mono [of "code_log xs" "code_log [x]"]
    by (intro snoc.IH) (auto simp: sorted_wrt_append log_append)
  moreover have "op_time x \<le> T" using snoc.prems by simp
  ultimately have step: "limiter_agrees (apply_op ?rl x) (ip_log (xs @ [x])) (code_log (xs @ [x])) (op_time x)"
    using snoc.prems
    by (cases x) (auto simp: log_append new_limiter_def simp del: set_append
        intro!: limiter_agrees_record limiter_agrees_is_limited)
  have weaken: "agrees w b h T" if "agrees w b h (op_time x)" for b h
    using that \<open>op_time x \<le> T\<close> by (force simp: agrees_def)
  from step weaken show ?case
    by (simp add: run_ops_append limiter_agrees_def new_limiter_def)
qed

section \<open>Properties\<close>

text \<open>
  C10: The rate limiter refines the plain failure log. After any time-ordered history of recorded
  failures and checks that involves at most \<open>max_keys\<close> different addresses and codes, \<open>is_limited\<close>
  answers true exactly when the log holds at least \<open>limit\<close> failures of this address, or of this
  code, that are not older than the window: the pruning, reordering and deletions of the two LRU
  buckets never lose or invent a failure.
\<close>

theorem limiter_matches_log:
  assumes "sorted_wrt (\<lambda>x y. op_time x \<le> op_time y) ops" and "\<forall>x\<in>set ops. op_time x \<le> now"
    and "0 \<le> w"
    and "card (fst ` set (ip_log ops)) \<le> nat (max 1 m)"
    and "card (fst ` set (code_log ops)) \<le> nat (max 1 m)"
  shows "fst (is_limited (run_ops (new_limiter l w m) ops) ip code now) \<longleftrightarrow>
    l \<le> int (length (live w (ip_log ops) (ip_key ip) now)) \<or>
    l \<le> int (length (live w (code_log ops) (code_key code) now))"
  using limiter_agrees_is_limited(1) [OF run_ops_agrees [OF assms, of l] order_refl, of ip code]
  by (simp add: new_limiter_def)

theorem limiter_matches_log_witness:
  "fst (is_limited (run_ops (new_limiter 2 60 10)
      [Fail (Some ''10.0.0.9'') (Some ''a'') 1, Check (Some ''10.0.0.9'') None 2,
       Fail (Some ''10.0.0.9'') (Some ''b'') 30]) (Some ''10.0.0.9'') (Some ''c'') 61)
   \<and> \<not> fst (is_limited (run_ops (new_limiter 2 60 10)
      [Fail (Some ''10.0.0.9'') (Some ''a'') 1, Check (Some ''10.0.0.9'') None 2,
       Fail (Some ''10.0.0.9'') (Some ''b'') 30]) (Some ''10.0.0.9'') (Some ''c'') 62)"
  by (subst (1 2) limiter_matches_log) (simp_all add: live_def ip_key_def code_key_def)

text \<open>
  Lockout. Once the log holds \<open>limit\<close> failures from an address inside the window, \<open>authenticate\<close>
  refuses every further attempt from it as rate limited, the correct access code included.
\<close>

theorem lockout_refuses_every_code:
  assumes "sorted_wrt (\<lambda>x y. op_time x \<le> op_time y) ops" and "\<forall>x\<in>set ops. op_time x \<le> now"
    and "0 \<le> w"
    and "card (fst ` set (ip_log ops)) \<le> nat (max 1 m)"
    and "card (fst ` set (code_log ops)) \<le> nat (max 1 m)"
    and "l \<le> int (length (live w (ip_log ops) (ip_key ip) now))"
  shows "fst (authenticate sha \<lparr>as_members = ms, as_limiter = run_ops (new_limiter l w m) ops\<rparr> code ip now)
    = \<lparr>ar_ok = False, ar_member = None, ar_limited = True\<rparr>"
  using limiter_agrees_is_limited(1) [OF run_ops_agrees [OF assms(1-5), of l] order_refl, of ip code] assms(6)
  by (auto simp: authenticate_def new_limiter_def split: prod.split)

theorem lockout_refuses_every_code_witness:
  "fst (authenticate (\<lambda>s. s)
      \<lparr>as_members = [\<lparr>mem_hash = ''12345678'', mem_id = ''alice''\<rparr>],
       as_limiter = run_ops (new_limiter 2 60 10) [Fail (Some ''ip'') None 1, Fail (Some ''ip'') (Some ''x'') 5]\<rparr>
      (Some ''12345678'') (Some ''ip'') 6)
    = \<lparr>ar_ok = False, ar_member = None, ar_limited = True\<rparr>"
  by (rule lockout_refuses_every_code) (simp_all add: live_def ip_key_def code_key_def)

text \<open>
  Memory bound. Whatever sequence of failures and checks a client produces, with any clock
  readings, both buckets keep distinct keys and never hold more than \<open>max(1, max_keys)\<close> of them.
\<close>

theorem limiter_buckets_bounded:
  "wf_dict (rl_by_ip (run_ops (new_limiter l w m) ops)) \<and>
   wf_dict (rl_by_code (run_ops (new_limiter l w m) ops)) \<and>
   length (rl_by_ip (run_ops (new_limiter l w m) ops)) \<le> nat (max 1 m) \<and>
   length (rl_by_code (run_ops (new_limiter l w m) ops)) \<le> nat (max 1 m)"
  using limiter_inv_run [OF limiter_inv_new, of l w m ops]
  by (simp add: limiter_inv_def) (simp add: new_limiter_def)

lemma authenticate_grant:
  "(ar_ok (fst (authenticate sha a code ip now)) \<and>
    ar_member (fst (authenticate sha a code ip now)) = Some mid) \<longleftrightarrow>
   (\<not> fst (is_limited (as_limiter a) ip code now) \<and>
    (\<exists>c mm. code = Some c \<and> 8 \<le> py_len c \<and>
       List.find (\<lambda>x. mem_hash x = sha c) (as_members a) = Some mm \<and> mem_id mm = mid))"
  by (cases code)
     (auto simp: authenticate_def lookup_member_id_find Let_def split: prod.split option.split)

text \<open>
  A grant is exactly a non-limited attempt with a code of at least eight characters whose hash
  is configured, and it names the first member configured with that hash.
\<close>

theorem authenticate_grant_iff:
  "(ar_ok (fst (authenticate sha a code ip now)) \<and>
    ar_member (fst (authenticate sha a code ip now)) = Some mid) \<longleftrightarrow>
   (\<not> fst (is_limited (as_limiter a) ip code now) \<and>
    (\<exists>c mm. code = Some c \<and> 8 \<le> py_len c \<and>
       List.find (\<lambda>x. mem_hash x = sha c) (as_members a) = Some mm \<and> mem_id mm = mid))"
  by (rule authenticate_grant)

end
