(* ===== verification/Bytes.thy ===== *)
theory Bytes
  imports PyText
begin

text \<open>
  Byte strings and UTF-8, as the wire code of the repository uses them: \<open>str.encode("utf-8")\<close>,
  \<open>bytes.decode("utf-8", errors="replace")\<close> (each maximal ill-formed subpart becomes one U+FFFD),
  \<open>int.from_bytes\<close>/\<open>to_bytes\<close> in both byte orders, and \<open>StreamReader.readexactly\<close> on a stream
  given as the list of the bytes still to come.
\<close>

unbundle bit_operations_syntax

section \<open>Characters and bytes\<close>

lemma unat_byte_less [simp]: "unat (b :: byte) < 256"
  using unsigned_less [of b, where ?'a = nat] by simp

lemma unat_word_of_nat_byte [simp]: "n < 256 \<Longrightarrow> unat (word_of_nat n :: byte) = n"
  by (simp add: unat_of_nat)

definition byte_of_char :: "char \<Rightarrow> byte" where
  "byte_of_char c = word_of_nat (of_char c)"

definition char_of_byte :: "byte \<Rightarrow> char" where
  "char_of_byte b = char_of (unat b)"

lemma char_of_byte_of_char [simp]: "char_of_byte (byte_of_char c) = c"
  by (simp add: char_of_byte_def byte_of_char_def)

lemma byte_of_char_of_byte [simp]: "byte_of_char (char_of_byte b) = b"
  by (simp add: char_of_byte_def byte_of_char_def)

definition utf8_encode :: "string \<Rightarrow> byte list" where
  "utf8_encode s = List.map byte_of_char s"

lemma length_utf8_encode [simp]: "length (utf8_encode s) = length s"
  by (simp add: utf8_encode_def)

section \<open>Decoding with replacement\<close>

text \<open>The admissible second, third and fourth bytes after each leading byte.\<close>

definition tail_ranges :: "byte \<Rightarrow> (byte \<times> byte) list option" where
  "tail_ranges b =
     (if b < 0x80 then Some []
      else if 0xC2 \<le> b \<and> b \<le> 0xDF then Some [(0x80, 0xBF)]
      else if b = 0xE0 then Some [(0xA0, 0xBF), (0x80, 0xBF)]
      else if b = 0xED then Some [(0x80, 0x9F), (0x80, 0xBF)]
      else if 0xE1 \<le> b \<and> b \<le> 0xEF then Some [(0x80, 0xBF), (0x80, 0xBF)]
      else if b = 0xF0 then Some [(0x90, 0xBF), (0x80, 0xBF), (0x80, 0xBF)]
      else if 0xF1 \<le> b \<and> b \<le> 0xF3 then Some [(0x80, 0xBF), (0x80, 0xBF), (0x80, 0xBF)]
      else if b = 0xF4 then Some [(0x80, 0x8F), (0x80, 0xBF), (0x80, 0xBF)]
      else None)"

fun match_tail :: "(byte \<times> byte) list \<Rightarrow> byte list \<Rightarrow> nat" where
  "match_tail ((lo, hi) # rs) (b # bs) = (if lo \<le> b \<and> b \<le> hi then Suc (match_tail rs bs) else 0)"
| "match_tail _ _ = 0"

definition utf8_step :: "byte \<Rightarrow> byte list \<Rightarrow> bool \<times> nat" where
  "utf8_step b rest = (case tail_ranges b of
      None \<Rightarrow> (False, 0)
    | Some rs \<Rightarrow> (match_tail rs rest = length rs, match_tail rs rest))"

definition replacement :: string where
  "replacement = List.map char_of_byte [0xEF, 0xBF, 0xBD]"

function utf8_decode :: "byte list \<Rightarrow> string" where
  "utf8_decode [] = []"
| "utf8_decode (b # bs) =
     (if fst (utf8_step b bs)
      then List.map char_of_byte (b # take (snd (utf8_step b bs)) bs) else replacement)
     @ utf8_decode (drop (snd (utf8_step b bs)) bs)"
  by pat_completeness auto
termination
  by (relation "measure length") auto

function utf8_ok :: "byte list \<Rightarrow> bool" where
  "utf8_ok [] = True"
| "utf8_ok (b # bs) = (fst (utf8_step b bs) \<and> utf8_ok (drop (snd (utf8_step b bs)) bs))"
  by pat_completeness auto
termination
  by (relation "measure length") auto

text \<open>A well-formed \<open>str\<close>: its bytes are UTF-8.\<close>

definition valid_str :: "string \<Rightarrow> bool" where
  "valid_str s \<longleftrightarrow> utf8_ok (utf8_encode s)"

lemma utf8_decode_ok: "utf8_ok bs \<Longrightarrow> utf8_decode bs = List.map char_of_byte bs"
proof (induction bs rule: utf8_ok.induct)
  case (2 b bs)
  let ?n = "snd (utf8_step b bs)"
  from 2 have "utf8_decode (drop ?n bs) = List.map char_of_byte (drop ?n bs)" by simp
  moreover have "List.map char_of_byte (take ?n bs) @ List.map char_of_byte (drop ?n bs) =
      List.map char_of_byte bs"
    by (metis append_take_drop_id map_append)
  ultimately show ?case using "2.prems" by simp
qed simp

lemma utf8_decode_encode [simp]: "valid_str s \<Longrightarrow> utf8_decode (utf8_encode s) = s"
  by (simp add: valid_str_def utf8_decode_ok) (simp add: utf8_encode_def comp_def)

lemma utf8_ok_ascii: "\<forall>b\<in>set bs. b < 0x80 \<Longrightarrow> utf8_ok bs"
  by (induction bs) (auto simp: utf8_step_def tail_ranges_def)

lemma valid_str_ascii: "\<forall>c\<in>set s. (of_char c :: nat) < 128 \<Longrightarrow> valid_str s"
proof -
  assume a: "\<forall>c\<in>set s. (of_char c :: nat) < 128"
  have "byte_of_char c < 0x80" if "c \<in> set s" for c
  proof -
    have "(of_char c :: nat) < 128" using a that by simp
    then have "unat (byte_of_char c) = of_char c"
      by (simp add: byte_of_char_def)
    with \<open>(of_char c :: nat) < 128\<close> show ?thesis by (simp add: word_less_nat_alt)
  qed
  then show ?thesis by (auto simp: valid_str_def utf8_encode_def intro!: utf8_ok_ascii)
qed

lemma valid_str_Nil [simp]: "valid_str []"
  by (simp add: valid_str_def utf8_encode_def)

section \<open>Fixed-width integers on the wire\<close>

definition from_be :: "byte list \<Rightarrow> nat" where
  "from_be bs = foldl (\<lambda>a b. a * 256 + unat b) 0 bs"

definition from_le :: "byte list \<Rightarrow> nat" where
  "from_le bs = from_be (rev bs)"

definition byte_of_nat :: "nat \<Rightarrow> byte" where
  "byte_of_nat n = word_of_nat n"

definition to_be2 :: "nat \<Rightarrow> byte list" where
  "to_be2 n = [byte_of_nat (n div 256), byte_of_nat (n mod 256)]"

definition to_le2 :: "nat \<Rightarrow> byte list" where
  "to_le2 n = [byte_of_nat (n mod 256), byte_of_nat (n div 256)]"

text \<open>\<open>n.to_bytes(2, "big")\<close> raises \<open>OverflowError\<close> out of range.\<close>

definition to_bytes2 :: "int \<Rightarrow> byte list result" where
  "to_bytes2 n = (if 0 \<le> n \<and> n < 65536 then Inr (to_be2 (nat n)) else Inl OverflowErr)"

lemma unat_byte_of_nat [simp]: "n < 256 \<Longrightarrow> unat (byte_of_nat n) = n"
  by (simp add: byte_of_nat_def)

lemma from_be_2: "from_be [a, b] = unat a * 256 + unat b"
  by (simp add: from_be_def)

lemma from_be_2_less: "from_be [a, b] < 65536"
proof -
  have "unat a < 256" "unat b < 256" by simp_all
  then show ?thesis unfolding from_be_2 by linarith
qed

lemma length_to_be2 [simp]: "length (to_be2 n) = 2" "length (to_le2 n) = 2"
  by (simp_all add: to_be2_def to_le2_def)

lemma from_be_to_be2 [simp]: "n < 65536 \<Longrightarrow> from_be (to_be2 n) = n"
  by (simp add: to_be2_def from_be_2 less_mult_imp_div_less div_mult_mod_eq)

lemma from_le_to_le2 [simp]: "n < 65536 \<Longrightarrow> from_le (to_le2 n) = n"
  by (simp add: to_le2_def from_le_def from_be_2 less_mult_imp_div_less div_mult_mod_eq)

section \<open>Reading exactly n bytes from a stream\<close>

definition readexactly :: "nat \<Rightarrow> byte list \<Rightarrow> (byte list \<times> byte list) result" where
  "readexactly n s = (if n \<le> length s then Inr (take n s, drop n s) else Inl IncompleteRead)"

lemma readexactly_append [simp]: "length xs = n \<Longrightarrow> readexactly n (xs @ r) = Inr (xs, r)"
  by (simp add: readexactly_def)

lemma readexactly_Cons [simp]: "readexactly (Suc 0) (x # r) = Inr ([x], r)"
  by (simp add: readexactly_def)

end
