(* ===== verification/MqttCodec.thy ===== *)
theory MqttCodec
  imports Bytes
begin

text \<open>
  The MQTT 3.1.1 wire format of \<open>makeros_hub/vprinter/mqtt_broker.py\<close>: the remaining-length
  codec, the packet framing \<open>_read_packet\<close>, the parsers of CONNECT, SUBSCRIBE and PUBLISH and the
  packet builders. Packets are byte lists; a parse error is \<open>Inl (ValueError ...)\<close>, a stream that
  ends early is \<open>Inl IncompleteRead\<close>.
\<close>

unbundle bit_operations_syntax

section \<open>Remaining length\<close>

definition MAX_REMAINING_LENGTH :: int where
  "MAX_REMAINING_LENGTH = 268435455"

definition MAX_MQTT_PACKET_BYTES :: nat where
  "MAX_MQTT_PACKET_BYTES = 4 * 1024 * 1024"

fun encode_digits :: "nat \<Rightarrow> byte list" where
  "encode_digits n =
     (let digit = byte_of_nat (n mod 128)
      in if 0 < n div 128 then (digit OR 0x80) # encode_digits (n div 128) else [digit])"

declare encode_digits.simps [simp del]

definition encode_remaining_length :: "int \<Rightarrow> byte list result" where
  "encode_remaining_length n =
     (if n < 0 \<or> MAX_REMAINING_LENGTH < n then Inl (ValueError ''MQTT remaining length out of range'')
      else Inr (encode_digits (nat n)))"

fun decode_digits :: "nat \<Rightarrow> nat \<Rightarrow> nat \<Rightarrow> byte list \<Rightarrow> (nat \<times> nat) result" where
  "decode_digits multiplier value0 idx [] =
     Inl (ValueError ''malformed or incomplete MQTT remaining length'')"
| "decode_digits multiplier value0 idx (b # bs) =
     (let value1 = value0 + unat (b AND 0x7F) * multiplier
      in if b AND 0x80 = 0 then Inr (value1, idx + 1)
         else decode_digits (multiplier * 128) value1 (idx + 1) bs)"

definition decode_remaining_length_from_bytes :: "byte list \<Rightarrow> (nat \<times> nat) result" where
  "decode_remaining_length_from_bytes data = decode_digits 1 0 0 (take 4 data)"

section \<open>Framing\<close>

text \<open>
  \<open>_read_packet\<close> on the bytes still to come; the loop reads at most four length bytes
  (\<open>k\<close> counts the iterations left).
\<close>

fun read_length :: "nat \<Rightarrow> nat \<Rightarrow> nat \<Rightarrow> nat \<Rightarrow> byte list \<Rightarrow> (byte list \<times> byte list) result" where
  "read_length 0 max_len len multiplier s = Inl (ValueError ''malformed MQTT remaining length'')"
| "read_length (Suc k) max_len len multiplier s =
     res_bind (readexactly 1 s) (\<lambda>(bs, s1).
       let b = hd bs; len1 = len + unat (b AND 0x7F) * multiplier
       in if b AND 0x80 = 0 then
            (if max_len < len1 then Inl (ValueError ''MQTT packet exceeds maximum size'')
             else readexactly len1 s1)
          else read_length k max_len len1 (multiplier * 128) s1)"

definition read_packet :: "nat \<Rightarrow> byte list \<Rightarrow> ((byte \<times> byte list) \<times> byte list) result" where
  "read_packet max_len s =
     res_bind (readexactly 1 s) (\<lambda>(first, s1).
       res_bind (read_length 4 max_len 0 1 s1) (\<lambda>(payload, s2). Inr ((hd first, payload), s2)))"

section \<open>Strings and binary data\<close>

definition slice :: "nat \<Rightarrow> nat \<Rightarrow> 'a list \<Rightarrow> 'a list" where
  "slice i j xs = take (j - i) (drop i xs)"

definition read_binary :: "byte list \<Rightarrow> nat \<Rightarrow> (byte list \<times> nat) result" where
  "read_binary data offset =
     (if length data < offset + 2 then Inl (ValueError ''MQTT string length is truncated'')
      else
        (let len = from_be (slice offset (offset + 2) data); offset1 = offset + 2
         in if length data < offset1 + len then Inl (ValueError ''MQTT string payload is truncated'')
            else Inr (slice offset1 (offset1 + len) data, offset1 + len)))"

definition read_utf8 :: "byte list \<Rightarrow> nat \<Rightarrow> (string \<times> nat) result" where
  "read_utf8 data offset = res_bind (read_binary data offset) (\<lambda>(raw, off). Inr (utf8_decode raw, off))"

definition write_utf8 :: "string \<Rightarrow> byte list result" where
  "write_utf8 s =
     (let raw = utf8_encode s
      in if 65535 < length raw then Inl (ValueError ''MQTT UTF-8 string is too long'')
         else Inr (to_be2 (length raw) @ raw))"

section \<open>Packets\<close>

record connect_packet =
  cp_protocol_name :: string
  cp_protocol_level :: byte
  cp_flags :: byte
  cp_keep_alive :: nat
  cp_client_id :: string
  cp_username :: "string option"
  cp_password :: "string option"
  cp_clean_session :: bool

record subscribe_packet =
  sp_packet_id :: nat
  sp_topics :: "(string \<times> byte) list"

record publish_packet =
  pp_topic :: string
  pp_payload :: "byte list"
  pp_qos :: byte
  pp_packet_id :: "nat option"
  pp_retain :: bool
  pp_dup :: bool

definition parse_connect :: "byte list \<Rightarrow> connect_packet result" where
  "parse_connect payload =
     res_bind (read_utf8 payload 0) (\<lambda>(protocol_name, o1).
     if length payload < o1 + 4 then Inl (ValueError ''CONNECT variable header is truncated'')
     else
       (let protocol_level = payload ! o1;
            flags = payload ! (o1 + 1);
            keep_alive = from_be (slice (o1 + 2) (o1 + 4) payload)
        in res_bind (read_utf8 payload (o1 + 4)) (\<lambda>(client_id, o2).
           res_bind (if flags AND 0x04 \<noteq> 0
                     then res_bind (read_utf8 payload o2) (\<lambda>(_, o').
                          res_bind (read_binary payload o') (\<lambda>(_, o''). Inr o''))
                     else Inr o2) (\<lambda>o3.
           res_bind (if flags AND 0x80 \<noteq> 0
                     then res_bind (read_utf8 payload o3) (\<lambda>(u, o'). Inr (Some u, o'))
                     else Inr (None, o3)) (\<lambda>(username, o4).
           res_bind (if flags AND 0x40 \<noteq> 0
                     then res_bind (read_binary payload o4) (\<lambda>(p, o'). Inr (Some (utf8_decode p), o'))
                     else Inr (None, o4)) (\<lambda>(password, o5).
           if o5 \<noteq> length payload then Inl (ValueError ''CONNECT payload has trailing bytes'')
           else Inr \<lparr>cp_protocol_name = protocol_name, cp_protocol_level = protocol_level,
                     cp_flags = flags, cp_keep_alive = keep_alive, cp_client_id = client_id,
                     cp_username = username, cp_password = password,
                     cp_clean_session = (flags AND 0x02 \<noteq> 0)\<rparr>))))))"

definition build_connack :: "byte \<Rightarrow> byte list" where
  "build_connack return_code = [0x20, 0x02, 0x00, return_code]"

lemma read_binary_offset:
  "read_binary data off = Inr (raw, off') \<Longrightarrow> off + 2 \<le> off' \<and> off' \<le> length data"
  by (auto simp: read_binary_def Let_def split: if_splits)

lemma read_utf8_offset:
  "read_utf8 data off = Inr (s, off') \<Longrightarrow> off + 2 \<le> off' \<and> off' \<le> length data"
  by (auto simp: read_utf8_def res_bind_eq_Inr dest: read_binary_offset)

text \<open>The topic loop of \<open>parse_subscribe\<close>; each round consumes at least three bytes.\<close>

function subscribe_loop :: "byte list \<Rightarrow> nat \<Rightarrow> (string \<times> byte) list \<Rightarrow> (string \<times> byte) list result" where
  "subscribe_loop payload offset topics =
     (if offset < length payload then
        (case read_utf8 payload offset of
           Inl e \<Rightarrow> Inl e
         | Inr (topic, o1) \<Rightarrow>
             if length payload \<le> o1 then Inl (ValueError ''SUBSCRIBE topic is missing requested QoS'')
             else subscribe_loop payload (o1 + 1) (topics @ [(topic, payload ! o1 AND 0x03)]))
      else Inr topics)"
  by pat_completeness auto
termination
  by (relation "measure (\<lambda>(payload, offset, topics). length payload - offset)")
     (auto dest!: read_utf8_offset)

declare subscribe_loop.simps [simp del]

definition parse_subscribe :: "byte list \<Rightarrow> subscribe_packet result" where
  "parse_subscribe payload =
     (if length payload < 2 then Inl (ValueError ''SUBSCRIBE packet is truncated'')
      else res_bind (subscribe_loop payload 2 []) (\<lambda>topics.
        Inr \<lparr>sp_packet_id = from_be (take 2 payload), sp_topics = topics\<rparr>))"

definition build_suback :: "int \<Rightarrow> byte list \<Rightarrow> byte list result" where
  "build_suback packet_id granted_qos =
     res_bind (to_bytes2 packet_id) (\<lambda>pid.
       let payload = pid @ granted_qos
       in res_bind (encode_remaining_length (int (length payload))) (\<lambda>len.
            Inr (0x90 # len @ payload)))"

definition parse_publish :: "byte \<Rightarrow> byte list \<Rightarrow> publish_packet result" where
  "parse_publish first_byte payload =
     (let qos = drop_bit 1 first_byte AND 0x03;
          retain = (first_byte AND 0x01 \<noteq> 0);
          dup = (first_byte AND 0x08 \<noteq> 0)
      in res_bind (read_utf8 payload 0) (\<lambda>(topic, offset).
         if qos \<noteq> 0 then
           (if length payload < offset + 2 then Inl (ValueError ''PUBLISH packet id is truncated'')
            else Inr \<lparr>pp_topic = topic, pp_payload = drop (offset + 2) payload, pp_qos = qos,
                      pp_packet_id = Some (from_be (slice offset (offset + 2) payload)),
                      pp_retain = retain, pp_dup = dup\<rparr>)
         else Inr \<lparr>pp_topic = topic, pp_payload = drop offset payload, pp_qos = qos,
                   pp_packet_id = None, pp_retain = retain, pp_dup = dup\<rparr>))"

definition build_publish :: "string \<Rightarrow> byte list \<Rightarrow> int \<Rightarrow> int option \<Rightarrow> byte list result" where
  "build_publish topic payload qos packet_id =
     (if qos \<noteq> 0 \<and> qos \<noteq> 1 then Inl (ValueError ''only QoS 0 and QoS 1 are supported'')
      else res_bind (write_utf8 topic) (\<lambda>variable0.
        let first_byte = 0x30 OR push_bit 1 (word_of_int qos)
        in res_bind (if qos \<noteq> 0 then
                       (case packet_id of
                          None \<Rightarrow> Inl (ValueError ''QoS 1 publish requires packet_id'')
                        | Some pid \<Rightarrow> res_bind (to_bytes2 pid) (\<lambda>p. Inr (variable0 @ p)))
                     else Inr variable0) (\<lambda>variable.
           let body = variable @ payload
           in res_bind (encode_remaining_length (int (length body))) (\<lambda>len.
                Inr (first_byte # len @ body)))))"

definition build_puback :: "int \<Rightarrow> byte list result" where
  "build_puback packet_id = res_bind (to_bytes2 packet_id) (\<lambda>p. Inr ([0x40, 0x02] @ p))"

section \<open>Remaining length: round trip\<close>

lemma digit_bits:
  assumes "d < 128"
  shows "unat ((byte_of_nat d OR 0x80) AND 0x7F) = d" "(byte_of_nat d OR 0x80) AND 0x80 \<noteq> 0"
    "unat (byte_of_nat d AND 0x7F) = d" "byte_of_nat d AND 0x80 = 0"
proof -
  have "\<forall>d\<in>set [0..<128]. unat ((byte_of_nat d OR 0x80) AND 0x7F) = d \<and>
      (byte_of_nat d OR 0x80) AND 0x80 \<noteq> 0 \<and> unat (byte_of_nat d AND 0x7F) = d \<and>
      byte_of_nat d AND 0x80 = 0"
    by code_simp
  with assms show "unat ((byte_of_nat d OR 0x80) AND 0x7F) = d" "(byte_of_nat d OR 0x80) AND 0x80 \<noteq> 0"
    "unat (byte_of_nat d AND 0x7F) = d" "byte_of_nat d AND 0x80 = 0" by auto
qed

lemma length_encode_digits: "n < 128 ^ k \<Longrightarrow> 0 < k \<Longrightarrow> 1 \<le> length (encode_digits n) \<and> length (encode_digits n) \<le> k"
proof (induction n arbitrary: k rule: encode_digits.induct)
  case (1 n)
  show ?case
  proof (cases "0 < n div 128")
    case False
    with "1.prems" show ?thesis by (subst (1 2) encode_digits.simps) simp
  next
    case True
    obtain k' where k: "k = Suc k'" using "1.prems" by (cases k) auto
    have "n div 128 < 128 ^ k'" using "1.prems" by (simp add: k less_mult_imp_div_less mult.commute)
    moreover from this True have "0 < k'" by (cases k') auto
    ultimately have "1 \<le> length (encode_digits (n div 128)) \<and> length (encode_digits (n div 128)) \<le> k'"
      using "1.IH" True by blast
    with True show ?thesis by (subst (1 2) encode_digits.simps) (simp add: k)
  qed
qed

lemma decode_encode_digits:
  "decode_digits m v i (encode_digits n @ rest) = Inr (v + n * m, i + length (encode_digits n))"
proof (induction n arbitrary: m v i rule: encode_digits.induct)
  case (1 n)
  have d: "n mod 128 < 128" by simp
  show ?case
  proof (cases "0 < n div 128")
    case False
    then have "n mod 128 = n" by simp
    with False d show ?thesis
      by (subst (1 2) encode_digits.simps) (simp add: Let_def digit_bits)
  next
    case True
    have "n mod 128 * m + n div 128 * (m * 128) = n * m"
      by (metis add_mult_distrib2 mod_mult_div_eq mult.assoc mult.commute)
    then show ?thesis using True d "1.IH" [OF refl True]
      by (subst (1 2) encode_digits.simps) (simp add: Let_def digit_bits add.assoc)
  qed
qed

lemma encode_remaining_length_bounds:
  assumes "0 \<le> n" and "n \<le> MAX_REMAINING_LENGTH"
  shows "encode_remaining_length n = Inr (encode_digits (nat n))"
    and "1 \<le> length (encode_digits (nat n))" and "length (encode_digits (nat n)) \<le> 4"
proof -
  show "encode_remaining_length n = Inr (encode_digits (nat n))"
    using assms by (simp add: encode_remaining_length_def)
  have "nat n < 128 ^ 4" using assms by (simp add: MAX_REMAINING_LENGTH_def)
  then show "1 \<le> length (encode_digits (nat n))" "length (encode_digits (nat n)) \<le> 4"
    using length_encode_digits [of "nat n" 4] by auto
qed

lemma decode_remaining_length_encode:
  assumes "n \<le> nat MAX_REMAINING_LENGTH"
  shows "decode_remaining_length_from_bytes (encode_digits n @ rest) = Inr (n, length (encode_digits n))"
proof -
  have "length (encode_digits n) \<le> 4"
    using encode_remaining_length_bounds(3) [of "int n"] assms by (simp add: MAX_REMAINING_LENGTH_def)
  then show ?thesis
    by (simp add: decode_remaining_length_from_bytes_def decode_encode_digits)
qed

text \<open>The remaining length as an element of a stream.\<close>

definition take_remaining_length :: "byte list \<Rightarrow> (nat \<times> byte list) result" where
  "take_remaining_length s =
     res_bind (decode_remaining_length_from_bytes s) (\<lambda>(n, used). Inr (n, drop used s))"

interpretation remlen: frame_codec "\<lambda>n. n \<le> nat MAX_REMAINING_LENGTH" encode_digits take_remaining_length
  by unfold_locales (simp add: take_remaining_length_def decode_remaining_length_encode)

section \<open>Framing: round trip\<close>

lemma read_length_encode_digits:
  assumes "length (encode_digits n) \<le> k" and "v + n * m = length payload" and "length payload \<le> max_len"
  shows "read_length k max_len v m (encode_digits n @ payload @ rest) = Inr (payload, rest)"
  using assms
proof (induction n arbitrary: k v m rule: encode_digits.induct)
  case (1 n)
  have d: "n mod 128 < 128" by simp
  show ?case
  proof (cases "0 < n div 128")
    case False
    then have n: "n mod 128 = n" by simp
    have e: "encode_digits n = [byte_of_nat n]"
      using False n by (subst encode_digits.simps) simp
    obtain k' where k: "k = Suc k'" using "1.prems"(1) by (cases k) (auto simp: e)
    from "1.prems" d n show ?thesis by (simp add: e k Let_def digit_bits)
  next
    case True
    have e: "encode_digits n = (byte_of_nat (n mod 128) OR 0x80) # encode_digits (n div 128)"
      using True by (subst encode_digits.simps) simp
    obtain k' where k: "k = Suc k'" using "1.prems"(1) by (cases k) (auto simp: e)
    have "n mod 128 * m + n div 128 * (m * 128) = n * m"
      by (metis add_mult_distrib2 mod_mult_div_eq mult.assoc mult.commute)
    with "1.prems" have "v + n mod 128 * m + n div 128 * (m * 128) = length payload" by simp
    from "1.IH" [OF refl True _ this "1.prems"(3), of k'] "1.prems"(1) d
    show ?thesis by (simp add: e k Let_def digit_bits)
  qed
qed

lemma read_packet_frame:
  assumes "length payload \<le> max_len" and "int (length payload) \<le> MAX_REMAINING_LENGTH"
  shows "read_packet max_len (first # encode_digits (length payload) @ payload @ rest) =
    Inr ((first, payload), rest)"
proof -
  have "length (encode_digits (length payload)) \<le> 4"
    using encode_remaining_length_bounds(3) [of "int (length payload)"] assms(2) by simp
  from read_length_encode_digits [OF this _ assms(1), of 0 1]
  show ?thesis by (simp add: read_packet_def)
qed

lemma readexactly_eq_Inr: "readexactly n s = Inr (x, y) \<longleftrightarrow> s = x @ y \<and> length x = n"
  by (auto simp: readexactly_def)

lemma read_length_bounded:
  "read_length k max_len v m s = Inr (payload, rest) \<Longrightarrow> length payload \<le> max_len"
proof (induction k max_len v m s rule: read_length.induct)
  case (2 k max_len len m s)
  then show ?case
    by (auto simp: res_bind_eq_Inr readexactly_eq_Inr Let_def split: if_splits)
qed simp

lemma read_packet_bounded:
  "read_packet max_len s = Inr ((first, payload), rest) \<Longrightarrow> length payload \<le> max_len"
  by (auto simp: read_packet_def res_bind_eq_Inr dest: read_length_bounded)

section \<open>Strings: round trip\<close>

lemma slice_append [simp]:
  "length xs = i \<Longrightarrow> slice i (i + n) (xs @ ys) = take n ys"
  by (simp add: slice_def)

lemma read_binary_at:
  assumes "length raw < 65536"
  shows "read_binary (pre @ to_be2 (length raw) @ raw @ rest) (length pre) =
    Inr (raw, length pre + 2 + length raw)"
proof -
  have "slice (length pre + 2) (length pre + 2 + length raw) (pre @ to_be2 (length raw) @ raw @ rest) = raw"
    using slice_append [of "pre @ to_be2 (length raw)" "length pre + 2" "length raw" "raw @ rest"] by simp
  moreover have "slice (length pre) (length pre + 2) (pre @ to_be2 (length raw) @ raw @ rest) =
      to_be2 (length raw)"
    by (subst slice_append) simp_all
  ultimately show ?thesis using assms by (simp add: read_binary_def Let_def)
qed

lemma read_utf8_at:
  assumes "length s < 65536" and "valid_str s"
  shows "read_utf8 (pre @ to_be2 (length s) @ utf8_encode s @ rest) (length pre) =
    Inr (s, length pre + 2 + length s)"
  using read_binary_at [of "utf8_encode s" pre rest] assms by (simp add: read_utf8_def)

lemma write_utf8_eq:
  "length s < 65536 \<Longrightarrow> write_utf8 s = Inr (to_be2 (length s) @ utf8_encode s)"
  by (simp add: write_utf8_def Let_def)

section \<open>PUBLISH: round trip\<close>

definition publish_body :: "string \<Rightarrow> byte list \<Rightarrow> nat option \<Rightarrow> byte list" where
  "publish_body topic payload pid =
     to_be2 (length topic) @ utf8_encode topic @
       (case pid of None \<Rightarrow> [] | Some p \<Rightarrow> to_be2 p) @ payload"

definition publish_ok :: "string \<times> byte list \<times> nat option \<Rightarrow> bool" where
  "publish_ok x = (case x of (topic, payload, pid) \<Rightarrow>
     valid_str topic \<and> length topic < 65536 \<and> (pid \<noteq> None \<longrightarrow> the pid < 65536) \<and>
     length (publish_body topic payload pid) \<le> MAX_MQTT_PACKET_BYTES)"

definition publish_first :: "nat option \<Rightarrow> byte" where
  "publish_first pid = (case pid of None \<Rightarrow> 0x30 | Some _ \<Rightarrow> 0x32)"

definition publish_qos :: "nat option \<Rightarrow> int" where
  "publish_qos pid = (case pid of None \<Rightarrow> 0 | Some _ \<Rightarrow> 1)"

definition publish_wire :: "string \<times> byte list \<times> nat option \<Rightarrow> byte list" where
  "publish_wire x = (case x of (topic, payload, pid) \<Rightarrow>
     (case build_publish topic payload (publish_qos pid) (map_option int pid) of Inl _ \<Rightarrow> [] | Inr bs \<Rightarrow> bs))"

definition read_publish :: "byte list \<Rightarrow> ((string \<times> byte list \<times> nat option) \<times> byte list) result" where
  "read_publish s =
     res_bind (read_packet MAX_MQTT_PACKET_BYTES s) (\<lambda>((first, body), rest).
     res_bind (parse_publish first body) (\<lambda>p.
       Inr ((pp_topic p, pp_payload p, pp_packet_id p), rest)))"

lemma build_publish_eq:
  assumes "publish_ok (topic, payload, pid)"
  shows "build_publish topic payload (publish_qos pid) (map_option int pid) =
    Inr (publish_first pid # encode_digits (length (publish_body topic payload pid)) @
         publish_body topic payload pid)"
proof -
  let ?b = "publish_body topic payload pid"
  have "int (length ?b) \<le> MAX_REMAINING_LENGTH"
    using assms by (simp add: publish_ok_def MAX_MQTT_PACKET_BYTES_def MAX_REMAINING_LENGTH_def)
  then have "encode_remaining_length (int (length ?b)) = Inr (encode_digits (length ?b))"
    using encode_remaining_length_bounds(1) [of "int (length ?b)"] by simp
  moreover have "length topic < 65536" "pid \<noteq> None \<Longrightarrow> the pid < 65536"
    using assms by (simp_all add: publish_ok_def)
  ultimately show ?thesis
    by (cases pid)
       (simp_all add: build_publish_def publish_qos_def publish_first_def publish_body_def
          write_utf8_eq to_bytes2_def Let_def del: length_append)
qed

lemma parse_publish_body:
  assumes "publish_ok (topic, payload, pid)"
  shows "parse_publish (publish_first pid) (publish_body topic payload pid) =
    Inr \<lparr>pp_topic = topic, pp_payload = payload, pp_qos = word_of_int (publish_qos pid),
         pp_packet_id = pid, pp_retain = False, pp_dup = False\<rparr>"
proof -
  let ?tail = "(case pid of None \<Rightarrow> [] | Some p \<Rightarrow> to_be2 p) @ payload"
  let ?pre = "to_be2 (length topic) @ utf8_encode topic"
  have rd: "read_utf8 (publish_body topic payload pid) 0 = Inr (topic, 2 + length topic)"
    using read_utf8_at [of topic "[]" ?tail] assms by (simp add: publish_body_def publish_ok_def)
  show ?thesis
  proof (cases pid)
    case None
    then have "drop (2 + length topic) (publish_body topic payload pid) = payload"
      by (simp add: publish_body_def)
    then show ?thesis
      using rd None by (simp add: parse_publish_def publish_first_def publish_qos_def Let_def)
  next
    case (Some p)
    have "slice (2 + length topic) (2 + length topic + 2) (?pre @ to_be2 p @ payload) = to_be2 p"
      by (subst slice_append) simp_all
    moreover have "p < 65536" using assms Some by (simp add: publish_ok_def)
    moreover have "drop (2 + length topic + 2) (?pre @ to_be2 p @ payload) = payload"
      using drop_append [of "2 + length topic + 2" "?pre @ to_be2 p" payload] by simp
    ultimately show ?thesis
      using rd Some by (simp add: parse_publish_def publish_first_def publish_qos_def publish_body_def Let_def)
  qed
qed

lemma read_publish_wire:
  assumes "publish_ok x"
  shows "read_publish (publish_wire x @ rest) = Inr (x, rest)"
proof -
  obtain topic payload pid where x: "x = (topic, payload, pid)" by (cases x)
  let ?b = "publish_body topic payload pid"
  have ok: "publish_ok (topic, payload, pid)" using assms by (simp add: x)
  then have "length ?b \<le> MAX_MQTT_PACKET_BYTES" by (simp add: publish_ok_def)
  moreover from this have "int (length ?b) \<le> MAX_REMAINING_LENGTH"
    by (simp add: MAX_MQTT_PACKET_BYTES_def MAX_REMAINING_LENGTH_def)
  ultimately have "read_packet MAX_MQTT_PACKET_BYTES
      (publish_first pid # encode_digits (length ?b) @ ?b @ rest) = Inr ((publish_first pid, ?b), rest)"
    by (rule read_packet_frame)
  then show ?thesis
    using ok by (simp add: x publish_wire_def build_publish_eq read_publish_def parse_publish_body)
qed

interpretation pub: frame_codec publish_ok publish_wire read_publish
  by unfold_locales (rule read_publish_wire)

section \<open>SUBSCRIBE and CONNECT: what a client sends\<close>

text \<open>The layouts a conforming client sends, as the standard gives them.\<close>

definition wire_bin :: "byte list \<Rightarrow> byte list" where
  "wire_bin raw = to_be2 (length raw) @ raw"

definition wire_str :: "string \<Rightarrow> byte list" where
  "wire_str t = wire_bin (utf8_encode t)"

definition str_ok :: "string \<Rightarrow> bool" where
  "str_ok t \<longleftrightarrow> valid_str t \<and> length t < 65536"

lemma length_wire [simp]: "length (wire_bin raw) = 2 + length raw" "length (wire_str t) = 2 + length t"
  by (simp_all add: wire_bin_def wire_str_def)

lemma read_utf8_wire:
  "data = pre @ wire_str t @ rest \<Longrightarrow> off = length pre \<Longrightarrow> str_ok t \<Longrightarrow>
   read_utf8 data off = Inr (t, off + 2 + length t)"
  using read_utf8_at [of t pre rest] by (simp add: wire_str_def wire_bin_def str_ok_def)

lemma read_binary_wire:
  "data = pre @ wire_bin raw @ rest \<Longrightarrow> off = length pre \<Longrightarrow> length raw < 65536 \<Longrightarrow>
   read_binary data off = Inr (raw, off + 2 + length raw)"
  using read_binary_at [of raw pre rest] by (simp add: wire_bin_def)

definition wire_topics :: "(string \<times> byte) list \<Rightarrow> byte list" where
  "wire_topics ts = concat (List.map (\<lambda>(t, q). wire_str t @ [q]) ts)"

lemma subscribe_loop_wire:
  assumes "\<forall>(t, q)\<in>set ts. str_ok t"
  shows "subscribe_loop (pre @ wire_topics ts) (length pre) acc =
    Inr (acc @ List.map (\<lambda>(t, q). (t, q AND 0x03)) ts)"
  using assms
proof (induction ts arbitrary: pre acc)
  case Nil
  then show ?case by (subst subscribe_loop.simps) (simp add: wire_topics_def)
next
  case (Cons x ts)
  obtain t q where x: "x = (t, q)" by (cases x)
  let ?pre = "pre @ wire_str t"
  have data: "pre @ wire_topics (x # ts) = (?pre @ [q]) @ wire_topics ts"
    by (simp add: wire_topics_def x)
  have rd: "read_utf8 (pre @ wire_topics (x # ts)) (length pre) = Inr (t, length ?pre)"
    using Cons.prems by (subst read_utf8_wire [where pre = pre and t = t and rest = "[q] @ wire_topics ts"])
      (simp_all add: x wire_topics_def)
  have nth: "(pre @ wire_topics (x # ts)) ! length ?pre = q"
    by (simp only: data) (metis append.assoc append_Cons nth_append_length)
  have len: "length pre < length (pre @ wire_topics (x # ts))" "length ?pre < length (pre @ wire_topics (x # ts))"
    by (simp_all add: data)
  have "subscribe_loop (pre @ wire_topics (x # ts)) (length pre) acc =
      subscribe_loop (pre @ wire_topics (x # ts)) (length ?pre + 1) (acc @ [(t, q AND 0x03)])"
    using len by (subst subscribe_loop.simps) (simp only: rd nth if_True sum.case prod.case not_le if_not_P)
  also have "\<dots> = subscribe_loop ((?pre @ [q]) @ wire_topics ts) (length (?pre @ [q])) (acc @ [(t, q AND 0x03)])"
    by (simp only: data) simp
  also have "\<dots> = Inr ((acc @ [(t, q AND 0x03)]) @ List.map (\<lambda>(t, q). (t, q AND 0x03)) ts)"
    using Cons.prems by (intro Cons.IH) simp
  finally show ?case by (simp add: x)
qed

record connect_fields =
  cf_name :: string
  cf_level :: byte
  cf_flags :: byte
  cf_keep :: nat
  cf_client :: string
  cf_will :: "(string \<times> byte list) option"
  cf_user :: "string option"
  cf_pass :: "string option"

definition wire_opt :: "('a \<Rightarrow> byte list) \<Rightarrow> 'a option \<Rightarrow> byte list" where
  "wire_opt f x = (case x of None \<Rightarrow> [] | Some y \<Rightarrow> f y)"

definition wire_connect :: "connect_fields \<Rightarrow> byte list" where
  "wire_connect c = wire_str (cf_name c) @ [cf_level c, cf_flags c] @ to_be2 (cf_keep c) @
     wire_str (cf_client c) @ wire_opt (\<lambda>(t, m). wire_str t @ wire_bin m) (cf_will c) @
     wire_opt wire_str (cf_user c) @ wire_opt wire_str (cf_pass c)"

definition connect_ok :: "connect_fields \<Rightarrow> bool" where
  "connect_ok c \<longleftrightarrow> str_ok (cf_name c) \<and> cf_keep c < 65536 \<and> str_ok (cf_client c) \<and>
     pred_option (\<lambda>(t, m). str_ok t \<and> length m < 65536) (cf_will c) \<and>
     pred_option str_ok (cf_user c) \<and> pred_option str_ok (cf_pass c) \<and>
     (cf_flags c AND 0x04 \<noteq> 0) = (cf_will c \<noteq> None) \<and>
     (cf_flags c AND 0x80 \<noteq> 0) = (cf_user c \<noteq> None) \<and>
     (cf_flags c AND 0x40 \<noteq> 0) = (cf_pass c \<noteq> None)"

lemma will_stage:
  assumes "data = pre @ wire_opt (\<lambda>(t, m). wire_str t @ wire_bin m) w @ rest"
    and "pred_option (\<lambda>(t, m). str_ok t \<and> length m < 65536) w" and "b = (w \<noteq> None)"
  shows "(if b then res_bind (read_utf8 data (length pre))
         (\<lambda>(_, o'). res_bind (read_binary data o') (\<lambda>(_, o''). Inr o''))
       else Inr (length pre)) =
     (Inr (length (pre @ wire_opt (\<lambda>(t, m). wire_str t @ wire_bin m) w)) :: nat result)"
proof (cases w)
  case None
  then show ?thesis using assms(3) by (simp add: wire_opt_def)
next
  case (Some tm)
  obtain t m where tm: "tm = (t, m)" by (cases tm)
  have "read_utf8 data (length pre) = Inr (t, length (pre @ wire_str t))"
    using read_utf8_wire [of data pre t "wire_bin m @ rest" "length pre"] assms
    by (simp add: Some tm wire_opt_def)
  moreover have "read_binary data (length (pre @ wire_str t)) = Inr (m, length ((pre @ wire_str t) @ wire_bin m))"
    using read_binary_wire [of data "pre @ wire_str t" m rest "length (pre @ wire_str t)"] assms
    by (simp add: Some tm wire_opt_def)
  ultimately show ?thesis using assms(3) by (simp add: Some tm wire_opt_def)
qed

lemma user_stage:
  assumes "data = pre @ wire_opt wire_str u @ rest" and "pred_option str_ok u" and "b = (u \<noteq> None)"
  shows "(if b then res_bind (read_utf8 data (length pre)) (\<lambda>(u, o'). Inr (Some u, o'))
       else Inr (None, length pre)) =
     (Inr (u, length (pre @ wire_opt wire_str u)) :: (string option \<times> nat) result)"
  using assms read_utf8_wire [of data pre "the u" rest "length pre"]
  by (cases u) (simp_all add: wire_opt_def)

lemma pass_stage:
  assumes "data = pre @ wire_opt wire_str u @ rest" and "pred_option str_ok u" and "b = (u \<noteq> None)"
  shows "(if b then res_bind (read_binary data (length pre)) (\<lambda>(p, o'). Inr (Some (utf8_decode p), o'))
       else Inr (None, length pre)) =
     (Inr (u, length (pre @ wire_opt wire_str u)) :: (string option \<times> nat) result)"
  using assms read_binary_wire [of data pre "utf8_encode (the u)" rest "length pre"]
  by (cases u) (simp_all add: wire_opt_def wire_str_def str_ok_def)

lemma parse_connect_wire:
  assumes ok: "connect_ok c"
  shows "parse_connect (wire_connect c) = Inr
    \<lparr>cp_protocol_name = cf_name c, cp_protocol_level = cf_level c, cp_flags = cf_flags c,
     cp_keep_alive = cf_keep c, cp_client_id = cf_client c, cp_username = cf_user c,
     cp_password = cf_pass c, cp_clean_session = (cf_flags c AND 0x02 \<noteq> 0)\<rparr>"
proof -
  let ?d = "wire_connect c"
  let ?w = "wire_opt (\<lambda>(t, m). wire_str t @ wire_bin m) (cf_will c)"
  let ?u = "wire_opt wire_str (cf_user c)" and ?p = "wire_opt wire_str (cf_pass c)"
  let ?a = "wire_str (cf_name c)"
  let ?b = "?a @ [cf_level c, cf_flags c] @ to_be2 (cf_keep c)"
  let ?c = "?b @ wire_str (cf_client c)"
  have d1: "?d = [] @ ?a @ ([cf_level c, cf_flags c] @ to_be2 (cf_keep c) @ wire_str (cf_client c) @ ?w @ ?u @ ?p)"
    and d2: "?d = ?b @ wire_str (cf_client c) @ ?w @ ?u @ ?p"
    and d3: "?d = ?c @ ?w @ ?u @ ?p" and d4: "?d = (?c @ ?w) @ ?u @ ?p"
    and d5: "?d = ((?c @ ?w) @ ?u) @ ?p @ []"
    by (simp_all add: wire_connect_def)
  have r1: "read_utf8 ?d 0 = Inr (cf_name c, length ?a)"
    using read_utf8_wire [OF d1, of 0] ok by (simp add: connect_ok_def)
  have lvl: "?d ! length ?a = cf_level c" "?d ! (length ?a + 1) = cf_flags c"
    by (simp_all add: d2 nth_append)
  have e: "?d = (?a @ [cf_level c, cf_flags c]) @
      (to_be2 (cf_keep c) @ wire_str (cf_client c) @ ?w @ ?u @ ?p)"
    by (simp add: wire_connect_def)
  have e4: "length ?a + 4 = length ?a + 2 + 2" by simp
  have "slice (length ?a + 2) (length ?a + 4) ?d = to_be2 (cf_keep c)"
    unfolding e e4 by (subst slice_append) simp_all
  then have ka: "from_be (slice (length ?a + 2) (length ?a + 4) ?d) = cf_keep c"
    using ok by (simp add: connect_ok_def)
  have r2: "read_utf8 ?d (length ?a + 4) = Inr (cf_client c, length ?c)"
    using read_utf8_wire [OF d2, of "length ?a + 4"] ok by (simp add: connect_ok_def)
  have r3: "(if cf_flags c AND 0x04 \<noteq> 0
       then res_bind (read_utf8 ?d (length ?c)) (\<lambda>(_, o'). res_bind (read_binary ?d o') (\<lambda>(_, o''). Inr o''))
       else Inr (length ?c)) = (Inr (length (?c @ ?w)) :: nat result)"
    using ok by (intro will_stage [OF d3]) (simp_all add: connect_ok_def)
  have r4: "(if cf_flags c AND 0x80 \<noteq> 0
       then res_bind (read_utf8 ?d (length (?c @ ?w))) (\<lambda>(u, o'). Inr (Some u, o'))
       else Inr (None, length (?c @ ?w))) = (Inr (cf_user c, length ((?c @ ?w) @ ?u)) :: (string option \<times> nat) result)"
    using ok by (intro user_stage [OF d4]) (simp_all add: connect_ok_def)
  have r5: "(if cf_flags c AND 0x40 \<noteq> 0
       then res_bind (read_binary ?d (length ((?c @ ?w) @ ?u))) (\<lambda>(p, o'). Inr (Some (utf8_decode p), o'))
       else Inr (None, length ((?c @ ?w) @ ?u))) = (Inr (cf_pass c, length (((?c @ ?w) @ ?u) @ ?p)) :: (string option \<times> nat) result)"
    using ok by (intro pass_stage [OF d5]) (simp_all add: connect_ok_def)
  have fin: "length (((?c @ ?w) @ ?u) @ ?p) = length ?d" by (simp add: wire_connect_def)
  have "\<not> length ?d < length ?a + 4" by (simp add: d2)
  then show ?thesis
    by (simp only: parse_connect_def r1 res_bind_simps prod.case if_False lvl ka Let_def r2 r3 r4 r5 fin
        not_True_eq_False if_True simp_thms)
qed

section \<open>Properties\<close>

text \<open>
  The remaining-length codec is exact on its whole range: every length from 0 to 268435455 is
  encoded in one to four bytes which decode back to the length and to the number of bytes used,
  whatever follows; every other length is refused.
\<close>

theorem remaining_length_roundtrip:
  "if 0 \<le> n \<and> n \<le> MAX_REMAINING_LENGTH
   then (\<exists>bs. encode_remaining_length n = Inr bs \<and> 1 \<le> length bs \<and> length bs \<le> 4 \<and>
          decode_remaining_length_from_bytes (bs @ rest) = Inr (nat n, length bs))
   else encode_remaining_length n = Inl (ValueError ''MQTT remaining length out of range'')"
proof (cases "0 \<le> n \<and> n \<le> MAX_REMAINING_LENGTH")
  case True
  then have "nat n \<le> nat MAX_REMAINING_LENGTH" by (intro nat_mono) simp
  with True show ?thesis
    using encode_remaining_length_bounds [of n] decode_remaining_length_encode [of "nat n" rest] by auto
next
  case False
  then show ?thesis by (auto simp: encode_remaining_length_def)
qed

text \<open>
  C13: A stream of PUBLISH packets built by \<open>build_publish\<close> parses unambiguously: reading the first
  packet with \<open>_read_packet\<close> and \<open>parse_publish\<close> gives back its topic, payload and packet id and
  leaves exactly the rest of the stream.
\<close>

theorem publish_roundtrip:
  assumes "publish_ok (topic, payload, pid)"
  shows "\<exists>bs. build_publish topic payload (publish_qos pid) (map_option int pid) = Inr bs \<and>
    read_publish (bs @ rest) = Inr ((topic, payload, pid), rest)"
  using build_publish_eq [OF assms] pub.dec_enc [OF assms, of rest]
  by (simp add: publish_wire_def)

theorem publish_roundtrip_witness:
  "\<exists>bs. build_publish ''d/r'' [7, 8] 1 (Some 513) = Inr bs \<and>
    read_publish (bs @ [0xC0, 0]) = Inr ((''d/r'', [7, 8], Some 513), [0xC0, 0])"
proof -
  have "valid_str ''d/r''" by (rule valid_str_ascii) simp
  then have "publish_ok (''d/r'', [7, 8], Some 513)"
    by (simp add: publish_ok_def publish_body_def MAX_MQTT_PACKET_BYTES_def)
  from publish_roundtrip [OF this, of "[0xC0, 0]"] show ?thesis
    by (simp add: publish_qos_def)
qed

text \<open>
  \<open>parse_connect\<close> accepts every CONNECT body laid out as the standard says whose flag bits agree
  with the fields present, and recovers every field: protocol, flags, keep-alive, client id, user
  name and password, skipping the will.
\<close>

theorem parse_connect_complete:
  assumes "connect_ok c"
  shows "parse_connect (wire_connect c) = Inr
    \<lparr>cp_protocol_name = cf_name c, cp_protocol_level = cf_level c, cp_flags = cf_flags c,
     cp_keep_alive = cf_keep c, cp_client_id = cf_client c, cp_username = cf_user c,
     cp_password = cf_pass c, cp_clean_session = (cf_flags c AND 0x02 \<noteq> 0)\<rparr>"
  using assms by (rule parse_connect_wire)

theorem parse_connect_complete_witness:
  "cp_password (projr (parse_connect (wire_connect \<lparr>cf_name = ''MQTT'', cf_level = 4, cf_flags = 0xC2,
     cf_keep = 60, cf_client = ''orca'', cf_will = None, cf_user = Some ''bblp'',
     cf_pass = Some ''12345678''\<rparr>))) = Some ''12345678''"
proof -
  have "str_ok ''MQTT''" "str_ok ''orca''" "str_ok ''bblp''" "str_ok ''12345678''"
    by (simp_all add: str_ok_def valid_str_ascii)
  then have ok: "connect_ok \<lparr>cf_name = ''MQTT'', cf_level = 4, cf_flags = 0xC2,
     cf_keep = 60, cf_client = ''orca'', cf_will = None, cf_user = Some ''bblp'',
     cf_pass = Some ''12345678''\<rparr>"
    by (simp add: connect_ok_def)
  show ?thesis by (simp add: parse_connect_complete [OF ok])
qed

text \<open>
  \<open>parse_subscribe\<close> recovers the packet id and every topic filter, in order, with its
  requested QoS masked to two bits.
\<close>

theorem parse_subscribe_complete:
  assumes "pid < 65536" and "\<forall>(t, q)\<in>set ts. str_ok t"
  shows "parse_subscribe (to_be2 pid @ wire_topics ts) =
    Inr \<lparr>sp_packet_id = pid, sp_topics = List.map (\<lambda>(t, q). (t, q AND 0x03)) ts\<rparr>"
  using subscribe_loop_wire [OF assms(2), of "to_be2 pid" "[]"] assms(1)
  by (simp add: parse_subscribe_def)

theorem parse_subscribe_complete_witness:
  "parse_subscribe (to_be2 10 @ wire_topics [(''device/S/report'', 1), (''x'', 0xFF)]) =
    Inr \<lparr>sp_packet_id = 10, sp_topics = [(''device/S/report'', 1), (''x'', 3)]\<rparr>"
proof -
  have "\<forall>(t, q)\<in>set [(''device/S/report'', 1), (''x'', 0xFF :: byte)]. str_ok t"
    by (simp add: str_ok_def valid_str_ascii)
  from parse_subscribe_complete [OF _ this, of 10] show ?thesis by simp
qed

text \<open>
  A packet larger than the limit never reaches the session: whatever bytes arrive, a packet
  \<open>_read_packet\<close> returns has a payload of at most \<open>max_remaining_length\<close> bytes, and it consumed a
  prefix of the stream of at least two bytes.
\<close>

theorem read_packet_within_limit:
  "case read_packet max_len s of
     Inl e \<Rightarrow> True
   | Inr ((first, payload), rest) \<Rightarrow>
       length payload \<le> max_len \<and> (\<exists>hdr. s = first # hdr @ payload @ rest \<and> hdr \<noteq> [])"
proof -
  have len: "\<exists>hdr. t = hdr @ payload @ rest \<and> hdr \<noteq> []"
    if "read_length k m v mul t = Inr (payload, rest)" for k m v mul t payload rest
    using that
  proof (induction k arbitrary: v mul t)
    case (Suc k)
    then obtain b t1 where t: "t = b # t1"
      by (auto simp: res_bind_eq_Inr readexactly_eq_Inr length_Suc_conv)
    show ?case
    proof (cases "b AND 0x80 = 0")
      case True
      with Suc.prems have "t1 = payload @ rest"
        by (auto simp: t Let_def readexactly_eq_Inr split: if_splits)
      then have "t = [b] @ payload @ rest \<and> [b] \<noteq> []" by (simp add: t)
      then show ?thesis by blast
    next
      case False
      with Suc.prems have "read_length k m (v + unat (b AND 0x7F) * mul) (mul * 128) t1 = Inr (payload, rest)"
        by (simp add: t Let_def)
      from Suc.IH [OF this] obtain hdr where "t1 = hdr @ payload @ rest" by blast
      then have "t = (b # hdr) @ payload @ rest \<and> b # hdr \<noteq> []" by (simp add: t)
      then show ?thesis by blast
    qed
  qed simp
  show ?thesis
  proof (cases "read_packet max_len s")
    case (Inr r)
    then obtain f payload rest where r: "r = ((f, payload), rest)" by (metis surj_pair)
    from Inr obtain t where s: "s = f # t" and rl: "read_length 4 max_len 0 1 t = Inr (payload, rest)"
      by (auto simp: r read_packet_def res_bind_eq_Inr readexactly_eq_Inr length_Suc_conv)
    show ?thesis using read_length_bounded [OF rl] len [OF rl]
      by (simp only: Inr r sum.case prod.case) (simp add: s)
  qed simp
qed

end
