(* ===== verification/Capture.thy ===== *)
theory Capture
  imports PyText
begin

text \<open>
  \<open>makeros_hub/vprinter/capture.py\<close>: pairing of an FTPS upload with the MQTT \<open>project_file\<close>
  command of the same member and file name into one captured job, and the data the pair carries.
  Outside the model, as the record \<open>capture_env\<close>: the digests, the JSON text of a value and what
  is read from the uploaded archive. The coordinator's clock reading is an argument; an
  \<open>OrderedDict\<close> of \<open>deque\<close>s is an association list of lists, head first. The callback
  \<open>on_capture\<close> appends to \<open>cc_captured\<close>.
\<close>

section \<open>Records\<close>

record upload_record =
  up_member :: string
  up_filename :: string
  up_path :: string
  up_sha256 :: string
  up_size :: int

record project_intent =
  pi_member :: string
  pi_filename :: string
  pi_ams_mapping :: pyval
  pi_ams_mapping2 :: pyval
  pi_use_ams :: bool
  pi_md5 :: "string option"
  pi_raw :: "(string \<times> pyval) list"
  pi_plate :: "int option"

record captured_job =
  cj_member :: string
  cj_filename :: string
  cj_path :: string
  cj_sha256 :: string
  cj_size :: int
  cj_ams_mapping :: pyval
  cj_use_ams :: bool
  cj_filaments :: "pyval list"
  cj_submitted_at :: string
  cj_uid :: string
  cj_plate :: "int option"
  cj_attempts :: int

text \<open>
  \<open>ce_md5 path\<close> is \<open>md5_file\<close> (\<open>None\<close>: the file cannot be read), \<open>ce_filaments\<close> is
  \<open>parse_required_filaments\<close>, \<open>ce_dumps\<close> is \<open>json.dumps\<close> with sorted keys.
\<close>

record capture_env =
  ce_md5 :: "string \<Rightarrow> string option"
  ce_sha :: "string \<Rightarrow> string"
  ce_dumps :: "pyval \<Rightarrow> string"
  ce_filaments :: "string \<Rightarrow> pyval list"
  ce_now_iso :: string

section \<open>The project_file command\<close>

definition boolish :: "pyval \<Rightarrow> bool" where
  "boolish v = (case v of
      PBool b \<Rightarrow> b
    | PInt i \<Rightarrow> i \<noteq> 0
    | PFloat r \<Rightarrow> r \<noteq> 0
    | PStr s \<Rightarrow> lower (strip s) \<in> set [''1'', ''true'', ''yes'', ''on'']
    | _ \<Rightarrow> False)"

definition optional_int :: "pyval \<Rightarrow> int option" where
  "optional_int v =
     (if v = PNone \<or> v = PStr [] then None
      else (case py_int v of None \<Rightarrow> None | Some n \<Rightarrow> if 0 \<le> n then Some n else None))"

text \<open>The first match of the pattern \<open>plate_(\d+)\<close>.\<close>

fun search_plate :: "string \<Rightarrow> string option" where
  "search_plate [] = None"
| "search_plate (c # cs) =
     (let ds = takeWhile is_digit (drop 6 (c # cs))
      in if startswith ''plate_'' (c # cs) \<and> ds \<noteq> [] then Some ds else search_plate cs)"

fun plate_from_keys :: "(string \<times> pyval) list \<Rightarrow> string list \<Rightarrow> int option" where
  "plate_from_keys print_obj [] = None"
| "plate_from_keys print_obj (key # ks) =
     (case pget print_obj key of
        PStr s \<Rightarrow> (case search_plate s of
            Some ds \<Rightarrow> optional_int (PStr ds)
          | None \<Rightarrow> plate_from_keys print_obj ks)
      | _ \<Rightarrow> plate_from_keys print_obj ks)"

definition resolve_plate :: "(string \<times> pyval) list \<Rightarrow> int option" where
  "resolve_plate print_obj = (case optional_int (pget print_obj ''plate'') of
      Some p \<Rightarrow> Some p
    | None \<Rightarrow> plate_from_keys print_obj [''param'', ''url''])"

fun filename_from_keys :: "(string \<times> pyval) list \<Rightarrow> string list \<Rightarrow> string" where
  "filename_from_keys print_obj [] = ''job.3mf''"
| "filename_from_keys print_obj (key # ks) =
     (case pget print_obj key of
        PStr s \<Rightarrow>
          (if strip s \<noteq> [] then
             (let name = path_name (strip s)
              in if endswith ''.3mf'' name then name else name @ ''.3mf'')
           else filename_from_keys print_obj ks)
      | _ \<Rightarrow> filename_from_keys print_obj ks)"

definition filename_from_project_file :: "(string \<times> pyval) list \<Rightarrow> string" where
  "filename_from_project_file print_obj =
     filename_from_keys print_obj [''file'', ''subtask_name'', ''gcode_file'']"

definition parse_project_file_command :: "pyval \<Rightarrow> string \<Rightarrow> project_intent option" where
  "parse_project_file_command parsed member_id =
     (case parsed of
        PDict d \<Rightarrow>
          (case pget d ''print'' of
             PDict print_obj \<Rightarrow>
               (if pget print_obj ''command'' \<in> set [PStr ''project_file'', PStr ''gcode_file''] then
                  Some \<lparr>pi_member = member_id,
                        pi_filename = filename_from_project_file print_obj,
                        pi_ams_mapping = pget print_obj ''ams_mapping'',
                        pi_ams_mapping2 = pget print_obj ''ams_mapping2'',
                        pi_use_ams = boolish (pget print_obj ''use_ams''),
                        pi_md5 = (case pget print_obj ''md5'' of
                            PStr s \<Rightarrow> if strip s \<noteq> [] then Some (strip s) else None | _ \<Rightarrow> None),
                        pi_raw = print_obj,
                        pi_plate = resolve_plate print_obj\<rparr>
                else None)
           | _ \<Rightarrow> None)
      | _ \<Rightarrow> None)"

section \<open>Assembling a job\<close>

definition ams_mapping_list :: "pyval \<Rightarrow> pyval list" where
  "ams_mapping_list v = (case v of
      PList xs \<Rightarrow> xs
    | PDict d \<Rightarrow> (case pget d ''ams_mapping'' of PList xs \<Rightarrow> xs | _ \<Rightarrow> [])
    | _ \<Rightarrow> [])"

definition deterministic_submission_uid ::
  "capture_env \<Rightarrow> string \<Rightarrow> string \<Rightarrow> int option \<Rightarrow> pyval \<Rightarrow> string" where
  "deterministic_submission_uid env member_id file_sha256 plate ams_mapping =
     (let ams_json = ce_dumps env (PList (ams_mapping_list ams_mapping));
          plate_value = (case plate of None \<Rightarrow> [] | Some p \<Rightarrow> int_str p)
      in ce_sha env (member_id @ ''\<newline>'' @ file_sha256 @ ''\<newline>'' @ plate_value @ ''\<newline>'' @ ams_json))"

definition assemble_captured_job :: "capture_env \<Rightarrow> upload_record \<Rightarrow> project_intent \<Rightarrow> captured_job result" where
  "assemble_captured_job env upload intent =
     (if up_filename upload \<noteq> pi_filename intent then
        Inl (ValueError ''upload and project_file filenames do not match'')
      else if up_member upload \<noteq> pi_member intent then
        Inl (ValueError ''upload and project_file member ids do not match'')
      else res_bind
        (case pi_md5 intent of
           None \<Rightarrow> Inr ()
         | Some want \<Rightarrow> (case ce_md5 env (up_path upload) of
               None \<Rightarrow> Inl OSErr
             | Some actual \<Rightarrow> if lower actual \<noteq> lower want
                 then Inl (ValueError ''project_file md5 does not match uploaded file'') else Inr ()))
        (\<lambda>_. let ams_mapping = (if pi_ams_mapping2 intent \<noteq> PNone
                 then PDict [(''ams_mapping'', pi_ams_mapping intent), (''ams_mapping2'', pi_ams_mapping2 intent)]
                 else pi_ams_mapping intent)
           in Inr \<lparr>cj_member = up_member upload, cj_filename = up_filename upload,
                   cj_path = up_path upload, cj_sha256 = up_sha256 upload, cj_size = up_size upload,
                   cj_ams_mapping = ams_mapping, cj_use_ams = pi_use_ams intent,
                   cj_filaments = ce_filaments env (up_path upload),
                   cj_submitted_at = ce_now_iso env,
                   cj_uid = deterministic_submission_uid env (up_member upload) (up_sha256 upload)
                              (pi_plate intent) ams_mapping,
                   cj_plate = pi_plate intent, cj_attempts = 0\<rparr>))"

definition vp_submit_filament :: "(string \<times> pyval) list \<Rightarrow> pyval" where
  "vp_submit_filament item =
     (let f0 = (case map_of item ''slot'' of Some v \<Rightarrow> [(''slot'', v)] | None \<Rightarrow> []);
          t = por (por (pget item ''type'') (pget item ''material'')) (pget item ''tray_type'');
          f1 = (if t \<noteq> PNone then f0 @ [(''type'', t)] else f0);
          c = por (pget item ''color'') (pget item ''tray_color'');
          f2 = (if c \<noteq> PNone then f1 @ [(''color'', c)] else f1);
          i = por (pget item ''trayInfoIdx'') (pget item ''tray_info_idx'')
      in PDict (if i \<noteq> PNone then f2 @ [(''trayInfoIdx'', i)] else f2))"

definition build_vp_submit_body :: "captured_job \<Rightarrow> string \<Rightarrow> pyval" where
  "build_vp_submit_body job model =
     PDict ([(''hubSubmissionUid'', PStr (cj_uid job)),
             (''memberId'', PStr (cj_member job)),
             (''fileName'', PStr (cj_filename job)),
             (''fileSha256'', PStr (cj_sha256 job)),
             (''fileSizeBytes'', PInt (cj_size job)),
             (''printerModel'', PStr model),
             (''useAms'', PBool (cj_use_ams job)),
             (''amsMapping'', PList (ams_mapping_list (cj_ams_mapping job))),
             (''requiredFilaments'', PList (List.map (\<lambda>it. vp_submit_filament (as_dict it)) (cj_filaments job)))]
            @ (case cj_plate job of None \<Rightarrow> [] | Some p \<Rightarrow> [(''plate'', PInt p)]))"

section \<open>The coordinator\<close>

type_synonym capture_key = "string \<times> string"
type_synonym 'a pending = "'a \<times> real"
type_synonym ('k, 'a) pending_bucket = "('k, 'a pending list) odict"

record coordinator =
  cc_wait :: real
  cc_max_pending :: nat
  cc_max_per_key :: nat
  cc_uploads :: "(capture_key, upload_record) pending_bucket"
  cc_intents :: "(capture_key, project_intent) pending_bucket"
  cc_timer :: "real option"
  cc_captured :: "captured_job list"

definition new_coordinator :: "real \<Rightarrow> int \<Rightarrow> int \<Rightarrow> coordinator" where
  "new_coordinator upload_wait max_pending max_per_key =
     \<lparr>cc_wait = upload_wait, cc_max_pending = nat (max 1 max_pending),
      cc_max_per_key = nat (max 1 max_per_key), cc_uploads = [], cc_intents = [],
      cc_timer = None, cc_captured = []\<rparr>"

definition expire_queue :: "real \<Rightarrow> 'a pending list \<Rightarrow> 'a pending list" where
  "expire_queue now q = dropWhile (\<lambda>(_, expires_at). expires_at \<le> now) q"

fun prune_pending :: "real \<Rightarrow> ('k, 'a) pending_bucket \<Rightarrow> ('k, 'a) pending_bucket" where
  "prune_pending now [] = []"
| "prune_pending now ((k, q) # b) =
     (let q' = expire_queue now q
      in if q' = [] then prune_pending now b else (k, q') # prune_pending now b)"

definition prune_expired :: "real \<Rightarrow> coordinator \<Rightarrow> coordinator" where
  "prune_expired now cc = cc\<lparr>cc_uploads := prune_pending now (cc_uploads cc),
     cc_intents := prune_pending now (cc_intents cc)\<rparr>"

definition pending_count :: "('k, 'a) pending_bucket \<Rightarrow> nat" where
  "pending_count b = sum_list (List.map (\<lambda>(k, q). length q) b)"

text \<open>\<open>_oldest_key\<close>: the first key whose head expires earliest.\<close>

fun oldest_loop :: "(real \<times> 'k) option \<Rightarrow> ('k, 'a) pending_bucket \<Rightarrow> (real \<times> 'k) option" where
  "oldest_loop best [] = best"
| "oldest_loop best ((k, q) # b) =
     (case q of
        [] \<Rightarrow> oldest_loop best b
      | (_, e) # _ \<Rightarrow>
          (case best of
             None \<Rightarrow> oldest_loop (Some (e, k)) b
           | Some (e0, k0) \<Rightarrow> oldest_loop (if e < e0 then Some (e, k) else Some (e0, k0)) b))"

definition oldest_key :: "('k, 'a) pending_bucket \<Rightarrow> 'k option" where
  "oldest_key b = map_option snd (oldest_loop None b)"

definition pop_oldest :: "'k \<Rightarrow> ('k, 'a) pending_bucket \<Rightarrow> ('k, 'a) pending_bucket" where
  "pop_oldest k b = (let q = tl (get_or b k [])
     in if q = [] then AList.delete k b else AList.update k q b)"

text \<open>The eviction loop of \<open>_enforce_total_limit\<close>; \<open>fuel\<close> is the number of pending entries.\<close>

fun enforce_total :: "nat \<Rightarrow> nat \<Rightarrow> ('k, 'a) pending_bucket \<Rightarrow> ('k, 'a) pending_bucket" where
  "enforce_total 0 maximum b = b"
| "enforce_total (Suc fuel) maximum b =
     (if maximum < pending_count b then
        (case oldest_key b of None \<Rightarrow> b | Some k \<Rightarrow> enforce_total fuel maximum (pop_oldest k b))
      else b)"

definition enforce_total_limit :: "nat \<Rightarrow> ('k, 'a) pending_bucket \<Rightarrow> ('k, 'a) pending_bucket" where
  "enforce_total_limit maximum b = enforce_total (pending_count b) maximum b"

definition enforce_per_key_limit :: "nat \<Rightarrow> 'k \<Rightarrow> ('k, 'a) pending_bucket \<Rightarrow> ('k, 'a) pending_bucket" where
  "enforce_per_key_limit m k b =
     (case map_of b k of None \<Rightarrow> b | Some q \<Rightarrow> AList.update k (trim_oldest m q) b)"

definition try_capture :: "capture_env \<Rightarrow> capture_key \<Rightarrow> coordinator \<Rightarrow> coordinator" where
  "try_capture env key cc =
     (let uq = get_or (cc_uploads cc) key []; iq = get_or (cc_intents cc) key [];
          dropped = cc\<lparr>cc_uploads := AList.delete key (cc_uploads cc),
                       cc_intents := AList.delete key (cc_intents cc)\<rparr>
      in if uq = [] \<or> iq = [] then cc
         else if length uq \<noteq> 1 \<or> length iq \<noteq> 1 then dropped
         else (case assemble_captured_job env (fst (hd uq)) (fst (hd iq)) of
                 Inl _ \<Rightarrow> dropped
               | Inr job \<Rightarrow>
                   (let u' = AList.update key (tl uq) (cc_uploads cc);
                        i' = AList.update key (tl iq) (cc_intents cc)
                    in cc\<lparr>cc_uploads := (if tl uq = [] then AList.delete key u' else u'),
                          cc_intents := (if tl iq = [] then AList.delete key i' else i'),
                          cc_captured := cc_captured cc @ [job]\<rparr>)))"

definition head_expiries :: "('k, 'a) pending_bucket \<Rightarrow> real list" where
  "head_expiries b = List.map (\<lambda>(k, q). snd (hd q)) (List.filter (\<lambda>(k, q). q \<noteq> []) b)"

definition next_expiry :: "coordinator \<Rightarrow> real option" where
  "next_expiry cc = (case head_expiries (cc_uploads cc) @ head_expiries (cc_intents cc) of
      [] \<Rightarrow> None | e # es \<Rightarrow> Some (foldl min e es))"

definition schedule_expiry :: "real \<Rightarrow> coordinator \<Rightarrow> coordinator" where
  "schedule_expiry now cc = cc\<lparr>cc_timer :=
     map_option (\<lambda>e. now + max 0 (e - now)) (next_expiry cc)\<rparr>"

text \<open>The queueing part that \<open>record_upload\<close> and \<open>record_project_file\<close> have in common.\<close>

definition add_pending ::
  "nat \<Rightarrow> nat \<Rightarrow> 'k \<Rightarrow> 'a pending \<Rightarrow> ('k, 'a) pending_bucket \<Rightarrow> ('k, 'a) pending_bucket" where
  "add_pending max_per_key max_pending key item b =
     (let b0 = setdefault key [] b;
          b1 = AList.update key (get_or b0 key [] @ [item]) b0;
          b2 = move_to_end key b1;
          b3 = enforce_per_key_limit max_per_key key b2
      in enforce_total_limit max_pending b3)"

definition record_upload :: "capture_env \<Rightarrow> real \<Rightarrow> upload_record \<Rightarrow> coordinator \<Rightarrow> coordinator" where
  "record_upload env now upload cc0 =
     (let cc = prune_expired now cc0;
          key = (up_member upload, up_filename upload);
          b = add_pending (cc_max_per_key cc) (cc_max_pending cc) key (upload, now + cc_wait cc) (cc_uploads cc)
      in schedule_expiry now (try_capture env key (cc\<lparr>cc_uploads := b\<rparr>)))"

definition record_project_file :: "capture_env \<Rightarrow> real \<Rightarrow> project_intent \<Rightarrow> coordinator \<Rightarrow> coordinator" where
  "record_project_file env now intent cc0 =
     (let cc = prune_expired now cc0;
          key = (pi_member intent, pi_filename intent);
          b = add_pending (cc_max_per_key cc) (cc_max_pending cc) key (intent, now + cc_wait cc) (cc_intents cc)
      in schedule_expiry now (try_capture env key (cc\<lparr>cc_intents := b\<rparr>)))"

definition expire_pending :: "real \<Rightarrow> coordinator \<Rightarrow> coordinator" where
  "expire_pending now cc = schedule_expiry now (prune_expired now (cc\<lparr>cc_timer := None\<rparr>))"

definition clear :: "coordinator \<Rightarrow> coordinator" where
  "clear cc = cc\<lparr>cc_timer := None, cc_uploads := [], cc_intents := []\<rparr>"

datatype capture_op =
    Upload real upload_record
  | Intent real project_intent
  | Expire real
  | Clear

fun capture_step :: "capture_env \<Rightarrow> coordinator \<Rightarrow> capture_op \<Rightarrow> coordinator" where
  "capture_step env cc (Upload now u) = record_upload env now u cc"
| "capture_step env cc (Intent now i) = record_project_file env now i cc"
| "capture_step env cc (Expire now) = expire_pending now cc"
| "capture_step env cc Clear = clear cc"

definition capture_run :: "capture_env \<Rightarrow> coordinator \<Rightarrow> capture_op list \<Rightarrow> coordinator" where
  "capture_run env cc ops = foldl (capture_step env) cc ops"

section \<open>Buckets of pending entries\<close>

lemma pending_count_simps [simp]:
  "pending_count [] = 0"
  "pending_count ((k, q) # b) = length q + pending_count b"
  "pending_count (b @ c) = pending_count b + pending_count c"
  by (simp_all add: pending_count_def)

lemma get_or_Cons: "get_or ((k, q) # b) k' d = (if k = k' then q else get_or b k' d)"
  by (simp add: get_or_def)

lemma get_or_notin: "k \<notin> set (keys b) \<Longrightarrow> get_or b k d = d"
  by (simp add: get_or_def map_of_None_keys[symmetric])

lemma delete_notin: "k \<notin> set (keys b) \<Longrightarrow> AList.delete k b = b"
  by (induction b) auto

lemma pending_count_delete:
  "wf_dict b \<Longrightarrow> pending_count (AList.delete k b) + length (get_or b k []) = pending_count b"
proof (induction b)
  case (Cons p b)
  obtain k' q where p: "p = (k', q)" by (cases p)
  show ?case
  proof (cases "k' = k")
    case True
    with Cons.prems have "k \<notin> set (keys b)" by (simp add: p wf_dict_def)
    then show ?thesis using True by (simp add: p get_or_Cons delete_notin)
  next
    case False
    with Cons show ?thesis by (simp add: p get_or_Cons wf_dict_def)
  qed
qed (simp add: get_or_def)

lemma pending_count_update:
  "wf_dict b \<Longrightarrow> pending_count (AList.update k q b) + length (get_or b k []) = pending_count b + length q"
proof (induction b)
  case (Cons p b)
  then show ?case by (cases p) (auto simp: get_or_Cons wf_dict_def)
qed (simp add: get_or_def)

lemma pending_count_move_to_end: "wf_dict b \<Longrightarrow> pending_count (move_to_end k b) = pending_count b"
  using pending_count_delete [of b k]
  by (auto simp: move_to_end_def get_or_def split: option.splits)

lemma get_or_setdefault_nil: "get_or (setdefault k [] b) k' [] = get_or b k' []"
  by (auto simp: setdefault_def get_or_def map_add_def split: option.splits)

lemma pending_count_setdefault: "pending_count (setdefault k [] b) = pending_count b"
  by (simp add: setdefault_def split: option.splits)

text \<open>
  The invariant of one bucket: distinct keys, no empty queue, no queue over the per-key limit, and
  every entry is filed under its own member and file name.
\<close>

definition bucket_inv :: "('k \<Rightarrow> 'a \<Rightarrow> bool) \<Rightarrow> nat \<Rightarrow> ('k, 'a) pending_bucket \<Rightarrow> bool" where
  "bucket_inv P m b \<longleftrightarrow> wf_dict b \<and>
     (\<forall>k. k \<in> set (keys b) \<longrightarrow> get_or b k [] \<noteq> []) \<and>
     (\<forall>k. length (get_or b k []) \<le> m \<and> (\<forall>x\<in>set (get_or b k []). P k (fst x)))"

lemma bucket_inv_Nil [simp]: "bucket_inv P m []"
  by (simp add: bucket_inv_def get_or_def)

lemma bucket_inv_wf: "bucket_inv P m b \<Longrightarrow> wf_dict b"
  by (simp add: bucket_inv_def)

lemma keys_prune_pending: "set (keys (prune_pending now b)) \<subseteq> set (keys b)"
proof (induction now b rule: prune_pending.induct)
  case (2 now k q b)
  then show ?case by (cases "expire_queue now q = []") auto
qed simp

lemma get_or_prune_pending:
  "wf_dict b \<Longrightarrow> get_or (prune_pending now b) k [] = expire_queue now (get_or b k [])"
proof (induction now b rule: prune_pending.induct)
  case (2 now k' q b)
  have "k' \<notin> set (keys b)" using "2.prems" by (simp add: wf_dict_def)
  then have "get_or (prune_pending now b) k' [] = []"
    using keys_prune_pending [of now b] by (intro get_or_notin) auto
  with 2 show ?case by (auto simp: get_or_Cons Let_def wf_dict_def)
qed (simp add: get_or_def expire_queue_def)

lemma bucket_inv_prune:
  fixes b :: "('k, 'a) pending_bucket"
  assumes inv: "bucket_inv P m b"
  shows "bucket_inv P m (prune_pending now b)"
proof -
  have wf: "wf_dict (prune_pending now b)" if "wf_dict b" for b :: "('k, 'a) pending_bucket"
    using that
  proof (induction now b rule: prune_pending.induct)
    case (2 now k q b)
    have "k \<notin> set (keys (prune_pending now b))"
      using "2.prems" keys_prune_pending [of now b] by (auto simp: wf_dict_def)
    with 2 show ?case by (cases "expire_queue now q = []") (auto simp: wf_dict_def)
  qed simp
  have ne: "\<forall>k. k \<in> set (keys (prune_pending now b)) \<longrightarrow> get_or (prune_pending now b) k [] \<noteq> []"
    for b :: "('k, 'a) pending_bucket"
    by (induction now b rule: prune_pending.induct) (auto simp: Let_def get_or_Cons)
  have len: "length (expire_queue now q) \<le> m" if "length q \<le> m" for q :: "'a pending list" and m
    using that by (simp add: expire_queue_def le_trans [OF length_dropWhile_le])
  have sub: "x \<in> set (expire_queue now q) \<Longrightarrow> x \<in> set q" for x and q :: "'a pending list"
    by (auto simp: expire_queue_def dest: set_dropWhileD)
  have wfb: "wf_dict b" using inv by (rule bucket_inv_wf)
  show ?thesis
    using inv wf [OF wfb] ne [of b] len
    by (simp add: bucket_inv_def get_or_prune_pending [OF wfb]) (blast dest: sub)
qed

lemma pending_count_prune: "pending_count (prune_pending now b) \<le> pending_count b"
proof (induction now b rule: prune_pending.induct)
  case (2 now k q b)
  have "length (expire_queue now q) \<le> length q" by (simp add: expire_queue_def length_dropWhile_le)
  with 2 show ?case by (auto simp: Let_def)
qed simp

lemma oldest_loop_Cons:
  "oldest_loop best ((k, q) # b) =
     (if q = [] then oldest_loop best b
      else if best = None \<or> snd (hd q) < fst (the best) then oldest_loop (Some (snd (hd q), k)) b
      else oldest_loop best b)"
  by (cases q; cases best) (auto split: prod.splits)

lemma oldest_loop_Some:
  "oldest_loop best b = Some (e, k) \<Longrightarrow> best = Some (e, k) \<or> (\<exists>q. (k, q) \<in> set b \<and> q \<noteq> [])"
proof (induction b arbitrary: best)
  case (Cons p b)
  obtain k' q where p: "p = (k', q)" by (cases p)
  have "oldest_loop best b = Some (e, k) \<or> (q \<noteq> [] \<and> oldest_loop (Some (snd (hd q), k')) b = Some (e, k))"
    using Cons.prems by (simp only: p oldest_loop_Cons split: if_splits) auto
  then show ?case using Cons.IH by (auto simp: p)
qed simp

lemma oldest_loop_None: "oldest_loop best b = None \<Longrightarrow> best = None \<and> (\<forall>p\<in>set b. snd p = [])"
proof (induction b arbitrary: best)
  case (Cons p b)
  obtain k' q where p: "p = (k', q)" by (cases p)
  have "q = [] \<and> oldest_loop best b = None"
  proof (rule ccontr)
    assume "\<not> (q = [] \<and> oldest_loop best b = None)"
    then have "oldest_loop (Some (snd (hd q), k')) b = None \<or> (q \<noteq> [] \<and> best \<noteq> None \<and> oldest_loop best b = None)"
      using Cons.prems unfolding p oldest_loop_Cons by (metis not_Some_eq)
    then show False using Cons.IH by blast
  qed
  then show ?case using Cons.IH by (auto simp: p)
qed simp

lemma oldest_key_Some:
  assumes "oldest_key b = Some k" and "wf_dict b"
  shows "get_or b k [] \<noteq> []"
proof -
  from assms(1) obtain q where "(k, q) \<in> set b" "q \<noteq> []"
    by (auto simp: oldest_key_def dest: oldest_loop_Some)
  moreover have "map_of b k = Some q"
    using calculation assms(2) by (simp add: wf_dict_def keys_def)
  ultimately show ?thesis by (simp add: get_or_def)
qed

lemma oldest_key_None: "oldest_key b = None \<Longrightarrow> pending_count b = 0"
  by (auto simp: oldest_key_def pending_count_def dest!: oldest_loop_None)

lemma get_or_pop_oldest:
  "get_or (pop_oldest k b) k' [] = (if k' = k then tl (get_or b k []) else get_or b k' [])"
  by (auto simp: pop_oldest_def Let_def get_or_def map_of_update map_of_delete split: option.splits)

lemma wf_pop_oldest: "wf_dict b \<Longrightarrow> wf_dict (pop_oldest k b)"
  by (auto simp: pop_oldest_def Let_def)

lemma pending_count_pop_oldest:
  "wf_dict b \<Longrightarrow> get_or b k [] \<noteq> [] \<Longrightarrow> Suc (pending_count (pop_oldest k b)) = pending_count b"
  using pending_count_delete [of b k] pending_count_update [of b k "tl (get_or b k [])"]
  by (cases "get_or b k []") (auto simp: pop_oldest_def Let_def)

lemma bucket_inv_pop: "bucket_inv P m b \<Longrightarrow> bucket_inv P m (pop_oldest k b)"
proof -
  assume inv: "bucket_inv P m b"
  have ks: "k' \<in> set (keys (pop_oldest k b)) \<Longrightarrow> k' \<noteq> k \<longrightarrow> k' \<in> set (keys b)" for k'
    by (auto simp: pop_oldest_def Let_def keys_update keys_delete split: if_splits)
  have kk: "k \<in> set (keys (pop_oldest k b)) \<Longrightarrow> tl (get_or b k []) \<noteq> []"
    by (auto simp: pop_oldest_def Let_def keys_delete split: if_splits)
  have len: "length (tl (get_or b k [])) \<le> m"
    using inv unfolding bucket_inv_def by (metis diff_le_self le_trans length_tl)
  have sub: "set (tl (get_or b k [])) \<subseteq> set (get_or b k [])"
    by (cases "get_or b k []") auto
  have own: "\<forall>x\<in>set (tl (get_or b k [])). P k (fst x)"
    using sub inv unfolding bucket_inv_def by blast
  show ?thesis
    using inv ks kk len own unfolding bucket_inv_def get_or_pop_oldest
    by (auto simp: wf_pop_oldest)
qed

lemma enforce_total_inv:
  assumes "bucket_inv P m b" and "pending_count b \<le> maximum + fuel"
  shows "bucket_inv P m (enforce_total fuel maximum b) \<and>
    pending_count (enforce_total fuel maximum b) \<le> maximum \<and>
    pending_count (enforce_total fuel maximum b) \<le> pending_count b"
  using assms
proof (induction fuel maximum b rule: enforce_total.induct)
  case (2 fuel maximum b)
  show ?case
  proof (cases "maximum < pending_count b")
    case True
    then obtain k where k: "oldest_key b = Some k"
      using oldest_key_None [of b] by (cases "oldest_key b") auto
    have "Suc (pending_count (pop_oldest k b)) = pending_count b"
      using "2.prems"(1) k by (intro pending_count_pop_oldest oldest_key_Some bucket_inv_wf) auto
    then show ?thesis
      using "2.IH" [OF True k bucket_inv_pop [OF "2.prems"(1)]] "2.prems"(2) True k by simp
  next
    case False
    then show ?thesis using "2.prems" by simp
  qed
qed simp

lemma enforce_total_id: "pending_count b \<le> maximum \<Longrightarrow> enforce_total_limit maximum b = b"
  by (cases "pending_count b") (simp_all add: enforce_total_limit_def)

lemma add_pending_before_total:
  assumes inv: "bucket_inv P m b" and m: "0 < m" and P: "P key (fst item)"
  defines "b3 \<equiv> enforce_per_key_limit m key
     (move_to_end key (AList.update key (get_or (setdefault key [] b) key [] @ [item]) (setdefault key [] b)))"
  shows "bucket_inv P m b3" and "pending_count b3 \<le> Suc (pending_count b)"
    and "\<And>k. get_or b3 k [] = (if k = key then trim_oldest m (get_or b key [] @ [item]) else get_or b k [])"
    and "set (keys b3) = insert key (set (keys b))"
proof -
  let ?q = "get_or b key [] @ [item]"
  let ?b0 = "setdefault key [] b"
  let ?b2 = "move_to_end key (AList.update key ?q ?b0)"
  have wf0: "wf_dict ?b0" using inv by (auto simp: bucket_inv_def)
  have b2k: "map_of ?b2 key = Some ?q" by (simp add: map_of_move_to_end map_of_update)
  have b3: "b3 = AList.update key (trim_oldest m ?q) ?b2"
    using b2k by (simp add: b3_def get_or_setdefault_nil enforce_per_key_limit_def)
  have g2: "get_or ?b2 k [] = (if k = key then ?q else get_or b k [])" for k
    by (simp add: get_or_def map_of_move_to_end map_of_update)
       (metis get_or_def get_or_setdefault_nil)
  show g3: "get_or b3 k [] = (if k = key then trim_oldest m ?q else get_or b k [])" for k
    using g2 [of k] by (simp add: b3 get_or_def map_of_update)
  show ks: "set (keys b3) = insert key (set (keys b))"
    by (auto simp: b3 keys_update keys_move_to_end keys_setdefault)
  have wf2: "wf_dict ?b2" using wf0 by auto
  have wf3: "wf_dict b3" unfolding b3 using wf2 by auto
  have c2: "pending_count ?b2 = Suc (pending_count b)"
    using pending_count_update [OF wf0, of key ?q] wf0
    by (simp add: pending_count_move_to_end wf_dict_update get_or_setdefault_nil pending_count_setdefault)
  have "pending_count b3 + length ?q = pending_count ?b2 + length (trim_oldest m ?q)"
    using pending_count_update [OF wf2, of key "trim_oldest m ?q"] g2 [of key] by (simp add: b3)
  with c2 show "pending_count b3 \<le> Suc (pending_count b)" by simp
  have "trim_oldest m ?q \<noteq> []"
    using m by (metis Suc_eq_plus1 length_0_conv length_append_singleton length_trim_oldest min_def nat.simps(3) not_less0)
  moreover have "\<forall>x\<in>set (trim_oldest m ?q). P key (fst x)"
    using set_trim_oldest [of m ?q] inv P by (auto simp: bucket_inv_def)
  ultimately show "bucket_inv P m b3"
    using inv wf3 by (auto simp: bucket_inv_def g3 ks)
qed

lemma add_pending_inv:
  assumes "bucket_inv P m b" and "0 < m" and "P key (fst item)"
  shows "bucket_inv P m (add_pending m maxp key item b)"
    and "pending_count (add_pending m maxp key item b) \<le> maxp"
    and "pending_count (add_pending m maxp key item b) \<le> Suc (pending_count b)"
  using add_pending_before_total(1,2) [OF assms]
    enforce_total_inv [OF add_pending_before_total(1) [OF assms] le_add2, of maxp]
  by (auto simp: add_pending_def Let_def enforce_total_limit_def intro: le_trans)

section \<open>The coordinator's invariant\<close>

text \<open>
  What every operation keeps: each bucket is well formed and within its limits, holds only uploads
  of \<open>U\<close> and intents of \<open>I\<close>, and no key waits in both buckets (an upload and an intent that could
  pair have been paired or dropped). \<open>captured_from\<close> says where a captured job comes from.
\<close>

definition upload_key :: "upload_record \<Rightarrow> capture_key" where
  "upload_key u = (up_member u, up_filename u)"

definition intent_key :: "project_intent \<Rightarrow> capture_key" where
  "intent_key i = (pi_member i, pi_filename i)"

definition coordinator_ok :: "upload_record set \<Rightarrow> project_intent set \<Rightarrow> coordinator \<Rightarrow> bool" where
  "coordinator_ok U I cc \<longleftrightarrow> 0 < cc_max_per_key cc \<and>
     bucket_inv (\<lambda>k u. k = upload_key u \<and> u \<in> U) (cc_max_per_key cc) (cc_uploads cc) \<and>
     bucket_inv (\<lambda>k i. k = intent_key i \<and> i \<in> I) (cc_max_per_key cc) (cc_intents cc) \<and>
     pending_count (cc_uploads cc) \<le> cc_max_pending cc \<and>
     pending_count (cc_intents cc) \<le> cc_max_pending cc"

definition unpaired :: "coordinator \<Rightarrow> bool" where
  "unpaired cc \<longleftrightarrow> (\<forall>k. get_or (cc_uploads cc) k [] = [] \<or> get_or (cc_intents cc) k [] = [])"

lemma unpairedD: "unpaired cc \<Longrightarrow> get_or (cc_uploads cc) k [] = [] \<or> get_or (cc_intents cc) k [] = []"
  unfolding unpaired_def by blast

lemma bucket_inv_delete: "bucket_inv P m b \<Longrightarrow> bucket_inv P m (AList.delete k b)"
  by (auto simp: bucket_inv_def get_or_def map_of_delete keys_delete)

lemma bucket_inv_delete_update: "bucket_inv P m b \<Longrightarrow> bucket_inv P m (AList.delete k (AList.update k q b))"
  by (auto simp: bucket_inv_def get_or_def map_of_delete map_of_update keys_delete keys_update)

lemma pending_count_delete_le: "wf_dict b \<Longrightarrow> pending_count (AList.delete k b) \<le> pending_count b"
  using pending_count_delete [of b k] by simp

lemma delete_update_same: "AList.delete k (AList.update k q b) = AList.delete k b"
  by (induction b) auto

text \<open>The three outcomes of \<open>_try_capture\<close>.\<close>

lemma try_capture_cases:
  obtains (wait) "try_capture env key cc = cc"
      "get_or (cc_uploads cc) key [] = [] \<or> get_or (cc_intents cc) key [] = []"
  | (dropped) "try_capture env key cc = cc\<lparr>cc_uploads := AList.delete key (cc_uploads cc),
        cc_intents := AList.delete key (cc_intents cc)\<rparr>"
  | (captured) u eu i ei job where
      "get_or (cc_uploads cc) key [] = [(u, eu)]" "get_or (cc_intents cc) key [] = [(i, ei)]"
      "assemble_captured_job env u i = Inr job"
      "try_capture env key cc = cc\<lparr>cc_uploads := AList.delete key (cc_uploads cc),
        cc_intents := AList.delete key (cc_intents cc), cc_captured := cc_captured cc @ [job]\<rparr>"
proof -
  let ?uq = "get_or (cc_uploads cc) key []" and ?iq = "get_or (cc_intents cc) key []"
  consider "?uq = [] \<or> ?iq = []" | "?uq \<noteq> []" "?iq \<noteq> []" "length ?uq \<noteq> 1 \<or> length ?iq \<noteq> 1"
    | u eu i ei where "?uq = [(u, eu)]" "?iq = [(i, ei)]"
    using that by (auto simp: length_Suc_conv)
  then show thesis
  proof cases
    case 1
    then show ?thesis by (intro wait) (simp_all add: try_capture_def)
  next
    case 2
    then show ?thesis by (intro dropped) (simp add: try_capture_def)
  next
    case 3
    show ?thesis
    proof (cases "assemble_captured_job env u i")
      case (Inl e)
      with 3 show ?thesis by (intro dropped) (simp add: try_capture_def)
    next
      case (Inr job)
      with 3 show ?thesis by (intro captured [of u eu i ei job]) (simp_all add: try_capture_def delete_update_same)
    qed
  qed
qed

lemma bucket_inv_mono: "bucket_inv P m b \<Longrightarrow> (\<And>k x. P k x \<Longrightarrow> Q k x) \<Longrightarrow> bucket_inv Q m b"
  unfolding bucket_inv_def by blast

lemma coordinator_ok_mono:
  assumes "coordinator_ok U I cc" and "U \<subseteq> U'" and "I \<subseteq> I'"
  shows "coordinator_ok U' I' cc"
  using assms by (simp add: coordinator_ok_def) (blast intro: bucket_inv_mono)

lemma coordinator_ok_new: "coordinator_ok U I (new_coordinator w p q)" "unpaired (new_coordinator w p q)"
  by (simp_all add: coordinator_ok_def new_coordinator_def unpaired_def get_or_def)

lemma coordinator_ok_prune: "coordinator_ok U I cc \<Longrightarrow> coordinator_ok U I (prune_expired now cc)"
  using pending_count_prune [of now "cc_uploads cc"] pending_count_prune [of now "cc_intents cc"]
  by (auto simp: coordinator_ok_def prune_expired_def intro: bucket_inv_prune)

lemma get_or_prune_nil: "bucket_inv P m b \<Longrightarrow> get_or b k [] = [] \<Longrightarrow> get_or (prune_pending now b) k [] = []"
  by (simp add: get_or_prune_pending bucket_inv_wf expire_queue_def)

lemma unpaired_prune:
  assumes "coordinator_ok U I cc" and "unpaired cc"
  shows "unpaired (prune_expired now cc)"
proof -
  have bu: "bucket_inv (\<lambda>k u. k = upload_key u \<and> u \<in> U) (cc_max_per_key cc) (cc_uploads cc)"
    and bi: "bucket_inv (\<lambda>k i. k = intent_key i \<and> i \<in> I) (cc_max_per_key cc) (cc_intents cc)"
    using assms(1) by (simp_all add: coordinator_ok_def)
  have "get_or (prune_pending now (cc_uploads cc)) k [] = [] \<or> get_or (prune_pending now (cc_intents cc)) k [] = []" for k
    using unpairedD [OF assms(2), of k] get_or_prune_nil [OF bu, of k now] get_or_prune_nil [OF bi, of k now]
    by auto
  then show ?thesis by (simp add: unpaired_def prune_expired_def del: split_paired_All)
qed

lemma coordinator_ok_drop:
  assumes "coordinator_ok U I cc"
  shows "coordinator_ok U I (cc\<lparr>cc_uploads := AList.delete k (cc_uploads cc),
      cc_intents := AList.delete k (cc_intents cc)\<rparr>)"
    and "coordinator_ok U I (cc\<lparr>cc_uploads := AList.delete k (cc_uploads cc),
      cc_intents := AList.delete k (cc_intents cc), cc_captured := js\<rparr>)"
  using assms pending_count_delete_le [of "cc_uploads cc" k] pending_count_delete_le [of "cc_intents cc" k]
  by (auto simp: coordinator_ok_def bucket_inv_wf intro: bucket_inv_delete)

lemma coordinator_ok_try: "coordinator_ok U I cc \<Longrightarrow> coordinator_ok U I (try_capture env key cc)"
  by (cases rule: try_capture_cases [of env key cc]) (simp_all add: coordinator_ok_drop)

lemma unpaired_try:
  assumes "\<And>k. k \<noteq> key \<Longrightarrow> get_or (cc_uploads cc) k [] = [] \<or> get_or (cc_intents cc) k [] = []"
  shows "unpaired (try_capture env key cc)"
  unfolding unpaired_def
proof
  fix k
  show "get_or (cc_uploads (try_capture env key cc)) k [] = [] \<or> get_or (cc_intents (try_capture env key cc)) k [] = []"
    using assms [of k]
    by (cases rule: try_capture_cases [of env key cc]; cases "k = key") (simp_all add: get_or_delete)
qed

lemma schedule_expiry_simps [simp]:
  "coordinator_ok U I (schedule_expiry now cc) = coordinator_ok U I cc"
  "unpaired (schedule_expiry now cc) = unpaired cc"
  "cc_captured (schedule_expiry now cc) = cc_captured cc"
  "cc_uploads (schedule_expiry now cc) = cc_uploads cc"
  "cc_intents (schedule_expiry now cc) = cc_intents cc"
  by (simp_all add: schedule_expiry_def coordinator_ok_def unpaired_def)

text \<open>Queueing an entry leaves the other keys with a suffix of what they had.\<close>

lemma get_or_pop_nil: "get_or b k [] = [] \<Longrightarrow> get_or (pop_oldest k' b) k [] = []"
  by (cases "k = k'") (simp_all add: get_or_pop_oldest)

lemma get_or_enforce_total:
  "get_or b k [] = [] \<Longrightarrow> get_or (enforce_total fuel maximum b) k [] = []"
  by (induction fuel maximum b rule: enforce_total.induct)
     (simp_all add: get_or_pop_nil split: option.splits)

lemma get_or_add_pending_other:
  assumes "bucket_inv P m b" and "0 < m" and "P key (fst item)" and "k \<noteq> key" and "get_or b k [] = []"
  shows "get_or (add_pending m maxp key item b) k [] = []"
  using add_pending_before_total(3) [OF assms(1-3), of k] assms(4,5)
  by (simp add: add_pending_def Let_def enforce_total_limit_def get_or_enforce_total)

lemma record_upload_inv:
  assumes ok: "coordinator_ok U I cc" and un: "unpaired cc" and u: "u \<in> U"
  shows "coordinator_ok U I (record_upload env now u cc)" and "unpaired (record_upload env now u cc)"
proof -
  define c where "c = prune_expired now cc"
  define key where "key = upload_key u"
  define c' where "c' = c\<lparr>cc_uploads := add_pending (cc_max_per_key c) (cc_max_pending c) key
     (u, now + cc_wait c) (cc_uploads c)\<rparr>"
  have c: "coordinator_ok U I c" "unpaired c"
    using coordinator_ok_prune [OF ok] unpaired_prune [OF ok un] by (simp_all add: c_def)
  have e: "record_upload env now u cc = schedule_expiry now (try_capture env key c')"
    by (simp add: record_upload_def Let_def c_def c'_def key_def upload_key_def)
  have b: "bucket_inv (\<lambda>k u. k = upload_key u \<and> u \<in> U) (cc_max_per_key c) (cc_uploads c)" "0 < cc_max_per_key c"
    using c(1) by (auto simp: coordinator_ok_def)
  have "coordinator_ok U I c'"
    using c(1) add_pending_inv(1,2) [OF b, of key "(u, now + cc_wait c)"] u
    by (simp add: coordinator_ok_def c'_def key_def)
  then show "coordinator_ok U I (record_upload env now u cc)"
    by (simp add: e coordinator_ok_try)
  have "get_or (cc_uploads c') k [] = [] \<or> get_or (cc_intents c') k [] = []" if "k \<noteq> key" for k
    using unpairedD [OF c(2), of k] get_or_add_pending_other [OF b, of key "(u, now + cc_wait c)" k] that u
    by (auto simp: c'_def key_def)
  then show "unpaired (record_upload env now u cc)"
    by (simp add: e unpaired_try)
qed

lemma record_project_file_inv:
  assumes ok: "coordinator_ok U I cc" and un: "unpaired cc" and i: "i \<in> I"
  shows "coordinator_ok U I (record_project_file env now i cc)" and "unpaired (record_project_file env now i cc)"
proof -
  define c where "c = prune_expired now cc"
  define key where "key = intent_key i"
  define c' where "c' = c\<lparr>cc_intents := add_pending (cc_max_per_key c) (cc_max_pending c) key
     (i, now + cc_wait c) (cc_intents c)\<rparr>"
  have c: "coordinator_ok U I c" "unpaired c"
    using coordinator_ok_prune [OF ok] unpaired_prune [OF ok un] by (simp_all add: c_def)
  have e: "record_project_file env now i cc = schedule_expiry now (try_capture env key c')"
    by (simp add: record_project_file_def Let_def c_def c'_def key_def intent_key_def)
  have b: "bucket_inv (\<lambda>k i. k = intent_key i \<and> i \<in> I) (cc_max_per_key c) (cc_intents c)" "0 < cc_max_per_key c"
    using c(1) by (auto simp: coordinator_ok_def)
  have "coordinator_ok U I c'"
    using c(1) add_pending_inv(1,2) [OF b, of key "(i, now + cc_wait c)"] i
    by (simp add: coordinator_ok_def c'_def key_def)
  then show "coordinator_ok U I (record_project_file env now i cc)"
    by (simp add: e coordinator_ok_try)
  have "get_or (cc_uploads c') k [] = [] \<or> get_or (cc_intents c') k [] = []" if "k \<noteq> key" for k
    using unpairedD [OF c(2), of k] get_or_add_pending_other [OF b, of key "(i, now + cc_wait c)" k] that i
    by (auto simp: c'_def key_def)
  then show "unpaired (record_project_file env now i cc)"
    by (simp add: e unpaired_try)
qed

fun op_within :: "upload_record set \<Rightarrow> project_intent set \<Rightarrow> capture_op \<Rightarrow> bool" where
  "op_within U I (Upload now u) = (u \<in> U)"
| "op_within U I (Intent now i) = (i \<in> I)"
| "op_within U I _ = True"

lemma capture_step_inv:
  assumes "coordinator_ok U I cc" and "unpaired cc" and "op_within U I op"
  shows "coordinator_ok U I (capture_step env cc op) \<and> unpaired (capture_step env cc op)"
proof (cases op)
  case (Expire now)
  have "coordinator_ok U I (cc\<lparr>cc_timer := None\<rparr>)" "unpaired (cc\<lparr>cc_timer := None\<rparr>)"
    using assms by (simp_all add: coordinator_ok_def unpaired_def)
  then show ?thesis
    using unpaired_prune by (simp add: Expire expire_pending_def coordinator_ok_prune)
next
  case Clear
  then show ?thesis
    using assms by (simp add: clear_def coordinator_ok_def unpaired_def get_or_def)
qed (use assms in \<open>simp_all add: record_upload_inv record_project_file_inv\<close>)

definition captured_from ::
  "capture_env \<Rightarrow> upload_record set \<Rightarrow> project_intent set \<Rightarrow> captured_job list \<Rightarrow> bool" where
  "captured_from env U I jobs \<longleftrightarrow> (\<forall>job\<in>set jobs. \<exists>u\<in>U. \<exists>i\<in>I.
     upload_key u = intent_key i \<and> assemble_captured_job env u i = Inr job)"

lemma captured_from_try:
  assumes "coordinator_ok U I cc" and "captured_from env U I (cc_captured cc)"
  shows "captured_from env U I (cc_captured (try_capture env key cc))"
proof (cases rule: try_capture_cases [of env key cc])
  case (captured u eu i ei job)
  have "key = upload_key u \<and> u \<in> U"
    using assms(1) captured(1) unfolding coordinator_ok_def bucket_inv_def
    by (metis fst_conv list.set_intros(1))
  moreover have "key = intent_key i \<and> i \<in> I"
    using assms(1) captured(2) unfolding coordinator_ok_def bucket_inv_def
    by (metis fst_conv list.set_intros(1))
  ultimately show ?thesis
    using assms(2) captured(3,4) by (simp add: captured_from_def) metis
qed (use assms in simp_all)

text \<open>The state in which \<open>record_upload\<close> and \<open>record_project_file\<close> call \<open>_try_capture\<close>.\<close>

definition queue_upload :: "real \<Rightarrow> upload_record \<Rightarrow> coordinator \<Rightarrow> coordinator" where
  "queue_upload now u cc = (let c = prune_expired now cc
     in c\<lparr>cc_uploads := add_pending (cc_max_per_key c) (cc_max_pending c) (upload_key u)
            (u, now + cc_wait c) (cc_uploads c)\<rparr>)"

definition queue_intent :: "real \<Rightarrow> project_intent \<Rightarrow> coordinator \<Rightarrow> coordinator" where
  "queue_intent now i cc = (let c = prune_expired now cc
     in c\<lparr>cc_intents := add_pending (cc_max_per_key c) (cc_max_pending c) (intent_key i)
            (i, now + cc_wait c) (cc_intents c)\<rparr>)"

lemma record_upload_queue:
  "record_upload env now u cc = schedule_expiry now (try_capture env (upload_key u) (queue_upload now u cc))"
  by (simp add: record_upload_def queue_upload_def upload_key_def Let_def)

lemma record_project_file_queue:
  "record_project_file env now i cc = schedule_expiry now (try_capture env (intent_key i) (queue_intent now i cc))"
  by (simp add: record_project_file_def queue_intent_def intent_key_def Let_def)

lemma prune_expired_simps [simp]:
  "cc_captured (prune_expired now cc) = cc_captured cc"
  "cc_wait (prune_expired now cc) = cc_wait cc"
  "cc_max_pending (prune_expired now cc) = cc_max_pending cc"
  "cc_max_per_key (prune_expired now cc) = cc_max_per_key cc"
  "cc_uploads (prune_expired now cc) = prune_pending now (cc_uploads cc)"
  "cc_intents (prune_expired now cc) = prune_pending now (cc_intents cc)"
  by (simp_all add: prune_expired_def)

lemma queue_upload_ok:
  assumes "coordinator_ok U I cc" and "u \<in> U"
  shows "coordinator_ok U I (queue_upload now u cc)"
    and "pending_count (cc_uploads (queue_upload now u cc)) \<le> Suc (pending_count (cc_uploads cc))"
proof -
  have c: "coordinator_ok U I (prune_expired now cc)" using assms(1) by (rule coordinator_ok_prune)
  then have b: "bucket_inv (\<lambda>k u. k = upload_key u \<and> u \<in> U) (cc_max_per_key cc) (prune_pending now (cc_uploads cc))"
    "0 < cc_max_per_key cc" by (simp_all add: coordinator_ok_def)
  note add = add_pending_inv [OF b, of "upload_key u" "(u, now + cc_wait cc)"]
  show "coordinator_ok U I (queue_upload now u cc)"
    using c add(1,2) assms(2) by (simp add: queue_upload_def coordinator_ok_def Let_def)
  show "pending_count (cc_uploads (queue_upload now u cc)) \<le> Suc (pending_count (cc_uploads cc))"
    using add(3) assms(2) pending_count_prune [of now "cc_uploads cc"]
    by (auto simp: queue_upload_def Let_def intro: le_trans)
qed

lemma queue_intent_ok:
  assumes "coordinator_ok U I cc" and "i \<in> I"
  shows "coordinator_ok U I (queue_intent now i cc)"
    and "pending_count (cc_intents (queue_intent now i cc)) \<le> Suc (pending_count (cc_intents cc))"
proof -
  have c: "coordinator_ok U I (prune_expired now cc)" using assms(1) by (rule coordinator_ok_prune)
  then have b: "bucket_inv (\<lambda>k i. k = intent_key i \<and> i \<in> I) (cc_max_per_key cc) (prune_pending now (cc_intents cc))"
    "0 < cc_max_per_key cc" by (simp_all add: coordinator_ok_def)
  note add = add_pending_inv [OF b, of "intent_key i" "(i, now + cc_wait cc)"]
  show "coordinator_ok U I (queue_intent now i cc)"
    using c add(1,2) assms(2) by (simp add: queue_intent_def coordinator_ok_def Let_def)
  show "pending_count (cc_intents (queue_intent now i cc)) \<le> Suc (pending_count (cc_intents cc))"
    using add(3) assms(2) pending_count_prune [of now "cc_intents cc"]
    by (auto simp: queue_intent_def Let_def intro: le_trans)
qed

lemma queue_simps [simp]:
  "cc_captured (queue_upload now u cc) = cc_captured cc"
  "cc_captured (queue_intent now i cc) = cc_captured cc"
  "cc_intents (queue_upload now u cc) = prune_pending now (cc_intents cc)"
  "cc_uploads (queue_intent now i cc) = prune_pending now (cc_uploads cc)"
  by (simp_all add: queue_upload_def queue_intent_def Let_def)

lemma capture_step_from:
  assumes "coordinator_ok U I cc" and "op_within U I op" and "captured_from env U I (cc_captured cc)"
  shows "captured_from env U I (cc_captured (capture_step env cc op))"
  using assms
  by (cases op)
     (auto simp: record_upload_queue record_project_file_queue expire_pending_def clear_def
       intro!: captured_from_try queue_upload_ok queue_intent_ok)

lemma capture_run_inv:
  assumes "coordinator_ok U I cc" and "unpaired cc" and "captured_from env U I (cc_captured cc)"
    and "list_all (op_within U I) ops"
  shows "coordinator_ok U I (capture_run env cc ops) \<and> unpaired (capture_run env cc ops) \<and>
    captured_from env U I (cc_captured (capture_run env cc ops))"
  using assms
proof (induction ops arbitrary: cc)
  case (Cons op ops)
  then show ?case
    using capture_step_inv [of U I cc op env] capture_step_from [of U I cc op env]
    by (simp add: capture_run_def)
qed (simp add: capture_run_def)

section \<open>Properties of the coordinator\<close>

definition op_uploads :: "capture_op list \<Rightarrow> upload_record list" where
  "op_uploads ops = List.map_filter (\<lambda>op. case op of Upload _ u \<Rightarrow> Some u | _ \<Rightarrow> None) ops"

definition op_intents :: "capture_op list \<Rightarrow> project_intent list" where
  "op_intents ops = List.map_filter (\<lambda>op. case op of Intent _ i \<Rightarrow> Some i | _ \<Rightarrow> None) ops"

lemma op_lists_simps [simp]:
  "op_uploads [] = []" "op_intents [] = []"
  "op_uploads (Upload t u # ops) = u # op_uploads ops" "op_intents (Upload t u # ops) = op_intents ops"
  "op_uploads (Intent t i # ops) = op_uploads ops" "op_intents (Intent t i # ops) = i # op_intents ops"
  "op_uploads (Expire t # ops) = op_uploads ops" "op_intents (Expire t # ops) = op_intents ops"
  "op_uploads (Clear # ops) = op_uploads ops" "op_intents (Clear # ops) = op_intents ops"
  by (simp_all add: op_uploads_def op_intents_def List.map_filter_simps)

lemma op_within_ops: "list_all (op_within (set (op_uploads ops)) (set (op_intents ops))) ops"
proof -
  have "list_all (op_within (set (op_uploads ops) \<union> U) (set (op_intents ops) \<union> I)) ops" for U I
  proof (induction ops arbitrary: U I)
    case (Cons op ops)
    show ?case
    proof (cases op)
      case (Upload t u)
      then show ?thesis using Cons.IH [of "insert u U" I] by simp
    next
      case (Intent t i)
      then show ?thesis using Cons.IH [of U "insert i I"] by simp
    qed (use Cons.IH [of U I] in simp_all)
  qed simp
  from this [of "{}" "{}"] show ?thesis by simp
qed

lemma run_from_new:
  assumes "cc = capture_run env (new_coordinator wait max_pending max_per_key) ops"
  shows "coordinator_ok (set (op_uploads ops)) (set (op_intents ops)) cc" and "unpaired cc"
    and "captured_from env (set (op_uploads ops)) (set (op_intents ops)) (cc_captured cc)"
proof -
  have "captured_from env U I (cc_captured (new_coordinator wait max_pending max_per_key))" for U I
    by (simp add: captured_from_def new_coordinator_def)
  with capture_run_inv [OF coordinator_ok_new this op_within_ops] assms
  show "coordinator_ok (set (op_uploads ops)) (set (op_intents ops)) cc" "unpaired cc"
    "captured_from env (set (op_uploads ops)) (set (op_intents ops)) (cc_captured cc)" by auto
qed

lemma cc_limits_step:
  "cc_max_pending (capture_step env cc op) = cc_max_pending cc"
  "cc_max_per_key (capture_step env cc op) = cc_max_per_key cc"
  "cc_wait (capture_step env cc op) = cc_wait cc"
proof -
  have "cc_max_pending (try_capture env k c) = cc_max_pending c"
    "cc_max_per_key (try_capture env k c) = cc_max_per_key c" "cc_wait (try_capture env k c) = cc_wait c" for k c
    by (simp_all add: try_capture_def Let_def split: sum.splits)
  then show "cc_max_pending (capture_step env cc op) = cc_max_pending cc"
    "cc_max_per_key (capture_step env cc op) = cc_max_per_key cc" "cc_wait (capture_step env cc op) = cc_wait cc"
    by (cases op; simp add: record_upload_queue record_project_file_queue queue_upload_def queue_intent_def
        Let_def schedule_expiry_def expire_pending_def clear_def prune_expired_def)+
qed

lemma cc_limits_run:
  "cc_max_pending (capture_run env cc ops) = cc_max_pending cc"
  "cc_max_per_key (capture_run env cc ops) = cc_max_per_key cc"
  by (induction ops arbitrary: cc) (simp_all add: capture_run_def cc_limits_step)

text \<open>After any sequence of uploads, commands, timer firings and clears, each bucket of the
  coordinator has distinct keys, no empty queue, at most \<open>max_pending\<close> entries in all and at most
  \<open>max_per_key\<close> for one member and file name, every entry is filed under its own member and file
  name, and no key waits on both sides.\<close>
theorem coordinator_bounded:
  "let cc = capture_run env (new_coordinator wait max_pending max_per_key) ops;
       M = nat (max 1 max_pending); K = nat (max 1 max_per_key)
   in coordinator_ok (set (op_uploads ops)) (set (op_intents ops)) cc \<and> unpaired cc \<and>
      pending_count (cc_uploads cc) \<le> M \<and> pending_count (cc_intents cc) \<le> M \<and>
      (\<forall>k. length (get_or (cc_uploads cc) k []) \<le> K \<and> length (get_or (cc_intents cc) k []) \<le> K)"
proof -
  let ?cc = "capture_run env (new_coordinator wait max_pending max_per_key) ops"
  note inv = run_from_new [OF refl, where env = env and wait = wait and max_pending = max_pending and max_per_key = max_per_key and ops = ops]
  have "cc_max_pending ?cc = nat (max 1 max_pending)" "cc_max_per_key ?cc = nat (max 1 max_per_key)"
    by (simp_all add: cc_limits_run new_coordinator_def)
  with inv show ?thesis
    unfolding Let_def coordinator_ok_def bucket_inv_def by simp
qed

text \<open>
  C3: A job is captured only from an upload and a command that were both recorded, by the same
  member under the same file name, with the file's digest equal (ignoring case) to the one the
  command names; the job carries that member, file, digest and plate.\<close>
theorem captured_job_is_authentic:
  assumes "job \<in> set (cc_captured (capture_run env (new_coordinator wait max_pending max_per_key) ops))"
  shows "\<exists>u i. u \<in> set (op_uploads ops) \<and> i \<in> set (op_intents ops) \<and>
    cj_member job = up_member u \<and> cj_member job = pi_member i \<and>
    cj_filename job = up_filename u \<and> cj_filename job = pi_filename i \<and>
    cj_path job = up_path u \<and> cj_sha256 job = up_sha256 u \<and> cj_size job = up_size u \<and>
    cj_plate job = pi_plate i \<and> cj_use_ams job = pi_use_ams i \<and>
    (\<forall>want. pi_md5 i = Some want \<longrightarrow> (\<exists>h. ce_md5 env (up_path u) = Some h \<and> lower h = lower want))"
proof -
  from run_from_new(3) [OF refl, where env = env and wait = wait and max_pending = max_pending and max_per_key = max_per_key and ops = ops] assms
  obtain u i where ui: "u \<in> set (op_uploads ops)" "i \<in> set (op_intents ops)"
    and job: "assemble_captured_job env u i = Inr job"
    unfolding captured_from_def by blast
  from job have "up_filename u = pi_filename i" "up_member u = pi_member i"
    by (auto simp: assemble_captured_job_def split: if_splits)
  with job ui show ?thesis
    by (intro exI [of _ u] exI [of _ i])
       (auto simp: assemble_captured_job_def Let_def res_bind_eq_Inr split: option.splits if_splits)
qed

lemma pending_count_try:
  assumes "coordinator_ok U I cc"
  shows "length (cc_captured (try_capture env key cc)) + pending_count (cc_uploads (try_capture env key cc))
      \<le> length (cc_captured cc) + pending_count (cc_uploads cc)"
    and "length (cc_captured (try_capture env key cc)) + pending_count (cc_intents (try_capture env key cc))
      \<le> length (cc_captured cc) + pending_count (cc_intents cc)"
proof -
  have "wf_dict (cc_uploads cc)" "wf_dict (cc_intents cc)"
    using assms by (auto simp: coordinator_ok_def bucket_inv_wf)
  note del = this [THEN pending_count_delete, of key]
  show "length (cc_captured (try_capture env key cc)) + pending_count (cc_uploads (try_capture env key cc))
      \<le> length (cc_captured cc) + pending_count (cc_uploads cc)"
    "length (cc_captured (try_capture env key cc)) + pending_count (cc_intents (try_capture env key cc))
      \<le> length (cc_captured cc) + pending_count (cc_intents cc)"
    using del by (cases rule: try_capture_cases [of env key cc]; simp)+
qed

lemma capture_step_count:
  assumes "coordinator_ok U I cc" and "op_within U I op"
  shows "length (cc_captured (capture_step env cc op)) + pending_count (cc_uploads (capture_step env cc op))
      \<le> length (cc_captured cc) + pending_count (cc_uploads cc) + length (op_uploads [op])"
    and "length (cc_captured (capture_step env cc op)) + pending_count (cc_intents (capture_step env cc op))
      \<le> length (cc_captured cc) + pending_count (cc_intents cc) + length (op_intents [op])"
proof -
  note prune = pending_count_prune [of _ "cc_uploads cc"] pending_count_prune [of _ "cc_intents cc"]
  show "length (cc_captured (capture_step env cc op)) + pending_count (cc_uploads (capture_step env cc op))
      \<le> length (cc_captured cc) + pending_count (cc_uploads cc) + length (op_uploads [op])"
  proof (cases op)
    case (Upload now u)
    with assms queue_upload_ok [of U I cc u now] pending_count_try(1) [of U I "queue_upload now u cc" env "upload_key u"]
    show ?thesis by (simp add: record_upload_queue)
  next
    case (Intent now i)
    with assms queue_intent_ok [of U I cc i now] pending_count_try(1) [of U I "queue_intent now i cc" env "intent_key i"] prune(1) [of now]
    show ?thesis by (simp add: record_project_file_queue)
  qed (use prune in \<open>simp_all add: expire_pending_def clear_def\<close>)
  show "length (cc_captured (capture_step env cc op)) + pending_count (cc_intents (capture_step env cc op))
      \<le> length (cc_captured cc) + pending_count (cc_intents cc) + length (op_intents [op])"
  proof (cases op)
    case (Upload now u)
    with assms queue_upload_ok [of U I cc u now] pending_count_try(2) [of U I "queue_upload now u cc" env "upload_key u"] prune(2) [of now]
    show ?thesis by (simp add: record_upload_queue)
  next
    case (Intent now i)
    with assms queue_intent_ok [of U I cc i now] pending_count_try(2) [of U I "queue_intent now i cc" env "intent_key i"]
    show ?thesis by (simp add: record_project_file_queue)
  qed (use prune in \<open>simp_all add: expire_pending_def clear_def\<close>)
qed

lemma op_lists_Cons:
  "length (op_uploads (op # ops)) = length (op_uploads [op]) + length (op_uploads ops)"
  "length (op_intents (op # ops)) = length (op_intents [op]) + length (op_intents ops)"
  by (cases op; simp)+

lemma capture_run_count:
  assumes "coordinator_ok U I cc" and "unpaired cc" and "list_all (op_within U I) ops"
  shows "length (cc_captured (capture_run env cc ops)) + pending_count (cc_uploads (capture_run env cc ops))
      \<le> length (cc_captured cc) + pending_count (cc_uploads cc) + length (op_uploads ops) \<and>
    length (cc_captured (capture_run env cc ops)) + pending_count (cc_intents (capture_run env cc ops))
      \<le> length (cc_captured cc) + pending_count (cc_intents cc) + length (op_intents ops)"
  using assms
proof (induction ops arbitrary: cc)
  case (Cons op ops)
  then have ok: "coordinator_ok U I cc" "op_within U I op" and rest: "list_all (op_within U I) ops" by simp_all
  have "capture_run env cc (op # ops) = capture_run env (capture_step env cc op) ops"
    by (simp add: capture_run_def)
  with Cons.IH [OF _ _ rest, of "capture_step env cc op"] capture_step_inv [OF ok(1) Cons.prems(2) ok(2)]
    capture_step_count [OF ok, of env] op_lists_Cons [of op ops]
  show ?case by simp
qed (simp add: capture_run_def)

text \<open>
  An upload or a command is used at most once: the captured jobs and the entries still
  waiting never outnumber the uploads recorded, nor the commands recorded.\<close>
theorem uploads_and_commands_used_once:
  "let cc = capture_run env (new_coordinator wait max_pending max_per_key) ops
   in length (cc_captured cc) + pending_count (cc_uploads cc) \<le> length (op_uploads ops) \<and>
      length (cc_captured cc) + pending_count (cc_intents cc) \<le> length (op_intents ops)"
proof -
  let ?cc = "new_coordinator wait max_pending max_per_key"
  have "length (cc_captured ?cc) = 0" "pending_count (cc_uploads ?cc) = 0" "pending_count (cc_intents ?cc) = 0"
    by (simp_all add: new_coordinator_def)
  with capture_run_count [OF coordinator_ok_new op_within_ops, of env wait max_pending max_per_key ops]
  show ?thesis by (simp add: Let_def)
qed

lemma map_of_add_pending_fresh:
  assumes "get_or b key [] = []" and "wf_dict b" and "pending_count b < maxp" and "0 < m"
  shows "get_or (add_pending m maxp key item b) key [] = [item]"
proof -
  let ?b2 = "move_to_end key (AList.update key [item] (setdefault key [] b))"
  have g: "get_or (setdefault key [] b) key [] = []"
    using assms(1) by (simp add: get_or_setdefault_nil)
  have wf: "wf_dict (setdefault key [] b)" using assms(2) by auto
  have m2: "map_of ?b2 key = Some [item]" by (simp add: map_of_move_to_end map_of_update)
  then have b3: "enforce_per_key_limit m key ?b2 = AList.update key [item] ?b2"
    using assms(4) by (simp add: enforce_per_key_limit_def)
  have "pending_count ?b2 = Suc (pending_count b)"
    using pending_count_update [OF wf, of key "[item]"] wf g
    by (simp add: pending_count_move_to_end wf_dict_update pending_count_setdefault)
  then have "pending_count (AList.update key [item] ?b2) = Suc (pending_count b)"
    using pending_count_update [of ?b2 key "[item]"] wf m2 by (simp add: get_or_def wf_dict_move_to_end wf_dict_update)
  with assms(3) b3 g show ?thesis
    by (simp add: add_pending_def enforce_total_id get_or_def map_of_update)
qed

lemma try_capture_pair:
  assumes "get_or (cc_uploads cc) key [] = [(u, eu)]" and "get_or (cc_intents cc) key [] = [(i, ei)]"
    and "assemble_captured_job env u i = Inr job"
  shows "try_capture env key cc = cc\<lparr>cc_uploads := AList.delete key (cc_uploads cc),
     cc_intents := AList.delete key (cc_intents cc), cc_captured := cc_captured cc @ [job]\<rparr>"
  using assms by (simp add: try_capture_def Let_def delete_update_same)

lemma bucket_prune_facts:
  assumes "bucket_inv P m b"
  shows "wf_dict (prune_pending t b)" and "pending_count (prune_pending t b) \<le> pending_count b"
    and "get_or (prune_pending t b) k [] = expire_queue t (get_or b k [])"
  using bucket_inv_wf [OF bucket_inv_prune [OF assms]] pending_count_prune
    get_or_prune_pending [OF bucket_inv_wf [OF assms]] by auto

lemma capture_fires_upload_first:
  assumes ok: "coordinator_ok U I cc" and u: "u \<in> U" and i: "i \<in> I"
    and key: "upload_key u = key" "intent_key i = key"
    and free: "get_or (cc_uploads cc) key [] = []" "get_or (cc_intents cc) key [] = []"
    and room: "pending_count (cc_uploads cc) < cc_max_pending cc" "pending_count (cc_intents cc) < cc_max_pending cc"
    and time: "t' < t + cc_wait cc" and job: "assemble_captured_job env u i = Inr job"
  shows "cc_captured (record_project_file env t' i (record_upload env t u cc)) = cc_captured cc @ [job]"
proof -
  have pos: "0 < cc_max_per_key cc"
    and bu: "bucket_inv (\<lambda>k u. k = upload_key u \<and> u \<in> U) (cc_max_per_key cc) (cc_uploads cc)"
    and bi: "bucket_inv (\<lambda>k i. k = intent_key i \<and> i \<in> I) (cc_max_per_key cc) (cc_intents cc)"
    using ok by (simp_all add: coordinator_ok_def)
  note pu = bucket_prune_facts [OF bu] and pi = bucket_prune_facts [OF bi]
  note ppu = bucket_prune_facts [OF bucket_inv_prune [OF bu]] and ppi = bucket_prune_facts [OF bucket_inv_prune [OF bi]]
  have kept: "expire_queue t' [(x, t + cc_wait cc)] = [(x, t + cc_wait cc)]" for x :: 'x
    using time by (simp add: expire_queue_def)
  have nil: "expire_queue t'' [] = ([] :: 'y pending list)" for t'' by (simp add: expire_queue_def)
  let ?q = "queue_upload t u cc"
  have q: "get_or (cc_uploads ?q) key [] = [(u, t + cc_wait cc)]"
    using key(1) pos free(1) room(1) pu(1,2) [of t]
    by (simp add: queue_upload_def Let_def map_of_add_pending_fresh pu(3) nil le_less_trans)
  have "get_or (cc_intents ?q) key [] = []" using free(2) by (simp add: pi(3) nil)
  then have c1: "record_upload env t u cc = schedule_expiry t ?q"
    using key(1) by (simp add: record_upload_queue try_capture_def)
  have okq: "bucket_inv (\<lambda>k u. k = upload_key u \<and> u \<in> U) (cc_max_per_key ?q) (cc_uploads ?q)"
    using queue_upload_ok(1) [OF ok u, of t] by (simp add: coordinator_ok_def)
  have "get_or (cc_uploads (queue_intent t' i (schedule_expiry t ?q))) key [] = [(u, t + cc_wait cc)]"
    by (simp add: bucket_prune_facts(3) [OF okq] q kept)
  moreover have "get_or (cc_intents (queue_intent t' i (schedule_expiry t ?q))) key [] = [(i, t' + cc_wait cc)]"
    using key(2) pos free(2) room(2) pi(2) [of t] ppi(1,2) [of t' t]
    by (simp add: queue_intent_def queue_upload_def schedule_expiry_def Let_def map_of_add_pending_fresh ppi(3) pi(3) nil)
  ultimately have "try_capture env key (queue_intent t' i (schedule_expiry t ?q)) =
      (queue_intent t' i (schedule_expiry t ?q))\<lparr>
        cc_uploads := AList.delete key (cc_uploads (queue_intent t' i (schedule_expiry t ?q))),
        cc_intents := AList.delete key (cc_intents (queue_intent t' i (schedule_expiry t ?q))),
        cc_captured := cc_captured cc @ [job]\<rparr>"
    by (simp add: try_capture_pair [OF _ _ job])
  then show ?thesis
    using key(2) by (simp add: c1 record_project_file_queue)
qed

lemma capture_fires_command_first:
  assumes ok: "coordinator_ok U I cc" and u: "u \<in> U" and i: "i \<in> I"
    and key: "upload_key u = key" "intent_key i = key"
    and free: "get_or (cc_uploads cc) key [] = []" "get_or (cc_intents cc) key [] = []"
    and room: "pending_count (cc_uploads cc) < cc_max_pending cc" "pending_count (cc_intents cc) < cc_max_pending cc"
    and time: "t' < t + cc_wait cc" and job: "assemble_captured_job env u i = Inr job"
  shows "cc_captured (record_upload env t' u (record_project_file env t i cc)) = cc_captured cc @ [job]"
proof -
  have pos: "0 < cc_max_per_key cc"
    and bu: "bucket_inv (\<lambda>k u. k = upload_key u \<and> u \<in> U) (cc_max_per_key cc) (cc_uploads cc)"
    and bi: "bucket_inv (\<lambda>k i. k = intent_key i \<and> i \<in> I) (cc_max_per_key cc) (cc_intents cc)"
    using ok by (simp_all add: coordinator_ok_def)
  note pu = bucket_prune_facts [OF bu] and pi = bucket_prune_facts [OF bi]
  note ppu = bucket_prune_facts [OF bucket_inv_prune [OF bu]] and ppi = bucket_prune_facts [OF bucket_inv_prune [OF bi]]
  have kept: "expire_queue t' [(x, t + cc_wait cc)] = [(x, t + cc_wait cc)]" for x :: 'x
    using time by (simp add: expire_queue_def)
  have nil: "expire_queue t'' [] = ([] :: 'y pending list)" for t'' by (simp add: expire_queue_def)
  let ?r = "queue_intent t i cc"
  have r: "get_or (cc_intents ?r) key [] = [(i, t + cc_wait cc)]"
    using key(2) pos free(2) room(2) pi(1,2) [of t]
    by (simp add: queue_intent_def Let_def map_of_add_pending_fresh pi(3) nil le_less_trans)
  have "get_or (cc_uploads ?r) key [] = []" using free(1) by (simp add: pu(3) nil)
  then have c2: "record_project_file env t i cc = schedule_expiry t ?r"
    using key(2) by (simp add: record_project_file_queue try_capture_def)
  have okr: "bucket_inv (\<lambda>k i. k = intent_key i \<and> i \<in> I) (cc_max_per_key ?r) (cc_intents ?r)"
    using queue_intent_ok(1) [OF ok i, of t] by (simp add: coordinator_ok_def)
  have "get_or (cc_intents (queue_upload t' u (schedule_expiry t ?r))) key [] = [(i, t + cc_wait cc)]"
    by (simp add: bucket_prune_facts(3) [OF okr] r kept)
  moreover have "get_or (cc_uploads (queue_upload t' u (schedule_expiry t ?r))) key [] = [(u, t' + cc_wait cc)]"
    using key(1) pos free(1) room(1) pu(2) [of t] ppu(1,2) [of t' t]
    by (simp add: queue_intent_def queue_upload_def schedule_expiry_def Let_def map_of_add_pending_fresh ppu(3) pu(3) nil)
  ultimately have "try_capture env key (queue_upload t' u (schedule_expiry t ?r)) =
      (queue_upload t' u (schedule_expiry t ?r))\<lparr>
        cc_uploads := AList.delete key (cc_uploads (queue_upload t' u (schedule_expiry t ?r))),
        cc_intents := AList.delete key (cc_intents (queue_upload t' u (schedule_expiry t ?r))),
        cc_captured := cc_captured cc @ [job]\<rparr>"
    by (simp add: try_capture_pair [OF _ _ job])
  then show ?thesis
    using key(1) by (simp add: c2 record_upload_queue)
qed

text \<open>
  C11: An upload and the matching command of one member, recorded in either order within the
  wait window of each other, are captured as one job, provided nothing else waits under that name
  and the coordinator is below its cap.\<close>
theorem matching_pair_is_captured:
  assumes "cc = capture_run env (new_coordinator wait max_pending max_per_key) ops"
    and "upload_key u = intent_key i"
    and "get_or (cc_uploads cc) (intent_key i) [] = []" and "get_or (cc_intents cc) (intent_key i) [] = []"
    and "pending_count (cc_uploads cc) < cc_max_pending cc" and "pending_count (cc_intents cc) < cc_max_pending cc"
    and "t' < t + cc_wait cc" and "assemble_captured_job env u i = Inr job"
  shows "cc_captured (record_project_file env t' i (record_upload env t u cc)) = cc_captured cc @ [job] \<and>
    cc_captured (record_upload env t' u (record_project_file env t i cc)) = cc_captured cc @ [job]"
proof -
  have "coordinator_ok (insert u (set (op_uploads ops))) (insert i (set (op_intents ops))) cc"
    using run_from_new(1) [OF assms(1)] by (rule coordinator_ok_mono) auto
  note fires = this insertI1 insertI1 assms(2) refl assms(3-8)
  show ?thesis
    using capture_fires_upload_first [OF fires] capture_fires_command_first [OF fires] by simp
qed

definition example_env :: capture_env where
  "example_env = \<lparr>ce_md5 = (\<lambda>p. Some ''AB''), ce_sha = (\<lambda>s. s), ce_dumps = (\<lambda>v. ''[]''),
     ce_filaments = (\<lambda>p. []), ce_now_iso = ''now''\<rparr>"

definition example_upload :: upload_record where
  "example_upload = \<lparr>up_member = ''m1'', up_filename = ''a.3mf'', up_path = ''/spool/a.3mf'',
     up_sha256 = ''ff'', up_size = 9\<rparr>"

definition example_intent :: project_intent where
  "example_intent = \<lparr>pi_member = ''m1'', pi_filename = ''a.3mf'', pi_ams_mapping = PNone,
     pi_ams_mapping2 = PNone, pi_use_ams = False, pi_md5 = Some ''ab'', pi_raw = [], pi_plate = Some 1\<rparr>"

lemma lower_example: "lower ''AB'' = lower ''ab''"
  by code_simp

lemma example_run:
  "cc_captured (capture_run example_env (new_coordinator 2 256 2) [Upload 0 example_upload, Intent 1 example_intent]) \<noteq> []"
  by (simp add: capture_run_def new_coordinator_def record_upload_def record_project_file_def prune_expired_def
      example_upload_def example_intent_def example_env_def add_pending_def setdefault_def get_or_def move_to_end_def
      enforce_per_key_limit_def enforce_total_limit_def try_capture_def schedule_expiry_def expire_queue_def
      assemble_captured_job_def Let_def lower_example)

lemma captured_job_is_authentic_witness:
  "cj_member (hd (cc_captured (capture_run example_env (new_coordinator 2 256 2)
     [Upload 0 example_upload, Intent 1 example_intent]))) = ''m1''"
  using captured_job_is_authentic [OF list.set_sel(1) [OF example_run]]
  by (auto simp: example_upload_def)

lemma example_assemble: "\<exists>job. assemble_captured_job example_env example_upload example_intent = Inr job"
  by (simp add: assemble_captured_job_def example_env_def example_upload_def example_intent_def
      lower_example Let_def)

lemma matching_pair_is_captured_witness:
  "length (cc_captured (record_project_file example_env 1 example_intent
     (record_upload example_env 0 example_upload (new_coordinator 2 256 2)))) = 1"
proof -
  obtain job where job: "assemble_captured_job example_env example_upload example_intent = Inr job"
    using example_assemble by blast
  have "new_coordinator 2 256 2 = capture_run example_env (new_coordinator 2 256 2) []"
    by (simp add: capture_run_def)
  from matching_pair_is_captured [OF this, where u = example_upload and i = example_intent and t = 0 and t' = 1] job
  show ?thesis
    by (simp add: new_coordinator_def get_or_def upload_key_def intent_key_def example_upload_def example_intent_def)
qed

end
