(* ===== verification/MqttBroker.thy ===== *)
theory MqttBroker
  imports VpAuth MqttCodec Capture
begin

text \<open>
  \<open>makeros_hub/vprinter/mqtt_broker.py\<close>, class \<open>MqttBroker\<close>: the sessions of the virtual printer's
  MQTT server. One handler task per connection is a \<open>phase\<close> (the await it is suspended at); the
  code between two awaits is one step. \<open>broker_step\<close> takes the event that resumes a task, so a list
  of events is an interleaving of the handlers, the periodic reports, the finish timer, \<open>close\<close> and
  new connections. A task that waits for the write lock is resumed at any later step, and a
  cancelled periodic report may still be written: more interleavings than the lock allows. Writing
  to a closed writer has no effect. The callbacks, \<open>json\<close> and the hash are the record \<open>broker_env\<close>.
\<close>

section \<open>State\<close>

record session =
  ms_member :: string
  ms_report_topic :: string
  ms_request_topic :: string
  ms_subscribed :: bool

text \<open>Where the handler goes on after a frame has been written and drained.\<close>

datatype cont =
    StartPeriodic
  | NextPacket
  | AfterAck string "project_intent option"

datatype phase =
    AwaitConnect
  | ConnackSent nat byte "string option"
  | AwaitPacket
  | SubackSent subscribe_packet
  | PubackSent publish_packet
  | SendQueued "byte list" cont
  | SendDrain cont
  | Closing
  | Finished

record conn =
  mc_phase :: phase
  mc_ip :: "string option"
  mc_session :: "session option"
  mc_periodic :: bool
  mc_timeout :: real
  mc_closing :: bool

record broker =
  br_serial :: string
  br_auth :: auth_set
  br_sequence :: int
  br_active_writer :: "nat option"
  br_active_session :: "nat option"
  br_conns :: "nat \<Rightarrow> conn option"
  br_gcode_state :: string
  br_gcode_file :: string
  br_prepare_percent :: string
  br_finish :: "string option"
  br_flight :: "(nat \<times> byte list) list"
  br_out :: "(nat \<times> byte list) list"
  br_intents :: "(nat \<times> project_intent) list"

record broker_env =
  be_sha :: "string \<Rightarrow> string"
  be_loads :: "string \<Rightarrow> pyval option"
  be_dumps :: "pyval \<Rightarrow> string"
  be_rep :: "pyval \<Rightarrow> string"
  be_report :: "int \<Rightarrow> string \<Rightarrow> string \<Rightarrow> string \<Rightarrow> pyval"
  be_version :: "string \<Rightarrow> pyval"
  be_ack :: "string \<Rightarrow> string \<Rightarrow> pyval"

definition new_broker :: "string \<Rightarrow> auth_set \<Rightarrow> broker" where
  "new_broker serial auth =
     \<lparr>br_serial = serial, br_auth = auth, br_sequence = 1, br_active_writer = None,
      br_active_session = None, br_conns = (\<lambda>c. None), br_gcode_state = ''IDLE'', br_gcode_file = [],
      br_prepare_percent = ''0'', br_finish = None, br_flight = [], br_out = [], br_intents = []\<rparr>"

definition update_conn :: "nat \<Rightarrow> (conn \<Rightarrow> conn) \<Rightarrow> broker \<Rightarrow> broker" where
  "update_conn c f b = b\<lparr>br_conns := (br_conns b)(c := map_option f (br_conns b c))\<rparr>"

definition set_phase :: "phase \<Rightarrow> nat \<Rightarrow> broker \<Rightarrow> broker" where
  "set_phase p c b = update_conn c (\<lambda>x. x\<lparr>mc_phase := p\<rparr>) b"

definition is_closing :: "nat \<Rightarrow> broker \<Rightarrow> bool" where
  "is_closing c b = (case br_conns b c of None \<Rightarrow> True | Some x \<Rightarrow> mc_closing x)"

definition session_of :: "nat \<Rightarrow> broker \<Rightarrow> session option" where
  "session_of c b = (case br_conns b c of None \<Rightarrow> None | Some x \<Rightarrow> mc_session x)"

definition close_writer :: "nat \<Rightarrow> broker \<Rightarrow> broker" where
  "close_writer c b = update_conn c (\<lambda>x. x\<lparr>mc_closing := True\<rparr>) b"

definition write_frame :: "nat \<Rightarrow> byte list \<Rightarrow> broker \<Rightarrow> broker" where
  "write_frame c bs b = (if is_closing c b then b else b\<lparr>br_out := br_out b @ [(c, bs)]\<rparr>)"

definition session_is_active :: "nat \<Rightarrow> broker \<Rightarrow> bool" where
  "session_is_active c b \<longleftrightarrow> br_active_session b = Some c \<and> \<not> is_closing c b"

text \<open>The handler leaves its loop: the \<open>finally\<close> block cancels the periodic reports and awaits them.\<close>

definition go_closing :: "nat \<Rightarrow> broker \<Rightarrow> broker" where
  "go_closing c b = update_conn c (\<lambda>x. x\<lparr>mc_phase := Closing, mc_periodic := False\<rparr>) b"

definition finalise :: "nat \<Rightarrow> broker \<Rightarrow> broker" where
  "finalise c b =
     (let b1 = (if br_active_writer b = Some c then b\<lparr>br_active_writer := None\<rparr> else b);
          b2 = (if br_active_session b1 = Some c then b1\<lparr>br_active_session := None\<rparr> else b1)
      in set_phase Finished c (close_writer c b2))"

section \<open>Recognising messages\<close>

definition is_pushall :: "pyval \<Rightarrow> bool" where
  "is_pushall parsed = (case parsed of PDict d \<Rightarrow>
      (case pget d ''pushing'' of PDict p \<Rightarrow> pget p ''command'' = PStr ''pushall'' | _ \<Rightarrow> False) | _ \<Rightarrow> False)"

definition is_get_version :: "pyval \<Rightarrow> bool" where
  "is_get_version parsed = (case parsed of PDict d \<Rightarrow>
      (case pget d ''info'' of PDict p \<Rightarrow> pget p ''command'' = PStr ''get_version'' | _ \<Rightarrow> False) | _ \<Rightarrow> False)"

definition is_project_file :: "pyval \<Rightarrow> bool" where
  "is_project_file parsed = (case parsed of PDict d \<Rightarrow>
      (case pget d ''print'' of
         PDict p \<Rightarrow> pget p ''command'' \<in> set [PStr ''project_file'', PStr ''gcode_file''] | _ \<Rightarrow> False)
    | _ \<Rightarrow> False)"

definition json_or_none :: "broker_env \<Rightarrow> string \<Rightarrow> pyval" where
  "json_or_none env t = (case be_loads env t of None \<Rightarrow> PNone | Some v \<Rightarrow> v)"

definition is_request_topic :: "string \<Rightarrow> bool" where
  "is_request_topic topic = (case split_on CHR ''/'' topic of
      [a, b, c] \<Rightarrow> a = ''device'' \<and> c = ''request'' | _ \<Rightarrow> False)"

definition serial_from_report_topic :: "string \<Rightarrow> string option" where
  "serial_from_report_topic topic = (case split_on CHR ''/'' topic of
      [a, b, c] \<Rightarrow> if a = ''device'' \<and> c = ''report'' \<and> b \<noteq> [] then Some b else None | _ \<Rightarrow> None)"

text \<open>\<open>rstrip\<close> of NUL, space, CR, LF and tab.\<close>

definition strip_payload :: "string \<Rightarrow> string" where
  "strip_payload s = rev (dropWhile (\<lambda>ch. (of_char ch :: nat) \<in> set [0, 32, 13, 10, 9]) (rev s))"

text \<open>\<open>str(parsed.get(section, {}).get("sequence_id", ""))\<close>.\<close>

definition sequence_id :: "broker_env \<Rightarrow> pyval \<Rightarrow> string \<Rightarrow> string" where
  "sequence_id env parsed sect = (case parsed of
      PDict d \<Rightarrow> (case map_of d sect of
          Some (PDict p) \<Rightarrow> (case map_of p ''sequence_id'' of None \<Rightarrow> [] | Some v \<Rightarrow> py_str (be_rep env) v)
        | _ \<Rightarrow> [])
    | _ \<Rightarrow> [])"

definition mqtt_read_timeout :: "nat \<Rightarrow> real" where
  "mqtt_read_timeout keep_alive = (if 0 < keep_alive then max (of_nat keep_alive * 1.5) 30 else 300)"

section \<open>The handler's steps\<close>

definition auth_connect ::
  "broker_env \<Rightarrow> auth_set \<Rightarrow> connect_packet \<Rightarrow> string option \<Rightarrow> real \<Rightarrow> (byte \<times> string option) \<times> auth_set" where
  "auth_connect env auth cp peer_ip now =
     (if cp_protocol_name cp \<noteq> ''MQTT'' \<or> cp_protocol_level cp \<noteq> 4 then
        ((0x01, None), auth_record_failure auth (cp_password cp) peer_ip now)
      else if cp_username cp \<noteq> Some ''bblp'' then
        ((0x04, None), auth_record_failure auth (cp_password cp) peer_ip now)
      else (let (r, auth') = authenticate (be_sha env) auth (cp_password cp) peer_ip now
            in if ar_ok r then ((0x00, ar_member r), auth') else ((0x05, None), auth')))"

definition reset_print_state :: "broker \<Rightarrow> broker" where
  "reset_print_state b = b\<lparr>br_finish := None, br_gcode_state := ''IDLE'', br_gcode_file := [],
     br_prepare_percent := ''0''\<rparr>"

definition set_print_state :: "string \<Rightarrow> string option \<Rightarrow> string option \<Rightarrow> broker \<Rightarrow> broker" where
  "set_print_state gcode_state gcode_file prepare_percent b =
     b\<lparr>br_gcode_state := gcode_state,
       br_gcode_file := (case gcode_file of None \<Rightarrow> br_gcode_file b | Some f \<Rightarrow> f),
       br_prepare_percent := (case prepare_percent of None \<Rightarrow> br_prepare_percent b | Some p \<Rightarrow> p)\<rparr>"

definition schedule_finish :: "string \<Rightarrow> broker \<Rightarrow> broker" where
  "schedule_finish gcode_file b = b\<lparr>br_finish := Some gcode_file\<rparr>"

text \<open>The frame of one message on the session's report topic.\<close>

definition message_frame :: "broker_env \<Rightarrow> nat \<Rightarrow> pyval \<Rightarrow> broker \<Rightarrow> byte list result" where
  "message_frame env c message b =
     build_publish (case session_of c b of None \<Rightarrow> [] | Some s \<Rightarrow> ms_report_topic s)
       (utf8_encode (be_dumps env message)) 0 None"

definition next_report :: "broker_env \<Rightarrow> nat \<Rightarrow> broker \<Rightarrow> byte list result \<times> broker" where
  "next_report env c b =
     (let report = be_report env (br_sequence b) (br_gcode_state b) (br_gcode_file b) (br_prepare_percent b);
          b' = b\<lparr>br_sequence := br_sequence b + 1\<rparr>
      in (message_frame env c report b', b'))"

text \<open>The handler waits for the write lock with a frame, or fails when the frame cannot be built.\<close>

definition queue_frame :: "nat \<Rightarrow> byte list result \<Rightarrow> cont \<Rightarrow> broker \<Rightarrow> broker" where
  "queue_frame c frame k b = (case frame of
      Inl e \<Rightarrow> go_closing c b
    | Inr bs \<Rightarrow> set_phase (SendQueued bs k) c b)"

definition run_cont :: "cont \<Rightarrow> nat \<Rightarrow> broker \<Rightarrow> broker" where
  "run_cont k c b = (case k of
      StartPeriodic \<Rightarrow> update_conn c (\<lambda>x. x\<lparr>mc_phase := AwaitPacket, mc_periodic := True\<rparr>) b
    | NextPacket \<Rightarrow> set_phase AwaitPacket c b
    | AfterAck gfile intent \<Rightarrow>
        set_phase AwaitPacket c
          (if \<not> session_is_active c b then b
           else (let b1 = schedule_finish gfile b
                 in (case intent of
                       None \<Rightarrow> b1
                     | Some i \<Rightarrow> b1\<lparr>br_intents := br_intents b1 @ [(c, i)]\<rparr>))))"

definition send_report :: "broker_env \<Rightarrow> nat \<Rightarrow> cont \<Rightarrow> broker \<Rightarrow> broker" where
  "send_report env c k b =
     (if \<not> session_is_active c b then run_cont k c b
      else (let (frame, b') = next_report env c b in queue_frame c frame k b'))"

definition send_version :: "broker_env \<Rightarrow> nat \<Rightarrow> string \<Rightarrow> broker \<Rightarrow> broker" where
  "send_version env c sequence b =
     (if \<not> session_is_active c b then set_phase AwaitPacket c b
      else queue_frame c (message_frame env c (be_version env sequence) b) NextPacket b)"

definition send_print_ack :: "broker_env \<Rightarrow> nat \<Rightarrow> string \<Rightarrow> string \<Rightarrow> project_intent option \<Rightarrow> broker \<Rightarrow> broker" where
  "send_print_ack env c sequence gfile intent b =
     (if \<not> session_is_active c b then set_phase AwaitPacket c b
      else (let b1 = set_print_state ''PREPARE'' (Some gfile) (Some ''0'') b
            in queue_frame c (message_frame env c (be_ack env sequence gfile) b1) (AfterAck gfile intent) b1))"

definition dispatch_publish :: "broker_env \<Rightarrow> nat \<Rightarrow> publish_packet \<Rightarrow> broker \<Rightarrow> broker" where
  "dispatch_publish env c publish b =
     (let parsed = json_or_none env (strip_payload (utf8_decode (pp_payload publish)))
      in if \<not> is_request_topic (pp_topic publish) then set_phase AwaitPacket c b
         else if is_pushall parsed then send_report env c NextPacket b
         else if is_get_version parsed then send_version env c (sequence_id env parsed ''info'') b
         else if is_project_file parsed then
           (let intent = (case session_of c b of
                  None \<Rightarrow> None | Some s \<Rightarrow> parse_project_file_command parsed (ms_member s));
                gfile = (case intent of
                  Some i \<Rightarrow> pi_filename i
                | None \<Rightarrow> if br_gcode_file b \<noteq> [] then br_gcode_file b else ''job.3mf'')
            in send_print_ack env c (sequence_id env parsed ''print'') gfile intent b)
         else set_phase AwaitPacket c b)"

definition handle_publish :: "broker_env \<Rightarrow> nat \<Rightarrow> publish_packet \<Rightarrow> broker \<Rightarrow> broker" where
  "handle_publish env c publish b =
     (if \<not> session_is_active c b then set_phase AwaitPacket c b
      else if pp_qos publish = 1 \<and> pp_packet_id publish \<noteq> None then
        (case build_puback (int (the (pp_packet_id publish))) of
           Inl e \<Rightarrow> go_closing c b
         | Inr bs \<Rightarrow> set_phase (PubackSent publish) c (write_frame c bs b))
      else dispatch_publish env c publish b)"

fun first_report_topic :: "(string \<times> byte) list \<Rightarrow> (string \<times> string) option" where
  "first_report_topic [] = None"
| "first_report_topic ((topic, qos) # ts) = (case serial_from_report_topic topic of
      Some serial \<Rightarrow> Some (topic, serial) | None \<Rightarrow> first_report_topic ts)"

definition adapt_session_topics :: "subscribe_packet \<Rightarrow> session \<Rightarrow> session" where
  "adapt_session_topics subscribe s = (case first_report_topic (sp_topics subscribe) of
      Some (topic, serial) \<Rightarrow> s\<lparr>ms_report_topic := topic,
        ms_request_topic := ''device/'' @ serial @ ''/request'', ms_subscribed := True\<rparr>
    | None \<Rightarrow> s\<lparr>ms_subscribed := list_ex (\<lambda>(topic, qos). topic = ms_report_topic s) (sp_topics subscribe)\<rparr>)"

definition start_session :: "broker_env \<Rightarrow> nat \<Rightarrow> nat \<Rightarrow> string \<Rightarrow> broker \<Rightarrow> broker" where
  "start_session env c keep_alive member b =
     (let s = \<lparr>ms_member = member, ms_report_topic = ''device/'' @ br_serial b @ ''/report'',
               ms_request_topic = ''device/'' @ br_serial b @ ''/request'', ms_subscribed = False\<rparr>;
          b1 = update_conn c (\<lambda>x. x\<lparr>mc_session := Some s, mc_timeout := mqtt_read_timeout keep_alive\<rparr>) b;
          b2 = reset_print_state (b1\<lparr>br_active_session := Some c\<rparr>)
      in send_report env c StartPeriodic b2)"

definition on_connect_packet :: "broker_env \<Rightarrow> real \<Rightarrow> nat \<Rightarrow> byte \<Rightarrow> byte list \<Rightarrow> string option \<Rightarrow> broker \<Rightarrow> broker" where
  "on_connect_packet env now c first_byte payload ip b =
     (if first_byte \<noteq> 0x10 then
        go_closing c (b\<lparr>br_auth := auth_record_failure (br_auth b) None ip now\<rparr>)
      else (case parse_connect payload of
          Inl e \<Rightarrow> go_closing c b
        | Inr cp \<Rightarrow>
            (let ((rc, member), auth) = auth_connect env (br_auth b) cp ip now
             in set_phase (ConnackSent (cp_keep_alive cp) rc member) c
                  (write_frame c (build_connack rc) (b\<lparr>br_auth := auth\<rparr>)))))"

definition on_session_packet :: "broker_env \<Rightarrow> nat \<Rightarrow> byte \<Rightarrow> byte list \<Rightarrow> broker \<Rightarrow> broker" where
  "on_session_packet env c first_byte payload b =
     (let packet_type = first_byte AND 0xF0
      in if packet_type = 0x80 then
           (case parse_subscribe payload of
              Inl e \<Rightarrow> go_closing c b
            | Inr sp \<Rightarrow> (case build_suback (int (sp_packet_id sp)) (List.map (\<lambda>_. 0) (sp_topics sp)) of
                 Inl e \<Rightarrow> go_closing c b
               | Inr bs \<Rightarrow> set_phase (SubackSent sp) c (write_frame c bs b)))
         else if packet_type = 0x30 then
           (case parse_publish first_byte payload of
              Inl e \<Rightarrow> go_closing c b
            | Inr publish \<Rightarrow> handle_publish env c publish b)
         else if packet_type = 0xA0 then
           (let pkt_id = (if 2 \<le> length payload then from_be (take 2 payload) else 0)
            in set_phase (SendDrain NextPacket) c (write_frame c ([0xB0, 0x02] @ to_be2 pkt_id) b))
         else if first_byte = 0xC0 then
           set_phase (SendDrain NextPacket) c (write_frame c [0xD0, 0x00] b)
         else if first_byte = 0xE0 then go_closing c b
         else set_phase AwaitPacket c b)"

section \<open>Events\<close>

text \<open>
  \<open>Accept\<close>: a new connection. \<open>Packet\<close>: the read of the handler of \<open>c\<close> returns a packet. \<open>Resume\<close>:
  the drain, the write lock or the end of the periodic task that the handler awaits. \<open>Fail\<close>: end of
  stream, time-out, connection error or cancellation. \<open>Tick\<close>: the periodic task of \<open>c\<close> wakes up.
  \<open>Flush n\<close>: the \<open>n\<close>-th frame waiting for the lock outside a handler is written. \<open>Push\<close>:
  \<open>push_report_now\<close>.
\<close>

datatype event =
    Accept nat "string option"
  | Packet nat real byte "byte list"
  | Resume nat
  | Fail nat
  | Tick nat
  | Flush nat
  | Push
  | FinishTimer
  | CloseBroker
  | CloseDone

text \<open>An open client is displaced by the new one: its writer is closed and its session forgotten.\<close>

definition displace :: "broker \<Rightarrow> broker" where
  "displace b = (case br_active_writer b of
      None \<Rightarrow> b
    | Some w \<Rightarrow> if is_closing w b then b else (close_writer w b)\<lparr>br_active_session := None\<rparr>)"

definition new_conn :: "string option \<Rightarrow> conn" where
  "new_conn ip = \<lparr>mc_phase = AwaitConnect, mc_ip = ip, mc_session = None, mc_periodic = False,
     mc_timeout = 45, mc_closing = False\<rparr>"

definition accept :: "nat \<Rightarrow> string option \<Rightarrow> broker \<Rightarrow> broker" where
  "accept c ip b =
     (if br_conns b c \<noteq> None then b
      else (let b1 = displace b
            in b1\<lparr>br_conns := (br_conns b1)(c \<mapsto> new_conn ip), br_active_writer := Some c\<rparr>))"

definition on_packet :: "broker_env \<Rightarrow> real \<Rightarrow> nat \<Rightarrow> byte \<Rightarrow> byte list \<Rightarrow> broker \<Rightarrow> broker" where
  "on_packet env now c first_byte payload b = (case br_conns b c of
      None \<Rightarrow> b
    | Some x \<Rightarrow> (case mc_phase x of
          AwaitConnect \<Rightarrow> on_connect_packet env now c first_byte payload (mc_ip x) b
        | AwaitPacket \<Rightarrow> on_session_packet env c first_byte payload b
        | _ \<Rightarrow> b))"

definition on_resume :: "broker_env \<Rightarrow> nat \<Rightarrow> broker \<Rightarrow> broker" where
  "on_resume env c b = (case br_conns b c of
      None \<Rightarrow> b
    | Some x \<Rightarrow> (case mc_phase x of
          ConnackSent keep_alive rc member \<Rightarrow>
            (case member of
               None \<Rightarrow> go_closing c b
             | Some m \<Rightarrow> if rc \<noteq> 0 then go_closing c b else start_session env c keep_alive m b)
        | SubackSent sp \<Rightarrow>
            send_report env c NextPacket
              (update_conn c (\<lambda>x. x\<lparr>mc_session := map_option (adapt_session_topics sp) (mc_session x)\<rparr>) b)
        | PubackSent publish \<Rightarrow> dispatch_publish env c publish b
        | SendQueued bs k \<Rightarrow> set_phase (SendDrain k) c (write_frame c bs b)
        | SendDrain k \<Rightarrow> run_cont k c b
        | Closing \<Rightarrow> finalise c b
        | _ \<Rightarrow> b))"

definition on_fail :: "nat \<Rightarrow> broker \<Rightarrow> broker" where
  "on_fail c b = (case br_conns b c of
      None \<Rightarrow> b
    | Some x \<Rightarrow> if mc_phase x \<in> set [Closing, Finished] then b else go_closing c b)"

text \<open>A report outside the handlers: the frame waits in \<open>br_flight\<close>; an error ends only the task.\<close>

definition send_report_task :: "broker_env \<Rightarrow> nat \<Rightarrow> (broker \<Rightarrow> broker) \<Rightarrow> broker \<Rightarrow> broker" where
  "send_report_task env c on_error b =
     (if \<not> session_is_active c b then b
      else (case next_report env c b of
          (Inl e, b') \<Rightarrow> on_error b'
        | (Inr bs, b') \<Rightarrow> b'\<lparr>br_flight := br_flight b' @ [(c, bs)]\<rparr>))"

definition periodic_report :: "broker_env \<Rightarrow> nat \<Rightarrow> broker \<Rightarrow> broker" where
  "periodic_report env c b = (case br_conns b c of
      None \<Rightarrow> b
    | Some x \<Rightarrow>
        if \<not> mc_periodic x \<or> mc_closing x \<or> \<not> (case mc_session x of None \<Rightarrow> False | Some s \<Rightarrow> ms_subscribed s)
        then b else send_report_task env c (update_conn c (\<lambda>x. x\<lparr>mc_periodic := False\<rparr>)) b)"

definition flush_frame :: "nat \<Rightarrow> broker \<Rightarrow> broker" where
  "flush_frame n b =
     (if n < length (br_flight b) then
        (let (c, bs) = br_flight b ! n
         in write_frame c bs (b\<lparr>br_flight := take n (br_flight b) @ drop (Suc n) (br_flight b)\<rparr>))
      else b)"

definition push_report_now :: "broker_env \<Rightarrow> broker \<Rightarrow> broker" where
  "push_report_now env b = (case br_active_session b of
      None \<Rightarrow> b | Some c \<Rightarrow> if is_closing c b then b else send_report_task env c id b)"

definition finish_timer :: "broker \<Rightarrow> broker" where
  "finish_timer b = (case br_finish b of
      None \<Rightarrow> b | Some f \<Rightarrow> (set_print_state ''FINISH'' (Some f) (Some ''100'') b)\<lparr>br_finish := None\<rparr>)"

text \<open>\<open>close\<close>: the finish task is cancelled, the active writer closed and every handler cancelled;
  after their \<open>finally\<close> blocks the active client is forgotten.\<close>

definition cancel_all :: "(nat \<Rightarrow> conn option) \<Rightarrow> nat \<Rightarrow> conn option" where
  "cancel_all conns c = map_option (\<lambda>x. if mc_phase x = Finished then x
     else x\<lparr>mc_phase := Closing, mc_periodic := False\<rparr>) (conns c)"

definition close_broker :: "broker \<Rightarrow> broker" where
  "close_broker b =
     (let b0 = b\<lparr>br_finish := None\<rparr>;
          b1 = (case br_active_writer b0 of None \<Rightarrow> b0 | Some w \<Rightarrow> close_writer w b0)
      in b1\<lparr>br_conns := cancel_all (br_conns b1)\<rparr>)"

definition close_done :: "broker \<Rightarrow> broker" where
  "close_done b = b\<lparr>br_active_writer := None, br_active_session := None\<rparr>"

fun broker_step :: "broker_env \<Rightarrow> broker \<Rightarrow> event \<Rightarrow> broker" where
  "broker_step env b (Accept c ip) = accept c ip b"
| "broker_step env b (Packet c now first_byte payload) = on_packet env now c first_byte payload b"
| "broker_step env b (Resume c) = on_resume env c b"
| "broker_step env b (Fail c) = on_fail c b"
| "broker_step env b (Tick c) = periodic_report env c b"
| "broker_step env b (Flush n) = flush_frame n b"
| "broker_step env b Push = push_report_now env b"
| "broker_step env b FinishTimer = finish_timer b"
| "broker_step env b CloseBroker = close_broker b"
| "broker_step env b CloseDone = close_done b"

definition broker_run :: "broker_env \<Rightarrow> broker \<Rightarrow> event list \<Rightarrow> broker" where
  "broker_run env b evs = foldl (broker_step env) b evs"

section \<open>The invariant of the sessions\<close>

text \<open>
  \<open>A c m\<close> stands for "the connection \<open>c\<close> has logged in as member \<open>m\<close>". Everything the broker keeps
  or sends on behalf of a member belongs to a connection that has logged in as that member.
\<close>

definition cont_ok :: "(string \<Rightarrow> bool) \<Rightarrow> cont \<Rightarrow> bool" where
  "cont_ok P k = (case k of AfterAck gfile (Some i) \<Rightarrow> P (pi_member i) | _ \<Rightarrow> True)"

definition phase_ok :: "(string \<Rightarrow> bool) \<Rightarrow> bool \<Rightarrow> phase \<Rightarrow> bool" where
  "phase_ok P logged_in p = (case p of
      AwaitConnect \<Rightarrow> True
    | ConnackSent ka rc member \<Rightarrow> (case member of None \<Rightarrow> True | Some m \<Rightarrow> P m)
    | SendQueued bs k \<Rightarrow> logged_in \<and> cont_ok P k
    | SendDrain k \<Rightarrow> logged_in \<and> cont_ok P k
    | Closing \<Rightarrow> True
    | Finished \<Rightarrow> True
    | _ \<Rightarrow> logged_in)"

definition conn_ok :: "(string \<Rightarrow> bool) \<Rightarrow> conn \<Rightarrow> bool" where
  "conn_ok P x \<longleftrightarrow> phase_ok P (mc_session x \<noteq> None) (mc_phase x) \<and>
     (\<forall>s. mc_session x = Some s \<longrightarrow> P (ms_member s))"

definition sessions_ok :: "(nat \<Rightarrow> string \<Rightarrow> bool) \<Rightarrow> broker \<Rightarrow> bool" where
  "sessions_ok A b \<longleftrightarrow>
     (\<forall>c x. br_conns b c = Some x \<longrightarrow> conn_ok (A c) x) \<and>
     (\<forall>c bs. (c, bs) \<in> set (br_out b) \<longrightarrow> (\<exists>rc. bs = build_connack rc) \<or> session_of c b \<noteq> None) \<and>
     (\<forall>c bs. (c, bs) \<in> set (br_flight b) \<longrightarrow> session_of c b \<noteq> None) \<and>
     (\<forall>c i. (c, i) \<in> set (br_intents b) \<longrightarrow> A c (pi_member i)) \<and>
     (\<forall>c. br_active_session b = Some c \<longrightarrow> session_of c b \<noteq> None)"

lemma session_of_simps [simp]:
  "session_of c (b\<lparr>br_auth := a\<rparr>) = session_of c b"
  "session_of c (b\<lparr>br_sequence := n\<rparr>) = session_of c b"
  "session_of c (b\<lparr>br_active_writer := w\<rparr>) = session_of c b"
  "session_of c (b\<lparr>br_active_session := w\<rparr>) = session_of c b"
  "session_of c (b\<lparr>br_finish := f\<rparr>) = session_of c b"
  "session_of c (b\<lparr>br_out := out\<rparr>) = session_of c b"
  "session_of c (b\<lparr>br_flight := fl\<rparr>) = session_of c b"
  "session_of c (b\<lparr>br_intents := is\<rparr>) = session_of c b"
  "session_of c (set_print_state gs f p b) = session_of c b"
  "session_of c (reset_print_state b) = session_of c b"
  by (simp_all add: session_of_def set_print_state_def reset_print_state_def)

lemma sessions_ok_simps [simp]:
  "sessions_ok A (b\<lparr>br_auth := a\<rparr>) = sessions_ok A b"
  "sessions_ok A (b\<lparr>br_sequence := n\<rparr>) = sessions_ok A b"
  "sessions_ok A (b\<lparr>br_active_writer := w\<rparr>) = sessions_ok A b"
  "sessions_ok A (b\<lparr>br_finish := f\<rparr>) = sessions_ok A b"
  "sessions_ok A (set_print_state gs f' p b) = sessions_ok A b"
  "sessions_ok A (reset_print_state b) = sessions_ok A b"
  by (simp_all add: sessions_ok_def set_print_state_def reset_print_state_def session_of_def)

lemma sessions_ok_inactive [simp]: "sessions_ok A b \<Longrightarrow> sessions_ok A (b\<lparr>br_active_session := None\<rparr>)"
  by (simp add: sessions_ok_def session_of_def)

lemma session_of_update_conn:
  "session_of c' (update_conn c f b) =
     (if c' = c then (case br_conns b c of None \<Rightarrow> None | Some x \<Rightarrow> mc_session (f x)) else session_of c' b)"
  by (auto simp: session_of_def update_conn_def split: option.splits)

lemma sessions_ok_conns:
  assumes "sessions_ok A b"
    and "\<And>c x. br_conns b' c = Some x \<Longrightarrow> conn_ok (A c) x"
    and "\<And>c. session_of c b \<noteq> None \<Longrightarrow> session_of c b' \<noteq> None"
    and "br_out b' = br_out b" "br_flight b' = br_flight b" "br_intents b' = br_intents b"
    and "br_active_session b' = br_active_session b"
  shows "sessions_ok A b'"
  using assms unfolding sessions_ok_def by (metis (no_types, lifting))

lemma sessions_ok_update_conn:
  assumes "sessions_ok A b"
    and "\<And>x. br_conns b c = Some x \<Longrightarrow> conn_ok (A c) x \<Longrightarrow>
       conn_ok (A c) (f x) \<and> (mc_session x \<noteq> None \<longrightarrow> mc_session (f x) \<noteq> None)"
  shows "sessions_ok A (update_conn c f b)"
proof -
  have conn: "conn_ok (A d) x" if "br_conns b d = Some x" for d x
    using assms(1) that by (simp add: sessions_ok_def)
  have keep: "session_of c' (update_conn c f b) \<noteq> None" if s: "session_of c' b \<noteq> None" for c'
  proof (cases "c' = c")
    case True
    then obtain x where x: "br_conns b c = Some x" "mc_session x \<noteq> None"
      using s by (auto simp: session_of_def split: option.splits)
    then show ?thesis using assms(2) [OF x(1) conn [OF x(1)]] by (simp add: session_of_update_conn True)
  next
    case False
    then show ?thesis using s by (simp add: session_of_update_conn)
  qed
  have "conn_ok (A c') x" if "br_conns (update_conn c f b) c' = Some x" for c' x
    using that assms(2) conn by (auto simp: update_conn_def split: if_splits)
  then show ?thesis
    using keep by (intro sessions_ok_conns [OF assms(1)]) (simp_all add: update_conn_def)
qed

lemma sessions_ok_set_phase:
  "sessions_ok A b \<Longrightarrow> phase_ok (A c) (session_of c b \<noteq> None) p \<Longrightarrow> sessions_ok A (set_phase p c b)"
  unfolding set_phase_def by (rule sessions_ok_update_conn) (auto simp: conn_ok_def session_of_def)

lemma sessions_ok_go_closing: "sessions_ok A b \<Longrightarrow> sessions_ok A (go_closing c b)"
  unfolding go_closing_def by (rule sessions_ok_update_conn) (auto simp: conn_ok_def phase_ok_def)

lemma sessions_ok_close_writer: "sessions_ok A b \<Longrightarrow> sessions_ok A (close_writer c b)"
  unfolding close_writer_def by (rule sessions_ok_update_conn) (auto simp: conn_ok_def)

lemma sessions_ok_write:
  "sessions_ok A b \<Longrightarrow> (\<exists>rc. bs = build_connack rc) \<or> session_of c b \<noteq> None \<Longrightarrow> sessions_ok A (write_frame c bs b)"
  by (auto simp: write_frame_def sessions_ok_def session_of_def)

lemma session_of_keep [simp]:
  "session_of c (set_phase p c' b) = session_of c b"
  "session_of c (go_closing c' b) = session_of c b"
  "session_of c (close_writer c' b) = session_of c b"
  "session_of c (write_frame c' bs b) = session_of c b"
  by (auto simp: set_phase_def go_closing_def close_writer_def write_frame_def session_of_update_conn)
     (auto simp: session_of_def split: option.splits)

lemma phase_ok_simps [simp]:
  "phase_ok P l AwaitConnect" "phase_ok P l Closing" "phase_ok P l Finished"
  "phase_ok P l AwaitPacket = l" "phase_ok P l (SubackSent sp) = l" "phase_ok P l (PubackSent pp) = l"
  "phase_ok P l (SendQueued bs k) = (l \<and> cont_ok P k)" "phase_ok P l (SendDrain k) = (l \<and> cont_ok P k)"
  "phase_ok P l (ConnackSent ka rc member) = (\<forall>m. member = Some m \<longrightarrow> P m)"
  "cont_ok P StartPeriodic" "cont_ok P NextPacket" "cont_ok P (AfterAck g None)"
  "cont_ok P (AfterAck g (Some i)) = P (pi_member i)"
  by (auto simp: phase_ok_def cont_ok_def split: option.splits)

lemma sessions_ok_deliver:
  "sessions_ok A b \<Longrightarrow> A c (pi_member i) \<Longrightarrow> sessions_ok A (b\<lparr>br_intents := br_intents b @ [(c, i)]\<rparr>)"
  by (auto simp: sessions_ok_def session_of_def)

lemma sessions_ok_run_cont:
  assumes "sessions_ok A b" and "session_of c b \<noteq> None" and "cont_ok (A c) k"
  shows "sessions_ok A (run_cont k c b)"
proof (cases k)
  case StartPeriodic
  have "sessions_ok A (update_conn c (\<lambda>x. x\<lparr>mc_phase := AwaitPacket, mc_periodic := True\<rparr>) b)"
    using assms(1,2) by (intro sessions_ok_update_conn) (auto simp: conn_ok_def session_of_def)
  then show ?thesis by (simp add: run_cont_def StartPeriodic)
next
  case (AfterAck gfile intent)
  have "sessions_ok A (schedule_finish gfile b)"
    using assms(1) by (simp add: schedule_finish_def)
  moreover have "session_of c (schedule_finish gfile b) = session_of c b"
    by (simp add: schedule_finish_def)
  ultimately show ?thesis
    using assms by (auto simp: run_cont_def AfterAck Let_def split: option.split
        intro!: sessions_ok_set_phase sessions_ok_deliver)
qed (use assms in \<open>simp add: run_cont_def sessions_ok_set_phase\<close>)

lemma sessions_ok_queue_frame:
  "sessions_ok A b \<Longrightarrow> session_of c b \<noteq> None \<Longrightarrow> cont_ok (A c) k \<Longrightarrow> sessions_ok A (queue_frame c frame k b)"
  by (auto simp: queue_frame_def sessions_ok_go_closing sessions_ok_set_phase split: sum.split)

lemma next_report_simps [simp]:
  "sessions_ok A (snd (next_report env c b)) = sessions_ok A b"
  "session_of c' (snd (next_report env c b)) = session_of c' b"
  by (simp_all add: next_report_def Let_def)

lemma sessions_ok_send_report:
  "sessions_ok A b \<Longrightarrow> session_of c b \<noteq> None \<Longrightarrow> cont_ok (A c) k \<Longrightarrow> sessions_ok A (send_report env c k b)"
  by (simp add: send_report_def case_prod_beta sessions_ok_run_cont sessions_ok_queue_frame)

lemma sessions_ok_send_version:
  "sessions_ok A b \<Longrightarrow> session_of c b \<noteq> None \<Longrightarrow> sessions_ok A (send_version env c q b)"
  by (simp add: send_version_def sessions_ok_set_phase sessions_ok_queue_frame)

lemma sessions_ok_send_print_ack:
  "sessions_ok A b \<Longrightarrow> session_of c b \<noteq> None \<Longrightarrow> (\<And>i. intent = Some i \<Longrightarrow> A c (pi_member i)) \<Longrightarrow>
   sessions_ok A (send_print_ack env c q g intent b)"
  by (cases intent) (auto simp: send_print_ack_def Let_def sessions_ok_set_phase sessions_ok_queue_frame)

lemma parse_project_file_member:
  "parse_project_file_command parsed m = Some i \<Longrightarrow> pi_member i = m"
  by (auto simp: parse_project_file_command_def split: pyval.splits if_splits)

lemma sessions_ok_member:
  "sessions_ok A b \<Longrightarrow> session_of c b = Some s \<Longrightarrow> A c (ms_member s)"
  by (auto simp: sessions_ok_def session_of_def conn_ok_def split: option.splits)

lemma sessions_ok_dispatch:
  assumes "sessions_ok A b" and "session_of c b = Some s"
  shows "sessions_ok A (dispatch_publish env c publish b)"
proof -
  have "A c (pi_member i)" if "parse_project_file_command parsed (ms_member s) = Some i" for parsed i
    using sessions_ok_member [OF assms] parse_project_file_member [OF that] by simp
  then show ?thesis
    using assms by (auto simp: dispatch_publish_def Let_def intro!: sessions_ok_set_phase
        sessions_ok_send_report sessions_ok_send_version sessions_ok_send_print_ack)
qed

lemma sessions_ok_handle_publish:
  "sessions_ok A b \<Longrightarrow> session_of c b = Some s \<Longrightarrow> sessions_ok A (handle_publish env c publish b)"
  by (auto simp: handle_publish_def sessions_ok_dispatch sessions_ok_go_closing
      intro!: sessions_ok_set_phase sessions_ok_write split: sum.split)

lemma sessions_ok_on_session_packet:
  "sessions_ok A b \<Longrightarrow> session_of c b = Some s \<Longrightarrow> sessions_ok A (on_session_packet env c first_byte payload b)"
  by (auto simp: on_session_packet_def Let_def sessions_ok_go_closing sessions_ok_handle_publish
      intro!: sessions_ok_set_phase sessions_ok_write split: sum.split)

lemma auth_connect_member: "fst (auth_connect env auth cp ip now) = (rc, Some m) \<Longrightarrow> rc = 0"
  by (auto simp: auth_connect_def split: if_splits prod.splits)

lemma sessions_ok_on_connect:
  assumes "sessions_ok A b"
    and "\<And>cp m. first_byte = 0x10 \<Longrightarrow> parse_connect payload = Inr cp \<Longrightarrow>
      fst (auth_connect env (br_auth b) cp ip now) = (0, Some m) \<Longrightarrow> A c m"
  shows "sessions_ok A (on_connect_packet env now c first_byte payload ip b)"
proof (cases "first_byte = 0x10 \<and> (\<exists>cp. parse_connect payload = Inr cp)")
  case True
  then obtain cp where cp: "first_byte = 0x10" "parse_connect payload = Inr cp" by blast
  obtain rc member auth where ac: "auth_connect env (br_auth b) cp ip now = ((rc, member), auth)"
    by (metis surj_pair)
  have "A c m" if "member = Some m" for m
    using assms(2) [OF cp, of m] ac that auth_connect_member [of env "br_auth b" cp ip now rc m] by simp
  then show ?thesis
    using assms(1) cp ac
    by (auto simp: on_connect_packet_def intro!: sessions_ok_set_phase sessions_ok_write)
next
  case False
  then show ?thesis
    using assms(1) by (auto simp: on_connect_packet_def sessions_ok_go_closing split: sum.split)
qed

lemma sessions_ok_start_session:
  assumes "sessions_ok A b" and "A c m" and "br_conns b c \<noteq> None"
  shows "sessions_ok A (start_session env c ka m b)"
proof -
  define s where "s = \<lparr>ms_member = m, ms_report_topic = ''device/'' @ br_serial b @ ''/report'',
    ms_request_topic = ''device/'' @ br_serial b @ ''/request'', ms_subscribed = False\<rparr>"
  let ?b1 = "update_conn c (\<lambda>x. x\<lparr>mc_session := Some s, mc_timeout := mqtt_read_timeout ka\<rparr>) b"
  have s1: "session_of c ?b1 = Some s"
    using assms(3) by (auto simp: session_of_update_conn)
  have "phase_ok P False p \<Longrightarrow> phase_ok P True p" for P p
    by (cases p) auto
  then have "phase_ok P (mc_session x \<noteq> None) p \<Longrightarrow> phase_ok P True p" for P p x
    by (cases "mc_session x") auto
  then have "sessions_ok A ?b1"
    using assms(1,2) by (intro sessions_ok_update_conn) (auto simp: conn_ok_def s_def)
  then have "sessions_ok A (?b1\<lparr>br_active_session := Some c\<rparr>)"
    using s1 by (auto simp: sessions_ok_def session_of_def)
  then have "sessions_ok A (reset_print_state (?b1\<lparr>br_active_session := Some c\<rparr>))" by simp
  then show ?thesis
    unfolding start_session_def Let_def s_def [symmetric]
    by (rule sessions_ok_send_report) (use s1 in simp_all)
qed

lemma sessions_ok_add_conn:
  assumes "sessions_ok A b" and "br_conns b c = None" and "conn_ok (A c) x"
  shows "sessions_ok A (b\<lparr>br_conns := (br_conns b)(c \<mapsto> x)\<rparr>)"
proof -
  have "session_of c' (b\<lparr>br_conns := (br_conns b)(c \<mapsto> x)\<rparr>) \<noteq> None" if "session_of c' b \<noteq> None" for c'
    using that assms(2) by (auto simp: session_of_def)
  moreover have "conn_ok (A d) y" if "br_conns (b\<lparr>br_conns := (br_conns b)(c \<mapsto> x)\<rparr>) d = Some y" for d y
    using that assms(1,3) by (auto simp: sessions_ok_def split: if_splits)
  ultimately show ?thesis
    by (intro sessions_ok_conns [OF assms(1)]) simp_all
qed

lemma br_conns_displace: "br_conns (displace b) c = None \<longleftrightarrow> br_conns b c = None"
  by (auto simp: displace_def close_writer_def update_conn_def split: option.split)

lemma sessions_ok_accept: "sessions_ok A b \<Longrightarrow> sessions_ok A (accept c ip b)"
proof (cases "br_conns b c = None")
  case True
  assume "sessions_ok A b"
  then have "sessions_ok A (displace b)"
    by (auto simp: displace_def sessions_ok_close_writer split: option.split)
  then have "sessions_ok A ((displace b)\<lparr>br_conns := (br_conns (displace b))(c \<mapsto> new_conn ip)\<rparr>)"
    using True by (intro sessions_ok_add_conn) (simp_all add: br_conns_displace conn_ok_def new_conn_def)
  moreover have "accept c ip b =
    (displace b)\<lparr>br_conns := (br_conns (displace b))(c \<mapsto> new_conn ip)\<rparr>\<lparr>br_active_writer := Some c\<rparr>"
    using True by (simp add: accept_def Let_def)
  ultimately show ?thesis by simp
qed (simp add: accept_def)

lemma sessions_ok_finalise: "sessions_ok A b \<Longrightarrow> sessions_ok A (finalise c b)"
  by (auto simp: finalise_def Let_def intro!: sessions_ok_set_phase sessions_ok_close_writer)

lemma conn_session_of: "br_conns b c = Some x \<Longrightarrow> session_of c b = mc_session x"
  by (simp add: session_of_def)

lemma sessions_ok_conn: "sessions_ok A b \<Longrightarrow> br_conns b c = Some x \<Longrightarrow> conn_ok (A c) x"
  by (simp add: sessions_ok_def)

lemma sessions_ok_on_packet:
  assumes "sessions_ok A b"
    and "\<And>x cp m. br_conns b c = Some x \<Longrightarrow> first_byte = 0x10 \<Longrightarrow> parse_connect payload = Inr cp \<Longrightarrow>
      fst (auth_connect env (br_auth b) cp (mc_ip x) now) = (0, Some m) \<Longrightarrow> A c m"
  shows "sessions_ok A (on_packet env now c first_byte payload b)"
proof (cases "br_conns b c")
  case (Some x)
  have "sessions_ok A (on_connect_packet env now c first_byte payload (mc_ip x) b)"
    using assms(1) assms(2) [OF Some] by (rule sessions_ok_on_connect)
  moreover have "sessions_ok A (on_session_packet env c first_byte payload b)" if "mc_phase x = AwaitPacket"
    using that sessions_ok_conn [OF assms(1) Some] conn_session_of [OF Some] assms(1)
    by (auto simp: conn_ok_def intro: sessions_ok_on_session_packet)
  ultimately show ?thesis
    using assms(1) Some by (auto simp: on_packet_def split: phase.split)
qed (use assms in \<open>simp add: on_packet_def\<close>)

lemma sessions_ok_on_resume:
  assumes "sessions_ok A b"
  shows "sessions_ok A (on_resume env c b)"
proof (cases "br_conns b c")
  case (Some x)
  note ok = sessions_ok_conn [OF assms Some]
  show ?thesis
  proof (cases "mc_phase x")
    case (ConnackSent ka rc member)
    then show ?thesis
      using ok assms Some sessions_ok_start_session [OF assms, of c _ env ka]
      by (auto simp: on_resume_def conn_ok_def sessions_ok_go_closing split: option.split)
  next
    case (SubackSent sp)
    let ?b = "update_conn c (\<lambda>x. x\<lparr>mc_session := map_option (adapt_session_topics sp) (mc_session x)\<rparr>) b"
    have m: "ms_member (adapt_session_topics sp s) = ms_member s" for s
      by (simp add: adapt_session_topics_def split: option.split prod.split)
    have "sessions_ok A ?b"
      using assms by (rule sessions_ok_update_conn) (auto simp: conn_ok_def m)
    moreover have "session_of c ?b \<noteq> None"
      using ok Some SubackSent by (simp add: session_of_update_conn conn_ok_def)
    ultimately show ?thesis
      using Some SubackSent by (simp add: on_resume_def sessions_ok_send_report)
  next
    case (PubackSent publish)
    then show ?thesis
      using ok assms Some conn_session_of [OF Some]
      by (auto simp: on_resume_def conn_ok_def intro: sessions_ok_dispatch)
  next
    case (SendQueued bs k)
    then show ?thesis
      using ok assms Some conn_session_of [OF Some]
      by (auto simp: on_resume_def conn_ok_def intro!: sessions_ok_set_phase sessions_ok_write)
  next
    case (SendDrain k)
    then show ?thesis
      using ok assms Some conn_session_of [OF Some]
      by (auto simp: on_resume_def conn_ok_def intro!: sessions_ok_run_cont)
  qed (use assms Some sessions_ok_finalise in \<open>simp_all add: on_resume_def\<close>)
qed (use assms in \<open>simp add: on_resume_def\<close>)

lemma sessions_ok_report_task:
  assumes "sessions_ok A b" and "\<And>b'. sessions_ok A b' \<Longrightarrow> sessions_ok A (on_error b')"
  shows "sessions_ok A (send_report_task env c on_error b)"
proof (cases "session_is_active c b")
  case True
  have s: "session_of c b \<noteq> None"
    using True assms(1) by (auto simp: session_is_active_def sessions_ok_def)
  obtain frame b' where nr: "next_report env c b = (frame, b')" by (metis surj_pair)
  have b': "sessions_ok A b'" "session_of c b' \<noteq> None"
    using next_report_simps(1) [of A env c b] next_report_simps(2) [of c env c b] assms(1) s
    by (simp_all add: nr)
  then have "sessions_ok A (b'\<lparr>br_flight := br_flight b' @ [(c, bs)]\<rparr>)" for bs
    by (auto simp: sessions_ok_def session_of_def)
  then show ?thesis
    using True b' assms(2) by (simp add: send_report_task_def nr split: sum.split)
qed (use assms in \<open>simp add: send_report_task_def\<close>)

lemma sessions_ok_flight:
  assumes "sessions_ok A b" and "set fl \<subseteq> set (br_flight b)"
  shows "sessions_ok A (b\<lparr>br_flight := fl\<rparr>)"
proof -
  have "session_of c b \<noteq> None" if "(c, bs) \<in> set fl" for c bs
    using that assms unfolding sessions_ok_def by blast
  then show ?thesis using assms(1) by (simp add: sessions_ok_def)
qed

lemma sessions_ok_flush: "sessions_ok A b \<Longrightarrow> sessions_ok A (flush_frame n b)"
proof (cases "n < length (br_flight b)")
  case True
  assume ok: "sessions_ok A b"
  let ?b = "b\<lparr>br_flight := take n (br_flight b) @ drop (Suc n) (br_flight b)\<rparr>"
  have "set (take n (br_flight b) @ drop (Suc n) (br_flight b)) \<subseteq> set (br_flight b)"
    using set_take_subset set_drop_subset by fastforce
  then have "sessions_ok A ?b"
    using ok by (intro sessions_ok_flight)
  moreover have "session_of (fst (br_flight b ! n)) ?b \<noteq> None"
    using ok nth_mem [OF True] by (cases "br_flight b ! n") (auto simp: sessions_ok_def)
  ultimately show ?thesis
    using True by (simp add: flush_frame_def case_prod_beta sessions_ok_write)
qed (simp add: flush_frame_def)

lemma sessions_ok_close_broker: "sessions_ok A b \<Longrightarrow> sessions_ok A (close_broker b)"
proof -
  assume ok: "sessions_ok A b"
  let ?b1 = "case br_active_writer (b\<lparr>br_finish := None\<rparr>) of None \<Rightarrow> b\<lparr>br_finish := None\<rparr>
    | Some w \<Rightarrow> close_writer w (b\<lparr>br_finish := None\<rparr>)"
  have b1: "sessions_ok A ?b1"
    using ok by (auto simp: sessions_ok_close_writer split: option.split)
  have "conn_ok (A c) x" if "cancel_all (br_conns ?b1) c = Some x" for c x
    using that sessions_ok_conn [OF b1, of c] by (auto simp: cancel_all_def conn_ok_def split: if_splits)
  moreover have "session_of c (?b1\<lparr>br_conns := cancel_all (br_conns ?b1)\<rparr>) = session_of c ?b1" for c
    by (cases "br_conns ?b1 c") (simp_all add: session_of_def cancel_all_def)
  ultimately have "sessions_ok A (?b1\<lparr>br_conns := cancel_all (br_conns ?b1)\<rparr>)"
    by (intro sessions_ok_conns [OF b1]) simp_all
  then show ?thesis by (simp add: close_broker_def Let_def)
qed

lemma sessions_ok_step:
  assumes "sessions_ok A b"
    and "\<And>c now payload x cp m. ev = Packet c now 0x10 payload \<Longrightarrow> br_conns b c = Some x \<Longrightarrow>
      parse_connect payload = Inr cp \<Longrightarrow> fst (auth_connect env (br_auth b) cp (mc_ip x) now) = (0, Some m) \<Longrightarrow> A c m"
  shows "sessions_ok A (broker_step env b ev)"
proof (cases ev)
  case (Packet c now first_byte payload)
  then show ?thesis
    using sessions_ok_on_packet [OF assms(1)] assms(2) by auto
next
  case (Fail c)
  then show ?thesis
    using assms(1) by (auto simp: on_fail_def sessions_ok_go_closing split: option.split)
next
  case (Tick c)
  have "sessions_ok A (update_conn c (\<lambda>x. x\<lparr>mc_periodic := False\<rparr>) b')" if "sessions_ok A b'" for b'
    using that by (rule sessions_ok_update_conn) (auto simp: conn_ok_def)
  then show ?thesis
    using assms(1) Tick by (auto simp: periodic_report_def sessions_ok_report_task split: option.split)
next
  case Push
  then show ?thesis
    using assms(1) by (auto simp: push_report_now_def sessions_ok_report_task split: option.split)
next
  case FinishTimer
  have "sessions_ok A ((set_print_state g f p b)\<lparr>br_finish := None\<rparr>)" for g f p
    using assms(1) by simp
  then show ?thesis
    using FinishTimer assms(1) by (simp add: finish_timer_def split: option.split)
next
  case CloseDone
  have "sessions_ok A (b\<lparr>br_active_writer := None\<rparr>\<lparr>br_active_session := None\<rparr>)"
    using assms(1) by (intro sessions_ok_inactive) simp
  then show ?thesis using CloseDone by (simp add: close_done_def)
qed (use assms in \<open>simp_all add: sessions_ok_accept sessions_ok_on_resume sessions_ok_flush sessions_ok_close_broker\<close>)

text \<open>
  \<open>presented\<close>: the CONNECT packet speaks MQTT 3.1.1 for the user \<open>bblp\<close>, the peer and the code are not
  limited, and the code has at least eight characters and the hash configured for the member \<open>m\<close>.
  \<open>logged_in env b0 evs c m\<close>: among \<open>evs\<close> is a CONNECT packet of \<open>c\<close> that presented the credentials of
  \<open>m\<close> when it was read.
\<close>

definition presented :: "broker_env \<Rightarrow> auth_set \<Rightarrow> connect_packet \<Rightarrow> string option \<Rightarrow> real \<Rightarrow> string \<Rightarrow> bool" where
  "presented env auth cp ip now m \<longleftrightarrow> cp_protocol_name cp = ''MQTT'' \<and> cp_protocol_level cp = 4 \<and>
     cp_username cp = Some ''bblp'' \<and> \<not> fst (is_limited (as_limiter auth) ip (cp_password cp) now) \<and>
     (\<exists>code mm. cp_password cp = Some code \<and> 8 \<le> py_len code \<and>
        List.find (\<lambda>x. mem_hash x = be_sha env code) (as_members auth) = Some mm \<and> mem_id mm = m)"

lemma auth_connect_presented:
  assumes "fst (auth_connect env auth cp ip now) = (0, Some m)"
  shows "presented env auth cp ip now m"
proof -
  let ?r = "fst (authenticate (be_sha env) auth (cp_password cp) ip now)"
  have "ar_ok ?r \<and> ar_member ?r = Some m" "cp_protocol_name cp = ''MQTT''" "cp_protocol_level cp = 4"
    "cp_username cp = Some ''bblp''"
    using assms by (auto simp: auth_connect_def split: if_splits prod.splits)
  then show ?thesis unfolding presented_def authenticate_grant by blast
qed

definition logged_in :: "broker_env \<Rightarrow> broker \<Rightarrow> event list \<Rightarrow> nat \<Rightarrow> string \<Rightarrow> bool" where
  "logged_in env b0 evs c m \<longleftrightarrow> (\<exists>pre now payload post x cp.
     evs = pre @ Packet c now 0x10 payload # post \<and>
     br_conns (broker_run env b0 pre) c = Some x \<and> parse_connect payload = Inr cp \<and>
     presented env (br_auth (broker_run env b0 pre)) cp (mc_ip x) now m)"

lemma broker_run_snoc: "broker_run env b (evs @ [ev]) = broker_step env (broker_run env b evs) ev"
  by (simp add: broker_run_def)

lemma sessions_ok_run:
  "sessions_ok (logged_in env (new_broker serial auth) (evs @ rest))
     (broker_run env (new_broker serial auth) evs)"
proof (induction evs arbitrary: rest rule: rev_induct)
  case Nil
  show ?case by (simp add: sessions_ok_def broker_run_def new_broker_def)
next
  case (snoc ev evs)
  have "sessions_ok (logged_in env (new_broker serial auth) (evs @ ev # rest))
      (broker_run env (new_broker serial auth) evs)"
    using snoc.IH .
  then show ?case
    unfolding broker_run_snoc append_assoc append_Cons append_Nil
    by (rule sessions_ok_step) (unfold logged_in_def, blast intro: auth_connect_presented)
qed

section \<open>A closed connection is silent\<close>

definition gone :: "nat \<Rightarrow> broker \<Rightarrow> bool" where
  "gone c b \<longleftrightarrow> (\<exists>x. br_conns b c = Some x \<and> mc_closing x)"

text \<open>What left the broker on behalf of \<open>c\<close>: the frames written to it and the commands captured from it.\<close>

definition sent :: "nat \<Rightarrow> broker \<Rightarrow> (nat \<times> byte list) list \<times> (nat \<times> project_intent) list" where
  "sent c b = (List.filter (\<lambda>p. fst p = c) (br_out b), List.filter (\<lambda>p. fst p = c) (br_intents b))"

definition silent :: "nat \<Rightarrow> broker \<Rightarrow> broker \<Rightarrow> bool" where
  "silent c b b' \<longleftrightarrow> (gone c b \<longrightarrow> gone c b' \<and> sent c b' = sent c b)"

lemma silent_refl [simp]: "silent c b b"
  by (simp add: silent_def)

lemma silent_trans [trans]: "silent c b b' \<Longrightarrow> silent c b' b'' \<Longrightarrow> silent c b b''"
  by (auto simp: silent_def)

lemma silent_fields [simp]:
  "silent c b (b'\<lparr>br_auth := a\<rparr>) = silent c b b'"
  "silent c b (b'\<lparr>br_sequence := n\<rparr>) = silent c b b'"
  "silent c b (b'\<lparr>br_active_writer := w\<rparr>) = silent c b b'"
  "silent c b (b'\<lparr>br_active_session := w\<rparr>) = silent c b b'"
  "silent c b (b'\<lparr>br_finish := f\<rparr>) = silent c b b'"
  "silent c b (b'\<lparr>br_flight := fl\<rparr>) = silent c b b'"
  "silent c b (set_print_state gs f' p b') = silent c b b'"
  "silent c b (reset_print_state b') = silent c b b'"
  by (simp_all add: silent_def gone_def sent_def set_print_state_def reset_print_state_def)

lemma silent_update_conn:
  "(\<And>x. mc_closing x \<Longrightarrow> mc_closing (f x)) \<Longrightarrow> silent c b b' \<Longrightarrow> silent c b (update_conn c' f b')"
  by (auto simp: silent_def gone_def sent_def update_conn_def)

lemma silent_prims [intro]:
  "silent c b b' \<Longrightarrow> silent c b (set_phase p c' b')"
  "silent c b b' \<Longrightarrow> silent c b (go_closing c' b')"
  "silent c b b' \<Longrightarrow> silent c b (close_writer c' b')"
  by (simp_all add: set_phase_def go_closing_def close_writer_def silent_update_conn)

lemma silent_write [intro]: "silent c b b' \<Longrightarrow> silent c b (write_frame c' bs b')"
  by (auto simp: silent_def gone_def sent_def write_frame_def is_closing_def split: option.splits)

lemma silent_run_cont: "silent c b b' \<Longrightarrow> silent c b (run_cont k c' b')"
proof (cases k)
  case (AfterAck g i)
  assume s: "silent c b b'"
  have "silent c b (b'\<lparr>br_finish := Some g\<rparr>\<lparr>br_intents := br_intents b' @ [(c', j)]\<rparr>)" if "session_is_active c' b'" for j
    using s that by (auto simp: silent_def gone_def sent_def session_is_active_def is_closing_def)
  with s show ?thesis
    by (auto simp: run_cont_def AfterAck Let_def schedule_finish_def split: option.split)
qed (auto simp: run_cont_def intro: silent_update_conn)

lemma silent_queue_frame: "silent c b b' \<Longrightarrow> silent c b (queue_frame c' fr k b')"
  by (auto simp: queue_frame_def split: sum.split)

lemma silent_send_report: "silent c b b' \<Longrightarrow> silent c b (send_report env c' k b')"
  by (auto simp: send_report_def next_report_def Let_def silent_run_cont intro!: silent_queue_frame)

lemma silent_dispatch: "silent c b b' \<Longrightarrow> silent c b (dispatch_publish env c' pp b')"
  by (auto simp: dispatch_publish_def Let_def send_version_def send_print_ack_def
      intro!: silent_send_report silent_queue_frame)

lemma silent_report_task:
  "silent c b b' \<Longrightarrow> (\<And>b'. silent c b b' \<Longrightarrow> silent c b (err b')) \<Longrightarrow> silent c b (send_report_task env c' err b')"
  by (auto simp: send_report_task_def next_report_def Let_def split: sum.split)

lemma silent_handle_publish: "silent c b (handle_publish env c' pp b)"
  by (simp add: handle_publish_def silent_prims silent_write silent_dispatch split: sum.split)

lemma silent_session_packet: "silent c b (on_session_packet env c' fb payload b)"
  by (simp add: on_session_packet_def Let_def silent_prims silent_write silent_handle_publish split: sum.split)

lemma silent_connect_packet: "silent c b (on_connect_packet env now c' fb payload ip b)"
  by (simp add: on_connect_packet_def silent_prims silent_write split: sum.split prod.split)

lemma silent_step: "silent c b (broker_step env b ev)"
proof (cases ev)
  case (Accept c' ip)
  have d: "silent c b (displace b)"
    by (auto simp: displace_def split: option.split)
  have "silent c b (displace b\<lparr>br_conns := (br_conns (displace b))(c' \<mapsto> x)\<rparr>)" if "br_conns b c' = None" for x
    using d that br_conns_displace [of b c'] by (auto simp: silent_def gone_def sent_def)
  then show ?thesis
    using Accept by (auto simp: accept_def Let_def silent_def gone_def sent_def)
next
  case (Packet c' now fb payload)
  then show ?thesis
    by (simp add: on_packet_def silent_connect_packet silent_session_packet split: option.split phase.split)
next
  case (Resume c')
  then show ?thesis
    by (simp add: on_resume_def start_session_def finalise_def Let_def silent_prims silent_write
        silent_dispatch silent_send_report silent_run_cont silent_update_conn
        split: option.split phase.split)
next
  case (Fail c')
  then show ?thesis by (auto simp: on_fail_def split: option.split)
next
  case (Tick c')
  then show ?thesis
    by (auto simp: periodic_report_def intro!: silent_report_task silent_update_conn split: option.split)
next
  case (Flush n)
  then show ?thesis by (auto simp: flush_frame_def Let_def split: prod.split)
next
  case Push
  then show ?thesis by (auto simp: push_report_now_def intro!: silent_report_task split: option.split)
next
  case CloseBroker
  have "gone c (b'\<lparr>br_conns := cancel_all (br_conns b')\<rparr>)" if "gone c b'" for b'
  proof -
    from that obtain x where "br_conns b' c = Some x" "mc_closing x" by (auto simp: gone_def)
    then show ?thesis by (cases "mc_phase x = Finished") (simp_all add: gone_def cancel_all_def)
  qed
  then have step: "silent c b (b'\<lparr>br_conns := cancel_all (br_conns b')\<rparr>)" if "silent c b b'" for b'
    using that by (auto simp: silent_def sent_def)
  have "silent c b (case br_active_writer (b\<lparr>br_finish := None\<rparr>) of None \<Rightarrow> b\<lparr>br_finish := None\<rparr>
      | Some w \<Rightarrow> close_writer w (b\<lparr>br_finish := None\<rparr>))"
    by (auto split: option.split)
  from step [OF this] show ?thesis
    using CloseBroker by (simp add: close_broker_def Let_def)
qed (auto simp: finish_timer_def close_done_def split: option.split)

lemma silent_run: "silent c b (broker_run env b evs)"
proof (induction evs rule: rev_induct)
  case (snoc ev evs)
  then show ?case unfolding broker_run_snoc using silent_step silent_trans by blast
qed (simp add: broker_run_def)

section \<open>One open connection\<close>

definition only_active :: "broker \<Rightarrow> bool" where
  "only_active b \<longleftrightarrow> (\<forall>c. \<not> is_closing c b \<longrightarrow> br_active_writer b = Some c)"

text \<open>A step that opens no connection and keeps the active one.\<close>

definition opens_none :: "broker \<Rightarrow> broker \<Rightarrow> bool" where
  "opens_none b b' \<longleftrightarrow> br_active_writer b' = br_active_writer b \<and> (\<forall>c. is_closing c b \<longrightarrow> is_closing c b')"

lemma opens_none_refl [simp]: "opens_none b b"
  by (simp add: opens_none_def)

lemma opens_none_fields [simp]:
  "opens_none b (b'\<lparr>br_auth := a\<rparr>) = opens_none b b'"
  "opens_none b (b'\<lparr>br_sequence := n\<rparr>) = opens_none b b'"
  "opens_none b (b'\<lparr>br_active_session := w\<rparr>) = opens_none b b'"
  "opens_none b (b'\<lparr>br_finish := f\<rparr>) = opens_none b b'"
  "opens_none b (b'\<lparr>br_flight := fl\<rparr>) = opens_none b b'"
  "opens_none b (b'\<lparr>br_intents := is\<rparr>) = opens_none b b'"
  "opens_none b (b'\<lparr>br_out := out\<rparr>) = opens_none b b'"
  "opens_none b (set_print_state gs f' p b') = opens_none b b'"
  "opens_none b (reset_print_state b') = opens_none b b'"
  by (simp_all add: opens_none_def is_closing_def set_print_state_def reset_print_state_def)

lemma is_closing_update_mono:
  "(\<And>x. mc_closing x \<Longrightarrow> mc_closing (f x)) \<Longrightarrow> is_closing c b \<Longrightarrow> is_closing c (update_conn c' f b)"
  by (auto simp: is_closing_def update_conn_def split: option.splits)

lemma opens_none_update_conn:
  assumes "\<And>x. mc_closing x \<Longrightarrow> mc_closing (f x)" and "opens_none b b'"
  shows "opens_none b (update_conn c' f b')"
proof -
  have "br_active_writer (update_conn c' f b') = br_active_writer b'" by (simp add: update_conn_def)
  then show ?thesis
    using assms(2) is_closing_update_mono [of f, OF assms(1)] unfolding opens_none_def by auto
qed

lemma opens_none_set_phase: "opens_none b b' \<Longrightarrow> opens_none b (set_phase p c' b')"
  unfolding set_phase_def by (rule opens_none_update_conn) simp_all

lemma opens_none_go_closing: "opens_none b b' \<Longrightarrow> opens_none b (go_closing c' b')"
  unfolding go_closing_def by (rule opens_none_update_conn) simp_all

lemma opens_none_close_writer: "opens_none b b' \<Longrightarrow> opens_none b (close_writer c' b')"
  unfolding close_writer_def by (rule opens_none_update_conn) simp_all

lemma opens_none_write: "opens_none b b' \<Longrightarrow> opens_none b (write_frame c' bs b')"
  by (simp add: write_frame_def)

lemmas opens_none_prims = opens_none_set_phase opens_none_go_closing opens_none_close_writer opens_none_write

lemma opens_none_run_cont: "opens_none b b' \<Longrightarrow> opens_none b (run_cont k c' b')"
  by (cases k) (simp_all add: run_cont_def Let_def schedule_finish_def opens_none_prims opens_none_update_conn
      split: option.split)

lemma opens_none_queue_frame: "opens_none b b' \<Longrightarrow> opens_none b (queue_frame c' fr k b')"
  by (simp add: queue_frame_def opens_none_prims split: sum.split)

lemma opens_none_send_report: "opens_none b b' \<Longrightarrow> opens_none b (send_report env c' k b')"
  by (simp add: send_report_def next_report_def Let_def opens_none_run_cont opens_none_queue_frame)

lemma opens_none_dispatch: "opens_none b b' \<Longrightarrow> opens_none b (dispatch_publish env c' pp b')"
  by (simp add: dispatch_publish_def Let_def send_version_def send_print_ack_def opens_none_prims
      opens_none_send_report opens_none_queue_frame)

lemma opens_none_on_packet: "opens_none b (on_packet env now c' fb payload b)"
proof -
  have "opens_none b (handle_publish env c' pp b)" for pp
    by (simp add: handle_publish_def opens_none_prims opens_none_dispatch split: sum.split)
  then have "opens_none b (on_session_packet env c' fb payload b)"
    by (simp add: on_session_packet_def Let_def opens_none_prims split: sum.split)
  moreover have "opens_none b (on_connect_packet env now c' fb payload ip b)" for ip
    by (simp add: on_connect_packet_def opens_none_prims split: sum.split prod.split)
  ultimately show ?thesis
    by (simp add: on_packet_def split: option.split phase.split)
qed

lemma opens_none_report_task:
  "opens_none b b' \<Longrightarrow> (\<And>b'. opens_none b b' \<Longrightarrow> opens_none b (err b')) \<Longrightarrow> opens_none b (send_report_task env c' err b')"
  by (simp add: send_report_task_def next_report_def Let_def split: sum.split)

lemma only_active_opens_none: "only_active b \<Longrightarrow> opens_none b b' \<Longrightarrow> only_active b'"
  by (auto simp: only_active_def opens_none_def)

lemma is_closing_update: "is_closing c (update_conn c' f b) =
   (if c = c' then (case br_conns b c of None \<Rightarrow> True | Some x \<Rightarrow> mc_closing (f x)) else is_closing c b)"
  by (auto simp: is_closing_def update_conn_def split: option.splits)

lemma only_active_accept: "only_active b \<Longrightarrow> only_active (accept c ip b)"
proof (cases "br_conns b c = None")
  case True
  assume oa: "only_active b"
  have "is_closing c' (displace b)" for c'
  proof (cases "is_closing c' b")
    case True
    then have "is_closing c' (close_writer w b)" for w
      unfolding close_writer_def by (rule is_closing_update_mono [rotated]) simp
    then have "is_closing c' ((close_writer w b)\<lparr>br_active_session := None\<rparr>)" for w
      by (simp add: is_closing_def)
    with True show ?thesis by (simp add: displace_def split: option.split)
  next
    case False
    then have "br_active_writer b = Some c'" using oa by (simp add: only_active_def)
    with False show ?thesis
      by (simp add: displace_def is_closing_def close_writer_def update_conn_def split: option.splits)
  qed
  then show ?thesis
    using True by (auto simp: accept_def Let_def only_active_def is_closing_def)
qed (simp add: accept_def)

lemma only_active_finalise: "only_active b \<Longrightarrow> only_active (finalise c b)"
  by (auto simp: finalise_def Let_def only_active_def set_phase_def close_writer_def is_closing_update
      is_closing_def update_conn_def split: option.splits) blast+

lemma only_active_on_resume: "only_active b \<Longrightarrow> only_active (on_resume env c b)"
proof (cases "on_resume env c b = finalise c b")
  case False
  then have "opens_none b (on_resume env c b)"
    by (auto simp: on_resume_def start_session_def Let_def opens_none_prims opens_none_dispatch
        opens_none_send_report opens_none_run_cont opens_none_update_conn split: option.split phase.split)
  then show "only_active b \<Longrightarrow> ?thesis" by (rule only_active_opens_none [rotated])
qed (simp add: only_active_finalise)

text \<open>\<open>CloseDone\<close> stands at the end of \<open>close\<close>: the writers are closed by then.\<close>

definition orderly :: "broker \<Rightarrow> event \<Rightarrow> bool" where
  "orderly b ev \<longleftrightarrow> (ev = CloseDone \<longrightarrow> (\<forall>c. is_closing c b))"

lemma only_active_step:
  assumes "only_active b" and "orderly b ev"
  shows "only_active (broker_step env b ev)"
proof (cases ev)
  case (Accept c ip)
  then show ?thesis using assms(1) by (simp add: only_active_accept)
next
  case (Resume c)
  then show ?thesis using assms(1) by (simp add: only_active_on_resume)
next
  case CloseBroker
  let ?b1 = "case br_active_writer (b\<lparr>br_finish := None\<rparr>) of None \<Rightarrow> b\<lparr>br_finish := None\<rparr>
    | Some w \<Rightarrow> close_writer w (b\<lparr>br_finish := None\<rparr>)"
  have "opens_none b ?b1" by (auto simp: opens_none_prims split: option.split)
  moreover have "is_closing c (?b1\<lparr>br_conns := cancel_all (br_conns ?b1)\<rparr>) = is_closing c ?b1" for c
    by (cases "br_conns ?b1 c") (simp_all add: is_closing_def cancel_all_def)
  ultimately have "opens_none b (?b1\<lparr>br_conns := cancel_all (br_conns ?b1)\<rparr>)"
    by (simp add: opens_none_def)
  then show ?thesis
    using only_active_opens_none [OF assms(1)] CloseBroker by (simp add: close_broker_def Let_def)
next
  case CloseDone
  then show ?thesis
    using assms by (simp add: close_done_def only_active_def orderly_def is_closing_def)
next
  case (Tick c)
  have "opens_none b (periodic_report env c b)"
    by (simp add: periodic_report_def opens_none_report_task opens_none_update_conn split: option.split)
  then show ?thesis using only_active_opens_none [OF assms(1)] Tick by simp
next
  case (Fail c)
  have "opens_none b (on_fail c b)" by (simp add: on_fail_def opens_none_prims split: option.split)
  then show ?thesis using only_active_opens_none [OF assms(1)] Fail by simp
next
  case (Flush n)
  have "opens_none b (flush_frame n b)" by (simp add: flush_frame_def opens_none_prims split: prod.split)
  then show ?thesis using only_active_opens_none [OF assms(1)] Flush by simp
next
  case Push
  have "opens_none b (push_report_now env b)"
    by (simp add: push_report_now_def opens_none_report_task split: option.split)
  then show ?thesis using only_active_opens_none [OF assms(1)] Push by simp
next
  case FinishTimer
  have "opens_none b (finish_timer b)" by (simp add: finish_timer_def split: option.split)
  then show ?thesis using only_active_opens_none [OF assms(1)] FinishTimer by simp
qed (use only_active_opens_none [OF assms(1) opens_none_on_packet] in simp)

fun orderly_run :: "broker_env \<Rightarrow> broker \<Rightarrow> event list \<Rightarrow> bool" where
  "orderly_run env b [] = True"
| "orderly_run env b (ev # evs) = (orderly b ev \<and> orderly_run env (broker_step env b ev) evs)"

lemma only_active_run: "only_active b \<Longrightarrow> orderly_run env b evs \<Longrightarrow> only_active (broker_run env b evs)"
  by (induction evs arbitrary: b) (auto simp: broker_run_def only_active_step)

section \<open>Properties\<close>

text \<open>
  C4: Every print command the broker hands over belongs to a connection that logged in, and
  carries exactly the member whose access code that connection presented.\<close>
theorem intent_member_logged_in:
  assumes "(c, i) \<in> set (br_intents (broker_run env (new_broker serial auth) evs))"
  shows "logged_in env (new_broker serial auth) evs c (pi_member i)"
  using sessions_ok_run [of env serial auth evs "[]"] assms by (auto simp: sessions_ok_def)

text \<open>
  A connection that has not logged in receives nothing but CONNACK packets.\<close>
theorem nothing_before_login:
  assumes "(c, bs) \<in> set (br_out (broker_run env (new_broker serial auth) evs))"
  shows "(\<exists>rc. bs = build_connack rc) \<or> (\<exists>m. logged_in env (new_broker serial auth) evs c m)"
proof -
  let ?b = "broker_run env (new_broker serial auth) evs"
  have ok: "sessions_ok (logged_in env (new_broker serial auth) evs) ?b"
    using sessions_ok_run [of env serial auth evs "[]"] by simp
  then have "(\<exists>rc. bs = build_connack rc) \<or> session_of c ?b \<noteq> None"
    using assms unfolding sessions_ok_def by blast
  then show ?thesis using sessions_ok_member [OF ok] by blast
qed

text \<open>
  Once a connection's writer is closed, as when a newer client displaces it, no further frame
  is written to it and no further print command is taken from it, whatever happens next.\<close>
theorem closed_connection_silent:
  assumes "gone c b"
  shows "gone c (broker_run env b evs) \<and> sent c (broker_run env b evs) = sent c b"
  using silent_run [of c b env evs] assms by (simp add: silent_def)

text \<open>
  At every moment at most one connection is open, the active one: accepting a client closes
  the previous one.\<close>
theorem one_client_at_a_time:
  assumes "orderly_run env (new_broker serial auth) evs"
    and "\<not> is_closing c (broker_run env (new_broker serial auth) evs)"
    and "\<not> is_closing c' (broker_run env (new_broker serial auth) evs)"
  shows "c = c' \<and> br_active_writer (broker_run env (new_broker serial auth) evs) = Some c"
proof -
  have "only_active (new_broker serial auth)"
    by (simp add: only_active_def new_broker_def is_closing_def)
  from only_active_run [OF this assms(1)] show ?thesis
    using assms(2,3) unfolding only_active_def by (metis option.inject)
qed

section \<open>A concrete session\<close>

definition demo_env :: broker_env where
  "demo_env = \<lparr>be_sha = (\<lambda>s. s),
     be_loads = (\<lambda>s. Some (PDict [(''print'', PDict [(''command'', PStr ''project_file''), (''file'', PStr ''a.3mf'')])])),
     be_dumps = (\<lambda>v. ''{}''), be_rep = (\<lambda>v. ''?''), be_report = (\<lambda>n s f p. PNone),
     be_version = (\<lambda>q. PNone), be_ack = (\<lambda>q f. PNone)\<rparr>"

definition demo_broker :: broker where
  "demo_broker = new_broker ''S'' \<lparr>as_members = [\<lparr>mem_hash = ''12345678'', mem_id = ''m1''\<rparr>], as_limiter = default_limiter\<rparr>"

definition demo_connect :: "byte list" where
  "demo_connect = [0, 4] @ utf8_encode ''MQTT'' @ [4, 0xC2, 0, 60, 0, 0, 0, 4] @ utf8_encode ''bblp''
     @ [0, 8] @ utf8_encode ''12345678''"

definition demo_publish :: "byte list" where
  "demo_publish = [0, 16] @ utf8_encode ''device/S/request'' @ [123, 125]"

definition demo_events :: "event list" where
  "demo_events = [Accept 1 None, Packet 1 0 0x10 demo_connect, Resume 1, Resume 1, Resume 1,
     Packet 1 1 0x30 demo_publish, Resume 1, Resume 1]"

lemma demo_parse_connect:
  "parse_connect demo_connect = Inr \<lparr>cp_protocol_name = ''MQTT'', cp_protocol_level = 4, cp_flags = 0xC2,
     cp_keep_alive = 60, cp_client_id = [], cp_username = Some ''bblp'', cp_password = Some ''12345678'',
     cp_clean_session = True\<rparr>"
  by code_simp

lemma demo_parse_publish:
  "parse_publish 0x30 demo_publish = Inr \<lparr>pp_topic = ''device/S/request'', pp_payload = [123, 125], pp_qos = 0,
     pp_packet_id = None, pp_retain = False, pp_dup = False\<rparr>"
  by code_simp

lemma demo_topic: "is_request_topic ''device/S/request''"
  by code_simp

lemma demo_auth:
  "fst (auth_connect demo_env (br_auth demo_broker) \<lparr>cp_protocol_name = ''MQTT'', cp_protocol_level = 4,
     cp_flags = 0xC2, cp_keep_alive = 60, cp_client_id = [], cp_username = Some ''bblp'',
     cp_password = Some ''12345678'', cp_clean_session = True\<rparr> None 0) = (0, Some ''m1'')"
  by code_simp

definition demo_frame :: "byte list" where
  "demo_frame = projr (build_publish ''device/S/report'' (utf8_encode ''{}'') 0 None)"

lemma demo_frame: "build_publish ''device/S/report'' (utf8_encode ''{}'') 0 None = Inr demo_frame"
proof -
  have "valid_str ''device/S/report''" by (rule valid_str_ascii) simp
  then have "publish_ok (''device/S/report'', utf8_encode ''{}'', None)"
    by (simp add: publish_ok_def publish_body_def MAX_MQTT_PACKET_BYTES_def)
  from build_publish_eq [OF this] show ?thesis
    by (simp add: demo_frame_def publish_qos_def)
qed

definition demo_intent :: project_intent where
  "demo_intent = the (parse_project_file_command
     (PDict [(''print'', PDict [(''command'', PStr ''project_file''), (''file'', PStr ''a.3mf'')])]) ''m1'')"

lemma demo_intent: "parse_project_file_command
     (PDict [(''print'', PDict [(''command'', PStr ''project_file''), (''file'', PStr ''a.3mf'')])]) ''m1'' = Some demo_intent"
proof -
  have "\<not> Option.is_none (parse_project_file_command
     (PDict [(''print'', PDict [(''command'', PStr ''project_file''), (''file'', PStr ''a.3mf'')])]) ''m1'')"
    by code_simp
  then show ?thesis by (simp add: demo_intent_def Option.is_none_def)
qed

lemmas demo_facts = demo_parse_connect demo_parse_publish demo_topic demo_frame demo_intent

lemmas broker_defs = accept_def displace_def new_conn_def on_packet_def on_connect_packet_def on_session_packet_def
  handle_publish_def dispatch_publish_def on_resume_def start_session_def send_report_def next_report_def
  message_frame_def queue_frame_def run_cont_def send_print_ack_def set_print_state_def schedule_finish_def
  reset_print_state_def update_conn_def set_phase_def is_closing_def session_of_def write_frame_def
  session_is_active_def go_closing_def close_writer_def

lemma demo_login:
  "\<exists>b. broker_run demo_env demo_broker [Accept 1 None, Packet 1 0 0x10 demo_connect] = b \<and>
     br_out b = [(1, build_connack 0)] \<and> br_serial b = ''S'' \<and> br_active_session b = None \<and> br_intents b = [] \<and>
     br_conns b 1 = Some \<lparr>mc_phase = ConnackSent 60 0 (Some ''m1''), mc_ip = None, mc_session = None,
       mc_periodic = False, mc_timeout = 45, mc_closing = False\<rparr>"
proof -
  obtain auth where "auth_connect demo_env (br_auth demo_broker) \<lparr>cp_protocol_name = ''MQTT'', cp_protocol_level = 4,
     cp_flags = 0xC2, cp_keep_alive = 60, cp_client_id = [], cp_username = Some ''bblp'',
     cp_password = Some ''12345678'', cp_clean_session = True\<rparr> None 0 = ((0, Some ''m1''), auth)"
    using demo_auth by (metis fst_conv surj_pair)
  then show ?thesis
    by (simp add: broker_run_def broker_defs demo_broker_def new_broker_def demo_facts)
qed

lemma demo_capture:
  assumes "br_serial b = ''S''" and "br_active_session b = None" and "br_intents b = []"
    and "br_conns b 1 = Some \<lparr>mc_phase = ConnackSent 60 0 (Some ''m1''), mc_ip = None, mc_session = None,
       mc_periodic = False, mc_timeout = 45, mc_closing = False\<rparr>"
  shows "(1, demo_frame) \<in> set (br_out (broker_run demo_env b [Resume 1, Resume 1]))"
    and "br_intents (broker_run demo_env b [Resume 1, Resume 1, Resume 1, Packet 1 1 0x30 demo_publish, Resume 1, Resume 1])
    = [(1, demo_intent)]"
  using assms
  by (simp_all add: broker_run_def broker_defs demo_facts json_or_none_def is_pushall_def is_get_version_def
      is_project_file_def demo_env_def pget_def get_or_def Let_def)

lemma demo_broker_new: "demo_broker = new_broker ''S'' (br_auth demo_broker)"
  by (simp add: demo_broker_def new_broker_def)

lemma broker_run_append: "broker_run env b (xs @ ys) = broker_run env (broker_run env b xs) ys"
  by (simp add: broker_run_def)

lemma demo_run_intents: "br_intents (broker_run demo_env demo_broker demo_events) = [(1, demo_intent)]"
proof -
  have e: "demo_events = [Accept 1 None, Packet 1 0 0x10 demo_connect] @
      [Resume 1, Resume 1, Resume 1, Packet 1 1 0x30 demo_publish, Resume 1, Resume 1]"
    by (simp add: demo_events_def)
  show ?thesis unfolding e broker_run_append using demo_login demo_capture(2) by metis
qed

lemma demo_run_out: "(1, demo_frame) \<in> set (br_out (broker_run demo_env demo_broker
  ([Accept 1 None, Packet 1 0 0x10 demo_connect] @ [Resume 1, Resume 1])))"
  unfolding broker_run_append using demo_login demo_capture(1) by metis

lemma intent_member_logged_in_witness:
  "logged_in demo_env demo_broker demo_events 1 (pi_member demo_intent)"
proof -
  have "(1, demo_intent) \<in> set (br_intents (broker_run demo_env (new_broker ''S'' (br_auth demo_broker)) demo_events))"
    using demo_run_intents demo_broker_new by simp
  from intent_member_logged_in [OF this] show ?thesis using demo_broker_new by simp
qed

lemma nothing_before_login_witness:
  "(\<exists>rc. demo_frame = build_connack rc) \<or> (\<exists>m. logged_in demo_env demo_broker
     ([Accept 1 None, Packet 1 0 0x10 demo_connect] @ [Resume 1, Resume 1]) 1 m)"
  using nothing_before_login [of 1 demo_frame demo_env "''S''" "br_auth demo_broker"] demo_run_out demo_broker_new
  by metis

lemma closed_connection_silent_witness:
  "gone 1 (broker_run demo_env demo_broker ([Accept 1 None, Accept 2 None] @ [Resume 1, Fail 1])) \<and>
   sent 1 (broker_run demo_env demo_broker ([Accept 1 None, Accept 2 None] @ [Resume 1, Fail 1])) =
   sent 1 (broker_run demo_env demo_broker [Accept 1 None, Accept 2 None])"
proof -
  have "gone 1 (broker_run demo_env demo_broker [Accept 1 None, Accept 2 None])"
    by (simp add: broker_run_def broker_defs demo_broker_def new_broker_def gone_def)
  from closed_connection_silent [OF this, of demo_env "[Resume 1, Fail 1]"] show ?thesis
    by (simp add: broker_run_def)
qed

lemma one_client_at_a_time_witness:
  "br_active_writer (broker_run demo_env demo_broker [Accept 1 None, Accept 2 None]) = Some 2"
proof -
  have run: "orderly_run demo_env (new_broker ''S'' (br_auth demo_broker)) [Accept 1 None, Accept 2 None]"
    by (simp add: orderly_def)
  have "\<not> is_closing 2 (broker_run demo_env (new_broker ''S'' (br_auth demo_broker)) [Accept 1 None, Accept 2 None])"
    by (simp add: broker_run_def broker_defs new_broker_def)
  from one_client_at_a_time [OF run this this] show ?thesis using demo_broker_new by simp
qed

end
