(* ===== verification/Outbox.thy ===== *)
theory Outbox
  imports Capture
begin

text \<open>
  \<open>makeros_hub/vprinter/outbox.py\<close>: the durable copy of every captured job, one JSON file per
  submission uid. A file's content is its JSON value, \<open>None\<close> for text that \<open>json.load\<close> refuses; the
  directory is an association list from file names. \<open>persist\<close> is also given as the list of its
  file system steps, so that a crash between two of them can be stated. Parameters: the text Python
  prints for a value and \<open>datetime.fromisoformat\<close> followed by \<open>isoformat\<close>; \<open>oe_reads\<close> tells which files
  can be opened and read and \<open>oe_moves\<close> which can be renamed, the others raise an \<open>OSError\<close>. Creating the directory
  itself succeeds.
\<close>

record outbox_env =
  oe_rep :: "pyval \<Rightarrow> string"
  oe_iso :: "string \<Rightarrow> string option"
  oe_now :: string
  oe_new_uid :: string
  oe_reads :: "string \<Rightarrow> bool"
  oe_moves :: "string \<Rightarrow> bool"

section \<open>Records\<close>

definition uid_char :: "char \<Rightarrow> bool" where
  "uid_char c = (let n = (of_char c :: nat) in
     (65 \<le> n \<and> n \<le> 90) \<or> (97 \<le> n \<and> n \<le> 122) \<or> (48 \<le> n \<and> n \<le> 57) \<or> n = 95 \<or> n = 45)"

definition validate_submission_uid :: "string \<Rightarrow> string result" where
  "validate_submission_uid uid =
     (if uid \<noteq> [] \<and> list_all uid_char uid then Inr uid
      else Inl (ValueError ''invalid virtual printer submission uid''))"

definition record_fields :: "captured_job \<Rightarrow> string \<Rightarrow> (string \<times> pyval) list" where
  "record_fields job uid =
     [(''record_version'', PInt 1),
      (''member_id'', PStr (cj_member job)),
      (''filename'', PStr (cj_filename job)),
      (''file_path'', PStr (cj_path job)),
      (''sha256'', PStr (cj_sha256 job)),
      (''size'', PInt (cj_size job)),
      (''ams_mapping'', cj_ams_mapping job),
      (''use_ams'', PBool (cj_use_ams job)),
      (''required_filaments'', PList (cj_filaments job)),
      (''submitted_at'', PStr (cj_submitted_at job)),
      (''submission_uid'', PStr uid),
      (''plate'', (case cj_plate job of None \<Rightarrow> PNone | Some p \<Rightarrow> PInt p)),
      (''attempts'', PInt (cj_attempts job))]"

definition to_record :: "captured_job \<Rightarrow> pyval result" where
  "to_record job = res_bind (validate_submission_uid (cj_uid job)) (\<lambda>uid. Inr (PDict (record_fields job uid)))"

fun field :: "(string \<times> pyval) list \<Rightarrow> string list \<Rightarrow> pyval \<Rightarrow> pyval" where
  "field d [] def = def"
| "field d (n # ns) def = (case map_of d n of Some v \<Rightarrow> v | None \<Rightarrow> field d ns def)"

definition str_field :: "outbox_env \<Rightarrow> (string \<times> pyval) list \<Rightarrow> string list \<Rightarrow> pyval \<Rightarrow> string option" where
  "str_field env d names def = (let v = field d names def
     in if v = PNone then None else Some (py_str (oe_rep env) v))"

definition int_field :: "(string \<times> pyval) list \<Rightarrow> string list \<Rightarrow> int \<Rightarrow> int" where
  "int_field d names def = (case py_int (field d names (PInt def)) of Some i \<Rightarrow> i | None \<Rightarrow> def)"

definition optional_int_field :: "(string \<times> pyval) list \<Rightarrow> string list \<Rightarrow> int option" where
  "optional_int_field d names = (let v = field d names PNone
     in if v = PNone \<or> v = PStr [] then None else py_int v)"

definition bool_field :: "(string \<times> pyval) list \<Rightarrow> string list \<Rightarrow> bool \<Rightarrow> bool" where
  "bool_field d names def = (case field d names (PBool def) of
      PBool b \<Rightarrow> b
    | PStr s \<Rightarrow> lower (strip s) \<in> set [''1'', ''true'', ''yes'', ''on'']
    | PInt i \<Rightarrow> i \<noteq> 0
    | PFloat r \<Rightarrow> r \<noteq> 0
    | _ \<Rightarrow> def)"

definition list_field :: "(string \<times> pyval) list \<Rightarrow> string list \<Rightarrow> pyval list" where
  "list_field d names = (case field d names (PList []) of PList xs \<Rightarrow> xs | _ \<Rightarrow> [])"

definition datetime_field :: "outbox_env \<Rightarrow> (string \<times> pyval) list \<Rightarrow> string list \<Rightarrow> string" where
  "datetime_field env d names = (case field d names PNone of
      PStr s \<Rightarrow> (let t = (if endswith ''Z'' s then take (length s - 1) s @ ''+00:00'' else s)
                in (case oe_iso env t of Some x \<Rightarrow> x | None \<Rightarrow> oe_now env))
    | _ \<Rightarrow> oe_now env)"

definition or_empty :: "string option \<Rightarrow> string" where
  "or_empty s = (case s of None \<Rightarrow> [] | Some t \<Rightarrow> t)"

definition from_record :: "outbox_env \<Rightarrow> pyval \<Rightarrow> captured_job result" where
  "from_record env rcd = (case rcd of
      PDict d \<Rightarrow>
        res_bind (case str_field env d [''submission_uid'', ''submissionUid'', ''hubSubmissionUid''] PNone of
            None \<Rightarrow> Inr (oe_new_uid env)
          | Some u \<Rightarrow> validate_submission_uid u) (\<lambda>uid.
        Inr \<lparr>cj_member = or_empty (str_field env d [''member_id'', ''memberId''] (PStr [])),
          cj_filename = or_empty (str_field env d [''filename'', ''fileName''] (PStr [])),
          cj_path = or_empty (str_field env d
            [''file_path'', ''filePath'', ''filename'', ''fileName''] (PStr [])),
          cj_sha256 = or_empty (str_field env d [''sha256'', ''file_sha256'', ''fileSha256''] (PStr [])),
          cj_size = int_field d [''size'', ''file_size'', ''fileSizeBytes''] 0,
          cj_ams_mapping = field d [''ams_mapping'', ''amsMapping''] (PList []),
          cj_use_ams = bool_field d [''use_ams'', ''useAms''] False,
          cj_filaments = list_field d [''required_filaments'', ''requiredFilaments''],
          cj_submitted_at = datetime_field env d [''submitted_at'', ''submittedAt''],
          cj_uid = uid,
          cj_plate = optional_int_field d [''plate''],
          cj_attempts = max 0 (int_field d [''attempts''] 0)\<rparr>)
    | _ \<Rightarrow> Inl (ValueError ''virtual printer outbox record must be a JSON object''))"

section \<open>The directory\<close>

type_synonym outbox = "(string, pyval option) odict"

definition file_for :: "string \<Rightarrow> string" where
  "file_for uid = uid @ ''.json''"

definition tmp_for :: "string \<Rightarrow> string" where
  "tmp_for uid = ''.'' @ uid @ ''.json.tmp''"

text \<open>The suffix-less name of a \<open>.json\<close> file (\<open>Path.stem\<close>).\<close>

definition stem :: "string \<Rightarrow> string" where
  "stem name = (if name = ''.json'' then name else take (length name - 5) name)"

datatype fs_step =
    WriteFile string "pyval option"
  | ReplaceFile string string

fun fs_apply :: "outbox \<Rightarrow> fs_step \<Rightarrow> outbox" where
  "fs_apply d (WriteFile name content) = AList.update name content d"
| "fs_apply d (ReplaceFile src dst) = (case map_of d src of
      None \<Rightarrow> d | Some content \<Rightarrow> AList.update dst content (AList.delete src d))"

text \<open>A text that is only partly written is no JSON value.\<close>

definition persist_steps :: "captured_job \<Rightarrow> fs_step list result" where
  "persist_steps job = res_bind (to_record job) (\<lambda>rcd.
     res_bind (validate_submission_uid (cj_uid job)) (\<lambda>uid.
       Inr [WriteFile (tmp_for uid) None, WriteFile (tmp_for uid) (Some rcd),
            ReplaceFile (tmp_for uid) (file_for uid)]))"

definition persist :: "captured_job \<Rightarrow> outbox \<Rightarrow> outbox result" where
  "persist job d = res_bind (persist_steps job) (\<lambda>steps. Inr (foldl fs_apply d steps))"

definition remove_job :: "string \<Rightarrow> outbox \<Rightarrow> outbox result" where
  "remove_job submission_uid d = res_bind (validate_submission_uid submission_uid) (\<lambda>uid.
     Inr (AList.delete (file_for uid) d))"

text \<open>What the text of a file amounts to, whatever its file system does.\<close>

definition read_record :: "outbox_env \<Rightarrow> string \<Rightarrow> pyval option \<Rightarrow> captured_job result" where
  "read_record env uid content = (case content of
      None \<Rightarrow> Inl (ValueError ''JSONDecodeError'')
    | Some v \<Rightarrow>
        (let rcd = (case v of
             PDict d \<Rightarrow> if map_of d ''submission_uid'' = None then PDict (d @ [(''submission_uid'', PStr uid)]) else v
           | _ \<Rightarrow> v)
         in res_bind (from_record env rcd) (\<lambda>job.
              if cj_uid job \<noteq> uid then Inl (ValueError ''submission uid does not match outbox filename'')
              else Inr job)))"

definition load_file :: "outbox_env \<Rightarrow> string \<Rightarrow> pyval option \<Rightarrow> captured_job result" where
  "load_file env name content = res_bind (validate_submission_uid (stem name)) (\<lambda>uid.
     if \<not> oe_reads env name then Inl OSErr else read_record env uid content)"

definition quarantine :: "outbox_env \<Rightarrow> string \<Rightarrow> outbox \<Rightarrow> outbox" where
  "quarantine env name d = (if oe_moves env name then fs_apply d (ReplaceFile name (name @ ''.corrupt'')) else d)"

fun load_loop :: "outbox_env \<Rightarrow> string list \<Rightarrow> outbox \<Rightarrow> captured_job list \<times> outbox" where
  "load_loop env [] d = ([], d)"
| "load_loop env (name # ns) d =
     (case load_file env name (get_or d name None) of
        Inl e \<Rightarrow> load_loop env ns (quarantine env name d)
      | Inr job \<Rightarrow> (let (jobs, d') = load_loop env ns d in (job # jobs, d')))"

definition json_files :: "outbox \<Rightarrow> string list" where
  "json_files d = sort (List.filter (endswith ''.json'') (keys d))"

definition load_all :: "outbox_env \<Rightarrow> outbox \<Rightarrow> captured_job list \<times> outbox" where
  "load_all env d = load_loop env (json_files d) d"

section \<open>The contract of a durable store\<close>

text \<open>
  What the submission worker relies on: a stored job is found under its uid, removing a uid affects
  no other, and neither operation fails on a well-formed job.
\<close>

locale durable_store =
  fixes good :: "'j \<Rightarrow> bool"
    and uid :: "'j \<Rightarrow> 'u"
    and put :: "'j \<Rightarrow> 's \<Rightarrow> 'e + 's"
    and del :: "'u \<Rightarrow> 's \<Rightarrow> 'e + 's"
    and get :: "'s \<Rightarrow> 'u \<Rightarrow> 'j option"
  assumes put_get: "good j \<Longrightarrow> \<exists>s'. put j s = Inr s' \<and> (\<forall>u. get s' u = (if u = uid j then Some j else get s u))"
    and del_get: "good j \<Longrightarrow> \<exists>s'. del (uid j) s = Inr s' \<and> (\<forall>u. get s' u = (if u = uid j then None else get s u))"
begin

fun put_all :: "'j list \<Rightarrow> 's \<Rightarrow> 'e + 's" where
  "put_all [] s = Inr s"
| "put_all (j # js) s = res_bind (put j s) (put_all js)"

lemma put_all_get:
  "list_all good js \<Longrightarrow> \<exists>s'. put_all js s = Inr s' \<and>
     (\<forall>u. get s' u = (case List.find (\<lambda>j. uid j = u) (rev js) of None \<Rightarrow> get s u | Some j \<Rightarrow> Some j))"
proof (induction js arbitrary: s)
  case (Cons j js)
  then obtain s1 where s1: "put j s = Inr s1" "\<forall>u. get s1 u = (if u = uid j then Some j else get s u)"
    using put_get [of j s] by auto
  from Cons obtain s2 where s2: "put_all js s1 = Inr s2"
    "\<forall>u. get s2 u = (case List.find (\<lambda>j. uid j = u) (rev js) of None \<Rightarrow> get s1 u | Some j \<Rightarrow> Some j)"
    by fastforce
  have "List.find (\<lambda>j. uid j = u) (xs @ [j]) = (case List.find (\<lambda>j. uid j = u) xs of
      None \<Rightarrow> if uid j = u then Some j else None | Some x \<Rightarrow> Some x)" for u xs
    by (induction xs) auto
  then show ?case using s1 s2 by (auto split: option.splits)
qed simp

lemma put_del: "good j \<Longrightarrow> \<exists>s1 s2. put j s = Inr s1 \<and> del (uid j) s1 = Inr s2 \<and> get s2 = (get s)(uid j := None)"
  using put_get [of j s] del_get [of j] by (metis (no_types, lifting) fun_upd_apply ext)

end

section \<open>Names and round trip\<close>

lemma validate_uid_ok: "validate_submission_uid u = Inr v \<longleftrightarrow> v = u \<and> u \<noteq> [] \<and> list_all uid_char u"
  by (auto simp: validate_submission_uid_def)

lemma uid_char_not_dot: "\<not> uid_char (CHR ''.'')" "\<not> uid_char (CHR ''/'')"
  by (simp_all add: uid_char_def)

lemma file_for_inj [simp]: "file_for u = file_for v \<longleftrightarrow> u = v"
  by (simp add: file_for_def)

lemma stem_file_for: "u \<noteq> [] \<Longrightarrow> stem (file_for u) = u"
  by (simp add: stem_def file_for_def)

lemma file_for_json: "endswith ''.json'' (file_for u)"
  by (simp add: endswith_def file_for_def)

lemma tmp_not_json: "\<not> endswith ''.json'' (tmp_for u)"
  by (simp add: endswith_def tmp_for_def)

lemma corrupt_not_json: "\<not> endswith ''.json'' (name @ ''.corrupt'')"
  by (simp add: endswith_def)

lemma tmp_neq_file [simp]: "tmp_for u \<noteq> file_for v" "file_for v \<noteq> tmp_for u"
  using tmp_not_json file_for_json by metis+

lemma json_stem: "endswith ''.json'' name \<Longrightarrow> name \<noteq> ''.json'' \<Longrightarrow> name = file_for (stem name)"
  using append_take_drop_id [of "length name - 5" name, symmetric]
  by (simp add: endswith_def stem_def file_for_def numeral_eq_Suc)

definition good_job :: "outbox_env \<Rightarrow> captured_job \<Rightarrow> bool" where
  "good_job env job \<longleftrightarrow> validate_submission_uid (cj_uid job) = Inr (cj_uid job) \<and> 0 \<le> cj_attempts job \<and>
     \<not> endswith ''Z'' (cj_submitted_at job) \<and> oe_iso env (cj_submitted_at job) = Some (cj_submitted_at job)"

lemma record_fields_get:
  "map_of (record_fields job uid) ''member_id'' = Some (PStr (cj_member job))"
  "map_of (record_fields job uid) ''filename'' = Some (PStr (cj_filename job))"
  "map_of (record_fields job uid) ''file_path'' = Some (PStr (cj_path job))"
  "map_of (record_fields job uid) ''sha256'' = Some (PStr (cj_sha256 job))"
  "map_of (record_fields job uid) ''size'' = Some (PInt (cj_size job))"
  "map_of (record_fields job uid) ''ams_mapping'' = Some (cj_ams_mapping job)"
  "map_of (record_fields job uid) ''use_ams'' = Some (PBool (cj_use_ams job))"
  "map_of (record_fields job uid) ''required_filaments'' = Some (PList (cj_filaments job))"
  "map_of (record_fields job uid) ''submitted_at'' = Some (PStr (cj_submitted_at job))"
  "map_of (record_fields job uid) ''submission_uid'' = Some (PStr uid)"
  "map_of (record_fields job uid) ''plate'' = Some (case cj_plate job of None \<Rightarrow> PNone | Some p \<Rightarrow> PInt p)"
  "map_of (record_fields job uid) ''attempts'' = Some (PInt (cj_attempts job))"
  by (simp_all add: record_fields_def)

lemma from_record_fields:
  "good_job env job \<Longrightarrow> from_record env (PDict (record_fields job (cj_uid job))) = Inr job"
  by (cases "cj_plate job")
     (simp_all add: from_record_def record_fields_get str_field_def or_empty_def int_field_def
       bool_field_def list_field_def datetime_field_def optional_int_field_def good_job_def Let_def)

lemma to_record_good: "good_job env job \<Longrightarrow> to_record job = Inr (PDict (record_fields job (cj_uid job)))"
  by (simp add: to_record_def good_job_def)

section \<open>The store\<close>

text \<open>The job stored under a uid: what \<open>load_all\<close> makes of its file when it can read it.\<close>

definition record_job :: "outbox_env \<Rightarrow> string \<Rightarrow> pyval option \<Rightarrow> captured_job result" where
  "record_job env name content = res_bind (validate_submission_uid (stem name)) (\<lambda>uid. read_record env uid content)"

lemma load_file_reads: "oe_reads env name \<Longrightarrow> load_file env name content = record_job env name content"
  by (simp add: load_file_def record_job_def)

lemma load_file_Inr: "load_file env name content = Inr job \<longleftrightarrow> oe_reads env name \<and> record_job env name content = Inr job"
  by (auto simp: load_file_def record_job_def res_bind_eq_Inr split: if_splits)

definition stored :: "outbox_env \<Rightarrow> outbox \<Rightarrow> string \<Rightarrow> captured_job option" where
  "stored env d uid = (case map_of d (file_for uid) of
      None \<Rightarrow> None
    | Some content \<Rightarrow> (case record_job env (file_for uid) content of Inl e \<Rightarrow> None | Inr job \<Rightarrow> Some job))"

lemma record_job_good:
  assumes "good_job env job"
  shows "record_job env (file_for (cj_uid job)) (Some (PDict (record_fields job (cj_uid job)))) = Inr job"
proof -
  have v: "validate_submission_uid (cj_uid job) = Inr (cj_uid job)" using assms by (simp add: good_job_def)
  then have "cj_uid job \<noteq> []" by (simp add: validate_uid_ok)
  then show ?thesis
    using v assms by (simp add: record_job_def read_record_def Let_def from_record_fields record_fields_get stem_file_for)
qed

lemma persist_good:
  assumes "good_job env job"
  shows "\<exists>d'. persist job d = Inr d' \<and> map_of d' = (map_of d)(tmp_for (cj_uid job) := None,
     file_for (cj_uid job) \<mapsto> Some (PDict (record_fields job (cj_uid job))))"
proof -
  have "validate_submission_uid (cj_uid job) = Inr (cj_uid job)" using assms by (simp add: good_job_def)
  then show ?thesis
    using assms by (auto simp: persist_def persist_steps_def to_record_good map_of_update map_of_delete fun_eq_iff)
qed

lemma stored_persist:
  assumes "good_job env job"
  shows "\<exists>d'. persist job d = Inr d' \<and> (\<forall>u. stored env d' u = (if u = cj_uid job then Some job else stored env d u))"
proof -
  obtain d' where d': "persist job d = Inr d'" "map_of d' = (map_of d)(tmp_for (cj_uid job) := None,
     file_for (cj_uid job) \<mapsto> Some (PDict (record_fields job (cj_uid job))))"
    using persist_good [OF assms] by blast
  then show ?thesis
    using record_job_good [OF assms] by (auto simp: stored_def)
qed

lemma stored_remove:
  assumes "good_job env job"
  shows "\<exists>d'. remove_job (cj_uid job) d = Inr d' \<and> (\<forall>u. stored env d' u = (if u = cj_uid job then None else stored env d u))"
  using assms by (auto simp: remove_job_def stored_def good_job_def map_of_delete)

interpretation store: durable_store "good_job env" cj_uid persist remove_job "stored env"
  by unfold_locales (use stored_persist stored_remove in blast)+

definition loadable :: "outbox_env \<Rightarrow> outbox \<Rightarrow> string \<Rightarrow> captured_job option" where
  "loadable env d name = (case load_file env name (get_or d name None) of Inl e \<Rightarrow> None | Inr job \<Rightarrow> Some job)"

lemma map_of_quarantine:
  "n \<noteq> name \<Longrightarrow> n \<noteq> name @ ''.corrupt'' \<Longrightarrow> map_of (quarantine env name d) n = map_of d n"
  by (simp add: quarantine_def map_of_update map_of_delete split: option.split)

lemma load_loop_jobs:
  "distinct ns \<Longrightarrow> \<forall>n\<in>set ns. endswith ''.json'' n \<Longrightarrow>
   fst (load_loop env ns d) = List.map_filter (loadable env d) ns"
proof (induction env ns d rule: load_loop.induct)
  case (2 env name ns d)
  have same: "List.map_filter (loadable env (quarantine env name d)) ns = List.map_filter (loadable env d) ns"
  proof -
    have "loadable env (quarantine env name d) n = loadable env d n" if "n \<in> set ns" for n
    proof -
      have "n \<noteq> name" "n \<noteq> name @ ''.corrupt''"
        using "2.prems" that corrupt_not_json [of name] by auto
      then show ?thesis by (simp add: loadable_def get_or_def map_of_quarantine)
    qed
    then show ?thesis by (simp add: List.map_filter_def cong: filter_cong map_cong)
  qed
  show ?case
  proof (cases "load_file env name (get_or d name None)")
    case (Inl e)
    then have "loadable env d name = None" by (simp add: loadable_def)
    then show ?thesis using 2 same Inl by (simp add: List.map_filter_simps)
  next
    case (Inr job)
    then have "loadable env d name = Some job" by (simp add: loadable_def)
    then show ?thesis using 2 Inr by (simp add: List.map_filter_simps case_prod_beta)
  qed
qed (simp add: List.map_filter_simps)

lemma load_all_jobs:
  "wf_dict d \<Longrightarrow> fst (load_all env d) = List.map_filter (loadable env d) (json_files d)"
  unfolding load_all_def by (rule load_loop_jobs) (auto simp: json_files_def wf_dict_def)

lemma loadable_stored:
  assumes "\<forall>n. oe_reads env n"
  shows "set (List.map_filter (loadable env d) (json_files d)) = ran (stored env d)"
proof -
  have "loadable env d n = Some job \<and> endswith ''.json'' n \<and> n \<in> set (keys d) \<longleftrightarrow>
      n = file_for (stem n) \<and> stored env d (stem n) = Some job" for n job
  proof (cases "n = ''.json''")
    case True
    have "\<not> uid_char (CHR ''.'')" by (simp add: uid_char_def)
    then have "load_file env n c = Inl (ValueError ''invalid virtual printer submission uid'')" for c
      by (simp add: True load_file_def stem_def validate_submission_uid_def)
    moreover have "n \<noteq> file_for (stem n)" by (simp add: True file_for_def stem_def)
    ultimately show ?thesis by (simp add: loadable_def)
  next
    case False
    then show ?thesis
      using json_stem [of n] file_for_json [of "stem n"]
      by (auto simp: loadable_def stored_def get_or_def set_keys load_file_reads [OF assms [rule_format]] split: option.splits sum.splits)
  qed
  note iff = this
  have none: "stored env d [] = None"
    by (auto simp: stored_def record_job_def file_for_def stem_def validate_submission_uid_def uid_char_def
        split: option.split)
  show ?thesis
  proof (intro set_eqI iffI)
    fix job assume "job \<in> set (List.map_filter (loadable env d) (json_files d))"
    then show "job \<in> ran (stored env d)"
      using iff by (fastforce simp: List.map_filter_def json_files_def ran_def)
  next
    fix job assume "job \<in> ran (stored env d)"
    then obtain u where u: "stored env d u = Some job" by (auto simp: ran_def)
    then have "stem (file_for u) = u" using none by (cases u) (auto simp: stem_file_for)
    with u iff [of "file_for u" job] have "loadable env d (file_for u) = Some job" "file_for u \<in> set (json_files d)"
      by (simp_all add: json_files_def)
    then show "job \<in> set (List.map_filter (loadable env d) (json_files d))"
      by (force simp: List.map_filter_def)
  qed
qed

lemma load_all_stored: "\<forall>n. oe_reads env n \<Longrightarrow> wf_dict d \<Longrightarrow> set (fst (load_all env d)) = ran (stored env d)"
  by (simp add: load_all_jobs loadable_stored)

lemma stored_uid: "stored env d u = Some job \<Longrightarrow> cj_uid job = u"
proof -
  assume s: "stored env d u = Some job"
  have "stored env d [] = None"
    by (auto simp: stored_def record_job_def file_for_def stem_def validate_submission_uid_def uid_char_def
        split: option.split)
  then have "u \<noteq> []" using s by auto
  with s show ?thesis
    by (auto simp: stored_def record_job_def read_record_def stem_file_for res_bind_eq_Inr Let_def validate_uid_ok
        split: option.splits sum.splits if_splits)
qed

lemma wf_persist: "wf_dict d \<Longrightarrow> persist job d = Inr d' \<Longrightarrow> wf_dict d'"
  by (auto simp: persist_def persist_steps_def res_bind_eq_Inr wf_dict_update wf_dict_delete split: option.splits)

lemma json_files_tmp: "json_files (AList.update (tmp_for u) c d) = json_files d"
  by (simp add: json_files_def keys_update tmp_not_json)

lemma load_all_tmp:
  assumes "wf_dict d"
  shows "fst (load_all env (AList.update (tmp_for u) c d)) = fst (load_all env d)"
proof -
  have "loadable env (AList.update (tmp_for u) c d) n = loadable env d n" if "n \<in> set (json_files d)" for n
  proof -
    have "n \<noteq> tmp_for u" using that tmp_not_json [of u] by (auto simp: json_files_def)
    then show ?thesis by (simp add: loadable_def get_or_def map_of_update)
  qed
  then show ?thesis
    using assms
    by (simp add: load_all_jobs wf_dict_update json_files_tmp List.map_filter_def cong: filter_cong map_cong)
qed

section \<open>Properties of the outbox\<close>

text \<open>A well-formed captured job survives the JSON record: reading the record that was written
  for it gives back every field.\<close>
theorem outbox_record_roundtrip:
  assumes "good_job env job"
  shows "\<exists>rcd. to_record job = Inr rcd \<and> from_record env rcd = Inr job"
  using to_record_good [OF assms] from_record_fields [OF assms] by blast

text \<open>
  When its files can be read: after \<open>persist\<close>, a restart loads the job, in its new version only, together with every
  other job that was stored; after \<open>remove\<close> it loads exactly the others.\<close>
theorem outbox_persist_remove_load:
  assumes "wf_dict d" and "good_job env job" and "\<forall>n. oe_reads env n"
  shows "\<exists>d1 d2. persist job d = Inr d1 \<and> remove_job (cj_uid job) d1 = Inr d2 \<and>
    set (fst (load_all env d1)) = insert job {j \<in> set (fst (load_all env d)). cj_uid j \<noteq> cj_uid job} \<and>
    set (fst (load_all env d2)) = {j \<in> set (fst (load_all env d)). cj_uid j \<noteq> cj_uid job}"
proof -
  obtain d1 where d1: "persist job d = Inr d1"
      "\<forall>u. stored env d1 u = (if u = cj_uid job then Some job else stored env d u)"
    using store.put_get [OF assms(2)] by blast
  obtain d2 where d2: "remove_job (cj_uid job) d1 = Inr d2"
      "\<forall>u. stored env d2 u = (if u = cj_uid job then None else stored env d1 u)"
    using store.del_get [OF assms(2)] by blast
  have wf: "wf_dict d1" "wf_dict d2"
    using wf_persist [OF assms(1) d1(1)] d2(1)
    by (auto simp: remove_job_def res_bind_eq_Inr wf_dict_delete)
  have "ran (stored env d1) = insert job {j \<in> ran (stored env d). cj_uid j \<noteq> cj_uid job}"
    using d1(2) by (auto simp: ran_def dest: stored_uid split: if_splits)
  moreover have "ran (stored env d2) = {j \<in> ran (stored env d). cj_uid j \<noteq> cj_uid job}"
    using d1(2) d2(2) by (auto simp: ran_def dest: stored_uid split: if_splits)
  ultimately show ?thesis
    using d1(1) d2(1) assms(1,3) wf by (auto simp: load_all_stored)
qed

text \<open>
  C9: A crash at any point of \<open>persist\<close> leaves a directory from which a restart loads either
  exactly the jobs stored before or exactly those stored afterwards.\<close>
theorem outbox_persist_crash_atomic:
  assumes "wf_dict d" and "persist_steps job = Inr steps"
  shows "fst (load_all env (foldl fs_apply d (take n steps))) \<in>
    {fst (load_all env d), fst (load_all env (foldl fs_apply d steps))}"
proof -
  let ?t = "tmp_for (cj_uid job)"
  obtain rcd where steps: "steps = [WriteFile ?t None, WriteFile ?t (Some rcd), ReplaceFile ?t (file_for (cj_uid job))]"
    using assms(2) by (auto simp: persist_steps_def res_bind_eq_Inr validate_uid_ok)
  consider "n = 0" | "n = 1" | "n = 2" | "length steps \<le> n" using steps by fastforce
  then show ?thesis
    by cases (simp_all add: steps load_all_tmp assms(1) wf_dict_update numeral_2_eq_2)
qed

definition example_outbox_env :: outbox_env where
  "example_outbox_env = \<lparr>oe_rep = (\<lambda>v. []), oe_iso = Some, oe_now = ''now'', oe_new_uid = ''u0'',
     oe_reads = (\<lambda>_. True), oe_moves = (\<lambda>_. True)\<rparr>"

definition example_job :: captured_job where
  "example_job = \<lparr>cj_member = ''m1'', cj_filename = ''a.3mf'', cj_path = ''/spool/a.3mf'', cj_sha256 = ''ff'',
     cj_size = 9, cj_ams_mapping = PList [PInt 0], cj_use_ams = True, cj_filaments = [],
     cj_submitted_at = ''2026-01-01T00:00:00+00:00'', cj_uid = ''u-1'', cj_plate = Some 2, cj_attempts = 0\<rparr>"

lemma example_job_good: "good_job example_outbox_env example_job"
  by (simp add: good_job_def example_job_def example_outbox_env_def validate_uid_ok uid_char_def endswith_def)

lemma outbox_record_roundtrip_witness:
  "\<exists>rcd. to_record example_job = Inr rcd \<and> from_record example_outbox_env rcd = Inr example_job"
  by (rule outbox_record_roundtrip [OF example_job_good])

lemma outbox_persist_remove_load_witness:
  "\<exists>d1. persist example_job [] = Inr d1 \<and> set (fst (load_all example_outbox_env d1)) = {example_job}"
  using outbox_persist_remove_load [OF wf_dict_Nil example_job_good] by (auto simp: load_all_def json_files_def example_outbox_env_def)

lemma outbox_persist_crash_atomic_witness:
  "\<exists>steps. persist_steps example_job = Inr steps \<and>
     fst (load_all example_outbox_env (foldl fs_apply [] (take 2 steps))) \<in>
       {fst (load_all example_outbox_env []), fst (load_all example_outbox_env (foldl fs_apply [] steps))}"
proof -
  have "\<exists>steps. persist_steps example_job = Inr steps"
    using to_record_good [OF example_job_good] example_job_good [unfolded good_job_def]
    by (simp add: persist_steps_def)
  then show ?thesis using outbox_persist_crash_atomic [OF wf_dict_Nil] by blast
qed

end
