(* ===== verification/Submissions.thy ===== *)
theory Submissions
  imports Outbox "HOL-Library.Multiset"
begin

text \<open>
  The submission worker of \<open>makeros_hub/agent.py\<close>: the bounded in-memory queue of captured jobs, the
  capture handler that persists, stages and enqueues a job, the per-heartbeat drain that posts jobs
  to the cloud, and the queue status reports. What one round of the drain meets is an explicit
  \<open>turn\<close>: the clock, the outcome of the POST and whether the file system accepts a write. Jobs that
  were posted are logged in \<open>sq_posted\<close>, as the source logs them.
\<close>

text \<open>What a POST comes back with: the failure of the transport that the callers catch, an answer, or an exception the
  transport lets through and no caller catches by name.\<close>

datatype response =
    Transport
  | Response int "(string \<times> pyval) list"
  | Escapes

section \<open>The queue\<close>

definition VP_SUBMISSION_QUEUE_MAX :: nat where
  "VP_SUBMISSION_QUEUE_MAX = 256"

definition VP_SUBMISSION_MAX_ATTEMPTS :: int where
  "VP_SUBMISSION_MAX_ATTEMPTS = 10"

definition VP_DRAIN_BUDGET_SEC :: real where
  "VP_DRAIN_BUDGET_SEC = 8"

definition deadletter_statuses :: "int list" where
  "deadletter_statuses = [400, 413, 422]"

text \<open>\<open>queue.Queue\<close> with \<open>put_nowait\<close>; a size of 0 means no bound. The counter is \<open>_makeros_dropped\<close>.\<close>

definition queue_full :: "nat \<Rightarrow> 'a list \<Rightarrow> bool" where
  "queue_full cap q \<longleftrightarrow> 0 < cap \<and> cap \<le> length q"

definition enqueue :: "nat \<Rightarrow> 'a \<Rightarrow> 'a list \<times> nat \<Rightarrow> 'a list \<times> nat" where
  "enqueue cap job st = (let (q, dropped) = st in
     if \<not> queue_full cap q then (q @ [job], dropped)
     else (let d1 = dropped + 1; q1 = tl q
           in if \<not> queue_full cap q1 then (q1 @ [job], d1) else (q1, d1 + 1)))"

definition remember_recent :: "int \<Rightarrow> string \<Rightarrow> (string, unit) odict \<Rightarrow> (string, unit) odict" where
  "remember_recent limit uid recent =
     trim_oldest (nat (max 1 limit)) (move_to_end uid (AList.update uid () recent))"

definition validate_spool_filename :: "string \<Rightarrow> string result" where
  "validate_spool_filename filename =
     (if filename = [] \<or> filename \<in> set [''.'', ''..''] \<or> filename \<noteq> basename filename \<or>
         CHR ''/'' \<in> set filename \<or> CHR 0x5C \<in> set filename
      then Inl (ValueError ''invalid virtual printer spool filename'') else Inr filename)"

section \<open>State of the worker\<close>

record submissions =
  sq_jobs :: "captured_job list"
  sq_dropped :: nat
  sq_outbox :: outbox
  sq_recent :: "(string, unit) odict"
  sq_spool :: "(string \<times> string, string) odict"
  sq_posted :: "(captured_job \<times> response) list"

definition enqueue_job :: "captured_job \<Rightarrow> submissions \<Rightarrow> submissions" where
  "enqueue_job job s = (let (q, d) = enqueue VP_SUBMISSION_QUEUE_MAX job (sq_jobs s, sq_dropped s)
     in s\<lparr>sq_jobs := q, sq_dropped := d\<rparr>)"

text \<open>\<open>io = False\<close>: the file system refuses the write with an \<open>OSError\<close>.\<close>

definition outbox_persist :: "bool \<Rightarrow> captured_job \<Rightarrow> submissions \<Rightarrow> submissions result" where
  "outbox_persist io job s = res_bind (to_record job) (\<lambda>_.
     if \<not> io then Inl OSErr else res_bind (persist job (sq_outbox s)) (\<lambda>d. Inr (s\<lparr>sq_outbox := d\<rparr>)))"

definition outbox_remove :: "bool \<Rightarrow> string \<Rightarrow> submissions \<Rightarrow> submissions result" where
  "outbox_remove io uid s = res_bind (validate_submission_uid uid) (\<lambda>_.
     if \<not> io then Inl OSErr else res_bind (remove_job uid (sq_outbox s)) (\<lambda>d. Inr (s\<lparr>sq_outbox := d\<rparr>)))"

definition stage_spool_file :: "bool \<Rightarrow> captured_job \<Rightarrow> submissions \<Rightarrow> (bool \<times> submissions) result" where
  "stage_spool_file io job s =
     res_bind (validate_submission_uid (cj_uid job)) (\<lambda>uid.
     res_bind (validate_spool_filename (cj_filename job)) (\<lambda>filename.
       if map_of (sq_spool s) (uid, filename) \<noteq> None then Inr (False, s)
       else if \<not> io then Inl OSErr
       else Inr (True, s\<lparr>sq_spool := AList.update (uid, filename) (cj_path job) (sq_spool s)\<rparr>)))"

text \<open>\<open>on_capture\<close>: a failing persist or staging is logged, the job is queued in any case.\<close>

definition on_capture :: "bool \<Rightarrow> bool \<Rightarrow> captured_job \<Rightarrow> submissions \<Rightarrow> submissions" where
  "on_capture io_outbox io_spool job s =
     (let s1 = (case outbox_persist io_outbox job s of Inl e \<Rightarrow> s | Inr s' \<Rightarrow> s');
          s2 = s1\<lparr>sq_recent := remember_recent 64 (cj_uid job) (sq_recent s1)\<rparr>;
          s3 = (case stage_spool_file io_spool job s2 of Inl e \<Rightarrow> s2 | Inr (staged, s') \<Rightarrow> s')
      in enqueue_job job s3)"

definition rehydrate :: "outbox_env \<Rightarrow> submissions \<Rightarrow> nat \<times> submissions" where
  "rehydrate env s = (let (jobs, d) = load_all env (sq_outbox s)
     in (length jobs, fold enqueue_job jobs (s\<lparr>sq_outbox := d\<rparr>)))"

definition drop_submissions :: "int option \<Rightarrow> submissions \<Rightarrow> nat \<times> submissions" where
  "drop_submissions max_jobs s =
     (let n = (case max_jobs of None \<Rightarrow> length (sq_jobs s) | Some m \<Rightarrow> min (nat (max 0 m)) (length (sq_jobs s)))
      in (n, s\<lparr>sq_jobs := drop n (sq_jobs s)\<rparr>))"

section \<open>The drain\<close>

record turn =
  tn_elapsed :: real
  tn_response :: response
  tn_io :: bool

definition retry_or_deadletter :: "bool \<Rightarrow> int \<Rightarrow> captured_job \<Rightarrow> submissions \<Rightarrow> submissions result" where
  "retry_or_deadletter io max_attempts job s =
     (let attempts = cj_attempts job + 1
      in if max 1 max_attempts \<le> attempts then outbox_remove io (cj_uid job) s
         else (let retried = job\<lparr>cj_attempts := attempts\<rparr>
               in res_bind (outbox_persist io retried s) (\<lambda>s'. Inr (enqueue_job retried s'))))"

text \<open>What is done with the answer to one POST: whether it counts as submitted, and the new state.\<close>

definition settle :: "bool \<Rightarrow> response \<Rightarrow> captured_job \<Rightarrow> submissions \<Rightarrow> (nat \<times> submissions) result" where
  "settle io resp job s = (case resp of
      Escapes \<Rightarrow> Inl IncompleteRead
    | Transport \<Rightarrow> res_bind (retry_or_deadletter io VP_SUBMISSION_MAX_ATTEMPTS job s) (\<lambda>s'. Inr (0, s'))
    | Response status body \<Rightarrow>
        if status = 200 \<and> pget body ''ok'' = PBool True then
          res_bind (outbox_remove io (cj_uid job) s) (\<lambda>s'. Inr (1, s'))
        else if status = 200 \<and> pget body ''ok'' = PBool False then
          res_bind (outbox_remove io (cj_uid job) s) (\<lambda>s'. Inr (0, s'))
        else if status \<in> set deadletter_statuses then
          res_bind (outbox_remove io (cj_uid job) s) (\<lambda>s'. Inr (0, s'))
        else if status = 401 \<or> status = 403 then Inr (0, enqueue_job job s)
        else res_bind (retry_or_deadletter io VP_SUBMISSION_MAX_ATTEMPTS job s) (\<lambda>s'. Inr (0, s')))"

text \<open>
  The loop of \<open>_drain_vprinter_submissions\<close>, one \<open>turn\<close> per round. It ends early when the budget
  is used up or the queue is empty; an exception leaves the loop with the job already taken.
\<close>

fun drain_loop :: "nat \<Rightarrow> turn list \<Rightarrow> nat \<Rightarrow> submissions \<Rightarrow> nat result \<times> submissions" where
  "drain_loop 0 turns submitted s = (Inr submitted, s)"
| "drain_loop (Suc n) [] submitted s = (Inr submitted, s)"
| "drain_loop (Suc n) (t # ts) submitted s =
     (if VP_DRAIN_BUDGET_SEC < tn_elapsed t then (Inr submitted, s)
      else (case sq_jobs s of
          [] \<Rightarrow> (Inr submitted, s)
        | job # q \<Rightarrow>
            (let s1 = s\<lparr>sq_jobs := q, sq_posted := sq_posted s @ [(job, tn_response t)]\<rparr>
             in (case settle (tn_io t) (tn_response t) job s1 of
                   Inl e \<Rightarrow> (Inl e, s1)
                 | Inr (k, s2) \<Rightarrow> drain_loop n ts (submitted + k) s2))))"

definition drain_submissions ::
  "string option \<Rightarrow> int \<Rightarrow> turn list \<Rightarrow> submissions \<Rightarrow> nat result \<times> submissions" where
  "drain_submissions model max_jobs turns s =
     (if model = None \<or> model = Some [] then (Inr 0, snd (drop_submissions None s))
      else drain_loop (min (nat (max 0 max_jobs)) (length (sq_jobs s))) turns 0 s)"

section \<open>Queue status reports\<close>

datatype report_result = Sent | Retry | Drop | Escaped

definition status_body :: "(string \<times> pyval) list \<Rightarrow> (string \<times> pyval) list" where
  "status_body r =
     [(''queueJobId'', pget r ''queueJobId''), (''state'', pget r ''state'')] @
     (if truthy (pget r ''printerJobKey'') then [(''printerJobKey'', pget r ''printerJobKey'')] else []) @
     (if truthy (pget r ''reason'') then [(''reason'', pget r ''reason'')] else []) @
     (if truthy (pget r ''objects'') then [(''objects'', pget r ''objects'')] else [])"

definition report_status :: "((string \<times> pyval) list \<Rightarrow> response) \<Rightarrow> (string \<times> pyval) list \<Rightarrow> report_result" where
  "report_status post r = (case post (status_body r) of
      Transport \<Rightarrow> Retry
    | Escapes \<Rightarrow> Escaped
    | Response status body \<Rightarrow>
        if 200 \<le> status \<and> status < 300 then Sent
        else if 400 \<le> status \<and> status < 500 then Drop
        else Retry)"

text \<open>\<open>None\<close>: the reporter raised, and the exception leaves the function.\<close>

fun flush_reports :: "('r \<Rightarrow> report_result) \<Rightarrow> 'r list \<Rightarrow> 'r list option" where
  "flush_reports reporter [] = Some []"
| "flush_reports reporter (r # rs) =
     (let res = reporter r
      in if res = Escaped then None
         else if res = Sent then flush_reports reporter rs
         else if res = Drop then flush_reports reporter rs
         else Some (r # rs))"

text \<open>\<open>None\<close>: the exception is not the one that is caught.\<close>

definition cloud_submit :: "response \<Rightarrow> (string \<times> pyval) list option" where
  "cloud_submit resp = (case resp of
      Escapes \<Rightarrow> None
    | Transport \<Rightarrow> Some [(''status'', PStr ''error''), (''detail'', PStr ''transport'')]
    | Response status body \<Rightarrow> Some (
        if status = 200 then
          (if truthy (pget body ''ok'') then [(''status'', PStr ''queued''), (''jobId'', pget body ''jobId'')]
           else [(''status'', PStr ''rejected''), (''reason'', get_or body ''reason'' (PStr ''rejected''))])
        else if status = 401 then [(''status'', PStr ''bad_token'')]
        else [(''status'', PStr ''error''), (''detail'', PStr (''http_'' @ int_str status))]))"

section \<open>The bounded queue\<close>

lemma queue_cap_pos: "0 < VP_SUBMISSION_QUEUE_MAX"
  by (simp add: VP_SUBMISSION_QUEUE_MAX_def)

lemma enqueue_items:
  "length (fst st) \<le> VP_SUBMISSION_QUEUE_MAX \<Longrightarrow>
   fst (enqueue VP_SUBMISSION_QUEUE_MAX job st) =
     drop (length (fst st) + 1 - VP_SUBMISSION_QUEUE_MAX) (fst st @ [job])"
proof -
  assume le: "length (fst st) \<le> VP_SUBMISSION_QUEUE_MAX"
  obtain q d where st: "st = (q, d)" by (cases st)
  show ?thesis
  proof (cases "length q < VP_SUBMISSION_QUEUE_MAX")
    case True
    then show ?thesis by (simp add: st enqueue_def queue_full_def)
  next
    case False
    then have "length q = VP_SUBMISSION_QUEUE_MAX" using le st by simp
    then show ?thesis
      using queue_cap_pos by (cases q) (auto simp: st enqueue_def queue_full_def Let_def)
  qed
qed

interpretation subq: bounded_fifo fst "enqueue VP_SUBMISSION_QUEUE_MAX" VP_SUBMISSION_QUEUE_MAX
  by unfold_locales (rule queue_cap_pos, rule enqueue_items)

lemma enqueue_room: "length q < VP_SUBMISSION_QUEUE_MAX \<Longrightarrow> enqueue VP_SUBMISSION_QUEUE_MAX job (q, d) = (q @ [job], d)"
  by (simp add: enqueue_def queue_full_def)

lemma enqueue_count:
  "length (fst st) \<le> VP_SUBMISSION_QUEUE_MAX \<Longrightarrow>
   length (fst (enqueue VP_SUBMISSION_QUEUE_MAX job st)) + snd (enqueue VP_SUBMISSION_QUEUE_MAX job st) =
     Suc (length (fst st) + snd st)"
  using queue_cap_pos by (cases st; cases "fst st") (auto simp: enqueue_def queue_full_def Let_def)

lemma fold_enqueue_count:
  "length (fst st) \<le> VP_SUBMISSION_QUEUE_MAX \<Longrightarrow>
   length (fst (fold (enqueue VP_SUBMISSION_QUEUE_MAX) jobs st)) + snd (fold (enqueue VP_SUBMISSION_QUEUE_MAX) jobs st) =
     length jobs + (length (fst st) + snd st)"
proof (induction jobs arbitrary: st)
  case (Cons j js)
  then show ?case using enqueue_count [of st j] subq.add_bounded [of st j] by simp
qed simp

lemma enqueue_job_room:
  "length (sq_jobs s) < VP_SUBMISSION_QUEUE_MAX \<Longrightarrow> enqueue_job job s = s\<lparr>sq_jobs := sq_jobs s @ [job]\<rparr>"
  by (simp add: enqueue_job_def enqueue_room)

lemma sq_jobs_enqueue: "sq_jobs (enqueue_job job s) = fst (enqueue VP_SUBMISSION_QUEUE_MAX job (sq_jobs s, 0))"
  by (simp add: enqueue_job_def enqueue_def Let_def)

lemma enqueue_job_simps [simp]:
  "sq_outbox (enqueue_job job s) = sq_outbox s" "sq_posted (enqueue_job job s) = sq_posted s"
  by (simp_all add: enqueue_job_def case_prod_beta)

section \<open>Which jobs leave the outbox\<close>

text \<open>The answers of the cloud that settle a job for good: accepted, rejected, or refused as malformed.\<close>

definition final_answer :: "response \<Rightarrow> bool" where
  "final_answer resp = (case resp of
      Response status body \<Rightarrow> (status = 200 \<and> pget body ''ok'' \<in> {PBool True, PBool False}) \<or> status \<in> set deadletter_statuses
    | _ \<Rightarrow> False)"

text \<open>The outcomes that count as a failed attempt. A credential outage (401, 403) is none, and neither is an exception that leaves the drain.\<close>

definition failed_attempt :: "response \<Rightarrow> bool" where
  "failed_attempt resp = (case resp of
      Transport \<Rightarrow> True
    | Response status body \<Rightarrow> \<not> final_answer resp \<and> status \<noteq> 401 \<and> status \<noteq> 403
    | Escapes \<Rightarrow> False)"

text \<open>After these the job is dropped: a final answer, or the tenth failed attempt.\<close>

definition terminal :: "captured_job \<Rightarrow> response \<Rightarrow> bool" where
  "terminal job resp \<longleftrightarrow> final_answer resp \<or> failed_attempt resp \<and> VP_SUBMISSION_MAX_ATTEMPTS \<le> cj_attempts job + 1"

lemmas terminal_simps = terminal_def final_answer_def failed_attempt_def

definition good_id :: "captured_job \<Rightarrow> bool" where
  "good_id job \<longleftrightarrow> validate_submission_uid (cj_uid job) = Inr (cj_uid job)"

lemma good_job_attempts: "good_job env job \<Longrightarrow> good_job env (job\<lparr>cj_attempts := cj_attempts job + 1\<rparr>)"
  by (simp add: good_job_def)

lemma good_job_id: "good_job env job \<Longrightarrow> good_id job"
  by (simp add: good_job_def good_id_def)

lemma outbox_remove_Inr:
  "good_job env job \<Longrightarrow> outbox_remove io (cj_uid job) s = Inr s' \<Longrightarrow>
   sq_jobs s' = sq_jobs s \<and> sq_posted s' = sq_posted s \<and>
   stored env (sq_outbox s') = (stored env (sq_outbox s))(cj_uid job := None)"
  using store.del_get [of env job "sq_outbox s"]
  by (auto simp: outbox_remove_def res_bind_eq_Inr fun_eq_iff split: if_splits)

lemma outbox_persist_Inr:
  "good_job env job \<Longrightarrow> outbox_persist io job s = Inr s' \<Longrightarrow>
   sq_jobs s' = sq_jobs s \<and> sq_posted s' = sq_posted s \<and>
   stored env (sq_outbox s') = (stored env (sq_outbox s))(cj_uid job \<mapsto> job)"
  using store.put_get [of env job "sq_outbox s"]
  by (auto simp: outbox_persist_def res_bind_eq_Inr fun_eq_iff split: if_splits)

lemma outbox_ok:
  "good_job env job \<Longrightarrow> \<exists>s'. outbox_remove True (cj_uid job) s = Inr s'"
  "good_job env job \<Longrightarrow> \<exists>s'. outbox_persist True job s = Inr s'"
  using store.del_get [of env job "sq_outbox s"] store.put_get [of env job "sq_outbox s"] to_record_good [of env job]
  by (auto simp: outbox_remove_def outbox_persist_def good_job_def)

lemma retry_Inr:
  assumes "good_job env job" and "retry_or_deadletter io VP_SUBMISSION_MAX_ATTEMPTS job s = Inr s'"
  shows "sq_posted s' = sq_posted s \<and>
    (if VP_SUBMISSION_MAX_ATTEMPTS \<le> cj_attempts job + 1
     then sq_jobs s' = sq_jobs s \<and> stored env (sq_outbox s') = (stored env (sq_outbox s))(cj_uid job := None)
     else sq_jobs s' = sq_jobs (enqueue_job (job\<lparr>cj_attempts := cj_attempts job + 1\<rparr>) s) \<and>
       stored env (sq_outbox s') =
         (stored env (sq_outbox s))(cj_uid job \<mapsto> job\<lparr>cj_attempts := cj_attempts job + 1\<rparr>))"
proof (cases "VP_SUBMISSION_MAX_ATTEMPTS \<le> cj_attempts job + 1")
  case True
  then show ?thesis
    using assms outbox_remove_Inr by (simp add: retry_or_deadletter_def VP_SUBMISSION_MAX_ATTEMPTS_def)
next
  case False
  let ?j = "job\<lparr>cj_attempts := cj_attempts job + 1\<rparr>"
  from False assms(2) obtain s1 where s1: "outbox_persist io ?j s = Inr s1" "s' = enqueue_job ?j s1"
    by (auto simp: retry_or_deadletter_def VP_SUBMISSION_MAX_ATTEMPTS_def res_bind_eq_Inr Let_def)
  with outbox_persist_Inr [OF good_job_attempts [OF assms(1)] s1(1)] False show ?thesis
    by (simp add: sq_jobs_enqueue)
qed

lemma settle_Inr:
  assumes "good_job env job" and "settle io resp job s = Inr (k, s')"
  shows "sq_posted s' = sq_posted s \<and>
    (if terminal job resp
     then sq_jobs s' = sq_jobs s \<and> stored env (sq_outbox s') = (stored env (sq_outbox s))(cj_uid job := None)
     else (\<exists>a. (a = cj_attempts job \<or> a = cj_attempts job + 1) \<and>
       sq_jobs s' = sq_jobs (enqueue_job (job\<lparr>cj_attempts := a\<rparr>) s) \<and>
       (stored env (sq_outbox s') = stored env (sq_outbox s) \<or>
        stored env (sq_outbox s') = (stored env (sq_outbox s))(cj_uid job \<mapsto> job\<lparr>cj_attempts := a\<rparr>))))"
proof (cases resp)
  case Transport
  then show ?thesis
    using assms retry_Inr [OF assms(1)] by (auto simp: settle_def res_bind_eq_Inr terminal_simps split: if_splits)
next
  case Escapes
  then show ?thesis using assms(2) by (simp add: settle_def)
next
  case (Response status body)
  show ?thesis
  proof (cases "(status = 200 \<and> pget body ''ok'' \<in> {PBool True, PBool False}) \<or> status \<in> set deadletter_statuses")
    case True
    then have "outbox_remove io (cj_uid job) s = Inr s'"
      using assms(2) by (auto simp: settle_def Response res_bind_eq_Inr deadletter_statuses_def split: if_splits)
    moreover have "terminal job resp" using True by (auto simp: terminal_simps Response)
    ultimately show ?thesis
      using outbox_remove_Inr [OF assms(1)] by simp
  next
    case False
    show ?thesis
    proof (cases "status = 401 \<or> status = 403")
      case True
      with False assms(2) have "s' = enqueue_job job s"
        by (auto simp: settle_def Response split: if_splits)
      then show ?thesis
        using True False by (auto simp: terminal_simps Response intro!: exI [of _ "cj_attempts job"])
    next
      case other: False
      with False assms(2) have "retry_or_deadletter io VP_SUBMISSION_MAX_ATTEMPTS job s = Inr s'"
        by (auto simp: settle_def Response res_bind_eq_Inr split: if_splits)
      from retry_Inr [OF assms(1) this] show ?thesis
        using other False by (auto simp: terminal_simps Response split: if_splits)
    qed
  qed
qed

lemma settle_ok: "good_job env job \<Longrightarrow> resp \<noteq> Escapes \<Longrightarrow> \<exists>k s'. settle True resp job s = Inr (k, s')"
proof -
  assume good: "good_job env job" and resp: "resp \<noteq> Escapes"
  have "\<exists>s'. retry_or_deadletter True VP_SUBMISSION_MAX_ATTEMPTS job s = Inr s'"
    using outbox_ok(1) [OF good, of s] outbox_ok(2) [OF good_job_attempts [OF good], of s]
    by (auto simp: retry_or_deadletter_def Let_def)
  then show ?thesis
    using outbox_ok(1) [OF good, of s] resp by (auto simp: settle_def split: response.split)
qed

text \<open>One round of the drain: the head job is posted and settled, the queue stays within its bound.\<close>

lemma drain_round:
  assumes "sq_jobs s = job # q" and "list_all (good_job env) (sq_jobs s)"
    and "length (sq_jobs s) \<le> VP_SUBMISSION_QUEUE_MAX"
    and "settle io resp job (s\<lparr>sq_jobs := q, sq_posted := sq_posted s @ [(job, resp)]\<rparr>) = Inr (k, s')"
  obtains (settled) "terminal job resp" "sq_jobs s' = q" "sq_posted s' = sq_posted s @ [(job, resp)]"
      "stored env (sq_outbox s') = (stored env (sq_outbox s))(cj_uid job := None)"
  | (kept) a where "\<not> terminal job resp" "cj_attempts job \<le> a" "a \<le> cj_attempts job + 1"
      "sq_jobs s' = q @ [job\<lparr>cj_attempts := a\<rparr>]"
      "sq_posted s' = sq_posted s @ [(job, resp)]" "good_job env (job\<lparr>cj_attempts := a\<rparr>)"
      "stored env (sq_outbox s') = stored env (sq_outbox s) \<or>
       stored env (sq_outbox s') = (stored env (sq_outbox s))(cj_uid job \<mapsto> job\<lparr>cj_attempts := a\<rparr>)"
proof -
  let ?s1 = "s\<lparr>sq_jobs := q, sq_posted := sq_posted s @ [(job, resp)]\<rparr>"
  have good: "good_job env job" using assms(1,2) by simp
  have room: "length (sq_jobs ?s1) < VP_SUBMISSION_QUEUE_MAX" using assms(1,3) by simp
  have jobs: "sq_jobs (enqueue_job j ?s1) = q @ [j]" for j
    using enqueue_job_room [OF room, of j] by simp
  note set = settle_Inr [OF good assms(4)]
  show thesis
  proof (cases "terminal job resp")
    case True
    with set show ?thesis by (intro settled) simp_all
  next
    case False
    with set jobs obtain a where a: "a = cj_attempts job \<or> a = cj_attempts job + 1"
      "sq_jobs s' = q @ [job\<lparr>cj_attempts := a\<rparr>]" "sq_posted s' = sq_posted s @ [(job, resp)]"
      "stored env (sq_outbox s') = stored env (sq_outbox s) \<or>
       stored env (sq_outbox s') = (stored env (sq_outbox s))(cj_uid job \<mapsto> job\<lparr>cj_attempts := a\<rparr>)"
      by (auto simp: sq_jobs_enqueue)
    moreover have "good_job env (job\<lparr>cj_attempts := a\<rparr>)"
      using a(1) good by (auto simp: good_job_def)
    ultimately show ?thesis using False by (intro kept [of a]) auto
  qed
qed

definition settled_in :: "submissions \<Rightarrow> string \<Rightarrow> bool" where
  "settled_in s u \<longleftrightarrow> (\<exists>job resp. (job, resp) \<in> set (sq_posted s) \<and> cj_uid job = u \<and> terminal job resp)"

lemma drain_loop_durable:
  assumes "list_all (good_job env) (sq_jobs s)" and "length (sq_jobs s) \<le> VP_SUBMISSION_QUEUE_MAX"
    and "stored env (sq_outbox s) u \<noteq> None \<or> settled_in s u"
  shows "stored env (sq_outbox (snd (drain_loop n ts k s))) u \<noteq> None \<or> settled_in (snd (drain_loop n ts k s)) u"
  using assms
proof (induction n ts k s rule: drain_loop.induct)
  case (3 n t ts k s)
  show ?case
  proof (cases "VP_DRAIN_BUDGET_SEC < tn_elapsed t \<or> sq_jobs s = []")
    case True
    then show ?thesis using "3.prems" by auto
  next
    case False
    then obtain job q where q: "sq_jobs s = job # q" by (cases "sq_jobs s") auto
    let ?s1 = "s\<lparr>sq_jobs := q, sq_posted := sq_posted s @ [(job, tn_response t)]\<rparr>"
    have keep: "settled_in s' u" if "settled_in s u" "sq_posted s' = sq_posted s @ xs" for s' xs
      using that by (auto simp: settled_in_def)
    show ?thesis
    proof (cases "settle (tn_io t) (tn_response t) job ?s1")
      case (Inl e)
      then show ?thesis using False q "3.prems"(3) keep [of ?s1] by auto
    next
      case (Inr r)
      obtain k' s' where r: "r = (k', s')" by (cases r)
      note IH = "3.IH" [OF _ q refl Inr [unfolded r] refl]
      have len: "length (sq_jobs s') \<le> VP_SUBMISSION_QUEUE_MAX \<and> list_all (good_job env) (sq_jobs s') \<and>
          (stored env (sq_outbox s') u \<noteq> None \<or> settled_in s' u)"
        using q "3.prems"(1,2) Inr [unfolded r]
      proof (cases rule: drain_round)
        case settled
        then show ?thesis using "3.prems" q keep [of s'] by (auto simp: settled_in_def)
      next
        case (kept a)
        then show ?thesis using "3.prems" q keep [of s'] by auto
      qed
      then show ?thesis using IH False q Inr r by simp
    qed
  qed
qed simp_all

text \<open>A job is accounted for: still queued, possibly with more attempts, or settled by a terminal answer.\<close>

definition accounted :: "captured_job \<Rightarrow> submissions \<Rightarrow> bool" where
  "accounted job s \<longleftrightarrow> (\<exists>a \<ge> cj_attempts job. job\<lparr>cj_attempts := a\<rparr> \<in> set (sq_jobs s) \<or>
     (\<exists>resp. (job\<lparr>cj_attempts := a\<rparr>, resp) \<in> set (sq_posted s) \<and> terminal (job\<lparr>cj_attempts := a\<rparr>) resp))"

lemma accounted_taken:
  assumes "accounted j s" and "sq_jobs s = job # q"
  shows "accounted j (s\<lparr>sq_jobs := q, sq_posted := sq_posted s @ [(job, resp)]\<rparr>) \<or>
    (\<exists>a \<ge> cj_attempts j. job = j\<lparr>cj_attempts := a\<rparr>)"
  using assms unfolding accounted_def by fastforce

lemma accounted_round:
  assumes "accounted j s" and "sq_jobs s = job # q" and "list_all (good_job env) (sq_jobs s)"
    and "length (sq_jobs s) \<le> VP_SUBMISSION_QUEUE_MAX"
    and "settle io resp job (s\<lparr>sq_jobs := q, sq_posted := sq_posted s @ [(job, resp)]\<rparr>) = Inr (k, s')"
  shows "accounted j s'"
proof -
  from assms(1) obtain a where a: "cj_attempts j \<le> a" "j\<lparr>cj_attempts := a\<rparr> \<in> set (sq_jobs s) \<or>
     (\<exists>resp. (j\<lparr>cj_attempts := a\<rparr>, resp) \<in> set (sq_posted s) \<and> terminal (j\<lparr>cj_attempts := a\<rparr>) resp)"
    unfolding accounted_def by blast
  from assms(2-5) show ?thesis
  proof (cases rule: drain_round)
    case settled
    then have "j\<lparr>cj_attempts := a\<rparr> \<in> set (sq_jobs s') \<or>
       (\<exists>resp. (j\<lparr>cj_attempts := a\<rparr>, resp) \<in> set (sq_posted s') \<and> terminal (j\<lparr>cj_attempts := a\<rparr>) resp)"
      using a(2) assms(2) by auto
    with a(1) show ?thesis unfolding accounted_def by blast
  next
    case (kept b)
    show ?thesis
    proof (cases "j\<lparr>cj_attempts := a\<rparr> = job")
      case True
      then have "job\<lparr>cj_attempts := b\<rparr> = j\<lparr>cj_attempts := b\<rparr>" "a = cj_attempts job" by auto
      with kept a(1) have "j\<lparr>cj_attempts := b\<rparr> \<in> set (sq_jobs s')" "cj_attempts j \<le> b" by auto
      then show ?thesis unfolding accounted_def by blast
    next
      case False
      then have "j\<lparr>cj_attempts := a\<rparr> \<in> set (sq_jobs s') \<or>
         (\<exists>resp. (j\<lparr>cj_attempts := a\<rparr>, resp) \<in> set (sq_posted s') \<and> terminal (j\<lparr>cj_attempts := a\<rparr>) resp)"
        using a(2) assms(2) kept by auto
      with a(1) show ?thesis unfolding accounted_def by blast
    qed
  qed
qed

text \<open>The drain was left by an exception, with the job posted last taken from the queue.\<close>

definition escaped_with :: "captured_job \<Rightarrow> submissions \<Rightarrow> bool" where
  "escaped_with job s \<longleftrightarrow> (\<exists>a \<ge> cj_attempts job. \<exists>log. sq_posted s = log @ [(job\<lparr>cj_attempts := a\<rparr>, Escapes)])"

lemma drain_loop_accounted:
  assumes "list_all (good_job env) (sq_jobs s)" and "length (sq_jobs s) \<le> VP_SUBMISSION_QUEUE_MAX"
    and "list_all tn_io ts" and "accounted j s"
  shows "let (r, s') = drain_loop n ts k s in
    (accounted j s' \<or> isl r \<and> escaped_with j s') \<and> (isl r \<longrightarrow> (\<exists>job log. sq_posted s' = log @ [(job, Escapes)]))"
  using assms
proof (induction n ts k s rule: drain_loop.induct)
  case (3 n t ts k s)
  show ?case
  proof (cases "VP_DRAIN_BUDGET_SEC < tn_elapsed t \<or> sq_jobs s = []")
    case True
    then show ?thesis using "3.prems" by auto
  next
    case False
    then obtain job q where q: "sq_jobs s = job # q" by (cases "sq_jobs s") auto
    let ?s1 = "s\<lparr>sq_jobs := q, sq_posted := sq_posted s @ [(job, tn_response t)]\<rparr>"
    have io: "tn_io t = True" "list_all tn_io ts" using "3.prems"(3) by simp_all
    show ?thesis
    proof (cases "tn_response t = Escapes")
      case True
      have d: "drain_loop (Suc n) (t # ts) k s = (Inl IncompleteRead, ?s1)" using False q True by (simp add: settle_def)
      have "accounted j ?s1 \<or> escaped_with j ?s1"
        using accounted_taken [OF "3.prems"(4) q] True by (simp add: escaped_with_def)
      then show ?thesis unfolding d using True by simp
    next
      case resp: False
      obtain k' s' where r: "settle (tn_io t) (tn_response t) job ?s1 = Inr (k', s')"
        using settle_ok [of env job "tn_response t" ?s1] "3.prems"(1) q io(1) resp by auto
      note IH = "3.IH" [OF _ q refl r refl]
      have "length (sq_jobs s') \<le> VP_SUBMISSION_QUEUE_MAX \<and> list_all (good_job env) (sq_jobs s')"
        using q "3.prems"(1,2) r
      proof (cases rule: drain_round)
        case settled
        then show ?thesis using "3.prems" q by auto
      next
        case (kept a)
        then show ?thesis using "3.prems" q by auto
      qed
      moreover have "accounted j s'"
        using "3.prems"(4) q "3.prems"(1,2) r by (rule accounted_round)
      ultimately show ?thesis using IH False q r io(2) by simp
    qed
  qed
qed simp_all

definition outage :: "turn \<Rightarrow> bool" where
  "outage t \<longleftrightarrow> (\<exists>body. tn_response t = Response 401 body \<or> tn_response t = Response 403 body)"

lemma drain_loop_outage:
  assumes "list_all outage ts" and "length (sq_jobs s) \<le> VP_SUBMISSION_QUEUE_MAX"
  shows "fst (drain_loop n ts k s) = Inr k \<and> sq_outbox (snd (drain_loop n ts k s)) = sq_outbox s \<and>
    mset (sq_jobs (snd (drain_loop n ts k s))) = mset (sq_jobs s)"
  using assms
proof (induction n ts k s rule: drain_loop.induct)
  case (3 n t ts k s)
  show ?case
  proof (cases "VP_DRAIN_BUDGET_SEC < tn_elapsed t \<or> sq_jobs s = []")
    case True
    then show ?thesis by auto
  next
    case False
    then obtain job q where q: "sq_jobs s = job # q" by (cases "sq_jobs s") auto
    let ?s1 = "s\<lparr>sq_jobs := q, sq_posted := sq_posted s @ [(job, tn_response t)]\<rparr>"
    have r: "settle (tn_io t) (tn_response t) job ?s1 = Inr (0, enqueue_job job ?s1)"
      using "3.prems"(1) by (auto simp: outage_def settle_def deadletter_statuses_def)
    have e: "enqueue_job job ?s1 = ?s1\<lparr>sq_jobs := q @ [job]\<rparr>"
      using "3.prems"(2) q by (subst enqueue_job_room) simp_all
    from "3.IH" [OF _ q refl r refl] False show ?thesis
      using "3.prems" q r e by simp
  qed
qed simp_all

section \<open>Properties of the submission worker\<close>

text \<open>However many jobs are queued, the queue keeps exactly the newest 256 of them in order and
  counts every one it dropped.\<close>
theorem submission_queue_keeps_newest:
  "fst (fold (enqueue VP_SUBMISSION_QUEUE_MAX) jobs ([], 0)) = drop (length jobs - VP_SUBMISSION_QUEUE_MAX) jobs \<and>
   snd (fold (enqueue VP_SUBMISSION_QUEUE_MAX) jobs ([], 0)) = length jobs - VP_SUBMISSION_QUEUE_MAX"
  using subq.fold_add [of "([], 0)" jobs] fold_enqueue_count [of "([], 0)" jobs] by simp

text \<open>
  A job leaves the durable outbox during a drain only after the cloud answered one of its POSTs
  terminally: accepted, rejected, refused as malformed, or failed for the tenth time. This holds
  whatever the answers, the clock and the file system do.\<close>
theorem outbox_kept_until_terminal:
  assumes "list_all (good_job env) (sq_jobs s)" and "length (sq_jobs s) \<le> VP_SUBMISSION_QUEUE_MAX"
    and "sq_posted s = []" and "stored env (sq_outbox s) u \<noteq> None"
    and "stored env (sq_outbox (snd (drain_submissions model max_jobs turns s))) u = None"
  shows "\<exists>job resp. (job, resp) \<in> set (sq_posted (snd (drain_submissions model max_jobs turns s))) \<and>
    cj_uid job = u \<and> terminal job resp"
proof (cases "model = None \<or> model = Some []")
  case True
  then show ?thesis using assms by (simp add: drain_submissions_def drop_submissions_def)
next
  case False
  then obtain m where m: "model = Some m" "m \<noteq> []" by (cases model) auto
  show ?thesis
    using drain_loop_durable [OF assms(1,2) disjI1 [OF assms(4)],
        where n = "min (nat (max 0 max_jobs)) (length (sq_jobs s))" and ts = turns and k = 0] assms(5)
    by (auto simp: drain_submissions_def settled_in_def m)
qed


text \<open>
  C12: While the cloud refuses the hub's credential (401 or 403), a drain changes nothing but the
  order of the queue: no job is lost, none gains an attempt and the outbox keeps every record.\<close>
theorem credential_outage_changes_nothing:
  assumes "list_all outage turns" and "length (sq_jobs s) \<le> VP_SUBMISSION_QUEUE_MAX" and "model \<noteq> []"
  shows "fst (drain_submissions (Some model) max_jobs turns s) = Inr 0 \<and>
    sq_outbox (snd (drain_submissions (Some model) max_jobs turns s)) = sq_outbox s \<and>
    mset (sq_jobs (snd (drain_submissions (Some model) max_jobs turns s))) = mset (sq_jobs s)"
  using drain_loop_outage [OF assms(1,2)] assms(3) by (simp add: drain_submissions_def)

lemma stage_keeps: "stage_spool_file io j s = Inr (b, s') \<Longrightarrow> sq_outbox s' = sq_outbox s \<and> sq_jobs s' = sq_jobs s"
  by (auto simp: stage_spool_file_def res_bind_eq_Inr split: if_splits)

lemma persist_keeps: "outbox_persist io j s = Inr s' \<Longrightarrow> sq_jobs s' = sq_jobs s"
  by (auto simp: outbox_persist_def res_bind_eq_Inr split: if_splits)

lemma on_capture_eqs:
  obtains s1 s3 where "on_capture io_outbox io_spool job s = enqueue_job job s3"
    and "s1 = (case outbox_persist io_outbox job s of Inl e \<Rightarrow> s | Inr s' \<Rightarrow> s')"
    and "sq_outbox s3 = sq_outbox s1" and "sq_jobs s3 = sq_jobs s"
proof -
  define s1 where "s1 = (case outbox_persist io_outbox job s of Inl e \<Rightarrow> s | Inr s' \<Rightarrow> s')"
  define s2 where "s2 = s1\<lparr>sq_recent := remember_recent 64 (cj_uid job) (sq_recent s1)\<rparr>"
  define s3 where "s3 = (case stage_spool_file io_spool job s2 of Inl e \<Rightarrow> s2 | Inr (staged, s') \<Rightarrow> s')"
  have "sq_jobs s1 = sq_jobs s"
    by (cases "outbox_persist io_outbox job s") (simp_all add: s1_def persist_keeps)
  moreover have "sq_outbox s3 = sq_outbox s2 \<and> sq_jobs s3 = sq_jobs s2"
  proof (cases "stage_spool_file io_spool job s2")
    case (Inr r)
    then obtain b s' where "stage_spool_file io_spool job s2 = Inr (b, s')" by (cases r) auto
    then show ?thesis using stage_keeps by (simp add: s3_def)
  qed (simp add: s3_def)
  ultimately have "sq_outbox s3 = sq_outbox s1" "sq_jobs s3 = sq_jobs s" by (simp_all add: s2_def)
  moreover have "on_capture io_outbox io_spool job s = enqueue_job job s3"
    by (simp only: on_capture_def Let_def s1_def s2_def s3_def)
  ultimately show thesis using that s1_def by blast
qed

lemma on_capture_outbox:
  "sq_outbox (on_capture io_outbox io_spool job s) =
     (case outbox_persist io_outbox job s of Inl e \<Rightarrow> sq_outbox s | Inr s' \<Rightarrow> sq_outbox s')"
  by (rule on_capture_eqs [of io_outbox io_spool job s]) (simp split: sum.split)

lemma on_capture_jobs:
  "sq_jobs (on_capture io_outbox io_spool job s) = fst (enqueue VP_SUBMISSION_QUEUE_MAX job (sq_jobs s, 0))"
  by (rule on_capture_eqs [of io_outbox io_spool job s]) (simp add: sq_jobs_enqueue)

text \<open>A captured job always becomes the newest job of the queue, whatever the file system does;
  when the outbox can be written, it is stored there as well.\<close>
theorem captured_job_is_queued:
  assumes "length (sq_jobs s) \<le> VP_SUBMISSION_QUEUE_MAX" and "good_job env job"
  shows "last (sq_jobs (on_capture io_outbox io_spool job s)) = job \<and>
    stored env (sq_outbox (on_capture io_outbox io_spool job s)) (cj_uid job) =
      (if io_outbox then Some job else stored env (sq_outbox s) (cj_uid job))"
proof (cases io_outbox)
  case True
  obtain s' where "outbox_persist True job s = Inr s'" using outbox_ok(2) [OF assms(2)] by blast
  then show ?thesis
    using True outbox_persist_Inr [OF assms(2)] assms(1) subq.add_keeps_newest [of "(sq_jobs s, 0)" job]
    by (simp add: on_capture_jobs on_capture_outbox)
next
  case False
  then have "\<exists>e. outbox_persist io_outbox job s = Inl e"
    by (cases "to_record job") (auto simp: outbox_persist_def)
  then show ?thesis
    using False assms(1) subq.add_keeps_newest [of "(sq_jobs s, 0)" job]
    by (auto simp: on_capture_jobs on_capture_outbox)
qed

text \<open>
  A job whose outbox record could not be written is lost by the first failed POST when the
  outbox still cannot be written: the exception leaves the drain after the job was taken from the
  queue, and neither the queue nor the outbox holds it.\<close>
theorem retry_write_failure_loses_job:
  assumes "sq_jobs s = []" and "stored env (sq_outbox s) (cj_uid job) = None"
    and "cj_attempts job = 0" and "good_job env job" and "model \<noteq> []" and "1 \<le> max_jobs"
    and "tn_response t = Transport" and "tn_elapsed t = 0" and "\<not> tn_io t"
  shows "let (r, s') = drain_submissions (Some model) max_jobs (t # ts) (on_capture False io_spool job s)
    in r = Inl OSErr \<and> sq_jobs s' = [] \<and> stored env (sq_outbox s') (cj_uid job) = None"
proof -
  let ?s = "on_capture False io_spool job s"
  have jobs: "sq_jobs ?s = [job]"
    using assms(1) enqueue_room [of "[]" job 0] queue_cap_pos by (simp add: on_capture_jobs)
  have rec: "\<exists>d. to_record j = Inr d" if "good_job env j" for j using to_record_good [OF that] by blast
  have out: "stored env (sq_outbox ?s) (cj_uid job) = None"
    using assms(2) rec [OF assms(4)] by (auto simp: on_capture_outbox outbox_persist_def)
  obtain m where m: "nat (max 0 max_jobs) = Suc m" using assms(6) by (cases "nat (max 0 max_jobs)") auto
  have "settle (tn_io t) Transport job s1 = Inl OSErr" for s1
    using assms(3,9) rec [OF good_job_attempts [OF assms(4)]]
    by (auto simp: settle_def retry_or_deadletter_def VP_SUBMISSION_MAX_ATTEMPTS_def Let_def outbox_persist_def)
  then show ?thesis
    using assms(5,7,8) jobs out m by (simp add: drain_submissions_def VP_DRAIN_BUDGET_SEC_def Let_def)
qed

section \<open>Concrete runs\<close>

definition empty_worker :: submissions where
  "empty_worker = \<lparr>sq_jobs = [], sq_dropped = 0, sq_outbox = [], sq_recent = [], sq_spool = [], sq_posted = []\<rparr>"

definition one_job :: submissions where
  "one_job = on_capture True True example_job empty_worker"

definition ok_turn :: turn where
  "ok_turn = \<lparr>tn_elapsed = 0, tn_response = Response 200 [(''ok'', PBool True)], tn_io = True\<rparr>"

definition failing_turn :: turn where
  "failing_turn = \<lparr>tn_elapsed = 0, tn_response = Transport, tn_io = False\<rparr>"

lemma one_job_jobs: "sq_jobs one_job = [example_job]"
  using queue_cap_pos by (simp add: one_job_def on_capture_jobs empty_worker_def enqueue_room)

lemma one_job_posted: "sq_posted one_job = []"
  by (simp add: one_job_def on_capture_def stage_spool_file_def outbox_persist_def empty_worker_def Let_def
      res_bind_def split: sum.split)

lemma captured_job_is_queued_witness:
  "last (sq_jobs one_job) = example_job \<and>
   stored example_outbox_env (sq_outbox one_job) (cj_uid example_job) = Some example_job"
  using captured_job_is_queued [OF _ example_job_good, of empty_worker True True]
  by (simp add: one_job_def empty_worker_def)

lemma one_job_ready:
  "list_all (good_job example_outbox_env) (sq_jobs one_job)" "length (sq_jobs one_job) \<le> VP_SUBMISSION_QUEUE_MAX"
  using queue_cap_pos by (simp_all add: one_job_jobs example_job_good)

lemma one_job_stored: "stored example_outbox_env (sq_outbox one_job) (cj_uid example_job) = Some example_job"
proof -
  obtain s' where s': "outbox_persist True example_job empty_worker = Inr s'"
    using outbox_ok(2) [OF example_job_good] by blast
  then show ?thesis
    using outbox_persist_Inr [OF example_job_good s'] by (simp add: one_job_def on_capture_outbox)
qed

lemma ok_drain:
  "stored example_outbox_env (sq_outbox (snd (drain_submissions (Some ''P1S'') 16 [ok_turn] one_job))) (cj_uid example_job) = None"
proof -
  let ?s = "one_job\<lparr>sq_jobs := [], sq_posted := [(example_job, tn_response ok_turn)]\<rparr>"
  obtain s' where s': "outbox_remove True (cj_uid example_job) ?s = Inr s'"
    using outbox_ok(1) [OF example_job_good] by blast
  have "snd (drain_submissions (Some ''P1S'') 16 [ok_turn] one_job) = s'"
    using s' by (simp add: drain_submissions_def one_job_jobs one_job_posted ok_turn_def settle_def
        VP_DRAIN_BUDGET_SEC_def pget_def get_or_def Let_def)
  then show ?thesis using outbox_remove_Inr [OF example_job_good s'] by simp
qed

lemma outbox_kept_until_terminal_witness:
  "\<exists>job resp. (job, resp) \<in> set (sq_posted (snd (drain_submissions (Some ''P1S'') 16 [ok_turn] one_job))) \<and>
    cj_uid job = cj_uid example_job \<and> terminal job resp"
  using outbox_kept_until_terminal [OF one_job_ready one_job_posted _ ok_drain] one_job_stored by simp


lemma credential_outage_changes_nothing_witness:
  "mset (sq_jobs (snd (drain_submissions (Some ''P1S'') 16
     [\<lparr>tn_elapsed = 0, tn_response = Response 401 [], tn_io = False\<rparr>] one_job))) = {#example_job#}"
  using credential_outage_changes_nothing [of "[\<lparr>tn_elapsed = 0, tn_response = Response 401 [], tn_io = False\<rparr>]"
      one_job "''P1S''" 16] one_job_ready(2)
  by (simp add: outage_def one_job_jobs)

lemma retry_write_failure_loses_job_witness:
  "let (r, s') = drain_submissions (Some ''P1S'') 16 [failing_turn] (on_capture False True example_job empty_worker)
   in r = Inl OSErr \<and> sq_jobs s' = [] \<and> stored example_outbox_env (sq_outbox s') (cj_uid example_job) = None"
  by (rule retry_write_failure_loses_job)
     (simp_all add: empty_worker_def stored_def example_job_good failing_turn_def, simp add: example_job_def)

end
