(* ===== verification/Ftp.thy ===== *)
theory Ftp
  imports VpAuth Bytes Capture "HOL-Library.Multiset"
begin

text \<open>
  \<open>makeros_hub/vprinter/ftp_server.py\<close>: one FTPS control session (\<open>FtpSession\<close>) as a function on
  command lines, the transfer of one upload, the session cap of the server and the sweep of the
  upload directory. What a command meets outside the session is a \<open>ftp_input\<close>: the clock, the
  passive ports that can be bound, the fresh upload id and the connections that reach the passive
  port, each with the address of its peer: \<open>accept_data\<close> takes the first one made from the address of
  the control connection.
  Replies are appended to \<open>fs_replies\<close>; a reply that cannot be delivered ends the session and is not
  modelled. The upload directory maps file names to contents.
\<close>

record ftp_env =
  fe_ip :: string
  fe_dir :: string
  fe_passive_start :: int
  fe_passive_end :: int
  fe_max_bytes :: nat
  fe_sha :: "string \<Rightarrow> string"
  fe_digest :: "byte list \<Rightarrow> string"
  fe_pid :: string

text \<open>What the data connection delivers: chunks until the end of the stream, unless it stalls or the
  session is aborted before the next chunk.\<close>

datatype data_event = Chunk "byte list" | Stall | Abort

datatype data_conn = NoConnection | Connection "data_event list"

record ftp_input =
  fi_now :: real
  fi_port_free :: "int \<Rightarrow> bool"
  fi_upload_id :: string
  fi_data :: "(string option \<times> data_event list) list"

record ftp_session =
  fs_peer_ip :: "string option"
  fs_user :: "string option"
  fs_member :: "string option"
  fs_logged_in :: bool
  fs_passive :: "int option"
  fs_open :: bool
  fs_replies :: "string list"
  fs_auth :: auth_set
  fs_files :: "(string, byte list) odict"
  fs_stored :: "upload_record list"

definition new_session :: "string option \<Rightarrow> auth_set \<Rightarrow> (string, byte list) odict \<Rightarrow> ftp_session" where
  "new_session ip auth files = \<lparr>fs_peer_ip = ip, fs_user = None, fs_member = None, fs_logged_in = False,
     fs_passive = None, fs_open = True, fs_replies = [''220 Virtual Bambu FTPS ready''],
     fs_auth = auth, fs_files = files, fs_stored = []\<rparr>"

definition reply :: "string \<Rightarrow> ftp_session \<Rightarrow> ftp_session" where
  "reply line s = s\<lparr>fs_replies := fs_replies s @ [line]\<rparr>"

definition close_passive :: "ftp_session \<Rightarrow> ftp_session" where
  "close_passive s = s\<lparr>fs_passive := None\<rparr>"

section \<open>Names\<close>

definition safe_filename :: "string \<Rightarrow> string" where
  "safe_filename value =
     (let v = strip value; name = path_name (if v = [] then ''upload.bin'' else v);
          clean = List.map (\<lambda>c. if c = CHR ''/'' \<or> c = CHR 0x5C then CHR ''_'' else c) name
      in if clean = [] then ''upload.bin'' else clean)"

definition unique_upload_paths :: "string \<Rightarrow> string \<Rightarrow> string \<Rightarrow> string \<times> string" where
  "unique_upload_paths upload_id pid filename =
     (let stored_name = upload_id @ ''-'' @ filename
      in (stored_name, ''.'' @ stored_name @ ''.'' @ pid @ ''.part''))"

definition display_command :: "string \<Rightarrow> string \<Rightarrow> string" where
  "display_command verb arg = (if verb = ''PASS'' then ''PASS <redacted>''
     else rev (dropWhile is_space (rev (verb @ '' '' @ arg))))"

section \<open>Commands\<close>

definition cmd_user :: "string \<Rightarrow> ftp_session \<Rightarrow> ftp_session" where
  "cmd_user arg s = reply ''331 Password required'' (s\<lparr>fs_user := Some arg\<rparr>)"

definition cmd_pass :: "ftp_env \<Rightarrow> real \<Rightarrow> string \<Rightarrow> ftp_session \<Rightarrow> ftp_session" where
  "cmd_pass env now arg s =
     (if fs_user s \<noteq> Some ''bblp'' then
        reply ''530 Login incorrect''
          (s\<lparr>fs_auth := auth_record_failure (fs_auth s) (Some arg) (fs_peer_ip s) now\<rparr>)
      else (let (r, auth) = authenticate (fe_sha env) (fs_auth s) (Some arg) (fs_peer_ip s) now;
                s1 = s\<lparr>fs_auth := auth\<rparr>
            in if ar_ok r \<and> ar_member r \<noteq> None then
                 reply ''230 Login successful'' (s1\<lparr>fs_logged_in := True, fs_member := ar_member r\<rparr>)
               else reply ''530 Login incorrect'' s1))"

fun first_free :: "(int \<Rightarrow> bool) \<Rightarrow> int list \<Rightarrow> int option" where
  "first_free free [] = None"
| "first_free free (p # ps) = (if free p then Some p else first_free free ps)"

definition open_passive :: "ftp_env \<Rightarrow> (int \<Rightarrow> bool) \<Rightarrow> int result" where
  "open_passive env free = (case first_free free [fe_passive_start env .. fe_passive_end env] of
      None \<Rightarrow> Inl (RuntimeErr ''no passive FTPS ports available'')
    | Some p \<Rightarrow> Inr p)"

text \<open>\<open>handle_data\<close>, the callback of the passive listener: a connection is closed unless it comes
  from the control connection's address, and the first that does is handed to the command.\<close>

fun accept_data :: "string option \<Rightarrow> (string option \<times> data_event list) list \<Rightarrow> data_conn" where
  "accept_data control [] = NoConnection"
| "accept_data control ((peer, es) # rest) =
     (if control \<noteq> None \<and> peer \<noteq> control then accept_data control rest else Connection es)"

text \<open>An exception of a command ends the session: the \<open>finally\<close> block of \<open>run\<close>.\<close>

definition end_session :: "ftp_session \<Rightarrow> ftp_session" where
  "end_session s = (close_passive s)\<lparr>fs_open := False\<rparr>"

definition cmd_pasv :: "ftp_env \<Rightarrow> ftp_input \<Rightarrow> ftp_session \<Rightarrow> ftp_session" where
  "cmd_pasv env inp s =
     (if \<not> fs_logged_in s then reply ''530 Not logged in'' s
      else (let s1 = close_passive s
            in (case open_passive env (fi_port_free inp) of
                  Inl e \<Rightarrow> end_session s1
                | Inr port \<Rightarrow>
                    (let s2 = s1\<lparr>fs_passive := Some port\<rparr>; octets = split_on CHR ''.'' (fe_ip env)
                     in if length octets \<noteq> 4 then reply ''522 Network protocol not supported, use IPv4'' s2
                        else reply (''227 Entering Passive Mode ('' @ join '','' octets @ '','' @
                          int_str (port div 256) @ '','' @ int_str (port mod 256) @ '')'') s2))))"

definition cmd_epsv :: "ftp_env \<Rightarrow> ftp_input \<Rightarrow> ftp_session \<Rightarrow> ftp_session" where
  "cmd_epsv env inp s =
     (if \<not> fs_logged_in s then reply ''530 Not logged in'' s
      else (let s1 = close_passive s
            in (case open_passive env (fi_port_free inp) of
                  Inl e \<Rightarrow> end_session s1
                | Inr port \<Rightarrow>
                    reply (''229 Entering Extended Passive Mode (|||'' @ int_str port @ ''|)'')
                      (s1\<lparr>fs_passive := Some port\<rparr>))))"

fun receive_loop :: "nat \<Rightarrow> data_event list \<Rightarrow> byte list \<Rightarrow> byte list result" where
  "receive_loop maximum [] received = Inr received"
| "receive_loop maximum (Abort # es) received = Inl (RuntimeErr ''session aborted'')"
| "receive_loop maximum (Stall # es) received = Inl TimeoutErr"
| "receive_loop maximum (Chunk [] # es) received = Inr received"
| "receive_loop maximum (Chunk (b # bs) # es) received =
     (let r = received @ (b # bs)
      in if maximum < length r then Inl (ValueError ''upload exceeds 4 GiB limit'')
         else receive_loop maximum es r)"

definition receive_file :: "ftp_env \<Rightarrow> data_conn \<Rightarrow> byte list result" where
  "receive_file env conn = (case conn of
      NoConnection \<Rightarrow> Inl TimeoutErr
    | Connection es \<Rightarrow> receive_loop (fe_max_bytes env) es [])"

text \<open>\<open>STOR\<close>: the bytes go to the part file, which is renamed to the target only when complete; on any
  failure the part file is removed.\<close>

definition cmd_stor :: "ftp_env \<Rightarrow> ftp_input \<Rightarrow> string \<Rightarrow> ftp_session \<Rightarrow> ftp_session" where
  "cmd_stor env inp arg s =
     (case fs_member s of
        None \<Rightarrow> reply ''530 Not logged in'' s
      | Some member \<Rightarrow>
          if \<not> fs_logged_in s then reply ''530 Not logged in'' s
          else if fs_passive s = None then reply ''425 Use PASV first'' s
          else (let filename = safe_filename arg;
                    (target, partial) = unique_upload_paths (fi_upload_id inp) (fe_pid env) filename;
                    s1 = reply ''150 Opening TLS data connection'' s
                in close_passive
                     (case receive_file env (accept_data (fs_peer_ip s) (fi_data inp)) of
                        Inl e \<Rightarrow> reply ''451 Local error in processing''
                          (s1\<lparr>fs_files := AList.delete partial (fs_files s1)\<rparr>)
                      | Inr content \<Rightarrow>
                          (let files = AList.update target content
                                 (AList.delete partial (AList.update partial content (fs_files s1)));
                               s2 = reply ''226 Transfer complete'' (s1\<lparr>fs_files := files\<rparr>)
                           in if endswith ''.3mf'' filename then
                                s2\<lparr>fs_stored := fs_stored s2 @
                                  [\<lparr>up_member = member, up_filename = filename,
                                    up_path = fe_dir env @ ''/'' @ target,
                                    up_sha256 = fe_digest env content, up_size = int (length content)\<rparr>]\<rparr>
                              else s2))))"

definition cmd_size :: "ftp_session \<Rightarrow> ftp_session" where
  "cmd_size s = (if \<not> fs_logged_in s then reply ''530 Not logged in'' s else reply ''550 File not found'' s)"

definition cmd_list :: "ftp_input \<Rightarrow> ftp_session \<Rightarrow> ftp_session" where
  "cmd_list inp s =
     (if \<not> fs_logged_in s then reply ''530 Not logged in'' s
      else if fs_passive s = None then reply ''425 Use PASV first'' s
      else (let s1 = reply ''150 Opening TLS data connection'' s
            in close_passive (case accept_data (fs_peer_ip s) (fi_data inp) of
                 NoConnection \<Rightarrow> reply ''451 Local error in processing'' s1
               | Connection es \<Rightarrow> reply ''226 Transfer complete'' s1)))"

definition partition_space :: "string \<Rightarrow> string \<times> string" where
  "partition_space line = (takeWhile (\<lambda>c. c \<noteq> CHR '' '') line, drop 1 (dropWhile (\<lambda>c. c \<noteq> CHR '' '') line))"

definition strip_eol :: "string \<Rightarrow> string" where
  "strip_eol s = rev (dropWhile (\<lambda>c. c = CHR 0x0D \<or> c = CHR 0x0A) (rev s))"

definition feat_reply :: string where
  "feat_reply = join [CHR 0x0D, CHR 0x0A]
     [''211-Features'', '' PBSZ'', '' PROT'', '' PASV'', '' EPSV'', '' SIZE'', ''211 End'']"

definition run_command :: "ftp_env \<Rightarrow> ftp_input \<Rightarrow> string \<Rightarrow> string \<Rightarrow> ftp_session \<Rightarrow> ftp_session" where
  "run_command env inp verb arg s =
     (if verb = ''USER'' then cmd_user arg s
      else if verb = ''PASS'' then cmd_pass env (fi_now inp) arg s
      else if verb = ''PBSZ'' then reply ''200 PBSZ=0'' s
      else if verb = ''PROT'' then reply ''200 Protection level set to Private'' s
      else if verb = ''TYPE'' then reply ''200 Type set'' s
      else if verb = ''PASV'' then cmd_pasv env inp s
      else if verb = ''EPSV'' then cmd_epsv env inp s
      else if verb = ''STOR'' then cmd_stor env inp arg s
      else if verb = ''SIZE'' then cmd_size s
      else if verb = ''CWD'' then reply ''250 Directory changed'' s
      else if verb = ''PWD'' then reply ''257 \"/\" is current directory'' s
      else if verb = ''SYST'' then reply ''215 UNIX Type: L8'' s
      else if verb = ''FEAT'' then reply feat_reply s
      else if verb = ''NOOP'' then reply ''200 NOOP ok'' s
      else if verb = ''OPTS'' then reply ''200 OPTS ok'' s
      else if verb = ''REST'' then reply ''350 Restart marker accepted'' s
      else if verb = ''LIST'' then cmd_list inp s
      else if verb = ''QUIT'' then end_session (reply ''221 Goodbye'' s)
      else reply (''502 Command not implemented: '' @ verb) s)"

definition run_line :: "ftp_env \<Rightarrow> ftp_session \<Rightarrow> byte list \<times> ftp_input \<Rightarrow> ftp_session" where
  "run_line env s cmd =
     (let (raw, inp) = cmd
      in if \<not> fs_open s then s
         else if raw = [] then end_session s
         else (let line = strip_eol (utf8_decode raw)
               in if line = [] then s
                  else (let (verb, arg) = partition_space line
                        in run_command env inp (upper verb) (strip arg) s)))"

definition run_session :: "ftp_env \<Rightarrow> ftp_session \<Rightarrow> (byte list \<times> ftp_input) list \<Rightarrow> ftp_session" where
  "run_session env s cmds = foldl (run_line env) s cmds"

section \<open>Sweep of the upload directory\<close>

record upload_file =
  uf_name :: string
  uf_mtime :: real
  uf_size :: nat
  uf_is_file :: bool
  uf_removable :: bool

record sweep_stats =
  sw_removed_age :: nat
  sw_removed_cap :: nat
  sw_bytes :: nat
  sw_total :: nat

definition is_part :: "string \<Rightarrow> bool" where
  "is_part name \<longleftrightarrow> startswith ''.'' name \<and> endswith ''.part'' name"

definition file_age :: "real \<Rightarrow> upload_file \<Rightarrow> real" where
  "file_age now f = max 0 (now - uf_mtime f)"

definition expired :: "real \<Rightarrow> real \<Rightarrow> real \<Rightarrow> upload_file \<Rightarrow> bool" where
  "expired committed_ttl part_ttl now f =
     ((if is_part (uf_name f) then part_ttl else committed_ttl) \<le> file_age now f)"

text \<open>The first pass, by age: the directory left, the files kept for the second pass, the counters.\<close>

fun sweep_age :: "real \<Rightarrow> real \<Rightarrow> real \<Rightarrow> upload_file list \<Rightarrow> upload_file list \<times> upload_file list \<times> sweep_stats" where
  "sweep_age committed_ttl part_ttl now [] =
     ([], [], \<lparr>sw_removed_age = 0, sw_removed_cap = 0, sw_bytes = 0, sw_total = 0\<rparr>)"
| "sweep_age committed_ttl part_ttl now (f # fs) =
     (let (left, kept, st) = sweep_age committed_ttl part_ttl now fs
      in if \<not> uf_is_file f then (f # left, kept, st)
         else if expired committed_ttl part_ttl now f then
           (if uf_removable f then
              (left, kept, st\<lparr>sw_removed_age := sw_removed_age st + 1, sw_bytes := sw_bytes st + uf_size f\<rparr>)
            else (f # left, kept, st))
         else (f # left, f # kept, st\<lparr>sw_total := sw_total st + uf_size f\<rparr>))"

text \<open>The second pass, by size: oldest first until the total fits.\<close>

fun sweep_cap :: "real \<Rightarrow> nat \<Rightarrow> real \<Rightarrow> upload_file list \<Rightarrow> upload_file list \<Rightarrow> sweep_stats \<Rightarrow> upload_file list \<times> sweep_stats" where
  "sweep_cap part_ttl max_total now [] left st = (left, st)"
| "sweep_cap part_ttl max_total now (f # fs) left st =
     (if file_age now f < part_ttl then sweep_cap part_ttl max_total now fs left st
      else (let (left1, st1) = (if uf_removable f then (remove1 f left,
                  st\<lparr>sw_removed_cap := sw_removed_cap st + 1, sw_bytes := sw_bytes st + uf_size f,
                     sw_total := sw_total st - uf_size f\<rparr>) else (left, st))
            in if sw_total st1 \<le> max_total then (left1, st1)
               else sweep_cap part_ttl max_total now fs left1 st1))"

definition sweep_uploads_dir ::
  "real \<Rightarrow> real \<Rightarrow> nat \<Rightarrow> real \<Rightarrow> upload_file list \<Rightarrow> upload_file list \<times> sweep_stats" where
  "sweep_uploads_dir committed_ttl part_ttl max_total now files =
     (let (left, kept, st) = sweep_age committed_ttl part_ttl now files
      in if max_total < sw_total st then sweep_cap part_ttl max_total now (sort_key uf_mtime kept) left st
         else (left, st))"

section \<open>Lemmas\<close>

lemma reply_simps [simp]:
  "fs_user (reply l s) = fs_user s" "fs_member (reply l s) = fs_member s"
  "fs_logged_in (reply l s) = fs_logged_in s" "fs_passive (reply l s) = fs_passive s"
  "fs_open (reply l s) = fs_open s" "fs_auth (reply l s) = fs_auth s"
  "fs_files (reply l s) = fs_files s" "fs_stored (reply l s) = fs_stored s"
  "fs_peer_ip (reply l s) = fs_peer_ip s"
  by (simp_all add: reply_def)

lemma close_passive_simps [simp]:
  "fs_user (close_passive s) = fs_user s" "fs_member (close_passive s) = fs_member s"
  "fs_logged_in (close_passive s) = fs_logged_in s" "fs_auth (close_passive s) = fs_auth s"
  "fs_files (close_passive s) = fs_files s" "fs_stored (close_passive s) = fs_stored s"
  "fs_open (close_passive s) = fs_open s" "fs_passive (close_passive s) = None"
  by (simp_all add: close_passive_def)

lemma end_session_simps [simp]:
  "fs_user (end_session s) = fs_user s" "fs_member (end_session s) = fs_member s"
  "fs_logged_in (end_session s) = fs_logged_in s" "fs_files (end_session s) = fs_files s"
  "fs_stored (end_session s) = fs_stored s"
  by (simp_all add: end_session_def)

lemma receive_loop_bounded:
  "receive_loop m es acc = Inr content \<Longrightarrow> length acc \<le> m \<Longrightarrow>
   length content \<le> m \<and> (\<exists>n. content = acc @ concat (List.map (\<lambda>e. case e of Chunk bs \<Rightarrow> bs | _ \<Rightarrow> []) (take n es)))"
proof (induction m es acc rule: receive_loop.induct)
  case (1 m acc)
  then show ?case by simp
next
  case (4 m es acc)
  then show ?case by (auto intro: exI [of _ 0])
next
  case (5 m b bs es acc)
  from 5 obtain n where n: "length content \<le> m"
    "content = (acc @ b # bs) @ concat (List.map (\<lambda>e. case e of Chunk bs \<Rightarrow> bs | _ \<Rightarrow> []) (take n es))"
    by (auto simp: Let_def split: if_splits)
  then show ?case by (auto intro!: exI [of _ "Suc n"])
qed simp_all

lemma receive_file_bounded:
  "receive_file env conn = Inr content \<Longrightarrow> length content \<le> fe_max_bytes env"
  using receive_loop_bounded [of "fe_max_bytes env" _ "[]"] by (auto simp: receive_file_def split: data_conn.splits)

text \<open>The bytes of an upload come from a connection made from the control connection's address.\<close>

lemma accept_data_peer:
  "accept_data control conns = Connection es \<Longrightarrow> \<exists>peer. (peer, es) \<in> set conns \<and> (control = None \<or> peer = control)"
  by (induction control conns rule: accept_data.induct) (auto split: if_splits)

lemma received_from_control_peer:
  "receive_file env (accept_data control conns) = Inr content \<Longrightarrow>
   \<exists>peer es. (peer, es) \<in> set conns \<and> (control = None \<or> peer = control) \<and>
     receive_loop (fe_max_bytes env) es [] = Inr content"
  by (auto simp: receive_file_def split: data_conn.splits dest!: accept_data_peer)

text \<open>What \<open>STOR\<close> can do: refuse, fail, or store the complete upload.\<close>

lemma cmd_stor_cases:
  obtains (refused) "fs_files (cmd_stor env inp arg s) = fs_files s" "fs_stored (cmd_stor env inp arg s) = fs_stored s"
  | (failed) "fs_files (cmd_stor env inp arg s) =
        AList.delete (snd (unique_upload_paths (fi_upload_id inp) (fe_pid env) (safe_filename arg))) (fs_files s)"
      "fs_stored (cmd_stor env inp arg s) = fs_stored s"
  | (stored) content member where "fs_logged_in s" "fs_member s = Some member"
      "receive_file env (accept_data (fs_peer_ip s) (fi_data inp)) = Inr content"
      "fs_files (cmd_stor env inp arg s) =
        AList.update (fst (unique_upload_paths (fi_upload_id inp) (fe_pid env) (safe_filename arg))) content
          (AList.delete (snd (unique_upload_paths (fi_upload_id inp) (fe_pid env) (safe_filename arg))) (fs_files s))"
      "fs_stored (cmd_stor env inp arg s) = fs_stored s @
        (if endswith ''.3mf'' (safe_filename arg)
         then [\<lparr>up_member = member, up_filename = safe_filename arg,
             up_path = fe_dir env @ ''/'' @ fst (unique_upload_paths (fi_upload_id inp) (fe_pid env) (safe_filename arg)),
             up_sha256 = fe_digest env content, up_size = int (length content)\<rparr>] else [])"
proof (cases "fs_member s = None \<or> \<not> fs_logged_in s \<or> fs_passive s = None")
  case True
  then show thesis by (intro refused) (auto simp: cmd_stor_def split: option.split)
next
  case False
  then obtain member where m: "fs_member s = Some member" "fs_logged_in s" "fs_passive s \<noteq> None" by auto
  show thesis
  proof (cases "receive_file env (accept_data (fs_peer_ip s) (fi_data inp))")
    case (Inl e)
    then show thesis using m by (intro failed) (auto simp: cmd_stor_def case_prod_beta Let_def)
  next
    case (Inr content)
    have "AList.delete k (AList.update k v d) = AList.delete k d" for k v and d :: "(string \<times> byte list) list"
      by (induction d) auto
    then show thesis using m Inr
      by (intro stored [of member content]) (auto simp: cmd_stor_def case_prod_beta Let_def)
  qed
qed

text \<open>\<open>A m\<close> stands for "this session has presented an access code of the member \<open>m\<close>".\<close>

definition session_ok :: "(string \<Rightarrow> bool) \<Rightarrow> ftp_session \<Rightarrow> bool" where
  "session_ok A s \<longleftrightarrow> (\<forall>m. fs_member s = Some m \<longrightarrow> A m) \<and> (fs_logged_in s \<longrightarrow> fs_member s \<noteq> None) \<and>
     (\<forall>r\<in>set (fs_stored s). A (up_member r))"

definition grants :: "ftp_env \<Rightarrow> ftp_session \<Rightarrow> string \<Rightarrow> string \<Rightarrow> real \<Rightarrow> string \<Rightarrow> bool" where
  "grants env s verb arg now m \<longleftrightarrow> verb = ''PASS'' \<and> fs_user s = Some ''bblp'' \<and>
     ar_ok (fst (authenticate (fe_sha env) (fs_auth s) (Some arg) (fs_peer_ip s) now)) \<and>
     ar_member (fst (authenticate (fe_sha env) (fs_auth s) (Some arg) (fs_peer_ip s) now)) = Some m"

lemma session_ok_reply [simp]: "session_ok A (reply l s) = session_ok A s"
  by (simp add: session_ok_def)

lemma session_ok_closed [simp]:
  "session_ok A (close_passive s) = session_ok A s" "session_ok A (end_session s) = session_ok A s"
  "session_ok A (s\<lparr>fs_passive := p\<rparr>) = session_ok A s" "session_ok A (s\<lparr>fs_user := u\<rparr>) = session_ok A s"
  "session_ok A (s\<lparr>fs_auth := a\<rparr>) = session_ok A s"
  by (simp_all add: session_ok_def)

lemma session_ok_pass:
  assumes "session_ok A s" and "\<And>m. grants env s ''PASS'' arg now m \<Longrightarrow> A m"
  shows "session_ok A (cmd_pass env now arg s)"
  using assms by (auto simp: cmd_pass_def grants_def case_prod_beta session_ok_def Let_def)

lemma session_ok_stor: "session_ok A s \<Longrightarrow> session_ok A (cmd_stor env inp arg s)"
proof -
  assume ok: "session_ok A s"
  have keep: "fs_member (cmd_stor env inp arg s) = fs_member s" "fs_logged_in (cmd_stor env inp arg s) = fs_logged_in s"
    by (auto simp: cmd_stor_def case_prod_beta Let_def split: option.split sum.split)
  show ?thesis
    by (cases rule: cmd_stor_cases [of env inp arg s]) (use ok in \<open>auto simp: session_ok_def keep\<close>)
qed

lemma session_ok_command:
  assumes "session_ok A s" and "\<And>m. grants env s verb arg (fi_now inp) m \<Longrightarrow> A m"
  shows "session_ok A (run_command env inp verb arg s)"
proof -
  have "session_ok A (cmd_pasv env inp s)" "session_ok A (cmd_epsv env inp s)"
    "session_ok A (cmd_size s)" "session_ok A (cmd_list inp s)" "session_ok A (cmd_user arg s)"
    using assms(1) by (simp_all add: cmd_pasv_def cmd_epsv_def cmd_size_def cmd_list_def cmd_user_def Let_def
        split: sum.split data_conn.split)
  moreover have "session_ok A (cmd_pass env (fi_now inp) arg s)" if "verb = ''PASS''"
    using assms that by (intro session_ok_pass) simp_all
  ultimately show ?thesis
    using assms(1) session_ok_stor by (simp add: run_command_def)
qed

text \<open>The command a line carries, when the session reads it.\<close>

definition command_of :: "byte list \<Rightarrow> string \<times> string" where
  "command_of raw = (let (verb, arg) = partition_space (strip_eol (utf8_decode raw)) in (upper verb, strip arg))"

definition authenticated_before :: "ftp_env \<Rightarrow> ftp_session \<Rightarrow> (byte list \<times> ftp_input) list \<Rightarrow> string \<Rightarrow> bool" where
  "authenticated_before env s0 cmds m \<longleftrightarrow> (\<exists>pre raw inp post. cmds = pre @ (raw, inp) # post \<and>
     grants env (run_session env s0 pre) (fst (command_of raw)) (snd (command_of raw)) (fi_now inp) m)"

lemma session_ok_line:
  assumes "session_ok A s"
    and "\<And>m. grants env s (fst (command_of raw)) (snd (command_of raw)) (fi_now inp) m \<Longrightarrow> A m"
  shows "session_ok A (run_line env s (raw, inp))"
proof -
  have "session_ok A (run_command env inp (fst (command_of raw)) (snd (command_of raw)) s)"
    using assms by (rule session_ok_command)
  then show ?thesis
    using assms(1) by (simp add: run_line_def command_of_def Let_def case_prod_beta)
qed

lemma session_ok_run:
  "session_ok (authenticated_before env (new_session ip auth files) (cmds @ rest))
     (run_session env (new_session ip auth files) cmds)"
proof (induction cmds arbitrary: rest rule: rev_induct)
  case Nil
  show ?case by (simp add: session_ok_def run_session_def new_session_def)
next
  case (snoc c cmds)
  obtain raw inp where c: "c = (raw, inp)" by (cases c)
  have "session_ok (authenticated_before env (new_session ip auth files) (cmds @ c # rest))
      (run_session env (new_session ip auth files) cmds)"
    using snoc.IH .
  then have "session_ok (authenticated_before env (new_session ip auth files) (cmds @ c # rest))
      (run_line env (run_session env (new_session ip auth files) cmds) (raw, inp))"
    by (rule session_ok_line) (unfold authenticated_before_def c, blast)
  then show ?case by (simp add: run_session_def c)
qed

section \<open>Properties of the upload server\<close>

text \<open>
  C5: Every upload a session hands over was made by a member whose access code the same session
  had presented, under the user name \<open>bblp\<close>, in a PASS command that was granted.\<close>
theorem upload_member_authenticated:
  assumes "r \<in> set (fs_stored (run_session env (new_session ip auth files) cmds))"
  shows "authenticated_before env (new_session ip auth files) cmds (up_member r)"
  using session_ok_run [of env ip auth files cmds "[]"] assms by (simp add: session_ok_def)

text \<open>
  STOR is all or nothing: it either leaves every file other than the leftover part file as it
  was and hands over nothing, or it stores under the fresh name exactly the bytes received, at most
  the limit, leaves no part file, and what it hands over describes that file.\<close>
theorem stor_all_or_nothing:
  "let (target, partial) = unique_upload_paths (fi_upload_id inp) (fe_pid env) (safe_filename arg);
       s' = cmd_stor env inp arg s
   in ((\<forall>n. n \<noteq> partial \<longrightarrow> map_of (fs_files s') n = map_of (fs_files s) n) \<and> fs_stored s' = fs_stored s) \<or>
      (\<exists>content. receive_file env (accept_data (fs_peer_ip s) (fi_data inp)) = Inr content \<and> length content \<le> fe_max_bytes env \<and>
         map_of (fs_files s') target = Some content \<and> map_of (fs_files s') partial = None \<and>
         (\<forall>n. n \<noteq> target \<and> n \<noteq> partial \<longrightarrow> map_of (fs_files s') n = map_of (fs_files s) n) \<and>
         (\<forall>r\<in>set (fs_stored s') - set (fs_stored s). up_path r = fe_dir env @ ''/'' @ target \<and>
            up_sha256 r = fe_digest env content \<and> up_size r = int (length content) \<and>
            fs_member s = Some (up_member r)))"
proof -
  let ?f = "safe_filename arg"
  let ?p = "unique_upload_paths (fi_upload_id inp) (fe_pid env) ?f"
  have "fst ?p \<noteq> snd ?p"
  proof
    assume "fst ?p = snd ?p"
    then have "length (fst ?p) = length (snd ?p)" by simp
    then show False by (simp add: unique_upload_paths_def)
  qed
  then show ?thesis
    by (cases rule: cmd_stor_cases [of env inp arg s])
       (auto simp: case_prod_beta Let_def map_of_update map_of_delete dest: receive_file_bounded)
qed

definition total_size :: "upload_file list \<Rightarrow> nat" where
  "total_size fs = sum_list (List.map uf_size fs)"

lemma total_size_remove1: "f \<in> set fs \<Longrightarrow> total_size fs = uf_size f + total_size (remove1 f fs)"
  by (simp add: total_size_def sum_list_map_remove1)

lemma sweep_age_young:
  "f \<in> set files \<Longrightarrow> file_age now f < part_ttl \<Longrightarrow> part_ttl \<le> committed_ttl \<Longrightarrow>
   f \<in> set (fst (sweep_age committed_ttl part_ttl now files))"
  by (induction files) (auto simp: case_prod_beta Let_def expired_def)

lemma sweep_cap_young:
  "f \<in> set left \<Longrightarrow> file_age now f < part_ttl \<Longrightarrow> f \<in> set (fst (sweep_cap part_ttl max_total now fs left st))"
proof (induction part_ttl max_total now fs left st rule: sweep_cap.induct)
  case (2 part_ttl max_total now g fs left st)
  show ?case
  proof (cases "file_age now g < part_ttl")
    case True
    then show ?thesis using 2 by simp
  next
    case False
    then have "f \<noteq> g" using "2.prems" by auto
    then have "f \<in> set (remove1 g left)" using "2.prems"(1) by simp
    then show ?thesis using 2 False by (auto simp: case_prod_beta Let_def)
  qed
qed simp

lemma sweep_age_all:
  "\<forall>f\<in>set files. uf_is_file f \<and> uf_removable f \<Longrightarrow>
   fst (sweep_age ct pt now files) = fst (snd (sweep_age ct pt now files)) \<and>
   sw_total (snd (snd (sweep_age ct pt now files))) = total_size (fst (snd (sweep_age ct pt now files))) \<and>
   set (fst (sweep_age ct pt now files)) \<subseteq> set files"
  by (induction files) (auto simp: case_prod_beta Let_def total_size_def)

lemma sweep_cap_fits:
  assumes "mset fs \<subseteq># mset left" and "sw_total st = total_size left"
    and "\<forall>f\<in>set fs. uf_removable f" and "\<forall>f\<in>#mset left - mset fs. file_age now f < part_ttl"
  shows "total_size (fst (sweep_cap part_ttl max_total now fs left st)) \<le> max_total \<or>
    (\<forall>f\<in>set (fst (sweep_cap part_ttl max_total now fs left st)). file_age now f < part_ttl)"
  using assms
proof (induction part_ttl max_total now fs left st rule: sweep_cap.induct)
  case (1 part_ttl max_total now left st)
  then show ?case by simp
next
  case (2 part_ttl max_total now g fs left st)
  obtain D where D: "mset left = mset (g # fs) + D"
    using "2.prems"(1) by (auto simp: subset_mset.le_iff_add)
  have "g \<in># mset left" unfolding D by simp
  then have "g \<in> set left" by simp
  with D have sub: "mset fs \<subseteq># mset left" "g \<in> set left"
    by simp_all
  show ?case
  proof (cases "file_age now g < part_ttl")
    case True
    have "mset left - mset fs = add_mset g D" "mset left - mset (g # fs) = D"
      using D by simp_all
    then show ?thesis using 2 True sub by simp
  next
    case False
    let ?st = "st\<lparr>sw_removed_cap := sw_removed_cap st + 1, sw_bytes := sw_bytes st + uf_size g,
      sw_total := sw_total st - uf_size g\<rparr>"
    have tot: "sw_total ?st = total_size (remove1 g left)"
      using "2.prems"(2) total_size_remove1 [OF sub(2)] by simp
    have m: "mset fs \<subseteq># mset (remove1 g left)" "mset (remove1 g left) - mset fs = mset left - mset (g # fs)"
      using D sub(2) by simp_all
    show ?thesis
    proof (cases "sw_total ?st \<le> max_total")
      case True
      then show ?thesis using False "2.prems"(3) tot by simp
    next
      case over: False
      show ?thesis
        using "2.IH"(2) [OF False refl, of "remove1 g left" ?st] "2.prems" False over tot m by simp
    qed
  qed
qed

text \<open>
  The sweep never removes a file younger than the part time-to-live (an upload may be in
  progress), and when every file can be removed it leaves at most the size cap, unless all that is
  left is that young.\<close>
theorem sweep_safe_and_bounded:
  assumes "part_ttl \<le> committed_ttl"
  shows "(\<forall>f\<in>set files. file_age now f < part_ttl \<longrightarrow>
       f \<in> set (fst (sweep_uploads_dir committed_ttl part_ttl max_total now files))) \<and>
    ((\<forall>f\<in>set files. uf_is_file f \<and> uf_removable f) \<longrightarrow>
       total_size (fst (sweep_uploads_dir committed_ttl part_ttl max_total now files)) \<le> max_total \<or>
       (\<forall>f\<in>set (fst (sweep_uploads_dir committed_ttl part_ttl max_total now files)). file_age now f < part_ttl))"
proof (intro conjI impI ballI)
  fix f assume f: "f \<in> set files" "file_age now f < part_ttl"
  then have "f \<in> set (fst (sweep_age committed_ttl part_ttl now files))"
    using assms by (intro sweep_age_young)
  then show "f \<in> set (fst (sweep_uploads_dir committed_ttl part_ttl max_total now files))"
    using f by (simp add: sweep_uploads_dir_def case_prod_beta Let_def sweep_cap_young)
next
  assume all: "\<forall>f\<in>set files. uf_is_file f \<and> uf_removable f"
  obtain left kept st where sa: "sweep_age committed_ttl part_ttl now files = (left, kept, st)"
    by (cases "sweep_age committed_ttl part_ttl now files") auto
  have a: "left = kept" "sw_total st = total_size left" "set left \<subseteq> set files"
    using sweep_age_all [OF all, of committed_ttl part_ttl now] sa by auto
  show "total_size (fst (sweep_uploads_dir committed_ttl part_ttl max_total now files)) \<le> max_total \<or>
       (\<forall>f\<in>set (fst (sweep_uploads_dir committed_ttl part_ttl max_total now files)). file_age now f < part_ttl)"
  proof (cases "max_total < sw_total st")
    case True
    then show ?thesis
      using sweep_cap_fits [of "sort_key uf_mtime kept" left st now part_ttl max_total] a all
      by (auto simp: sweep_uploads_dir_def sa)
  next
    case False
    then show ?thesis using a by (simp add: sweep_uploads_dir_def sa)
  qed
qed

lemma sweep_safe_and_bounded_witness:
  "let old = \<lparr>uf_name = ''a'', uf_mtime = 0, uf_size = 9, uf_is_file = True, uf_removable = True\<rparr>;
       files = [old, old\<lparr>uf_name := ''b'', uf_mtime := 995\<rparr>]
   in files ! 1 \<in> set (fst (sweep_uploads_dir 86400 300 10 1000 files)) \<and>
      (total_size (fst (sweep_uploads_dir 86400 300 10 1000 files)) \<le> 10 \<or>
       (\<forall>f\<in>set (fst (sweep_uploads_dir 86400 300 10 1000 files)). file_age 1000 f < 300))"
  using sweep_safe_and_bounded [of 300 86400
    "[\<lparr>uf_name = ''a'', uf_mtime = 0, uf_size = 9, uf_is_file = True, uf_removable = True\<rparr>,
      \<lparr>uf_name = ''b'', uf_mtime = 995, uf_size = 9, uf_is_file = True, uf_removable = True\<rparr>]" 1000 10]
  by (simp add: Let_def file_age_def)

section \<open>A concrete session\<close>

definition demo_ftp :: ftp_env where
  "demo_ftp = \<lparr>fe_ip = ''10.0.0.9'', fe_dir = ''/up'', fe_passive_start = 50000, fe_passive_end = 50009,
     fe_max_bytes = 100, fe_sha = (\<lambda>s. s), fe_digest = (\<lambda>bs. ''ff''), fe_pid = ''7''\<rparr>"

definition demo_input :: ftp_input where
  "demo_input = \<lparr>fi_now = 0, fi_port_free = (\<lambda>p. True), fi_upload_id = ''u1'',
     fi_data = [(Some ''10.0.0.66'', [Chunk [9]]), (Some ''10.0.0.5'', [Chunk [1, 2], Chunk [3]])]\<rparr>"

definition demo_start :: ftp_session where
  "demo_start = new_session (Some ''10.0.0.5'') \<lparr>as_members = [\<lparr>mem_hash = ''12345678'', mem_id = ''m1''\<rparr>], as_limiter = default_limiter\<rparr> []"

definition demo_lines :: "(byte list \<times> ftp_input) list" where
  "demo_lines = List.map (\<lambda>l. (utf8_encode l, demo_input))
     [''USER bblp'', ''PASS 12345678'', ''PASV'', ''STOR a.3mf'']"

lemma demo_commands:
  "command_of (utf8_encode ''USER bblp'') = (''USER'', ''bblp'')"
  "command_of (utf8_encode ''PASS 12345678'') = (''PASS'', ''12345678'')"
  "command_of (utf8_encode ''PASV'') = (''PASV'', [])"
  "command_of (utf8_encode ''STOR a.3mf'') = (''STOR'', ''a.3mf'')"
  by code_simp+

lemma run_line_command:
  "fs_open s \<Longrightarrow> raw \<noteq> [] \<Longrightarrow> strip_eol (utf8_decode raw) \<noteq> [] \<Longrightarrow> command_of raw = (verb, arg) \<Longrightarrow>
   run_line env s (raw, inp) = run_command env inp verb arg s"
  by (auto simp: run_line_def command_of_def Let_def case_prod_beta)

lemma demo_nonempty:
  "strip_eol (utf8_decode (utf8_encode ''USER bblp'')) \<noteq> []" "strip_eol (utf8_decode (utf8_encode ''PASS 12345678'')) \<noteq> []"
  "strip_eol (utf8_decode (utf8_encode ''PASV'')) \<noteq> []" "strip_eol (utf8_decode (utf8_encode ''STOR a.3mf'')) \<noteq> []"
  "utf8_encode ''USER bblp'' \<noteq> []" "utf8_encode ''PASS 12345678'' \<noteq> []"
  "utf8_encode ''PASV'' \<noteq> []" "utf8_encode ''STOR a.3mf'' \<noteq> []"
  by code_simp+

lemma demo_grant:
  "ar_ok (fst (authenticate (\<lambda>s. s) (fs_auth demo_start) (Some ''12345678'') (Some ''10.0.0.5'') 0)) \<and>
   ar_member (fst (authenticate (\<lambda>s. s) (fs_auth demo_start) (Some ''12345678'') (Some ''10.0.0.5'') 0)) = Some ''m1''"
  by code_simp

lemma demo_names: "safe_filename ''a.3mf'' = ''a.3mf''" "endswith ''.3mf'' ''a.3mf''"
  by code_simp+

lemma demo_open: "open_passive demo_ftp (\<lambda>p. True) = Inr 50000"
  by (simp add: open_passive_def demo_ftp_def upto_rec1)

lemma demo_session_stored:
  "List.map up_member (fs_stored (run_session demo_ftp demo_start demo_lines)) = [''m1'']"
proof -
  note step = run_line_command [OF _ demo_nonempty(5) demo_nonempty(1) demo_commands(1)]
    run_line_command [OF _ demo_nonempty(6) demo_nonempty(2) demo_commands(2)]
    run_line_command [OF _ demo_nonempty(7) demo_nonempty(3) demo_commands(3)]
    run_line_command [OF _ demo_nonempty(8) demo_nonempty(4) demo_commands(4)]
  define s2 where "s2 = cmd_pass demo_ftp 0 ''12345678'' (cmd_user ''bblp'' demo_start)"
  have s2: "fs_open s2" "fs_logged_in s2" "fs_member s2 = Some ''m1''" "fs_stored s2 = []" "fs_peer_ip s2 = Some ''10.0.0.5''"
    using demo_grant
    by (simp_all add: s2_def cmd_pass_def cmd_user_def demo_start_def new_session_def demo_ftp_def
        case_prod_beta Let_def)
  define s3 where "s3 = cmd_pasv demo_ftp demo_input s2"
  have s3: "fs_open s3" "fs_logged_in s3" "fs_member s3 = Some ''m1''" "fs_stored s3 = []" "fs_passive s3 = Some 50000"
    "fs_peer_ip s3 = Some ''10.0.0.5''"
    using s2 demo_open by (simp_all add: s3_def cmd_pasv_def demo_input_def close_passive_def Let_def)
  have "fs_open demo_start" "fs_open (cmd_user ''bblp'' demo_start)"
    by (simp_all add: demo_start_def new_session_def cmd_user_def)
  then have "run_session demo_ftp demo_start demo_lines = cmd_stor demo_ftp demo_input ''a.3mf'' s3"
    using s2(1) s3(1) step
    by (simp add: run_session_def demo_lines_def run_command_def s2_def s3_def demo_input_def)
  then show ?thesis
    using s3 demo_names
    by (simp add: cmd_stor_def case_prod_beta Let_def demo_input_def receive_file_def demo_ftp_def)
qed

lemma upload_member_authenticated_witness:
  "authenticated_before demo_ftp demo_start demo_lines ''m1''"
proof -
  from demo_session_stored obtain r where
    r: "r \<in> set (fs_stored (run_session demo_ftp demo_start demo_lines))" "up_member r = ''m1''"
    by (auto simp: map_eq_Cons_conv)
  from upload_member_authenticated [OF r(1) [unfolded demo_start_def]] r(2) show ?thesis
    by (simp add: demo_start_def)
qed

lemma stor_all_or_nothing_witness:
  "map_of (fs_files (cmd_stor demo_ftp demo_input ''a.3mf''
     (demo_start\<lparr>fs_logged_in := True, fs_member := Some ''m1''\<rparr>))) ''x'' = None"
  using stor_all_or_nothing [of demo_input demo_ftp "''a.3mf''" "demo_start\<lparr>fs_logged_in := True, fs_member := Some ''m1''\<rparr>"]
  by (auto simp: demo_names demo_start_def new_session_def unique_upload_paths_def demo_input_def demo_ftp_def Let_def)

end
