(* ===== verification/Net.thy ===== *)
theory Net
  imports PyText
begin

text \<open>
  IPv4 addresses and the part of \<open>makeros_hub/lan_scan.py\<close> that computes with them: \<open>inet_aton\<close> and
  \<open>inet_ntoa\<close> on 32-bit words, the network of an address, the netmask from the routing table and the
  list of addresses a sweep probes. Only the dotted-quad spelling of \<open>inet_aton\<close> is modelled. The
  file \<open>/proc/net/route\<close> is the list of its lines, already split into columns.
\<close>

unbundle bit_operations_syntax

type_synonym addr = "32 word"

definition inet_ntoa :: "addr \<Rightarrow> string" where
  "inet_ntoa w = (let n = unat w in join ''.'' [nat_str (n div 16777216), nat_str (n div 65536 mod 256),
     nat_str (n div 256 mod 256), nat_str (n mod 256)])"

definition octet :: "string \<Rightarrow> nat option" where
  "octet s = (if s \<noteq> [] \<and> list_all is_digit s \<and> nat_of_digits s < 256 then Some (nat_of_digits s) else None)"

definition inet_aton :: "string \<Rightarrow> addr option" where
  "inet_aton s = (case split_on CHR ''.'' s of
      [a, b, c, d] \<Rightarrow> (case (octet a, octet b, octet c, octet d) of
          (Some x, Some y, Some z, Some t) \<Rightarrow> Some (word_of_nat (((x * 256 + y) * 256 + z) * 256 + t))
        | _ \<Rightarrow> None)
    | _ \<Rightarrow> None)"

lemma split_on_join: "ws \<noteq> [] \<Longrightarrow> \<forall>w\<in>set ws. c \<notin> set w \<Longrightarrow> split_on c (join [c] ws) = ws"
proof (induction ws rule: induct_list012)
  case (2 w)
  then show ?case by (simp add: split_on_simple)
next
  case (3 w v ws)
  then show ?case by (simp add: split_on_append)
qed simp

lemma nat_str_no_dot: "CHR ''.'' \<notin> set (nat_str n)"
proof
  assume "CHR ''.'' \<in> set (nat_str n)"
  then have "is_digit (CHR ''.'')" using nat_str_digits [of n] by (auto simp: list_all_iff)
  then show False by (simp add: is_digit_def)
qed

lemma octet_nat_str [simp]: "n < 256 \<Longrightarrow> octet (nat_str n) = Some n"
  using nat_str_digits [of n] by (simp add: octet_def)

lemma octets_sum:
  "((n div 16777216 * 256 + n div 65536 mod 256) * 256 + n div 256 mod 256) * 256 + n mod 256 = (n :: nat)"
proof -
  have "n div 65536 = n div 256 div 256" "n div 16777216 = n div 256 div 256 div 256"
    by (simp_all add: div_mult2_eq [symmetric])
  then show ?thesis by (simp only: div_mult_mod_eq)
qed

lemma inet_aton_ntoa [simp]: "inet_aton (inet_ntoa w) = Some w"
proof -
  let ?n = "unat w"
  have n: "?n < 4294967296" using unsigned_less [of w] by simp
  have s: "split_on CHR ''.'' (inet_ntoa w) = [nat_str (?n div 16777216), nat_str (?n div 65536 mod 256),
     nat_str (?n div 256 mod 256), nat_str (?n mod 256)]"
    unfolding inet_ntoa_def Let_def by (rule split_on_join) (simp_all add: nat_str_no_dot)
  have "?n div 16777216 < 256" using n by (simp add: less_mult_imp_div_less)
  moreover have "((?n div 16777216 * 256 + ?n div 65536 mod 256) * 256 + ?n div 256 mod 256) * 256 + ?n mod 256 = ?n"
    by (rule octets_sum)
  ultimately show ?thesis by (simp add: inet_aton_def s)
qed

lemma inet_ntoa_inj [simp]: "inet_ntoa v = inet_ntoa w \<longleftrightarrow> v = w"
  by (metis inet_aton_ntoa option.inject)

section \<open>Subnets\<close>

definition network_address :: "string \<Rightarrow> string \<Rightarrow> string option" where
  "network_address ip netmask = (case (inet_aton ip, inet_aton netmask) of
      (Some a, Some m) \<Rightarrow> Some (inet_ntoa (a AND m)) | _ \<Rightarrow> None)"

text \<open>Reading a number of the routing table in the other byte order.\<close>

definition swap_bytes :: "addr \<Rightarrow> addr" where
  "swap_bytes w = (let n = unat w in word_of_nat
     (((n mod 256 * 256 + n div 256 mod 256) * 256 + n div 65536 mod 256) * 256 + n div 16777216))"

definition hex_val :: "char \<Rightarrow> nat option" where
  "hex_val c = (let n = (of_char c :: nat) in
     if 48 \<le> n \<and> n \<le> 57 then Some (n - 48)
     else if 65 \<le> n \<and> n \<le> 70 then Some (n - 55)
     else if 97 \<le> n \<and> n \<le> 102 then Some (n - 87) else None)"

fun hex_fold :: "nat \<Rightarrow> string \<Rightarrow> nat option" where
  "hex_fold acc [] = Some acc"
| "hex_fold acc (c # cs) = (case hex_val c of None \<Rightarrow> None | Some d \<Rightarrow> hex_fold (acc * 16 + d) cs)"

definition hex_of_str :: "string \<Rightarrow> nat option" where
  "hex_of_str s = (if s = [] then None else hex_fold 0 s)"

fun netmask_loop :: "addr \<Rightarrow> string list list \<Rightarrow> string option" where
  "netmask_loop target [] = None"
| "netmask_loop target (cols # rows) =
     (if length cols < 8 then netmask_loop target rows
      else (case (hex_of_str (cols ! 1), hex_of_str (cols ! 7)) of
          (Some dest, Some msk) \<Rightarrow>
            (let dest_le = swap_bytes (word_of_nat dest); mask_le = swap_bytes (word_of_nat msk)
             in if mask_le \<noteq> 0 \<and> target AND mask_le = dest_le then Some (inet_ntoa mask_le)
                else netmask_loop target rows)
        | _ \<Rightarrow> netmask_loop target rows))"

definition resolve_netmask_for_ip :: "string list list option \<Rightarrow> string \<Rightarrow> string option" where
  "resolve_netmask_for_ip route target_ip = (case route of
      None \<Rightarrow> None
    | Some rows \<Rightarrow> (case inet_aton target_ip of None \<Rightarrow> None | Some t \<Rightarrow> netmask_loop t (drop 1 rows)))"

definition discover_primary_subnet ::
  "string list list option \<Rightarrow> string option \<Rightarrow> (string \<times> string \<times> string) option" where
  "discover_primary_subnet route own = (case own of
      None \<Rightarrow> None
    | Some own_ip \<Rightarrow>
        (let netmask = (case resolve_netmask_for_ip route own_ip of
             None \<Rightarrow> ''255.255.255.0'' | Some m \<Rightarrow> if m = [] then ''255.255.255.0'' else m)
         in (case network_address own_ip netmask of
               None \<Rightarrow> None | Some network \<Rightarrow> Some (network, netmask, own_ip))))"

section \<open>The addresses a sweep probes\<close>

definition MAX_HOSTS_PER_SWEEP :: nat where
  "MAX_HOSTS_PER_SWEEP = 510"

definition enumerate_sweep_targets :: "string \<Rightarrow> string \<Rightarrow> string \<Rightarrow> string list" where
  "enumerate_sweep_targets network netmask own_ip = (case (inet_aton network, inet_aton netmask) of
      (Some net, Some m) \<Rightarrow>
        (let host_bits = unat (NOT m)
         in if host_bits = 0 then []
            else (let host_count = (if MAX_HOSTS_PER_SWEEP < host_bits then MAX_HOSTS_PER_SWEEP else host_bits)
                  in List.filter (\<lambda>s. s \<noteq> own_ip \<and> \<not> endswith ''.1'' s)
                       (List.map (\<lambda>offset. inet_ntoa (net OR word_of_nat offset)) [1..<host_count])))
    | _ \<Rightarrow> [])"

text \<open>A netmask of \<open>32 - k\<close> leading one bits, and the addresses of a network with it.\<close>

lemma low_bits:
  assumes "k \<le> 32" and "off < 2 ^ k" and "(net :: addr) AND mask k = 0"
  shows "(net OR word_of_nat off) AND NOT (mask k) = net" and "(net OR word_of_nat off) AND mask k = word_of_nat off"
proof -
  have "take_bit k (word_of_nat off :: addr) = word_of_nat off"
    using assms(2) by (simp add: take_bit_of_nat take_bit_nat_eq_self)
  then have low: "word_of_nat off AND mask k = (word_of_nat off :: addr)" by (simp add: take_bit_eq_mask)
  show "(net OR word_of_nat off) AND mask k = word_of_nat off"
    using low assms(3) by (simp add: bit.conj_disj_distrib2)
  have "word_of_nat off AND NOT (mask k) = (word_of_nat off AND mask k) AND NOT (mask k :: addr)"
    by (simp only: low)
  also have "\<dots> = word_of_nat off AND (mask k AND NOT (mask k))" by (simp only: and.assoc)
  finally have "word_of_nat off AND NOT (mask k) = (0 :: addr)" by simp
  moreover have "net AND NOT (mask k) = net"
  proof -
    have "net = net AND (mask k OR NOT (mask k))" by simp
    also have "\<dots> = (net AND mask k) OR (net AND NOT (mask k))" by (rule bit.conj_disj_distrib)
    finally show ?thesis using assms(3) by simp
  qed
  ultimately show "(net OR word_of_nat off) AND NOT (mask k) = net"
    by (simp add: bit.conj_disj_distrib2)
qed

lemma word_of_nat_eq_small:
  "a < 2 ^ k \<Longrightarrow> b < 2 ^ k \<Longrightarrow> k \<le> 32 \<Longrightarrow> (word_of_nat a :: addr) = word_of_nat b \<Longrightarrow> a = b"
proof -
  assume a: "a < 2 ^ k" "b < 2 ^ k" "k \<le> 32" "(word_of_nat a :: addr) = word_of_nat b"
  have "(2 :: nat) ^ k \<le> 2 ^ 32" using a(3) by (intro power_increasing) simp_all
  then have "a < 2 ^ LENGTH(32)" "b < 2 ^ LENGTH(32)" using a(1,2) by auto
  then have "unat (word_of_nat a :: addr) = a" "unat (word_of_nat b :: addr) = b"
    by (simp_all add: unsigned_of_nat take_bit_nat_eq_self)
  then show "a = b" using a(4) by metis
qed

lemma offsets_inj:
  assumes "k \<le> 32" and "(net :: addr) AND mask k = 0" and "a < 2 ^ k" and "b < 2 ^ k"
    and "net OR word_of_nat a = net OR word_of_nat b"
  shows "a = b"
  using low_bits(2) [OF assms(1,3,2)] low_bits(2) [OF assms(1,4,2)] assms(5)
    word_of_nat_eq_small [OF assms(3,4,1)] by metis

lemma unat_mask: "k \<le> 32 \<Longrightarrow> unat (mask k :: addr) = 2 ^ k - 1"
proof -
  assume k: "k \<le> 32"
  have "(mask k :: addr) = word_of_nat (mask k)" by (simp only: of_nat_mask_eq)
  then have "unat (mask k :: addr) = take_bit 32 (mask k)" by (simp only: unsigned_of_nat) simp
  also have "take_bit 32 (mask k) = (mask (min 32 k) :: nat)" by (rule take_bit_of_mask)
  also have "min 32 k = k" using k by simp
  finally show ?thesis by (simp only: mask_eq_exp_minus_1)
qed

text \<open>On a subnet with \<open>k\<close> host bits the sweep probes distinct addresses of that subnet, at most 509
  of them, never the hub itself, the network address or an address ending in .1.\<close>
theorem sweep_targets_in_subnet:
  assumes "k \<le> 32" and "net AND mask k = 0"
    and "ts = enumerate_sweep_targets (inet_ntoa net) (inet_ntoa (NOT (mask k))) own_ip"
  shows "distinct ts \<and> length ts \<le> 509 \<and> own_ip \<notin> set ts \<and> inet_ntoa net \<notin> set ts \<and>
    (\<forall>t\<in>set ts. \<not> endswith ''.1'' t \<and> (\<exists>a. inet_aton t = Some a \<and> a AND NOT (mask k) = net))"
proof -
  define n where "n = (if MAX_HOSTS_PER_SWEEP < unat (mask k :: addr) then MAX_HOSTS_PER_SWEEP else unat (mask k :: addr))"
  have mk: "unat (mask k :: addr) = 2 ^ k - 1"
    using assms(1) by (rule unat_mask)
  have n: "n \<le> 510" "n < 2 ^ k" by (auto simp: n_def MAX_HOSTS_PER_SWEEP_def mk)
  let ?f = "\<lambda>offset. inet_ntoa (net OR word_of_nat offset)"
  have ts: "ts = List.filter (\<lambda>s. s \<noteq> own_ip \<and> \<not> endswith ''.1'' s) (List.map ?f [1..<n])"
    by (auto simp: assms(3) enumerate_sweep_targets_def Let_def n_def MAX_HOSTS_PER_SWEEP_def)
  have inj: "inj_on ?f {1..<n}"
    using offsets_inj [OF assms(1,2)] n(2) by (auto simp: inj_on_def)
  have "distinct (List.map ?f [1..<n])" using inj by (simp add: distinct_map)
  then have d: "distinct ts" by (simp add: ts)
  have "length ts \<le> length (List.map ?f [1..<n])" unfolding ts by (rule length_filter_le)
  then have l: "length ts \<le> 509" using n(1) by simp
  have ne: "?f off \<noteq> inet_ntoa net" if "off \<in> {1..<n}" for off
  proof
    assume "?f off = inet_ntoa net"
    then have "net OR word_of_nat off = net OR word_of_nat 0" by simp
    with offsets_inj [OF assms(1,2), of off 0] that n(2) show False by simp
  qed
  have "inet_ntoa net \<notin> ?f ` {1..<n}"
  proof
    assume "inet_ntoa net \<in> ?f ` {1..<n}"
    then obtain off where "inet_ntoa net = ?f off" "off \<in> {1..<n}" by (rule imageE)
    then show False using ne [of off] by metis
  qed
  then have "inet_ntoa net \<notin> set ts" by (simp add: ts)
  moreover have "\<exists>a. inet_aton (?f off) = Some a \<and> a AND NOT (mask k) = net" if "off \<in> {1..<n}" for off
    using low_bits(1) [OF assms(1) _ assms(2), of off] that n(2) by simp
  ultimately show ?thesis using d l by (auto simp: ts)
qed

lemma sweep_targets_in_subnet_witness:
  "distinct (enumerate_sweep_targets (inet_ntoa 0xC0A80100) (inet_ntoa (NOT (mask 8))) ''192.168.1.47'')"
proof -
  have "(8 :: nat) \<le> 32" "(0xC0A80100 :: addr) AND mask 8 = 0" by (simp, code_simp)
  from sweep_targets_in_subnet [OF this refl] show ?thesis by (rule conjunct1)
qed

end
