(* ===== verification/IpAllocator.thy ===== *)
theory IpAllocator
  imports Net
begin

unbundle bit_operations_syntax

text \<open>
  \<open>makeros_hub/vprinter/ip_allocator.py\<close>: the bindings of printer models to LAN addresses. Commands
  run through \<open>ae_run\<close>, which sees how many effects came before and the full argument list; every
  command and every save of the state file is appended to \<open>al_log\<close>, so that their order can be
  stated. \<open>al_file\<close> is the content of the state file.
\<close>

datatype run_result = Ran int string | RunFailed string

datatype effect = Run "string list" | Save "(string, string \<times> string) odict"

record alloc =
  al_bindings :: "(string, string \<times> string) odict"
  al_file :: "(string, string \<times> string) odict"
  al_log :: "effect list"

record alloc_env =
  ae_run :: "nat \<Rightarrow> string list \<Rightarrow> run_result"
  ae_save_ok :: bool
  ae_iface :: "string option"
  ae_own_ip :: "string option"
  ae_netmask :: "string option"
  ae_routed :: "string \<Rightarrow> bool option"

text \<open>\<open>ae_routed\<close> is membership in the routed prefix (\<open>None\<close>: the address does not parse); it is
  constantly \<open>Some False\<close> when no prefix is set. \<open>ae_iface\<close> is the override or the guessed interface,
  \<open>ae_own_ip\<close> and \<open>ae_netmask\<close> likewise.\<close>

record alloc_result =
  ar_success :: bool
  ar_model :: string
  ar_bind_ip :: "string option"
  ar_iface :: "string option"
  ar_error :: "string option"
  ar_tried :: nat

definition MAX_CANDIDATES :: nat where
  "MAX_CANDIDATES = 32"

definition failure :: "string \<Rightarrow> string option \<Rightarrow> string \<Rightarrow> nat \<Rightarrow> alloc_result" where
  "failure model iface err tried = \<lparr>ar_success = False, ar_model = model, ar_bind_ip = None,
     ar_iface = iface, ar_error = Some err, ar_tried = tried\<rparr>"

section \<open>Persistence and commands\<close>

text \<open>\<open>_load\<close> of the entries of the state file's \<open>bindings\<close>.\<close>

fun load_bindings :: "(string \<times> pyval) list \<Rightarrow> (string, string \<times> string) odict \<Rightarrow> (string, string \<times> string) odict" where
  "load_bindings [] acc = acc"
| "load_bindings ((model, entry) # es) acc =
     (case entry of
        PDict d \<Rightarrow> (case (pget d ''bind_ip'', pget d ''iface'') of
            (PStr ip, PStr iface) \<Rightarrow> load_bindings es (AList.update model (ip, iface) acc)
          | _ \<Rightarrow> load_bindings es acc)
      | _ \<Rightarrow> load_bindings es acc)"

definition save :: "alloc_env \<Rightarrow> alloc \<Rightarrow> alloc" where
  "save env a = a\<lparr>al_file := (if ae_save_ok env then al_bindings a else al_file a),
     al_log := al_log a @ [Save (al_bindings a)]\<rparr>"

definition run_cmd :: "alloc_env \<Rightarrow> string list \<Rightarrow> alloc \<Rightarrow> run_result \<times> alloc" where
  "run_cmd env argv a = (ae_run env (length (al_log a)) argv, a\<lparr>al_log := al_log a @ [Run argv]\<rparr>)"

definition arping_argv :: "string \<Rightarrow> string \<Rightarrow> string list" where
  "arping_argv ip iface = [''sudo'', ''-n'', ''/usr/sbin/arping'', ''-c'', ''1'', ''-w'', ''1'', ''-I'', iface, ip]"

definition claim_argv :: "string \<Rightarrow> string \<Rightarrow> string list" where
  "claim_argv ip iface = [''sudo'', ''-n'', ''/sbin/ip'', ''addr'', ''add'', ip @ ''/32'', ''dev'', iface]"

definition release_argv :: "string \<Rightarrow> string \<Rightarrow> string list" where
  "release_argv ip iface = [''sudo'', ''-n'', ''/sbin/ip'', ''addr'', ''del'', ip @ ''/32'', ''dev'', iface]"

fun contains :: "string \<Rightarrow> string \<Rightarrow> bool" where
  "contains p [] = (p = [])"
| "contains p (c # cs) = (startswith p (c # cs) \<or> contains p cs)"

definition arping_replied :: "alloc_env \<Rightarrow> string \<Rightarrow> string \<Rightarrow> alloc \<Rightarrow> bool \<times> alloc" where
  "arping_replied env ip iface a = (let (r, a') = run_cmd env (arping_argv ip iface) a
     in ((case r of Ran rc err \<Rightarrow> rc = 0 | RunFailed e \<Rightarrow> False), a'))"

definition ip_is_free :: "alloc_env \<Rightarrow> string \<Rightarrow> string \<Rightarrow> alloc \<Rightarrow> bool \<times> alloc" where
  "ip_is_free env ip iface a =
     (let (r1, a1) = arping_replied env ip iface a
      in if r1 then (False, a1)
         else (let (r2, a2) = arping_replied env ip iface a1 in (\<not> r2, a2)))"

text \<open>The error of a claim or release, \<open>None\<close> on success.\<close>

definition ip_error :: "string list \<Rightarrow> string \<Rightarrow> run_result \<Rightarrow> string option" where
  "ip_error harmless verb r = (case r of
      RunFailed e \<Rightarrow> Some e
    | Ran rc err \<Rightarrow>
        if rc = 0 then None
        else (let t = lower err
              in if list_ex (\<lambda>h. contains h t) harmless then None
                 else Some (if strip t \<noteq> [] then strip t else ''ip addr '' @ verb @ '' rc='' @ int_str rc)))"

definition claim_ip :: "alloc_env \<Rightarrow> string \<Rightarrow> string \<Rightarrow> alloc \<Rightarrow> string option \<times> alloc" where
  "claim_ip env ip iface a = (let (r, a') = run_cmd env (claim_argv ip iface) a
     in (ip_error [''file exists'', ''already assigned''] ''add'' r, a'))"

definition release_ip :: "alloc_env \<Rightarrow> string \<Rightarrow> string \<Rightarrow> alloc \<Rightarrow> string option \<times> alloc" where
  "release_ip env ip iface a = (let (r, a') = run_cmd env (release_argv ip iface) a
     in (ip_error [''cannot assign'', ''no such''] ''del'' r, a'))"

section \<open>Candidates\<close>

text \<open>The walk from the top of the host range down to offset 2; \<open>room\<close> is what the cap leaves.\<close>

fun candidate_loop :: "addr \<Rightarrow> string list \<Rightarrow> nat \<Rightarrow> nat \<Rightarrow> string list" where
  "candidate_loop network skip room 0 = []"
| "candidate_loop network skip room (Suc n) =
     (let offset = Suc n
      in if offset < 2 then []
         else (let s = inet_ntoa (network OR word_of_nat offset)
               in if s \<in> set skip then candidate_loop network skip room n
                  else if room \<le> 1 then [s]
                  else s # candidate_loop network skip (room - 1) n))"

definition enumerate_candidates :: "string \<Rightarrow> string \<Rightarrow> string list \<Rightarrow> string list" where
  "enumerate_candidates own_ip netmask exclude = (case (inet_aton own_ip, inet_aton netmask) of
      (Some ip, Some m) \<Rightarrow>
        (let network = ip AND m; host_bits = unat (NOT m)
         in if host_bits = 0 then []
            else candidate_loop network
                   (own_ip # exclude @ [inet_ntoa network, inet_ntoa (network OR NOT m), inet_ntoa (network OR 1)])
                   MAX_CANDIDATES (host_bits - 1))
    | _ \<Rightarrow> [])"

section \<open>Operations\<close>

fun try_candidates :: "alloc_env \<Rightarrow> string \<Rightarrow> string \<Rightarrow> string list \<Rightarrow> nat \<Rightarrow> alloc \<Rightarrow> alloc_result \<times> alloc" where
  "try_candidates env model iface [] tried a = (failure model (Some iface) ''no_free_ip'' tried, a)"
| "try_candidates env model iface (c # cs) tried a =
     (let (free, a1) = ip_is_free env c iface a
      in if \<not> free then try_candidates env model iface cs (tried + 1) a1
         else (let (err, a2) = claim_ip env c iface a1
               in (case err of
                     None \<Rightarrow>
                       (\<lparr>ar_success = True, ar_model = model, ar_bind_ip = Some c, ar_iface = Some iface,
                         ar_error = None, ar_tried = tried + 1\<rparr>,
                        save env (a2\<lparr>al_bindings := AList.update model (c, iface) (al_bindings a2)\<rparr>))
                   | Some e \<Rightarrow> try_candidates env model iface cs (tried + 1) a2)))"

definition allocate_fresh :: "alloc_env \<Rightarrow> string \<Rightarrow> alloc \<Rightarrow> alloc_result \<times> alloc" where
  "allocate_fresh env model a = (case ae_iface env of
      None \<Rightarrow> (failure model None ''no_iface'' 0, a)
    | Some iface \<Rightarrow> (case (ae_own_ip env, ae_netmask env) of
          (Some own_ip, Some netmask) \<Rightarrow>
            (let bound = List.map fst (dict_values (al_bindings a));
                 cands = enumerate_candidates own_ip netmask bound
             in if cands = [] then (failure model (Some iface) ''no_candidates'' 0, a)
                else try_candidates env model iface (take MAX_CANDIDATES cands) 0 a)
        | _ \<Rightarrow> (failure model (Some iface) ''no_subnet'' 0, a)))"

definition allocate_for :: "alloc_env \<Rightarrow> string \<Rightarrow> alloc \<Rightarrow> alloc_result \<times> alloc" where
  "allocate_for env model a = (case map_of (al_bindings a) model of
      Some (ip, iface) \<Rightarrow>
        (let (err, a1) = claim_ip env ip iface a
         in if err = None then
              (\<lparr>ar_success = True, ar_model = model, ar_bind_ip = Some ip, ar_iface = Some iface,
                ar_error = None, ar_tried = 0\<rparr>, a1)
            else allocate_fresh env model (save env (a1\<lparr>al_bindings := AList.delete model (al_bindings a1)\<rparr>)))
    | None \<Rightarrow> allocate_fresh env model a)"

definition ensure_claimed :: "alloc_env \<Rightarrow> string \<Rightarrow> string \<Rightarrow> alloc \<Rightarrow> alloc_result \<times> alloc" where
  "ensure_claimed env model bind_ip0 a =
     (let bind_ip = strip bind_ip0; existing = map_of (al_bindings a) model
      in (case ae_routed env bind_ip of
            None \<Rightarrow> (failure model None ''invalid bind ip'' 0, a)
          | Some routed \<Rightarrow>
              (let iface = (if routed then Some ''lo''
                     else (case existing of
                        Some (ip, i) \<Rightarrow> if ip = bind_ip \<and> i \<noteq> [] then Some i else ae_iface env
                      | None \<Rightarrow> ae_iface env))
               in (case iface of
                     None \<Rightarrow> (\<lparr>ar_success = False, ar_model = model, ar_bind_ip = Some bind_ip,
                        ar_iface = None, ar_error = Some ''no interface to claim on'', ar_tried = 0\<rparr>, a)
                   | Some i \<Rightarrow>
                       (let a1 = (case existing of
                              Some (oip, oif) \<Rightarrow> if oip \<noteq> bind_ip \<or> oif \<noteq> i then snd (release_ip env oip oif a) else a
                            | None \<Rightarrow> a);
                            a2 = save env (a1\<lparr>al_bindings := AList.update model (bind_ip, i) (al_bindings a1)\<rparr>);
                            (err, a3) = claim_ip env bind_ip i a2
                        in (\<lparr>ar_success = (err = None), ar_model = model, ar_bind_ip = Some bind_ip,
                              ar_iface = Some i, ar_error = err, ar_tried = 0\<rparr>, a3))))))"

definition release :: "alloc_env \<Rightarrow> string \<Rightarrow> alloc \<Rightarrow> alloc_result \<times> alloc" where
  "release env model a =
     (let existing = map_of (al_bindings a) model;
          a1 = save env (a\<lparr>al_bindings := AList.delete model (al_bindings a)\<rparr>)
      in (case existing of
            None \<Rightarrow> (\<lparr>ar_success = True, ar_model = model, ar_bind_ip = None, ar_iface = None,
              ar_error = None, ar_tried = 0\<rparr>, a1)
          | Some (ip, iface) \<Rightarrow>
              (let (err, a2) = release_ip env ip iface a1
               in (\<lparr>ar_success = True, ar_model = model, ar_bind_ip = Some ip, ar_iface = Some iface,
                 ar_error = err, ar_tried = 0\<rparr>, a2))))"

section \<open>Lemmas\<close>

lemma candidate_loop_props:
  assumes "k \<le> 32" and "network AND mask k = 0" and "n < 2 ^ k" and "0 < room"
  shows "length (candidate_loop network skip room n) \<le> room \<and> distinct (candidate_loop network skip room n) \<and>
    (\<forall>s\<in>set (candidate_loop network skip room n). s \<notin> set skip \<and>
      (\<exists>off. 2 \<le> off \<and> off \<le> n \<and> s = inet_ntoa (network OR word_of_nat off)))"
  using assms(3,4)
proof (induction n arbitrary: room)
  case (Suc n)
  let ?s = "inet_ntoa (network OR word_of_nat (Suc n))"
  have n: "n < 2 ^ k" using Suc.prems(1) by simp
  have up: "\<exists>off. 2 \<le> off \<and> off \<le> Suc n \<and> s = inet_ntoa (network OR word_of_nat off)"
    if "\<exists>off. 2 \<le> off \<and> off \<le> n \<and> s = inet_ntoa (network OR word_of_nat off)" for s
    using that le_SucI by blast
  have here: "\<exists>off. 2 \<le> off \<and> off \<le> Suc n \<and> ?s = inet_ntoa (network OR word_of_nat off)" if "2 \<le> Suc n"
    using that by blast
  consider "Suc n < 2" | "2 \<le> Suc n" "?s \<in> set skip" | "2 \<le> Suc n" "?s \<notin> set skip" "room \<le> 1"
    | "2 \<le> Suc n" "?s \<notin> set skip" "1 < room" by linarith
  then show ?case
  proof cases
    case 2
    then have "candidate_loop network skip room (Suc n) = candidate_loop network skip room n"
      by (simp add: Let_def)
    with Suc.IH [OF n Suc.prems(2)] up show ?thesis by simp
  next
    case 3
    then have "candidate_loop network skip room (Suc n) = [?s]" by (simp add: Let_def)
    then show ?thesis using 3(2) here [OF 3(1)] Suc.prems(2) by simp
  next
    case 4
    then have e: "candidate_loop network skip room (Suc n) = ?s # candidate_loop network skip (room - 1) n"
      by (simp add: Let_def)
    have IH: "length (candidate_loop network skip (room - 1) n) \<le> room - 1"
      "distinct (candidate_loop network skip (room - 1) n)"
      "\<forall>s\<in>set (candidate_loop network skip (room - 1) n). s \<notin> set skip \<and>
        (\<exists>off. 2 \<le> off \<and> off \<le> n \<and> s = inet_ntoa (network OR word_of_nat off))"
      using Suc.IH [OF n, of "room - 1"] 4(3) by simp_all
    have "?s \<noteq> inet_ntoa (network OR word_of_nat off)" if "off \<le> n" for off
    proof
      assume "?s = inet_ntoa (network OR word_of_nat off)"
      then have "network OR word_of_nat (Suc n) = network OR word_of_nat off" by (simp only: inet_ntoa_inj)
      moreover have "off < 2 ^ k" using that n by simp
      ultimately have "Suc n = off" using offsets_inj [OF assms(1,2) Suc.prems(1)] by blast
      then show False using that by simp
    qed
    then have "?s \<notin> set (candidate_loop network skip (room - 1) n)" using IH(3) by blast
    moreover have "\<forall>s\<in>set (candidate_loop network skip (room - 1) n). s \<notin> set skip \<and>
        (\<exists>off. 2 \<le> off \<and> off \<le> Suc n \<and> s = inet_ntoa (network OR word_of_nat off))"
      using IH(3) up by blast
    moreover note here [OF 4(1)]
    ultimately show ?thesis using IH(1,2) 4 unfolding e by simp
  qed simp
qed simp

lemma enumerate_candidates_props:
  assumes "k \<le> 32" and "inet_aton own_ip = Some ip"
    and cs_def: "cs = enumerate_candidates own_ip (inet_ntoa (NOT (mask k))) exclude"
  shows "length cs \<le> MAX_CANDIDATES" and "distinct cs"
    and "c \<in> set cs \<Longrightarrow> c \<noteq> own_ip \<and> c \<notin> set exclude \<and>
      (\<exists>a. c = inet_ntoa a \<and> a AND NOT (mask k) = ip AND NOT (mask k) \<and> a \<noteq> ip AND NOT (mask k) \<and> a \<noteq> ip OR mask k \<and>
        a \<noteq> ip AND NOT (mask k) OR 1)"
proof -
  let ?net = "ip AND NOT (mask k)"
  let ?skip = "own_ip # exclude @ [inet_ntoa ?net, inet_ntoa (?net OR mask k), inet_ntoa (?net OR 1)]"
  have net: "?net AND mask k = 0" by (simp add: and.assoc)
  have bc: "?net OR mask k = ip OR mask k"
    by (simp add: bit.disj_conj_distrib2)
  have "cs = [] \<or> cs = candidate_loop ?net ?skip MAX_CANDIDATES (2 ^ k - 1 - 1)"
    using unat_mask [OF assms(1)] by (simp add: cs_def enumerate_candidates_def assms(2) Let_def)
  moreover have "length [] \<le> MAX_CANDIDATES" by simp
  moreover note candidate_loop_props [OF assms(1) net, of "2 ^ k - 1 - 1" MAX_CANDIDATES ?skip]
  moreover have "(2 :: nat) ^ k - 1 - 1 < 2 ^ k" "0 < MAX_CANDIDATES" by (simp_all add: MAX_CANDIDATES_def less_imp_diff_less)
  ultimately have props: "length cs \<le> MAX_CANDIDATES \<and> distinct cs \<and>
    (\<forall>s\<in>set cs. s \<notin> set ?skip \<and> (\<exists>off. 2 \<le> off \<and> off \<le> 2 ^ k - 1 - 1 \<and> s = inet_ntoa (?net OR word_of_nat off)))"
    by fastforce
  then show "length cs \<le> MAX_CANDIDATES" "distinct cs" by auto
  assume c: "c \<in> set cs"
  with props obtain off where off: "c \<notin> set ?skip" "off \<le> 2 ^ k - 1 - 1" "c = inet_ntoa (?net OR word_of_nat off)"
    by blast
  have "off < 2 ^ k" using off(2) by (metis diff_diff_left diff_less le_less_trans zero_less_numeral zero_less_power
      add_gr_0 zero_less_one)
  then have "(?net OR word_of_nat off) AND NOT (mask k) = ?net"
    using low_bits(1) [OF assms(1) _ net] by blast
  then show "c \<noteq> own_ip \<and> c \<notin> set exclude \<and>
      (\<exists>a. c = inet_ntoa a \<and> a AND NOT (mask k) = ip AND NOT (mask k) \<and> a \<noteq> ip AND NOT (mask k) \<and> a \<noteq> ip OR mask k \<and>
        a \<noteq> ip AND NOT (mask k) OR 1)"
    using off(1,3) bc by auto
qed

text \<open>A command that was run as the \<open>n\<close>-th effect, and its outcome.\<close>

definition no_reply :: "alloc_env \<Rightarrow> nat \<Rightarrow> string \<Rightarrow> string \<Rightarrow> bool" where
  "no_reply env n ip iface \<longleftrightarrow> (\<forall>err. ae_run env n (arping_argv ip iface) \<noteq> Ran 0 err)"

definition claimed :: "alloc_env \<Rightarrow> nat \<Rightarrow> string \<Rightarrow> string \<Rightarrow> bool" where
  "claimed env n ip iface \<longleftrightarrow>
     ip_error [''file exists'', ''already assigned''] ''add'' (ae_run env n (claim_argv ip iface)) = None"

lemma ip_is_free_eqs:
  "al_bindings (snd (ip_is_free env ip iface a)) = al_bindings a"
  "fst (ip_is_free env ip iface a) \<Longrightarrow>
     al_log (snd (ip_is_free env ip iface a)) = al_log a @ [Run (arping_argv ip iface), Run (arping_argv ip iface)] \<and>
     no_reply env (length (al_log a)) ip iface \<and> no_reply env (Suc (length (al_log a))) ip iface"
  "\<exists>pre. al_log (snd (ip_is_free env ip iface a)) = al_log a @ pre"
  by (auto simp: ip_is_free_def arping_replied_def run_cmd_def no_reply_def case_prod_beta Let_def
      split: run_result.splits if_splits)

lemma claim_ip_eqs:
  "al_bindings (snd (claim_ip env ip iface a)) = al_bindings a"
  "al_file (snd (claim_ip env ip iface a)) = al_file a"
  "al_log (snd (claim_ip env ip iface a)) = al_log a @ [Run (claim_argv ip iface)]"
  "fst (claim_ip env ip iface a) = None \<longleftrightarrow> claimed env (length (al_log a)) ip iface"
  by (simp_all add: claim_ip_def run_cmd_def claimed_def)

text \<open>What an allocation leaves in the log: two unanswered ARP probes of the address, its claim, and
  only then the save.\<close>

definition fresh_trace :: "alloc_env \<Rightarrow> string \<Rightarrow> string \<Rightarrow> alloc \<Rightarrow> alloc \<Rightarrow> bool" where
  "fresh_trace env ip iface a a' \<longleftrightarrow> (\<exists>pre.
     al_log a' = al_log a @ pre @ [Run (arping_argv ip iface), Run (arping_argv ip iface),
       Run (claim_argv ip iface), Save (al_bindings a')] \<and>
     no_reply env (length (al_log a @ pre)) ip iface \<and> no_reply env (Suc (length (al_log a @ pre))) ip iface \<and>
     claimed env (Suc (Suc (length (al_log a @ pre)))) ip iface)"

lemma fresh_trace_extend: "fresh_trace env ip iface a1 a' \<Longrightarrow> al_log a1 = al_log a @ pre \<Longrightarrow> fresh_trace env ip iface a a'"
  unfolding fresh_trace_def by (metis append.assoc)

lemma al_bindings_save [simp]: "al_bindings (save env a) = al_bindings a"
  by (simp add: save_def)

lemma try_candidates_result:
  "(case try_candidates env model iface cs tried a of (r, a') \<Rightarrow>
     if ar_success r then (\<exists>c\<in>set cs. ar_bind_ip r = Some c \<and> ar_iface r = Some iface \<and> 0 < ar_tried r \<and>
         al_bindings a' = AList.update model (c, iface) (al_bindings a) \<and> fresh_trace env c iface a a')
     else al_bindings a' = al_bindings a)"
proof (induction cs arbitrary: tried a)
  case (Cons c cs)
  obtain free a1 where f: "ip_is_free env c iface a = (free, a1)" by (metis surj_pair)
  obtain err a2 where cl: "claim_ip env c iface a1 = (err, a2)" by (metis surj_pair)
  have a1: "al_bindings a1 = al_bindings a" "\<exists>pre. al_log a1 = al_log a @ pre"
    using ip_is_free_eqs(1,3) [of env c iface a] f by simp_all
  have a2: "al_bindings a2 = al_bindings a1" "al_log a2 = al_log a1 @ [Run (claim_argv c iface)]"
    "err = None \<longleftrightarrow> claimed env (length (al_log a1)) c iface"
    using claim_ip_eqs [of env c iface a1] cl by simp_all
  have step: ?case if e: "try_candidates env model iface (c # cs) tried a = try_candidates env model iface cs (tried + 1) b"
    and b: "al_bindings b = al_bindings a" "\<exists>pre. al_log b = al_log a @ pre" for b
    using Cons.IH [of b "tried + 1"] e b by (auto split: prod.splits if_splits dest: fresh_trace_extend)
  show ?case
  proof (cases "free \<and> err = None")
    case True
    have l1: "al_log a1 = al_log a @ [Run (arping_argv c iface), Run (arping_argv c iface)]"
      "no_reply env (length (al_log a)) c iface" "no_reply env (Suc (length (al_log a))) c iface"
      using ip_is_free_eqs(2) [of env c iface a] f True by simp_all
    let ?a' = "save env (a2\<lparr>al_bindings := AList.update model (c, iface) (al_bindings a2)\<rparr>)"
    have "fresh_trace env c iface a ?a'"
      unfolding fresh_trace_def by (rule exI [of _ "[]"]) (use l1 a2 True in \<open>simp add: save_def\<close>)
    then show ?thesis using True f cl a1(1) a2(1) by simp
  next
    case False
    show ?thesis
    proof (cases free)
      case True
      then obtain e where "err = Some e" using False by auto
      then have "try_candidates env model iface (c # cs) tried a = try_candidates env model iface cs (tried + 1) a2"
        using True f cl by simp
      then show ?thesis using step [of a2] a1 a2 by auto
    next
      case notfree: False
      then have "try_candidates env model iface (c # cs) tried a = try_candidates env model iface cs (tried + 1) a1"
        using f by simp
      then show ?thesis using step [of a1] a1 by simp
    qed
  qed
qed (simp add: failure_def)

lemma try_candidates_tried:
  "ar_tried (fst (try_candidates env model iface cs tried a)) \<le> tried + length cs \<and>
   (ar_success (fst (try_candidates env model iface cs tried a)) \<or> al_file (snd (try_candidates env model iface cs tried a)) = al_file a)"
proof (induction cs arbitrary: tried a)
  case Nil
  show ?case by (simp add: failure_def)
next
  case (Cons c cs)
  have same: "al_file (snd (ip_is_free env c iface b)) = al_file b" "al_file (snd (claim_ip env c iface b)) = al_file b" for b
    by (simp_all add: ip_is_free_def arping_replied_def run_cmd_def claim_ip_def case_prod_beta Let_def)
  let ?a1 = "snd (ip_is_free env c iface a)"
  let ?a2 = "snd (claim_ip env c iface ?a1)"
  show ?case
    using Cons.IH [of "tried + 1" ?a1] Cons.IH [of "tried + 1" ?a2] same(1) [of a] same(2) [of ?a1]
    by (auto simp: case_prod_beta Let_def split: option.splits)
qed

text \<open>An address of the subnet that a virtual printer may have: not the network, the broadcast or the router address.\<close>

definition host_of :: "nat \<Rightarrow> addr \<Rightarrow> addr \<Rightarrow> bool" where
  "host_of k ip addr \<longleftrightarrow> addr AND NOT (mask k) = ip AND NOT (mask k) \<and> addr \<noteq> ip AND NOT (mask k) \<and>
     addr \<noteq> ip OR mask k \<and> addr \<noteq> ip AND NOT (mask k) OR 1"

definition bound_ips :: "alloc \<Rightarrow> string set" where
  "bound_ips a = {c. \<exists>m i. map_of (al_bindings a) m = Some (c, i)}"

lemma bound_listed: "c \<notin> set (List.map fst (dict_values (al_bindings a))) \<Longrightarrow> c \<notin> bound_ips a"
  by (force simp: bound_ips_def dict_values_def dest: map_of_SomeD)

lemma allocate_fresh_result:
  assumes "k \<le> 32" and "ae_own_ip env = Some own" and "inet_aton own = Some ip"
    and "ae_netmask env = Some (inet_ntoa (NOT (mask k)))" and "allocate_fresh env model a = (r, a')"
  shows "ar_tried r \<le> MAX_CANDIDATES \<and>
    (if ar_success r then \<exists>c iface addr. ar_bind_ip r = Some c \<and> ar_iface r = Some iface \<and>
       al_bindings a' = AList.update model (c, iface) (al_bindings a) \<and> fresh_trace env c iface a a' \<and>
       c \<notin> bound_ips a \<and> c \<noteq> own \<and> c = inet_ntoa addr \<and> host_of k ip addr
     else al_bindings a' = al_bindings a \<and> al_file a' = al_file a)"
proof -
  let ?bound = "List.map fst (dict_values (al_bindings a))"
  let ?cs = "enumerate_candidates own (inet_ntoa (NOT (mask k))) ?bound"
  note cands = enumerate_candidates_props(3) [OF assms(1,3) refl, of _ ?bound]
  show ?thesis
  proof (cases "ae_iface env = None \<or> ?cs = []")
    case True
    then show ?thesis
      using assms(2,4,5) by (auto simp: allocate_fresh_def failure_def Let_def split: option.splits)
  next
    case False
    then obtain iface where tc: "try_candidates env model iface (take MAX_CANDIDATES ?cs) 0 a = (r, a')"
      using assms(2,4,5) by (auto simp: allocate_fresh_def Let_def)
    note res = try_candidates_result [where env = env and model = model and iface = iface and tried = 0 and a = a
        and cs = "take MAX_CANDIDATES ?cs", unfolded tc]
    note tried = try_candidates_tried [where env = env and model = model and iface = iface and tried = 0 and a = a
        and cs = "take MAX_CANDIDATES ?cs", unfolded tc]
    have le: "ar_tried r \<le> MAX_CANDIDATES" using tried by simp
    show ?thesis
    proof (cases "ar_success r")
      case True
      with res obtain c where c: "c \<in> set ?cs" "ar_bind_ip r = Some c" "ar_iface r = Some iface"
        "al_bindings a' = AList.update model (c, iface) (al_bindings a)" "fresh_trace env c iface a a'"
        by (auto dest: in_set_takeD)
      from cands [OF c(1)] obtain addr where "c \<noteq> own" "c \<notin> set ?bound" "c = inet_ntoa addr" "host_of k ip addr"
        unfolding host_of_def by blast
      then show ?thesis using c True bound_listed le by auto
    next
      case no: False
      then show ?thesis using res tried le by auto
    qed
  qed
qed

section \<open>Properties of the allocator\<close>


text \<open>\<open>ensure_claimed\<close> writes the binding to the state file before it runs the claim, so a crash in
  between is repaired by the next start; a changed binding releases the old address first.\<close>
theorem ensure_claimed_persists_first:
  assumes "ae_routed env (strip bind_ip) \<noteq> None" and "ae_iface env = Some iface0" and "ae_save_ok env"
  shows "\<exists>iface pre. al_log (snd (ensure_claimed env model bind_ip a)) = al_log a @ pre @
      [Save (al_bindings (snd (ensure_claimed env model bind_ip a))), Run (claim_argv (strip bind_ip) iface)] \<and>
    map_of (al_file (snd (ensure_claimed env model bind_ip a))) model = Some (strip bind_ip, iface) \<and>
    (pre = [] \<or> (\<exists>oip oif. map_of (al_bindings a) model = Some (oip, oif) \<and> pre = [Run (release_argv oip oif)] \<and>
       (oip, oif) \<noteq> (strip bind_ip, iface)))"
proof -
  obtain routed where routed: "ae_routed env (strip bind_ip) = Some routed" using assms(1) by blast
  let ?iface = "if routed then ''lo'' else (case map_of (al_bindings a) model of
      Some (ip, i) \<Rightarrow> if ip = strip bind_ip \<and> i \<noteq> [] then i else iface0 | None \<Rightarrow> iface0)"
  have core: "\<exists>a1 pre. ensure_claimed env model bind_ip a =
      (let a2 = save env (a1\<lparr>al_bindings := AList.update model (strip bind_ip, ?iface) (al_bindings a1)\<rparr>);
           (err, a3) = claim_ip env (strip bind_ip) ?iface a2
       in (\<lparr>ar_success = (err = None), ar_model = model, ar_bind_ip = Some (strip bind_ip),
            ar_iface = Some ?iface, ar_error = err, ar_tried = 0\<rparr>, a3)) \<and>
      al_log a1 = al_log a @ pre \<and>
      (pre = [] \<or> (\<exists>oip oif. map_of (al_bindings a) model = Some (oip, oif) \<and> pre = [Run (release_argv oip oif)] \<and>
       (oip, oif) \<noteq> (strip bind_ip, ?iface)))"
    using routed assms(2)
    by (intro exI [of _ "case map_of (al_bindings a) model of None \<Rightarrow> a
          | Some (oip, oif) \<Rightarrow> if oip \<noteq> strip bind_ip \<or> oif \<noteq> ?iface then snd (release_ip env oip oif a) else a"]
        exI [of _ "case map_of (al_bindings a) model of None \<Rightarrow> []
          | Some (oip, oif) \<Rightarrow> if oip \<noteq> strip bind_ip \<or> oif \<noteq> ?iface then [Run (release_argv oip oif)] else []"])
      (auto simp: ensure_claimed_def Let_def release_ip_def run_cmd_def split: option.splits prod.splits)
  then obtain a1 pre where e: "ensure_claimed env model bind_ip a =
      (let a2 = save env (a1\<lparr>al_bindings := AList.update model (strip bind_ip, ?iface) (al_bindings a1)\<rparr>);
           (err, a3) = claim_ip env (strip bind_ip) ?iface a2
       in (\<lparr>ar_success = (err = None), ar_model = model, ar_bind_ip = Some (strip bind_ip),
            ar_iface = Some ?iface, ar_error = err, ar_tried = 0\<rparr>, a3))"
      "al_log a1 = al_log a @ pre"
      "pre = [] \<or> (\<exists>oip oif. map_of (al_bindings a) model = Some (oip, oif) \<and> pre = [Run (release_argv oip oif)] \<and>
       (oip, oif) \<noteq> (strip bind_ip, ?iface))" by blast
  show ?thesis
    by (rule exI [of _ ?iface], rule exI [of _ pre])
       (use e(2,3) assms(3) in \<open>simp add: e(1) Let_def case_prod_beta claim_ip_eqs save_def map_of_update\<close>)
qed

section \<open>A concrete allocation\<close>

definition demo_alloc_env :: alloc_env where
  "demo_alloc_env = \<lparr>ae_run = (\<lambda>n argv. if argv ! 2 = ''/sbin/ip'' then Ran 0 [] else Ran 1 []), ae_save_ok = True,
     ae_iface = Some ''eth0'', ae_own_ip = Some (inet_ntoa 0xC0A80131), ae_netmask = Some (inet_ntoa (NOT (mask 2))),
     ae_routed = (\<lambda>s. Some False)\<rparr>"

definition empty_alloc :: alloc where
  "empty_alloc = \<lparr>al_bindings = [], al_file = [], al_log = []\<rparr>"

lemma demo_candidates:
  "\<exists>c cs. take MAX_CANDIDATES (enumerate_candidates (inet_ntoa 0xC0A80131) (inet_ntoa (NOT (mask 2))) []) = c # cs"
proof -
  have n: "unat (mask 2 :: addr) - Suc 0 = Suc (Suc 0)" by (simp add: unat_mask)
  have words: "(0xC0A80131 :: addr) AND NOT (mask 2) = 0xC0A80130" "(0xC0A80130 :: addr) OR 2 = 0xC0A80132"
    "(0xC0A80130 :: addr) OR 1 = 0xC0A80131" "(0xC0A80130 :: addr) OR mask 2 = 0xC0A80133"
    by code_simp+
  have "unat (mask 2 :: addr) \<noteq> 0" by (simp add: unat_mask)
  then show ?thesis
    by (simp add: enumerate_candidates_def n words MAX_CANDIDATES_def Let_def)
qed

lemma demo_alloc_ok: "ar_success (fst (allocate_for demo_alloc_env ''P1S'' empty_alloc))"
proof -
  obtain c cs where c: "take MAX_CANDIDATES (enumerate_candidates (inet_ntoa 0xC0A80131) (inet_ntoa (NOT (mask 2))) []) = c # cs"
    using demo_candidates by blast
  then have "enumerate_candidates (inet_ntoa 0xC0A80131) (inet_ntoa (NOT (mask 2))) [] \<noteq> []" by auto
  then show ?thesis
    by (simp add: allocate_for_def allocate_fresh_def demo_alloc_env_def empty_alloc_def dict_values_def Let_def c
        ip_is_free_def arping_replied_def run_cmd_def claim_ip_def arping_argv_def claim_argv_def ip_error_def)
qed


lemma ensure_claimed_persists_first_witness:
  "\<exists>iface. map_of (al_file (snd (ensure_claimed demo_alloc_env ''P1S'' '' 192.168.1.60'' empty_alloc))) ''P1S'' =
     Some (strip '' 192.168.1.60'', iface)"
  using ensure_claimed_persists_first [of demo_alloc_env "'' 192.168.1.60''" "''eth0''" "''P1S''" empty_alloc]
  by (auto simp: demo_alloc_env_def)

end
