(* ===== verification/Jobs.thy ===== *)
theory Jobs
  imports PyText "HOL-Library.Sublist"
begin

text \<open>
  The job tracker of \<open>makeros_hub/printers/jobs.py\<close>: it watches the merged report state of one printer
  and buffers a terminal job record for every print that ends, until the cloud confirms it. The
  report is the dictionary the printer sends (\<open>pyval\<close>); the SHA-256 fingerprint, the decimal text of
  a clock reading, the ISO form of a time and \<open>str()\<close> of a float, list or dictionary are parameters.
\<close>

type_synonym report = "(string \<times> pyval) list"

record job_env =
  je_digest :: "string \<Rightarrow> string"
  je_millis :: "real \<Rightarrow> string"
  je_iso :: "real \<Rightarrow> string"
  je_rep :: "pyval \<Rightarrow> string"

datatype status = Done | Failed | Cancelled

record active_job =
  aj_key :: string
  aj_name :: "string option"
  aj_started :: real
  aj_material :: "string option"

record job_record =
  jr_key :: string
  jr_printer :: string
  jr_status :: status
  jr_started :: "string option"
  jr_ended :: string
  jr_seconds :: "int option"
  jr_filename :: "string option"
  jr_material :: "string option"

record tracker =
  tr_printer :: string
  tr_serial :: string
  tr_active :: "active_job option"
  tr_pending :: "job_record list"
  tr_last :: string

definition new_tracker :: "string \<Rightarrow> string \<Rightarrow> tracker" where
  "new_tracker printer serial = \<lparr>tr_printer = printer, tr_serial = serial, tr_active = None,
     tr_pending = [], tr_last = []\<rparr>"

definition MAX_PENDING :: nat where
  "MAX_PENDING = 500"

definition still_active :: "string list" where
  "still_active = [''RUNNING'', ''PAUSE'', ''PREPARE'', ''SLICING'', ''INIT'']"

section \<open>Reading the report\<close>

definition gcode_state :: "report \<Rightarrow> string" where
  "gcode_state merged = (case pget merged ''print'' of
      PDict p \<Rightarrow> (case pget p ''gcode_state'' of PStr s \<Rightarrow> upper s | _ \<Rightarrow> [])
    | _ \<Rightarrow> [])"

definition job_name :: "report \<Rightarrow> string option" where
  "job_name merged = (case pget merged ''print'' of
      PDict p \<Rightarrow> (case por (pget p ''subtask_name'') (pget p ''gcode_file'') of
          PStr s \<Rightarrow> if strip s \<noteq> [] then Some (py_take 300 (strip s)) else None
        | _ \<Rightarrow> None)
    | _ \<Rightarrow> None)"

definition id_text :: "pyval \<Rightarrow> string option" where
  "id_text v = (let text = (case v of PInt i \<Rightarrow> Some (int_str i)
                   | PBool b \<Rightarrow> Some (if b then ''True'' else ''False'')
                   | PStr s \<Rightarrow> Some (strip s) | _ \<Rightarrow> None)
     in case text of Some s \<Rightarrow> if s \<noteq> [] \<and> s \<noteq> ''0'' then Some s else None | None \<Rightarrow> None)"

definition printer_task_id :: "report \<Rightarrow> string option" where
  "printer_task_id merged = (case pget merged ''print'' of
      PDict p \<Rightarrow> (case id_text (pget p ''task_id'') of
          Some s \<Rightarrow> Some s | None \<Rightarrow> id_text (pget p ''subtask_id''))
    | _ \<Rightarrow> None)"

definition tray_type :: "pyval \<Rightarrow> string option" where
  "tray_type tray = (case tray of
      PDict d \<Rightarrow> (case pget d ''tray_type'' of
          PStr t \<Rightarrow> if strip t \<noteq> [] then Some (strip t) else None | _ \<Rightarrow> None)
    | _ \<Rightarrow> None)"

definition nth_val :: "pyval \<Rightarrow> nat \<Rightarrow> pyval option" where
  "nth_val v i = (case v of PList xs \<Rightarrow> if i < length xs then Some (xs ! i) else None | _ \<Rightarrow> None)"

definition decode_active_material :: "job_env \<Rightarrow> report \<Rightarrow> string option" where
  "decode_active_material env merged = (case pget merged ''print'' of
      PDict p \<Rightarrow>
        (let ams_obj = as_dict (pget p ''ams'');
             tray_now = strip (py_str (je_rep env) (get_or ams_obj ''tray_now'' (PStr [])))
         in if tray_now = ''254'' then tray_type (pget p ''vt_tray'')
            else if tray_now = [] \<or> tray_now = ''255'' then None
            else case int_of_str tray_now of
                None \<Rightarrow> None
              | Some idx \<Rightarrow>
                  if idx < 0 then None
                  else (case nth_val (pget ams_obj ''ams'') (nat (idx div 4)) of
                      None \<Rightarrow> None
                    | Some unit \<Rightarrow> (case nth_val (pget (as_dict unit) ''tray'') (nat (idx mod 4)) of
                          None \<Rightarrow> None
                        | Some tray \<Rightarrow> tray_type tray)))
    | _ \<Rightarrow> None)"

section \<open>Opening, closing and buffering a job\<close>

definition fingerprint :: "job_env \<Rightarrow> tracker \<Rightarrow> string option \<Rightarrow> real \<Rightarrow> string" where
  "fingerprint env tr name started =
     ''fp_'' @ take 24 (je_digest env (tr_serial tr @ ''|'' @ (case name of Some n \<Rightarrow> n | None \<Rightarrow> ''?'') @
       ''|'' @ je_millis env started))"

definition task_key :: "tracker \<Rightarrow> string \<Rightarrow> string" where
  "task_key tr task_id = ''task_'' @ tr_serial tr @ ''_'' @ task_id"

definition open_job :: "job_env \<Rightarrow> report \<Rightarrow> real \<Rightarrow> tracker \<Rightarrow> tracker" where
  "open_job env merged now tr = (let name = job_name merged
     in tr\<lparr>tr_active := Some \<lparr>
          aj_key = (case printer_task_id merged of Some t \<Rightarrow> task_key tr t
                    | None \<Rightarrow> fingerprint env tr name now),
          aj_name = name, aj_started = now,
          aj_material = decode_active_material env merged\<rparr>\<rparr>)"

definition buffer_job :: "job_record \<Rightarrow> tracker \<Rightarrow> tracker" where
  "buffer_job job tr = (let q = tr_pending tr @ [job]
     in tr\<lparr>tr_pending := (if MAX_PENDING < length q then drop (length q - MAX_PENDING) q else q)\<rparr>)"

definition closed_record :: "job_env \<Rightarrow> status \<Rightarrow> real \<Rightarrow> tracker \<Rightarrow> active_job \<Rightarrow> job_record" where
  "closed_record env status now tr a = \<lparr>jr_key = aj_key a, jr_printer = tr_printer tr, jr_status = status,
     jr_started = Some (je_iso env (aj_started a)), jr_ended = je_iso env now,
     jr_seconds = Some (max 0 (trunc_real (now - aj_started a))),
     jr_filename = aj_name a, jr_material = aj_material a\<rparr>"

definition close_job :: "job_env \<Rightarrow> status \<Rightarrow> real \<Rightarrow> tracker \<Rightarrow> tracker" where
  "close_job env status now tr = (case tr_active tr of
      None \<Rightarrow> tr
    | Some a \<Rightarrow> (buffer_job (closed_record env status now tr a) tr)\<lparr>tr_active := None\<rparr>)"

definition recovered_record :: "job_env \<Rightarrow> report \<Rightarrow> string \<Rightarrow> real \<Rightarrow> tracker \<Rightarrow> string \<Rightarrow> job_record" where
  "recovered_record env merged state now tr task_id = \<lparr>jr_key = task_key tr task_id,
     jr_printer = tr_printer tr, jr_status = (if state = ''FINISH'' then Done else Failed),
     jr_started = None, jr_ended = je_iso env now, jr_seconds = None,
     jr_filename = job_name merged, jr_material = decode_active_material env merged\<rparr>"

definition emit_recovered :: "job_env \<Rightarrow> report \<Rightarrow> string \<Rightarrow> real \<Rightarrow> tracker \<Rightarrow> tracker" where
  "emit_recovered env merged state now tr = (case printer_task_id merged of
      None \<Rightarrow> tr
    | Some t \<Rightarrow> buffer_job (recovered_record env merged state now tr t) tr)"

definition refresh_job :: "job_env \<Rightarrow> report \<Rightarrow> tracker \<Rightarrow> active_job \<Rightarrow> active_job" where
  "refresh_job env merged tr a = (
     let a1 = (case (job_name merged, aj_name a) of (Some n, None) \<Rightarrow> a\<lparr>aj_name := Some n\<rparr> | _ \<Rightarrow> a);
         a2 = (case printer_task_id merged of
                 Some t \<Rightarrow> if startswith ''task_'' (aj_key a1) then a1 else a1\<lparr>aj_key := task_key tr t\<rparr>
               | None \<Rightarrow> a1)
     in if aj_material a2 = None then a2\<lparr>aj_material := decode_active_material env merged\<rparr> else a2)"

definition renamed :: "report \<Rightarrow> active_job \<Rightarrow> bool" where
  "renamed merged a = (case (job_name merged, aj_name a) of (Some n, Some m) \<Rightarrow> n \<noteq> m | _ \<Rightarrow> False)"

section \<open>Observing the printer, confirming the delivery\<close>

definition observe :: "job_env \<Rightarrow> report \<Rightarrow> real \<Rightarrow> tracker \<Rightarrow> tracker" where
  "observe env merged now tr = (let state = gcode_state merged in
     if state = [] then tr
     else (let tr' = (case tr_active tr of
              None \<Rightarrow>
                if state = ''RUNNING'' then open_job env merged now tr
                else if tr_last tr = [] \<and> state \<in> {''FINISH'', ''FAILED''}
                then emit_recovered env merged state now tr
                else tr
            | Some a \<Rightarrow>
                if state = ''FINISH'' then close_job env Done now tr
                else if state = ''FAILED'' then close_job env Failed now tr
                else if state = ''RUNNING'' then
                  (if renamed merged a then open_job env merged now (close_job env Cancelled now tr)
                   else tr\<lparr>tr_active := Some (refresh_job env merged tr a)\<rparr>)
                else if state \<notin> set still_active then close_job env Cancelled now tr
                else tr)
           in tr'\<lparr>tr_last := state\<rparr>))"

definition ack :: "string list \<Rightarrow> tracker \<Rightarrow> tracker" where
  "ack job_keys tr = tr\<lparr>tr_pending := filter (\<lambda>j. jr_key j \<notin> set job_keys) (tr_pending tr)\<rparr>"

datatype job_event =
    Observe report real
  | Ack "string list"

fun job_step :: "job_env \<Rightarrow> job_event \<Rightarrow> tracker \<Rightarrow> tracker" where
  "job_step env (Observe merged now) tr = observe env merged now tr"
| "job_step env (Ack ks) tr = ack ks tr"

definition track :: "job_env \<Rightarrow> job_event list \<Rightarrow> tracker \<Rightarrow> tracker" where
  "track env es tr = fold (job_step env) es tr"

section \<open>What an observation emits\<close>

definition emitted :: "job_env \<Rightarrow> report \<Rightarrow> real \<Rightarrow> tracker \<Rightarrow> job_record list" where
  "emitted env merged now tr = (let state = gcode_state merged in
     if state = [] then []
     else (case tr_active tr of
         None \<Rightarrow>
           if tr_last tr = [] \<and> state \<in> {''FINISH'', ''FAILED''}
           then (case printer_task_id merged of None \<Rightarrow> []
                 | Some t \<Rightarrow> [recovered_record env merged state now tr t])
           else []
       | Some a \<Rightarrow>
           if state = ''FINISH'' then [closed_record env Done now tr a]
           else if state = ''FAILED'' then [closed_record env Failed now tr a]
           else if (state = ''RUNNING'' \<and> renamed merged a) \<or> state \<notin> set still_active
           then [closed_record env Cancelled now tr a]
           else []))"

lemma pending_buffer_job:
  "tr_pending (buffer_job j tr) = drop (length (tr_pending tr) + 1 - MAX_PENDING) (tr_pending tr @ [j])"
  by (simp add: buffer_job_def Let_def)

text \<open>The buffer of unconfirmed records is the bounded first-in first-out buffer of the prelude.\<close>

interpretation jobq: bounded_fifo tr_pending buffer_job MAX_PENDING
  by unfold_locales (simp_all add: pending_buffer_job MAX_PENDING_def)

lemma buffer_job_fields [simp]:
  "tr_active (buffer_job j tr) = tr_active tr" "tr_last (buffer_job j tr) = tr_last tr"
  "tr_printer (buffer_job j tr) = tr_printer tr" "tr_serial (buffer_job j tr) = tr_serial tr"
  by (simp_all add: buffer_job_def Let_def)

lemma open_job_fields [simp]:
  "tr_pending (open_job env m t tr) = tr_pending tr" "tr_last (open_job env m t tr) = tr_last tr"
  "tr_printer (open_job env m t tr) = tr_printer tr" "tr_serial (open_job env m t tr) = tr_serial tr"
  "\<exists>a. tr_active (open_job env m t tr) = Some a \<and> aj_started a = t"
  by (simp_all add: open_job_def Let_def)

lemma close_job_fields [simp]:
  "tr_active (close_job env st t tr) = None"
  "tr_last (close_job env st t tr) = tr_last tr"
  "tr_printer (close_job env st t tr) = tr_printer tr" "tr_serial (close_job env st t tr) = tr_serial tr"
  by (simp_all add: close_job_def split: option.splits)

lemma close_job_pending: "tr_active tr = Some a \<Longrightarrow>
  tr_pending (close_job env st t tr) = tr_pending (buffer_job (closed_record env st t tr a) tr)"
  by (simp add: close_job_def)

lemma recovered_fields [simp]:
  "tr_active (emit_recovered env m st t tr) = tr_active tr"
  "tr_printer (emit_recovered env m st t tr) = tr_printer tr"
  "tr_serial (emit_recovered env m st t tr) = tr_serial tr"
  by (simp_all add: emit_recovered_def split: option.splits)

lemma observe_ids [simp]:
  "tr_printer (observe env m t tr) = tr_printer tr" "tr_serial (observe env m t tr) = tr_serial tr"
  by (simp_all add: observe_def Let_def split: option.splits)

lemma observe_last: "tr_last (observe env m t tr) =
    (if gcode_state m = [] then tr_last tr else gcode_state m)"
  by (simp add: observe_def Let_def split: option.splits)

lemma observe_pending:
  "tr_pending (observe env m t tr) = tr_pending (fold buffer_job (emitted env m t tr) tr)"
  by (auto simp: observe_def emitted_def Let_def emit_recovered_def close_job_pending still_active_def
      split: option.splits)

lemma observe_pending_drop:
  assumes "length (tr_pending tr) \<le> MAX_PENDING"
  shows "tr_pending (observe env m t tr) =
    drop (length (tr_pending tr) + length (emitted env m t tr) - MAX_PENDING)
      (tr_pending tr @ emitted env m t tr)"
  by (simp add: observe_pending jobq.fold_add [OF assms])

lemma track_simps [simp]:
  "track env [] tr = tr"
  "track env (es @ [e]) tr = job_step env e (track env es tr)"
  by (simp_all add: track_def)

lemma job_step_ids [simp]:
  "tr_printer (job_step env e tr) = tr_printer tr" "tr_serial (job_step env e tr) = tr_serial tr"
  by (cases e; simp add: ack_def)+

lemma track_ids [simp]:
  "tr_printer (track env es tr) = tr_printer tr" "tr_serial (track env es tr) = tr_serial tr"
  by (induction es rule: rev_induct) simp_all

lemma job_step_bounded: "length (tr_pending tr) \<le> MAX_PENDING \<Longrightarrow>
  length (tr_pending (job_step env e tr)) \<le> MAX_PENDING"
  by (cases e) (auto simp: observe_pending jobq.fold_add_bounded ack_def
      intro: order_trans [OF length_filter_le])

lemma track_bounded: "length (tr_pending tr) \<le> MAX_PENDING \<Longrightarrow>
  length (tr_pending (track env es tr)) \<le> MAX_PENDING"
  by (induction es rule: rev_induct) (simp_all add: job_step_bounded)

section \<open>Every record is justified by what was observed\<close>

text \<open>
  The prints in a log of observations, without a tracker. A log is at rest (\<open>stopped\<close>) when no RUNNING report came after the
  last ending one. \<open>printing es t0 n\<close>: a print runs since \<open>t0\<close> and is known by the name \<open>n\<close>. It begins with the first RUNNING
  report after a rest, or with a RUNNING report of another name; later reports neither restart nor rename it, except that the first
  name becomes known.
\<close>

definition ending :: "report \<Rightarrow> bool" where
  "ending m \<longleftrightarrow> gcode_state m \<noteq> [] \<and> gcode_state m \<notin> set still_active"

definition unsignalled :: "job_event \<Rightarrow> bool" where
  "unsignalled e = (case e of Observe m t \<Rightarrow> gcode_state m = [] | Ack ks \<Rightarrow> True)"

definition not_running :: "job_event \<Rightarrow> bool" where
  "not_running e = (case e of Observe m t \<Rightarrow> gcode_state m \<noteq> ''RUNNING'' | Ack ks \<Rightarrow> True)"

definition stopped :: "job_event list \<Rightarrow> bool" where
  "stopped es \<longleftrightarrow> list_all not_running es \<or>
     (\<exists>pre m t mid. es = pre @ Observe m t # mid \<and> ending m \<and> list_all not_running mid)"

definition other_name :: "string option \<Rightarrow> report \<Rightarrow> bool" where
  "other_name n m \<longleftrightarrow> n \<noteq> None \<and> job_name m \<noteq> None \<and> job_name m \<noteq> n"

inductive printing :: "job_event list \<Rightarrow> real \<Rightarrow> string option \<Rightarrow> bool" where
  begins: "stopped es \<Longrightarrow> gcode_state m = ''RUNNING'' \<Longrightarrow> printing (es @ [Observe m t]) t (job_name m)"
| replaces: "printing es t0 n \<Longrightarrow> gcode_state m = ''RUNNING'' \<Longrightarrow> other_name n m \<Longrightarrow> printing (es @ [Observe m t]) t (job_name m)"
| runs_on: "printing es t0 n \<Longrightarrow> gcode_state m = ''RUNNING'' \<Longrightarrow> \<not> other_name n m \<Longrightarrow>
    printing (es @ [Observe m t]) t0 (if n = None then job_name m else n)"
| waits: "printing es t0 n \<Longrightarrow> gcode_state m \<noteq> ''RUNNING'' \<Longrightarrow> \<not> ending m \<Longrightarrow> printing (es @ [Observe m t]) t0 n"
| confirmed: "printing es t0 n \<Longrightarrow> printing (es @ [Ack ks]) t0 n"

definition status_of :: "string \<Rightarrow> status" where
  "status_of state = (if state = ''FINISH'' then Done else if state = ''FAILED'' then Failed else Cancelled)"

text \<open>The observation \<open>m\<close> at \<open>t\<close> after \<open>pre\<close> accounts for a record: it ends a print, or is the first signal of the printer at all.\<close>

definition ends_print :: "job_env \<Rightarrow> job_event list \<Rightarrow> report \<Rightarrow> real \<Rightarrow> job_record \<Rightarrow> bool" where
  "ends_print env pre m t j \<longleftrightarrow> (\<exists>t0 n. printing pre t0 n \<and> (ending m \<or> gcode_state m = ''RUNNING'' \<and> other_name n m) \<and>
     jr_started j = Some (je_iso env t0) \<and> jr_seconds j = Some (max 0 (trunc_real (t - t0))) \<and> jr_filename j = n)"

definition found_ended :: "job_env \<Rightarrow> string \<Rightarrow> job_event list \<Rightarrow> report \<Rightarrow> job_record \<Rightarrow> bool" where
  "found_ended env serial pre m j \<longleftrightarrow> (\<exists>t_id. list_all unsignalled pre \<and> gcode_state m \<in> {''FINISH'', ''FAILED''} \<and>
     printer_task_id m = Some t_id \<and> jr_key j = ''task_'' @ serial @ ''_'' @ t_id \<and> jr_filename j = job_name m \<and>
     jr_started j = None \<and> jr_seconds j = None)"

definition justified :: "job_env \<Rightarrow> string \<Rightarrow> job_event list \<Rightarrow> job_record \<Rightarrow> bool" where
  "justified env serial es j \<longleftrightarrow> (\<exists>pre m t post. es = pre @ Observe m t # post \<and>
     jr_ended j = je_iso env t \<and> jr_status j = status_of (gcode_state m) \<and>
     (ends_print env pre m t j \<or> found_ended env serial pre m j))"

lemma justified_append: "justified env serial es j \<Longrightarrow> justified env serial (es @ es') j"
  unfolding justified_def by (metis append_Cons append_assoc)

lemma justified_last:
  assumes "jr_ended j = je_iso env t" "jr_status j = status_of (gcode_state m)"
    "ends_print env es m t j \<or> found_ended env serial es m j"
  shows "justified env serial (es @ [Observe m t]) j"
  unfolding justified_def
  by (rule exI [of _ es], rule exI [of _ m], rule exI [of _ t], rule exI [of _ "[]"]) (use assms in simp)

lemma stopped_snoc: "stopped es \<Longrightarrow> not_running e \<Longrightarrow> stopped (es @ [e])"
  unfolding stopped_def by (elim disjE exE conjE) (simp, force)

lemma stopped_ending: "ending m \<Longrightarrow> stopped (es @ [Observe m t])"
  unfolding stopped_def by (intro disjI2 exI [of _ es] exI [of _ m] exI [of _ t] exI [of _ "[]"]) simp

lemma ending_simps: "gcode_state m = [] \<Longrightarrow> \<not> ending m" "gcode_state m \<in> set still_active \<Longrightarrow> \<not> ending m"
  "gcode_state m = ''FINISH'' \<Longrightarrow> ending m" "gcode_state m = ''FAILED'' \<Longrightarrow> ending m"
  by (simp_all add: ending_def still_active_def)

lemma renamed_other: "renamed m a \<longleftrightarrow> other_name (aj_name a) m"
  by (auto simp: renamed_def other_name_def split: option.splits)

lemma open_job_active: "\<exists>a. tr_active (open_job env m t tr) = Some a \<and> aj_started a = t \<and> aj_name a = job_name m"
  by (simp add: open_job_def Let_def)

lemma refresh_fields: "aj_started (refresh_job env m tr a) = aj_started a"
  "aj_name (refresh_job env m tr a) = (if aj_name a = None then job_name m else aj_name a)"
  by (auto simp: refresh_job_def Let_def split: option.splits)

text \<open>The tracker holds exactly the print the log shows.\<close>

lemma active_printing:
  "(case tr_active (track env es (new_tracker p s)) of None \<Rightarrow> stopped es | Some a \<Rightarrow> printing es (aj_started a) (aj_name a))"
proof (induction es rule: rev_induct)
  case Nil
  then show ?case by (simp add: new_tracker_def stopped_def)
next
  case (snoc e es)
  let ?tr = "track env es (new_tracker p s)"
  show ?case
  proof (cases e)
    case (Ack ks)
    with snoc show ?thesis by (auto simp: ack_def not_running_def stopped_snoc intro: printing.confirmed split: option.splits)
  next
    case (Observe m t)
    show ?thesis
    proof (cases "tr_active ?tr")
      case None
      with snoc have "stopped es" by simp
      then show ?thesis
        using None open_job_active [of env m t ?tr] printing.begins [of es m t]
        by (auto simp: Observe observe_def Let_def not_running_def stopped_snoc split: option.splits)
    next
      case (Some a)
      with snoc have on: "printing es (aj_started a) (aj_name a)" by simp
      consider "gcode_state m = ''RUNNING''" | "gcode_state m \<noteq> ''RUNNING''" "\<not> ending m" | "ending m" "gcode_state m \<noteq> ''RUNNING''" by blast
      then show ?thesis
      proof cases
        case 1
        then show ?thesis
          using Some on open_job_active [of env m t "close_job env Cancelled t ?tr"] printing.replaces [OF on 1] printing.runs_on [OF on 1]
          by (auto simp: Observe observe_def Let_def renamed_other refresh_fields split: option.splits)
      next
        case 2
        then show ?thesis
          using Some printing.waits [OF on 2] by (auto simp: Observe observe_def Let_def ending_def still_active_def)
      next
        case 3
        then show ?thesis
          using Some stopped_ending [OF 3(1)] by (auto simp: Observe observe_def Let_def ending_def)
      qed
    qed
  qed
qed

lemma silent_so_far: "tr_last (track env es (new_tracker p s)) = [] \<Longrightarrow> list_all unsignalled es"
proof (induction es rule: rev_induct)
  case (snoc e es)
  then show ?case by (cases e) (auto simp: observe_last unsignalled_def ack_def split: if_splits)
qed simp

lemma emitted_justified:
  assumes "j \<in> set (emitted env m t (track env es (new_tracker p s)))"
  shows "justified env s (es @ [Observe m t]) j \<and> jr_printer j = p"
proof -
  let ?tr = "track env es (new_tracker p s)"
  have ser: "tr_serial ?tr = s" "tr_printer ?tr = p" by (simp_all add: new_tracker_def)
  consider (closed) a st where "tr_active ?tr = Some a" "j = closed_record env st t ?tr a"
      "st = status_of (gcode_state m)" "ending m \<or> gcode_state m = ''RUNNING'' \<and> other_name (aj_name a) m"
    | (recovered) t_id where "tr_last ?tr = []" "gcode_state m \<in> {''FINISH'', ''FAILED''}"
      "printer_task_id m = Some t_id" "j = recovered_record env m (gcode_state m) t ?tr t_id"
    using assms
    by (auto simp: emitted_def Let_def status_of_def ending_def renamed_other still_active_def split: option.splits if_splits)
  then show ?thesis
  proof cases
    case closed
    then have "printing es (aj_started a) (aj_name a)" using active_printing [where env = env and es = es and p = p and s = s] by simp
    with closed show ?thesis by (intro conjI justified_last disjI1) (auto simp: closed_record_def ser ends_print_def new_tracker_def)
  next
    case recovered
    then have "list_all unsignalled es" by (intro silent_so_far)
    with recovered ser show ?thesis
      by (intro conjI justified_last disjI2) (auto simp: recovered_record_def status_of_def task_key_def found_ended_def new_tracker_def)
  qed
qed

lemma pending_justified:
  "j \<in> set (tr_pending (track env es (new_tracker p s))) \<Longrightarrow> justified env s es j \<and> jr_printer j = p"
proof (induction es rule: rev_induct)
  case Nil
  then show ?case by (simp add: new_tracker_def)
next
  case (snoc e es)
  let ?tr = "track env es (new_tracker p s)"
  show ?case
  proof (cases e)
    case (Ack ks)
    with snoc show ?thesis by (auto simp: ack_def justified_append)
  next
    case (Observe m t)
    have "length (tr_pending ?tr) \<le> MAX_PENDING"
      by (rule track_bounded) (simp add: new_tracker_def)
    with snoc.prems have "j \<in> set (tr_pending ?tr) \<or> j \<in> set (emitted env m t ?tr)"
      by (auto simp: Observe observe_pending_drop dest!: in_set_dropD)
    then show ?thesis
      using emitted_justified [of j env m t es p s] snoc.IH by (auto simp: Observe justified_append)
  qed
qed


definition sample_env :: job_env where
  "sample_env = \<lparr>je_digest = (\<lambda>s. s), je_millis = (\<lambda>t. ''0.000''), je_iso = (\<lambda>t. ''T''), je_rep = (\<lambda>v. [])\<rparr>"

definition sample_report :: "string \<Rightarrow> report" where
  "sample_report st = [(''print'', PDict [(''gcode_state'', PStr st), (''subtask_name'', PStr ''cube''),
     (''task_id'', PInt 42)])]"

definition sample_events :: "job_event list" where
  "sample_events = [Observe (sample_report ''running'') 10, Observe (sample_report ''PAUSE'') 20,
     Observe (sample_report ''FINISH'') 70]"

lemmas sample_defs = sample_env_def sample_report_def sample_events_def

lemma sample_gcode_state: "gcode_state (sample_report st) = upper st"
  by (simp add: gcode_state_def sample_report_def pget_def get_or_def)

lemma sample_upper: "upper ''running'' = ''RUNNING''" "upper ''PAUSE'' = ''PAUSE''"
    "upper ''FINISH'' = ''FINISH''"
  by code_simp+

lemma sample_task_id: "printer_task_id (sample_report st) = Some ''42''"
proof -
  have "int_str 42 = ''42''" by code_simp
  then show ?thesis by (simp add: printer_task_id_def sample_report_def pget_def get_or_def id_text_def)
qed

lemma sample_name: "job_name (sample_report st) = Some ''cube''"
proof -
  have "strip ''cube'' = ''cube'' \<and> py_take 300 ''cube'' = ''cube''" by code_simp
  then show ?thesis by (simp add: job_name_def sample_report_def pget_def get_or_def por_def)
qed

lemma sample_material: "decode_active_material env (sample_report st) = None"
proof -
  have "strip [] = []" by code_simp
  then show ?thesis
    by (simp add: decode_active_material_def sample_report_def pget_def get_or_def)
qed

lemmas sample_facts = sample_gcode_state sample_upper sample_task_id sample_name sample_material

definition sample_record :: job_record where
  "sample_record = \<lparr>jr_key = ''task_S_42'', jr_printer = ''p'', jr_status = Done, jr_started = Some ''T'',
     jr_ended = ''T'', jr_seconds = Some 60, jr_filename = Some ''cube'', jr_material = None\<rparr>"

lemma sample_pending:
  "tr_pending (track sample_env sample_events (new_tracker ''p'' ''S'')) = [sample_record]"
  by (simp add: track_def sample_events_def observe_def sample_facts new_tracker_def open_job_def
      close_job_def closed_record_def buffer_job_def task_key_def sample_env_def sample_record_def
      MAX_PENDING_def trunc_real_def still_active_def)


section \<open>Delivery: nothing unconfirmed is lost below the cap\<close>

text \<open>The records a tracker without a cap would hold, and the runs in which the cap is never reached.\<close>

definition drop_acked :: "string list \<Rightarrow> job_record list \<Rightarrow> job_record list" where
  "drop_acked ks l = filter (\<lambda>j. jr_key j \<notin> set ks) l"

fun ledger :: "job_env \<Rightarrow> job_event list \<Rightarrow> tracker \<Rightarrow> job_record list \<Rightarrow> job_record list" where
  "ledger env [] tr l = l"
| "ledger env (Observe m t # es) tr l = ledger env es (observe env m t tr) (l @ emitted env m t tr)"
| "ledger env (Ack ks # es) tr l = ledger env es (ack ks tr) (drop_acked ks l)"

fun fits :: "job_env \<Rightarrow> job_event list \<Rightarrow> tracker \<Rightarrow> job_record list \<Rightarrow> bool" where
  "fits env [] tr l = (length l \<le> MAX_PENDING)"
| "fits env (Observe m t # es) tr l =
     (length l \<le> MAX_PENDING \<and> fits env es (observe env m t tr) (l @ emitted env m t tr))"
| "fits env (Ack ks # es) tr l =
     (length l \<le> MAX_PENDING \<and> fits env es (ack ks tr) (drop_acked ks l))"

lemma fits_now: "fits env es tr l \<Longrightarrow> length l \<le> MAX_PENDING"
  by (cases "(env, es, tr, l)" rule: ledger.cases) auto

lemma suffix_filter: "suffix xs ys \<Longrightarrow> suffix (filter P xs) (filter P ys)"
  by (auto simp: suffix_def)

lemma track_Cons: "track env (e # es) tr = track env es (job_step env e tr)"
  by (simp add: track_def)

lemma ledger_suffix:
  "suffix (tr_pending tr) l \<Longrightarrow> length (tr_pending tr) \<le> MAX_PENDING \<Longrightarrow>
   suffix (tr_pending (track env es tr)) (ledger env es tr l)"
proof (induction env es tr l rule: ledger.induct)
  case (2 env m t es tr l)
  have "suffix (tr_pending (observe env m t tr)) (tr_pending tr @ emitted env m t tr)"
    using "2.prems"(2) by (simp add: observe_pending_drop suffix_drop del: drop_append)
  also have "suffix (tr_pending tr @ emitted env m t tr) (l @ emitted env m t tr)"
    using "2.prems"(1) by simp
  finally show ?case
    using "2.IH" job_step_bounded [OF "2.prems"(2), of env "Observe m t"] by (simp add: track_Cons)
next
  case (3 env ks es tr l)
  then show ?case
    using job_step_bounded [OF "3.prems"(2), of env "Ack ks"]
    by (simp add: track_Cons ack_def drop_acked_def suffix_filter)
qed simp

lemma ledger_exact:
  "tr_pending tr = l \<Longrightarrow> fits env es tr l \<Longrightarrow> tr_pending (track env es tr) = ledger env es tr l"
proof (induction env es tr l rule: ledger.induct)
  case (2 env m t es tr l)
  then have "length (l @ emitted env m t tr) \<le> MAX_PENDING" using fits_now by fastforce
  with 2 show ?case by (simp add: track_Cons observe_pending_drop)
next
  case (3 env ks es tr l)
  then show ?case by (simp add: track_Cons ack_def drop_acked_def)
qed (simp add: track_def)

text \<open>
  Delivery. What the tracker offers the cloud is always the newest part, at most 500 records, of
  the ledger of all emitted records less the confirmed ones; and as long as that ledger has never
  exceeded 500 records, it is the whole ledger: a failed heartbeat loses no terminal job.
\<close>

theorem unacked_jobs_delivered:
  "suffix (tr_pending (track env es (new_tracker p s))) (ledger env es (new_tracker p s) []) \<and>
   length (tr_pending (track env es (new_tracker p s))) \<le> MAX_PENDING \<and>
   (fits env es (new_tracker p s) [] \<longrightarrow>
      tr_pending (track env es (new_tracker p s)) = ledger env es (new_tracker p s) [])"
proof -
  have "tr_pending (new_tracker p s) = []" by (simp add: new_tracker_def)
  then show ?thesis
    using ledger_suffix [of "new_tracker p s" "[]"] ledger_exact [of "new_tracker p s" "[]"]
      track_bounded [of "new_tracker p s"] by simp
qed

theorem unacked_jobs_delivered_witness:
  "fits sample_env sample_events (new_tracker ''p'' ''S'') [] \<and>
   [sample_record] = ledger sample_env sample_events (new_tracker ''p'' ''S'') []"
proof -
  have fits: "fits sample_env sample_events (new_tracker ''p'' ''S'') []"
    by (simp add: sample_events_def observe_def emitted_def sample_facts new_tracker_def open_job_def
        MAX_PENDING_def still_active_def)
  with unacked_jobs_delivered [where env = sample_env and es = sample_events and p = "''p''" and s = "''S''"]
  show ?thesis by (simp add: sample_pending)
qed

end
