(* ===== verification/QueueProgress.thy ===== *)
theory QueueProgress
  imports Jobs
begin

text \<open>
  Queue progress correlation, \<open>makeros_hub/printers/queue_progress.py\<close>: the queue jobs the cloud asked
  the hub to print are matched with what the printer reports. Only the oldest dispatch is active; it
  is reported as printing when the printer is seen RUNNING or PAUSE, and as completed or held when
  exactly one new terminal job record appears, or when nothing starts in time.
\<close>

record dispatch =
  dp_queue_id :: string
  dp_started :: real
  dp_printing :: bool
  dp_baseline :: "string list"

record progress =
  qp_timeout :: real
  qp_dispatches :: "dispatch list"
  qp_linked :: "string list"

datatype queue_state = Printing | Completed | Held

record queue_report =
  rp_queue_id :: string
  rp_state :: queue_state
  rp_job_key :: "string option"
  rp_reason :: "string option"

definition START_TIMEOUT_SEC :: real where
  "START_TIMEOUT_SEC = 120"

definition new_progress :: "real \<Rightarrow> progress" where
  "new_progress timeout = \<lparr>qp_timeout = timeout, qp_dispatches = [], qp_linked = []\<rparr>"

definition job_key :: "job_record \<Rightarrow> string option" where
  "job_key job = (if jr_key job \<noteq> [] then Some (jr_key job) else None)"

definition job_keys :: "job_record list \<Rightarrow> string list" where
  "job_keys jobs = List.map_filter job_key jobs"

definition progress_state :: "pyval \<Rightarrow> string" where
  "progress_state v = (case v of PStr s \<Rightarrow> upper s | _ \<Rightarrow> [])"

definition record_dispatch :: "string \<Rightarrow> job_record list \<Rightarrow> real \<Rightarrow> progress \<Rightarrow> progress" where
  "record_dispatch queue_id pending now s = s\<lparr>qp_dispatches := qp_dispatches s @
     [\<lparr>dp_queue_id = queue_id, dp_started = now, dp_printing = False, dp_baseline = job_keys pending\<rparr>]\<rparr>"

definition candidates :: "job_record list \<Rightarrow> dispatch \<Rightarrow> string list \<Rightarrow> job_record list" where
  "candidates pending d linked = filter (\<lambda>job. case job_key job of
      None \<Rightarrow> False | Some k \<Rightarrow> k \<notin> set (dp_baseline d) \<and> k \<notin> set linked) pending"

definition status_text :: "status \<Rightarrow> string" where
  "status_text st = (case st of Done \<Rightarrow> ''done'' | Failed \<Rightarrow> ''failed'' | Cancelled \<Rightarrow> ''cancelled'')"

definition printing_report :: "dispatch \<Rightarrow> queue_report" where
  "printing_report d = \<lparr>rp_queue_id = dp_queue_id d, rp_state = Printing, rp_job_key = None, rp_reason = None\<rparr>"

definition terminal_report :: "dispatch \<Rightarrow> job_record \<Rightarrow> queue_report" where
  "terminal_report d job = \<lparr>rp_queue_id = dp_queue_id d,
     rp_state = (if jr_status job = Done then Completed else Held), rp_job_key = Some (jr_key job),
     rp_reason = (if jr_status job \<noteq> Done then Some (''print_'' @ status_text (jr_status job)) else None)\<rparr>"

definition timeout_report :: "dispatch \<Rightarrow> queue_report" where
  "timeout_report d = \<lparr>rp_queue_id = dp_queue_id d, rp_state = Held, rp_job_key = None,
     rp_reason = Some ''start_not_observed''\<rparr>"

definition collect :: "job_record list \<Rightarrow> pyval \<Rightarrow> real \<Rightarrow> progress \<Rightarrow> queue_report list \<times> progress" where
  "collect pending gcode now s =
     (let linked = filter (\<lambda>k. k \<in> set (job_keys pending)) (qp_linked s);
          s1 = s\<lparr>qp_linked := linked\<rparr>
      in case qp_dispatches s1 of
          [] \<Rightarrow> ([], s1)
        | d # rest \<Rightarrow>
            (case candidates pending d linked of
                job # others \<Rightarrow>
                  if others \<noteq> [] then ([], s1)
                  else (let s2 = s1\<lparr>qp_linked := linked @ [jr_key job], qp_dispatches := rest\<rparr>;
                            report = terminal_report d job
                        in if rp_state report = Completed \<and> \<not> dp_printing d
                           then ([printing_report d, report], s2)
                           else ([report], s2))
              | [] \<Rightarrow>
                  (let state = progress_state gcode
                   in if state \<in> {''RUNNING'', ''PAUSE''} \<and> \<not> dp_printing d
                      then ([printing_report d], s1\<lparr>qp_dispatches := d\<lparr>dp_printing := True\<rparr> # rest\<rparr>)
                      else if qp_timeout s1 \<le> now - dp_started d \<and> \<not> dp_printing d \<and>
                              state \<in> {[], ''IDLE'', ''FINISH'', ''FAILED'', ''UNKNOWN''}
                      then ([timeout_report d], s1\<lparr>qp_dispatches := rest\<rparr>)
                      else ([], s1))))"

section \<open>Runs\<close>

datatype progress_event =
    Dispatched string "job_record list" real
  | Collect "job_record list" pyval real

fun progress_step :: "progress_event \<Rightarrow> queue_report list \<times> progress \<Rightarrow> queue_report list \<times> progress" where
  "progress_step (Dispatched q pending now) (out, s) = (out, record_dispatch q pending now s)"
| "progress_step (Collect pending gcode now) (out, s) =
     (let (reports, s') = collect pending gcode now s in (out @ reports, s'))"

definition progress_run :: "real \<Rightarrow> progress_event list \<Rightarrow> queue_report list \<times> progress" where
  "progress_run timeout es = fold progress_step es ([], new_progress timeout)"

lemma progress_run_snoc: "progress_run timeout (es @ [e]) = progress_step e (progress_run timeout es)"
  by (simp add: progress_run_def)

definition dispatched_ids :: "progress_event list \<Rightarrow> string list" where
  "dispatched_ids es = List.map_filter (\<lambda>e. case e of Dispatched q p t \<Rightarrow> Some q | Collect p g t \<Rightarrow> None) es"

lemma dispatched_ids_simps [simp]:
  "dispatched_ids [] = []"
  "dispatched_ids (es @ [Dispatched q p t]) = dispatched_ids es @ [q]"
  "dispatched_ids (es @ [Collect p g t]) = dispatched_ids es"
  by (simp_all add: dispatched_ids_def List.map_filter_def)

definition states_of :: "string \<Rightarrow> queue_report list \<Rightarrow> queue_state list" where
  "states_of q out = map rp_state (filter (\<lambda>r. rp_queue_id r = q) out)"

lemma states_of_append [simp]: "states_of q (l @ l') = states_of q l @ states_of q l'"
  by (simp add: states_of_def)

lemma states_of_reports [simp]:
  "states_of q [] = []"
  "states_of q [printing_report d] = (if dp_queue_id d = q then [Printing] else [])"
  "states_of q [timeout_report d] = (if dp_queue_id d = q then [Held] else [])"
  "states_of q [terminal_report d job] =
     (if dp_queue_id d = q then [if jr_status job = Done then Completed else Held] else [])"
  "states_of q [printing_report d, terminal_report d job] =
     (if dp_queue_id d = q then [Printing, if jr_status job = Done then Completed else Held] else [])"
  by (auto simp: states_of_def printing_report_def timeout_report_def terminal_report_def)

section \<open>What one collection does to the oldest dispatch\<close>

inductive collected :: "job_record list \<Rightarrow> dispatch list \<Rightarrow> queue_report list \<Rightarrow> dispatch list \<Rightarrow> bool"
  for pending where
  silent: "collected pending ds [] ds"
| started: "\<not> dp_printing d \<Longrightarrow>
    collected pending (d # ds) [printing_report d] (d\<lparr>dp_printing := True\<rparr> # ds)"
| timed_out: "\<not> dp_printing d \<Longrightarrow> collected pending (d # ds) [timeout_report d] ds"
| linked: "job \<in> set pending \<Longrightarrow> jr_key job \<noteq> [] \<Longrightarrow> jr_key job \<notin> set (dp_baseline d) \<Longrightarrow>
    jr_status job \<noteq> Done \<or> dp_printing d \<Longrightarrow> collected pending (d # ds) [terminal_report d job] ds"
| linked_unseen: "job \<in> set pending \<Longrightarrow> jr_key job \<noteq> [] \<Longrightarrow> jr_key job \<notin> set (dp_baseline d) \<Longrightarrow>
    jr_status job = Done \<Longrightarrow> \<not> dp_printing d \<Longrightarrow>
    collected pending (d # ds) [printing_report d, terminal_report d job] ds"

lemma candidates_in: "job \<in> set (candidates pending d linked) \<Longrightarrow>
    job \<in> set pending \<and> jr_key job \<noteq> [] \<and> jr_key job \<notin> set (dp_baseline d) \<and> jr_key job \<notin> set linked"
  by (auto simp: candidates_def job_key_def split: if_splits)

lemma terminal_state: "rp_state (terminal_report d job) = (if jr_status job = Done then Completed else Held)"
  by (simp add: terminal_report_def)

text \<open>The detailed collection refines the five abstract steps on the list of dispatches.\<close>

lemma collect_refines:
  assumes "collect pending gcode now s = (reports, s')"
  shows "collected pending (qp_dispatches s) reports (qp_dispatches s')"
proof (cases "qp_dispatches s")
  case Nil
  with assms show ?thesis by (auto simp: collect_def Let_def intro: silent)
next
  case (Cons d rest)
  let ?linked = "filter (\<lambda>k. k \<in> set (job_keys pending)) (qp_linked s)"
  show ?thesis
  proof (cases "candidates pending d ?linked")
    case Nil
    with assms Cons show ?thesis
      by (auto simp: collect_def Let_def split: if_splits intro: collected.intros)
  next
    case inner: (Cons job others)
    then have job: "job \<in> set pending" "jr_key job \<noteq> []" "jr_key job \<notin> set (dp_baseline d)"
      using candidates_in [of job pending d ?linked] by simp_all
    from assms Cons inner show ?thesis
      by (auto simp: collect_def Let_def terminal_state split: if_splits
          intro: silent linked [OF job] linked_unseen [OF job])
  qed
qed

section \<open>The reports respect the transition map of the cloud\<close>

definition allowed_histories :: "queue_state list list" where
  "allowed_histories = [[], [Printing], [Held], [Printing, Completed], [Printing, Held]]"

definition reports_ok :: "string list \<Rightarrow> queue_report list \<Rightarrow> dispatch list \<Rightarrow> bool" where
  "reports_ok ids out ds \<longleftrightarrow> distinct (map dp_queue_id ds) \<and> set (map dp_queue_id ds) \<subseteq> set ids \<and>
     (\<forall>d \<in> set ds. states_of (dp_queue_id d) out = (if dp_printing d then [Printing] else [])) \<and>
     (\<forall>q. states_of q out \<in> set allowed_histories \<and> (states_of q out \<noteq> [] \<longrightarrow> q \<in> set ids))"

lemma reports_ok_dispatch:
  assumes "reports_ok ids out ds" "q \<notin> set ids" "\<not> dp_printing d" "dp_queue_id d = q"
  shows "reports_ok (ids @ [q]) out (ds @ [d])"
  using assms by (auto simp: reports_ok_def)

lemma reports_ok_head:
  assumes ok: "reports_ok ids out (d # ds)"
    and h: "\<And>q. states_of q reports = (if dp_queue_id d = q then h else [])"
    and allowed: "(if dp_printing d then [Printing] else []) @ h \<in> set allowed_histories"
  shows "reports_ok ids (out @ reports) ds"
proof -
  have head: "states_of (dp_queue_id d) out = (if dp_printing d then [Printing] else [])"
    "dp_queue_id d \<in> set ids" "\<And>e. e \<in> set ds \<Longrightarrow> dp_queue_id d \<noteq> dp_queue_id e"
    using ok by (auto simp: reports_ok_def)
  have hist: "states_of q out \<in> set allowed_histories" "states_of q out \<noteq> [] \<Longrightarrow> q \<in> set ids" for q
    using ok unfolding reports_ok_def by blast+
  have "states_of q (out @ reports) \<in> set allowed_histories \<and>
      (states_of q (out @ reports) \<noteq> [] \<longrightarrow> q \<in> set ids)" for q
    using head hist [of q] h [of q] allowed by (cases "dp_queue_id d = q") auto
  moreover have "\<forall>e \<in> set ds. states_of (dp_queue_id e) (out @ reports) = (if dp_printing e then [Printing] else [])"
    using ok head(3) h by (auto simp: reports_ok_def)
  moreover have "distinct (map dp_queue_id ds)" "set (map dp_queue_id ds) \<subseteq> set ids"
    using ok by (simp_all add: reports_ok_def)
  ultimately show ?thesis unfolding reports_ok_def by blast
qed

lemma reports_ok_push:
  assumes "reports_ok ids out ds" "distinct (map dp_queue_id (d # ds))" "dp_queue_id d \<in> set ids"
    "states_of (dp_queue_id d) out = (if dp_printing d then [Printing] else [])"
  shows "reports_ok ids out (d # ds)"
  using assms unfolding reports_ok_def by simp

lemma reports_ok_collected:
  assumes "collected pending ds reports ds'" "reports_ok ids out ds"
  shows "reports_ok ids (out @ reports) ds'"
  using assms(1)
proof (cases rule: collected.cases)
  case silent
  with assms show ?thesis by simp
next
  case (started d rest)
  have "reports_ok ids (out @ reports) rest"
    using assms(2) started by (intro reports_ok_head [of ids out d rest reports "[Printing]"])
      (simp_all add: allowed_histories_def)
  then show ?thesis
    using assms(2) started unfolding started(3)
    by (intro reports_ok_push) (auto simp: reports_ok_def)
next
  case (timed_out d)
  then show ?thesis
    using assms(2) by (intro reports_ok_head [of ids out d ds' reports "[Held]"])
      (simp_all add: allowed_histories_def)
next
  case (linked job d)
  then show ?thesis
    using assms(2)
    by (intro reports_ok_head [of ids out d ds' reports "[if jr_status job = Done then Completed else Held]"])
      (simp_all add: allowed_histories_def)
next
  case (linked_unseen job d)
  then show ?thesis
    using assms(2) by (intro reports_ok_head [of ids out d ds' reports "[Printing, Completed]"])
      (simp_all add: allowed_histories_def)
qed

lemma progress_run_ok:
  assumes "progress_run timeout es = (out, s)" "distinct (dispatched_ids es)"
  shows "reports_ok (dispatched_ids es) out (qp_dispatches s)"
  using assms
proof (induction es arbitrary: out s rule: rev_induct)
  case Nil
  then show ?case
    by (auto simp: progress_run_def new_progress_def reports_ok_def allowed_histories_def)
next
  case (snoc e es)
  obtain out0 s0 where run: "progress_run timeout es = (out0, s0)" by (cases "progress_run timeout es")
  show ?case
  proof (cases e)
    case (Dispatched q pending now)
    with snoc run show ?thesis
      by (auto simp: progress_run_snoc record_dispatch_def intro!: reports_ok_dispatch)
  next
    case (Collect pending gcode now)
    obtain reports s1 where step: "collect pending gcode now s0 = (reports, s1)"
      by (cases "collect pending gcode now s0")
    from snoc run Collect have "reports_ok (dispatched_ids es) out0 (qp_dispatches s0)" by simp
    with collect_refines [OF step] have "reports_ok (dispatched_ids es) (out0 @ reports) (qp_dispatches s1)"
      by (rule reports_ok_collected)
    with snoc.prems run step Collect show ?thesis by (simp add: progress_run_snoc)
  qed
qed

text \<open>
  C7: The cloud only accepts the transitions uploading to printing or held, and printing to completed
  or held, and answers anything else with a conflict that would strand the queue job. In every run
  with distinct queue job ids, the reports made for a queue job, in order, are nothing yet, printing,
  held, printing and completed, or printing and held: at most one terminal report, none after it,
  and a completion is never reported without printing before it.
\<close>

theorem queue_reports_follow_cloud_map:
  assumes "distinct (dispatched_ids es)"
  shows "states_of q (fst (progress_run timeout es)) \<in> set allowed_histories"
proof -
  obtain out s where run: "progress_run timeout es = (out, s)" by (cases "progress_run timeout es")
  with assms have "reports_ok (dispatched_ids es) out (qp_dispatches s)" by (intro progress_run_ok)
  then show ?thesis by (simp add: run reports_ok_def)
qed

definition plain_job :: "string \<Rightarrow> status \<Rightarrow> job_record" where
  "plain_job k st = \<lparr>jr_key = k, jr_printer = ''p'', jr_status = st, jr_started = None, jr_ended = ''T'',
     jr_seconds = None, jr_filename = None, jr_material = None\<rparr>"

definition quick_print :: "progress_event list" where
  "quick_print = [Dispatched ''q1'' [plain_job ''k0'' Done] 0,
     Collect [plain_job ''k0'' Done, plain_job ''k1'' Done] (PStr ''FINISH'') 30]"

lemmas progress_eval = progress_run_def new_progress_def record_dispatch_def collect_def Let_def
  candidates_def job_keys_def job_key_def List.map_filter_def plain_job_def terminal_state
  dispatched_ids_def printing_report_def terminal_report_def timeout_report_def progress_state_def

theorem queue_reports_follow_cloud_map_witness:
  "distinct (dispatched_ids quick_print) \<and>
   states_of ''q1'' (fst (progress_run 120 quick_print)) = [Printing, Completed] \<and>
   states_of ''q1'' (fst (progress_run 120 quick_print)) \<in> set allowed_histories"
proof -
  have ids: "distinct (dispatched_ids quick_print)"
    by (simp add: quick_print_def dispatched_ids_def List.map_filter_def)
  have "states_of ''q1'' (fst (progress_run 120 quick_print)) = [Printing, Completed]"
    by (simp add: quick_print_def progress_eval states_of_def)
  with ids queue_reports_follow_cloud_map [OF ids, of "''q1''" 120] show ?thesis by blast
qed

section \<open>An ambiguous correlation shifts the links that follow\<close>

text \<open>
  Two new terminal records at once are ambiguous and give no link, but the dispatch stays the oldest
  one. When it was already reported as printing nothing times it out, and once the two records are
  acknowledged the next print that ends is linked to it.
\<close>

definition ambiguous_trace :: "progress_event list" where
  "ambiguous_trace = [
     Dispatched ''q1'' [] 0,
     Collect [] (PStr ''RUNNING'') 30,
     Collect [plain_job ''k1'' Failed, plain_job ''k2'' Cancelled] (PStr ''IDLE'') 60,
     Collect [] (PStr ''IDLE'') 90,
     Dispatched ''q2'' [] 100,
     Collect [] (PStr ''RUNNING'') 130,
     Collect [plain_job ''k3'' Done] (PStr ''FINISH'') 160]"

lemma ambiguous_upper: "upper ''RUNNING'' = ''RUNNING''" "upper ''IDLE'' = ''IDLE''"
  by code_simp+

text \<open>
  A concrete run in which this reports the wrong outcome to the cloud: the print of the first
  queue job failed, its record and another one were ambiguous; the print started for the second queue
  job completes, and its record is reported as the completion of the first, while the second is still
  waiting and was never reported as printing.
\<close>

theorem ambiguity_links_the_wrong_job:
  "let (out, s) = progress_run 120 ambiguous_trace in
   \<lparr>rp_queue_id = ''q1'', rp_state = Completed, rp_job_key = Some ''k3'', rp_reason = None\<rparr> \<in> set out \<and>
   states_of ''q2'' out = [] \<and> map dp_queue_id (qp_dispatches s) = [''q2'']"
  by (simp add: ambiguous_trace_def progress_eval ambiguous_upper states_of_def)

end
