(* ===== verification/Camera.thy ===== *)
theory Camera
  imports PyText "HOL-Library.Sublist"
begin

text \<open>
  Camera capture, \<open>makeros_hub/printers/camera.py\<close>: which source a printer has, the snapshot URL and the
  checks on a fetched snapshot, the capture cadence (\<open>CameraScheduler\<close>) and one beat of
  \<open>collect_camera_frames\<close>. A beat captures in a thread pool under one overall timeout: which
  captures finish in time, and in which order, is the list \<open>finished\<close> of positions in the list of
  due printers. The network (an HTTP fetch, the two Bambu camera protocols) is a parameter.
\<close>

type_synonym printer = "(string \<times> pyval) list"

section \<open>Sources\<close>

definition contains :: "string \<Rightarrow> string \<Rightarrow> bool" where
  "contains k m \<longleftrightarrow> sublist k m"

definition bambu_camera_transport :: "(pyval \<Rightarrow> string) \<Rightarrow> pyval \<Rightarrow> string option" where
  "bambu_camera_transport rep model =
     (let m = filter (\<lambda>c. c \<noteq> CHR '' '' \<and> c \<noteq> CHR ''-'') (upper (py_str rep (por model (PStr []))))
      in if m = [] then None
         else if \<exists>k \<in> set [''X1'', ''X2D'', ''H2'', ''P2S'']. contains k m then Some ''rtsp''
         else if contains ''A1'' m \<or> contains ''P1'' m then Some ''image''
         else None)"

definition snapshot_url :: "printer \<Rightarrow> string option" where
  "snapshot_url printer =
     (let base = (case por (pget printer ''moonrakerUrl'') (pget printer ''host'') of
         PStr b \<Rightarrow>
           if strip b \<noteq> [] then
             (let b1 = rstrip_by (\<lambda>c. c = CHR ''/'') (strip b);
                  b2 = (if startswith ''http://'' b1 \<or> startswith ''https://'' b1 then b1 else ''http://'' @ b1)
              in Some (b2 @ ''/webcam/?action=snapshot''))
           else None
       | _ \<Rightarrow> None)
      in case pget printer ''cameraSnapshotUrl'' of
          PStr e \<Rightarrow> if strip e \<noteq> [] then Some (strip e) else base
        | _ \<Rightarrow> base)"

datatype source_kind = Bambu_rtsp | Bambu_lan | Http_snapshot

definition camera_source_kind :: "(pyval \<Rightarrow> string) \<Rightarrow> printer \<Rightarrow> source_kind option" where
  "camera_source_kind rep printer =
     (if lower (py_str rep (por (pget printer ''vendor'') (PStr []))) = ''bambu'' then
        (if \<not> (truthy (pget printer ''host'') \<and> truthy (pget printer ''accessCode'')) then None
         else if bambu_camera_transport rep (pget printer ''model'') = Some ''rtsp'' then Some Bambu_rtsp
         else Some Bambu_lan)
      else if (case snapshot_url printer of None \<Rightarrow> False | Some u \<Rightarrow> u \<noteq> []) then Some Http_snapshot
      else None)"

text \<open>
  A capture: the frame (empty: none), the reason and the detail. \<open>url_scheme\<close> is
  \<open>urllib.parse.urlparse(url).scheme\<close>: leading control characters and spaces are skipped, tabs and
  line ends are removed, and the text before the first colon counts when it is a scheme.
\<close>

type_synonym capture = "byte list \<times> string option \<times> string"

definition is_alpha :: "char \<Rightarrow> bool" where
  "is_alpha c \<longleftrightarrow> (let n = (of_char c :: nat) in (65 \<le> n \<and> n \<le> 90) \<or> (97 \<le> n \<and> n \<le> 122))"

definition scheme_char :: "char \<Rightarrow> bool" where
  "scheme_char c \<longleftrightarrow> is_alpha c \<or> is_digit c \<or> c \<in> {CHR ''+'', CHR ''-'', CHR ''.''}"

definition url_scheme :: "string \<Rightarrow> string" where
  "url_scheme url =
     (let u = filter (\<lambda>c. c \<noteq> CHR 0x09 \<and> c \<noteq> CHR 0x0A \<and> c \<noteq> CHR 0x0D)
                (dropWhile (\<lambda>c. (of_char c :: nat) \<le> 32) url);
          s = takeWhile (\<lambda>c. c \<noteq> CHR '':'') u
      in if length s < length u \<and> s \<noteq> [] \<and> is_alpha (hd s) \<and> list_all scheme_char s then lower s else [])"

datatype http_outcome =
    Body "byte list"
  | Status int
  | Timed_out
  | Unreachable bool string

definition MAX_FRAME_BYTES :: nat where
  "MAX_FRAME_BYTES = 2 * 1024 * 1024"

definition is_jpeg :: "byte list \<Rightarrow> bool" where
  "is_jpeg data \<longleftrightarrow> take 2 data = [0xFF, 0xD8]"

definition http_snapshot_with_reason :: "(string \<Rightarrow> http_outcome) \<Rightarrow> nat \<Rightarrow> string \<Rightarrow> capture" where
  "http_snapshot_with_reason fetch max_bytes url =
     (if url = [] then ([], Some ''no-camera-source'', [])
      else if url_scheme url \<notin> {''http'', ''https''} then ([], Some ''unknown'', ''non-http snapshot url'')
      else case fetch url of
          Status code \<Rightarrow> ([], Some (if code \<in> {401, 403} then ''auth-fail'' else ''unreachable''),
                         ''HTTP '' @ int_str code)
        | Timed_out \<Rightarrow> ([], Some ''timeout'', [])
        | Unreachable by_timeout text \<Rightarrow>
            if by_timeout then ([], Some ''timeout'', []) else ([], Some ''unreachable'', py_take 200 text)
        | Body content \<Rightarrow>
            (let data = take (max_bytes + 1) content
             in if data = [] \<or> max_bytes < length data \<or> \<not> is_jpeg data
                then ([], Some ''bad-jpeg'', []) else (data, None, [])))"

record camera_env =
  cm_rep :: "pyval \<Rightarrow> string"
  cm_bambu :: "string \<Rightarrow> string \<Rightarrow> capture"
  cm_rtsp :: "string \<Rightarrow> string \<Rightarrow> capture"
  cm_fetch :: "string \<Rightarrow> http_outcome"

definition or_unknown :: "capture \<Rightarrow> capture" where
  "or_unknown c = (case c of (jpeg, reason, detail) \<Rightarrow>
     if jpeg \<noteq> [] then (jpeg, None, [])
     else ([], Some (case reason of Some r \<Rightarrow> if r \<noteq> [] then r else ''unknown'' | None \<Rightarrow> ''unknown''), detail))"

definition capture_printer_frame_with_reason :: "camera_env \<Rightarrow> printer \<Rightarrow> capture" where
  "capture_printer_frame_with_reason env printer =
     (let host = py_str (cm_rep env) (pget printer ''host'');
          code = py_str (cm_rep env) (pget printer ''accessCode'')
      in case camera_source_kind (cm_rep env) printer of
          Some Bambu_lan \<Rightarrow> or_unknown (cm_bambu env host code)
        | Some Bambu_rtsp \<Rightarrow> or_unknown (cm_rtsp env host code)
        | Some Http_snapshot \<Rightarrow> http_snapshot_with_reason (cm_fetch env) MAX_FRAME_BYTES
             (case snapshot_url printer of Some u \<Rightarrow> u | None \<Rightarrow> [])
        | None \<Rightarrow> ([], Some ''no-camera-source'', []))"

section \<open>The cadence\<close>

record scheduler =
  sc_last_capture :: "(string, real) odict"
  sc_last_state :: "(string, string) odict"

definition new_scheduler :: scheduler where
  "new_scheduler = \<lparr>sc_last_capture = [], sc_last_state = []\<rparr>"

definition FIRST_OR_LAST_LAYER_S :: real where
  "FIRST_OR_LAST_LAYER_S = 20"

definition MID_PRINT_S :: real where
  "MID_PRINT_S = 90"

definition IDLE_S :: real where
  "IDLE_S = 600"

definition interval :: "string \<Rightarrow> pyval \<Rightarrow> real" where
  "interval state progress =
     (if state = ''printing'' then
        (case num_of progress of
            None \<Rightarrow> FIRST_OR_LAST_LAYER_S
          | Some p \<Rightarrow> if p \<le> 5 \<or> 95 \<le> p then FIRST_OR_LAST_LAYER_S else MID_PRINT_S)
      else IDLE_S)"

text \<open>\<open>state\<close> is the state text of the status, empty when it has none.\<close>

definition should_capture :: "string \<Rightarrow> string \<Rightarrow> pyval \<Rightarrow> real \<Rightarrow> scheduler \<Rightarrow> bool \<times> scheduler" where
  "should_capture pid state progress now sc =
     (let prev_state = map_of (sc_last_state sc) pid;
          sc' = sc\<lparr>sc_last_state := AList.update pid state (sc_last_state sc)\<rparr>
      in (case map_of (sc_last_capture sc) pid of
            None \<Rightarrow> True
          | Some t \<Rightarrow> if Some state \<noteq> prev_state then True else interval state progress \<le> now - t, sc'))"

definition mark_captured :: "string \<Rightarrow> real \<Rightarrow> scheduler \<Rightarrow> scheduler" where
  "mark_captured pid now sc = sc\<lparr>sc_last_capture := AList.update pid now (sc_last_capture sc)\<rparr>"

definition scheduler_forget :: "string set \<Rightarrow> scheduler \<Rightarrow> scheduler" where
  "scheduler_forget keep sc = sc\<lparr>sc_last_capture := filter (\<lambda>(p, _). p \<in> keep) (sc_last_capture sc),
     sc_last_state := filter (\<lambda>(p, _). p \<in> keep) (sc_last_state sc)\<rparr>"

section \<open>One beat\<close>

record frame =
  fr_printer :: string
  fr_jpeg :: "byte list"

record capture_failure =
  cf_printer :: string
  cf_reason :: string
  cf_detail :: string

definition target_id :: "printer \<Rightarrow> string option" where
  "target_id t = (case pget t ''printerId'' of PStr pid \<Rightarrow> Some pid | _ \<Rightarrow> None)"

definition status_state :: "(string \<times> pyval) list \<Rightarrow> string" where
  "status_state st = (case por (pget st ''state'') (PStr []) of PStr s \<Rightarrow> s | _ \<Rightarrow> [])"

fun due_targets :: "(string \<Rightarrow> (string \<times> pyval) list) \<Rightarrow> real \<Rightarrow> printer list \<Rightarrow> scheduler \<Rightarrow>
    (string \<times> printer) list \<times> scheduler" where
  "due_targets status now [] sc = ([], sc)"
| "due_targets status now (t # ts) sc = (case target_id t of
      None \<Rightarrow> due_targets status now ts sc
    | Some pid \<Rightarrow>
        (let (due, sc1) = should_capture pid (status_state (status pid)) (pget (status pid) ''progressPct'') now sc;
             (rest, sc2) = due_targets status now ts sc1
         in (if due then (pid, t) # rest else rest, sc2)))"

text \<open>The results of the captures that finished in time, in the order they finished.\<close>

fun harvest :: "real \<Rightarrow> (string \<times> capture option) list \<Rightarrow> scheduler \<Rightarrow>
    frame list \<times> (string, capture_failure) odict \<times> scheduler" where
  "harvest now [] sc = ([], [], sc)"
| "harvest now ((pid, result) # rs) sc =
     (let (jpeg, reason, detail) = (case result of Some c \<Rightarrow> c | None \<Rightarrow> ([], Some ''unknown'', []))
      in if jpeg \<noteq> [] then
           (let (frames, failures, sc') = harvest now rs (mark_captured pid now sc)
            in (\<lparr>fr_printer = pid, fr_jpeg = jpeg\<rparr> # frames, failures, sc'))
         else
           (let (frames, failures, sc') = harvest now rs sc
            in (frames, failures @ [(pid, \<lparr>cf_printer = pid,
                  cf_reason = (case reason of Some r \<Rightarrow> if r \<noteq> [] then r else ''unknown'' | None \<Rightarrow> ''unknown''),
                  cf_detail = detail\<rparr>)], sc')))"

definition failure_list :: "(string \<times> printer) list \<Rightarrow> string list \<Rightarrow> (string, capture_failure) odict \<Rightarrow>
    capture_failure list" where
  "failure_list due captured failed = List.map_filter (\<lambda>(pid, t).
     if pid \<in> set captured then None
     else Some (case map_of failed pid of Some f \<Rightarrow> f
                | None \<Rightarrow> \<lparr>cf_printer = pid, cf_reason = ''timeout'', cf_detail = []\<rparr>)) due"

definition collect_camera_frames :: "(printer \<Rightarrow> capture option) \<Rightarrow> nat list \<Rightarrow> printer list \<Rightarrow>
    (string \<Rightarrow> (string \<times> pyval) list) \<Rightarrow> real \<Rightarrow> scheduler \<Rightarrow>
    (frame list \<times> capture_failure list) \<times> scheduler" where
  "collect_camera_frames capture finished targets status now sc =
     (let (due, sc1) = due_targets status now targets sc
      in if due = [] then (([], []), sc1)
         else (let results = map (\<lambda>i. (fst (due ! i), capture (snd (due ! i))))
                               (filter (\<lambda>i. i < length due) finished);
                   (frames, failed, sc2) = harvest now results sc1
               in ((frames, failure_list due (map fr_printer frames) failed), sc2)))"

section \<open>Lemmas\<close>

lemma harvest_ConsE:
  assumes "harvest now ((p, res) # rs) sc = (frames, failed, sc')"
  obtains (got) jpeg reason detail fs where "res = Some (jpeg, reason, detail)" "jpeg \<noteq> []"
      "harvest now rs (mark_captured p now sc) = (fs, failed, sc')"
      "frames = \<lparr>fr_printer = p, fr_jpeg = jpeg\<rparr> # fs"
    | (missed) f fl where "harvest now rs sc = (frames, fl, sc')" "failed = fl @ [(p, f)]" "cf_printer f = p"
proof -
  obtain jpeg reason detail where c: "(case res of Some c \<Rightarrow> c | None \<Rightarrow> ([], Some ''unknown'', [])) = (jpeg, reason, detail)"
    by (cases "case res of Some c \<Rightarrow> c | None \<Rightarrow> ([], Some ''unknown'', [])") auto
  show thesis
  proof (cases "jpeg = []")
    case True
    with c assms show thesis by (auto split: prod.splits intro: missed)
  next
    case False
    then have "res = Some (jpeg, reason, detail)" using c by (cases res) auto
    with False assms show thesis by (auto split: prod.splits intro: got)
  qed
qed

lemma harvest_last_capture:
  "harvest now rs sc = (frames, failed, sc') \<Longrightarrow> map_of (sc_last_capture sc') pid =
     (if pid \<in> fr_printer ` set frames then Some now else map_of (sc_last_capture sc) pid)"
proof (induction rs arbitrary: frames failed sc)
  case (Cons r rs)
  obtain p res where r: "r = (p, res)" by (cases r)
  from Cons.prems show ?case unfolding r
    by (cases rule: harvest_ConsE)
      (use Cons.IH in \<open>fastforce simp: mark_captured_def map_of_update\<close>)+
qed simp

lemma harvest_last_state: "harvest now rs sc = (frames, failed, sc') \<Longrightarrow> sc_last_state sc' = sc_last_state sc"
proof (induction rs arbitrary: frames failed sc)
  case (Cons r rs)
  obtain p res where r: "r = (p, res)" by (cases r)
  from Cons.prems show ?case unfolding r
    by (cases rule: harvest_ConsE) (auto dest!: Cons.IH simp: mark_captured_def)
qed simp

lemma harvest_split:
  "harvest now rs sc = (frames, failed, sc') \<Longrightarrow>
     fr_printer ` set frames \<union> fst ` set failed = fst ` set rs \<and> (\<forall>(q, f) \<in> set failed. cf_printer f = q)"
proof (induction rs arbitrary: frames failed sc)
  case (Cons r rs)
  obtain p res where r: "r = (p, res)" by (cases r)
  from Cons.prems show ?case unfolding r
    by (cases rule: harvest_ConsE) (auto dest!: Cons.IH)
qed simp

lemma failure_list_ids:
  assumes "\<forall>(q, f) \<in> set failed. cf_printer f = q"
  shows "cf_printer ` set (failure_list due captured failed) = fst ` set due - set captured"
proof -
  have named: "cf_printer (case map_of failed pid of Some f \<Rightarrow> f
      | None \<Rightarrow> \<lparr>cf_printer = pid, cf_reason = ''timeout'', cf_detail = []\<rparr>) = pid" for pid
    using assms by (auto split: option.split dest!: map_of_SomeD)
  then show ?thesis
    by (induction due) (auto simp: failure_list_def List.map_filter_def named split: if_splits)
qed

lemma due_targets_frame:
  "due_targets status now ts sc = (due, sc') \<Longrightarrow> sc_last_capture sc' = sc_last_capture sc"
proof (induction ts arbitrary: due sc)
  case (Cons t ts)
  then show ?case
    by (auto simp: should_capture_def Let_def split: option.splits prod.splits dest!: Cons.IH)
qed simp

lemma due_targets_state:
  "due_targets status now ts sc = (due, sc') \<Longrightarrow>
     map_of (sc_last_state sc') pid = (if \<exists>t \<in> set ts. target_id t = Some pid
        then Some (status_state (status pid)) else map_of (sc_last_state sc) pid)"
proof (induction ts arbitrary: due sc sc')
  case (Cons t ts)
  show ?case
  proof (cases "target_id t")
    case None
    with Cons show ?thesis by simp
  next
    case (Some q)
    obtain d sc1 where s1: "should_capture q (status_state (status q)) (pget (status q) ''progressPct'') now sc = (d, sc1)"
      by (cases "should_capture q (status_state (status q)) (pget (status q) ''progressPct'') now sc")
    obtain rest sc2 where s2: "due_targets status now ts sc1 = (rest, sc2)"
      by (cases "due_targets status now ts sc1")
    have st: "sc_last_state sc1 = AList.update q (status_state (status q)) (sc_last_state sc)"
      using s1 by (auto simp: should_capture_def Let_def)
    have "sc' = sc2" using Cons.prems Some s1 s2 by simp
    with Cons.IH [OF s2] Some st show ?thesis by (auto simp: map_of_update)
  qed
qed simp

definition due_now :: "string \<Rightarrow> string \<Rightarrow> pyval \<Rightarrow> real \<Rightarrow> scheduler \<Rightarrow> bool" where
  "due_now pid state progress now sc = fst (should_capture pid state progress now sc)"

text \<open>
  One beat of the camera accounts for every due printer and stamps only success. The printers
  with a frame and those with a failure are disjoint and together exactly the due ones; a printer's
  last capture becomes the time of the beat when it delivered a frame and is otherwise unchanged.
  Hence a printer without a frame is due at a later beat in the same state exactly when it was never
  captured or its interval is over: a capture that was due only because the state changed is not
  tried again at the next beat.
\<close>

theorem camera_beat_accounts:
  assumes "collect_camera_frames capture finished targets status now sc = ((frames, failures), sc')"
    and "due_targets status now targets sc = (due, sc1)"
  shows "fr_printer ` set frames \<inter> cf_printer ` set failures = {} \<and>
    fr_printer ` set frames \<union> cf_printer ` set failures = fst ` set due \<and>
    map_of (sc_last_capture sc') pid =
      (if pid \<in> fr_printer ` set frames then Some now else map_of (sc_last_capture sc) pid) \<and>
    ((\<exists>t \<in> set targets. target_id t = Some pid) \<and> pid \<notin> fr_printer ` set frames \<longrightarrow>
      due_now pid (status_state (status pid)) progress later sc' =
        (case map_of (sc_last_capture sc) pid of None \<Rightarrow> True
         | Some t \<Rightarrow> interval (status_state (status pid)) progress \<le> later - t))"
proof -
  define results where "results = map (\<lambda>i. (fst (due ! i), capture (snd (due ! i))))
    (filter (\<lambda>i. i < length due) finished)"
  obtain fs failed sc2 where h: "harvest now results sc1 = (fs, failed, sc2)"
    by (cases "harvest now results sc1") auto
  have outcome: "frames = fs \<and> failures = failure_list due (map fr_printer fs) failed \<and> sc' = sc2"
  proof (cases "due = []")
    case True
    then have "fs = [] \<and> failed = [] \<and> sc2 = sc1" using h by (simp add: results_def)
    with True assms show ?thesis by (simp add: collect_camera_frames_def failure_list_def List.map_filter_def)
  next
    case False
    with assms h show ?thesis by (auto simp: collect_camera_frames_def results_def Let_def)
  qed
  have within: "fst ` set results \<subseteq> fst ` set due"
    by (auto simp: results_def)
  have fs: "fr_printer ` set fs \<subseteq> fst ` set results" and ids: "\<forall>(q, f) \<in> set failed. cf_printer f = q"
    using harvest_split [OF h] by auto
  have sub: "fr_printer ` set fs \<subseteq> fst ` set due" by (rule subset_trans [OF fs within])
  have parts: "fr_printer ` set frames \<inter> cf_printer ` set failures = {}"
    "fr_printer ` set frames \<union> cf_printer ` set failures = fst ` set due"
    using outcome sub failure_list_ids [OF ids, of due "map fr_printer fs"] by auto
  have stamp: "map_of (sc_last_capture sc') pid =
      (if pid \<in> fr_printer ` set frames then Some now else map_of (sc_last_capture sc) pid)"
    using harvest_last_capture [OF h] outcome due_targets_frame [OF assms(2)] by simp
  have "map_of (sc_last_state sc') pid = Some (status_state (status pid))"
    if "\<exists>t \<in> set targets. target_id t = Some pid"
    using that harvest_last_state [OF h] outcome due_targets_state [OF assms(2), of pid] by simp
  then have "(\<exists>t \<in> set targets. target_id t = Some pid) \<and> pid \<notin> fr_printer ` set frames \<longrightarrow>
      due_now pid (status_state (status pid)) progress later sc' =
        (case map_of (sc_last_capture sc) pid of None \<Rightarrow> True
         | Some t \<Rightarrow> interval (status_state (status pid)) progress \<le> later - t)"
    using stamp by (auto simp: due_now_def should_capture_def Let_def split: option.split)
  with parts stamp show ?thesis by blast
qed

definition demo_target :: printer where
  "demo_target = [(''printerId'', PStr ''p'')]"

text \<open>The printer was captured at 0 while printing; it went idle, and the capture at 30 failed.\<close>

theorem camera_beat_accounts_witness:
  "let sc = \<lparr>sc_last_capture = [(''p'', 0)], sc_last_state = [(''p'', ''printing'')]\<rparr>;
       status = (\<lambda>_. [(''state'', PStr ''idle'')]);
       beat = collect_camera_frames (\<lambda>_. None) [0] [demo_target] status 30 sc
   in map cf_printer (snd (fst beat)) = [''p''] \<and> \<not> due_now ''p'' ''idle'' PNone 60 (snd beat)"
proof -
  let ?sc = "\<lparr>sc_last_capture = [(''p'', 0)], sc_last_state = [(''p'', ''printing'')]\<rparr>"
  let ?status = "\<lambda>_ :: string. [(''state'', PStr ''idle'')]"
  let ?sc' = "\<lparr>sc_last_capture = [(''p'', 0)], sc_last_state = [(''p'', ''idle'')]\<rparr>"
  have tgt: "target_id demo_target = Some ''p''" and st: "status_state (?status ''p'') = ''idle''"
    by (simp_all add: target_id_def demo_target_def pget_def get_or_def status_state_def por_def)
  have due: "due_targets ?status 30 [demo_target] ?sc = ([(''p'', demo_target)], ?sc')"
    using tgt st by (simp add: should_capture_def)
  have beat: "collect_camera_frames (\<lambda>_. None) [0] [demo_target] ?status 30 ?sc =
      (([], [\<lparr>cf_printer = ''p'', cf_reason = ''unknown'', cf_detail = []\<rparr>]), ?sc')"
    using due by (simp add: collect_camera_frames_def failure_list_def List.map_filter_def)
  from camera_beat_accounts [OF beat due, of "''p''" PNone 60] tgt st
  have "\<not> due_now ''p'' ''idle'' PNone 60 ?sc'" by (simp add: interval_def IDLE_S_def)
  with beat show ?thesis by (simp add: Let_def)
qed

end
