(* ===== verification/FailureWatch.thy ===== *)
theory FailureWatch
  imports PyText
begin

text \<open>
  The failure watch: \<open>makeros_hub/printers/failure_watch.py\<close> (smoothing and sample collection), the
  decoder of the detector's output in \<open>yolo_decode.py\<close> and the letterboxing of its input in
  \<open>yolo_preprocess.py\<close>. An array is a nested list, its entries \<open>None\<close> where they are not finite; the
  detector is a parameter that returns a number or raises (\<open>None\<close>). Floats are exact reals.
\<close>

section \<open>Clamping and basis points\<close>

definition clamp01 :: "real \<Rightarrow> real" where
  "clamp01 x = max 0 (min 1 x)"

definition to_bps :: "real \<Rightarrow> int" where
  "to_bps p = (if p < 0 then 0 else if 1 < p then 10000 else py_round (p * 10000))"

lemma clamp01_range: "0 \<le> clamp01 x \<and> clamp01 x \<le> 1"
  by (simp add: clamp01_def)

lemma clamp01_id [simp]: "0 \<le> x \<Longrightarrow> x \<le> 1 \<Longrightarrow> clamp01 x = x"
  by (simp add: clamp01_def)

lemma to_bps_range: "0 \<le> to_bps p \<and> to_bps p \<le> 10000"
proof -
  have "0 \<le> py_round (p * 10000) \<and> py_round (p * 10000) \<le> 10000" if "0 \<le> p" "p \<le> 1"
    using that by (intro py_round_range) auto
  then show ?thesis by (simp add: to_bps_def)
qed

lemma to_bps_mono: "p \<le> q \<Longrightarrow> to_bps p \<le> to_bps q"
  using to_bps_range [of p] to_bps_range [of q] by (auto simp: to_bps_def intro: py_round_mono)

section \<open>Smoothing\<close>

record smoother =
  sm_alpha :: real
  sm_stale :: real
  sm_prev :: "(string, real) odict"
  sm_last_seen :: "(string, real) odict"

definition EWMA_SPAN :: real where
  "EWMA_SPAN = 12"

definition EWMA_ALPHA :: real where
  "EWMA_ALPHA = 2 / (EWMA_SPAN + 1)"

definition new_smoother :: "real \<Rightarrow> real option \<Rightarrow> smoother result" where
  "new_smoother alpha stale =
     (if \<not> (0 < alpha \<and> alpha \<le> 1) then Inl (ValueError ''alpha must be in (0, 1]'')
      else Inr \<lparr>sm_alpha = alpha, sm_stale = (case stale of Some s \<Rightarrow> s | None \<Rightarrow> 600),
                sm_prev = [], sm_last_seen = []\<rparr>)"

definition smooth :: "string \<Rightarrow> real \<Rightarrow> real \<Rightarrow> smoother \<Rightarrow> real \<times> smoother" where
  "smooth pid raw_p now sm =
     (let raw = clamp01 raw_p;
          value = (case (map_of (sm_prev sm) pid, map_of (sm_last_seen sm) pid) of
              (Some prev, Some seen) \<Rightarrow>
                if sm_stale sm < now - seen then raw
                else sm_alpha sm * raw + (1 - sm_alpha sm) * prev
            | _ \<Rightarrow> raw)
      in (value, sm\<lparr>sm_prev := AList.update pid value (sm_prev sm),
                    sm_last_seen := AList.update pid now (sm_last_seen sm)\<rparr>))"

definition smoother_forget :: "string set \<Rightarrow> smoother \<Rightarrow> smoother" where
  "smoother_forget keep sm = sm\<lparr>sm_prev := filter (\<lambda>(p, _). p \<in> keep) (sm_prev sm),
     sm_last_seen := filter (\<lambda>(p, _). p \<in> keep) (sm_last_seen sm)\<rparr>"

section \<open>The samples of one beat\<close>

record sample =
  sa_printer :: string
  sa_raw :: int
  sa_smoothed :: int

definition stub_detector :: "byte list \<Rightarrow> real option" where
  "stub_detector jpeg = Some 0"

text \<open>The guards of the loop, in order: the target with its frame, or nothing.\<close>

definition eligible :: "(string, (string \<times> pyval) list) odict \<Rightarrow> (string, byte list) odict \<Rightarrow>
    (string \<times> pyval) list \<Rightarrow> (string \<times> byte list) option" where
  "eligible status_by_id frames_by_id t = (case pget t ''printerId'' of
      PStr pid \<Rightarrow>
        if \<not> truthy (pget t ''cameraEnabled'') \<or> \<not> truthy (pget t ''aiFailureWatchEnabled'') then None
        else if pget (get_or status_by_id pid []) ''state'' \<noteq> PStr ''printing'' then None
        else (case map_of frames_by_id pid of
            None \<Rightarrow> None
          | Some jpeg \<Rightarrow> if jpeg = [] then None else Some (pid, jpeg))
    | _ \<Rightarrow> None)"

fun sample_loop :: "(byte list \<Rightarrow> real option) \<Rightarrow> real \<Rightarrow> (string \<times> byte list) list \<Rightarrow> smoother \<Rightarrow>
    (sample list \<times> nat) \<times> smoother" where
  "sample_loop detector now [] sm = (([], 0), sm)"
| "sample_loop detector now ((pid, jpeg) # ts) sm = (case detector jpeg of
      None \<Rightarrow> (let ((samples, dropped), sm') = sample_loop detector now ts sm
               in ((samples, dropped + 1), sm'))
    | Some raw \<Rightarrow>
        (let (value, sm1) = smooth pid raw now sm;
             ((samples, dropped), sm') = sample_loop detector now ts sm1
         in ((\<lparr>sa_printer = pid, sa_raw = to_bps raw, sa_smoothed = to_bps value\<rparr> # samples, dropped), sm')))"

definition collect_failure_samples :: "(byte list \<Rightarrow> real option) \<Rightarrow> real \<Rightarrow> (string \<times> pyval) list list \<Rightarrow>
    (string, (string \<times> pyval) list) odict \<Rightarrow> (string, byte list) odict \<Rightarrow> smoother \<Rightarrow>
    (sample list \<times> nat) \<times> smoother" where
  "collect_failure_samples detector now targets status_by_id frames_by_id sm =
     (let ts = List.map_filter (eligible status_by_id frames_by_id) targets;
          (out, sm') = sample_loop detector now ts sm
      in (out, smoother_forget (set (map fst ts)) sm'))"

section \<open>Decoding the detector's output\<close>

type_synonym entry = "real option"

datatype ndarray =
    Nd2 "entry list list"
  | Nd3 "entry list list list"
  | NdOther

definition NUM_CHANNELS :: nat where
  "NUM_CHANNELS = 7"

definition DEFAULT_CLASS_WEIGHTS :: "real list" where
  "DEFAULT_CLASS_WEIGHTS = [1, 7 / 10, 1 / 2]"

definition finite_or_zero :: "entry \<Rightarrow> real" where
  "finite_or_zero e = (case e of Some x \<Rightarrow> x | None \<Rightarrow> 0)"

definition squeeze_batch :: "ndarray \<Rightarrow> ndarray" where
  "squeeze_batch a = (case a of Nd3 [m] \<Rightarrow> Nd2 m | _ \<Rightarrow> a)"

text \<open>
  The probability, and what \<open>on_out_of_range\<close> is called with, if it is called.
\<close>

definition decode_failure_probability :: "real list \<Rightarrow> ndarray \<Rightarrow> (real \<times> real option) result" where
  "decode_failure_probability weights output = (case squeeze_batch output of
      Nd2 rows \<Rightarrow>
        if length rows \<noteq> NUM_CHANNELS then Inl (ValueError ''expected 7 channels'')
        else if hd rows = [] then Inl (ValueError ''zero-size array to reduction operation maximum'')
        else (let class_max = map (\<lambda>row. Max (set (map finite_or_zero row))) (drop 4 rows);
                  hi = Max (set class_max); lo = Min (set class_max);
                  notice = (if 101 / 100 < hi \<or> lo < - 1 / 100 then Some hi else None);
                  weighted = map2 (\<lambda>m w. clamp01 m * w) class_max weights
              in Inr (clamp01 (Max (set weighted)), notice))
    | _ \<Rightarrow> Inl (ValueError ''expected (1, C, N) or (C, N)''))"

section \<open>Letterboxing the input\<close>

definition INPUT_SIZE :: int where
  "INPUT_SIZE = 640"

definition LETTERBOX_FILL :: nat where
  "LETTERBOX_FILL = 114"

definition letterbox_dims :: "int \<Rightarrow> int \<Rightarrow> int \<Rightarrow> (int \<times> int \<times> int \<times> int \<times> real) result" where
  "letterbox_dims src_w src_h dst =
     (if src_w \<le> 0 \<or> src_h \<le> 0 then Inl (ValueError ''invalid source dims'')
      else (let scale = min (of_int dst / of_int src_w) (of_int dst / of_int src_h);
                new_w = py_round (of_int src_w * scale);
                new_h = py_round (of_int src_h * scale)
            in Inr (new_w, new_h, (dst - new_w) div 2, (dst - new_h) div 2, scale)))"

type_synonym pixel = "nat list"

text \<open>
  The canvas: nearest-neighbour rows and columns inside the padded window, the fill outside it. The
  source is a non-ragged list of rows of RGB pixels.
\<close>

definition source_index :: "int \<Rightarrow> int \<Rightarrow> int \<Rightarrow> nat" where
  "source_index src new i = nat (trunc_real (of_int i * of_int src / of_int new))"

definition letterbox_canvas :: "pixel list list \<Rightarrow> pixel list list result" where
  "letterbox_canvas img =
     (let src_h = int (length img); src_w = (if img = [] then 0 else int (length (hd img)))
      in res_bind (letterbox_dims src_w src_h INPUT_SIZE) (\<lambda>(new_w, new_h, pad_l, pad_t, _).
           Inr (map (\<lambda>y. map (\<lambda>x.
             if pad_t \<le> y \<and> y < pad_t + new_h \<and> pad_l \<le> x \<and> x < pad_l + new_w
             then img ! source_index src_h new_h (y - pad_t) ! source_index src_w new_w (x - pad_l)
             else replicate 3 LETTERBOX_FILL) [0..INPUT_SIZE - 1]) [0..INPUT_SIZE - 1])))"

definition prepare_input_from_rgb_array :: "pixel list list \<Rightarrow> real list list list list result" where
  "prepare_input_from_rgb_array canvas =
     (if int (length canvas) = INPUT_SIZE \<and> (\<forall>row \<in> set canvas. int (length row) = INPUT_SIZE \<and> (\<forall>p \<in> set row. length p = 3))
      then Inr [map (\<lambda>c. map (map (\<lambda>p. of_nat (p ! c) / 255)) canvas) [0, 1, 2]]
      else Inl (ValueError ''expected (640, 640, 3) HWC canvas''))"

definition prepare_input :: "pixel list list \<Rightarrow> real list list list list result" where
  "prepare_input img = res_bind (letterbox_canvas img) prepare_input_from_rgb_array"

section \<open>Soundness of the samples\<close>

definition smoother_ok :: "smoother \<Rightarrow> bool" where
  "smoother_ok sm \<longleftrightarrow> 0 < sm_alpha sm \<and> sm_alpha sm \<le> 1 \<and>
     (\<forall>(p, v) \<in> set (sm_prev sm). 0 \<le> v \<and> v \<le> 1)"

lemma smoother_ok_new: "new_smoother alpha stale = Inr sm \<Longrightarrow> smoother_ok sm"
  by (auto simp: new_smoother_def smoother_ok_def split: if_splits)

lemma convex_bounds:
  fixes a x y lo hi :: real
  assumes "0 \<le> a" "a \<le> 1" "lo \<le> x" "x \<le> hi" "lo \<le> y" "y \<le> hi"
  shows "lo \<le> a * x + (1 - a) * y \<and> a * x + (1 - a) * y \<le> hi"
proof -
  have "a * lo \<le> a * x" "(1 - a) * lo \<le> (1 - a) * y" "a * x \<le> a * hi" "(1 - a) * y \<le> (1 - a) * hi"
    using assms by (simp_all add: mult_left_mono)
  then show ?thesis by (simp add: algebra_simps)
qed

lemmas convex_unit = convex_bounds [where lo = 0 and hi = 1, THEN conjunct1]
  convex_bounds [where lo = 0 and hi = 1, THEN conjunct2]

lemma update_entries: "(q, v) \<in> set (AList.update k x d) \<Longrightarrow> (q, v) \<in> set d \<or> v = x"
  by (induction d) (auto split: if_splits)

lemma smooth_ok:
  assumes "smoother_ok sm" "smooth pid raw now sm = (v, sm')"
  shows "smoother_ok sm' \<and> 0 \<le> v \<and> v \<le> 1"
proof -
  have prev: "0 \<le> x \<and> x \<le> 1" if "map_of (sm_prev sm) pid = Some x" for x
    using assms(1) map_of_SomeD [OF that] by (auto simp: smoother_ok_def)
  have v: "0 \<le> v \<and> v \<le> 1"
    using assms clamp01_range [of raw] prev
    by (auto simp: smooth_def smoother_ok_def Let_def split: option.splits if_splits intro!: convex_unit)
  have sm': "sm' = sm\<lparr>sm_prev := AList.update pid v (sm_prev sm), sm_last_seen := AList.update pid now (sm_last_seen sm)\<rparr>"
    using assms(2) by (auto simp: smooth_def Let_def)
  show ?thesis
    using assms(1) v by (auto simp: sm' smoother_ok_def dest!: update_entries)
qed

lemma smoother_ok_forget: "smoother_ok sm \<Longrightarrow> smoother_ok (smoother_forget keep sm)"
  by (auto simp: smoother_ok_def smoother_forget_def)

lemma sample_loop_ok:
  "smoother_ok sm \<Longrightarrow> sample_loop detector now ts sm = ((samples, dropped), sm') \<Longrightarrow>
   smoother_ok sm' \<and> length samples + dropped = length ts \<and>
   (\<forall>s \<in> set samples. \<exists>jpeg raw v. (sa_printer s, jpeg) \<in> set ts \<and> detector jpeg = Some raw \<and>
      sa_raw s = to_bps raw \<and> 0 \<le> v \<and> v \<le> 1 \<and> sa_smoothed s = to_bps v)"
proof (induction ts arbitrary: sm samples dropped)
  case (Cons t ts)
  obtain pid jpeg where t: "t = (pid, jpeg)" by (cases t)
  show ?case
  proof (cases "detector jpeg")
    case None
    obtain ss d where rest: "sample_loop detector now ts sm = ((ss, d), sm')"
      using Cons.prems(2) None t by (auto split: prod.splits)
    with Cons.IH [OF Cons.prems(1) rest] Cons.prems(2) None t show ?thesis by fastforce
  next
    case (Some raw)
    obtain v sm1 where s1: "smooth pid raw now sm = (v, sm1)" by (cases "smooth pid raw now sm")
    obtain ss d where rest: "sample_loop detector now ts sm1 = ((ss, d), sm')"
      using Cons.prems(2) Some t s1 by (auto split: prod.splits)
    from smooth_ok [OF Cons.prems(1) s1] have ok: "smoother_ok sm1" and v: "0 \<le> v" "v \<le> 1" by auto
    have eq: "samples = \<lparr>sa_printer = pid, sa_raw = to_bps raw, sa_smoothed = to_bps v\<rparr> # ss" "dropped = d"
      using Cons.prems(2) Some t s1 rest by auto
    from Cons.IH [OF ok rest] Some v show ?thesis unfolding eq t by fastforce
  qed
qed simp

lemma eligible_Some: "eligible st fr t = Some (pid, jpeg) \<longleftrightarrow>
    pget t ''printerId'' = PStr pid \<and> truthy (pget t ''cameraEnabled'') \<and>
    truthy (pget t ''aiFailureWatchEnabled'') \<and> pget (get_or st pid []) ''state'' = PStr ''printing'' \<and>
    map_of fr pid = Some jpeg \<and> jpeg \<noteq> []"
  by (auto simp: eligible_def split: pyval.splits option.splits)

text \<open>
  Every sample of a beat is backed: its printer is a target with the camera and the failure watch
  enabled that is printing and delivered a non-empty frame, the detector gave the raw value for that
  frame, and both values are basis points between 0 and 10000. Every eligible frame is either a
  sample or counted as dropped.
\<close>

theorem failure_samples_sound:
  assumes "smoother_ok sm"
    and "collect_failure_samples detector now targets status frames sm = ((samples, dropped), sm')"
  shows "smoother_ok sm' \<and>
    length samples + dropped = length (List.map_filter (eligible status frames) targets) \<and>
    (\<forall>s \<in> set samples. 0 \<le> sa_raw s \<and> sa_raw s \<le> 10000 \<and> 0 \<le> sa_smoothed s \<and> sa_smoothed s \<le> 10000 \<and>
      (\<exists>t \<in> set targets. \<exists>jpeg raw. eligible status frames t = Some (sa_printer s, jpeg) \<and>
         detector jpeg = Some raw \<and> sa_raw s = to_bps raw))"
proof -
  let ?ts = "List.map_filter (eligible status frames) targets"
  obtain sm1 where loop: "sample_loop detector now ?ts sm = ((samples, dropped), sm1)"
    and sm': "sm' = smoother_forget (set (map fst ?ts)) sm1"
    using assms(2) by (auto simp: collect_failure_samples_def Let_def split: prod.splits)
  from sample_loop_ok [OF assms(1) loop] sm' show ?thesis
    by (fastforce simp: smoother_ok_forget to_bps_range in_map_filter)
qed

definition watch_target :: "string \<Rightarrow> (string \<times> pyval) list" where
  "watch_target pid = [(''printerId'', PStr pid), (''cameraEnabled'', PBool True), (''aiFailureWatchEnabled'', PBool True)]"

definition printing_status :: "(string \<times> pyval) list" where
  "printing_status = [(''state'', PStr ''printing'')]"

lemma eligible_watch: "eligible [(''a'', printing_status), (''b'', printing_status)] fr (watch_target pid) =
    (if pid \<in> {''a'', ''b''} then (case map_of fr pid of None \<Rightarrow> None | Some j \<Rightarrow> if j = [] then None else Some (pid, j))
     else None)"
  by (auto simp: eligible_def watch_target_def printing_status_def pget_def get_or_def)

definition fresh_smoother :: smoother where
  "fresh_smoother = \<lparr>sm_alpha = 1 / 2, sm_stale = 600, sm_prev = [], sm_last_seen = []\<rparr>"

theorem failure_samples_sound_witness:
  "\<exists>samples sm'. collect_failure_samples (\<lambda>j. Some (1 / 2)) 0 [watch_target ''a'', watch_target ''b'']
      [(''a'', printing_status), (''b'', printing_status)] [(''a'', [1])] fresh_smoother = ((samples, 0), sm') \<and>
    length samples = 1 \<and> smoother_ok sm'"
proof -
  have ok: "smoother_ok fresh_smoother" by (simp add: smoother_ok_def fresh_smoother_def)
  obtain samples sm' where run: "collect_failure_samples (\<lambda>j. Some (1 / 2)) 0 [watch_target ''a'', watch_target ''b'']
      [(''a'', printing_status), (''b'', printing_status)] [(''a'', [1])] fresh_smoother = ((samples, 0), sm')"
    by (simp add: collect_failure_samples_def List.map_filter_def eligible_watch smooth_def Let_def)
  from failure_samples_sound [OF ok run] run show ?thesis
    by (simp add: List.map_filter_def eligible_watch)
qed

section \<open>A beat without a frame resets the series\<close>

lemma sample_loop_prev:
  "sample_loop detector now ts sm = (out, sm') \<Longrightarrow> pid \<notin> fst ` set ts \<Longrightarrow>
   map_of (sm_prev sm') pid = map_of (sm_prev sm) pid"
proof (induction ts arbitrary: sm out)
  case (Cons t ts)
  then show ?case
    by (cases t) (auto simp: smooth_def Let_def map_of_update split: option.splits prod.splits dest!: Cons.IH)
qed simp

lemma map_of_filter_key: "map_of (filter (\<lambda>(p, _). p \<in> K) d) k = (if k \<in> K then map_of d k else None)"
  by (induction d) auto

text \<open>
  The documentation of the smoother says that a series restarts for a printer seen for the first
  time, after a long gap, or when the printer is no longer eligible. The code restarts it whenever a
  beat that collects samples has no frame of the printer: its next value is the raw one, however
  recent the last sample. With two printers whose cameras deliver on different beats, as their
  cadence makes them, nothing is ever smoothed.
\<close>

theorem absent_frame_resets_series:
  assumes "collect_failure_samples detector now targets status frames sm = (out, sm')"
    and "map_of frames pid = None"
  shows "fst (smooth pid raw later sm') = clamp01 raw"
proof -
  let ?ts = "List.map_filter (eligible status frames) targets"
  have "pid \<notin> fst ` set ?ts"
    using assms(2) by (auto simp: in_map_filter eligible_Some)
  with assms(1) have "map_of (sm_prev sm') pid = None"
    by (auto simp: collect_failure_samples_def Let_def smoother_forget_def map_of_filter_key split: prod.splits)
  then show ?thesis by (simp add: smooth_def Let_def)
qed

text \<open>Printer \<open>a\<close> was sampled at 0; a beat with a frame of \<open>b\<close> only follows at 30.\<close>

theorem absent_frame_resets_series_witness:
  "let sm = fresh_smoother\<lparr>sm_prev := [(''a'', 0)], sm_last_seen := [(''a'', 0)]\<rparr>;
       sm' = snd (collect_failure_samples stub_detector 30 [watch_target ''a'', watch_target ''b'']
         [(''a'', printing_status), (''b'', printing_status)] [(''b'', [1])] sm)
   in fst (smooth ''a'' 1 60 sm') = 1 \<and> fst (smooth ''a'' 1 60 sm) = 1 / 2"
proof -
  let ?sm = "fresh_smoother\<lparr>sm_prev := [(''a'', 0)], sm_last_seen := [(''a'', 0)]\<rparr>"
  have "fst (smooth ''a'' 1 60 ?sm) = 1 / 2"
    by (simp add: smooth_def Let_def fresh_smoother_def)
  then show ?thesis
    unfolding Let_def
    by (intro conjI; (subst absent_frame_resets_series [OF prod.collapse [symmetric]])?; simp)
qed

section \<open>The detector's number and the letterbox\<close>

lemma decode_in_range: "decode_failure_probability weights a = Inr (p, notice) \<Longrightarrow> 0 \<le> p \<and> p \<le> 1"
  using clamp01_range by (auto simp: decode_failure_probability_def Let_def split: ndarray.splits if_splits)

lemma letterbox_fits:
  assumes "letterbox_dims w h dst = Inr (nw, nh, pl, pt, scale)" "0 \<le> dst"
  shows "0 \<le> nw \<and> 0 \<le> nh \<and> 0 \<le> pl \<and> 0 \<le> pt \<and> pl + nw \<le> dst \<and> pt + nh \<le> dst \<and> (nw = dst \<or> nh = dst)"
proof -
  from assms(1) have pos: "0 < w" "0 < h"
    and scale: "scale = min (of_int dst / of_int w) (of_int dst / of_int h)"
    and nw: "nw = py_round (of_int w * scale)" and nh: "nh = py_round (of_int h * scale)"
    and pads: "pl = (dst - nw) div 2" "pt = (dst - nh) div 2"
    by (auto simp: letterbox_dims_def Let_def split: if_splits)
  have s0: "0 \<le> scale" using pos assms(2) by (simp add: scale)
  have ub: "of_int w * scale \<le> of_int dst" "of_int h * scale \<le> of_int dst"
    using pos by (auto simp: scale field_simps min_def)
  have "of_int 0 \<le> of_int w * scale" "of_int 0 \<le> of_int h * scale"
    using pos s0 by simp_all
  with ub have r: "0 \<le> nw \<and> nw \<le> dst" "0 \<le> nh \<and> nh \<le> dst"
    using py_round_range [of 0 "of_int w * scale" dst] py_round_range [of 0 "of_int h * scale" dst]
    by (simp_all only: nw nh)
  have "of_int w * scale = of_int dst \<or> of_int h * scale = of_int dst"
    using pos by (auto simp: scale min_def)
  then have "nw = dst \<or> nh = dst" by (auto simp: nw nh)
  with r show ?thesis by (auto simp: pads)
qed

lemma letterbox_canvas_size:
  assumes "letterbox_canvas img = Inr canvas"
  shows "length canvas = 640 \<and> (\<forall>row \<in> set canvas. length row = 640)"
  using assms by (auto simp: letterbox_canvas_def Let_def res_bind_eq_Inr INPUT_SIZE_def)

end
