(* ===== verification/Detector.thy ===== *)
theory Detector
  imports FailureWatch
begin

text \<open>
  The runtime half of the failure detector, \<open>makeros_hub/printers/onnx_detector.py\<close>: the verified
  download of the model into its cache directory, the detector call around inference, the latency
  summary, and the boot that fills the holder. The cache directory maps file names to contents and
  modification times. Downloading, SHA-256, image decoding, inference and \<open>float\<close> of a text are
  parameters.
\<close>

section \<open>The model cache\<close>

record cache_file =
  mf_content :: "byte list"
  mf_mtime :: real

type_synonym cache = "(string, cache_file) odict"

text \<open>One download attempt: all bytes, a network error that is retried, or any other \<open>OSError\<close>.\<close>

datatype attempt =
    Fetched "byte list"
  | Network_error "byte list"
  | Write_error "byte list"

record cache_env =
  ce_digest :: "byte list \<Rightarrow> string"
  ce_time :: real
  ce_readable :: bool
  ce_removable :: bool
  ce_tmp :: "nat \<Rightarrow> string"

definition PARTIAL_CLEANUP_AGE_SEC :: real where
  "PARTIAL_CLEANUP_AGE_SEC = 3600"

definition cached_model_name :: "string \<Rightarrow> string" where
  "cached_model_name sha = sha @ ''.onnx''"

definition is_partial :: "string \<Rightarrow> bool" where
  "is_partial name \<longleftrightarrow> startswith ''.partial.'' name"

definition sweep_partials :: "cache_env \<Rightarrow> real \<Rightarrow> cache \<Rightarrow> cache" where
  "sweep_partials env max_age d = filter (\<lambda>(name, f).
     \<not> (is_partial name \<and> max_age < ce_time env - mf_mtime f \<and> ce_removable env)) d"

definition write_tmp :: "cache_env \<Rightarrow> nat \<Rightarrow> byte list \<Rightarrow> cache \<Rightarrow> cache" where
  "write_tmp env n content d = AList.update (ce_tmp env n) \<lparr>mf_content = content, mf_mtime = ce_time env\<rparr> d"

definition unlink_tmp :: "cache_env \<Rightarrow> nat \<Rightarrow> cache \<Rightarrow> cache" where
  "unlink_tmp env n d = (if ce_removable env then AList.delete (ce_tmp env n) d else d)"

definition rename_to :: "string \<Rightarrow> string \<Rightarrow> cache \<Rightarrow> cache" where
  "rename_to src dest d = (case map_of d src of
      Some f \<Rightarrow> AList.update dest f (AList.delete src d) | None \<Rightarrow> d)"

text \<open>The attempts; a list shorter than \<open>1 + retries\<close> stands for further network errors.\<close>

fun attempt_loop :: "cache_env \<Rightarrow> string \<Rightarrow> nat \<Rightarrow> attempt list \<Rightarrow> nat \<Rightarrow> cache \<Rightarrow> string result \<times> cache" where
  "attempt_loop env sha n as 0 d = (Inl OSErr, d)"
| "attempt_loop env sha n [] (Suc k) d = (Inl OSErr, d)"
| "attempt_loop env sha n (a # as) (Suc k) d = (case a of
      Network_error part \<Rightarrow> attempt_loop env sha (n + 1) as k (unlink_tmp env n (write_tmp env n part d))
    | Write_error part \<Rightarrow> (Inl OSErr, unlink_tmp env n (write_tmp env n part d))
    | Fetched content \<Rightarrow>
        (let d1 = write_tmp env n content d
         in if ce_digest env content \<noteq> sha
            then (Inl (ValueError ''sha256 mismatch''), unlink_tmp env n d1)
            else (Inr (cached_model_name sha), rename_to (ce_tmp env n) (cached_model_name sha) d1)))"

definition download_model :: "cache_env \<Rightarrow> string \<Rightarrow> string \<Rightarrow> nat \<Rightarrow> attempt list \<Rightarrow> cache \<Rightarrow>
    string result \<times> cache" where
  "download_model env url sha retries attempts d =
     (if url = [] \<or> sha = [] then (Inl (ValueError ''download_model requires both url and expected_sha256''), d)
      else (let d1 = sweep_partials env PARTIAL_CLEANUP_AGE_SEC d; dest = cached_model_name sha
            in case map_of d1 dest of
                Some f \<Rightarrow>
                  if ce_readable env \<and> ce_digest env (mf_content f) = sha then (Inr dest, d1)
                  else attempt_loop env sha 0 attempts (1 + retries)
                         (if ce_removable env then AList.delete dest d1 else d1)
              | None \<Rightarrow> attempt_loop env sha 0 attempts (1 + retries) d1))"

text \<open>\<open>tempfile\<close> promises a fresh name each time, with the prefix it was given.\<close>

definition fresh_tmps :: "cache_env \<Rightarrow> string \<Rightarrow> bool" where
  "fresh_tmps env dest \<longleftrightarrow> (\<forall>n. ce_tmp env n \<noteq> dest)"

lemma map_of_rename: "map_of (rename_to a b d) k =
    (case map_of d a of None \<Rightarrow> map_of d k | Some f \<Rightarrow> if k = b then Some f else if k = a then None else map_of d k)"
  by (simp add: rename_to_def map_of_update map_of_delete split: option.split)

lemma attempt_loop_verified:
  "attempt_loop env sha n as k d = (Inr dest, d') \<Longrightarrow>
   dest = cached_model_name sha \<and> (\<exists>f. map_of d' dest = Some f \<and> ce_digest env (mf_content f) = sha)"
proof (induction env sha n as k d rule: attempt_loop.induct)
  case (3 env sha n a as k d)
  then show ?case
    by (cases a) (auto simp: Let_def map_of_rename write_tmp_def map_of_update split: if_splits)
qed simp_all

lemma attempt_loop_others:
  "attempt_loop env sha n as k d = (r, d') \<Longrightarrow> \<forall>m. name \<noteq> ce_tmp env m \<Longrightarrow> name \<noteq> cached_model_name sha \<Longrightarrow>
   map_of d' name = map_of d name"
proof (induction env sha n as k d rule: attempt_loop.induct)
  case (3 env sha n a as k d)
  then show ?case
    by (cases a) (auto simp: Let_def map_of_rename write_tmp_def unlink_tmp_def map_of_update map_of_delete
        split: if_splits)
qed simp_all

lemma attempt_loop_no_tmp:
  "attempt_loop env sha n as k d = (r, d') \<Longrightarrow> ce_removable env \<Longrightarrow> fresh_tmps env (cached_model_name sha) \<Longrightarrow>
   \<forall>m. map_of d (ce_tmp env m) = None \<Longrightarrow> map_of d' (ce_tmp env j) = None"
proof (induction env sha n as k d rule: attempt_loop.induct)
  case (3 env sha n a as k d)
  show ?case
  proof (cases a)
    case (Fetched content)
    with 3 show ?thesis
      by (auto simp: Let_def map_of_rename write_tmp_def unlink_tmp_def map_of_update map_of_delete fresh_tmps_def
          split: if_splits)
  next
    case (Network_error part)
    have "\<forall>m. map_of (unlink_tmp env n (write_tmp env n part d)) (ce_tmp env m) = None"
      using "3.prems" by (simp add: unlink_tmp_def write_tmp_def map_of_delete map_of_update)
    with 3 Network_error show ?thesis by simp
  next
    case (Write_error part)
    with 3 show ?thesis by (auto simp: unlink_tmp_def write_tmp_def map_of_delete map_of_update)
  qed
qed simp_all

lemma download_verified:
  "download_model env url sha retries attempts d = (Inr dest, d') \<Longrightarrow>
   \<exists>f. map_of d' (cached_model_name sha) = Some f \<and> ce_digest env (mf_content f) = sha"
  by (auto simp: download_model_def Let_def split: if_splits option.splits dest: attempt_loop_verified)

lemma download_no_tmp:
  assumes "download_model env url sha retries attempts d = (r, d')" "ce_removable env"
    "fresh_tmps env (cached_model_name sha)" "\<forall>m. map_of d (ce_tmp env m) = None"
  shows "\<forall>m. map_of d' (ce_tmp env m) = None"
proof -
  have swept: "map_of (sweep_partials env PARTIAL_CLEANUP_AGE_SEC d) (ce_tmp env m) = None" for m
    using assms(4) by (auto simp: sweep_partials_def map_of_eq_None_iff)
  have "map_of (AList.delete k (sweep_partials env PARTIAL_CLEANUP_AGE_SEC d)) (ce_tmp env m) = None" for k m
    by (simp add: map_of_delete swept)
  with swept assms show ?thesis
    by (auto simp: download_model_def Let_def split: if_splits option.splits
        intro: attempt_loop_no_tmp [OF _ assms(2,3)])
qed

lemma sweep_keeps: "\<not> is_partial name \<Longrightarrow> map_of (sweep_partials env age d) name = map_of d name"
  by (induction d) (auto simp: sweep_partials_def)

lemma download_others:
  assumes "download_model env url sha retries attempts d = (r, d')" "\<not> is_partial name"
    "\<forall>m. name \<noteq> ce_tmp env m" "name \<noteq> cached_model_name sha"
  shows "map_of d' name = map_of d name"
  using assms sweep_keeps [OF assms(2), of env PARTIAL_CLEANUP_AGE_SEC d]
  by (auto simp: download_model_def Let_def map_of_delete split: if_splits option.splits
      dest!: attempt_loop_others [OF _ assms(3,4)])

section \<open>Environment knobs\<close>

definition env_int :: "string \<Rightarrow> int \<Rightarrow> int" where
  "env_int raw0 fallback = (let raw = strip raw0
     in if raw = [] then fallback else (case int_of_str raw of Some i \<Rightarrow> i | None \<Rightarrow> fallback))"

definition env_class_weights :: "(string \<Rightarrow> real option) \<Rightarrow> string \<Rightarrow> real list" where
  "env_class_weights to_float raw0 = (let raw = strip raw0
     in if raw = [] then DEFAULT_CLASS_WEIGHTS
        else (case map strip (split_on (CHR '','') raw) of
            [a, b, c] \<Rightarrow> (case (to_float a, to_float b, to_float c) of
                (Some x, Some y, Some z) \<Rightarrow> [x, y, z] | _ \<Rightarrow> DEFAULT_CLASS_WEIGHTS)
          | _ \<Rightarrow> DEFAULT_CLASS_WEIGHTS))"

section \<open>The detector\<close>

definition LATENCY_RING_SIZE :: nat where
  "LATENCY_RING_SIZE = 16"

record detector =
  de_weights :: "real list"
  de_latencies :: "real list"
  de_out_of_range :: bool

definition new_detector :: "real list \<Rightarrow> detector" where
  "new_detector weights = \<lparr>de_weights = weights, de_latencies = [], de_out_of_range = False\<rparr>"

text \<open>\<open>deque(maxlen=16)\<close>\<close>

definition note_latency :: "real \<Rightarrow> detector \<Rightarrow> detector" where
  "note_latency dt det = (let q = de_latencies det @ [dt]
     in det\<lparr>de_latencies := drop (length q - LATENCY_RING_SIZE) q\<rparr>)"

definition note_out_of_range :: "detector \<Rightarrow> detector" where
  "note_out_of_range det = (if de_out_of_range det then det else det\<lparr>de_out_of_range := True\<rparr>)"

definition latency_summary :: "detector \<Rightarrow> nat \<times> real option \<times> real option" where
  "latency_summary det =
     (if de_latencies det = [] then (0, None, None)
      else (let l = sort (de_latencies det); mid = length l div 2;
                median = (if odd (length l) then l ! mid else (l ! (mid - 1) + l ! mid) / 2)
            in (length l, Some median, Some (Max (set l)))))"

text \<open>
  \<open>decode\<close> is the preprocessing of a frame (\<open>None\<close>: it failed) and \<open>infer\<close> one inference with its
  duration (\<open>None\<close>: it raised, and so does the call).
\<close>

definition detect :: "(byte list \<Rightarrow> 't option) \<Rightarrow> ('t \<Rightarrow> (ndarray \<times> real) option) \<Rightarrow> byte list \<Rightarrow> detector \<Rightarrow>
    real option \<times> detector" where
  "detect decode infer jpeg det =
     (if jpeg = [] then (Some 0, det)
      else case decode jpeg of
          None \<Rightarrow> (Some 0, det)
        | Some tensor \<Rightarrow>
            (case infer tensor of
                None \<Rightarrow> (None, det)
              | Some (output, dt) \<Rightarrow>
                  (let det1 = note_latency dt det
                   in case decode_failure_probability (de_weights det) output of
                       Inl e \<Rightarrow> (Some 0, det1)
                     | Inr (p, notice) \<Rightarrow>
                         (Some p, if notice = None then det1 else note_out_of_range det1))))"

interpretation latency_ring: bounded_fifo de_latencies note_latency LATENCY_RING_SIZE
  by unfold_locales (simp_all add: note_latency_def Let_def LATENCY_RING_SIZE_def)

lemma detect_range: "detect decode infer jpeg det = (Some p, det') \<Longrightarrow> 0 \<le> p \<and> p \<le> 1"
  by (auto simp: detect_def Let_def decode_in_range split: if_splits option.splits sum.splits prod.splits)

lemma detect_ring:
  assumes "detect decode infer jpeg det = (r, det')" "length (de_latencies det) \<le> LATENCY_RING_SIZE"
  shows "length (de_latencies det') \<le> LATENCY_RING_SIZE"
  using assms latency_ring.add_bounded [OF assms(2)]
  by (auto simp: detect_def Let_def note_out_of_range_def split: if_splits option.splits sum.splits prod.splits)

lemma latency_summary_bounds:
  assumes "latency_summary det = (n, Some median, Some mx)"
  shows "Min (set (de_latencies det)) \<le> median \<and> median \<le> mx \<and> mx = Max (set (de_latencies det))"
proof -
  let ?l = "sort (de_latencies det)"
  have ne: "de_latencies det \<noteq> []" and n: "0 < length ?l"
    and mx: "mx = Max (set (de_latencies det))"
    and md: "median = (if odd (length ?l) then ?l ! (length ?l div 2)
        else (?l ! (length ?l div 2 - 1) + ?l ! (length ?l div 2)) / 2)"
    using assms by (auto simp: latency_summary_def Let_def split: if_splits)
  have in_range: "Min (set (de_latencies det)) \<le> ?l ! i \<and> ?l ! i \<le> Max (set (de_latencies det))"
    if "i < length ?l" for i
  proof -
    have "?l ! i \<in> set (de_latencies det)" using nth_mem [OF that] by simp
    then show ?thesis by simp
  qed
  have "length ?l div 2 < length ?l" "length ?l div 2 - 1 < length ?l" using n by linarith+
  from in_range [OF this(1)] in_range [OF this(2)] show ?thesis
    unfolding mx md by (cases "odd (length ?l)") (simp_all add: field_simps)
qed

section \<open>Boot\<close>

datatype boot_outcome = Active | Stub_no_url | Stub_no_deps | Stub_download_failed

record holder =
  ho_detector :: "detector option"
  ho_outcome :: "boot_outcome option"

definition new_holder :: holder where
  "new_holder = \<lparr>ho_detector = None, ho_outcome = None\<rparr>"

definition holder_set :: "detector option \<Rightarrow> boot_outcome \<Rightarrow> holder \<Rightarrow> holder" where
  "holder_set det outcome h = h\<lparr>ho_detector := det, ho_outcome := Some outcome\<rparr>"

definition holder_close :: "holder \<Rightarrow> holder" where
  "holder_close h = h\<lparr>ho_detector := None\<rparr>"

text \<open>\<open>session_ok\<close>: whether the session could be made from the file.\<close>

definition build_detector :: "cache_env \<Rightarrow> bool \<Rightarrow> bool \<Rightarrow> real list \<Rightarrow> string \<Rightarrow> string \<Rightarrow> nat \<Rightarrow> attempt list \<Rightarrow>
    cache \<Rightarrow> detector option \<times> cache" where
  "build_detector env runtime session_ok weights url sha retries attempts d =
     (if url = [] \<or> sha = [] then (None, d)
      else if \<not> runtime then (None, d)
      else (case download_model env url sha retries attempts d of
          (Inl e, d') \<Rightarrow> (None, d')
        | (Inr path, d') \<Rightarrow> (if session_ok then Some (new_detector weights) else None, d')))"

definition boot :: "cache_env \<Rightarrow> bool \<Rightarrow> bool \<Rightarrow> real list \<Rightarrow> string \<Rightarrow> string \<Rightarrow> nat \<Rightarrow> attempt list \<Rightarrow>
    cache \<Rightarrow> holder \<Rightarrow> holder \<times> cache" where
  "boot env runtime session_ok weights url sha retries attempts d h =
     (if url = [] \<or> sha = [] then (holder_set None Stub_no_url h, d)
      else if \<not> runtime then (holder_set None Stub_no_deps h, d)
      else (case build_detector env runtime session_ok weights url sha retries attempts d of
          (None, d') \<Rightarrow> (holder_set None Stub_download_failed h, d')
        | (Some det, d') \<Rightarrow> (holder_set (Some det) Active h, d')))"

text \<open>
  C23: The detector only ever becomes active on a model file whose digest is the pinned one: after a
  boot that ends active, the cache holds, under the name of the pin, content with exactly that digest,
  whatever the network delivered. And whatever the outcome, when files can be removed, no temporary
  file of this boot is left, and no other file of the cache changed except swept partials.
\<close>

theorem detector_boots_on_pinned_model:
  assumes "boot env runtime session_ok weights url sha retries attempts d h = (h', d')"
    and "ce_removable env" and "fresh_tmps env (cached_model_name sha)"
    and "\<forall>m. map_of d (ce_tmp env m) = None"
  shows "(ho_outcome h' = Some Active \<longrightarrow>
      (\<exists>f. map_of d' (cached_model_name sha) = Some f \<and> ce_digest env (mf_content f) = sha)) \<and>
    (ho_detector h' \<noteq> None \<longrightarrow> ho_outcome h' = Some Active) \<and>
    (\<forall>m. map_of d' (ce_tmp env m) = None) \<and>
    (\<not> is_partial name \<and> (\<forall>m. name \<noteq> ce_tmp env m) \<and> name \<noteq> cached_model_name sha \<longrightarrow>
      map_of d' name = map_of d name)"
proof -
  have download: "(\<forall>m. map_of d1 (ce_tmp env m) = None) \<and>
      (\<forall>dest. r = Inr dest \<longrightarrow> (\<exists>f. map_of d1 (cached_model_name sha) = Some f \<and> ce_digest env (mf_content f) = sha)) \<and>
      (\<not> is_partial name \<and> (\<forall>m. name \<noteq> ce_tmp env m) \<and> name \<noteq> cached_model_name sha \<longrightarrow>
        map_of d1 name = map_of d name)"
    if "download_model env url sha retries attempts d = (r, d1)" for r d1
    using download_no_tmp [OF that assms(2-4)] download_verified [of env url sha retries attempts d _ d1]
      download_others [OF that] that by blast
  show ?thesis
    using assms(1,4) download
    by (cases "download_model env url sha retries attempts d")
       (auto simp: boot_def build_detector_def holder_set_def split: if_splits sum.splits)
qed

definition demo_cache_env :: cache_env where
  "demo_cache_env = \<lparr>ce_digest = (\<lambda>c. if c = [1, 2] then ''ab'' else ''zz''), ce_time = 0, ce_readable = True,
     ce_removable = True, ce_tmp = (\<lambda>n. ''.partial.'' @ replicate n CHR ''x'')\<rparr>"

text \<open>A corrupted cached file, a broken download, then a good one.\<close>

theorem detector_boots_on_pinned_model_witness:
  "let (h', d') = boot demo_cache_env True True DEFAULT_CLASS_WEIGHTS ''http://m'' ''ab'' 1
       [Network_error [1], Fetched [1, 2]] [(''ab.onnx'', \<lparr>mf_content = [9], mf_mtime = 0\<rparr>)] new_holder
   in ho_outcome h' = Some Active \<and>
      (\<exists>f. map_of d' (cached_model_name ''ab'') = Some f \<and> ce_digest demo_cache_env (mf_content f) = ''ab'')"
proof -
  let ?d = "[(''ab.onnx'', \<lparr>mf_content = [9], mf_mtime = 0\<rparr>)]"
  let ?b = "boot demo_cache_env True True DEFAULT_CLASS_WEIGHTS ''http://m'' ''ab'' 1 [Network_error [1], Fetched [1, 2]] ?d new_holder"
  have active: "ho_outcome (fst ?b) = Some Active"
    by (simp add: boot_def build_detector_def download_model_def demo_cache_env_def sweep_partials_def is_partial_def
        startswith_def cached_model_name_def unlink_tmp_def write_tmp_def rename_to_def holder_set_def Let_def
        numeral_2_eq_2)
  have fresh: "fresh_tmps demo_cache_env (cached_model_name ''ab'')" and tmp: "\<forall>m. map_of ?d (ce_tmp demo_cache_env m) = None"
    by (auto simp: fresh_tmps_def demo_cache_env_def cached_model_name_def)
  have "ce_removable demo_cache_env" by (simp add: demo_cache_env_def)
  from detector_boots_on_pinned_model [OF prod.collapse [symmetric] this fresh tmp] active
  show ?thesis by (simp add: Let_def case_prod_beta')
qed

end
