(* ===== verification/Update.thy ===== *)
theory Update
  imports PyText
begin

text \<open>
  The self-update, \<open>makeros_hub/update.py\<close>: the release-tag and commit patterns, the decision, the
  cooldown kept in the state file and the trigger. What the process does to the outside is a list of
  actions. The state file holds a dictionary (empty when it cannot be read); a clock reading is an
  argument. \<open>\d\<close> is taken on ASCII digits; \<open>$\<close> also matches before a final line end, as in the source.
\<close>

definition drop_final_newline :: "string \<Rightarrow> string" where
  "drop_final_newline s = (if s \<noteq> [] \<and> last s = CHR 0x0A then butlast s else s)"

definition digits :: "string \<Rightarrow> bool" where
  "digits s \<longleftrightarrow> s \<noteq> [] \<and> list_all is_digit s"

text \<open>\<open>RELEASE_TAG_RE.match(s)\<close> with its three groups.\<close>

definition release_match :: "string \<Rightarrow> (string \<times> string \<times> string) option" where
  "release_match s = (case drop_final_newline s of
      [] \<Rightarrow> None
    | c # rest \<Rightarrow>
        (case split_on (CHR ''.'') rest of
           [a, b, d] \<Rightarrow> if c = CHR ''v'' \<and> digits a \<and> digits b \<and> digits d then Some (a, b, d) else None
         | _ \<Rightarrow> None))"

definition is_hex :: "char \<Rightarrow> bool" where
  "is_hex c \<longleftrightarrow> is_digit c \<or> (97 \<le> (of_char c :: nat) \<and> (of_char c :: nat) \<le> 102)"

definition commit_match :: "string \<Rightarrow> bool" where
  "commit_match s \<longleftrightarrow> (let t = drop_final_newline s in length t = 40 \<and> list_all is_hex t)"

definition parse_version :: "pyval \<Rightarrow> (nat \<times> nat \<times> nat) option" where
  "parse_version v = (case v of
      PStr s \<Rightarrow> (case release_match (if startswith ''v'' s then s else CHR ''v'' # s) of
          Some (a, b, d) \<Rightarrow> Some (nat_of_digits a, nat_of_digits b, nat_of_digits d)
        | None \<Rightarrow> None)
    | _ \<Rightarrow> None)"

definition is_release_tag :: "pyval \<Rightarrow> bool" where
  "is_release_tag v = (case v of PStr s \<Rightarrow> release_match s \<noteq> None | _ \<Rightarrow> False)"

definition is_commit_sha :: "pyval \<Rightarrow> bool" where
  "is_commit_sha v = (case v of PStr s \<Rightarrow> commit_match s | _ \<Rightarrow> False)"

definition version_less :: "nat \<times> nat \<times> nat \<Rightarrow> nat \<times> nat \<times> nat \<Rightarrow> bool" where
  "version_less c t = (case (c, t) of ((c1, c2, c3), (t1, t2, t3)) \<Rightarrow>
     c1 < t1 \<or> (c1 = t1 \<and> (c2 < t2 \<or> (c2 = t2 \<and> c3 < t3))))"

definition is_newer :: "pyval \<Rightarrow> pyval \<Rightarrow> bool" where
  "is_newer target current = (case (parse_version target, parse_version current) of
      (Some t, Some c) \<Rightarrow> version_less c t | _ \<Rightarrow> False)"

definition should_update :: "pyval \<Rightarrow> pyval \<Rightarrow> bool" where
  "should_update current target \<longleftrightarrow> is_release_tag target \<and> is_newer target current"

section \<open>State file and trigger\<close>

type_synonym update_state = "(string \<times> pyval) list"

datatype action =
    Exit int
  | Run "string list"

record update_env =
  up_mode :: string
  up_script :: string
  up_writable :: bool
  up_run_ok :: bool

definition ATTEMPT_COOLDOWN_SEC :: real where
  "ATTEMPT_COOLDOWN_SEC = 900"

definition EXIT_FOR_UPDATE_CODE :: int where
  "EXIT_FOR_UPDATE_CODE = 75"

definition recently_attempted :: "string \<Rightarrow> real \<Rightarrow> update_state \<Rightarrow> bool result" where
  "recently_attempted target now st =
     (if pget st ''target'' \<noteq> PStr target then Inr False
      else (case num_of (get_or st ''at'' (PInt 0)) of
          None \<Rightarrow> Inl TypeError
        | Some t \<Rightarrow> Inr (now - t < ATTEMPT_COOLDOWN_SEC)))"

text \<open>\<open>_write_state\<close> logs a failing write and goes on.\<close>

definition write_state :: "update_env \<Rightarrow> update_state \<Rightarrow> update_state \<Rightarrow> update_state" where
  "write_state env new st = (if up_writable env then new else st)"

definition apply_update :: "update_env \<Rightarrow> string \<Rightarrow> string option \<Rightarrow> real \<Rightarrow> update_state \<Rightarrow>
    bool \<times> update_state \<times> action list" where
  "apply_update env tag expected_sha now st =
     (if \<not> is_release_tag (PStr tag) then (False, st, [])
      else if (case expected_sha of Some s \<Rightarrow> \<not> is_commit_sha (PStr s) | None \<Rightarrow> False) then (False, st, [])
      else if up_mode env = ''disabled'' then (False, st, [])
      else (let st1 = write_state env [(''target'', PStr tag), (''at'', PFloat now)] st
            in if up_mode env = ''exit'' then (False, st1, [Exit EXIT_FOR_UPDATE_CODE])
               else (up_run_ok env, st1,
                     [Run ([''sudo'', up_script env, tag] @ (case expected_sha of Some s \<Rightarrow> [s] | None \<Rightarrow> []))])))"

definition maybe_update :: "update_env \<Rightarrow> pyval \<Rightarrow> pyval \<Rightarrow> pyval \<Rightarrow> real \<Rightarrow> update_state \<Rightarrow>
    (bool \<times> update_state \<times> action list) result" where
  "maybe_update env current target target_sha now st = (case target of
      PStr tag \<Rightarrow>
        if \<not> should_update current target then Inr (False, st, [])
        else res_bind (recently_attempted tag now st) (\<lambda>recent.
          if recent then Inr (False, st, [])
          else Inr (apply_update env tag
            (case target_sha of PStr s \<Rightarrow> if is_commit_sha target_sha then Some s else None | _ \<Rightarrow> None) now st))
    | _ \<Rightarrow> Inr (False, st, []))"

section \<open>Properties\<close>

lemma version_less_irrefl: "\<not> version_less v v"
  by (cases v) (simp add: version_less_def)

lemma version_less_trans: "version_less a b \<Longrightarrow> version_less b c \<Longrightarrow> version_less a c"
  by (cases a; cases b; cases c) (auto simp: version_less_def)

lemma never_downgrades: "should_update current target \<Longrightarrow> \<not> should_update target current"
  by (auto simp: should_update_def is_newer_def split: option.splits dest: version_less_trans simp: version_less_irrefl)

definition expected_args :: "update_env \<Rightarrow> string \<Rightarrow> pyval \<Rightarrow> string list" where
  "expected_args env tag target_sha = [''sudo'', up_script env, tag] @
     (if is_commit_sha target_sha then [case target_sha of PStr s \<Rightarrow> s | _ \<Rightarrow> []] else [])"

text \<open>
  The one remote-code path. Whatever the cloud sends, an update is triggered at most once per
  decision and only for a text that is a release tag strictly newer than the running version, in a
  mode other than disabled, and not within 900 seconds of the last attempt on the same tag. The
  trigger is the exit code 75 or exactly the one privileged script with the tag and, when the cloud
  sent a commit, that commit. When the state file can be written, deciding again on the same tag
  within 900 seconds triggers nothing.
\<close>

theorem update_trigger_is_gated:
  assumes "maybe_update env current target target_sha now st = Inr (ok, st', acts)" and "acts \<noteq> []"
  shows "(\<exists>tag t c. target = PStr tag \<and> release_match tag \<noteq> None \<and> parse_version target = Some t \<and>
      parse_version current = Some c \<and> version_less c t \<and> recently_attempted tag now st = Inr False \<and>
      acts = [if up_mode env = ''exit'' then Exit 75 else Run (expected_args env tag target_sha)]) \<and>
    up_mode env \<noteq> ''disabled'' \<and>
    (up_writable env \<and> later - now < 900 \<longrightarrow>
      maybe_update env current target other_sha later st' = Inr (False, st', []))"
proof -
  obtain tag where tag: "target = PStr tag"
    using assms by (cases target) (auto simp: maybe_update_def)
  have su: "should_update current target" and recent: "recently_attempted tag now st = Inr False"
    and app: "apply_update env tag (case target_sha of PStr s \<Rightarrow> if is_commit_sha target_sha then Some s else None | _ \<Rightarrow> None) now st
      = (ok, st', acts)"
    using assms by (auto simp: maybe_update_def tag res_bind_eq_Inr split: if_splits)
  have mode: "up_mode env \<noteq> ''disabled''"
    and st': "st' = write_state env [(''target'', PStr tag), (''at'', PFloat now)] st"
    and acts: "acts = [if up_mode env = ''exit'' then Exit 75 else Run (expected_args env tag target_sha)]"
    using app assms(2)
    by (auto simp: apply_update_def Let_def EXIT_FOR_UPDATE_CODE_def expected_args_def is_commit_sha_def
        split: if_splits pyval.splits)
  have "maybe_update env current target other_sha later st' = Inr (False, st', [])"
    if "up_writable env" "later - now < 900"
    using that su
    by (simp add: maybe_update_def tag st' write_state_def recently_attempted_def pget_def get_or_def
        ATTEMPT_COOLDOWN_SEC_def)
  moreover have "\<exists>t c. parse_version target = Some t \<and> parse_version current = Some c \<and> version_less c t"
      "release_match tag \<noteq> None"
    using su by (auto simp: should_update_def is_newer_def is_release_tag_def tag split: option.splits)
  ultimately show ?thesis using tag recent mode acts by blast
qed

lemma demo_versions:
  "should_update (PStr ''0.49.1'') (PStr ''v0.50.0'')"
  by (simp add: should_update_def is_newer_def is_release_tag_def parse_version_def release_match_def
      drop_final_newline_def startswith_def digits_def is_digit_def nat_of_digits_def digit_val_def version_less_def)

definition demo_update_env :: update_env where
  "demo_update_env = \<lparr>up_mode = ''systemd'', up_script = ''/opt/makeros-hub/update.sh'', up_writable = True, up_run_ok = True\<rparr>"

theorem update_trigger_is_gated_witness:
  "\<exists>st'. maybe_update demo_update_env (PStr ''0.49.1'') (PStr ''v0.50.0'') PNone 1000 [] =
       Inr (True, st', [Run [''sudo'', ''/opt/makeros-hub/update.sh'', ''v0.50.0'']]) \<and>
     maybe_update demo_update_env (PStr ''0.49.1'') (PStr ''v0.50.0'') PNone 1899 st' = Inr (False, st', [])"
proof -
  let ?st = "[(''target'', PStr ''v0.50.0''), (''at'', PFloat 1000)]"
  have tag: "is_release_tag (PStr ''v0.50.0'')" using demo_versions by (simp add: should_update_def)
  have run: "maybe_update demo_update_env (PStr ''0.49.1'') (PStr ''v0.50.0'') PNone 1000 [] =
      Inr (True, ?st, [Run [''sudo'', ''/opt/makeros-hub/update.sh'', ''v0.50.0'']])"
    using tag demo_versions
    by (simp add: maybe_update_def recently_attempted_def pget_def get_or_def apply_update_def demo_update_env_def
        write_state_def)
  from update_trigger_is_gated [OF run, of 1899 PNone] run show ?thesis
    by (simp add: demo_update_env_def)
qed

text \<open>
  A malformed commit does not stop an update. \<open>apply_update\<close> refuses a malformed pin, but
  \<open>maybe_update\<close> replaces it by no pin at all: whenever an update to the tag is due, a malformed
  commit leads to the same trigger as if the cloud had sent none, without the commit check.
\<close>

theorem malformed_pin_is_dropped:
  assumes "should_update current (PStr tag)" and "\<not> is_commit_sha (PStr sha)"
    and "recently_attempted tag now st = Inr False" and "up_mode env \<notin> {''disabled'', ''exit''}"
  shows "apply_update env tag (Some sha) now st = (False, st, []) \<and>
    (\<exists>st'. maybe_update env current (PStr tag) (PStr sha) now st =
       Inr (up_run_ok env, st', [Run [''sudo'', up_script env, tag]]))"
  using assms
  by (auto simp: apply_update_def maybe_update_def should_update_def is_commit_sha_def Let_def)

theorem malformed_pin_is_dropped_witness:
  "\<exists>st'. maybe_update demo_update_env (PStr ''0.49.1'') (PStr ''v0.50.0'') (PStr ''DEADBEEF'') 0 [] =
     Inr (True, st', [Run [''sudo'', ''/opt/makeros-hub/update.sh'', ''v0.50.0'']])"
proof -
  have "\<not> is_commit_sha (PStr ''DEADBEEF'')"
    by (simp add: is_commit_sha_def commit_match_def drop_final_newline_def)
  from malformed_pin_is_dropped [OF demo_versions this, of 0 "[]" demo_update_env]
  show ?thesis by (simp add: recently_attempted_def pget_def get_or_def demo_update_env_def)
qed

lemma tag_with_line_end: "is_release_tag (PStr (''v1.2.3'' @ [CHR 0x0A]))"
  by (simp add: is_release_tag_def release_match_def drop_final_newline_def digits_def is_digit_def)

end
