(* ===== verification/BambuParse.thy ===== *)
theory BambuParse
  imports PyText "HOL-Library.Sublist"
begin

text \<open>
  Parsing of Bambu reports, \<open>makeros_hub/printers/bambu_parse.py\<close>: the deep merge of report deltas, the
  number and integer readers, the filament state of the AMS units, the scrubbed raw unit and the status
  record of the heartbeat. A number read from a report may be infinite or not a number (\<open>fnum\<close>). What
  \<open>float\<close> makes of a text and the length of the JSON text of a value are parameters. The optional keys
  of the built dictionaries are the \<open>option\<close> fields of records.
\<close>

section \<open>Merging report deltas\<close>

type_synonym pydict = "(string \<times> pyval) list"

function merge_report :: "pydict \<Rightarrow> pydict \<Rightarrow> pydict" where
  "merge_report state [] = state"
| "merge_report state ((k, v) # delta) =
     merge_report
       (case (v, map_of state k) of
          (PDict dv, Some (PDict sv)) \<Rightarrow> AList.update k (PDict (merge_report sv dv)) state
        | _ \<Rightarrow> AList.update k v state)
       delta"
  by pat_completeness auto
termination
  by (relation "measure (\<lambda>(state, delta). size_list (size_prod (\<lambda>_. 0) size) delta)") auto

section \<open>Numbers\<close>

datatype fnum = Fin real | Pos_inf | Neg_inf | Nan

fun fless :: "fnum \<Rightarrow> fnum \<Rightarrow> bool" where
  "fless (Fin x) (Fin y) = (x < y)"
| "fless Neg_inf (Fin _) = True"
| "fless Neg_inf Pos_inf = True"
| "fless (Fin _) Pos_inf = True"
| "fless _ _ = False"

text \<open>Python's two-argument \<open>min\<close> and \<open>max\<close> return the first argument unless the second is better.\<close>

definition fmin :: "fnum \<Rightarrow> fnum \<Rightarrow> fnum" where
  "fmin a b = (if fless b a then b else a)"

definition fmax :: "fnum \<Rightarrow> fnum \<Rightarrow> fnum" where
  "fmax a b = (if fless a b then b else a)"

definition clamp :: "real \<Rightarrow> real \<Rightarrow> fnum \<Rightarrow> fnum" where
  "clamp lo hi x = fmax (Fin lo) (fmin (Fin hi) x)"

text \<open>\<open>int(x)\<close>\<close>

fun fint :: "fnum \<Rightarrow> int result" where
  "fint (Fin r) = Inr (trunc_real r)"
| "fint Nan = Inl (ValueError ''cannot convert float NaN to integer'')"
| "fint _ = Inl OverflowErr"

record parse_env =
  pe_float :: "string \<Rightarrow> fnum option"
  pe_json_size :: "pyval \<Rightarrow> nat option"

definition num :: "parse_env \<Rightarrow> pyval \<Rightarrow> fnum option" where
  "num env v = (case v of PInt i \<Rightarrow> Some (Fin (of_int i)) | PFloat r \<Rightarrow> Some (Fin r)
     | PStr s \<Rightarrow> pe_float env s | _ \<Rightarrow> None)"

definition to_int :: "pyval \<Rightarrow> int option" where
  "to_int v = (case v of PInt i \<Rightarrow> Some i | PFloat r \<Rightarrow> if r \<in> \<int> then Some \<lfloor>r\<rfloor> else None
     | PStr s \<Rightarrow> int_of_str s | _ \<Rightarrow> None)"

definition num_to_int :: "parse_env \<Rightarrow> pyval \<Rightarrow> int option" where
  "num_to_int env v = (case num env v of None \<Rightarrow> None | Some x \<Rightarrow> (case fint x of Inr i \<Rightarrow> Some i | Inl e \<Rightarrow> None))"

definition map_activity_state :: "pyval \<Rightarrow> string" where
  "map_activity_state v = (case v of
      PStr s \<Rightarrow> (if upper s = ''RUNNING'' then ''printing'' else if upper s = ''PAUSE'' then ''paused''
                 else if upper s = ''OFFLINE'' then ''offline'' else ''idle'')
    | _ \<Rightarrow> ''idle'')"

section \<open>Scrubbing\<close>

definition secretish_substrings :: "string list" where
  "secretish_substrings = [''serial'', ''password'', ''passwd'', ''secret'', ''accesscode'', ''access_code'',
     ''apikey'', ''api_key'', ''token'', ''ams_id'', ''chip_id'']"

definition secretish_segments :: "string list" where
  "secretish_segments = [''sn'', ''ip'', ''mac'', ''pass'', ''key'', ''access'', ''auth'', ''cert'']"

definition seg_char :: "char \<Rightarrow> bool" where
  "seg_char c \<longleftrightarrow> is_digit c \<or> (97 \<le> (of_char c :: nat) \<and> (of_char c :: nat) \<le> 122)"

fun segments :: "string \<Rightarrow> string list" where
  "segments [] = [[]]"
| "segments (c # cs) = (if seg_char c
     then (case segments cs of [] \<Rightarrow> [[c]] | w # ws \<Rightarrow> (c # w) # ws)
     else [] # segments cs)"

definition is_secretish_key :: "string \<Rightarrow> bool" where
  "is_secretish_key key = (let k = lower key
     in (\<exists>tok \<in> set secretish_substrings. sublist tok k) \<or> (\<exists>seg \<in> set (segments k). seg \<in> set secretish_segments))"

fun drop_secretish_keys :: "pyval \<Rightarrow> pyval" where
  "drop_secretish_keys (PDict d) =
     PDict (filter (\<lambda>(k, _). \<not> is_secretish_key k) (map (\<lambda>(k, v). (k, drop_secretish_keys v)) d))"
| "drop_secretish_keys (PList xs) = PList (map drop_secretish_keys xs)"
| "drop_secretish_keys v = v"

definition RAW_AMS_UNIT_MAX_BYTES :: nat where
  "RAW_AMS_UNIT_MAX_BYTES = 8 * 1024"

definition raw_ams_unit :: "parse_env \<Rightarrow> pydict \<Rightarrow> pyval option" where
  "raw_ams_unit env unit = (let raw = drop_secretish_keys (PDict unit)
     in case pe_json_size env raw of
         None \<Rightarrow> None
       | Some n \<Rightarrow> if RAW_AMS_UNIT_MAX_BYTES < n then None else Some raw)"

section \<open>Filament state\<close>

record tray_out =
  to_slot :: "nat option"
  to_material :: "string option"
  to_product :: "string option"
  to_filament :: "string option"
  to_color :: "string option"
  to_colors :: "string list"
  to_remain :: "fnum option"
  to_tag :: "string option"
  to_temp_min :: "int option"
  to_temp_max :: "int option"

definition text_field :: "pydict \<Rightarrow> string \<Rightarrow> nat \<Rightarrow> string option" where
  "text_field d k n = (case pget d k of
      PStr s \<Rightarrow> if strip s \<noteq> [] then Some (py_take n (strip s)) else None | _ \<Rightarrow> None)"

definition is_hex_char :: "char \<Rightarrow> bool" where
  "is_hex_char c \<longleftrightarrow> is_digit c \<or> (65 \<le> (of_char c :: nat) \<and> (of_char c :: nat) \<le> 70) \<or>
     (97 \<le> (of_char c :: nat) \<and> (of_char c :: nat) \<le> 102)"

definition hex8 :: "pyval \<Rightarrow> string option" where
  "hex8 v = (case v of
      PStr s \<Rightarrow> (let h = lstrip_by (\<lambda>c. c = CHR ''#'') (strip s)
                 in if length h = 8 \<and> list_all is_hex_char h then Some (upper h) else None)
    | _ \<Rightarrow> None)"

definition add_tray_identity_fields :: "parse_env \<Rightarrow> nat option \<Rightarrow> pydict \<Rightarrow> tray_out" where
  "add_tray_identity_fields env slot tray = \<lparr>
     to_slot = slot,
     to_material = text_field tray ''tray_type'' 64,
     to_product = text_field tray ''tray_sub_brands'' 64,
     to_filament = text_field tray ''tray_info_idx'' 32,
     to_color = hex8 (pget tray ''tray_color''),
     to_colors = (case pget tray ''cols'' of PList xs \<Rightarrow> take 8 (List.map_filter hex8 xs) | _ \<Rightarrow> []),
     to_remain = map_option (clamp 0 100) (num env (pget tray ''remain'')),
     to_tag = text_field tray ''tag_uid'' 64,
     to_temp_min = num_to_int env (pget tray ''nozzle_temp_min''),
     to_temp_max = num_to_int env (pget tray ''nozzle_temp_max'')\<rparr>"

text \<open>The keys kept of the external spool; the dictionary is \<open>None\<close> when none of them is there.\<close>

definition build_vt_tray :: "parse_env \<Rightarrow> pydict \<Rightarrow> tray_out option" where
  "build_vt_tray env print_obj = (case pget print_obj ''vt_tray'' of
      PDict d \<Rightarrow>
        (if d = [] then None
         else (let t = add_tray_identity_fields env None d
               in if to_material t = None \<and> to_product t = None \<and> to_color t = None \<and> to_remain t = None \<and> to_tag t = None
                  then None
                  else Some (t\<lparr>to_filament := None, to_colors := [], to_temp_min := None, to_temp_max := None\<rparr>)))
    | _ \<Rightarrow> None)"

record ams_unit =
  au_unit :: nat
  au_humidity :: "fnum option"
  au_humidity_raw :: "fnum option"
  au_temp :: "fnum option"
  au_dry_time :: "int option"
  au_trays :: "tray_out list"
  au_raw :: "pyval option"

definition opt_result :: "('a \<Rightarrow> 'b result) \<Rightarrow> 'a option \<Rightarrow> 'b option result" where
  "opt_result f x = (case x of None \<Rightarrow> Inr None | Some y \<Rightarrow> res_bind (f y) (\<lambda>z. Inr (Some z)))"

definition build_trays :: "parse_env \<Rightarrow> pyval \<Rightarrow> tray_out list" where
  "build_trays env trays_raw = (case trays_raw of
      PList xs \<Rightarrow> List.map_filter (\<lambda>(i, t). case t of
         PDict d \<Rightarrow> if d \<noteq> [] then Some (add_tray_identity_fields env (Some i) d) else None | _ \<Rightarrow> None)
         (zip [0..<4] xs)
    | _ \<Rightarrow> [])"

definition build_unit :: "parse_env \<Rightarrow> nat \<Rightarrow> pydict \<Rightarrow> ams_unit result" where
  "build_unit env idx unit =
     res_bind (opt_result fint (num env (pget unit ''dry_time''))) (\<lambda>dry. Inr \<lparr>
       au_unit = idx,
       au_humidity = map_option (clamp 0 5) (num env (pget unit ''humidity'')),
       au_humidity_raw = map_option (clamp 0 100) (num env (pget unit ''humidity_raw'')),
       au_temp = num env (pget unit ''temp''),
       au_dry_time = map_option (max 0) dry,
       au_trays = build_trays env (pget unit ''tray''),
       au_raw = raw_ams_unit env unit\<rparr>)"

fun build_units :: "parse_env \<Rightarrow> nat \<Rightarrow> pyval list \<Rightarrow> ams_unit list result" where
  "build_units env idx [] = Inr []"
| "build_units env idx (PDict unit # us) =
     res_bind (build_unit env idx unit) (\<lambda>u. res_bind (build_units env (idx + 1) us) (\<lambda>rest. Inr (u # rest)))"
| "build_units env idx (_ # us) = build_units env idx us"

definition ams_units_raw :: "pydict \<Rightarrow> pyval list" where
  "ams_units_raw print_obj = (case pget (as_dict (pget print_obj ''ams'')) ''ams'' of PList us \<Rightarrow> us | _ \<Rightarrow> [])"

text \<open>The empty list stands for the source's \<open>None\<close>.\<close>

definition build_ams :: "parse_env \<Rightarrow> pydict \<Rightarrow> ams_unit list result" where
  "build_ams env print_obj = build_units env 0 (ams_units_raw print_obj)"

definition build_active_tray :: "pydict \<Rightarrow> int option" where
  "build_active_tray print_obj = (case pget print_obj ''ams'' of
      PDict ams_obj \<Rightarrow> (case to_int (pget ams_obj ''tray_now'') of
          None \<Rightarrow> None
        | Some t \<Rightarrow> if t < 0 \<or> 63 < t \<or> t \<in> {254, 255} then None else Some t)
    | _ \<Rightarrow> None)"

definition build_hms :: "pydict \<Rightarrow> (int \<times> int) list" where
  "build_hms print_obj = (case pget print_obj ''hms'' of
      PList items \<Rightarrow> List.map_filter (\<lambda>item. case item of
          PDict d \<Rightarrow> (case (to_int (pget d ''attr''), to_int (pget d ''code'')) of
              (Some a, Some c) \<Rightarrow> Some (a, c) | _ \<Rightarrow> None)
        | _ \<Rightarrow> None) items
    | _ \<Rightarrow> [])"

section \<open>The status record\<close>

record status_out =
  so_printer :: string
  so_connection :: string
  so_error :: "string option"
  so_state :: "string option"
  so_progress :: "fnum option"
  so_nozzle :: "fnum option"
  so_bed :: "fnum option"
  so_job :: "string option"
  so_eta :: "int option"
  so_ams :: "ams_unit list"
  so_vt :: "tray_out option"
  so_active :: "int option"
  so_hms :: "(int \<times> int) list"
  so_print_error :: "int option"
  so_skipped :: "int list"

definition job_name_field :: "pydict \<Rightarrow> string option" where
  "job_name_field p = (case por (pget p ''subtask_name'') (pget p ''gcode_file'') of
      PStr s \<Rightarrow> if strip s \<noteq> [] then Some (py_take 300 (strip s)) else None | _ \<Rightarrow> None)"

definition skipped_objects :: "pydict \<Rightarrow> int list" where
  "skipped_objects p = (case pget p ''s_obj'' of
      PList xs \<Rightarrow> take 64 (List.map_filter (\<lambda>v. case v of PInt i \<Rightarrow> Some i | _ \<Rightarrow> None) xs) | _ \<Rightarrow> [])"

definition normalize_status :: "parse_env \<Rightarrow> string \<Rightarrow> pydict \<Rightarrow> string \<Rightarrow> string option \<Rightarrow> status_out result" where
  "normalize_status env printer_id merged connection_state error_reason =
     (let p = as_dict (pget merged ''print''); connected = (connection_state = ''connected'')
      in res_bind (opt_result fint (num env (pget p ''mc_remaining_time''))) (\<lambda>eta.
         res_bind (if connected then build_ams env p else Inr []) (\<lambda>ams. Inr \<lparr>
           so_printer = printer_id, so_connection = connection_state,
           so_error = (if connection_state = ''error'' \<and> error_reason \<noteq> Some [] then error_reason else None),
           so_state = (if connected then Some (map_activity_state (pget p ''gcode_state'')) else None),
           so_progress = map_option (clamp 0 100) (num env (pget p ''mc_percent'')),
           so_nozzle = num env (pget p ''nozzle_temper''),
           so_bed = num env (pget p ''bed_temper''),
           so_job = job_name_field p,
           so_eta = eta,
           so_ams = ams,
           so_vt = (if connected then build_vt_tray env p else None),
           so_active = (if connected then build_active_tray p else None),
           so_hms = (if connected then build_hms p else []),
           so_print_error = (if connected then (case to_int (pget p ''print_error'') of
               Some e \<Rightarrow> if e \<noteq> 0 then Some e else None | None \<Rightarrow> None) else None),
           so_skipped = (if connected then skipped_objects p else [])\<rparr>)))"

text \<open>The redacted shape: key names and lengths of lists.\<close>

record shape =
  sh_top :: "string list"
  sh_print :: "string list"
  sh_lengths :: "(string, nat) odict"
  sh_tray_keys :: "string list"

definition tray_lists :: "pyval list \<Rightarrow> pyval list list" where
  "tray_lists units = List.map_filter (\<lambda>u. case u of
     PDict d \<Rightarrow> (case pget d ''tray'' of PList ts \<Rightarrow> Some ts | _ \<Rightarrow> None) | _ \<Rightarrow> None) units"

definition summarize_shape :: "pydict \<Rightarrow> shape" where
  "summarize_shape merged =
     (let p = as_dict (pget merged ''print'');
          lengths = List.map_filter (\<lambda>(k, v). case v of PList xs \<Rightarrow> Some (k, length xs) | _ \<Rightarrow> None) p;
          dicts = \<lambda>ts. List.map_filter (\<lambda>t. case t of PDict d \<Rightarrow> Some d | _ \<Rightarrow> None) ts;
          loaded = \<lambda>d. (case pget d ''tray_type'' of PStr s \<Rightarrow> strip s \<noteq> [] | _ \<Rightarrow> False)
      in case pget (as_dict (pget p ''ams'')) ''ams'' of
          PList units \<Rightarrow>
            (let trays = concat (tray_lists units)
             in \<lparr>sh_top = sort (keys merged), sh_print = sort (keys p),
                 sh_lengths = AList.update ''ams.trays_loaded'' (length (filter loaded (dicts trays)))
                   (AList.update ''ams.trays_total'' (length trays)
                     (AList.update ''ams.units'' (length units) lengths)),
                 sh_tray_keys = sort (remdups (concat (map keys (dicts trays))))\<rparr>)
        | _ \<Rightarrow> \<lparr>sh_top = sort (keys merged), sh_print = sort (keys p), sh_lengths = lengths, sh_tray_keys = []\<rparr>)"

section \<open>What a merge delivers\<close>

fun deep_wf :: "pyval \<Rightarrow> bool" where
  "deep_wf (PDict d) = (distinct (keys d) \<and> list_all (\<lambda>(k, v). deep_wf v) d)"
| "deep_wf _ = True"

text \<open>The value at a path of keys, and the paths a delta says nothing about.\<close>

fun at_path :: "string list \<Rightarrow> pydict \<Rightarrow> pyval option" where
  "at_path [] d = None"
| "at_path [k] d = map_of d k"
| "at_path (k # p) d = (case map_of d k of Some (PDict d') \<Rightarrow> at_path p d' | _ \<Rightarrow> None)"

fun untouched :: "string list \<Rightarrow> pydict \<Rightarrow> bool" where
  "untouched [] d = True"
| "untouched [k] d = (map_of d k = None)"
| "untouched (k # p) d = (case map_of d k of None \<Rightarrow> True | Some (PDict d') \<Rightarrow> untouched p d' | _ \<Rightarrow> False)"

definition merged_value :: "pyval option \<Rightarrow> pyval \<Rightarrow> pyval" where
  "merged_value old v = (case (v, old) of
     (PDict dv, Some (PDict sv)) \<Rightarrow> PDict (merge_report sv dv) | _ \<Rightarrow> v)"

lemma merge_step: "(case (v, map_of state k) of
      (PDict dv, Some (PDict sv)) \<Rightarrow> AList.update k (PDict (merge_report sv dv)) state
    | _ \<Rightarrow> AList.update k v state) = AList.update k (merged_value (map_of state k) v) state"
  by (simp add: merged_value_def split: pyval.split option.split)

lemma map_of_merge:
  "distinct (keys delta) \<Longrightarrow> map_of (merge_report state delta) k =
     (case map_of delta k of None \<Rightarrow> map_of state k | Some v \<Rightarrow> Some (merged_value (map_of state k) v))"
proof (induction delta arbitrary: state)
  case (Cons kv delta)
  obtain q v where kv: "kv = (q, v)" by (cases kv)
  with Cons.prems have "map_of delta q = None" and "distinct (keys delta)"
    by (simp_all add: map_of_None_keys)
  with Cons.IH show ?case
    by (simp only: kv merge_report.simps merge_step)
       (auto simp: map_of_update split: option.splits)
qed simp

lemma deep_wf_get: "deep_wf (PDict d) \<Longrightarrow> map_of d k = Some v \<Longrightarrow> deep_wf v"
  by (auto simp: list_all_iff dest!: map_of_SomeD)

lemma merge_at_leaf:
  "deep_wf (PDict delta) \<Longrightarrow> at_path p delta = Some v \<Longrightarrow> \<not> is_dict v \<Longrightarrow> at_path p (merge_report state delta) = Some v"
proof (induction p delta arbitrary: state rule: at_path.induct)
  case (2 k d)
  then have "merged_value old v = v" for old by (cases v) (simp_all add: merged_value_def)
  with 2 show ?case by (simp add: map_of_merge)
next
  case (3 k k' p d)
  then obtain d' where d': "map_of d k = Some (PDict d')" "at_path (k' # p) d' = Some v"
    by (auto split: option.splits pyval.splits)
  have wf: "deep_wf (PDict d')" by (rule deep_wf_get [OF "3.prems"(1) d'(1)])
  have "distinct (keys d)" using "3.prems"(1) by simp
  then have "map_of (merge_report state d) k = Some (merged_value (map_of state k) (PDict d'))"
    by (simp add: map_of_merge d'(1))
  moreover have "at_path (k' # p) (merge_report sv d') = Some v" for sv
    using "3.IH" [OF d'(1) refl wf d'(2) "3.prems"(3)] .
  ultimately show ?case
    using d'(2) by (auto simp: merged_value_def split: option.splits pyval.splits)
qed simp

lemma merge_at_untouched:
  "deep_wf (PDict delta) \<Longrightarrow> untouched p delta \<Longrightarrow>
   (\<forall>v. at_path p state = Some v \<longrightarrow> at_path p (merge_report state delta) = Some v)"
proof (induction p delta arbitrary: state rule: untouched.induct)
  case (2 k d)
  then show ?case by (simp add: map_of_merge)
next
  case (3 k k' p d)
  have dist: "distinct (keys d)" using "3.prems"(1) by simp
  show ?case
  proof (cases "map_of d k")
    case None
    with dist show ?thesis by (simp add: map_of_merge)
  next
    case (Some w)
    with "3.prems"(2) obtain d' where d': "w = PDict d'" "untouched (k' # p) d'"
      by (cases w) auto
    have wf: "deep_wf (PDict d')" using deep_wf_get [OF "3.prems"(1) Some] d'(1) by simp
    have "map_of (merge_report state d) k = Some (merged_value (map_of state k) (PDict d'))"
      using dist Some d'(1) by (simp add: map_of_merge)
    moreover have "\<forall>v. at_path (k' # p) sv = Some v \<longrightarrow> at_path (k' # p) (merge_report sv d') = Some v" for sv
      using "3.IH" [of w d' sv] Some d' wf by simp
    ultimately show ?thesis
      by (auto simp: merged_value_def split: option.splits pyval.splits)
  qed
qed simp

text \<open>
  The merged state is what the printer last said, at every depth: after a delta is merged, every
  plain value of the delta stands at its path, and every value of the state on a path the delta does
  not mention is still there. A partial delta never erases the rest of a nested object.
\<close>

theorem report_merge_delivers:
  assumes "deep_wf (PDict delta)"
  shows "(at_path p delta = Some v \<and> \<not> is_dict v \<longrightarrow> at_path p (merge_report state delta) = Some v) \<and>
    (untouched q delta \<and> at_path q state = Some w \<longrightarrow> at_path q (merge_report state delta) = Some w)"
  using merge_at_leaf [OF assms] merge_at_untouched [OF assms] by blast

definition demo_delta :: pydict where
  "demo_delta = [(''print'', PDict [(''mc_percent'', PInt 7)])]"

definition demo_report :: pydict where
  "demo_report = [(''print'', PDict [(''gcode_state'', PStr ''RUNNING''), (''mc_percent'', PInt 6)])]"

theorem report_merge_delivers_witness:
  "at_path [''print'', ''mc_percent''] (merge_report demo_report demo_delta) = Some (PInt 7) \<and>
   at_path [''print'', ''gcode_state''] (merge_report demo_report demo_delta) = Some (PStr ''RUNNING'')"
proof -
  have "deep_wf (PDict demo_delta)" by (simp add: demo_delta_def)
  from report_merge_delivers [OF this, of "[''print'', ''mc_percent'']" "PInt 7" demo_report
      "[''print'', ''gcode_state'']" "PStr ''RUNNING''"]
  show ?thesis by (simp add: demo_delta_def demo_report_def)
qed

section \<open>What leaves the hub\<close>

fun no_secret_key :: "pyval \<Rightarrow> bool" where
  "no_secret_key (PDict d) = list_all (\<lambda>(k, v). \<not> is_secretish_key k \<and> no_secret_key v) d"
| "no_secret_key (PList xs) = list_all no_secret_key xs"
| "no_secret_key _ = True"

lemma drop_secretish_clean: "no_secret_key (drop_secretish_keys v)"
proof (induction v)
  case (PList xs)
  then show ?case by (auto simp: list_all_iff)
next
  case (PDict d)
  then show ?case by (fastforce simp: list_all_iff)
qed simp_all

definition unit_ok :: "nat \<Rightarrow> parse_env \<Rightarrow> ams_unit \<Rightarrow> bool" where
  "unit_ok idx env u \<longleftrightarrow> au_unit u = idx \<and>
     (\<forall>t \<in> set (au_trays u). \<exists>i < 4. to_slot t = Some i) \<and>
     (\<forall>raw. au_raw u = Some raw \<longrightarrow> no_secret_key raw \<and> (\<exists>n \<le> 8192. pe_json_size env raw = Some n)) \<and>
     (\<forall>n. au_dry_time u = Some n \<longrightarrow> 0 \<le> n)"

lemma to_slot_add: "to_slot (add_tray_identity_fields env slot d) = slot"
  by (simp add: add_tray_identity_fields_def)

lemma build_trays_slots: "t \<in> set (build_trays env v) \<Longrightarrow> \<exists>i < 4. to_slot t = Some i"
  by (auto simp: build_trays_def in_map_filter to_slot_add dest!: set_zip_leftD split: pyval.splits if_splits)

lemma build_unit_ok: "build_unit env idx d = Inr u \<Longrightarrow> unit_ok idx env u"
  using drop_secretish_clean [of "PDict d"]
  by (auto simp: build_unit_def res_bind_eq_Inr unit_ok_def raw_ams_unit_def Let_def RAW_AMS_UNIT_MAX_BYTES_def
      simp del: drop_secretish_keys.simps split: option.splits if_splits dest!: build_trays_slots)

lemma build_units_ok: "build_units env idx vs = Inr us \<Longrightarrow> i < length us \<Longrightarrow> unit_ok (idx + i) env (us ! i)"
proof (induction env idx vs arbitrary: us i rule: build_units.induct)
  case (2 env idx d vs)
  then obtain u rest where u: "build_unit env idx d = Inr u" "build_units env (idx + 1) vs = Inr rest" "us = u # rest"
    by (auto simp: res_bind_eq_Inr)
  with "2.IH" [OF u(2)] "2.prems"(2) build_unit_ok [OF u(1)] show ?case
    by (cases i) auto
qed simp_all

text \<open>
  What a status record may carry to the cloud. The raw pass-through of an AMS unit holds no key
  that looks like a secret or a hardware id, at any depth, and is at most 8 KiB of JSON; unit numbers
  are the contiguous positions and tray slots are below 4, so that unit and slot name a tray; the
  active tray is between 0 and 63; and no state, filament or error detail is reported for a printer
  that is not connected.
\<close>

theorem status_record_is_clean:
  assumes "normalize_status env pid merged conn err = Inr out"
  shows "(\<forall>i < length (so_ams out). unit_ok i env (so_ams out ! i)) \<and>
    (\<forall>t. so_active out = Some t \<longrightarrow> 0 \<le> t \<and> t \<le> 63) \<and> length (so_skipped out) \<le> 64 \<and>
    (conn \<noteq> ''connected'' \<longrightarrow> so_state out = None \<and> so_ams out = [] \<and> so_vt out = None \<and> so_active out = None \<and>
       so_hms out = [] \<and> so_print_error out = None \<and> so_skipped out = [])"
proof -
  from assms obtain ams where ams: "(if conn = ''connected'' then build_ams env (as_dict (pget merged ''print'')) else Inr []) = Inr ams"
    and out: "so_ams out = ams" "so_active out = (if conn = ''connected'' then build_active_tray (as_dict (pget merged ''print'')) else None)"
      "so_skipped out = (if conn = ''connected'' then skipped_objects (as_dict (pget merged ''print'')) else [])"
    and off: "conn \<noteq> ''connected'' \<longrightarrow> so_state out = None \<and> so_vt out = None \<and> so_hms out = [] \<and> so_print_error out = None"
    by (auto simp: normalize_status_def Let_def res_bind_eq_Inr)
  have "unit_ok i env (ams ! i)" if "i < length ams" for i
    using ams build_units_ok [of env 0 _ ams i] that by (simp add: build_ams_def split: if_splits)
  moreover have "build_active_tray p = Some t \<Longrightarrow> 0 \<le> t \<and> t \<le> 63" for p t
    by (auto simp: build_active_tray_def split: pyval.splits option.splits if_splits)
  moreover have "length (skipped_objects p) \<le> 64" for p
    by (auto simp: skipped_objects_def split: pyval.splits)
  ultimately show ?thesis using ams out off by auto
qed

definition demo_parse_env :: parse_env where
  "demo_parse_env = \<lparr>pe_float = (\<lambda>s. if s = ''nan'' then Some Nan else None), pe_json_size = (\<lambda>v. Some 10)\<rparr>"

definition demo_ams :: pydict where
  "demo_ams = [(''print'', PDict [(''ams'', PDict [(''ams'', PList [PDict [(''chip_id'', PStr ''X''), (''tray'', PList [])]])])])]"

theorem status_record_is_clean_witness:
  "\<exists>out. normalize_status demo_parse_env ''p'' demo_ams ''connected'' None = Inr out \<and>
     length (so_ams out) = 1 \<and> unit_ok 0 demo_parse_env (so_ams out ! 0)"
proof -
  obtain out where out: "normalize_status demo_parse_env ''p'' demo_ams ''connected'' None = Inr out"
    and len: "length (so_ams out) = 1"
    by (simp add: normalize_status_def demo_ams_def pget_def get_or_def demo_parse_env_def num_def opt_result_def
        build_ams_def ams_units_raw_def build_unit_def Let_def)
  from status_record_is_clean [OF out] len have "unit_ok 0 demo_parse_env (so_ams out ! 0)" by simp
  with out len show ?thesis by blast
qed

text \<open>Unlike the temperatures, the remaining minutes are converted without a guard.\<close>

lemma status_raises_on_nan:
  "pe_float env ''nan'' = Some Nan \<Longrightarrow>
   normalize_status env pid [(''print'', PDict [(''mc_remaining_time'', PStr ''nan'')])] conn err =
     Inl (ValueError ''cannot convert float NaN to integer'')"
  by (simp add: normalize_status_def pget_def get_or_def num_def opt_result_def Let_def)

end
