(* ===== verification/PoolRanking.thy ===== *)
theory PoolRanking
  imports PyText "HOL-Library.Product_Lexorder"
begin

text \<open>
  The ranking of filaments, \<open>makeros_hub/vprinter/pool_ranking.py\<close>: the persisted signals per filament
  key, their bounded update once per heartbeat, and the choice of the keys a virtual printer shows when
  more are loaded than it has slots. The state file holds a JSON value; reading and writing it is
  \<open>load_ranking\<close> and \<open>persist_ranking\<close>.
\<close>

record signal =
  sg_first_seen :: real
  sg_use_minutes :: real
  sg_last_use :: real

record ranking =
  rk_keys :: "(string, signal) odict"
  rk_dirty :: bool
  rk_last_persist :: real

definition RECENT_DAYS :: real where
  "RECENT_DAYS = 7"

definition HALF_LIFE_DAYS :: real where
  "HALF_LIFE_DAYS = 30"

definition MAX_TRACKED_KEYS :: nat where
  "MAX_TRACKED_KEYS = 512"

definition PLAUSIBLE_MIN_EPOCH :: real where
  "PLAUSIBLE_MIN_EPOCH = 1577836800"

definition PERSIST_MIN_INTERVAL_SEC :: real where
  "PERSIST_MIN_INTERVAL_SEC = 60"

section \<open>The state file\<close>

definition at_least :: "real \<Rightarrow> pyval \<Rightarrow> real \<Rightarrow> real" where
  "at_least lo v fallback = (case num_of v of Some x \<Rightarrow> if lo \<le> x then x else fallback | None \<Rightarrow> fallback)"

fun load_signals :: "real \<Rightarrow> (string \<times> pyval) list \<Rightarrow> (string, signal) odict \<Rightarrow> (string, signal) odict" where
  "load_signals now [] acc = acc"
| "load_signals now ((k, PDict v) # rest) acc = load_signals now rest (AList.update k \<lparr>
     sg_first_seen = at_least PLAUSIBLE_MIN_EPOCH (pget v ''first_seen'') now,
     sg_use_minutes = at_least 0 (pget v ''use_minutes'') 0,
     sg_last_use = at_least PLAUSIBLE_MIN_EPOCH (pget v ''last_use'') now\<rparr> acc)"
| "load_signals now (_ # rest) acc = load_signals now rest acc"

text \<open>\<open>None\<close>: no file, or one that is not JSON.\<close>

definition load_ranking :: "real \<Rightarrow> pyval option \<Rightarrow> ranking" where
  "load_ranking now raw = \<lparr>rk_keys = (case raw of
        Some (PDict d) \<Rightarrow> (case pget d ''keys'' of PDict ks \<Rightarrow> load_signals now (take MAX_TRACKED_KEYS ks) [] | _ \<Rightarrow> [])
      | _ \<Rightarrow> []),
     rk_dirty = False, rk_last_persist = 0\<rparr>"

text \<open>What is written, if anything; \<open>io\<close>: whether the file system accepts it.\<close>

definition persist_ranking :: "bool \<Rightarrow> real \<Rightarrow> bool \<Rightarrow> ranking \<Rightarrow> (string, signal) odict option \<times> ranking" where
  "persist_ranking io now force rk =
     (if \<not> rk_dirty rk then (None, rk)
      else if \<not> force \<and> now - rk_last_persist rk < PERSIST_MIN_INTERVAL_SEC then (None, rk)
      else if io then (Some (rk_keys rk), rk\<lparr>rk_dirty := False, rk_last_persist := now\<rparr>)
      else (None, rk))"

section \<open>The signals\<close>

definition decayed :: "ranking \<Rightarrow> string \<Rightarrow> real \<Rightarrow> real" where
  "decayed rk key now = (case map_of (rk_keys rk) key of
      None \<Rightarrow> 0
    | Some r \<Rightarrow> sg_use_minutes r * (1 / 2) powr (max 0 ((now - sg_last_use r) / 86400) / HALF_LIFE_DAYS))"

definition note_loaded :: "real \<Rightarrow> string \<Rightarrow> ranking \<Rightarrow> ranking" where
  "note_loaded now key rk = (if map_of (rk_keys rk) key \<noteq> None then rk
     else rk\<lparr>rk_keys := AList.update key \<lparr>sg_first_seen = now, sg_use_minutes = 0, sg_last_use = now\<rparr> (rk_keys rk),
             rk_dirty := True\<rparr>)"

definition note_active :: "real \<Rightarrow> real \<Rightarrow> string \<Rightarrow> ranking \<Rightarrow> ranking" where
  "note_active ticks now key rk =
     (let first = (case map_of (rk_keys rk) key of Some r \<Rightarrow> sg_first_seen r | None \<Rightarrow> now)
      in rk\<lparr>rk_keys := AList.update key
             \<lparr>sg_first_seen = first, sg_use_minutes = decayed rk key now + ticks, sg_last_use = now\<rparr> (rk_keys rk),
            rk_dirty := True\<rparr>)"

definition last_use_of :: "ranking \<Rightarrow> string \<Rightarrow> real" where
  "last_use_of rk key = (case map_of (rk_keys rk) key of Some r \<Rightarrow> sg_last_use r | None \<Rightarrow> 0)"

definition evict_stalest :: "ranking \<Rightarrow> ranking" where
  "evict_stalest rk =
     (if MAX_TRACKED_KEYS < length (rk_keys rk)
      then (let stale = take (length (rk_keys rk) - MAX_TRACKED_KEYS) (sort_key (last_use_of rk) (keys (rk_keys rk)))
            in rk\<lparr>rk_keys := fold AList.delete stale (rk_keys rk), rk_dirty := True\<rparr>)
      else rk)"

definition observe_filaments :: "string list \<Rightarrow> string list \<Rightarrow> real \<Rightarrow> real \<Rightarrow> ranking \<Rightarrow> ranking" where
  "observe_filaments loaded active tick_minutes now rk =
     (let ticks = max 0 (min tick_minutes 10)
      in evict_stalest (fold (note_active ticks now) active (fold (note_loaded now) loaded rk)))"

section \<open>The choice\<close>

definition first_seen_of :: "ranking \<Rightarrow> string \<Rightarrow> real" where
  "first_seen_of rk key = (case map_of (rk_keys rk) key of Some r \<Rightarrow> sg_first_seen r | None \<Rightarrow> 0)"

definition is_recent :: "ranking \<Rightarrow> real \<Rightarrow> string \<Rightarrow> bool" where
  "is_recent rk now k \<longleftrightarrow> now - RECENT_DAYS * 86400 \<le> first_seen_of rk k"

definition newest_first :: "ranking \<Rightarrow> string list \<Rightarrow> string list" where
  "newest_first rk ks = sort_key (\<lambda>k. (- first_seen_of rk k, k)) ks"

definition most_used_first :: "ranking \<Rightarrow> real \<Rightarrow> string list \<Rightarrow> string list" where
  "most_used_first rk now ks = sort_key (\<lambda>k. (- decayed rk k now, k)) ks"

definition usage_reserve :: "nat \<Rightarrow> string list \<Rightarrow> nat" where
  "usage_reserve capacity non_recent =
     (if non_recent = [] then 0 else min (length non_recent) (max 1 (capacity div 4)))"

definition select_keys :: "ranking \<Rightarrow> string list \<Rightarrow> nat \<Rightarrow> real \<Rightarrow> string list" where
  "select_keys rk candidates capacity now =
     (let cands = sort (remdups candidates)
      in if length cands \<le> capacity then cands
         else (let recent = newest_first rk (filter (is_recent rk now) cands);
                   non_recent = filter (\<lambda>k. k \<notin> set recent) cands;
                   reserve = usage_reserve capacity non_recent;
                   chosen = take (capacity - reserve) recent;
                   rest = most_used_first rk now (filter (\<lambda>k. k \<notin> set chosen) cands)
               in sort (chosen @ take (capacity - length chosen) rest)))"

section \<open>Bounds\<close>

lemma wf_note: "wf_dict (rk_keys rk) \<Longrightarrow> wf_dict (rk_keys (note_loaded now k rk))"
    "wf_dict (rk_keys rk) \<Longrightarrow> wf_dict (rk_keys (note_active ticks now k rk))"
  by (auto simp: note_loaded_def note_active_def Let_def)

lemma wf_fold_note:
  "wf_dict (rk_keys rk) \<Longrightarrow> wf_dict (rk_keys (fold (note_loaded now) ks rk))"
  "wf_dict (rk_keys rk) \<Longrightarrow> wf_dict (rk_keys (fold (note_active ticks now) ks rk))"
  by (induction ks arbitrary: rk) (simp_all add: wf_note)

lemma fold_delete: "fold AList.delete ks d = filter (\<lambda>(k, _). k \<notin> set ks) d"
  by (induction ks arbitrary: d) (auto simp: AList.delete_eq intro!: filter_cong)

lemma length_filter_keys: "wf_dict d \<Longrightarrow> set ks \<subseteq> set (keys d) \<Longrightarrow> distinct ks \<Longrightarrow>
    length (filter (\<lambda>(k, _). k \<notin> set ks) d) = length d - length ks"
proof -
  assume wf: "wf_dict d" and sub: "set ks \<subseteq> set (keys d)" and dist: "distinct ks"
  have "length (filter (\<lambda>(k, _). k \<notin> set ks) d) = length (filter (\<lambda>k. k \<notin> set ks) (keys d))"
    by (simp add: keys_def filter_map o_def case_prod_beta')
  also have "\<dots> = card (set (keys d) - set ks)"
    using wf by (simp add: wf_dict_def distinct_card [symmetric] set_diff_eq)
  also have "\<dots> = length d - length ks"
    using wf sub dist by (simp add: card_Diff_subset wf_dict_def distinct_card)
  finally show ?thesis .
qed

lemma evict_stalest_bound:
  assumes "wf_dict (rk_keys rk)"
  shows "wf_dict (rk_keys (evict_stalest rk)) \<and> length (rk_keys (evict_stalest rk)) \<le> MAX_TRACKED_KEYS"
proof (cases "MAX_TRACKED_KEYS < length (rk_keys rk)")
  case True
  let ?n = "length (rk_keys rk) - MAX_TRACKED_KEYS"
  let ?stale = "take ?n (sort_key (last_use_of rk) (keys (rk_keys rk)))"
  have "set ?stale \<subseteq> set (keys (rk_keys rk))" using set_take_subset by fastforce
  moreover have "distinct ?stale" using assms by (simp add: wf_dict_def)
  moreover have "length ?stale = ?n" by simp
  ultimately have "length (filter (\<lambda>(k, _). k \<notin> set ?stale) (rk_keys rk)) = length (rk_keys rk) - ?n"
    using length_filter_keys [OF assms, of ?stale] by metis
  with True assms show ?thesis
    by (simp add: evict_stalest_def Let_def fold_delete wf_dict_filter)
qed (simp add: evict_stalest_def assms)

lemma observe_filaments_bounded:
  "wf_dict (rk_keys rk) \<Longrightarrow> wf_dict (rk_keys (observe_filaments loaded active tick now rk)) \<and>
     length (rk_keys (observe_filaments loaded active tick now rk)) \<le> MAX_TRACKED_KEYS"
  unfolding observe_filaments_def Let_def by (intro evict_stalest_bound wf_fold_note)

lemma wf_load_signals: "wf_dict acc \<Longrightarrow> wf_dict (load_signals now xs acc)"
  by (induction now xs acc rule: load_signals.induct) (simp_all add: wf_dict_update)

lemma wf_load_ranking: "wf_dict (rk_keys (load_ranking now raw))"
  by (auto simp: load_ranking_def wf_load_signals split: option.split pyval.split)

section \<open>The policy\<close>

lemma take_best:
  assumes "sorted (map f xs)" "x \<in> set (take n xs)" "y \<in> set xs - set (take n xs)"
  shows "f x \<le> (f y :: 'a :: linorder)"
proof -
  have "sorted (map f (take n xs) @ map f (drop n xs))"
    using assms(1) by (metis append_take_drop_id map_append)
  moreover have "y \<in> set (drop n xs)"
    using assms(3) by (metis DiffD1 DiffD2 Un_iff append_take_drop_id set_append)
  ultimately show ?thesis using assms(2) by (auto simp: sorted_append)
qed

lemma newest_first_best:
  assumes "k \<in> set (take n (newest_first rk ks))" "j \<in> set ks - set (take n (newest_first rk ks))"
  shows "first_seen_of rk j \<le> first_seen_of rk k"
proof -
  have "sorted (map (\<lambda>k. (- first_seen_of rk k, k)) (newest_first rk ks))" "set (newest_first rk ks) = set ks"
    by (simp_all add: newest_first_def)
  from take_best [OF this(1) assms(1)] this(2) assms(2) show ?thesis by fastforce
qed

lemma most_used_first_best:
  assumes "k \<in> set (take n (most_used_first rk now ks))" "j \<in> set ks - set (take n (most_used_first rk now ks))"
  shows "decayed rk j now \<le> decayed rk k now"
proof -
  have "sorted (map (\<lambda>k. (- decayed rk k now, k)) (most_used_first rk now ks))" "set (most_used_first rk now ks) = set ks"
    by (simp_all add: most_used_first_def)
  from take_best [OF this(1) assms(1)] this(2) assms(2) show ?thesis by fastforce
qed

lemma usage_reserve_le: "usage_reserve capacity ks \<le> max 1 capacity"
  by (auto simp: usage_reserve_def)

lemma usage_reserve_share: "ks \<noteq> [] \<Longrightarrow> 1 \<le> usage_reserve capacity ks \<and>
    min (length ks) (capacity div 4) \<le> usage_reserve capacity ks"
  by (cases ks) (auto simp: usage_reserve_def)

text \<open>
  What the two tiers promise: \<open>R\<close> is recent and newest, \<open>U\<close> is most used among the keys that are not in
  \<open>R\<close>, and \<open>U\<close> has the reserved share when an older key competes.
\<close>

definition tiers_ok :: "ranking \<Rightarrow> string set \<Rightarrow> nat \<Rightarrow> real \<Rightarrow> string set \<Rightarrow> string set \<Rightarrow> bool" where
  "tiers_ok rk cands capacity now R U \<longleftrightarrow> R \<inter> U = {} \<and> (\<forall>k \<in> R. is_recent rk now k) \<and>
     (\<forall>k \<in> R. \<forall>j \<in> cands - R. is_recent rk now j \<longrightarrow> first_seen_of rk j \<le> first_seen_of rk k) \<and>
     (\<forall>k \<in> U. \<forall>j \<in> cands - (R \<union> U). decayed rk j now \<le> decayed rk k now) \<and>
     ((\<exists>j \<in> cands. \<not> is_recent rk now j) \<and> 0 < capacity \<longrightarrow>
        1 \<le> card U \<and> min (card {j \<in> cands. \<not> is_recent rk now j}) (capacity div 4) \<le> card U)"

lemma select_keys_tiers:
  assumes "capacity < card (set candidates)"
  shows "\<exists>r u. select_keys rk candidates capacity now = sort (r @ u) \<and> distinct (r @ u) \<and>
    set (r @ u) \<subseteq> set candidates \<and> length (r @ u) = capacity \<and>
    tiers_ok rk (set candidates) capacity now (set r) (set u)"
proof -
  let ?c = "sort (remdups candidates)"
  define fresh where "fresh = filter (is_recent rk now) ?c"
  define old where "old = filter (\<lambda>k. \<not> is_recent rk now k) ?c"
  define r where "r = take (capacity - usage_reserve capacity old) (newest_first rk fresh)"
  define others where "others = filter (\<lambda>k. k \<notin> set r) ?c"
  define u where "u = take (capacity - length r) (most_used_first rk now others)"
  have set_fresh: "set fresh = {k \<in> set candidates. is_recent rk now k}"
    and set_old: "set old = {k \<in> set candidates. \<not> is_recent rk now k}"
    by (auto simp: fresh_def old_def)
  have "filter (\<lambda>k. k \<notin> set (newest_first rk fresh)) ?c = old"
    using set_fresh unfolding old_def by (intro filter_cong) (auto simp: newest_first_def)
  then have sel: "select_keys rk candidates capacity now = sort (r @ u)"
    using assms
    by (simp only: select_keys_def Let_def r_def others_def u_def flip: fresh_def)
       (simp add: length_remdups_card_conv)
  have r: "distinct r" "set r \<subseteq> set fresh" "length r \<le> capacity - usage_reserve capacity old"
    by (auto simp: r_def newest_first_def fresh_def dest: in_set_takeD)
  have others: "distinct others" "set others = set candidates - set r"
    by (auto simp: others_def)
  have u: "distinct u" "set u \<subseteq> set others"
    using others(1) by (auto simp: u_def most_used_first_def dest: in_set_takeD)
  have sub: "set r \<subseteq> set candidates" using r(2) set_fresh by auto
  have "length others = card (set candidates) - length r"
    using others distinct_card [OF others(1)] distinct_card [OF r(1)] card_Diff_subset [OF _ sub] by simp
  then have len: "length u = capacity - length r"
    using assms r(3) by (simp add: u_def most_used_first_def)
  have "first_seen_of rk j \<le> first_seen_of rk k" if "k \<in> set r" "j \<in> set candidates - set r" "is_recent rk now j" for k j
    using that newest_first_best [of k _ rk fresh j] set_fresh unfolding r_def by blast
  moreover have "decayed rk j now \<le> decayed rk k now" if "k \<in> set u" "j \<in> set candidates - (set r \<union> set u)" for k j
    using that most_used_first_best [of k _ rk now others j] others(2) unfolding u_def by blast
  moreover have "1 \<le> card (set u) \<and> min (card {j \<in> set candidates. \<not> is_recent rk now j}) (capacity div 4) \<le> card (set u)"
    if "\<exists>j \<in> set candidates. \<not> is_recent rk now j" "0 < capacity"
  proof -
    have "distinct old" by (simp add: old_def)
    moreover have "old \<noteq> []" using that(1) set_old by force
    ultimately have "1 \<le> usage_reserve capacity old"
      "min (card {j \<in> set candidates. \<not> is_recent rk now j}) (capacity div 4) \<le> usage_reserve capacity old"
      using usage_reserve_share [of old capacity] set_old distinct_card [of old] by simp_all
    moreover have "usage_reserve capacity old \<le> card (set u)"
      using usage_reserve_le [of capacity old] that(2) r(3) len distinct_card [OF u(1)] by linarith
    ultimately show ?thesis by linarith
  qed
  moreover have "\<forall>k \<in> set r. is_recent rk now k" "set r \<inter> set u = {}"
    using r(2) set_fresh u(2) others(2) by auto
  ultimately have "tiers_ok rk (set candidates) capacity now (set r) (set u)"
    unfolding tiers_ok_def by blast
  moreover have "length (r @ u) = capacity" "set (r @ u) \<subseteq> set candidates" "distinct (r @ u)"
    using len r u sub others(2) by auto
  ultimately show ?thesis using sel by blast
qed

lemma select_keys_shape:
  "distinct (select_keys rk candidates capacity now) \<and> sorted (select_keys rk candidates capacity now) \<and>
   set (select_keys rk candidates capacity now) \<subseteq> set candidates \<and>
   length (select_keys rk candidates capacity now) = min capacity (card (set candidates))"
proof (cases "capacity < card (set candidates)")
  case True
  obtain r u where ru: "select_keys rk candidates capacity now = sort (r @ u)" "distinct (r @ u)"
    "set (r @ u) \<subseteq> set candidates" "length (r @ u) = capacity"
    using select_keys_tiers [OF True, of rk now] by blast
  have "distinct (sort (r @ u))" "sorted (sort (r @ u))" "set (sort (r @ u)) \<subseteq> set candidates"
    "length (sort (r @ u)) = capacity"
    using ru(2-4) by simp_all
  then show ?thesis using True unfolding ru(1) by simp
next
  case False
  then have "select_keys rk candidates capacity now = sort (remdups candidates)"
    by (simp add: select_keys_def Let_def length_remdups_card_conv)
  with False show ?thesis by (simp add: length_remdups_card_conv)
qed

text \<open>
  The choice among more filaments than slots. The selection has no repetition, is in key order,
  holds only candidates and fills the capacity; when everything fits, everything is shown. Otherwise it
  is the union of a recent tier and a usage tier: the recent tier holds the newest of the keys first
  seen within seven days, the usage tier the most used of all keys outside the recent tier, by decayed
  minutes; and when a key outside the week competes, the usage tier has at least one slot and a quarter
  of the capacity (or as many slots as there are such keys).
\<close>

theorem ranking_policy:
  "distinct (select_keys rk candidates capacity now) \<and> sorted (select_keys rk candidates capacity now) \<and>
   set (select_keys rk candidates capacity now) \<subseteq> set candidates \<and>
   length (select_keys rk candidates capacity now) = min capacity (card (set candidates)) \<and>
   (capacity < card (set candidates) \<longrightarrow>
     (\<exists>R U. set (select_keys rk candidates capacity now) = R \<union> U \<and> tiers_ok rk (set candidates) capacity now R U))"
proof -
  have "\<exists>R U. set (select_keys rk candidates capacity now) = R \<union> U \<and> tiers_ok rk (set candidates) capacity now R U"
    if over: "capacity < card (set candidates)"
  proof -
    obtain r u where "select_keys rk candidates capacity now = sort (r @ u)"
      "tiers_ok rk (set candidates) capacity now (set r) (set u)"
      using select_keys_tiers [OF over, of rk now] by blast
    then show ?thesis by (intro exI [of _ "set r"] exI [of _ "set u"]) simp
  qed
  then show ?thesis using select_keys_shape by blast
qed

text \<open>One slot, a new spool and an old one in use: the slot belongs to the usage tier.\<close>

theorem ranking_policy_witness:
  "let rk = \<lparr>rk_keys = [(''new'', \<lparr>sg_first_seen = 2000000000, sg_use_minutes = 0, sg_last_use = 2000000000\<rparr>),
         (''old'', \<lparr>sg_first_seen = 1600000000, sg_use_minutes = 90, sg_last_use = 2000000000\<rparr>)],
       rk_dirty = False, rk_last_persist = 0\<rparr>
   in \<exists>R U. set (select_keys rk [''new'', ''old''] 1 2000000000) = R \<union> U \<and>
        tiers_ok rk {''new'', ''old''} 1 2000000000 R U \<and> card U = 1"
proof -
  let ?rk = "\<lparr>rk_keys = [(''new'', \<lparr>sg_first_seen = 2000000000, sg_use_minutes = 0, sg_last_use = 2000000000\<rparr>),
         (''old'', \<lparr>sg_first_seen = 1600000000, sg_use_minutes = 90, sg_last_use = 2000000000\<rparr>)],
       rk_dirty = False, rk_last_persist = 0\<rparr>"
  let ?s = "select_keys ?rk [''new'', ''old''] 1 2000000000"
  have card2: "card (set [''new'', ''old'']) = 2" by simp
  note pol = ranking_policy [of ?rk "[''new'', ''old'']" 1 "2000000000"]
  obtain R U where ru: "set ?s = R \<union> U" "tiers_ok ?rk {''new'', ''old''} 1 2000000000 R U"
    using pol card2 by auto
  have "card (set ?s) = 1" using pol card2 distinct_card [of ?s] by simp
  moreover have "\<not> is_recent ?rk 2000000000 ''old''"
    by (simp add: is_recent_def first_seen_of_def RECENT_DAYS_def)
  then have "1 \<le> card U" using ru(2) unfolding tiers_ok_def by auto
  moreover have "card U \<le> card (set ?s)" unfolding ru(1) by (intro card_mono) (metis List.finite_set ru(1), auto)
  ultimately have "card U = 1" by linarith
  with ru show ?thesis unfolding Let_def by blast
qed

end
