(* ===== verification/LivePool.thy ===== *)
theory LivePool
  imports PoolRanking
begin

text \<open>
  The live filament pool of the virtual printers, \<open>makeros_hub/vprinter/live_pool.py\<close>: the loaded trays of
  the printer statuses are deduplicated by material, filament id and colour, mapped to the rows a slicer
  sees, and compared with the running configuration by display identity. A status is a JSON value;
  \<open>rep\<close> is \<open>str()\<close> of a float, list or dictionary.
\<close>

type_synonym tray = "(string \<times> pyval) list"

record pool_row =
  pr_type :: string
  pr_idx :: string
  pr_brand :: string
  pr_color :: string
  pr_cols :: "string list"
  pr_temp_min :: string
  pr_temp_max :: string
  pr_remain :: int

section \<open>Normalisation\<close>

definition catalog :: "string \<Rightarrow> string \<times> int \<times> int" where
  "catalog material =
     (if material = ''PETG'' then (''GFG99'', 230, 260)
      else if material = ''ABS'' then (''GFB99'', 240, 270)
      else if material = ''TPU'' then (''GFU99'', 200, 240)
      else if material = ''PLA-CF'' then (''GFL99'', 200, 250)
      else if material = ''PA'' then (''GFN99'', 250, 290)
      else (''GFL99'', 190, 240))"

definition resolve_idx :: "string \<Rightarrow> string option \<Rightarrow> string \<times> string" where
  "resolve_idx info_idx product = (info_idx, case product of Some p \<Rightarrow> p | None \<Rightarrow> [])"

definition clean_optional :: "(pyval \<Rightarrow> string) \<Rightarrow> pyval \<Rightarrow> string option" where
  "clean_optional rep v = (let s = (if v = PNone then [] else strip (py_str rep v)) in if s = [] then None else Some s)"

definition norm_material :: "(pyval \<Rightarrow> string) \<Rightarrow> pyval \<Rightarrow> string" where
  "norm_material rep v = (let s = (if v = PNone then [] else upper (strip (py_str rep v))) in if s = [] then ''PLA'' else s)"

definition upper_hex :: "char \<Rightarrow> bool" where
  "upper_hex c \<longleftrightarrow> c \<in> set ''0123456789ABCDEF''"

definition norm_color :: "(pyval \<Rightarrow> string) \<Rightarrow> pyval \<Rightarrow> string" where
  "norm_color rep v =
     (let s = upper (lstrip_by (\<lambda>c. c = CHR ''#'') (strip (py_str rep (por v (PStr [])))))
      in if length s = 6 \<and> list_all upper_hex s then s @ ''FF''
         else if length s = 8 \<and> list_all upper_hex s then s
         else ''FFFFFFFF'')"

text \<open>The deduplication key, \<open>None\<close> for an empty slot.\<close>

definition tray_key :: "(pyval \<Rightarrow> string) \<Rightarrow> tray \<Rightarrow> string option" where
  "tray_key rep t = (if clean_optional rep (pget t ''material'') = None then None
     else Some (join ''|'' [norm_material rep (pget t ''material''),
       (case clean_optional rep (pget t ''filamentId'') of Some f \<Rightarrow> f | None \<Rightarrow> []),
       norm_color rep (pget t ''colorHex'')]))"

section \<open>Trays of the statuses\<close>

definition dicts :: "pyval list \<Rightarrow> (string \<times> pyval) list list" where
  "dicts vs = List.map_filter (\<lambda>v. case v of PDict d \<Rightarrow> Some d | _ \<Rightarrow> None) vs"

definition list_or_nil :: "pyval \<Rightarrow> pyval list" where
  "list_or_nil v = (case v of PList xs \<Rightarrow> xs | _ \<Rightarrow> [])"

definition status_trays :: "(string \<times> pyval) list \<Rightarrow> tray list" where
  "status_trays status = concat (map (\<lambda>unit. dicts (list_or_nil (pget unit ''trays''))) (dicts (list_or_nil (pget status ''ams''))))"

definition printer_order :: "(pyval \<Rightarrow> string) \<Rightarrow> pyval \<Rightarrow> string" where
  "printer_order rep s = (case s of PDict d \<Rightarrow> py_str rep (por (pget d ''printerId'') (PStr [])) | _ \<Rightarrow> [])"

definition ordered_trays :: "(pyval \<Rightarrow> string) \<Rightarrow> pyval list \<Rightarrow> tray list" where
  "ordered_trays rep statuses = concat (map status_trays (dicts (sort_key (printer_order rep) statuses)))"

fun dedupe :: "(pyval \<Rightarrow> string) \<Rightarrow> tray list \<Rightarrow> (string, tray) odict \<Rightarrow> (string, tray) odict" where
  "dedupe rep [] d = d"
| "dedupe rep (t # ts) d = (case tray_key rep t of
      None \<Rightarrow> dedupe rep ts d
    | Some k \<Rightarrow> dedupe rep ts (setdefault k t d))"

definition temp_text :: "(pyval \<Rightarrow> string) \<Rightarrow> pyval \<Rightarrow> int \<Rightarrow> string" where
  "temp_text rep v fallback = (if num_of v \<noteq> None then py_str rep v else int_str fallback)"

definition row_of :: "(pyval \<Rightarrow> string) \<Rightarrow> tray \<Rightarrow> pool_row" where
  "row_of rep t =
     (let material = norm_material rep (pget t ''material'');
          color = norm_color rep (pget t ''colorHex'');
          (cat_idx, cat_min, cat_max) = catalog material;
          cols = (case pget t ''colors'' of PList (c # cs) \<Rightarrow> map (norm_color rep) (c # cs) | _ \<Rightarrow> [color]);
          (idx, brand) = resolve_idx
            (case clean_optional rep (pget t ''filamentId'') of Some f \<Rightarrow> f | None \<Rightarrow> cat_idx)
            (clean_optional rep (pget t ''productName''))
      in \<lparr>pr_type = material, pr_idx = idx, pr_brand = brand, pr_color = color, pr_cols = cols,
          pr_temp_min = temp_text rep (pget t ''nozzleTempMin'') cat_min,
          pr_temp_max = temp_text rep (pget t ''nozzleTempMax'') cat_max,
          pr_remain = (case num_of (pget t ''remainPct'') of Some r \<Rightarrow> max 0 (min 100 (py_round r)) | None \<Rightarrow> -1)\<rparr>)"

definition slot_capacity :: "int \<Rightarrow> int \<Rightarrow> nat" where
  "slot_capacity units trays = nat (max 1 (units * trays))"

definition rows_of :: "(pyval \<Rightarrow> string) \<Rightarrow> nat \<Rightarrow> (string, tray) odict \<Rightarrow> pool_row list" where
  "rows_of rep capacity d = map (\<lambda>k. row_of rep (get_or d k [])) (take capacity (sort (keys d)))"

definition vp_pool_from_statuses :: "(pyval \<Rightarrow> string) \<Rightarrow> pyval list \<Rightarrow> int \<Rightarrow> int \<Rightarrow> pool_row list" where
  "vp_pool_from_statuses rep statuses units trays =
     rows_of rep (slot_capacity units trays) (dedupe rep (ordered_trays rep statuses) [])"

section \<open>The single virtual printer\<close>

record vp_config =
  vc_model :: pyval
  vc_units :: int
  vc_trays :: int
  vc_pool :: "pool_row list"

definition identity :: "pool_row \<Rightarrow> string \<times> string \<times> string \<times> string \<times> string list" where
  "identity r = (pr_type r, pr_idx r, pr_brand r, pr_color r, pr_cols r)"

definition updated_config_if_pool_changed :: "(pyval \<Rightarrow> string) \<Rightarrow> vp_config option \<Rightarrow> pyval list \<Rightarrow> vp_config option" where
  "updated_config_if_pool_changed rep current statuses = (case current of
      None \<Rightarrow> None
    | Some cfg \<Rightarrow>
        (let live = vp_pool_from_statuses rep statuses (vc_units cfg) (vc_trays cfg);
             cap = slot_capacity (vc_units cfg) (vc_trays cfg)
         in if map identity live = map identity (take cap (vc_pool cfg)) then None
            else Some (cfg\<lparr>vc_pool := live\<rparr>)))"

section \<open>Several virtual printers, scoped and ranked\<close>

definition scoped_statuses :: "(pyval \<Rightarrow> string) \<Rightarrow> pyval list \<Rightarrow> pyval \<Rightarrow> pyval list" where
  "scoped_statuses rep statuses model =
     (let want = lower (strip (if truthy model then py_str rep model else []));
          matching = filter (\<lambda>s. case s of PDict d \<Rightarrow>
              lower (strip (py_str rep (por (pget d ''model'') (PStr [])))) = want | _ \<Rightarrow> False) statuses
      in if want = [] then statuses else if matching \<noteq> [] then matching else statuses)"

definition loaded_keys :: "(pyval \<Rightarrow> string) \<Rightarrow> pyval list \<Rightarrow> string list" where
  "loaded_keys rep statuses = List.map_filter (tray_key rep) (concat (map status_trays (dicts statuses)))"

definition unit_raw_id :: "(string \<times> pyval) list \<Rightarrow> int option" where
  "unit_raw_id unit = (case pget unit ''raw'' of PDict raw \<Rightarrow> py_int (pget raw ''id'') | _ \<Rightarrow> None)"

definition active_unit :: "(string \<times> pyval) list list \<Rightarrow> nat \<Rightarrow> (string \<times> pyval) list option" where
  "active_unit units ui =
     (if \<exists>u \<in> set units. unit_raw_id u \<noteq> None
      then List.find (\<lambda>u. unit_raw_id u = Some (int ui)) units
      else if ui < length units then Some (units ! ui) else None)"

definition active_key :: "(pyval \<Rightarrow> string) \<Rightarrow> (string \<times> pyval) list \<Rightarrow> string option" where
  "active_key rep s =
     (if pget s ''state'' \<noteq> PStr ''printing'' then None
      else (case int_of (pget s ''amsActiveTray'') of
          None \<Rightarrow> None
        | Some t \<Rightarrow>
            if t < 0 \<or> 63 < t then None
            else (case active_unit (dicts (list_or_nil (pget s ''ams''))) (nat (t div 4)) of
                None \<Rightarrow> None
              | Some u \<Rightarrow> (case List.find (\<lambda>tr. num_of (pget tr ''slot'') = Some (of_int (t mod 4)))
                                 (dicts (list_or_nil (pget u ''trays''))) of
                    None \<Rightarrow> None | Some tr \<Rightarrow> tray_key rep tr))))"

definition active_keys :: "(pyval \<Rightarrow> string) \<Rightarrow> pyval list \<Rightarrow> string list" where
  "active_keys rep statuses = List.map_filter (active_key rep) (dicts statuses)"

definition chosen_keys :: "ranking option \<Rightarrow> real \<Rightarrow> nat \<Rightarrow> string list \<Rightarrow> string list" where
  "chosen_keys ranking now capacity ks = (case ranking of
      Some rk \<Rightarrow> if capacity < length ks then select_keys rk ks capacity now else take capacity (sort ks)
    | None \<Rightarrow> take capacity (sort ks))"

definition synthetic :: "(string, tray) odict \<Rightarrow> string list \<Rightarrow> pyval list" where
  "synthetic d chosen = [PDict [(''printerId'', PStr []), (''ams'', PList [PDict [(''trays'', PList
     (map (\<lambda>(i, k). PDict (AList.update ''slot'' (PInt (int (i mod 4))) (get_or d k []))) (enumerate 0 chosen)))]])]]"

definition vp_pool_from_statuses_ranked :: "(pyval \<Rightarrow> string) \<Rightarrow> pyval list \<Rightarrow> int \<Rightarrow> int \<Rightarrow> ranking option \<Rightarrow> real \<Rightarrow>
    pool_row list" where
  "vp_pool_from_statuses_ranked rep statuses units trays ranking now =
     (let d = dedupe rep (ordered_trays rep statuses) [];
          chosen = chosen_keys ranking now (slot_capacity units trays) (keys d)
      in vp_pool_from_statuses rep (synthetic d chosen) units trays)"

definition mirror_config :: "(pyval \<Rightarrow> string) \<Rightarrow> pyval list \<Rightarrow> ranking option \<Rightarrow> real \<Rightarrow> vp_config \<Rightarrow> vp_config" where
  "mirror_config rep statuses ranking now cfg =
     (let live = vp_pool_from_statuses_ranked rep (scoped_statuses rep statuses (vc_model cfg)) (vc_units cfg) (vc_trays cfg) ranking now;
          cap = slot_capacity (vc_units cfg) (vc_trays cfg)
      in if map identity live \<noteq> map identity (take cap (vc_pool cfg)) then cfg\<lparr>vc_pool := live\<rparr> else cfg)"

definition needs_mirror :: "(pyval \<Rightarrow> string) \<Rightarrow> pyval list \<Rightarrow> ranking option \<Rightarrow> real \<Rightarrow> vp_config \<Rightarrow> bool" where
  "needs_mirror rep statuses ranking now cfg \<longleftrightarrow>
     map identity (vp_pool_from_statuses_ranked rep (scoped_statuses rep statuses (vc_model cfg)) (vc_units cfg) (vc_trays cfg) ranking now)
       \<noteq> map identity (take (slot_capacity (vc_units cfg) (vc_trays cfg)) (vc_pool cfg))"

definition updated_configs_if_pools_changed :: "(pyval \<Rightarrow> string) \<Rightarrow> vp_config list \<Rightarrow> pyval list \<Rightarrow> ranking option \<Rightarrow> real \<Rightarrow>
    vp_config list option" where
  "updated_configs_if_pools_changed rep configs statuses ranking now =
     (if configs = [] then None
      else if \<exists>cfg \<in> set configs. needs_mirror rep statuses ranking now cfg
      then Some (map (mirror_config rep statuses ranking now) configs) else None)"

section \<open>Deduplication\<close>

lemma dedupe_inv:
  assumes "wf_dict d" "\<forall>k t. map_of d k = Some t \<longrightarrow> tray_key rep t = Some k"
  shows "wf_dict (dedupe rep ts d) \<and> (\<forall>k t. map_of (dedupe rep ts d) k = Some t \<longrightarrow> tray_key rep t = Some k)"
  using assms
proof (induction ts arbitrary: d)
  case (Cons t ts)
  show ?case
  proof (cases "tray_key rep t")
    case None
    with Cons.IH [OF Cons.prems] show ?thesis by simp
  next
    case (Some k)
    have "\<forall>q u. map_of (setdefault k t d) q = Some u \<longrightarrow> tray_key rep u = Some q"
      using Cons.prems(2) Some by (simp add: map_of_setdefault)
    from Cons.IH [OF wf_dict_setdefault [OF Cons.prems(1)] this] Some show ?thesis by simp
  qed
qed simp

lemma dedupe_start: "wf_dict (dedupe rep ts [])" "map_of (dedupe rep ts []) k = Some t \<Longrightarrow> tray_key rep t = Some k"
  using dedupe_inv [of "[]" rep ts] by simp_all

lemma dedupe_keys: "set (keys (dedupe rep ts d)) = set (keys d) \<union> {k. \<exists>t \<in> set ts. tray_key rep t = Some k}"
proof (induction ts arbitrary: d)
  case (Cons t ts)
  then show ?case
    by (cases "tray_key rep t") (auto simp: keys_setdefault)
qed simp

lemma dedupe_distinct:
  "map (tray_key rep) ts = map Some ks \<Longrightarrow> distinct ks \<Longrightarrow> set ks \<inter> set (keys d) = {} \<Longrightarrow>
   dedupe rep ts d = d @ zip ks ts"
proof (induction ts arbitrary: ks d)
  case (Cons t ts)
  then obtain q qs where ks: "ks = q # qs" "tray_key rep t = Some q" "map (tray_key rep) ts = map Some qs"
    by (cases ks) auto
  with Cons.prems have "setdefault q t d = d @ [(q, t)]"
    by (auto simp: setdefault_def map_of_None_keys split: option.split)
  moreover have "distinct qs" "set qs \<inter> set (keys (d @ [(q, t)])) = {}"
    using Cons.prems ks(1) by auto
  ultimately show ?case using Cons.IH [OF ks(3)] ks(1,2) by simp
qed simp

section \<open>The synthetic status carries exactly the chosen trays\<close>

definition with_slot :: "nat \<Rightarrow> tray \<Rightarrow> tray" where
  "with_slot i t = AList.update ''slot'' (PInt (int (i mod 4))) t"

lemma pget_with_slot: "k \<noteq> ''slot'' \<Longrightarrow> pget (with_slot i t) k = pget t k"
  by (simp add: with_slot_def pget_def get_or_simps)

lemma tray_key_with_slot: "tray_key rep (with_slot i t) = tray_key rep t"
  by (simp add: tray_key_def pget_with_slot)

lemma row_of_with_slot: "row_of rep (with_slot i t) = row_of rep t"
  by (simp add: row_of_def pget_with_slot)

lemma dicts_simps [simp]:
  "dicts [] = []"
  "dicts (PDict d # vs) = d # dicts vs"
  "dicts (map PDict ds) = ds"
  by (simp_all add: dicts_def List.map_filter_def o_def)

lemma ordered_trays_synthetic:
  "ordered_trays rep (synthetic d chosen) = map (\<lambda>(i, k). with_slot i (get_or d k [])) (enumerate 0 chosen)"
proof -
  let ?ts = "map (\<lambda>(i, k). with_slot i (get_or d k [])) (enumerate 0 chosen)"
  have "map (\<lambda>(i, k). PDict (AList.update ''slot'' (PInt (int (i mod 4))) (get_or d k []))) (enumerate 0 chosen) = map PDict ?ts"
    by (simp add: with_slot_def case_prod_beta')
  then have "synthetic d chosen = [PDict [(''printerId'', PStr []), (''ams'', PList [PDict [(''trays'', PList (map PDict ?ts))]])]]"
    by (simp only: synthetic_def)
  moreover have "pget [(''trays'', v)] ''trays'' = v" "pget [(''printerId'', w), (''ams'', v)] ''ams'' = v" for v w
    by (simp_all add: pget_def get_or_def)
  ultimately show ?thesis
    by (simp add: ordered_trays_def status_trays_def list_or_nil_def del: map_map)
qed

lemma ranked_rows:
  assumes d: "d = dedupe rep (ordered_trays rep statuses) []"
    and chosen: "chosen = chosen_keys ranking now (slot_capacity units trays) (keys d)"
  shows "vp_pool_from_statuses_ranked rep statuses units trays ranking now = map (\<lambda>k. row_of rep (get_or d k [])) chosen \<and>
    sorted chosen \<and> distinct chosen \<and> set chosen \<subseteq> set (keys d) \<and>
    length chosen = min (slot_capacity units trays) (length d)"
proof -
  let ?cap = "slot_capacity units trays"
  let ?ts = "map (\<lambda>(i, k). with_slot i (get_or d k [])) (enumerate 0 chosen)"
  have wf: "distinct (keys d)" using dedupe_start(1) by (simp add: d wf_dict_def)
  have rank: "distinct (select_keys rk (keys d) ?cap now)" "sorted (select_keys rk (keys d) ?cap now)"
    "set (select_keys rk (keys d) ?cap now) \<subseteq> set (keys d)"
    "length (select_keys rk (keys d) ?cap now) = min ?cap (length d)" for rk
    using select_keys_shape [of rk "keys d" ?cap now] distinct_card [OF wf] by simp_all
  have ch: "sorted chosen" "distinct chosen" "set chosen \<subseteq> set (keys d)" "length chosen = min ?cap (length d)"
    using rank wf unfolding chosen chosen_keys_def
    by (auto simp: min_def dest: in_set_takeD split: option.split)
  have key: "tray_key rep (get_or d k []) = Some k" if "k \<in> set chosen" for k
  proof -
    have "k \<in> dom (map_of d)" using ch(3) that unfolding set_keys [symmetric] by (rule subsetD)
    then obtain t where t: "map_of d k = Some t" by blast
    have "tray_key rep t = Some k" by (rule dedupe_start(2)) (rule t [unfolded d])
    with t show ?thesis by (simp add: get_or_def)
  qed
  have keys: "map (tray_key rep) ?ts = map Some chosen"
    using key by (intro nth_equalityI) (auto simp: tray_key_with_slot nth_enumerate_eq)
  have "dedupe rep ?ts [] = zip chosen ?ts"
    using dedupe_distinct [OF keys ch(2), of "[]"] by simp
  moreover have "keys (zip chosen ?ts) = chosen" by (simp add: keys_def)
  moreover have "row_of rep (get_or (zip chosen ?ts) k []) = row_of rep (get_or d k [])" if kin: "k \<in> set chosen" for k
  proof -
    obtain i where i: "i < length chosen" "chosen ! i = k" using kin by (auto simp: in_set_conv_nth)
    have "map_of (zip chosen ?ts) k = Some (?ts ! i)"
      using map_of_zip_nth [of chosen ?ts i] ch(2) i by simp
    then show ?thesis using i by (simp add: get_or_def nth_enumerate_eq row_of_with_slot)
  qed
  moreover have "sort chosen = chosen" "take ?cap chosen = chosen" using ch(1,4) by (simp_all add: sorted_sort_id)
  ultimately have "vp_pool_from_statuses rep (synthetic d chosen) units trays = map (\<lambda>k. row_of rep (get_or d k [])) chosen"
    by (simp add: vp_pool_from_statuses_def ordered_trays_synthetic rows_of_def cong: map_cong)
  then show ?thesis
    using ch by (simp add: vp_pool_from_statuses_ranked_def Let_def flip: d chosen)
qed

lemma ranked_equals_plain:
  assumes "length (dedupe rep (ordered_trays rep statuses) []) \<le> slot_capacity units trays"
  shows "vp_pool_from_statuses_ranked rep statuses units trays ranking now = vp_pool_from_statuses rep statuses units trays"
proof -
  let ?d = "dedupe rep (ordered_trays rep statuses) []"
  have "chosen_keys ranking now (slot_capacity units trays) (keys ?d) = take (slot_capacity units trays) (sort (keys ?d))"
    using assms by (simp add: chosen_keys_def split: option.split)
  then show ?thesis
    using ranked_rows [OF refl refl, of rep statuses units trays ranking now]
    by (simp add: vp_pool_from_statuses_def rows_of_def)
qed

lemma length_ranked: "length (vp_pool_from_statuses_ranked rep statuses units trays ranking now) \<le> slot_capacity units trays"
  using ranked_rows [OF refl refl, of rep statuses units trays ranking now] by simp

lemma mirror_settles: "\<not> needs_mirror rep statuses ranking now (mirror_config rep statuses ranking now cfg)"
  using length_ranked [of rep "scoped_statuses rep statuses (vc_model cfg)" "vc_units cfg" "vc_trays cfg" ranking now]
  by (simp add: needs_mirror_def mirror_config_def Let_def)

text \<open>
  The live mirror settles. Once the pools of all virtual printers have been brought up to date,
  deriving them again from the same statuses changes nothing, so a stable shop never makes the slicers
  re-read; every printer then shows exactly the derived pool, and an unchanged one keeps its
  configuration. A derived pool never exceeds the slots, and when all loaded filaments fit, the ranked
  derivation gives the same rows as the unranked one.
\<close>

theorem live_mirror_settles:
  "(updated_configs_if_pools_changed rep cfgs statuses ranking now = Some cfgs' \<longrightarrow>
      updated_configs_if_pools_changed rep cfgs' statuses ranking now = None \<and>
      length cfgs' = length cfgs \<and>
      (\<forall>i < length cfgs. \<not> needs_mirror rep statuses ranking now (cfgs ! i) \<longrightarrow> cfgs' ! i = cfgs ! i)) \<and>
   length (vp_pool_from_statuses_ranked rep statuses units trays ranking now) \<le> slot_capacity units trays \<and>
   (length (dedupe rep (ordered_trays rep statuses) []) \<le> slot_capacity units trays \<longrightarrow>
      vp_pool_from_statuses_ranked rep statuses units trays ranking now = vp_pool_from_statuses rep statuses units trays)"
proof (intro conjI impI)
  assume upd: "updated_configs_if_pools_changed rep cfgs statuses ranking now = Some cfgs'"
  then have cfgs': "cfgs' = map (mirror_config rep statuses ranking now) cfgs"
    by (auto simp: updated_configs_if_pools_changed_def split: if_splits)
  show "updated_configs_if_pools_changed rep cfgs' statuses ranking now = None"
    using mirror_settles by (auto simp: updated_configs_if_pools_changed_def cfgs')
  show "length cfgs' = length cfgs" by (simp add: cfgs')
  show "\<forall>i < length cfgs. \<not> needs_mirror rep statuses ranking now (cfgs ! i) \<longrightarrow> cfgs' ! i = cfgs ! i"
    by (simp add: cfgs' mirror_config_def needs_mirror_def Let_def)
qed (auto intro: length_ranked ranked_equals_plain)

definition demo_statuses :: "pyval list" where
  "demo_statuses = [PDict [(''printerId'', PStr ''p''), (''ams'', PList [PDict [(''trays'', PList [PDict
     [(''slot'', PInt 0), (''material'', PStr ''pla''), (''colorHex'', PStr ''FF0000FF'')]])]])]]"

definition demo_vp :: vp_config where
  "demo_vp = \<lparr>vc_model = PNone, vc_units = 1, vc_trays = 4, vc_pool = []\<rparr>"

lemma demo_needs: "needs_mirror (\<lambda>_. []) demo_statuses None 0 demo_vp"
proof -
  let ?t = "[(''slot'', PInt 0), (''material'', PStr ''pla''), (''colorHex'', PStr ''FF0000FF'')]"
  have "strip ''pla'' = ''pla''" by code_simp
  then have "tray_key (\<lambda>_. []) ?t \<noteq> None"
    by (simp add: tray_key_def pget_def get_or_def clean_optional_def)
  moreover have "ordered_trays (\<lambda>_. []) demo_statuses = [?t]"
    by (simp add: ordered_trays_def demo_statuses_def status_trays_def pget_def get_or_def list_or_nil_def)
  ultimately have "length (dedupe (\<lambda>_. []) (ordered_trays (\<lambda>_. []) demo_statuses) []) = 1"
    by (auto simp: setdefault_def)
  moreover have "scoped_statuses (\<lambda>_. []) demo_statuses PNone = demo_statuses"
  proof -
    have "strip [] = []" "lower [] = []" by code_simp+
    then show ?thesis by (simp add: scoped_statuses_def)
  qed
  ultimately have "length (vp_pool_from_statuses_ranked (\<lambda>_. []) (scoped_statuses (\<lambda>_. []) demo_statuses PNone) 1 4 None 0) = 1"
    using ranked_rows [OF refl refl, of "\<lambda>_. []" demo_statuses 1 4 None 0] by (simp add: slot_capacity_def)
  then show ?thesis by (auto simp: needs_mirror_def demo_vp_def)
qed

theorem live_mirror_settles_witness:
  "\<exists>cfgs'. updated_configs_if_pools_changed (\<lambda>_. []) [demo_vp] demo_statuses None 0 = Some cfgs' \<and>
     updated_configs_if_pools_changed (\<lambda>_. []) cfgs' demo_statuses None 0 = None \<and> length cfgs' = 1"
proof -
  obtain cfgs' where upd: "updated_configs_if_pools_changed (\<lambda>_. []) [demo_vp] demo_statuses None 0 = Some cfgs'"
    using demo_needs by (simp add: updated_configs_if_pools_changed_def)
  with live_mirror_settles [of "\<lambda>_. []" "[demo_vp]" demo_statuses None 0 cfgs' 1 1] show ?thesis by simp
qed

end
