(* ===== verification/Klipper.thy ===== *)
theory Klipper
  imports Jobs "HOL-Library.Sublist"
begin

text \<open>
  The Klipper adapter, \<open>makeros_hub/printers/klipper.py\<close>: reading Moonraker's answers, the poll loop with
  its back-off, the status it reports, the three control commands, and the job tracker. HTTP and JSON
  are parameters; a request ends in a body or in one of the exceptions the source tells apart. A job
  record is the one of \<open>Jobs\<close>, since the cloud does not branch on the vendor. Every handler reads the
  clock once: the readings within one call are taken as one.
\<close>

definition MAX_PENDING_JOBS :: nat where
  "MAX_PENDING_JOBS = 500"

definition POLL_INTERVAL_SEC :: real where
  "POLL_INTERVAL_SEC = 5"

definition POLL_BACKOFF_MAX_SEC :: real where
  "POLL_BACKOFF_MAX_SEC = 30"

definition STALE_SEC :: real where
  "STALE_SEC = 30"

definition CONNECT_TIMEOUT_SEC :: real where
  "CONNECT_TIMEOUT_SEC = 20"

definition JOB_NAME_MAX_CHARS :: nat where
  "JOB_NAME_MAX_CHARS = 300"


section \<open>Requests and their errors\<close>

datatype url_reason = Timed_out | Name_lookup | Refused_connection | Other_reason

datatype net_error =
    Http_error int string
  | Url_error url_reason
  | Timeout_error
  | Value_error
  | Other_error

definition normalize_base :: "string \<Rightarrow> string" where
  "normalize_base url =
     (let u = rstrip_by (\<lambda>c. c = CHR ''/'') (strip url)
      in if startswith ''http://'' u \<or> startswith ''https://'' u then u else ''http://'' @ u)"

fun classify_error :: "net_error \<Rightarrow> string" where
  "classify_error (Http_error code body) = ''http_'' @ int_str code"
| "classify_error (Url_error r) = (if r = Timed_out then ''timeout'' else ''unreachable'')"
| "classify_error Timeout_error = ''timeout''"
| "classify_error Value_error = ''shape_mismatch''"
| "classify_error Other_error = ''unknown''"

fun classify_url_error :: "url_reason \<Rightarrow> string" where
  "classify_url_error Timed_out = ''timeout''"
| "classify_url_error Name_lookup = ''dns_failure''"
| "classify_url_error Refused_connection = ''unreachable''"
| "classify_url_error Other_reason = ''unreachable''"

definition extract_message :: "(string \<Rightarrow> pyval option) \<Rightarrow> string \<Rightarrow> string" where
  "extract_message json body =
     (if body = [] then []
      else case json body of
        Some (PDict d) \<Rightarrow>
          (case (case pget d ''error'' of PDict inner \<Rightarrow> pget inner ''message'' | _ \<Rightarrow> PNone) of
             PStr msg \<Rightarrow> py_take 200 msg
           | _ \<Rightarrow> (case pget d ''message'' of PStr msg \<Rightarrow> py_take 200 msg | _ \<Rightarrow> py_take 200 body))
      | _ \<Rightarrow> py_take 200 body)"

definition any_of :: "string list \<Rightarrow> string \<Rightarrow> bool" where
  "any_of kws m \<longleftrightarrow> (\<exists>kw \<in> set kws. sublist kw m)"

definition classify_control_http_error :: "(string \<Rightarrow> pyval option) \<Rightarrow> int \<Rightarrow> string \<Rightarrow> string" where
  "classify_control_http_error json code body =
     (if code = 400 then
        (let m = lower (extract_message json body) in
         if any_of [''not currently paused'', ''not paused'', ''no paused print'', ''cannot resume''] m then ''not_paused''
         else if any_of [''no print'', ''not started'', ''no active print'', ''nothing is printing'', ''cannot pause'',
             ''cannot cancel''] m then ''not_printing''
         else if sublist ''klippy'' m \<and> any_of [''busy'', ''shutdown'', ''not ready''] m then ''klipper_error''
         else ''invalid_state'')
      else if code = 401 \<or> code = 403 then ''auth_required''
      else if code = 404 then ''endpoint_missing''
      else if 500 \<le> code \<and> code < 600 then ''klipper_error''
      else ''http_'' @ int_str code)"

section \<open>The job tracker\<close>

record k_job =
  kj_key :: string
  kj_name :: "string option"
  kj_started :: real

record k_tracker =
  kt_printer :: string
  kt_active :: "k_job option"
  kt_pending :: "job_record list"
  kt_last :: string
  kt_duration :: "real option"

definition new_k_tracker :: "string \<Rightarrow> k_tracker" where
  "new_k_tracker printer = \<lparr>kt_printer = printer, kt_active = None, kt_pending = [], kt_last = [], kt_duration = None\<rparr>"

text \<open>\<open>_num\<close> refuses \<open>bool\<close>, which is an \<open>int\<close> in Python.\<close>

definition k_num :: "pyval \<Rightarrow> real option" where
  "k_num v = (case v of PInt i \<Rightarrow> Some (of_int i) | PFloat r \<Rightarrow> Some r | _ \<Rightarrow> None)"

definition job_filename :: "(string \<times> pyval) list \<Rightarrow> string option" where
  "job_filename print_stats = (case pget print_stats ''filename'' of
      PStr fn \<Rightarrow> if strip fn \<noteq> [] then Some (py_take JOB_NAME_MAX_CHARS (strip fn)) else None
    | _ \<Rightarrow> None)"

text \<open>The environment is that of \<open>Jobs\<close>: digest, decimal text of a clock reading, ISO form of a time.
  \<open>je_digest\<close> is the full hexadecimal digest, of which 24 characters are used.\<close>

definition k_job_key :: "job_env \<Rightarrow> string \<Rightarrow> string option \<Rightarrow> real \<Rightarrow> string" where
  "k_job_key env printer filename started = ''fp_'' @ take 24 (je_digest env
     (''klipper|'' @ printer @ ''|'' @ (case filename of None \<Rightarrow> ''?'' | Some f \<Rightarrow> f) @ ''|'' @ je_millis env started))"

definition k_open :: "job_env \<Rightarrow> string option \<Rightarrow> real \<Rightarrow> k_tracker \<Rightarrow> k_tracker" where
  "k_open env filename now tr = tr\<lparr>kt_active := Some
     \<lparr>kj_key = k_job_key env (kt_printer tr) filename now, kj_name = filename, kj_started = now\<rparr>\<rparr>"

definition k_buffer :: "job_record \<Rightarrow> k_tracker \<Rightarrow> k_tracker" where
  "k_buffer job tr = (let q = kt_pending tr @ [job]
     in tr\<lparr>kt_pending := (if MAX_PENDING_JOBS < length q then drop (length q - MAX_PENDING_JOBS) q else q)\<rparr>)"

definition k_closed :: "job_env \<Rightarrow> status \<Rightarrow> real \<Rightarrow> string \<Rightarrow> k_job \<Rightarrow> job_record" where
  "k_closed env st now printer a = \<lparr>jr_key = kj_key a, jr_printer = printer, jr_status = st,
     jr_started = Some (je_iso env (kj_started a)), jr_ended = je_iso env now,
     jr_seconds = Some (max 0 (trunc_real (now - kj_started a))), jr_filename = kj_name a, jr_material = None\<rparr>"

definition k_close :: "job_env \<Rightarrow> status \<Rightarrow> real \<Rightarrow> k_tracker \<Rightarrow> k_tracker" where
  "k_close env st now tr = (case kt_active tr of
      None \<Rightarrow> tr
    | Some a \<Rightarrow> (k_buffer (k_closed env st now (kt_printer tr) a) tr)\<lparr>kt_active := None\<rparr>)"

definition k_recovered :: "job_env \<Rightarrow> string \<Rightarrow> string \<Rightarrow> real \<Rightarrow> real option \<Rightarrow> string \<Rightarrow> job_record" where
  "k_recovered env filename state now dur printer =
     (let (secs, started) = (case dur of Some d \<Rightarrow> if 0 < d then (trunc_real d, now - d) else (0, now) | None \<Rightarrow> (0, now))
      in \<lparr>jr_key = k_job_key env printer (Some filename) started, jr_printer = printer,
          jr_status = (if state = ''complete'' then Done else Failed),
          jr_started = Some (je_iso env started), jr_ended = je_iso env now, jr_seconds = Some secs,
          jr_filename = Some filename, jr_material = None\<rparr>)"

definition k_emit_recovered :: "job_env \<Rightarrow> string option \<Rightarrow> string \<Rightarrow> real \<Rightarrow> real option \<Rightarrow> k_tracker \<Rightarrow> k_tracker" where
  "k_emit_recovered env filename state now dur tr = (case filename of
      None \<Rightarrow> tr
    | Some f \<Rightarrow> k_buffer (k_recovered env f state now dur (kt_printer tr)) tr)"

definition duration_reset :: "real option \<Rightarrow> k_tracker \<Rightarrow> bool" where
  "duration_reset dur tr = (case (kt_duration tr, dur) of (Some l, Some d) \<Rightarrow> d + 1 < l | _ \<Rightarrow> False)"

definition filename_changed :: "string option \<Rightarrow> k_job \<Rightarrow> bool" where
  "filename_changed filename a = (case (filename, kj_name a) of (Some f, Some n) \<Rightarrow> f \<noteq> n | _ \<Rightarrow> False)"

definition k_name_job :: "string option \<Rightarrow> k_job \<Rightarrow> k_job" where
  "k_name_job filename a = (case (filename, kj_name a) of (Some f, None) \<Rightarrow> a\<lparr>kj_name := Some f\<rparr> | _ \<Rightarrow> a)"

definition k_transition :: "job_env \<Rightarrow> string \<Rightarrow> string option \<Rightarrow> real option \<Rightarrow> real \<Rightarrow> k_tracker \<Rightarrow> k_tracker" where
  "k_transition env state filename dur now tr = (case kt_active tr of
      None \<Rightarrow>
        if state = ''printing'' then k_open env filename now tr
        else if kt_last tr = [] \<and> state \<in> {''complete'', ''cancelled'', ''error''} then k_emit_recovered env filename state now dur tr
        else tr
    | Some a \<Rightarrow>
        if state = ''complete'' then k_close env Done now tr
        else if state \<in> {''cancelled'', ''error''} then k_close env Failed now tr
        else if state = ''printing'' then
          (if duration_reset dur tr
           then k_open env filename now (k_close env (if filename_changed filename a then Cancelled else Done) now tr)
           else if filename_changed filename a then k_open env filename now (k_close env Cancelled now tr)
           else tr\<lparr>kt_active := Some (k_name_job filename a)\<rparr>)
        else if state = ''standby'' then k_close env Cancelled now tr
        else tr)"

text \<open>What one poll shows of the print: state, file name and duration; \<open>None\<close> without a usable state.\<close>

definition k_reading :: "pyval \<Rightarrow> (string \<times> string option \<times> real option) option" where
  "k_reading status = (case status of
      PDict d \<Rightarrow> (case pget d ''print_stats'' of
          PDict ps \<Rightarrow> (case pget ps ''state'' of
              PStr s \<Rightarrow> Some (lower (strip s), job_filename ps, k_num (pget ps ''print_duration''))
            | _ \<Rightarrow> None)
        | _ \<Rightarrow> None)
    | _ \<Rightarrow> None)"

definition k_observe :: "job_env \<Rightarrow> pyval \<Rightarrow> real \<Rightarrow> k_tracker \<Rightarrow> k_tracker" where
  "k_observe env status now tr = (case k_reading status of
      None \<Rightarrow> tr
    | Some (state, filename, dur) \<Rightarrow>
        (k_transition env state filename dur now tr)\<lparr>kt_duration := (if dur = None then kt_duration tr else dur), kt_last := state\<rparr>)"

definition k_ack :: "string list \<Rightarrow> k_tracker \<Rightarrow> k_tracker" where
  "k_ack job_keys tr = tr\<lparr>kt_pending := filter (\<lambda>j. jr_key j \<notin> set job_keys) (kt_pending tr)\<rparr>"

section \<open>The adapter\<close>

record klipper =
  kl_printer :: string
  kl_base :: string
  kl_data :: "(string \<times> pyval) list"
  kl_last_ok :: "real option"
  kl_error :: "string option"
  kl_failures :: nat
  kl_started :: real
  kl_tracker :: k_tracker

definition new_klipper :: "string \<Rightarrow> string \<Rightarrow> klipper" where
  "new_klipper printer url = \<lparr>kl_printer = printer, kl_base = normalize_base url, kl_data = [], kl_last_ok = None,
     kl_error = None, kl_failures = 0, kl_started = 0, kl_tracker = new_k_tracker printer\<rparr>"

definition start_klipper :: "real \<Rightarrow> klipper \<Rightarrow> klipper" where
  "start_klipper now k = k\<lparr>kl_started := now, kl_failures := 0\<rparr>"

record k_env =
  ke_http :: "string \<Rightarrow> string \<Rightarrow> net_error + string"
  ke_json :: "string \<Rightarrow> pyval option"
  ke_job :: job_env

definition QUERY_OBJECTS :: string where
  "QUERY_OBJECTS = ''print_stats=state,filename,print_duration,total_duration'' @ ''&extruder=temperature,target'' @
     ''&heater_bed=temperature,target'' @ ''&virtual_sdcard=progress'' @ ''&display_status=progress,message''"

definition fetch_once :: "k_env \<Rightarrow> klipper \<Rightarrow> net_error + (string \<times> pyval) list" where
  "fetch_once env k = (case ke_http env ''GET'' (kl_base k @ ''/printer/objects/query?'' @ QUERY_OBJECTS) of
      Inl e \<Rightarrow> Inl e
    | Inr body \<Rightarrow> (case ke_json env body of
        None \<Rightarrow> Inl Value_error
      | Some (PDict d) \<Rightarrow> (case pget d ''result'' of
            PDict r \<Rightarrow> (case pget r ''status'' of PDict st \<Rightarrow> Inr st | _ \<Rightarrow> Inl Value_error)
          | _ \<Rightarrow> Inl Value_error)
      | Some _ \<Rightarrow> Inl Other_error))"

definition backoff :: "nat \<Rightarrow> real" where
  "backoff failures = min (POLL_INTERVAL_SEC * real (min (2 ^ (failures - 1)) 8)) POLL_BACKOFF_MAX_SEC"

text \<open>One turn of the poll loop, with the time to wait before the next.\<close>

definition poll :: "k_env \<Rightarrow> real \<Rightarrow> klipper \<Rightarrow> klipper \<times> real" where
  "poll env now k = (case fetch_once env k of
      Inl e \<Rightarrow> (let n = kl_failures k + 1 in (k\<lparr>kl_error := Some (classify_error e), kl_failures := n\<rparr>, backoff n))
    | Inr data \<Rightarrow> (k\<lparr>kl_data := data, kl_last_ok := Some now, kl_error := None, kl_failures := 0,
         kl_tracker := k_observe (ke_job env) (PDict data) now (kl_tracker k)\<rparr>, POLL_INTERVAL_SEC))"

record k_status =
  ks_printer :: string
  ks_connection :: string
  ks_reason :: "string option"
  ks_state :: "string option"
  ks_job :: "string option"
  ks_progress :: "real option"
  ks_eta :: "int option"
  ks_nozzle :: "real option"
  ks_bed :: "real option"

definition map_state :: "string \<Rightarrow> string" where
  "map_state s = (if s = ''printing'' then ''printing'' else if s = ''paused'' then ''paused''
     else if s = ''error'' then ''error'' else ''idle'')"

definition field_num :: "(string \<times> pyval) list \<Rightarrow> string \<Rightarrow> string \<Rightarrow> real option" where
  "field_num d section key = (case pget d section of PDict s \<Rightarrow> k_num (pget s key) | _ \<Rightarrow> None)"

definition eta_minutes :: "real option \<Rightarrow> real \<Rightarrow> int option" where
  "eta_minutes dur progress = (case dur of
      None \<Rightarrow> None
    | Some d \<Rightarrow> if d \<noteq> 0 \<and> 0.01 < progress
        then (let eta = d * (1 - progress) / progress in if 0 < eta then Some (trunc_real (eta / 60)) else None)
        else None)"

definition build_status :: "string \<Rightarrow> (string \<times> pyval) list \<Rightarrow> string \<Rightarrow> string option \<Rightarrow> k_status" where
  "build_status printer d conn reason =
     (let base = \<lparr>ks_printer = printer, ks_connection = conn,
            ks_reason = (if conn = ''error'' then (case reason of Some r \<Rightarrow> if r \<noteq> [] then Some r else None | None \<Rightarrow> None) else None),
            ks_state = None, ks_job = None, ks_progress = None, ks_eta = None, ks_nozzle = None, ks_bed = None\<rparr>
      in if conn \<noteq> ''connected'' then base
         else (let out = (case pget d ''print_stats'' of
                   PDict ps \<Rightarrow>
                     (let progress = field_num d ''virtual_sdcard'' ''progress''
                      in base\<lparr>ks_state := (case pget ps ''state'' of PStr s \<Rightarrow> Some (map_state s) | _ \<Rightarrow> None),
                              ks_job := job_filename ps,
                              ks_progress := map_option (\<lambda>p. max 0 (min 100 (p * 100))) progress,
                              ks_eta := (case progress of None \<Rightarrow> None | Some p \<Rightarrow> eta_minutes (k_num (pget ps ''print_duration'')) p)\<rparr>)
                 | _ \<Rightarrow> base)
               in out\<lparr>ks_nozzle := field_num d ''extruder'' ''temperature'',
                      ks_bed := field_num d ''heater_bed'' ''temperature'',
                      ks_state := Some (case ks_state out of None \<Rightarrow> ''idle'' | Some s \<Rightarrow> s)\<rparr>))"

definition klipper_status :: "real \<Rightarrow> klipper \<Rightarrow> k_status" where
  "klipper_status now k = (case kl_last_ok k of
      Some t \<Rightarrow> build_status (kl_printer k) (kl_data k) (if now - t \<le> STALE_SEC then ''connected'' else ''offline'') None
    | None \<Rightarrow> (case kl_error k of
        Some e \<Rightarrow> if e \<noteq> [] \<and> CONNECT_TIMEOUT_SEC < now - kl_started k
          then build_status (kl_printer k) [] ''error'' (Some e)
          else build_status (kl_printer k) [] ''connecting'' None
      | None \<Rightarrow> build_status (kl_printer k) [] ''connecting'' None))"

text \<open>A control command: the answer, or \<open>None\<close> for an exception the source lets through; with the
  POST that was made.\<close>

record k_result =
  kr_ok :: bool
  kr_reason :: "string option"
  kr_http :: "int option"

definition control_path :: "string \<Rightarrow> string option" where
  "control_path command =
     (if command = ''pause'' then Some ''/printer/print/pause''
      else if command = ''resume'' then Some ''/printer/print/resume''
      else if command = ''stop'' then Some ''/printer/print/cancel'' else None)"

definition refused :: "string \<Rightarrow> int option \<Rightarrow> k_result" where
  "refused reason http = \<lparr>kr_ok = False, kr_reason = Some reason, kr_http = http\<rparr>"

definition control_answer :: "k_env \<Rightarrow> net_error + string \<Rightarrow> k_result option" where
  "control_answer env outcome = (case outcome of
      Inl (Http_error code body) \<Rightarrow> Some (refused (classify_control_http_error (ke_json env) code body) (Some code))
    | Inl (Url_error r) \<Rightarrow> Some (refused (classify_url_error r) None)
    | Inl Timeout_error \<Rightarrow> Some (refused ''timeout'' None)
    | Inl _ \<Rightarrow> None
    | Inr body \<Rightarrow> (case ke_json env body of
        Some (PDict d) \<Rightarrow> if pget d ''result'' = PStr ''ok'' then Some \<lparr>kr_ok = True, kr_reason = None, kr_http = None\<rparr>
          else Some (refused ''shape_mismatch'' (Some 200))
      | _ \<Rightarrow> Some (refused ''shape_mismatch'' (Some 200))))"

definition klipper_send :: "k_env \<Rightarrow> real \<Rightarrow> string \<Rightarrow> klipper \<Rightarrow> k_result option \<times> string list" where
  "klipper_send env now command k = (case control_path command of
      None \<Rightarrow> (Some (refused ''unsupported_command'' None), [])
    | Some path \<Rightarrow>
        if (case kl_last_ok k of None \<Rightarrow> True | Some t \<Rightarrow> STALE_SEC < now - t)
        then (Some (refused ''not_connected'' None), [])
        else (let url = kl_base k @ path in (control_answer env (ke_http env ''POST'' url), [url])))"

section \<open>What a poll emits\<close>

definition k_emitted :: "job_env \<Rightarrow> pyval \<Rightarrow> real \<Rightarrow> k_tracker \<Rightarrow> job_record list" where
  "k_emitted env status now tr = (case k_reading status of
      None \<Rightarrow> []
    | Some (state, filename, dur) \<Rightarrow> (case kt_active tr of
        None \<Rightarrow>
          if kt_last tr = [] \<and> state \<in> {''complete'', ''cancelled'', ''error''}
          then (case filename of None \<Rightarrow> [] | Some f \<Rightarrow> [k_recovered env f state now dur (kt_printer tr)]) else []
      | Some a \<Rightarrow> (let closed = \<lambda>st. [k_closed env st now (kt_printer tr) a] in
          if state = ''complete'' then closed Done
          else if state \<in> {''cancelled'', ''error''} then closed Failed
          else if state = ''printing'' then
            (if filename_changed filename a then closed Cancelled
             else if duration_reset dur tr then closed Done else [])
          else if state = ''standby'' then closed Cancelled
          else [])))"

lemma k_pending_buffer:
  "kt_pending (k_buffer j tr) = drop (length (kt_pending tr) + 1 - MAX_PENDING_JOBS) (kt_pending tr @ [j])"
  by (simp add: k_buffer_def Let_def)

interpretation kjobs: bounded_fifo kt_pending k_buffer MAX_PENDING_JOBS
  by unfold_locales (simp_all add: k_pending_buffer MAX_PENDING_JOBS_def)

lemma k_fields [simp]:
  "kt_active (k_buffer j tr) = kt_active tr" "kt_last (k_buffer j tr) = kt_last tr"
  "kt_duration (k_buffer j tr) = kt_duration tr" "kt_printer (k_buffer j tr) = kt_printer tr"
  "kt_pending (k_open env f t tr) = kt_pending tr" "kt_printer (k_open env f t tr) = kt_printer tr"
  "kt_active (k_open env f t tr) = Some \<lparr>kj_key = k_job_key env (kt_printer tr) f t, kj_name = f, kj_started = t\<rparr>"
  "kt_printer (k_close env st t tr) = kt_printer tr" "kt_active (k_close env st t tr) = None"
  by (simp_all add: k_buffer_def k_open_def k_close_def Let_def split: option.splits)

lemma k_close_pending: "kt_active tr = Some a \<Longrightarrow>
    kt_pending (k_close env st t tr) = kt_pending (k_buffer (k_closed env st t (kt_printer tr) a) tr)"
  by (simp add: k_close_def)

lemma k_observe_pending: "kt_pending (k_observe env m t tr) = kt_pending (fold k_buffer (k_emitted env m t tr) tr)"
  by (auto simp: k_observe_def k_emitted_def k_transition_def k_emit_recovered_def k_close_pending Let_def
      split: option.splits)

lemma k_observe_active: "kt_active (k_observe env m t tr) = (case k_reading m of
      None \<Rightarrow> kt_active tr
    | Some (state, f, dur) \<Rightarrow> kt_active (k_transition env state f dur t tr))"
  by (simp add: k_observe_def split: option.splits prod.splits)

lemma k_observe_last: "kt_last (k_observe env m t tr) = (case k_reading m of None \<Rightarrow> kt_last tr | Some (state, _) \<Rightarrow> state)"
  by (simp add: k_observe_def split: option.splits prod.splits)

text \<open>Runs of polls, and the records a buffer without a cap would have collected.\<close>

fun k_run :: "job_env \<Rightarrow> (pyval \<times> real) list \<Rightarrow> k_tracker \<Rightarrow> k_tracker" where
  "k_run env [] tr = tr"
| "k_run env ((m, t) # ps) tr = k_run env ps (k_observe env m t tr)"

fun k_ledger :: "job_env \<Rightarrow> (pyval \<times> real) list \<Rightarrow> k_tracker \<Rightarrow> job_record list" where
  "k_ledger env [] tr = []"
| "k_ledger env ((m, t) # ps) tr = k_emitted env m t tr @ k_ledger env ps (k_observe env m t tr)"

lemma k_run_pending:
  assumes "length (kt_pending tr) \<le> MAX_PENDING_JOBS"
  shows "kt_pending (k_run env ps tr) = trim_oldest MAX_PENDING_JOBS (kt_pending tr @ k_ledger env ps tr)"
  using assms
proof (induction ps arbitrary: tr)
  case Nil
  then show ?case by simp
next
  case (Cons p ps)
  obtain m t where p: "p = (m, t)" by (rule prod.exhaust)
  have obs: "kt_pending (k_observe env m t tr) = trim_oldest MAX_PENDING_JOBS (kt_pending tr @ k_emitted env m t tr)"
    using kjobs.fold_add [OF Cons.prems] by (simp add: k_observe_pending trim_oldest_drop)
  then have "length (kt_pending (k_observe env m t tr)) \<le> MAX_PENDING_JOBS" by simp
  from Cons.IH [OF this] show ?case by (simp add: p obs trim_twice)
qed

section \<open>No second of printing is billed twice\<close>

definition billed :: "job_record list \<Rightarrow> int" where
  "billed js = sum_list (map (\<lambda>j. case jr_seconds j of None \<Rightarrow> 0 | Some s \<Rightarrow> s) js)"

lemma billed_simps [simp]:
  "billed [] = 0" "billed (js @ ks) = billed js + billed ks"
  by (simp_all add: billed_def)

definition accounted_from :: "k_tracker \<Rightarrow> real \<Rightarrow> real" where
  "accounted_from tr b = (case kt_active tr of None \<Rightarrow> b | Some a \<Rightarrow> kj_started a)"

definition speaks :: "pyval \<Rightarrow> bool" where
  "speaks m \<longleftrightarrow> (case k_reading m of None \<Rightarrow> True | Some (state, _) \<Rightarrow> state \<noteq> [])"

lemma trunc_le: "0 \<le> x \<Longrightarrow> real_of_int (trunc_real x) \<le> x" "0 \<le> x \<Longrightarrow> 0 \<le> trunc_real x"
  by (simp_all add: trunc_real_def)

lemma billed_closed: "kj_started a \<le> t \<Longrightarrow> real_of_int (billed [k_closed env st t p a]) \<le> t - kj_started a"
  using trunc_le [of "t - kj_started a"] by (simp add: billed_def k_closed_def)

lemma k_name_job_started [simp]: "kj_started (k_name_job f a) = kj_started a"
  by (simp add: k_name_job_def split: option.split)

lemma billing_step:
  assumes "kt_last tr \<noteq> []" "accounted_from tr b \<le> t" "b \<le> t" "speaks m"
  shows "real_of_int (billed (k_emitted env m t tr)) \<le> accounted_from (k_observe env m t tr) t - accounted_from tr b \<and>
    accounted_from (k_observe env m t tr) t \<le> t \<and> kt_last (k_observe env m t tr) \<noteq> []"
proof -
  have last: "kt_last (k_observe env m t tr) \<noteq> []"
    using assms by (auto simp: k_observe_last speaks_def split: option.splits)
  show ?thesis
  proof (cases "kt_active tr")
    case None
    then show ?thesis
      using assms last
      by (auto simp: k_emitted_def accounted_from_def k_observe_active k_transition_def split: option.splits)
  next
    case (Some a)
    with assms have "kj_started a \<le> t" by (simp add: accounted_from_def)
    with Some show ?thesis
      using assms last billed_closed [of a t env _ "kt_printer tr"]
      by (auto simp: k_emitted_def accounted_from_def k_observe_active k_transition_def Let_def split: option.splits)
  qed
qed

lemma billing_run:
  assumes "kt_last tr \<noteq> []" "accounted_from tr b \<le> b" "sorted (b # map snd ps)" "\<forall>(m, t) \<in> set ps. speaks m"
  shows "real_of_int (billed (k_ledger env ps tr)) \<le> last (b # map snd ps) - accounted_from tr b"
  using assms
proof (induction ps arbitrary: tr b)
  case Nil
  then show ?case by simp
next
  case (Cons p ps)
  obtain m t where p: "p = (m, t)" by (rule prod.exhaust)
  with Cons.prems have t: "b \<le> t" "accounted_from tr b \<le> t" "speaks m" by auto
  note step = billing_step [OF Cons.prems(1) t(2) t(1) t(3), of env]
  then have "real_of_int (billed (k_ledger env ps (k_observe env m t tr))) \<le>
      last (t # map snd ps) - accounted_from (k_observe env m t tr) t"
    using Cons.prems p by (intro Cons.IH) auto
  with step show ?case by (simp add: p)
qed

text \<open>What the printer itself says it has printed, when the very first reading finds the print ended.\<close>

fun found_finished :: "(pyval \<times> real) list \<Rightarrow> real" where
  "found_finished [] = 0"
| "found_finished ((m, t) # ps) = (case k_reading m of
      None \<Rightarrow> found_finished ps
    | Some (state, f, dur) \<Rightarrow> if state \<in> {''complete'', ''cancelled'', ''error''} \<and> f \<noteq> None
        then (case dur of Some d \<Rightarrow> max 0 d | None \<Rightarrow> 0) else 0)"

lemma billed_recovered: "real_of_int (billed [k_recovered env f st t dur p]) \<le> (case dur of Some d \<Rightarrow> max 0 d | None \<Rightarrow> 0)"
  using trunc_le(1) by (auto simp: billed_def k_recovered_def split: option.splits)

lemma billing_start:
  assumes "kt_last tr = []" "kt_active tr = None" "sorted (b # map snd ps)" "\<forall>(m, t) \<in> set ps. speaks m"
  shows "real_of_int (billed (k_ledger env ps tr)) \<le> last (b # map snd ps) - b + found_finished ps"
  using assms
proof (induction ps arbitrary: b)
  case (Cons p ps)
  obtain m t where p: "p = (m, t)" by (rule prod.exhaust)
  with Cons.prems have t: "b \<le> t" "speaks m" "sorted (t # map snd ps)" "\<forall>(m, t) \<in> set ps. speaks m" by auto
  show ?case
  proof (cases "k_reading m")
    case None
    then have "k_observe env m t tr = tr" "k_emitted env m t tr = []" by (simp_all add: k_observe_def k_emitted_def)
    with Cons.IH [OF Cons.prems(1,2) t(3,4)] t(1) None show ?thesis by (simp add: p)
  next
    case (Some r)
    obtain state f dur where r: "r = (state, f, dur)" by (rule prod_cases3)
    let ?tr = "k_observe env m t tr"
    have last: "kt_last ?tr \<noteq> []" using t(2) by (simp add: k_observe_last speaks_def Some r)
    have open_at: "accounted_from ?tr t = t"
      using Cons.prems(2) by (simp add: accounted_from_def k_observe_active Some r k_transition_def k_emit_recovered_def split: option.split)
    have "real_of_int (billed (k_ledger env ps ?tr)) \<le> last (t # map snd ps) - t"
      using billing_run [OF last _ t(3,4), of env] open_at by simp
    moreover have "real_of_int (billed (k_emitted env m t tr)) \<le> found_finished ((m, t) # ps)"
      using Cons.prems(1,2) billed_recovered [where env = env and t = t and dur = dur and p = "kt_printer tr"]
      by (auto simp: k_emitted_def Some r split: option.splits)
    ultimately show ?thesis using t(1) by (simp add: p)
  qed
qed simp


definition moonraker :: "string \<Rightarrow> string \<Rightarrow> int \<Rightarrow> pyval" where
  "moonraker st file dur = PDict [(''print_stats'', PDict [(''state'', PStr st), (''filename'', PStr file), (''print_duration'', PInt dur)])]"

definition k_sample_env :: job_env where
  "k_sample_env = \<lparr>je_digest = (\<lambda>s. s), je_millis = (\<lambda>_. ''0''), je_iso = (\<lambda>_. ''T''), je_rep = (\<lambda>_. [])\<rparr>"

definition standing_by :: k_tracker where
  "standing_by = (new_k_tracker ''p'')\<lparr>kt_last := ''standby''\<rparr>"

lemma k_reading_moonraker: "k_reading (moonraker st f d) =
    Some (lower (strip st), (if strip f \<noteq> [] then Some (py_take JOB_NAME_MAX_CHARS (strip f)) else None), Some (of_int d))"
  by (simp add: k_reading_def moonraker_def pget_def get_or_def job_filename_def k_num_def)

lemma sample_texts:
  "lower (strip ''printing'') = ''printing''" "lower (strip ''paused'') = ''paused''"
  "lower (strip ''complete'') = ''complete''" "strip ''a'' = ''a''" "py_take JOB_NAME_MAX_CHARS ''a'' = ''a''"
  by code_simp+

lemmas k_sample_simps = k_reading_moonraker sample_texts k_emitted_def k_observe_def k_transition_def
  standing_by_def new_k_tracker_def k_open_def k_close_def k_buffer_def k_name_job_def
  duration_reset_def filename_changed_def k_closed_def trunc_real_def MAX_PENDING_JOBS_def


text \<open>
  A restart that is first seen while paused goes unnoticed. The source remembers the print duration
  of every poll, paused ones included, so when a print of 900 seconds ended and the next print of the
  same file was already paused at the next poll, the later \<open>printing\<close> poll no longer shows a reset: the
  two prints become one record, where the same polls without the pause give two.
\<close>
theorem restart_seen_while_paused_is_joined:
  "map jr_seconds (k_ledger k_sample_env [(moonraker ''printing'' ''a'' 900, 0), (moonraker ''paused'' ''a'' 2, 5),
      (moonraker ''printing'' ''a'' 7, 10), (moonraker ''complete'' ''a'' 12, 15)] standing_by) = [Some 15] \<and>
   map jr_seconds (k_ledger k_sample_env [(moonraker ''printing'' ''a'' 900, 0), (moonraker ''printing'' ''a'' 2, 5),
      (moonraker ''printing'' ''a'' 7, 10), (moonraker ''complete'' ''a'' 12, 15)] standing_by) = [Some 5, Some 10]"
  by (simp add: k_sample_simps)

section \<open>Control commands\<close>

text \<open>
  A control command reaches the printer only as one POST to one of the three control endpoints of
  the configured base address, only for pause, resume and stop, and only within 30 seconds of a
  successful poll; it is reported as done only when the printer answered that POST with the result
  \<open>ok\<close>. Every other outcome but an exception carries a reason.
\<close>
theorem klipper_command_safe:
  assumes "klipper_send env now command k = (answer, posts)"
  shows "(posts = [] \<or> (\<exists>path t. control_path command = Some path \<and> posts = [kl_base k @ path] \<and>
           path \<in> {''/printer/print/pause'', ''/printer/print/resume'', ''/printer/print/cancel''} \<and>
           kl_last_ok k = Some t \<and> now - t \<le> STALE_SEC)) \<and>
    (\<forall>r. answer = Some r \<longrightarrow> (if kr_ok r
       then \<exists>url body d. posts = [url] \<and> ke_http env ''POST'' url = Inr body \<and> ke_json env body = Some (PDict d) \<and>
         pget d ''result'' = PStr ''ok''
       else kr_reason r \<noteq> None)) \<and>
    (answer = None \<longrightarrow> posts \<noteq> [])"
proof -
  have answer: "if kr_ok r then \<exists>body d. out = Inr body \<and> ke_json env body = Some (PDict d) \<and> pget d ''result'' = PStr ''ok''
      else kr_reason r \<noteq> None" if "control_answer env out = Some r" for out r
    using that by (auto simp: control_answer_def refused_def
        split: sum.splits net_error.splits option.splits pyval.splits if_splits)
  show ?thesis
  proof (cases "control_path command")
    case None
    with assms show ?thesis by (auto simp: klipper_send_def refused_def)
  next
    case (Some path)
    then have path: "path \<in> {''/printer/print/pause'', ''/printer/print/resume'', ''/printer/print/cancel''}"
      by (auto simp: control_path_def split: if_splits)
    show ?thesis
    proof (cases "case kl_last_ok k of None \<Rightarrow> True | Some t \<Rightarrow> STALE_SEC < now - t")
      case True
      with assms Some show ?thesis by (auto simp: klipper_send_def refused_def)
    next
      case False
      then obtain t where t: "kl_last_ok k = Some t" "now - t \<le> STALE_SEC" by (auto split: option.splits)
      from assms Some False have "posts = [kl_base k @ path]"
        "answer = control_answer env (ke_http env ''POST'' (kl_base k @ path))"
        by (auto simp: klipper_send_def Let_def)
      with answer t path Some show ?thesis by fastforce
    qed
  qed
qed

definition sample_k_env :: k_env where
  "sample_k_env = \<lparr>ke_http = (\<lambda>_ _. Inr ''ok''), ke_json = (\<lambda>_. Some (PDict [(''result'', PStr ''ok'')])), ke_job = k_sample_env\<rparr>"

definition polled :: klipper where
  "polled = (new_klipper ''p'' ''host'')\<lparr>kl_last_ok := Some 0\<rparr>"

lemma klipper_command_safe_witness:
  "let (answer, posts) = klipper_send sample_k_env 1 ''stop'' polled in
     posts = [''http://host/printer/print/cancel''] \<and> answer = Some \<lparr>kr_ok = True, kr_reason = None, kr_http = None\<rparr> \<and>
     (\<exists>url body d. posts = [url] \<and> ke_http sample_k_env ''POST'' url = Inr body \<and> ke_json sample_k_env body = Some (PDict d) \<and>
         pget d ''result'' = PStr ''ok'')"
proof -
  have base: "kl_base polled = ''http://host''" by code_simp
  have s: "klipper_send sample_k_env 1 ''stop'' polled =
      (Some \<lparr>kr_ok = True, kr_reason = None, kr_http = None\<rparr>, [''http://host/printer/print/cancel''])"
    using base by (simp add: klipper_send_def control_path_def polled_def STALE_SEC_def control_answer_def sample_k_env_def
        Let_def pget_def get_or_def)
  have "\<exists>url body d. [''http://host/printer/print/cancel''] = [url] \<and> ke_http sample_k_env ''POST'' url = Inr body \<and>
      ke_json sample_k_env body = Some (PDict d) \<and> pget d ''result'' = PStr ''ok''"
    using klipper_command_safe [OF s] by (auto split: if_splits)
  with s show ?thesis by simp
qed

section \<open>Connection state\<close>

definition poll_ok :: "k_env \<Rightarrow> klipper \<Rightarrow> bool" where
  "poll_ok env k \<longleftrightarrow> (case fetch_once env k of Inl _ \<Rightarrow> False | Inr _ \<Rightarrow> True)"

text \<open>A run of the poll loop: the outside world may answer differently at each turn.\<close>

fun poll_run :: "(k_env \<times> real) list \<Rightarrow> klipper \<Rightarrow> klipper" where
  "poll_run [] k = k"
| "poll_run ((env, t) # ps) k = poll_run ps (fst (poll env t k))"

lemma poll_base: "kl_base (fst (poll env t k)) = kl_base k"
  by (simp add: poll_def Let_def split: sum.split)

lemma fetch_once_base: "kl_base k = kl_base k' \<Longrightarrow> fetch_once env k = fetch_once env k'"
  by (simp add: fetch_once_def)

lemma poll_ok_base: "kl_base k = kl_base k' \<Longrightarrow> poll_ok env k = poll_ok env k'"
  by (simp add: poll_ok_def fetch_once_base [of k k'])

lemma poll_last_ok: "kl_last_ok (fst (poll env t k)) = (if poll_ok env k then Some t else kl_last_ok k)"
  by (simp add: poll_def poll_ok_def Let_def split: sum.split)

definition successes :: "(k_env \<times> real) list \<Rightarrow> klipper \<Rightarrow> real list" where
  "successes ps k = map snd (filter (\<lambda>(env, _). poll_ok env k) ps)"

lemma poll_run_last_ok: "kl_last_ok (poll_run ps k) =
    (if successes ps k = [] then kl_last_ok k else Some (last (successes ps k)))"
proof (induction ps arbitrary: k)
  case Nil
  then show ?case by (simp add: successes_def)
next
  case (Cons p ps)
  obtain env t where p: "p = (env, t)" by (rule prod.exhaust)
  have "successes ps (fst (poll env t k)) = successes ps k"
    by (simp add: successes_def poll_ok_base [OF poll_base])
  with Cons.IH [of "fst (poll env t k)"] show ?case
    by (simp add: p poll_last_ok) (simp add: successes_def)
qed

lemma connection_of_status: "ks_connection (build_status p d c r) = c"
  by (simp add: build_status_def Let_def split: pyval.split)

lemma progress_of_status: "ks_progress (build_status p d c r) = Some x \<Longrightarrow> 0 \<le> x \<and> x \<le> 100"
  by (auto simp: build_status_def Let_def split: pyval.splits if_splits option.splits)

lemma backoff_bounds: "POLL_INTERVAL_SEC \<le> backoff n \<and> backoff n \<le> POLL_BACKOFF_MAX_SEC"
proof -
  have "(1::nat) \<le> min (2 ^ (n - 1)) 8" by simp
  then have "1 \<le> real (min (2 ^ (n - 1)) 8)" by simp
  then show ?thesis by (simp add: backoff_def POLL_INTERVAL_SEC_def POLL_BACKOFF_MAX_SEC_def)
qed

lemma poll_wait_bounds: "POLL_INTERVAL_SEC \<le> snd (poll env t k) \<and> snd (poll env t k) \<le> POLL_BACKOFF_MAX_SEC"
  using backoff_bounds [of "kl_failures k + 1"]
  by (auto simp: poll_def Let_def POLL_INTERVAL_SEC_def POLL_BACKOFF_MAX_SEC_def split: sum.split)

lemma last_le_sorted: "sorted xs \<Longrightarrow> x \<in> set xs \<Longrightarrow> x \<le> (last xs :: real)"
  by (induction xs) auto

text \<open>
  The connection state is that of the polls. Over any run of the poll loop of a fresh adapter, at
  nondecreasing times and with any answers, the printer is reported connected exactly when some poll
  succeeded within the last 30 seconds, and offline exactly when some did but none within them; a
  reported progress is a percentage; and every turn waits between 5 and 30 seconds.
\<close>
theorem klipper_connection_state:
  assumes "sorted (map snd ps)"
  shows "let k = new_klipper p url; k' = poll_run ps k; st = klipper_status now k' in
    (ks_connection st = ''connected'' \<longleftrightarrow> (\<exists>t \<in> set (successes ps k). now - t \<le> STALE_SEC)) \<and>
    (ks_connection st = ''offline'' \<longleftrightarrow> successes ps k \<noteq> [] \<and> (\<forall>t \<in> set (successes ps k). STALE_SEC < now - t)) \<and>
    (\<forall>x. ks_progress st = Some x \<longrightarrow> 0 \<le> x \<and> x \<le> 100) \<and>
    (\<forall>env t. POLL_INTERVAL_SEC \<le> snd (poll env t k') \<and> snd (poll env t k') \<le> POLL_BACKOFF_MAX_SEC)"
proof -
  let ?k = "new_klipper p url"
  let ?s = "successes ps ?k"
  have "sorted ?s" using assms by (simp add: successes_def sorted_wrt_map sorted_wrt_filter)
  then have latest: "t \<in> set ?s \<Longrightarrow> t \<le> last ?s" for t by (rule last_le_sorted)
  have last: "kl_last_ok (poll_run ps ?k) = (if ?s = [] then None else Some (last ?s))"
    by (simp add: poll_run_last_ok new_klipper_def)
  have conn: "ks_connection (klipper_status now (poll_run ps ?k)) \<in> (if ?s = [] then {''error'', ''connecting''}
      else if now - last ?s \<le> STALE_SEC then {''connected''} else {''offline''})"
    by (simp add: klipper_status_def last connection_of_status split: option.split)
  have progress: "ks_progress (klipper_status now (poll_run ps ?k)) = Some x \<Longrightarrow> 0 \<le> x \<and> x \<le> 100" for x
    by (auto simp: klipper_status_def split: option.splits if_splits dest: progress_of_status)
  have recent: "(\<exists>t \<in> set ?s. now - t \<le> STALE_SEC) \<longleftrightarrow> ?s \<noteq> [] \<and> now - last ?s \<le> STALE_SEC"
    using latest last_in_set [of ?s] by force
  then have old: "?s \<noteq> [] \<Longrightarrow> (\<forall>t \<in> set ?s. STALE_SEC < now - t) \<longleftrightarrow> \<not> now - last ?s \<le> STALE_SEC"
    by (auto simp: not_le)
  show ?thesis
    unfolding Let_def recent using conn progress poll_wait_bounds old
    by (cases "?s = []"; cases "now - last ?s \<le> STALE_SEC") auto
qed

definition answering :: k_env where
  "answering = sample_k_env\<lparr>ke_json := (\<lambda>_. Some (PDict [(''result'', PDict [(''status'', PDict [])])]))\<rparr>"

lemma klipper_connection_state_witness:
  "ks_connection (klipper_status 31 (poll_run [(answering, 0), (sample_k_env, 1)] (new_klipper ''p'' ''h''))) = ''offline'' \<and>
   ks_connection (klipper_status 30 (poll_run [(answering, 0), (sample_k_env, 1)] (new_klipper ''p'' ''h''))) = ''connected''"
proof -
  have "successes [(answering, 0), (sample_k_env, 1)] (new_klipper ''p'' ''h'') = [0]"
    by (simp add: successes_def poll_ok_def fetch_once_def sample_k_env_def answering_def pget_def get_or_def)
  with klipper_connection_state [of "[(answering, 0), (sample_k_env, 1)]" "''p''" "''h''" 31]
    klipper_connection_state [of "[(answering, 0), (sample_k_env, 1)]" "''p''" "''h''" 30]
  show ?thesis by (simp add: Let_def STALE_SEC_def)
qed

end
