(* ===== verification/Bambu.thy ===== *)
theory Bambu
  imports Capture BambuParse QueueProgress
begin

text \<open>
  The Bambu adapter, \<open>makeros_hub/printers/bambu.py\<close>, with the send helpers of \<open>bambu_send.py\<close> and the
  object list of a staged file (\<open>threemf_objects.py\<close>). The MQTT client and the FTPS session are what
  answers the adapter: whether the client is connected, how each step of the FTPS session and a
  publish end. Every effect
  of an operation is returned in order. Telemetry goes through \<open>BambuParse\<close>, terminal jobs through
  \<open>Jobs\<close>, dispatched queue jobs through \<open>QueueProgress\<close>.
\<close>

section \<open>Sending a print\<close>

definition coerce_parts :: "string list \<Rightarrow> int list" where
  "coerce_parts parts = (if [] \<in> set parts then []
     else if list_all (\<lambda>p. int_of_str p \<noteq> None) parts then map (\<lambda>p. the (int_of_str p)) parts else [])"

fun coerce_items :: "pyval list \<Rightarrow> int list option" where
  "coerce_items [] = Some []"
| "coerce_items (PInt i # vs) = map_option (\<lambda>is. i # is) (coerce_items vs)"
| "coerce_items (_ # vs) = None"

definition coerce_ams_mapping :: "pyval \<Rightarrow> int list" where
  "coerce_ams_mapping v = (case v of
      PStr s \<Rightarrow> if strip s = [] then [] else coerce_parts (map strip (split_on (CHR '','') (strip s)))
    | PList vs \<Rightarrow> (case coerce_items vs of None \<Rightarrow> [] | Some is \<Rightarrow> is)
    | _ \<Rightarrow> [])"

text \<open>The root of \<open>os.path.splitext\<close>: up to the last dot, unless only dots precede it.\<close>

definition splitext_root :: "string \<Rightarrow> string" where
  "splitext_root name =
     (let parts = split_on (CHR ''.'') name; root = join ''.'' (butlast parts)
      in if length parts < 2 \<or> list_all (\<lambda>c. c = CHR ''.'') root then name else root)"

definition plate_param :: "int \<Rightarrow> string" where
  "plate_param plate = ''Metadata/plate_'' @ int_str plate @ ''.gcode''"

definition start_fields :: "string \<Rightarrow> int \<Rightarrow> bool \<Rightarrow> pyval \<Rightarrow> string \<Rightarrow> (string \<times> pyval) list" where
  "start_fields file plate use_ams mapping seq =
     [(''command'', PStr ''project_file''), (''project_id'', PStr ''0''), (''profile_id'', PStr ''0''),
      (''task_id'', PStr ''0''), (''subtask_id'', PStr ''0''),
      (''param'', PStr (plate_param plate)), (''file'', PStr file),
      (''url'', PStr (''ftp:///'' @ file)), (''subtask_name'', PStr (splitext_root (basename file))),
      (''bed_type'', PStr ''textured_plate''), (''bed_leveling'', PBool True), (''bed_levelling'', PBool True),
      (''flow_cali'', PBool False), (''vibration_cali'', PBool True), (''layer_inspect'', PBool False),
      (''timelapse'', PBool False), (''md5'', PStr []), (''use_ams'', PBool use_ams),
      (''ams_mapping'', PList (map PInt (coerce_ams_mapping mapping))), (''sequence_id'', PStr seq)]"

definition build_print_start_payload :: "string \<Rightarrow> int \<Rightarrow> bool \<Rightarrow> pyval \<Rightarrow> string \<Rightarrow> pyval" where
  "build_print_start_payload file plate use_ams mapping seq =
     PDict [(''print'', PDict (start_fields file plate use_ams mapping seq))]"

section \<open>The objects of a plate\<close>

text \<open>The XML tree is a parameter: the \<open>plate\<close> elements with their children, or \<open>None\<close> when the archive
  or the document cannot be read or is too large.\<close>

record xml_child =
  xc_tag :: string
  xc_attrs :: "(string \<times> string) list"

record plate_info =
  pl_index :: "int option"
  pl_label :: bool
  pl_objects :: "(int \<times> string) list"

definition attr_int :: "xml_child \<Rightarrow> string \<Rightarrow> int option" where
  "attr_int c key = (case map_of (xc_attrs c) key of None \<Rightarrow> None | Some s \<Rightarrow> int_of_str s)"

definition read_child :: "xml_child \<Rightarrow> plate_info \<Rightarrow> plate_info" where
  "read_child c i =
     (if xc_tag c = ''metadata'' then
        (if map_of (xc_attrs c) ''key'' = Some ''index'' then i\<lparr>pl_index := attr_int c ''value''\<rparr>
         else if map_of (xc_attrs c) ''key'' = Some ''label_object_enabled''
         then i\<lparr>pl_label := (map_of (xc_attrs c) ''value'' = Some ''true'')\<rparr>
         else i)
      else if xc_tag c = ''object'' then
        (case attr_int c ''identify_id'' of
           None \<Rightarrow> i
         | Some oid \<Rightarrow> i\<lparr>pl_objects := pl_objects i @
             [(oid, py_take 120 (strip (get_or (xc_attrs c) ''name'' [])))]\<rparr>)
      else i)"

definition read_plate :: "xml_child list \<Rightarrow> plate_info" where
  "read_plate cs = fold read_child cs \<lparr>pl_index = None, pl_label = False, pl_objects = []\<rparr>"

fun dedupe_objects :: "(int \<times> string) list \<Rightarrow> int list \<Rightarrow> (int \<times> string) list" where
  "dedupe_objects [] seen = []"
| "dedupe_objects ((i, n) # os) seen =
     (if i \<in> set seen then dedupe_objects os seen else (i, n) # dedupe_objects os (i # seen))"

fun find_plate :: "xml_child list list \<Rightarrow> int \<Rightarrow> (int \<times> string) list" where
  "find_plate [] plate = []"
| "find_plate (cs # plates) plate =
     (let info = read_plate cs in
      if pl_index info \<noteq> Some plate then find_plate plates plate
      else if \<not> pl_label info then []
      else (let os = dedupe_objects (pl_objects info) []
            in if 2 \<le> length os \<and> length os \<le> 64 then os else []))"

definition parse_plate_objects :: "xml_child list list option \<Rightarrow> int \<Rightarrow> (int \<times> string) list" where
  "parse_plate_objects doc plate = (case doc of None \<Rightarrow> [] | Some plates \<Rightarrow> find_plate plates plate)"

section \<open>The adapter\<close>

datatype connack = Connack_ok | Connack_fail

datatype effect =
    Subscribed string
  | Published string pyval
  | Uploaded string

datatype publish_outcome = Publish_ok | Publish_rc | Publish_raised

text \<open>The calls of the FTPS session in the order of \<open>upload_3mf\<close>. A call succeeds, raises one of
  \<open>_UPLOAD_ERRORS\<close>, or raises anything else (a line break in the name makes \<open>ftplib\<close> raise \<open>ValueError\<close>).\<close>

datatype ftp_call = Ftp_connect | Ftp_login | Ftp_prot_p | Ftp_open_local | Ftp_storbinary | Ftp_quit

datatype call_end = Call_ok | Call_upload_error | Call_other_error

record bambu =
  ba_printer :: string
  ba_host :: string
  ba_serial :: string
  ba_code :: string
  ba_data :: pydict
  ba_connack :: "connack option"
  ba_error :: "string option"
  ba_last :: "real option"
  ba_started :: real
  ba_client :: bool
  ba_jobs :: tracker
  ba_queue :: progress

record bambu_env =
  be_connected :: bool
  be_ftp :: "ftp_call \<Rightarrow> call_end"
  be_publish :: publish_outcome
  be_seq :: string
  be_now :: real

definition new_bambu :: "string \<Rightarrow> string \<Rightarrow> string \<Rightarrow> string \<Rightarrow> bambu" where
  "new_bambu printer host serial code = \<lparr>ba_printer = printer, ba_host = host, ba_serial = serial, ba_code = strip code,
     ba_data = [], ba_connack = None, ba_error = None, ba_last = None, ba_started = 0, ba_client = False,
     ba_jobs = new_tracker printer serial, ba_queue = new_progress START_TIMEOUT_SEC\<rparr>"

definition report_topic :: "bambu \<Rightarrow> string" where
  "report_topic b = ''device/'' @ ba_serial b @ ''/report''"

definition request_topic :: "bambu \<Rightarrow> string" where
  "request_topic b = ''device/'' @ ba_serial b @ ''/request''"

definition start_bambu :: "real \<Rightarrow> bambu \<Rightarrow> bambu" where
  "start_bambu now b = b\<lparr>ba_client := True, ba_started := now\<rparr>"

definition stop_bambu :: "bambu \<Rightarrow> bambu" where
  "stop_bambu b = b\<lparr>ba_client := False\<rparr>"

definition classify_connect_failure :: "string \<Rightarrow> string" where
  "classify_connect_failure reason =
     (if \<exists>kw \<in> set [''not authorized'', ''bad user'', ''password'', ''credential'']. sublist kw (lower reason)
      then ''mqtt_auth_failed'' else ''connect_refused'')"

definition PUSHALL :: pyval where
  "PUSHALL = PDict [(''pushing'', PDict [(''command'', PStr ''pushall'')])]"

definition GET_VERSION :: pyval where
  "GET_VERSION = PDict [(''info'', PDict [(''command'', PStr ''get_version'')])]"

text \<open>The argument is the text of a failing reason code.\<close>

definition on_connect :: "string option \<Rightarrow> bambu \<Rightarrow> effect list \<times> bambu" where
  "on_connect failure b = (case failure of
      Some reason \<Rightarrow> ([], b\<lparr>ba_connack := Some Connack_fail, ba_error := Some (classify_connect_failure reason)\<rparr>)
    | None \<Rightarrow> ([Subscribed (report_topic b), Published (request_topic b) PUSHALL, Published (request_topic b) GET_VERSION],
        b\<lparr>ba_connack := Some Connack_ok, ba_error := None\<rparr>))"

text \<open>The argument is the decoded frame, \<open>None\<close> when it is not JSON; \<open>now\<close> is the monotonic and \<open>wall\<close>
  the wall clock.\<close>

definition on_message :: "job_env \<Rightarrow> pyval option \<Rightarrow> real \<Rightarrow> real \<Rightarrow> bambu \<Rightarrow> bambu" where
  "on_message env doc now wall b = (case doc of
      Some (PDict d) \<Rightarrow> (let data = merge_report (ba_data b) d
        in b\<lparr>ba_data := data, ba_last := Some now, ba_jobs := observe env data wall (ba_jobs b)\<rparr>)
    | _ \<Rightarrow> b)"

definition bambu_connection :: "real \<Rightarrow> bambu \<Rightarrow> string \<times> string option" where
  "bambu_connection now b =
     (if ba_connack b = Some Connack_fail then (''error'', ba_error b)
      else (case ba_last b of
          Some t \<Rightarrow> (if now - t \<le> 150 then ''connected'' else ''offline'', None)
        | None \<Rightarrow> if ba_connack b = Some Connack_ok then (''connecting'', None)
            else if 20 < now - ba_started b then (''error'', Some ''unreachable'')
            else (''connecting'', None)))"

definition bambu_status :: "parse_env \<Rightarrow> real \<Rightarrow> bambu \<Rightarrow> status_out result" where
  "bambu_status env now b = (let (conn, reason) = bambu_connection now b
     in normalize_status env (ba_printer b) (ba_data b) conn reason)"

text \<open>A refused operation has a reason. \<open>is_connected\<close> of the client is part of the environment.\<close>

type_synonym outcome = "string option"

fun first_failure :: "(ftp_call \<Rightarrow> call_end) \<Rightarrow> ftp_call list \<Rightarrow> call_end" where
  "first_failure f [] = Call_ok"
| "first_failure f (c # cs) = (if f c = Call_ok then first_failure f cs else f c)"

definition transfer_calls :: "ftp_call list" where
  "transfer_calls = [Ftp_connect, Ftp_login, Ftp_prot_p, Ftp_open_local, Ftp_storbinary]"

text \<open>A bad name and one of \<open>_UPLOAD_ERRORS\<close> become \<open>BambuSendError\<close>; after the transfer such an error of
  \<open>quit\<close> is swallowed. Any other exception passes through.\<close>

definition upload_3mf :: "bambu_env \<Rightarrow> string \<Rightarrow> effect list \<times> call_end" where
  "upload_3mf env remote =
     (if remote = [] \<or> basename remote \<noteq> remote then ([], Call_upload_error)
      else (case first_failure (be_ftp env) transfer_calls of
          Call_ok \<Rightarrow> ([Uploaded remote], if be_ftp env Ftp_quit = Call_other_error then Call_other_error else Call_ok)
        | failure \<Rightarrow> ([], failure)))"

datatype print_end = Print_started | Print_refused string | Print_raised

definition start_print :: "bambu_env \<Rightarrow> string \<Rightarrow> int \<Rightarrow> bool \<Rightarrow> pyval \<Rightarrow> string \<Rightarrow> bambu \<Rightarrow> print_end \<times> effect list \<times> bambu" where
  "start_print env file plate use_ams mapping queue_id b =
     (if \<not> ba_client b \<or> \<not> be_connected env then (Print_refused ''not_connected'', [], b)
      else (let (ups, end) = upload_3mf env file in
        (case end of
           Call_upload_error \<Rightarrow> (Print_refused ''upload_failed'', ups, b)
         | Call_other_error \<Rightarrow> (Print_raised, ups, b)
         | Call_ok \<Rightarrow>
            (let payload = build_print_start_payload file plate use_ams mapping (be_seq env);
                 pub = Published (request_topic b) payload in
             (case be_publish env of
                Publish_raised \<Rightarrow> (Print_refused ''start_command_failed'', ups, b)
              | Publish_rc \<Rightarrow> (Print_refused ''start_command_failed'', ups @ [pub], b)
              | Publish_ok \<Rightarrow> (Print_started, ups @ [pub],
                  if queue_id = [] then b
                  else b\<lparr>ba_queue := record_dispatch queue_id (tr_pending (ba_jobs b)) (be_now env) (ba_queue b)\<rparr>))))))"

definition positive_num :: "pyval \<Rightarrow> real option" where
  "positive_num v = (case v of
      PInt i \<Rightarrow> if 0 < i then Some (of_int i) else None
    | PFloat r \<Rightarrow> if 0 < r then Some r else None
    | _ \<Rightarrow> None)"

definition dry_payload :: "string \<Rightarrow> (string \<times> pyval) list \<Rightarrow> pyval option" where
  "dry_payload seq p = (case (pget p ''amsId'', positive_num (pget p ''temp''), positive_num (pget p ''durationHours'')) of
      (PInt ams, Some temp, Some duration) \<Rightarrow>
        if 0 \<le> ams then Some (PDict [(''print'', PDict
          [(''sequence_id'', PStr seq), (''command'', PStr ''ams_filament_drying''), (''ams_id'', PInt ams), (''mode'', PInt 1),
           (''temp'', PInt (trunc_real temp)), (''cooling_temp'', PInt 0), (''duration'', PInt (trunc_real duration)),
           (''humidity'', PInt 0), (''rotate_tray'', PBool False), (''filament'', PStr []), (''close_power_conflict'', PBool False)])])
        else None
    | _ \<Rightarrow> None)"

fun object_ids :: "pyval list \<Rightarrow> int list option" where
  "object_ids [] = Some []"
| "object_ids (PInt i # vs) = (if i < 0 then None else map_option (\<lambda>is. i # is) (object_ids vs))"
| "object_ids (_ # vs) = None"

fun dict_fromkeys :: "int list \<Rightarrow> int list \<Rightarrow> int list" where
  "dict_fromkeys [] acc = acc"
| "dict_fromkeys (i # is) acc = dict_fromkeys is (if i \<in> set acc then acc else acc @ [i])"

definition skip_payload :: "string \<Rightarrow> pyval \<Rightarrow> pyval option" where
  "skip_payload seq v = (case v of
      PList vs \<Rightarrow> if vs = [] \<or> 64 < length vs then None
        else (case object_ids vs of
            None \<Rightarrow> None
          | Some is \<Rightarrow> Some (PDict [(''print'', PDict [(''sequence_id'', PStr seq), (''command'', PStr ''skip_objects''),
              (''obj_list'', PList (map PInt (dict_fromkeys is [])))])]))
    | _ \<Rightarrow> None)"

definition command_payload :: "string \<Rightarrow> string \<Rightarrow> (string \<times> pyval) list \<Rightarrow> string + pyval" where
  "command_payload seq command params =
     (if command = ''ams_dry'' then (case dry_payload seq params of None \<Rightarrow> Inl ''invalid_dry_params'' | Some p \<Rightarrow> Inr p)
      else if command = ''skip_objects''
      then (case skip_payload seq (pget params ''objList'') of None \<Rightarrow> Inl ''invalid_skip_params'' | Some p \<Rightarrow> Inr p)
      else Inr (PDict [(''print'', PDict [(''sequence_id'', PStr seq), (''command'', PStr command), (''param'', PStr [])])]))"

definition bambu_send :: "bambu_env \<Rightarrow> string \<Rightarrow> (string \<times> pyval) list \<Rightarrow> bambu \<Rightarrow> outcome \<times> effect list" where
  "bambu_send env command params b =
     (if command \<notin> set [''pause'', ''resume'', ''stop'', ''ams_dry'', ''skip_objects''] then (Some ''unsupported_command'', [])
      else if \<not> ba_client b \<or> \<not> be_connected env then (Some ''not_connected'', [])
      else (case command_payload (be_seq env) command params of
          Inl reason \<Rightarrow> (Some reason, [])
        | Inr payload \<Rightarrow> (case be_publish env of
              Publish_raised \<Rightarrow> (Some ''command_failed'', [])
            | Publish_rc \<Rightarrow> (Some ''command_failed'', [Published (request_topic b) payload])
            | Publish_ok \<Rightarrow> (None, [Published (request_topic b) payload]))))"

definition bambu_collect :: "real \<Rightarrow> bambu \<Rightarrow> queue_report list \<times> bambu" where
  "bambu_collect now b = (let (reports, q) = collect (tr_pending (ba_jobs b))
       (pget (as_dict (pget (ba_data b) ''print'')) ''gcode_state'') now (ba_queue b)
     in (reports, b\<lparr>ba_queue := q\<rparr>))"

definition bambu_ack :: "string list \<Rightarrow> bambu \<Rightarrow> bambu" where
  "bambu_ack ks b = b\<lparr>ba_jobs := ack ks (ba_jobs b)\<rparr>"

section \<open>The print command is understood at the other end\<close>

lemma search_plate_skip: "list_all (\<lambda>c. c \<noteq> CHR ''p'') xs \<Longrightarrow> search_plate (xs @ ys) = search_plate ys"
proof (induction xs)
  case (Cons x xs)
  then have "\<not> startswith ''plate_'' (x # xs @ ys)" by (simp add: startswith_def)
  with Cons show ?case by (simp add: Let_def)
qed simp

lemma take_digits: "list_all is_digit ds \<Longrightarrow> \<not> is_digit c \<Longrightarrow> takeWhile is_digit (ds @ c # cs) = ds"
  by (induction ds) auto

lemma search_plate_param: "0 \<le> plate \<Longrightarrow> search_plate (plate_param plate) = Some (int_str plate)"
proof -
  assume "0 \<le> plate"
  then have i: "int_str plate = nat_str (nat plate)" by (simp add: int_str_def)
  have d: "list_all is_digit (nat_str (nat plate))" "nat_str (nat plate) \<noteq> []" using nat_str_digits by auto
  have "takeWhile is_digit (drop 6 (''plate_'' @ nat_str (nat plate) @ ''.gcode'')) = nat_str (nat plate)"
    using take_digits [OF d(1), of "CHR ''.''" "''gcode''"] by (simp add: is_digit_def)
  then have here: "search_plate (''plate_'' @ nat_str (nat plate) @ ''.gcode'') = Some (nat_str (nat plate))"
    using d(2) by (simp add: startswith_def)
  have "''Metadata/plate_'' @ nat_str (nat plate) @ ''.gcode'' = ''Metadata/'' @ (''plate_'' @ nat_str (nat plate) @ ''.gcode'')"
    by simp
  then show ?thesis
    unfolding plate_param_def i using here search_plate_skip [of "''Metadata/''" "''plate_'' @ nat_str (nat plate) @ ''.gcode''"] by simp
qed

lemma optional_int_str: "0 \<le> i \<Longrightarrow> optional_int (PStr (int_str i)) = Some i"
proof -
  assume "0 \<le> i"
  then have "int_str i \<noteq> []" using nat_str_digits [of "nat i"] by (simp add: int_str_def)
  with \<open>0 \<le> i\<close> show ?thesis by (simp add: optional_int_def)
qed

definition plain_3mf :: "string \<Rightarrow> bool" where
  "plain_3mf file \<longleftrightarrow> endswith ''.3mf'' file \<and> CHR ''/'' \<notin> set file \<and> strip file = file"

lemma plain_3mf_name: "plain_3mf file \<Longrightarrow> path_name file = file \<and> file \<noteq> []"
  by (auto simp: plain_3mf_def path_name_def split_on_simple endswith_def)

lemma start_fields_get:
  "pget (start_fields file plate use_ams mapping seq) ''command'' = PStr ''project_file''"
  "pget (start_fields file plate use_ams mapping seq) ''plate'' = PNone"
  "pget (start_fields file plate use_ams mapping seq) ''param'' = PStr (plate_param plate)"
  "pget (start_fields file plate use_ams mapping seq) ''file'' = PStr file"
  "pget (start_fields file plate use_ams mapping seq) ''md5'' = PStr []"
  "pget (start_fields file plate use_ams mapping seq) ''use_ams'' = PBool use_ams"
  "pget (start_fields file plate use_ams mapping seq) ''ams_mapping'' = PList (map PInt (coerce_ams_mapping mapping))"
  "pget (start_fields file plate use_ams mapping seq) ''ams_mapping2'' = PNone"
  by (simp_all add: start_fields_def pget_def get_or_def)

text \<open>
  C19: The two ends of the program speak the same language. The print command the Bambu adapter builds
  for a plain 3MF file name and a plate number, read by the parser of the virtual printer, is a print
  intent for exactly that file, that plate, that use of the filament system and that slot mapping.
\<close>
theorem start_payload_roundtrip:
  assumes "plain_3mf file" "0 \<le> plate"
  shows "\<exists>intent. parse_project_file_command (build_print_start_payload file plate use_ams mapping seq) member = Some intent \<and>
    pi_member intent = member \<and> pi_filename intent = file \<and> pi_plate intent = Some plate \<and> pi_use_ams intent = use_ams \<and>
    ams_mapping_list (pi_ams_mapping intent) = map PInt (coerce_ams_mapping mapping) \<and> pi_md5 intent = None"
proof -
  let ?f = "start_fields file plate use_ams mapping seq"
  have name: "filename_from_project_file ?f = file"
    using assms(1) plain_3mf_name [OF assms(1)]
    by (simp add: filename_from_project_file_def start_fields_get plain_3mf_def)
  have none: "optional_int PNone = None" by (simp add: optional_int_def)
  have plate: "resolve_plate ?f = Some plate"
    using assms(2) none by (simp add: resolve_plate_def start_fields_get search_plate_param optional_int_str)
  have strip: "strip [] = []" by (simp add: strip_def lstrip_by_def rstrip_by_def)
  have print: "pget [(''print'', PDict ?f)] ''print'' = PDict ?f" by (simp add: pget_def get_or_def)
  show ?thesis
    unfolding build_print_start_payload_def parse_project_file_command_def
    by (simp add: print start_fields_get name plate strip boolish_def ams_mapping_list_def)
qed

lemma start_payload_roundtrip_witness:
  "\<exists>intent. parse_project_file_command (build_print_start_payload ''cube.3mf'' 2 True (PStr ''1, 0'') ''s'') ''m'' = Some intent \<and>
    pi_filename intent = ''cube.3mf'' \<and> pi_plate intent = Some 2 \<and> ams_mapping_list (pi_ams_mapping intent) = [PInt 1, PInt 0]"
proof -
  have "plain_3mf ''cube.3mf''" by code_simp
  moreover have "coerce_ams_mapping (PStr ''1, 0'') = [1, 0]" by code_simp
  ultimately show ?thesis
    using start_payload_roundtrip [of "''cube.3mf''" 2 True "PStr ''1, 0''" "''s''" "''m''"] by auto
qed

section \<open>A print is started only after its file arrived\<close>

lemma first_failure_ok: "first_failure f cs = Call_ok \<longleftrightarrow> (\<forall>c\<in>set cs. f c = Call_ok)"
  by (induction cs) auto

lemma first_failure_raised: "first_failure f cs = Call_other_error \<Longrightarrow> \<exists>c\<in>set cs. f c = Call_other_error"
  by (induction cs) (auto split: if_splits)

text \<open>
  C18: Starting a print. The start command is published only to the printer's own request topic and only
  after the very file it names, a root-level name, has been uploaded: every call of the FTPS session up to
  the transfer succeeded and closing it raised nothing unforeseen. Success is reported exactly when
  upload and publish both succeeded, and exactly then the queue job is recorded for correlation, with
  the terminal jobs pending at that moment as its baseline. On every other path the adapter is unchanged,
  and a reason is given, unless a call of the FTPS session raised an exception outside \<open>_UPLOAD_ERRORS\<close>,
  which leaves the operation.
\<close>
theorem print_started_after_upload:
  assumes "start_print env file plate use_ams mapping queue_id b = (result, effects, b')"
  shows "let cmd = Published (request_topic b) (build_print_start_payload file plate use_ams mapping (be_seq env));
             arrived = ba_client b \<and> be_connected env \<and> file \<noteq> [] \<and> basename file = file \<and>
               (\<forall>c\<in>set transfer_calls. be_ftp env c = Call_ok);
             sent = arrived \<and> be_ftp env Ftp_quit \<noteq> Call_other_error in
    effects = (if \<not> arrived then [] else if \<not> sent \<or> be_publish env = Publish_raised then [Uploaded file]
      else [Uploaded file, cmd]) \<and>
    (result = Print_started \<longleftrightarrow> sent \<and> be_publish env = Publish_ok) \<and>
    (result = Print_raised \<longrightarrow> (\<exists>call. be_ftp env call = Call_other_error)) \<and>
    b' = (if result = Print_started \<and> queue_id \<noteq> []
      then b\<lparr>ba_queue := record_dispatch queue_id (tr_pending (ba_jobs b)) (be_now env) (ba_queue b)\<rparr> else b)"
proof (cases "\<not> ba_client b \<or> \<not> be_connected env \<or> file = [] \<or> basename file \<noteq> file")
  case True
  then show ?thesis using assms by (auto simp: start_print_def upload_3mf_def Let_def split: if_splits)
next
  case ready: False
  note ok = first_failure_ok [of "be_ftp env" transfer_calls]
  show ?thesis
  proof (cases "first_failure (be_ftp env) transfer_calls")
    case Call_ok
    with ready ok assms show ?thesis
      by (cases "be_publish env") (auto simp: start_print_def upload_3mf_def Let_def split: if_splits)
  next
    case Call_upload_error
    then have "\<not> (\<forall>c\<in>set transfer_calls. be_ftp env c = Call_ok)" using ok by simp
    with Call_upload_error ready assms show ?thesis
      by (auto simp: start_print_def upload_3mf_def Let_def)
  next
    case Call_other_error
    then have "\<not> (\<forall>c\<in>set transfer_calls. be_ftp env c = Call_ok)" using ok by simp
    with Call_other_error ready assms first_failure_raised [OF Call_other_error] show ?thesis
      by (auto simp: start_print_def upload_3mf_def Let_def)
  qed
qed

definition sample_b_env :: bambu_env where
  "sample_b_env = \<lparr>be_connected = True, be_ftp = (\<lambda>c. if c = Ftp_quit then Call_upload_error else Call_ok),
     be_publish = Publish_ok, be_seq = ''s'', be_now = 0\<rparr>"

definition sample_bambu :: bambu where
  "sample_bambu = start_bambu 0 (new_bambu ''p'' ''h'' ''S'' '' c '')"

lemma print_started_after_upload_witness:
  "let (result, effects, b') = start_print sample_b_env ''a.3mf'' 1 False PNone ''q'' sample_bambu in
   result = Print_started \<and> effects = [Uploaded ''a.3mf'', Published (request_topic sample_bambu)
      (build_print_start_payload ''a.3mf'' 1 False PNone ''s'')] \<and>
   map dp_queue_id (qp_dispatches (ba_queue b')) = [''q'']"
proof -
  obtain result effects b' where r: "start_print sample_b_env ''a.3mf'' 1 False PNone ''q'' sample_bambu = (result, effects, b')"
    by (rule prod_cases3)
  have "basename ''a.3mf'' = ''a.3mf''" by code_simp
  with print_started_after_upload [OF r] r show ?thesis
    by (simp add: Let_def transfer_calls_def sample_b_env_def sample_bambu_def start_bambu_def new_bambu_def record_dispatch_def new_progress_def)
qed

section \<open>Control commands\<close>

lemma object_ids_nonneg: "object_ids vs = Some is \<Longrightarrow> vs = map PInt is \<and> (\<forall>i \<in> set is. 0 \<le> i)"
  by (induction vs arbitrary: "is" rule: object_ids.induct) (auto split: if_splits)

lemma dict_fromkeys_spec: "distinct acc \<Longrightarrow>
    distinct (dict_fromkeys is acc) \<and> set (dict_fromkeys is acc) = set is \<union> set acc \<and> length (dict_fromkeys is acc) \<le> length is + length acc"
  by (induction "is" acc rule: dict_fromkeys.induct) auto

definition legal_command :: "string \<Rightarrow> (string \<times> pyval) list \<Rightarrow> (string \<times> pyval) list \<Rightarrow> bool" where
  "legal_command command params p \<longleftrightarrow>
     (if command = ''ams_dry'' then pget p ''command'' = PStr ''ams_filament_drying'' \<and> pget p ''mode'' = PInt 1 \<and>
        (\<exists>a. 0 \<le> a \<and> pget p ''ams_id'' = PInt a \<and> pget params ''amsId'' = PInt a) \<and>
        (\<exists>t d. 0 \<le> t \<and> 0 \<le> d \<and> pget p ''temp'' = PInt t \<and> pget p ''duration'' = PInt d)
      else if command = ''skip_objects'' then pget p ''command'' = PStr ''skip_objects'' \<and>
        (\<exists>ids is. pget p ''obj_list'' = PList (map PInt ids) \<and> pget params ''objList'' = PList (map PInt is) \<and>
           distinct ids \<and> set ids = set is \<and> (\<forall>i \<in> set ids. 0 \<le> i) \<and> ids \<noteq> [] \<and> length ids \<le> 64)
      else command \<in> {''pause'', ''resume'', ''stop''} \<and> pget p ''command'' = PStr command \<and> pget p ''param'' = PStr [])"

lemma positive_num_pos: "positive_num v = Some r \<Longrightarrow> 0 < r"
  by (auto simp: positive_num_def split: pyval.splits if_splits)

lemma trunc_nonneg: "0 < r \<Longrightarrow> 0 \<le> trunc_real r"
  by (simp add: trunc_real_def)

lemma dry_payload_legal:
  assumes "dry_payload seq params = Some v"
  shows "\<exists>p. v = PDict [(''print'', PDict p)] \<and> legal_command ''ams_dry'' params p"
proof -
  obtain ams temp duration where m: "pget params ''amsId'' = PInt ams" "0 \<le> ams"
      "positive_num (pget params ''temp'') = Some temp" "positive_num (pget params ''durationHours'') = Some duration"
    and v: "v = PDict [(''print'', PDict
          [(''sequence_id'', PStr seq), (''command'', PStr ''ams_filament_drying''), (''ams_id'', PInt ams), (''mode'', PInt 1),
           (''temp'', PInt (trunc_real temp)), (''cooling_temp'', PInt 0), (''duration'', PInt (trunc_real duration)),
           (''humidity'', PInt 0), (''rotate_tray'', PBool False), (''filament'', PStr []), (''close_power_conflict'', PBool False)])]"
    using assms by (auto simp: dry_payload_def split: pyval.splits option.splits if_splits)
  let ?p = "[(''sequence_id'', PStr seq), (''command'', PStr ''ams_filament_drying''), (''ams_id'', PInt ams), (''mode'', PInt 1),
           (''temp'', PInt (trunc_real temp)), (''cooling_temp'', PInt 0), (''duration'', PInt (trunc_real duration)),
           (''humidity'', PInt 0), (''rotate_tray'', PBool False), (''filament'', PStr []), (''close_power_conflict'', PBool False)]"
  have "0 \<le> trunc_real temp" "0 \<le> trunc_real duration"
    using m by (simp_all add: positive_num_pos trunc_nonneg)
  then have "legal_command ''ams_dry'' params ?p"
    using m by (simp add: legal_command_def pget_def get_or_def)
  with v show ?thesis by blast
qed

lemma skip_payload_legal:
  assumes "skip_payload seq (pget params ''objList'') = Some v"
  shows "\<exists>p. v = PDict [(''print'', PDict p)] \<and> legal_command ''skip_objects'' params p"
proof -
  obtain vs "is" where vs: "pget params ''objList'' = PList vs" "vs \<noteq> []" "length vs \<le> 64" "object_ids vs = Some is"
    and v: "v = PDict [(''print'', PDict [(''sequence_id'', PStr seq), (''command'', PStr ''skip_objects''),
              (''obj_list'', PList (map PInt (dict_fromkeys is [])))])]"
    using assms by (auto simp: skip_payload_def split: pyval.splits option.splits if_splits)
  note ids = object_ids_nonneg [OF vs(4)] and df = dict_fromkeys_spec [of "[]" "is"]
  have "dict_fromkeys is [] \<noteq> []" using df ids vs(2) by (cases "is") auto
  moreover have "length (dict_fromkeys is []) \<le> 64" using df ids vs(3) by simp
  ultimately show ?thesis
    using ids df vs(1) unfolding v by (auto simp: legal_command_def pget_def get_or_def)
qed

lemma command_payload_legal:
  assumes "command_payload seq command params = Inr v" "command \<in> set [''pause'', ''resume'', ''stop'', ''ams_dry'', ''skip_objects'']"
  shows "\<exists>p. v = PDict [(''print'', PDict p)] \<and> legal_command command params p"
proof -
  consider "command = ''ams_dry''" | "command = ''skip_objects''" | "command \<in> {''pause'', ''resume'', ''stop''}"
    using assms(2) by auto
  then show ?thesis
  proof cases
    case 1
    with assms(1) show ?thesis
      by (simp add: command_payload_def split: option.splits) (rule dry_payload_legal)
  next
    case 2
    with assms(1) show ?thesis
      by (simp add: command_payload_def split: option.splits) (rule skip_payload_legal)
  next
    case 3
    then have "command \<noteq> ''ams_dry''" "command \<noteq> ''skip_objects''" by auto
    moreover from this assms(1)
    have "v = PDict [(''print'', PDict [(''sequence_id'', PStr seq), (''command'', PStr command), (''param'', PStr [])])]"
      by (simp add: command_payload_def)
    ultimately show ?thesis using 3 by (simp add: legal_command_def pget_def get_or_def)
  qed
qed

text \<open>
  Control commands. Nothing is published unless the adapter has a connected client and the command is
  one of the five allowed; then at most one message is published, to the printer's own request topic, and
  it is the well-formed message of that command: drying names a nonnegative unit and nonnegative values,
  skipping names between one and 64 distinct nonnegative objects, exactly those asked for. Success is
  reported exactly when the message was accepted by the client.
\<close>
theorem bambu_command_allowlisted:
  assumes "bambu_send env command params b = (refusal, effects)"
  shows "(effects = [] \<or> (\<exists>p. effects = [Published (request_topic b) (PDict [(''print'', PDict p)])] \<and>
           legal_command command params p \<and> ba_client b \<and> be_connected env)) \<and>
    (refusal = None \<longleftrightarrow> effects \<noteq> [] \<and> be_publish env = Publish_ok)"
proof (cases "command \<in> set [''pause'', ''resume'', ''stop'', ''ams_dry'', ''skip_objects''] \<and> ba_client b \<and> be_connected env")
  case False
  with assms show ?thesis by (auto simp: bambu_send_def split: if_splits)
next
  case True
  show ?thesis
  proof (cases "command_payload (be_seq env) command params")
    case (Inl reason)
    with True assms show ?thesis by (auto simp: bambu_send_def)
  next
    case (Inr v)
    have "\<exists>p. v = PDict [(''print'', PDict p)] \<and> legal_command command params p"
      using Inr True by (intro command_payload_legal) auto
    with True Inr assms show ?thesis
      by (auto simp: bambu_send_def split: publish_outcome.splits)
  qed
qed

lemma bambu_command_allowlisted_witness:
  "let (refusal, effects) = bambu_send sample_b_env ''skip_objects'' [(''objList'', PList [PInt 4, PInt 4, PInt 7])] sample_bambu in
   refusal = None \<and> effects \<noteq> [] \<and>
   (\<exists>p. effects = [Published (request_topic sample_bambu) (PDict [(''print'', PDict p)])] \<and>
      legal_command ''skip_objects'' [(''objList'', PList [PInt 4, PInt 4, PInt 7])] p)"
proof -
  let ?ps = "[(''objList'', PList [PInt 4, PInt 4, PInt 7])]"
  obtain refusal effects where r: "bambu_send sample_b_env ''skip_objects'' ?ps sample_bambu = (refusal, effects)"
    by (rule prod.exhaust)
  then have "refusal = None"
    by (simp add: bambu_send_def sample_bambu_def sample_b_env_def start_bambu_def command_payload_def skip_payload_def pget_def get_or_def)
  with bambu_command_allowlisted [OF r] r show ?thesis by auto
qed

text \<open>The drying time must be positive, but it is truncated afterwards: half an hour becomes no time at all.\<close>

lemma short_drying_is_no_drying:
  "let (refusal, effects) = bambu_send sample_b_env ''ams_dry''
     [(''amsId'', PInt 0), (''temp'', PInt 55), (''durationHours'', PFloat (1/2))] sample_bambu in
   refusal = None \<and> (\<exists>p. effects = [Published (request_topic sample_bambu) (PDict [(''print'', PDict p)])] \<and> pget p ''duration'' = PInt 0)"
  by (simp add: bambu_send_def sample_bambu_def sample_b_env_def start_bambu_def command_payload_def dry_payload_def
      positive_num_def trunc_real_def pget_def get_or_def)

section \<open>The skippable objects of a plate\<close>

lemma dedupe_objects_spec: "distinct (map fst (dedupe_objects os seen)) \<and> set (map fst (dedupe_objects os seen)) \<inter> set seen = {} \<and>
    set (dedupe_objects os seen) \<subseteq> set os"
  by (induction os seen rule: dedupe_objects.induct) auto

lemma find_plate_spec:
  "find_plate plates plate = [] \<or> (2 \<le> length (find_plate plates plate) \<and> length (find_plate plates plate) \<le> 64 \<and>
     distinct (map fst (find_plate plates plate)) \<and>
     (\<exists>cs \<in> set plates. pl_index (read_plate cs) = Some plate \<and> pl_label (read_plate cs) \<and>
        set (find_plate plates plate) \<subseteq> set (pl_objects (read_plate cs))))"
proof (induction plates)
  case (Cons cs plates)
  then show ?case
    using dedupe_objects_spec [of "pl_objects (read_plate cs)" "[]"] by (auto simp: Let_def)
qed simp

text \<open>
  The object list offered for skipping is empty, or it has between 2 and 64 objects with distinct
  identifiers, all of them listed in a plate element of that number with labelling on.
\<close>
theorem plate_objects_usable:
  "let os = parse_plate_objects doc plate in
   os = [] \<or> (2 \<le> length os \<and> length os \<le> 64 \<and> distinct (map fst os) \<and>
     (\<exists>plates cs. doc = Some plates \<and> cs \<in> set plates \<and> pl_index (read_plate cs) = Some plate \<and>
        pl_label (read_plate cs) \<and> set os \<subseteq> set (pl_objects (read_plate cs))))"
  using find_plate_spec [of "case doc of None \<Rightarrow> [] | Some ps \<Rightarrow> ps" plate]
  by (auto simp: parse_plate_objects_def Let_def split: option.splits)

end
