(* ===== verification/Manager.thy ===== *)
theory Manager
  imports Jobs "HOL-Library.Multiset"
begin

text \<open>
  The printer manager, \<open>makeros_hub/printers/manager.py\<close>: reconciling the running adapters with the
  printers of the configuration, gathering statuses and terminal jobs, acknowledging, and dispatching
  queue assignments and control commands. An adapter is what the manager sees of it: whether it can
  start prints (only the Bambu adapter has \<open>start_print\<close>), its connection state (\<open>None\<close>: reading it
  raises) and its buffer of terminal jobs (\<open>None\<close>: reading it raises). Starting an adapter and sending to a printer are parameters; every send
  is logged.
\<close>

type_synonym config = "(string \<times> pyval) list"

record adapter =
  ad_can_print :: bool
  ad_state :: "string option"
  ad_jobs :: "job_record list option"

record mstatus =
  ms_printer :: string
  ms_connection :: string
  ms_reason :: "string option"

text \<open>The facts the camera capture gets: both switches are on only for the value \<open>True\<close>.\<close>

record camera_meta =
  cam_printer :: string
  cam_vendor :: pyval
  cam_model :: pyval
  cam_host :: pyval
  cam_code :: pyval
  cam_moonraker :: pyval
  cam_snapshot :: pyval
  cam_enabled :: bool
  cam_failure_watch :: bool
  cam_sensitivity :: string

definition camera_meta_of :: "string \<Rightarrow> config \<Rightarrow> camera_meta" where
  "camera_meta_of pid p = \<lparr>cam_printer = pid, cam_vendor = pget p ''vendor'', cam_model = pget p ''model'',
     cam_host = pget p ''host'', cam_code = pget p ''accessCode'', cam_moonraker = pget p ''moonrakerUrl'',
     cam_snapshot = pget p ''cameraSnapshotUrl'',
     cam_enabled = (pget p ''cameraEnabled'' = PBool True),
     cam_failure_watch = (pget p ''aiFailureWatchEnabled'' = PBool True),
     cam_sensitivity = (case pget p ''aiFailureSensitivity'' of
        PStr s \<Rightarrow> if s \<in> {''low'', ''medium'', ''high''} then s else ''medium'' | _ \<Rightarrow> ''medium'')\<rparr>"

record manager =
  mg_adapters :: "(string, adapter) odict"
  mg_fingerprints :: "(string, pyval list) odict"
  mg_retry_at :: "(string, real) odict"
  mg_static :: "(string, mstatus) odict"
  mg_orphans :: "job_record list"
  mg_queue_jobs :: "(string, real) odict"
  mg_commands :: "(string, real) odict"
  mg_camera :: "(string, camera_meta) odict"

definition new_manager :: manager where
  "new_manager = \<lparr>mg_adapters = [], mg_fingerprints = [], mg_retry_at = [], mg_static = [], mg_orphans = [],
     mg_queue_jobs = [], mg_commands = [], mg_camera = []\<rparr>"

definition MAX_DISPATCHED_QUEUE_JOBS :: nat where
  "MAX_DISPATCHED_QUEUE_JOBS = 1000"

definition MAX_DISPATCHED_COMMANDS :: nat where
  "MAX_DISPATCHED_COMMANDS = 1000"

definition STUCK_ADAPTER_RETRY_S :: real where
  "STUCK_ADAPTER_RETRY_S = 120"

text \<open>How an attempt to build and start an adapter ends: a running adapter with its first connection
  state and an empty job buffer, a missing module, or an exception.\<close>

datatype start = Started "string option" | Missing_module | Start_raised

section \<open>Reconciliation\<close>

definition fingerprint_of :: "config \<Rightarrow> pyval list" where
  "fingerprint_of p = [pget p ''vendor'', pget p ''host'', pget p ''serial'', pget p ''accessCode'']"

definition printer_id_of :: "config \<Rightarrow> string option" where
  "printer_id_of p = (case pget p ''id'' of PStr s \<Rightarrow> Some s | _ \<Rightarrow> None)"

definition camera_metas :: "config list \<Rightarrow> (string, camera_meta) odict" where
  "camera_metas printers = fold (\<lambda>p d. case printer_id_of p of
      None \<Rightarrow> d | Some pid \<Rightarrow> AList.update pid (camera_meta_of pid p) d) printers []"

definition static_error :: "string \<Rightarrow> string \<Rightarrow> manager \<Rightarrow> manager" where
  "static_error pid reason m = m\<lparr>mg_static := AList.update pid
     \<lparr>ms_printer = pid, ms_connection = ''error'', ms_reason = Some reason\<rparr> (mg_static m)\<rparr>"

definition stop_adapter :: "string \<Rightarrow> manager \<Rightarrow> manager" where
  "stop_adapter pid m =
     (let m1 = m\<lparr>mg_adapters := AList.delete pid (mg_adapters m), mg_fingerprints := AList.delete pid (mg_fingerprints m),
                 mg_retry_at := AList.delete pid (mg_retry_at m)\<rparr>
      in case map_of (mg_adapters m) pid of
          None \<Rightarrow> m1
        | Some a \<Rightarrow> (case ad_jobs a of None \<Rightarrow> m1 | Some js \<Rightarrow> m1\<lparr>mg_orphans := mg_orphans m1 @ js\<rparr>))"

definition stuck_needs_retry :: "real \<Rightarrow> string \<Rightarrow> manager \<Rightarrow> bool" where
  "stuck_needs_retry now pid m = (case map_of (mg_adapters m) pid of
      None \<Rightarrow> True
    | Some a \<Rightarrow> ad_state a = Some ''error'' \<and> get_or (mg_retry_at m) pid 0 \<le> now)"

definition install :: "string option \<Rightarrow> bool \<Rightarrow> string \<Rightarrow> pyval list \<Rightarrow> manager \<Rightarrow> manager" where
  "install st prints pid fp m = m\<lparr>mg_adapters := AList.update pid \<lparr>ad_can_print = prints, ad_state = st, ad_jobs = Some []\<rparr> (mg_adapters m),
     mg_fingerprints := AList.update pid fp (mg_fingerprints m)\<rparr>"

definition drop_static :: "string \<Rightarrow> manager \<Rightarrow> manager" where
  "drop_static pid m = m\<lparr>mg_static := AList.delete pid (mg_static m)\<rparr>"

definition build_adapter :: "(pyval list \<Rightarrow> start) \<Rightarrow> bool \<Rightarrow> string \<Rightarrow> string \<Rightarrow> pyval list \<Rightarrow> manager \<Rightarrow> bool \<times> manager" where
  "build_adapter start prints missing pid fp m = (case start fp of
      Missing_module \<Rightarrow> (False, static_error pid missing m)
    | Start_raised \<Rightarrow> (False, static_error pid ''agent_start_failed'' m)
    | Started st \<Rightarrow> (True, install st prints pid fp m))"

definition reconcile_klipper :: "(pyval list \<Rightarrow> start) \<Rightarrow> string \<Rightarrow> config \<Rightarrow> manager \<Rightarrow> manager" where
  "reconcile_klipper start pid p m =
     (let url = pget p ''moonrakerUrl''; fp = [PStr ''klipper'', url]
      in if \<not> truthy url then static_error pid ''incomplete_config'' (stop_adapter pid m)
         else if map_of (mg_fingerprints m) pid = Some fp \<and> map_of (mg_adapters m) pid \<noteq> None
         then drop_static pid m
         else snd (build_adapter start False ''agent_klipper_module_missing'' pid fp (stop_adapter pid (drop_static pid m))))"

definition reconcile_bambu :: "(pyval list \<Rightarrow> start) \<Rightarrow> real \<Rightarrow> string \<Rightarrow> config \<Rightarrow> manager \<Rightarrow> manager" where
  "reconcile_bambu start now pid p m =
     (let fp = fingerprint_of p
      in if \<not> (truthy (pget p ''host'') \<and> truthy (pget p ''serial'') \<and> truthy (pget p ''accessCode''))
         then static_error pid ''incomplete_config'' (stop_adapter pid m)
         else if map_of (mg_fingerprints m) pid = Some fp \<and> map_of (mg_adapters m) pid \<noteq> None \<and> \<not> stuck_needs_retry now pid m
         then drop_static pid m
         else (let (ok, m') = build_adapter start True ''agent_missing_paho'' pid fp (stop_adapter pid (drop_static pid m))
               in if ok then m'\<lparr>mg_retry_at := AList.update pid (now + STUCK_ADAPTER_RETRY_S) (mg_retry_at m')\<rparr> else m'))"

definition reconcile_one :: "(pyval list \<Rightarrow> start) \<Rightarrow> (pyval \<Rightarrow> string) \<Rightarrow> real \<Rightarrow> config \<Rightarrow> manager \<Rightarrow> manager" where
  "reconcile_one start rep now p m = (case printer_id_of p of
      None \<Rightarrow> m
    | Some pid \<Rightarrow>
        if pget p ''vendor'' = PStr ''bambu'' then reconcile_bambu start now pid p m
        else if pget p ''vendor'' = PStr ''klipper'' then reconcile_klipper start pid p m
        else static_error pid (py_str rep (pget p ''vendor'') @ ''_not_supported_yet'') m)"

definition drop_undesired :: "string set \<Rightarrow> manager \<Rightarrow> manager" where
  "drop_undesired desired m =
     (let m1 = fold stop_adapter (filter (\<lambda>pid. pid \<notin> desired) (keys (mg_adapters m))) m
      in m1\<lparr>mg_static := filter (\<lambda>(pid, _). pid \<in> desired) (mg_static m1)\<rparr>)"

definition desired_ids :: "config list \<Rightarrow> string set" where
  "desired_ids printers = set (List.map_filter printer_id_of printers)"

definition reconcile :: "(pyval list \<Rightarrow> start) \<Rightarrow> (pyval \<Rightarrow> string) \<Rightarrow> real \<Rightarrow> config list \<Rightarrow> manager \<Rightarrow> manager" where
  "reconcile start rep now printers m =
     fold (reconcile_one start rep now) printers
       (drop_undesired (desired_ids printers) (m\<lparr>mg_camera := camera_metas printers\<rparr>))"

section \<open>Statuses and jobs\<close>

definition adapter_status :: "string \<times> adapter \<Rightarrow> mstatus" where
  "adapter_status = (\<lambda>(pid, a). case ad_state a of
      Some st \<Rightarrow> \<lparr>ms_printer = pid, ms_connection = st, ms_reason = None\<rparr>
    | None \<Rightarrow> \<lparr>ms_printer = pid, ms_connection = ''error'', ms_reason = Some ''agent_status_error''\<rparr>)"

definition statuses :: "manager \<Rightarrow> mstatus list" where
  "statuses m = map adapter_status (mg_adapters m) @ dict_values (mg_static m)"

definition adapter_jobs :: "adapter \<Rightarrow> job_record list" where
  "adapter_jobs a = (case ad_jobs a of None \<Rightarrow> [] | Some js \<Rightarrow> js)"

definition pending_jobs :: "manager \<Rightarrow> job_record list" where
  "pending_jobs m = mg_orphans m @ concat (map (\<lambda>(_, a). adapter_jobs a) (mg_adapters m))"

definition ack_jobs :: "string list \<Rightarrow> manager \<Rightarrow> manager" where
  "ack_jobs ks m = (if ks = [] then m else m\<lparr>
     mg_orphans := filter (\<lambda>j. jr_key j \<notin> set ks) (mg_orphans m),
     mg_adapters := map (\<lambda>(pid, a). (pid, a\<lparr>ad_jobs := map_option (filter (\<lambda>j. jr_key j \<notin> set ks)) (ad_jobs a)\<rparr>)) (mg_adapters m)\<rparr>)"

definition camera_targets :: "manager \<Rightarrow> camera_meta list" where
  "camera_targets m = dict_values (mg_camera m)"

definition stop_all :: "manager \<Rightarrow> manager" where
  "stop_all m = fold stop_adapter (keys (mg_adapters m)) m"

section \<open>Dispatching control commands\<close>

record command_report =
  cr_request :: string
  cr_command :: string
  cr_detail :: "string option"

text \<open>What \<open>send_command\<close> answers: accepted, refused with a reason, or it raised.\<close>

datatype send_result = Accepted | Refused string | Raised

definition nonempty_str :: "pyval \<Rightarrow> string option" where
  "nonempty_str v = (case v of PStr s \<Rightarrow> if s \<noteq> [] then Some s else None | _ \<Rightarrow> None)"

definition remember :: "nat \<Rightarrow> string \<Rightarrow> real \<Rightarrow> (string, real) odict \<Rightarrow> (string, real) odict" where
  "remember cap k now d = trim_oldest cap (move_to_end k (AList.update k now d))"

record command_item =
  ci_request :: string
  ci_printer :: string
  ci_command :: string
  ci_params :: "(string \<times> pyval) list option"

definition command_item_of :: "pyval \<Rightarrow> command_item option" where
  "command_item_of v = (case v of
      PDict d \<Rightarrow> (case (nonempty_str (pget d ''requestId''), nonempty_str (pget d ''printerId''), nonempty_str (pget d ''command'')) of
          (Some r, Some p, Some c) \<Rightarrow> Some \<lparr>ci_request = r, ci_printer = p, ci_command = c,
            ci_params = (case pget d ''params'' of PDict ps \<Rightarrow> Some ps | _ \<Rightarrow> None)\<rparr>
        | _ \<Rightarrow> None)
    | _ \<Rightarrow> None)"

fun command_loop :: "(command_item \<Rightarrow> send_result) \<Rightarrow> real \<Rightarrow> nat \<Rightarrow> pyval list \<Rightarrow> manager \<Rightarrow>
    command_report list \<times> command_item list \<times> manager" where
  "command_loop send now index [] m = ([], [], m)"
| "command_loop send now index (v # vs) m = (case command_item_of v of
      None \<Rightarrow> command_loop send now (index + 1) vs m
    | Some it \<Rightarrow>
        (let report = \<lambda>detail. \<lparr>cr_request = ci_request it, cr_command = ci_command it, cr_detail = detail\<rparr>;
             (r, sent, m1) =
               (if map_of (mg_commands m) (ci_request it) \<noteq> None then (report None, [], m)
                else if 16 \<le> index then (report (Some ''rate_limited''), [], m)
                else if map_of (mg_adapters m) (ci_printer it) = None then (report (Some ''printer_unavailable''), [], m)
                else (case send it of
                    Raised \<Rightarrow> (report (Some ''exception''), [it], m)
                  | Refused reason \<Rightarrow> (report (Some reason), [it], m)
                  | Accepted \<Rightarrow> (report None, [it],
                      m\<lparr>mg_commands := remember MAX_DISPATCHED_COMMANDS (ci_request it) now (mg_commands m)\<rparr>)));
             (rs, sents, m2) = command_loop send now (index + 1) vs m1
         in (r # rs, sent @ sents, m2)))"

definition dispatch_commands :: "(command_item \<Rightarrow> send_result) \<Rightarrow> real \<Rightarrow> pyval \<Rightarrow> manager \<Rightarrow>
    command_report list \<times> command_item list \<times> manager" where
  "dispatch_commands send now pending m = command_loop send now 0 (case pending of PList vs \<Rightarrow> vs | _ \<Rightarrow> []) m"

section \<open>Dispatching queue assignments\<close>

record assignment =
  as_queue_id :: string
  as_printer :: string
  as_uid :: string
  as_file :: string
  as_plate :: int
  as_use_ams :: bool
  as_ams_mapping :: pyval

definition uid_ok :: "string \<Rightarrow> bool" where
  "uid_ok s \<longleftrightarrow> 8 \<le> length s \<and> length s \<le> 64 \<and>
     list_all (\<lambda>c. is_digit c \<or> (97 \<le> (of_char c :: nat) \<and> (of_char c :: nat) \<le> 102)) s"

definition assignment_path_ok :: "string \<Rightarrow> string \<Rightarrow> bool" where
  "assignment_path_ok uid file \<longleftrightarrow> uid_ok uid \<and> file = basename file \<and> file \<notin> {''.'', ''..''} \<and>
     CHR ''/'' \<notin> set file \<and> CHR 0x5C \<notin> set file"

definition assignment_of :: "pyval \<Rightarrow> assignment option" where
  "assignment_of v = (case v of
      PDict d \<Rightarrow> (case (nonempty_str (pget d ''queueJobId''), nonempty_str (pget d ''printerId''),
                       nonempty_str (pget d ''submissionUid''), nonempty_str (pget d ''fileName'')) of
          (Some q, Some p, Some u, Some f) \<Rightarrow> Some \<lparr>as_queue_id = q, as_printer = p, as_uid = u, as_file = f,
              as_plate = (case por (pget d ''plate'') (PInt 1) of PInt i \<Rightarrow> i | _ \<Rightarrow> 1),
              as_use_ams = truthy (pget d ''useAms''), as_ams_mapping = pget d ''amsMapping''\<rparr>
        | _ \<Rightarrow> None)
    | _ \<Rightarrow> None)"

datatype assignment_report =
    Uploading string "pyval list"
  | Held_back string string

record dispatch_env =
  de_send :: "assignment \<Rightarrow> send_result"
  de_is_file :: "string \<times> string \<Rightarrow> bool"
  de_objects :: "string \<times> string \<Rightarrow> int \<Rightarrow> pyval list"

definition can_print :: "manager \<Rightarrow> string \<Rightarrow> bool" where
  "can_print m pid = (case map_of (mg_adapters m) pid of None \<Rightarrow> False | Some a \<Rightarrow> ad_can_print a)"

definition dispatch_one :: "dispatch_env \<Rightarrow> real \<Rightarrow> assignment \<Rightarrow> manager \<Rightarrow>
    assignment_report list \<times> assignment list \<times> manager" where
  "dispatch_one env now a m =
     (let held = \<lambda>reason. [Held_back (as_queue_id a) reason];
          up = Uploading (as_queue_id a) (de_objects env (as_uid a, as_file a) (as_plate a))
      in if map_of (mg_queue_jobs m) (as_queue_id a) \<noteq> None then ([], [], m)
         else if \<not> assignment_path_ok (as_uid a) (as_file a) then (held ''bad_assignment'', [], m)
         else if \<not> can_print m (as_printer a) then (held ''printer_unavailable'', [], m)
         else if \<not> de_is_file env (as_uid a, as_file a) then (held ''file_not_found'', [], m)
         else (case de_send env a of
             Accepted \<Rightarrow> ([up], [a], m\<lparr>mg_queue_jobs := remember MAX_DISPATCHED_QUEUE_JOBS (as_queue_id a) now (mg_queue_jobs m)\<rparr>)
           | Refused reason \<Rightarrow> (up # held reason, [a], m)
           | Raised \<Rightarrow> (up # held ''start_failed'', [a], m)))"

fun assignment_loop :: "dispatch_env \<Rightarrow> real \<Rightarrow> pyval list \<Rightarrow> manager \<Rightarrow>
    assignment_report list \<times> assignment list \<times> manager" where
  "assignment_loop env now [] m = ([], [], m)"
| "assignment_loop env now (v # vs) m = (case assignment_of v of
      None \<Rightarrow> assignment_loop env now vs m
    | Some a \<Rightarrow>
        (let (r, sent, m1) = dispatch_one env now a m;
             (rs, sents, m2) = assignment_loop env now vs m1
         in (r @ rs, sent @ sents, m2)))"

definition dispatch_assignments :: "dispatch_env \<Rightarrow> real \<Rightarrow> pyval \<Rightarrow> manager \<Rightarrow>
    assignment_report list \<times> assignment list \<times> manager" where
  "dispatch_assignments env now v m = assignment_loop env now (case v of PList vs \<Rightarrow> vs | _ \<Rightarrow> []) m"

section \<open>Collecting queue progress\<close>

text \<open>The parameter gives the queue job and state of the reports an adapter has to give.\<close>

definition terminal_ids :: "(string \<times> string) list \<Rightarrow> string list" where
  "terminal_ids reports = map fst (filter (\<lambda>(_, st). st = ''completed'' \<or> st = ''held'') reports)"

definition collect_queue_progress :: "(string \<Rightarrow> (string \<times> string) list) \<Rightarrow> manager \<Rightarrow> (string \<times> string) list \<times> manager" where
  "collect_queue_progress progress m =
     (let reports = concat (map (\<lambda>(pid, _). progress pid) (mg_adapters m))
      in (reports, m\<lparr>mg_queue_jobs := fold AList.delete (terminal_ids reports) (mg_queue_jobs m)\<rparr>))"

section \<open>Statuses: every configured printer is reported exactly once\<close>

definition manager_inv :: "manager \<Rightarrow> bool" where
  "manager_inv m \<longleftrightarrow> wf_dict (mg_adapters m) \<and> wf_dict (mg_static m) \<and>
     set (keys (mg_adapters m)) \<inter> set (keys (mg_static m)) = {} \<and> (\<forall>(k, st) \<in> set (mg_static m). ms_printer st = k)"

definition known :: "manager \<Rightarrow> string set" where
  "known m = set (keys (mg_adapters m)) \<union> set (keys (mg_static m))"

definition supported :: "config \<Rightarrow> bool" where
  "supported p \<longleftrightarrow> pget p ''vendor'' \<in> {PStr ''bambu'', PStr ''klipper''}"

lemma adapters_simps [simp]:
  "mg_adapters (stop_adapter pid m) = AList.delete pid (mg_adapters m)"
  "mg_adapters (static_error pid r m) = mg_adapters m"
  "mg_adapters (drop_static pid m) = mg_adapters m"
  "mg_adapters (install st b pid fp m) = AList.update pid \<lparr>ad_can_print = b, ad_state = st, ad_jobs = Some []\<rparr> (mg_adapters m)"
  by (simp_all add: stop_adapter_def static_error_def drop_static_def install_def Let_def split: option.splits)

lemma static_simps [simp]:
  "mg_static (stop_adapter pid m) = mg_static m"
  "mg_static (static_error pid r m) = AList.update pid \<lparr>ms_printer = pid, ms_connection = ''error'', ms_reason = Some r\<rparr> (mg_static m)"
  "mg_static (drop_static pid m) = AList.delete pid (mg_static m)"
  "mg_static (install st b pid fp m) = mg_static m"
  by (simp_all add: stop_adapter_def static_error_def drop_static_def install_def Let_def split: option.splits)

lemma orphans_simps [simp]:
  "mg_orphans (static_error pid r m) = mg_orphans m"
  "mg_orphans (drop_static pid m) = mg_orphans m"
  "mg_orphans (install st b pid fp m) = mg_orphans m"
  by (simp_all add: static_error_def drop_static_def install_def)

text \<open>Reconciling one supported printer ends in one of four ways, as far as adapters, static entries
  and rescued jobs go.\<close>

definition core :: "manager \<Rightarrow> (string, adapter) odict \<times> (string, mstatus) odict \<times> job_record list" where
  "core m = (mg_adapters m, mg_static m, mg_orphans m)"

lemma core_eqD: "core m = core m' \<Longrightarrow> mg_adapters m = mg_adapters m' \<and> mg_static m = mg_static m' \<and> mg_orphans m = mg_orphans m'"
  by (simp add: core_def)

definition one_of_four :: "string \<Rightarrow> manager \<Rightarrow> manager \<Rightarrow> bool" where
  "one_of_four pid m m' \<longleftrightarrow>
     (\<exists>r. core m' = core (static_error pid r (stop_adapter pid m))) \<or>
     (pid \<in> set (keys (mg_adapters m)) \<and> core m' = core (drop_static pid m)) \<or>
     (\<exists>r. core m' = core (static_error pid r (stop_adapter pid (drop_static pid m)))) \<or>
     (\<exists>st b fp. core m' = core (install st b pid fp (stop_adapter pid (drop_static pid m))))"

lemma core_retry [simp]: "core (m\<lparr>mg_retry_at := x\<rparr>) = core m"
  by (simp add: core_def)

lemma build_adapter_core:
  "(\<exists>r. core (snd (build_adapter start b msg pid fp m)) = core (static_error pid r m)) \<or>
   (\<exists>st. core (snd (build_adapter start b msg pid fp m)) = core (install st b pid fp m))"
  by (auto simp: build_adapter_def split: start.split)

lemma build_four: "one_of_four pid m (snd (build_adapter start b msg pid fp (stop_adapter pid (drop_static pid m))))"
  using build_adapter_core [of start b msg pid fp "stop_adapter pid (drop_static pid m)"]
  unfolding one_of_four_def by blast

lemma kept_four: "map_of (mg_adapters m) pid \<noteq> None \<Longrightarrow> one_of_four pid m (drop_static pid m)"
  unfolding one_of_four_def set_keys dom_def by blast

lemma incomplete_four: "one_of_four pid m (static_error pid r (stop_adapter pid m))"
  unfolding one_of_four_def by blast

lemma four_retry: "one_of_four pid m (m'\<lparr>mg_retry_at := x\<rparr>) \<longleftrightarrow> one_of_four pid m m'"
  by (simp add: one_of_four_def)

lemma klipper_four: "one_of_four pid m (reconcile_klipper start pid p m)"
  by (auto simp: reconcile_klipper_def Let_def build_four incomplete_four intro: kept_four)

lemma bambu_four: "one_of_four pid m (reconcile_bambu start now pid p m)"
proof -
  obtain ok m' where bm: "build_adapter start True ''agent_missing_paho'' pid (fingerprint_of p) (stop_adapter pid (drop_static pid m)) = (ok, m')"
    by (rule prod.exhaust)
  then have "one_of_four pid m m'"
    using build_four [of pid m start True "''agent_missing_paho''" "fingerprint_of p"] by simp
  with bm show ?thesis
    by (auto simp: reconcile_bambu_def Let_def four_retry incomplete_four intro: kept_four)
qed

lemma reconcile_one_four: "printer_id_of p = Some pid \<Longrightarrow> supported p \<Longrightarrow>
    one_of_four pid m (reconcile_one start rep now p m)"
  using klipper_four bambu_four by (auto simp: reconcile_one_def supported_def)

lemma reconcile_one_cases:
  assumes "printer_id_of p = Some pid" "supported p"
  obtains (incomplete) r where "core (reconcile_one start rep now p m) = core (static_error pid r (stop_adapter pid m))"
  | (kept) "pid \<in> set (keys (mg_adapters m))" "core (reconcile_one start rep now p m) = core (drop_static pid m)"
  | (failed) r where "core (reconcile_one start rep now p m) = core (static_error pid r (stop_adapter pid (drop_static pid m)))"
  | (built) st b fp where "core (reconcile_one start rep now p m) = core (install st b pid fp (stop_adapter pid (drop_static pid m)))"
  using reconcile_one_four [OF assms] unfolding one_of_four_def by blast

lemma stop_orphans: "mg_orphans (stop_adapter pid m) = mg_orphans m @
    (case map_of (mg_adapters m) pid of None \<Rightarrow> [] | Some a \<Rightarrow> adapter_jobs a)"
  by (simp add: stop_adapter_def Let_def adapter_jobs_def split: option.split)

lemma unknown_id: "printer_id_of p = None \<Longrightarrow> reconcile_one start rep now p m = m"
  by (simp add: reconcile_one_def)

lemma set_update_subset: "set (AList.update k v d) \<subseteq> insert (k, v) (set d)"
  by (induction d) auto

lemma named_update: "\<forall>(k, st) \<in> set d. ms_printer st = k \<Longrightarrow> ms_printer v = pid \<Longrightarrow>
    \<forall>(k, st) \<in> set (AList.update pid v d). ms_printer st = k"
  using set_update_subset [of pid v d] by fastforce

lemma named_delete: "\<forall>(k, st) \<in> set d. ms_printer st = k \<Longrightarrow> \<forall>(k, st) \<in> set (AList.delete pid d). ms_printer st = k"
  by (auto simp: AList.delete_eq)

lemma set_keys_update: "set (keys (AList.update k v d)) = insert k (set (keys d))"
  by (auto simp: keys_update)

lemma set_keys_delete: "set (keys (AList.delete k d)) = set (keys d) - {k}"
  by (auto simp: keys_delete)

definition named :: "(string, mstatus) odict \<Rightarrow> bool" where
  "named d \<longleftrightarrow> (\<forall>(k, st) \<in> set d. ms_printer st = k)"

lemma manager_inv_iff: "manager_inv m \<longleftrightarrow> wf_dict (mg_adapters m) \<and> wf_dict (mg_static m) \<and>
    (\<forall>k. k \<in> set (keys (mg_adapters m)) \<longrightarrow> k \<notin> set (keys (mg_static m))) \<and> named (mg_static m)"
  by (auto simp: manager_inv_def named_def)

lemma named_rules: "named d \<Longrightarrow> named (AList.delete pid d)"
    "named d \<Longrightarrow> ms_printer v = pid \<Longrightarrow> named (AList.update pid v d)"
  unfolding named_def by (fact named_delete, fact named_update)

lemmas inv_simps = manager_inv_iff known_def set_keys_update set_keys_delete wf_dict_update wf_dict_delete named_rules

lemma reconcile_one_inv:
  assumes inv: "manager_inv m" and sup: "printer_id_of p \<noteq> None \<longrightarrow> supported p"
  shows "manager_inv (reconcile_one start rep now p m) \<and>
    known (reconcile_one start rep now p m) = known m \<union> set_option (printer_id_of p)"
proof (cases "printer_id_of p")
  case None
  with inv show ?thesis by (simp add: unknown_id)
next
  case (Some pid)
  with sup have "supported p" by simp
  with Some show ?thesis
  proof (cases rule: reconcile_one_cases [of p pid start rep now m])
    case (incomplete r)
    then show ?thesis using inv Some by (auto simp: core_def inv_simps)
  next
    case kept
    then show ?thesis using inv Some by (auto simp: core_def inv_simps)
  next
    case (failed r)
    then show ?thesis using inv Some by (auto simp: core_def inv_simps)
  next
    case (built st b fp)
    then show ?thesis using inv Some by (auto simp: core_def inv_simps)
  qed
qed

lemma fold_stop_adapters: "mg_adapters (fold stop_adapter pids m) = filter (\<lambda>(k, _). k \<notin> set pids) (mg_adapters m)"
  by (induction pids arbitrary: m) (auto simp: AList.delete_eq case_prod_beta' intro!: filter_cong)

lemma fold_stop_static [simp]: "mg_static (fold stop_adapter pids m) = mg_static m"
  by (induction pids arbitrary: m) simp_all

lemma keys_filter: "keys (filter (\<lambda>(k, _). P k) d) = filter P (keys d)"
  by (simp add: keys_def filter_map o_def case_prod_beta')


lemma drop_undesired_adapters: "mg_adapters (drop_undesired D m) = filter (\<lambda>(k, _). k \<in> D) (mg_adapters m)"
proof -
  have "k \<notin> set (filter (\<lambda>x. x \<notin> D) (keys (mg_adapters m))) \<longleftrightarrow> k \<in> D" if "(k, a) \<in> set (mg_adapters m)" for k a
    using that by (force simp: keys_def)
  then show ?thesis
    unfolding drop_undesired_def Let_def by (auto simp: fold_stop_adapters intro!: filter_cong)
qed

lemma drop_undesired_static: "mg_static (drop_undesired D m) = filter (\<lambda>(k, _). k \<in> D) (mg_static m)"
  by (simp add: drop_undesired_def Let_def)

lemma drop_undesired_inv: "manager_inv m \<Longrightarrow> manager_inv (drop_undesired D m) \<and> known (drop_undesired D m) = known m \<inter> D"
  by (auto simp: manager_inv_def known_def drop_undesired_adapters drop_undesired_static keys_filter wf_dict_filter)

lemma reconcile_loop_inv:
  assumes "manager_inv m" "\<forall>p \<in> set ps. printer_id_of p \<noteq> None \<longrightarrow> supported p"
  shows "manager_inv (fold (reconcile_one start rep now) ps m) \<and>
    known (fold (reconcile_one start rep now) ps m) = known m \<union> desired_ids ps"
  using assms
proof (induction ps arbitrary: m)
  case Nil
  then show ?case by (simp add: desired_ids_def List.map_filter_def)
next
  case (Cons p ps)
  have "desired_ids (p # ps) = set_option (printer_id_of p) \<union> desired_ids ps"
    by (cases "printer_id_of p") (simp_all add: desired_ids_def List.map_filter_def)
  with Cons.IH [of "reconcile_one start rep now p m"] reconcile_one_inv [of m p start rep now] Cons.prems
  show ?case by auto
qed

lemma reconcile_inv:
  assumes "manager_inv m" "\<forall>p \<in> set ps. printer_id_of p \<noteq> None \<longrightarrow> supported p"
  shows "manager_inv (reconcile start rep now ps m) \<and> known (reconcile start rep now ps m) = desired_ids ps"
proof -
  let ?m = "drop_undesired (desired_ids ps) (m\<lparr>mg_camera := camera_metas ps\<rparr>)"
  have "manager_inv (m\<lparr>mg_camera := camera_metas ps\<rparr>)"
    using assms(1) by (simp add: manager_inv_def)
  then have "manager_inv ?m \<and> known ?m = known m \<inter> desired_ids ps"
    using drop_undesired_inv [of "m\<lparr>mg_camera := camera_metas ps\<rparr>" "desired_ids ps"] by (simp add: known_def)
  with reconcile_loop_inv [OF _ assms(2), of ?m start rep now]
  show ?thesis by (auto simp: reconcile_def)
qed

lemma ids_of_statuses:
  assumes "manager_inv m"
  shows "map ms_printer (statuses m) = keys (mg_adapters m) @ keys (mg_static m)"
  using assms
  by (auto simp: statuses_def keys_def dict_values_def adapter_status_def manager_inv_def split: option.splits)

text \<open>
  Whatever the configuration was before, after a reconciliation against printers that are all of
  a supported vendor (Bambu or Klipper) the status list of the heartbeat names every configured printer
  exactly once, and no other printer, however starting the adapters ends: an adapter and a static error
  entry never coexist for one printer, and nothing survives of printers that left the configuration.
\<close>
theorem one_status_per_printer:
  assumes "manager_inv m" "\<forall>p \<in> set printers. printer_id_of p \<noteq> None \<longrightarrow> supported p"
  shows "let m' = reconcile start rep now printers m in
    manager_inv m' \<and> distinct (map ms_printer (statuses m')) \<and>
    set (map ms_printer (statuses m')) = desired_ids printers"
proof -
  let ?m = "reconcile start rep now printers m"
  have inv: "manager_inv ?m" and ids: "known ?m = desired_ids printers"
    using reconcile_inv [OF assms] by blast+
  have "distinct (keys (mg_adapters ?m) @ keys (mg_static ?m))"
    using inv by (simp add: manager_inv_def wf_dict_def)
  moreover have "set (keys (mg_adapters ?m) @ keys (mg_static ?m)) = desired_ids printers"
    using ids by (simp add: known_def)
  ultimately show ?thesis
    using inv by (simp only: Let_def ids_of_statuses [OF inv])
qed

definition example_bambu :: config where
  "example_bambu = [(''id'', PStr ''p1''), (''vendor'', PStr ''bambu''), (''host'', PStr ''10.0.0.9''),
     (''serial'', PStr ''S''), (''accessCode'', PStr ''c'')]"

lemma one_status_per_printer_witness:
  "let m' = reconcile (\<lambda>_. Started (Some ''offline'')) (\<lambda>_. []) 0 [example_bambu] new_manager in
    manager_inv m' \<and> distinct (map ms_printer (statuses m')) \<and>
    set (map ms_printer (statuses m')) = desired_ids [example_bambu]"
  by (rule one_status_per_printer)
    (simp_all add: new_manager_def manager_inv_def supported_def example_bambu_def pget_def get_or_def)

text \<open>
  The restriction to supported vendors is needed: when the vendor of a configured Bambu printer is
  changed to one the agent does not drive, \<open>reconcile\<close> adds the static error entry but never stops the
  running adapter. The heartbeat then carries two statuses for the printer, and queue assignments are
  still sent to it.
\<close>
theorem vendor_change_reports_twice:
  "let m1 = reconcile (\<lambda>_. Started (Some ''idle'')) (\<lambda>_. []) 0 [example_bambu] new_manager;
       m2 = reconcile (\<lambda>_. Started (Some ''idle'')) (\<lambda>_. []) 0
              [AList.update ''vendor'' (PStr ''prusa'') example_bambu] m1
   in statuses m2 = [\<lparr>ms_printer = ''p1'', ms_connection = ''idle'', ms_reason = None\<rparr>,
        \<lparr>ms_printer = ''p1'', ms_connection = ''error'', ms_reason = Some ''prusa_not_supported_yet''\<rparr>] \<and>
      can_print m2 ''p1''"
  by code_simp

section \<open>Terminal jobs survive reconfiguration\<close>

definition buffered :: "(string, adapter) odict \<Rightarrow> job_record multiset" where
  "buffered d = mset (concat (map (\<lambda>(_, a). adapter_jobs a) d))"

lemma pending_mset: "mset (pending_jobs m) = mset (mg_orphans m) + buffered (mg_adapters m)"
  by (simp add: pending_jobs_def buffered_def)

lemma buffered_delete: "wf_dict d \<Longrightarrow> buffered (AList.delete pid d) +
    mset (case map_of d pid of None \<Rightarrow> [] | Some a \<Rightarrow> adapter_jobs a) = buffered d"
proof (induction d)
  case Nil
  then show ?case by (simp add: buffered_def)
next
  case (Cons x d)
  obtain k a where x: "x = (k, a)" by (rule prod.exhaust)
  from Cons.prems x have wf: "wf_dict d" and k: "k \<notin> set (keys d)" by (simp_all add: wf_dict_def)
  have "map_of d k = None" using k by (simp add: map_of_None_keys)
  with Cons.IH [OF wf] k x show ?case
    by (cases "k = pid") (auto simp: buffered_def AList.delete_eq case_prod_beta' ac_simps split: option.splits)
qed

lemma buffered_taken: "wf_dict d \<Longrightarrow>
    mset (case map_of d pid of None \<Rightarrow> [] | Some a \<Rightarrow> adapter_jobs a) + buffered (AList.delete pid d) = buffered d"
  using buffered_delete [of d pid] by (simp add: add.commute)

lemma buffered_install: "pid \<notin> set (keys d) \<Longrightarrow> ad_jobs a = Some [] \<Longrightarrow> buffered (AList.update pid a d) = buffered d"
  by (induction d) (auto simp: buffered_def adapter_jobs_def)

lemma stop_keeps_jobs: "wf_dict (mg_adapters m) \<Longrightarrow> mset (pending_jobs (stop_adapter pid m)) = mset (pending_jobs m)"
  using buffered_delete [of "mg_adapters m" pid]
  by (simp add: pending_mset stop_orphans ac_simps)

lemma core_pending: "core m = core m' \<Longrightarrow> mset (pending_jobs m) = mset (pending_jobs m')"
  by (simp add: core_def pending_mset)

lemma other_ops_keep_jobs [simp]:
  "mset (pending_jobs (static_error pid r m)) = mset (pending_jobs m)"
  "mset (pending_jobs (drop_static pid m)) = mset (pending_jobs m)"
  by (simp_all add: pending_mset)

lemma install_keeps_jobs: "pid \<notin> set (keys (mg_adapters m)) \<Longrightarrow>
    mset (pending_jobs (install st b pid fp m)) = mset (pending_jobs m)"
  by (simp add: pending_mset buffered_install)

definition keeps_jobs :: "manager \<Rightarrow> manager \<Rightarrow> bool" where
  "keeps_jobs m m' \<longleftrightarrow> (wf_dict (mg_adapters m) \<longrightarrow>
     wf_dict (mg_adapters m') \<and> mset (pending_jobs m') = mset (pending_jobs m))"

lemma keeps_jobs_trans: "keeps_jobs m m' \<Longrightarrow> keeps_jobs m' m'' \<Longrightarrow> keeps_jobs m m''"
  by (simp add: keeps_jobs_def)

lemma keeps_jobs_fold: "(\<And>x m. keeps_jobs m (f x m)) \<Longrightarrow> keeps_jobs m (fold f xs m)"
  by (induction xs arbitrary: m) (auto simp: keeps_jobs_def)

lemma keeps_jobs_stop: "keeps_jobs m (stop_adapter pid m)"
  by (simp add: keeps_jobs_def stop_keeps_jobs wf_dict_delete)

lemma keeps_jobs_four: "one_of_four pid m m' \<Longrightarrow> keeps_jobs m m'"
  unfolding one_of_four_def keeps_jobs_def
  by (auto dest!: core_eqD simp: pending_mset stop_orphans wf_dict_delete wf_dict_update
      buffered_taken buffered_install set_keys_delete)


lemma keeps_jobs_one: "keeps_jobs m (reconcile_one start rep now p m)"
proof (cases "printer_id_of p")
  case None
  then show ?thesis by (simp add: unknown_id keeps_jobs_def)
next
  case (Some pid)
  have static: "keeps_jobs m (static_error pid r m)" for r
    by (simp add: keeps_jobs_def)
  show ?thesis
    unfolding reconcile_one_def Some option.case
    using keeps_jobs_four [OF klipper_four] keeps_jobs_four [OF bambu_four] static by simp
qed

lemma keeps_jobs_reconcile: "keeps_jobs m (reconcile start rep now ps m)"
proof -
  have "keeps_jobs m (m\<lparr>mg_camera := c\<rparr>)" for c
    by (simp add: keeps_jobs_def pending_mset)
  moreover have "keeps_jobs m (drop_undesired D m)" for D and m :: manager
    using keeps_jobs_fold [of stop_adapter, OF keeps_jobs_stop]
    by (fastforce simp: drop_undesired_def Let_def keeps_jobs_def pending_mset)
  moreover have "keeps_jobs m (fold (reconcile_one start rep now) ps m)" for m
    by (rule keeps_jobs_fold) (rule keeps_jobs_one)
  ultimately show ?thesis
    unfolding reconcile_def by (blast intro: keeps_jobs_trans)
qed

lemma keeps_jobs_stop_all: "keeps_jobs m (stop_all m)"
  unfolding stop_all_def by (rule keeps_jobs_fold) (rule keeps_jobs_stop)

lemma stop_all_empties: "mg_adapters (stop_all m) = []"
  by (auto simp: stop_all_def fold_stop_adapters keys_def filter_empty_conv image_iff)

lemma pending_ack: "pending_jobs (ack_jobs ks m) = filter (\<lambda>j. jr_key j \<notin> set ks) (pending_jobs m)"
proof (cases "ks = []")
  case True
  then show ?thesis by (simp add: ack_jobs_def)
next
  case False
  have "concat (map (\<lambda>(_, a). adapter_jobs a) (map (\<lambda>(pid, a). (pid, a\<lparr>ad_jobs := map_option (filter P) (ad_jobs a)\<rparr>)) d)) =
      filter P (concat (map (\<lambda>(_, a). adapter_jobs a) d))" for P d
    by (induction d) (auto simp: adapter_jobs_def split: option.splits)
  with False show ?thesis by (simp add: ack_jobs_def pending_jobs_def)
qed

lemma ack_keys: "keys (mg_adapters (ack_jobs ks m)) = keys (mg_adapters m)"
  by (auto simp: ack_jobs_def keys_def)

text \<open>The abstract view: a ledger of unconfirmed records, to which running adapters add and from which
  only a confirmation of the cloud removes.\<close>

datatype manager_event =
    Reconciled "pyval list \<Rightarrow> start" "pyval \<Rightarrow> string" real "config list"
  | Finished string "job_record list"
  | Confirmed "string list"
  | Stopped

definition adapter_finishes :: "string \<Rightarrow> job_record list \<Rightarrow> manager \<Rightarrow> manager" where
  "adapter_finishes pid js m = m\<lparr>mg_adapters := map (\<lambda>(k, a).
     (k, if k = pid then a\<lparr>ad_jobs := map_option (\<lambda>xs. xs @ js) (ad_jobs a)\<rparr> else a)) (mg_adapters m)\<rparr>"

fun manager_step :: "manager_event \<Rightarrow> manager \<Rightarrow> manager" where
  "manager_step (Reconciled start rep now ps) m = reconcile start rep now ps m"
| "manager_step (Finished pid js) m = adapter_finishes pid js m"
| "manager_step (Confirmed ks) m = ack_jobs ks m"
| "manager_step Stopped m = stop_all m"

definition readable :: "manager \<Rightarrow> string \<Rightarrow> bool" where
  "readable m pid \<longleftrightarrow> (case map_of (mg_adapters m) pid of None \<Rightarrow> False | Some a \<Rightarrow> ad_jobs a \<noteq> None)"

fun ledger :: "manager_event list \<Rightarrow> manager \<Rightarrow> job_record multiset \<Rightarrow> job_record multiset" where
  "ledger [] m L = L"
| "ledger (e # es) m L = ledger es (manager_step e m)
     (case e of Finished pid js \<Rightarrow> if readable m pid then L + mset js else L
              | Confirmed ks \<Rightarrow> filter_mset (\<lambda>j. jr_key j \<notin> set ks) L
              | _ \<Rightarrow> L)"

lemma finishes_keys: "keys (mg_adapters (adapter_finishes pid js m)) = keys (mg_adapters m)"
  by (auto simp: adapter_finishes_def keys_def)

lemma buffered_finishes: "wf_dict d \<Longrightarrow>
    buffered (map (\<lambda>(k, a). (k, if k = pid then a\<lparr>ad_jobs := map_option (\<lambda>xs. xs @ js) (ad_jobs a)\<rparr> else a)) d) =
    buffered d + (case map_of d pid of None \<Rightarrow> {#} | Some a \<Rightarrow> if ad_jobs a = None then {#} else mset js)"
proof (induction d)
  case Nil
  then show ?case by (simp add: buffered_def)
next
  case (Cons x d)
  obtain k a where x: "x = (k, a)" by (rule prod.exhaust)
  from Cons.prems x have wf: "wf_dict d" and k: "k \<notin> set (keys d)" by (simp_all add: wf_dict_def)
  have "map_of d k = None" using k by (simp add: map_of_None_keys)
  with Cons.IH [OF wf] k x show ?case
    by (auto simp: buffered_def adapter_jobs_def ac_simps split: option.splits)
qed

lemma pending_finishes: "wf_dict (mg_adapters m) \<Longrightarrow> mset (pending_jobs (adapter_finishes pid js m)) =
    (if readable m pid then mset (pending_jobs m) + mset js else mset (pending_jobs m))"
  using buffered_finishes [of "mg_adapters m" pid js]
  by (auto simp: pending_mset adapter_finishes_def readable_def split: option.splits)

lemma manager_steps_wf: "wf_dict (mg_adapters m) \<Longrightarrow> wf_dict (mg_adapters (manager_step e m))"
proof (cases e)
  case (Reconciled start rep now ps)
  then show "wf_dict (mg_adapters m) \<Longrightarrow> ?thesis" using keeps_jobs_reconcile [of m start rep now ps] by (simp add: keeps_jobs_def)
next
  case (Finished pid js)
  then show "wf_dict (mg_adapters m) \<Longrightarrow> ?thesis" by (simp add: wf_dict_def finishes_keys)
next
  case (Confirmed ks)
  then show "wf_dict (mg_adapters m) \<Longrightarrow> ?thesis" by (simp add: wf_dict_def ack_keys)
next
  case Stopped
  then show "wf_dict (mg_adapters m) \<Longrightarrow> ?thesis" by (simp add: stop_all_empties)
qed

text \<open>
  C16: Rebuilding, dropping and stopping adapters neither loses nor duplicates a terminal job record.
  Over any sequence of reconciliations (with any outcome of starting adapters), prints finishing on
  running adapters, confirmations of the cloud and a full stop, the records the manager offers for
  upload are, as a multiset, the ledger of those recorded and not confirmed. Records of an adapter
  whose buffer cannot be read are outside the ledger.
\<close>
theorem manager_refines_ledger:
  assumes "wf_dict (mg_adapters m)"
  shows "mset (pending_jobs (fold manager_step es m)) = ledger es m (mset (pending_jobs m))"
  using assms
proof (induction es arbitrary: m)
  case Nil
  then show ?case by simp
next
  case (Cons e es)
  have "mset (pending_jobs (manager_step e m)) =
      (case e of Finished pid js \<Rightarrow> if readable m pid then mset (pending_jobs m) + mset js else mset (pending_jobs m)
         | Confirmed ks \<Rightarrow> filter_mset (\<lambda>j. jr_key j \<notin> set ks) (mset (pending_jobs m)) | _ \<Rightarrow> mset (pending_jobs m))"
  proof (cases e)
    case (Reconciled start rep now ps)
    then show ?thesis using keeps_jobs_reconcile [of m start rep now ps] Cons.prems by (simp add: keeps_jobs_def)
  next
    case (Finished pid js)
    then show ?thesis using Cons.prems by (simp add: pending_finishes)
  next
    case (Confirmed ks)
    then show ?thesis by (simp add: pending_ack)
  next
    case Stopped
    then show ?thesis using keeps_jobs_stop_all [of m] Cons.prems by (simp add: keeps_jobs_def)
  qed
  with Cons.IH [OF manager_steps_wf [OF Cons.prems], of e] show ?case by simp
qed

lemma manager_refines_ledger_witness:
  "mset (pending_jobs (fold manager_step [Reconciled (\<lambda>_. Started None) (\<lambda>_. []) 0 [example_bambu], Stopped] new_manager)) =
   ledger [Reconciled (\<lambda>_. Started None) (\<lambda>_. []) 0 [example_bambu], Stopped] new_manager (mset (pending_jobs new_manager))"
  by (rule manager_refines_ledger) (simp add: new_manager_def)

section \<open>Commands and queue assignments are sent at most once\<close>

lemma remember_fresh:
  assumes "k \<notin> set (keys d)"
  shows "keys (remember cap k now d) = trim_oldest cap (keys d @ [k])"
proof -
  have "AList.update k now d = d @ [(k, now)]"
    using assms by (induction d) auto
  moreover have "AList.delete k d = d"
    using assms by (force simp: AList.delete_eq keys_def intro!: filter_True)
  moreover have "AList.delete k (d @ [(k, now)]) = d"
    using calculation(2) by (simp add: AList.delete_eq)
  moreover have "map_of (d @ [(k, now)]) k = Some now"
    using assms by (simp add: map_add_def map_of_None_keys [symmetric])
  ultimately show ?thesis
    by (simp add: remember_def move_to_end_def keys_trim_oldest)
qed

definition accepted_ids :: "('i \<Rightarrow> send_result) \<Rightarrow> ('i \<Rightarrow> string) \<Rightarrow> 'i list \<Rightarrow> string list" where
  "accepted_ids send ident sent = map ident (filter (\<lambda>i. send i = Accepted) sent)"

lemma accepted_ids_simps [simp]:
  "accepted_ids send ident [] = []"
  "accepted_ids send ident (i # is) = (if send i = Accepted then ident i # accepted_ids send ident is else accepted_ids send ident is)"
  by (simp_all add: accepted_ids_def)

lemma accepted_ids_append: "accepted_ids send ident (is @ js) = accepted_ids send ident is @ accepted_ids send ident js"
  by (simp add: accepted_ids_def)

text \<open>What a batch of sends does to a guard of at most \<open>cap\<close> remembered identifiers: the items sent
  were not remembered, and the guard ends as the newest of what it held followed by the accepted ones.\<close>

definition guarded :: "nat \<Rightarrow> ('i \<Rightarrow> send_result) \<Rightarrow> ('i \<Rightarrow> string) \<Rightarrow> string list \<Rightarrow> 'i list \<Rightarrow> string list \<Rightarrow> bool" where
  "guarded cap send ident before sent after \<longleftrightarrow>
     after = trim_oldest cap (before @ accepted_ids send ident sent) \<and>
     (\<forall>xs i ys. sent = xs @ i # ys \<longrightarrow> ident i \<notin> set (trim_oldest cap (before @ accepted_ids send ident xs)))"

lemma guarded_Nil: "length before \<le> cap \<Longrightarrow> guarded cap send ident before [] before"
  by (simp add: guarded_def)

lemma guarded_refused:
  assumes "guarded cap send ident before sent after" "ident i \<notin> set before" "send i \<noteq> Accepted" "length before \<le> cap"
  shows "guarded cap send ident before (i # sent) after"
  using assms unfolding guarded_def by (auto simp: Cons_eq_append_conv)

lemma guarded_accepted:
  assumes "guarded cap send ident (trim_oldest cap (before @ [ident i])) sent after"
    "ident i \<notin> set before" "send i = Accepted" "length before \<le> cap"
  shows "guarded cap send ident before (i # sent) after"
  using assms unfolding guarded_def trim_twice by (auto simp: Cons_eq_append_conv)

lemma command_loop_spec:
  assumes "command_loop send now i vs m = (rs, sent, m')" "length (mg_commands m) \<le> MAX_DISPATCHED_COMMANDS"
  shows "guarded MAX_DISPATCHED_COMMANDS send ci_request (keys (mg_commands m)) sent (keys (mg_commands m')) \<and>
    map cr_request rs = map ci_request (List.map_filter command_item_of vs) \<and>
    length sent \<le> 16 - i \<and> set sent \<subseteq> set (List.map_filter command_item_of (take (16 - i) vs)) \<and>
    (\<forall>it \<in> set sent. map_of (mg_adapters m) (ci_printer it) \<noteq> None) \<and>
    m' = m\<lparr>mg_commands := mg_commands m'\<rparr>"
  using assms
proof (induction vs arbitrary: i m rs sent)
  case Nil
  then show ?case by (simp add: guarded_Nil List.map_filter_def)
next
  case (Cons v vs)
  have take: "set (List.map_filter command_item_of (take (16 - (i + 1)) vs)) \<subseteq>
      set (List.map_filter command_item_of (take (16 - i) (v # vs)))"
    by (auto simp: in_map_filter take_Cons' split: option.split)
  show ?case
  proof (cases "command_item_of v")
    case None
    with Cons.IH [of "i + 1" m rs sent] Cons.prems take show ?thesis
      by (auto simp: List.map_filter_def)
  next
    case (Some it)
    let ?used = "map_of (mg_commands m) (ci_request it) \<noteq> None"
    let ?gone = "map_of (mg_adapters m) (ci_printer it) = None"
    show ?thesis
    proof (cases "?used \<or> 16 \<le> i \<or> ?gone")
      case True
      obtain rs1 where r: "command_loop send now (i + 1) vs m = (rs1, sent, m')"
        and rs: "map cr_request rs = ci_request it # map cr_request rs1"
        using Cons.prems(1) Some True
        by (auto simp: Let_def split: prod.splits if_splits)
      show ?thesis
        using Cons.IH [OF r Cons.prems(2)] rs take Some by (auto simp: List.map_filter_def)
    next
      case False
      then have fresh: "ci_request it \<notin> set (keys (mg_commands m))" and i: "i < 16" and there: "\<not> ?gone"
        by (auto simp: map_of_None_keys [symmetric])
      let ?m1 = "if send it = Accepted then m\<lparr>mg_commands := remember MAX_DISPATCHED_COMMANDS (ci_request it) now (mg_commands m)\<rparr> else m"
      obtain rs1 sent1 where r: "command_loop send now (i + 1) vs ?m1 = (rs1, sent1, m')"
        and rs: "map cr_request rs = ci_request it # map cr_request rs1" and sent: "sent = it # sent1"
        using Cons.prems(1) Some False
        by (auto simp: Let_def split: prod.splits send_result.splits)
      have k1: "keys (mg_commands ?m1) = (if send it = Accepted
          then trim_oldest MAX_DISPATCHED_COMMANDS (keys (mg_commands m) @ [ci_request it]) else keys (mg_commands m))"
        by (simp add: remember_fresh [OF fresh])
      then have "length (mg_commands ?m1) \<le> MAX_DISPATCHED_COMMANDS"
        using Cons.prems(2) by (metis length_keys length_trim_oldest min.cobounded1)
      note ih = Cons.IH [OF r this]
      have "guarded MAX_DISPATCHED_COMMANDS send ci_request (keys (mg_commands m)) sent (keys (mg_commands m'))"
        using ih k1 fresh Cons.prems(2) unfolding sent
        by (cases "send it = Accepted") (auto intro: guarded_refused guarded_accepted)
      moreover have "it \<in> set (List.map_filter command_item_of (take (16 - i) (v # vs)))"
        using i Some by (auto simp: in_map_filter take_Cons')
      ultimately show ?thesis
        using ih rs sent take there Some i by (auto simp: List.map_filter_def split: if_splits)
    qed
  qed
qed

text \<open>
  C14: Control commands are at-most-once per request identifier. In one beat every well-formed command
  gets exactly one report, in order; at most sixteen are sent, all from the first sixteen positions and to
  printers with an adapter; no command is sent whose identifier is remembered at that moment, be it from an
  earlier beat or from earlier in the same beat; and the identifiers remembered afterwards are the newest
  1000 of the earlier ones followed by those the adapters accepted. Nothing else of the manager changes.
\<close>
theorem commands_sent_once:
  assumes "dispatch_commands send now (PList vs) m = (rs, sent, m')"
    "length (mg_commands m) \<le> MAX_DISPATCHED_COMMANDS"
  shows "map cr_request rs = map ci_request (List.map_filter command_item_of vs) \<and>
    length sent \<le> 16 \<and> set sent \<subseteq> set (List.map_filter command_item_of (take 16 vs)) \<and>
    (\<forall>it \<in> set sent. map_of (mg_adapters m) (ci_printer it) \<noteq> None) \<and>
    (\<forall>xs it ys. sent = xs @ it # ys \<longrightarrow> ci_request it \<notin>
       set (trim_oldest MAX_DISPATCHED_COMMANDS (keys (mg_commands m) @ accepted_ids send ci_request xs))) \<and>
    keys (mg_commands m') = trim_oldest MAX_DISPATCHED_COMMANDS (keys (mg_commands m) @ accepted_ids send ci_request sent) \<and>
    m' = m\<lparr>mg_commands := mg_commands m'\<rparr>"
proof -
  have "command_loop send now 0 vs m = (rs, sent, m')"
    using assms(1) by (simp add: dispatch_commands_def)
  from command_loop_spec [OF this assms(2)] show ?thesis
    unfolding guarded_def by auto
qed

definition example_command :: pyval where
  "example_command = PDict [(''requestId'', PStr ''r''), (''printerId'', PStr ''p1''), (''command'', PStr ''pause'')]"

definition example_running :: manager where
  "example_running = install (Some ''idle'') True ''p1'' [] new_manager"

lemma commands_sent_once_witness:
  "let vs = [example_command, example_command]; send = (\<lambda>_. Accepted);
       (rs, sent, m') = dispatch_commands send 0 (PList vs) example_running
   in length sent = 1 \<and> map cr_request rs = map ci_request (List.map_filter command_item_of vs) \<and>
      keys (mg_commands m') = trim_oldest MAX_DISPATCHED_COMMANDS (keys (mg_commands example_running) @ accepted_ids send ci_request sent)"
proof -
  let ?send = "\<lambda>_. Accepted" and ?vs = "[example_command, example_command]"
  obtain rs sent m' where d: "dispatch_commands ?send 0 (PList ?vs) example_running = (rs, sent, m')"
    by (rule prod_cases3)
  have "length (mg_commands example_running) \<le> MAX_DISPATCHED_COMMANDS" by code_simp
  from commands_sent_once [OF d this] have
    "map cr_request rs = map ci_request (List.map_filter command_item_of ?vs) \<and>
     keys (mg_commands m') = trim_oldest MAX_DISPATCHED_COMMANDS (keys (mg_commands example_running) @ accepted_ids ?send ci_request sent)"
    by blast
  moreover have "length (fst (snd (dispatch_commands ?send 0 (PList ?vs) example_running))) = 1" by code_simp
  ultimately show ?thesis using d by simp
qed

definition startable :: "dispatch_env \<Rightarrow> manager \<Rightarrow> assignment \<Rightarrow> bool" where
  "startable env m a \<longleftrightarrow> assignment_path_ok (as_uid a) (as_file a) \<and> can_print m (as_printer a) \<and> de_is_file env (as_uid a, as_file a)"

fun report_id :: "assignment_report \<Rightarrow> string" where
  "report_id (Uploading q os) = q"
| "report_id (Held_back q r) = q"

text \<open>The reports of one assignment, as the transition map of the cloud wants them.\<close>

definition legal_reports :: "(assignment \<Rightarrow> send_result) \<Rightarrow> bool \<Rightarrow> assignment \<Rightarrow> assignment_report list \<Rightarrow> bool" where
  "legal_reports send started a rs \<longleftrightarrow> (\<exists>os reason.
     if started then rs = Uploading (as_queue_id a) os # (if send a = Accepted then [] else [Held_back (as_queue_id a) reason])
     else rs = [] \<or> rs = [Held_back (as_queue_id a) reason])"

lemma dispatch_one_spec:
  assumes "dispatch_one env now a m = (rs, sent, m')" "length (mg_queue_jobs m) \<le> MAX_DISPATCHED_QUEUE_JOBS"
  shows "(sent = [] \<and> m' = m \<and> \<not> (as_queue_id a \<notin> set (keys (mg_queue_jobs m)) \<and> startable env m a) \<or>
     sent = [a] \<and> as_queue_id a \<notin> set (keys (mg_queue_jobs m)) \<and> startable env m a \<and>
     m' = (if de_send env a = Accepted
       then m\<lparr>mg_queue_jobs := remember MAX_DISPATCHED_QUEUE_JOBS (as_queue_id a) now (mg_queue_jobs m)\<rparr> else m)) \<and>
     legal_reports (de_send env) (sent \<noteq> []) a rs \<and> (rs = [] \<longleftrightarrow> as_queue_id a \<in> set (keys (mg_queue_jobs m)))"
proof -
  have eq: "map_of (mg_queue_jobs m) (as_queue_id a) \<noteq> None \<longleftrightarrow> as_queue_id a \<in> set (keys (mg_queue_jobs m))"
    by (simp add: map_of_None_keys)
  show ?thesis
    using assms(1) unfolding dispatch_one_def Let_def eq startable_def legal_reports_def
    by (auto split: if_splits send_result.splits)
qed

lemma assignment_loop_spec:
  assumes "assignment_loop env now vs m = (rs, sent, m')" "length (mg_queue_jobs m) \<le> MAX_DISPATCHED_QUEUE_JOBS"
  shows "guarded MAX_DISPATCHED_QUEUE_JOBS (de_send env) as_queue_id (keys (mg_queue_jobs m)) sent (keys (mg_queue_jobs m')) \<and>
    list_all (startable env m) sent \<and> set sent \<subseteq> set (List.map_filter assignment_of vs) \<and>
    (\<exists>rss started. rs = concat rss \<and> list_all2 (\<lambda>(a, st) r. legal_reports (de_send env) st a r)
       (zip (List.map_filter assignment_of vs) started) rss \<and> length started = length (List.map_filter assignment_of vs) \<and>
       sent = map fst (filter snd (zip (List.map_filter assignment_of vs) started))) \<and>
    m' = m\<lparr>mg_queue_jobs := mg_queue_jobs m'\<rparr>"
  using assms
proof (induction vs arbitrary: m rs sent)
  case Nil
  then show ?case by (simp add: guarded_Nil List.map_filter_def)
next
  case (Cons v vs)
  show ?case
  proof (cases "assignment_of v")
    case None
    with Cons.IH [of m rs sent] Cons.prems show ?thesis by (simp add: List.map_filter_def)
  next
    case (Some a)
    obtain r1 s1 m1 where d: "dispatch_one env now a m = (r1, s1, m1)" by (rule prod_cases3)
    obtain r2 s2 m2 where l: "assignment_loop env now vs m1 = (r2, s2, m2)" by (rule prod_cases3)
    have eqs: "rs = r1 @ r2" "sent = s1 @ s2" "m2 = m'"
      using Cons.prems(1) Some d l by (simp_all add: Let_def)
    note sp = dispatch_one_spec [OF d Cons.prems(2)]
    have m1: "m1 = m\<lparr>mg_queue_jobs := mg_queue_jobs m1\<rparr>" using sp by auto
    have k1: "keys (mg_queue_jobs m1) = (if s1 \<noteq> [] \<and> de_send env a = Accepted
        then trim_oldest MAX_DISPATCHED_QUEUE_JOBS (keys (mg_queue_jobs m) @ [as_queue_id a]) else keys (mg_queue_jobs m))"
      using sp remember_fresh by auto
    then have "length (mg_queue_jobs m1) \<le> MAX_DISPATCHED_QUEUE_JOBS"
      using Cons.prems(2) by (metis length_keys length_trim_oldest min.cobounded1)
    note ih = Cons.IH [OF l [unfolded eqs(3)] this]
    have st: "startable env m1 = startable env m"
      by (subst m1) (simp add: startable_def can_print_def fun_eq_iff)
    have "guarded MAX_DISPATCHED_QUEUE_JOBS (de_send env) as_queue_id (keys (mg_queue_jobs m)) sent (keys (mg_queue_jobs m'))"
      using ih sp k1 Cons.prems(2) unfolding eqs(2)
      by (cases "de_send env a = Accepted"; cases "s1 = []") (auto intro: guarded_refused guarded_accepted)
    moreover have "list_all (startable env m) sent" using ih sp st unfolding eqs(2) by auto
    moreover have "set sent \<subseteq> set (List.map_filter assignment_of (v # vs))"
      using ih sp Some unfolding eqs(2) by (auto simp: in_map_filter)
    moreover have "m' = m\<lparr>mg_queue_jobs := mg_queue_jobs m'\<rparr>" using ih m1 by (metis (no_types, lifting) manager.surjective manager.update_convs(6))
    moreover have "\<exists>rss started. rs = concat rss \<and> list_all2 (\<lambda>(a, st) r. legal_reports (de_send env) st a r)
       (zip (List.map_filter assignment_of (v # vs)) started) rss \<and> length started = length (List.map_filter assignment_of (v # vs)) \<and>
       sent = map fst (filter snd (zip (List.map_filter assignment_of (v # vs)) started))"
    proof -
      obtain rss started where h: "r2 = concat rss" "list_all2 (\<lambda>(a, st) r. legal_reports (de_send env) st a r)
          (zip (List.map_filter assignment_of vs) started) rss" "length started = length (List.map_filter assignment_of vs)"
          "s2 = map fst (filter snd (zip (List.map_filter assignment_of vs) started))"
        using ih by blast
      show ?thesis
        by (rule exI [of _ "r1 # rss"], rule exI [of _ "(s1 \<noteq> []) # started"])
          (use h sp in \<open>auto simp: Some eqs\<close>)
    qed
    ultimately show ?thesis by blast
  qed
qed

text \<open>
  C15: Queue assignments start a print at most once. In one beat, an assignment is handed to a printer
  only when its submission identifier and file name are plain path components, its printer has an
  adapter that can print and the staged file exists, and never when its queue job is remembered at that
  moment; the guard afterwards holds the newest 1000 of the earlier queue jobs followed by those started.
  Each well-formed assignment reports, in order: \<open>uploading\<close> when it was handed over, followed by
  \<open>held\<close> exactly when the printer did not accept it; otherwise nothing or one \<open>held\<close>.
\<close>
theorem assignments_started_once:
  assumes "dispatch_assignments env now (PList vs) m = (rs, sent, m')"
    "length (mg_queue_jobs m) \<le> MAX_DISPATCHED_QUEUE_JOBS"
  shows "let items = List.map_filter assignment_of vs in
    list_all (startable env m) sent \<and>
    (\<forall>xs a ys. sent = xs @ a # ys \<longrightarrow> as_queue_id a \<notin>
       set (trim_oldest MAX_DISPATCHED_QUEUE_JOBS (keys (mg_queue_jobs m) @ accepted_ids (de_send env) as_queue_id xs))) \<and>
    keys (mg_queue_jobs m') = trim_oldest MAX_DISPATCHED_QUEUE_JOBS
       (keys (mg_queue_jobs m) @ accepted_ids (de_send env) as_queue_id sent) \<and>
    (\<exists>rss started. rs = concat rss \<and> length started = length items \<and>
       list_all2 (\<lambda>(a, st) r. legal_reports (de_send env) st a r) (zip items started) rss \<and>
       sent = map fst (filter snd (zip items started))) \<and>
    m' = m\<lparr>mg_queue_jobs := mg_queue_jobs m'\<rparr>"
proof -
  have "assignment_loop env now vs m = (rs, sent, m')"
    using assms(1) by (simp add: dispatch_assignments_def)
  from assignment_loop_spec [OF this assms(2)] show ?thesis
    unfolding guarded_def Let_def by blast
qed

definition example_assignment :: "string \<Rightarrow> pyval" where
  "example_assignment f = PDict [(''queueJobId'', PStr ''q''), (''printerId'', PStr ''p1''),
     (''submissionUid'', PStr ''0123abcd''), (''fileName'', PStr f)]"

definition example_dispatch :: dispatch_env where
  "example_dispatch = \<lparr>de_send = (\<lambda>_. Accepted), de_is_file = (\<lambda>_. True), de_objects = (\<lambda>_ _. [])\<rparr>"

lemma assignments_started_once_witness:
  "let vs = [example_assignment ''../a'', example_assignment ''a.3mf'', example_assignment ''a.3mf''];
       (rs, sent, m') = dispatch_assignments example_dispatch 0 (PList vs) example_running
   in list_all (startable example_dispatch example_running) sent \<and>
      rs = [Held_back ''q'' ''bad_assignment'', Uploading ''q'' []]"
proof -
  let ?vs = "[example_assignment ''../a'', example_assignment ''a.3mf'', example_assignment ''a.3mf'']"
  obtain rs sent m' where d: "dispatch_assignments example_dispatch 0 (PList ?vs) example_running = (rs, sent, m')"
    by (rule prod_cases3)
  have "length (mg_queue_jobs example_running) \<le> MAX_DISPATCHED_QUEUE_JOBS" by code_simp
  from assignments_started_once [OF d this] have "list_all (startable example_dispatch example_running) sent"
    by (simp add: Let_def)
  moreover have "fst (dispatch_assignments example_dispatch 0 (PList ?vs) example_running) =
      [Held_back ''q'' ''bad_assignment'', Uploading ''q'' []]" by code_simp
  ultimately show ?thesis using d by simp
qed

end
