(* ===== verification/VpConfig.thy ===== *)
theory VpConfig
  imports VpAuth LivePool
begin

text \<open>
  Configuration, \<open>makeros_hub/config.py\<close> and \<open>makeros_hub/enroll.py\<close>: the virtual printer block of the
  cloud's configuration, the local settings, rewriting the cloud address, and the credential file. The
  environment, the parsed settings file and \<open>str()\<close> of a value are parameters; the credential file is an
  explicit state that every system call changes.
\<close>

section \<open>The virtual printer block\<close>

record virtual_printer =
  vp_serial :: string
  vp_model :: string
  vp_name :: string
  vp_fw :: string
  vp_bind_ip :: string
  vp_units :: int
  vp_trays :: int
  vp_ams_type :: string
  vp_members :: "member list"
  vp_pool :: "(string \<times> pyval) list list"

definition get_field :: "(string \<times> pyval) list \<Rightarrow> string \<Rightarrow> string option \<Rightarrow> pyval \<Rightarrow> pyval" where
  "get_field raw key camel dflt = (case map_of raw key of
      Some v \<Rightarrow> v
    | None \<Rightarrow> (case camel of None \<Rightarrow> dflt | Some c \<Rightarrow> get_or raw c dflt))"

definition required_str :: "(string \<times> pyval) list \<Rightarrow> string \<Rightarrow> string option \<Rightarrow> string option" where
  "required_str raw key camel = (case get_field raw key camel PNone of
      PStr s \<Rightarrow> if strip s \<noteq> [] then Some (strip s) else None
    | _ \<Rightarrow> None)"

definition positive_int :: "pyval \<Rightarrow> int \<Rightarrow> int \<Rightarrow> int option" where
  "positive_int v dflt maximum =
     (if v = PNone \<or> v = PStr [] then Some dflt
      else (case py_int v of None \<Rightarrow> None | Some n \<Rightarrow> if n \<le> 0 \<or> maximum < n then None else Some n))"

definition octet_ok :: "string \<Rightarrow> bool" where
  "octet_ok p \<longleftrightarrow> p \<noteq> [] \<and> list_all is_digit p \<and> length p \<le> 3 \<and> \<not> (1 < length p \<and> hd p = CHR ''0'') \<and> nat_of_digits p \<le> 255"

definition is_ipv4 :: "string \<Rightarrow> bool" where
  "is_ipv4 s \<longleftrightarrow> (let parts = split_on (CHR ''.'') s in length parts = 4 \<and> list_all octet_ok parts)"

definition hash_ok :: "string \<Rightarrow> bool" where
  "hash_ok h \<longleftrightarrow> length h = 64 \<and> list_all (\<lambda>c. c \<in> set ''0123456789abcdef'') h"

definition member_of :: "pyval \<Rightarrow> member option" where
  "member_of item = (case item of
      PDict d \<Rightarrow>
        (case (get_field d ''access_code_sha256'' (Some ''accessCodeSha256'') PNone, get_field d ''member_id'' (Some ''memberId'') PNone) of
           (PStr h, PStr i) \<Rightarrow>
             (let hash = lower (strip h); mid = strip i
              in if hash = [] \<or> mid = [] \<or> \<not> hash_ok hash then None else Some \<lparr>mem_hash = hash, mem_id = mid\<rparr>)
         | _ \<Rightarrow> None)
    | _ \<Rightarrow> None)"

fun parse_members :: "pyval list \<Rightarrow> string list \<Rightarrow> member list" where
  "parse_members [] seen = []"
| "parse_members (item # rest) seen = (case member_of item of
      None \<Rightarrow> parse_members rest seen
    | Some m \<Rightarrow> if mem_hash m \<in> set seen then parse_members rest seen
        else m # parse_members rest (mem_hash m # seen))"

definition parse_vprinter_members :: "pyval \<Rightarrow> member list" where
  "parse_vprinter_members raw = (case raw of PList items \<Rightarrow> parse_members items [] | _ \<Rightarrow> [])"

definition normalize_vprinter_color :: "string \<Rightarrow> string" where
  "normalize_vprinter_color v =
     (let cleaned = upper (lstrip_by (\<lambda>c. c = CHR ''#'') (strip v))
      in if length cleaned = 6 \<and> list_all upper_hex cleaned then cleaned @ ''FF''
         else if length cleaned = 8 \<and> list_all upper_hex cleaned then cleaned
         else ''FFFFFFFF'')"

definition set_text :: "pyval \<Rightarrow> (string \<Rightarrow> (string \<times> pyval) list \<Rightarrow> (string \<times> pyval) list) \<Rightarrow> (string \<times> pyval) list \<Rightarrow> (string \<times> pyval) list" where
  "set_text v f tray = (case v of PStr s \<Rightarrow> if strip s \<noteq> [] then f s tray else tray | _ \<Rightarrow> tray)"

definition parse_tray :: "(pyval \<Rightarrow> string) \<Rightarrow> (string \<times> pyval) list \<Rightarrow> (string \<times> pyval) list" where
  "parse_tray rep tray =
     (let t1 = set_text (por (pget tray ''material'') (pget tray ''tray_type''))
                 (\<lambda>s t. AList.update ''tray_type'' (PStr (strip s)) t) tray;
          t2 = set_text (por (pget t1 ''color'') (pget t1 ''tray_color''))
                 (\<lambda>s t. let c = PStr (normalize_vprinter_color s)
                        in setdefault ''cols'' (PList [c]) (AList.update ''tray_color'' c t)) t1;
          t3 = setdefault ''tray_info_idx'' (por (pget t2 ''filament_id'') (por (pget t2 ''material_code'') (PStr []))) t2;
          t4 = setdefault ''tray_sub_brands'' (por (pget t3 ''productName'') (por (pget t3 ''product_name'') (PStr []))) t3;
          t5 = setdefault ''nozzle_temp_min'' (PStr (py_str rep (get_or t4 ''nozzle_temp_min'' (PStr ''190'')))) t4;
          t6 = setdefault ''nozzle_temp_max'' (PStr (py_str rep (get_or t5 ''nozzle_temp_max'' (PStr ''230'')))) t5;
          t7 = setdefault ''remain'' (get_or t6 ''remain'' (PInt (-1))) t6;
          t8 = setdefault ''tag_uid'' (get_or t7 ''tag_uid'' (PStr ''0000000000000000'')) t7
      in setdefault ''tray_uuid'' (get_or t8 ''tray_uuid'' (PStr ''00000000000000000000000000000000'')) t8)"

definition parse_vprinter_pool :: "(pyval \<Rightarrow> string) \<Rightarrow> pyval \<Rightarrow> (string \<times> pyval) list list option" where
  "parse_vprinter_pool rep raw = (case raw of
      PNone \<Rightarrow> Some []
    | PList items \<Rightarrow> Some (map (parse_tray rep) (List.map_filter (\<lambda>v. case v of PDict d \<Rightarrow> Some d | _ \<Rightarrow> None) items))
    | _ \<Rightarrow> None)"

definition parse_virtual_printer_config :: "(pyval \<Rightarrow> string) \<Rightarrow> pyval \<Rightarrow> virtual_printer option" where
  "parse_virtual_printer_config rep raw = (case raw of
      PDict d \<Rightarrow>
        if pget d ''enabled'' \<noteq> PBool True then None
        else (case (required_str d ''serial'' None, required_str d ''model'' None, required_str d ''name'' None,
                    required_str d ''fw'' None, required_str d ''bind_ip'' (Some ''bindIp'')) of
          (Some serial, Some model, Some name, Some fw, Some ip) \<Rightarrow>
            if \<not> is_ipv4 ip then None
            else (case (positive_int (get_field d ''units'' None (PInt 4)) 4 8, positive_int (get_field d ''trays'' None (PInt 4)) 4 4,
                        get_field d ''ams_type'' (Some ''amsType'') (PStr ''n3f'')) of
              (Some units, Some trays, PStr ams) \<Rightarrow>
                if ams \<notin> set [''n3f'', ''n3s'', ''ams''] then None
                else (let members = parse_vprinter_members (pget d ''members'') in
                  if members = [] then None
                  else (case parse_vprinter_pool rep (get_or d ''pool'' (PList [])) of
                      None \<Rightarrow> None
                    | Some pool \<Rightarrow> Some \<lparr>vp_serial = serial, vp_model = model, vp_name = name, vp_fw = fw, vp_bind_ip = ip,
                        vp_units = units, vp_trays = trays, vp_ams_type = ams, vp_members = members, vp_pool = pool\<rparr>))
            | _ \<Rightarrow> None)
        | _ \<Rightarrow> None)
    | _ \<Rightarrow> None)"

section \<open>Local settings\<close>

record settings =
  st_cloud_url :: string
  st_heartbeat :: int
  st_ingest_port :: int
  st_max_upload :: int

definition api_url :: "settings \<Rightarrow> string \<Rightarrow> string" where
  "api_url cfg endpoint = rstrip_by (\<lambda>c. c = CHR ''/'') (st_cloud_url cfg) @ ''/api/print/hub/'' @ endpoint"

text \<open>\<open>int(env or file or default)\<close>; an unset variable is the empty string.\<close>

definition int_setting :: "(string \<Rightarrow> string) \<Rightarrow> (string \<times> pyval) list \<Rightarrow> string \<Rightarrow> string \<Rightarrow> int \<Rightarrow> int result" where
  "int_setting env data var key dflt = (case py_int (por (PStr (env var)) (por (pget data key) (PInt dflt))) of
      None \<Rightarrow> Inl (ValueError ''int'') | Some n \<Rightarrow> Inr n)"

text \<open>A cloud address in the file that is not a string is refused here; the source fails at its first use.\<close>

definition load_config :: "(string \<Rightarrow> string) \<Rightarrow> (string \<times> pyval) list \<Rightarrow> string option \<Rightarrow> settings result" where
  "load_config env data override =
     (let cloud = por (case override of None \<Rightarrow> PNone | Some u \<Rightarrow> PStr u) (por (PStr (env ''MAKEROS_HUB_CLOUD_URL'')) (pget data ''cloud_url''))
      in case cloud of
          PStr url \<Rightarrow>
            if url = [] then Inl (RuntimeErr ''No cloud URL'')
            else res_bind (int_setting env data ''MAKEROS_HUB_HEARTBEAT_SEC'' ''heartbeat_sec'' 30) (\<lambda>hb.
                 res_bind (int_setting env data ''MAKEROS_HUB_INGEST_PORT'' ''ingest_port'' 8787) (\<lambda>port.
                 res_bind (int_setting env data ''MAKEROS_HUB_MAX_UPLOAD_MB'' ''max_upload_mb'' 256) (\<lambda>mb.
                   Inr \<lparr>st_cloud_url = url, st_heartbeat = hb, st_ingest_port = port, st_max_upload = mb\<rparr>)))
        | _ \<Rightarrow> Inl (RuntimeErr ''No cloud URL''))"

definition is_cloud_line :: "string \<Rightarrow> bool" where
  "is_cloud_line row = (let s = lstrip_by is_space row
     in startswith ''cloud_url'' s \<and> startswith ''='' (lstrip_by is_space (drop 9 s)))"

definition cloud_line :: "string \<Rightarrow> string" where
  "cloud_line url = ''cloud_url = '' @ [CHR 0x22] @ url @ [CHR 0x22] @ ''\<newline>''"

fun replace_line :: "string \<Rightarrow> string list \<Rightarrow> bool \<times> string list" where
  "replace_line line [] = (False, [])"
| "replace_line line (row # rows) =
     (if is_cloud_line row then (True, line # rows)
      else (let (replaced, out) = replace_line line rows in (replaced, row # out)))"

definition close_last :: "string list \<Rightarrow> string list" where
  "close_last out = (if out \<noteq> [] \<and> \<not> endswith ''\<newline>'' (last out) then butlast out @ [last out @ ''\<newline>''] else out)"

text \<open>The argument is the file as its lines with their ends, \<open>None\<close> when there is no file.\<close>

definition persist_cloud_url :: "string \<Rightarrow> string list option \<Rightarrow> string list" where
  "persist_cloud_url url file = (case file of
      None \<Rightarrow> [cloud_line url]
    | Some rows \<Rightarrow> (let (replaced, out) = replace_line (cloud_line url) rows
        in if replaced then out else close_last out @ [cloud_line url]))"

section \<open>The credential\<close>

record secret_file =
  sf_mode :: nat
  sf_content :: string

definition read_credential :: "(string \<Rightarrow> string) \<Rightarrow> secret_file option \<Rightarrow> string option" where
  "read_credential env file =
     (if env ''MAKEROS_HUB_CREDENTIAL_VALUE'' \<noteq> [] then Some (env ''MAKEROS_HUB_CREDENTIAL_VALUE'')
      else (case file of
          None \<Rightarrow> None
        | Some f \<Rightarrow> if strip (sf_content f) \<noteq> [] then Some (strip (sf_content f)) else None))"

text \<open>The states of the file after each system call: open with create and truncate (the mode applies to a
  new file only), write, chmod. 384 is octal 0600.\<close>

definition write_credential_states :: "string \<Rightarrow> secret_file option \<Rightarrow> secret_file list" where
  "write_credential_states cred file =
     (let opened = (case file of None \<Rightarrow> \<lparr>sf_mode = 384, sf_content = []\<rparr> | Some f \<Rightarrow> f\<lparr>sf_content := []\<rparr>);
          written = opened\<lparr>sf_content := cred\<rparr>
      in [opened, written, written\<lparr>sf_mode := 384\<rparr>])"

definition write_credential :: "string \<Rightarrow> secret_file option \<Rightarrow> secret_file option" where
  "write_credential cred file = Some (last (write_credential_states cred file))"

text \<open>Enrolment: the answer of the cloud is a status and a body; the result is the hub's identifier or a
  message to the operator, with the credential file after it.\<close>

definition enroll :: "(string \<Rightarrow> string) \<Rightarrow> bool \<Rightarrow> int \<times> (string \<times> pyval) list \<Rightarrow> secret_file option \<Rightarrow>
    string result \<times> secret_file option" where
  "enroll env force resp file =
     (if read_credential env file \<noteq> None \<and> \<not> force then (Inl (RuntimeErr ''already enrolled''), file)
      else (let (status, body) = resp in
        if status = 200
        then (case (pget body ''credential'', pget body ''hubId'') of
            (PStr cred, PStr hub) \<Rightarrow> (Inr hub, write_credential cred file)
          | _ \<Rightarrow> (Inl (RuntimeErr ''missing the credential/hubId''), file))
        else (Inl (RuntimeErr ''Enrollment failed''), file)))"

section \<open>What a parsed block promises\<close>

lemma parse_members_spec:
  "set (parse_members items seen) \<subseteq> {m. \<exists>v \<in> set items. member_of v = Some m} \<and>
   distinct (map mem_hash (parse_members items seen)) \<and> mem_hash ` set (parse_members items seen) \<inter> set seen = {}"
proof (induction items arbitrary: seen)
  case (Cons item items)
  show ?case
  proof (cases "member_of item")
    case None
    with Cons [of seen] show ?thesis by auto
  next
    case (Some m)
    with Cons [of seen] Cons [of "mem_hash m # seen"] show ?thesis by auto
  qed
qed simp

lemma member_of_valid: "member_of v = Some m \<Longrightarrow> hash_ok (mem_hash m) \<and> mem_id m \<noteq> []"
  by (auto simp: member_of_def Let_def split: pyval.splits if_splits)

lemma positive_int_range: "positive_int v dflt maximum = Some n \<Longrightarrow> 1 \<le> dflt \<Longrightarrow> dflt \<le> maximum \<Longrightarrow> 1 \<le> n \<and> n \<le> maximum"
  by (auto simp: positive_int_def split: if_splits option.splits)

lemma required_str_nonempty: "required_str d k c = Some s \<Longrightarrow> s \<noteq> []"
  by (auto simp: required_str_def split: pyval.splits if_splits)

lemma parse_fields:
  assumes "parse_virtual_printer_config rep raw = Some vp"
  shows "\<exists>d. raw = PDict d \<and> pget d ''enabled'' = PBool True \<and> required_str d ''serial'' None = Some (vp_serial vp) \<and>
    required_str d ''model'' None = Some (vp_model vp) \<and> required_str d ''name'' None = Some (vp_name vp) \<and>
    required_str d ''fw'' None = Some (vp_fw vp) \<and> required_str d ''bind_ip'' (Some ''bindIp'') = Some (vp_bind_ip vp) \<and>
    is_ipv4 (vp_bind_ip vp) \<and> positive_int (get_field d ''units'' None (PInt 4)) 4 8 = Some (vp_units vp) \<and>
    positive_int (get_field d ''trays'' None (PInt 4)) 4 4 = Some (vp_trays vp) \<and> vp_ams_type vp \<in> set [''n3f'', ''n3s'', ''ams''] \<and>
    vp_members vp = parse_vprinter_members (pget d ''members'') \<and> vp_members vp \<noteq> [] \<and>
    parse_vprinter_pool rep (get_or d ''pool'' (PList [])) = Some (vp_pool vp)"
  using assms
  by (simp add: parse_virtual_printer_config_def Let_def split: pyval.splits option.splits if_splits prod.splits)
     (auto simp: pget_def split: pyval.splits option.splits if_splits)

lemma members_valid:
  assumes "parse_virtual_printer_config rep raw = Some vp"
  shows "distinct (map mem_hash (vp_members vp)) \<and> (\<forall>m \<in> set (vp_members vp). hash_ok (mem_hash m) \<and> mem_id m \<noteq> [])"
proof -
  obtain d where "vp_members vp = parse_vprinter_members (pget d ''members'')"
    using parse_fields [OF assms] by blast
  then obtain items where m: "vp_members vp = parse_members items []"
    by (auto simp: parse_vprinter_members_def split: pyval.splits intro: that [of "[]"])
  have "set (parse_members items []) \<subseteq> {m. \<exists>v \<in> set items. member_of v = Some m}" "distinct (map mem_hash (parse_members items []))"
    using parse_members_spec [of items "[]"] by simp_all
  with m show ?thesis by (auto dest: member_of_valid)
qed

lemma find_distinct: "distinct (map mem_hash ms) \<Longrightarrow>
    map_option mem_id (List.find (\<lambda>m. mem_hash m = h) ms) = Some i \<longleftrightarrow> \<lparr>mem_hash = h, mem_id = i\<rparr> \<in> set ms"
proof (induction ms)
  case (Cons m ms)
  then show ?case by (cases m) (force simp: image_iff)
qed simp

text \<open>What the block itself says of its members: an entry names a member and the hash of his code.\<close>

definition entry_gives :: "pyval \<Rightarrow> string \<Rightarrow> string \<Rightarrow> bool" where
  "entry_gives v hash mid \<longleftrightarrow> (\<exists>d h i. v = PDict d \<and>
     get_field d ''access_code_sha256'' (Some ''accessCodeSha256'') PNone = PStr h \<and>
     get_field d ''member_id'' (Some ''memberId'') PNone = PStr i \<and>
     hash = lower (strip h) \<and> hash_ok hash \<and> mid = strip i \<and> mid \<noteq> [])"

definition listed_members :: "(string \<times> pyval) list \<Rightarrow> pyval list" where
  "listed_members d = (case pget d ''members'' of PList items \<Rightarrow> items | _ \<Rightarrow> [])"

text \<open>The first entry of the hash has this member.\<close>

definition first_member :: "pyval list \<Rightarrow> string \<Rightarrow> string \<Rightarrow> bool" where
  "first_member items hash mid \<longleftrightarrow> (\<exists>before v after. items = before @ v # after \<and> entry_gives v hash mid \<and>
     (\<forall>u \<in> set before. \<forall>other. \<not> entry_gives u hash other))"

lemma member_of_entry: "member_of v = Some m \<longleftrightarrow> entry_gives v (mem_hash m) (mem_id m)"
proof
  show "member_of v = Some m \<Longrightarrow> entry_gives v (mem_hash m) (mem_id m)"
    by (auto simp: member_of_def entry_gives_def Let_def split: pyval.splits if_splits)
  assume "entry_gives v (mem_hash m) (mem_id m)"
  moreover have "\<not> hash_ok []" by (simp add: hash_ok_def)
  ultimately show "member_of v = Some m" by (cases m) (auto simp: member_of_def entry_gives_def Let_def)
qed

lemma first_member_Cons:
  "first_member (v # items) h i \<longleftrightarrow> entry_gives v h i \<or> (\<forall>other. \<not> entry_gives v h other) \<and> first_member items h i"
proof
  assume "first_member (v # items) h i"
  then obtain before w after where w: "v # items = before @ w # after" "entry_gives w h i" "\<forall>u \<in> set before. \<forall>other. \<not> entry_gives u h other"
    unfolding first_member_def by blast
  then show "entry_gives v h i \<or> (\<forall>other. \<not> entry_gives v h other) \<and> first_member items h i"
    by (cases before) (auto simp: first_member_def)
next
  assume "entry_gives v h i \<or> (\<forall>other. \<not> entry_gives v h other) \<and> first_member items h i"
  then show "first_member (v # items) h i"
  proof (elim disjE conjE)
    assume "entry_gives v h i"
    then show ?thesis unfolding first_member_def by (intro exI [of _ "[]"]) auto
  next
    assume none: "\<forall>other. \<not> entry_gives v h other" and "first_member items h i"
    then obtain before w after where "items = before @ w # after" "entry_gives w h i" "\<forall>u \<in> set before. \<forall>other. \<not> entry_gives u h other"
      unfolding first_member_def by blast
    with none show ?thesis unfolding first_member_def by (intro exI [of _ "v # before"]) auto
  qed
qed

lemma entry_unique: "entry_gives v h i \<Longrightarrow> entry_gives v h' i' \<Longrightarrow> h' = h \<and> i' = i"
  by (auto simp: entry_gives_def)

lemma parsed_first: "(\<lparr>mem_hash = h, mem_id = i\<rparr> \<in> set (parse_members items seen)) \<longleftrightarrow> h \<notin> set seen \<and> first_member items h i"
proof (induction items arbitrary: seen)
  case Nil
  show ?case by (simp add: first_member_def)
next
  case (Cons v items)
  show ?case
  proof (cases "member_of v")
    case None
    then have "\<not> entry_gives v h j" for j using member_of_entry [of v "\<lparr>mem_hash = h, mem_id = j\<rparr>"] by simp
    with None Cons.IH [of seen] show ?thesis by (simp add: first_member_Cons)
  next
    case (Some m)
    then have m: "entry_gives v (mem_hash m) (mem_id m)" by (simp add: member_of_entry)
    then have e: "entry_gives v h j \<longleftrightarrow> h = mem_hash m \<and> j = mem_id m" for j using entry_unique by blast
    have eq: "\<lparr>mem_hash = h, mem_id = i\<rparr> = m \<longleftrightarrow> h = mem_hash m \<and> i = mem_id m" by (cases m) auto
    from Some Cons.IH [of seen] Cons.IH [of "mem_hash m # seen"] show ?thesis
      by (auto simp: first_member_Cons e eq)
  qed
qed

text \<open>
  C20: From the configuration to the login. A block that is accepted describes a usable virtual printer: its serial, model, name,
  firmware and address are the trimmed texts of the block, the address is an IPv4 one, it has one to eight units of one to four trays, and at
  least one of the listed entries names a member. And with these members installed, a code of at least eight characters logs in exactly the
  member that the first listed entry with the hash of this code names: every such entry counts, a later one of the same hash is
  ignored, and nobody else is let in.
\<close>
theorem configured_members_log_in:
  assumes "parse_virtual_printer_config rep (PDict d) = Some vp"
  shows "pget d ''enabled'' = PBool True \<and> required_str d ''serial'' None = Some (vp_serial vp) \<and>
    required_str d ''model'' None = Some (vp_model vp) \<and> required_str d ''name'' None = Some (vp_name vp) \<and>
    required_str d ''fw'' None = Some (vp_fw vp) \<and> required_str d ''bind_ip'' (Some ''bindIp'') = Some (vp_bind_ip vp) \<and>
    is_ipv4 (vp_bind_ip vp) \<and> 1 \<le> vp_units vp \<and> vp_units vp \<le> 8 \<and> 1 \<le> vp_trays vp \<and> vp_trays vp \<le> 4 \<and>
    (\<exists>hash mid. first_member (listed_members d) hash mid) \<and>
    (\<forall>sha code mid. lookup_member_id sha (as_members (replace_members a (vp_members vp))) (Some code) = Some mid \<longleftrightarrow>
       8 \<le> py_len code \<and> first_member (listed_members d) (sha code) mid)"
proof -
  have f: "pget d ''enabled'' = PBool True" "required_str d ''serial'' None = Some (vp_serial vp)" "required_str d ''model'' None = Some (vp_model vp)"
      "required_str d ''name'' None = Some (vp_name vp)" "required_str d ''fw'' None = Some (vp_fw vp)"
      "required_str d ''bind_ip'' (Some ''bindIp'') = Some (vp_bind_ip vp)"
      "is_ipv4 (vp_bind_ip vp)" "positive_int (get_field d ''units'' None (PInt 4)) 4 8 = Some (vp_units vp)"
      "positive_int (get_field d ''trays'' None (PInt 4)) 4 4 = Some (vp_trays vp)" "vp_members vp \<noteq> []"
      "vp_members vp = parse_vprinter_members (pget d ''members'')"
    using parse_fields [OF assms] by auto
  have ms: "vp_members vp = parse_members (listed_members d) []"
    by (simp add: f(11) parse_vprinter_members_def listed_members_def split: pyval.split)
  obtain h i where "\<lparr>mem_hash = h, mem_id = i\<rparr> \<in> set (vp_members vp)" using f(10) by (metis last_in_set member.surjective old.unit.exhaust)
  then have "\<exists>hash mid. first_member (listed_members d) hash mid"
    using parsed_first [of h i "listed_members d" "[]"] ms by auto
  moreover have "lookup_member_id sha (vp_members vp) (Some code) = Some i \<longleftrightarrow>
      8 \<le> py_len code \<and> first_member (listed_members d) (sha code) i" for sha code i
    using find_distinct [of "vp_members vp" "sha code" i] members_valid [OF assms] parsed_first [of "sha code" i "listed_members d" "[]"] ms
    by (simp only: lookup_member_id_find split: if_split) simp
  ultimately show ?thesis
    using f positive_int_range [OF f(8)] positive_int_range [OF f(9)] by (simp add: replace_members_def)
qed

definition sample_hash :: string where
  "sample_hash = replicate 64 (CHR ''a'')"

definition sample_fields :: "(string \<times> pyval) list" where
  "sample_fields = [(''enabled'', PBool True), (''serial'', PStr ''S''), (''model'', PStr ''P2S''), (''name'', PStr ''vp''),
     (''fw'', PStr ''1''), (''bindIp'', PStr ''10.0.0.7''),
     (''members'', PList [PDict [(''accessCodeSha256'', PStr sample_hash), (''memberId'', PStr ''m1'')],
        PDict [(''accessCodeSha256'', PStr sample_hash), (''memberId'', PStr ''m2'')]])]"

definition sample_block :: pyval where
  "sample_block = PDict sample_fields"

lemma configured_members_log_in_witness:
  "(case parse_virtual_printer_config (\<lambda>_. []) sample_block of
     None \<Rightarrow> False
   | Some vp \<Rightarrow> lookup_member_id (\<lambda>_. sample_hash) (vp_members vp) (Some ''12345678'') = Some ''m1'')"
proof -
  let ?vp = "\<lparr>vp_serial = ''S'', vp_model = ''P2S'', vp_name = ''vp'', vp_fw = ''1'', vp_bind_ip = ''10.0.0.7'',
    vp_units = 4, vp_trays = 4, vp_ams_type = ''n3f'', vp_members = [\<lparr>mem_hash = sample_hash, mem_id = ''m1''\<rparr>], vp_pool = []\<rparr>"
  have p: "parse_virtual_printer_config (\<lambda>_. []) (PDict sample_fields) = Some ?vp" by code_simp
  have "8 \<le> py_len ''12345678''" by code_simp
  moreover have "entry_gives (PDict [(''accessCodeSha256'', PStr sample_hash), (''memberId'', PStr ''m1'')]) sample_hash ''m1''"
  proof -
    have "member_of (PDict [(''accessCodeSha256'', PStr sample_hash), (''memberId'', PStr ''m1'')]) = Some \<lparr>mem_hash = sample_hash, mem_id = ''m1''\<rparr>"
      by code_simp
    then show ?thesis by (simp add: member_of_entry)
  qed
  then have "first_member (listed_members sample_fields) sample_hash ''m1''"
    by (simp add: listed_members_def sample_fields_def pget_def get_or_def first_member_Cons)
  ultimately show ?thesis
    using configured_members_log_in [OF p, of undefined] p by (simp add: replace_members_def sample_block_def)
qed

text \<open>Both normalisations of a colour agree, and both give eight upper-case hexadecimal digits.\<close>

lemma color_normalisations_agree: "s \<noteq> [] \<Longrightarrow> norm_color rep (PStr s) = normalize_vprinter_color s"
  by (simp add: norm_color_def normalize_vprinter_color_def por_def)

lemma normalized_color_hex: "length (normalize_vprinter_color s) = 8 \<and> list_all upper_hex (normalize_vprinter_color s)"
proof -
  have "list_all upper_hex ''FF''" "list_all upper_hex ''FFFFFFFF''" by (simp_all add: upper_hex_def)
  then show ?thesis by (simp add: normalize_vprinter_color_def Let_def)
qed

section \<open>Rewriting the settings file\<close>

lemma cloud_line_is_cloud_line: "is_cloud_line (cloud_line url)"
  by (simp add: is_cloud_line_def cloud_line_def lstrip_by_def is_space_def startswith_def)

lemma replace_line_spec: "replace_line line rows = (r, out) \<Longrightarrow>
    (r \<longleftrightarrow> (\<exists>x \<in> set rows. is_cloud_line x)) \<and>
    out = (if r then takeWhile (\<lambda>x. \<not> is_cloud_line x) rows @ line # tl (dropWhile (\<lambda>x. \<not> is_cloud_line x) rows) else rows)"
  by (induction rows arbitrary: r out) (auto split: if_splits prod.splits)

lemma startswith_snoc: "c \<notin> set p \<Longrightarrow> startswith p (s @ [c]) = startswith p s"
proof -
  assume c: "c \<notin> set p"
  show ?thesis
  proof (cases "length p \<le> length s")
    case True
    then show ?thesis by (simp add: startswith_def)
  next
    case False
    then have "take (length p) (s @ [c]) = s @ [c]" "take (length p) s = s" by simp_all
    moreover have "s @ [c] \<noteq> p" using c by (metis in_set_conv_decomp)
    moreover have "s \<noteq> p" using False by auto
    ultimately show ?thesis by (simp add: startswith_def)
  qed
qed

lemma lstrip_snoc: "lstrip_by is_space (s @ ''\<newline>'') = lstrip_by is_space s @ (if lstrip_by is_space s = [] then [] else ''\<newline>'')"
  by (induction s) (auto simp: lstrip_by_def is_space_def)

lemma is_cloud_line_newline: "is_cloud_line (row @ ''\<newline>'') = is_cloud_line row"
proof (cases "lstrip_by is_space row = []")
  case True
  then show ?thesis by (simp add: is_cloud_line_def lstrip_snoc startswith_def)
next
  case False
  let ?s = "lstrip_by is_space row"
  have head: "startswith ''cloud_url'' (?s @ ''\<newline>'') = startswith ''cloud_url'' ?s" by (rule startswith_snoc) simp
  show ?thesis
  proof (cases "startswith ''cloud_url'' ?s")
    case True
    then have "length (take (length ''cloud_url'') ?s) = length ''cloud_url''"
      unfolding startswith_def by (rule arg_cong)
    then have "9 \<le> length ?s" by simp
    then have "drop 9 (?s @ ''\<newline>'') = drop 9 ?s @ ''\<newline>''" by simp
    moreover have "startswith ''='' (lstrip_by is_space (drop 9 ?s @ ''\<newline>'')) = startswith ''='' (lstrip_by is_space (drop 9 ?s))"
      unfolding lstrip_snoc by (simp add: startswith_snoc)
    ultimately show ?thesis using False head by (simp add: is_cloud_line_def lstrip_snoc Let_def)
  next
    case nope: False
    with False head show ?thesis by (simp add: is_cloud_line_def lstrip_snoc Let_def)
  qed
qed

lemma close_last_spec: "concat (close_last rows) \<in> {concat rows, concat rows @ ''\<newline>''} \<and>
    ((\<exists>x \<in> set (close_last rows). is_cloud_line x) \<longleftrightarrow> (\<exists>x \<in> set rows. is_cloud_line x))"
proof (cases rows rule: rev_cases)
  case (snoc rs r)
  then show ?thesis by (simp add: close_last_def is_cloud_line_newline [simplified])
qed (simp add: close_last_def)

lemma find_None: "find P xs = None \<longleftrightarrow> \<not> (\<exists>x \<in> set xs. P x)"
  by (induction xs) auto

lemma find_append_None: "find P xs = None \<Longrightarrow> find P (xs @ ys) = find P ys"
  by (induction xs) (auto split: if_splits)

lemma find_takeWhile: "find P (takeWhile (\<lambda>x. \<not> P x) xs @ ys) = find P ys"
  by (induction xs) auto

lemma replace_line_id: "find is_cloud_line rows = Some line \<Longrightarrow> replace_line line rows = (True, rows)"
  by (induction rows) (auto split: if_splits)

text \<open>
  Rewriting the cloud address: the first cloud line of the new file is the given one, writing the same
  address again changes nothing, and without a cloud line the old text is kept in front of it, up to a
  missing final line end.
\<close>
theorem persist_cloud_url_effective:
  "find is_cloud_line (persist_cloud_url url file) = Some (cloud_line url) \<and>
   persist_cloud_url url (Some (persist_cloud_url url file)) = persist_cloud_url url file \<and>
   (\<forall>rows. file = Some rows \<and> \<not> (\<exists>x \<in> set rows. is_cloud_line x) \<longrightarrow>
      concat (persist_cloud_url url file) \<in> {concat rows @ cloud_line url, concat rows @ ''\<newline>'' @ cloud_line url})"
proof -
  have first: "find is_cloud_line (persist_cloud_url url file) = Some (cloud_line url)"
  proof (cases "file")
    case None
    then show ?thesis by (simp add: persist_cloud_url_def cloud_line_is_cloud_line)
  next
    case (Some rows)
    obtain r out where ro: "replace_line (cloud_line url) rows = (r, out)" by (rule prod.exhaust)
    note spec = replace_line_spec [OF ro]
    show ?thesis
    proof (cases r)
      case True
      with spec ro Some show ?thesis by (simp add: persist_cloud_url_def find_takeWhile cloud_line_is_cloud_line)
    next
      case False
      with spec have "find is_cloud_line (close_last out) = None" using close_last_spec [of rows] by (simp add: find_None)
      with False ro Some show ?thesis
        by (simp add: persist_cloud_url_def find_append_None cloud_line_is_cloud_line)
    qed
  qed
  moreover from replace_line_id [OF first]
  have "persist_cloud_url url (Some (persist_cloud_url url file)) = persist_cloud_url url file"
    by (simp add: persist_cloud_url_def)
  moreover have "concat (persist_cloud_url url (Some rows)) \<in> {concat rows @ cloud_line url, concat rows @ ''\<newline>'' @ cloud_line url}"
    if "\<not> (\<exists>x \<in> set rows. is_cloud_line x)" for rows
  proof -
    obtain r out where ro: "replace_line (cloud_line url) rows = (r, out)" by (rule prod.exhaust)
    from replace_line_spec [OF ro] that have "\<not> r" "out = rows" by auto
    with ro close_last_spec [of rows] show ?thesis by (auto simp: persist_cloud_url_def)
  qed
  ultimately show ?thesis by blast
qed

section \<open>The credential file\<close>

text \<open>A file created for the credential is never readable by others at any step; an existing file keeps
  its old mode while the secret is in it, until the final chmod.\<close>

lemma new_credential_never_exposed: "\<forall>f \<in> set (write_credential_states cred None). sf_mode f = 384"
  by (simp add: write_credential_states_def Let_def)

lemma existing_credential_exposed:
  "sf_mode f = m \<Longrightarrow> \<exists>g \<in> set (write_credential_states cred (Some f)). sf_content g = cred \<and> sf_mode g = m"
  by (simp add: write_credential_states_def Let_def)

lemma enroll_keeps_credential: "enroll env force resp file = (r, file') \<Longrightarrow> file' \<noteq> file \<Longrightarrow>
    \<exists>cred hub. fst resp = 200 \<and> pget (snd resp) ''credential'' = PStr cred \<and> r = Inr hub \<and>
      file' = Some \<lparr>sf_mode = 384, sf_content = cred\<rparr> \<and> (force \<or> read_credential env file = None)"
  by (auto simp: enroll_def write_credential_def write_credential_states_def Let_def split: if_splits pyval.splits prod.splits option.splits)

end
