(* ===== verification/VpManager.thy ===== *)
theory VpManager
  imports VpConfig
begin

text \<open>
  The virtual printer manager, \<open>makeros_hub/vprinter/manager.py\<close>: the supervisor that follows the list of
  configured virtual printers (start, hot-apply, restart, stop), the shared discovery registry, the
  version of the filament display that must only grow, and the facade the heartbeat thread reads. What
  the servers of a printer do is in \<open>MqttBroker\<close>, \<open>Ftp\<close>, \<open>Capture\<close> and \<open>Ssdp\<close>; here starting them is a
  parameter that may depend on the addresses already in use, pushing a report to the slicer may fail, and
  so may saving the version. The clock is in seconds.
\<close>

section \<open>State\<close>

type_synonym identity = "string \<times> string \<times> string \<times> string \<times> string \<times> int \<times> int \<times> string"

type_synonym hot = "(string \<times> string) list \<times> pyval option list list"

record vp_runtime =
  rt_config :: virtual_printer
  rt_members :: "member list"
  rt_version :: int
  rt_sig :: "pyval option list list"

record supervisor =
  sv_runtimes :: "(string, vp_runtime) odict"
  sv_identity :: "(string, identity) odict"
  sv_hot :: "(string, hot) odict"
  sv_registry :: "(string, string) odict option"
  sv_versions :: "(string, int) odict"

record vp_env =
  ve_starts :: "virtual_printer \<Rightarrow> string list \<Rightarrow> bool"
  ve_push_ok :: "virtual_printer \<Rightarrow> bool"
  ve_saves :: "string \<Rightarrow> bool"
  ve_listener_ok :: bool

definition new_supervisor :: supervisor where
  "new_supervisor = \<lparr>sv_runtimes = [], sv_identity = [], sv_hot = [], sv_registry = None, sv_versions = []\<rparr>"

section \<open>What identifies a configuration\<close>

definition identity_fingerprint :: "virtual_printer \<Rightarrow> identity" where
  "identity_fingerprint c = (vp_serial c, vp_model c, vp_name c, vp_fw c, vp_bind_ip c, vp_units c, vp_trays c, vp_ams_type c)"

text \<open>The JSON text of the displayed fields is taken as the list of the fields: equal texts are equal
  fields.\<close>

definition pool_identity :: "(string \<times> pyval) list list \<Rightarrow> pyval option list list" where
  "pool_identity pool = map (\<lambda>tray. map (map_of tray) [''tray_type'', ''tray_info_idx'', ''tray_sub_brands'', ''tray_color'', ''cols'']) pool"

definition displayed_pool :: "virtual_printer \<Rightarrow> (string \<times> pyval) list list" where
  "displayed_pool c = take (nat (vp_units c * vp_trays c)) (vp_pool c)"

definition pool_signature :: "virtual_printer \<Rightarrow> pyval option list list" where
  "pool_signature c = pool_identity (displayed_pool c)"

definition hot_state :: "virtual_printer \<Rightarrow> hot" where
  "hot_state c = (map (\<lambda>m. (mem_id m, mem_hash m)) (vp_members c), pool_identity (vp_pool c))"

definition safe_serial :: "string \<Rightarrow> string" where
  "safe_serial s = map (\<lambda>c. let n = (of_char c :: nat) in
     if is_digit c \<or> (65 \<le> n \<and> n \<le> 90) \<or> (97 \<le> n \<and> n \<le> 122) \<or> c \<in> set ''-_'' then c else CHR ''_'') s"

section \<open>One virtual printer\<close>

definition save_version :: "vp_env \<Rightarrow> string \<Rightarrow> int \<Rightarrow> (string, int) odict \<Rightarrow> (string, int) odict" where
  "save_version env serial v store = (if ve_saves env serial then AList.update (safe_serial serial) v store else store)"

definition new_runtime :: "int \<Rightarrow> virtual_printer \<Rightarrow> (string, int) odict \<Rightarrow> vp_runtime" where
  "new_runtime now c store = \<lparr>rt_config = c, rt_members = vp_members c,
     rt_version = max now (get_or store (safe_serial (vp_serial c)) 0 + 1), rt_sig = pool_signature c\<rparr>"

definition bump :: "int \<Rightarrow> virtual_printer \<Rightarrow> vp_runtime \<Rightarrow> vp_runtime" where
  "bump now c rt = (if pool_signature c = rt_sig rt then rt
     else rt\<lparr>rt_version := max now (rt_version rt + 1), rt_sig := pool_signature c\<rparr>)"

definition apply_hot :: "vp_env \<Rightarrow> int \<Rightarrow> virtual_printer \<Rightarrow> vp_runtime \<Rightarrow> (string, int) odict \<Rightarrow> vp_runtime \<times> (string, int) odict" where
  "apply_hot env now c rt store =
     (let rt1 = bump now c rt;
          store1 = (if pool_signature c = rt_sig rt then store else save_version env (vp_serial (rt_config rt)) (rt_version rt1) store)
      in (rt1\<lparr>rt_config := c, rt_members := vp_members c\<rparr>, store1))"

section \<open>The supervisor\<close>

definition stop_runtime :: "string \<Rightarrow> supervisor \<Rightarrow> supervisor" where
  "stop_runtime serial s = s\<lparr>sv_runtimes := AList.delete serial (sv_runtimes s), sv_identity := AList.delete serial (sv_identity s),
     sv_hot := AList.delete serial (sv_hot s),
     sv_registry := (if map_of (sv_runtimes s) serial = None then sv_registry s else map_option (AList.delete serial) (sv_registry s))\<rparr>"

definition stop_supervisor :: "supervisor \<Rightarrow> supervisor" where
  "stop_supervisor s = (fold stop_runtime (keys (sv_runtimes s)) s)\<lparr>sv_registry := None\<rparr>"

definition addresses :: "supervisor \<Rightarrow> string list" where
  "addresses s = map (\<lambda>(_, rt). vp_bind_ip (rt_config rt)) (sv_runtimes s)"

text \<open>A start that fails is cleaned up, which also takes the serial out of the registry.\<close>

definition start_fresh :: "vp_env \<Rightarrow> int \<Rightarrow> virtual_printer \<Rightarrow> supervisor \<Rightarrow> supervisor" where
  "start_fresh env now c s0 =
     (let serial = vp_serial c;
          s1 = (if map_of (sv_runtimes s0) serial = None then s0 else stop_runtime serial s0);
          rt = new_runtime now c (sv_versions s1);
          s2 = s1\<lparr>sv_versions := save_version env serial (rt_version rt) (sv_versions s1)\<rparr>
      in if ve_starts env c (addresses s1)
         then s2\<lparr>sv_runtimes := AList.update serial rt (sv_runtimes s2), sv_identity := AList.update serial (identity_fingerprint c) (sv_identity s2),
                 sv_hot := AList.update serial (hot_state c) (sv_hot s2), sv_registry := map_option (AList.update serial (vp_bind_ip c)) (sv_registry s2)\<rparr>
         else s2\<lparr>sv_registry := map_option (AList.delete serial) (sv_registry s2)\<rparr>)"

definition reconcile_vp :: "vp_env \<Rightarrow> int \<Rightarrow> virtual_printer \<Rightarrow> supervisor \<Rightarrow> supervisor" where
  "reconcile_vp env now c s =
     (case map_of (sv_runtimes s) (vp_serial c) of
        Some rt \<Rightarrow>
          if map_of (sv_identity s) (vp_serial c) = Some (identity_fingerprint c)
          then (if map_of (sv_hot s) (vp_serial c) = Some (hot_state c) then s
                else (let (rt', store) = apply_hot env now c rt (sv_versions s);
                          s1 = s\<lparr>sv_runtimes := AList.update (vp_serial c) rt' (sv_runtimes s), sv_versions := store\<rparr>
                      in if ve_push_ok env c then s1\<lparr>sv_hot := AList.update (vp_serial c) (hot_state c) (sv_hot s1)\<rparr> else s1))
          else start_fresh env now c s
      | None \<Rightarrow> start_fresh env now c s)"

text \<open>\<open>None\<close>: starting the shared listener raised, before anything was changed.\<close>

definition reconcile_vps :: "vp_env \<Rightarrow> int \<Rightarrow> virtual_printer list \<Rightarrow> supervisor \<Rightarrow> supervisor option" where
  "reconcile_vps env now configs s =
     (if configs = [] then Some (stop_supervisor s)
      else if sv_registry s = None \<and> \<not> ve_listener_ok env then None
      else (let s1 = (if sv_registry s = None then s\<lparr>sv_registry := Some []\<rparr> else s);
                s2 = fold stop_runtime (filter (\<lambda>k. k \<notin> set (map vp_serial configs)) (keys (sv_runtimes s1))) s1
            in Some (fold (reconcile_vp env now) configs s2)))"

definition current_identities :: "supervisor \<Rightarrow> (string \<times> string) list" where
  "current_identities s = map (\<lambda>k. (k, case map_of (sv_runtimes s) k of Some rt \<Rightarrow> vp_model (rt_config rt) | None \<Rightarrow> [])) (sort (keys (sv_runtimes s)))"

definition current_configs :: "supervisor \<Rightarrow> virtual_printer list" where
  "current_configs s = List.map_filter (\<lambda>k. map_option rt_config (map_of (sv_runtimes s) k)) (sort (keys (sv_runtimes s)))"

definition current_model :: "supervisor \<Rightarrow> string option" where
  "current_model s = (case current_identities s of [] \<Rightarrow> None | (_, m) # _ \<Rightarrow> Some m)"

section \<open>The facade\<close>

record facade =
  fc_supervisor :: "supervisor option"
  fc_model :: "string option"
  fc_identities :: "(string \<times> string) list"
  fc_configs :: "virtual_printer list"

definition snapshot :: "supervisor \<Rightarrow> facade" where
  "snapshot s = \<lparr>fc_supervisor = Some s, fc_model = current_model s, fc_identities = current_identities s, fc_configs = current_configs s\<rparr>"

text \<open>A new loop starts with a new supervisor but the versions saved on disk. The caches are written only
  after a reconciliation that did not raise.\<close>

definition reconcile_sync :: "vp_env \<Rightarrow> int \<Rightarrow> (string, int) odict \<Rightarrow> virtual_printer list \<Rightarrow> facade \<Rightarrow> unit result \<times> facade" where
  "reconcile_sync env now disk configs f =
     (if configs = [] \<and> fc_supervisor f = None then (Inr (), f\<lparr>fc_model := None, fc_identities := []\<rparr>)
      else (let s = (case fc_supervisor f of Some s \<Rightarrow> s | None \<Rightarrow> new_supervisor\<lparr>sv_versions := disk\<rparr>)
        in case reconcile_vps env now configs s of
            None \<Rightarrow> (Inl OSErr, f\<lparr>fc_supervisor := Some s\<rparr>)
          | Some s' \<Rightarrow> (Inr (), if configs = [] then \<lparr>fc_supervisor = None, fc_model = None, fc_identities = [], fc_configs = []\<rparr>
              else snapshot s')))"


section \<open>What the supervisor keeps\<close>

text \<open>Everything the supervisor holds about one serial: the runtime, the two fingerprints, and the address
  it is advertised at. An operation on one printer does not touch what is held about another.\<close>

definition held :: "supervisor \<Rightarrow> string \<Rightarrow> vp_runtime option \<times> identity option \<times> hot option \<times> string option" where
  "held s k = (map_of (sv_runtimes s) k, map_of (sv_identity s) k, map_of (sv_hot s) k, Option.bind (sv_registry s) (\<lambda>r. map_of r k))"

text \<open>\<open>sure\<close>: the recorded members and pool are those the runtime has, which a failed push of a report breaks.\<close>

definition entry_ok :: "bool \<Rightarrow> string \<Rightarrow> vp_runtime option \<times> identity option \<times> hot option \<times> string option \<Rightarrow> bool" where
  "entry_ok sure k = (\<lambda>(rt, ident, h, adv). case rt of
      None \<Rightarrow> ident = None \<and> h = None \<and> adv = None
    | Some r \<Rightarrow> vp_serial (rt_config r) = k \<and> ident = Some (identity_fingerprint (rt_config r)) \<and>
        (sure \<longrightarrow> h = Some (hot_state (rt_config r))) \<and> adv = Some (vp_bind_ip (rt_config r)) \<and>
        rt_members r = vp_members (rt_config r) \<and> rt_sig r = pool_signature (rt_config r))"

definition sv_ok :: "(string \<Rightarrow> bool) \<Rightarrow> supervisor \<Rightarrow> bool" where
  "sv_ok P s \<longleftrightarrow> wf_dict (sv_runtimes s) \<and> (\<forall>k. entry_ok (P k) k (held s k))"

text \<open>A printer follows a configuration: same identity, and the same members and displayed pool.\<close>

definition follows :: "virtual_printer \<Rightarrow> vp_runtime \<Rightarrow> bool" where
  "follows c rt \<longleftrightarrow> identity_fingerprint (rt_config rt) = identity_fingerprint c \<and> hot_state (rt_config rt) = hot_state c"

definition run_vps :: "(vp_env \<times> int \<times> virtual_printer list) list \<Rightarrow> supervisor \<Rightarrow> supervisor" where
  "run_vps steps s = fold (\<lambda>(env, now, cs) s. case reconcile_vps env now cs s of None \<Rightarrow> s | Some s' \<Rightarrow> s') steps s"

lemma run_vps_snoc: "run_vps (steps @ [(env, now, cs)]) s =
    (case reconcile_vps env now cs (run_vps steps s) of None \<Rightarrow> run_vps steps s | Some s' \<Rightarrow> s')"
  unfolding run_vps_def by simp

lemma held_stop: "held (stop_runtime k s) q = (if q = k
    then (None, None, None, if map_of (sv_runtimes s) k = None then Option.bind (sv_registry s) (\<lambda>r. map_of r k) else None)
    else held s q)"
  by (cases "sv_registry s") (auto simp: held_def stop_runtime_def map_of_delete)

lemma entry_ok_stop: "entry_ok b k (held s k) \<Longrightarrow> held (stop_runtime k s) k = (None, None, None, None)"
  unfolding held_stop by (auto simp: entry_ok_def held_def split: option.splits)

lemma registry_stop: "sv_registry (stop_runtime k s) = None \<longleftrightarrow> sv_registry s = None"
  by (simp add: stop_runtime_def)

lemma fold_stop_registry: "sv_registry (fold stop_runtime ks s) = None \<longleftrightarrow> sv_registry s = None"
  by (induction ks arbitrary: s) (simp_all add: registry_stop)

lemma sv_ok_entry: "sv_ok P s \<Longrightarrow> entry_ok (P k) k (held s k)"
  by (simp add: sv_ok_def)

lemma entry_ok_none [simp]: "entry_ok b k (None, None, None, None)"
  by (simp add: entry_ok_def)

lemma entry_ok_mono: "entry_ok b k h \<Longrightarrow> (b' \<Longrightarrow> b) \<Longrightarrow> entry_ok b' k h"
  by (cases h rule: prod_cases4, cases "fst h") (auto simp: entry_ok_def)

lemma sv_ok_stop [inv_intros]: "sv_ok P s \<Longrightarrow> sv_ok P (stop_runtime k s)"
proof -
  assume ok: "sv_ok P s"
  have "wf_dict (sv_runtimes (stop_runtime k s))"
    using ok by (simp add: sv_ok_def stop_runtime_def wf_dict_delete)
  moreover have "entry_ok (P q) q (held (stop_runtime k s) q)" for q
    using sv_ok_entry [OF ok, of q] entry_ok_stop [of "P k" k s] by (cases "q = k") (simp_all add: held_stop)
  ultimately show ?thesis by (simp add: sv_ok_def)
qed

lemma held_fold_stop:
  "sv_ok P s \<Longrightarrow> sv_ok P (fold stop_runtime ks s) \<and>
     held (fold stop_runtime ks s) q = (if q \<in> set ks then (None, None, None, None) else held s q)"
proof (induction ks arbitrary: s)
  case Nil
  then show ?case by simp
next
  case (Cons k ks)
  have ok: "sv_ok P (stop_runtime k s)" by (rule sv_ok_stop [OF Cons.prems])
  have own: "held (stop_runtime k s) k = (None, None, None, None)"
    by (rule entry_ok_stop [OF sv_ok_entry [OF Cons.prems]])
  show ?case using Cons.IH [OF ok] own by (auto simp: held_stop)
qed

lemma held_none_key: "sv_ok P s \<Longrightarrow> k \<notin> set (keys (sv_runtimes s)) \<Longrightarrow> held s k = (None, None, None, None)"
  using sv_ok_entry [of P s k] by (simp add: held_def entry_ok_def flip: map_of_None_keys)

lemma sv_ok_stop_all: "sv_ok P s \<Longrightarrow> sv_ok P (stop_supervisor s) \<and> sv_runtimes (stop_supervisor s) = []"
proof -
  assume ok: "sv_ok P s"
  let ?t = "fold stop_runtime (keys (sv_runtimes s)) s"
  have t: "held ?t k = (None, None, None, None)" for k
    using held_fold_stop [OF ok, of "keys (sv_runtimes s)" k] held_none_key [OF ok, of k] by (simp split: if_splits)
  have h: "held (stop_supervisor s) k = (None, None, None, None)" for k
    using t [of k] by (simp add: held_def stop_supervisor_def)
  have e: "sv_runtimes (stop_supervisor s) = []"
  proof -
    have "map_of (sv_runtimes (stop_supervisor s)) = Map.empty"
      using h by (simp add: held_def fun_eq_iff)
    then show ?thesis by simp
  qed
  with h show ?thesis by (simp add: sv_ok_def)
qed

lemma held_start_other: "q \<noteq> vp_serial c \<Longrightarrow> held (start_fresh env now c s) q = held s q"
  by (cases "sv_registry s") (auto simp: start_fresh_def Let_def held_def stop_runtime_def map_of_update map_of_delete)

lemma registry_start: "sv_registry (start_fresh env now c s) = None \<longleftrightarrow> sv_registry s = None"
  by (auto simp: start_fresh_def Let_def registry_stop)

lemma held_start_own:
  assumes "entry_ok b (vp_serial c) (held s (vp_serial c))" "sv_registry s \<noteq> None"
  shows "held (start_fresh env now c s) (vp_serial c) = (None, None, None, None) \<and> (\<exists>a. \<not> ve_starts env c a) \<or>
    (\<exists>rt. rt_config rt = c \<and> rt_members rt = vp_members c \<and> rt_sig rt = pool_signature c \<and>
      held (start_fresh env now c s) (vp_serial c) =
        (Some rt, Some (identity_fingerprint c), Some (hot_state c), Some (vp_bind_ip c)))"
proof -
  define s1 where "s1 = (if map_of (sv_runtimes s) (vp_serial c) = None then s else stop_runtime (vp_serial c) s)"
  have none: "held s1 (vp_serial c) = (None, None, None, None)"
    using assms(1) entry_ok_stop [OF assms(1)] by (auto simp: s1_def entry_ok_def held_def)
  have reg: "sv_registry s1 \<noteq> None"
    using assms(2) registry_stop [of "vp_serial c" s] by (simp add: s1_def del: not_None_eq)
  show ?thesis
  proof (cases "ve_starts env c (addresses s1)")
    case True
    with reg show ?thesis
      by (intro disjI2 exI [of _ "new_runtime now c (sv_versions s1)"])
        (auto simp: start_fresh_def Let_def held_def new_runtime_def map_of_update simp flip: s1_def)
  next
    case False
    with none reg show ?thesis
      by (intro disjI1) (auto simp: start_fresh_def Let_def held_def map_of_delete simp flip: s1_def)
  qed
qed


lemma keys_distinct_start: "wf_dict (sv_runtimes s) \<Longrightarrow> wf_dict (sv_runtimes (start_fresh env now c s))"
  by (auto simp: start_fresh_def Let_def stop_runtime_def wf_dict_update wf_dict_delete)

lemma registry_reconcile_vp: "sv_registry (reconcile_vp env now c s) = None \<longleftrightarrow> sv_registry s = None"
  by (simp add: reconcile_vp_def registry_start Let_def split: option.split prod.split)

lemma held_reconcile_other: "q \<noteq> vp_serial c \<Longrightarrow> held (reconcile_vp env now c s) q = held s q"
  by (simp add: reconcile_vp_def held_start_other Let_def split: option.split prod.split)
    (auto simp: held_def map_of_update)

lemma wf_reconcile_vp: "wf_dict (sv_runtimes s) \<Longrightarrow> wf_dict (sv_runtimes (reconcile_vp env now c s))"
  by (auto simp: reconcile_vp_def keys_distinct_start Let_def wf_dict_update split: option.split prod.split)

lemma fingerprint_fields: "identity_fingerprint c = identity_fingerprint d \<Longrightarrow> vp_serial c = vp_serial d \<and>
    vp_bind_ip c = vp_bind_ip d \<and> vp_units c = vp_units d \<and> vp_trays c = vp_trays d"
  by (simp add: identity_fingerprint_def)

lemma held_hot_apply:
  assumes "held s (vp_serial c) = (Some rt, Some (identity_fingerprint c), h, Some a)" "h \<noteq> Some (hot_state c)"
  shows "held (reconcile_vp env now c s) (vp_serial c) =
    (Some (fst (apply_hot env now c rt (sv_versions s))), Some (identity_fingerprint c),
     if ve_push_ok env c then Some (hot_state c) else h, Some a)"
  using assms by (auto simp: reconcile_vp_def held_def Let_def map_of_update split: prod.split)

lemma apply_hot_config: "rt_config (fst (apply_hot env now c rt store)) = c \<and>
    rt_members (fst (apply_hot env now c rt store)) = vp_members c \<and> rt_sig (fst (apply_hot env now c rt store)) = pool_signature c"
  by (auto simp: apply_hot_def Let_def bump_def)

text \<open>One configuration: its printer is up with its identity, and follows it as far as that is sure, or its servers could not be
  started.\<close>

lemma reconcile_vp_own:
  assumes ok: "entry_ok b (vp_serial c) (held s (vp_serial c))" and reg: "sv_registry s \<noteq> None" and push: "b' \<longrightarrow> b \<and> ve_push_ok env c"
  shows "entry_ok b' (vp_serial c) (held (reconcile_vp env now c s) (vp_serial c)) \<and>
    (case fst (held (reconcile_vp env now c s) (vp_serial c)) of
       None \<Rightarrow> \<exists>a. \<not> ve_starts env c a
     | Some rt \<Rightarrow> identity_fingerprint (rt_config rt) = identity_fingerprint c \<and> (b' \<longrightarrow> follows c rt))"
proof (cases "\<exists>rt. map_of (sv_runtimes s) (vp_serial c) = Some rt \<and> map_of (sv_identity s) (vp_serial c) = Some (identity_fingerprint c)")
  case True
  then obtain rt h where rt: "held s (vp_serial c) = (Some rt, Some (identity_fingerprint c), h, Some (vp_bind_ip (rt_config rt)))"
      and h: "b \<longrightarrow> h = Some (hot_state (rt_config rt))" and fp: "identity_fingerprint (rt_config rt) = identity_fingerprint c"
    using ok by (auto simp: entry_ok_def held_def)
  show ?thesis
  proof (cases "h = Some (hot_state c)")
    case True
    with rt have "reconcile_vp env now c s = s" by (simp add: reconcile_vp_def held_def)
    with ok rt h fp True push show ?thesis by (simp add: follows_def entry_ok_def)
  next
    case False
    show ?thesis
      using held_hot_apply [OF rt False, of env now] apply_hot_config [of env now c rt "sv_versions s"] fingerprint_fields [OF fp] push
      by (simp add: entry_ok_def follows_def)
  qed
next
  case False
  then have "reconcile_vp env now c s = start_fresh env now c s"
    by (auto simp: reconcile_vp_def split: option.split)
  with held_start_own [OF ok reg, of env now] show ?thesis
    by (auto simp: entry_ok_def follows_def)
qed

definition pushes_to :: "vp_env \<Rightarrow> virtual_printer list \<Rightarrow> string \<Rightarrow> bool" where
  "pushes_to env cs k \<longleftrightarrow> (\<forall>c \<in> set cs. vp_serial c = k \<longrightarrow> ve_push_ok env c)"

text \<open>The configuration that counts for a serial: the last one listed.\<close>

definition listed_last :: "virtual_printer list \<Rightarrow> string \<Rightarrow> virtual_printer option" where
  "listed_last cs k = List.find (\<lambda>c. vp_serial c = k) (rev cs)"

lemma find_by_key: "distinct (map f xs) \<Longrightarrow> x \<in> set xs \<Longrightarrow> List.find (\<lambda>y. f y = f x) xs = Some x"
  by (induction xs) force+

lemma listed_last_snoc: "listed_last (cs @ [c]) k = (if vp_serial c = k then Some c else listed_last cs k)"
  by (simp add: listed_last_def)

lemma fold_reconcile:
  assumes "sv_ok P s" "sv_registry s \<noteq> None" "\<And>k. Q k \<Longrightarrow> P k \<and> pushes_to env cs k"
  shows "sv_ok Q (fold (reconcile_vp env now) cs s) \<and> sv_registry (fold (reconcile_vp env now) cs s) \<noteq> None \<and>
   (\<forall>q. q \<notin> set (map vp_serial cs) \<longrightarrow> held (fold (reconcile_vp env now) cs s) q = held s q) \<and>
   (\<forall>k c. listed_last cs k = Some c \<longrightarrow> (case fst (held (fold (reconcile_vp env now) cs s) k) of
       None \<Rightarrow> \<exists>a. \<not> ve_starts env c a
     | Some rt \<Rightarrow> identity_fingerprint (rt_config rt) = identity_fingerprint c \<and> (Q k \<longrightarrow> follows c rt)))"
  using assms(3)
proof (induction cs rule: rev_induct)
  case Nil
  have "entry_ok (Q k) k (held s k)" for k
    using sv_ok_entry [OF assms(1), of k] Nil by (blast intro: entry_ok_mono)
  then show ?case using assms(1,2) by (simp add: sv_ok_def listed_last_def)
next
  case (snoc c cs)
  let ?t = "fold (reconcile_vp env now) cs s"
  let ?u = "reconcile_vp env now c ?t"
  have "\<And>k. Q k \<Longrightarrow> P k \<and> pushes_to env cs k" and push: "Q (vp_serial c) \<longrightarrow> Q (vp_serial c) \<and> ve_push_ok env c"
    using snoc.prems by (auto simp: pushes_to_def)
  note IH = snoc.IH [OF this(1)]
  have reg: "sv_registry ?t \<noteq> None" and entry: "entry_ok (Q (vp_serial c)) (vp_serial c) (held ?t (vp_serial c))"
    using IH by (blast intro: sv_ok_entry)+
  note own = reconcile_vp_own [OF entry reg push, of now]
  have "entry_ok (Q k) k (held ?u k)" for k
    using own IH by (cases "k = vp_serial c") (simp_all add: held_reconcile_other sv_ok_entry)
  then have "sv_ok Q ?u" using IH by (simp add: sv_ok_def wf_reconcile_vp)
  moreover have "sv_registry ?u \<noteq> None" using reg by (simp add: registry_reconcile_vp del: not_None_eq)
  moreover have "case fst (held ?u k) of None \<Rightarrow> \<exists>a. \<not> ve_starts env x a
     | Some rt \<Rightarrow> identity_fingerprint (rt_config rt) = identity_fingerprint x \<and> (Q k \<longrightarrow> follows x rt)"
    if "listed_last (cs @ [c]) k = Some x" for k x
    using that own IH by (cases "vp_serial c = k") (auto simp: listed_last_snoc held_reconcile_other)
  moreover have "\<forall>q. q \<notin> set (map vp_serial (cs @ [c])) \<longrightarrow> held ?u q = held s q"
    using IH by (simp add: held_reconcile_other)
  ultimately show ?case by simp
qed


lemma sv_ok_new: "sv_ok P new_supervisor"
  by (simp add: sv_ok_def new_supervisor_def held_def entry_ok_def)

lemma sv_ok_mono: "sv_ok P s \<Longrightarrow> (\<And>k. Q k \<Longrightarrow> P k) \<Longrightarrow> sv_ok Q s"
  unfolding sv_ok_def by (blast intro: entry_ok_mono)

lemma reconcile_vps_follows:
  assumes ok: "sv_ok P s" and push: "\<And>k. Q k \<Longrightarrow> P k \<and> pushes_to env cs k" and r: "reconcile_vps env now cs s = Some s'"
  shows "sv_ok Q s' \<and> set (keys (sv_runtimes s')) \<subseteq> set (map vp_serial cs) \<and>
    (\<forall>k c. listed_last cs k = Some c \<longrightarrow> (case map_of (sv_runtimes s') k of
       None \<Rightarrow> \<exists>a. \<not> ve_starts env c a
     | Some rt \<Rightarrow> identity_fingerprint (rt_config rt) = identity_fingerprint c \<and> (Q k \<longrightarrow> follows c rt)))"
proof (cases "cs = []")
  case True
  have "sv_ok Q s" using ok push by (blast intro: sv_ok_mono)
  with r True sv_ok_stop_all show ?thesis by (auto simp: reconcile_vps_def listed_last_def)
next
  case False
  define s1 where "s1 = (if sv_registry s = None then s\<lparr>sv_registry := Some []\<rparr> else s)"
  define gone where "gone = filter (\<lambda>k. k \<notin> set (map vp_serial cs)) (keys (sv_runtimes s1))"
  define s2 where "s2 = fold stop_runtime gone s1"
  have s': "s' = fold (reconcile_vp env now) cs s2"
    using r False by (cases "sv_registry s") (simp_all add: reconcile_vps_def s1_def s2_def gone_def Let_def split: if_splits)
  have same: "held s1 k = held s k" for k
    by (simp add: s1_def held_def)
  have ok1: "sv_ok P s1" using ok same by (simp add: sv_ok_def s1_def)
  have reg: "sv_registry s2 \<noteq> None"
    using fold_stop_registry [of gone s1] by (simp add: s2_def s1_def del: not_None_eq)
  note stopped = held_fold_stop [OF ok1, of gone, folded s2_def]
  have all: "sv_ok Q s' \<and> sv_registry s' \<noteq> None \<and> (\<forall>q. q \<notin> set (map vp_serial cs) \<longrightarrow> held s' q = held s2 q) \<and>
   (\<forall>k c. listed_last cs k = Some c \<longrightarrow> (case fst (held s' k) of None \<Rightarrow> \<exists>a. \<not> ve_starts env c a
     | Some rt \<Rightarrow> identity_fingerprint (rt_config rt) = identity_fingerprint c \<and> (Q k \<longrightarrow> follows c rt)))"
    unfolding s' by (rule fold_reconcile [OF stopped [THEN conjunct1] reg push])
  have others: "map_of (sv_runtimes s') q = None" if q: "q \<notin> set (map vp_serial cs)" for q
  proof -
    have "held s' q = held s2 q" using all q by blast
    also have "\<dots> = (None, None, None, None)"
      using stopped [of q] q held_none_key [OF ok1, of q] by (auto simp: gone_def)
    finally show ?thesis by (simp add: held_def)
  qed
  have "set (keys (sv_runtimes s')) \<subseteq> set (map vp_serial cs)"
  proof (rule subsetI, rule ccontr)
    fix k assume "k \<in> set (keys (sv_runtimes s'))" "k \<notin> set (map vp_serial cs)"
    with others [of k] show False by (simp only: map_of_None_keys) simp
  qed
  with all show ?thesis by (simp add: held_def)
qed

text \<open>No push of a report to this printer failed in the history.\<close>

definition never_failed :: "(vp_env \<times> int \<times> virtual_printer list) list \<Rightarrow> string \<Rightarrow> bool" where
  "never_failed steps k \<longleftrightarrow> (\<forall>(env, now, cs) \<in> set steps. pushes_to env cs k)"

lemma sv_ok_run: "sv_ok (never_failed steps) (run_vps steps new_supervisor)"
proof (induction steps rule: rev_induct)
  case Nil
  then show ?case by (simp add: run_vps_def sv_ok_new)
next
  case (snoc e steps)
  obtain env now cs where e: "e = (env, now, cs)" by (cases e)
  let ?s = "run_vps steps new_supervisor"
  have mono: "never_failed steps k \<and> pushes_to env cs k" if "never_failed (steps @ [e]) k" for k
    using that by (auto simp: never_failed_def e)
  have "sv_ok (never_failed (steps @ [e])) (case reconcile_vps env now cs ?s of None \<Rightarrow> ?s | Some s' \<Rightarrow> s')"
    using reconcile_vps_follows [OF snoc mono] sv_ok_mono [OF snoc] mono by (auto split: option.split)
  then show ?case by (simp only: e run_vps_snoc)
qed

section \<open>Properties\<close>


lemma fold_reconcile_idle:
  "\<forall>c\<in>set cs. \<exists>rt. held s (vp_serial c) = (Some rt, Some (identity_fingerprint c), Some (hot_state c), a c) \<Longrightarrow>
   fold (reconcile_vp env now) cs s = s"
proof (induction cs)
  case (Cons c cs)
  then have "reconcile_vp env now c s = s" by (auto simp: reconcile_vp_def held_def)
  with Cons show ?case by simp
qed simp

text \<open>A heartbeat that repeats the configuration the printers already follow changes nothing, whatever the
  clock: no server is restarted under a slicer, no version moves, no listener is started.\<close>
lemma repeated_config_is_idle:
  assumes "\<forall>c\<in>set cs. never_failed (steps @ [(env, now, cs)]) (vp_serial c)" "distinct (map vp_serial cs)"
    and "reconcile_vps env now cs (run_vps steps new_supervisor) = Some s"
    and "\<forall>c\<in>set cs. \<forall>a. ve_starts env c a"
  shows "reconcile_vps env' now' cs s = Some s"
proof (cases "cs = []")
  case True
  have "sv_runtimes (stop_supervisor (run_vps steps new_supervisor)) = []" using sv_ok_stop_all [OF sv_ok_run] by blast
  moreover have "s = stop_supervisor (run_vps steps new_supervisor)" using assms(3) True by (simp add: reconcile_vps_def)
  ultimately have "sv_runtimes s = []" "sv_registry s = None" by (simp_all add: stop_supervisor_def)
  with True show ?thesis by (simp add: reconcile_vps_def stop_supervisor_def)
next
  case False
  let ?Q = "never_failed (steps @ [(env, now, cs)])"
  have mono: "never_failed steps k \<and> pushes_to env cs k" if "?Q k" for k
    using that by (auto simp: never_failed_def)
  note f = reconcile_vps_follows [OF sv_ok_run mono assms(3)]
  have last: "listed_last cs (vp_serial c) = Some c" if "c \<in> set cs" for c
  proof -
    have "distinct (map vp_serial (rev cs))" "c \<in> set (rev cs)" using assms(2) that by (simp_all add: rev_map [symmetric])
    then show ?thesis unfolding listed_last_def by (rule find_by_key)
  qed
  have live: "\<exists>rt. map_of (sv_runtimes s) (vp_serial c) = Some rt \<and> follows c rt" if c: "c \<in> set cs" for c
  proof -
    have "case map_of (sv_runtimes s) (vp_serial c) of None \<Rightarrow> \<exists>a. \<not> ve_starts env c a
       | Some rt \<Rightarrow> identity_fingerprint (rt_config rt) = identity_fingerprint c \<and> (?Q (vp_serial c) \<longrightarrow> follows c rt)"
      using f last [OF c] by blast
    with assms(1,4) c show ?thesis by (cases "map_of (sv_runtimes s) (vp_serial c)") auto
  qed
  then have h: "\<exists>rt. held s (vp_serial c) = (Some rt, Some (identity_fingerprint c), Some (hot_state c), Some (vp_bind_ip c))"
    if c: "c \<in> set cs" for c
  proof -
    obtain rt where rt: "map_of (sv_runtimes s) (vp_serial c) = Some rt" "follows c rt" using live [OF c] by blast
    have "entry_ok (?Q (vp_serial c)) (vp_serial c) (held s (vp_serial c))" using f by (blast intro: sv_ok_entry)
    with rt assms(1) c show ?thesis by (auto simp: entry_ok_def held_def follows_def dest: fingerprint_fields)
  qed
  obtain c where "c \<in> set cs" using False by (cases cs) auto
  with h [of c] have reg: "sv_registry s \<noteq> None" by (cases "sv_registry s") (auto simp: held_def)
  have none: "filter (\<lambda>k. k \<notin> set (map vp_serial cs)) (keys (sv_runtimes s)) = []"
    using f by (auto simp: filter_empty_conv)
  have "fold (reconcile_vp env' now') cs s = s"
    using h by (intro fold_reconcile_idle [where a = "\<lambda>c. Some (vp_bind_ip c)"]) blast
  moreover obtain r where "sv_registry s = Some r" using reg by blast
  ultimately show ?thesis using False none by (simp add: reconcile_vps_def Let_def del: set_map filter_empty_conv)
qed


section \<open>The version of the filament display\<close>

definition saving_step :: "vp_env \<times> int \<times> virtual_printer list \<Rightarrow> bool" where
  "saving_step = (\<lambda>(env, now, cs). list_all (\<lambda>c. ve_saves env (vp_serial c) \<and> safe_serial (vp_serial c) = vp_serial c) cs)"

definition versions_saved :: "supervisor \<Rightarrow> bool" where
  "versions_saved s \<longleftrightarrow> (\<forall>k rt. map_of (sv_runtimes s) k = Some rt \<longrightarrow>
     vp_serial (rt_config rt) = k \<and> safe_serial k = k \<and> get_or (sv_versions s) k 0 = rt_version rt)"

definition version_step :: "supervisor \<Rightarrow> supervisor \<Rightarrow> bool" where
  "version_step s s' \<longleftrightarrow> versions_saved s' \<and> (\<forall>k. get_or (sv_versions s) k 0 < get_or (sv_versions s') k 0 \<or>
     get_or (sv_versions s) k 0 = get_or (sv_versions s') k 0 \<and>
     (\<forall>rt'. map_of (sv_runtimes s') k = Some rt' \<longrightarrow> (\<exists>rt. map_of (sv_runtimes s) k = Some rt \<and> rt_sig rt = rt_sig rt')))"

lemma version_step_refl: "versions_saved s \<Longrightarrow> version_step s s"
  by (simp add: version_step_def)

lemma version_step_trans [trans]: "version_step s t \<Longrightarrow> version_step t u \<Longrightarrow> version_step s u"
proof -
  assume a: "version_step s t" "version_step t u"
  have "get_or (sv_versions s) k 0 < get_or (sv_versions u) k 0 \<or>
     get_or (sv_versions s) k 0 = get_or (sv_versions u) k 0 \<and>
     (\<forall>rt'. map_of (sv_runtimes u) k = Some rt' \<longrightarrow> (\<exists>rt. map_of (sv_runtimes s) k = Some rt \<and> rt_sig rt = rt_sig rt'))" for k
    using a(1) [unfolded version_step_def, THEN conjunct2, rule_format, of k]
      a(2) [unfolded version_step_def, THEN conjunct2, rule_format, of k] by fastforce
  with a(2) show ?thesis by (simp add: version_step_def)
qed

lemma version_step_stop: "versions_saved s \<Longrightarrow> version_step s (stop_runtime k s)"
  by (auto simp: version_step_def versions_saved_def stop_runtime_def map_of_delete split: if_splits)

lemma version_step_stops: "versions_saved s \<Longrightarrow> version_step s (fold stop_runtime ks s)"
proof (induction ks arbitrary: s)
  case Nil
  then show ?case by (simp add: version_step_refl)
next
  case (Cons k ks)
  have s: "version_step s (stop_runtime k s)" by (rule version_step_stop [OF Cons.prems])
  then have "version_step (stop_runtime k s) (fold stop_runtime ks (stop_runtime k s))"
    by (intro Cons.IH) (simp add: version_step_def)
  with s show ?case by (simp add: version_step_trans)
qed

lemma version_step_registry: "version_step s t \<Longrightarrow> version_step s (t\<lparr>sv_registry := r\<rparr>)"
  "versions_saved (s\<lparr>sv_registry := r\<rparr>) = versions_saved s" "version_step (s\<lparr>sv_registry := r\<rparr>) t = version_step s t"
  by (simp_all add: version_step_def versions_saved_def)

lemma version_step_start:
  assumes "versions_saved s" "ve_saves env (vp_serial c)" "safe_serial (vp_serial c) = vp_serial c"
  shows "version_step s (start_fresh env now c s)"
proof -
  define s1 where "s1 = (if map_of (sv_runtimes s) (vp_serial c) = None then s else stop_runtime (vp_serial c) s)"
  have step: "version_step s s1" using assms(1) by (simp add: s1_def version_step_refl version_step_stop)
  have none: "map_of (sv_runtimes s1) (vp_serial c) = None" by (simp add: s1_def stop_runtime_def map_of_delete)
  have saved: "versions_saved s1" using step by (simp add: version_step_def)
  have "version_step s1 (start_fresh env now c s)"
    using saved none assms(2,3)
    by (auto simp: start_fresh_def Let_def version_step_def versions_saved_def new_runtime_def save_version_def
        get_or_update map_of_update simp flip: s1_def)
  with step show ?thesis by (rule version_step_trans)
qed

lemma version_step_hot:
  assumes saved: "versions_saved s" and c: "ve_saves env (vp_serial c)" "safe_serial (vp_serial c) = vp_serial c"
    and rt: "map_of (sv_runtimes s) (vp_serial c) = Some rt" and r: "apply_hot env now c rt (sv_versions s) = (rt', store)"
  shows "version_step s (s\<lparr>sv_runtimes := AList.update (vp_serial c) rt' (sv_runtimes s), sv_versions := store\<rparr>)"
proof -
  have own: "vp_serial (rt_config rt) = vp_serial c" "get_or (sv_versions s) (vp_serial c) 0 = rt_version rt"
    using saved rt by (auto simp: versions_saved_def)
  show ?thesis
    using own saved c rt r
    by (auto simp: apply_hot_def Let_def bump_def version_step_def versions_saved_def save_version_def get_or_update map_of_update
        split: if_splits)
qed

lemma version_step_reconcile_vp:
  assumes "versions_saved s" "ve_saves env (vp_serial c)" "safe_serial (vp_serial c) = vp_serial c"
  shows "version_step s (reconcile_vp env now c s)"
proof (cases "map_of (sv_runtimes s) (vp_serial c)")
  case None
  then show ?thesis by (simp add: reconcile_vp_def version_step_start [OF assms])
next
  case (Some rt)
  obtain rt' store where r: "apply_hot env now c rt (sv_versions s) = (rt', store)" by fastforce
  note hot = version_step_hot [OF assms Some r]
  then have "version_step s (s\<lparr>sv_runtimes := AList.update (vp_serial c) rt' (sv_runtimes s), sv_versions := store, sv_hot := h\<rparr>)" for h
    by (simp add: version_step_def versions_saved_def)
  with Some r hot assms show ?thesis
    by (simp add: reconcile_vp_def version_step_start version_step_refl Let_def)
qed

lemma version_step_fold:
  "versions_saved s \<Longrightarrow> saving_step (env, now, cs) \<Longrightarrow> version_step s (fold (reconcile_vp env now) cs s)"
proof (induction cs arbitrary: s)
  case Nil
  then show ?case by (simp add: version_step_refl)
next
  case (Cons c cs)
  have s: "version_step s (reconcile_vp env now c s)"
    using Cons.prems by (intro version_step_reconcile_vp) (auto simp: saving_step_def)
  then have "version_step (reconcile_vp env now c s) (fold (reconcile_vp env now) cs (reconcile_vp env now c s))"
    using Cons.prems by (intro Cons.IH) (auto simp: saving_step_def version_step_def)
  with s show ?case by (simp add: version_step_trans)
qed

lemma version_step_reconcile:
  assumes "versions_saved s" "saving_step (env, now, cs)" "reconcile_vps env now cs s = Some s'"
  shows "version_step s s'"
proof (cases "cs = []")
  case True
  with assms version_step_stops [OF assms(1), of "keys (sv_runtimes s)"] show ?thesis
    by (auto simp: reconcile_vps_def stop_supervisor_def intro: version_step_registry(1))
next
  case False
  define s1 where "s1 = (if sv_registry s = None then s\<lparr>sv_registry := Some []\<rparr> else s)"
  define s2 where "s2 = fold stop_runtime (filter (\<lambda>k. k \<notin> set (map vp_serial cs)) (keys (sv_runtimes s1))) s1"
  have s': "s' = fold (reconcile_vp env now) cs s2"
    using assms(3) False by (cases "sv_registry s") (simp_all add: reconcile_vps_def s1_def s2_def Let_def split: if_splits)
  have "versions_saved s1" "version_step s s1"
    using assms(1) version_step_refl [OF assms(1)] by (simp_all add: s1_def version_step_registry)
  then have "version_step s s2" unfolding s2_def by (blast intro: version_step_stops version_step_trans)
  then show ?thesis using version_step_fold [of s2 env now cs] assms(2) s'
    by (simp add: version_step_def [of s s2]) (metis version_step_def version_step_trans \<open>version_step s s2\<close>)
qed

lemma version_step_run: "list_all saving_step steps \<Longrightarrow> versions_saved s \<Longrightarrow> version_step s (run_vps steps s)"
proof (induction steps arbitrary: s)
  case Nil
  then show ?case by (simp add: run_vps_def version_step_refl)
next
  case (Cons e steps)
  obtain env now cs where e: "e = (env, now, cs)" by (cases e)
  define t where "t = (case reconcile_vps env now cs s of None \<Rightarrow> s | Some s' \<Rightarrow> s')"
  have s: "version_step s t"
    using Cons.prems version_step_reconcile [of s env now cs] by (auto simp: t_def e version_step_refl split: option.split)
  then have "version_step t (run_vps steps t)"
    using Cons.prems by (intro Cons.IH) (auto simp: version_step_def)
  with s have "version_step s (run_vps steps t)" by (rule version_step_trans)
  then show ?case by (simp add: run_vps_def e t_def)
qed

text \<open>
  Whatever the wall clock does, and through hot applies, restarts and stops: a printer never shows a
  smaller version than it showed before, and shows the same version only with the same displayed pool.
  Slicers re-read the trays only when the version grows, so they never keep a stale pool. Saving must
  succeed, and serials must be file-name safe (letters, digits, dash, underscore).\<close>
lemma ams_version_monotone:
  assumes "list_all saving_step (before @ after)"
    and "map_of (sv_runtimes (run_vps before (new_supervisor\<lparr>sv_versions := disk\<rparr>))) k = Some rt"
    and "map_of (sv_runtimes (run_vps (before @ after) (new_supervisor\<lparr>sv_versions := disk\<rparr>))) k = Some rt'"
  shows "rt_version rt < rt_version rt' \<or> rt_version rt = rt_version rt' \<and> rt_sig rt = rt_sig rt'"
proof -
  define s0 where "s0 = new_supervisor\<lparr>sv_versions := disk\<rparr>"
  let ?s = "run_vps before s0"
  note assms = assms [folded s0_def]
  have "versions_saved s0" by (simp add: s0_def versions_saved_def new_supervisor_def)
  then have s: "versions_saved ?s" using version_step_run [of before s0] assms(1) by (simp add: version_step_def)
  have split: "run_vps (before @ after) s0 = run_vps after ?s" by (simp add: run_vps_def)
  have t: "version_step ?s (run_vps after ?s)" using assms(1) s by (intro version_step_run) simp_all
  have "get_or (sv_versions ?s) k 0 = rt_version rt" "get_or (sv_versions (run_vps after ?s)) k 0 = rt_version rt'"
    using s t assms(2,3) by (auto simp: versions_saved_def version_step_def split)
  with t [unfolded version_step_def, THEN conjunct2, rule_format, of k] assms(2,3) show ?thesis
    by (auto simp: split)
qed


section \<open>Witnesses and findings\<close>

definition sample_vp :: "string \<Rightarrow> string \<Rightarrow> string list \<Rightarrow> string \<Rightarrow> virtual_printer" where
  "sample_vp serial ip codes tray_type = \<lparr>vp_serial = serial, vp_model = ''P2S'', vp_name = ''vp'', vp_fw = ''01.02'', vp_bind_ip = ip,
     vp_units = 1, vp_trays = 4, vp_ams_type = ''ams'', vp_members = map (\<lambda>c. \<lparr>mem_hash = c, mem_id = ''m'' @ c\<rparr>) codes,
     vp_pool = [[(''tray_type'', PStr tray_type)]]\<rparr>"

text \<open>A server can bind an address no other live printer holds.\<close>

definition sample_env :: "bool \<Rightarrow> vp_env" where
  "sample_env push = \<lparr>ve_starts = (\<lambda>c taken. vp_bind_ip c \<notin> set taken), ve_push_ok = (\<lambda>_. push), ve_saves = (\<lambda>_. True), ve_listener_ok = True\<rparr>"

definition sample_history :: "(vp_env \<times> int \<times> virtual_printer list) list" where
  "sample_history = [(sample_env True, 100, [sample_vp ''A'' ''10.0.0.2'' [''aa''] ''PLA'', sample_vp ''B'' ''10.0.0.3'' [''bb''] ''PLA''])]"


lemma repeated_config_is_idle_witness:
  "let env = (sample_env True)\<lparr>ve_starts := \<lambda>_ _. True\<rparr>; cs = [sample_vp ''B'' ''10.0.0.3'' [''bb''] ''ABS''];
       s = the (reconcile_vps env 90 cs (run_vps sample_history new_supervisor))
   in reconcile_vps (sample_env False) 50 cs s = Some s"
proof -
  let ?env = "(sample_env True)\<lparr>ve_starts := \<lambda>_ _. True\<rparr>"
  let ?cs = "[sample_vp ''B'' ''10.0.0.3'' [''bb''] ''ABS'']"
  have good: "\<forall>c\<in>set ?cs. never_failed (sample_history @ [(?env, 90, ?cs)]) (vp_serial c)"
    by (simp add: never_failed_def pushes_to_def sample_history_def sample_env_def)
  have some: "reconcile_vps ?env 90 ?cs (run_vps sample_history new_supervisor) =
      Some (the (reconcile_vps ?env 90 ?cs (run_vps sample_history new_supervisor)))"
    by (simp add: reconcile_vps_def sample_env_def Let_def)
  show ?thesis using repeated_config_is_idle [OF good _ some, of "sample_env False" 50] by simp
qed

text \<open>The clock goes back and only the displayed pool changes: the version still grows.\<close>
lemma ams_version_monotone_witness:
  "rt_version (the (map_of (sv_runtimes (run_vps sample_history (new_supervisor\<lparr>sv_versions := [(''A'', 150)]\<rparr>))) ''A'')) <
   rt_version (the (map_of (sv_runtimes (run_vps (sample_history @ [(sample_env False, 7, [sample_vp ''A'' ''10.0.0.2'' [''aa''] ''ABS''])])
     (new_supervisor\<lparr>sv_versions := [(''A'', 150)]\<rparr>))) ''A''))"
proof -
  let ?s = "run_vps sample_history (new_supervisor\<lparr>sv_versions := [(''A'', 150)]\<rparr>)"
  let ?more = "[(sample_env False, 7, [sample_vp ''A'' ''10.0.0.2'' [''aa''] ''ABS''])]"
  let ?t = "run_vps (sample_history @ ?more) (new_supervisor\<lparr>sv_versions := [(''A'', 150)]\<rparr>)"
  have saving: "list_all saving_step (sample_history @ ?more)" by code_simp
  have s: "map_of (sv_runtimes ?s) ''A'' \<noteq> None" and t: "map_of (sv_runtimes ?t) ''A'' \<noteq> None"
    and sig: "map_option rt_sig (map_of (sv_runtimes ?s) ''A'') \<noteq> map_option rt_sig (map_of (sv_runtimes ?t) ''A'')"
    by code_simp+
  from s t obtain rt rt' where st: "map_of (sv_runtimes ?s) ''A'' = Some rt" "map_of (sv_runtimes ?t) ''A'' = Some rt'" by blast
  show ?thesis using ams_version_monotone [OF saving st] sig st by auto
qed

text \<open>A report push that fails after the new configuration was installed leaves the old fingerprint in place.
  When the cloud then withdraws the change, the reconciliation sees nothing to do: the member that was
  removed again can still log in, until another change of the list or a restart.\<close>
lemma failed_push_keeps_withdrawn_member:
  "map_option rt_members (map_of (sv_runtimes (run_vps
     [(sample_env True, 100, [sample_vp ''A'' ''10.0.0.2'' [''aa''] ''PLA'']),
      (sample_env False, 110, [sample_vp ''A'' ''10.0.0.2'' [''aa'', ''zz''] ''PLA'']),
      (sample_env True, 120, [sample_vp ''A'' ''10.0.0.2'' [''aa''] ''PLA'']),
      (sample_env True, 130, [sample_vp ''A'' ''10.0.0.2'' [''aa''] ''PLA''])] new_supervisor)) ''A'') =
   Some [\<lparr>mem_hash = ''aa'', mem_id = ''maa''\<rparr>, \<lparr>mem_hash = ''zz'', mem_id = ''mzz''\<rparr>]"
  by code_simp

text \<open>Two printers that exchange addresses: each is restarted in turn, the first while the second still
  holds its new address, so it stays down although both configurations are valid together.\<close>
lemma exchanged_addresses_leave_one_down:
  "keys (sv_runtimes (run_vps
     [(sample_env True, 100, [sample_vp ''A'' ''10.0.0.2'' [''aa''] ''PLA'', sample_vp ''B'' ''10.0.0.3'' [''bb''] ''PLA'']),
      (sample_env True, 110, [sample_vp ''A'' ''10.0.0.3'' [''aa''] ''PLA'', sample_vp ''B'' ''10.0.0.2'' [''bb''] ''PLA''])] new_supervisor)) =
   [''B'']"
  by code_simp

text \<open>The facade the heartbeat reads: after a reconciliation that did not raise, the cached identities are
  those of the live printers, and no printer configured means none is reported.\<close>
lemma facade_snapshot:
  assumes "reconcile_sync env now disk cs f = (Inr (), f')"
  shows "(case fc_supervisor f' of None \<Rightarrow> cs = [] \<and> fc_identities f' = [] | Some s \<Rightarrow>
      fc_identities f' = current_identities s \<and> map fst (fc_identities f') = sort (keys (sv_runtimes s)) \<and> fc_configs f' = current_configs s) \<and>
    (fc_model f' = None \<longleftrightarrow> fc_identities f' = [])"
  using assms
  by (auto simp: reconcile_sync_def Let_def snapshot_def current_model_def current_identities_def o_def split: if_splits option.splits list.splits)

end
