(* ===== verification/Ssdp.thy ===== *)
theory Ssdp
  imports Bytes
begin

text \<open>
  Discovery, in both directions. The virtual printers announce themselves (\<open>makeros_hub/vprinter/ssdp.py\<close>:
  the announcements, the shared listener with its registry, the token buckets that limit it) and answer
  the bind handshake (\<open>makeros_hub/vprinter/bind_server.py\<close>); the hub listens for the announcements of
  real printers (\<open>makeros_hub/bambu_ssdp.py\<close>). Datagrams are given as their text; the clock, JSON and what
  the socket delivers are parameters.
\<close>

definition crlf :: string where
  "crlf = [CHR 0x0D, CHR 0x0A]"

section \<open>Limiting the answers\<close>

record ssdp_limiter =
  sl_rate :: real
  sl_burst :: nat
  sl_max :: nat
  sl_buckets :: "(string, real \<times> real) odict"

definition new_ssdp_limiter :: "real \<Rightarrow> int \<Rightarrow> int \<Rightarrow> ssdp_limiter" where
  "new_ssdp_limiter rate burst max_sources = \<lparr>sl_rate = max 0.1 rate, sl_burst = nat (max 1 burst),
     sl_max = nat (max 1 max_sources), sl_buckets = []\<rparr>"

definition allow :: "string \<Rightarrow> real \<Rightarrow> ssdp_limiter \<Rightarrow> bool \<times> ssdp_limiter" where
  "allow ip now l =
     (let (tokens0, seen) = get_or (sl_buckets l) ip (real (sl_burst l), now);
          tokens = min (real (sl_burst l)) (tokens0 + max 0 (now - seen) * sl_rate l);
          allowed = 1 \<le> tokens;
          left = (if allowed then tokens - 1 else tokens)
      in (allowed, l\<lparr>sl_buckets := trim_oldest (sl_max l) (move_to_end ip (AList.update ip (left, now) (sl_buckets l)))\<rparr>))"

section \<open>Announcements\<close>

record ssdp_config =
  sc_ip :: string
  sc_serial :: string
  sc_model :: string
  sc_name :: string
  sc_fw :: string

definition bambu_headers :: "ssdp_config \<Rightarrow> (string \<times> string) list" where
  "bambu_headers c =
     [(''Cache-Control'', ''max-age=1800''), (''Ext'', ''''), (''Server'', ''VirtualBambu/0.1 UPnP/1.0''),
      (''Location'', sc_ip c), (''USN'', sc_serial c), (''DevModel.bambu.com'', sc_model c), (''DevName.bambu.com'', sc_name c),
      (''DevSignal.bambu.com'', ''-44''), (''DevConnect.bambu.com'', ''lan''), (''DevBind.bambu.com'', ''free''),
      (''Devserial.bambu.com'', sc_serial c), (''DevIP.bambu.com'', sc_ip c), (''DevVersion.bambu.com'', sc_fw c),
      (''DevCap.bambu.com'', ''1'')]"

definition header_line :: "string \<times> string \<Rightarrow> string" where
  "header_line h = fst h @ '': '' @ snd h"

definition ssdp_message :: "string \<Rightarrow> (string \<times> string) list \<Rightarrow> string" where
  "ssdp_message start headers = join crlf ([start] @ map header_line headers @ [[], []])"

definition build_ssdp_response :: "ssdp_config \<Rightarrow> string" where
  "build_ssdp_response c = ssdp_message ''HTTP/1.1 200 OK'' (bambu_headers c)"

definition build_ssdp_notify :: "ssdp_config \<Rightarrow> string" where
  "build_ssdp_notify c = ssdp_message ''NOTIFY * HTTP/1.1''
     ([(''Host'', ''255.255.255.255:2021''), (''NTS'', ''ssdp:alive''), (''NT'', ''upnp:rootdevice'')] @ bambu_headers c)"

text \<open>The first line of \<open>splitlines\<close>, as far as it is ASCII.\<close>

definition is_line_break :: "char \<Rightarrow> bool" where
  "is_line_break c \<longleftrightarrow> (of_char c :: nat) \<in> {10, 11, 12, 13, 28, 29, 30}"

definition is_m_search :: "string \<Rightarrow> bool" where
  "is_m_search s \<longleftrightarrow> s \<noteq> [] \<and> startswith ''M-SEARCH '' (upper (strip (takeWhile (\<lambda>c. \<not> is_line_break c) s)))"

text \<open>The shared listener answers a search once for every registered printer.\<close>

record ssdp_listener =
  sp_registry :: "(string, ssdp_config) odict"
  sp_limiter :: ssdp_limiter

definition register :: "ssdp_config \<Rightarrow> ssdp_listener \<Rightarrow> ssdp_listener" where
  "register c p = p\<lparr>sp_registry := AList.update (sc_serial c) c (sp_registry p)\<rparr>"

definition unregister :: "string \<Rightarrow> ssdp_listener \<Rightarrow> ssdp_listener" where
  "unregister serial p = p\<lparr>sp_registry := AList.delete serial (sp_registry p)\<rparr>"

definition datagram_received :: "string \<Rightarrow> string \<Rightarrow> real \<Rightarrow> ssdp_listener \<Rightarrow> string list \<times> ssdp_listener" where
  "datagram_received packet ip now p =
     (if length packet < 23 \<or> \<not> is_m_search packet then ([], p)
      else (let (ok, l) = allow ip now (sp_limiter p); p' = p\<lparr>sp_limiter := l\<rparr>
        in (if ok then map build_ssdp_response (dict_values (sp_registry p)) else [], p')))"

definition notify_round :: "ssdp_listener \<Rightarrow> string list" where
  "notify_round p = map build_ssdp_notify (dict_values (sp_registry p))"

section \<open>Reading announcements\<close>

definition key_char :: "char \<Rightarrow> bool" where
  "key_char c \<longleftrightarrow> (let n = (of_char c :: nat) in (97 \<le> n \<and> n \<le> 122) \<or> (65 \<le> n \<and> n \<le> 90) \<or> is_digit c \<or> c \<in> set ''_.-'')"

definition key_start :: "char \<Rightarrow> bool" where
  "key_start c \<longleftrightarrow> (let n = (of_char c :: nat) in (97 \<le> n \<and> n \<le> 122) \<or> (65 \<le> n \<and> n \<le> 90))"

definition next_line :: "string \<Rightarrow> string" where
  "next_line s = drop 1 (dropWhile (\<lambda>c. c \<noteq> CHR 0x0A) s)"

text \<open>
  A match of the header pattern at the start of a line: a key, a colon, and the rest of the first line
  that has any other text; white space around the colon may span lines. When nothing but white space
  follows, the last character of it that is no line feed is the value.
\<close>

definition match_header :: "string \<Rightarrow> (string \<times> string \<times> string) option" where
  "match_header s =
     (let key = takeWhile key_char s; r1 = dropWhile is_space (drop (length key) s)
      in if key = [] \<or> \<not> key_start (hd key) then None
         else (case r1 of
            [] \<Rightarrow> None
          | c # r2 \<Rightarrow>
              if c \<noteq> CHR '':'' then None
              else (let ws = takeWhile is_space r2; r3 = dropWhile is_space r2;
                        cs = filter (\<lambda>x. x \<noteq> CHR 0x0A) ws
                    in if r3 \<noteq> [] then Some (key, rstrip_by is_space (takeWhile (\<lambda>x. x \<noteq> CHR 0x0A) r3), next_line r3)
                       else if cs \<noteq> [] then Some (key, [last cs], [])
                       else None)))"

lemma length_next_line: "s \<noteq> [] \<Longrightarrow> length (next_line s) < length s"
proof -
  assume "s \<noteq> []"
  then have "0 < length s" by simp
  moreover have "length (dropWhile (\<lambda>c. c \<noteq> CHR 0x0A) s) \<le> length s" by (rule length_dropWhile_le)
  ultimately have "length (dropWhile (\<lambda>c. c \<noteq> CHR 0x0A) s) - 1 < length s" by linarith
  then show ?thesis by (simp only: next_line_def length_drop)
qed

lemma length_next_line_le: "length (next_line s) \<le> length s"
  using length_next_line [of s] by (cases "s = []") (auto simp: next_line_def)

lemma length_match: "match_header s = Some (k, v, rest) \<Longrightarrow> length rest < length s"
proof -
  assume m: "match_header s = Some (k, v, rest)"
  let ?r1 = "dropWhile is_space (drop (length (takeWhile key_char s)) s)"
  have s: "s \<noteq> []" using m by (auto simp: match_header_def)
  from m obtain c r2 where r1: "?r1 = c # r2"
    by (auto simp: match_header_def Let_def split: if_splits list.splits)
  from m r1 have "rest = [] \<or> rest = next_line (dropWhile is_space r2)"
    by (auto simp: match_header_def Let_def split: if_splits)
  moreover have "length (next_line (dropWhile is_space r2)) \<le> length r2"
    using length_next_line_le [of "dropWhile is_space r2"] length_dropWhile_le [of is_space r2] by linarith
  moreover have "Suc (length r2) \<le> length s"
  proof -
    have "length ?r1 \<le> length s" by (rule order_trans [OF length_dropWhile_le]) simp
    with r1 show ?thesis by simp
  qed
  ultimately show ?thesis using s by auto
qed

function find_headers :: "string \<Rightarrow> (string \<times> string) list" where
  "find_headers s =
     (if s = [] then []
      else (case match_header s of
          Some (key, v, rest) \<Rightarrow> (key, v) # find_headers rest
        | None \<Rightarrow> find_headers (next_line s)))"
  by pat_completeness auto
termination
  by (relation "measure length") (auto simp: length_next_line length_match)

declare find_headers.simps [simp del]

fun collect_headers :: "(string \<times> string) list \<Rightarrow> (string, string) odict \<Rightarrow> (string, string) odict" where
  "collect_headers [] d = d"
| "collect_headers ((k, v) # hs) d =
     (let key = lower k; d1 = AList.update key v d
      in collect_headers hs (if CHR ''.'' \<in> set key then setdefault (takeWhile (\<lambda>c. c \<noteq> CHR ''.'') key) v d1 else d1))"

fun first_of :: "(string, string) odict \<Rightarrow> string list \<Rightarrow> string option" where
  "first_of d [] = None"
| "first_of d (k # ks) = (case map_of d k of Some v \<Rightarrow> if v \<noteq> [] then Some v else first_of d ks | None \<Rightarrow> first_of d ks)"

fun url_host :: "string \<Rightarrow> string option" where
  "url_host [] = None"
| "url_host (c # cs) = (let ds = takeWhile (\<lambda>x. is_digit x \<or> x = CHR ''.'') (drop 2 (c # cs))
     in if startswith ''//'' (c # cs) \<and> ds \<noteq> [] then Some ds else url_host cs)"

record discovery_hit =
  dh_ip :: string
  dh_hostname :: "string option"
  dh_model :: "string option"
  dh_serial :: "string option"
  dh_firmware :: "string option"

text \<open>\<open>text.split("\r\n", 1)[0]\<close>.\<close>

fun first_line :: "string \<Rightarrow> string" where
  "first_line [] = []"
| "first_line (c # cs) = (if startswith crlf (c # cs) then [] else c # first_line cs)"

definition parse_headers :: "(string, string) odict \<Rightarrow> string \<Rightarrow> discovery_hit option" where
  "parse_headers d peer =
     (let serial = first_of d [''devsn'', ''devel.sn'', ''usn'', ''devid''];
          model = first_of d [''devmodel'', ''devel.type'', ''type'', ''devtype''];
          name = first_of d [''devname'', ''devel.name'', ''name'', ''friendlyname''];
          fw = first_of d [''devel.softver'', ''devel.version'', ''softver'', ''version''];
          ip = (case first_of d [''location''] of None \<Rightarrow> peer
                | Some l \<Rightarrow> (case url_host l of None \<Rightarrow> peer | Some h \<Rightarrow> h))
      in if serial = None \<and> model = None then None
         else Some \<lparr>dh_ip = ip, dh_hostname = name, dh_model = model, dh_serial = serial, dh_firmware = fw\<rparr>)"

definition parse_bambu_notify :: "string \<Rightarrow> string \<Rightarrow> discovery_hit option" where
  "parse_bambu_notify packet peer =
     (let start = upper (strip (first_line packet))
      in if \<not> (startswith ''NOTIFY'' start \<or> startswith ''HTTP/1.1 200'' start) then None
         else parse_headers (collect_headers (find_headers packet) []) peer)"

definition MAX_NOTIFY_BYTES :: nat where
  "MAX_NOTIFY_BYTES = 16 * 1024"

definition MAX_NOTIFY_PACKETS :: nat where
  "MAX_NOTIFY_PACKETS = 128"

text \<open>The datagrams that arrive before the deadline, in order, with their senders; the result is keyed by
  serial number, or by address when there is none.\<close>

fun listen_loop :: "nat \<Rightarrow> nat \<Rightarrow> (string \<times> string) list \<Rightarrow> (string, discovery_hit) odict \<Rightarrow> (string, discovery_hit) odict" where
  "listen_loop packets bytes [] hits = hits"
| "listen_loop packets bytes ((packet, peer) # rest) hits =
     (if MAX_NOTIFY_PACKETS \<le> packets \<or> MAX_NOTIFY_BYTES < bytes + length packet then hits
      else listen_loop (packets + 1) (bytes + length packet) rest
        (case parse_bambu_notify packet peer of
           None \<Rightarrow> hits
         | Some h \<Rightarrow> setdefault (case dh_serial h of Some s \<Rightarrow> s | None \<Rightarrow> dh_ip h) h hits))"

definition listen_for_announcements :: "(string \<times> string) list \<Rightarrow> discovery_hit list" where
  "listen_for_announcements datagrams = dict_values (listen_loop 0 0 datagrams [])"

section \<open>The bind handshake\<close>

definition START_MAGIC :: nat where
  "START_MAGIC = 0xA5A5"

definition END_MAGIC :: nat where
  "END_MAGIC = 0xA7A7"


text \<open>\<open>struct.pack\<close> raises when the length does not fit into two bytes.\<close>

definition encode_frame :: "(pyval \<Rightarrow> string) \<Rightarrow> (string \<times> pyval) list \<Rightarrow> byte list result" where
  "encode_frame dumps payload =
     (let body = utf8_encode (dumps (PDict payload)); total = 4 + length body + 2
      in if 65536 \<le> total then Inl (RuntimeErr ''struct.error'')
         else Inr (to_le2 START_MAGIC @ to_le2 total @ body @ to_le2 END_MAGIC))"

definition decode_frame :: "(string \<Rightarrow> pyval option) \<Rightarrow> byte list \<Rightarrow> (string \<times> pyval) list result" where
  "decode_frame loads frame =
     (if length frame < 6 then Inl (ValueError ''bind frame too short'')
      else if from_le (take 2 frame) \<noteq> START_MAGIC then Inl (ValueError ''invalid bind start magic'')
      else if from_le (take 2 (drop 2 frame)) \<noteq> length frame then Inl (ValueError ''bind length mismatch'')
      else if from_le (drop (length frame - 2) frame) \<noteq> END_MAGIC then Inl (ValueError ''invalid bind end magic'')
      else (let body = take (length frame - 6) (drop 4 frame)
        in if \<not> utf8_ok body then Inl (ValueError ''utf-8'')
           else (case loads (map char_of_byte body) of
               Some (PDict d) \<Rightarrow> Inr d
             | Some _ \<Rightarrow> Inl (ValueError ''bind frame body must be a JSON object'')
             | None \<Rightarrow> Inl (ValueError ''json''))))"

definition read_frame :: "(string \<Rightarrow> pyval option) \<Rightarrow> byte list \<Rightarrow> ((string \<times> pyval) list \<times> byte list) result" where
  "read_frame loads stream =
     res_bind (readexactly 4 stream) (\<lambda>(header, s1).
       if from_le (take 2 header) \<noteq> START_MAGIC then Inl (ValueError ''invalid bind start magic'')
       else if from_le (drop 2 header) < 6 then Inl (ValueError ''invalid bind total length'')
       else res_bind (readexactly (from_le (drop 2 header) - 4) s1) (\<lambda>(rest, s2).
         res_bind (decode_frame loads (header @ rest)) (\<lambda>d. Inr (d, s2))))"

definition build_detect_reply :: "ssdp_config \<Rightarrow> (string \<times> pyval) list" where
  "build_detect_reply c = [(''login'', PDict
     [(''bind'', PStr ''free''), (''command'', PStr ''detect''), (''connect'', PStr ''lan''), (''dev_cap'', PInt 1),
      (''id'', PStr (sc_serial c)), (''model'', PStr (sc_model c)), (''name'', PStr (sc_name c)),
      (''sequence_id'', PInt 3021), (''version'', PStr (sc_fw c))])]"

text \<open>One connection: refused at the cap, else answered when a full frame arrived. The stream is what the
  peer sends before it closes or the time runs out; the result is the answer and the connections held
  while it is handled.\<close>

definition bind_connection :: "(pyval \<Rightarrow> string) \<Rightarrow> (string \<Rightarrow> pyval option) \<Rightarrow> ssdp_config \<Rightarrow> nat \<Rightarrow> nat \<Rightarrow> byte list \<Rightarrow> byte list \<times> nat" where
  "bind_connection dumps loads c limit active stream =
     (if max 1 limit \<le> active then ([], active)
      else (case read_frame loads stream of
          Inl e \<Rightarrow> ([], active + 1)
        | Inr (request, _) \<Rightarrow> (case encode_frame dumps (build_detect_reply c) of Inl e \<Rightarrow> ([], active + 1) | Inr reply \<Rightarrow> (reply, active + 1))))"

text \<open>A frame as an element of a stream.\<close>

definition frame_ok :: "(pyval \<Rightarrow> string) \<Rightarrow> (string \<Rightarrow> pyval option) \<Rightarrow> (string \<times> pyval) list \<Rightarrow> bool" where
  "frame_ok dumps loads d \<longleftrightarrow> valid_str (dumps (PDict d)) \<and> loads (dumps (PDict d)) = Some (PDict d) \<and> length (dumps (PDict d)) < 65530"

definition frame_wire :: "(pyval \<Rightarrow> string) \<Rightarrow> (string \<times> pyval) list \<Rightarrow> byte list" where
  "frame_wire dumps d = (case encode_frame dumps d of Inl _ \<Rightarrow> [] | Inr bs \<Rightarrow> bs)"

lemma encode_frame_ok: "frame_ok dumps loads d \<Longrightarrow> encode_frame dumps d =
    Inr (to_le2 START_MAGIC @ to_le2 (length (dumps (PDict d)) + 6) @ utf8_encode (dumps (PDict d)) @ to_le2 END_MAGIC)"
  by (simp add: encode_frame_def frame_ok_def Let_def add.commute)

lemma read_frame_wire:
  assumes ok: "frame_ok dumps loads d"
  shows "read_frame loads (frame_wire dumps d @ rest) = Inr (d, rest)"
proof -
  let ?s = "dumps (PDict d)"
  let ?n = "length ?s + 6"
  have n: "?n < 65536" using ok by (simp add: frame_ok_def)
  have magic: "START_MAGIC < 65536" "END_MAGIC < 65536" by (simp_all add: START_MAGIC_def END_MAGIC_def)
  let ?h = "to_le2 START_MAGIC @ to_le2 ?n" and ?t = "utf8_encode ?s @ to_le2 END_MAGIC"
  have wire: "frame_wire dumps d = ?h @ ?t"
    using encode_frame_ok [OF ok] by (simp add: frame_wire_def)
  have fields: "take 2 ?h = to_le2 START_MAGIC" "drop 2 ?h = to_le2 ?n" by simp_all
  have body: "utf8_ok (utf8_encode ?s)" "map char_of_byte (utf8_encode ?s) = ?s"
    using ok by (simp_all add: frame_ok_def valid_str_def utf8_encode_def comp_def)
  have dec: "decode_frame loads (?h @ ?t) = Inr d"
    using ok n magic body by (simp add: decode_frame_def Let_def frame_ok_def)
  have r1: "readexactly 4 ((?h @ ?t) @ rest) = Inr (?h, ?t @ rest)" by (simp add: readexactly_def)
  have r2: "readexactly (?n - 4) (?t @ rest) = Inr (?t, rest)" by (simp add: readexactly_def)
  show ?thesis
    unfolding wire read_frame_def r1
    using dec r2 magic n by (simp add: fields)
qed

interpretation bind_frame: frame_codec "frame_ok dumps loads" "frame_wire dumps" "read_frame loads"
  for dumps loads
  by unfold_locales (rule read_frame_wire)

section \<open>The answers are rate limited\<close>

definition credit :: "ssdp_limiter \<Rightarrow> string \<Rightarrow> real \<Rightarrow> real" where
  "credit l ip t = (case map_of (sl_buckets l) ip of
      None \<Rightarrow> real (sl_burst l)
    | Some (tokens, seen) \<Rightarrow> min (real (sl_burst l)) (tokens + max 0 (t - seen) * sl_rate l))"

definition limiter_ok :: "ssdp_limiter \<Rightarrow> bool" where
  "limiter_ok l \<longleftrightarrow> wf_dict (sl_buckets l) \<and> 0 < sl_rate l \<and> (\<forall>ip tokens seen. map_of (sl_buckets l) ip = Some (tokens, seen) \<longrightarrow> 0 \<le> tokens)"

lemma allow_fields [simp]:
  "sl_rate (snd (allow ip t l)) = sl_rate l" "sl_burst (snd (allow ip t l)) = sl_burst l" "sl_max (snd (allow ip t l)) = sl_max l"
  by (simp_all add: allow_def Let_def split: prod.split)

lemma allow_credit: "fst (allow ip t l) \<longleftrightarrow> 1 \<le> credit l ip t"
  by (simp add: allow_def credit_def get_or_def Let_def split: option.split prod.split)

lemma allow_buckets:
  assumes "limiter_ok l" "card (insert ip (set (keys (sl_buckets l)))) \<le> sl_max l"
  shows "map_of (sl_buckets (snd (allow ip t l))) = (map_of (sl_buckets l))
      (ip \<mapsto> (credit l ip t - (if fst (allow ip t l) then 1 else 0), t)) \<and>
    wf_dict (sl_buckets (snd (allow ip t l))) \<and> set (keys (sl_buckets (snd (allow ip t l)))) = insert ip (set (keys (sl_buckets l)))"
proof -
  let ?v = "(credit l ip t - (if fst (allow ip t l) then 1 else 0), t)"
  let ?d = "move_to_end ip (AList.update ip ?v (sl_buckets l))"
  have wf: "wf_dict ?d" using assms(1) by (auto simp: limiter_ok_def)
  have keys: "set (keys ?d) = insert ip (set (keys (sl_buckets l)))"
    by (auto simp: keys_move_to_end keys_update)
  have "length ?d = card (set (keys ?d))" using wf by (simp add: wf_dict_def distinct_card)
  then have len: "length ?d \<le> sl_max l" using keys assms(2) by simp
  have "sl_buckets (snd (allow ip t l)) = trim_oldest (sl_max l) ?d"
    by (simp add: allow_def credit_def get_or_def Let_def split: option.split prod.split)
  then have "sl_buckets (snd (allow ip t l)) = ?d" using len by simp
  with wf keys show ?thesis by (simp add: map_of_move_to_end map_of_update)
qed

lemma credit_nonneg: "limiter_ok l \<Longrightarrow> 0 \<le> credit l ip t"
  by (auto simp: credit_def limiter_ok_def intro!: add_nonneg_nonneg mult_nonneg_nonneg split: option.split)

lemma credit_le_burst: "credit l ip t \<le> real (sl_burst l)"
  by (simp add: credit_def split: option.split prod.split)

lemma credit_grows: "t \<le> t' \<Longrightarrow> 0 < sl_rate l \<Longrightarrow> credit l ip t' \<le> credit l ip t + (t' - t) * sl_rate l"
proof (cases "map_of (sl_buckets l) ip")
  case (Some v)
  assume t: "t \<le> t'" "0 < sl_rate l"
  obtain tokens seen where v: "v = (tokens, seen)" by (rule prod.exhaust)
  have "max 0 (t' - seen) * sl_rate l \<le> (max 0 (t - seen) + (t' - t)) * sl_rate l"
    using t by (intro mult_right_mono) auto
  then have "max 0 (t' - seen) * sl_rate l \<le> max 0 (t - seen) * sl_rate l + (t' - t) * sl_rate l"
    by (simp add: distrib_right)
  moreover have "0 \<le> (t' - t) * sl_rate l" using t by simp
  ultimately show ?thesis by (simp add: credit_def Some v)
qed (simp add: credit_def)

lemma allow_step:
  assumes "limiter_ok l" "card (insert ip (set (keys (sl_buckets l)))) \<le> sl_max l"
  shows "limiter_ok (snd (allow ip t l)) \<and>
    credit (snd (allow ip t l)) x t = credit l x t - (if x = ip \<and> fst (allow ip t l) then 1 else 0)"
proof -
  note b = allow_buckets [OF assms, of t]
  have "0 \<le> credit l ip t - (if fst (allow ip t l) then 1 else 0)"
    using credit_nonneg [OF assms(1), of ip t] by (simp add: allow_credit)
  then have "limiter_ok (snd (allow ip t l))"
    using b assms(1) by (auto simp: limiter_ok_def)
  moreover have "credit (snd (allow ip t l)) x t = credit l x t - (if x = ip \<and> fst (allow ip t l) then 1 else 0)"
    using b credit_le_burst [of l ip t] by (cases "x = ip") (simp_all add: credit_def split: option.split prod.split)
  ultimately show ?thesis by blast
qed

text \<open>Requests in order, and how many of one source are allowed.\<close>

fun allowed_count :: "string \<Rightarrow> (string \<times> real) list \<Rightarrow> ssdp_limiter \<Rightarrow> nat" where
  "allowed_count x [] l = 0"
| "allowed_count x ((ip, t) # rs) l =
     (if x = ip \<and> fst (allow ip t l) then 1 else 0) + allowed_count x rs (snd (allow ip t l))"

lemma allowed_run:
  assumes "limiter_ok l" "card (set (keys (sl_buckets l)) \<union> fst ` set rs) \<le> sl_max l" "sorted (t # map snd rs)"
  shows "real (allowed_count x rs l) \<le> credit l x t + (last (t # map snd rs) - t) * sl_rate l"
  using assms
proof (induction rs arbitrary: l t)
  case Nil
  then show ?case by (simp add: credit_nonneg)
next
  case (Cons r rs)
  obtain ip t' where r: "r = (ip, t')" by (rule prod.exhaust)
  let ?l = "snd (allow ip t' l)"
  have le: "t \<le> t'" using Cons.prems(3) r by simp
  have sub: "insert ip (set (keys (sl_buckets l))) \<subseteq> set (keys (sl_buckets l)) \<union> fst ` set (r # rs)" by (auto simp: r)
  have c: "card (insert ip (set (keys (sl_buckets l)))) \<le> sl_max l"
    using card_mono [OF _ sub] Cons.prems(2) by simp
  note step = allow_step [OF Cons.prems(1) c, of t' x]
  have "set (keys (sl_buckets ?l)) \<union> fst ` set rs = set (keys (sl_buckets l)) \<union> fst ` set (r # rs)"
    using allow_buckets [OF Cons.prems(1) c, of t'] by (auto simp: r)
  then have "real (allowed_count x rs ?l) \<le> credit ?l x t' + (last (t' # map snd rs) - t') * sl_rate ?l"
    using Cons.prems step r by (intro Cons.IH) auto
  moreover have "credit l x t' \<le> credit l x t + (t' - t) * sl_rate l"
    using credit_grows [OF le] Cons.prems(1) by (simp add: limiter_ok_def)
  moreover have "(t' - t) * sl_rate l + (last (t' # map snd rs) - t') * sl_rate l = (last (t' # map snd rs) - t) * sl_rate l"
    by (simp add: left_diff_distrib)
  ultimately show ?case using step r by (auto split: if_splits)
qed

text \<open>
  When more sources search than the limiter tracks, the one seen longest ago is forgotten and starts with a full bucket again. Its place in
  the order of the buckets bounds how often: \<open>rank\<close> counts the sources seen since.
\<close>

definition rank :: "string \<Rightarrow> string list \<Rightarrow> nat" where
  "rank x ks = (if x \<in> set ks then length (takeWhile (\<lambda>k. k \<noteq> x) (rev ks)) else 0)"

definition tracking_ok :: "ssdp_limiter \<Rightarrow> bool" where
  "tracking_ok l \<longleftrightarrow> limiter_ok l \<and> length (sl_buckets l) \<le> sl_max l \<and> 0 < sl_max l"

lemma rank_split: "x \<notin> set bs \<Longrightarrow> rank x (as @ x # bs) = length bs"
proof -
  assume x: "x \<notin> set bs"
  have "takeWhile (\<lambda>k. k \<noteq> x) (rev bs @ x # rev as) = rev bs @ takeWhile (\<lambda>k. k \<noteq> x) (x # rev as)"
    using x by (intro takeWhile_append2) auto
  then show ?thesis by (simp add: rank_def)
qed

lemma moved_keys: "wf_dict d \<Longrightarrow> keys (move_to_end ip (AList.update ip v d)) = List.filter (\<lambda>k. k \<noteq> ip) (keys d) @ [ip]"
  by (auto simp: move_to_end_def map_of_update keys_delete keys_update wf_dict_def filter_id_conv)

lemma allow_tracked:
  fixes l :: ssdp_limiter and ip :: string and t :: real
  assumes "tracking_ok l"
  defines "l' \<equiv> snd (allow ip t l)"
  shows "keys (sl_buckets l') = trim_oldest (sl_max l) (List.filter (\<lambda>k. k \<noteq> ip) (keys (sl_buckets l)) @ [ip])"
    "k \<in> set (keys (sl_buckets l')) \<Longrightarrow> map_of (sl_buckets l') k =
       ((map_of (sl_buckets l)) (ip \<mapsto> (credit l ip t - (if fst (allow ip t l) then 1 else 0), t))) k"
    "tracking_ok l'"
proof -
  let ?v = "(credit l ip t - (if fst (allow ip t l) then 1 else 0), t)"
  let ?d = "move_to_end ip (AList.update ip ?v (sl_buckets l))"
  have wf: "wf_dict (sl_buckets l)" "wf_dict ?d" using assms(1) by (auto simp: tracking_ok_def limiter_ok_def)
  have d: "sl_buckets l' = trim_oldest (sl_max l) ?d"
    by (simp add: l'_def allow_def credit_def get_or_def Let_def split: option.split prod.split)
  show "keys (sl_buckets l') = trim_oldest (sl_max l) (List.filter (\<lambda>k. k \<noteq> ip) (keys (sl_buckets l)) @ [ip])"
    by (simp add: d keys_trim_oldest moved_keys [OF wf(1)])
  show look: "map_of (sl_buckets l') k = ((map_of (sl_buckets l)) (ip \<mapsto> ?v)) k" if "k \<in> set (keys (sl_buckets l'))" for k
    using map_of_trim_oldest_in [OF wf(2), of k "sl_max l"] that by (simp add: d map_of_move_to_end map_of_update)
  have "0 \<le> fst ?v" using credit_nonneg [of l ip t] assms(1) by (simp add: allow_credit tracking_ok_def)
  moreover have "x \<in> set (keys (sl_buckets l'))" if "map_of (sl_buckets l') x = Some v" for x v
    using that by (simp add: set_keys domIff)
  ultimately have "0 \<le> tokens" if "map_of (sl_buckets l') x = Some (tokens, seen)" for x tokens seen
    using look [of x] that assms(1) unfolding tracking_ok_def limiter_ok_def fst_conv fun_upd_apply
    by (metis (no_types, lifting) option.inject prod.inject)
  then show "tracking_ok l'"
    using assms(1) wf_dict_trim_oldest [OF wf(2), of "sl_max l"] by (simp add: tracking_ok_def limiter_ok_def d) (simp add: l'_def)
qed

text \<open>The tokens of a source, and what its place in the order may still bring it.\<close>

definition potential :: "ssdp_limiter \<Rightarrow> string \<Rightarrow> real \<Rightarrow> real" where
  "potential l x t = credit l x t + real (sl_burst l) * real (rank x (keys (sl_buckets l))) / real (sl_max l)"

lemma rank_step:
  assumes "distinct ks" "length ks \<le> m" "0 < m" "x \<noteq> ip" "ks' = trim_oldest m (List.filter (\<lambda>k. k \<noteq> ip) ks @ [ip])" "x \<in> set ks"
  shows "if x \<in> set ks' then rank x ks' \<le> rank x ks + 1 else m \<le> rank x ks + 1"
proof -
  obtain as bs where ks: "ks = as @ x # bs" "x \<notin> set as" "x \<notin> set bs" using assms(1,6) by (auto simp: in_set_conv_decomp)
  let ?as = "List.filter (\<lambda>k. k \<noteq> ip) as" and ?bs = "List.filter (\<lambda>k. k \<noteq> ip) bs @ [ip]"
  have moved: "List.filter (\<lambda>k. k \<noteq> ip) ks @ [ip] = ?as @ x # ?bs" using ks assms(4) by simp
  have x: "x \<notin> set ?bs" using ks assms(4) by auto
  have old: "rank x ks = length bs" using ks by (simp add: rank_split)
  have new: "length ?bs \<le> length bs + 1" by simp
  let ?n = "length (?as @ x # ?bs) - m"
  have ks': "ks' = drop ?n (?as @ x # ?bs)" by (simp add: assms(5) moved trim_oldest_drop)
  show ?thesis
  proof (cases "?n \<le> length ?as")
    case True
    then have "ks' = drop ?n ?as @ x # ?bs" by (simp add: ks')
    then show ?thesis using old new rank_split [OF x] by simp
  next
    case False
    then have "m \<le> length ?bs" by simp
    then have "m \<le> length bs + 1" using new by (rule order_trans)
    moreover have "x \<notin> set ks'"
    proof -
      have "ks' = drop (?n - length ?as - 1) ?bs" using False by (simp add: ks' drop_Cons')
      then show ?thesis using x by (auto dest: in_set_dropD)
    qed
    ultimately show ?thesis using old by simp
  qed
qed

lemma potential_step:
  fixes l :: ssdp_limiter and ip x :: string and t :: real
  assumes ok: "tracking_ok l"
  defines "l' \<equiv> snd (allow ip t l)"
  shows "potential l' x t \<le> potential l x t + (if x = ip then - (if fst (allow ip t l) then 1 else 0) else real (sl_burst l) / real (sl_max l))"
proof -
  note tr = allow_tracked [OF ok, where ip = ip and t = t, folded l'_def]
  have m: "0 < sl_max l" "length (keys (sl_buckets l)) \<le> sl_max l" "distinct (keys (sl_buckets l))"
    using ok by (simp_all add: tracking_ok_def limiter_ok_def wf_dict_def)
  have same: "sl_burst l' = sl_burst l" "sl_max l' = sl_max l" "sl_rate l' = sl_rate l" by (simp_all add: l'_def)
  show ?thesis
  proof (cases "x = ip")
    case True
    have last: "ip \<in> set (keys (sl_buckets l'))" "rank ip (keys (sl_buckets l')) = 0"
      using m(1) by (simp_all add: tr(1) trim_oldest_drop rank_def)
    have "credit l' ip t = credit l ip t - (if fst (allow ip t l) then 1 else 0)"
      using tr(2) [OF last(1)] credit_le_burst [of l ip t] by (simp add: credit_def [of l'] same split: if_splits)
    then show ?thesis using True last(2) by (simp add: potential_def)
  next
    case False
    show ?thesis
    proof (cases "x \<in> set (keys (sl_buckets l))")
      case known: True
      note step = rank_step [OF m(3,2,1) False tr(1) known]
      show ?thesis
      proof (cases "x \<in> set (keys (sl_buckets l'))")
        case True
        have "credit l' x t = credit l x t" using tr(2) [OF True] False by (simp add: credit_def same split: option.split)
        moreover have "real (sl_burst l) * real (rank x (keys (sl_buckets l'))) \<le> real (sl_burst l) * (real (rank x (keys (sl_buckets l))) + 1)"
          using step True by (intro mult_left_mono) simp_all
        then have "real (sl_burst l) * real (rank x (keys (sl_buckets l'))) / real (sl_max l) \<le>
            real (sl_burst l) * real (rank x (keys (sl_buckets l))) / real (sl_max l) + real (sl_burst l) / real (sl_max l)"
          by (simp add: divide_right_mono distrib_left flip: add_divide_distrib)
        ultimately show ?thesis using False by (simp add: potential_def same)
      next
        case gone: False
        then have "credit l' x t = real (sl_burst l)" "rank x (keys (sl_buckets l')) = 0"
          by (simp_all add: credit_def same rank_def map_of_None_keys [THEN iffD2])
        moreover have "real (sl_max l) \<le> real (rank x (keys (sl_buckets l))) + 1" using step gone by simp
        then have "real (sl_burst l) * real (sl_max l) \<le> real (sl_burst l) * (real (rank x (keys (sl_buckets l))) + 1)"
          by (intro mult_left_mono) simp_all
        then have "real (sl_burst l) \<le> real (sl_burst l) * (real (rank x (keys (sl_buckets l))) + 1) / real (sl_max l)"
          using m(1) by (simp add: pos_le_divide_eq)
        moreover have "0 \<le> credit l x t" using ok credit_nonneg by (simp add: tracking_ok_def)
        ultimately show ?thesis using False by (simp add: potential_def distrib_left add_divide_distrib)
      qed
    next
      case unknown: False
      then have "x \<notin> set (keys (sl_buckets l'))" using False by (auto simp: tr(1) trim_oldest_drop dest: in_set_dropD)
      with unknown False show ?thesis
        by (simp add: potential_def credit_def same rank_def map_of_None_keys [THEN iffD2])
    qed
  qed
qed

definition others :: "string \<Rightarrow> (string \<times> real) list \<Rightarrow> nat" where
  "others x rs = length (List.filter (\<lambda>r. fst r \<noteq> x) rs)"

lemma allowed_run_evicting:
  assumes "tracking_ok l" "sorted (t # map snd rs)"
  shows "real (allowed_count x rs l) \<le> potential l x t + (last (t # map snd rs) - t) * sl_rate l + real (others x rs) * (real (sl_burst l) / real (sl_max l))"
  using assms
proof (induction rs arbitrary: l t)
  case Nil
  then show ?case by (simp add: potential_def others_def tracking_ok_def credit_nonneg)
next
  case (Cons r rs)
  obtain ip t' where r: "r = (ip, t')" by (rule prod.exhaust)
  let ?l = "snd (allow ip t' l)"
  have le: "t \<le> t'" using Cons.prems(2) r by simp
  have ok: "tracking_ok ?l" by (rule allow_tracked(3) [OF Cons.prems(1)])
  have "real (allowed_count x rs ?l) \<le> potential ?l x t' + (last (t' # map snd rs) - t') * sl_rate l + real (others x rs) * (real (sl_burst l) / real (sl_max l))"
    using Cons.IH [OF ok, of t'] Cons.prems(2) r by simp
  moreover note potential_step [OF Cons.prems(1), of ip t' x]
  moreover have "potential l x t' \<le> potential l x t + (t' - t) * sl_rate l"
    using credit_grows [OF le, of l x] Cons.prems(1) by (simp add: potential_def tracking_ok_def limiter_ok_def)
  moreover have "(t' - t) * sl_rate l + (last (t' # map snd rs) - t') * sl_rate l = (last (t' # map snd rs) - t) * sl_rate l"
    by (simp add: left_diff_distrib)
  moreover have "real (others x (r # rs)) * (real (sl_burst l) / real (sl_max l)) =
      real (others x rs) * (real (sl_burst l) / real (sl_max l)) + (if x = ip then 0 else real (sl_burst l) / real (sl_max l))"
    by (simp add: others_def r distrib_right add_divide_distrib)
  ultimately show ?case using r by (simp split: if_splits)
qed

text \<open>The listener at work: datagrams, and virtual printers that come and go.\<close>

datatype ssdp_event = Datagram string string real | Register ssdp_config | Unregister string

fun listen_run :: "ssdp_event list \<Rightarrow> ssdp_listener \<Rightarrow> (string \<times> string list) list" where
  "listen_run [] p = []"
| "listen_run (Datagram packet ip t # es) p = (let (out, p') = datagram_received packet ip t p in (ip, out) # listen_run es p')"
| "listen_run (Register c # es) p = listen_run es (register c p)"
| "listen_run (Unregister s # es) p = listen_run es (unregister s p)"

fun searches :: "ssdp_event list \<Rightarrow> (string \<times> real) list" where
  "searches [] = []"
| "searches (Datagram packet ip t # es) = (if 23 \<le> length packet \<and> is_m_search packet then (ip, t) # searches es else searches es)"
| "searches (Register c # es) = searches es"
| "searches (Unregister s # es) = searches es"

text \<open>The most printers registered at any time.\<close>

fun widest :: "ssdp_event list \<Rightarrow> ssdp_listener \<Rightarrow> nat" where
  "widest [] p = length (sp_registry p)"
| "widest (Datagram packet ip t # es) p = max (length (sp_registry p)) (widest es p)"
| "widest (Register c # es) p = max (length (sp_registry p)) (widest es (register c p))"
| "widest (Unregister s # es) p = max (length (sp_registry p)) (widest es (unregister s p))"

definition answers_to :: "string \<Rightarrow> (string \<times> string list) list \<Rightarrow> nat" where
  "answers_to x outs = sum_list (map (\<lambda>(ip, out). if ip = x then length out else 0) outs)"

lemma widest_registry: "sp_registry p' = sp_registry p \<Longrightarrow> widest es p' = widest es p"
proof (induction es arbitrary: p p')
  case (Cons e es)
  have "widest es p' = widest es p" "widest es (register c p') = widest es (register c p)" "widest es (unregister s p') = widest es (unregister s p)" for c s
    using Cons.prems by (intro Cons.IH; simp add: register_def unregister_def)+
  with Cons.prems show ?case by (cases e) simp_all
qed simp

lemma answers_bounded: "answers_to x (listen_run es p) \<le> widest es p * allowed_count x (searches es) (sp_limiter p)"
proof (induction es arbitrary: p)
  case (Cons e es)
  have mono: "n * k \<le> max m n * k" for n k m :: nat by simp
  show ?case
  proof (cases e)
    case (Datagram packet ip t)
    let ?p = "snd (datagram_received packet ip t p)"
    have reg: "sp_registry ?p = sp_registry p" by (simp add: datagram_received_def Let_def case_prod_beta)
    note IH = Cons.IH [of ?p, unfolded widest_registry [OF reg]]
    show ?thesis
    proof (cases "23 \<le> length packet \<and> is_m_search packet")
      case False
      then have d: "datagram_received packet ip t p = ([], p)" by (auto simp: datagram_received_def)
      have "searches (e # es) = searches es" unfolding Datagram using False by simp
      with IH d show ?thesis
        by (simp add: Datagram answers_to_def del: searches.simps) (meson max.cobounded2 mult_le_mono1 order_trans)
    next
      case True
      then have d: "datagram_received packet ip t p =
          (if fst (allow ip t (sp_limiter p)) then map build_ssdp_response (dict_values (sp_registry p)) else [],
           p\<lparr>sp_limiter := snd (allow ip t (sp_limiter p))\<rparr>)"
        by (simp add: datagram_received_def Let_def case_prod_beta)
      let ?w = "max (length (sp_registry p)) (widest es p)"
      have now: "(if ip = x then length (fst (datagram_received packet ip t p)) else 0) \<le> ?w * (if x = ip \<and> fst (allow ip t (sp_limiter p)) then 1 else 0)"
        unfolding d by (auto simp: dict_values_def)
      have rest: "answers_to x (listen_run es ?p) \<le> ?w * allowed_count x (searches es) (sp_limiter ?p)"
        using IH by (meson max.cobounded2 mult_le_mono1 order_trans)
      have "answers_to x (listen_run (e # es) p) = (if ip = x then length (fst (datagram_received packet ip t p)) else 0) + answers_to x (listen_run es ?p)"
        by (simp add: Datagram answers_to_def case_prod_beta)
      also have "\<dots> \<le> ?w * (if x = ip \<and> fst (allow ip t (sp_limiter p)) then 1 else 0) + ?w * allowed_count x (searches es) (sp_limiter ?p)"
        using now rest by (rule add_mono)
      also have "\<dots> = widest (e # es) p * allowed_count x (searches (e # es)) (sp_limiter p)"
        using True by (simp add: Datagram d distrib_left)
      finally show ?thesis .
    qed
  next
    case (Register c)
    have "sp_limiter (register c p) = sp_limiter p" by (simp add: register_def)
    with Cons.IH [of "register c p"] show ?thesis
      by (simp add: Register) (meson max.cobounded2 mult_le_mono1 order_trans)
  next
    case (Unregister s)
    have "sp_limiter (unregister s p) = sp_limiter p" by (simp add: unregister_def)
    with Cons.IH [of "unregister s p"] show ?thesis
      by (simp add: Unregister) (meson max.cobounded2 mult_le_mono1 order_trans)
  qed
qed (simp add: answers_to_def)


definition demo_search :: string where
  "demo_search = ''M-SEARCH * HTTP/1.1 abcdef''"

definition demo_ssdp :: ssdp_config where
  "demo_ssdp = \<lparr>sc_ip = ''10.0.0.7'', sc_serial = ''S1'', sc_model = ''N7'', sc_name = ''Lab'', sc_fw = ''01''\<rparr>"

definition demo_datagrams :: "ssdp_event list" where
  "demo_datagrams = [Register demo_ssdp, Datagram demo_search ''a'' 0, Datagram demo_search ''a'' 0, Datagram demo_search ''b'' 0, Datagram demo_search ''a'' 1]"

definition demo_listener :: ssdp_listener where
  "demo_listener = \<lparr>sp_registry = [], sp_limiter = new_ssdp_limiter 1 1 4\<rparr>"


section \<open>The hub understands its own announcements\<close>

definition clean_value :: "string \<Rightarrow> bool" where
  "clean_value v \<longleftrightarrow> v \<noteq> [] \<and> \<not> is_space (hd v) \<and> \<not> is_space (last v) \<and> CHR 0x0A \<notin> set v"

definition clean_key :: "string \<Rightarrow> bool" where
  "clean_key k \<longleftrightarrow> k \<noteq> [] \<and> list_all key_char k \<and> key_start (hd k)"

lemma takeWhile_prefix: "list_all P xs \<Longrightarrow> \<not> P c \<Longrightarrow> takeWhile P (xs @ c # ys) = xs \<and> dropWhile P (xs @ c # ys) = c # ys"
  by (induction xs) auto

lemma rstrip_clean: "v \<noteq> [] \<Longrightarrow> \<not> is_space (last v) \<Longrightarrow> list_all is_space ws \<Longrightarrow> rstrip_by is_space (v @ ws) = v"
proof -
  assume v: "v \<noteq> []" "\<not> is_space (last v)" and ws: "list_all is_space ws"
  obtain c cs where r: "rev v = c # cs" using v(1) by (cases "rev v") auto
  with v(1) have "c = last v" by (metis last_rev list.sel(1) rev_rev_ident rev_is_Nil_conv)
  with v(2) have c: "\<not> is_space c" by simp
  have "dropWhile is_space (rev ws @ c # cs) = c # cs"
    using takeWhile_prefix [of is_space "rev ws" c cs] ws c by (simp add: list_all_iff)
  then have "rstrip_by is_space (v @ ws) = rev (c # cs)" by (simp add: rstrip_by_def r)
  also have "\<dots> = v" using r by (metis rev_rev_ident)
  finally show ?thesis .
qed

lemma match_header_clean:
  assumes k: "clean_key k" and v: "clean_value v" and ws: "list_all is_space ws"
  shows "match_header (k @ '':'' @ ws @ v @ crlf @ rest) = Some (k, v, rest)"
proof -
  obtain c cs where vc: "v = c # cs" "\<not> is_space c" using v by (cases v) (auto simp: clean_value_def)
  have colon: "\<not> key_char (CHR '':'')" "\<not> is_space (CHR '':'')" by code_simp+
  have key: "takeWhile key_char (k @ '':'' @ ws @ v @ crlf @ rest) = k"
    using takeWhile_prefix [of key_char k "CHR '':''" "ws @ v @ crlf @ rest"] colon(1) k by (simp add: clean_key_def)
  have r1: "dropWhile is_space (drop (length k) (k @ '':'' @ ws @ v @ crlf @ rest)) = CHR '':'' # ws @ v @ crlf @ rest"
    using colon by simp
  have r3: "dropWhile is_space (ws @ v @ crlf @ rest) = v @ crlf @ rest"
    using takeWhile_prefix [of is_space ws c "cs @ crlf @ rest"] ws vc by simp
  have no_nl: "list_all (\<lambda>x. x \<noteq> CHR 0x0A) (v @ [CHR 0x0D])"
    using v by (auto simp: clean_value_def list_all_iff)
  have row: "takeWhile (\<lambda>x. x \<noteq> CHR 0x0A) (v @ crlf @ rest) = v @ [CHR 0x0D]"
    and rest: "dropWhile (\<lambda>x. x \<noteq> CHR 0x0A) (v @ crlf @ rest) = CHR 0x0A # rest"
    using takeWhile_prefix [of "\<lambda>x. x \<noteq> CHR 0x0A" "v @ [CHR 0x0D]" "CHR 0x0A" rest] no_nl by (simp_all add: crlf_def)
  have "is_space (CHR 0x0D)" by code_simp
  then have strip: "rstrip_by is_space (v @ [CHR 0x0D]) = v"
    using v by (intro rstrip_clean) (simp_all add: clean_value_def)
  have kk: "k \<noteq> []" "key_start (hd k)" using k by (simp_all add: clean_key_def)
  show ?thesis
    unfolding match_header_def Let_def key r1 list.case r3 row strip next_line_def rest
    using kk v by (simp add: clean_value_def)
qed

definition clean_header :: "string \<times> string \<Rightarrow> bool" where
  "clean_header h \<longleftrightarrow> clean_key (fst h) \<and> clean_value (snd h)"

definition block :: "(string \<times> string) list \<Rightarrow> string" where
  "block hs = concat (map (\<lambda>h. header_line h @ crlf) hs)"

lemma find_match: "match_header s = Some (k, v, r) \<Longrightarrow> find_headers s = (k, v) # find_headers r"
  by (subst find_headers.simps) (auto simp: match_header_def)

lemma find_no_match: "s \<noteq> [] \<Longrightarrow> match_header s = None \<Longrightarrow> find_headers s = find_headers (next_line s)"
  by (subst find_headers.simps) simp

lemma find_headers_block: "list_all clean_header hs \<Longrightarrow> find_headers (block hs @ r) = hs @ find_headers r"
proof (induction hs)
  case (Cons h hs)
  have "is_space (CHR '' '')" by code_simp
  then have "match_header (fst h @ '':'' @ '' '' @ snd h @ crlf @ block hs @ r) = Some (fst h, snd h, block hs @ r)"
    using Cons.prems by (intro match_header_clean) (simp_all add: clean_header_def)
  moreover have "block (h # hs) @ r = fst h @ '':'' @ '' '' @ snd h @ crlf @ block hs @ r"
    by (simp add: block_def header_line_def)
  ultimately show ?case using Cons find_match by simp
qed (simp add: block_def)

text \<open>A header without a value takes the whole next line as its value, and hides that header.\<close>

lemma empty_header_swallows_next:
  assumes "clean_key k" "clean_header h"
  shows "find_headers (k @ '': '' @ crlf @ header_line h @ crlf @ r) = (k, header_line h) # find_headers r"
proof -
  have ws: "list_all is_space ('' '' @ crlf)" by code_simp
  have key: "\<not> is_space c" if "key_start c" for c
    using that by (auto simp: key_start_def is_space_def Let_def)
  have "clean_value (header_line h)"
    using assms(2) key [of "hd (fst h)"]
    by (auto simp: clean_header_def clean_value_def clean_key_def header_line_def key_char_def list_all_iff is_digit_def)
  from match_header_clean [OF assms(1) this ws] have
    "match_header (k @ '':'' @ ('' '' @ crlf) @ header_line h @ crlf @ r) = Some (k, header_line h, r)" .
  from find_match [OF this] show ?thesis by simp
qed

lemma ssdp_message_block: "ssdp_message start hs = start @ crlf @ block hs @ crlf"
proof -
  have j: "join crlf (x # map header_line hs @ [[], []]) = x @ crlf @ block hs @ crlf" for x
    by (induction hs arbitrary: x) (simp_all add: block_def)
  show ?thesis using j [of start] by (simp add: ssdp_message_def)
qed

definition clean_config :: "ssdp_config \<Rightarrow> bool" where
  "clean_config c \<longleftrightarrow> list_all clean_value [sc_ip c, sc_serial c, sc_model c, sc_name c, sc_fw c] \<and> CHR ''/'' \<notin> set (sc_ip c)"

definition headers_after_server :: "ssdp_config \<Rightarrow> (string \<times> string) list" where
  "headers_after_server c = drop 3 (bambu_headers c)"

lemma block_append: "block (hs @ gs) = block hs @ block gs"
  by (simp add: block_def)

lemma fixed_headers_clean:
  "clean_header (''Cache-Control'', ''max-age=1800'')" "clean_key ''Ext''" "clean_header (''Server'', ''VirtualBambu/0.1 UPnP/1.0'')"
  "list_all clean_header [(''Host'', ''255.255.255.255:2021''), (''NTS'', ''ssdp:alive''), (''NT'', ''upnp:rootdevice'')]"
  by code_simp+

lemma fixed_keys_clean:
  "list_all clean_key [''Location'', ''USN'', ''DevModel.bambu.com'', ''DevName.bambu.com'', ''DevSignal.bambu.com'',
     ''DevConnect.bambu.com'', ''DevBind.bambu.com'', ''Devserial.bambu.com'', ''DevIP.bambu.com'', ''DevVersion.bambu.com'', ''DevCap.bambu.com'']"
  "list_all clean_value [''-44'', ''lan'', ''free'', ''1'']"
  by code_simp+

lemma headers_after_server_clean: "clean_config c \<Longrightarrow> list_all clean_header (headers_after_server c)"
  using fixed_keys_clean by (simp add: headers_after_server_def bambu_headers_def clean_config_def clean_header_def)

definition swallowed :: "(string \<times> string) list" where
  "swallowed = [(''Cache-Control'', ''max-age=1800''), (''Ext'', ''Server: VirtualBambu/0.1 UPnP/1.0'')]"

lemma find_bambu_headers:
  assumes "clean_config c"
  shows "find_headers (block (bambu_headers c) @ crlf) = swallowed @ headers_after_server c"
proof -
  let ?a = "[(''Cache-Control'', ''max-age=1800'')]" and ?s = "(''Server'', ''VirtualBambu/0.1 UPnP/1.0'')"
  have split: "bambu_headers c = ?a @ [(''Ext'', [])] @ [?s] @ headers_after_server c"
    by (simp add: bambu_headers_def headers_after_server_def)
  have ext: "block [(''Ext'', [])] = ''Ext'' @ '': '' @ crlf" "block [?s] = header_line ?s @ crlf"
    by (simp_all add: block_def header_line_def)
  have "find_headers (block (bambu_headers c) @ crlf) =
      find_headers (block ?a @ (''Ext'' @ '': '' @ crlf @ header_line ?s @ crlf @ (block (headers_after_server c) @ crlf)))"
    unfolding split block_append ext by simp
  also have "\<dots> = ?a @ find_headers (''Ext'' @ '': '' @ crlf @ header_line ?s @ crlf @ (block (headers_after_server c) @ crlf))"
    using fixed_headers_clean by (intro find_headers_block) simp
  also have "\<dots> = ?a @ (''Ext'', header_line ?s) # find_headers (block (headers_after_server c) @ crlf)"
    using empty_header_swallows_next [OF fixed_headers_clean(2,3), of "block (headers_after_server c) @ crlf"] by simp
  also have "find_headers (block (headers_after_server c) @ crlf) = headers_after_server c @ find_headers crlf"
    using headers_after_server_clean [OF assms] by (rule find_headers_block)
  also have "find_headers crlf = []" by code_simp
  finally show ?thesis by (simp add: swallowed_def header_line_def)
qed

lemma find_after_start: "match_header (start @ crlf @ r) = None \<Longrightarrow> CHR 0x0A \<notin> set start \<Longrightarrow>
    find_headers (start @ crlf @ r) = find_headers r"
proof -
  assume m: "match_header (start @ crlf @ r) = None" and nl: "CHR 0x0A \<notin> set start"
  have "list_all (\<lambda>x. x \<noteq> CHR 0x0A) (start @ [CHR 0x0D])" using nl by (auto simp: list_all_iff)
  then have "next_line (start @ crlf @ r) = r"
    using takeWhile_prefix [of "\<lambda>x. x \<noteq> CHR 0x0A" "start @ [CHR 0x0D]" "CHR 0x0A" r] by (simp add: next_line_def crlf_def)
  with m show ?thesis by (subst find_no_match) (auto simp: crlf_def)
qed

lemma start_lines_no_match:
  "match_header (''NOTIFY * HTTP/1.1'' @ crlf @ r) = None" "match_header (''HTTP/1.1 200 OK'' @ crlf @ r) = None"
proof -
  have c: "list_all key_char ''NOTIFY''" "\<not> key_char (CHR '' '')" "list_all key_char ''HTTP''" "\<not> key_char (CHR ''/'')"
    "is_space (CHR '' '')" "\<not> is_space (CHR ''*'')" "\<not> is_space (CHR ''/'')"
    by code_simp+
  have k1: "takeWhile key_char (''NOTIFY'' @ '' * HTTP/1.1'' @ crlf @ r) = ''NOTIFY''"
    using takeWhile_prefix [OF c(1,2), of "''* HTTP/1.1'' @ crlf @ r"] by simp
  have k2: "takeWhile key_char (''HTTP'' @ ''/1.1 200 OK'' @ crlf @ r) = ''HTTP''"
    using takeWhile_prefix [OF c(3,4), of "''1.1 200 OK'' @ crlf @ r"] by simp
  show "match_header (''NOTIFY * HTTP/1.1'' @ crlf @ r) = None"
    using k1 c unfolding match_header_def Let_def by simp
  show "match_header (''HTTP/1.1 200 OK'' @ crlf @ r) = None"
    using k2 c unfolding match_header_def Let_def by simp
qed

lemma first_line_start: "CHR 0x0D \<notin> set start \<Longrightarrow> first_line (start @ crlf @ r) = start"
  by (induction start) (auto simp: crlf_def startswith_def)

lemma lower_keys:
  "lower ''Host'' = ''host''" "lower ''NTS'' = ''nts''" "lower ''NT'' = ''nt''" "lower ''Cache-Control'' = ''cache-control''"
  "lower ''Ext'' = ''ext''" "lower ''Location'' = ''location''" "lower ''USN'' = ''usn''"
  "lower ''DevModel.bambu.com'' = ''devmodel.bambu.com''" "lower ''DevName.bambu.com'' = ''devname.bambu.com''"
  "lower ''DevSignal.bambu.com'' = ''devsignal.bambu.com''" "lower ''DevConnect.bambu.com'' = ''devconnect.bambu.com''"
  "lower ''DevBind.bambu.com'' = ''devbind.bambu.com''" "lower ''Devserial.bambu.com'' = ''devserial.bambu.com''"
  "lower ''DevIP.bambu.com'' = ''devip.bambu.com''" "lower ''DevVersion.bambu.com'' = ''devversion.bambu.com''"
  "lower ''DevCap.bambu.com'' = ''devcap.bambu.com''"
  by code_simp+

lemma url_host_none: "CHR ''/'' \<notin> set s \<Longrightarrow> url_host s = None"
  by (induction s) (auto simp: startswith_def Let_def)

lemma collected_lookups:
  "map (map_of (collect_headers (swallowed @ headers_after_server c) []))
     [''devsn'', ''devel.sn'', ''usn'', ''devmodel'', ''devname'', ''devel.softver'', ''devel.version'', ''softver'', ''version'', ''location''] =
   [None, None, Some (sc_serial c), Some (sc_model c), Some (sc_name c), None, None, None, None, Some (sc_ip c)]"
  "map (map_of (collect_headers ([(''Host'', ''255.255.255.255:2021''), (''NTS'', ''ssdp:alive''), (''NT'', ''upnp:rootdevice'')] @
       swallowed @ headers_after_server c) []))
     [''devsn'', ''devel.sn'', ''usn'', ''devmodel'', ''devname'', ''devel.softver'', ''devel.version'', ''softver'', ''version'', ''location''] =
   [None, None, Some (sc_serial c), Some (sc_model c), Some (sc_name c), None, None, None, None, Some (sc_ip c)]"
  by code_simp+

lemma collected:
  assumes "clean_config c" "pre \<in> {[], [(''Host'', ''255.255.255.255:2021''), (''NTS'', ''ssdp:alive''), (''NT'', ''upnp:rootdevice'')]}"
  shows "parse_headers (collect_headers (pre @ swallowed @ headers_after_server c) []) peer =
    Some \<lparr>dh_ip = peer, dh_hostname = Some (sc_name c), dh_model = Some (sc_model c), dh_serial = Some (sc_serial c), dh_firmware = None\<rparr>"
proof -
  have v: "sc_serial c \<noteq> []" "sc_model c \<noteq> []" "sc_name c \<noteq> []" "sc_ip c \<noteq> []" "url_host (sc_ip c) = None"
    using assms(1) by (auto simp: clean_config_def clean_value_def url_host_none)
  define d where "d = collect_headers (pre @ swallowed @ headers_after_server c) []"
  have "map (map_of d)
     [''devsn'', ''devel.sn'', ''usn'', ''devmodel'', ''devname'', ''devel.softver'', ''devel.version'', ''softver'', ''version'', ''location''] =
   [None, None, Some (sc_serial c), Some (sc_model c), Some (sc_name c), None, None, None, None, Some (sc_ip c)]"
    using assms(2) unfolding d_def by (elim insertE emptyE) (simp_all only: append_Nil collected_lookups)
  then have "parse_headers d peer = Some \<lparr>dh_ip = peer, dh_hostname = Some (sc_name c), dh_model = Some (sc_model c),
      dh_serial = Some (sc_serial c), dh_firmware = None\<rparr>"
    using v by (simp add: parse_headers_def Let_def)
  then show ?thesis by (simp only: d_def)
qed

text \<open>
  The hub's own discovery understands what its virtual printers announce. For any configuration whose
  values are single trimmed lines, the \<open>NOTIFY\<close> broadcast and the answer to a search are both read back
  as a printer with exactly that serial number, model and name, at the address the datagram came from.
  The firmware version is announced in a header the reader does not know, so it is lost.
\<close>
theorem announcement_understood:
  assumes "clean_config c"
  shows "parse_bambu_notify (build_ssdp_notify c) peer = Some \<lparr>dh_ip = peer, dh_hostname = Some (sc_name c),
      dh_model = Some (sc_model c), dh_serial = Some (sc_serial c), dh_firmware = None\<rparr> \<and>
    parse_bambu_notify (build_ssdp_response c) peer = parse_bambu_notify (build_ssdp_notify c) peer"
proof -
  let ?pre = "[(''Host'', ''255.255.255.255:2021''), (''NTS'', ''ssdp:alive''), (''NT'', ''upnp:rootdevice'')]"
  have n: "build_ssdp_notify c = ''NOTIFY * HTTP/1.1'' @ crlf @ block ?pre @ block (bambu_headers c) @ crlf"
    unfolding build_ssdp_notify_def ssdp_message_block block_append by simp
  have r: "build_ssdp_response c = ''HTTP/1.1 200 OK'' @ crlf @ block (bambu_headers c) @ crlf"
    unfolding build_ssdp_response_def ssdp_message_block by simp
  have "find_headers (build_ssdp_notify c) = find_headers (block ?pre @ block (bambu_headers c) @ crlf)"
    unfolding n by (rule find_after_start [OF start_lines_no_match(1)]) simp
  also have "\<dots> = ?pre @ find_headers (block (bambu_headers c) @ crlf)"
    using fixed_headers_clean(4) by (rule find_headers_block)
  finally have hn: "find_headers (build_ssdp_notify c) = ?pre @ swallowed @ headers_after_server c"
    by (simp add: find_bambu_headers [OF assms])
  have "find_headers (build_ssdp_response c) = find_headers (block (bambu_headers c) @ crlf)"
    unfolding r by (rule find_after_start [OF start_lines_no_match(2)]) simp
  then have hr: "find_headers (build_ssdp_response c) = swallowed @ headers_after_server c"
    by (simp add: find_bambu_headers [OF assms])
  have "first_line (build_ssdp_notify c) = ''NOTIFY * HTTP/1.1''" unfolding n by (rule first_line_start) simp
  moreover have "first_line (build_ssdp_response c) = ''HTTP/1.1 200 OK''" unfolding r by (rule first_line_start) simp
  moreover have "startswith ''NOTIFY'' (upper (strip ''NOTIFY * HTTP/1.1''))" "startswith ''HTTP/1.1 200'' (upper (strip ''HTTP/1.1 200 OK''))"
    by code_simp+
  ultimately show ?thesis
    using collected [OF assms, of ?pre peer] collected [OF assms, of "[]" peer] hn hr
    by (simp add: parse_bambu_notify_def)
qed

lemma announcement_understood_witness:
  "parse_bambu_notify (build_ssdp_notify \<lparr>sc_ip = ''10.0.0.7'', sc_serial = ''S1'', sc_model = ''N7'', sc_name = ''Lab P2S'', sc_fw = ''01''\<rparr>) ''10.0.0.7'' =
   Some \<lparr>dh_ip = ''10.0.0.7'', dh_hostname = Some ''Lab P2S'', dh_model = Some ''N7'', dh_serial = Some ''S1'', dh_firmware = None\<rparr>"
proof -
  have "clean_config \<lparr>sc_ip = ''10.0.0.7'', sc_serial = ''S1'', sc_model = ''N7'', sc_name = ''Lab P2S'', sc_fw = ''01''\<rparr>" by code_simp
  from announcement_understood [OF this] show ?thesis by simp
qed

end
