(* ===== verification/Diagnostics.thy ===== *)
theory Diagnostics
  imports PyText "HOL-Library.Sublist"
begin

text \<open>
  \<open>makeros_hub/diagnostics.py\<close>: the redaction every reported text goes through, the sticky error of each
  subsystem, the log ring, the cached facts, and the diagnostics block of a heartbeat.
  \<^item> A text is ASCII here as far as the scanners look at it: word characters, spaces and lower case are
    those of ASCII (\<open>PyText\<close>), for which \<open>lower\<close> keeps the positions, as the source assumes.
  \<^item> The two regular expressions are matchers that return the kept head, the value, the kept tail and the
    rest. They are deterministic: no alternative that the engine would try after a failure can succeed.
  \<^item> The scan for a key keeps the indices of the source and is total by a measure: what lies after the
    scan position shrinks.
\<close>

section \<open>Characters and searching\<close>

definition is_alnum :: "char \<Rightarrow> bool" where
  "is_alnum c \<longleftrightarrow> (let n = (of_char c :: nat) in is_digit c \<or> (65 \<le> n \<and> n \<le> 90) \<or> (97 \<le> n \<and> n \<le> 122))"

definition is_word :: "char \<Rightarrow> bool" where
  "is_word c \<longleftrightarrow> is_alnum c \<or> c = CHR ''_''"

definition quotes :: string where
  "quotes = [CHR 0x27, CHR 0x22]"

definition redacted_mark :: string where
  "redacted_mark = ''[redacted]''"

fun find_sub :: "string \<Rightarrow> string \<Rightarrow> nat option" where
  "find_sub key [] = (if key = [] then Some 0 else None)"
| "find_sub key (c # cs) = (if startswith key (c # cs) then Some 0 else map_option Suc (find_sub key cs))"

definition find_from :: "string \<Rightarrow> string \<Rightarrow> nat \<Rightarrow> nat option" where
  "find_from key s pos = map_option (\<lambda>i. pos + i) (find_sub key (drop pos s))"

text \<open>\<open>str.replace\<close> of a nonempty text.\<close>

function replace_all :: "string \<Rightarrow> string \<Rightarrow> string" where
  "replace_all old [] = []"
| "replace_all old (c # cs) = (if old \<noteq> [] \<and> startswith old (c # cs)
     then redacted_mark @ replace_all old (drop (length old) (c # cs)) else c # replace_all old cs)"
  by pat_completeness auto
termination by (relation "measure (\<lambda>(old, s). length s)") auto

definition strip_chars :: "string \<Rightarrow> string \<Rightarrow> string" where
  "strip_chars cs s = rstrip_by (\<lambda>c. c \<in> set cs) (lstrip_by (\<lambda>c. c \<in> set cs) s)"

definition wrapping :: string where
  "wrapping = quotes @ ''()[]{}<>,;''"

section \<open>The keys\<close>

definition secret_keys :: "string list" where
  "secret_keys = [''authkey'', ''auth_key'', ''auth-key'', ''auth key'', ''authorization'', ''bearer'', ''accesscode'',
     ''access_code'', ''access-code'', ''access code'', ''apikey'', ''api_key'', ''api-key'', ''api key'', ''x-api-key'',
     ''password'', ''passwd'', ''secret'', ''token'']"

definition space_value_keys :: "string list" where
  "space_value_keys = filter (\<lambda>k. k \<noteq> ''token'') secret_keys"

definition truncate_text :: "string \<Rightarrow> nat \<Rightarrow> string" where
  "truncate_text value limit = (if py_len value \<le> limit then value else py_take (limit - 3) value @ ''...'')"

section \<open>Masking what follows a key\<close>

definition is_value_delimiter :: "char \<Rightarrow> bool" where
  "is_value_delimiter c \<longleftrightarrow> is_space c \<or> c \<in> set '',;]}>)''"

definition redact_range :: "string \<Rightarrow> nat \<Rightarrow> nat \<Rightarrow> string" where
  "redact_range text start stop = (if stop \<le> start then text else take start text @ redacted_mark @ drop stop text)"

definition already_redacted_at :: "string \<Rightarrow> nat \<Rightarrow> bool" where
  "already_redacted_at text start \<longleftrightarrow> startswith redacted_mark (lower (drop start text))"

definition looks_secret_value :: "string \<Rightarrow> string \<Rightarrow> bool" where
  "looks_secret_value value key =
     (let stripped = strip_chars wrapping (strip value); low = lower stripped
      in stripped \<noteq> [] \<and> (key = ''bearer'' \<or> key = ''authorization'' \<or> startswith ''tskey-'' low \<or> startswith ''tskey_'' low \<or>
           8 \<le> length stripped))"

definition skip_space :: "string \<Rightarrow> nat \<Rightarrow> nat" where
  "skip_space text i = i + length (takeWhile is_space (drop i text))"

definition joined :: "char \<Rightarrow> bool" where
  "joined c \<longleftrightarrow> is_alnum c \<or> c = CHR ''_'' \<or> c = CHR ''-''"

text \<open>One value: the new text and where the scan goes on.\<close>

definition redact_value :: "string \<Rightarrow> bool \<Rightarrow> string \<Rightarrow> nat \<Rightarrow> nat \<Rightarrow> nat \<Rightarrow> string \<times> nat" where
  "redact_value key had text after_idx vs ve =
     (if vs < ve then
        (if already_redacted_at text vs then (text, vs + 10)
         else if \<not> had \<and> \<not> looks_secret_value (take (ve - vs) (drop vs text)) key then (text, after_idx)
         else (redact_range text vs ve, vs + 10))
      else (text, after_idx))"

definition redact_at :: "string \<Rightarrow> bool \<Rightarrow> string \<Rightarrow> nat \<Rightarrow> string \<times> nat" where
  "redact_at key allow text idx =
     (let low = lower text; after_idx = idx + length key in
      if (0 < idx \<and> joined (low ! (idx - 1))) \<or> (after_idx < length low \<and> joined (low ! after_idx)) then (text, after_idx)
      else
        let c1 = skip_space text after_idx;
            had = (c1 < length text \<and> text ! c1 \<in> set ''=:'');
            cursor = (if had then skip_space text (c1 + 1) else c1) in
        if \<not> had \<and> \<not> allow then (text, after_idx)
        else if cursor < length text \<and> text ! cursor \<in> set quotes then
          redact_value key had text after_idx (cursor + 1)
            (cursor + 1 + length (takeWhile (\<lambda>c. c \<noteq> text ! cursor) (drop (cursor + 1) text)))
        else
          let vs = (if had \<and> startswith ''bearer '' (drop cursor low) then cursor + 7 else cursor) in
          redact_value key had text after_idx vs (vs + length (takeWhile (\<lambda>c. \<not> is_value_delimiter c) (drop vs text))))"

lemma length_lower [simp]: "length (lower s) = length s"
  by (simp add: lower_def)

lemma find_sub_bound: "find_sub key s = Some i \<Longrightarrow> i + length key \<le> length s"
proof (induction key s arbitrary: i rule: find_sub.induct)
  case (2 key c cs)
  show ?case
  proof (cases "startswith key (c # cs)")
    case True
    then have "length key \<le> length (c # cs)" unfolding startswith_def by (metis length_take min.cobounded1)
    with True 2 show ?thesis by simp
  next
    case False
    with 2 show ?thesis by auto
  qed
qed (auto split: if_splits)

lemma find_from_bound: "find_from key s pos = Some idx \<Longrightarrow> pos \<le> idx \<and> (key \<noteq> [] \<longrightarrow> idx + length key \<le> length s)"
  by (cases key) (auto simp: find_from_def dest!: find_sub_bound)

text \<open>A step of the scan: the text is kept and the scan moves on, or a value behind the key is masked and the
  scan goes on behind the mask.\<close>

definition scan_step :: "string \<Rightarrow> nat \<Rightarrow> string \<Rightarrow> nat \<Rightarrow> bool" where
  "scan_step text a text' pos' \<longleftrightarrow> text' = text \<and> a \<le> pos' \<or>
     (\<exists>vs ve. a \<le> vs \<and> vs < ve \<and> ve \<le> length text \<and> text' = take vs text @ redacted_mark @ drop ve text \<and> pos' = vs + 10)"

lemma skip_space_ge: "i \<le> skip_space text i"
  by (simp add: skip_space_def)

lemma scan_redact_value:
  assumes "a \<le> vs" "vs < ve \<Longrightarrow> ve \<le> length text"
  shows "case redact_value key had text a vs ve of (text', pos') \<Rightarrow> scan_step text a text' pos'"
  using assms by (auto simp: redact_value_def scan_step_def redact_range_def)

lemma takeWhile_end: "vs < vs + length (takeWhile P (drop vs text)) \<Longrightarrow> vs + length (takeWhile P (drop vs text)) \<le> length text"
proof -
  assume a: "vs < vs + length (takeWhile P (drop vs text))"
  have "length (takeWhile P (drop vs text)) \<le> length (drop vs text)" by (rule length_takeWhile_le)
  moreover have "drop vs text \<noteq> []" using a by (cases "drop vs text") simp_all
  ultimately show ?thesis by simp
qed

lemma scan_redact_at: "case redact_at key allow text idx of (text', pos') \<Rightarrow> scan_step text (idx + length key) text' pos'"
proof -
  define a where "a = idx + length key"
  define c1 where "c1 = skip_space text a"
  define had where "had = (c1 < length text \<and> text ! c1 \<in> set ''=:'')"
  define cursor where "cursor = (if had then skip_space text (c1 + 1) else c1)"
  have "a \<le> c1" by (simp add: c1_def skip_space_ge)
  moreover have "c1 \<le> cursor" using skip_space_ge [of "c1 + 1" "text"] by (simp add: cursor_def)
  ultimately have c: "a \<le> cursor" by simp
  have q: "case redact_value key had text a (cursor + 1) (cursor + 1 + length (takeWhile P (drop (cursor + 1) text))) of
      (text', pos') \<Rightarrow> scan_step text a text' pos'" for P
    using c by (intro scan_redact_value takeWhile_end) simp_all
  have v: "a \<le> vs \<Longrightarrow> case redact_value key had text a vs (vs + length (takeWhile P (drop vs text))) of
      (text', pos') \<Rightarrow> scan_step text a text' pos'" for P vs
    by (intro scan_redact_value takeWhile_end) simp_all
  have same: "scan_step text a text a" by (simp add: scan_step_def)
  define skip where "skip \<longleftrightarrow> (0 < idx \<and> joined (lower text ! (idx - 1))) \<or> (a < length text \<and> joined (lower text ! a)) \<or> (\<not> had \<and> \<not> allow)"
  define quoted where "quoted \<longleftrightarrow> cursor < length text \<and> text ! cursor \<in> set quotes"
  define vs where "vs = (if had \<and> startswith ''bearer '' (drop cursor (lower text)) then cursor + 7 else cursor)"
  have vs: "a \<le> vs" using c by (simp add: vs_def)
  have "redact_at key allow text idx = (if skip then (text, a)
      else if quoted then redact_value key had text a (cursor + 1) (cursor + 1 + length (takeWhile (\<lambda>d. d \<noteq> text ! cursor) (drop (cursor + 1) text)))
      else redact_value key had text a vs (vs + length (takeWhile (\<lambda>d. \<not> is_value_delimiter d) (drop vs text))))"
    unfolding redact_at_def Let_def length_lower a_def [symmetric] c1_def [symmetric] had_def [symmetric] cursor_def [symmetric]
      quoted_def [symmetric] vs_def [symmetric] by (simp add: skip_def)
  then show ?thesis
    using q [of "\<lambda>d. d \<noteq> text ! cursor"] v [OF vs, of "\<lambda>d. \<not> is_value_delimiter d"] same
    by (simp flip: a_def)
qed

partial_function (option) redact_loop :: "string \<Rightarrow> bool \<Rightarrow> string \<Rightarrow> nat \<Rightarrow> string option" where
  "redact_loop key allow text pos = (case find_from key (lower text) pos of
      None \<Rightarrow> Some text
    | Some idx \<Rightarrow> (case redact_at key allow text idx of (text', pos') \<Rightarrow> redact_loop key allow text' pos'))"

declare redact_loop.simps [code]

definition redact_after_key :: "string \<Rightarrow> string \<Rightarrow> string option" where
  "redact_after_key key text = redact_loop key (key \<in> set space_value_keys) text 0"

lemma scan_step_shrinks:
  assumes "scan_step text a text' pos'" "pos < a" "a \<le> length text"
  shows "length text' - pos' < length text - pos"
  using assms by (auto simp: scan_step_def redacted_mark_def)

lemma redact_loop_returns: "key \<noteq> [] \<Longrightarrow> \<exists>t. redact_loop key allow text pos = Some t"
proof (induction "length text - pos" arbitrary: "text" pos rule: less_induct)
  case less
  show ?case
  proof (cases "find_from key (lower text) pos")
    case None
    then show ?thesis by (simp add: redact_loop.simps)
  next
    case (Some idx)
    obtain text' pos' where r: "redact_at key allow text idx = (text', pos')" by fastforce
    have b: "pos \<le> idx" "idx + length key \<le> length text"
      using find_from_bound [OF Some] less.prems by auto
    have "scan_step text (idx + length key) text' pos'" using scan_redact_at [of "text" idx key allow] r by simp
    moreover have "pos < idx + length key" using b less.prems by (cases key) simp_all
    ultimately have "length text' - pos' < length text - pos"
      using b by (intro scan_step_shrinks [of "text" "idx + length key"])
    from less.hyps [OF this less.prems] show ?thesis by (subst redact_loop.simps) (simp add: Some r)
  qed
qed

section \<open>The patterns and the tokens\<close>

datatype pattern = Userinfo | Access_code

definition boundary :: "char option \<Rightarrow> bool" where
  "boundary prev = (case prev of None \<Rightarrow> True | Some c \<Rightarrow> \<not> is_word c)"

definition userinfo_match :: "char option \<Rightarrow> string \<Rightarrow> (string \<times> string \<times> string \<times> string) option" where
  "userinfo_match prev s =
     (let v = takeWhile (\<lambda>c. c \<noteq> CHR ''@'' \<and> c \<noteq> CHR ''/'' \<and> \<not> is_space c) (drop 5 s); r = drop (5 + length v) s
      in if boundary prev \<and> lower (take 5 s) = ''bblp:'' \<and> v \<noteq> [] \<and> r \<noteq> [] \<and> hd r = CHR ''@''
         then Some (take 5 s, v, ''@'', tl r) else None)"

definition ends_word :: "string \<Rightarrow> bool" where
  "ends_word s \<longleftrightarrow> s = [] \<or> \<not> is_word (hd s)"

text \<open>The lengths of the separator behind the word \<open>code\<close> and of an optional quote.\<close>

definition separator_length :: "string \<Rightarrow> nat option" where
  "separator_length s =
     (let n = length (takeWhile is_space s); t = drop n s;
          m = (if t \<noteq> [] \<and> hd t \<in> set ''=:'' then Some 1
               else if 0 < n \<and> lower (take 2 t) = ''is'' \<and> ends_word (drop 2 t) then Some 2 else None)
      in map_option (\<lambda>k. n + k + length (takeWhile is_space (drop k t))) m)"

definition quote_length :: "string \<Rightarrow> nat" where
  "quote_length s = (if s \<noteq> [] \<and> hd s \<in> set quotes then 1 else 0)"

definition access_value_length :: "string \<Rightarrow> nat" where
  "access_value_length s = (if lower (take 10 s) = redacted_mark then 10
     else length (takeWhile (\<lambda>c. c \<notin> set quotes \<and> \<not> is_space c \<and> c \<notin> set '',.;]}>)'') s))"

definition parts_of :: "string \<Rightarrow> nat \<Rightarrow> nat \<Rightarrow> (string \<times> string \<times> string \<times> string) option" where
  "parts_of s h n = (let q = quote_length (drop (h + n) s) in if take n (drop h s) = [] then None
     else Some (take h s, take n (drop h s), take q (drop (h + n) s), drop (h + n + q) s))"

definition access_match :: "char option \<Rightarrow> string \<Rightarrow> (string \<times> string \<times> string \<times> string) option" where
  "access_match prev s =
     (let j = (if drop 6 s \<noteq> [] \<and> hd (drop 6 s) \<in> set ''_ -'' then 7 else 6)
      in if boundary prev \<and> lower (take 6 s) = ''access'' \<and> lower (take 4 (drop j s)) = ''code'' \<and> ends_word (drop (j + 4) s)
         then (case separator_length (drop (j + 4) s) of
             None \<Rightarrow> None
           | Some k \<Rightarrow>
               let b = j + 4 + k; h = b + quote_length (drop b s)
               in parts_of s h (access_value_length (drop h s)))
         else None)"

definition match_at :: "pattern \<Rightarrow> char option \<Rightarrow> string \<Rightarrow> (string \<times> string \<times> string \<times> string) option" where
  "match_at p = (case p of Userinfo \<Rightarrow> userinfo_match | Access_code \<Rightarrow> access_match)"

lemma userinfo_match_parts: "userinfo_match prev s = Some (h, v, t, r) \<Longrightarrow> s = h @ v @ t @ r \<and> v \<noteq> []"
proof -
  assume m: "userinfo_match prev s = Some (h, v, t, r)"
  define w where "w = takeWhile (\<lambda>c. c \<noteq> CHR ''@'' \<and> c \<noteq> CHR ''/'' \<and> \<not> is_space c) (drop 5 s)"
  from m have p: "h = take 5 s" "v = w" "t = ''@''" "w \<noteq> []" "drop (5 + length w) s \<noteq> []" "hd (drop (5 + length w) s) = CHR ''@''"
      "r = tl (drop (5 + length w) s)"
    by (auto simp: userinfo_match_def Let_def simp flip: w_def split: if_splits)
  have "drop (5 + length w) s = drop (length w) (drop 5 s)" by (simp add: add.commute)
  moreover have "w = take (length w) (drop 5 s)" unfolding w_def by (rule takeWhile_eq_take)
  ultimately have "drop 5 s = w @ drop (5 + length w) s" by (metis append_take_drop_id)
  moreover have "drop (5 + length w) s = CHR ''@'' # r" using p(5-7) by (cases "drop (5 + length w) s") auto
  ultimately have "s = take 5 s @ w @ CHR ''@'' # r" by (metis append_take_drop_id)
  with p show ?thesis by simp
qed

lemma take_drop_rest: "take n (drop b s) @ drop (b + n) s = drop b s"
  by (metis add.commute append_take_drop_id drop_drop)

lemma parts_of_parts: "parts_of s b n = Some (h, v, t, r) \<Longrightarrow> s = h @ v @ t @ r \<and> v \<noteq> []"
proof -
  assume "parts_of s b n = Some (h, v, t, r)"
  then obtain q where p: "h = take b s" "v = take n (drop b s)" "t = take q (drop (b + n) s)" "r = drop (b + n + q) s" "v \<noteq> []"
    by (auto simp: parts_of_def Let_def split: if_splits)
  have "t @ r = drop (b + n) s" "v @ drop (b + n) s = drop b s" unfolding p by (rule take_drop_rest)+
  moreover have "h @ drop b s = s" unfolding p by simp
  ultimately have "s = h @ v @ t @ r" by simp
  with p(5) show ?thesis by blast
qed

lemma access_match_parts: "access_match prev s = Some (h, v, t, r) \<Longrightarrow> s = h @ v @ t @ r \<and> v \<noteq> []"
  unfolding access_match_def Let_def
  by (simp only: split: if_split_asm option.split_asm; (drule parts_of_parts; assumption | simp))

lemma match_at_parts: "match_at p prev s = Some (h, v, t, r) \<Longrightarrow> s = h @ v @ t @ r \<and> v \<noteq> []"
  by (cases p) (auto simp: match_at_def dest: userinfo_match_parts access_match_parts)

function sub_pass :: "pattern \<Rightarrow> char option \<Rightarrow> string \<Rightarrow> string" where
  "sub_pass p prev [] = []"
| "sub_pass p prev (c # cs) = (case match_at p prev (c # cs) of
      None \<Rightarrow> c # sub_pass p (Some c) cs
    | Some (h, v, t, r) \<Rightarrow> h @ (if lower v = redacted_mark then v else redacted_mark) @ t @ sub_pass p (Some (last (h @ v @ t))) r)"
  by pat_completeness auto
termination
proof (relation "measure (\<lambda>(p, prev, s). length s)", goal_cases)
  case (3 p prev c cs x h y v z t r)
  then have "c # cs = h @ v @ t @ r \<and> v \<noteq> []" using match_at_parts by metis
  then have "length (c # cs) = length h + length v + length t + length r" "0 < length v"
    using arg_cong [of "c # cs" "h @ v @ t @ r" length] by simp_all
  then show ?case by simp
qed auto

definition redact_token :: "string \<Rightarrow> string" where
  "redact_token token = (let stripped = strip_chars wrapping token; low = lower stripped
     in if startswith ''tskey-'' low \<or> startswith ''tskey_'' low then replace_all stripped token else token)"

function redact_tokens :: "string \<Rightarrow> string" where
  "redact_tokens [] = []"
| "redact_tokens (c # cs) = (if is_space c then c # redact_tokens cs
     else redact_token (takeWhile (\<lambda>c. \<not> is_space c) (c # cs)) @ redact_tokens (dropWhile (\<lambda>c. \<not> is_space c) (c # cs)))"
  by pat_completeness auto
termination
  by (relation "measure length") (auto simp: le_imp_less_Suc length_dropWhile_le)

fun redact_keys :: "string list \<Rightarrow> string \<Rightarrow> string option" where
  "redact_keys [] t = Some t"
| "redact_keys (k # ks) t = (case redact_after_key k t of None \<Rightarrow> None | Some t' \<Rightarrow> redact_keys ks t')"

fun replace_secrets :: "string list \<Rightarrow> string \<Rightarrow> string" where
  "replace_secrets [] t = t"
| "replace_secrets (s # ss) t = replace_secrets ss (if s = [] then t else replace_all s t)"

text \<open>\<open>None\<close> would be a scan that does not end.\<close>

definition redact_run :: "string \<Rightarrow> string list \<Rightarrow> string option" where
  "redact_run s secrets = redact_keys secret_keys
     (redact_tokens (replace_secrets secrets (sub_pass Access_code None (sub_pass Userinfo None s))))"

definition redact :: "string \<Rightarrow> string list \<Rightarrow> string" where
  "redact s secrets = the (redact_run s secrets)"

section \<open>Redaction only masks, and hides\<close>

text \<open>Every pass replaces pieces of the text by the mark, nothing else.\<close>

inductive masks :: "string \<Rightarrow> string \<Rightarrow> bool" where
  masks_refl: "masks t t"
| masks_step: "masks t (a @ b @ c) \<Longrightarrow> masks t (a @ redacted_mark @ c)"

lemma masks_trans [trans]: "masks t u \<Longrightarrow> masks s t \<Longrightarrow> masks s u"
  by (induction rule: masks.induct) (auto intro: masks_step)

lemma masks_value: "masks v redacted_mark"
  using masks_step [OF masks_refl, of "[]" v "[]"] by simp

lemma masks_context: "masks t u \<Longrightarrow> masks (x @ t @ y) (x @ u @ y)"
proof (induction rule: masks.induct)
  case (masks_step t a b c)
  then have "masks (x @ t @ y) ((x @ a) @ b @ (c @ y))" by simp
  from masks.masks_step [OF this] show ?case by simp
qed (rule masks_refl)

lemma masks_append: "masks t t' \<Longrightarrow> masks u u' \<Longrightarrow> masks (t @ u) (t' @ u')"
  using masks_context [of t t' "[]" u] masks_context [of u u' t' "[]"] masks_trans by fastforce

lemma masks_scan: "scan_step s a s' pos' \<Longrightarrow> masks s s'"
proof -
  assume "scan_step s a s' pos'"
  then consider "s' = s" | vs ve where "vs < ve" "s' = take vs s @ redacted_mark @ drop ve s" by (auto simp: scan_step_def)
  then show ?thesis
  proof cases
    case 2
    have "s = take vs s @ take (ve - vs) (drop vs s) @ drop ve s"
      using take_drop_rest [of "ve - vs" vs s] 2(1) by simp
    then have "masks s (take vs s @ take (ve - vs) (drop vs s) @ drop ve s)" by (metis masks_refl)
    then show ?thesis unfolding 2(2) by (rule masks_step)
  qed (simp add: masks_refl)
qed

lemma masks_replace_all: "masks s (replace_all old s)"
proof (induction old s rule: replace_all.induct)
  case (2 old c cs)
  show ?case
  proof (cases "old \<noteq> [] \<and> startswith old (c # cs)")
    case True
    have "masks (take (length old) (c # cs) @ drop (length old) (c # cs)) (redacted_mark @ replace_all old (drop (length old) (c # cs)))"
      by (rule masks_append [OF masks_value 2(1) [OF True]])
    with True show ?thesis by simp
  next
    case False
    then have "replace_all old (c # cs) = [c] @ replace_all old cs" by auto
    then show ?thesis using masks_append [OF masks_refl [of "[c]"] 2(2) [OF False]] by simp
  qed
qed (simp add: masks_refl)

lemma masks_sub_pass: "masks s (sub_pass p prev s)"
proof (induction p prev s rule: sub_pass.induct)
  case (2 p prev c cs)
  show ?case
  proof (cases "match_at p prev (c # cs)")
    case None
    with masks_append [OF masks_refl [of "[c]"] 2(1)] show ?thesis by simp
  next
    case (Some m)
    then obtain h v t r where m: "match_at p prev (c # cs) = Some (h, v, t, r)" by (cases m) auto
    define v' where "v' = (if lower v = redacted_mark then v else redacted_mark)"
    have "masks v v'" by (simp add: v'_def masks_refl masks_value)
    moreover have "masks r (sub_pass p (Some (last (h @ v @ t))) r)" by (rule 2(2) [OF m refl refl refl])
    ultimately have "masks (h @ v @ t @ r) (h @ v' @ t @ sub_pass p (Some (last (h @ v @ t))) r)"
      by (intro masks_append masks_refl)
    moreover have "c # cs = h @ v @ t @ r" using match_at_parts [OF m] by blast
    moreover have "sub_pass p prev (c # cs) = h @ v' @ t @ sub_pass p (Some (last (h @ v @ t))) r" by (simp add: m v'_def)
    ultimately show ?thesis by metis
  qed
qed (simp add: masks_refl)

lemma masks_tokens: "masks s (redact_tokens s)"
proof (induction s rule: redact_tokens.induct)
  case (2 c cs)
  show ?case
  proof (cases "is_space c")
    case True
    with masks_append [OF masks_refl [of "[c]"] 2(1)] show ?thesis by simp
  next
    case False
    let ?w = "takeWhile (\<lambda>c. \<not> is_space c) (c # cs)" and ?r = "dropWhile (\<lambda>c. \<not> is_space c) (c # cs)"
    have "masks ?w (redact_token ?w)" by (simp add: redact_token_def Let_def masks_replace_all masks_refl del: takeWhile.simps)
    from masks_append [OF this 2(2) [OF False]] False show ?thesis by (simp del: takeWhile.simps dropWhile.simps)
  qed
qed (simp add: masks_refl)

lemma masks_secrets: "masks s (replace_secrets ss s)"
  by (induction ss arbitrary: s) (auto intro: masks_refl masks_trans masks_replace_all)

lemma masks_loop: "key \<noteq> [] \<Longrightarrow> redact_loop key allow s pos = Some t \<Longrightarrow> masks s t"
proof (induction "length s - pos" arbitrary: s pos rule: less_induct)
  case less
  show ?case
  proof (cases "find_from key (lower s) pos")
    case None
    with less.prems show ?thesis by (simp add: redact_loop.simps masks_refl)
  next
    case (Some idx)
    obtain s' pos' where r: "redact_at key allow s idx = (s', pos')" by fastforce
    have b: "pos \<le> idx" "idx + length key \<le> length s"
      using find_from_bound [OF Some] less.prems by auto
    have step: "scan_step s (idx + length key) s' pos'" using scan_redact_at [of s idx key allow] r by simp
    moreover have "pos < idx + length key" using b less.prems by (cases key) simp_all
    ultimately have dec: "length s' - pos' < length s - pos"
      using b by (intro scan_step_shrinks [of s "idx + length key"])
    have "redact_loop key allow s' pos' = Some t"
      using less.prems(2) by (subst (asm) redact_loop.simps) (simp add: Some r)
    from less.hyps [OF dec less.prems(1) this] masks_scan [OF step] show ?thesis by (rule masks_trans)
  qed
qed

lemma redact_keys_returns: "[] \<notin> set ks \<Longrightarrow> \<exists>t. redact_keys ks s = Some t \<and> masks s t"
proof (induction ks arbitrary: s)
  case (Cons k ks)
  then have k: "k \<noteq> []" by auto
  obtain t where t: "redact_after_key k s = Some t"
    unfolding redact_after_key_def using redact_loop_returns [OF k] by blast
  then have "masks s t" unfolding redact_after_key_def by (rule masks_loop [OF k])
  moreover obtain u where "redact_keys ks t = Some u" "masks t u" using Cons by fastforce
  ultimately show ?case using t by (auto intro: masks_trans)
qed (simp add: masks_refl)

lemma redact_run_redact: "redact_run s secrets = Some (redact s secrets)"
  and masks_redact: "masks (replace_secrets secrets (sub_pass Access_code None (sub_pass Userinfo None s))) (redact s secrets)"
proof -
  have "[] \<notin> set secret_keys" by (simp add: secret_keys_def)
  from redact_keys_returns [OF this] obtain t where t: "redact_run s secrets = Some t"
      "masks (redact_tokens (replace_secrets secrets (sub_pass Access_code None (sub_pass Userinfo None s)))) t"
    by (auto simp: redact_run_def)
  show "redact_run s secrets = Some (redact s secrets)" using t(1) by (simp add: redact_def)
  show "masks (replace_secrets secrets (sub_pass Access_code None (sub_pass Userinfo None s))) (redact s secrets)"
    using masks_trans [OF t(2) masks_tokens] t(1) by (simp add: redact_def)
qed

text \<open>A secret the mark itself does not contain or extend.\<close>

definition plain_secret :: "string \<Rightarrow> bool" where
  "plain_secret s \<longleftrightarrow> s \<noteq> [] \<and> CHR ''['' \<notin> set s \<and> CHR '']'' \<notin> set s \<and> \<not> sublist s ''redacted''"

lemma sublist_bar: "y \<notin> set s \<Longrightarrow> sublist s (xs @ y # ys) \<Longrightarrow> sublist s xs \<or> sublist s ys"
proof -
  assume y: "y \<notin> set s" and "sublist s (xs @ y # ys)"
  then consider "sublist s xs" | "sublist s (y # ys)" | s1 s2 where "s = s1 @ s2" "suffix s1 xs" "prefix s2 (y # ys)"
    by (auto simp: sublist_append)
  then show ?thesis
  proof cases
    case 2
    then show ?thesis using y by (auto simp: sublist_Cons_right prefix_Cons)
  next
    case 3
    then have "s2 = []" using y by (auto simp: prefix_Cons)
    with 3 show ?thesis by (auto dest: suffix_imp_sublist)
  qed simp
qed

lemma absent_mark: "plain_secret s \<Longrightarrow> \<not> sublist s a \<Longrightarrow> \<not> sublist s c \<Longrightarrow> \<not> sublist s (a @ redacted_mark @ c)"
proof
  assume s: "plain_secret s" "\<not> sublist s a" "\<not> sublist s c" and sub: "sublist s (a @ redacted_mark @ c)"
  have "a @ redacted_mark @ c = a @ CHR ''['' # (''redacted'' @ CHR '']'' # c)" by (simp add: redacted_mark_def)
  with sub have "sublist s (a @ CHR ''['' # (''redacted'' @ CHR '']'' # c))" by simp
  then have "sublist s (''redacted'' @ CHR '']'' # c)"
    using s sublist_bar [of "CHR ''[''" s a] by (auto simp: plain_secret_def)
  then show False using s sublist_bar [of "CHR '']''" s "''redacted''" c] by (auto simp: plain_secret_def)
qed

lemma masks_absent: "masks t u \<Longrightarrow> plain_secret s \<Longrightarrow> \<not> sublist s t \<Longrightarrow> \<not> sublist s u"
proof (induction rule: masks.induct)
  case (masks_step t a b c)
  then have "\<not> sublist s (a @ b @ c)" by simp
  then have "\<not> sublist s a" "\<not> sublist s c" using sublist_appendI by (metis append_Nil append_assoc sublist_append)+
  with masks_step.prems show ?case by (simp add: absent_mark)
qed

lemma prefix_replace_all: "prefix p (replace_all old t) \<Longrightarrow> CHR ''['' \<notin> set p \<Longrightarrow> prefix p t"
proof (induction old t arbitrary: p rule: replace_all.induct)
  case (2 old c cs)
  show ?case
  proof (cases p)
    case (Cons d ds)
    have "\<not> (old \<noteq> [] \<and> startswith old (c # cs))"
      using "2.prems" Cons by (auto simp: redacted_mark_def split: if_splits)
    with 2 Cons show ?thesis by (auto split: if_splits)
  qed simp
qed simp

lemma absent_replace_all: "plain_secret s \<Longrightarrow> \<not> sublist s (replace_all s t)"
proof (induction s t rule: replace_all.induct)
  case (1 s)
  then show ?case by (simp add: plain_secret_def)
next
  case (2 s c cs)
  have s: "s \<noteq> []" "CHR ''['' \<notin> set s" using "2.prems" by (auto simp: plain_secret_def)
  show ?case
  proof (cases "startswith s (c # cs)")
    case True
    with 2 s absent_mark [of s "[]"] show ?thesis by (auto simp: plain_secret_def)
  next
    case False
    have "\<not> prefix s (c # replace_all s cs)"
    proof
      assume "prefix s (c # replace_all s cs)"
      with s obtain s' where s': "s = c # s'" "prefix s' (replace_all s cs)" by (auto simp: prefix_Cons)
      then have "prefix s (c # cs)" using s prefix_replace_all [of s' s cs] by auto
      with False show False by (auto simp: startswith_def prefix_def)
    qed
    with 2 False show ?thesis by (simp add: sublist_Cons_right)
  qed
qed

lemma absent_replace_secrets: "plain_secret s \<Longrightarrow> s \<in> set ss \<Longrightarrow> \<not> sublist s (replace_secrets ss t)"
proof (induction ss arbitrary: t)
  case (Cons x xs)
  show ?case
  proof (cases "s \<in> set xs")
    case True
    with Cons show ?thesis by simp
  next
    case False
    with Cons.prems have x: "x = s" "s \<noteq> []" by (auto simp: plain_secret_def)
    show ?thesis using masks_absent [OF masks_secrets Cons.prems(1) absent_replace_all [OF Cons.prems(1)]] x by simp
  qed
qed simp

lemma redact_absent: "plain_secret s \<Longrightarrow> s \<in> set secrets \<Longrightarrow> \<not> sublist s (redact t secrets)"
  by (rule masks_absent [OF masks_redact _ absent_replace_secrets])

section \<open>The rings\<close>

definition SUBSYSTEMS :: "string list" where
  "SUBSYSTEMS = [''tailscale'', ''printers'', ''heartbeat'', ''config'', ''update'', ''ingest'', ''vprinter'', ''camera'', ''klipper'',
     ''failure_watch'', ''detector'', ''lan_scan'']"

definition ERROR_MESSAGE_MAX :: nat where
  "ERROR_MESSAGE_MAX = 280"

definition LOG_MESSAGE_MAX :: nat where
  "LOG_MESSAGE_MAX = 180"

definition LOG_RING_SIZE :: nat where
  "LOG_RING_SIZE = 16"

record error_ring =
  er_max :: nat
  er_errors :: "(string, (string \<times> int) list) odict"

definition new_error_ring :: "int \<Rightarrow> error_ring" where
  "new_error_ring n = \<lparr>er_max = nat (max 1 n), er_errors = map (\<lambda>s. (s, [])) SUBSYSTEMS\<rparr>"

definition clean_error :: "string \<Rightarrow> string list \<Rightarrow> string" where
  "clean_error message secrets = (let m = strip (redact message secrets)
     in truncate_text (if m = [] then ''unknown error'' else m) ERROR_MESSAGE_MAX)"

definition keep_newest :: "nat \<Rightarrow> 'a \<Rightarrow> 'a list \<Rightarrow> 'a list" where
  "keep_newest cap x xs = drop (length (xs @ [x]) - cap) (xs @ [x])"

definition record_error :: "string \<Rightarrow> string \<Rightarrow> string list \<Rightarrow> int \<Rightarrow> error_ring \<Rightarrow> error_ring" where
  "record_error subsystem message secrets now r = (case map_of (er_errors r) subsystem of
      None \<Rightarrow> r
    | Some entries \<Rightarrow> r\<lparr>er_errors := AList.update subsystem (keep_newest (er_max r) (clean_error message secrets, now) entries) (er_errors r)\<rparr>)"

definition error_snapshot :: "error_ring \<Rightarrow> (string, string \<times> int) odict" where
  "error_snapshot r = List.map_filter (\<lambda>(s, es). if es = [] then None else Some (s, last es)) (er_errors r)"

record log_entry =
  le_level :: string
  le_name :: string
  le_message :: string
  le_ts :: int

record log_record =
  lr_levelno :: int
  lr_levelname :: string
  lr_name :: string
  lr_message :: "string option"

definition log_entry_of :: "log_record \<Rightarrow> int \<Rightarrow> log_entry" where
  "log_entry_of l now = \<lparr>le_level = lr_levelname l, le_name = lr_name l,
     le_message = truncate_text (strip (redact (case lr_message l of None \<Rightarrow> ''log formatting failed'' | Some m \<Rightarrow> m) [])) LOG_MESSAGE_MAX,
     le_ts = now\<rparr>"

definition emit :: "log_record \<Rightarrow> int \<Rightarrow> log_entry list \<Rightarrow> log_entry list" where
  "emit l now ring = (if lr_levelno l < 30 then ring else keep_newest LOG_RING_SIZE (log_entry_of l now) ring)"

text \<open>Both rings evict their oldest entries over a cap.\<close>

lemma keep_newest_fifo: "keep_newest cap x xs = drop (length xs + 1 - cap) (xs @ [x])"
  by (simp add: keep_newest_def)

interpretation log_ring: bounded_fifo "\<lambda>r. r" "keep_newest LOG_RING_SIZE" LOG_RING_SIZE
  by unfold_locales (simp_all add: LOG_RING_SIZE_def keep_newest_fifo)

lemma keep_newest_last: "0 < cap \<Longrightarrow> keep_newest cap x xs \<noteq> [] \<and> last (keep_newest cap x xs) = x"
  by (simp add: keep_newest_def drop_append)

section \<open>Cached facts\<close>

definition BINARY_CACHE_TTL_SEC :: real where
  "BINARY_CACHE_TTL_SEC = 5"

definition NETWORK_CACHE_TTL_SEC :: real where
  "NETWORK_CACHE_TTL_SEC = 60"

definition BINARIES :: "string list" where
  "BINARIES = [''curl'', ''wget'', ''python3'', ''tailscale'', ''apt-get'', ''systemctl'', ''sudo'', ''git'']"

definition NETWORK_DEFAULT :: "(string \<times> bool) list" where
  "NETWORK_DEFAULT = [(''cloud'', False), (''tailscale_com'', False), (''pkgs_tailscale'', False)]"

definition after_first :: "string \<Rightarrow> string \<Rightarrow> string" where
  "after_first sep s = (case find_sub sep s of None \<Rightarrow> s | Some i \<Rightarrow> drop (i + length sep) s)"

definition or_none :: "string \<Rightarrow> string option" where
  "or_none s = (if s = [] then None else Some s)"

definition host_from_url :: "string option \<Rightarrow> string option \<Rightarrow> string option" where
  "host_from_url url env =
     (case (if url = None \<or> url = Some [] then env else url) of
        None \<Rightarrow> None
      | Some [] \<Rightarrow> None
      | Some u \<Rightarrow>
          let value = last (split_on (CHR ''@'') (takeWhile (\<lambda>c. c \<noteq> CHR ''/'') (after_first ''://'' (strip u))))
          in if value \<noteq> [] \<and> hd value = CHR ''['' \<and> CHR '']'' \<in> set value
             then or_none (takeWhile (\<lambda>c. c \<noteq> CHR '']'') (tl value))
             else or_none (takeWhile (\<lambda>c. c \<noteq> CHR '':'') value))"

text \<open>What the host offers: which programs exist, and which hosts answer on port 443 within a timeout.\<close>

record host_env =
  he_which :: "string \<Rightarrow> bool"
  he_reach :: "string \<Rightarrow> real \<Rightarrow> bool"
  he_cloud_url :: "string option"

record caches =
  ca_binary :: "(real \<times> (string \<times> bool) list) option"
  ca_network :: "(string option \<times> real, real \<times> (string \<times> bool) list) odict"

definition binary_presence :: "host_env \<Rightarrow> real \<Rightarrow> caches \<Rightarrow> (string \<times> bool) list \<times> caches" where
  "binary_presence env now ca = (case ca_binary ca of
      Some (at_, v) \<Rightarrow> if now - at_ < BINARY_CACHE_TTL_SEC then (v, ca)
        else (let w = map (\<lambda>b. (b, he_which env b)) BINARIES in (w, ca\<lparr>ca_binary := Some (now, w)\<rparr>))
    | None \<Rightarrow> (let w = map (\<lambda>b. (b, he_which env b)) BINARIES in (w, ca\<lparr>ca_binary := Some (now, w)\<rparr>)))"

definition tcp_reachable :: "host_env \<Rightarrow> string option \<Rightarrow> real \<Rightarrow> bool" where
  "tcp_reachable env host timeout = (case host of None \<Rightarrow> False | Some [] \<Rightarrow> False | Some h \<Rightarrow> he_reach env h timeout)"

definition network_reachability :: "host_env \<Rightarrow> real \<Rightarrow> string option \<Rightarrow> real \<Rightarrow> caches \<Rightarrow> (string \<times> bool) list \<times> caches" where
  "network_reachability env timeout cloud_url now ca =
     (let host = host_from_url cloud_url (he_cloud_url env);
          fresh = (let t = max (1 / 10) timeout in
            [(''cloud'', tcp_reachable env host t), (''tailscale_com'', tcp_reachable env (Some ''tailscale.com'') t),
             (''pkgs_tailscale'', tcp_reachable env (Some ''pkgs.tailscale.com'') t)]);
          store = (fresh, ca\<lparr>ca_network := AList.update (host, timeout) (now, fresh) (ca_network ca)\<rparr>)
      in case map_of (ca_network ca) (host, timeout) of
           Some (at_, v) \<Rightarrow> if now - at_ < NETWORK_CACHE_TTL_SEC then (v, ca) else store
         | None \<Rightarrow> store)"

section \<open>The diagnostics of a heartbeat\<close>

record diagnostics =
  dg_cloud_url :: "string option"
  dg_network :: bool
  dg_facts :: "(string \<times> pyval) list"
  dg_errors :: error_ring
  dg_log :: "log_entry list"

definition new_diagnostics :: "string option \<Rightarrow> bool \<Rightarrow> (string \<times> pyval) list \<Rightarrow> diagnostics" where
  "new_diagnostics url net facts = \<lparr>dg_cloud_url = url, dg_network = net, dg_facts = facts, dg_errors = new_error_ring 1, dg_log = []\<rparr>"

definition record_diagnostic :: "string \<Rightarrow> string \<Rightarrow> string list \<Rightarrow> int \<Rightarrow> diagnostics \<Rightarrow> diagnostics" where
  "record_diagnostic subsystem message secrets now d = d\<lparr>dg_errors := record_error subsystem message secrets now (dg_errors d)\<rparr>"

definition log_diagnostic :: "log_record \<Rightarrow> int \<Rightarrow> diagnostics \<Rightarrow> diagnostics" where
  "log_diagnostic l now d = d\<lparr>dg_log := emit l now (dg_log d)\<rparr>"

record snapshot =
  ds_facts :: "(string \<times> pyval) list"
  ds_binaries :: "(string \<times> bool) list option"
  ds_network :: "(string \<times> bool) list"
  ds_errors :: "(string, string \<times> int) odict"
  ds_log :: "log_entry list"

definition minimal_diagnostics :: "diagnostics \<Rightarrow> snapshot" where
  "minimal_diagnostics d = \<lparr>ds_facts = dg_facts d, ds_binaries = None, ds_network = NETWORK_DEFAULT,
     ds_errors = error_snapshot (dg_errors d), ds_log = dg_log d\<rparr>"

text \<open>\<open>None\<close> for the readings: collecting them raised.\<close>

definition collect_diagnostics :: "host_env option \<Rightarrow> real \<Rightarrow> diagnostics \<Rightarrow> caches \<Rightarrow> snapshot \<times> caches" where
  "collect_diagnostics readings now d ca = (case readings of
      None \<Rightarrow> (minimal_diagnostics d, ca)
    | Some env \<Rightarrow>
        let (net, ca1) = (if dg_network d then network_reachability env (1 / 2) (dg_cloud_url d) now ca else (NETWORK_DEFAULT, ca));
            (bin, ca2) = binary_presence env now ca1
        in (\<lparr>ds_facts = dg_facts d, ds_binaries = Some bin, ds_network = net, ds_errors = error_snapshot (dg_errors d), ds_log = dg_log d\<rparr>, ca2))"

section \<open>Properties\<close>

text \<open>
  C26: Redaction ends on every text, and only replaces pieces of the text by the mark.\<close>
theorem redact_ends: "\<exists>t. redact_run s secrets = Some t \<and> masks s t"
  using redact_run_redact [of s secrets] masks_redact [of secrets s]
  by (metis masks_secrets masks_sub_pass masks_trans)

text \<open>
  C27: A known secret (an auth key, an access code) is nowhere in a redacted text, whatever surrounds it and
  whatever else is masked.\<close>
theorem redact_hides_secrets:
  assumes "s \<in> set secrets" "s \<noteq> []" "CHR ''['' \<notin> set s" "CHR '']'' \<notin> set s" "\<not> sublist s ''redacted''"
  shows "\<not> sublist s (redact t secrets)"
  using assms by (intro redact_absent) (simp_all add: plain_secret_def)

lemma strip_sublist: "sublist (strip s) s"
proof -
  define d where "d = dropWhile is_space s"
  have "sublist d s" unfolding d_def by (metis sublist_appendI append_Nil2 takeWhile_dropWhile_id)
  moreover have "sublist (rev (dropWhile is_space (rev d))) d"
    by (metis append_Nil rev_append rev_rev_ident sublist_appendI takeWhile_dropWhile_id)
  ultimately show ?thesis by (simp add: strip_def lstrip_by_def rstrip_by_def d_def sublist_order.order.trans)
qed

lemma py_take_prefix: "prefix (py_take n s) s"
  by (induction n s rule: py_take.induct) (auto split: nat.splits)

lemma py_len_append: "py_len (a @ b) = py_len a + py_len b"
  by (simp add: py_len_def)

lemma truncate_text_bound: "3 \<le> limit \<Longrightarrow> py_len (truncate_text s limit) \<le> limit"
proof -
  assume "3 \<le> limit"
  moreover have "py_len ''...'' = 3" by (simp add: py_len_def is_cont_char_def)
  moreover have "py_len (py_take (limit - 3) s) \<le> limit - 3" by (rule py_len_take)
  ultimately show ?thesis by (auto simp: truncate_text_def py_len_append)
qed

lemma absent_truncate: "\<not> sublist s t \<Longrightarrow> CHR ''.'' \<notin> set s \<Longrightarrow> s \<noteq> [] \<Longrightarrow> \<not> sublist s (truncate_text t limit)"
proof
  assume s: "\<not> sublist s t" "CHR ''.'' \<notin> set s" "s \<noteq> []" and sub: "sublist s (truncate_text t limit)"
  show False
  proof (cases "py_len t \<le> limit")
    case True
    with s sub show False by (simp add: truncate_text_def)
  next
    case False
    let ?p = "py_take (limit - 3) t"
    have "sublist s ?p \<or> sublist s ''..''" using sub False s sublist_bar [of "CHR ''.''" s ?p "''..''"] by (simp add: truncate_text_def)
    moreover have "\<not> sublist s ''..''"
      using s(2,3) by (cases s) (auto dest!: set_mono_sublist)
    ultimately have "sublist s ?p" by blast
    with s py_take_prefix [of "limit - 3" t] show False
      by (meson prefix_imp_sublist sublist_order.order.trans)
  qed
qed


datatype diag_event =
    Reported string string "string list" int
  | Logged log_record int

fun diag_step :: "diag_event \<Rightarrow> diagnostics \<Rightarrow> diagnostics" where
  "diag_step (Reported s m secrets now) d = record_diagnostic s m secrets now d"
| "diag_step (Logged l now) d = log_diagnostic l now d"

text \<open>What the rings stand for: the newest report of each subsystem, and the newest warnings of the log.\<close>

fun newest_report :: "string \<Rightarrow> diag_event list \<Rightarrow> (string \<times> int) option" where
  "newest_report k [] = None"
| "newest_report k (e # es) = (case newest_report k es of
      Some r \<Rightarrow> Some r
    | None \<Rightarrow> (case e of Reported s m secrets now \<Rightarrow> if s = k then Some (clean_error m secrets, now) else None | Logged l t \<Rightarrow> None))"

definition warnings :: "diag_event list \<Rightarrow> log_entry list" where
  "warnings es = List.map_filter (\<lambda>e. case e of Reported s m secrets now \<Rightarrow> None
     | Logged l now \<Rightarrow> if lr_levelno l < 30 then None else Some (log_entry_of l now)) es"

lemma map_of_newest: "wf_dict d \<Longrightarrow> map_of (List.map_filter (\<lambda>(s, es). if es = [] then None else Some (s, last es)) d) k =
    (case map_of d k of None \<Rightarrow> None | Some es \<Rightarrow> if es = [] then None else Some (last es))"
proof (induction d)
  case (Cons p d)
  obtain s es where p: "p = (s, es)" by (cases p)
  have wf: "wf_dict d" "s \<notin> set (keys d)" using Cons.prems by (auto simp: wf_dict_def p)
  then have s: "map_of d s = None" by (simp add: map_of_None_keys)
  show ?case using Cons.IH [OF wf(1)] s by (auto simp: p map_filter_simps split: option.split)
qed (simp add: map_filter_simps)

definition ring_ok :: "error_ring \<Rightarrow> bool" where
  "ring_ok r \<longleftrightarrow> wf_dict (er_errors r) \<and> set (keys (er_errors r)) = set SUBSYSTEMS \<and> 0 < er_max r"

lemma ring_ok_new: "ring_ok (new_error_ring n)"
  by (simp add: ring_ok_def new_error_ring_def wf_dict_def keys_def o_def SUBSYSTEMS_def)

lemma ring_ok_record: "ring_ok r \<Longrightarrow> ring_ok (record_error s m secrets now r)"
proof (cases "map_of (er_errors r) s")
  case (Some es)
  then have "s \<in> set (keys (er_errors r))" using map_of_None_keys [of "er_errors r" s] by auto
  moreover assume "ring_ok r"
  ultimately show ?thesis using Some by (simp add: ring_ok_def record_error_def keys_update wf_dict_update)
qed (simp add: record_error_def)

lemma error_snapshot_of: "ring_ok r \<Longrightarrow> map_of (error_snapshot r) k =
    (case map_of (er_errors r) k of None \<Rightarrow> None | Some es \<Rightarrow> if es = [] then None else Some (last es))"
  by (simp add: error_snapshot_def map_of_newest ring_ok_def)

lemma error_snapshot_record: "ring_ok r \<Longrightarrow> map_of (error_snapshot (record_error s m secrets now r)) k =
    (if s = k \<and> s \<in> set SUBSYSTEMS then Some (clean_error m secrets, now) else map_of (error_snapshot r) k)"
proof -
  assume ok: "ring_ok r"
  have s: "s \<in> set SUBSYSTEMS \<longleftrightarrow> map_of (er_errors r) s \<noteq> None"
    using ok map_of_None_keys [of "er_errors r" s] by (simp add: ring_ok_def)
  show ?thesis
    using ok s keep_newest_last [of "er_max r" "(clean_error m secrets, now)"]
    by (simp add: error_snapshot_of [OF ring_ok_record [OF ok]] error_snapshot_of [OF ok])
      (auto simp: record_error_def map_of_update ring_ok_def split: option.splits)
qed

lemma warnings_Cons: "warnings (e # es) = warnings [e] @ warnings es"
  by (simp add: warnings_def List.map_filter_def)

lemma log_step: "dg_log (diag_step e d) = fold (keep_newest LOG_RING_SIZE) (warnings [e]) (dg_log d)"
  by (cases e) (simp_all add: record_diagnostic_def log_diagnostic_def emit_def warnings_def List.map_filter_def)

lemma ring_ok_step: "ring_ok (dg_errors d) \<Longrightarrow> ring_ok (dg_errors (diag_step e d))"
  by (cases e) (simp_all add: record_diagnostic_def log_diagnostic_def ring_ok_record)

lemma errors_step: "ring_ok (dg_errors d) \<Longrightarrow> map_of (error_snapshot (dg_errors (diag_step e d))) k =
    (if k \<in> set SUBSYSTEMS \<and> newest_report k [e] \<noteq> None then newest_report k [e] else map_of (error_snapshot (dg_errors d)) k)"
  by (cases e) (auto simp: record_diagnostic_def log_diagnostic_def error_snapshot_record)

lemma newest_report_Cons: "newest_report k (e # es) = (if newest_report k es = None then newest_report k [e] else newest_report k es)"
  by (auto split: option.split)

lemma errors_run: "ring_ok (dg_errors d) \<Longrightarrow> map_of (error_snapshot (dg_errors (fold diag_step es d))) k =
    (if k \<in> set SUBSYSTEMS \<and> newest_report k es \<noteq> None then newest_report k es else map_of (error_snapshot (dg_errors d)) k)"
proof (induction es arbitrary: d)
  case (Cons e es)
  have "map_of (error_snapshot (dg_errors (fold diag_step (e # es) d))) k =
      (if k \<in> set SUBSYSTEMS \<and> newest_report k es \<noteq> None then newest_report k es else map_of (error_snapshot (dg_errors (diag_step e d))) k)"
    by (simp only: fold_Cons o_apply Cons.IH [OF ring_ok_step [OF Cons.prems]])
  then show ?case unfolding errors_step [OF Cons.prems] newest_report_Cons [of k e es]
    by (cases "newest_report k es = None") (simp_all del: newest_report.simps not_None_eq)
qed simp

lemma log_run: "dg_log (fold diag_step es d) = fold (keep_newest LOG_RING_SIZE) (warnings es) (dg_log d)"
proof (induction es arbitrary: d)
  case (Cons e es)
  have "fold (keep_newest LOG_RING_SIZE) (warnings (e # es)) (dg_log d) =
      fold (keep_newest LOG_RING_SIZE) (warnings es) (dg_log (diag_step e d))"
    by (subst warnings_Cons) (simp add: log_step)
  then show ?case by (simp add: Cons.IH)
qed (simp add: warnings_def List.map_filter_def)

text \<open>
  The diagnostics report, for each known subsystem, its newest error, sticky until a newer one of the same
  subsystem, redacted, without the secrets given with it and at most 280 characters long; and the newest 16
  warnings of the log in order.\<close>
theorem diagnostics_report_newest:
  "let d = fold diag_step es (new_diagnostics url net facts)
   in map_of (error_snapshot (dg_errors d)) k = (if k \<in> set SUBSYSTEMS then newest_report k es else None) \<and>
      dg_log d = drop (length (warnings es) - 16) (warnings es)"
proof -
  have ok: "ring_ok (dg_errors (new_diagnostics url net facts))" by (simp add: new_diagnostics_def ring_ok_new)
  have "map_of (error_snapshot (new_error_ring 1)) k = None"
    by (simp add: error_snapshot_of [OF ring_ok_new]) (auto simp: new_error_ring_def map_of_map split: option.split dest!: map_of_SomeD)
  moreover have "dg_log (new_diagnostics url net facts) = []" by (simp add: new_diagnostics_def)
  ultimately show ?thesis
    using errors_run [OF ok, of es k] log_run [of es "new_diagnostics url net facts"] log_ring.fold_add [of "[]" "warnings es"]
    by (cases "newest_report k es") (simp_all add: Let_def new_diagnostics_def LOG_RING_SIZE_def)
qed


lemma clean_error_safe:
  assumes "s \<in> set secrets" "plain_secret s" "CHR ''.'' \<notin> set s" "\<not> sublist s ''unknown error''"
  shows "\<not> sublist s (clean_error m secrets) \<and> py_len (clean_error m secrets) \<le> 280"
proof -
  have "\<not> sublist s (strip (redact m secrets))"
    using redact_absent [OF assms(2,1)] strip_sublist [of "redact m secrets"] sublist_order.order.trans by blast
  then have "\<not> sublist s (clean_error m secrets)"
    using assms unfolding clean_error_def Let_def plain_secret_def
    by (cases "strip (redact m secrets) = []") (simp_all add: absent_truncate)
  then show ?thesis using truncate_text_bound [of 280] by (simp add: clean_error_def Let_def ERROR_MESSAGE_MAX_def)
qed

text \<open>The access code with the known secret is hidden wherever it stands.\<close>
lemma redact_hides_secrets_witness: "\<not> sublist ''12345678'' (redact ''login 12345678/x12345678y failed'' [''12345678''])"
  by (rule redact_hides_secrets) (simp_all add: sublist_code)

text \<open>Without the secret at hand the scan of the keys is the only protection, and it misses texts the agent does
  report. In JSON, where the closing quote of the key stands before the colon, the quoted text behind the
  key is taken to be the separator; and behind \<open>Authorization:\<close> only the scheme is masked unless it is
  \<open>Bearer\<close>.\<close>
lemma json_value_survives:
  "redact (CHR 0x22 # ''token'' @ CHR 0x22 # '':'' @ CHR 0x22 # ''abc'' @ [CHR 0x22]) [] =
    CHR 0x22 # ''token'' @ CHR 0x22 # '':'' @ CHR 0x22 # ''abc'' @ [CHR 0x22]"
  by code_simp

lemma basic_credential_survives: "redact ''Authorization: Basic aHVi'' [] = ''Authorization: [redacted] aHVi''"
  by code_simp

end
