(* ===== verification/Tailscale.thy ===== *)
theory Tailscale
  imports Diagnostics
begin

text \<open>
  \<open>makeros_hub/tailscale.py\<close>: reading the state of Tailscale and reconciling it with the block of the cloud's
  configuration. Running a program is a parameter that may answer differently at every call; the calls
  made so far, with what was written to their standard input, and the failures recorded in the
  diagnostics are the state. \<open>json.loads\<close> and \<open>ipaddress.ip_network\<close> on a route are parameters; IPv4
  addresses are parsed here.
\<close>

section \<open>Text\<close>

fun split_by :: "(char \<Rightarrow> bool) \<Rightarrow> string \<Rightarrow> string list" where
  "split_by P [] = [[]]"
| "split_by P (x # xs) = (if P x then [] # split_by P xs
     else (case split_by P xs of [] \<Rightarrow> [[x]] | w # ws \<Rightarrow> (x # w) # ws))"

definition words :: "string \<Rightarrow> string list" where
  "words s = filter (\<lambda>w. w \<noteq> []) (split_by is_space s)"

definition line_break :: "char \<Rightarrow> bool" where
  "line_break c \<longleftrightarrow> (let n = (of_char c :: nat) in (10 \<le> n \<and> n \<le> 13) \<or> (28 \<le> n \<and> n \<le> 30))"

definition octet_text :: "string \<Rightarrow> bool" where
  "octet_text w \<longleftrightarrow> w \<noteq> [] \<and> list_all is_digit w \<and> length w \<le> 3 \<and> (length w = 1 \<or> hd w \<noteq> CHR ''0'') \<and> nat_of_digits w < 256"

definition ipv4_text :: "string \<Rightarrow> bool" where
  "ipv4_text s \<longleftrightarrow> (let ws = split_on CHR ''.'' s in length ws = 4 \<and> list_all octet_text ws)"

section \<open>Running programs\<close>

datatype outcome =
    Exit int string string
  | Not_found string
  | Failed string

record tail_env =
  te_run :: "nat \<Rightarrow> string list \<Rightarrow> outcome"
  te_bin :: string
  te_script :: string
  te_installed :: bool
  te_gethostname :: string
  te_json :: "string \<Rightarrow> pyval option"
  te_network :: "string \<Rightarrow> (nat \<times> nat) option"

record tail_state =
  tl_calls :: "(string list \<times> string option) list"
  tl_failures :: "string list"

record tail_status =
  ts_ip :: "string option"
  ts_hostname :: "string option"
  ts_state :: string
  ts_reason :: "string option"

definition run_program :: "tail_env \<Rightarrow> string list \<Rightarrow> string option \<Rightarrow> tail_state \<Rightarrow> outcome \<times> tail_state" where
  "run_program env argv input st = (te_run env (length (tl_calls st)) argv, st\<lparr>tl_calls := tl_calls st @ [(argv, input)]\<rparr>)"

definition note_failure :: "string option \<Rightarrow> tail_state \<Rightarrow> tail_state" where
  "note_failure reason st = (case reason of Some r \<Rightarrow> if r \<noteq> [] then st\<lparr>tl_failures := tl_failures st @ [r]\<rparr> else st | None \<Rightarrow> st)"

definition plain_status :: "string \<Rightarrow> string option \<Rightarrow> tail_status" where
  "plain_status state reason = \<lparr>ts_ip = None, ts_hostname = None, ts_state = state, ts_reason = reason\<rparr>"

section \<open>Sanitising\<close>

definition key_secrets :: "string option \<Rightarrow> string list" where
  "key_secrets key = (case key of Some k \<Rightarrow> if k \<noteq> [] then [k] else [] | None \<Rightarrow> [])"

definition sanitize :: "string \<Rightarrow> string option \<Rightarrow> string" where
  "sanitize value key = redact (strip value) (key_secrets key)"

definition sanitize_status :: "string option \<Rightarrow> tail_status \<Rightarrow> tail_status" where
  "sanitize_status key s = (if key_secrets key = [] then s
     else (case ts_reason s of Some r \<Rightarrow> if r \<noteq> [] then s\<lparr>ts_reason := Some (sanitize r key)\<rparr> else s | None \<Rightarrow> s))"

definition first_detail :: "string \<Rightarrow> string \<Rightarrow> string \<Rightarrow> string option \<Rightarrow> string" where
  "first_detail pre out err key =
     (let detail = strip (if err \<noteq> [] then err else out)
      in if detail = [] then pre
         else sanitize (pre @ '': '' @ strip (takeWhile (\<lambda>c. \<not> line_break c) detail)) key)"

definition or_text :: "string \<Rightarrow> string \<Rightarrow> string" where
  "or_text s d = (if s = [] then d else s)"

section \<open>Reading the state\<close>

definition parse_ipv4s :: "string \<Rightarrow> string list" where
  "parse_ipv4s out = filter ipv4_text (words out)"

fun hostname_loop :: "string option \<Rightarrow> string list \<Rightarrow> string option \<Rightarrow> string option" where
  "hostname_loop ip [] first = first"
| "hostname_loop ip (raw # ls) first =
     (let line = strip raw; parts = words line
      in if line = [] \<or> hd line = CHR ''#'' \<or> length parts < 2 \<or> \<not> ipv4_text (parts ! 0) then hostname_loop ip ls first
         else if ip = Some (parts ! 0) then Some (parts ! 1)
         else hostname_loop ip ls (if first = None then Some (parts ! 1) else first))"

definition parse_status_hostname :: "string \<Rightarrow> string option \<Rightarrow> string option" where
  "parse_status_hostname out ip = hostname_loop ip (split_by line_break out) None"

definition output_of :: "outcome \<Rightarrow> string" where
  "output_of r = (case r of Exit rc out err \<Rightarrow> if rc = 0 then out else [] | _ \<Rightarrow> [])"

definition current_status :: "tail_env \<Rightarrow> bool \<Rightarrow> tail_state \<Rightarrow> tail_status option \<times> tail_state" where
  "current_status env enabled st =
     (if \<not> enabled \<and> \<not> te_installed env then (None, st)
      else
        let (ip_r, st1) = run_program env [te_bin env, ''ip'', ''-4''] None st in
        case ip_r of
          Not_found m \<Rightarrow> (Some (plain_status ''disabled'' (Some ''tailscale not installed'')), st1)
        | Failed m \<Rightarrow> (Some (plain_status ''error'' (Some (or_text (sanitize m None) ''tailscale status failed''))), st1)
        | Exit ip_rc ip_out ip_err \<Rightarrow>
            let (st_r, st2) = run_program env [te_bin env, ''status''] None st1 in
            case st_r of
              Not_found m \<Rightarrow> (Some (plain_status ''disabled'' (Some ''tailscale not installed'')), st2)
            | Failed m \<Rightarrow> (Some (plain_status ''error'' (Some (or_text (sanitize m None) ''tailscale status failed''))), st2)
            | Exit s_rc s_out s_err \<Rightarrow>
                let ips = parse_ipv4s (output_of ip_r);
                    ip = (if ips = [] then None else Some (hd ips));
                    host = parse_status_hostname (output_of st_r) ip in
                (Some (if ip \<noteq> None then \<lparr>ts_ip = ip, ts_hostname = host, ts_state = ''connected'',
                          ts_reason = (if s_rc \<noteq> 0 then Some (first_detail ''tailscale status unavailable'' s_out s_err None) else None)\<rparr>
                       else if ip_rc \<noteq> 0 then plain_status ''disabled'' (Some (first_detail ''tailscale not connected'' ip_out ip_err None))
                       else \<lparr>ts_ip = None, ts_hostname = host, ts_state = ''disabled'', ts_reason = Some ''tailscale has no IPv4 address''\<rparr>), st2))"

definition host_matches :: "string option \<Rightarrow> string option \<Rightarrow> bool" where
  "host_matches current desired = (case (current, desired) of
      (Some c, Some d) \<Rightarrow> c \<noteq> [] \<and> d \<noteq> [] \<and>
        (let c' = rstrip_by (\<lambda>x. x = CHR ''.'') (strip c); d' = rstrip_by (\<lambda>x. x = CHR ''.'') (strip d)
         in c' = d' \<or> takeWhile (\<lambda>x. x \<noteq> CHR ''.'') c' = takeWhile (\<lambda>x. x \<noteq> CHR ''.'') d')
    | _ \<Rightarrow> False)"

definition desired_hostname :: "tail_env \<Rightarrow> pyval \<Rightarrow> string" where
  "desired_hostname env cfg = (case pget (as_dict cfg) ''hostname'' of
      PStr h \<Rightarrow> if strip h \<noteq> [] then strip h else te_gethostname env
    | _ \<Rightarrow> te_gethostname env)"

section \<open>Drift of the posture\<close>

definition truthy_posture :: "pyval \<Rightarrow> bool" where
  "truthy_posture v = (case v of
      PStr s \<Rightarrow> lower (strip s) \<notin> set [[], ''0'', ''false'', ''no'', ''none'']
    | _ \<Rightarrow> truthy v)"

definition has_non_host_route :: "tail_env \<Rightarrow> pyval \<Rightarrow> bool" where
  "has_non_host_route env v = (case v of
      PList rs \<Rightarrow> list_ex (\<lambda>r. case r of
          PStr s \<Rightarrow> strip s \<noteq> [] \<and> (case te_network env (strip s) of
              Some (ver, len) \<Rightarrow> ver = 4 \<and> len < 32 \<or> ver = 6 \<and> len < 128 | None \<Rightarrow> False)
        | _ \<Rightarrow> False) rs
    | _ \<Rightarrow> False)"

definition posture_keys :: "string list" where
  "posture_keys = [''AdvertiseRoutes'', ''AdvertisedRoutes'', ''PrimaryRoutes'',
     ''AdvertiseExitNode'', ''ExitNode'', ''ExitNodeID'', ''ExitNodeIP'', ''ExitNodeOption'',
     ''RunSSH'', ''SSHEnabled'', ''TailscaleSSH'', ''WantRunningSSH'']"

definition posture_drift :: "tail_env \<Rightarrow> pyval \<Rightarrow> bool" where
  "posture_drift env data = (case data of
      PDict d \<Rightarrow>
        list_ex (\<lambda>c. list_ex (\<lambda>k. truthy_posture (pget c k)) posture_keys \<or> has_non_host_route env (pget c ''AllowedIPs''))
          (d # map as_dict (filter is_dict (map (pget d) [''Self'', ''Prefs'', ''CurrentPrefs'', ''UserPrefs''])))
    | _ \<Rightarrow> False)"

definition safe_posture_drifted :: "tail_env \<Rightarrow> tail_state \<Rightarrow> bool \<times> tail_state" where
  "safe_posture_drifted env st =
     (let (r, st') = run_program env [te_bin env, ''status'', ''--json''] None st
      in (case r of
            Exit rc out err \<Rightarrow> rc = 0 \<and> (case te_json env out of Some data \<Rightarrow> posture_drift env data | None \<Rightarrow> False)
          | _ \<Rightarrow> False, st'))"

section \<open>Reconciliation\<close>

definition auth_key_of :: "pyval \<Rightarrow> string option" where
  "auth_key_of cfg = (case pget (as_dict cfg) ''authKey'' of PStr s \<Rightarrow> Some s | _ \<Rightarrow> None)"

definition cfg_enabled :: "pyval \<Rightarrow> bool" where
  "cfg_enabled cfg \<longleftrightarrow> truthy (pget (as_dict cfg) ''enabled'')"

definition fail_with :: "string \<Rightarrow> tail_state \<Rightarrow> tail_status \<times> tail_state" where
  "fail_with reason st = (plain_status ''error'' (Some reason), note_failure (Some reason) st)"

text \<open>The outcome of a setup call: the failure to report, if any.\<close>

definition setup_failure :: "string \<Rightarrow> string option \<Rightarrow> outcome \<Rightarrow> string option" where
  "setup_failure what key r = (case r of
      Exit rc out err \<Rightarrow> if rc \<noteq> 0 then Some (first_detail what out err key) else None
    | Not_found m \<Rightarrow> Some (or_text (sanitize m key) what)
    | Failed m \<Rightarrow> Some (or_text (sanitize m key) what))"

text \<open>\<open>current_tailscale_status\<close> with its default: the result is never the empty dictionary.\<close>

definition read_status :: "tail_env \<Rightarrow> string option \<Rightarrow> tail_state \<Rightarrow> tail_status \<times> tail_state" where
  "read_status env key st = (let (s, st') = current_status env True st in (sanitize_status key (the s), st'))"

definition bring_down :: "tail_env \<Rightarrow> string option \<Rightarrow> tail_status \<Rightarrow> tail_state \<Rightarrow> tail_status \<times> tail_state" where
  "bring_down env key current st =
     (if ts_state current = ''connected''
      then (let (r, st') = run_program env [''sudo'', te_script env, ''down''] None st
            in case setup_failure ''tailscale down failed'' key r of
                 Some reason \<Rightarrow> fail_with reason st'
               | None \<Rightarrow> (plain_status ''disabled'' None, st'))
      else (plain_status ''disabled'' None, st))"

definition bring_up :: "tail_env \<Rightarrow> string option \<Rightarrow> string \<Rightarrow> tail_state \<Rightarrow> tail_status \<times> tail_state" where
  "bring_up env key hostname st = (case key_secrets key of
      [] \<Rightarrow> fail_with ''tailscale authKey missing'' st
    | k # _ \<Rightarrow>
        let (r, st1) = run_program env [''sudo'', te_script env, ''up'', ''--hostname'', hostname] (Some k) st in
        case setup_failure ''tailscale up failed'' key r of
          Some reason \<Rightarrow> fail_with reason st1
        | None \<Rightarrow>
            let (after, st2) = read_status env key st1 in
            if ts_state after = ''connected'' then (after, st2)
            else if ts_state after = ''error'' then (after, note_failure (ts_reason after) st2)
            else (\<lparr>ts_ip = ts_ip after, ts_hostname = (case ts_hostname after of Some h \<Rightarrow> Some (or_text h hostname) | None \<Rightarrow> Some hostname),
                   ts_state = ''joining'', ts_reason = ts_reason after\<rparr>, st2))"

definition reconcile_tailscale :: "tail_env \<Rightarrow> pyval \<Rightarrow> tail_state \<Rightarrow> tail_status \<times> tail_state" where
  "reconcile_tailscale env cfg st =
     (if cfg = PNone then (plain_status ''disabled'' (Some ''not managed by cloud config''), st)
      else
        let key = auth_key_of cfg; hostname = desired_hostname env cfg;
            (current, st1) = read_status env key st in
        if ts_state current = ''error'' then (current, note_failure (ts_reason current) st1)
        else if \<not> cfg_enabled cfg then bring_down env key current st1
        else if ts_state current = ''connected'' \<and> host_matches (ts_hostname current) (Some hostname)
        then (let (drift, st2) = safe_posture_drifted env st1 in if drift then bring_up env key hostname st2 else (current, st2))
        else bring_up env key hostname st1)"

section \<open>Which programs run\<close>

definition read_call :: "tail_env \<Rightarrow> string list \<times> string option \<Rightarrow> bool" where
  "read_call env = (\<lambda>(argv, input). input = None \<and>
     argv \<in> {[te_bin env, ''ip'', ''-4''], [te_bin env, ''status''], [te_bin env, ''status'', ''--json'']})"

definition reads :: "tail_env \<Rightarrow> tail_state \<Rightarrow> tail_state \<Rightarrow> bool" where
  "reads env st st' \<longleftrightarrow> (\<exists>cs. list_all (read_call env) cs \<and> tl_calls st' = tl_calls st @ cs)"

lemma reads_refl [simp]: "reads env st st"
  by (simp add: reads_def)

lemma reads_trans [trans]: "reads env s t \<Longrightarrow> reads env t u \<Longrightarrow> reads env s u"
  unfolding reads_def by (metis append_assoc list_all_append)

lemma reads_run: "read_call env (argv, None) \<Longrightarrow> reads env st (snd (run_program env argv None st))"
  unfolding reads_def run_program_def by (intro exI [of _ "[(argv, None)]"]) simp

lemma calls_simps [simp]:
  "tl_calls (note_failure r st) = tl_calls st"
  "tl_calls (snd (run_program env argv input st)) = tl_calls st @ [(argv, input)]"
  "tl_failures (snd (run_program env argv input st)) = tl_failures st"
  "snd (fail_with reason st) = note_failure (Some reason) st"
  by (auto simp: note_failure_def run_program_def fail_with_def split: option.split)

lemma reads_note [simp]: "reads env st (note_failure r st') = reads env st st'"
  by (simp add: reads_def)

lemma current_status_cases:
  obtains "snd (current_status env enabled st) = st"
  | "snd (current_status env enabled st) = snd (run_program env [te_bin env, ''ip'', ''-4''] None st)"
  | "snd (current_status env enabled st) =
       snd (run_program env [te_bin env, ''status''] None (snd (run_program env [te_bin env, ''ip'', ''-4''] None st)))"
  by (cases "\<not> enabled \<and> \<not> te_installed env"; cases "te_run env (length (tl_calls st)) [te_bin env, ''ip'', ''-4'']")
    (simp_all add: current_status_def Let_def case_prod_beta run_program_def split: outcome.splits)

lemma reads_current_status: "reads env st (snd (current_status env enabled st))"
proof -
  have r: "reads env s (snd (run_program env argv None s))"
    if "argv \<in> {[te_bin env, ''ip'', ''-4''], [te_bin env, ''status''], [te_bin env, ''status'', ''--json'']}" for argv s
    using that by (intro reads_run) (simp add: read_call_def)
  show ?thesis
    by (rule current_status_cases [of env enabled st]) (simp_all add: r reads_trans [OF r r])
qed

lemma reads_read_status: "reads env st (snd (read_status env key st))"
  using reads_current_status [of env st True] by (simp add: read_status_def case_prod_beta)

lemma reads_drift: "reads env st (snd (safe_posture_drifted env st))"
  using reads_run [of env "[te_bin env, ''status'', ''--json'']" st]
  by (simp add: safe_posture_drifted_def read_call_def case_prod_beta)

text \<open>What a reconciliation may do to the machine: nothing, one call to bring Tailscale down, or one call to
  bring it up with the key on standard input.\<close>

definition changes :: "tail_env \<Rightarrow> pyval \<Rightarrow> (string list \<times> string option) list \<Rightarrow> bool" where
  "changes env cfg cs \<longleftrightarrow> cs = [] \<or>
     (cs = [([''sudo'', te_script env, ''down''], None)] \<and> cfg \<noteq> PNone \<and> \<not> cfg_enabled cfg) \<or>
     (\<exists>k. cs = [([''sudo'', te_script env, ''up'', ''--hostname'', desired_hostname env cfg], Some k)] \<and>
        cfg_enabled cfg \<and> auth_key_of cfg = Some k \<and> k \<noteq> [])"

definition run_shape :: "tail_env \<Rightarrow> pyval \<Rightarrow> tail_state \<Rightarrow> tail_state \<Rightarrow> bool" where
  "run_shape env cfg st st' \<longleftrightarrow> (\<exists>pre cs post. tl_calls st' = tl_calls st @ pre @ cs @ post \<and> list_all (read_call env) (pre @ post) \<and> changes env cfg cs)"

lemma run_shape_reads: "reads env st st' \<Longrightarrow> run_shape env cfg st st'"
  unfolding reads_def run_shape_def changes_def by fastforce

lemma run_shape_prepend: "reads env s t \<Longrightarrow> run_shape env cfg t u \<Longrightarrow> run_shape env cfg s u"
proof -
  assume "reads env s t" "run_shape env cfg t u"
  then obtain cs pre ms post where "list_all (read_call env) cs" "tl_calls t = tl_calls s @ cs"
      "tl_calls u = tl_calls t @ pre @ ms @ post" "list_all (read_call env) (pre @ post)" "changes env cfg ms"
    by (auto simp: reads_def run_shape_def)
  then show ?thesis unfolding run_shape_def by (intro exI [of _ "cs @ pre"] exI [of _ ms] exI [of _ post]) simp
qed

lemma run_shape_down: "cfg \<noteq> PNone \<Longrightarrow> \<not> cfg_enabled cfg \<Longrightarrow> run_shape env cfg st (snd (bring_down env key current st))"
proof -
  assume c: "cfg \<noteq> PNone" "\<not> cfg_enabled cfg"
  let ?cs = "[([''sudo'', te_script env, ''down''], None :: string option)]"
  have "tl_calls (snd (bring_down env key current st)) = tl_calls st @ (if ts_state current = ''connected'' then ?cs else [])"
    using calls_simps(2) [of env "[''sudo'', te_script env, ''down'']" None st]
    by (auto simp: bring_down_def case_prod_beta split: option.split)
  then show ?thesis unfolding run_shape_def
    using c by (intro exI [of _ "[]"] exI [of _ "if ts_state current = ''connected'' then ?cs else []"]) (simp add: changes_def)
qed

lemma key_secrets_Cons: "key_secrets key = k # ks \<Longrightarrow> key = Some k \<and> k \<noteq> [] \<and> ks = []"
  by (auto simp: key_secrets_def split: option.splits if_splits)

lemma run_shape_up:
  assumes "cfg_enabled cfg" "key = auth_key_of cfg" "hostname = desired_hostname env cfg"
  shows "run_shape env cfg st (snd (bring_up env key hostname st))"
proof (cases "key_secrets key")
  case Nil
  then show ?thesis by (simp add: bring_up_def run_shape_reads)
next
  case (Cons k ks)
  let ?c = "([''sudo'', te_script env, ''up'', ''--hostname'', hostname], Some k)"
  define st1 where "st1 = snd (run_program env (fst ?c) (snd ?c) st)"
  have st1: "tl_calls st1 = tl_calls st @ [?c]" by (simp add: st1_def)
  have k: "auth_key_of cfg = Some k" "k \<noteq> []" using key_secrets_Cons [OF Cons] assms(2) by simp_all
  have "reads env st1 (snd (bring_up env key hostname st))"
    using reads_read_status [of env st1 key]
    by (auto simp: bring_up_def Cons st1_def case_prod_beta Let_def split: option.split)
  then obtain post where "list_all (read_call env) post" "tl_calls (snd (bring_up env key hostname st)) = tl_calls st @ [] @ [?c] @ post"
    by (auto simp: reads_def st1)
  with assms k show ?thesis unfolding run_shape_def changes_def
    by (intro exI [of _ "[]"] exI [of _ "[?c]"] exI [of _ post]) auto
qed

text \<open>
  Reconciling runs, besides read-only status calls, at most one program: none when the configuration does
  not mention Tailscale, only the down call when it does not enable it, and only the up call, with the key on
  standard input and never as an argument, when it does.\<close>
theorem tailscale_changes_follow_config:
  "\<exists>pre cs post. tl_calls (snd (reconcile_tailscale env cfg st)) = tl_calls st @ pre @ cs @ post \<and>
     list_all (read_call env) (pre @ post) \<and>
     (cs = [] \<or>
      (cs = [([''sudo'', te_script env, ''down''], None)] \<and> cfg \<noteq> PNone \<and> \<not> cfg_enabled cfg) \<or>
      (\<exists>k. cs = [([''sudo'', te_script env, ''up'', ''--hostname'', desired_hostname env cfg], Some k)] \<and>
         cfg_enabled cfg \<and> auth_key_of cfg = Some k \<and> k \<noteq> [])) \<and>
     (cfg = PNone \<longrightarrow> pre @ cs @ post = [])"
proof (cases "cfg = PNone")
  case True
  then show ?thesis by (simp add: reconcile_tailscale_def)
next
  case False
  define key hostname where "key = auth_key_of cfg" and "hostname = desired_hostname env cfg"
  obtain current st1 where c: "read_status env key st = (current, st1)" by fastforce
  have r1: "reads env st st1" using reads_read_status [of env st key] c by simp
  obtain drift st2 where d: "safe_posture_drifted env st1 = (drift, st2)" by fastforce
  have r2: "reads env st1 st2" using reads_drift [of env st1] d by simp
  have "run_shape env cfg st (snd (reconcile_tailscale env cfg st))"
  proof (cases "cfg_enabled cfg")
    case True
    then show ?thesis
      using False c d r1 reads_trans [OF r1 r2]
      by (auto simp: reconcile_tailscale_def Let_def simp flip: key_def hostname_def
          intro: run_shape_reads run_shape_prepend run_shape_up [OF True key_def hostname_def])
  next
    case no: False
    then show ?thesis
      using False c r1 run_shape_down [OF False no]
      by (auto simp: reconcile_tailscale_def Let_def simp flip: key_def hostname_def intro: run_shape_reads run_shape_prepend)
  qed
  with False show ?thesis unfolding run_shape_def changes_def by blast
qed

section \<open>The key stays secret\<close>

definition keeps_secret :: "string \<Rightarrow> tail_state \<Rightarrow> tail_status \<times> tail_state \<Rightarrow> bool" where
  "keeps_secret k st = (\<lambda>(s, st'). (\<forall>r. ts_reason s = Some r \<longrightarrow> \<not> sublist k r) \<and>
     (\<exists>fs. tl_failures st' = tl_failures st @ fs \<and> (\<forall>f \<in> set fs. \<not> sublist k f)))"

text \<open>A key such as \<open>tskey-auth-...\<close>: it contains a dash, which no text of the agent does.\<close>

definition dashed_secret :: "string \<Rightarrow> bool" where
  "dashed_secret k \<longleftrightarrow> plain_secret k \<and> CHR ''-'' \<in> set k"

lemma absent_fixed: "dashed_secret k \<Longrightarrow> CHR ''-'' \<notin> set t \<Longrightarrow> \<not> sublist k t"
  by (auto simp: dashed_secret_def dest: set_mono_sublist)

lemma absent_sanitize: "dashed_secret k \<Longrightarrow> \<not> sublist k (sanitize t (Some k))"
proof -
  assume "dashed_secret k"
  then have k: "plain_secret k" "k \<noteq> []" by (auto simp: dashed_secret_def plain_secret_def)
  then show ?thesis by (simp add: sanitize_def key_secrets_def redact_absent)
qed

lemma absent_setup_failure:
  "dashed_secret k \<Longrightarrow> CHR ''-'' \<notin> set what \<Longrightarrow> setup_failure what (Some k) r = Some f \<Longrightarrow> \<not> sublist k f"
  by (auto simp: setup_failure_def first_detail_def or_text_def Let_def absent_sanitize absent_fixed split: outcome.splits if_splits)

lemma absent_status: "dashed_secret k \<Longrightarrow> ts_reason (sanitize_status (Some k) s) = Some r \<Longrightarrow> \<not> sublist k r"
  by (auto simp: sanitize_status_def absent_sanitize key_secrets_def dashed_secret_def plain_secret_def split: option.splits if_splits)

lemma failures_current: "tl_failures (snd (current_status env enabled st)) = tl_failures st"
  by (rule current_status_cases [of env enabled st]) simp_all

lemma failures_read: "tl_failures (snd (read_status env key st)) = tl_failures st"
  using failures_current [of env True st] by (simp add: read_status_def case_prod_beta)

lemma keeps_plain: "tl_failures st' = tl_failures st \<Longrightarrow> keeps_secret k st (s, st') \<longleftrightarrow> (\<forall>r. ts_reason s = Some r \<longrightarrow> \<not> sublist k r)"
  by (simp add: keeps_secret_def)

lemma keeps_note: "tl_failures st' = tl_failures st \<Longrightarrow> (\<And>r. reason = Some r \<Longrightarrow> \<not> sublist k r) \<Longrightarrow>
   keeps_secret k st (s, note_failure reason st') \<longleftrightarrow> (\<forall>r. ts_reason s = Some r \<longrightarrow> \<not> sublist k r)"
  by (auto simp: keeps_secret_def note_failure_def split: option.split)

lemma keeps_fail: "tl_failures st' = tl_failures st \<Longrightarrow> \<not> sublist k reason \<Longrightarrow> keeps_secret k st (fail_with reason st')"
  unfolding fail_with_def by (subst keeps_note) (simp_all add: plain_status_def)

lemmas keeps_simps = keeps_plain keeps_note keeps_fail

lemma read_status_reason: "dashed_secret k \<Longrightarrow> ts_reason (fst (read_status env (Some k) st)) = Some r \<Longrightarrow> \<not> sublist k r"
  by (simp add: read_status_def case_prod_beta absent_status)


lemma bring_down_secret:
  "dashed_secret k \<Longrightarrow> tl_failures st1 = tl_failures st \<Longrightarrow> keeps_secret k st (bring_down env (Some k) current st1)"
  using absent_setup_failure [of k "''tailscale down failed''"]
  by (simp add: bring_down_def case_prod_beta plain_status_def keeps_simps split: option.split)

lemma bring_up_secret:
  assumes k: "dashed_secret k" and st1: "tl_failures st1 = tl_failures st"
  shows "keeps_secret k st (bring_up env (Some k) hostname st1)"
proof -
  have ks: "key_secrets (Some k) = [k]" using k by (simp add: key_secrets_def dashed_secret_def plain_secret_def)
  define argv where "argv = [''sudo'', te_script env, ''up'', ''--hostname'', hostname]"
  obtain r st2 where r: "run_program env argv (Some k) st1 = (r, st2)" by fastforce
  obtain after st3 where a: "read_status env (Some k) st2 = (after, st3)" by fastforce
  have f: "tl_failures st2 = tl_failures st" "tl_failures st3 = tl_failures st"
    using st1 calls_simps(3) [of env argv "Some k" st1] failures_read [of env "Some k" st2] by (simp_all add: r a)
  have reason: "ts_reason after = Some x \<Longrightarrow> \<not> sublist k x" for x
    using read_status_reason [OF k, of env st2 x] by (simp add: a)
  show ?thesis
  proof (cases "setup_failure ''tailscale up failed'' (Some k) r")
    case None
    with f reason show ?thesis
      by (simp add: bring_up_def ks r a Let_def keeps_simps flip: argv_def)
  next
    case (Some x)
    with f absent_setup_failure [OF k _ Some] show ?thesis
      by (simp add: bring_up_def ks r Let_def keeps_simps flip: argv_def)
  qed
qed

text \<open>
  The auth key (which contains a dash, as every key of Tailscale does, and no brackets) never gets into the
  reported reason or a recorded failure, whatever the programs print.\<close>
theorem auth_key_stays_secret:
  assumes "auth_key_of cfg = Some k" "CHR ''-'' \<in> set k" "CHR ''['' \<notin> set k" "CHR '']'' \<notin> set k"
  shows "(\<forall>r. ts_reason (fst (reconcile_tailscale env cfg st)) = Some r \<longrightarrow> \<not> sublist k r) \<and>
    (\<exists>fs. tl_failures (snd (reconcile_tailscale env cfg st)) = tl_failures st @ fs \<and> (\<forall>f \<in> set fs. \<not> sublist k f))"
proof -
  have "\<not> sublist k ''redacted''" using assms(2) set_mono_sublist [of k "''redacted''"] by auto
  then have k: "dashed_secret k" using assms by (auto simp: dashed_secret_def plain_secret_def)
  define hostname where "hostname = desired_hostname env cfg"
  obtain current st1 where c: "read_status env (Some k) st = (current, st1)" by fastforce
  obtain drift st2 where d: "safe_posture_drifted env st1 = (drift, st2)" by fastforce
  have f1: "tl_failures st1 = tl_failures st" using failures_read [of env "Some k" st] by (simp add: c)
  have f2: "tl_failures st2 = tl_failures st"
    using arg_cong [OF d, of "\<lambda>p. tl_failures (snd p)"] f1 by (simp add: safe_posture_drifted_def case_prod_beta)
  have reason: "ts_reason current = Some x \<Longrightarrow> \<not> sublist k x" for x
    using read_status_reason [OF k, of env st x] by (simp add: c)
  have "keeps_secret k st (reconcile_tailscale env cfg st)"
  proof (cases "cfg = PNone")
    case True
    with assms(1) show ?thesis by (simp add: auth_key_of_def pget_def get_or_def)
  next
    case False
    then show ?thesis
      using reason f1 f2
      by (simp add: reconcile_tailscale_def assms(1) c d Let_def keeps_simps bring_down_secret [OF k] bring_up_secret [OF k] flip: hostname_def)
  qed
  then show ?thesis by (simp add: keeps_secret_def case_prod_beta)
qed

section \<open>Witness and finding\<close>

definition sample_tail :: "(string list \<Rightarrow> outcome) \<Rightarrow> tail_env" where
  "sample_tail run = \<lparr>te_run = (\<lambda>_. run), te_bin = ''tailscale'', te_script = ''/opt/ts'', te_installed = True, te_gethostname = ''hub'',
     te_json = (\<lambda>_. None), te_network = (\<lambda>_. None)\<rparr>"

definition tail_start :: tail_state where
  "tail_start = \<lparr>tl_calls = [], tl_failures = []\<rparr>"

definition sample_up :: "string list \<Rightarrow> outcome" where
  "sample_up argv = (if hd argv = ''sudo'' then Exit 1 [] ''bad key tskey-auth-1'' else Exit 1 [] ''logged out'')"

lemma auth_key_stays_secret_witness:
  "\<not> (\<exists>r. ts_reason (fst (reconcile_tailscale (sample_tail sample_up)
     (PDict [(''enabled'', PBool True), (''authKey'', PStr ''tskey-auth-1'')]) tail_start)) = Some r \<and> sublist ''tskey-auth-1'' r)"
proof -
  have "auth_key_of (PDict [(''enabled'', PBool True), (''authKey'', PStr ''tskey-auth-1'')]) = Some ''tskey-auth-1''"
    by (simp add: auth_key_of_def pget_def get_or_def)
  from auth_key_stays_secret [OF this, of "sample_tail sample_up" tail_start] show ?thesis by auto
qed

text \<open>The contract of the source says that only an explicit \<open>{"enabled": false}\<close> tears down. A block that does not
  mention \<open>enabled\<close> at all does so too.\<close>

definition sample_connected :: "string list \<Rightarrow> outcome" where
  "sample_connected argv = (if argv = [''tailscale'', ''ip'', ''-4''] then Exit 0 ''100.64.0.7'' [] else Exit 0 [] [])"

lemma block_without_enabled_tears_down:
  "([''sudo'', ''/opt/ts'', ''down''], None) \<in>
     set (tl_calls (snd (reconcile_tailscale (sample_tail sample_connected) (PDict [(''hostname'', PStr ''hub'')]) tail_start)))"
  by code_simp

lemma tailscale_changes_follow_config_witness:
  "\<exists>pre cs post. tl_calls (snd (reconcile_tailscale (sample_tail sample_up) PNone tail_start)) = tl_calls tail_start @ pre @ cs @ post \<and>
     pre @ cs @ post = []"
  using tailscale_changes_follow_config [of "sample_tail sample_up" PNone tail_start] by blast

end
