(* ===== verification/Probes.thy ===== *)
theory Probes
  imports Diagnostics
begin

text \<open>
  \<open>makeros_hub/probes.py\<close> and the loop of \<open>agent.py\<close> that runs the probes the cloud asks for. Only named probes
  of a fixed table run, with a fixed command line; what they print is redacted and cut to a fixed number of
  bytes. Running a program, the sweep of the LAN, capturing a frame, the local configuration, the durations
  and the JSON text of a value are parameters.
\<close>

section \<open>The table\<close>

record probe_spec =
  ps_argv :: "string list"
  ps_max :: nat
  ps_internal :: bool

definition command_probe :: "string list \<Rightarrow> probe_spec" where
  "command_probe argv = \<lparr>ps_argv = argv, ps_max = 65536, ps_internal = False\<rparr>"

definition internal_probe :: "nat \<Rightarrow> probe_spec" where
  "internal_probe n = \<lparr>ps_argv = [], ps_max = n, ps_internal = True\<rparr>"

definition PROBES :: "(string, probe_spec) odict" where
  "PROBES =
    [(''journalctl-tail'', command_probe [''journalctl'', ''-u'', ''makeros-hub'', ''-n'', ''200'', ''--no-pager'']),
     (''tailscale-status'', command_probe [''tailscale'', ''status'']),
     (''tailscale-status-json'', command_probe [''tailscale'', ''status'', ''--json'']),
     (''which-binaries'', internal_probe 16384),
     (''disk-free'', command_probe [''df'', ''-h'']),
     (''ip-addr'', command_probe [''ip'', ''addr'']),
     (''systemctl-status'', command_probe [''systemctl'', ''status'', ''makeros-hub'', ''--no-pager'', ''-n'', ''50'']),
     (''agent-config'', internal_probe 16384),
     (''lan-scan'', internal_probe 131072),
     (''camera-test'', internal_probe 65536)]"

section \<open>The environment\<close>

datatype completion =
    Finished int string string
  | Timed_out string string
  | Broken string

record capture_row =
  cp_printer :: pyval
  cp_display :: pyval
  cp_model :: pyval
  cp_vendor :: pyval
  cp_outcome :: "string + (nat \<times> pyval \<times> string)"

record probe_env =
  pe_run :: "nat \<Rightarrow> string list \<Rightarrow> completion"
  pe_binaries :: "(string \<times> bool) list"
  pe_config_path :: string
  pe_credential_path :: string
  pe_credential :: "string + bool"
  pe_config :: "string + (string \<times> int \<times> int \<times> int)"
  pe_lan_scan :: "string + string"
  pe_cameras :: "(string + capture_row list) option"
  pe_json :: "pyval \<Rightarrow> string"
  pe_duration :: "string \<Rightarrow> int"

section \<open>Output\<close>

text \<open>Cutting the UTF-8 bytes and dropping an incomplete character at the end.\<close>

definition pending_bytes :: "char \<Rightarrow> nat" where
  "pending_bytes c = (let n = (of_char c :: nat) in if n < 192 then 0 else if n < 224 then 1 else if n < 240 then 2 else 3)"

definition drop_partial :: "string \<Rightarrow> string" where
  "drop_partial s =
     (let k = length (takeWhile is_cont_char (rev s)); h = take (length s - k) s
      in if h \<noteq> [] \<and> k < pending_bytes (last h) then butlast h else s)"

definition truncate_output :: "string \<Rightarrow> nat \<Rightarrow> string \<times> bool" where
  "truncate_output value max_bytes =
     (if length value \<le> max_bytes then (value, False)
      else if max_bytes = 0 then ([], True)
      else (drop_partial (take max_bytes value), True))"

definition safe_output :: "string \<Rightarrow> nat \<Rightarrow> string \<times> bool" where
  "safe_output value max_bytes = truncate_output (redact value []) max_bytes"

definition probe_result :: "string \<Rightarrow> string \<Rightarrow> pyval \<Rightarrow> string option \<Rightarrow> string \<times> bool \<Rightarrow> int \<Rightarrow> (string \<times> pyval) list" where
  "probe_result name status code err out dur =
     [(''name'', PStr name), (''status'', PStr status), (''exitCode'', code)] @
     (case err of None \<Rightarrow> [] | Some e \<Rightarrow> [(''error'', PStr e)]) @
     [(''output'', PStr (fst out)), (''durationMs'', PInt dur), (''truncated'', PBool (snd out))]"

section \<open>Internal probes\<close>

definition agent_config_snapshot :: "probe_env \<Rightarrow> (string \<times> pyval) list" where
  "agent_config_snapshot env =
     [(''configPath'', PStr (pe_config_path env)), (''credentialPath'', PStr (pe_credential_path env))] @
     (case pe_credential env of Inr p \<Rightarrow> [(''credentialPresent'', PBool p)] | Inl e \<Rightarrow> [(''credentialError'', PStr e)]) @
     (case pe_config env of
        Inl e \<Rightarrow> [(''configError'', PStr e)]
      | Inr (url, hb, port, mb) \<Rightarrow>
          [(''cloudUrl'', PStr url), (''heartbeatSec'', PInt hb), (''ingestPort'', PInt port), (''maxUploadMb'', PInt mb)])"

definition camera_row :: "probe_env \<Rightarrow> capture_row \<Rightarrow> pyval option" where
  "camera_row env t = (case cp_printer t of
      PStr pid \<Rightarrow>
        let (size, reason, tail) = (case cp_outcome t of Inr r \<Rightarrow> r | Inl e \<Rightarrow> (0, PStr ''unknown'', redact e [])) in
        Some (PDict [(''printerId'', PStr pid), (''displayName'', por (cp_display t) (PStr pid)), (''model'', por (cp_model t) (PStr [])),
          (''vendor'', por (cp_vendor t) (PStr [])), (''ok'', PBool (0 < size)), (''jpegBytes'', PInt (int size)),
          (''reason'', if 0 < size then PNone else reason), (''stderrTail'', PStr (if 0 < size then [] else tail)),
          (''durationMs'', PInt (pe_duration env pid))])
    | _ \<Rightarrow> None)"

definition camera_test :: "probe_env \<Rightarrow> string" where
  "camera_test env = pe_json env (PDict (case pe_cameras env of
      None \<Rightarrow> [(''error'', PStr ''camera-targets provider not registered''), (''rows'', PList [])]
    | Some (Inl e) \<Rightarrow> [(''error'', PStr (redact e [])), (''rows'', PList [])]
    | Some (Inr ts) \<Rightarrow> [(''rows'', PList (List.map_filter (camera_row env) ts))]))"

definition internal_output :: "probe_env \<Rightarrow> string \<Rightarrow> string + string" where
  "internal_output env name =
     (if name = ''which-binaries'' then Inr (pe_json env (PDict (map (\<lambda>(b, p). (b, PBool p)) (pe_binaries env))))
      else if name = ''agent-config'' then Inr (pe_json env (PDict (agent_config_snapshot env)))
      else if name = ''lan-scan'' then pe_lan_scan env
      else if name = ''camera-test'' then Inr (camera_test env)
      else Inl ''unknown internal probe'')"

definition run_internal_probe :: "probe_env \<Rightarrow> string \<Rightarrow> probe_spec \<Rightarrow> (string \<times> pyval) list" where
  "run_internal_probe env name spec = (case internal_output env name of
      Inr raw \<Rightarrow> probe_result name ''ok'' (PInt 0) None (safe_output raw (ps_max spec)) (pe_duration env name)
    | Inl e \<Rightarrow> probe_result name ''error'' PNone (Some (redact e [])) ([], False) (pe_duration env name))"

section \<open>Running probes\<close>

text \<open>The log holds the command lines run so far.\<close>

definition run_probe :: "probe_env \<Rightarrow> string \<Rightarrow> string list list \<Rightarrow> (string \<times> pyval) list \<times> string list list" where
  "run_probe env name calls = (case map_of PROBES name of
      None \<Rightarrow> ([(''name'', PStr name), (''status'', PStr ''rejected''), (''error'', PStr ''unknown probe'')], calls)
    | Some spec \<Rightarrow>
        if ps_internal spec then (run_internal_probe env name spec, calls)
        else (case pe_run env (length calls) (ps_argv spec) of
            Finished rc out err \<Rightarrow> probe_result name (if rc = 0 then ''ok'' else ''error'') (PInt rc) None (safe_output (out @ err) (ps_max spec)) (pe_duration env name)
          | Timed_out out err \<Rightarrow> probe_result name ''timeout'' PNone (Some ''probe timed out'') (safe_output (out @ err) (ps_max spec)) (pe_duration env name)
          | Broken e \<Rightarrow> probe_result name ''error'' PNone (Some (redact e [])) ([], False) (pe_duration env name),
          calls @ [ps_argv spec]))"

definition MAX_PROBES_PER_HEARTBEAT :: nat where
  "MAX_PROBES_PER_HEARTBEAT = 3"

definition update_all :: "(string \<times> pyval) list \<Rightarrow> (string \<times> pyval) list \<Rightarrow> (string \<times> pyval) list" where
  "update_all new d = fold (\<lambda>(k, v). AList.update k v) new d"

fun probe_loop :: "probe_env \<Rightarrow> nat \<Rightarrow> pyval list \<Rightarrow> (string \<times> pyval) list list \<Rightarrow> string list list \<Rightarrow>
    (string \<times> pyval) list list \<times> string list list" where
  "probe_loop env limit [] results calls = (results, calls)"
| "probe_loop env limit (p # ps) results calls =
     (if limit \<le> length results then (results, calls)
      else (case p of
          PDict d \<Rightarrow> (case pget d ''name'' of
              PStr name \<Rightarrow>
                if name \<notin> set (keys PROBES) then probe_loop env limit ps results calls
                else (let (r, calls') = run_probe env name calls;
                          item = update_all r [(''requestId'', pget d ''requestId''), (''name'', PStr name)]
                      in probe_loop env limit ps (results @ [item]) calls')
            | _ \<Rightarrow> probe_loop env limit ps results calls)
        | _ \<Rightarrow> probe_loop env limit ps results calls))"

definition run_pending_probes :: "probe_env \<Rightarrow> pyval \<Rightarrow> string list list \<Rightarrow> (string \<times> pyval) list list \<times> string list list" where
  "run_pending_probes env pending calls = (case pending of PList ps \<Rightarrow> probe_loop env MAX_PROBES_PER_HEARTBEAT ps [] calls | _ \<Rightarrow> ([], calls))"

section \<open>Properties\<close>

lemma drop_partial_length: "length (drop_partial s) \<le> length s"
  by (simp add: drop_partial_def Let_def)

lemma safe_output_bound: "length (fst (safe_output v n)) \<le> n"
  using drop_partial_length [of "take n (redact v [])"] by (simp add: safe_output_def truncate_output_def)

text \<open>A result: it is named, and what it prints is at most the bytes its probe may print.\<close>

definition result_ok :: "string \<Rightarrow> probe_spec \<Rightarrow> (string \<times> pyval) list \<Rightarrow> bool" where
  "result_ok name spec r \<longleftrightarrow> pget r ''name'' = PStr name \<and> (\<exists>out. pget r ''output'' = PStr out \<and> length out \<le> ps_max spec)"

lemma probe_result_ok: "length (fst out) \<le> ps_max spec \<Longrightarrow> result_ok name spec (probe_result name st code err out dur)"
  by (auto simp: result_ok_def probe_result_def pget_def get_or_def split: option.split)

lemma run_probe_ok:
  assumes "map_of PROBES name = Some spec"
  shows "result_ok name spec (fst (run_probe env name calls))" and
    "snd (run_probe env name calls) = calls \<or> snd (run_probe env name calls) = calls @ [ps_argv spec]"
  using assms
  by (auto simp: run_probe_def run_internal_probe_def safe_output_bound intro!: probe_result_ok split: completion.split sum.split)

lemma pget_update_all:
  "distinct (keys r) \<Longrightarrow> pget (update_all r d) k = (case map_of r k of Some v \<Rightarrow> v | None \<Rightarrow> pget d k)"
proof (induction r arbitrary: d)
  case (Cons x r)
  obtain k' v where x: "x = (k', v)" by (cases x)
  have "update_all (x # r) d = update_all r (AList.update k' v d)" by (simp add: update_all_def x)
  moreover have "k' = k \<Longrightarrow> map_of r k = None" using Cons.prems by (auto simp: x map_of_None_keys)
  ultimately show ?case using Cons by (auto simp: x pget_def get_or_update split: option.split)
qed (simp add: update_all_def)

lemma probe_result_keys: "distinct (keys (probe_result name st code err out dur))"
  by (auto simp: probe_result_def split: option.split)

lemma run_probe_keys: "map_of PROBES name = Some spec \<Longrightarrow> distinct (keys (fst (run_probe env name calls)))"
  by (auto simp: run_probe_def run_internal_probe_def probe_result_keys split: completion.split sum.split)

definition delivered :: "(string \<times> pyval) list \<Rightarrow> bool" where
  "delivered r \<longleftrightarrow> (\<exists>name spec. map_of PROBES name = Some spec \<and> result_ok name spec r)"

lemma map_of_run_probe: "map_of PROBES name = Some spec \<Longrightarrow> map_of (fst (run_probe env name calls)) ''name'' = Some (PStr name) \<and>
    (\<exists>out. map_of (fst (run_probe env name calls)) ''output'' = Some (PStr out) \<and> length out \<le> ps_max spec)"
  using safe_output_bound
  by (auto simp: run_probe_def run_internal_probe_def probe_result_def split: completion.split sum.split)

lemma item_delivered: "map_of PROBES name = Some spec \<Longrightarrow>
  delivered (update_all (fst (run_probe env name calls)) [(''requestId'', v), (''name'', PStr name)])"
  using map_of_run_probe [of name spec env calls] run_probe_keys [of name spec env calls]
  by (auto simp: delivered_def result_ok_def pget_update_all)

lemma probe_argv: "map_of PROBES name = Some spec \<Longrightarrow> ps_argv spec \<in> ps_argv ` set (dict_values PROBES)"
  unfolding dict_values_def by (rule imageI) (force dest!: map_of_SomeD)

lemma probe_loop_ok:
  "length results \<le> limit \<Longrightarrow> list_all delivered results \<Longrightarrow> set calls \<subseteq> ps_argv ` set (dict_values PROBES) \<Longrightarrow>
   length calls \<le> length results \<Longrightarrow> probe_loop env limit ps results calls = (rs, cs) \<Longrightarrow>
   length rs \<le> limit \<and> list_all delivered rs \<and> set cs \<subseteq> ps_argv ` set (dict_values PROBES) \<and> length cs \<le> length rs"
proof (induction ps arbitrary: results calls)
  case (Cons p ps)
  show ?case
  proof (cases "limit \<le> length results \<or> \<not> (\<exists>d name. p = PDict d \<and> pget d ''name'' = PStr name \<and> name \<in> set (keys PROBES))")
    case True
    then have "probe_loop env limit (p # ps) results calls = probe_loop env limit ps results calls \<or>
        probe_loop env limit (p # ps) results calls = (results, calls)"
      by (auto split: pyval.split)
    then consider "probe_loop env limit ps results calls = (rs, cs)" | "rs = results" "cs = calls" using Cons.prems(5) by fastforce
    then show ?thesis by cases (use Cons.IH [OF Cons.prems(1-4)] Cons.prems(1-4) in blast)+
  next
    case False
    then obtain d name where p: "p = PDict d" "pget d ''name'' = PStr name" "name \<in> set (keys PROBES)" and l: "length results < limit" by auto
    obtain spec where spec: "map_of PROBES name = Some spec" using p(3) map_of_None_keys [of PROBES name] by auto
    obtain r cs' where r: "run_probe env name calls = (r, cs')" by fastforce
    let ?item = "update_all r [(''requestId'', pget d ''requestId''), (''name'', PStr name)]"
    have loop: "probe_loop env limit (p # ps) results calls = probe_loop env limit ps (results @ [?item]) cs'"
      using l p by (simp add: r)
    have item: "delivered ?item" using item_delivered [OF spec, of env calls "pget d ''requestId''"] by (simp add: r)
    have cs': "cs' = calls \<or> cs' = calls @ [ps_argv spec]" using run_probe_ok(2) [OF spec, of env calls] by (simp add: r)
    have eq: "probe_loop env limit ps (results @ [?item]) cs' = (rs, cs)" using Cons.prems(5) unfolding loop .
    show ?thesis
      using Cons.prems(1-4) l item cs' probe_argv [OF spec] by (intro Cons.IH [OF _ _ _ _ eq]) auto
  qed
qed simp

text \<open>
  Whatever the cloud asks for in one heartbeat, at most three probes run, each with a command line of the
  table, and every result names a probe of the table and carries at most the output bytes allowed for it.\<close>
theorem probes_are_fixed:
  "(case run_pending_probes env pending [] of (rs, cs) \<Rightarrow>
      length rs \<le> 3 \<and> length cs \<le> length rs \<and> set cs \<subseteq> ps_argv ` set (dict_values PROBES) \<and>
      (\<forall>r \<in> set rs. \<exists>name spec out. map_of PROBES name = Some spec \<and> pget r ''name'' = PStr name \<and>
         pget r ''output'' = PStr out \<and> length out \<le> ps_max spec))"
proof -
  obtain rs cs where r: "run_pending_probes env pending [] = (rs, cs)" by fastforce
  have "length rs \<le> 3 \<and> list_all delivered rs \<and> set cs \<subseteq> ps_argv ` set (dict_values PROBES) \<and> length cs \<le> length rs"
  proof (cases pending)
    case (PList ps)
    with r have "probe_loop env 3 ps [] [] = (rs, cs)" by (simp add: run_pending_probes_def MAX_PROBES_PER_HEARTBEAT_def)
    from probe_loop_ok [OF _ _ _ _ this] show ?thesis by simp
  qed (use r in \<open>auto simp: run_pending_probes_def\<close>)
  then show ?thesis by (auto simp: r list_all_iff delivered_def result_ok_def)
qed

text \<open>The output is the redacted text, cut.\<close>
lemma safe_output_prefix: "prefix (fst (safe_output v n)) (redact v [])"
proof -
  have "prefix (drop_partial s) s" for s
  proof -
    have "prefix (butlast (take k s)) s" for k by (metis prefixeq_butlast take_is_prefix prefix_order.trans)
    then show ?thesis by (simp add: drop_partial_def Let_def)
  qed
  then show ?thesis
    by (simp add: safe_output_def truncate_output_def) (meson prefix_order.trans take_is_prefix)
qed

definition sample_probes :: probe_env where
  "sample_probes = \<lparr>pe_run = (\<lambda>_ _. Finished 0 ''up'' []), pe_binaries = [], pe_config_path = [], pe_credential_path = [],
     pe_credential = Inr False, pe_config = Inl [], pe_lan_scan = Inl [], pe_cameras = None, pe_json = (\<lambda>_. []), pe_duration = (\<lambda>_. 0)\<rparr>"

definition sample_request :: "string \<Rightarrow> pyval" where
  "sample_request name = PDict [(''requestId'', PStr ''r''), (''name'', PStr name)]"

lemma probes_are_fixed_witness:
  "(case run_pending_probes sample_probes (PList (map sample_request [''rm -rf'', ''disk-free'', ''tailscale-status'', ''disk-free'', ''disk-free''])) [] of (rs, cs) \<Rightarrow>
      length rs \<le> 3 \<and> list_all (\<lambda>r. \<exists>name. map_of PROBES name \<noteq> None \<and> pget r ''name'' = PStr name) rs)"
  using probes_are_fixed [of sample_probes "PList (map sample_request [''rm -rf'', ''disk-free'', ''tailscale-status'', ''disk-free'', ''disk-free''])"]
  by (fastforce simp: list_all_iff split: prod.splits)

end
