(* ===== verification/Heartbeat.thy ===== *)
theory Heartbeat
  imports Submissions Manager IpAllocator VpManager Tailscale Probes
begin

text \<open>
  The heartbeat loop, \<open>makeros_hub/agent.py\<close>: the retry timers, pulling the configuration, the payload of a
  heartbeat and its caps, and one beat as the composition of the components: what is collected and sent, and
  what the answer of the cloud triggers. The results waiting for the next heartbeat are part of the state.
  \<^item> A beat takes the world it runs in as a parameter: the clocks, the answers of the cloud, the printers,
    the programs and the telemetry collected for the payload.
  \<^item> Leaving the process (a restart the cloud asks for, a printer entry that is no dictionary, or an exception the transport
    lets through) stops it.
  \<^item> How the loaded filaments change the configuration of the virtual printers is in \<open>LivePool\<close>; here its outcome
    is a parameter, and the state carries what applying it does. The update trigger (\<open>Update\<close>), and collecting
    camera frames and samples (\<open>Camera\<close>, \<open>FailureWatch\<close>) do not touch the state kept here.
\<close>

section \<open>Retry timers\<close>

definition RETRY_INITIAL_SEC :: real where
  "RETRY_INITIAL_SEC = 30"

definition RETRY_MAX_SEC :: real where
  "RETRY_MAX_SEC = 300"

record tail_timer =
  tx_config :: pyval
  tx_status :: "tail_status option"
  tx_pending :: bool
  tx_next :: real
  tx_delay :: real

definition new_tail_timer :: tail_timer where
  "new_tail_timer = \<lparr>tx_config = PNone, tx_status = None, tx_pending = False, tx_next = 0, tx_delay = RETRY_INITIAL_SEC\<rparr>"

definition tail_remember :: "pyval \<Rightarrow> tail_timer \<Rightarrow> tail_timer" where
  "tail_remember cfg t = t\<lparr>tx_config := (if is_dict cfg then cfg else PNone)\<rparr>"

definition tail_connected :: "tail_status option \<Rightarrow> bool" where
  "tail_connected s \<longleftrightarrow> (case s of Some st \<Rightarrow> ts_state st = ''connected'' | None \<Rightarrow> False)"

definition tail_needs_retry :: "tail_timer \<Rightarrow> bool" where
  "tail_needs_retry t \<longleftrightarrow> cfg_enabled (tx_config t) \<and> \<not> tail_connected (tx_status t)"

definition tail_retry_due :: "tail_timer \<Rightarrow> real \<Rightarrow> bool" where
  "tail_retry_due t now \<longleftrightarrow> tail_needs_retry t \<and> (tx_next t \<le> 0 \<or> tx_next t \<le> now)"

definition tail_record_reconcile :: "tail_status option \<Rightarrow> real \<Rightarrow> tail_timer \<Rightarrow> tail_timer" where
  "tail_record_reconcile status now t0 =
     (let t = t0\<lparr>tx_status := status, tx_pending := True\<rparr>
      in if tail_needs_retry t then t\<lparr>tx_next := now + tx_delay t, tx_delay := min (tx_delay t * 2) RETRY_MAX_SEC\<rparr>
         else t\<lparr>tx_next := 0, tx_delay := RETRY_INITIAL_SEC\<rparr>)"

definition tail_record_observed :: "tail_status option \<Rightarrow> real \<Rightarrow> tail_timer \<Rightarrow> tail_timer" where
  "tail_record_observed status now t0 =
     (let t = t0\<lparr>tx_status := status\<rparr>
      in if tail_needs_retry t \<and> tx_next t \<le> 0 then t\<lparr>tx_next := now + tx_delay t\<rparr>
         else if \<not> tail_needs_retry t then t\<lparr>tx_next := 0, tx_delay := RETRY_INITIAL_SEC\<rparr>
         else t)"

definition tail_should_read :: "bool \<Rightarrow> tail_timer \<Rightarrow> bool" where
  "tail_should_read installed t \<longleftrightarrow> \<not> tx_pending t \<and> (cfg_enabled (tx_config t) \<or> installed)"

record vp_timer =
  vx_config :: "virtual_printer option"
  vx_next :: real
  vx_delay :: real

definition new_vp_timer :: vp_timer where
  "new_vp_timer = \<lparr>vx_config = None, vx_next = 0, vx_delay = RETRY_INITIAL_SEC\<rparr>"

definition vp_remember :: "virtual_printer option \<Rightarrow> vp_timer \<Rightarrow> vp_timer" where
  "vp_remember cfg t = (case cfg of
      None \<Rightarrow> t\<lparr>vx_config := None, vx_next := 0, vx_delay := RETRY_INITIAL_SEC\<rparr>
    | Some c \<Rightarrow> t\<lparr>vx_config := Some c\<rparr>)"

definition vp_needs_retry :: "vp_timer \<Rightarrow> string option \<Rightarrow> bool" where
  "vp_needs_retry t model \<longleftrightarrow> vx_config t \<noteq> None \<and> model = None"

definition vp_retry_due :: "vp_timer \<Rightarrow> real \<Rightarrow> string option \<Rightarrow> bool" where
  "vp_retry_due t now model \<longleftrightarrow> vp_needs_retry t model \<and> (vx_next t \<le> 0 \<or> vx_next t \<le> now)"

definition vp_record_attempt :: "string option \<Rightarrow> real \<Rightarrow> vp_timer \<Rightarrow> vp_timer" where
  "vp_record_attempt model now t = (if vp_needs_retry t model
     then t\<lparr>vx_next := now + vx_delay t, vx_delay := min (vx_delay t * 2) RETRY_MAX_SEC\<rparr>
     else t\<lparr>vx_next := 0, vx_delay := RETRY_INITIAL_SEC\<rparr>)"

section \<open>The payload\<close>

record binding =
  bn_model :: string
  bn_ip :: "string option"
  bn_error :: "string option"

text \<open>What a beat collects for its payload: the identity of the agent (version, system, host name, uptime), camera
  frames and failures, failure-watch samples, certificates, hits of the discovery, metrics and diagnostics.\<close>

record telemetry =
  tm_identity :: "(string \<times> pyval) list"
  tm_frames :: "pyval list"
  tm_failures :: "pyval list"
  tm_samples :: "pyval list"
  tm_ca :: "(string \<times> string) option"
  tm_cas :: "(string \<times> string \<times> string \<times> string) list"
  tm_hits :: "pyval list"
  tm_metrics :: "(string \<times> pyval) list"
  tm_diagnostics :: snapshot

record payload =
  pl_identity :: "(string \<times> pyval) list"
  pl_frames :: "pyval list"
  pl_failures :: "pyval list"
  pl_printers :: "mstatus list"
  pl_jobs :: "job_record list"
  pl_tailscale :: "(string \<times> string) list"
  pl_probes :: "(string \<times> pyval) list list"
  pl_commands :: "command_report list"
  pl_bindings :: "binding list"
  pl_samples :: "pyval list"
  pl_ca :: "(string \<times> string) option"
  pl_cas :: "(string \<times> string \<times> string \<times> string) list"
  pl_hits :: "pyval list"
  pl_metrics :: "(string \<times> pyval) list"
  pl_diagnostics :: snapshot

definition tailscale_fields :: "tail_status option \<Rightarrow> (string \<times> string) list" where
  "tailscale_fields s = (case s of
      None \<Rightarrow> []
    | Some st \<Rightarrow> List.map_filter (\<lambda>(k, v). case v of Some x \<Rightarrow> if x \<noteq> [] then Some (k, x) else None | None \<Rightarrow> None)
        [(''tailscaleIp'', ts_ip st), (''tailscaleHostname'', ts_hostname st), (''tailscaleStatus'', Some (ts_state st)),
         (''tailscaleStatusReason'', ts_reason st)])"

definition ca_ok :: "string \<times> string \<Rightarrow> bool" where
  "ca_ok = (\<lambda>(pem, fp). 0 < py_len pem \<and> py_len pem \<le> 8192 \<and> fp \<noteq> [])"

text \<open>A field that is left out of the payload is an empty list here: the cloud sees no difference.\<close>

definition heartbeat_payload :: "mstatus list \<Rightarrow> job_record list \<Rightarrow> tail_status option \<Rightarrow> (string \<times> pyval) list list \<Rightarrow>
    command_report list \<Rightarrow> binding list \<Rightarrow> telemetry \<Rightarrow> payload" where
  "heartbeat_payload printers jobs tail probes commands bindings tm =
     \<lparr>pl_identity = tm_identity tm, pl_frames = take 32 (tm_frames tm), pl_failures = take 64 (tm_failures tm),
      pl_printers = take 256 printers, pl_jobs = take 256 jobs, pl_tailscale = tailscale_fields tail,
      pl_probes = take 64 probes, pl_commands = take 64 commands, pl_bindings = take 64 bindings,
      pl_samples = take 64 (tm_samples tm),
      pl_ca = (case tm_ca tm of Some ca \<Rightarrow> if ca_ok ca then Some ca else None | None \<Rightarrow> None),
      pl_cas = take 8 (tm_cas tm), pl_hits = take 128 (tm_hits tm), pl_metrics = tm_metrics tm,
      pl_diagnostics = tm_diagnostics tm\<rparr>"

text \<open>The certificate of every live virtual printer, as far as it can be read.\<close>

definition collect_cas :: "(string \<Rightarrow> (string \<times> string) option) \<Rightarrow> (string \<times> string) list \<Rightarrow> (string \<times> string \<times> string \<times> string) list" where
  "collect_cas read_ca identities = List.map_filter (\<lambda>(serial, model). case read_ca serial of
      Some ca \<Rightarrow> if ca_ok ca then Some (serial, model, ca) else None | None \<Rightarrow> None) (take 8 identities)"

section \<open>Resource metrics\<close>

record readings =
  rd_load :: "real option"
  rd_memory :: "(int option \<times> int option) option"
  rd_temperature :: "int option"

definition memory_pct :: "int \<Rightarrow> int \<Rightarrow> int" where
  "memory_pct tot avail = max 0 (min 100 (py_round ((1 - of_int avail / of_int tot) * 100)))"

definition collect_pi_metrics :: "readings \<Rightarrow> pyval \<Rightarrow> (string \<times> pyval) list" where
  "collect_pi_metrics r tick =
     (case rd_load r of Some l \<Rightarrow> [(''loadAvg1m'', PFloat (of_int (py_round (l * 100)) / 100))] | None \<Rightarrow> []) @
     (case rd_memory r of Some (Some tot, Some avail) \<Rightarrow> if 0 < tot then [(''memUsedPct'', PInt (memory_pct tot avail))] else [] | _ \<Rightarrow> []) @
     (case rd_temperature r of
        Some raw \<Rightarrow> (let c = (if 200 < raw then of_int raw / 1000 else of_int raw :: real)
          in if 0 \<le> c \<and> c \<le> 130 then [(''cpuTempC'', PInt (py_round c))] else [])
      | None \<Rightarrow> []) @
     (case int_of tick of Some t \<Rightarrow> if 0 \<le> t then [(''tickWallMs'', tick)] else [] | None \<Rightarrow> [])"

section \<open>The state of the agent\<close>

datatype queue_report = From_dispatch assignment_report | From_progress "string \<times> string"

record agent =
  ag_manager :: manager
  ag_version :: pyval
  ag_probes :: "(string \<times> pyval) list list"
  ag_commands :: "command_report list"
  ag_bindings :: "binding list"
  ag_reports :: "queue_report list"
  ag_interval :: int
  ag_timer :: tail_timer
  ag_tail :: tail_state
  ag_status :: "tail_status option"
  ag_vp :: vp_timer
  ag_facade :: facade
  ag_alloc :: alloc
  ag_nonce :: "pyval option"
  ag_rehydrated :: bool
  ag_subs :: submissions

record world =
  wd_now :: real
  wd_wall :: int
  wd_post :: response
  wd_config :: response
  wd_tail :: tail_env
  wd_vp :: vp_env
  wd_disk :: "(string, int) odict"
  wd_alloc :: alloc_env
  wd_rep :: "pyval \<Rightarrow> string"
  wd_start :: "pyval list \<Rightarrow> start"
  wd_dispatch :: dispatch_env
  wd_send :: "command_item \<Rightarrow> send_result"
  wd_progress :: "string \<Rightarrow> (string \<times> string) list"
  wd_report :: "queue_report \<Rightarrow> report_result"
  wd_probe :: probe_env
  wd_turns :: "turn list"
  wd_outbox :: outbox_env
  wd_telemetry :: telemetry
  wd_finished :: "(string \<times> job_record list) list"
  wd_late :: "(string \<times> job_record list) list"
  wd_mirror_all :: "virtual_printer list \<Rightarrow> virtual_printer list option"
  wd_mirror_one :: "virtual_printer \<Rightarrow> virtual_printer option"

text \<open>Prints end on the threads of the adapters: those of \<open>wd_finished\<close> before the jobs of the heartbeat are
  collected, those of \<open>wd_late\<close> between that and the answer of the cloud.\<close>

definition finish_prints :: "(string \<times> job_record list) list \<Rightarrow> agent \<Rightarrow> agent" where
  "finish_prints fs a = a\<lparr>ag_manager := fold (\<lambda>(pid, js). adapter_finishes pid js) fs (ag_manager a)\<rparr>"

section \<open>Pulling the configuration\<close>

definition restart_on_nonce :: "pyval \<Rightarrow> pyval option \<Rightarrow> bool \<times> pyval option" where
  "restart_on_nonce nonce seen = (case seen of None \<Rightarrow> (False, Some nonce) | Some s \<Rightarrow> (nonce \<noteq> s, Some nonce))"

text \<open>One entry of the list of virtual printers: with an address that is claimed on an interface, with one the
  allocator picked, or without an address.\<close>

definition without_ip :: "(string \<times> pyval) list \<Rightarrow> (string \<times> pyval) list" where
  "without_ip d = AList.update ''bindIp'' PNone (AList.update ''bind_ip'' PNone d)"

definition with_ip :: "string \<Rightarrow> (string \<times> pyval) list \<Rightarrow> (string \<times> pyval) list" where
  "with_ip ip d = AList.update ''bindIp'' (PStr ip) (AList.update ''bind_ip'' (PStr ip) d)"

definition allocate_entry :: "alloc_env \<Rightarrow> pyval \<Rightarrow> alloc \<Rightarrow> pyval list \<times> binding list \<times> alloc" where
  "allocate_entry env entry a = (case entry of
      PDict d \<Rightarrow> (case pget d ''model'' of
          PStr model \<Rightarrow>
            (let fresh = (let (r, a') = allocate_for env model a in
                 case (ar_success r, ar_bind_ip r) of
                   (True, Some (c # cs)) \<Rightarrow> ([PDict (with_ip (c # cs) d)], [\<lparr>bn_model = model, bn_ip = Some (c # cs), bn_error = None\<rparr>], a')
                 | _ \<Rightarrow> ([entry], [\<lparr>bn_model = model, bn_ip = None,
                           bn_error = Some (case ar_error r of Some (c # cs) \<Rightarrow> c # cs | _ \<Rightarrow> ''unknown'')\<rparr>], a'))
             in case por (pget d ''bind_ip'') (pget d ''bindIp'') of
                PStr ip \<Rightarrow>
                  if strip ip \<noteq> []
                  then (let (r, a') = ensure_claimed env model ip a
                        in ([if ar_success r then entry else PDict (without_ip d)], [], a'))
                  else fresh
              | _ \<Rightarrow> fresh)
        | _ \<Rightarrow> ([entry], [], a))
    | _ \<Rightarrow> ([], [], a))"

fun allocate_vp_bind_ips :: "alloc_env \<Rightarrow> pyval list \<Rightarrow> alloc \<Rightarrow> pyval list \<times> binding list \<times> alloc" where
  "allocate_vp_bind_ips env [] a = ([], [], a)"
| "allocate_vp_bind_ips env (e # es) a =
     (let (xs, bs, a1) = allocate_entry env e a; (ys, cs, a2) = allocate_vp_bind_ips env es a1
      in (xs @ ys, bs @ cs, a2))"

definition vp_block :: "(string \<times> pyval) list \<Rightarrow> pyval" where
  "vp_block body = (if ''virtualPrinter'' \<in> set (keys body) then pget body ''virtualPrinter'' else pget body ''virtual_printer'')"

definition vp_blocks :: "(string \<times> pyval) list \<Rightarrow> pyval list" where
  "vp_blocks body = (case pget body ''virtualPrinters'' of PList xs \<Rightarrow> xs | _ \<Rightarrow> [])"

definition sanitize_reason :: "pyval \<Rightarrow> tail_status \<Rightarrow> tail_status" where
  "sanitize_reason cfg s = (case ts_reason s of
      Some r \<Rightarrow> if r \<noteq> [] then s\<lparr>ts_reason := Some (redact r (key_secrets (auth_key_of cfg)))\<rparr> else s
    | None \<Rightarrow> s)"

definition agent_tailscale :: "tail_env \<Rightarrow> pyval \<Rightarrow> tail_state \<Rightarrow> tail_status \<times> tail_state" where
  "agent_tailscale env cfg st = (let (s, st') = reconcile_tailscale env cfg st in (sanitize_reason cfg s, st'))"

definition agent_reconcile_vp :: "world \<Rightarrow> virtual_printer option \<Rightarrow> agent \<Rightarrow> agent" where
  "agent_reconcile_vp w cfg a =
     (let f = snd (reconcile_sync (wd_vp w) (wd_wall w) (wd_disk w) (case cfg of None \<Rightarrow> [] | Some c \<Rightarrow> [c]) (ag_facade a))
      in a\<lparr>ag_facade := f, ag_vp := vp_record_attempt (fc_model f) (wd_now w) (vp_remember cfg (ag_vp a))\<rparr>)"

definition apply_virtual_printers :: "world \<Rightarrow> (string \<times> pyval) list \<Rightarrow> agent \<Rightarrow> agent" where
  "apply_virtual_printers w body a =
     (let (raw, bs, al) = allocate_vp_bind_ips (wd_alloc w) (vp_blocks body) (ag_alloc a);
          configs = List.map_filter (parse_virtual_printer_config (wd_rep w)) raw;
          a1 = a\<lparr>ag_alloc := al, ag_bindings := ag_bindings a @ bs\<rparr>
      in if configs \<noteq> []
         then a1\<lparr>ag_facade := snd (reconcile_sync (wd_vp w) (wd_wall w) (wd_disk w) configs (ag_facade a1))\<rparr>
         else agent_reconcile_vp w (parse_virtual_printer_config (wd_rep w) (vp_block body)) a1)"

definition apply_tailscale :: "world \<Rightarrow> pyval \<Rightarrow> agent \<Rightarrow> tail_status \<times> agent" where
  "apply_tailscale w cfg a =
     (let t = tail_remember cfg (ag_timer a); (s, st) = agent_tailscale (wd_tail w) cfg (ag_tail a)
      in (s, a\<lparr>ag_tail := st, ag_timer := tail_record_reconcile (Some s) (wd_now w) t\<rparr>))"

text \<open>How a step ends: the loop goes on, the process exits at once for the restart the cloud asked for, or an
  exception nobody catches ends the loop.\<close>

datatype fate = Goes_on | Restarts | Crashes

datatype pull_result = Pulled tail_status | Kept | Left fate

definition printer_configs :: "pyval \<Rightarrow> config list option" where
  "printer_configs v = (case v of
      PList ps \<Rightarrow> if list_all is_dict ps then Some (map as_dict ps) else None
    | _ \<Rightarrow> Some [])"

definition pull_config :: "world \<Rightarrow> agent \<Rightarrow> pull_result \<times> agent" where
  "pull_config w a = (case wd_config w of
      Transport \<Rightarrow> (Kept, a)
    | Escapes \<Rightarrow> (Left Crashes, a)
    | Response status body \<Rightarrow>
        if status \<noteq> 200 then (Kept, a)
        else
          let (restart, seen) = restart_on_nonce (pget body ''restartNonce'') (ag_nonce a);
              a1 = a\<lparr>ag_nonce := seen\<rparr> in
          if restart then (Left Restarts, a1)
          else (case printer_configs (pget body ''printers'') of
              None \<Rightarrow> (Left Crashes, a1)
            | Some ps \<Rightarrow>
                let a2 = a1\<lparr>ag_manager := reconcile (wd_start w) (wd_rep w) (wd_now w) ps (ag_manager a1), ag_version := pget body ''version''\<rparr>;
                    (s, a3) = apply_tailscale w (pget body ''tailscale'') (apply_virtual_printers w body a2)
                in (Pulled s, a3)))"

definition rehydrate_once :: "world \<Rightarrow> agent \<Rightarrow> agent" where
  "rehydrate_once w a = (if ag_rehydrated a \<or> fc_model (ag_facade a) = None \<or> fc_model (ag_facade a) = Some [] then a
     else a\<lparr>ag_subs := snd (rehydrate (wd_outbox w) (ag_subs a)), ag_rehydrated := True\<rparr>)"

definition pull_and_note :: "world \<Rightarrow> agent \<Rightarrow> fate \<times> agent" where
  "pull_and_note w a = (case pull_config w a of
      (Pulled s, a') \<Rightarrow> (Goes_on, rehydrate_once w (a'\<lparr>ag_status := Some s\<rparr>))
    | (Kept, a') \<Rightarrow> (Goes_on, rehydrate_once w a')
    | (Left e, a') \<Rightarrow> (e, a'))"

section \<open>One beat\<close>

definition tail_phase :: "world \<Rightarrow> agent \<Rightarrow> agent" where
  "tail_phase w a =
     (if tail_retry_due (ag_timer a) (wd_now w)
      then (let (s, st) = agent_tailscale (wd_tail w) (tx_config (ag_timer a)) (ag_tail a)
            in a\<lparr>ag_tail := st, ag_status := Some s, ag_timer := tail_record_reconcile (Some s) (wd_now w) (ag_timer a)\<rparr>)
      else if tail_should_read (te_installed (wd_tail w)) (ag_timer a)
      then (case current_status (wd_tail w) (cfg_enabled (tx_config (ag_timer a))) (ag_tail a) of
              (None, st) \<Rightarrow> a\<lparr>ag_tail := st\<rparr>
            | (Some s, st) \<Rightarrow> a\<lparr>ag_tail := st, ag_status := Some s, ag_timer := tail_record_observed (Some s) (wd_now w) (ag_timer a)\<rparr>)
      else if \<not> tx_pending (ag_timer a) then a\<lparr>ag_status := None\<rparr>
      else a)"

definition vp_phase :: "world \<Rightarrow> agent \<Rightarrow> agent" where
  "vp_phase w a = (if vp_retry_due (ag_vp a) (wd_now w) (fc_model (ag_facade a))
     then agent_reconcile_vp w (vx_config (ag_vp a)) a else a)"

text \<open>The live mirror: the changed configurations are applied to the running printers; the single one is
  remembered only when that did not raise.\<close>

definition mirror_phase :: "world \<Rightarrow> agent \<Rightarrow> agent" where
  "mirror_phase w a =
     (let apply = (\<lambda>cs. reconcile_sync (wd_vp w) (wd_wall w) (wd_disk w) cs (ag_facade a)) in
      if fc_configs (ag_facade a) \<noteq> []
      then (case wd_mirror_all w (fc_configs (ag_facade a)) of None \<Rightarrow> a | Some cs \<Rightarrow> a\<lparr>ag_facade := snd (apply cs)\<rparr>)
      else (case Option.bind (vx_config (ag_vp a)) (wd_mirror_one w) of
          None \<Rightarrow> a
        | Some c \<Rightarrow> (case apply [c] of
            (Inl e, f) \<Rightarrow> a\<lparr>ag_facade := f\<rparr>
          | (Inr u, f) \<Rightarrow> a\<lparr>ag_facade := f, ag_vp := vp_remember (Some c) (ag_vp a)\<rparr>)))"

definition before_post :: "world \<Rightarrow> agent \<Rightarrow> agent" where
  "before_post w a = mirror_phase w (rehydrate_once w (vp_phase w (tail_phase w (finish_prints (wd_finished w) a))))"

text \<open>Camera frames and failures are pushed on their own and left out of the heartbeat.\<close>

definition beat_payload :: "world \<Rightarrow> agent \<Rightarrow> payload" where
  "beat_payload w a = heartbeat_payload (statuses (ag_manager a)) (pending_jobs (ag_manager a)) (ag_status a)
     (ag_probes a) (ag_commands a) (ag_bindings a) ((wd_telemetry w)\<lparr>tm_frames := [], tm_failures := []\<rparr>)"

definition next_interval :: "pyval \<Rightarrow> int \<Rightarrow> int" where
  "next_interval v interval = (case num_of v of
      Some ms \<Rightarrow> if 0 < ms then max 5 (trunc_real (ms / 1000)) else interval
    | None \<Rightarrow> interval)"

text \<open>The first part of handling an accepted heartbeat: what was sent is forgotten, assignments are dispatched,
  queue reports flushed, sent jobs confirmed. A report that raises leaves all reports queued and the jobs unconfirmed.\<close>

definition confirm_sent :: "world \<Rightarrow> (string \<times> pyval) list \<Rightarrow> job_record list \<Rightarrow> agent \<Rightarrow> fate \<times> agent" where
  "confirm_sent w body jobs a =
     (let (rs, sent, m1) = dispatch_assignments (wd_dispatch w) (wd_now w) (pget body ''assignments'') (ag_manager a);
          (ps, m2) = collect_queue_progress (wd_progress w) m1;
          reports = ag_reports a @ map From_dispatch rs @ map From_progress ps;
          a1 = a\<lparr>ag_probes := [], ag_commands := [], ag_bindings := [], ag_reports := reports, ag_manager := m2\<rparr>
      in (case flush_reports (wd_report w) reports of
          None \<Rightarrow> (Crashes, a1)
        | Some left \<Rightarrow> (Goes_on, a1\<lparr>ag_reports := left, ag_manager := ack_jobs (map jr_key jobs) m2,
            ag_interval := next_interval (pget body ''nextPollMs'') (ag_interval a)\<rparr>)))"

definition run_requests :: "world \<Rightarrow> (string \<times> pyval) list \<Rightarrow> agent \<Rightarrow> agent" where
  "run_requests w body a =
     (let (rs, calls) = run_pending_probes (wd_probe w) (pget body ''pendingProbes'') [];
          (cs, sent, m) = dispatch_commands (wd_send w) (wd_now w) (pget body ''pendingCommands'') (ag_manager a)
      in a\<lparr>ag_probes := ag_probes a @ rs, ag_commands := ag_commands a @ cs, ag_manager := m\<rparr>)"

definition accepted :: "world \<Rightarrow> (string \<times> pyval) list \<Rightarrow> job_record list \<Rightarrow> agent \<Rightarrow> fate \<times> agent" where
  "accepted w body jobs a =
     (let (fin1, a1) = confirm_sent w body jobs a;
          (fin, a2) = (case pget body ''configVersion'' of
              PStr v \<Rightarrow> if fin1 = Goes_on \<and> PStr v \<noteq> ag_version a1 then pull_and_note w a1 else (fin1, a1)
            | _ \<Rightarrow> (fin1, a1))
      in if fin = Goes_on then (Goes_on, run_requests w body a2) else (fin, a2))"

definition drain :: "world \<Rightarrow> agent \<Rightarrow> agent" where
  "drain w a = a\<lparr>ag_subs := snd (drain_submissions (fc_model (ag_facade a)) 16 (wd_turns w) (ag_subs a))\<rparr>"

text \<open>One turn of the loop: how it ends, the payload sent and whether the cloud accepted it.\<close>

definition beat :: "world \<Rightarrow> agent \<Rightarrow> fate \<times> (payload \<times> bool) \<times> agent" where
  "beat w a0 =
     (let b = before_post w a0; p = beat_payload w b; jobs = pending_jobs (ag_manager b);
          a = finish_prints (wd_late w) b in
      case wd_post w of
        Transport \<Rightarrow> (Goes_on, (p, False), drain w a)
      | Escapes \<Rightarrow> (Crashes, (p, False), a)
      | Response status body \<Rightarrow>
          let a1 = a\<lparr>ag_timer := (ag_timer a)\<lparr>tx_pending := False\<rparr>\<rparr> in
          if status = 200 then (let (fin, a2) = accepted w body jobs a1
            in (fin, (p, True), if fin = Goes_on then drain w a2 else a2))
          else (Goes_on, (p, False), drain w a1))"

section \<open>The process\<close>

definition new_agent :: "int \<Rightarrow> alloc \<Rightarrow> submissions \<Rightarrow> agent" where
  "new_agent interval al subs = \<lparr>ag_manager = new_manager, ag_version = PNone, ag_probes = [], ag_commands = [], ag_bindings = [],
     ag_reports = [], ag_interval = interval, ag_timer = new_tail_timer, ag_tail = \<lparr>tl_calls = [], tl_failures = []\<rparr>, ag_status = None,
     ag_vp = new_vp_timer, ag_facade = \<lparr>fc_supervisor = None, fc_model = None, fc_identities = [], fc_configs = []\<rparr>,
     ag_alloc = al, ag_nonce = None, ag_rehydrated = False, ag_subs = subs\<rparr>"

definition shutdown :: "world \<Rightarrow> agent \<Rightarrow> agent" where
  "shutdown w a = a\<lparr>ag_subs := snd (drain_submissions (fc_model (ag_facade a)) (int VP_SUBMISSION_QUEUE_MAX) (wd_turns w) (ag_subs a)),
     ag_facade := \<lparr>fc_supervisor = None, fc_model = None, fc_identities = [], fc_configs = []\<rparr>, ag_manager := stop_all (ag_manager a)\<rparr>"

text \<open>The loop over the worlds of its beats, until the process is stopped: the payloads with their acceptance,
  and the final state. A restart exits without the cleanup.\<close>

fun beats :: "world list \<Rightarrow> agent \<Rightarrow> (payload \<times> bool) list \<times> agent" where
  "beats [] a = ([], a)"
| "beats (w # ws) a = (case beat w a of
      (Goes_on, p, a1) \<Rightarrow> (let (ps, a2) = beats ws a1 in (p # ps, a2))
    | (Crashes, p, a1) \<Rightarrow> ([p], shutdown w a1)
    | (Restarts, p, a1) \<Rightarrow> ([p], a1))"

definition process :: "world \<Rightarrow> world list \<Rightarrow> agent \<Rightarrow> (payload \<times> bool) list \<times> agent" where
  "process w0 ws a = (case pull_and_note w0 a of
      (Goes_on, a1) \<Rightarrow> (let (ps, a2) = beats ws a1 in (ps, a2))
    | (_, a1) \<Rightarrow> ([], a1))"

section \<open>Retries back off\<close>

text \<open>The beats at which a timer retries, when every attempt fails.\<close>

fun attempts :: "('t \<Rightarrow> real \<Rightarrow> bool) \<Rightarrow> (real \<Rightarrow> 't \<Rightarrow> 't) \<Rightarrow> real list \<Rightarrow> 't \<Rightarrow> real list" where
  "attempts due failed [] t = []"
| "attempts due failed (now # clocks) t =
     (if due t now then now # attempts due failed clocks (failed now t) else attempts due failed clocks t)"

locale retry_timer =
  fixes wanting :: "'t \<Rightarrow> bool" and due :: "'t \<Rightarrow> real \<Rightarrow> bool" and failed :: "real \<Rightarrow> 't \<Rightarrow> 't"
    and next_at delay :: "'t \<Rightarrow> real" and cap :: real
  assumes due_iff: "due t now \<longleftrightarrow> wanting t \<and> (next_at t \<le> 0 \<or> next_at t \<le> now)"
    and failed_next: "wanting t \<Longrightarrow> next_at (failed now t) = now + delay t"
    and failed_delay: "wanting t \<Longrightarrow> delay (failed now t) = min (delay t * 2) cap"
    and failed_wanting: "wanting t \<Longrightarrow> wanting (failed now t)"
    and cap_pos: "0 < cap"
begin

lemma first_attempt: "list_all (\<lambda>s. 0 \<le> s) clocks \<Longrightarrow> attempts due failed clocks t = s # as \<Longrightarrow> 0 < next_at t \<Longrightarrow>
    next_at t \<le> s"
  by (induction clocks) (auto simp: due_iff split: if_splits)

lemma delays: "0 < d \<Longrightarrow> d \<le> cap \<Longrightarrow> min (min (d * 2) cap * 2 ^ k) cap = min (d * 2 ^ Suc k) (cap :: real)"
proof -
  assume "0 < d" "d \<le> cap"
  have "cap \<le> cap * 2 ^ k"
    using cap_pos by simp
  then have "min (min (d * 2) cap * 2 ^ k) cap = min (d * 2 * 2 ^ k) (min (cap * 2 ^ k) cap)"
    by (simp add: min_mult_distrib_right min.assoc)
  with \<open>cap \<le> cap * 2 ^ k\<close> show ?thesis
    by (simp add: min.absorb2 mult.assoc)
qed

text \<open>Attempt \<open>k + 1\<close> comes at least the \<open>k\<close> times doubled delay after attempt \<open>k\<close>, up to the cap.\<close>

lemma spaced:
  assumes "list_all (\<lambda>s. 0 \<le> s) clocks" "0 < delay t" "delay t \<le> cap"
    "Suc k < length (attempts due failed clocks t)"
  shows "attempts due failed clocks t ! k + min (delay t * 2 ^ k) cap \<le> attempts due failed clocks t ! Suc k"
  using assms
proof (induction clocks arbitrary: t k)
  case Nil
  then show ?case by simp
next
  case (Cons now clocks)
  show ?case
  proof (cases "due t now")
    case False
    then show ?thesis using Cons by simp
  next
    case True
    then have w: "wanting t" by (simp add: due_iff)
    let ?t = "failed now t"
    have pos: "0 < delay ?t" "delay ?t \<le> cap"
      using Cons.prems cap_pos by (simp_all add: failed_delay [OF w])
    show ?thesis
    proof (cases k)
      case 0
      with True Cons.prems obtain s as where rest: "attempts due failed clocks ?t = s # as"
        by (cases "attempts due failed clocks ?t") auto
      have "next_at ?t \<le> s"
        using first_attempt [OF _ rest] Cons.prems by (simp add: failed_next [OF w])
      with True rest 0 Cons.prems show ?thesis by (simp add: failed_next [OF w])
    next
      case (Suc j)
      have "Suc j < length (attempts due failed clocks ?t)"
        using Cons.prems True Suc by simp
      from Cons.IH [OF _ pos this] Cons.prems
      have "attempts due failed clocks ?t ! j + min (delay ?t * 2 ^ j) cap \<le> attempts due failed clocks ?t ! Suc j"
        by simp
      then show ?thesis
        using True Suc delays [of "delay t" j] Cons.prems by (simp add: failed_delay [OF w])
    qed
  qed
qed

lemma first_due: "wanting t \<Longrightarrow> next_at t \<le> 0 \<Longrightarrow> clocks \<noteq> [] \<Longrightarrow>
    attempts due failed clocks t \<noteq> [] \<and> hd (attempts due failed clocks t) = hd clocks"
  by (cases clocks) (simp_all add: due_iff)

text \<open>A beat that comes a whole cap after the last attempt is an attempt.\<close>

lemma due_after_cap: "wanting t \<Longrightarrow> delay t \<le> cap \<Longrightarrow> now + cap \<le> later \<Longrightarrow> due (failed now t) later"
  by (simp add: due_iff failed_next failed_wanting)

end

interpretation vp_retry: retry_timer "\<lambda>t. vx_config t \<noteq> None" "\<lambda>t now. vp_retry_due t now None"
  "vp_record_attempt None" vx_next vx_delay RETRY_MAX_SEC
  by unfold_locales (simp_all add: vp_retry_due_def vp_needs_retry_def vp_record_attempt_def RETRY_MAX_SEC_def)

lemma tail_retry_timer: "ts_state st \<noteq> ''connected'' \<Longrightarrow>
    retry_timer tail_needs_retry tail_retry_due (tail_record_reconcile (Some st)) tx_next tx_delay RETRY_MAX_SEC"
  by unfold_locales (simp_all add: tail_retry_due_def tail_needs_retry_def tail_record_reconcile_def RETRY_MAX_SEC_def
      tail_connected_def)

interpretation tail_retry: retry_timer tail_needs_retry tail_retry_due
  "tail_record_reconcile (Some (plain_status ''error'' None))" tx_next tx_delay RETRY_MAX_SEC
  by (rule tail_retry_timer) (simp add: plain_status_def)

definition backs_off :: "real list \<Rightarrow> real list \<Rightarrow> bool" where
  "backs_off clocks as \<longleftrightarrow> (clocks \<noteq> [] \<longrightarrow> as \<noteq> [] \<and> hd as = hd clocks) \<and>
     (\<forall>k. Suc k < length as \<longrightarrow> as ! k + min (RETRY_INITIAL_SEC * 2 ^ k) RETRY_MAX_SEC \<le> as ! Suc k)"

text \<open>
  A reconciliation that keeps failing is retried with exponential backoff. Over any monotonic clocks of
  the beats, a remembered virtual printer that does not come up, and a Tailscale configuration that asks for
  a connection that is not reached (whatever status the attempts end with), are tried at the first beat, and
  attempt k+1 comes at least 30 seconds times two to the k after attempt k, capped at 300 seconds.
\<close>
theorem retry_backs_off:
  assumes "list_all (\<lambda>s. 0 \<le> s) clocks" "cfg_enabled cfg" "is_dict cfg" "ts_state st \<noteq> ''connected''"
  shows "backs_off clocks (attempts (\<lambda>t now. vp_retry_due t now None) (vp_record_attempt None) clocks
      (vp_remember (Some c) new_vp_timer)) \<and>
    backs_off clocks (attempts tail_retry_due (tail_record_reconcile (Some st)) clocks (tail_remember cfg new_tail_timer))"
proof -
  let ?v = "vp_remember (Some c) new_vp_timer" and ?t = "tail_remember cfg new_tail_timer"
  note rules = RETRY_INITIAL_SEC_def RETRY_MAX_SEC_def vp_remember_def new_vp_timer_def tail_remember_def new_tail_timer_def
  have v: "vx_config ?v \<noteq> None" "vx_next ?v \<le> 0" "vx_delay ?v = RETRY_INITIAL_SEC"
    by (simp_all add: rules)
  have t: "tail_needs_retry ?t" "tx_next ?t \<le> 0" "tx_delay ?t = RETRY_INITIAL_SEC"
    using assms by (simp_all add: rules tail_needs_retry_def tail_connected_def)
  have d: "0 < RETRY_INITIAL_SEC" "RETRY_INITIAL_SEC \<le> RETRY_MAX_SEC"
    by (simp_all add: rules)
  note tail = tail_retry_timer [OF assms(4)]
  show ?thesis
    unfolding backs_off_def
    using vp_retry.first_due [OF v(1,2)] vp_retry.spaced [OF assms(1), of ?v] v(3) d
      retry_timer.first_due [OF tail t(1,2)] retry_timer.spaced [OF tail assms(1), of ?t] t(3)
    by simp
qed

lemma retry_backs_off_witness:
  "backs_off [0, 10, 30, 50, 120] (attempts (\<lambda>t now. vp_retry_due t now None) (vp_record_attempt None) [0, 10, 30, 50, 120]
      (vp_remember (Some (sample_vp ''S1'' ''192.168.1.50'' [] [])) new_vp_timer)) \<and>
    attempts (\<lambda>t now. vp_retry_due t now None) (vp_record_attempt None) [0, 10, 30, 50, 120]
      (vp_remember (Some (sample_vp ''S1'' ''192.168.1.50'' [] [])) new_vp_timer) = [0, 30, 120]"
proof -
  have "cfg_enabled (PDict [(''enabled'', PBool True)])" by code_simp
  then show ?thesis
    using retry_backs_off [of "[0, 10, 30, 50, 120]" "PDict [(''enabled'', PBool True)]" "plain_status ''error'' None"
        "sample_vp ''S1'' ''192.168.1.50'' [] []"]
    by (simp add: plain_status_def vp_retry_due_def vp_needs_retry_def vp_record_attempt_def vp_remember_def
        new_vp_timer_def RETRY_INITIAL_SEC_def RETRY_MAX_SEC_def)
qed

section \<open>Virtual printers live on claimed addresses\<close>

text \<open>The log shows that the address was claimed on an interface, successfully.\<close>

definition claims :: "alloc_env \<Rightarrow> string \<Rightarrow> alloc \<Rightarrow> alloc \<Rightarrow> bool" where
  "claims env ip a a' \<longleftrightarrow> (\<exists>iface pre post. al_log a' = al_log a @ pre @ Run (claim_argv ip iface) # post \<and>
     claimed env (length (al_log a @ pre)) ip iface)"

definition grows :: "alloc \<Rightarrow> alloc \<Rightarrow> bool" where
  "grows a a' \<longleftrightarrow> (\<exists>post. al_log a' = al_log a @ post)"

lemma grows_rules [simp]: "grows a a" "grows a (a'\<lparr>al_bindings := b\<rparr>) = grows a a'" "grows a a' \<Longrightarrow> grows a (save env a')"
  by (auto simp: grows_def save_def)

lemma grows_trans: "grows a b \<Longrightarrow> grows b c \<Longrightarrow> grows a c"
  by (auto simp: grows_def)

lemma claims_trans: "claims env ip a b \<Longrightarrow> grows b c \<Longrightarrow> claims env ip a c" "grows a b \<Longrightarrow> claims env ip b c \<Longrightarrow> claims env ip a c"
proof -
  show "claims env ip a b \<Longrightarrow> grows b c \<Longrightarrow> claims env ip a c"
    by (fastforce simp: claims_def grows_def)
  assume "grows a b" "claims env ip b c"
  then obtain q iface pre post where "al_log b = al_log a @ q" "al_log c = al_log b @ pre @ Run (claim_argv ip iface) # post"
    "claimed env (length (al_log b @ pre)) ip iface"
    unfolding claims_def grows_def by blast
  then show "claims env ip a c"
    unfolding claims_def by (intro exI [of _ iface] exI [of _ "q @ pre"] exI [of _ post]) simp
qed

lemma grows_steps: "grows a (snd (ip_is_free env ip iface a))" "grows a (snd (claim_ip env ip iface a))"
  "grows a (snd (release_ip env ip iface a))"
  using ip_is_free_eqs(3) [of env ip iface a] by (auto simp: grows_def claim_ip_eqs release_ip_def run_cmd_def)

lemma claim_claims: "fst (claim_ip env ip iface a) = None \<Longrightarrow> claims env ip a (snd (claim_ip env ip iface a))"
  unfolding claims_def by (intro exI [of _ iface] exI [of _ "[]"]) (simp add: claim_ip_eqs)

lemma fresh_trace_claims: "fresh_trace env ip iface a a' \<Longrightarrow> claims env ip a a'"
  unfolding fresh_trace_def claims_def
proof (elim exE conjE, goal_cases)
  case (1 pre)
  then show ?case
    by (intro exI [of _ iface] exI [of _ "pre @ [Run (arping_argv ip iface), Run (arping_argv ip iface)]"]
        exI [of _ "[Save (al_bindings a')]"]) simp
qed

lemma try_grows: "grows a (snd (try_candidates env model iface cs tried a))"
proof (induction cs arbitrary: tried a)
  case (Cons c cs)
  show ?case
    using grows_steps(1) [of a env c iface] grows_steps(2) [of "snd (ip_is_free env c iface a)" env c iface] Cons.IH
    by (auto simp: case_prod_beta Let_def split: option.split intro: grows_trans)
qed simp

lemma allocate_fresh_claims:
  assumes "allocate_fresh env model a = (r, a')"
  shows "grows a a' \<and> (ar_success r \<longrightarrow> (\<exists>ip. ar_bind_ip r = Some ip \<and> claims env ip a a'))"
proof (cases "ar_success r")
  case True
  then obtain iface cs where t: "try_candidates env model iface cs 0 a = (r, a')"
    using assms by (auto simp: allocate_fresh_def failure_def Let_def split: option.splits if_splits)
  then show ?thesis
    using try_candidates_result [where env = env and model = model and iface = iface and cs = cs and tried = 0 and a = a] True try_grows [of a env model iface cs 0] fresh_trace_claims
    by (auto split: prod.splits)
next
  case False
  have "grows a (snd (allocate_fresh env model a))"
    by (auto simp: allocate_fresh_def Let_def try_grows split: option.split)
  with False assms show ?thesis by simp
qed

lemma allocate_for_claims:
  assumes "allocate_for env model a = (r, a')"
  shows "grows a a' \<and> (ar_success r \<longrightarrow> (\<exists>ip. ar_bind_ip r = Some ip \<and> claims env ip a a'))"
proof (cases "map_of (al_bindings a) model")
  case None
  then show ?thesis using assms allocate_fresh_claims by (simp add: allocate_for_def)
next
  case (Some b)
  obtain ip iface where b: "b = (ip, iface)" by (rule prod.exhaust)
  let ?c = "claim_ip env ip iface a"
  let ?s = "save env ((snd ?c)\<lparr>al_bindings := AList.delete model (al_bindings (snd ?c))\<rparr>)"
  show ?thesis
  proof (cases "fst ?c = None")
    case True
    then show ?thesis
      using assms Some b claim_claims [of env ip iface a] grows_steps(2) [of a env ip iface]
      by (auto simp: allocate_for_def case_prod_beta)
  next
    case False
    then have "allocate_fresh env model ?s = (r, a')"
      using assms Some b by (auto simp: allocate_for_def case_prod_beta)
    moreover have "grows a ?s" using grows_steps(2) [of a env ip iface] by simp
    ultimately show ?thesis
      using allocate_fresh_claims [of env model ?s r a'] by (blast intro: grows_trans claims_trans)
  qed
qed

lemma two_options: "P u \<Longrightarrow> P v \<Longrightarrow> (\<And>i. P (h i)) \<Longrightarrow>
    P (case x of None \<Rightarrow> u | Some r \<Rightarrow> (case y r of None \<Rightarrow> v | Some i \<Rightarrow> h i))"
  by (simp split: option.split)

lemma ensure_claims:
  assumes "ensure_claimed env model ip a = (r, a')"
  shows "grows a a' \<and> (ar_success r \<longrightarrow> claims env (strip ip) a a')"
proof -
  define pre where "pre i = (case map_of (al_bindings a) model of
      Some (oip, oif) \<Rightarrow> if oip \<noteq> strip ip \<or> oif \<noteq> i then snd (release_ip env oip oif a) else a | None \<Rightarrow> a)" for i
  define b where "b i = save env ((pre i)\<lparr>al_bindings := AList.update model (strip ip, i) (al_bindings (pre i))\<rparr>)" for i
  have grow: "grows a (b i)" for i
    using grows_steps(3) by (auto simp: b_def pre_def split: option.split)
  have "ensure_claimed env model ip a = (let existing = map_of (al_bindings a) model in
      case ae_routed env (strip ip) of None \<Rightarrow> (failure model None ''invalid bind ip'' 0, a)
      | Some routed \<Rightarrow> (case (if routed then Some ''lo'' else (case existing of
              Some (old, i) \<Rightarrow> if old = strip ip \<and> i \<noteq> [] then Some i else ae_iface env | None \<Rightarrow> ae_iface env)) of
          None \<Rightarrow> (\<lparr>ar_success = False, ar_model = model, ar_bind_ip = Some (strip ip), ar_iface = None,
            ar_error = Some ''no interface to claim on'', ar_tried = 0\<rparr>, a)
        | Some i \<Rightarrow> (\<lparr>ar_success = (fst (claim_ip env (strip ip) i (b i)) = None), ar_model = model,
            ar_bind_ip = Some (strip ip), ar_iface = Some i, ar_error = fst (claim_ip env (strip ip) i (b i)), ar_tried = 0\<rparr>,
            snd (claim_ip env (strip ip) i (b i)))))"
    by (simp only: ensure_claimed_def Let_def b_def pre_def case_prod_beta)
  note shape = this [unfolded Let_def]
  define P where "P p \<longleftrightarrow> grows a (snd p) \<and> (ar_success (fst p) \<longrightarrow> claims env (strip ip) a (snd p))"
    for p :: "alloc_result \<times> alloc"
  have "P (ensure_claimed env model ip a)"
    unfolding shape
    by (rule two_options)
      (simp_all add: P_def failure_def grows_trans [OF grow grows_steps(2)] claims_trans(2) [OF grow claim_claims])
  with assms show ?thesis by (simp add: P_def)
qed

lemma strip_strip [simp]: "strip (strip s) = strip s"
proof (cases "strip s = []")
  case False
  let ?l = "lstrip_by is_space s"
  let ?d = "dropWhile is_space (rev ?l)"
  have s: "strip s = rev ?d" by (simp add: strip_def rstrip_by_def)
  have d: "?d \<noteq> []" using False s by auto
  have "rev ?l = takeWhile is_space (rev ?l) @ ?d" by simp
  then have "?l = rev ?d @ rev (takeWhile is_space (rev ?l))"
    by (metis rev_append rev_rev_ident)
  then have "hd (strip s) = hd ?l"
    using d s by (metis hd_append2 rev_is_Nil_conv)
  moreover have "?l \<noteq> []" using d by auto
  ultimately have "\<not> is_space (hd (strip s))"
    using hd_dropWhile [of is_space s] by (simp add: lstrip_by_def)
  moreover have "\<not> is_space (last (strip s))"
    using hd_dropWhile [OF d] d by (simp add: s last_rev)
  ultimately show ?thesis using False by (intro strip_ends)
next
  case True
  have "strip [] = []" by (simp add: strip_def lstrip_by_def rstrip_by_def)
  with True show ?thesis by simp
qed

lemma bind_ip_of_entry:
  assumes "parse_virtual_printer_config rep (PDict d) = Some vp"
  shows "\<exists>ip. por (pget d ''bind_ip'') (pget d ''bindIp'') = PStr ip \<and> strip ip = vp_bind_ip vp \<and> strip ip \<noteq> []"
proof -
  have "required_str d ''bind_ip'' (Some ''bindIp'') = Some (vp_bind_ip vp)"
    using parse_fields [OF assms] by auto
  then show ?thesis
    by (auto simp: required_str_def get_field_def por_def pget_def get_or_def strip_def lstrip_by_def rstrip_by_def
        split: pyval.splits option.splits if_splits)
qed

lemma bind_ip_written: "por (pget (with_ip ip d) ''bind_ip'') (pget (with_ip ip d) ''bindIp'') = (if ip = [] then PStr [] else PStr ip)"
  "parse_virtual_printer_config rep (PDict (without_ip d)) = None"
proof -
  show "por (pget (with_ip ip d) ''bind_ip'') (pget (with_ip ip d) ''bindIp'') = (if ip = [] then PStr [] else PStr ip)"
    by (simp add: with_ip_def pget_def get_or_def map_of_update por_def)
  have "por (pget (without_ip d) ''bind_ip'') (pget (without_ip d) ''bindIp'') = PNone"
    by (simp add: without_ip_def pget_def get_or_def map_of_update por_def)
  then show "parse_virtual_printer_config rep (PDict (without_ip d)) = None"
    using bind_ip_of_entry [of rep "without_ip d"] by (cases "parse_virtual_printer_config rep (PDict (without_ip d))") auto
qed

text \<open>What an entry may contribute: only configurations whose address it claimed.\<close>

definition served :: "alloc_env \<Rightarrow> (pyval \<Rightarrow> string) \<Rightarrow> alloc \<Rightarrow> alloc \<Rightarrow> pyval list \<Rightarrow> binding list \<Rightarrow> bool" where
  "served env rep a a' raw bs \<longleftrightarrow> grows a a' \<and>
     (\<forall>x \<in> set raw. \<forall>vp. parse_virtual_printer_config rep x = Some vp \<longrightarrow>
        (\<exists>ip. strip ip = vp_bind_ip vp \<and> claims env ip a a')) \<and>
     (\<forall>b \<in> set bs. \<forall>ip. bn_ip b = Some ip \<longrightarrow> claims env ip a a')"

lemma fresh_serves:
  assumes "\<And>ip. por (pget d ''bind_ip'') (pget d ''bindIp'') = PStr ip \<Longrightarrow> strip ip = []"
    "allocate_for env model a = (r, a')"
  shows "served env rep a a'
    (case (ar_success r, ar_bind_ip r) of (True, Some (c # cs)) \<Rightarrow> [PDict (with_ip (c # cs) d)] | _ \<Rightarrow> [PDict d])
    (case (ar_success r, ar_bind_ip r) of (True, Some (c # cs)) \<Rightarrow> [\<lparr>bn_model = model, bn_ip = Some (c # cs), bn_error = None\<rparr>]
      | _ \<Rightarrow> [\<lparr>bn_model = model, bn_ip = None, bn_error = err\<rparr>])"
proof -
  note c = allocate_for_claims [OF assms(2)]
  have "parse_virtual_printer_config rep (PDict d) = None"
    using bind_ip_of_entry [of rep d] assms(1) by (cases "parse_virtual_printer_config rep (PDict d)") auto
  moreover have "\<exists>ip'. strip ip' = vp_bind_ip vp \<and> claims env ip' a a'"
    if "parse_virtual_printer_config rep (PDict (with_ip ip d)) = Some vp" "claims env ip a a'" for ip vp
    using bind_ip_of_entry [OF that(1)] that(2) by (auto simp: bind_ip_written split: if_splits)
  ultimately show ?thesis
    using c by (auto simp: served_def split: bool.split option.split list.split)
qed

lemma required_str_given: "required_str d k None = Some s \<Longrightarrow> \<exists>v. pget d k = PStr v"
  by (auto simp: required_str_def get_field_def pget_def get_or_def split: pyval.splits option.splits)

lemma served_append: "served env rep a b xs cs \<Longrightarrow> served env rep b c ys ds \<Longrightarrow> served env rep a c (xs @ ys) (cs @ ds)"
  unfolding served_def set_append ball_Un by (meson grows_trans claims_trans)

lemma entry_serves:
  assumes "allocate_entry env e a = (raw, bs, a')"
  shows "served env rep a a' raw bs"
proof -
  have other: "served env rep a a [e] []" if "\<And>vp. parse_virtual_printer_config rep e \<noteq> Some vp"
    using that by (simp add: served_def)
  show ?thesis
  proof (cases "\<exists>d model. e = PDict d \<and> pget d ''model'' = PStr model")
    case False
    have none: "parse_virtual_printer_config rep e \<noteq> Some vp" for vp
    proof
      assume "parse_virtual_printer_config rep e = Some vp"
      from parse_fields [OF this] obtain d where "e = PDict d" "required_str d ''model'' None = Some (vp_model vp)" by auto
      with False required_str_given show False by blast
    qed
    have "(raw, bs, a') = ([], [], a) \<or> (raw, bs, a') = ([e], [], a)"
      using assms False by (simp add: allocate_entry_def split: pyval.splits)
    then show ?thesis
      using other [OF none] by (auto simp: served_def)
  next
    case True
    then obtain d model where e: "e = PDict d" and m: "pget d ''model'' = PStr model" by blast
    show ?thesis
    proof (cases "\<exists>ip. por (pget d ''bind_ip'') (pget d ''bindIp'') = PStr ip \<and> strip ip \<noteq> []")
      case True
      then obtain ip r where ip: "por (pget d ''bind_ip'') (pget d ''bindIp'') = PStr ip"
        and r: "ensure_claimed env model ip a = (r, a')" and raw: "raw = [if ar_success r then e else PDict (without_ip d)]" "bs = []"
        using assms e m by (auto simp: allocate_entry_def split: prod.splits)
      have "\<exists>ip'. strip ip' = vp_bind_ip vp \<and> claims env ip' a a'"
        if "parse_virtual_printer_config rep e = Some vp" "claims env (strip ip) a a'" for vp
        using bind_ip_of_entry [of rep d vp] that e ip by (intro exI [of _ "strip ip"]) (metis pyval.inject(4) strip_strip)
      then show ?thesis
        using ensure_claims [OF r] raw bind_ip_written(2) [of rep d] by (auto simp: served_def)
    next
      case False
      have blank: "(case por (pget d ''bind_ip'') (pget d ''bindIp'') of
          PStr ip \<Rightarrow> if strip ip \<noteq> [] then A ip else B | _ \<Rightarrow> B) = B" for A and B :: "pyval list \<times> binding list \<times> alloc"
        using False by (simp split: pyval.split)
      have "allocate_entry env e a = (let (r, a') = allocate_for env model a in
          case (ar_success r, ar_bind_ip r) of
            (True, Some (c # cs)) \<Rightarrow> ([PDict (with_ip (c # cs) d)], [\<lparr>bn_model = model, bn_ip = Some (c # cs), bn_error = None\<rparr>], a')
          | _ \<Rightarrow> ([e], [\<lparr>bn_model = model, bn_ip = None,
                bn_error = Some (case ar_error r of Some (c # cs) \<Rightarrow> c # cs | _ \<Rightarrow> ''unknown'')\<rparr>], a'))"
        unfolding allocate_entry_def e pyval.case m blank Let_def by (simp split: bool.split option.split list.split)
      moreover obtain r a1 where r1: "allocate_for env model a = (r, a1)" by (rule prod.exhaust)
      ultimately have r: "allocate_for env model a = (r, a')"
        and raw: "raw = (case (ar_success r, ar_bind_ip r) of (True, Some (c # cs)) \<Rightarrow> [PDict (with_ip (c # cs) d)] | _ \<Rightarrow> [PDict d])"
          "bs = (case (ar_success r, ar_bind_ip r) of (True, Some (c # cs)) \<Rightarrow> [\<lparr>bn_model = model, bn_ip = Some (c # cs), bn_error = None\<rparr>]
            | _ \<Rightarrow> [\<lparr>bn_model = model, bn_ip = None, bn_error = Some (case ar_error r of Some (c # cs) \<Rightarrow> c # cs | _ \<Rightarrow> ''unknown'')\<rparr>])"
        using assms e by (simp_all split: bool.splits option.splits list.splits)
      show ?thesis
        unfolding raw using fresh_serves [OF _ r, of d rep] False by blast
    qed
  qed
qed

text \<open>
  C25: A virtual printer of the plural list listens only on an address its hub has claimed. Whatever entries
  the cloud sends, every configuration that survives the address allocation of a pull, and every binding reported to the
  cloud, has an address that this pull added to an interface with a successful command; an entry whose
  address cannot be claimed loses its address and is not configured at all.
\<close>
theorem virtual_printers_use_claimed_addresses:
  assumes "allocate_vp_bind_ips env entries a = (raw, bs, a')"
  shows "(\<forall>vp \<in> set (List.map_filter (parse_virtual_printer_config rep) raw).
       \<exists>ip. strip ip = vp_bind_ip vp \<and> claims env ip a a') \<and>
    (\<forall>b \<in> set bs. \<forall>ip. bn_ip b = Some ip \<longrightarrow> claims env ip a a')"
proof -
  have "served env rep a a' raw bs"
    using assms
  proof (induction entries arbitrary: a raw bs)
    case Nil
    then show ?case by (simp add: served_def)
  next
    case (Cons e es)
    obtain xs cs a1 where 1: "allocate_entry env e a = (xs, cs, a1)" by (rule prod_cases3)
    obtain ys ds where 2: "allocate_vp_bind_ips env es a1 = (ys, ds, a')" and e: "raw = xs @ ys" "bs = cs @ ds"
      using Cons.prems 1 by (auto split: prod.splits)
    show ?case
      unfolding e by (rule served_append [OF entry_serves [OF 1] Cons.IH [OF 2]])
  qed
  then show ?thesis by (auto simp: served_def in_map_filter)
qed

lemma virtual_printers_use_claimed_addresses_witness:
  "\<exists>raw bs a' vp. allocate_vp_bind_ips demo_alloc_env [sample_block] empty_alloc = (raw, bs, a') \<and>
     List.map_filter (parse_virtual_printer_config (\<lambda>_. [])) raw = [vp] \<and> vp_bind_ip vp = ''10.0.0.7'' \<and>
     (\<exists>ip. strip ip = vp_bind_ip vp \<and> claims demo_alloc_env ip empty_alloc a')"
proof -
  obtain raw bs a' where r: "allocate_vp_bind_ips demo_alloc_env [sample_block] empty_alloc = (raw, bs, a')"
    by (rule prod_cases3)
  have "ar_success (fst (ensure_claimed demo_alloc_env ''P2S'' ''10.0.0.7'' empty_alloc))"
    by (simp add: ensure_claimed_def demo_alloc_env_def empty_alloc_def run_cmd_def claim_ip_def claim_argv_def ip_error_def
        Let_def save_def)
  moreover have "strip ''10.0.0.7'' \<noteq> []" by code_simp
  ultimately have "raw = [sample_block]"
    using r by (simp add: allocate_entry_def sample_block_def sample_fields_def pget_def get_or_def por_def case_prod_beta split: prod.splits)
  moreover have "map vp_bind_ip (List.map_filter (parse_virtual_printer_config (\<lambda>_. [])) [sample_block]) = [''10.0.0.7'']"
    by code_simp
  ultimately obtain vp where "List.map_filter (parse_virtual_printer_config (\<lambda>_. [])) raw = [vp]" "vp_bind_ip vp = ''10.0.0.7''"
    by auto
  with r virtual_printers_use_claimed_addresses [OF r, of "\<lambda>_. []"] show ?thesis by auto
qed

section \<open>What waits for the cloud is not lost\<close>

definition holds :: "manager \<Rightarrow> manager \<Rightarrow> bool" where
  "holds m m' \<longleftrightarrow> (wf_dict (mg_adapters m) \<longrightarrow>
     wf_dict (mg_adapters m') \<and> set (pending_jobs m) \<subseteq> set (pending_jobs m'))"

lemma holds_refl [simp]: "holds m m"
  by (simp add: holds_def)

lemma holds_trans: "holds m m' \<Longrightarrow> holds m' m'' \<Longrightarrow> holds m m''"
  by (auto simp: holds_def)

lemma holds_keeps: "keeps_jobs m m' \<Longrightarrow> holds m m'"
  unfolding holds_def keeps_jobs_def by (metis order.refl set_mset_mset)

lemma holds_finishes: "holds m (adapter_finishes pid js m)"
  unfolding holds_def
proof (intro impI conjI)
  assume wf: "wf_dict (mg_adapters m)"
  then show "wf_dict (mg_adapters (adapter_finishes pid js m))"
    by (simp add: wf_dict_def finishes_keys)
  have "set_mset (mset (pending_jobs m)) \<subseteq> set_mset (mset (pending_jobs (adapter_finishes pid js m)))"
    unfolding pending_finishes [OF wf] by auto
  then show "set (pending_jobs m) \<subseteq> set (pending_jobs (adapter_finishes pid js m))" by simp
qed

lemma holds_finish_prints: "holds (ag_manager a) (ag_manager (finish_prints fs a))"
proof -
  have "holds m (fold (\<lambda>(pid, js). adapter_finishes pid js) fs m)" for m
    by (induction fs arbitrary: m) (auto simp: case_prod_beta intro: holds_trans holds_finishes)
  then show ?thesis by (simp add: finish_prints_def)
qed

lemma finish_prints_lists [simp]:
  "ag_probes (finish_prints fs a) = ag_probes a" "ag_commands (finish_prints fs a) = ag_commands a"
  "ag_bindings (finish_prints fs a) = ag_bindings a"
  by (simp_all add: finish_prints_def)

lemma assignments_frame: "\<exists>q. snd (snd (assignment_loop env now vs m)) = m\<lparr>mg_queue_jobs := q\<rparr>"
proof (induction vs arbitrary: m)
  case Nil
  then show ?case by (auto intro: exI [of _ "mg_queue_jobs m"])
next
  case (Cons v vs)
  have one: "\<exists>q. snd (snd (dispatch_one env now x m)) = m\<lparr>mg_queue_jobs := q\<rparr>" for x
    by (auto simp: dispatch_one_def Let_def split: send_result.split intro: exI [of _ "mg_queue_jobs m"])
  show ?case
  proof (cases "assignment_of v")
    case None
    then show ?thesis using Cons.IH [of m] by simp
  next
    case (Some x)
    obtain q where q: "snd (snd (dispatch_one env now x m)) = m\<lparr>mg_queue_jobs := q\<rparr>" using one by blast
    show ?thesis using Cons.IH [of "m\<lparr>mg_queue_jobs := q\<rparr>"] Some q by (auto simp: case_prod_beta)
  qed
qed

lemma commands_frame: "\<exists>q. snd (snd (command_loop send now i vs m)) = m\<lparr>mg_commands := q\<rparr>"
proof (induction vs arbitrary: i m)
  case Nil
  then show ?case by (auto intro: exI [of _ "mg_commands m"])
next
  case (Cons v vs)
  show ?case
  proof (cases "command_item_of v")
    case None
    then show ?thesis using Cons.IH [of "i + 1" m] by simp
  next
    case (Some it)
    let ?m = "m\<lparr>mg_commands := remember MAX_DISPATCHED_COMMANDS (ci_request it) now (mg_commands m)\<rparr>"
    show ?thesis
      using Some Cons.IH [of "i + 1" m] Cons.IH [of "i + 1" ?m]
      by (auto simp: Let_def case_prod_beta split: send_result.split)
  qed
qed

lemma holds_dispatch: "holds m (snd (snd (dispatch_assignments env now v m)))" "holds m (snd (snd (dispatch_commands send now v m)))"
  "holds m (snd (collect_queue_progress progress m))"
proof -
  have "holds m (m\<lparr>mg_queue_jobs := q\<rparr>)" "holds m (m\<lparr>mg_commands := c\<rparr>)" for q c
    by (simp_all add: holds_def pending_jobs_def)
  note frame = this
  show "holds m (snd (snd (dispatch_assignments env now v m)))"
    unfolding dispatch_assignments_def by (metis assignments_frame frame(1))
  show "holds m (snd (snd (dispatch_commands send now v m)))"
    unfolding dispatch_commands_def by (metis commands_frame frame(2))
  show "holds m (snd (collect_queue_progress progress m))"
    by (simp add: collect_queue_progress_def Let_def frame(1))
qed

text \<open>The lists that wait in one agent are still there in another.\<close>

definition keeps :: "agent \<Rightarrow> agent \<Rightarrow> bool" where
  "keeps a a' \<longleftrightarrow> set (ag_probes a) \<subseteq> set (ag_probes a') \<and> set (ag_commands a) \<subseteq> set (ag_commands a') \<and>
     set (ag_bindings a) \<subseteq> set (ag_bindings a') \<and> holds (ag_manager a) (ag_manager a')"

lemma keeps_trans: "keeps a b \<Longrightarrow> keeps b c \<Longrightarrow> keeps a c"
  by (auto simp: keeps_def intro: holds_trans)

definition same_lists :: "agent \<Rightarrow> agent \<Rightarrow> bool" where
  "same_lists a a' \<longleftrightarrow> ag_probes a' = ag_probes a \<and> ag_commands a' = ag_commands a \<and> ag_bindings a' = ag_bindings a \<and>
     ag_manager a' = ag_manager a"

lemma same_keeps: "same_lists a a' \<Longrightarrow> keeps a a'"
  by (simp add: same_lists_def keeps_def)

lemma phases_same: "same_lists a (rehydrate_once w a)" "same_lists a (agent_reconcile_vp w cfg a)" "same_lists a (tail_phase w a)"
  "same_lists a (vp_phase w a)" "same_lists a (drain w a)" "same_lists a (snd (apply_tailscale w v a))" "same_lists a (mirror_phase w a)"
  by (auto simp: same_lists_def rehydrate_once_def agent_reconcile_vp_def tail_phase_def vp_phase_def drain_def apply_tailscale_def
      mirror_phase_def Let_def case_prod_beta split: option.split sum.split)

lemma keeps_finish: "keeps a (finish_prints fs a)"
  by (simp add: keeps_def holds_finish_prints)

lemma keeps_before_post: "keeps a (before_post w a)"
  unfolding before_post_def
  by (rule keeps_trans [OF keeps_trans [OF keeps_trans [OF keeps_trans [OF keeps_finish same_keeps [OF phases_same(3)]]
      same_keeps [OF phases_same(4)]] same_keeps [OF phases_same(1)]] same_keeps [OF phases_same(7)]])

lemma keeps_virtual_printers: "keeps a (apply_virtual_printers w body a)"
proof -
  obtain raw bs al where al: "allocate_vp_bind_ips (wd_alloc w) (vp_blocks body) (ag_alloc a) = (raw, bs, al)"
    by (rule prod_cases3)
  let ?a = "a\<lparr>ag_alloc := al, ag_bindings := ag_bindings a @ bs\<rparr>"
  have a: "keeps a ?a" "keeps a (?a\<lparr>ag_facade := f\<rparr>)" for f
    by (simp_all add: keeps_def)
  show ?thesis
    unfolding apply_virtual_printers_def al Let_def case_prod_conv
    by (simp only: a keeps_trans [OF a(1) same_keeps [OF phases_same(2)]] split: if_split) simp
qed

lemma keeps_pull: "keeps a (snd (pull_config w a))"
proof (cases "\<exists>status body. wd_config w = Response status body \<and> status = 200")
  case False
  then show ?thesis by (auto simp: pull_config_def keeps_def split: response.split)
next
  case True
  then obtain body where w: "wd_config w = Response 200 body" by auto
  have "keeps a (a\<lparr>ag_nonce := n\<rparr>)" for n by (simp add: keeps_def)
  moreover have pulled: "keeps b (snd (apply_tailscale w v (apply_virtual_printers w body
      (b\<lparr>ag_manager := reconcile (wd_start w) (wd_rep w) (wd_now w) ps (ag_manager b), ag_version := u\<rparr>))))" for b v ps u
  proof (intro keeps_trans [OF _ same_keeps [OF phases_same(6)]] keeps_trans [OF _ keeps_virtual_printers])
    show "keeps b (b\<lparr>ag_manager := reconcile (wd_start w) (wd_rep w) (wd_now w) ps (ag_manager b), ag_version := u\<rparr>)"
      by (simp add: keeps_def holds_keeps keeps_jobs_reconcile)
  qed
  ultimately have steps: "keeps a (a\<lparr>ag_nonce := n\<rparr>)" "keeps a (snd (apply_tailscale w v (apply_virtual_printers w body
      (a\<lparr>ag_nonce := n, ag_manager := reconcile (wd_start w) (wd_rep w) (wd_now w) ps (ag_manager (a\<lparr>ag_nonce := n\<rparr>)), ag_version := u\<rparr>))))" for n v ps u
    by (blast intro: keeps_trans)+
  show ?thesis
    unfolding pull_config_def w response.case Let_def case_prod_beta
    by (simp only: simp_thms if_False snd_conv steps split: option.split if_split)
qed

lemma keeps_pull_note: "keeps a (snd (pull_and_note w a))"
proof -
  have "keeps b (rehydrate_once w b')" if "keeps b b'" for b b'
    using that same_keeps [OF phases_same(1)] by (rule keeps_trans)
  moreover have "keeps b (b'\<lparr>ag_status := s\<rparr>)" if "keeps b b'" for b b' s
    using that by (simp add: keeps_def)
  ultimately show ?thesis
    using keeps_pull [of a w] by (auto simp: pull_and_note_def split: prod.split pull_result.split)
qed

lemma keeps_run_requests: "keeps a (run_requests w body a)"
  using holds_dispatch(2) by (auto simp: run_requests_def Let_def keeps_def case_prod_beta)

text \<open>What handling an accepted heartbeat keeps: the jobs that were not in it.\<close>

lemma accepted_keeps_unsent:
  assumes "accepted w body jobs a = (fin, a')" "wf_dict (mg_adapters (ag_manager a))"
  shows "wf_dict (mg_adapters (ag_manager a')) \<and>
    {j \<in> set (pending_jobs (ag_manager a)). jr_key j \<notin> jr_key ` set jobs} \<subseteq> set (pending_jobs (ag_manager a'))"
proof -
  let ?b = "snd (confirm_sent w body jobs a)"
  have b: "wf_dict (mg_adapters (ag_manager ?b)) \<and>
      {j \<in> set (pending_jobs (ag_manager a)). jr_key j \<notin> jr_key ` set jobs} \<subseteq> set (pending_jobs (ag_manager ?b))"
    using holds_trans [OF holds_dispatch(1) holds_dispatch(3)] assms(2)
    by (fastforce simp: confirm_sent_def Let_def case_prod_beta holds_def pending_ack wf_dict_def ack_keys split: option.split)
  have "keeps ?b a'"
    using assms(1) keeps_pull_note [of ?b w] keeps_trans [OF keeps_pull_note keeps_run_requests] keeps_run_requests [of ?b w body]
      same_keeps [of ?b ?b]
    by (auto simp: same_lists_def accepted_def Let_def case_prod_beta split: pyval.splits if_splits)
  with b show ?thesis by (auto simp: keeps_def holds_def)
qed

text \<open>The payload was cut nowhere.\<close>

definition roomy :: "payload \<Rightarrow> bool" where
  "roomy p \<longleftrightarrow> length (pl_probes p) < 64 \<and> length (pl_commands p) < 64 \<and> length (pl_bindings p) < 64 \<and> length (pl_jobs p) < 256"

text \<open>Nothing that waits is lost: it is in an accepted payload, or it still waits. A job is identified by its key.\<close>

definition sent_in :: "(payload \<times> bool) list \<Rightarrow> (payload \<Rightarrow> 'x list) \<Rightarrow> 'x set" where
  "sent_in ps f = (\<Union>(p, ok) \<in> set ps. if ok then set (f p) else {})"

lemma sent_in_simps [simp]: "sent_in [] f = {}" "sent_in ((p, ok) # ps) f = (if ok then set (f p) else {}) \<union> sent_in ps f"
  "sent_in (ps @ qs) f = sent_in ps f \<union> sent_in qs f"
  by (simp_all add: sent_in_def)

definition delivers :: "(payload \<times> bool) list \<Rightarrow> agent \<Rightarrow> agent \<Rightarrow> bool" where
  "delivers ps a a' \<longleftrightarrow>
     set (ag_probes a) \<subseteq> set (ag_probes a') \<union> sent_in ps pl_probes \<and>
     set (ag_commands a) \<subseteq> set (ag_commands a') \<union> sent_in ps pl_commands \<and>
     set (ag_bindings a) \<subseteq> set (ag_bindings a') \<union> sent_in ps pl_bindings \<and>
     (wf_dict (mg_adapters (ag_manager a)) \<longrightarrow> wf_dict (mg_adapters (ag_manager a')) \<and>
       {j \<in> set (pending_jobs (ag_manager a)). jr_key j \<notin> jr_key ` sent_in ps pl_jobs} \<subseteq> set (pending_jobs (ag_manager a')))"

lemma keeps_delivers: "keeps a a' \<Longrightarrow> delivers ps a a'"
  unfolding keeps_def delivers_def holds_def by blast

lemma delivers_trans: "delivers ps a b \<Longrightarrow> delivers qs b c \<Longrightarrow> delivers (ps @ qs) a c"
  unfolding delivers_def sent_in_simps image_Un by blast

lemma beat_delivers:
  assumes "beat w a = (fin, (p, ok), a')" "ok \<longrightarrow> roomy p"
  shows "delivers [(p, ok)] a a'"
proof -
  define b where "b = before_post w a"
  define c where "c = finish_prints (wd_late w) b"
  define d where "d = c\<lparr>ag_timer := (ag_timer c)\<lparr>tx_pending := False\<rparr>\<rparr>"
  have ab: "keeps a b" unfolding b_def by (rule keeps_before_post)
  have bd: "keeps b c" "keeps c d" by (simp_all add: c_def d_def keeps_finish) (simp add: keeps_def)
  note ad = keeps_trans [OF keeps_trans [OF ab bd(1)] bd(2)]
  have lost: "keeps a c" by (rule keeps_trans [OF ab bd(1)])
  note dr = keeps_trans [OF keeps_trans [OF ab bd(1)] same_keeps [OF phases_same(5)]]
    keeps_trans [OF ad same_keeps [OF phases_same(5)]]
  show ?thesis
  proof (cases ok)
    case False
    then show ?thesis
      using assms(1) dr lost keeps_delivers
      by (auto simp: beat_def Let_def case_prod_beta b_def [symmetric] c_def [symmetric] d_def [symmetric]
          split: response.splits if_splits)
  next
    case True
    then obtain body e where p: "p = beat_payload w b" and acc: "accepted w body (pending_jobs (ag_manager b)) d = (fin, e)"
      and e: "a' = (if fin = Goes_on then drain w e else e)"
      using assms(1)
      by (auto simp: beat_def Let_def b_def [symmetric] c_def [symmetric] d_def [symmetric]
          split: response.splits if_splits prod.splits)
    have sent: "pl_probes p = ag_probes b" "pl_commands p = ag_commands b" "pl_bindings p = ag_bindings b"
      "pl_jobs p = pending_jobs (ag_manager b)"
      using assms(2) True unfolding p roomy_def beat_payload_def heartbeat_payload_def by (auto simp: min_def split: if_splits)
    have "wf_dict (mg_adapters (ag_manager a)) \<longrightarrow> wf_dict (mg_adapters (ag_manager a')) \<and>
        {j \<in> set (pending_jobs (ag_manager a)). jr_key j \<notin> jr_key ` set (pl_jobs p)} \<subseteq> set (pending_jobs (ag_manager a'))"
    proof
      assume wf: "wf_dict (mg_adapters (ag_manager a))"
      have m: "ag_manager a' = ag_manager e" using e phases_same(5) [of e w] by (simp add: same_lists_def)
      have d: "wf_dict (mg_adapters (ag_manager d))" "set (pending_jobs (ag_manager a)) \<subseteq> set (pending_jobs (ag_manager d))"
        using ad wf by (simp_all add: keeps_def holds_def)
      from accepted_keeps_unsent [OF acc d(1)] d(2)
      show "wf_dict (mg_adapters (ag_manager a')) \<and>
        {j \<in> set (pending_jobs (ag_manager a)). jr_key j \<notin> jr_key ` set (pl_jobs p)} \<subseteq> set (pending_jobs (ag_manager a'))"
        unfolding m sent by blast
    qed
    then show ?thesis
      using ab sent True by (auto simp: delivers_def keeps_def)
  qed
qed


section \<open>A concrete run\<close>

definition quiet_alloc :: alloc_env where
  "quiet_alloc = \<lparr>ae_run = (\<lambda>n argv. Ran 0 []), ae_save_ok = True, ae_iface = Some ''eth0'', ae_own_ip = None, ae_netmask = None,
     ae_routed = (\<lambda>s. Some False)\<rparr>"

definition quiet_probes :: probe_env where
  "quiet_probes = \<lparr>pe_run = (\<lambda>_ _. Timed_out [] []), pe_binaries = [], pe_config_path = [], pe_credential_path = [], pe_credential = Inr False,
     pe_config = Inl [], pe_lan_scan = Inl [], pe_cameras = None, pe_json = (\<lambda>_. []), pe_duration = (\<lambda>_. 0)\<rparr>"

definition no_telemetry :: telemetry where
  "no_telemetry = \<lparr>tm_identity = [], tm_frames = [], tm_failures = [], tm_samples = [], tm_ca = None, tm_cas = [], tm_hits = [],
     tm_metrics = [], tm_diagnostics = minimal_diagnostics (new_diagnostics None True [])\<rparr>"

definition sample_world :: "response \<Rightarrow> (string \<times> job_record list) list \<Rightarrow> world" where
  "sample_world answer finished = \<lparr>wd_now = 10, wd_wall = 0, wd_post = answer, wd_config = Transport, wd_tail = (sample_tail sample_connected)\<lparr>te_installed := False\<rparr>,
     wd_vp = VpManager.sample_env True, wd_disk = [], wd_alloc = quiet_alloc, wd_rep = (\<lambda>_. []), wd_start = (\<lambda>_. Started None),
     wd_dispatch = example_dispatch, wd_send = (\<lambda>_. Accepted), wd_progress = (\<lambda>_. []), wd_report = (\<lambda>_. Sent), wd_probe = quiet_probes,
     wd_turns = [], wd_outbox = \<lparr>oe_rep = (\<lambda>_. []), oe_iso = (\<lambda>_. None), oe_now = [], oe_new_uid = ''u'', oe_reads = (\<lambda>_. True), oe_moves = (\<lambda>_. True)\<rparr>,
     wd_telemetry = no_telemetry, wd_finished = finished, wd_late = [],
     wd_mirror_all = (\<lambda>_. None), wd_mirror_one = (\<lambda>_. None)\<rparr>"

definition idle_subs :: submissions where
  "idle_subs = \<lparr>sq_jobs = [], sq_dropped = 0, sq_outbox = [], sq_recent = [], sq_spool = [], sq_posted = []\<rparr>"

definition sample_agent :: agent where
  "sample_agent = (new_agent 30 empty_alloc idle_subs)\<lparr>ag_manager := example_running,
     ag_bindings := [\<lparr>bn_model = ''P2S'', bn_ip = Some ''10.0.0.7'', bn_error = None\<rparr>]\<rparr>"

definition sample_beats :: "world list" where
  "sample_beats = [sample_world Transport [(''p1'', [sample_record])], (sample_world (Response 200 []) [])\<lparr>wd_late :=
     [(''p1'', [sample_record\<lparr>jr_key := ''later''\<rparr>])]\<rparr>]"

text \<open>An agent without Tailscale and without virtual printers only moves its lists.\<close>

definition plain :: "agent \<Rightarrow> bool" where
  "plain a \<longleftrightarrow> tx_config (ag_timer a) = PNone \<and> ag_status a = None \<and> vx_config (ag_vp a) = None \<and>
     fc_model (ag_facade a) = None \<and> fc_configs (ag_facade a) = [] \<and> ag_subs a = idle_subs"

lemma plain_before:
  assumes "plain a" "\<not> te_installed (wd_tail w)"
  shows "before_post w a = finish_prints (wd_finished w) a"
proof -
  have "\<not> cfg_enabled PNone" by code_simp
  then have "tail_phase w b = b" if "plain b" for b
    using that assms(2)
    by (simp add: plain_def tail_phase_def tail_retry_due_def tail_needs_retry_def tail_should_read_def)
  moreover have "vp_phase w b = b" "rehydrate_once w b = b" "mirror_phase w b = b" if "plain b" for b
    using that by (simp_all add: mirror_phase_def plain_def vp_phase_def vp_retry_due_def vp_needs_retry_def rehydrate_once_def)
  moreover have "plain (finish_prints fs a)" for fs
    using assms(1) by (simp add: plain_def finish_prints_def)
  ultimately show ?thesis by (simp add: before_post_def)
qed

lemma plain_drain:
  assumes "plain a"
  shows "drain w a = a"
proof -
  have "snd (drop_submissions None idle_subs) = idle_subs" by code_simp
  then have "drain w a = a\<lparr>ag_subs := idle_subs\<rparr>" using assms by (simp add: drain_def plain_def drain_submissions_def)
  also have "\<dots> = a" using assms by (cases a) (simp add: plain_def)
  finally show ?thesis .
qed

lemma plain_sample: "plain (sample_agent\<lparr>ag_manager := m\<rparr>)" and plain_agent: "plain sample_agent"
  by (simp_all add: plain_def sample_agent_def new_agent_def new_tail_timer_def new_vp_timer_def)

lemma sample_manager: "ag_manager sample_agent = example_running"
  by (simp add: sample_agent_def)

lemma first_beat:
  defines "b \<equiv> sample_agent\<lparr>ag_manager := adapter_finishes ''p1'' [sample_record] example_running\<rparr>"
  shows "beat (sample_beats ! 0) sample_agent = (Goes_on, (beat_payload (sample_beats ! 0) b, False), b)"
proof -
  have "before_post (sample_beats ! 0) sample_agent = b"
    using plain_before [OF plain_agent, of "sample_beats ! 0"]
    by (simp add: b_def sample_beats_def sample_world_def finish_prints_def sample_manager)
  moreover have "plain b" unfolding b_def by (rule plain_sample)
  ultimately show ?thesis
    by (simp add: beat_def Let_def plain_drain finish_prints_def)
       (simp add: sample_beats_def sample_world_def finish_prints_def plain_drain)
qed

lemma sample_run: "(let (ps, a') = beats (tl sample_beats) (sample_agent\<lparr>ag_manager := adapter_finishes ''p1'' [sample_record] example_running\<rparr>) in
     (list_all (\<lambda>(p, ok). roomy p) ps, map (\<lambda>(p, ok). (map jr_key (pl_jobs p), length (pl_bindings p), ok)) ps,
      map jr_key (pending_jobs (ag_manager a')))) =
   (True, [([jr_key sample_record], 1, True)], [''later''])"
  by code_simp


section \<open>What the caps lose\<close>

text \<open>A job that waits beyond the first 256 is not sent, and is confirmed all the same. A buffer of one printer
  alone may hold more (\<open>MAX_PENDING\<close> is 500).\<close>

lemma excess_jobs_confirmed_unsent:
  assumes "distinct (map jr_key (pending_jobs (ag_manager b)))" "256 \<le> i" "i < length (pending_jobs (ag_manager b))"
  shows "pending_jobs (ag_manager b) ! i \<notin> set (pl_jobs (beat_payload w b)) \<and>
    (fst (confirm_sent w body (pending_jobs (ag_manager b)) b) = Goes_on \<longrightarrow>
      pending_jobs (ag_manager b) ! i \<notin> set (pending_jobs (ag_manager (snd (confirm_sent w body (pending_jobs (ag_manager b)) b)))))"
proof
  let ?js = "pending_jobs (ag_manager b)"
  have d: "distinct ?js" using assms(1) by (simp add: distinct_map)
  show "?js ! i \<notin> set (pl_jobs (beat_payload w b))"
  proof
    assume "?js ! i \<in> set (pl_jobs (beat_payload w b))"
    then obtain k where "k < 256" "k < length ?js" "?js ! k = ?js ! i"
      by (auto simp: beat_payload_def heartbeat_payload_def in_set_conv_nth)
    with d assms(2,3) show False by (simp add: nth_eq_iff_index_eq)
  qed
  have "?js ! i \<in> set ?js" using assms(3) by simp
  then show "fst (confirm_sent w body ?js b) = Goes_on \<longrightarrow> ?js ! i \<notin> set (pending_jobs (ag_manager (snd (confirm_sent w body ?js b))))"
    by (auto simp: confirm_sent_def Let_def case_prod_beta pending_ack split: option.split)
qed

lemma excess_results_forgotten_unsent:
  "pl_probes (beat_payload w b) = take 64 (ag_probes b) \<and> ag_probes (snd (confirm_sent w body js b)) = [] \<and>
   pl_bindings (beat_payload w b) = take 64 (ag_bindings b) \<and> ag_bindings (snd (confirm_sent w body js b)) = []"
  by (simp add: beat_payload_def heartbeat_payload_def confirm_sent_def case_prod_beta Let_def split: option.split)

section \<open>Pulls, restarts and bounds\<close>

lemma first_pull_never_restarts: "ag_nonce a = None \<Longrightarrow> fst (pull_and_note w a) \<noteq> Restarts"
  by (auto simp: pull_and_note_def pull_config_def restart_on_nonce_def Let_def case_prod_beta
      split: prod.splits pull_result.splits response.splits option.splits if_splits)

lemma failed_pull_changes_nothing:
  "wd_config w = Transport \<or> wd_config w = Response status body \<and> status \<noteq> 200 \<Longrightarrow> pull_config w a = (Kept, a)"
  by (auto simp: pull_config_def)

lemma interval_at_least_5: "5 \<le> i \<Longrightarrow> 5 \<le> next_interval v i"
  by (simp add: next_interval_def split: option.split)

lemma metrics_in_range:
  "(''memUsedPct'', PInt m) \<in> set (collect_pi_metrics r tick) \<Longrightarrow> 0 \<le> m \<and> m \<le> 100"
  by (auto simp: collect_pi_metrics_def Let_def memory_pct_def split: option.splits if_splits)

lemma interval_of_beats: "5 \<le> ag_interval a \<Longrightarrow> 5 \<le> ag_interval (snd (confirm_sent w body js a))"
  by (simp add: confirm_sent_def Let_def case_prod_beta interval_at_least_5 split: option.split)

end
