(* ===== verification/Http.thy ===== *)
theory Http
  imports Submissions Bytes
begin

text \<open>
  The transport, \<open>makeros_hub/http.py\<close>: JSON requests with capped answers, retries with exponential backoff and
  jitter, and the mapping of the outcome onto what the callers handle. What one request meets on the wire is a
  parameter (\<open>wire\<close>), indexed by the attempt; \<open>loads\<close> is \<open>json.loads\<close> on a decoded text (\<open>None\<close>: it raises).
  The waits between attempts are returned, so that their number and lengths are visible.
\<close>

section \<open>What a request meets\<close>

text \<open>An answer below 400 with its body; an \<open>HTTPError\<close> with its body (\<open>None\<close>: reading it raises); a network
  error, a timeout or a lost connection; or any other exception, which no handler of the transport catches.\<close>

datatype wire =
    Answer int "byte list"
  | Http_error int "byte list option"
  | Network
  | Unexpected

text \<open>How a call of the transport raises.\<close>

datatype transport_error = Transport_failure | Uncaught

type_synonym http_result = "transport_error + int \<times> (string \<times> pyval) list"

definition MAX_RESPONSE_BYTES :: nat where
  "MAX_RESPONSE_BYTES = 8 * 1024 * 1024"

definition read_capped :: "byte list \<Rightarrow> transport_error + byte list" where
  "read_capped body = (let raw = take (MAX_RESPONSE_BYTES + 1) body
     in if MAX_RESPONSE_BYTES < length raw then Inl Transport_failure else Inr raw)"

definition json_of :: "(string \<Rightarrow> pyval option) \<Rightarrow> byte list \<Rightarrow> pyval option" where
  "json_of loads raw = (if raw = [] then Some (PDict [])
     else if utf8_ok raw then loads (map char_of_byte raw) else None)"

definition parse_response :: "(string \<Rightarrow> pyval option) \<Rightarrow> int \<Rightarrow> byte list \<Rightarrow> http_result" where
  "parse_response loads status raw = (case json_of loads raw of
      Some (PDict d) \<Rightarrow> Inr (status, d)
    | _ \<Rightarrow> Inl Transport_failure)"

definition safe_read :: "(string \<Rightarrow> pyval option) \<Rightarrow> byte list option \<Rightarrow> (string \<times> pyval) list" where
  "safe_read loads body = (case body of
      None \<Rightarrow> []
    | Some b \<Rightarrow> (case json_of loads (take (MAX_RESPONSE_BYTES + 1) b) of Some (PDict d) \<Rightarrow> d | _ \<Rightarrow> []))"

section \<open>Requests\<close>

text \<open>An attempt ends the call with a result, or asks for another attempt.\<close>

definition attempt_result :: "(string \<Rightarrow> pyval option) \<Rightarrow> bool \<Rightarrow> wire \<Rightarrow> http_result option" where
  "attempt_result loads final w = (case w of
      Answer status body \<Rightarrow> Some (res_bind (read_capped body) (parse_response loads status))
    | Http_error code body \<Rightarrow> if code < 500 \<or> final then Some (Inr (code, safe_read loads body)) else None
    | Network \<Rightarrow> if final then Some (Inl Transport_failure) else None
    | Unexpected \<Rightarrow> Some (Inl Uncaught))"

definition backoff_wait :: "real \<Rightarrow> nat \<Rightarrow> real \<Rightarrow> real" where
  "backoff_wait base attempt jitter = min (base * 2 ^ (attempt - 1) + jitter) 30"

text \<open>\<open>jitter\<close> is the random value drawn before the given attempt, between zero and the base.\<close>

function post_loop :: "(string \<Rightarrow> pyval option) \<Rightarrow> (nat \<Rightarrow> wire) \<Rightarrow> int \<Rightarrow> real \<Rightarrow> (nat \<Rightarrow> real) \<Rightarrow> nat \<Rightarrow>
    http_result \<times> real list" where
  "post_loop loads server retries base jitter attempt =
     (case attempt_result loads (retries \<le> int attempt) (server attempt) of
        Some r \<Rightarrow> (r, [])
      | None \<Rightarrow> (let (r, waits) = post_loop loads server retries base jitter (attempt + 1)
          in (r, backoff_wait base (attempt + 1) (jitter (attempt + 1)) # waits)))"
  by pat_completeness auto
termination
  by (relation "measure (\<lambda>(loads, server, retries, base, jitter, attempt). nat (retries - int attempt))")
    (auto simp: attempt_result_def split: wire.splits if_splits)

declare post_loop.simps [simp del]

definition post_json :: "(string \<Rightarrow> pyval option) \<Rightarrow> (nat \<Rightarrow> wire) \<Rightarrow> int \<Rightarrow> real \<Rightarrow> (nat \<Rightarrow> real) \<Rightarrow> http_result \<times> real list" where
  "post_json loads server retries base jitter = post_loop loads server retries base jitter 0"

definition get_json :: "(string \<Rightarrow> pyval option) \<Rightarrow> wire \<Rightarrow> http_result" where
  "get_json loads w = (case w of
      Answer status body \<Rightarrow> res_bind (read_capped body) (parse_response loads status)
    | Http_error code body \<Rightarrow> Inr (code, safe_read loads body)
    | Network \<Rightarrow> Inl Transport_failure
    | Unexpected \<Rightarrow> Inl Uncaught)"

definition post_bytes :: "wire \<Rightarrow> transport_error + int" where
  "post_bytes w = (case w of
      Answer status body \<Rightarrow> res_bind (read_capped body) (\<lambda>_. Inr status)
    | Http_error code body \<Rightarrow> Inr code
    | Network \<Rightarrow> Inl Transport_failure
    | Unexpected \<Rightarrow> Inl Uncaught)"

section \<open>Retries\<close>

text \<open>An outcome that another attempt may mend.\<close>

definition transient :: "wire \<Rightarrow> bool" where
  "transient w \<longleftrightarrow> (case w of Network \<Rightarrow> True | Http_error code body \<Rightarrow> 500 \<le> code | _ \<Rightarrow> False)"

lemma get_json_last: "attempt_result loads True w = Some (get_json loads w)"
  by (cases w) (simp_all add: attempt_result_def get_json_def)

lemma attempt_settles: "attempt_result loads final w = (if final \<or> \<not> transient w then Some (get_json loads w) else None)"
  by (cases w) (auto simp: attempt_result_def get_json_def transient_def)

text \<open>The number of attempts that are not the last one.\<close>

function failed_attempts :: "(nat \<Rightarrow> wire) \<Rightarrow> int \<Rightarrow> nat \<Rightarrow> nat" where
  "failed_attempts server retries k =
     (if retries \<le> int k \<or> \<not> transient (server k) then k else failed_attempts server retries (k + 1))"
  by pat_completeness auto
termination by (relation "measure (\<lambda>(server, retries, k). nat (retries - int k))") auto

declare failed_attempts.simps [simp del]

lemma failed_attempts_spec:
  "k \<le> failed_attempts server retries k \<and> (failed_attempts server retries k \<le> max k (nat retries)) \<and>
   (\<forall>i. k \<le> i \<and> i < failed_attempts server retries k \<longrightarrow> transient (server i)) \<and>
   (nat retries \<le> failed_attempts server retries k \<or> \<not> transient (server (failed_attempts server retries k)))"
proof (induction server retries k rule: failed_attempts.induct)
  case (1 server retries k)
  show ?case
  proof (cases "retries \<le> int k \<or> \<not> transient (server k)")
    case True
    then have "failed_attempts server retries k = k" by (simp add: failed_attempts.simps)
    with True show ?thesis by auto
  next
    case False
    have step: "failed_attempts server retries k = failed_attempts server retries (k + 1)"
      using False by (simp add: failed_attempts.simps)
    let ?n = "failed_attempts server retries (k + 1)"
    from 1 [OF False] have ih: "k + 1 \<le> ?n" "?n \<le> max (k + 1) (nat retries)"
      "\<And>i. k + 1 \<le> i \<Longrightarrow> i < ?n \<Longrightarrow> transient (server i)" "nat retries \<le> ?n \<or> \<not> transient (server ?n)"
      by blast+
    have "transient (server i)" if "k \<le> i" "i < ?n" for i
      using that ih(3) [of i] False by (cases "i = k") auto
    moreover have "?n \<le> max k (nat retries)" "k \<le> ?n" using ih(1,2) False by linarith+
    ultimately show ?thesis
      unfolding step using ih(4) by blast
  qed
qed

lemma post_loop_spec:
  "post_loop loads server retries base jitter k =
     (get_json loads (server (failed_attempts server retries k)),
      map (\<lambda>i. backoff_wait base i (jitter i)) [Suc k..<Suc (failed_attempts server retries k)])"
proof (induction loads server retries base jitter k rule: post_loop.induct)
  case (1 loads server retries base jitter k)
  show ?case
  proof (cases "retries \<le> int k \<or> \<not> transient (server k)")
    case True
    then show ?thesis by (simp add: post_loop.simps failed_attempts.simps attempt_settles)
  next
    case False
    then have n: "failed_attempts server retries k = failed_attempts server retries (k + 1)"
      "attempt_result loads (retries \<le> int k) (server k) = None"
      by (simp_all add: failed_attempts.simps attempt_settles)
    moreover have "k + 1 \<le> failed_attempts server retries (k + 1)"
      using failed_attempts_spec by blast
    ultimately show ?thesis
      using 1 upt_conv_Cons [of "Suc k" "Suc (failed_attempts server retries (k + 1))"]
      by (subst post_loop.simps) (simp del: upt_Suc)
  qed
qed

definition definite :: "wire \<Rightarrow> bool" where
  "definite w \<longleftrightarrow> \<not> transient w"

text \<open>
  C28: The retry loop ends after at most the given number of retries, and its result is the result of the first
  attempt that is not transient (a network error or an answer of 500 or more), or of the last attempt, as a
  single request would give it. Before attempt i it waited the base doubled i - 1 times plus the jitter, at
  most 30 seconds; a definite answer (2xx, 4xx) is never asked for again.
\<close>
theorem post_settles:
  "\<exists>n \<le> nat retries. list_all (\<lambda>i. transient (server i)) [0..<n] \<and>
     (n = nat retries \<or> definite (server n)) \<and>
     post_json loads server retries base jitter =
       (get_json loads (server n), map (\<lambda>i. min (base * 2 ^ (i - 1) + jitter i) 30) [1..<Suc n])"
proof (intro exI [of _ "failed_attempts server retries 0"] conjI)
  let ?n = "failed_attempts server retries 0"
  note spec = failed_attempts_spec [of 0 server retries]
  show "?n \<le> nat retries" using spec by simp
  show "list_all (\<lambda>i. transient (server i)) [0..<?n]" using spec by (simp add: list_all_iff)
  show "?n = nat retries \<or> definite (server ?n)" using spec by (auto simp: definite_def)
  show "post_json loads server retries base jitter =
       (get_json loads (server ?n), map (\<lambda>i. min (base * 2 ^ (i - 1) + jitter i) 30) [1..<Suc ?n])"
    by (simp add: post_json_def post_loop_spec backoff_wait_def)
qed

section \<open>What the callers see\<close>

text \<open>The callers catch the failure of the transport and nothing else.\<close>

definition as_response :: "http_result \<Rightarrow> response" where
  "as_response r = (case r of
      Inr (status, body) \<Rightarrow> Response status body
    | Inl Transport_failure \<Rightarrow> Transport
    | Inl Uncaught \<Rightarrow> Escapes)"

lemma body_capped: "get_json loads (Answer status body) = Inr (s, d) \<Longrightarrow> s = status \<and> length body \<le> MAX_RESPONSE_BYTES"
  by (auto simp: get_json_def read_capped_def parse_response_def Let_def split: if_splits option.splits pyval.splits)

lemma server_errors_are_no_failure: "get_json loads (Http_error code body) = Inr (code, safe_read loads body)"
  by (simp add: get_json_def)

text \<open>An exception the handlers do not name (an incomplete read, a protocol error) leaves the transport as it is,
  without a retry; the loop of the agent only handles the failure of the transport.\<close>

lemma unexpected_is_not_retried: "server 0 = Unexpected \<Longrightarrow> post_json loads server retries base jitter = (Inl Uncaught, [])"
  by (simp add: post_json_def post_loop.simps attempt_result_def)

end
