(* ===== verification/Multipart.thy ===== *)
theory Multipart
  imports Bytes "HOL-Library.Sublist"
begin

text \<open>
  Parsing an upload form, \<open>makeros_hub/multipart.py\<close>, on bytes. A header text (the boundary) comes from the HTTP
  server, which decodes headers as Latin-1: one character stands for one byte. The two patterns for the
  quoted parameters of a part are a search for the key, read without case, and the text up to the next quote.
\<close>

record form =
  fm_fields :: "(string, string) odict"
  fm_file :: "(string \<times> byte list) option"

definition quote :: char where
  "quote = CHR 0x22"

definition crlf :: "byte list" where
  "crlf = [13, 10]"

definition dashes :: "byte list" where
  "dashes = [45, 45]"

section \<open>The boundary\<close>

text \<open>The value behind \<open>boundary=\<close>: quoted, or up to the next semicolon.\<close>

definition boundary_value :: "string \<Rightarrow> string option" where
  "boundary_value s =
     (let q = takeWhile (\<lambda>c. c \<noteq> quote) (tl s); u = takeWhile (\<lambda>c. c \<noteq> CHR '';'') s
      in if s \<noteq> [] \<and> hd s = quote \<and> q \<noteq> [] \<and> quote \<in> set (tl s) then Some q
         else if u \<noteq> [] then Some u else None)"

fun find_boundary :: "string \<Rightarrow> string option" where
  "find_boundary [] = None"
| "find_boundary (c # cs) = (case (if lower (take 9 (c # cs)) = ''boundary='' then boundary_value (drop 9 (c # cs)) else None) of
      Some v \<Rightarrow> Some v
    | None \<Rightarrow> find_boundary cs)"

fun contains :: "string \<Rightarrow> string \<Rightarrow> bool" where
  "contains key [] \<longleftrightarrow> key = []"
| "contains key (c # cs) \<longleftrightarrow> startswith key (c # cs) \<or> contains key cs"

definition boundary_from_content_type :: "string option \<Rightarrow> string option" where
  "boundary_from_content_type ct = (case ct of
      None \<Rightarrow> None
    | Some s \<Rightarrow> if s = [] \<or> \<not> contains ''multipart/form-data'' (lower s) then None
        else map_option strip (find_boundary s))"

section \<open>Parts\<close>

text \<open>\<open>bytes.split\<close> and \<open>bytes.partition\<close>.\<close>

function bsplit :: "byte list \<Rightarrow> byte list \<Rightarrow> byte list list" where
  "bsplit d [] = [[]]"
| "bsplit d (b # bs) = (if d \<noteq> [] \<and> take (length d) (b # bs) = d then [] # bsplit d (drop (length d) (b # bs))
     else (case bsplit d bs of [] \<Rightarrow> [[b]] | x # xs \<Rightarrow> (b # x) # xs))"
  by pat_completeness auto
termination by (relation "measure (\<lambda>(d, s). length s)") auto

fun bpartition :: "byte list \<Rightarrow> byte list \<Rightarrow> (byte list \<times> byte list) option" where
  "bpartition d [] = None"
| "bpartition d (b # bs) = (if take (length d) (b # bs) = d then Some ([], drop (length d) (b # bs))
     else map_option (\<lambda>(x, y). (b # x, y)) (bpartition d bs))"

fun search_quoted :: "string \<Rightarrow> string \<Rightarrow> string option" where
  "search_quoted key [] = None"
| "search_quoted key (c # cs) =
     (if lower (take (length key) (c # cs)) = key \<and> quote \<in> set (drop (length key) (c # cs))
      then Some (takeWhile (\<lambda>x. x \<noteq> quote) (drop (length key) (c # cs)))
      else search_quoted key cs)"

definition name_key :: string where
  "name_key = ''name='' @ [quote]"

definition filename_key :: string where
  "filename_key = ''filename='' @ [quote]"

definition decode_group :: "string \<Rightarrow> string" where
  "decode_group g = utf8_decode (map byte_of_char g)"

definition parse_part :: "byte list \<Rightarrow> form \<Rightarrow> form" where
  "parse_part chunk f =
     (if chunk \<in> set [[], dashes @ crlf, dashes, crlf] \<or> take 2 chunk = dashes then f
      else (case bpartition (crlf @ crlf) (if take 2 chunk = crlf then drop 2 chunk else chunk) of
          None \<Rightarrow> f
        | Some (header_blob, rest) \<Rightarrow>
            (let data = (if 2 \<le> length rest \<and> drop (length rest - 2) rest = crlf then take (length rest - 2) rest else rest);
                 header = map char_of_byte header_blob
             in case search_quoted name_key header of
                None \<Rightarrow> f
              | Some name \<Rightarrow>
                  (let text_field = f\<lparr>fm_fields := AList.update (decode_group name) (utf8_decode data) (fm_fields f)\<rparr>
                   in case search_quoted filename_key header of
                      Some g \<Rightarrow> if decode_group g \<noteq> [] then f\<lparr>fm_file := Some (decode_group g, data)\<rparr> else text_field
                    | None \<Rightarrow> text_field))))"

definition delimiter :: "string \<Rightarrow> byte list" where
  "delimiter boundary = dashes @ map byte_of_char boundary"

definition parse_multipart :: "byte list \<Rightarrow> string \<Rightarrow> form option" where
  "parse_multipart body boundary =
     (if boundary = [] then None
      else Some (fold parse_part (bsplit (delimiter boundary) body) \<lparr>fm_fields = [], fm_file = None\<rparr>))"

section \<open>Forms as the slicer sends them\<close>

datatype part =
    Text_part string string
  | File_part string string "byte list"

definition disposition :: "string \<Rightarrow> string" where
  "disposition name = ''Content-Disposition: form-data; name='' @ [quote] @ name @ [quote]"

definition content_type_line :: string where
  "content_type_line = ''Content-Type: application/octet-stream''"

definition chunk_of :: "part \<Rightarrow> byte list" where
  "chunk_of p = (case p of
      Text_part name v \<Rightarrow> crlf @ map byte_of_char (disposition name) @ crlf @ crlf @ utf8_encode v @ crlf
    | File_part name filename data \<Rightarrow> crlf @ map byte_of_char (disposition name @ ''; filename='' @ [quote] @ filename @ [quote]) @ crlf @
        map byte_of_char content_type_line @ crlf @ crlf @ data @ crlf)"

definition encode_form :: "string \<Rightarrow> part list \<Rightarrow> byte list" where
  "encode_form boundary ps = concat (map (\<lambda>p. delimiter boundary @ chunk_of p) ps) @ delimiter boundary @ dashes @ crlf"

definition plain_name :: "string \<Rightarrow> bool" where
  "plain_name s \<longleftrightarrow> valid_str s \<and> quote \<notin> set s \<and> CHR 0x0D \<notin> set s \<and> CHR 0x0A \<notin> set s"

definition part_ok :: "string \<Rightarrow> part \<Rightarrow> bool" where
  "part_ok boundary p \<longleftrightarrow> \<not> sublist (delimiter boundary) (chunk_of p) \<and> (case p of
      Text_part name v \<Rightarrow> plain_name name \<and> CHR ''='' \<notin> set name \<and> valid_str v
    | File_part name filename data \<Rightarrow> plain_name name \<and> CHR ''='' \<notin> set name \<and> plain_name filename \<and> filename \<noteq> [])"

definition boundary_ok :: "string \<Rightarrow> bool" where
  "boundary_ok b \<longleftrightarrow> b \<noteq> [] \<and> CHR 0x0A \<notin> set b \<and> CHR 0x0D \<notin> set b"

definition read_part :: "part \<Rightarrow> form \<Rightarrow> form" where
  "read_part p f = (case p of
      Text_part name v \<Rightarrow> f\<lparr>fm_fields := AList.update name v (fm_fields f)\<rparr>
    | File_part name filename data \<Rightarrow> f\<lparr>fm_file := Some (filename, data)\<rparr>)"

section \<open>Splitting\<close>

lemma window_sublist: "take n (drop i s) = d \<Longrightarrow> length d = n \<Longrightarrow> sublist d s"
  by (metis append_take_drop_id sublist_def)

lemma bsplit_absent: "\<not> sublist d s \<Longrightarrow> bsplit d s = [s]"
proof (induction d s rule: bsplit.induct)
  case (2 d b bs)
  have "take (length d) (b # bs) \<noteq> d" using 2(3) window_sublist [of "length d" 0 "b # bs" d] by auto
  moreover have "\<not> sublist d bs" using 2(3) by (meson sublist_Cons_right)
  ultimately show ?case using 2(2) by simp
qed simp

lemma bsplit_at: "(\<And>i. i < length x \<Longrightarrow> take (length d) (drop i (x @ d @ y)) \<noteq> d) \<Longrightarrow> d \<noteq> [] \<Longrightarrow>
    bsplit d (x @ d @ y) = x # bsplit d y"
proof (induction x)
  case Nil
  then show ?case by (cases d) simp_all
next
  case (Cons b x)
  have "take (length d) (drop i (x @ d @ y)) \<noteq> d" if "i < length x" for i
    using Cons.prems(1) [of "Suc i"] that by simp
  moreover have "take (length d) (b # x @ d @ y) \<noteq> d" using Cons.prems(1) [of 0] by simp
  ultimately show ?case using Cons.IH Cons.prems(2) by simp
qed

lemma window_within: "i + n \<le> length z \<Longrightarrow> take n (drop i (z @ r)) = take n (drop i z)"
  by simp

text \<open>A delimiter without a line feed is not found across the end of a chunk that ends with one.\<close>

lemma window_in_chunk:
  assumes "10 \<notin> set d" "\<not> sublist d (x @ [10])" "i < length (x @ [10])"
  shows "take (length d) (drop i ((x @ [10]) @ r)) \<noteq> (d :: byte list)"
proof
  let ?x = "x @ [10]"
  assume w: "take (length d) (drop i (?x @ r)) = d"
  show False
  proof (cases "i + length d \<le> length ?x")
    case True
    then have "take (length d) (drop i ?x) = d" using w window_within by metis
    then show False using assms(2) window_sublist by blast
  next
    case False
    let ?k = "length x - i"
    have k: "?k < length d" "i + ?k = length x" using False assms(3) by auto
    have "d ! ?k = (take (length d) (drop i (?x @ r))) ! ?k" using w by simp
    also have "\<dots> = (?x @ r) ! (i + ?k)"
      unfolding nth_take [OF k(1)] by (rule nth_drop) (use assms(3) in simp)
    also have "\<dots> = 10" using k(2) by (simp add: nth_append)
    finally have "10 \<in> set d" using k(1) by (metis nth_mem)
    with assms(1) show False by blast
  qed
qed

lemma chunk_ends: "\<exists>x. chunk_of p = x @ [10]"
  by (cases p) (simp_all add: chunk_of_def crlf_def)

lemma bsplit_form:
  assumes "boundary_ok b" "list_all (\<lambda>p. \<not> sublist (delimiter b) (chunk_of p)) ps"
  shows "bsplit (delimiter b) (encode_form b ps) = [] # map chunk_of ps @ [dashes @ crlf]"
proof -
  let ?d = "delimiter b"
  have nl: "10 \<notin> set ?d" "13 \<notin> set ?d" "3 \<le> length ?d"
  proof -
    have "byte_of_char c \<noteq> 10" "byte_of_char c \<noteq> 13" if "c \<in> set b" for c
    proof -
      have "char_of_byte 10 = CHR 0x0A" "char_of_byte 13 = CHR 0x0D" by code_simp+
      then show "byte_of_char c \<noteq> 10" "byte_of_char c \<noteq> 13"
        using that assms(1) char_of_byte_of_char [of c] by (metis boundary_ok_def)+
    qed
    then show "10 \<notin> set ?d" "13 \<notin> set ?d" by (auto simp: delimiter_def dashes_def)
    show "3 \<le> length ?d" using assms(1) by (cases b) (simp_all add: delimiter_def dashes_def boundary_ok_def)
  qed
  have closing: "bsplit ?d (dashes @ crlf) = [dashes @ crlf]"
  proof (rule bsplit_absent, rule notI)
    assume "sublist ?d (dashes @ crlf)"
    then obtain u v where "dashes @ crlf = u @ ?d @ v" by (auto simp: sublist_def)
    moreover obtain e1 e2 e3 e where "?d = e1 # e2 # e3 # e"
      using nl(3) by (metis One_nat_def Suc_le_length_iff numeral_3_eq_3)
    ultimately show False
      using nl(1,2) by (auto simp: dashes_def crlf_def Cons_eq_append_conv append_eq_Cons_conv)
  qed
  have rest: "bsplit ?d (tl_part @ ?d @ y) = tl_part # bsplit ?d y"
    if which: "tl_part = [] \<or> (\<exists>p \<in> set ps. tl_part = chunk_of p)" for tl_part y
  proof (cases "tl_part = []")
    case True
    then show ?thesis using nl(3) bsplit_at [of "[]" ?d y] by force
  next
    case False
    then obtain p where p: "p \<in> set ps" "tl_part = chunk_of p" using which by blast
    obtain x where x: "chunk_of p = x @ [10]" using chunk_ends by blast
    have "\<not> sublist ?d (x @ [10])" using assms(2) p(1) by (simp add: list_all_iff flip: x)
    with nl(1,3) show ?thesis
      unfolding p(2) x by (intro bsplit_at window_in_chunk) auto
  qed
  have "bsplit ?d (t @ concat (map (\<lambda>p. ?d @ chunk_of p) qs) @ ?d @ dashes @ crlf) = t # map chunk_of qs @ [dashes @ crlf]"
    if "set qs \<subseteq> set ps" "t = [] \<or> (\<exists>p \<in> set ps. t = chunk_of p)" for t qs
    using that
  proof (induction qs arbitrary: t)
    case Nil
    then show ?case using rest closing by simp
  next
    case (Cons q qs)
    have "bsplit ?d (t @ ?d @ chunk_of q @ concat (map (\<lambda>p. ?d @ chunk_of p) qs) @ ?d @ dashes @ crlf) =
        t # bsplit ?d (chunk_of q @ concat (map (\<lambda>p. ?d @ chunk_of p) qs) @ ?d @ dashes @ crlf)"
      using Cons.prems by (intro rest) blast
    also have "bsplit ?d (chunk_of q @ concat (map (\<lambda>p. ?d @ chunk_of p) qs) @ ?d @ dashes @ crlf) =
        chunk_of q # map chunk_of qs @ [dashes @ crlf]"
      using Cons.prems by (intro Cons.IH) auto
    finally show ?case by simp
  qed
  from this [of ps "[]"] show ?thesis by (simp add: encode_form_def)
qed

section \<open>Reading a part\<close>

lemma partition_skip: "13 \<notin> set h \<Longrightarrow>
    bpartition (crlf @ crlf) (h @ s) = map_option (\<lambda>(x, y). (h @ x, y)) (bpartition (crlf @ crlf) s)"
proof (induction h)
  case Nil
  then show ?case by (cases "bpartition (crlf @ crlf) s") auto
next
  case (Cons b h)
  then show ?case by (cases "bpartition (crlf @ crlf) s") (auto simp: crlf_def)
qed

lemma partition_here: "bpartition (crlf @ crlf) (crlf @ crlf @ r) = Some ([], r)"
  by (simp add: crlf_def)

lemma partition_line: "13 \<notin> set h \<Longrightarrow> bpartition (crlf @ crlf) (h @ crlf @ crlf @ r) = Some (h, r)"
  by (simp add: partition_skip partition_here del: append_assoc)

lemma partition_lines:
  assumes "13 \<notin> set h" "13 \<notin> set (x # k)"
  shows "bpartition (crlf @ crlf) (h @ crlf @ (x # k) @ crlf @ crlf @ r) = Some (h @ crlf @ x # k, r)"
proof -
  have "bpartition (crlf @ crlf) (crlf @ (x # k) @ crlf @ crlf @ r) = map_option (\<lambda>(u, v). (crlf @ u, v))
      (bpartition (crlf @ crlf) ((x # k) @ crlf @ crlf @ r))"
    using assms(2) by (cases "bpartition (crlf @ crlf) ((x # k) @ crlf @ crlf @ r)") (auto simp: crlf_def)
  also have "bpartition (crlf @ crlf) ((x # k) @ crlf @ crlf @ r) = Some (x # k, r)"
    using assms(2) by (rule partition_line)
  finally show ?thesis
    using partition_skip [OF assms(1), of "crlf @ (x # k) @ crlf @ crlf @ r"] by simp
qed

lemma char_cr: "byte_of_char c = 13 \<longleftrightarrow> c = CHR 0x0D"
proof -
  have "byte_of_char (CHR 0x0D) = 13" by code_simp
  then show ?thesis using char_of_byte_of_char by metis
qed

lemma no_cr: "CHR 0x0D \<notin> set s \<Longrightarrow> 13 \<notin> set (map byte_of_char s)"
  unfolding set_map image_iff using char_cr by metis

lemma chars_back [simp]: "map char_of_byte (map byte_of_char s) = s"
  by (simp add: o_def)

lemma decode_plain: "valid_str s \<Longrightarrow> decode_group s = s"
  using utf8_decode_encode [of s] by (simp add: decode_group_def utf8_encode_def)

text \<open>The searches through a header.\<close>

lemma lower_quote: "lower_char c = quote \<longleftrightarrow> c = quote" "lower_char c = CHR ''='' \<longleftrightarrow> c = CHR ''=''"
proof -
  have n: "(of_char quote :: nat) = 34" "(of_char (CHR ''='') :: nat) = 61" by (simp_all add: quote_def)
  have big: "lower_char c \<noteq> c \<Longrightarrow> 97 \<le> (of_char (lower_char c) :: nat)"
    by (auto simp: lower_char_def Let_def split: if_splits)
  show "lower_char c = quote \<longleftrightarrow> c = quote"
    using big n by (cases "lower_char c = c") (auto simp: lower_char_def Let_def)
  show "lower_char c = CHR ''='' \<longleftrightarrow> c = CHR ''=''"
    using big n by (cases "lower_char c = c") (auto simp: lower_char_def Let_def)
qed

lemma takeWhile_quote: "CHR 0x22 \<notin> set n \<Longrightarrow> takeWhile (\<lambda>x. x \<noteq> CHR 0x22) (n @ CHR 0x22 # t) = n"
  by (induction n) auto

lemma search_name: "quote \<notin> set name \<Longrightarrow> search_quoted name_key (disposition name @ t) = Some name"
  by (simp add: disposition_def name_key_def lower_def lower_char_def quote_def takeWhile_quote)

lemma search_skip:
  assumes "quote \<notin> set n" "CHR ''='' \<notin> set n"
  shows "search_quoted filename_key (n @ quote # t) = search_quoted filename_key (quote # t)"
  using assms
proof (induction n)
  case (Cons c n)
  have "lower (take (length filename_key) ((c # n) @ quote # t)) \<noteq> filename_key"
  proof
    assume m: "lower (take (length filename_key) ((c # n) @ quote # t)) = filename_key"
    have len: "length filename_key = 10" by (simp add: filename_key_def)
    have at: "filename_key ! i = lower_char (((c # n) @ quote # t) ! i)" if "i < 10" "i \<le> length (c # n)" for i
    proof -
      have "filename_key ! i = lower (take 10 ((c # n) @ quote # t)) ! i" using m len by simp
      also have "\<dots> = lower_char (take 10 ((c # n) @ quote # t) ! i)"
        unfolding lower_def by (rule nth_map) (use that in simp)
      also have "take 10 ((c # n) @ quote # t) ! i = ((c # n) @ quote # t) ! i" using that by (intro nth_take)
      finally show ?thesis .
    qed
    then have "filename_key ! length (c # n) = quote" if "length (c # n) < 10"
      using that by (simp add: lower_quote nth_append)
    moreover have "i = 9" if "filename_key ! i = quote" "i < 10" for i
      using that by (auto simp: filename_key_def quote_def less_Suc_eq numeral_eq_Suc)
    ultimately have "9 \<le> length (c # n)" by fastforce
    then have "filename_key ! 8 = lower_char ((c # n) ! 8)" and in_n: "(c # n) ! 8 \<in> set (c # n)"
      using at [of 8] nth_mem [of 8 "c # n"] by (simp_all add: nth_append)
    moreover have "filename_key ! 8 = CHR ''=''" by (simp add: filename_key_def)
    ultimately have "(c # n) ! 8 = CHR ''=''" by (metis lower_quote(2))
    with in_n Cons.prems(2) show False by metis
  qed
  with Cons show ?case by simp
qed simp

lemma search_header: "search_quoted filename_key (''Content-Disposition: form-data; name='' @ quote # s) = search_quoted filename_key s"
  by (simp add: filename_key_def lower_def lower_char_def quote_def)

lemma search_end: "search_quoted filename_key [quote] = None"
  by (simp add: filename_key_def quote_def)

lemma search_found: "quote \<notin> set f \<Longrightarrow> search_quoted filename_key (quote # ''; filename='' @ quote # f @ quote # t) = Some f"
  by (simp add: filename_key_def lower_def lower_char_def quote_def takeWhile_quote)

lemma search_filename:
  assumes "quote \<notin> set name" "CHR ''='' \<notin> set name"
  shows "search_quoted filename_key (disposition name) = None"
    "quote \<notin> set f \<Longrightarrow> search_quoted filename_key (disposition name @ ''; filename='' @ [quote] @ f @ [quote] @ t) = Some f"
  using search_skip [OF assms] search_header search_end search_found
  by (simp_all add: disposition_def)

lemma header_no_cr: "CHR 0x0D \<notin> set name \<Longrightarrow> CHR 0x0D \<notin> set (disposition name)"
  by (simp add: disposition_def quote_def)

lemma strip_crlf: "2 \<le> length (d @ crlf)" "drop (length (d @ crlf) - 2) (d @ crlf) = crlf" "take (length (d @ crlf) - 2) (d @ crlf) = d"
  by (simp_all add: crlf_def)

lemma parse_chunk:
  assumes "bpartition (crlf @ crlf) (h @ crlf @ crlf @ d @ crlf) = Some (map byte_of_char k, d @ crlf)"
  shows "parse_part (crlf @ h @ crlf @ crlf @ d @ crlf) f = (case search_quoted name_key k of
      None \<Rightarrow> f
    | Some name \<Rightarrow> (let text_field = f\<lparr>fm_fields := AList.update (decode_group name) (utf8_decode d) (fm_fields f)\<rparr>
        in case search_quoted filename_key k of
          Some g \<Rightarrow> if decode_group g \<noteq> [] then f\<lparr>fm_file := Some (decode_group g, d)\<rparr> else text_field
        | None \<Rightarrow> text_field))"
proof -
  have skip: "crlf @ h @ crlf @ crlf @ d @ crlf \<notin> set [[], dashes @ crlf, dashes, crlf]"
    "take 2 (crlf @ h @ crlf @ crlf @ d @ crlf) \<noteq> dashes" "take 2 (crlf @ h @ crlf @ crlf @ d @ crlf) = crlf"
    "drop 2 (crlf @ h @ crlf @ crlf @ d @ crlf) = h @ crlf @ crlf @ d @ crlf" "crlf \<noteq> dashes"
    by (simp_all add: crlf_def dashes_def)
  show ?thesis
    unfolding parse_part_def
    by (simp only: skip assms if_True if_False simp_thms option.case prod.case Let_def strip_crlf chars_back)
qed

lemma parse_part_reads:
  assumes "part_ok b p"
  shows "parse_part (chunk_of p) f = read_part p f"
proof (cases p)
  case (Text_part name v)
  have ok: "valid_str name" "quote \<notin> set name" "CHR 0x0D \<notin> set name" "CHR ''='' \<notin> set name" "valid_str v"
    using assms by (simp_all add: part_ok_def plain_name_def Text_part)
  have s: "search_quoted name_key (disposition name) = Some name"
    using search_name [of name "[]"] ok by simp
  show ?thesis
    unfolding Text_part chunk_of_def part.case
    by (subst parse_chunk [OF partition_line [OF no_cr [OF header_no_cr [OF ok(3)]]]])
      (simp add: s search_filename(1) [OF ok(2,4)] decode_plain [OF ok(1)] utf8_decode_encode [OF ok(5)] read_part_def)
next
  case (File_part name filename data)
  have ok: "valid_str name" "quote \<notin> set name" "CHR 0x0D \<notin> set name" "CHR ''='' \<notin> set name"
    "valid_str filename" "quote \<notin> set filename" "CHR 0x0D \<notin> set filename" "filename \<noteq> []"
    using assms by (simp_all add: part_ok_def plain_name_def File_part)
  let ?h = "disposition name @ ''; filename='' @ [quote] @ filename @ [quote]"
  let ?k = "?h @ [CHR 0x0D, CHR 0x0A] @ content_type_line"
  have h: "13 \<notin> set (map byte_of_char ?h)"
    using header_no_cr [OF ok(3)] ok(7) by (intro no_cr) (simp add: quote_def)
  obtain x k where ct: "map byte_of_char content_type_line = x # k" by (simp add: content_type_line_def)
  have "13 \<notin> set (map byte_of_char content_type_line)"
    by (intro no_cr) (simp add: content_type_line_def)
  from partition_lines [OF h, of x k "data @ crlf"] this
  have "bpartition (crlf @ crlf) ((map byte_of_char ?h @ crlf @ map byte_of_char content_type_line) @ crlf @ crlf @ data @ crlf) =
      Some (map byte_of_char ?h @ crlf @ map byte_of_char content_type_line, data @ crlf)"
    unfolding ct by simp
  moreover have "map byte_of_char ?h @ crlf @ map byte_of_char content_type_line = map byte_of_char ?k"
  proof -
    have "crlf = map byte_of_char [CHR 0x0D, CHR 0x0A]" by code_simp
    then show ?thesis by simp
  qed
  ultimately have part: "bpartition (crlf @ crlf) ((map byte_of_char ?h @ crlf @ map byte_of_char content_type_line) @ crlf @ crlf @ data @ crlf) =
      Some (map byte_of_char ?k, data @ crlf)" by simp
  have s: "search_quoted name_key ?k = Some name" "search_quoted filename_key ?k = Some filename"
    using search_name [of name] search_filename(2) [OF ok(2,4,6)] ok by simp_all
  have "chunk_of p = crlf @ (map byte_of_char ?h @ crlf @ map byte_of_char content_type_line) @ crlf @ crlf @ data @ crlf"
    by (simp add: File_part chunk_of_def)
  then show ?thesis
    unfolding File_part read_part_def part.case
    by (simp only: parse_chunk [OF part] s option.case Let_def decode_plain [OF ok(5)] ok(8) simp_thms if_True)
qed

lemma parse_closing: "parse_part [] f = f" "parse_part (dashes @ crlf) f = f"
  by (simp_all add: parse_part_def)

text \<open>
  C29: Uploads arrive as they were sent. For every form of text fields and files that is encoded the way the
  slicer encodes it - any file contents, any names without quotes and line ends, as long as the delimiter
  does not occur inside a part - parsing gives back the text fields, a repeated one with its last value, and
  the last file with its name and exactly its bytes.
\<close>
theorem form_roundtrip:
  assumes "boundary_ok b" "list_all (part_ok b) ps"
  shows "parse_multipart (encode_form b ps) b = Some (fold read_part ps \<lparr>fm_fields = [], fm_file = None\<rparr>)"
proof -
  have "list_all (\<lambda>p. \<not> sublist (delimiter b) (chunk_of p)) ps"
    using assms(2) by (simp add: list_all_iff part_ok_def)
  from bsplit_form [OF assms(1) this]
  have chunks: "bsplit (delimiter b) (encode_form b ps) = [] # map chunk_of ps @ [dashes @ crlf]" .
  have "fold parse_part (map chunk_of ps) f = fold read_part ps f" for f
    using assms(2) by (induction ps arbitrary: f) (simp_all add: parse_part_reads [of b])
  then show ?thesis
    using assms(1) by (simp add: parse_multipart_def chunks parse_closing boundary_ok_def)
qed

definition sample_parts :: "part list" where
  "sample_parts = [Text_part ''print'' ''true'', File_part ''file'' ''a.3mf'' [0, 13, 10, 45, 45, 255]]"

lemma form_roundtrip_witness:
  "parse_multipart (encode_form ''xYz'' sample_parts) ''xYz'' =
     Some \<lparr>fm_fields = [(''print'', ''true'')], fm_file = Some (''a.3mf'', [0, 13, 10, 45, 45, 255])\<rparr>"
proof -
  have "boundary_ok ''xYz''" by code_simp
  moreover have "list_all (part_ok ''xYz'') sample_parts" by code_simp
  ultimately show ?thesis
    by (simp add: form_roundtrip sample_parts_def read_part_def)
qed

end
