(* ===== verification/Ingest.thy ===== *)
theory Ingest
  imports Http Multipart
begin

text \<open>
  The upload endpoint, \<open>makeros_hub/ingest.py\<close>: a slicer posts a sliced file with the print token of a member; the
  file is spooled, the submission registered with the cloud, and the file discarded when it will not print.
  One request is a function of what the connection delivers and of the environment: the fresh submission id, the
  digest, whether the file system accepts the write, and the function that submits (\<open>None\<close>: it raises). The
  spool maps submission id and file name to the contents. Submissions are logged.
\<close>

section \<open>Requests\<close>

record request =
  rq_path :: string
  rq_api_key :: "string option"
  rq_content_type :: "string option"
  rq_length :: "string option"
  rq_host :: "string option"
  rq_stream :: "byte list"

record submission =
  sb_token :: string
  sb_uid :: string
  sb_file :: string
  sb_sha :: string
  sb_size :: nat
  sb_print :: bool

text \<open>How a write into the spool ends: complete, or with an error after a prefix of the file (\<open>None\<close>: no file).\<close>

datatype spool_write = Written | Write_failed "nat option"

record ingest_env =
  ie_uid :: string
  ie_digest :: "byte list \<Rightarrow> string"
  ie_write :: spool_write
  ie_discard_ok :: bool
  ie_submit :: "submission \<Rightarrow> (string \<times> pyval) list option"
  ie_max_bytes :: int

type_synonym spool = "(string \<times> string, byte list) odict"

record ingest =
  in_spool :: spool
  in_submitted :: "submission list"

type_synonym reply = "int \<times> (string \<times> pyval) list"

definition name_char :: "char \<Rightarrow> bool" where
  "name_char c \<longleftrightarrow> (let n = (of_char c :: nat) in (65 \<le> n \<and> n \<le> 90) \<or> (97 \<le> n \<and> n \<le> 122) \<or> (48 \<le> n \<and> n \<le> 57)) \<or>
     c \<in> set ''._-''"

text \<open>Every run of other characters becomes one underscore.\<close>

function clean_name :: "string \<Rightarrow> string" where
  "clean_name [] = []"
| "clean_name (c # cs) = (if name_char c then c # clean_name cs else CHR ''_'' # clean_name (dropWhile (\<lambda>x. \<not> name_char x) cs))"
  by pat_completeness auto
termination by (relation "measure length") (auto simp: le_imp_less_Suc length_dropWhile_le)

definition safe_filename :: "string \<Rightarrow> string" where
  "safe_filename name =
     (let base = basename (if name = [] then ''upload.bin'' else name);
          c = rstrip_by (\<lambda>x. x \<in> set ''._'') (lstrip_by (\<lambda>x. x \<in> set ''._'') (clean_name base))
      in take 200 (if c = [] then ''upload.bin'' else c))"

text \<open>Reading exactly the announced bytes in pieces of at most a mebibyte; \<open>None\<close> when the stream ends before.\<close>

function read_loop :: "nat \<Rightarrow> byte list \<Rightarrow> byte list \<Rightarrow> byte list option" where
  "read_loop remaining stream buf =
     (if remaining = 0 then Some buf
      else (let chunk = take (min remaining (2 ^ 20)) stream
        in if chunk = [] then None
           else read_loop (remaining - length chunk) (drop (length chunk) stream) (buf @ chunk)))"
  by pat_completeness auto
termination by (relation "measure (\<lambda>(remaining, stream, buf). remaining)") auto

declare read_loop.simps [simp del]

definition read_exact :: "nat \<Rightarrow> byte list \<Rightarrow> byte list option" where
  "read_exact n stream = read_loop n stream []"

section \<open>The handler\<close>

definition VERSION_BODY :: "(string \<times> pyval) list" where
  "VERSION_BODY = [(''api'', PStr ''0.1''), (''server'', PStr ''1.10.0''), (''text'', PStr ''OctoPrint 1.10.0 (MakerOS Hub)'')]"

definition error_reply :: "int \<Rightarrow> string \<Rightarrow> reply" where
  "error_reply status reason = (status, [(''error'', PStr reason)])"

definition rstrip_slash :: "string \<Rightarrow> string" where
  "rstrip_slash = rstrip_by (\<lambda>c. c = CHR ''/'')"

definition do_get :: "string \<Rightarrow> reply" where
  "do_get path =
     (if rstrip_slash path = ''/api/version'' then (200, VERSION_BODY)
      else if path = ''/'' \<or> path = ''/healthz'' then (200, [(''ok'', PBool True), (''service'', PStr ''makeros-hub-ingest'')])
      else error_reply 404 ''not_found'')"

definition content_length :: "request \<Rightarrow> int" where
  "content_length r = (case int_of_str (case rq_length r of Some s \<Rightarrow> s | None \<Rightarrow> ''0'') of Some n \<Rightarrow> n | None \<Rightarrow> 0)"

text \<open>The checks before anything is stored: the reply that refuses the request, or the token and the form.\<close>

definition read_upload :: "ingest_env \<Rightarrow> request \<Rightarrow> reply + string \<times> form \<times> string \<times> byte list" where
  "read_upload env r =
     (let token = strip (case rq_api_key r of Some k \<Rightarrow> k | None \<Rightarrow> []); n = content_length r in
      if rstrip_slash (takeWhile (\<lambda>c. c \<noteq> CHR ''?'') (rq_path r)) \<noteq> ''/api/files/local'' then Inl (error_reply 404 ''not_found'')
      else if token = [] then Inl (error_reply 403 ''missing_api_key'')
      else (case boundary_from_content_type (rq_content_type r) of
          None \<Rightarrow> Inl (error_reply 400 ''expected_multipart'')
        | Some b \<Rightarrow>
            if b = [] then Inl (error_reply 400 ''expected_multipart'')
            else if n \<le> 0 then Inl (error_reply 400 ''empty_body'')
            else if ie_max_bytes env < n then Inl (413, [(''error'', PStr ''file_too_large''), (''maxBytes'', PInt (ie_max_bytes env))])
            else (case read_exact (nat n) (rq_stream r) of
                None \<Rightarrow> Inl (error_reply 400 ''truncated_body'')
              | Some body \<Rightarrow> (case parse_multipart body b of
                    None \<Rightarrow> Inl (error_reply 400 ''bad_multipart'')
                  | Some f \<Rightarrow> (case fm_file f of
                        None \<Rightarrow> Inl (error_reply 400 ''no_file_field'')
                      | Some (filename, data) \<Rightarrow> Inr (token, f, filename, data))))))"

definition spool_put :: "spool_write \<Rightarrow> string \<times> string \<Rightarrow> byte list \<Rightarrow> spool \<Rightarrow> spool" where
  "spool_put w k data sp = (case w of
      Written \<Rightarrow> AList.update k data sp
    | Write_failed (Some n) \<Rightarrow> AList.update k (take n data) sp
    | Write_failed None \<Rightarrow> sp)"

definition discard_spool :: "bool \<Rightarrow> string \<Rightarrow> spool \<Rightarrow> spool" where
  "discard_spool ok uid sp = (if ok then filter (\<lambda>((u, _), _). u \<noteq> uid) sp else sp)"

definition created :: "string option \<Rightarrow> string \<Rightarrow> reply" where
  "created host0 file_name = (let host = (case host0 of Some h \<Rightarrow> h | None \<Rightarrow> ''hub'') in
     (201, [(''files'', PDict [(''local'', PDict [(''name'', PStr file_name), (''origin'', PStr ''local''), (''path'', PStr file_name),
        (''refs'', PDict [(''resource'', PStr (''http://'' @ host @ ''/api/files/local/'' @ file_name)),
           (''download'', PStr (''http://'' @ host @ ''/downloads/files/local/'' @ file_name))])])]), (''done'', PBool True)]))"

text \<open>What the outcome of the submission means for the file: kept or gone.\<close>

definition after_submit :: "string option \<Rightarrow> string \<Rightarrow> (string \<times> pyval) list \<Rightarrow> ingest \<Rightarrow> ingest \<Rightarrow> reply \<times> ingest" where
  "after_submit host file_name out kept gone =
     (if pget out ''status'' = PStr ''bad_token'' then (error_reply 403 ''invalid_api_key'', gone)
      else if pget out ''status'' = PStr ''error''
      then ((502, [(''error'', PStr ''cloud_error''), (''detail'', pget out ''detail'')]), gone)
      else (created host file_name, if pget out ''status'' = PStr ''rejected'' then gone else kept))"

definition do_post :: "ingest_env \<Rightarrow> request \<Rightarrow> ingest \<Rightarrow> reply \<times> ingest" where
  "do_post env r s = (case read_upload env r of
      Inl refused \<Rightarrow> (refused, s)
    | Inr (token, f, filename, data) \<Rightarrow>
        (let file_name = safe_filename filename; uid = ie_uid env; k = (uid, file_name);
             s1 = s\<lparr>in_spool := spool_put (ie_write env) k data (in_spool s)\<rparr>;
             sub = \<lparr>sb_token = token, sb_uid = uid, sb_file = file_name, sb_sha = ie_digest env data, sb_size = length data,
               sb_print = (lower (get_or (fm_fields f) ''print'' ''false'') = ''true'')\<rparr>;
             s2 = s1\<lparr>in_submitted := in_submitted s @ [sub]\<rparr>;
             dropped = s2\<lparr>in_spool := discard_spool (ie_discard_ok env) uid (in_spool s1)\<rparr>
         in if ie_write env \<noteq> Written then (error_reply 507 ''spool_write_failed'', s1)
            else (case ie_submit env sub of
                None \<Rightarrow> (error_reply 502 ''cloud_unreachable'', s2)
              | Some out \<Rightarrow> after_submit (rq_host r) file_name out s2 dropped)))"

section \<open>Reading and naming\<close>

lemma read_loop_exact: "read_loop n stream buf = (if n \<le> length stream then Some (buf @ take n stream) else None)"
proof (induction n stream buf rule: read_loop.induct)
  case (1 n stream buf)
  let ?chunk = "take (min n (2 ^ 20)) stream"
  show ?case
  proof (cases "n = 0 \<or> ?chunk = []")
    case True
    then show ?thesis by (auto simp: read_loop.simps)
  next
    case False
    then have n: "n \<noteq> 0" "?chunk \<noteq> []" by simp_all
    let ?k = "length ?chunk"
    have k: "?k \<le> n" "?k \<le> length stream" "?chunk = take ?k stream" by (simp_all add: min_def)
    have "read_loop n stream buf = read_loop (n - ?k) (drop ?k stream) (buf @ ?chunk)"
      using n by (simp only: read_loop.simps [of n] if_False Let_def)
    also have "\<dots> = (if n - ?k \<le> length (drop ?k stream) then Some ((buf @ ?chunk) @ take (n - ?k) (drop ?k stream)) else None)"
      using 1 [OF n(1) refl n(2)] .
    also have "?chunk @ take (n - ?k) (drop ?k stream) = take n stream"
      using k by (metis le_add_diff_inverse take_add)
    then have "(buf @ ?chunk) @ take (n - ?k) (drop ?k stream) = buf @ take n stream" by simp
    also have "n - ?k \<le> length (drop ?k stream) \<longleftrightarrow> n \<le> length stream"
      using le_diff_iff [OF k(1,2)] by (simp only: length_drop)
    finally show ?thesis .
  qed
qed

lemma read_exact_append: "n = length body \<Longrightarrow> read_exact n (body @ rest) = Some body"
  by (simp add: read_exact_def read_loop_exact)

lemma clean_name_chars: "list_all name_char (clean_name s)"
  by (induction s rule: clean_name.induct) (simp_all add: name_char_def)

lemma set_strip_by: "set (rstrip_by P (lstrip_by P s)) \<subseteq> set s"
  by (auto simp: rstrip_by_def lstrip_by_def dest!: set_dropWhileD)

lemma hd_strip_by: "rstrip_by P (lstrip_by P s) \<noteq> [] \<Longrightarrow> \<not> P (hd (rstrip_by P (lstrip_by P s)))"
proof -
  let ?l = "dropWhile P s" and ?d = "dropWhile P (rev (dropWhile P s))"
  assume "rstrip_by P (lstrip_by P s) \<noteq> []"
  then have d: "?d \<noteq> []" by (simp add: rstrip_by_def lstrip_by_def)
  have "rev ?l = takeWhile P (rev ?l) @ ?d" by simp
  then have "?l = rev ?d @ rev (takeWhile P (rev ?l))" by (metis rev_append rev_rev_ident)
  then have "hd ?l = hd (rev ?d)" "?l \<noteq> []" using d by (metis hd_append2 rev_is_Nil_conv, force)
  then show ?thesis using hd_dropWhile [of P s] by (simp add: rstrip_by_def lstrip_by_def)
qed

text \<open>The name a file is spooled under is one plain path component.\<close>

lemma safe_filename_ok:
  "safe_filename name \<noteq> [] \<and> length (safe_filename name) \<le> 200 \<and> list_all name_char (safe_filename name) \<and>
   safe_filename name \<notin> {''.'', ''..''} \<and> CHR ''/'' \<notin> set (safe_filename name)"
proof -
  define c where "c = rstrip_by (\<lambda>x. x \<in> set ''._'') (lstrip_by (\<lambda>x. x \<in> set ''._'')
      (clean_name (basename (if name = [] then ''upload.bin'' else name))))"
  have f: "safe_filename name = take 200 (if c = [] then ''upload.bin'' else c)"
    by (simp add: safe_filename_def c_def)
  have chars: "list_all name_char c"
    using set_strip_by clean_name_chars unfolding c_def list_all_iff by blast
  have first: "hd c \<notin> set ''._''" if "c \<noteq> []"
    using that hd_strip_by unfolding c_def by blast
  have upload: "list_all name_char ''upload.bin''" by code_simp
  have all: "list_all name_char (safe_filename name)"
    using chars upload unfolding f list_all_iff by (cases "c = []") (auto dest: in_set_takeD)
  have ne: "safe_filename name \<noteq> []" by (simp add: f)
  have "hd (safe_filename name) \<notin> set ''._''"
    using first by (simp add: f hd_take)
  then have "safe_filename name \<notin> {''.'', ''..''}" using ne by auto
  moreover have "CHR ''/'' \<notin> set (safe_filename name)"
  proof
    assume "CHR ''/'' \<in> set (safe_filename name)"
    then have "name_char (CHR ''/'')" using all by (simp add: list_all_iff)
    moreover have "\<not> name_char (CHR ''/'')" by code_simp
    ultimately show False by blast
  qed
  ultimately show ?thesis using ne all by (simp add: f)
qed

section \<open>Only what will print stays\<close>

lemma update_fresh: "k \<notin> set (keys d) \<Longrightarrow> AList.update k v d = d @ [(k, v)]"
  by (induction d) auto

lemma refused_changes_nothing: "read_upload env r = Inl refused \<Longrightarrow> do_post env r s = (refused, s)"
  by (simp add: do_post_def)

text \<open>Submitting to the cloud as the agent does: one POST with two retries.\<close>

definition cloud_submission :: "(string \<Rightarrow> pyval option) \<Rightarrow> (nat \<Rightarrow> wire) \<Rightarrow> (nat \<Rightarrow> real) \<Rightarrow> (string \<times> pyval) list option" where
  "cloud_submission loads server jitter = cloud_submit (as_response (fst (post_json loads server 2 1 jitter)))"

definition form_of :: "part list \<Rightarrow> form" where
  "form_of ps = fold read_part ps \<lparr>fm_fields = [], fm_file = None\<rparr>"

text \<open>The request of a slicer.\<close>

definition slicer_request :: "string \<Rightarrow> string \<Rightarrow> part list \<Rightarrow> request" where
  "slicer_request token b ps = \<lparr>rq_path = ''/api/files/local'', rq_api_key = Some token,
     rq_content_type = Some (''multipart/form-data; boundary='' @ b), rq_length = Some (int_str (int (length (encode_form b ps)))),
     rq_host = None, rq_stream = encode_form b ps\<rparr>"

definition token_boundary :: "string \<Rightarrow> bool" where
  "token_boundary b \<longleftrightarrow> boundary_ok b \<and> quote \<notin> set b \<and> CHR '';'' \<notin> set b \<and> strip b = b"

lemma boundary_header:
  assumes "token_boundary b"
  shows "boundary_from_content_type (Some (''multipart/form-data; boundary='' @ b)) = Some b"
proof -
  have b: "b \<noteq> []" "quote \<notin> set b" "CHR '';'' \<notin> set b" "strip b = b"
    using assms by (simp_all add: token_boundary_def boundary_ok_def)
  have t: "takeWhile (\<lambda>c. c \<noteq> CHR '';'') b = b" using b(3) by (auto simp: takeWhile_eq_all_conv)
  have "hd b \<noteq> quote" using b(1,2) by (cases b) auto
  then have v: "boundary_value b = Some b" using b(1) by (simp add: boundary_value_def Let_def t)
  have "find_boundary (''multipart/form-data; boundary='' @ b) = Some b"
    by (simp add: lower_def lower_char_def v)
  moreover have "contains ''multipart/form-data'' (lower (''multipart/form-data; boundary='' @ b))"
    by (simp add: lower_def lower_char_def startswith_def)
  ultimately show ?thesis by (simp add: boundary_from_content_type_def b(4))
qed

lemma slicer_upload_read:
  assumes "token_boundary b" "list_all (part_ok b) ps" "strip token \<noteq> []" "fm_file (form_of ps) = Some (name, data)"
    "int (length (encode_form b ps)) \<le> ie_max_bytes env"
  shows "read_upload env (slicer_request token b ps) = Inr (strip token, form_of ps, name, data)"
proof -
  let ?e = "encode_form b ps"
  have ok: "boundary_ok b" "b \<noteq> []" using assms(1) by (simp_all add: token_boundary_def boundary_ok_def)
  have "?e \<noteq> []" by (simp add: encode_form_def dashes_def)
  then have n: "content_length (slicer_request token b ps) = int (length ?e)" "\<not> int (length ?e) \<le> 0"
    by (simp_all add: content_length_def slicer_request_def)
  have p: "rstrip_slash (takeWhile (\<lambda>c. c \<noteq> CHR ''?'') ''/api/files/local'') = ''/api/files/local''" by code_simp
  have r: "read_exact (length ?e) ?e = Some ?e" using read_exact_append [of "length ?e" ?e "[]"] by simp
  show ?thesis
    using n p r assms(3-5) form_roundtrip [OF ok(1) assms(2)] boundary_header [OF assms(1)] ok(2)
    by (simp add: read_upload_def Let_def form_of_def slicer_request_def)
qed

definition queued :: "http_result \<Rightarrow> bool" where
  "queued res \<longleftrightarrow> (case res of Inr (status, d) \<Rightarrow> status = 200 \<and> truthy (pget d ''ok'') | Inl e \<Rightarrow> False)"

lemma outcome_of_cloud:
  "cloud_submission loads server jitter = None \<longleftrightarrow> fst (post_json loads server 2 1 jitter) = Inl Uncaught"
  "cloud_submission loads server jitter = Some out \<Longrightarrow>
     (pget out ''status'' \<in> {PStr ''bad_token'', PStr ''error'', PStr ''rejected''}) \<longleftrightarrow> \<not> queued (fst (post_json loads server 2 1 jitter))"
  by (auto simp: cloud_submission_def as_response_def cloud_submit_def queued_def pget_def get_or_def
      split: sum.splits transport_error.splits prod.splits if_splits)

lemma cloud_submit_status:
  "cloud_submit Escapes = None"
  "cloud_submit Transport \<noteq> None" "pget (the (cloud_submit Transport)) ''status'' = PStr ''error''"
  "cloud_submit (Response st d) \<noteq> None" "pget (the (cloud_submit (Response st d))) ''status'' = (if st = 200 then (if truthy (pget d ''ok'') then PStr ''queued'' else PStr ''rejected'')
     else if st = 401 then PStr ''bad_token'' else PStr ''error'')"
  by (simp_all add: cloud_submit_def pget_def get_or_def)

lemma upload_outcome:
  assumes "token_boundary b" "list_all (part_ok b) ps" "strip token \<noteq> []" "fm_file (form_of ps) = Some (name, data)"
    "int (length (encode_form b ps)) \<le> ie_max_bytes env" "ie_write env = Written" "ie_discard_ok env"
    "\<And>sub. ie_submit env sub = cloud_submission loads (server sub) jitter" "ie_uid env \<notin> fst ` set (keys (in_spool s))"
  shows "\<exists>sub status body s'. do_post env (slicer_request token b ps) s = ((status, body), s') \<and>
    in_submitted s' = in_submitted s @ [sub] \<and> sb_token sub = strip token \<and> sb_uid sub = ie_uid env \<and>
    sb_file sub = safe_filename name \<and> sb_sha sub = ie_digest env data \<and> sb_size sub = length data \<and>
    (let res = fst (post_json loads (server sub) 2 1 jitter) in
      in_spool s' = (if queued res \<or> res = Inl Uncaught then in_spool s @ [((ie_uid env, safe_filename name), data)] else in_spool s) \<and>
      (status = 201 \<longleftrightarrow> (\<exists>d. res = Inr (200, d))))"
proof -
  let ?k = "(ie_uid env, safe_filename name)"
  define sub where "sub = \<lparr>sb_token = strip token, sb_uid = ie_uid env, sb_file = safe_filename name, sb_sha = ie_digest env data,
      sb_size = length data, sb_print = (lower (get_or (fm_fields (form_of ps)) ''print'' ''false'') = ''true'')\<rparr>"
  have fresh: "?k \<notin> set (keys (in_spool s))" using assms(9) by (force simp: image_iff)
  have put: "AList.update ?k data (in_spool s) = in_spool s @ [(?k, data)]"
    by (rule update_fresh) (rule fresh)
  have drop: "discard_spool True (ie_uid env) (in_spool s @ [(?k, data)]) = in_spool s"
    using assms(9) by (force simp: discard_spool_def filter_id_conv keys_def image_iff)
  let ?res = "fst (post_json loads (server sub) 2 1 jitter)"
  let ?kept = "s\<lparr>in_spool := in_spool s @ [(?k, data)], in_submitted := in_submitted s @ [sub]\<rparr>"
  let ?gone = "s\<lparr>in_submitted := in_submitted s @ [sub]\<rparr>"
  have post: "do_post env (slicer_request token b ps) s = (case cloud_submit (as_response ?res) of
      None \<Rightarrow> (error_reply 502 ''cloud_unreachable'', ?kept)
    | Some out \<Rightarrow> after_submit None (safe_filename name) out ?kept ?gone)"
  proof -
    have "do_post env (slicer_request token b ps) s = (case ie_submit env sub of
        None \<Rightarrow> (error_reply 502 ''cloud_unreachable'', ?kept)
      | Some out \<Rightarrow> after_submit None (safe_filename name) out ?kept ?gone)"
      using slicer_upload_read [OF assms(1-5)] assms(6,7) put drop
      by (cases "ie_submit env sub")
        (simp_all add: do_post_def spool_put_def Let_def slicer_request_def after_submit_def flip: sub_def)
    then show ?thesis
      by (simp add: assms(8) cloud_submission_def)
  qed
  have sub: "sb_token sub = strip token" "sb_uid sub = ie_uid env" "sb_file sub = safe_filename name" "sb_sha sub = ie_digest env data"
    "sb_size sub = length data" by (simp_all add: sub_def)
  show ?thesis
  proof (cases ?res)
    case (Inl e)
    then show ?thesis
      using post sub by (cases e) (auto simp: as_response_def after_submit_def cloud_submit_status option.case_eq_if error_reply_def queued_def)
  next
    case (Inr sd)
    obtain st d where sd: "sd = (st, d)" by (rule prod.exhaust)
    show ?thesis
      using post sub
      by (auto simp: Inr sd as_response_def after_submit_def cloud_submit_status option.case_eq_if error_reply_def queued_def created_def Let_def)
  qed
qed

text \<open>
  C30: An upload reaches the spool exactly as the member sent it, and stays there only if it will print. For every
  form a slicer posts with a token and within the size limit, whatever the cloud answers: one submission is made,
  with the token, the digest and the size of exactly the bytes of the file; the file is kept under the fresh
  submission id and a plain path component as its name iff the cloud queued the job (an answer 200 with a true
  ok) - or the submission raised an exception the transport does not name; otherwise the spool is as before. The
  slicer is told 201 iff the cloud queued or rejected the job.
\<close>
theorem upload_kept_iff_queued:
  assumes "token_boundary b" "list_all (part_ok b) ps" "strip token \<noteq> []" "fm_file (form_of ps) = Some (name, data)"
    "int (length (encode_form b ps)) \<le> ie_max_bytes env" "ie_write env = Written" "ie_discard_ok env"
    "\<And>sub. ie_submit env sub = cloud_submission loads (server sub) jitter" "ie_uid env \<notin> fst ` set (keys (in_spool s))"
  shows "\<exists>sub status body s'. do_post env (slicer_request token b ps) s = ((status, body), s') \<and>
    in_submitted s' = in_submitted s @ [sub] \<and> sb_token sub = strip token \<and> sb_uid sub = ie_uid env \<and>
    sb_file sub = safe_filename name \<and> sb_sha sub = ie_digest env data \<and> sb_size sub = length data \<and>
    (let res = fst (post_json loads (server sub) 2 1 jitter) in
      in_spool s' = (if queued res \<or> res = Inl Uncaught then in_spool s @ [((ie_uid env, safe_filename name), data)] else in_spool s) \<and>
      (status = 201 \<longleftrightarrow> (\<exists>d. res = Inr (200, d))))"
  using assms by (rule upload_outcome)

definition sample_ingest :: "(nat \<Rightarrow> wire) \<Rightarrow> ingest_env" where
  "sample_ingest server = \<lparr>ie_uid = ''u1'', ie_digest = (\<lambda>_. ''sha''), ie_write = Written, ie_discard_ok = True,
     ie_submit = (\<lambda>_. cloud_submission (\<lambda>_. Some (PDict [(''ok'', PBool True)])) server (\<lambda>_. 0)), ie_max_bytes = 1000\<rparr>"

lemma sample_upload: "token_boundary ''xYz''" "list_all (part_ok ''xYz'') sample_parts" "strip ''t'' \<noteq> []"
  "fm_file (form_of sample_parts) = Some (''a.3mf'', [0, 13, 10, 45, 45, 255])"
  "int (length (encode_form ''xYz'' sample_parts)) \<le> ie_max_bytes (sample_ingest server)"
  "safe_filename ''a.3mf'' = ''a.3mf''"
proof -
  have "int (length (encode_form ''xYz'' sample_parts)) \<le> 1000" by code_simp
  then show "int (length (encode_form ''xYz'' sample_parts)) \<le> ie_max_bytes (sample_ingest server)"
    by (simp add: sample_ingest_def)
qed code_simp+

definition empty_ingest :: ingest where
  "empty_ingest = \<lparr>in_spool = [], in_submitted = []\<rparr>"

lemma upload_kept_iff_queued_witness:
  "in_spool (snd (do_post (sample_ingest (\<lambda>_. Answer 200 [123])) (slicer_request ''t'' ''xYz'' sample_parts) empty_ingest)) =
     [((''u1'', ''a.3mf''), [0, 13, 10, 45, 45, 255])]"
proof -
  let ?loads = "\<lambda>_. Some (PDict [(''ok'', PBool True)])" and ?server = "\<lambda>_ :: nat. Answer 200 [123]"
  have ok: "utf8_ok [123]" by code_simp
  have "fst (post_json ?loads ?server 2 1 (\<lambda>_. 0)) = Inr (200, [(''ok'', PBool True)])"
    by (simp add: post_json_def post_loop.simps attempt_result_def read_capped_def MAX_RESPONSE_BYTES_def parse_response_def json_of_def ok del: utf8_ok.simps)
  then have "queued (fst (post_json ?loads ?server 2 1 (\<lambda>_. 0)))" by (simp add: queued_def pget_def get_or_def)
  with upload_kept_iff_queued [OF sample_upload(1-5), of ?server ?loads "\<lambda>_. ?server" "\<lambda>_. 0" empty_ingest] sample_upload(6)
  show ?thesis by (auto simp: sample_ingest_def empty_ingest_def Let_def)
qed

text \<open>Two ends of a submission the handler treats alike or not at all. When the transport lets an exception
  through, the file stays although no job is known to exist; and when every answer is lost, the file goes,
  although the cloud may have queued the job on a request that reached it.\<close>

lemma uncaught_submit_leaks_upload:
  "in_spool (snd (do_post (sample_ingest (\<lambda>_. Unexpected)) (slicer_request ''t'' ''xYz'' sample_parts) empty_ingest)) =
     [((''u1'', ''a.3mf''), [0, 13, 10, 45, 45, 255])]"
  using upload_outcome [OF sample_upload(1-5), of "\<lambda>_. Unexpected" "\<lambda>_. Some (PDict [(''ok'', PBool True)])" "\<lambda>_ _. Unexpected" "\<lambda>_. 0"
      empty_ingest] sample_upload(6)
  by (auto simp: sample_ingest_def empty_ingest_def Let_def unexpected_is_not_retried)

lemma lost_answer_discards_upload:
  "in_spool (snd (do_post (sample_ingest (\<lambda>_. Network)) (slicer_request ''t'' ''xYz'' sample_parts) empty_ingest)) = []"
proof -
  have "fst (post_json loads (\<lambda>_. Network) 2 1 jitter) = Inl Transport_failure" for loads jitter
    using post_loop_spec [of loads "\<lambda>_. Network" 2 1 jitter 0] by (simp add: post_json_def get_json_def)
  then show ?thesis
    using upload_outcome [OF sample_upload(1-5), of "\<lambda>_. Network" "\<lambda>_. Some (PDict [(''ok'', PBool True)])" "\<lambda>_ _. Network" "\<lambda>_. 0"
        empty_ingest] sample_upload(6)
    by (auto simp: sample_ingest_def empty_ingest_def Let_def queued_def)
qed

end
