(* ===== verification/Report.thy ===== *)
theory Report
  imports BambuParse
begin

text \<open>
  What a virtual printer tells the slicer, \<open>makeros_hub/vprinter/report.py\<close>: the status report with the trays of
  its pool, the list of modules, and the answer to a print command. Identifiers are derived from the serial
  with a digest, which is a parameter. Reports are the dictionaries the source builds.
\<close>

section \<open>Identifiers\<close>

definition derive_hex :: "(string \<Rightarrow> string) \<Rightarrow> string \<Rightarrow> string \<Rightarrow> int \<Rightarrow> nat \<Rightarrow> bool \<Rightarrow> string" where
  "derive_hex sha serial tag idx n up =
     (let digest = take n (sha (serial @ '':'' @ tag @ '':'' @ int_str idx)) in if up then upper digest else digest)"

definition ams_unit_serial :: "(string \<Rightarrow> string) \<Rightarrow> string \<Rightarrow> int \<Rightarrow> string" where
  "ams_unit_serial sha serial idx = derive_hex sha serial ''ams'' idx 15 True"

definition ams_chip_id :: "(string \<Rightarrow> string) \<Rightarrow> string \<Rightarrow> int \<Rightarrow> string" where
  "ams_chip_id sha serial idx = derive_hex sha serial ''chip'' idx 31 False"

definition module_serial :: "(string \<Rightarrow> string) \<Rightarrow> string \<Rightarrow> string \<Rightarrow> string" where
  "module_serial sha serial name = derive_hex sha serial (''mod:'' @ name) 0 15 True"

section \<open>Bit masks\<close>

definition hex_digit :: "nat \<Rightarrow> char" where
  "hex_digit d = ''0123456789abcdef'' ! d"

fun nat_hex :: "nat \<Rightarrow> string" where
  "nat_hex n = (if n < 16 then [hex_digit n] else nat_hex (n div 16) @ [hex_digit (n mod 16)])"

declare nat_hex.simps [simp del]

definition bitmask_hex :: "int \<Rightarrow> string" where
  "bitmask_hex bit_count = (if bit_count \<le> 0 then ''0'' else nat_hex (2 ^ nat bit_count - 1))"

definition bits_from_indices :: "nat list \<Rightarrow> string" where
  "bits_from_indices is = nat_hex (fold (\<lambda>i m. or m (2 ^ i)) is 0)"

section \<open>Trays\<close>

definition hex_text :: "string \<Rightarrow> bool" where
  "hex_text s \<longleftrightarrow> list_all (\<lambda>c. c \<in> set ''0123456789ABCDEF'') s"

definition normalize_color :: "string \<Rightarrow> string" where
  "normalize_color value =
     (let cleaned = upper (dropWhile (\<lambda>c. c = CHR ''#'') (strip value))
      in if py_len cleaned = 6 \<and> hex_text cleaned then cleaned @ ''FF''
         else if py_len cleaned = 8 \<and> hex_text cleaned then cleaned
         else ''FFFFFFFF'')"

definition REAL_TRAY_DEFAULTS :: "(string \<times> pyval) list" where
  "REAL_TRAY_DEFAULTS = [(''bed_temp'', PStr ''0''), (''bed_temp_type'', PStr ''0''), (''cali_idx'', PInt (-1)), (''ctype'', PInt 0),
     (''k'', PFloat (1/50)), (''n'', PInt 1), (''state'', PInt 3), (''total_len'', PInt 330000), (''tray_diameter'', PStr ''0.00''),
     (''tray_id_name'', PStr []), (''tray_temp'', PStr ''0''), (''tray_time'', PStr ''0''), (''tray_weight'', PStr ''0''),
     (''xcam_info'', PStr ''000000000000000000000000'')]"

definition with_defaults :: "(string \<times> pyval) list \<Rightarrow> (string \<times> pyval) list \<Rightarrow> (string \<times> pyval) list" where
  "with_defaults ds t = fold (\<lambda>(k, v). setdefault k v) ds t"

definition with_real_tray_shape :: "(string \<times> pyval) list \<Rightarrow> (string \<times> pyval) list" where
  "with_real_tray_shape t = with_defaults REAL_TRAY_DEFAULTS t"

definition empty_tray :: "nat \<Rightarrow> (string \<times> pyval) list" where
  "empty_tray slot = [(''id'', PStr (nat_str slot))]"

definition MATERIALS :: "(string \<times> string \<times> string \<times> string \<times> string) list" where
  "MATERIALS = [(''PLA'', ''GFA00'', ''Generic PLA'', ''190'', ''230''), (''PETG'', ''GFG00'', ''Generic PETG'', ''230'', ''260''),
     (''ABS'', ''GFB00'', ''Generic ABS'', ''240'', ''270''), (''TPU'', ''GFU00'', ''Generic TPU'', ''210'', ''240''),
     (''ASA'', ''GFA01'', ''Generic ASA'', ''240'', ''270''), (''PA'', ''GFN00'', ''Generic PA'', ''260'', ''290''),
     (''PC'', ''GFC00'', ''Generic PC'', ''260'', ''300''), (''PLA-CF'', ''GFA11'', ''Generic PLA-CF'', ''200'', ''240'')]"

definition no_tag :: pyval where
  "no_tag = PStr ''00000000000000000000000000000000''"

definition synthetic_tray :: "nat \<Rightarrow> nat \<Rightarrow> string \<Rightarrow> (string \<times> pyval) list" where
  "synthetic_tray global_idx slot color =
     (let (material, info_idx, brand, min_temp, max_temp) = MATERIALS ! (global_idx mod length MATERIALS)
      in with_real_tray_shape [(''id'', PStr (nat_str slot)), (''tray_type'', PStr material), (''tray_info_idx'', PStr info_idx),
           (''tray_sub_brands'', PStr brand), (''tray_color'', PStr color), (''cols'', PList [PStr color]),
           (''nozzle_temp_min'', PStr min_temp), (''nozzle_temp_max'', PStr max_temp), (''remain'', PInt 100),
           (''tag_uid'', PStr (''vp-'' @ nat_str global_idx)), (''tray_uuid'', no_tag)])"

definition coerce_pool_tray :: "(pyval \<Rightarrow> string) \<Rightarrow> (string \<times> pyval) list \<Rightarrow> nat \<Rightarrow> (string \<times> pyval) list" where
  "coerce_pool_tray rep tray slot =
     (let alias = (\<lambda>key other d. if map_of d key = None \<and> is_str (pget d other) then AList.update key (pget d other) d else d);
          item = alias ''tray_color'' ''color'' (alias ''tray_type'' ''material'' (AList.update ''id'' (PStr (nat_str slot)) tray));
          color = normalize_color (py_str rep (get_or item ''tray_color'' (PStr ''FFFFFFFF'')));
          colored = AList.update ''tray_color'' (PStr color) item;
          full = AList.update ''cols'' (case pget colored ''cols'' of PList (x # xs) \<Rightarrow> PList (x # xs) | _ \<Rightarrow> PList [PStr color]) colored
      in with_real_tray_shape (with_defaults [(''tray_info_idx'', PStr []), (''tray_sub_brands'', PStr []), (''nozzle_temp_min'', PStr ''190''),
           (''nozzle_temp_max'', PStr ''230''), (''remain'', PInt (-1)), (''tag_uid'', PStr ''0000000000000000''), (''tray_uuid'', no_tag)] full))"

section \<open>Colours of the synthetic trays\<close>

text \<open>\<open>colorsys.hsv_to_rgb\<close> over the reals.\<close>

definition hsv_to_rgb :: "real \<Rightarrow> real \<Rightarrow> real \<Rightarrow> real \<times> real \<times> real" where
  "hsv_to_rgb h s v =
     (if s = 0 then (v, v, v)
      else (let i = trunc_real (h * 6); f = h * 6 - of_int i; p = v * (1 - s); q = v * (1 - s * f); t = v * (1 - s * (1 - f))
        in if i mod 6 = 0 then (v, t, p) else if i mod 6 = 1 then (q, v, p) else if i mod 6 = 2 then (p, v, t)
           else if i mod 6 = 3 then (p, q, v) else if i mod 6 = 4 then (t, p, v) else (v, p, q)))"

definition hex2 :: "int \<Rightarrow> string" where
  "hex2 n = (let s = upper (nat_hex (nat n)) in if length s < 2 then CHR ''0'' # s else s)"

definition next_hue :: "real \<Rightarrow> real" where
  "next_hue hue = (let x = hue + 618033988749895 / 10 ^ 15 in x - of_int \<lfloor>x\<rfloor>)"

definition color_at :: "real \<Rightarrow> nat \<Rightarrow> string" where
  "color_at hue idx =
     (let saturation = 7/10 + 2/10 * of_nat (idx mod 3) / 2; value = 78/100 + 17/100 * of_nat ((idx + 1) mod 4) / 3;
          (r, g, b) = hsv_to_rgb hue saturation value
      in hex2 (py_round (r * 255)) @ hex2 (py_round (g * 255)) @ hex2 (py_round (b * 255)) @ ''FF'')"

fun color_loop :: "nat \<Rightarrow> nat \<Rightarrow> real \<Rightarrow> string list" where
  "color_loop 0 idx hue = []"
| "color_loop (Suc n) idx hue = (let h = next_hue hue in color_at h idx # color_loop n (idx + 1) h)"

definition generate_colors :: "int \<Rightarrow> string list" where
  "generate_colors count = color_loop (nat count) 0 0"

section \<open>The reports\<close>

record report_args =
  ra_units :: int
  ra_trays :: int
  ra_sequence :: pyval
  ra_filaments :: "(string \<times> pyval) list list option"
  ra_gcode_state :: string
  ra_gcode_file :: string
  ra_prepare :: string
  ra_version :: int
  ra_serial :: string

definition subtask_of :: "string \<Rightarrow> string" where
  "subtask_of f = (if endswith ''.3mf'' f then take (length f - 4) f else f)"

definition slot_tray :: "(pyval \<Rightarrow> string) \<Rightarrow> string list \<Rightarrow> (string \<times> pyval) list list option \<Rightarrow> nat \<Rightarrow> nat \<Rightarrow> (string \<times> pyval) list" where
  "slot_tray rep colors filaments global_idx tray_idx = (case filaments of
      None \<Rightarrow> synthetic_tray global_idx tray_idx (colors ! global_idx)
    | Some pool \<Rightarrow> if global_idx < length pool then coerce_pool_tray rep (pool ! global_idx) tray_idx else empty_tray tray_idx)"

definition filled_slots :: "(string \<times> pyval) list list option \<Rightarrow> nat \<Rightarrow> nat list" where
  "filled_slots filaments total_trays = (case filaments of
      None \<Rightarrow> [0..<total_trays] | Some pool \<Rightarrow> filter (\<lambda>i. i < length pool) [0..<total_trays])"

definition unit_dict :: "(string \<Rightarrow> string) \<Rightarrow> string \<Rightarrow> nat \<Rightarrow> pyval list \<Rightarrow> pyval" where
  "unit_dict sha serial unit_idx tray_items = PDict
     [(''id'', PStr (nat_str unit_idx)), (''ams_id'', PStr (ams_unit_serial sha serial (int unit_idx))),
      (''chip_id'', PStr (ams_chip_id sha serial (int unit_idx))), (''info'', PStr ''2003''), (''temp'', PStr ''25.0''),
      (''check'', PInt 1), (''dry_time'', PInt 0), (''humidity'', PStr ''1''), (''humidity_raw'', PStr ''44''), (''tray'', PList tray_items)]"

definition ams_units_of :: "(string \<Rightarrow> string) \<Rightarrow> (pyval \<Rightarrow> string) \<Rightarrow> report_args \<Rightarrow> pyval list" where
  "ams_units_of sha rep a =
     (let units = nat (ra_units a); trays = nat (ra_trays a);
          colors = (if ra_filaments a = None then generate_colors (int (units * trays)) else [])
      in map (\<lambda>u. unit_dict sha (ra_serial a) u
           (map (\<lambda>t. PDict (slot_tray rep colors (ra_filaments a) (u * trays + t) t)) [0..<trays])) [0..<units])"

definition upgrade_state :: pyval where
  "upgrade_state = PDict [(''sequence_id'', PInt 0), (''progress'', PStr []), (''status'', PStr []), (''consistency_request'', PBool False),
     (''dis_state'', PInt 0), (''err_code'', PInt 0), (''force_upgrade'', PBool False), (''message'', PStr []), (''module'', PStr []),
     (''new_version_state'', PInt 2), (''new_ver_list'', PList [])]"

definition ams_dict :: "(string \<Rightarrow> string) \<Rightarrow> (pyval \<Rightarrow> string) \<Rightarrow> report_args \<Rightarrow> pyval" where
  "ams_dict sha rep a =
     (let filled = PStr (bits_from_indices (filled_slots (ra_filaments a) (nat (ra_units a) * nat (ra_trays a))))
      in PDict [(''ams_exist_bits'', PStr (bitmask_hex (ra_units a))), (''tray_exist_bits'', filled), (''tray_is_bbl_bits'', filled),
           (''tray_read_done_bits'', filled), (''tray_reading_bits'', PStr ''0''), (''tray_now'', PStr ''255''), (''tray_tar'', PStr ''255''),
           (''tray_pre'', PStr ''255''), (''insert_flag'', PBool True), (''power_on_flag'', PBool True), (''version'', PInt (ra_version a)),
           (''ams'', PList (ams_units_of sha rep a))])"

definition push_fields :: "(string \<Rightarrow> string) \<Rightarrow> (pyval \<Rightarrow> string) \<Rightarrow> report_args \<Rightarrow> (string \<times> pyval) list" where
  "push_fields sha rep a =
     [(''command'', PStr ''push_status''), (''msg'', PInt 0), (''sequence_id'', PStr (py_str rep (ra_sequence a))),
      (''gcode_state'', PStr (ra_gcode_state a)), (''gcode_file'', PStr (ra_gcode_file a)), (''gcode_file_prepare_percent'', PStr (ra_prepare a)),
      (''subtask_name'', PStr (subtask_of (ra_gcode_file a))), (''print_type'', PStr []), (''mc_print_stage'', PStr []),
      (''mc_percent'', PInt 0), (''mc_remaining_time'', PInt 0), (''stg'', PList []), (''stg_cur'', PInt 0), (''layer_num'', PInt 0),
      (''total_layer_num'', PInt 0), (''print_error'', PInt 0), (''hms'', PList []), (''home_flag'', PInt 256), (''sdcard'', PBool True),
      (''storage'', PDict [(''free'', PInt 1000000000), (''total'', PInt 32000000000)]), (''upgrade_state'', upgrade_state),
      (''online'', PDict [(''ahb'', PBool False), (''rfid'', PBool False), (''version'', PInt 7)]),
      (''nozzle_diameter'', PStr ''0.4''), (''nozzle_type'', PStr ''stainless_steel''), (''nozzle_temper'', PFloat 25),
      (''bed_temper'', PFloat 25), (''chamber_temper'', PFloat 25), (''ams_status'', PInt 0), (''ams_rfid_status'', PInt 0),
      (''ams'', ams_dict sha rep a),
      (''vt_tray'', PDict [(''id'', PStr ''254''), (''tray_type'', PStr []), (''tray_color'', PStr ''00000000''),
         (''cols'', PList [PStr ''00000000'']), (''remain'', PInt 0)])]"

definition build_push_status :: "(string \<Rightarrow> string) \<Rightarrow> (pyval \<Rightarrow> string) \<Rightarrow> report_args \<Rightarrow> (string \<times> pyval) list result" where
  "build_push_status sha rep a =
     (if ra_units a \<le> 0 then Inl (ValueError ''units must be positive'')
      else if ra_trays a \<le> 0 then Inl (ValueError ''trays must be positive'')
      else Inr [(''print'', PDict (push_fields sha rep a))])"

definition BASE_MODULES :: "(string \<times> string \<times> string \<times> string \<times> bool \<times> bool) list" where
  "BASE_MODULES = [(''ota'', ''OTA'', ''01.07.00.00'', ''00.00.00.00'', True, False), (''esp32'', ''AP05'', ''01.16.39.07'', ''00.00.00.00'', False, False),
     (''mc'', ''MC02'', ''00.00.35.57'', ''00.00.00.32'', False, True), (''th'', ''TH03'', ''00.00.07.72'', ''00.00.00.26'', False, True)]"

definition MODEL_PRODUCT_NAMES :: "(string, string) odict" where
  "MODEL_PRODUCT_NAMES = [(''N1'', ''A1 mini''), (''N2S'', ''A1''), (''3DPrinter-X1-Carbon'', ''X1 Carbon''), (''BL-P001'', ''X1 Carbon''),
     (''BL-P002'', ''X1''), (''C11'', ''P1P''), (''C12'', ''P1S''), (''C13'', ''X1E'')]"

definition printer_module :: "(string \<Rightarrow> string) \<Rightarrow> string \<Rightarrow> string \<Rightarrow> string \<times> string \<times> string \<times> string \<times> bool \<times> bool \<Rightarrow> (string \<times> pyval) list" where
  "printer_module sha model_display serial = (\<lambda>(name, hw_ver, sw_ver, loader_ver, is_mainboard, own_serial).
     [(''name'', PStr name), (''product_name'', PStr (if is_mainboard then ''Bambu Lab '' @ model_display else [])), (''sw_ver'', PStr sw_ver),
      (''sw_new_ver'', PStr []), (''hw_ver'', PStr hw_ver), (''sn'', PStr (if own_serial then module_serial sha serial name else serial)),
      (''loader_ver'', PStr loader_ver), (''visible'', PBool is_mainboard), (''flag'', PInt 0)])"

definition ams_module :: "(string \<Rightarrow> string) \<Rightarrow> string \<Rightarrow> string \<Rightarrow> nat \<Rightarrow> (string \<times> pyval) list" where
  "ams_module sha serial ams_type idx =
     [(''name'', PStr (ams_type @ ''/'' @ nat_str idx)),
      (''product_name'', PStr (get_or [(''n3f'', ''AMS 2 Pro''), (''n3s'', ''AMS HT''), (''ams'', ''AMS'')] ams_type ''AMS'' @ '' ('' @ nat_str (idx + 1) @ '')'')),
      (''sw_ver'', PStr (get_or [(''n3f'', ''03.00.21.29'')] ams_type ''00.00.06.49'')),
      (''hw_ver'', PStr (get_or [(''n3f'', ''N3F05''), (''n3s'', ''AMS_S000''), (''ams'', ''AMS08'')] ams_type ''AMS08'')),
      (''loader_ver'', PStr ''00.00.00.00''), (''sn'', PStr (ams_unit_serial sha serial (int idx))), (''visible'', PBool True), (''flag'', PInt 0)]"

definition build_get_version :: "(string \<Rightarrow> string) \<Rightarrow> (pyval \<Rightarrow> string) \<Rightarrow> string \<Rightarrow> string \<Rightarrow> int \<Rightarrow> pyval \<Rightarrow> string \<Rightarrow> (string \<times> pyval) list" where
  "build_get_version sha rep model serial units sequence_id ams_type =
     [(''info'', PDict [(''command'', PStr ''get_version''), (''sequence_id'', PStr (py_str rep sequence_id)),
        (''module'', PList (map PDict (map (printer_module sha (get_or MODEL_PRODUCT_NAMES model ''X1 Carbon'') serial) BASE_MODULES @
            map (ams_module sha serial ams_type) [0..<nat units])))])]"

definition build_print_ack :: "(pyval \<Rightarrow> string) \<Rightarrow> pyval \<Rightarrow> string \<Rightarrow> int \<Rightarrow> (string \<times> pyval) list" where
  "build_print_ack rep sequence_id gcode_file plate =
     [(''print'', PDict [(''command'', PStr ''project_file''), (''sequence_id'', PStr (py_str rep sequence_id)),
        (''param'', PStr (''Metadata/plate_'' @ int_str plate @ ''.gcode'')), (''subtask_name'', PStr (subtask_of gcode_file)),
        (''gcode_state'', PStr ''PREPARE''), (''gcode_file'', PStr gcode_file), (''gcode_file_prepare_percent'', PStr ''0''),
        (''result'', PStr ''SUCCESS''), (''msg'', PInt 0)])]"


section \<open>Colours are eight hexadecimal digits\<close>

definition color_ok :: "string \<Rightarrow> bool" where
  "color_ok s \<longleftrightarrow> length s = 8 \<and> hex_text s"

lemma hex_text_append [simp]: "hex_text (s @ t) \<longleftrightarrow> hex_text s \<and> hex_text t"
  by (simp add: hex_text_def)

lemma hex_text_length: "hex_text s \<Longrightarrow> py_len s = length s"
  by (induction s) (auto simp: hex_text_def py_len_def is_cont_char_def)

lemma color_ok_normalize: "color_ok (normalize_color s)"
proof -
  have "hex_text ''FF''" "hex_text ''FFFFFFFF''" by (simp_all add: hex_text_def)
  then show ?thesis
    by (auto simp: color_ok_def normalize_color_def Let_def dest: hex_text_length)
qed

lemma hex_char_facts:
  assumes "c \<in> set ''0123456789ABCDEF''"
  shows "upper_char c = c \<and> is_hex_char c \<and> \<not> is_space c \<and> c \<noteq> CHR ''#''"
proof -
  have "list_all (\<lambda>c. upper_char c = c \<and> is_hex_char c \<and> \<not> is_space c \<and> c \<noteq> CHR ''#'') ''0123456789ABCDEF''" by code_simp
  then show ?thesis unfolding list_all_iff using assms by (rule bspec)
qed

lemma hex8_color: "color_ok s \<Longrightarrow> hex8 (PStr s) = Some s"
proof -
  assume ok: "color_ok s"
  then have ne: "s \<noteq> []" and hex: "hex_text s" by (auto simp: color_ok_def)
  from hex have mem: "\<forall>c \<in> set s. c \<in> set ''0123456789ABCDEF''" by (simp only: hex_text_def list_all_iff)
  have facts: "\<forall>c \<in> set s. upper_char c = c \<and> is_hex_char c \<and> \<not> is_space c \<and> c \<noteq> CHR ''#''"
    using mem hex_char_facts by blast
  have "strip s = s" using facts ne by (intro strip_ends) auto
  moreover have "lstrip_by (\<lambda>c. c = CHR ''#'') s = s"
    using facts ne by (cases s) (auto simp: lstrip_by_def)
  moreover have "upper s = s" using facts by (simp add: upper_def map_idI)
  ultimately show ?thesis using ok facts by (simp add: hex8_def color_ok_def list_all_iff)
qed

lemma hex_digit_upper: "d < 16 \<Longrightarrow> upper_char (hex_digit d) \<in> set ''0123456789ABCDEF''"
proof -
  have "list_all (\<lambda>d. List.member ''0123456789ABCDEF'' (upper_char (hex_digit d))) [0..<16]" by code_simp
  then have "\<forall>d \<in> {0..<16}. upper_char (hex_digit d) \<in> set ''0123456789ABCDEF''"
    by (simp only: list_all_iff set_upt List.member_iff)
  then show "d < 16 \<Longrightarrow> ?thesis" by (elim bspec) simp
qed

lemma hex2_ok: "0 \<le> n \<Longrightarrow> n \<le> 255 \<Longrightarrow> length (hex2 n) = 2 \<and> hex_text (hex2 n)"
proof -
  assume n: "0 \<le> n" "n \<le> 255"
  define m where "m = nat n"
  have m: "m < 256" using n by (simp add: m_def)
  show ?thesis
  proof (cases "m < 16")
    case True
    then have "nat_hex m = [hex_digit m]" by (simp add: nat_hex.simps)
    then show ?thesis using hex_digit_upper [OF True]
      by (simp add: hex2_def hex_text_def upper_def m_def [symmetric])
  next
    case False
    then have "nat_hex m = [hex_digit (m div 16), hex_digit (m mod 16)]" using m
      by (subst nat_hex.simps) (simp add: nat_hex.simps)
    then show ?thesis using hex_digit_upper [of "m div 16"] hex_digit_upper [of "m mod 16"] m
      by (simp add: hex2_def hex_text_def upper_def m_def [symmetric])
  qed
qed

lemma hsv_in_range:
  assumes "0 \<le> h" "0 \<le> s" "s \<le> 1" "0 \<le> v" "v \<le> 1" "hsv_to_rgb h s v = (r, g, b)"
  shows "0 \<le> r \<and> r \<le> 1 \<and> 0 \<le> g \<and> g \<le> 1 \<and> 0 \<le> b \<and> b \<le> 1"
proof -
  define f where "f = h * 6 - of_int (trunc_real (h * 6))"
  have f: "0 \<le> f" "f \<le> 1" using assms(1) by (auto simp: f_def trunc_real_def) linarith
  have unit: "0 \<le> v * (1 - x) \<and> v * (1 - x) \<le> 1" if "0 \<le> x" "x \<le> 1" for x
    using that assms by (auto intro: mult_le_one)
  have "s * f \<le> 1" "s * (1 - f) \<le> 1" "0 \<le> s * f" "0 \<le> s * (1 - f)"
    using f assms by (auto intro: mult_le_one)
  then have "0 \<le> v * (1 - s) \<and> v * (1 - s) \<le> 1" "0 \<le> v * (1 - s * f) \<and> v * (1 - s * f) \<le> 1"
    "0 \<le> v * (1 - s * (1 - f)) \<and> v * (1 - s * (1 - f)) \<le> 1"
    using unit assms by blast+
  then show ?thesis using assms
    by (auto simp: hsv_to_rgb_def Let_def f_def [symmetric] split: if_splits)
qed


lemma next_hue_range: "0 \<le> next_hue h"
  by (simp add: next_hue_def Let_def)

lemma color_at_ok:
  assumes "0 \<le> h"
  shows "color_ok (color_at h idx)"
proof -
  let ?s = "7/10 + 2/10 * of_nat (idx mod 3) / 2 :: real"
  let ?v = "78/100 + 17/100 * of_nat ((idx + 1) mod 4) / 3 :: real"
  obtain r g b where rgb: "hsv_to_rgb h ?s ?v = (r, g, b)" by (metis surj_pair)
  have "idx mod 3 \<le> 2" "(idx + 1) mod 4 \<le> 3" by auto
  then have "?s \<le> 1" "?v \<le> 1" by linarith+
  moreover have "0 \<le> ?s" "0 \<le> ?v" by simp_all
  ultimately have "0 \<le> r \<and> r \<le> 1 \<and> 0 \<le> g \<and> g \<le> 1 \<and> 0 \<le> b \<and> b \<le> 1"
    using hsv_in_range [OF assms _ _ _ _ rgb] by blast
  then have byte: "length (hex2 (py_round (x * 255))) = 2 \<and> hex_text (hex2 (py_round (x * 255)))" if "x \<in> {r, g, b}" for x
    using that by (intro hex2_ok) (use py_round_range [of 0 "x * 255" 255] in auto)
  have "color_at h idx = hex2 (py_round (r * 255)) @ hex2 (py_round (g * 255)) @ hex2 (py_round (b * 255)) @ ''FF''"
    by (simp only: color_at_def rgb Let_def prod.case)
  then show ?thesis using byte by (simp add: color_ok_def) (simp add: hex_text_def)
qed

lemma color_loop_ok: "list_all color_ok (color_loop n idx h)"
  by (induction n arbitrary: idx h) (simp_all add: Let_def color_at_ok next_hue_range)

lemma length_color_loop [simp]: "length (color_loop n idx h) = n"
  by (induction n arbitrary: idx h) (simp_all add: Let_def)

lemma generate_colors_ok: "length (generate_colors count) = nat count" "list_all color_ok (generate_colors count)"
  by (simp_all add: generate_colors_def color_loop_ok)

lemma length_generated: "length (generate_colors (int n)) = n"
  by (simp add: generate_colors_ok)

section \<open>Masks name exactly the slots they are built from\<close>

definition hex_digit_val :: "char \<Rightarrow> nat" where
  "hex_digit_val c = length (takeWhile (\<lambda>x. x \<noteq> c) ''0123456789abcdef'')"

definition hex_value :: "string \<Rightarrow> nat" where
  "hex_value s = foldl (\<lambda>n c. 16 * n + hex_digit_val c) 0 s"

lemma hex_digit_val_digit: "d < 16 \<Longrightarrow> hex_digit_val (hex_digit d) = d"
proof -
  have "list_all (\<lambda>d. hex_digit_val (hex_digit d) = d) [0..<16]" by code_simp
  then have "\<forall>d \<in> {0..<16}. hex_digit_val (hex_digit d) = d" by (simp only: list_all_iff set_upt)
  then show "d < 16 \<Longrightarrow> ?thesis" by simp
qed

lemma hex_value_nat_hex [simp]: "hex_value (nat_hex n) = n"
proof (induction n rule: nat_hex.induct)
  case (1 n)
  have snoc: "hex_value (s @ [c]) = 16 * hex_value s + hex_digit_val c" for s c by (simp add: hex_value_def)
  show ?case
  proof (cases "n < 16")
    case True
    then show ?thesis by (subst nat_hex.simps) (simp add: hex_value_def hex_digit_val_digit)
  next
    case False
    then have "hex_value (nat_hex n) = 16 * hex_value (nat_hex (n div 16)) + hex_digit_val (hex_digit (n mod 16))"
      by (subst nat_hex.simps) (simp add: snoc)
    then show ?thesis using 1 [OF False] by (simp add: hex_digit_val_digit)
  qed
qed

lemma bit_mask_fold: "bit (fold (\<lambda>i m. or m (2 ^ i)) is (m :: nat)) k \<longleftrightarrow> bit m k \<or> k \<in> set is"
  by (induction "is" arbitrary: m) (auto simp: bit_or_iff bit_exp_iff)

lemma bit_bits_from_indices: "bit (hex_value (bits_from_indices is)) k \<longleftrightarrow> k \<in> set is"
  by (simp add: bits_from_indices_def bit_mask_fold)

lemma bit_bitmask: "0 < n \<Longrightarrow> bit (hex_value (bitmask_hex n)) k \<longleftrightarrow> k < nat n"
  using bit_mask_iff [where 'a = nat, of "nat n" k] by (simp add: bitmask_hex_def mask_eq_exp_minus_1)

section \<open>What a reader of the report sees\<close>

lemma map_of_with_defaults: "map_of (with_defaults ds t) k = (case map_of t k of Some v \<Rightarrow> Some v | None \<Rightarrow> map_of ds k)"
  by (induction ds arbitrary: t) (auto simp: with_defaults_def map_of_setdefault split: option.splits)

lemma with_real_shape_other:
  "map_of REAL_TRAY_DEFAULTS k = None \<Longrightarrow> map_of (with_real_tray_shape t) k = map_of t k"
  by (simp add: with_real_tray_shape_def map_of_with_defaults split: option.split)

text \<open>The type and colour a row of the pool names, under either of its two keys.\<close>

definition row_value :: "string \<Rightarrow> string \<Rightarrow> (string \<times> pyval) list \<Rightarrow> pyval option" where
  "row_value key other row = (case map_of row key of Some v \<Rightarrow> Some v
     | None \<Rightarrow> if is_str (pget row other) then Some (pget row other) else None)"

definition row_color :: "(pyval \<Rightarrow> string) \<Rightarrow> (string \<times> pyval) list \<Rightarrow> string" where
  "row_color rep row = normalize_color (py_str rep (case row_value ''tray_color'' ''color'' row of Some v \<Rightarrow> v | None \<Rightarrow> PStr ''FFFFFFFF''))"

lemma row_alias:
  "map_of (if map_of d key = None \<and> is_str (pget d other) then AList.update key (pget d other) d else d) k =
     (if k = key then row_value key other d else map_of d k)"
  by (simp add: row_value_def map_of_update split: option.split)

lemma row_value_cong:
  "map_of d key = map_of row key \<Longrightarrow> map_of d other = map_of row other \<Longrightarrow> row_value key other d = row_value key other row"
  by (simp add: row_value_def pget_def get_or_def split: option.split)

lemma coerced_tray:
  shows "map_of (coerce_pool_tray rep row slot) ''id'' = Some (PStr (nat_str slot))"
    and "map_of (coerce_pool_tray rep row slot) ''tray_type'' = row_value ''tray_type'' ''material'' row"
    and "map_of (coerce_pool_tray rep row slot) ''tray_color'' = Some (PStr (row_color rep row))"
proof -
  define d0 where "d0 = AList.update ''id'' (PStr (nat_str slot)) row"
  define d1 where "d1 = (if map_of d0 ''tray_type'' = None \<and> is_str (pget d0 ''material'')
    then AList.update ''tray_type'' (pget d0 ''material'') d0 else d0)"
  define d2 where "d2 = (if map_of d1 ''tray_color'' = None \<and> is_str (pget d1 ''color'')
    then AList.update ''tray_color'' (pget d1 ''color'') d1 else d1)"
  have d0: "map_of d0 k = (if k = ''id'' then Some (PStr (nat_str slot)) else map_of row k)" for k
    by (simp add: d0_def map_of_update)
  have "row_value ''tray_type'' ''material'' d0 = row_value ''tray_type'' ''material'' row"
    by (rule row_value_cong) (simp_all add: d0)
  then have d1: "map_of d1 k = (if k = ''tray_type'' then row_value ''tray_type'' ''material'' row else map_of d0 k)" for k
    by (simp only: d1_def row_alias)
  have "row_value ''tray_color'' ''color'' d1 = row_value ''tray_color'' ''color'' row"
    by (rule row_value_cong) (simp_all add: d0 d1)
  then have d2: "map_of d2 k = (if k = ''tray_color'' then row_value ''tray_color'' ''color'' row else map_of d1 k)" for k
    by (simp only: d2_def row_alias)
  have color: "normalize_color (py_str rep (get_or d2 ''tray_color'' (PStr ''FFFFFFFF''))) = row_color rep row"
    by (simp add: get_or_def d2 row_color_def)
  have "\<exists>ds cols. map_of ds ''tray_type'' = None \<and> coerce_pool_tray rep row slot =
      with_real_tray_shape (with_defaults ds (AList.update ''cols'' cols (AList.update ''tray_color'' (PStr (row_color rep row)) d2)))"
    unfolding coerce_pool_tray_def Let_def d0_def [symmetric] d1_def [symmetric] d2_def [symmetric] color
    by (intro exI conjI [rotated], rule refl) simp
  then obtain ds cols where ds: "map_of ds ''tray_type'' = None"
    and tray: "coerce_pool_tray rep row slot =
      with_real_tray_shape (with_defaults ds (AList.update ''cols'' cols (AList.update ''tray_color'' (PStr (row_color rep row)) d2)))"
    by blast
  have look: "map_of (coerce_pool_tray rep row slot) k = (case map_of (AList.update ''tray_color'' (PStr (row_color rep row)) d2) k of
      Some v \<Rightarrow> Some v | None \<Rightarrow> map_of ds k)" if "map_of REAL_TRAY_DEFAULTS k = None" "k \<noteq> ''cols''" for k
    using that by (simp add: tray with_real_shape_other map_of_with_defaults map_of_update)
  have shape: "map_of REAL_TRAY_DEFAULTS ''id'' = None" "map_of REAL_TRAY_DEFAULTS ''tray_type'' = None"
    "map_of REAL_TRAY_DEFAULTS ''tray_color'' = None"
    by (simp_all add: REAL_TRAY_DEFAULTS_def)
  show "map_of (coerce_pool_tray rep row slot) ''id'' = Some (PStr (nat_str slot))"
    by (simp add: look shape map_of_update d2 d1 d0)
  show "map_of (coerce_pool_tray rep row slot) ''tray_type'' = row_value ''tray_type'' ''material'' row"
    by (simp add: look shape map_of_update d2 d1 ds split: option.split)
  show "map_of (coerce_pool_tray rep row slot) ''tray_color'' = Some (PStr (row_color rep row))"
    by (simp add: look shape map_of_update)
qed

lemma synthetic_fields:
  shows "map_of (synthetic_tray g slot color) ''tray_color'' = Some (PStr color)"
    and "map_of (synthetic_tray g slot color) ''tray_type'' = Some (PStr (fst (MATERIALS ! (g mod length MATERIALS))))"
  by (simp_all add: synthetic_tray_def Let_def with_real_shape_other REAL_TRAY_DEFAULTS_def split: prod.split)


text \<open>A slot of the report: what its row says, or a bare number when the pool has no such row.\<close>

definition slot_matches :: "(pyval \<Rightarrow> string) \<Rightarrow> (string \<times> pyval) list list \<Rightarrow> nat \<Rightarrow> nat \<Rightarrow> tray_out \<Rightarrow> bool" where
  "slot_matches rep pool g t x \<longleftrightarrow> to_slot x = Some t \<and>
     (if g < length pool
      then to_color x = Some (row_color rep (pool ! g)) \<and>
        to_material x = (case row_value ''tray_type'' ''material'' (pool ! g) of
          Some v \<Rightarrow> text_field [(''tray_type'', v)] ''tray_type'' 64 | None \<Rightarrow> None)
      else to_color x = None \<and> to_material x = None)"

lemma slot_tray_matches:
  "slot_matches rep pool g t (add_tray_identity_fields env (Some t) (slot_tray rep cs (Some pool) g t))"
proof -
  have mat: "to_material (add_tray_identity_fields env s d) = (case map_of d ''tray_type'' of
      Some v \<Rightarrow> text_field [(''tray_type'', v)] ''tray_type'' 64 | None \<Rightarrow> None)" for s d
    by (simp add: add_tray_identity_fields_def text_field_def pget_def get_or_def split: option.split)
  have col: "to_color (add_tray_identity_fields env s d) = (case map_of d ''tray_color'' of Some v \<Rightarrow> hex8 v | None \<Rightarrow> None)" for s d
    by (simp add: add_tray_identity_fields_def pget_def get_or_def hex8_def split: option.split)
  have ok: "hex8 (PStr (row_color rep row)) = Some (row_color rep row)" for row
    by (simp add: hex8_color row_color_def color_ok_normalize)
  show ?thesis
    by (simp add: slot_matches_def slot_tray_def to_slot_add mat col coerced_tray ok empty_tray_def)
qed

lemma slot_tray_ne: "slot_tray rep cs (Some pool) g t \<noteq> []"
  using coerced_tray(1) [of rep "pool ! g" t] by (auto simp: slot_tray_def empty_tray_def)

lemma map_filter_Some: "List.map_filter (\<lambda>x. Some (f x)) xs = map f xs"
  by (induction xs) (simp_all add: map_filter_simps)

lemma build_trays_dicts:
  assumes "n \<le> 4" "\<And>t. F t \<noteq> []"
  shows "build_trays env (PList (map (\<lambda>t. PDict (F t)) [0..<n])) = map (\<lambda>t. add_tray_identity_fields env (Some t) (F t)) [0..<n]"
proof -
  have zip: "zip [0..<4] (map G [0..<n]) = map (\<lambda>t. (t, G t)) [0..<n]" for G :: "nat \<Rightarrow> pyval"
    using assms(1) by (intro nth_equalityI) auto
  show ?thesis by (simp add: build_trays_def zip map_filter_def comp_def assms(2))
qed

definition unit_matches :: "(pyval \<Rightarrow> string) \<Rightarrow> (string \<times> pyval) list list \<Rightarrow> nat \<Rightarrow> nat \<Rightarrow> ams_unit \<Rightarrow> bool" where
  "unit_matches rep pool trays u unit \<longleftrightarrow> au_unit unit = u \<and> length (au_trays unit) = trays \<and>
     list_all (\<lambda>t. slot_matches rep pool (u * trays + t) t (au_trays unit ! t)) [0..<trays]"

lemma unit_dict_reads:
  assumes "trays \<le> 4"
  shows "\<exists>x. unit_matches rep pool trays u x \<and>
    build_units env u (unit_dict sha serial u (map (\<lambda>t. PDict (slot_tray rep cs (Some pool) (u * trays + t) t)) [0..<trays]) # us) =
      res_bind (build_units env (u + 1) us) (\<lambda>rest. Inr (x # rest))"
proof -
  let ?items = "map (\<lambda>t. PDict (slot_tray rep cs (Some pool) (u * trays + t) t)) [0..<trays]"
  obtain d where d: "unit_dict sha serial u ?items = PDict d" "pget d ''tray'' = PList ?items" "pget d ''dry_time'' = PInt 0"
    by (simp add: unit_dict_def pget_def get_or_def)
  have num: "num env (PInt 0) = Some (Fin 0)" by (simp add: num_def)
  obtain x where x: "build_unit env u d = Inr x" "au_unit x = u" "au_trays x = build_trays env (PList ?items)"
    using num by (simp add: build_unit_def d opt_result_def trunc_real_def)
  have trays: "au_trays x = map (\<lambda>t. add_tray_identity_fields env (Some t) (slot_tray rep cs (Some pool) (u * trays + t) t)) [0..<trays]"
    unfolding x(3) by (rule build_trays_dicts [OF assms slot_tray_ne])
  have "unit_matches rep pool trays u x"
    by (simp add: unit_matches_def x(2) trays list_all_iff slot_tray_matches)
  then show ?thesis by (intro exI [of _ x]) (simp add: d(1) x(1))
qed

lemma units_read:
  assumes "trays \<le> 4"
  shows "\<exists>us. build_units env u (map (\<lambda>u. unit_dict sha serial u
      (map (\<lambda>t. PDict (slot_tray rep cs (Some pool) (u * trays + t) t)) [0..<trays])) [u..<u + n]) = Inr us \<and>
    length us = n \<and> list_all2 (unit_matches rep pool trays) [u..<u + n] us"
proof (induction n arbitrary: u)
  case (Suc n)
  have upt: "[u..<u + Suc n] = u # [Suc u..<Suc u + n]" by (simp add: upt_rec)
  from Suc.IH [of "Suc u"] obtain us where us: "build_units env (Suc u) (map (\<lambda>u. unit_dict sha serial u
      (map (\<lambda>t. PDict (slot_tray rep cs (Some pool) (u * trays + t) t)) [0..<trays])) [Suc u..<Suc u + n]) = Inr us"
    "length us = n" "list_all2 (unit_matches rep pool trays) [Suc u..<Suc u + n] us" by blast
  let ?U = "\<lambda>u. unit_dict sha serial u (map (\<lambda>t. PDict (slot_tray rep cs (Some pool) (u * trays + t) t)) [0..<trays])"
  obtain x where x: "unit_matches rep pool trays u x"
    and step: "build_units env u (?U u # map ?U [Suc u..<Suc u + n]) = Inr (x # us)"
    using unit_dict_reads [OF assms, of rep pool u env sha serial cs "map ?U [Suc u..<Suc u + n]"] us(1) by auto
  show ?case unfolding upt using step us x by (intro exI [of _ "x # us"]) simp
qed simp

lemma push_status_ams:
  assumes "build_push_status sha rep a = Inr d"
  shows "ams_units_raw (as_dict (pget d ''print'')) = ams_units_of sha rep a"
    and "pget (as_dict (pget d ''print'')) ''ams'' = ams_dict sha rep a"
    and "0 < ra_units a \<and> 0 < ra_trays a"
proof -
  from assms have d: "d = [(''print'', PDict (push_fields sha rep a))]" and "0 < ra_units a \<and> 0 < ra_trays a"
    by (auto simp: build_push_status_def split: if_splits)
  then show "0 < ra_units a \<and> 0 < ra_trays a" by blast
  show ams: "pget (as_dict (pget d ''print'')) ''ams'' = ams_dict sha rep a"
    by (simp add: d pget_def get_or_def push_fields_def)
  show "ams_units_raw (as_dict (pget d ''print'')) = ams_units_of sha rep a"
    unfolding ams_units_raw_def ams by (simp add: ams_dict_def Let_def pget_def get_or_def)
qed

text \<open>
  C31: The pool a virtual printer advertises is the pool a reader of its report finds: fed to the agent's own
  parser, the report of a positive number of units with at most four trays each gives that many units, in order,
  and slot \<open>t\<close> of unit \<open>u\<close> names the material and the normalised colour of row \<open>u * trays + t\<close> of the pool, or
  neither where the pool is shorter.\<close>

theorem advertised_pool_is_readable:
  assumes "build_push_status sha rep a = Inr d" "ra_filaments a = Some pool" "ra_trays a \<le> 4"
  shows "\<exists>us. build_ams env (as_dict (pget d ''print'')) = Inr us \<and>
    list_all2 (unit_matches rep pool (nat (ra_trays a))) [0..<nat (ra_units a)] us"
proof -
  have "nat (ra_trays a) \<le> 4" using assms(3) by simp
  from units_read [OF this, of env 0 sha "ra_serial a" rep _ pool "nat (ra_units a)"] show ?thesis
    by (fastforce simp: build_ams_def push_status_ams(1) [OF assms(1)] ams_units_of_def assms(2) Let_def)
qed


definition demo_pool :: "(string \<times> pyval) list list" where
  "demo_pool = [[(''tray_type'', PStr ''PLA''), (''tray_color'', PStr ''#ff0000'')], [(''material'', PStr ''PETG'')]]"

definition demo_args :: report_args where
  "demo_args = \<lparr>ra_units = 1, ra_trays = 4, ra_sequence = PInt 1, ra_filaments = Some demo_pool, ra_gcode_state = ''IDLE'',
     ra_gcode_file = [], ra_prepare = ''0'', ra_version = 4, ra_serial = ''01P''\<rparr>"

definition demo_rep :: "pyval \<Rightarrow> string" where
  "demo_rep v = []"

definition demo_report :: "(string \<times> pyval) list" where
  "demo_report = [(''print'', PDict (push_fields rev demo_rep demo_args))]"

lemma demo_report: "build_push_status rev demo_rep demo_args = Inr demo_report"
  by (simp add: build_push_status_def demo_args_def demo_report_def)

lemma demo_colors: "row_color demo_rep (demo_pool ! 0) = ''FF0000FF''" "row_color demo_rep (demo_pool ! 1) = ''FFFFFFFF''"
  by code_simp+

theorem advertised_pool_is_readable_witness:
  "\<exists>x. build_ams demo_parse_env (as_dict (pget demo_report ''print'')) = Inr [x] \<and>
     to_color (au_trays x ! 0) = Some ''FF0000FF'' \<and> to_color (au_trays x ! 1) = Some ''FFFFFFFF'' \<and> to_color (au_trays x ! 2) = None"
proof -
  have "ra_filaments demo_args = Some demo_pool" "ra_trays demo_args \<le> 4" by (simp_all add: demo_args_def)
  from advertised_pool_is_readable [OF demo_report this, of demo_parse_env] obtain us where
    us: "build_ams demo_parse_env (as_dict (pget demo_report ''print'')) = Inr us"
      "list_all2 (unit_matches demo_rep demo_pool 4) [0] us"
    by (auto simp: demo_args_def)
  then obtain x where x: "us = [x]" "unit_matches demo_rep demo_pool 4 0 x" by (auto simp: list_all2_Cons1)
  have "slot_matches demo_rep demo_pool t t (au_trays x ! t)" if "t < 4" for t
    using x(2) that by (simp add: unit_matches_def list_all_iff)
  from this [of 0] this [of 1] this [of 2] show ?thesis using us(1) x(1) demo_colors
    by (auto simp: slot_matches_def demo_pool_def)
qed

section \<open>Masks and identities\<close>

definition unit_id :: "pyval \<Rightarrow> pyval" where
  "unit_id unit = pget (as_dict unit) ''ams_id''"

definition version_modules :: "(string \<times> pyval) list \<Rightarrow> pyval list" where
  "version_modules v = (case pget (as_dict (pget v ''info'')) ''module'' of PList ms \<Rightarrow> ms | _ \<Rightarrow> [])"

definition mask_is :: "pyval \<Rightarrow> nat set \<Rightarrow> bool" where
  "mask_is v S \<longleftrightarrow> (\<exists>s. v = PStr s \<and> (\<forall>k. bit (hex_value s) k \<longleftrightarrow> k \<in> S))"

lemma unit_ids: "map unit_id (ams_units_of sha rep a) = map (\<lambda>u. PStr (ams_unit_serial sha (ra_serial a) (int u))) [0..<nat (ra_units a)]"
  by (simp add: ams_units_of_def Let_def unit_id_def unit_dict_def pget_def get_or_def)

lemma module_ids: "map (\<lambda>m. pget (as_dict m) ''sn'') (drop (length BASE_MODULES) (version_modules (build_get_version sha rep model serial units seq ty))) =
    map (\<lambda>u. PStr (ams_unit_serial sha serial (int u))) [0..<nat units]"
  by (simp add: version_modules_def build_get_version_def pget_def get_or_def ams_module_def)

lemma set_filled_slots: "set (filled_slots fs n) = {k. k < n \<and> (case fs of None \<Rightarrow> True | Some pool \<Rightarrow> k < length pool)}"
  by (auto simp: filled_slots_def split: option.splits)


text \<open>
  The masks of a report name exactly the filled slots, and the AMS units can be told apart as in the list of modules:
  bit \<open>k\<close> of the exists, genuine and read-done masks is set when slot \<open>k\<close> is there and (with a pool) within the pool, bit \<open>k\<close> of
  the unit mask when unit \<open>k\<close> is; and the hardware id of each unit is the serial of its module in the version report.\<close>

theorem report_identifies_units:
  assumes "build_push_status sha rep a = Inr d"
  shows "(list_all (\<lambda>key. mask_is (pget (as_dict (pget (as_dict (pget d ''print'')) ''ams'')) key)
        {k. k < nat (ra_units a) * nat (ra_trays a) \<and> (case ra_filaments a of None \<Rightarrow> True | Some pool \<Rightarrow> k < length pool)})
      [''tray_exist_bits'', ''tray_is_bbl_bits'', ''tray_read_done_bits'']) \<and>
    mask_is (pget (as_dict (pget (as_dict (pget d ''print'')) ''ams'')) ''ams_exist_bits'') {k. k < nat (ra_units a)} \<and>
    map unit_id (ams_units_raw (as_dict (pget d ''print''))) =
      map (\<lambda>m. pget (as_dict m) ''sn'') (drop (length BASE_MODULES)
        (version_modules (build_get_version sha rep model (ra_serial a) (ra_units a) seq ty)))"
proof (intro conjI)
  note ams = push_status_ams [OF assms]
  have get: "pget (as_dict (ams_dict sha rep a)) k = PStr (bits_from_indices (filled_slots (ra_filaments a) (nat (ra_units a) * nat (ra_trays a))))"
    if "k \<in> {''tray_exist_bits'', ''tray_is_bbl_bits'', ''tray_read_done_bits''}" for k
    using that by (elim insertE emptyE) (simp_all add: ams_dict_def Let_def pget_def get_or_def)
  have "pget (as_dict (ams_dict sha rep a)) ''ams_exist_bits'' = PStr (bitmask_hex (ra_units a))"
    by (simp add: ams_dict_def Let_def pget_def get_or_def)
  then show "mask_is (pget (as_dict (pget (as_dict (pget d ''print'')) ''ams'')) ''ams_exist_bits'') {k. k < nat (ra_units a)}"
    using bit_bitmask ams(3) by (simp add: ams(2) mask_is_def)
  show "list_all (\<lambda>key. mask_is (pget (as_dict (pget (as_dict (pget d ''print'')) ''ams'')) key)
        {k. k < nat (ra_units a) * nat (ra_trays a) \<and> (case ra_filaments a of None \<Rightarrow> True | Some pool \<Rightarrow> k < length pool)})
      [''tray_exist_bits'', ''tray_is_bbl_bits'', ''tray_read_done_bits'']"
    unfolding ams(2) by (simp add: get mask_is_def bit_bits_from_indices set_filled_slots)
  show "map unit_id (ams_units_raw (as_dict (pget d ''print''))) =
      map (\<lambda>m. pget (as_dict m) ''sn'') (drop (length BASE_MODULES)
        (version_modules (build_get_version sha rep model (ra_serial a) (ra_units a) seq ty)))"
    unfolding ams(1) unit_ids module_ids ..
qed

theorem report_identifies_units_witness:
  "mask_is (pget (as_dict (pget (as_dict (pget demo_report ''print'')) ''ams'')) ''tray_exist_bits'') {0, 1} \<and>
   mask_is (pget (as_dict (pget (as_dict (pget demo_report ''print'')) ''ams'')) ''ams_exist_bits'') {0}"
proof -
  have "{k :: nat. k < nat (ra_units demo_args) * nat (ra_trays demo_args) \<and>
      (case ra_filaments demo_args of None \<Rightarrow> True | Some pool \<Rightarrow> k < length pool)} = {0, 1}"
    "{k. k < nat (ra_units demo_args)} = {0}" by (auto simp: demo_args_def demo_pool_def)
  with report_identifies_units [OF demo_report] show ?thesis by simp
qed

text \<open>A tray as a slicer expects it: its number, and either nothing else or a colour of eight hexadecimal digits.\<close>

definition tray_typed :: "nat \<Rightarrow> (string \<times> pyval) list \<Rightarrow> bool" where
  "tray_typed t d \<longleftrightarrow> map_of d ''id'' = Some (PStr (nat_str t)) \<and>
     (d = empty_tray t \<or> (\<exists>c. map_of d ''tray_color'' = Some (PStr c) \<and> color_ok c))"

definition unit_trays :: "pyval \<Rightarrow> pyval list" where
  "unit_trays unit = (case pget (as_dict unit) ''tray'' of PList xs \<Rightarrow> xs | _ \<Rightarrow> [])"

lemma slot_tray_typed:
  assumes "filaments = None \<Longrightarrow> g < length cs" "list_all color_ok cs"
  shows "tray_typed t (slot_tray rep cs filaments g t)"
proof (cases filaments)
  case None
  then have "color_ok (cs ! g)" using assms by (simp add: list_all_iff)
  moreover have "map_of (synthetic_tray g t c) ''id'' = Some (PStr (nat_str t))" for c
    by (simp add: synthetic_tray_def Let_def with_real_shape_other REAL_TRAY_DEFAULTS_def split: prod.splits)
  ultimately show ?thesis by (simp add: None slot_tray_def tray_typed_def synthetic_fields)
next
  case (Some pool)
  then show ?thesis
    by (simp add: slot_tray_def tray_typed_def coerced_tray row_color_def color_ok_normalize empty_tray_def)
qed

lemma slot_index: "u < units \<Longrightarrow> t < trays \<Longrightarrow> u * trays + t < units * (trays :: nat)"
proof -
  assume "u < units" "t < trays"
  then have "u * trays + t < (u + 1) * trays" "(u + 1) * trays \<le> units * trays" by (simp, intro mult_le_mono1, simp)
  then show ?thesis by linarith
qed

text \<open>
  C32: Every tray of every report is well-formed: there are as many units and trays as asked for, each tray carries
  its own number, and it is either an empty slot or has a colour of exactly eight upper-case hexadecimal digits, whatever
  the pool or, without a pool, the colour generator supplied.\<close>

theorem report_trays_typed:
  "list_all2 (\<lambda>u unit. list_all2 (\<lambda>t v. tray_typed t (as_dict v)) [0..<nat (ra_trays a)] (unit_trays unit))
     [0..<nat (ra_units a)] (ams_units_of sha rep a)"
proof -
  let ?cs = "if ra_filaments a = None then generate_colors (int (nat (ra_units a) * nat (ra_trays a))) else []"
  have typed: "tray_typed t (slot_tray rep ?cs (ra_filaments a) (u * nat (ra_trays a) + t) t)"
    if "u < nat (ra_units a)" "t < nat (ra_trays a)" for u t
  proof (rule slot_tray_typed)
    show "ra_filaments a = None \<Longrightarrow> u * nat (ra_trays a) + t < length ?cs"
      using slot_index [OF that] by (simp only: length_generated simp_thms if_True)
    show "list_all color_ok ?cs" by (simp add: generate_colors_ok(2) del: of_nat_mult)
  qed
  have trays: "unit_trays (unit_dict sha serial u xs) = xs" for serial u xs
    by (simp add: unit_trays_def unit_dict_def pget_def get_or_def)
  show ?thesis
    using typed by (simp add: ams_units_of_def Let_def trays list_all2_conv_all_nth)
qed

end
