(* ===== verification/Discovery.thy ===== *)
theory Discovery
  imports Net Ssdp
begin

text \<open>
  Discovery of printers in the LAN: the Moonraker probe of a host and the sweep of \<open>makeros_hub/lan_scan.py\<close>, and
  the service of \<open>makeros_hub/discovery.py\<close> that merges the sweep with the heard announcements, limits the rate
  of periodic scans and caches the hits. What a GET brings, \<open>json.loads\<close>, and the order in which the threads
  of a sweep finish within its budget are parameters.
\<close>

section \<open>Probing a host\<close>

record hit =
  hit_kind :: string
  hit_ip :: string
  hit_hostname :: "string option"
  hit_display :: "(string \<times> pyval) list"

definition to_dict :: "hit \<Rightarrow> (string \<times> pyval) list" where
  "to_dict h = [(''kind'', PStr (hit_kind h)), (''ip'', PStr (hit_ip h)),
     (''hostname'', case hit_hostname h of None \<Rightarrow> PNone | Some s \<Rightarrow> PStr s), (''displayInfo'', PDict (hit_display h))]"

text \<open>A GET ends with an answer, with an exception the helper names, or with another one.\<close>

datatype answer = Answer nat "byte list" | NamedError | OtherError

definition http_get_json :: "(string \<Rightarrow> pyval option) \<Rightarrow> answer \<Rightarrow> (string \<times> pyval) list option result" where
  "http_get_json loads a = (case a of
      Answer status body \<Rightarrow>
        (if status \<noteq> 200 then Inr None
         else (case loads (utf8_decode (take (64 * 1024) body)) of Some (PDict d) \<Rightarrow> Inr (Some d) | _ \<Rightarrow> Inr None))
    | NamedError \<Rightarrow> Inr None
    | OtherError \<Rightarrow> Inl (RuntimeErr ''HTTPException''))"

definition is_moonraker_response :: "(string \<times> pyval) list \<Rightarrow> bool" where
  "is_moonraker_response body = (case pget body ''result'' of
      PDict r \<Rightarrow> is_str (pget r ''klippy_state'') | _ \<Rightarrow> False)"

definition moonraker_base :: "string \<Rightarrow> string" where
  "moonraker_base ip = ''http://'' @ ip @ '':7125''"

definition printer_fields :: "(string \<times> pyval) list option \<Rightarrow> string option \<times> (string \<times> pyval) list" where
  "printer_fields info = (case info of
      Some d \<Rightarrow> (case pget d ''result'' of
          PDict pr \<Rightarrow> ((case pget pr ''hostname'' of PStr s \<Rightarrow> Some s | _ \<Rightarrow> None),
            (if is_str (pget pr ''software_version'') then [(''klippyVersion'', pget pr ''software_version'')] else []))
        | _ \<Rightarrow> (None, []))
    | None \<Rightarrow> (None, []))"

definition system_fields :: "(string \<times> pyval) list option \<Rightarrow> (string \<times> pyval) list" where
  "system_fields info = (case info of
      Some d \<Rightarrow> (let hw = pget (as_dict (pget (as_dict (pget (as_dict (pget d ''result'')) ''system_info'')) ''cpu_info'')) ''hardware_description''
        in if is_str hw then [(''hostHardware'', hw)] else [])
    | None \<Rightarrow> [])"

definition probe_moonraker :: "(string \<Rightarrow> pyval option) \<Rightarrow> (string \<Rightarrow> answer) \<Rightarrow> string \<Rightarrow> hit option result" where
  "probe_moonraker loads get ip =
     res_bind (http_get_json loads (get (moonraker_base ip @ ''/server/info''))) (\<lambda>info.
       case info of
         None \<Rightarrow> Inr None
       | Some body \<Rightarrow>
           if body = [] \<or> \<not> is_moonraker_response body then Inr None
           else (let server = as_dict (pget body ''result'')
             in res_bind (http_get_json loads (get (moonraker_base ip @ ''/printer/info''))) (\<lambda>pinfo.
                res_bind (http_get_json loads (get (moonraker_base ip @ ''/machine/system_info''))) (\<lambda>sinfo.
                  let (host, version) = printer_fields pinfo;
                      display = [(''klippyState'', pget server ''klippy_state''), (''moonrakerVersion'', pget server ''moonraker_version'')]
                        @ version @ system_fields sinfo
                  in Inr (Some \<lparr>hit_kind = ''moonraker'', hit_ip = ip, hit_hostname = host,
                       hit_display = filter (\<lambda>(k, v). v \<noteq> PNone) display\<rparr>)))))"

section \<open>The sweep\<close>

text \<open>The futures that completed within the budget, in that order; a probe that raised is skipped.\<close>

definition sweep_subnet :: "(string list \<Rightarrow> string list) \<Rightarrow> (string \<Rightarrow> hit option result) \<Rightarrow> string \<Rightarrow> string \<Rightarrow> string \<Rightarrow> hit list" where
  "sweep_subnet completed probe network netmask own_ip =
     (let targets = enumerate_sweep_targets network netmask own_ip
      in if targets = [] then []
         else List.map_filter (\<lambda>ip. case probe ip of Inr (Some h) \<Rightarrow> Some h | _ \<Rightarrow> None) (completed targets))"

definition run_scan :: "string list list option \<Rightarrow> string option \<Rightarrow> (string list \<Rightarrow> string list) \<Rightarrow> (string \<Rightarrow> hit option result) \<Rightarrow> hit list" where
  "run_scan route own completed probe = (case discover_primary_subnet route own of
      None \<Rightarrow> []
    | Some (network, netmask, own_ip) \<Rightarrow> sweep_subnet completed probe network netmask own_ip)"

section \<open>The service\<close>

definition of_announcement :: "discovery_hit \<Rightarrow> hit" where
  "of_announcement d =
     (let field = (\<lambda>k x. case x of Some s \<Rightarrow> if s = [] then [] else [(k, PStr s)] | None \<Rightarrow> [])
      in \<lparr>hit_kind = ''bambu'', hit_ip = dh_ip d, hit_hostname = dh_hostname d,
           hit_display = field ''model'' (dh_model d) @ field ''serial'' (dh_serial d) @ field ''firmware'' (dh_firmware d)\<rparr>)"

definition MAX_HITS_PER_BATCH :: nat where
  "MAX_HITS_PER_BATCH = 100"

definition hit_key :: "hit \<Rightarrow> string \<times> string" where
  "hit_key h = (hit_kind h, hit_ip h)"

fun merge_loop :: "hit list \<Rightarrow> (string \<times> string, hit) odict \<Rightarrow> (string \<times> string, hit) odict" where
  "merge_loop [] seen = seen"
| "merge_loop (h # hs) seen = (let seen' = setdefault (hit_key h) h seen
     in if MAX_HITS_PER_BATCH \<le> length seen' then seen' else merge_loop hs seen')"

definition merge_hits :: "hit list \<Rightarrow> hit list \<Rightarrow> hit list" where
  "merge_hits moonraker bambu = dict_values (merge_loop (bambu @ moonraker) [])"

definition PERIODIC_INTERVAL :: real where
  "PERIODIC_INTERVAL = 5 * 60"

definition HIT_CACHE_TTL :: real where
  "HIT_CACHE_TTL = 10 * 60"

record disc_state =
  ds_last :: real
  ds_cached :: "hit list"

definition disc_start :: disc_state where
  "disc_start = \<lparr>ds_last = 0, ds_cached = []\<rparr>"

text \<open>What a scan would find now: the hits of the sweep and the announcements heard. A scan that raises leaves
  the cache and its time as they were (they are set after it) and its exception to the caller: the beat catches
  it (\<open>se_around\<close> in \<open>Sensing\<close>), a probe reports it. Such a call is no step here.\<close>

type_synonym surroundings = "hit list \<times> discovery_hit list"

definition do_scan :: "surroundings \<Rightarrow> hit list" where
  "do_scan w = merge_hits (fst w) (map of_announcement (snd w))"

definition set_cache :: "hit list \<Rightarrow> real \<Rightarrow> disc_state \<Rightarrow> disc_state" where
  "set_cache hits now s = s\<lparr>ds_last := now, ds_cached := hits\<rparr>"

definition maybe_run_periodic_scan :: "surroundings \<Rightarrow> real \<Rightarrow> disc_state \<Rightarrow> bool \<times> disc_state" where
  "maybe_run_periodic_scan w now s =
     (if now - ds_last s < PERIODIC_INTERVAL then (False, s) else (True, set_cache (do_scan w) now s))"

definition run_immediate_scan :: "surroundings \<Rightarrow> real \<Rightarrow> disc_state \<Rightarrow> hit list \<times> disc_state" where
  "run_immediate_scan w now s = (do_scan w, set_cache (do_scan w) now s)"

definition get_cached_hits :: "real \<Rightarrow> disc_state \<Rightarrow> hit list" where
  "get_cached_hits now s = (if HIT_CACHE_TTL < now - ds_last s then [] else ds_cached s)"

definition hits_to_payload :: "hit list \<Rightarrow> pyval list" where
  "hits_to_payload hits = map (\<lambda>h. PDict (to_dict h)) hits"

definition hits_to_json_for_probe :: "(pyval \<Rightarrow> string) \<Rightarrow> hit list \<Rightarrow> string" where
  "hits_to_json_for_probe dumps hits = dumps (PList (hits_to_payload hits))"


section \<open>Merging\<close>

text \<open>Reference: the first element of every key, in order.\<close>

fun first_by :: "('a \<Rightarrow> 'k) \<Rightarrow> 'a list \<Rightarrow> 'a list" where
  "first_by key [] = []"
| "first_by key (x # xs) = x # filter (\<lambda>y. key y \<noteq> key x) (first_by key xs)"

lemma set_first_by: "set (first_by key xs) \<subseteq> set xs"
  by (induction xs) auto

lemma first_by_distinct: "distinct (map key (first_by key xs))"
  by (induction xs) (auto simp: distinct_map_filter)

lemma first_by_filter: "filter (\<lambda>x. P (key x)) (first_by key xs) = first_by key (filter (\<lambda>x. P (key x)) xs)"
proof (induction xs)
  case (Cons x xs)
  have "filter (\<lambda>y. P (key y)) (filter (\<lambda>y. key y \<noteq> key x) (first_by key xs)) =
      filter (\<lambda>y. key y \<noteq> key x) (filter (\<lambda>y. P (key y)) (first_by key xs))"
    by (simp add: conj_commute)
  moreover have "filter (\<lambda>y. P (key y)) (filter (\<lambda>y. key y \<noteq> key x) (first_by key xs)) =
      filter (\<lambda>y. P (key y)) (first_by key xs)" if "\<not> P (key x)"
    using that by (intro filter_cong [OF refl, THEN trans [OF filter_filter]]) auto
  ultimately show ?case by (simp add: Cons.IH)
qed simp

definition loop_ok :: "(string \<times> string, hit) odict \<Rightarrow> bool" where
  "loop_ok seen \<longleftrightarrow> wf_dict seen \<and> list_all (\<lambda>(k, h). k = hit_key h) seen"

lemma loop_ok_step: "loop_ok seen \<Longrightarrow> loop_ok (setdefault (hit_key h) h seen)"
  by (auto simp: loop_ok_def setdefault_def wf_dict_def map_of_None_keys split: option.splits)

lemma first_by_filter_new:
  "first_by key (filter (\<lambda>x. key x \<notin> S) (h # hs)) =
     (if key h \<in> S then first_by key (filter (\<lambda>x. key x \<notin> S) hs)
      else h # first_by key (filter (\<lambda>x. key x \<notin> insert (key h) S) hs))"
proof -
  have "filter (\<lambda>y. key y \<noteq> key h) (first_by key (filter (\<lambda>x. key x \<notin> S) hs)) =
      first_by key (filter (\<lambda>x. key x \<notin> insert (key h) S) hs)"
    unfolding first_by_filter [where P = "\<lambda>k. k \<noteq> key h"] by (simp add: conj_commute)
  then show ?thesis by simp
qed

lemma merge_loop_first_by:
  "loop_ok seen \<Longrightarrow> length seen < MAX_HITS_PER_BATCH \<Longrightarrow>
   dict_values (merge_loop hs seen) =
     take MAX_HITS_PER_BATCH (dict_values seen @ first_by hit_key (filter (\<lambda>h. hit_key h \<notin> set (keys seen)) hs))"
proof (induction hs arbitrary: seen)
  case Nil
  then show ?case by (simp add: dict_values_def)
next
  case (Cons h hs)
  let ?seen = "setdefault (hit_key h) h seen"
  show ?case
  proof (cases "hit_key h \<in> set (keys seen)")
    case True
    then have same: "?seen = seen" by (auto simp: setdefault_def map_of_None_keys split: option.splits)
    show ?thesis using Cons.IH [OF Cons.prems] Cons.prems(2) True
      by (simp add: same Let_def first_by_filter_new del: first_by.simps filter.simps)
  next
    case False
    then have seen: "?seen = seen @ [(hit_key h, h)]" by (auto simp: setdefault_def map_of_None_keys split: option.splits)
    have rest: "first_by hit_key (filter (\<lambda>x. hit_key x \<notin> set (keys seen)) (h # hs)) =
        h # first_by hit_key (filter (\<lambda>x. hit_key x \<notin> set (keys ?seen)) hs)"
      using False by (subst first_by_filter_new) (simp add: seen keys_def)
    show ?thesis
    proof (cases "MAX_HITS_PER_BATCH \<le> length ?seen")
      case True
      then have "MAX_HITS_PER_BATCH - length seen = 1" using Cons.prems(2) by (simp add: seen)
      then show ?thesis unfolding rest using True by (simp add: seen dict_values_def)
    next
      case False
      then have "MAX_HITS_PER_BATCH - length seen = Suc (MAX_HITS_PER_BATCH - Suc (length seen))" by (simp add: seen)
      then show ?thesis unfolding rest using Cons.IH [OF loop_ok_step [OF Cons.prems(1)]] False
        by (simp add: Let_def) (simp add: seen dict_values_def)
    qed
  qed
qed

text \<open>The merge of a batch of discovery hits is what it is meant to be: the announced printers first, then the swept ones,
  of each kind and address the first hit only, cut at one hundred.\<close>

theorem merge_is_first_by_key: "merge_hits moonraker bambu = take 100 (first_by hit_key (bambu @ moonraker))"
  using merge_loop_first_by [of "[]" "bambu @ moonraker"]
  by (simp add: merge_hits_def loop_ok_def wf_dict_def MAX_HITS_PER_BATCH_def dict_values_def keys_def)


section \<open>The rate of the scans and the age of the hits\<close>

text \<open>Calls of the service: a beat, or a probe of an operator; the log lists the scans that ran, with their time, whether a
  beat started them, and what they found.\<close>

datatype disc_call = Beat surroundings real | Probe surroundings real

fun call_time :: "disc_call \<Rightarrow> real" where
  "call_time (Beat w t) = t"
| "call_time (Probe w t) = t"

fun is_beat :: "disc_call \<Rightarrow> bool" where
  "is_beat (Beat w t) = True"
| "is_beat (Probe w t) = False"

fun call_scan :: "disc_call \<Rightarrow> hit list" where
  "call_scan (Beat w t) = do_scan w"
| "call_scan (Probe w t) = do_scan w"

fun disc_step :: "disc_call \<Rightarrow> disc_state \<Rightarrow> (real \<times> bool \<times> hit list) list \<times> disc_state" where
  "disc_step (Beat w t) s = (let (ran, s') = maybe_run_periodic_scan w t s in (if ran then [(t, True, do_scan w)] else [], s'))"
| "disc_step (Probe w t) s = (let (hits, s') = run_immediate_scan w t s in ([(t, False, hits)], s'))"

fun disc_run :: "disc_call list \<Rightarrow> disc_state \<Rightarrow> (real \<times> bool \<times> hit list) list \<times> disc_state" where
  "disc_run [] s = ([], s)"
| "disc_run (c # cs) s = (let (l1, s1) = disc_step c s; (l2, s2) = disc_run cs s1 in (l1 @ l2, s2))"

text \<open>A scan of a beat comes no earlier than five minutes after any scan before it.\<close>

definition spaced :: "real \<times> bool \<times> hit list \<Rightarrow> real \<times> bool \<times> hit list \<Rightarrow> bool" where
  "spaced a b \<longleftrightarrow> (case (a, b) of ((t, _), (t', beat, _)) \<Rightarrow> beat \<longrightarrow> PERIODIC_INTERVAL \<le> t' - t)"

lemma disc_step_log:
  "disc_step c s = (l, s') \<Longrightarrow> l = [] \<and> s' = s \<or>
     l = [(call_time c, is_beat c, call_scan c)] \<and> s' = \<lparr>ds_last = call_time c, ds_cached = call_scan c\<rparr> \<and>
       (is_beat c \<longrightarrow> PERIODIC_INTERVAL \<le> call_time c - ds_last s)"
  by (cases c) (auto simp: maybe_run_periodic_scan_def run_immediate_scan_def set_cache_def split: if_splits)

lemma disc_run_log:
  assumes "disc_run cs s = (l, s')" "sorted (map call_time cs)" "list_all (\<lambda>c. ds_last s \<le> call_time c) cs"
  shows "sorted_wrt spaced ((ds_last s, False, []) # l) \<and> list_all (\<lambda>(t, _). ds_last s \<le> t) l \<and>
    (l = [] \<and> s' = s \<or> l \<noteq> [] \<and> s' = \<lparr>ds_last = fst (last l), ds_cached = snd (snd (last l))\<rparr>)"
  using assms
proof (induction cs arbitrary: s l)
  case (Cons c cs)
  obtain l1 s1 where step: "disc_step c s = (l1, s1)" by (cases "disc_step c s")
  obtain l2 s2 where run: "disc_run cs s1 = (l2, s2)" by (cases "disc_run cs s1")
  have l: "l = l1 @ l2" "s2 = s'" using Cons.prems(1) by (simp_all add: step run)
  from disc_step_log [OF step] show ?case
  proof (elim disjE exE conjE)
    assume "l1 = []" "s1 = s"
    then show ?thesis using Cons.IH [of s l2] run Cons.prems by (simp add: l)
  next
    assume l1: "l1 = [(call_time c, is_beat c, call_scan c)]" and s1: "s1 = \<lparr>ds_last = call_time c, ds_cached = call_scan c\<rparr>"
      and far: "is_beat c \<longrightarrow> PERIODIC_INTERVAL \<le> call_time c - ds_last s"
    have "list_all (\<lambda>c. ds_last s1 \<le> call_time c) cs" using Cons.prems(2) by (simp add: s1 list_all_iff)
    then have ih: "sorted_wrt spaced ((call_time c, False, []) # l2)" "list_all (\<lambda>(t, _). call_time c \<le> t) l2"
      "l2 = [] \<and> s' = s1 \<or> l2 \<noteq> [] \<and> s' = \<lparr>ds_last = fst (last l2), ds_cached = snd (snd (last l2))\<rparr>"
      using Cons.IH [OF run [unfolded l(2)]] Cons.prems(2) s1 by auto
    have now: "ds_last s \<le> call_time c" using Cons.prems(3) by simp
    have "spaced (ds_last s, False, []) x \<and> spaced (call_time c, is_beat c, call_scan c) x" if "x \<in> set l2" for x
      using ih(1,2) that now by (auto simp: spaced_def list_all_iff split: prod.splits)
    moreover have "spaced (ds_last s, False, []) (call_time c, is_beat c, call_scan c)" using far by (simp add: spaced_def)
    moreover have "list_all (\<lambda>(t, _). ds_last s \<le> t) l2" using ih(2) now by (auto simp: list_all_iff)
    ultimately show ?thesis using ih now by (auto simp: l l1 s1)
  qed
qed simp


text \<open>
  C33: Over any sequence of beats and probes with non-decreasing clock, scans started by beats come at least five minutes after
  every earlier scan, and what a beat reports are the hits of the newest scan, for at most ten minutes after it.\<close>

theorem discovery_is_paced:
  assumes "disc_run cs disc_start = (l, s')" "sorted (map call_time cs)" "list_all (\<lambda>c. 0 \<le> call_time c) cs"
  shows "sorted_wrt spaced l \<and>
    get_cached_hits now s' = (if l = [] \<or> 600 < now - fst (last l) then [] else snd (snd (last l)))"
proof -
  have "list_all (\<lambda>c. ds_last disc_start \<le> call_time c) cs" using assms(3) by (simp add: disc_start_def)
  from disc_run_log [OF assms(1,2) this] show ?thesis
    by (auto simp: get_cached_hits_def HIT_CACHE_TTL_def disc_start_def)
qed

definition demo_calls :: "disc_call list" where
  "demo_calls = [Beat ([\<lparr>hit_kind = ''moonraker'', hit_ip = ''10.0.0.5'', hit_hostname = None, hit_display = []\<rparr>], []) 400,
     Beat ([], []) 500, Probe ([], []) 600, Beat ([], []) 700]"

theorem discovery_is_paced_witness:
  "map fst (fst (disc_run demo_calls disc_start)) = [400, 600] \<and> sorted_wrt spaced (fst (disc_run demo_calls disc_start)) \<and>
   get_cached_hits 1300 (snd (disc_run demo_calls disc_start)) = []"
proof -
  obtain l s' where run: "disc_run demo_calls disc_start = (l, s')" by (cases "disc_run demo_calls disc_start")
  have l: "map fst l = [400, 600]" using run
    by (auto simp: demo_calls_def disc_start_def maybe_run_periodic_scan_def run_immediate_scan_def set_cache_def PERIODIC_INTERVAL_def)
  have "sorted (map call_time demo_calls)" "list_all (\<lambda>c. 0 \<le> call_time c) demo_calls" by (simp_all add: demo_calls_def)
  from discovery_is_paced [OF run this, of 1300] have "sorted_wrt spaced l"
    "get_cached_hits 1300 s' = (if l = [] \<or> 600 < 1300 - fst (last l) then [] else snd (snd (last l)))" by blast+
  moreover have "fst (last l) = 600" "l \<noteq> []" using l by (auto simp: last_map [symmetric])
  ultimately show ?thesis by (simp add: run l)
qed

text \<open>A hit of the sweep is an address that was probed and answered as Moonraker does.\<close>

lemma probe_hit:
  assumes "probe_moonraker loads get ip = Inr (Some h)"
  shows "hit_kind h = ''moonraker'' \<and> hit_ip h = ip \<and>
    (\<exists>body. http_get_json loads (get (moonraker_base ip @ ''/server/info'')) = Inr (Some body) \<and> is_moonraker_response body)"
proof -
  from assms obtain info where info: "http_get_json loads (get (moonraker_base ip @ ''/server/info'')) = Inr info"
    by (auto simp: probe_moonraker_def res_bind_eq_Inr)
  with assms obtain body where body: "info = Some body" by (cases info) (auto simp: probe_moonraker_def)
  with assms info have "is_moonraker_response body" by (cases "is_moonraker_response body") (auto simp: probe_moonraker_def)
  moreover from assms info body have "hit_kind h = ''moonraker'' \<and> hit_ip h = ip"
    by (auto simp: probe_moonraker_def res_bind_eq_Inr Let_def case_prod_beta simp del: filter.simps filter_append split: if_splits)
  ultimately show ?thesis using info body by blast
qed

lemma sweep_hits:
  assumes "h \<in> set (sweep_subnet completed (probe_moonraker loads get) network netmask own)"
    "\<And>ts. set (completed ts) \<subseteq> set ts"
  shows "hit_kind h = ''moonraker'' \<and> hit_ip h \<in> set (enumerate_sweep_targets network netmask own)"
  using assms by (auto simp: sweep_subnet_def Let_def map_filter_def dest!: probe_hit split: if_splits sum.splits option.splits) blast+

end
