(* ===== verification/LanCamera.thy ===== *)
theory LanCamera
  imports Bytes Diagnostics Camera
begin

text \<open>
  The two camera protocols of Bambu printers: raw JPEG frames over TLS, \<open>makeros_hub/printers/bambu_camera.py\<close>, and
  RTSPS through an \<open>ffmpeg\<close> process, \<open>makeros_hub/printers/rtsp_camera.py\<close>. What a socket delivers is a sequence of
  receive outcomes; what the process does is a sequence of rounds of \<open>select\<close>. Nonempty chunks make the socket loop
  end; the rounds end at the latest with the deadline. In the pattern that recognises a refused option every byte
  of a character beyond ASCII counts as a word character.
\<close>

section \<open>Frames in a stream\<close>

definition SOI :: "byte list" where
  "SOI = [0xFF, 0xD8, 0xFF]"

definition EOI :: "byte list" where
  "EOI = [0xFF, 0xD9]"

fun find_bytes :: "byte list \<Rightarrow> byte list \<Rightarrow> nat option" where
  "find_bytes pat [] = (if pat = [] then Some 0 else None)"
| "find_bytes pat (b # bs) = (if take (length pat) (b # bs) = pat then Some 0 else map_option Suc (find_bytes pat bs))"

definition slice :: "nat \<Rightarrow> nat \<Rightarrow> 'a list \<Rightarrow> 'a list" where
  "slice a b xs = drop a (take b xs)"

datatype recv = Chunk "byte list" | Recv_timeout | Recv_error

text \<open>\<open>Inl\<close> is the timeout that leaves the loop as an exception.\<close>

function read_loop :: "nat \<Rightarrow> (nat \<Rightarrow> recv) \<Rightarrow> nat \<Rightarrow> nat \<Rightarrow> byte list \<Rightarrow> byte list option result" where
  "read_loop max_bytes sock k got buf =
     (if max_bytes \<le> got then Inr None
      else (case sock k of
          Recv_timeout \<Rightarrow> Inl TimeoutErr
        | Recv_error \<Rightarrow> Inr None
        | Chunk chunk \<Rightarrow>
            if chunk = [] then Inr None
            else (let buf1 = buf @ chunk; got1 = got + length chunk; keep = length SOI - 1
              in case find_bytes SOI buf1 of
                  None \<Rightarrow> read_loop max_bytes sock (k + 1) got1 (drop (length buf1 - keep) buf1)
                | Some start \<Rightarrow> (case find_bytes EOI (drop (start + length SOI) buf1) of
                      None \<Rightarrow> read_loop max_bytes sock (k + 1) got1 buf1
                    | Some e \<Rightarrow> Inr (Some (slice start (start + length SOI + e + length EOI) buf1))))))"
  by pat_completeness auto
termination by (relation "measure (\<lambda>(max_bytes, sock, k, got, buf). max_bytes - got)") (auto simp: neq_Nil_conv)

declare read_loop.simps [simp del]

definition read_one_jpeg :: "(nat \<Rightarrow> recv) \<Rightarrow> nat \<Rightarrow> byte list option result" where
  "read_one_jpeg sock max_bytes = read_loop max_bytes sock 0 0 []"

section \<open>The raw camera\<close>

definition le4 :: "nat \<Rightarrow> byte list" where
  "le4 n = [byte_of_nat (n mod 256), byte_of_nat (n div 256 mod 256), byte_of_nat (n div 65536 mod 256), byte_of_nat (n div 16777216 mod 256)]"

definition ljust :: "nat \<Rightarrow> byte list \<Rightarrow> byte list" where
  "ljust n bs = bs @ replicate (n - length bs) 0"

definition auth_packet :: "string \<Rightarrow> byte list" where
  "auth_packet access_code = le4 0x40 @ le4 0x3000 @ le4 0 @ le4 0 @ ljust 32 (utf8_encode ''bblp'')
     @ ljust 32 (take 32 (filter (\<lambda>b. b < 128) (utf8_encode access_code)))"

text \<open>The connection: it fails in one of the ways the source tells apart, or the packet is sent and chunks come in.\<close>

datatype connection = Tls_failed string | Connect_timeout | Refused | Os_failed string | Connected "nat \<Rightarrow> recv"

definition capture_raw_frame :: "connection \<Rightarrow> string \<Rightarrow> string \<Rightarrow> nat \<Rightarrow> capture" where
  "capture_raw_frame conn host access_code max_bytes =
     (if host = [] \<or> access_code = [] then ([], Some ''unreachable'', [])
      else case conn of
          Tls_failed text \<Rightarrow> ([], Some ''tls-error'', py_take 200 text)
        | Connect_timeout \<Rightarrow> ([], Some ''timeout'', [])
        | Refused \<Rightarrow> ([], Some ''unreachable'', ''connection refused'')
        | Os_failed text \<Rightarrow> ([], Some ''unreachable'', py_take 200 text)
        | Connected sock \<Rightarrow> (case read_one_jpeg sock max_bytes of
              Inl e \<Rightarrow> ([], Some ''timeout'', [])
            | Inr (Some jpeg) \<Rightarrow> (jpeg, None, [])
            | Inr None \<Rightarrow> ([], Some ''liveview-off'', ''no frame (LAN-Mode Liveview off, or wrong access code)'')))"

section \<open>The command line of ffmpeg\<close>

definition word_char :: "char \<Rightarrow> bool" where
  "word_char c \<longleftrightarrow> is_alpha c \<or> is_digit c \<or> c = CHR ''_'' \<or> 128 \<le> (of_char c :: nat)"

text \<open>\<open>.*\bnot found\<close> after the character \<open>prev\<close>, within the line.\<close>

fun not_found_after :: "char \<Rightarrow> string \<Rightarrow> bool" where
  "not_found_after prev s = (startswith ''not found'' s \<and> \<not> word_char prev \<or>
     (case s of [] \<Rightarrow> False | c # cs \<Rightarrow> c \<noteq> CHR 0x0A \<and> not_found_after c cs))"

fun option_not_found :: "string \<Rightarrow> bool" where
  "option_not_found [] = False"
| "option_not_found (c # cs) =
     ((case drop 6 (c # cs) of x # rest \<Rightarrow> startswith ''option'' (c # cs) \<and> is_space x \<and> not_found_after x rest | [] \<Rightarrow> False) \<or>
      option_not_found cs)"

definition arg_error :: "string \<Rightarrow> bool" where
  "arg_error s \<longleftrightarrow> option_not_found s \<or> (\<exists>m \<in> set [''could not find option'', ''unrecognized option'',
     ''error splitting the argument list'', ''trailing option'']. contains m s)"

definition SOCKET_TIMEOUT_USEC :: string where
  "SOCKET_TIMEOUT_USEC = ''4000000''"

definition probe_argv :: "string \<Rightarrow> string list" where
  "probe_argv flag = [''ffmpeg'', ''-hide_banner'', ''-nostdin'', flag, SOCKET_TIMEOUT_USEC, ''-f'', ''lavfi'', ''-i'',
     ''nullsrc=s=16x16:d=0'', ''-frames:v'', ''0'', ''-f'', ''null'', ''-'']"

text \<open>A probe run prints to its error stream, or cannot be run or does not end in time (\<open>None\<close>).\<close>

fun probe_flags :: "(string list \<Rightarrow> string option) \<Rightarrow> string list \<Rightarrow> string list" where
  "probe_flags run [] = []"
| "probe_flags run (flag # flags) = (case run (probe_argv flag) of
      None \<Rightarrow> []
    | Some err \<Rightarrow> if arg_error (lower err) then probe_flags run flags else [flag, SOCKET_TIMEOUT_USEC])"

definition supported_timeout_flag :: "bool \<Rightarrow> (string list \<Rightarrow> string option) \<Rightarrow> string list" where
  "supported_timeout_flag available run = (if available then probe_flags run [''-rw_timeout'', ''-timeout'', ''-stimeout''] else [])"

definition hex_upper :: "nat \<Rightarrow> char" where
  "hex_upper d = ''0123456789ABCDEF'' ! d"

definition url_safe :: "char \<Rightarrow> bool" where
  "url_safe c \<longleftrightarrow> is_alpha c \<or> is_digit c \<or> c \<in> set ''_.-~''"

definition url_quote :: "string \<Rightarrow> string" where
  "url_quote s = concat (map (\<lambda>c. if url_safe c then [c]
     else (let n = (of_char c :: nat) in [CHR ''%'', hex_upper (n div 16), hex_upper (n mod 16)])) s)"

definition rtsp_url :: "string \<Rightarrow> string \<Rightarrow> string" where
  "rtsp_url host access_code = ''rtsps://bblp:'' @ url_quote access_code @ ''@'' @ host @ '':322/streaming/live/1''"

definition ffmpeg_argv :: "string list \<Rightarrow> string \<Rightarrow> string \<Rightarrow> string list" where
  "ffmpeg_argv timeout_flag host access_code =
     [''ffmpeg'', ''-nostdin'', ''-loglevel'', ''error'', ''-rtsp_transport'', ''tcp''] @ timeout_flag @
     [''-i'', rtsp_url host access_code, ''-frames:v'', ''1'', ''-f'', ''image2pipe'', ''-vcodec'', ''mjpeg'', ''pipe:1'']"

section \<open>Running it\<close>

text \<open>
  A round of \<open>select\<close> before the deadline: nothing became ready in time, or some of the two pipes did, with what
  reading at most 65536 and 4096 bytes gave, and whether the process was found to have ended.
\<close>

datatype round = Quiet | Ready "byte list option" "byte list option" bool

definition MAX_STDERR_BYTES :: nat where
  "MAX_STDERR_BYTES = 4 * 1024"

definition chunk_of :: "byte list option \<Rightarrow> byte list" where
  "chunk_of x = (case x of None \<Rightarrow> [] | Some c \<Rightarrow> c)"

text \<open>The two buffers, whether the deadline passed, whether the loop left by the byte cap; no more rounds: the deadline.\<close>

fun rounds :: "nat \<Rightarrow> round list \<Rightarrow> byte list \<Rightarrow> byte list \<Rightarrow> byte list \<times> byte list \<times> bool \<times> bool" where
  "rounds max_bytes rs buf err =
     (if max_bytes < length buf then (buf, err, False, True)
      else (case rs of
          [] \<Rightarrow> (buf, err, True, False)
        | Quiet # _ \<Rightarrow> (buf, err, True, False)
        | Ready out e ended # rest \<Rightarrow>
            (let out_chunk = take 65536 (chunk_of out); err_chunk = take 4096 (chunk_of e);
                 buf1 = buf @ out_chunk; err1 = err @ take (MAX_STDERR_BYTES - length err) err_chunk
             in if out_chunk = [] \<and> err_chunk = [] \<and> ended then (buf1, err1, False, False)
                else rounds max_bytes rest buf1 err1)))"

text \<open>
  The process: it could not be started, or it went through the rounds, left an exit status when waited for (\<open>None\<close>
  when it still had not ended after the kill), and its error pipe holds a tail.
\<close>

datatype process = Not_started string | Started "round list" "int option" "byte list"

definition run_ffmpeg :: "process \<Rightarrow> nat \<Rightarrow> byte list \<times> int option \<times> byte list \<times> bool" where
  "run_ffmpeg p max_bytes = (case p of
      Not_started text \<Rightarrow> ([], None, utf8_encode text, False)
    | Started rs exit tail \<Rightarrow>
        (let (buf, err, timed_out, over_cap) = rounds max_bytes rs [] []
         in (buf, (if over_cap \<or> timed_out then None else exit), err @ take (MAX_STDERR_BYTES - length err) tail, timed_out)))"

declare rounds.simps [simp del]

section \<open>What went wrong\<close>

function replace_by :: "string \<Rightarrow> string \<Rightarrow> string \<Rightarrow> string" where
  "replace_by new old [] = []"
| "replace_by new old (c # cs) = (if old \<noteq> [] \<and> startswith old (c # cs)
     then new @ replace_by new old (drop (length old) (c # cs)) else c # replace_by new old cs)"
  by pat_completeness auto
termination by (relation "measure (\<lambda>(new, old, s). length s)") auto

definition redact_access_code :: "string \<Rightarrow> string \<Rightarrow> string" where
  "redact_access_code t access_code = (if t = [] \<or> access_code = [] then t
     else replace_by ''***'' (url_quote access_code) (replace_by ''***'' access_code t))"

definition categorize_stderr :: "string \<Rightarrow> int option \<Rightarrow> bool \<Rightarrow> string" where
  "categorize_stderr stderr returncode timed_out =
     (let blob = lower stderr; has = (\<lambda>m. contains m blob)
      in if arg_error blob then ''ffmpeg-arg''
         else if timed_out then ''timeout''
         else if \<exists>m \<in> set [''no route to host'', ''network is unreachable'', ''connection refused'', ''name or service not known'',
              ''failed to resolve'', ''host is down'', ''connection timed out'']. has m then ''unreachable''
         else if has ''401 unauthorized'' \<or> has ''403 forbidden'' then ''auth-fail''
         else if has ''404 not found'' \<or> has ''rtsp/1.0 404'' \<or> has ''stream not found'' \<or> has ''describe'' \<and> has ''404'' then ''liveview-off''
         else if (has ''tls'' \<or> has ''ssl'') \<and> (has ''handshake'' \<or> has ''error'') then ''tls-error''
         else if has ''operation timed out'' \<or> has ''timed out'' then ''timeout''
         else if returncode = None then ''timeout''
         else ''unknown'')"

text \<open>The last of \<open>splitlines\<close> of a stripped text, as far as line ends are ASCII, and the last 400 characters of a text.\<close>

definition line_end :: "char \<Rightarrow> bool" where
  "line_end c \<longleftrightarrow> (of_char c :: nat) \<in> {10, 11, 12, 13, 28, 29, 30}"

definition last_line :: "string \<Rightarrow> string" where
  "last_line s = rev (takeWhile (\<lambda>c. \<not> line_end c) (rev s))"

definition py_last :: "nat \<Rightarrow> string \<Rightarrow> string" where
  "py_last n s = (if n < py_len s then drop (length (py_take (py_len s - n) s)) s else s)"

definition MAX_RTSP_FRAME_BYTES :: nat where
  "MAX_RTSP_FRAME_BYTES = 4 * 1024 * 1024"

definition capture_rtsp_frame :: "bool \<Rightarrow> string list \<Rightarrow> (string list \<Rightarrow> process) \<Rightarrow> string \<Rightarrow> string \<Rightarrow> nat \<Rightarrow> capture" where
  "capture_rtsp_frame available timeout_flag start host access_code max_bytes =
     (if host = [] \<or> access_code = [] then ([], Some ''unreachable'', [])
      else if \<not> available then ([], Some ''no-ffmpeg'', [])
      else (let (out, returncode, stderr, timed_out) = run_ffmpeg (start (ffmpeg_argv timeout_flag host access_code)) max_bytes;
                redacted = strip (redact_access_code (utf8_decode stderr) access_code);
                stderr_tail = py_last 400 (last_line redacted)
            in if returncode \<noteq> Some 0 then ([], Some (categorize_stderr redacted returncode timed_out), stderr_tail)
               else if out = [] \<or> max_bytes < length out \<or> take 3 out \<noteq> SOI \<or> drop (length out - 2) out \<noteq> EOI
                 then ([], Some ''bad-jpeg'', stderr_tail)
               else (out, None, [])))"


section \<open>The frame read is the first of the stream\<close>

text \<open>Reference: keep everything that was received, and stop at the first complete frame in it.\<close>

definition frame_in :: "byte list \<Rightarrow> byte list option" where
  "frame_in s = (case find_bytes SOI s of
      None \<Rightarrow> None
    | Some i \<Rightarrow> map_option (\<lambda>e. slice i (i + length SOI + e + length EOI) s) (find_bytes EOI (drop (i + length SOI) s)))"

function plain_loop :: "nat \<Rightarrow> (nat \<Rightarrow> recv) \<Rightarrow> nat \<Rightarrow> byte list \<Rightarrow> byte list option result" where
  "plain_loop max_bytes sock k acc =
     (if max_bytes \<le> length acc then Inr None
      else (case sock k of
          Recv_timeout \<Rightarrow> Inl TimeoutErr
        | Recv_error \<Rightarrow> Inr None
        | Chunk chunk \<Rightarrow>
            if chunk = [] then Inr None
            else (case frame_in (acc @ chunk) of
                Some jpeg \<Rightarrow> Inr (Some jpeg)
              | None \<Rightarrow> plain_loop max_bytes sock (k + 1) (acc @ chunk))))"
  by pat_completeness auto
termination by (relation "measure (\<lambda>(max_bytes, sock, k, acc). max_bytes - length acc)") (auto simp: neq_Nil_conv)

declare plain_loop.simps [simp del]

lemma map_plus_0 [simp]: "map_option ((+) (0 :: nat)) x = x"
  by (cases x) simp_all

lemma map_plus_plus: "map_option ((+) a) (map_option ((+) b) x) = map_option ((+) (a + b :: nat)) x"
  by (cases x) simp_all

lemma find_bytes_drop:
  "find_bytes pat s = None \<Longrightarrow> n = 0 \<or> n + length pat \<le> length s + 1 \<Longrightarrow>
   find_bytes pat (s @ t) = map_option ((+) n) (find_bytes pat (drop n s @ t))"
proof (induction n arbitrary: s)
  case 0
  then show ?case by (simp add: option.map_ident)
next
  case (Suc n)
  then obtain b bs where s: "s = b # bs" by (cases s) (auto split: if_splits)
  with Suc.prems have no: "take (length pat) (b # bs) \<noteq> pat" "find_bytes pat bs = None" by (auto split: if_splits)
  have "take (length pat) (b # bs @ t) = take (length pat) (b # bs)" using Suc.prems(2) by (cases pat) (auto simp: s)
  then have "find_bytes pat (s @ t) = map_option Suc (find_bytes pat (bs @ t))" using no(1) by (simp add: s)
  also have "\<dots> = map_option Suc (map_option ((+) n) (find_bytes pat (drop n bs @ t)))"
    using Suc.IH [OF no(2)] Suc.prems(2) by (simp add: s)
  finally show ?case by (simp add: s option.map_comp comp_def)
qed

lemma frame_shift:
  assumes "\<And>t. find_bytes SOI ((junk @ buf) @ t) = map_option ((+) (length junk)) (find_bytes SOI (buf @ t))"
  shows "frame_in ((junk @ buf) @ t) = frame_in (buf @ t)"
proof -
  have "slice (length junk + i) (length junk + j) ((junk @ buf) @ t) = slice i j (buf @ t)" for i j
    by (simp add: slice_def)
  moreover have "drop (length junk + i + length SOI) ((junk @ buf) @ t) = drop (i + length SOI) (buf @ t)" for i
    by (simp add: add.assoc)
  ultimately show ?thesis
    using assms [of t] by (simp add: frame_in_def add.assoc option.map_comp comp_def split: option.split)
qed

lemma read_loop_plain:
  "(\<And>t. find_bytes SOI ((junk @ buf) @ t) = map_option ((+) (length junk)) (find_bytes SOI (buf @ t))) \<Longrightarrow>
   got = length (junk @ buf) \<Longrightarrow> read_loop max_bytes sock k got buf = plain_loop max_bytes sock k (junk @ buf)"
proof (induction max_bytes sock k got buf arbitrary: junk rule: read_loop.induct)
  case (1 max_bytes sock k got buf)
  note inv = "1.prems"(1) and got = "1.prems"(2)
  show ?case
  proof (cases "max_bytes \<le> got")
    case True
    then show ?thesis using got by (simp add: read_loop.simps plain_loop.simps)
  next
    case more: False
    show ?thesis
    proof (cases "sock k")
      case (Chunk chunk)
      show ?thesis
      proof (cases "chunk = []")
        case True
        then show ?thesis using got Chunk by (simp add: read_loop.simps plain_loop.simps)
      next
        case chunk: False
        have got1: "got + length chunk = length ((junk @ buf) @ chunk)" using got by simp
        have frame: "frame_in ((junk @ buf) @ chunk) = frame_in (buf @ chunk)" by (rule frame_shift [OF inv])
        have shift: "find_bytes SOI ((junk @ buf @ chunk) @ t) = map_option ((+) (length junk)) (find_bytes SOI ((buf @ chunk) @ t))" for t
          using inv [of "chunk @ t"] by simp
        have plain: "plain_loop max_bytes sock k (junk @ buf) = (case frame_in (buf @ chunk) of
            Some jpeg \<Rightarrow> Inr (Some jpeg) | None \<Rightarrow> plain_loop max_bytes sock (k + 1) ((junk @ buf) @ chunk))"
          using more got Chunk chunk frame by (simp add: plain_loop.simps [of _ _ k])
        show ?thesis
        proof (cases "find_bytes SOI (buf @ chunk)")
          case None
          let ?n = "length (buf @ chunk) - (length SOI - 1)"
          have cut: "?n = 0 \<or> ?n + length SOI \<le> length (buf @ chunk) + 1" by (simp add: SOI_def) linarith
          define x where "x = buf @ chunk"
          have n: "?n = length x - (length SOI - 1)" by (simp add: x_def)
          have len: "length (junk @ take ?n x) = length junk + ?n" unfolding n by simp
          have inv1: "find_bytes SOI ((junk @ x) @ t) = map_option ((+) (length (junk @ take ?n x))) (find_bytes SOI (drop ?n x @ t))" for t
            using shift [of t, folded x_def] find_bytes_drop [OF None cut, of t, folded x_def]
            unfolding len by (simp only: n map_plus_plus append_assoc)
          have join: "(junk @ take ?n x) @ drop ?n x = junk @ x" by simp
          have "read_loop max_bytes sock (k + 1) (got + length chunk) (drop ?n (buf @ chunk)) =
              plain_loop max_bytes sock (k + 1) ((junk @ take ?n x) @ drop ?n (buf @ chunk))"
          proof (rule "1.IH"(1) [OF more Chunk chunk refl refl refl None])
            show "find_bytes SOI (((junk @ take ?n x) @ drop ?n (buf @ chunk)) @ t) =
                map_option ((+) (length (junk @ take ?n x))) (find_bytes SOI (drop ?n (buf @ chunk) @ t))" for t
              using inv1 [of t] join by (simp only: x_def)
            show "got + length chunk = length ((junk @ take ?n x) @ drop ?n (buf @ chunk))"
              using join by (simp only: x_def) (simp add: got)
          qed
          then have "read_loop max_bytes sock (k + 1) (got + length chunk) (drop ?n (buf @ chunk)) =
              plain_loop max_bytes sock (k + 1) (junk @ buf @ chunk)"
            using join by (simp only: x_def)
          moreover have "frame_in (buf @ chunk) = None" by (simp add: frame_in_def None)
          ultimately show ?thesis using more Chunk chunk None plain by (simp add: read_loop.simps [of _ _ k] Let_def)
        next
          case (Some start)
          show ?thesis
          proof (cases "find_bytes EOI (drop (start + length SOI) (buf @ chunk))")
            case None
            have "read_loop max_bytes sock (k + 1) (got + length chunk) (buf @ chunk) =
                plain_loop max_bytes sock (k + 1) (junk @ buf @ chunk)"
              by (intro "1.IH"(2) [OF more Chunk chunk refl refl refl Some None] shift) (simp add: got1)
            moreover have "frame_in (buf @ chunk) = None" using Some None by (simp add: frame_in_def)
            ultimately show ?thesis using more Chunk chunk Some None plain by (simp add: read_loop.simps [of _ _ k] Let_def)
          next
            case (Some e)
            then show ?thesis using more Chunk chunk \<open>find_bytes SOI (buf @ chunk) = Some start\<close> plain
              by (simp add: read_loop.simps [of _ _ k] Let_def frame_in_def)
          qed
        qed
      qed
    qed (use got more in \<open>simp_all add: read_loop.simps plain_loop.simps\<close>)
  qed
qed

text \<open>
  C34: The reader of the raw camera, which throws away bytes that cannot start a frame, gives exactly what keeping the
  whole stream would give: the first frame from a start marker to the next end marker, wherever the chunks split the
  markers, an exception on a stalled read, or nothing once the byte limit is reached or the peer closes.\<close>

theorem raw_frame_is_first_in_stream: "read_one_jpeg sock max_bytes = plain_loop max_bytes sock 0 []"
  using read_loop_plain [of "[]" "[]"] by (simp add: read_one_jpeg_def)


section \<open>The bounds of a run\<close>

lemma rounds_bounded:
  "rounds max_bytes rs buf err = (buf1, err1, late, capped) \<Longrightarrow> length buf \<le> max_bytes + 65536 \<Longrightarrow> length err \<le> MAX_STDERR_BYTES \<Longrightarrow>
   length buf1 \<le> max_bytes + 65536 \<and> length err1 \<le> MAX_STDERR_BYTES"
proof (induction max_bytes rs buf err arbitrary: buf1 err1 rule: rounds.induct)
  case (1 max_bytes rs buf err)
  show ?case
  proof (cases "max_bytes < length buf")
    case True
    then show ?thesis using "1.prems" by (auto simp: rounds.simps)
  next
    case False
    note within = False
    show ?thesis
    proof (cases rs)
      case (Cons r rest)
      show ?thesis
      proof (cases r)
        case (Ready out e ended)
        let ?b = "buf @ take 65536 (chunk_of out)" and ?e = "err @ take (MAX_STDERR_BYTES - length err) (take 4096 (chunk_of e))"
        have bounds: "length ?b \<le> max_bytes + 65536" "length ?e \<le> MAX_STDERR_BYTES" using within "1.prems" by simp_all
        show ?thesis
        proof (cases "take 65536 (chunk_of out) = [] \<and> take 4096 (chunk_of e) = [] \<and> ended")
          case True
          then show ?thesis using "1.prems" within Cons Ready bounds by (auto simp: rounds.simps [of max_bytes "y # ys" buf for y ys] Let_def)
        next
          case False
          have "rounds max_bytes rest ?b ?e = (buf1, err1, late, capped)"
            using "1.prems"(1) within Cons Ready False by (auto simp: rounds.simps [of max_bytes "y # ys" buf for y ys] Let_def split: if_splits)
          then show ?thesis
            using "1.IH" [OF within Cons Ready refl refl refl refl False _ bounds] by blast
        qed
      qed (use "1.prems" within Cons in \<open>auto simp: rounds.simps\<close>)
    qed (use "1.prems" within in \<open>auto simp: rounds.simps\<close>)
  qed
qed

lemma run_ffmpeg_bounded:
  assumes "run_ffmpeg p max_bytes = (out, rc, err, late)"
  shows "length out \<le> max_bytes + 65536"
proof (cases p)
  case (Started rs exit tail)
  obtain buf e l c where r: "rounds max_bytes rs [] [] = (buf, e, l, c)" by (metis surj_pair)
  from rounds_bounded [OF r] have "length buf \<le> max_bytes + 65536" by simp
  then show ?thesis using assms by (auto simp: run_ffmpeg_def Started r)
qed (use assms in \<open>auto simp: run_ffmpeg_def\<close>)

section \<open>What a capture by ffmpeg reports\<close>

definition rtsp_reasons :: "string list" where
  "rtsp_reasons = [''no-ffmpeg'', ''ffmpeg-arg'', ''liveview-off'', ''auth-fail'', ''unreachable'', ''tls-error'', ''timeout'', ''bad-jpeg'', ''unknown'']"

lemma categorize_known: "categorize_stderr t rc late \<in> set rtsp_reasons"
  by (simp add: categorize_stderr_def rtsp_reasons_def Let_def)

lemma prefix_replace_by: "prefix p (replace_by ''***'' old t) \<Longrightarrow> CHR ''*'' \<notin> set p \<Longrightarrow> prefix p t"
proof (induction "''***''" old t arbitrary: p rule: replace_by.induct)
  case (2 old c cs)
  show ?case
  proof (cases p)
    case (Cons d ds)
    have "\<not> (old \<noteq> [] \<and> startswith old (c # cs))" using "2.prems" Cons by (auto split: if_splits)
    with 2 Cons show ?thesis by (auto split: if_splits)
  qed simp
qed simp

lemma absent_replace_by: "s \<noteq> [] \<Longrightarrow> CHR ''*'' \<notin> set s \<Longrightarrow> \<not> sublist s (replace_by ''***'' s t)"
proof (induction "''***''" s t rule: replace_by.induct)
  case (2 s c cs)
  show ?case
  proof (cases "startswith s (c # cs)")
    case True
    have "\<not> sublist s (''***'' @ replace_by ''***'' s (drop (length s) (c # cs)))"
    proof
      assume "sublist s (''***'' @ replace_by ''***'' s (drop (length s) (c # cs)))"
      then have "sublist s (replace_by ''***'' s (drop (length s) (c # cs)))"
        using 2 by (auto simp: sublist_Cons_right prefix_Cons)
      then show False using 2 True by simp
    qed
    then show ?thesis using True 2 by simp
  next
    case False
    have "\<not> prefix s (c # replace_by ''***'' s cs)"
    proof
      assume "prefix s (c # replace_by ''***'' s cs)"
      with 2 obtain s' where s': "s = c # s'" "prefix s' (replace_by ''***'' s cs)" by (auto simp: prefix_Cons)
      then have "prefix s (c # cs)" using 2 prefix_replace_by [of s' s cs] by auto
      with False show False by (auto simp: startswith_def prefix_def)
    qed
    with 2 False show ?thesis by (simp add: sublist_Cons_right)
  qed
qed simp

lemma hex_upper_plain: "d < 16 \<Longrightarrow> hex_upper d \<noteq> CHR ''*''"
proof -
  have "list_all (\<lambda>d. hex_upper d \<noteq> CHR ''*'') [0..<16]" by code_simp
  then have "\<forall>d \<in> {0..<16}. hex_upper d \<noteq> CHR ''*''" by (simp only: list_all_iff set_upt)
  then show "d < 16 \<Longrightarrow> ?thesis" by simp
qed

lemma url_quote_plain: "CHR ''*'' \<notin> set (url_quote s)" "s \<noteq> [] \<Longrightarrow> url_quote s \<noteq> []"
proof -
  have lt: "(of_char c :: nat) div 16 < 16" for c :: char using nat_of_char_less_256 [of c] by linarith
  have "\<not> url_safe (CHR ''*'')" by (simp add: url_safe_def is_alpha_def is_digit_def)
  then show "CHR ''*'' \<notin> set (url_quote s)"
    using lt by (auto simp: url_quote_def Let_def hex_upper_plain hex_upper_plain [THEN not_sym] split: if_splits)
  show "s \<noteq> [] \<Longrightarrow> url_quote s \<noteq> []" by (cases s) (auto simp: url_quote_def Let_def)
qed

lemma redacted_absent: "access_code \<noteq> [] \<Longrightarrow> \<not> sublist (url_quote access_code) (redact_access_code t access_code)"
  using url_quote_plain absent_replace_by by (simp add: redact_access_code_def)

lemma tail_sublist: "sublist (py_last n (last_line s)) s"
proof -
  have "sublist (last_line s) s"
    unfolding last_line_def by (metis takeWhile_dropWhile_id rev_append rev_rev_ident sublist_append_leftI sublist_appendI suffixI suffix_imp_sublist)
  moreover have "sublist (py_last n t) t" for t
    by (simp add: py_last_def sublist_drop)
  ultimately show ?thesis using sublist_order.order_trans by blast
qed


definition jpeg_ok :: "nat \<Rightarrow> byte list \<Rightarrow> bool" where
  "jpeg_ok max_bytes f \<longleftrightarrow> length f \<le> max_bytes \<and> take 3 f = SOI \<and> drop (length f - 2) f = EOI"

lemma py_len_take_le: "py_len (py_last n s) \<le> n"
proof -
  have split: "py_take k t @ drop (length (py_take k t)) t = t" for k t
    by (induction k t rule: py_take.induct) (auto split: nat.splits)
  have len: "py_len (a @ b) = py_len a + py_len b" for a b by (simp add: py_len_def)
  have take: "k \<le> py_len t \<Longrightarrow> k \<le> py_len (py_take k t)" for k t
  proof (induction k t rule: py_take.induct)
    case (2 k c cs)
    then show ?case by (cases k) (auto simp: py_len_def)
  qed simp
  show ?thesis
  proof (cases "n < py_len s")
    case True
    let ?k = "py_len s - n"
    have "py_len (py_take ?k s) + py_len (drop (length (py_take ?k s)) s) = py_len s"
      using len [of "py_take ?k s" "drop (length (py_take ?k s)) s"] split [of ?k s] by simp
    then show ?thesis using True take [of ?k s] by (simp add: py_last_def)
  qed (simp add: py_last_def)
qed

lemma run_capture:
  assumes "host \<noteq> []" "access_code \<noteq> []" "available"
    "run_ffmpeg (start (ffmpeg_argv flag host access_code)) max_bytes = (out, rc, err, late)"
    "red = strip (redact_access_code (utf8_decode err) access_code)"
  shows "capture_rtsp_frame available flag start host access_code max_bytes =
     (if rc \<noteq> Some 0 then ([], Some (categorize_stderr red rc late), py_last 400 (last_line red))
      else if out = [] \<or> \<not> jpeg_ok max_bytes out then ([], Some ''bad-jpeg'', py_last 400 (last_line red))
      else (out, None, []))"
  using assms by (simp add: capture_rtsp_frame_def jpeg_ok_def not_le Let_def)

text \<open>
  C35: Whatever the ffmpeg process does, a capture either gives a complete frame within the limit and no reason, or no frame
  and one of the reasons the cloud knows; the excerpt of the error output has at most 400 characters and does not
  contain the access code as the URL spelled it (which is the code itself when it has only letters and digits).\<close>

theorem rtsp_capture_accounted:
  assumes "access_code \<noteq> []" "capture_rtsp_frame available flag start host access_code max_bytes = (jpeg, reason, detail)"
  shows "(case reason of None \<Rightarrow> jpeg \<noteq> [] \<and> jpeg_ok max_bytes jpeg \<and> detail = []
      | Some r \<Rightarrow> jpeg = [] \<and> r \<in> set rtsp_reasons) \<and>
    py_len detail \<le> 400 \<and> \<not> sublist (url_quote access_code) detail"
proof -
  obtain out rc err late where run: "run_ffmpeg (start (ffmpeg_argv flag host access_code)) max_bytes = (out, rc, err, late)"
    by (metis surj_pair)
  let ?red = "strip (redact_access_code (utf8_decode err) access_code)"
  have "\<not> sublist (url_quote access_code) ?red"
    using redacted_absent [OF assms(1)] strip_sublist sublist_order.order_trans by blast
  then have tail: "\<not> sublist (url_quote access_code) (py_last 400 (last_line ?red))"
    using tail_sublist sublist_order.order_trans by blast
  have none: "\<not> sublist (url_quote access_code) []" using url_quote_plain(2) [OF assms(1)] by simp
  have reasons: "''unreachable'' \<in> set rtsp_reasons" "''no-ffmpeg'' \<in> set rtsp_reasons" "''bad-jpeg'' \<in> set rtsp_reasons"
    by (simp_all add: rtsp_reasons_def)
  show ?thesis
  proof (cases "host = [] \<or> \<not> available")
    case True
    then show ?thesis using assms(2) none reasons by (auto simp: capture_rtsp_frame_def assms(1) py_len_def split: if_splits)
  next
    case False
    then have host: "host \<noteq> []" and avail: available by simp_all
    show ?thesis
      using assms(2) tail none reasons(3) categorize_known [of ?red rc late] py_len_take_le [of 400 "last_line ?red"]
      unfolding run_capture [OF host assms(1) avail, of start flag max_bytes out rc err late, OF run refl] by (auto simp: py_len_def [of "[]"] split: if_splits)
  qed
qed

lemma refused_option_is_named:
  assumes "host \<noteq> []" "access_code \<noteq> []" "available"
    "run_ffmpeg (start (ffmpeg_argv flag host access_code)) max_bytes = (out, rc, err, late)"
    "rc \<noteq> Some 0" "arg_error (lower (strip (redact_access_code (utf8_decode err) access_code)))"
  shows "fst (snd (capture_rtsp_frame available flag start host access_code max_bytes)) = Some ''ffmpeg-arg''"
  using assms(5,6) unfolding run_capture [OF assms(1-3), of start flag max_bytes out rc err late, OF assms(4) refl] by (simp add: categorize_stderr_def)


definition demo_text :: string where
  "demo_text = ''rtsps://bblp:1234@h: 401 Unauthorized''"

definition demo_process :: process where
  "demo_process = Started [Ready None (Some (utf8_encode demo_text)) False, Ready None None True] (Some 1) []"

lemma demo_run: "run_ffmpeg demo_process 1000 = ([], Some 1, utf8_encode demo_text, False)"
  by (simp add: run_ffmpeg_def demo_process_def rounds.simps chunk_of_def demo_text_def MAX_STDERR_BYTES_def)

lemma demo_redacted: "strip (redact_access_code demo_text ''1234'') = ''rtsps://bblp:***@h: 401 Unauthorized''"
  by code_simp

lemma demo_reason: "categorize_stderr ''rtsps://bblp:***@h: 401 Unauthorized'' (Some 1) False = ''auth-fail''"
  by code_simp

lemma demo_decoded: "utf8_decode (utf8_encode demo_text) = demo_text"
  by code_simp

lemma demo_rtsp_capture:
  "capture_rtsp_frame True [] (\<lambda>argv. demo_process) ''h'' ''1234'' 1000 =
     ([], Some ''auth-fail'', py_last 400 (last_line ''rtsps://bblp:***@h: 401 Unauthorized''))"
  using run_capture [of "''h''" "''1234''" True "\<lambda>argv. demo_process" "[]" 1000, OF _ _ _ demo_run refl]
  by (simp add: demo_decoded demo_redacted demo_reason)

theorem rtsp_capture_accounted_witness:
  "''auth-fail'' \<in> set rtsp_reasons \<and> \<not> sublist ''1234'' (py_last 400 (last_line ''rtsps://bblp:***@h: 401 Unauthorized''))"
proof -
  have "url_quote ''1234'' = ''1234''" by code_simp
  with rtsp_capture_accounted [OF _ demo_rtsp_capture] show ?thesis by simp
qed

text \<open>One read may bring 65536 bytes, so the buffer can pass the limit by far more than one byte.\<close>

lemma frame_buffer_overshoots:
  "length (fst (run_ffmpeg (Started [Ready (Some (replicate 65536 0)) None False] (Some 0) []) 10)) = 65536"
  by (simp add: run_ffmpeg_def rounds.simps chunk_of_def Let_def split: prod.split)

lemma reported_frames_start_right:
  "read_one_jpeg (\<lambda>k. if k = 0 then Chunk [0, 0xFF] else if k = 1 then Chunk [0xD8] else Chunk [0xFF, 1, 0xFF, 0xD9, 7]) 100 =
     Inr (Some [0xFF, 0xD8, 0xFF, 1, 0xFF, 0xD9])"
  by code_simp

end
