(* ===== verification/Sensing.thy ===== *)
theory Sensing
  imports Camera FailureWatch Detector Discovery Heartbeat
begin

text \<open>
  What a beat of the main loop (\<open>makeros_hub/agent.py\<close>, the middle of \<open>run\<close>) collects before it reports: camera frames,
  pushed to their own endpoint, failure-watch samples of those frames, the state of the detector, the certificates of
  the virtual printers, the cached hits of the discovery, and the metrics of the box. Every phase catches what it
  raises, records it in the diagnostics and goes on without its data. A frame is kept as bytes; the base64 text the
  source carries it in is decoded to the same bytes.
  One reading of the clock stands for the several readings of a beat.
\<close>

section \<open>Environment and state of the phases\<close>

text \<open>\<open>se_targets\<close> is read once for the camera and once for the failure watch; either read may raise.\<close>

record sense_env =
  se_targets :: "printer list result"
  se_watch_targets :: "printer list result"
  se_force_camera :: bool
  se_statuses :: "(string \<times> pyval) list list"
  se_capture :: "printer \<Rightarrow> capture option"
  se_finished :: "nat list"
  se_clock :: real
  se_camera_url :: string
  se_format :: "real \<Rightarrow> string"
  se_around :: "surroundings result"
  se_readings :: "readings result"
  se_text :: "py_exc \<Rightarrow> string"
  se_read_ca :: "string \<Rightarrow> (string \<times> string) option result"

record sense_state =
  sn_scheduler :: scheduler
  sn_smoother :: smoother
  sn_warned :: real
  sn_discovery :: disc_state
  sn_posts :: "(string \<times> byte list) list"
  sn_notes :: "(string \<times> string) list"

definition add_note :: "string \<Rightarrow> string \<Rightarrow> sense_state \<Rightarrow> sense_state" where
  "add_note subsystem msg s = s\<lparr>sn_notes := sn_notes s @ [(subsystem, msg)]\<rparr>"

definition raised :: "sense_env \<Rightarrow> string \<Rightarrow> string \<Rightarrow> py_exc \<Rightarrow> sense_state \<Rightarrow> sense_state" where
  "raised env subsystem what e s = add_note subsystem (what @ redact (se_text env e) []) s"

section \<open>The camera\<close>

definition camera_eligible :: "bool \<Rightarrow> printer list \<Rightarrow> printer list" where
  "camera_eligible force targets = filter (\<lambda>t. force \<or> truthy (pget t ''cameraEnabled'')) targets"

definition printer_ids :: "printer list \<Rightarrow> string list" where
  "printer_ids ts = List.map_filter (\<lambda>t. case pget t ''printerId'' of PStr p \<Rightarrow> if p \<noteq> [] then Some p else None | _ \<Rightarrow> None) ts"

fun status_by_id :: "(string \<times> pyval) list list \<Rightarrow> (string, (string \<times> pyval) list) odict \<Rightarrow> (string, (string \<times> pyval) list) odict" where
  "status_by_id [] d = d"
| "status_by_id (s # ss) d = status_by_id ss (case pget s ''printerId'' of
     PStr p \<Rightarrow> if p \<noteq> [] then AList.update p s d else d | _ \<Rightarrow> d)"

text \<open>A post may fail; the failure is logged and the next one is tried.\<close>

definition push_camera_frames :: "string \<Rightarrow> frame list \<Rightarrow> capture_failure list \<Rightarrow> (string \<times> byte list) list" where
  "push_camera_frames url frames failures =
     map (\<lambda>f. (url @ ''?printerId='' @ fr_printer f, fr_jpeg f)) (filter (\<lambda>f. fr_printer f \<noteq> [] \<and> fr_jpeg f \<noteq> []) frames) @
     map (\<lambda>f. (url @ ''?printerId='' @ cf_printer f @ ''&failed=1'', [])) (filter (\<lambda>f. cf_printer f \<noteq> []) failures)"

fun count_reasons :: "capture_failure list \<Rightarrow> (string, nat) odict \<Rightarrow> (string, nat) odict" where
  "count_reasons [] d = d"
| "count_reasons (f # fs) d = (let r = (if cf_reason f = [] then ''unknown'' else cf_reason f)
     in count_reasons fs (AList.update r (get_or d r 0 + 1) d))"

definition reason_summary :: "capture_failure list \<Rightarrow> string" where
  "reason_summary fs = (let d = count_reasons fs []
     in join '', '' (map (\<lambda>r. r @ ''='' @ nat_str (get_or d r 0)) (sort (keys d))))"

definition camera_phase :: "sense_env \<Rightarrow> sense_state \<Rightarrow> frame list \<times> sense_state" where
  "camera_phase env s = (case se_targets env of
      Inl e \<Rightarrow> ([], raised env ''camera'' ''frame collection failed: '' e s)
    | Inr targets \<Rightarrow>
        (let eligible = camera_eligible (se_force_camera env) targets;
             kept = scheduler_forget (set (printer_ids eligible)) (sn_scheduler s)
         in if eligible = [] then ([], s\<lparr>sn_scheduler := kept\<rparr>)
            else (let by_id = status_by_id (se_statuses env) [];
                      ((frames, failures), sc) = collect_camera_frames (se_capture env) (se_finished env) eligible
                        (\<lambda>p. get_or by_id p []) (se_clock env) kept;
                      s1 = s\<lparr>sn_scheduler := sc, sn_posts := sn_posts s @ push_camera_frames (se_camera_url env) frames failures\<rparr>
                  in (frames, if failures = [] then s1
                       else add_note ''camera'' (''no frame from '' @ nat_str (length failures) @ ''/'' @ nat_str (length eligible) @ '' eligible: ''
                         @ reason_summary failures) s1))))"

section \<open>The failure watch\<close>

definition watch_phase :: "sense_env \<Rightarrow> (byte list \<Rightarrow> real option) \<Rightarrow> frame list \<Rightarrow> sense_state \<Rightarrow> sample list \<times> sense_state" where
  "watch_phase env det frames s =
     (if frames = [] then ([], s)
      else (case se_watch_targets env of
          Inl e \<Rightarrow> ([], raised env ''failure_watch'' ''sample collection failed: '' e s)
        | Inr targets \<Rightarrow>
            (let by_frame = fold (\<lambda>f. AList.update (fr_printer f) (fr_jpeg f)) frames [];
                 ((samples, dropped), sm) = collect_failure_samples det (se_clock env) targets
                   (status_by_id (se_statuses env) []) by_frame (sn_smoother s);
                 s1 = s\<lparr>sn_smoother := sm\<rparr>
             in (samples, if dropped = 0 then s1
                  else add_note ''failure_watch'' (''detector raised on '' @ nat_str dropped @ '' eligible frame(s) this beat'') s1))))"

text \<open>The detector in use: the one the boot has built, or the stub.\<close>

definition STUB_REWARN_INTERVAL :: real where
  "STUB_REWARN_INTERVAL = 24 * 60 * 60"

definition dash :: string where
  "dash = [CHR 0xE2, CHR 0x80, CHR 0x94]"

definition outcome_text :: "boot_outcome \<Rightarrow> string" where
  "outcome_text o' = (case o' of Active \<Rightarrow> ''active'' | Stub_no_url \<Rightarrow> ''stub_no_url'' | Stub_no_deps \<Rightarrow> ''stub_no_deps''
     | Stub_download_failed \<Rightarrow> ''stub_download_failed'')"

definition detector_phase :: "sense_env \<Rightarrow> string \<Rightarrow> holder \<Rightarrow> sense_state \<Rightarrow> sense_state" where
  "detector_phase env model_sha h s = (case ho_detector h of
      Some det \<Rightarrow> (case latency_summary det of
          (n, Some med, Some mx) \<Rightarrow> add_note ''detector'' (''active model='' @ take 12 model_sha @ '' latency_ms median='' @ se_format env med
            @ '' max='' @ se_format env mx @ '' n='' @ nat_str n) s
        | _ \<Rightarrow> add_note ''detector'' (''active model='' @ take 12 model_sha @ '' (no samples yet)'') s)
    | None \<Rightarrow> (case ho_outcome h of
          Some out \<Rightarrow> if STUB_REWARN_INTERVAL < se_clock env - sn_warned s
            then (add_note ''detector'' (''stub mode ('' @ outcome_text out @ '') '' @ dash @ '' AI failure-watch inactive. Pin MAKEROS_HUB_MODEL_URL+SHA256 to activate.'') s)\<lparr>sn_warned := se_clock env\<rparr> else s
        | None \<Rightarrow> add_note ''detector'' (''boot in progress '' @ dash @ '' falling back to stub for this beat'') s))"

section \<open>Certificates, discovery, metrics\<close>

definition ca_phase :: "sense_env \<Rightarrow> string option \<Rightarrow> sense_state \<Rightarrow> (string \<times> string) option \<times> sense_state" where
  "ca_phase env serial s = (case serial of
      None \<Rightarrow> (None, s)
    | Some k \<Rightarrow> if k = [] then (None, s)
        else (case se_read_ca env k of Inr ca \<Rightarrow> (ca, s) | Inl e \<Rightarrow> (None, raised env ''vprinter'' ''ca read failed: '' e s)))"

definition cas_phase :: "sense_env \<Rightarrow> (string \<times> string) list \<Rightarrow> (string \<times> string \<times> string \<times> string) list" where
  "cas_phase env identities = collect_cas (\<lambda>k. case se_read_ca env k of Inr ca \<Rightarrow> ca | Inl e \<Rightarrow> None) identities"

definition discovery_phase :: "sense_env \<Rightarrow> sense_state \<Rightarrow> pyval list \<times> sense_state" where
  "discovery_phase env s =
     (if se_clock env - ds_last (sn_discovery s) < PERIODIC_INTERVAL
      then (hits_to_payload (get_cached_hits (se_clock env) (sn_discovery s)), s)
      else (case se_around env of
          Inl e \<Rightarrow> ([], raised env ''lan_scan'' ''sweep failed: '' e s)
        | Inr w \<Rightarrow> (let (ran, d) = maybe_run_periodic_scan w (se_clock env) (sn_discovery s)
            in (hits_to_payload (get_cached_hits (se_clock env) d), s\<lparr>sn_discovery := d\<rparr>))))"

definition metrics_phase :: "sense_env \<Rightarrow> sense_state \<Rightarrow> (string \<times> pyval) list \<times> sense_state" where
  "metrics_phase env s = (case se_readings env of
      Inr r \<Rightarrow> (collect_pi_metrics r PNone, s) | Inl e \<Rightarrow> ([], raised env ''pi_metrics'' ''collect failed: '' e s))"

section \<open>The whole collection\<close>

definition sample_dict :: "sample \<Rightarrow> pyval" where
  "sample_dict x = PDict [(''printerId'', PStr (sa_printer x)), (''rawPBps'', PInt (sa_raw x)), (''smoothedPBps'', PInt (sa_smoothed x))]"

text \<open>Frames and failures are left out of the payload: they were pushed.\<close>

definition sense :: "sense_env \<Rightarrow> (string \<times> pyval) list \<Rightarrow> snapshot \<Rightarrow> (byte list \<Rightarrow> real option) \<Rightarrow> string \<Rightarrow> holder \<Rightarrow> string option \<Rightarrow>
    (string \<times> string) list \<Rightarrow> sense_state \<Rightarrow> telemetry \<times> sense_state" where
  "sense env ident diag run_detector model_sha h serial identities s0 =
     (let (frames, s1) = camera_phase env s0;
          det = (if ho_detector h = None then stub_detector else run_detector);
          (samples, s2) = watch_phase env det frames s1;
          s3 = detector_phase env model_sha h s2;
          (ca, s4) = ca_phase env serial s3;
          cas = cas_phase env identities;
          (hits, s5) = discovery_phase env s4;
          (metrics, s6) = metrics_phase env s5
      in (\<lparr>tm_identity = ident, tm_frames = [], tm_failures = [], tm_samples = map sample_dict samples, tm_ca = ca, tm_cas = cas,
            tm_hits = hits, tm_metrics = metrics, tm_diagnostics = diag\<rparr>, s6))"


section \<open>What the camera phase does with the printers\<close>

lemma due_targets_sound:
  "due_targets status now ts sc = (due, sc') \<Longrightarrow> (p, t) \<in> set due \<Longrightarrow> t \<in> set ts \<and> target_id t = Some p"
proof (induction ts arbitrary: due sc sc')
  case (Cons x ts)
  show ?case
  proof (cases "target_id x")
    case None
    with Cons show ?thesis by auto
  next
    case (Some q)
    obtain d sc1 where s1: "should_capture q (status_state (status q)) (pget (status q) ''progressPct'') now sc = (d, sc1)"
      by (cases "should_capture q (status_state (status q)) (pget (status q) ''progressPct'') now sc")
    obtain rest sc2 where s2: "due_targets status now ts sc1 = (rest, sc2)" by (cases "due_targets status now ts sc1")
    show ?thesis using Cons.prems Cons.IH [OF s2] by (auto simp: Some s1 s2 split: if_splits)
  qed
qed simp

lemma due_when_forgotten:
  "due_targets status now ts sc = (due, sc') \<Longrightarrow> t \<in> set ts \<Longrightarrow> target_id t = Some p \<Longrightarrow> map_of (sc_last_capture sc) p = None \<Longrightarrow>
   p \<in> fst ` set due"
proof (induction ts arbitrary: due sc sc')
  case (Cons x ts)
  show ?case
  proof (cases "target_id x")
    case None
    with Cons show ?thesis by auto
  next
    case (Some q)
    obtain d sc1 where s1: "should_capture q (status_state (status q)) (pget (status q) ''progressPct'') now sc = (d, sc1)"
      by (cases "should_capture q (status_state (status q)) (pget (status q) ''progressPct'') now sc")
    obtain rest sc2 where s2: "due_targets status now ts sc1 = (rest, sc2)" by (cases "due_targets status now ts sc1")
    have keep: "sc_last_capture sc1 = sc_last_capture sc" using s1 by (auto simp: should_capture_def Let_def)
    show ?thesis
    proof (cases "x = t")
      case True
      then have "d" using s1 Some Cons.prems(3,4) by (auto simp: should_capture_def Let_def)
      then show ?thesis using Cons.prems True Some s1 s2 by auto
    next
      case False
      then have "p \<in> fst ` set rest" using Cons.IH [OF s2] Cons.prems keep by simp
      then show ?thesis using Cons.prems(1) by (auto simp: Some s1 s2 split: if_splits)
    qed
  qed
qed simp

lemma harvest_frames_full: "harvest now rs sc = (frames, failed, sc') \<Longrightarrow> f \<in> set frames \<Longrightarrow> fr_jpeg f \<noteq> []"
proof (induction rs arbitrary: frames failed sc)
  case (Cons r rs)
  obtain p res where r: "r = (p, res)" by (cases r)
  from Cons.prems(1) show ?case unfolding r
    by (cases rule: harvest_ConsE) (use Cons.IH Cons.prems(2) in auto)
qed simp

lemma collected_frames_full:
  "collect_camera_frames capture finished targets status now sc = ((frames, failures), sc') \<Longrightarrow> f \<in> set frames \<Longrightarrow> fr_jpeg f \<noteq> []"
  by (auto simp: collect_camera_frames_def Let_def split: prod.splits if_splits dest: harvest_frames_full)

text \<open>The posts of a printer: its frame, or that none could be captured.\<close>

definition post_of :: "sense_env \<Rightarrow> string \<Rightarrow> string \<times> byte list \<Rightarrow> bool" where
  "post_of env pid p \<longleftrightarrow> fst p = se_camera_url env @ ''?printerId='' @ pid \<and> snd p \<noteq> [] \<or>
     fst p = se_camera_url env @ ''?printerId='' @ pid @ ''&failed=1'' \<and> snd p = []"

definition consents :: "sense_env \<Rightarrow> printer list \<Rightarrow> string \<Rightarrow> bool" where
  "consents env targets pid \<longleftrightarrow> (\<exists>t \<in> set targets. target_id t = Some pid \<and> (se_force_camera env \<or> truthy (pget t ''cameraEnabled'')))"

definition status_map :: "sense_env \<Rightarrow> string \<Rightarrow> (string \<times> pyval) list" where
  "status_map env p = get_or (status_by_id (se_statuses env) []) p []"

definition beat_due :: "sense_env \<Rightarrow> printer list \<Rightarrow> sense_state \<Rightarrow> string set" where
  "beat_due env targets s = (let es = camera_eligible (se_force_camera env) targets
     in fst ` set (fst (due_targets (status_map env) (se_clock env) es (scheduler_forget (set (printer_ids es)) (sn_scheduler s)))))"

lemma consents_eligible: "consents env targets pid \<longleftrightarrow> (\<exists>t \<in> set (camera_eligible (se_force_camera env) targets). target_id t = Some pid)"
  by (auto simp: consents_def camera_eligible_def)

lemma printer_ids_iff: "pid \<in> set (printer_ids ts) \<longleftrightarrow> pid \<noteq> [] \<and> (\<exists>t \<in> set ts. target_id t = Some pid)"
  by (induction ts) (auto simp: printer_ids_def map_filter_simps target_id_def split: pyval.splits option.splits)

text \<open>One beat of the camera: who is due, what was posted, and which captures the scheduler remembers.\<close>

lemma camera_phase_posts:
  assumes run: "camera_phase env s = (frames, s')" and targets: "se_targets env = Inr targets"
  shows "\<exists>posts. sn_posts s' = sn_posts s @ posts \<and>
      (\<forall>p \<in> set posts. \<exists>pid. post_of env pid p \<and> consents env targets pid) \<and>
      (\<forall>pid \<in> beat_due env targets s. pid = [] \<or> (\<exists>p \<in> set posts. post_of env pid p)) \<and>
      fr_printer ` set frames \<subseteq> {pid. consents env targets pid}"
    and "pid \<notin> set (printer_ids (camera_eligible (se_force_camera env) targets)) \<Longrightarrow> pid \<noteq> [] \<Longrightarrow> map_of (sc_last_capture (sn_scheduler s')) pid = None"
proof -
  let ?es = "camera_eligible (se_force_camera env) targets"
  let ?kept = "scheduler_forget (set (printer_ids ?es)) (sn_scheduler s)"
  obtain fs fails sc where collect: "collect_camera_frames (se_capture env) (se_finished env) ?es (status_map env) (se_clock env) ?kept = ((fs, fails), sc)"
    by (metis surj_pair)
  obtain due sc1 where due: "due_targets (status_map env) (se_clock env) ?es ?kept = (due, sc1)"
    by (cases "due_targets (status_map env) (se_clock env) ?es ?kept")
  have ids: "fst ` set due = beat_due env targets s" by (simp add: beat_due_def Let_def due)
  note acc = camera_beat_accounts [OF collect due]
  have stamp: "map_of (sc_last_capture sc) q = (if q \<in> fr_printer ` set fs then Some (se_clock env) else map_of (sc_last_capture ?kept) q)" for q
    using acc [of q PNone 0] by (rule conjunct2 [THEN conjunct2, THEN conjunct1])
  have status: "(\<lambda>p. get_or (status_by_id (se_statuses env) []) p []) = status_map env" by (simp add: fun_eq_iff status_map_def)
  have empty: "?es = [] \<Longrightarrow> fs = [] \<and> fails = [] \<and> sc = ?kept" using collect by (simp add: collect_camera_frames_def)
  have out: "frames = fs \<and> sn_scheduler s' = sc \<and> sn_posts s' = sn_posts s @ push_camera_frames (se_camera_url env) fs fails"
  proof (cases "?es = []")
    case True
    then show ?thesis using run targets empty by (auto simp: camera_phase_def push_camera_frames_def)
  next
    case False
    then show ?thesis using run targets collect
      by (auto simp: camera_phase_def status add_note_def Let_def split: if_splits)
  qed
  have due_consents: "fst ` set due \<subseteq> {pid. consents env targets pid}"
    using due_targets_sound [OF due] by (fastforce simp: consents_eligible)
  have parts: "fr_printer ` set fs \<union> cf_printer ` set fails = fst ` set due" using acc by blast
  have full: "\<forall>f \<in> set fs. fr_jpeg f \<noteq> []" using collected_frames_full [OF collect] by blast
  have h1: "\<exists>pid. post_of env pid p \<and> consents env targets pid" if "p \<in> set (push_camera_frames (se_camera_url env) fs fails)" for p
    using that parts due_consents by (auto simp: push_camera_frames_def post_of_def) blast+
  have h2: "pid = [] \<or> (\<exists>p \<in> set (push_camera_frames (se_camera_url env) fs fails). post_of env pid p)" if "pid \<in> fst ` set due" for pid
  proof (cases "pid \<in> fr_printer ` set fs")
    case True
    then obtain f where f: "f \<in> set fs" "pid = fr_printer f" by blast
    show ?thesis
    proof (cases "pid = []")
      case False
      then have mem: "(se_camera_url env @ ''?printerId='' @ pid, fr_jpeg f) \<in> set (push_camera_frames (se_camera_url env) fs fails)"
        using f full by (auto simp: push_camera_frames_def)
      show ?thesis using f full by (intro disjI2 bexI [OF _ mem]) (simp add: post_of_def)
    qed simp
  next
    case False
    with that have "pid \<in> cf_printer ` set fails" using parts by blast
    then have mem: "pid = [] \<or> (se_camera_url env @ ''?printerId='' @ pid @ ''&failed=1'', []) \<in> set (push_camera_frames (se_camera_url env) fs fails)"
      by (auto simp: push_camera_frames_def)
    show ?thesis using mem
    proof (elim disjE)
      assume mem: "(se_camera_url env @ ''?printerId='' @ pid @ ''&failed=1'', []) \<in> set (push_camera_frames (se_camera_url env) fs fails)"
      show ?thesis by (intro disjI2 bexI [OF _ mem]) (simp add: post_of_def)
    qed simp
  qed
  have h3: "fr_printer ` set fs \<subseteq> {pid. consents env targets pid}" using parts due_consents by blast
  show "\<exists>posts. sn_posts s' = sn_posts s @ posts \<and>
      (\<forall>p \<in> set posts. \<exists>pid. post_of env pid p \<and> consents env targets pid) \<and>
      (\<forall>pid \<in> beat_due env targets s. pid = [] \<or> (\<exists>p \<in> set posts. post_of env pid p)) \<and>
      fr_printer ` set frames \<subseteq> {pid. consents env targets pid}"
    using h1 h2 h3 out unfolding ids by (intro exI [of _ "push_camera_frames (se_camera_url env) fs fails"] conjI ballI) simp_all
  assume pid: "pid \<notin> set (printer_ids ?es)" "pid \<noteq> []"
  then have "pid \<notin> fst ` set due" using due_targets_sound [OF due] by (fastforce simp: printer_ids_iff)
  then have "pid \<notin> fr_printer ` set fs" using parts by blast
  then have "map_of (sc_last_capture sc) pid = map_of (sc_last_capture ?kept) pid" by (simp add: stamp)
  also have "\<dots> = None" using pid(1) by (auto simp: scheduler_forget_def map_of_eq_None_iff)
  finally show "map_of (sc_last_capture (sn_scheduler s')) pid = None" using out by simp
qed


section \<open>Whole beats\<close>

lemma raised_frame [simp]: "sn_posts (raised env a b e s) = sn_posts s" "sn_scheduler (raised env a b e s) = sn_scheduler s"
  "sn_posts (add_note a b s) = sn_posts s" "sn_scheduler (add_note a b s) = sn_scheduler s"
  by (simp_all add: raised_def add_note_def)

lemma watch_frame: "watch_phase env det frames s = (samples, s') \<Longrightarrow> sn_posts s' = sn_posts s \<and> sn_scheduler s' = sn_scheduler s"
  by (auto simp: watch_phase_def Let_def split: if_splits sum.splits prod.splits)

lemma detector_frame: "sn_posts (detector_phase env m h s) = sn_posts s" "sn_scheduler (detector_phase env m h s) = sn_scheduler s"
  by (auto simp: detector_phase_def split: option.split prod.split)

lemma ca_frame: "ca_phase env k s = (ca, s') \<Longrightarrow> sn_posts s' = sn_posts s \<and> sn_scheduler s' = sn_scheduler s"
  by (auto simp: ca_phase_def split: option.splits if_splits sum.splits)

lemma discovery_frame: "discovery_phase env s = (hits, s') \<Longrightarrow> sn_posts s' = sn_posts s \<and> sn_scheduler s' = sn_scheduler s"
  by (auto simp: discovery_phase_def Let_def split: sum.splits if_splits prod.splits)

lemma metrics_frame: "metrics_phase env s = (m, s') \<Longrightarrow> sn_posts s' = sn_posts s \<and> sn_scheduler s' = sn_scheduler s"
  by (auto simp: metrics_phase_def split: sum.splits)

lemmas phase_frames = watch_frame ca_frame discovery_frame metrics_frame

text \<open>After the camera phase, a beat neither posts nor touches the scheduler.\<close>

lemma sense_camera:
  assumes "sense env ident diag det m h serial ids s = (tm, s')"
  obtains frames s1 samples s2 where "camera_phase env s = (frames, s1)" "sn_posts s' = sn_posts s1" "sn_scheduler s' = sn_scheduler s1"
    "watch_phase env (if ho_detector h = None then stub_detector else det) frames s1 = (samples, s2)" "tm_samples tm = map sample_dict samples"
    "tm_frames tm = []" "tm_failures tm = []"
proof -
  obtain frames s1 where c: "camera_phase env s = (frames, s1)" by (cases "camera_phase env s")
  obtain samples s2 where w: "watch_phase env (if ho_detector h = None then stub_detector else det) frames s1 = (samples, s2)"
    by (metis surj_pair)
  obtain ca s4 where ca: "ca_phase env serial (detector_phase env m h s2) = (ca, s4)" by (metis surj_pair)
  obtain hits s5 where d: "discovery_phase env s4 = (hits, s5)" by (metis surj_pair)
  obtain ms s6 where ms: "metrics_phase env s5 = (ms, s6)" by (metis surj_pair)
  have "s' = s6" "tm_samples tm = map sample_dict samples" "tm_frames tm = []" "tm_failures tm = []"
    using assms by (auto simp: sense_def Let_def c w ca d ms simp del: detector_frame)
  then show thesis
    using that [OF c _ _ w] phase_frames(1) [OF w] phase_frames(2) [OF ca] phase_frames(3) [OF d] phase_frames(4) [OF ms]
    by (simp add: detector_frame)
qed

definition watched :: "sense_env \<Rightarrow> string \<Rightarrow> bool" where
  "watched env pid \<longleftrightarrow> (case se_watch_targets env of Inl e \<Rightarrow> False
     | Inr ts \<Rightarrow> list_ex (\<lambda>t. target_id t = Some pid \<and> truthy (pget t ''cameraEnabled'') \<and> truthy (pget t ''aiFailureWatchEnabled'')) ts)"

lemma sample_loop_printers: "sample_loop det now ts sm = ((samples, dropped), sm') \<Longrightarrow> sa_printer ` set samples \<subseteq> fst ` set ts"
proof (induction ts arbitrary: samples dropped sm sm')
  case (Cons t ts)
  obtain p j where t: "t = (p, j)" by (cases t)
  show ?case
  proof (cases "det j")
    case None
    then show ?thesis using Cons.prems unfolding t by (auto split: prod.splits dest!: Cons.IH)
  next
    case (Some raw)
    obtain v sm1 where v: "smooth p raw now sm = (v, sm1)" by (cases "smooth p raw now sm")
    obtain xs n sm2 where rest: "sample_loop det now ts sm1 = ((xs, n), sm2)" by (metis surj_pair)
    have "samples = \<lparr>sa_printer = p, sa_raw = to_bps raw, sa_smoothed = to_bps v\<rparr> # xs"
      using Cons.prems by (simp add: t Some v rest)
    then have "sa_printer ` set samples = insert p (sa_printer ` set xs)" by simp
    then show ?thesis using Cons.IH [OF rest] unfolding t by (simp only: list.set image_insert fst_conv) blast
  qed
qed simp

lemma map_of_fold_frames:
  "p \<notin> fr_printer ` set frames \<Longrightarrow> map_of (fold (\<lambda>f. AList.update (fr_printer f) (fr_jpeg f)) frames d) p = map_of d p"
  by (induction frames arbitrary: d) (auto simp: map_of_update)

lemma watch_samples:
  assumes "watch_phase env det frames s = (samples, s')" "x \<in> set samples"
  shows "watched env (sa_printer x) \<and> sa_printer x \<in> fr_printer ` set frames"
proof -
  obtain ts where ts: "se_watch_targets env = Inr ts" using assms by (auto simp: watch_phase_def split: if_splits sum.splits)
  let ?by = "fold (\<lambda>f. AList.update (fr_printer f) (fr_jpeg f)) frames []"
  let ?el = "List.map_filter (eligible (status_by_id (se_statuses env) []) ?by) ts"
  obtain dropped sm' where run: "collect_failure_samples det (se_clock env) ts (status_by_id (se_statuses env) []) ?by (sn_smoother s) = ((samples, dropped), sm')"
    using assms by (auto simp: watch_phase_def ts Let_def split: if_splits prod.splits)
  then have "\<exists>sm. sample_loop det (se_clock env) ?el (sn_smoother s) = ((samples, dropped), sm)"
    by (auto simp: collect_failure_samples_def Let_def split: prod.splits)
  then have "sa_printer x \<in> fst ` set ?el" using sample_loop_printers assms(2) by blast
  then obtain t j where t: "t \<in> set ts" "eligible (status_by_id (se_statuses env) []) ?by t = Some (sa_printer x, j)"
    by (auto simp: map_filter_def)
  from t(2) have el: "target_id t = Some (sa_printer x)" "truthy (pget t ''cameraEnabled'')" "truthy (pget t ''aiFailureWatchEnabled'')"
    "map_of ?by (sa_printer x) \<noteq> None"
    by (auto simp: eligible_def target_id_def split: pyval.splits if_splits option.splits)
  then have "watched env (sa_printer x)" using t(1) by (auto simp: watched_def ts list_ex_iff)
  then show ?thesis using el(4) map_of_fold_frames [of "sa_printer x" frames "[]"] by (cases "sa_printer x \<in> fr_printer ` set frames") simp_all
qed

text \<open>The pictures of other printers do not matter: what a beat does is a function of the pictures of its targets.\<close>

lemma collect_frames_cong:
  assumes "\<forall>t \<in> set ts. cap t = cap' t"
  shows "collect_camera_frames cap fin ts status now sc = collect_camera_frames cap' fin ts status now sc"
proof -
  obtain due sc1 where d: "due_targets status now ts sc = (due, sc1)" by (cases "due_targets status now ts sc")
  have "cap (snd (due ! i)) = cap' (snd (due ! i))" if "i < length due" for i
    using due_targets_sound [OF d, of "fst (due ! i)" "snd (due ! i)"] that assms by (simp add: nth_mem)
  then have "map (\<lambda>i. (fst (due ! i), cap (snd (due ! i)))) (filter (\<lambda>i. i < length due) fin) =
      map (\<lambda>i. (fst (due ! i), cap' (snd (due ! i)))) (filter (\<lambda>i. i < length due) fin)"
    by (intro map_cong) auto
  then show ?thesis by (simp only: collect_camera_frames_def d Let_def prod.case)
qed

lemma raised_capture: "raised (env\<lparr>se_capture := cap\<rparr>) = raised env"
  by (simp add: raised_def fun_eq_iff)

lemma capture_frame:
  "se_clock (env\<lparr>se_capture := cap\<rparr>) = se_clock env" "se_statuses (env\<lparr>se_capture := cap\<rparr>) = se_statuses env"
  "se_watch_targets (env\<lparr>se_capture := cap\<rparr>) = se_watch_targets env" "se_format (env\<lparr>se_capture := cap\<rparr>) = se_format env"
  "se_around (env\<lparr>se_capture := cap\<rparr>) = se_around env" "se_readings (env\<lparr>se_capture := cap\<rparr>) = se_readings env"
  "se_read_ca (env\<lparr>se_capture := cap\<rparr>) = se_read_ca env"
  by simp_all

lemma sense_capture_cong:
  assumes "se_targets env = Inr targets" "\<forall>t \<in> set (camera_eligible (se_force_camera env) targets). cap t = se_capture env t"
  shows "sense (env\<lparr>se_capture := cap\<rparr>) ident diag det m h serial ids s = sense env ident diag det m h serial ids s"
proof -
  have c: "camera_phase (env\<lparr>se_capture := cap\<rparr>) s = camera_phase env s"
    using assms collect_frames_cong [OF assms(2)] by (simp add: camera_phase_def raised_capture Let_def)
  have w: "watch_phase (env\<lparr>se_capture := cap\<rparr>) = watch_phase env"
    by (intro ext) (simp only: watch_phase_def raised_capture capture_frame)
  have d: "detector_phase (env\<lparr>se_capture := cap\<rparr>) = detector_phase env"
    by (intro ext) (simp only: detector_phase_def capture_frame)
  have a: "ca_phase (env\<lparr>se_capture := cap\<rparr>) = ca_phase env" "cas_phase (env\<lparr>se_capture := cap\<rparr>) = cas_phase env"
    by (intro ext; simp only: ca_phase_def cas_phase_def raised_capture capture_frame)+
  have r: "discovery_phase (env\<lparr>se_capture := cap\<rparr>) = discovery_phase env" "metrics_phase (env\<lparr>se_capture := cap\<rparr>) = metrics_phase env"
    by (intro ext; simp only: discovery_phase_def metrics_phase_def raised_capture capture_frame)+
  show ?thesis by (simp only: sense_def c w d a r)
qed

text \<open>
  C36: Nothing is captured, posted or scored without consent. What a beat does is the same whatever the cameras of the
  printers without consent show, so it uses no picture of them. Whatever it posts to the camera endpoint is the frame, or
  the failure, of a printer whose camera the cloud enabled (or the operator forced on), frames never travel in the
  payload, and a failure-watch sample is of a printer that has both its camera and the watch enabled and delivered a frame in
  this very beat.\<close>

theorem sensing_needs_consent:
  assumes "sense env ident diag det m h serial ids s = (tm, s')" "se_targets env = Inr targets"
  shows "tm_frames tm = [] \<and> tm_failures tm = [] \<and>
    (\<exists>posts. sn_posts s' = sn_posts s @ posts \<and> list_all (\<lambda>p. \<exists>pid. post_of env pid p \<and> consents env targets pid) posts) \<and>
    list_all (\<lambda>v. \<exists>x. v = sample_dict x \<and> watched env (sa_printer x) \<and> consents env targets (sa_printer x)) (tm_samples tm) \<and>
    (\<forall>cap. (\<forall>t \<in> set (camera_eligible (se_force_camera env) targets). cap t = se_capture env t) \<longrightarrow>
       sense (env\<lparr>se_capture := cap\<rparr>) ident diag det m h serial ids s = (tm, s'))"
proof -
  have same: "\<forall>cap. (\<forall>t \<in> set (camera_eligible (se_force_camera env) targets). cap t = se_capture env t) \<longrightarrow>
       sense (env\<lparr>se_capture := cap\<rparr>) ident diag det m h serial ids s = (tm, s')"
    using sense_capture_cong [OF assms(2)] assms(1) by simp
  from assms(1) obtain frames s1 samples s2 where c: "camera_phase env s = (frames, s1)" and p: "sn_posts s' = sn_posts s1"
    and w: "watch_phase env (if ho_detector h = None then stub_detector else det) frames s1 = (samples, s2)"
    and tm: "tm_samples tm = map sample_dict samples" "tm_frames tm = []" "tm_failures tm = []"
    by (rule sense_camera)
  from camera_phase_posts(1) [OF c assms(2)] watch_samples [OF w]
  have "(\<exists>posts. sn_posts s1 = sn_posts s @ posts \<and> list_all (\<lambda>p. \<exists>pid. post_of env pid p \<and> consents env targets pid) posts) \<and>
    list_all (\<lambda>v. \<exists>x. v = sample_dict x \<and> watched env (sa_printer x) \<and> consents env targets (sa_printer x)) (map sample_dict samples)"
    by (auto simp: list_all_iff) blast+
  with same show ?thesis unfolding tm p by blast
qed

text \<open>
  A camera that is switched on again is captured at once: when a beat did not count a printer among the eligible ones and the
  next beat does, the next beat posts its frame or its failure, whatever its state and whenever it was last captured.\<close>

theorem reenabled_camera_captured:
  assumes "sense env1 ident diag det m h serial ids s = (tm1, s1)" "se_targets env1 = Inr targets1"
    "pid \<notin> set (printer_ids (camera_eligible (se_force_camera env1) targets1))"
    "sense env2 ident' diag' det m h serial' ids' s1 = (tm2, s2)" "se_targets env2 = Inr targets2" "consents env2 targets2 pid" "pid \<noteq> []"
  shows "\<exists>posts. sn_posts s2 = sn_posts s1 @ posts \<and> list_ex (post_of env2 pid) posts"
proof -
  from assms(1) obtain f1 t1 where c1: "camera_phase env1 s = (f1, t1)" and sc1: "sn_scheduler s1 = sn_scheduler t1"
    by (rule sense_camera)
  from assms(4) obtain f2 t2 where c2: "camera_phase env2 s1 = (f2, t2)" and p2: "sn_posts s2 = sn_posts t2"
    by (rule sense_camera)
  have none: "map_of (sc_last_capture (sn_scheduler s1)) pid = None"
    unfolding sc1 by (rule camera_phase_posts(2) [OF c1 assms(2,3,7)])
  let ?es = "camera_eligible (se_force_camera env2) targets2"
  let ?kept = "scheduler_forget (set (printer_ids ?es)) (sn_scheduler s1)"
  have "map_of (sc_last_capture ?kept) pid = None"
    using none by (auto simp: scheduler_forget_def map_of_eq_None_iff)
  moreover obtain t where "t \<in> set ?es" "target_id t = Some pid" using assms(6) by (auto simp: consents_eligible)
  ultimately have "pid \<in> beat_due env2 targets2 s1"
    unfolding beat_due_def Let_def by (intro due_when_forgotten [OF surjective_pairing]) auto
  with camera_phase_posts(1) [OF c2 assms(5)] assms(7) show ?thesis unfolding p2 by (auto simp: list_ex_iff)
qed


section \<open>Two beats of a printer whose camera is switched on\<close>

definition demo_printer :: "bool \<Rightarrow> printer" where
  "demo_printer on = [(''printerId'', PStr ''p''), (''cameraEnabled'', PBool on), (''aiFailureWatchEnabled'', PBool on)]"

definition demo_sense_env :: "bool \<Rightarrow> real \<Rightarrow> sense_env" where
  "demo_sense_env on now = \<lparr>se_targets = Inr [demo_printer on], se_watch_targets = Inr [demo_printer on], se_force_camera = False,
     se_statuses = [[(''printerId'', PStr ''p''), (''state'', PStr ''printing'')]], se_capture = (\<lambda>t. Some ([1, 2], None, [])),
     se_finished = [0], se_clock = now, se_camera_url = ''u'', se_format = (\<lambda>x. []), se_around = Inl OSErr, se_readings = Inl OSErr,
     se_text = (\<lambda>e. ''error''), se_read_ca = (\<lambda>k. Inr None)\<rparr>"

definition demo_sense_state :: sense_state where
  "demo_sense_state = \<lparr>sn_scheduler = \<lparr>sc_last_capture = [(''p'', 95)], sc_last_state = [(''p'', ''printing'')]\<rparr>,
     sn_smoother = \<lparr>sm_alpha = 1, sm_stale = 600, sm_prev = [], sm_last_seen = []\<rparr>, sn_warned = 0, sn_discovery = disc_start,
     sn_posts = [], sn_notes = []\<rparr>"

definition demo_beat :: "bool \<Rightarrow> real \<Rightarrow> sense_state \<Rightarrow> telemetry \<times> sense_state" where
  "demo_beat on now = sense (demo_sense_env on now) [] \<lparr>ds_facts = [], ds_binaries = None, ds_network = [], ds_errors = [], ds_log = []\<rparr> (\<lambda>j. Some 0) [] new_holder None []"

lemma demo_consents: "consents (demo_sense_env on now) [demo_printer on] ''p'' \<longleftrightarrow> on"
  by (simp add: consents_def demo_sense_env_def demo_printer_def target_id_def pget_def get_or_def)

theorem sensing_needs_consent_witness:
  "list_all (\<lambda>p. \<exists>pid. post_of (demo_sense_env True 100) pid p \<and> consents (demo_sense_env True 100) [demo_printer True] pid)
     (sn_posts (snd (demo_beat True 100 demo_sense_state))) \<and> tm_frames (fst (demo_beat True 100 demo_sense_state)) = []"
proof -
  obtain tm s' where run: "demo_beat True 100 demo_sense_state = (tm, s')" by (cases "demo_beat True 100 demo_sense_state")
  have "se_targets (demo_sense_env True 100) = Inr [demo_printer True]" by (simp add: demo_sense_env_def)
  from sensing_needs_consent [OF run [unfolded demo_beat_def] this] show ?thesis
    unfolding run fst_conv snd_conv by (auto simp: demo_sense_state_def)
qed

theorem reenabled_camera_captured_witness:
  "\<exists>posts. sn_posts (snd (demo_beat True 101 (snd (demo_beat False 100 demo_sense_state)))) =
     sn_posts (snd (demo_beat False 100 demo_sense_state)) @ posts \<and> list_ex (post_of (demo_sense_env True 101) ''p'') posts"
proof -
  obtain tm1 s1 where run1: "demo_beat False 100 demo_sense_state = (tm1, s1)" by (cases "demo_beat False 100 demo_sense_state")
  obtain tm2 s2 where run2: "demo_beat True 101 s1 = (tm2, s2)" by (cases "demo_beat True 101 s1")
  have t: "se_targets (demo_sense_env on now) = Inr [demo_printer on]" for on now by (simp add: demo_sense_env_def)
  have off: "''p'' \<notin> set (printer_ids (camera_eligible (se_force_camera (demo_sense_env False 100)) [demo_printer False]))"
    by (simp add: camera_eligible_def demo_sense_env_def demo_printer_def printer_ids_def pget_def get_or_def map_filter_simps)
  from reenabled_camera_captured [OF run1 [unfolded demo_beat_def] t off run2 [unfolded demo_beat_def] t] demo_consents
  show ?thesis by (simp add: run1 run2)
qed

end
