(* ===== verification/VpRuntime.thy ===== *)
theory VpRuntime
  imports VpManager Report Ssdp MqttBroker Capture
begin

text \<open>
  One running virtual printer and the thread that owns them all, the rest of \<open>makeros_hub/vprinter/manager.py\<close>: bringing its
  servers up and tearing them down, the wiring of broker, capture and report, the single-printer supervisor kept for
  compatibility, and the life of the loop thread. The sockets of the box are the addresses listened on and the datagram sockets. A
  server cannot bind where another one listens; the discovery socket asks for sharing (\<open>SO_REUSEADDR\<close>, \<open>SO_REUSEPORT\<close>), so only a
  socket that does not share keeps it from binding. Closing is bounded by time-outs in the source and always succeeds here.
\<close>

section \<open>The network of the box\<close>

type_synonym endpoint = "string \<times> nat"

text \<open>The datagram sockets, with whether they share their address.\<close>

record box_net =
  bx_listening :: "endpoint list"
  bx_datagram :: "(endpoint \<times> bool) list"
  bx_ssdp :: "ssdp_listener option"

definition any_address :: "string \<Rightarrow> bool" where
  "any_address ip \<longleftrightarrow> ip = [] \<or> ip = ''0.0.0.0''"

definition clash :: "endpoint \<Rightarrow> endpoint \<Rightarrow> bool" where
  "clash e f \<longleftrightarrow> snd e = snd f \<and> (fst e = fst f \<or> any_address (fst e) \<or> any_address (fst f))"

definition free_tcp :: "(endpoint \<Rightarrow> bool) \<Rightarrow> box_net \<Rightarrow> endpoint \<Rightarrow> bool" where
  "free_tcp allowed n e \<longleftrightarrow> allowed e \<and> list_all (\<lambda>f. \<not> clash e f) (bx_listening n)"

definition free_udp :: "(endpoint \<Rightarrow> bool) \<Rightarrow> box_net \<Rightarrow> endpoint \<Rightarrow> bool" where
  "free_udp allowed n e \<longleftrightarrow> allowed e \<and> list_all (\<lambda>(f, shared). shared \<or> \<not> clash e f) (bx_datagram n)"

definition listen_on :: "(endpoint \<Rightarrow> bool) \<Rightarrow> endpoint \<Rightarrow> box_net \<Rightarrow> box_net result" where
  "listen_on allowed e n = (if free_tcp allowed n e then Inr (n\<lparr>bx_listening := bx_listening n @ [e]\<rparr>) else Inl OSErr)"

definition bind_shared :: "(endpoint \<Rightarrow> bool) \<Rightarrow> endpoint \<Rightarrow> box_net \<Rightarrow> box_net result" where
  "bind_shared allowed e n = (if free_udp allowed n e then Inr (n\<lparr>bx_datagram := (e, True) # bx_datagram n\<rparr>) else Inl OSErr)"

definition stop_listening :: "endpoint list \<Rightarrow> box_net \<Rightarrow> box_net" where
  "stop_listening es n = n\<lparr>bx_listening := filter (\<lambda>e. e \<notin> set es) (bx_listening n)\<rparr>"

definition close_datagram :: "endpoint \<Rightarrow> box_net \<Rightarrow> box_net" where
  "close_datagram e n = n\<lparr>bx_datagram := remove1 (e, True) (bx_datagram n)\<rparr>"

section \<open>One virtual printer\<close>

definition PLAIN_BIND_PORT :: nat where "PLAIN_BIND_PORT = 3000"
definition TLS_BIND_PORT :: nat where "TLS_BIND_PORT = 3002"
definition SSDP_PORT :: nat where "SSDP_PORT = 2021"
definition MQTT_PORT :: nat where "MQTT_PORT = 8883"
definition FTPS_PORT :: nat where "FTPS_PORT = 990"

record servers =
  rs_core :: vp_runtime
  rs_auth :: auth_set
  rs_capture :: coordinator
  rs_broker :: "broker option"
  rs_servers :: "endpoint list"
  rs_own_ssdp :: "endpoint list"
  rs_ftp :: "endpoint option"

record start_env =
  st_prepare :: "unit result"
  st_allowed :: "endpoint \<Rightarrow> bool"

definition ssdp_config_of :: "virtual_printer \<Rightarrow> ssdp_config" where
  "ssdp_config_of c = \<lparr>sc_ip = vp_bind_ip c, sc_serial = vp_serial c, sc_model = vp_model c, sc_name = vp_name c, sc_fw = vp_fw c\<rparr>"

definition new_servers :: "auth_set \<Rightarrow> coordinator \<Rightarrow> int \<Rightarrow> virtual_printer \<Rightarrow> (string, int) odict \<Rightarrow> servers" where
  "new_servers auth cc now c store = \<lparr>rs_core = new_runtime now c store, rs_auth = replace_members auth (vp_members c), rs_capture = cc,
     rs_broker = None, rs_servers = [], rs_own_ssdp = [], rs_ftp = None\<rparr>"

definition stop_servers :: "servers \<Rightarrow> box_net \<Rightarrow> servers \<times> box_net" where
  "stop_servers r n =
     (let serial = vp_serial (rt_config (rs_core r));
          n1 = n\<lparr>bx_ssdp := map_option (unregister serial) (bx_ssdp n)\<rparr>;
          n2 = stop_listening (rs_servers r @ (case rs_ftp r of None \<Rightarrow> [] | Some e \<Rightarrow> [e])) (fold close_datagram (rs_own_ssdp r) n1)
      in (r\<lparr>rs_broker := None, rs_servers := [], rs_own_ssdp := [], rs_ftp := None, rs_capture := clear (rs_capture r)\<rparr>, n2))"

text \<open>The servers one after the other; what was opened before a failure stays with the printer.\<close>

fun open_servers :: "(endpoint \<Rightarrow> bool) \<Rightarrow> endpoint list \<Rightarrow> servers \<Rightarrow> box_net \<Rightarrow> unit result \<times> servers \<times> box_net" where
  "open_servers allowed [] r n = (Inr (), r, n)"
| "open_servers allowed (e # es) r n = (case listen_on allowed e n of
     Inl x \<Rightarrow> (Inl x, r, n)
   | Inr n1 \<Rightarrow> open_servers allowed es (r\<lparr>rs_servers := rs_servers r @ [e]\<rparr>) n1)"

definition advertise :: "(endpoint \<Rightarrow> bool) \<Rightarrow> servers \<Rightarrow> box_net \<Rightarrow> unit result \<times> servers \<times> box_net" where
  "advertise allowed r n = (case bx_ssdp n of
      Some l \<Rightarrow> (Inr (), r, n\<lparr>bx_ssdp := Some (register (ssdp_config_of (rt_config (rs_core r))) l)\<rparr>)
    | None \<Rightarrow> (case bind_shared allowed ([], SSDP_PORT) n of
          Inl x \<Rightarrow> (Inl x, r, n)
        | Inr n1 \<Rightarrow> (Inr (), r\<lparr>rs_own_ssdp := rs_own_ssdp r @ [([], SSDP_PORT)]\<rparr>, n1)))"

definition open_ftp :: "(endpoint \<Rightarrow> bool) \<Rightarrow> servers \<Rightarrow> box_net \<Rightarrow> unit result \<times> servers \<times> box_net" where
  "open_ftp allowed r n = (let e = (vp_bind_ip (rt_config (rs_core r)), FTPS_PORT) in case listen_on allowed e n of
      Inl x \<Rightarrow> (Inl x, r, n)
    | Inr n1 \<Rightarrow> (Inr (), r\<lparr>rs_ftp := Some e\<rparr>, n1))"

definition own_endpoints :: "virtual_printer \<Rightarrow> endpoint list" where
  "own_endpoints c = [(vp_bind_ip c, PLAIN_BIND_PORT), (vp_bind_ip c, TLS_BIND_PORT), (vp_bind_ip c, MQTT_PORT)]"

definition bring_up :: "(endpoint \<Rightarrow> bool) \<Rightarrow> servers \<Rightarrow> box_net \<Rightarrow> unit result \<times> servers \<times> box_net" where
  "bring_up allowed r n =
     (case open_servers allowed (own_endpoints (rt_config (rs_core r))) r n of
        (Inl x, r1, n1) \<Rightarrow> (Inl x, r1, n1)
      | (Inr _, r1, n1) \<Rightarrow> (case advertise allowed r1 n1 of
            (Inl x, r2, n2) \<Rightarrow> (Inl x, r2, n2)
          | (Inr _, r2, n2) \<Rightarrow> open_ftp allowed r2 n2))"

text \<open>Preparing the directory and the certificates may raise before anything is open.\<close>

definition start_servers :: "start_env \<Rightarrow> servers \<Rightarrow> box_net \<Rightarrow> unit result \<times> servers \<times> box_net" where
  "start_servers env r n = (case st_prepare env of
      Inl x \<Rightarrow> (Inl x, r, n)
    | Inr _ \<Rightarrow> (let r1 = r\<lparr>rs_broker := Some (new_broker (vp_serial (rt_config (rs_core r))) (rs_auth r))\<rparr>
        in case bring_up (st_allowed env) r1 n of
            (Inl x, r2, n2) \<Rightarrow> (let (r3, n3) = stop_servers r2 n2 in (Inl x, r3, n3))
          | (Inr u, r2, n2) \<Rightarrow> (Inr u, r2, n2)))"

text \<open>The supervisor stops a printer whose start raised once more.\<close>

definition start_or_stop :: "start_env \<Rightarrow> servers \<Rightarrow> box_net \<Rightarrow> bool \<times> servers \<times> box_net" where
  "start_or_stop env r n = (case start_servers env r n of
      (Inr _, r1, n1) \<Rightarrow> (True, r1, n1)
    | (Inl x, r1, n1) \<Rightarrow> (let (r2, n2) = stop_servers r1 n1 in (False, r2, n2)))"

section \<open>The wiring\<close>

definition report_args_of :: "vp_runtime \<Rightarrow> int \<Rightarrow> string \<Rightarrow> string \<Rightarrow> string \<Rightarrow> report_args" where
  "report_args_of rt seq state file prepare = (let c = rt_config rt in
     \<lparr>ra_units = vp_units c, ra_trays = vp_trays c, ra_sequence = PInt seq, ra_filaments = Some (vp_pool c), ra_gcode_state = state,
      ra_gcode_file = file, ra_prepare = prepare, ra_version = rt_version rt, ra_serial = vp_serial c\<rparr>)"

definition report_of :: "(string \<Rightarrow> string) \<Rightarrow> (pyval \<Rightarrow> string) \<Rightarrow> vp_runtime \<Rightarrow> int \<Rightarrow> string \<Rightarrow> string \<Rightarrow> string \<Rightarrow> (string \<times> pyval) list result" where
  "report_of sha rep rt seq state file prepare = build_push_status sha rep (report_args_of rt seq state file prepare)"

definition version_of :: "(string \<Rightarrow> string) \<Rightarrow> (pyval \<Rightarrow> string) \<Rightarrow> vp_runtime \<Rightarrow> string \<Rightarrow> (string \<times> pyval) list" where
  "version_of sha rep rt seq = (let c = rt_config rt
     in build_get_version sha rep (vp_model c) (vp_serial c) (vp_units c) (PStr seq) (vp_ams_type c))"

definition on_stored :: "capture_env \<Rightarrow> real \<Rightarrow> upload_record \<Rightarrow> servers \<Rightarrow> servers" where
  "on_stored env now up r = r\<lparr>rs_broker := map_option (set_print_state ''FINISH'' (Some (up_filename up)) (Some ''100'')) (rs_broker r),
     rs_capture := record_upload env now up (rs_capture r)\<rparr>"

definition on_project_file :: "capture_env \<Rightarrow> real \<Rightarrow> project_intent \<Rightarrow> servers \<Rightarrow> servers" where
  "on_project_file env now intent r = r\<lparr>rs_capture := record_project_file env now intent (rs_capture r)\<rparr>"

text \<open>A hot apply exchanges the members, in the set that the broker shares, and the configuration the reports are built from.\<close>

definition apply_hot_servers :: "vp_env \<Rightarrow> int \<Rightarrow> virtual_printer \<Rightarrow> servers \<Rightarrow> (string, int) odict \<Rightarrow> servers \<times> (string, int) odict" where
  "apply_hot_servers env now c r store = (let (core, store1) = apply_hot env now c (rs_core r) store
     in (r\<lparr>rs_core := core, rs_auth := replace_members (rs_auth r) (vp_members c),
           rs_broker := map_option (\<lambda>b. b\<lparr>br_auth := replace_members (br_auth b) (vp_members c)\<rparr>) (rs_broker r)\<rparr>, store1))"

section \<open>The single-printer supervisor\<close>

record single =
  sg_runtime :: "vp_runtime option"
  sg_identity :: "identity option"
  sg_hot :: "hot option"
  sg_versions :: "(string, int) odict"

definition single_stop :: "single \<Rightarrow> single" where
  "single_stop s = s\<lparr>sg_runtime := None, sg_identity := None, sg_hot := None\<rparr>"

definition single_start_fresh :: "vp_env \<Rightarrow> int \<Rightarrow> virtual_printer \<Rightarrow> single \<Rightarrow> single" where
  "single_start_fresh env now c s0 =
     (let s = single_stop s0; rt = new_runtime now c (sg_versions s);
          s1 = s\<lparr>sg_versions := save_version env (vp_serial c) (rt_version rt) (sg_versions s)\<rparr>
      in if ve_starts env c [] then s1\<lparr>sg_runtime := Some rt, sg_identity := Some (identity_fingerprint c), sg_hot := Some (hot_state c)\<rparr>
         else s1)"

definition single_reconcile :: "vp_env \<Rightarrow> int \<Rightarrow> virtual_printer option \<Rightarrow> single \<Rightarrow> single" where
  "single_reconcile env now config s = (case config of
      None \<Rightarrow> single_stop s
    | Some c \<Rightarrow> (case sg_runtime s of
          Some rt \<Rightarrow>
            if sg_identity s = Some (identity_fingerprint c)
            then (if sg_hot s = Some (hot_state c) then s
                  else (let (rt', store) = apply_hot env now c rt (sg_versions s); s1 = s\<lparr>sg_runtime := Some rt', sg_versions := store\<rparr>
                    in if ve_push_ok env c then s1\<lparr>sg_hot := Some (hot_state c)\<rparr> else single_start_fresh env now c s1))
            else single_start_fresh env now c s
        | None \<Rightarrow> single_start_fresh env now c s))"

definition single_model :: "single \<Rightarrow> string option" where
  "single_model s = map_option (\<lambda>rt. vp_model (rt_config rt)) (sg_runtime s)"

section \<open>The loop thread\<close>

text \<open>What callers hand over: nothing, one configuration, or a list with other things in it.\<close>

datatype config_arg = No_config | One_config virtual_printer | Config_list "virtual_printer option list" | Other_arg

definition to_config_list :: "config_arg \<Rightarrow> virtual_printer list" where
  "to_config_list a = (case a of One_config c \<Rightarrow> [c] | Config_list cs \<Rightarrow> List.map_filter id cs | _ \<Rightarrow> [])"

definition ensure_loop :: "bool \<Rightarrow> (string, int) odict \<Rightarrow> facade \<Rightarrow> unit result \<times> facade" where
  "ensure_loop ready disk f = (case fc_supervisor f of
      Some s \<Rightarrow> (Inr (), f)
    | None \<Rightarrow> if ready then (Inr (), f\<lparr>fc_supervisor := Some (new_supervisor\<lparr>sv_versions := disk\<rparr>)\<rparr>)
        else (Inl (RuntimeErr ''virtual printer event loop failed to start''), f))"

definition stop_loop_thread :: "facade \<Rightarrow> facade" where
  "stop_loop_thread f = \<lparr>fc_supervisor = None, fc_model = None, fc_identities = [], fc_configs = []\<rparr>"

definition stop_in_loop :: "supervisor \<Rightarrow> facade \<Rightarrow> facade" where
  "stop_in_loop s f = f\<lparr>fc_supervisor := Some (stop_supervisor s), fc_model := None, fc_identities := []\<rparr>"

text \<open>\<open>late\<close>: the loop did not finish within the time-out: the caller gets the exception and the thread is kept, but the loop
  still runs the stop to its end.\<close>

definition stop_sync :: "bool \<Rightarrow> facade \<Rightarrow> unit result \<times> facade" where
  "stop_sync late f = (case fc_supervisor f of
      None \<Rightarrow> (Inr (), f\<lparr>fc_model := None, fc_identities := []\<rparr>)
    | Some s \<Rightarrow> if late then (Inl TimeoutErr, stop_in_loop s f) else (Inr (), stop_loop_thread (stop_in_loop s f)))"


section \<open>Up entirely or not at all\<close>

definition held_endpoints :: "servers \<Rightarrow> endpoint list" where
  "held_endpoints r = rs_servers r @ (case rs_ftp r of None \<Rightarrow> [] | Some e \<Rightarrow> [e])"

definition shared_sockets :: "endpoint list \<Rightarrow> (endpoint \<times> bool) list" where
  "shared_sockets es = map (\<lambda>e. (e, True)) es"

definition holds :: "box_net \<Rightarrow> servers \<Rightarrow> box_net \<Rightarrow> bool" where
  "holds n0 r n \<longleftrightarrow> bx_listening n = bx_listening n0 @ held_endpoints r \<and> set (held_endpoints r) \<inter> set (bx_listening n0) = {} \<and>
     bx_datagram n = shared_sockets (rs_own_ssdp r) @ bx_datagram n0"

definition down :: "servers \<Rightarrow> bool" where
  "down r \<longleftrightarrow> rs_broker r = None \<and> rs_servers r = [] \<and> rs_own_ssdp r = [] \<and> rs_ftp r = None"

lemma clash_own [simp]: "clash e e"
  by (simp add: clash_def)

lemma free_tcp_new: "free_tcp allowed n e \<Longrightarrow> e \<notin> set (bx_listening n)"
  by (auto simp: free_tcp_def list_all_iff)

lemma listen_on_Inr: "listen_on allowed e n = Inr n1 \<longleftrightarrow> free_tcp allowed n e \<and> e \<notin> set (bx_listening n) \<and> n1 = n\<lparr>bx_listening := bx_listening n @ [e]\<rparr>"
  using free_tcp_new by (auto simp: listen_on_def)

lemma bind_shared_Inr: "bind_shared allowed e n = Inr n1 \<longleftrightarrow> free_udp allowed n e \<and> n1 = n\<lparr>bx_datagram := (e, True) # bx_datagram n\<rparr>"
  by (auto simp: bind_shared_def)

lemma listen_on_cases: "(\<exists>x. listen_on allowed e n = Inl x) \<or> (\<exists>n1. listen_on allowed e n = Inr n1)"
  by (cases "listen_on allowed e n") auto

lemma open_servers_holds:
  "open_servers allowed es r n = (res, r', n') \<Longrightarrow> holds n0 r n \<Longrightarrow> rs_own_ssdp r = [] \<Longrightarrow> rs_ftp r = None \<Longrightarrow>
   holds n0 r' n' \<and> bx_ssdp n' = bx_ssdp n \<and> rs_core r' = rs_core r \<and> rs_broker r' = rs_broker r \<and> rs_own_ssdp r' = [] \<and> rs_ftp r' = None \<and>
   (res = Inr () \<longrightarrow> rs_servers r' = rs_servers r @ es)"
proof (induction es arbitrary: r n)
  case (Cons e es)
  show ?case
  proof (cases "listen_on allowed e n")
    case (Inl x)
    then show ?thesis using Cons.prems by auto
  next
    case (Inr n1)
    then have "holds n0 (r\<lparr>rs_servers := rs_servers r @ [e]\<rparr>) n1" using Cons.prems
      by (auto simp: listen_on_Inr holds_def held_endpoints_def)
    from Cons.IH [OF _ this] show ?thesis using Cons.prems Inr by (auto simp: listen_on_Inr)
  qed
qed auto

lemma advertise_holds:
  "advertise allowed r n = (res, r', n') \<Longrightarrow> holds n0 r n \<Longrightarrow> rs_own_ssdp r = [] \<Longrightarrow> rs_ftp r = None \<Longrightarrow>
   holds n0 r' n' \<and> rs_core r' = rs_core r \<and> rs_broker r' = rs_broker r \<and> rs_servers r' = rs_servers r \<and> rs_ftp r' = None \<and>
   (bx_ssdp n' = bx_ssdp n \<or> bx_ssdp n' = map_option (register (ssdp_config_of (rt_config (rs_core r)))) (bx_ssdp n)) \<and>
   (res = Inr () \<longrightarrow> bx_ssdp n' = map_option (register (ssdp_config_of (rt_config (rs_core r)))) (bx_ssdp n) \<and>
     rs_own_ssdp r' = (if bx_ssdp n = None then [([], SSDP_PORT)] else []))"
  by (auto simp: advertise_def bind_shared_Inr holds_def held_endpoints_def shared_sockets_def split: option.splits sum.splits)

lemma open_ftp_holds:
  "open_ftp allowed r n = (res, r', n') \<Longrightarrow> holds n0 r n \<Longrightarrow> rs_ftp r = None \<Longrightarrow>
   holds n0 r' n' \<and> bx_ssdp n' = bx_ssdp n \<and> rs_core r' = rs_core r \<and> rs_broker r' = rs_broker r \<and> rs_servers r' = rs_servers r \<and>
   rs_own_ssdp r' = rs_own_ssdp r \<and> (res = Inr () \<longrightarrow> rs_ftp r' = Some (vp_bind_ip (rt_config (rs_core r)), FTPS_PORT))"
  by (auto simp: open_ftp_def Let_def listen_on_Inr holds_def held_endpoints_def split: sum.splits)

text \<open>What a printer that is up listens on.\<close>

definition up_endpoints :: "virtual_printer \<Rightarrow> endpoint list" where
  "up_endpoints c = own_endpoints c @ [(vp_bind_ip c, FTPS_PORT)]"

definition own_discovery :: "box_net \<Rightarrow> endpoint list" where
  "own_discovery n = (if bx_ssdp n = None then [([], SSDP_PORT)] else [])"

lemma bring_up_holds:
  assumes "bring_up allowed r n = (res, r', n')" "holds n0 r n" "rs_servers r = []" "rs_own_ssdp r = []" "rs_ftp r = None"
  shows "holds n0 r' n' \<and> rs_core r' = rs_core r \<and> rs_broker r' = rs_broker r \<and>
    (bx_ssdp n' = bx_ssdp n \<or> bx_ssdp n' = map_option (register (ssdp_config_of (rt_config (rs_core r)))) (bx_ssdp n)) \<and>
    (res = Inr () \<longrightarrow> bx_ssdp n' = map_option (register (ssdp_config_of (rt_config (rs_core r)))) (bx_ssdp n) \<and>
      held_endpoints r' = up_endpoints (rt_config (rs_core r)) \<and> rs_own_ssdp r' = own_discovery n)"
proof -
  obtain x1 r1 n1 where s1: "open_servers allowed (own_endpoints (rt_config (rs_core r))) r n = (x1, r1, n1)" by (metis surj_pair)
  note h1 = open_servers_holds [OF s1 assms(2,4,5)]
  show ?thesis
  proof (cases x1)
    case (Inl x)
    then show ?thesis using assms(1) s1 h1 by (auto simp: bring_up_def)
  next
    case (Inr u1)
    obtain x2 r2 n2 where s2: "advertise allowed r1 n1 = (x2, r2, n2)" by (metis surj_pair)
    have h2: "holds n0 r2 n2 \<and> rs_core r2 = rs_core r1 \<and> rs_broker r2 = rs_broker r1 \<and> rs_servers r2 = rs_servers r1 \<and> rs_ftp r2 = None \<and>
       (bx_ssdp n2 = bx_ssdp n1 \<or> bx_ssdp n2 = map_option (register (ssdp_config_of (rt_config (rs_core r1)))) (bx_ssdp n1)) \<and>
       (x2 = Inr () \<longrightarrow> bx_ssdp n2 = map_option (register (ssdp_config_of (rt_config (rs_core r1)))) (bx_ssdp n1) \<and>
         rs_own_ssdp r2 = (if bx_ssdp n1 = None then [([], SSDP_PORT)] else []))"
      by (rule advertise_holds [OF s2]) (use h1 in auto)
    show ?thesis
    proof (cases x2)
      case (Inl x)
      then have "res = Inl x" "r' = r2" "n' = n2" using assms(1) s1 s2 Inr by (simp_all add: bring_up_def)
      then show ?thesis using h1 h2 by simp
    next
      case u2: (Inr u2)
      obtain x3 r3 n3 where s3: "open_ftp allowed r2 n2 = (x3, r3, n3)" by (metis surj_pair)
      have out: "res = x3" "r' = r3" "n' = n3" using assms(1) s1 s2 s3 Inr u2 by (simp_all add: bring_up_def)
      have h3: "holds n0 r3 n3 \<and> bx_ssdp n3 = bx_ssdp n2 \<and> rs_core r3 = rs_core r2 \<and> rs_broker r3 = rs_broker r2 \<and> rs_servers r3 = rs_servers r2 \<and>
          rs_own_ssdp r3 = rs_own_ssdp r2 \<and> (x3 = Inr () \<longrightarrow> rs_ftp r3 = Some (vp_bind_ip (rt_config (rs_core r2)), FTPS_PORT))"
        by (rule open_ftp_holds [OF s3]) (use h2 in auto)
      show ?thesis unfolding out using h1 h2 h3 Inr u2 assms(3)
        by (simp add: held_endpoints_def up_endpoints_def own_discovery_def)
    qed
  qed
qed

lemma drop_held: "set es \<inter> set xs = {} \<Longrightarrow> filter (\<lambda>e. e \<notin> set es) (xs @ es) = xs" for es xs :: "endpoint list"
  by (auto simp: filter_empty_conv intro: filter_True)

lemma close_own: "fold close_datagram es (n\<lparr>bx_datagram := shared_sockets es @ ds\<rparr>) = n\<lparr>bx_datagram := ds\<rparr>"
  by (induction es) (simp_all add: close_datagram_def shared_sockets_def)

lemma stop_releases:
  assumes "holds n0 r n" "stop_servers r n = (r', n')"
  shows "bx_listening n' = bx_listening n0" "bx_datagram n' = bx_datagram n0"
    "bx_ssdp n' = map_option (unregister (vp_serial (rt_config (rs_core r)))) (bx_ssdp n)" "down r'" "rs_core r' = rs_core r"
proof -
  let ?n1 = "n\<lparr>bx_ssdp := map_option (unregister (vp_serial (rt_config (rs_core r)))) (bx_ssdp n)\<rparr>"
  have "?n1 = ?n1\<lparr>bx_datagram := shared_sockets (rs_own_ssdp r) @ bx_datagram n0\<rparr>" using assms(1) by (simp add: holds_def)
  then have "fold close_datagram (rs_own_ssdp r) ?n1 = ?n1\<lparr>bx_datagram := bx_datagram n0\<rparr>" using close_own by metis
  then have n': "n' = stop_listening (held_endpoints r) (?n1\<lparr>bx_datagram := bx_datagram n0\<rparr>)"
    using assms(2) by (auto simp: stop_servers_def Let_def held_endpoints_def)
  show "bx_listening n' = bx_listening n0"
    using assms(1) drop_held [of "held_endpoints r" "bx_listening n0"] by (simp add: n' stop_listening_def holds_def)
  show "bx_datagram n' = bx_datagram n0" "bx_ssdp n' = map_option (unregister (vp_serial (rt_config (rs_core r)))) (bx_ssdp n)"
    by (simp_all add: n' stop_listening_def)
  show "down r'" "rs_core r' = rs_core r"
    using assms(2) by (auto simp: stop_servers_def down_def Let_def)
qed

lemma unregister_register: "unregister (sc_serial c) (register c l) = unregister (sc_serial c) l"
  by (simp add: unregister_def register_def AList.delete_update_same)

lemma unregister_twice: "unregister k (unregister k l) = unregister k l"
  by (simp add: unregister_def AList.delete_idem)

text \<open>When the printer comes up: everything could be prepared, each of its servers can bind, and so can the discovery socket if
  there is no shared listener.\<close>

definition startable :: "start_env \<Rightarrow> virtual_printer \<Rightarrow> box_net \<Rightarrow> bool" where
  "startable env c n \<longleftrightarrow> st_prepare env = Inr () \<and> list_all (free_tcp (st_allowed env) n) (up_endpoints c) \<and>
     list_all (free_udp (st_allowed env) n) (own_discovery n)"

lemma free_tcp_later: "snd f \<noteq> snd e \<Longrightarrow> free_tcp allowed (n\<lparr>bx_listening := bx_listening n @ [e]\<rparr>) f = free_tcp allowed n f"
  by (simp add: free_tcp_def clash_def)

lemma open_servers_ok:
  "distinct (map snd es) \<Longrightarrow> open_servers allowed es r n = (res, r', n') \<Longrightarrow>
   (res = Inr () \<longleftrightarrow> list_all (free_tcp allowed n) es) \<and>
   (res = Inr () \<longrightarrow> n' = n\<lparr>bx_listening := bx_listening n @ es\<rparr> \<and> rs_core r' = rs_core r)"
proof (induction es arbitrary: r n)
  case (Cons e es)
  show ?case
  proof (cases "free_tcp allowed n e")
    case False
    then show ?thesis using Cons.prems(2) by (auto simp: listen_on_def)
  next
    case True
    then have run: "open_servers allowed es (r\<lparr>rs_servers := rs_servers r @ [e]\<rparr>) (n\<lparr>bx_listening := bx_listening n @ [e]\<rparr>) = (res, r', n')"
      using Cons.prems(2) by (simp add: listen_on_def)
    have same: "list_all (free_tcp allowed (n\<lparr>bx_listening := bx_listening n @ [e]\<rparr>)) es = list_all (free_tcp allowed n) es"
      unfolding list_all_iff using Cons.prems(1) by (intro ball_cong refl free_tcp_later) (metis distinct.simps(2) image_eqI list.simps(9) list.set_map)
    have "distinct (map snd es)" using Cons.prems(1) by simp
    from Cons.IH [OF this run] same True show ?thesis by simp
  qed
qed simp

lemma bring_up_ok:
  assumes "bring_up allowed r n = (res, r', n')"
  shows "res = Inr () \<longleftrightarrow> list_all (free_tcp allowed n) (up_endpoints (rt_config (rs_core r))) \<and> list_all (free_udp allowed n) (own_discovery n)"
proof -
  let ?c = "rt_config (rs_core r)"
  have d: "distinct (map snd (own_endpoints ?c))" by (simp add: own_endpoints_def PLAIN_BIND_PORT_def TLS_BIND_PORT_def MQTT_PORT_def)
  obtain x1 r1 n1 where s1: "open_servers allowed (own_endpoints ?c) r n = (x1, r1, n1)" by (metis surj_pair)
  note h = open_servers_ok [OF d s1]
  show ?thesis
  proof (cases x1)
    case (Inl x)
    then show ?thesis using assms s1 h by (auto simp: bring_up_def up_endpoints_def)
  next
    case (Inr u)
    then have l: "n1 = n\<lparr>bx_listening := bx_listening n @ own_endpoints ?c\<rparr>" "rs_core r1 = rs_core r"
      and ok: "list_all (free_tcp allowed n) (own_endpoints ?c)" using h by simp_all
    have ftp: "bx_listening m = bx_listening n @ own_endpoints ?c \<Longrightarrow> free_tcp allowed m (vp_bind_ip ?c, FTPS_PORT) =
        free_tcp allowed n (vp_bind_ip ?c, FTPS_PORT)" for m
      by (simp add: free_tcp_def clash_def own_endpoints_def PLAIN_BIND_PORT_def TLS_BIND_PORT_def MQTT_PORT_def FTPS_PORT_def)
    have udp: "free_udp allowed n1 e = free_udp allowed n e" for e by (simp add: l(1) free_udp_def)
    show ?thesis
    proof (cases "bx_ssdp n")
      case None
      show ?thesis
      proof (cases "free_udp allowed n ([], SSDP_PORT)")
        case True
        with None show ?thesis using assms s1 Inr ok ftp
          by (auto simp: bring_up_def advertise_def l bind_shared_def udp [unfolded l(1)] open_ftp_def Let_def listen_on_def up_endpoints_def own_discovery_def
              split: if_splits)
      next
        case False
        with None show ?thesis using assms s1 Inr ok
          by (auto simp: bring_up_def advertise_def l bind_shared_def udp [unfolded l(1)] up_endpoints_def own_discovery_def)
      qed
    next
      case (Some ls)
      show ?thesis using assms s1 Inr ok Some ftp
        by (auto simp: bring_up_def advertise_def l open_ftp_def Let_def listen_on_def up_endpoints_def own_discovery_def split: if_splits)
    qed
  qed
qed

lemma start_servers_holds:
  assumes "down r" "start_servers env r n = (res, r', n')"
  shows "res = Inr () \<longleftrightarrow> startable env (rt_config (rs_core r)) n"
    and "res = Inr () \<Longrightarrow> holds n r' n' \<and> rs_core r' = rs_core r \<and> rs_broker r' \<noteq> None \<and>
      bx_ssdp n' = map_option (register (ssdp_config_of (rt_config (rs_core r)))) (bx_ssdp n) \<and>
      held_endpoints r' = up_endpoints (rt_config (rs_core r)) \<and> rs_own_ssdp r' = own_discovery n"
    and "res \<noteq> Inr () \<Longrightarrow> bx_listening n' = bx_listening n \<and> bx_datagram n' = bx_datagram n \<and> down r' \<and> rs_core r' = rs_core r \<and>
      map_option (unregister (vp_serial (rt_config (rs_core r)))) (bx_ssdp n') =
        map_option (unregister (vp_serial (rt_config (rs_core r)))) (bx_ssdp n)"
proof -
  let ?c = "rt_config (rs_core r)"
  let ?r1 = "r\<lparr>rs_broker := Some (new_broker (vp_serial ?c) (rs_auth r))\<rparr>"
  have h0: "holds n ?r1 n" "rs_servers ?r1 = []" "rs_own_ssdp ?r1 = []" "rs_ftp ?r1 = None" "rs_core ?r1 = rs_core r"
    using assms(1) by (simp_all add: holds_def held_endpoints_def down_def shared_sockets_def)
  obtain x r2 n2 where up: "bring_up (st_allowed env) ?r1 n = (x, r2, n2)" by (metis surj_pair)
  note ok = bring_up_ok [OF up] and h = bring_up_holds [OF up h0(1-4)]
  have key: "unregister (vp_serial ?c) (register (ssdp_config_of ?c) l) = unregister (vp_serial ?c) l" for l
    using unregister_register [of "ssdp_config_of ?c" l] by (simp add: ssdp_config_of_def)
  show "res = Inr () \<longleftrightarrow> startable env ?c n"
    using assms(2) up ok by (auto simp: start_servers_def startable_def split: sum.splits prod.splits)
  show "holds n r' n' \<and> rs_core r' = rs_core r \<and> rs_broker r' \<noteq> None \<and>
      bx_ssdp n' = map_option (register (ssdp_config_of ?c)) (bx_ssdp n) \<and>
      held_endpoints r' = up_endpoints ?c \<and> rs_own_ssdp r' = own_discovery n" if "res = Inr ()"
    using assms(2) up h that by (auto simp: start_servers_def split: sum.splits prod.splits)
  show "bx_listening n' = bx_listening n \<and> bx_datagram n' = bx_datagram n \<and> down r' \<and> rs_core r' = rs_core r \<and>
      map_option (unregister (vp_serial ?c)) (bx_ssdp n') = map_option (unregister (vp_serial ?c)) (bx_ssdp n)" if bad: "res \<noteq> Inr ()"
  proof (cases "st_prepare env")
    case (Inl e)
    then show ?thesis using assms by (simp add: start_servers_def)
  next
    case (Inr u)
    obtain r3 n3 where st: "stop_servers r2 n2 = (r3, n3)" by (metis surj_pair)
    from h have hd: "holds n r2 n2" by blast
    have out: "r' = r3" "n' = n3" using assms(2) up Inr st bad by (auto simp: start_servers_def split: sum.splits)
    show ?thesis unfolding out using stop_releases [OF hd st] h
      by (auto simp: option.map_comp o_def unregister_twice key)
  qed
qed

text \<open>
  C37: A virtual printer is up entirely or not at all. Starting it succeeds exactly when its directory and certificates could be
  prepared, every one of its four servers (plain and TLS bind, MQTT, FTPS) may be bound and nothing listens there, on its address or
  on all addresses, and - when there is no shared listener - its discovery socket may be bound: other sockets on that port do not
  prevent it if they share the port as it does. Then it listens on exactly these in addition to what was open, a shared listener answers
  for its serial, and stopping it later gives all of them back. Otherwise whatever had been opened before the failure is closed again
  and its serial is not advertised.\<close>
theorem start_all_or_nothing:
  assumes "down r" "start_or_stop env r n = (ok, r', n')"
  shows "ok = startable env (rt_config (rs_core r)) n \<and>
    (if ok then bx_listening n' = bx_listening n @ up_endpoints (rt_config (rs_core r)) \<and>
        bx_datagram n' = shared_sockets (own_discovery n) @ bx_datagram n \<and>
        bx_ssdp n' = map_option (register (ssdp_config_of (rt_config (rs_core r)))) (bx_ssdp n) \<and> rs_broker r' \<noteq> None \<and>
        bx_listening (snd (stop_servers r' n')) = bx_listening n \<and> bx_datagram (snd (stop_servers r' n')) = bx_datagram n \<and>
        down (fst (stop_servers r' n'))
     else bx_listening n' = bx_listening n \<and> bx_datagram n' = bx_datagram n \<and> down r' \<and>
        bx_ssdp n' = map_option (unregister (vp_serial (rt_config (rs_core r)))) (bx_ssdp n))"
proof -
  obtain x r1 n1 where st: "start_servers env r n = (x, r1, n1)" by (metis surj_pair)
  note start = start_servers_holds [OF assms(1) st]
  show ?thesis
  proof (cases x)
    case (Inr u)
    then have out: "ok" "r' = r1" "n' = n1" using assms(2) st by (simp_all add: start_or_stop_def)
    from start(2) [unfolded Inr] have h: "holds n r1 n1"
      and facts: "rs_broker r1 \<noteq> None" "bx_ssdp n1 = map_option (register (ssdp_config_of (rt_config (rs_core r)))) (bx_ssdp n)"
        "held_endpoints r1 = up_endpoints (rt_config (rs_core r))" "rs_own_ssdp r1 = own_discovery n" by simp_all
    obtain r2 n2 where sp: "stop_servers r1 n1 = (r2, n2)" by (metis surj_pair)
    have listening: "bx_listening n1 = bx_listening n @ up_endpoints (rt_config (rs_core r))"
      "bx_datagram n1 = shared_sockets (own_discovery n) @ bx_datagram n"
      using h unfolding holds_def facts(3,4) by blast+
    have "startable env (rt_config (rs_core r)) n" using start(1) Inr by simp
    with out listening facts(1,2) stop_releases(1,2,4) [OF h sp] show ?thesis by (simp add: sp)
  next
    case (Inl e)
    obtain r2 n2 where sp: "stop_servers r1 n1 = (r2, n2)" by (metis surj_pair)
    have out: "\<not> ok" "r' = r2" "n' = n2" using assms(2) st sp Inl by (simp_all add: start_or_stop_def)
    from start(3) Inl have h: "holds n1 r1 n1" by (simp add: holds_def held_endpoints_def down_def shared_sockets_def)
    show ?thesis using out start(1,3) Inl stop_releases [OF h sp] by simp
  qed
qed

text \<open>A box on which the FTPS port of the second address is taken and another responder shares the discovery port.\<close>

definition demo_box :: box_net where
  "demo_box = \<lparr>bx_listening = [(''10.0.0.3'', 990)], bx_datagram = [(([], 2021), True)], bx_ssdp = None\<rparr>"

definition demo_servers :: "string \<Rightarrow> servers" where
  "demo_servers ip = new_servers \<lparr>as_members = [], as_limiter = \<lparr>rl_limit = 5, rl_window = 60, rl_max_keys = 64, rl_by_ip = [], rl_by_code = []\<rparr>\<rparr>
     (new_coordinator 30 64 8) 100 (sample_vp ''A'' ip [''aa''] ''PLA'') []"

definition demo_start :: start_env where
  "demo_start = \<lparr>st_prepare = Inr (), st_allowed = (\<lambda>_. True)\<rparr>"

lemma demo_down: "down (demo_servers ip)"
  by (simp add: demo_servers_def new_servers_def down_def)

lemma demo_core: "rt_config (rs_core (demo_servers ip)) = sample_vp ''A'' ip [''aa''] ''PLA''"
  by (simp add: demo_servers_def new_servers_def new_runtime_def)

lemma demo_startable: "startable demo_start (sample_vp ''A'' ''10.0.0.2'' [''aa''] ''PLA'') demo_box"
  "\<not> startable demo_start (sample_vp ''A'' ''10.0.0.3'' [''aa''] ''PLA'') demo_box"
  "own_discovery demo_box = [([], SSDP_PORT)]"
  by code_simp+

theorem start_all_or_nothing_witness:
  "fst (start_or_stop demo_start (demo_servers ''10.0.0.2'') demo_box) \<and>
   bx_datagram (snd (snd (start_or_stop demo_start (demo_servers ''10.0.0.2'') demo_box))) = [(([], 2021), True), (([], 2021), True)] \<and>
   bx_listening (snd (snd (start_or_stop demo_start (demo_servers ''10.0.0.3'') demo_box))) = bx_listening demo_box"
proof -
  obtain ok r n where one: "start_or_stop demo_start (demo_servers ''10.0.0.2'') demo_box = (ok, r, n)" by (metis surj_pair)
  obtain ok' r' n' where two: "start_or_stop demo_start (demo_servers ''10.0.0.3'') demo_box = (ok', r', n')" by (metis surj_pair)
  have d: "shared_sockets (own_discovery demo_box) @ bx_datagram demo_box = [(([], 2021), True), (([], 2021), True)]"
    by code_simp
  from start_all_or_nothing [OF demo_down one] start_all_or_nothing [OF demo_down two] show ?thesis
    by (simp add: one two demo_core demo_startable(1,2) d del: append.simps)
qed

section \<open>A hot change reaches the slicer\<close>

definition report_version :: "(string \<times> pyval) list \<Rightarrow> pyval" where
  "report_version d = pget (as_dict (pget (as_dict (pget d ''print'')) ''ams'')) ''version''"

text \<open>The states of a printer: new, started, with uploads and print requests, and with hot changes.\<close>

inductive lived :: "servers \<Rightarrow> bool" where
  new: "lived (new_servers auth cc now c store)"
| started: "lived r \<Longrightarrow> down r \<Longrightarrow> lived (fst (snd (start_or_stop env r n)))"
| stored_upload: "lived r \<Longrightarrow> lived (on_stored cenv t up r)"
| print_request: "lived r \<Longrightarrow> lived (on_project_file cenv t intent r)"
| changed: "lived r \<Longrightarrow> lived (fst (apply_hot_servers env now c r store))"

lemma core_started: "down r \<Longrightarrow> rs_core (fst (snd (start_or_stop env r n))) = rs_core r"
proof -
  assume d: "down r"
  obtain x r1 n1 where st: "start_servers env r n = (x, r1, n1)" by (metis surj_pair)
  note start = start_servers_holds [OF d st]
  show ?thesis
  proof (cases x)
    case (Inl e)
    with start(3) have h: "holds n1 r1 n1" "rs_core r1 = rs_core r" by (simp_all add: holds_def held_endpoints_def down_def shared_sockets_def)
    obtain r2 n2 where sp: "stop_servers r1 n1 = (r2, n2)" by (metis surj_pair)
    from stop_releases(5) [OF h(1) sp] h(2) show ?thesis by (simp add: start_or_stop_def st Inl sp)
  next
    case (Inr u)
    with start(2) show ?thesis by (simp add: start_or_stop_def st)
  qed
qed

text \<open>The remembered signature is always that of the pool shown.\<close>

lemma lived_signature: "lived r \<Longrightarrow> rt_sig (rs_core r) = pool_signature (rt_config (rs_core r))"
  by (induction rule: lived.induct)
    (auto simp: new_servers_def new_runtime_def core_started on_stored_def on_project_file_def apply_hot_servers_def apply_hot_def bump_def Let_def
      split: prod.split)

text \<open>
  C38: A configuration that is applied hot, after any history of a printer (its start, uploads, print requests, earlier hot changes), is
  what the next report shows: the report is built, the parser of the agent reads back from it the new pool, tray by tray, and
  its filament version is greater than the one shown before exactly when the displayed pool differs from the one displayed
  before, otherwise the same; the running broker authenticates the new members.\<close>
theorem hot_pool_reaches_slicer:
  assumes "lived r" "apply_hot_servers env now c r store = (r', store')" "0 < vp_units c" "0 < vp_trays c" "vp_trays c \<le> 4"
  shows "\<exists>d us v. report_of sha rep (rs_core r') seq state file prepare = Inr d \<and>
    build_ams penv (as_dict (pget d ''print'')) = Inr us \<and>
    list_all2 (unit_matches rep (vp_pool c) (nat (vp_trays c))) [0..<nat (vp_units c)] us \<and>
    report_version d = PInt v \<and> rt_version (rs_core r) \<le> v \<and>
    (rt_version (rs_core r) < v) = (pool_identity (displayed_pool c) \<noteq> pool_identity (displayed_pool (rt_config (rs_core r)))) \<and>
    map_option (\<lambda>b. as_members (br_auth b)) (rs_broker r') = map_option (\<lambda>_. vp_members c) (rs_broker r)"
proof -
  let ?a = "report_args_of (rs_core r') seq state file prepare"
  have core: "rt_config (rs_core r') = c" "rt_version (rs_core r') = rt_version (bump now c (rs_core r))"
    "rs_broker r' = map_option (\<lambda>b. b\<lparr>br_auth := replace_members (br_auth b) (vp_members c)\<rparr>) (rs_broker r)"
    using assms(2) by (auto simp: apply_hot_servers_def apply_hot_def Let_def split: prod.splits)
  have a: "ra_units ?a = vp_units c" "ra_trays ?a = vp_trays c" "ra_filaments ?a = Some (vp_pool c)" "ra_version ?a = rt_version (rs_core r')"
    by (simp_all add: report_args_of_def core Let_def)
  obtain d where d: "build_push_status sha rep ?a = Inr d" using a assms(3,4) by (simp add: build_push_status_def)
  have "nat (ra_trays ?a) \<le> 4" using a assms(5) by simp
  from units_read [OF this, of penv 0 sha "ra_serial ?a" rep _ "vp_pool c" "nat (ra_units ?a)"]
  obtain us where us: "build_ams penv (as_dict (pget d ''print'')) = Inr us"
    "list_all2 (unit_matches rep (vp_pool c) (nat (vp_trays c))) [0..<nat (vp_units c)] us"
    by (fastforce simp: build_ams_def push_status_ams(1) [OF d] ams_units_of_def a Let_def)
  have v: "report_version d = PInt (rt_version (bump now c (rs_core r)))"
    unfolding report_version_def push_status_ams(2) [OF d] by (simp add: ams_dict_def Let_def a core pget_def get_or_def)
  show ?thesis
    using d us v lived_signature [OF assms(1)]
    by (auto simp: report_of_def core(3) bump_def option.map_comp o_def replace_members_def pool_signature_def)
qed

definition demo_hot :: virtual_printer where
  "demo_hot = (sample_vp ''A'' ''10.0.0.2'' [''bb''] ''PETG'')\<lparr>vp_pool := demo_pool\<rparr>"

definition demo_running :: servers where
  "demo_running = fst (snd (start_or_stop demo_start (demo_servers ''10.0.0.2'') demo_box))"

lemma demo_pool_changed:
  "pool_identity (displayed_pool demo_hot) \<noteq> pool_identity (displayed_pool (rt_config (rs_core demo_running)))"
  "rt_version (rs_core demo_running) = 100"
proof -
  have core: "rs_core demo_running = rs_core (demo_servers ''10.0.0.2'')" by (simp add: demo_running_def core_started demo_down)
  show "pool_identity (displayed_pool demo_hot) \<noteq> pool_identity (displayed_pool (rt_config (rs_core demo_running)))"
    unfolding core by code_simp
  show "rt_version (rs_core demo_running) = 100" unfolding core by code_simp
qed

text \<open>The clock went back to 7, and still the slicer is told of a newer filament state than 100; a second change with the same
  pool leaves it.\<close>

theorem hot_pool_reaches_slicer_witness:
  "let r = fst (apply_hot_servers (sample_env True) 7 demo_hot demo_running []); r' = fst (apply_hot_servers (sample_env True) 8 demo_hot r [])
   in \<exists>v. report_version (projr (report_of rev demo_rep (rs_core r) 1 ''IDLE'' [] ''0'')) = PInt v \<and> 100 < v \<and>
     rt_version (rs_core r) = rt_version (rs_core r')"
proof -
  obtain r store where run: "apply_hot_servers (sample_env True) 7 demo_hot demo_running [] = (r, store)" by (metis surj_pair)
  obtain r' store' where run': "apply_hot_servers (sample_env True) 8 demo_hot r [] = (r', store')" by (metis surj_pair)
  have size: "0 < vp_units demo_hot" "0 < vp_trays demo_hot" "vp_trays demo_hot \<le> 4" by (simp_all add: demo_hot_def sample_vp_def)
  have lived: "lived demo_running" unfolding demo_running_def demo_servers_def by (rule lived.started [OF lived.new]) (simp add: new_servers_def down_def)
  then have lived': "lived r" using lived.changed [of demo_running "sample_env True" 7 demo_hot "[]"] by (simp add: run)
  have config: "rt_config (rs_core r) = demo_hot" using run by (auto simp: apply_hot_servers_def apply_hot_def Let_def split: prod.splits)
  note seen = hot_pool_reaches_slicer [OF lived run size, of rev demo_rep 1 "''IDLE''" "[]" "''0''" undefined]
  note again = hot_pool_reaches_slicer [OF lived' run' size, of rev demo_rep 1 "''IDLE''" "[]" "''0''" undefined]
  have "rt_version (rs_core r') = rt_version (rs_core r)"
    using run' lived_signature [OF lived'] config
    by (auto simp: apply_hot_servers_def apply_hot_def Let_def bump_def split: prod.splits)
  with seen again show ?thesis using demo_pool_changed by (auto simp: run run')
qed

section \<open>The single-printer supervisor and the caches\<close>

text \<open>With no report pending, the single supervisor ends up with the printer it was given, whatever it had before, if that can start;
  unlike the supervisor of many, it restarts the printer when the push of a hot change fails.\<close>

definition single_ok :: "single \<Rightarrow> bool" where
  "single_ok s \<longleftrightarrow> (case sg_runtime s of None \<Rightarrow> sg_identity s = None \<and> sg_hot s = None
     | Some rt \<Rightarrow> sg_identity s = Some (identity_fingerprint (rt_config rt)) \<and> sg_hot s = Some (hot_state (rt_config rt)))"

lemma single_ok_fresh: "single_ok (single_start_fresh env now c s) \<and>
   (ve_starts env c [] \<longrightarrow> map_option rt_config (sg_runtime (single_start_fresh env now c s)) = Some c)"
  by (simp add: single_start_fresh_def single_stop_def single_ok_def Let_def new_runtime_def)

lemma hot_config_installed: "rt_config (fst (apply_hot env now c rt store)) = c"
  by (simp add: apply_hot_def Let_def)

text \<open>The three ways a reconciliation with a configuration ends: nothing to do, applied hot, or started afresh.\<close>

lemma single_reconcile_cases:
  obtains t where "single_reconcile env now (Some c) s = single_start_fresh env now c t"
  | rt where "single_reconcile env now (Some c) s = s" "sg_runtime s = Some rt" "sg_identity s = Some (identity_fingerprint c)" "sg_hot s = Some (hot_state c)"
  | rt rt' store where "sg_runtime s = Some rt" "sg_identity s = Some (identity_fingerprint c)" "rt_config rt' = c"
      "single_reconcile env now (Some c) s = s\<lparr>sg_runtime := Some rt', sg_versions := store, sg_hot := Some (hot_state c)\<rparr>"
proof (cases "sg_runtime s")
  case None
  then show ?thesis using that(1) by (simp add: single_reconcile_def)
next
  case (Some rt)
  obtain rt' store where hot: "apply_hot env now c rt (sg_versions s) = (rt', store)" by (metis surj_pair)
  then have c: "rt_config rt' = c" using hot_config_installed [of env now c rt "sg_versions s"] by simp
  let ?s1 = "s\<lparr>sg_runtime := Some rt', sg_versions := store\<rparr>"
  have unfold: "single_reconcile env now (Some c) s =
      (if sg_identity s = Some (identity_fingerprint c)
       then (if sg_hot s = Some (hot_state c) then s
             else if ve_push_ok env c then ?s1\<lparr>sg_hot := Some (hot_state c)\<rparr> else single_start_fresh env now c ?s1)
       else single_start_fresh env now c s)"
    by (simp add: single_reconcile_def Some hot Let_def)
  consider "single_reconcile env now (Some c) s = single_start_fresh env now c s"
    | "single_reconcile env now (Some c) s = single_start_fresh env now c ?s1"
    | "single_reconcile env now (Some c) s = s" "sg_identity s = Some (identity_fingerprint c)" "sg_hot s = Some (hot_state c)"
    | "single_reconcile env now (Some c) s = ?s1\<lparr>sg_hot := Some (hot_state c)\<rparr>" "sg_identity s = Some (identity_fingerprint c)"
    using unfold by (cases "sg_identity s = Some (identity_fingerprint c)"; cases "sg_hot s = Some (hot_state c)"; cases "ve_push_ok env c") simp_all
  then show ?thesis by cases (use that Some c in auto)
qed

lemma single_ok_reconcile: "single_ok s \<Longrightarrow> single_ok (single_reconcile env now config s)"
proof (cases config)
  case None
  then show ?thesis by (simp add: single_reconcile_def single_stop_def single_ok_def)
next
  case (Some c)
  assume "single_ok s"
  then show ?thesis unfolding Some
    by (cases rule: single_reconcile_cases [of env now c s]) (simp_all add: single_ok_fresh, simp add: single_ok_def)
qed

lemma single_follows:
  assumes "single_ok s" "ve_starts env c []"
  shows "\<exists>rt. sg_runtime (single_reconcile env now (Some c) s) = Some rt \<and> follows c rt"
proof (cases rule: single_reconcile_cases [of env now c s])
  case (1 t)
  then show ?thesis using single_ok_fresh [of env now c t] assms(2) by (auto simp: follows_def)
next
  case (2 rt)
  then show ?thesis using assms(1) by (simp add: single_ok_def follows_def)
next
  case (3 rt rt' store)
  then show ?thesis by (simp add: follows_def)
qed

text \<open>A stop that the caller does not wait for long enough: the printers are gone, and so are their identities, but the cached
  configurations the heartbeat reads still name them.\<close>

lemma late_stop_keeps_configs:
  assumes "fc_supervisor f = Some s"
  shows "fst (stop_sync True f) = Inl TimeoutErr" "fc_identities (snd (stop_sync True f)) = []"
    "fc_configs (snd (stop_sync True f)) = fc_configs f"
  using assms by (simp_all add: stop_sync_def stop_in_loop_def)

lemma stop_in_time_clears: "fc_supervisor f \<noteq> None \<Longrightarrow> stop_sync False f = (Inr (), \<lparr>fc_supervisor = None, fc_model = None, fc_identities = [], fc_configs = []\<rparr>)"
  by (auto simp: stop_sync_def stop_loop_thread_def)

end
