(* ===== verification/Cert.thy ===== *)
theory Cert
  imports VpManager Heartbeat
begin

text \<open>
  The certificates of a virtual printer, \<open>makeros_hub/vprinter/cert.py\<close>: one certificate authority per printer, kept over
  restarts, a fresh server certificate at every start, the TLS context of the servers, and what the heartbeat publishes.
  The package \<open>cryptography\<close> is a parameter: how keys and certificates are written and read as PEM, digests, and which names and
  IPv6 addresses it accepts; the keys and serial numbers a call draws are arguments. A certificate is the record of what the
  builder was told; a private key is a number, and the certificate of a key carries the same number. Every change of a file is
  a step that can be refused or, when power is lost, be cut off.
\<close>

section \<open>Certificates and files\<close>

datatype alt_name = Dns string | Ip string

record certificate =
  ct_subject :: "string list"
  ct_issuer :: "string list"
  ct_key :: nat
  ct_serial :: nat
  ct_from :: int
  ct_until :: int
  ct_basic :: "(bool \<times> int option) option"
  ct_usage :: "string list"
  ct_extended :: "string list"
  ct_names :: "alt_name list"
  ct_signer :: nat

datatype file_op = Write string string | Chmod string nat

datatype op_outcome = Done | Refused | Torn nat

type_synonym vault = "(string, string \<times> nat) odict"

record cert_env =
  cy_pem_key :: "nat \<Rightarrow> string"
  cy_pem_cert :: "certificate \<Rightarrow> string"
  cy_load_key :: "string \<Rightarrow> (bool \<times> nat) option"
  cy_load_cert :: "string \<Rightarrow> certificate option"
  cy_digest :: "certificate \<Rightarrow> nat list"
  cy_name_ok :: "string \<Rightarrow> bool"
  cy_ipv6_ok :: "string \<Rightarrow> bool"
  cy_now :: int
  cy_ca_key :: nat
  cy_ca_serial :: nat
  cy_leaf_key :: nat
  cy_leaf_serial :: nat
  cy_mkdir :: bool
  cy_readable :: "string \<Rightarrow> bool"
  cy_io :: "file_op \<Rightarrow> op_outcome"

definition DEFAULT_MODE :: nat where "DEFAULT_MODE = 420"
definition PRIVATE_MODE :: nat where "PRIVATE_MODE = 384"

definition do_op :: "file_op \<Rightarrow> vault \<Rightarrow> vault" where
  "do_op op v = (case op of
      Write p t \<Rightarrow> AList.update p (t, case map_of v p of None \<Rightarrow> DEFAULT_MODE | Some (_, m) \<Rightarrow> m) v
    | Chmod p m \<Rightarrow> (case map_of v p of None \<Rightarrow> v | Some (t, _) \<Rightarrow> AList.update p (t, m) v))"

fun torn_op :: "nat \<Rightarrow> file_op \<Rightarrow> vault \<Rightarrow> vault" where
  "torn_op n (Write p t) v = do_op (Write p (take n t)) v"
| "torn_op n (Chmod p m) v = v"

fun run_file_ops :: "(file_op \<Rightarrow> op_outcome) \<Rightarrow> file_op list \<Rightarrow> vault \<Rightarrow> unit result \<times> vault" where
  "run_file_ops io [] v = (Inr (), v)"
| "run_file_ops io (op # ops) v = (case io op of
      Done \<Rightarrow> run_file_ops io ops (do_op op v)
    | Refused \<Rightarrow> (Inl OSErr, v)
    | Torn n \<Rightarrow> (Inl OSErr, torn_op n op v))"

section \<open>The authority\<close>

definition CA_COMMON_NAME :: string where "CA_COMMON_NAME = ''Virtual Printer CA''"
definition CIPHER_STRING :: string where "CIPHER_STRING = ''DEFAULT:AES256-GCM-SHA384:AES128-GCM-SHA256''"

definition days :: "int \<Rightarrow> int" where "days n = n * 86400"

definition ca_cert_path :: "string \<Rightarrow> string" where "ca_cert_path base = base @ ''/certs/ca.crt''"
definition ca_key_path :: "string \<Rightarrow> string" where "ca_key_path base = base @ ''/certs/ca.key''"
definition leaf_key_path :: "string \<Rightarrow> string \<Rightarrow> string" where "leaf_key_path base serial = base @ ''/certs/'' @ safe_serial serial @ ''.key''"
definition leaf_chain_path :: "string \<Rightarrow> string \<Rightarrow> string" where "leaf_chain_path base serial = base @ ''/certs/'' @ safe_serial serial @ ''.chain.crt''"

definition is_expected_ca :: "certificate \<Rightarrow> bool" where
  "is_expected_ca c = (case ct_subject c of [] \<Rightarrow> False | cn # _ \<Rightarrow>
     cn = CA_COMMON_NAME \<and> (case ct_basic c of None \<Rightarrow> False | Some (ca, len) \<Rightarrow> ca \<and> len = Some 0))"

definition write_private_key :: "cert_env \<Rightarrow> string \<Rightarrow> nat \<Rightarrow> file_op list" where
  "write_private_key env p k = [Write p (cy_pem_key env k), Chmod p PRIVATE_MODE]"

definition new_ca :: "cert_env \<Rightarrow> certificate" where
  "new_ca env = \<lparr>ct_subject = [CA_COMMON_NAME], ct_issuer = [CA_COMMON_NAME], ct_key = cy_ca_key env, ct_serial = cy_ca_serial env,
     ct_from = cy_now env - days 1, ct_until = cy_now env + days (365 * 20), ct_basic = Some (True, Some 0),
     ct_usage = [''digital_signature'', ''key_cert_sign'', ''crl_sign''], ct_extended = [], ct_names = [], ct_signer = cy_ca_key env\<rparr>"

text \<open>Reading what is there; anything that raises, the \<open>chmod\<close> included, means a new authority.\<close>

definition stored_ca :: "cert_env \<Rightarrow> string \<Rightarrow> vault \<Rightarrow> (nat \<times> certificate) option" where
  "stored_ca env base v = (case (map_of v (ca_cert_path base), map_of v (ca_key_path base)) of
      (Some (crt, _), Some (key, _)) \<Rightarrow> (case (cy_load_key env key, cy_load_cert env crt) of
          (Some (rsa, k), Some c) \<Rightarrow> if rsa \<and> is_expected_ca c then Some (k, c) else None
        | _ \<Rightarrow> None)
    | _ \<Rightarrow> None)"

definition load_ca :: "cert_env \<Rightarrow> string \<Rightarrow> vault \<Rightarrow> (nat \<times> certificate) option" where
  "load_ca env base v = (if cy_readable env (ca_key_path base) \<and> cy_readable env (ca_cert_path base)
       \<and> cy_io env (Chmod (ca_key_path base) PRIVATE_MODE) = Done then stored_ca env base v else None)"

definition load_or_create_ca :: "cert_env \<Rightarrow> string \<Rightarrow> vault \<Rightarrow> (nat \<times> certificate) result \<times> vault" where
  "load_or_create_ca env base v = (case load_ca env base v of
      Some kc \<Rightarrow> (Inr kc, do_op (Chmod (ca_key_path base) PRIVATE_MODE) v)
    | None \<Rightarrow> (case run_file_ops (cy_io env) (Write (ca_cert_path base) (cy_pem_cert env (new_ca env))
                  # write_private_key env (ca_key_path base) (cy_ca_key env)) v of
          (Inl e, v') \<Rightarrow> (Inl e, v')
        | (Inr _, v') \<Rightarrow> (Inr (cy_ca_key env, new_ca env), v')))"

section \<open>The server certificate\<close>

definition leaf_cert :: "cert_env \<Rightarrow> nat \<Rightarrow> certificate \<Rightarrow> string \<Rightarrow> string list \<Rightarrow> certificate" where
  "leaf_cert env ca_key ca serial ips = \<lparr>ct_subject = [serial], ct_issuer = ct_subject ca, ct_key = cy_leaf_key env, ct_serial = cy_leaf_serial env,
     ct_from = cy_now env - days 1, ct_until = cy_now env + days (365 * 10), ct_basic = Some (False, None),
     ct_usage = [''digital_signature'', ''key_encipherment''], ct_extended = [''server_auth'', ''client_auth''],
     ct_names = [Dns ''localhost'', Dns serial, Ip ''127.0.0.1''] @ map Ip ips, ct_signer = ca_key\<rparr>"

definition create_leaf :: "cert_env \<Rightarrow> nat \<Rightarrow> certificate \<Rightarrow> string \<Rightarrow> string list \<Rightarrow> (nat \<times> certificate) result" where
  "create_leaf env ca_key ca serial ips =
     (if \<not> cy_name_ok env serial then Inl (ValueError ''common name'')
      else if \<not> list_all (\<lambda>ip. is_ipv4 ip \<or> cy_ipv6_ok env ip) ips then Inl (ValueError ''address'')
      else Inr (cy_leaf_key env, leaf_cert env ca_key ca serial ips))"

definition hex_byte :: "nat \<Rightarrow> string" where
  "hex_byte n = (let d = (\<lambda>k. ''0123456789ABCDEF'' ! k) in [d (n div 16 mod 16), d (n mod 16)])"

definition ca_fingerprint :: "cert_env \<Rightarrow> certificate \<Rightarrow> string" where
  "ca_fingerprint env c = join '':'' (map hex_byte (cy_digest env c))"

record cert_bundle =
  cb_dir :: string
  cb_ca_cert :: string
  cb_ca_key :: string
  cb_leaf_chain :: string
  cb_leaf_key :: string
  cb_fingerprint :: string

datatype ip_arg = No_ip | One_ip string | Ips "string list"

definition ip_list :: "ip_arg \<Rightarrow> string list" where
  "ip_list a = (case a of No_ip \<Rightarrow> [] | One_ip s \<Rightarrow> [s] | Ips ss \<Rightarrow> ss)"

definition ensure_certificates :: "cert_env \<Rightarrow> string \<Rightarrow> string \<Rightarrow> ip_arg \<Rightarrow> string option \<Rightarrow> vault \<Rightarrow> cert_bundle result \<times> vault" where
  "ensure_certificates env base serial bind_ips ip v =
     (let bind = (if bind_ips = No_ip then (case ip of None \<Rightarrow> No_ip | Some s \<Rightarrow> One_ip s) else bind_ips)
      in if bind = No_ip then (Inl (ValueError ''at least one bind IP is required''), v)
      else if \<not> cy_mkdir env then (Inl OSErr, v)
      else (case load_or_create_ca env base v of
          (Inl e, v1) \<Rightarrow> (Inl e, v1)
        | (Inr (ca_key, ca), v1) \<Rightarrow> (case create_leaf env ca_key ca serial (ip_list bind) of
              Inl e \<Rightarrow> (Inl e, v1)
            | Inr (leaf_key, leaf) \<Rightarrow>
                (case run_file_ops (cy_io env) (write_private_key env (leaf_key_path base serial) leaf_key
                      @ [Write (leaf_chain_path base serial) (cy_pem_cert env leaf @ cy_pem_cert env ca)]) v1 of
                   (Inl e, v2) \<Rightarrow> (Inl e, v2)
                 | (Inr _, v2) \<Rightarrow> (Inr \<lparr>cb_dir = base @ ''/certs'', cb_ca_cert = ca_cert_path base, cb_ca_key = ca_key_path base,
                     cb_leaf_chain = leaf_chain_path base serial, cb_leaf_key = leaf_key_path base serial, cb_fingerprint = ca_fingerprint env ca\<rparr>, v2)))))"

section \<open>The TLS context and the published certificate\<close>

record tls_context =
  tc_cert :: certificate
  tc_key :: nat
  tc_min :: string
  tc_max :: "string option"
  tc_client_cert :: bool
  tc_ciphers :: string

text \<open>\<open>load_cert_chain\<close> refuses a key that is not the one of the first certificate of the chain.\<close>

definition create_server_ssl_context :: "cert_env \<Rightarrow> cert_bundle \<Rightarrow> bool \<Rightarrow> bool \<Rightarrow> vault \<Rightarrow> tls_context result" where
  "create_server_ssl_context env b tls12_only max_tls12 v = (case (map_of v (cb_leaf_chain b), map_of v (cb_leaf_key b)) of
      (Some (chain, _), Some (key, _)) \<Rightarrow>
        if \<not> (cy_readable env (cb_leaf_chain b) \<and> cy_readable env (cb_leaf_key b)) then Inl OSErr
        else (case (cy_load_cert env chain, cy_load_key env key) of
            (Some c, Some (_, k)) \<Rightarrow> if ct_key c \<noteq> k then Inl OSErr
              else Inr \<lparr>tc_cert = c, tc_key = k, tc_min = ''TLSv1_2'', tc_max = (if tls12_only \<or> max_tls12 then Some ''TLSv1_2'' else None),
                     tc_client_cert = False, tc_ciphers = CIPHER_STRING\<rparr>
          | _ \<Rightarrow> Inl OSErr)
    | _ \<Rightarrow> Inl OSErr)"

definition ascii :: "string \<Rightarrow> bool" where
  "ascii s = list_all (\<lambda>c. (of_char c :: nat) < 128) s"

definition read_vp_ca :: "cert_env \<Rightarrow> string \<Rightarrow> string \<Rightarrow> vault \<Rightarrow> (string \<times> string) option result" where
  "read_vp_ca env vp_base serial v = (let p = ca_cert_path (vp_base @ ''/'' @ safe_serial serial) in case map_of v p of
      None \<Rightarrow> Inr None
    | Some (pem, _) \<Rightarrow> if \<not> cy_readable env p then Inr None
        else (case cy_load_cert env pem of
            None \<Rightarrow> Inr None
          | Some c \<Rightarrow> if ascii pem then Inr (Some (pem, ca_fingerprint env c)) else Inl (ValueError ''ascii'')))"


section \<open>The files after a start\<close>

lemma map_of_do_op: "map_of (do_op op v) q = (case op of
    Write p t \<Rightarrow> if q = p then Some (t, case map_of v p of None \<Rightarrow> DEFAULT_MODE | Some (_, m) \<Rightarrow> m) else map_of v q
  | Chmod p m \<Rightarrow> if q = p then map_option (\<lambda>(t, _). (t, m)) (map_of v q) else map_of v q)"
  by (auto simp: do_op_def map_of_update split: file_op.split option.split)

lemma run_file_ops_done: "run_file_ops io ops v = (Inr u, v') \<Longrightarrow> v' = fold do_op ops v"
  by (induction ops arbitrary: v) (auto split: op_outcome.splits)

definition file_text :: "vault \<Rightarrow> string \<Rightarrow> string option" where
  "file_text v p = map_option fst (map_of v p)"

lemma file_text_do_op: "file_text (do_op op v) q = (case op of
    Write p t \<Rightarrow> if q = p then Some t else file_text v q | Chmod p m \<Rightarrow> file_text v q)"
  by (cases "map_of v q") (auto simp: file_text_def map_of_do_op split: file_op.split)

definition file_mode :: "vault \<Rightarrow> string \<Rightarrow> nat option" where
  "file_mode v p = map_option snd (map_of v p)"

text \<open>The four paths are different, but for one serial.\<close>

lemma suffix_differs: "(a @ x = b @ y) = False" if "length x = length y" "x \<noteq> y" for a b x y :: string
  using that by auto

lemma chain_no_key: "leaf_chain_path base s \<noteq> leaf_key_path base t" "leaf_chain_path base s \<noteq> ca_key_path base" "leaf_key_path base s \<noteq> ca_cert_path base"
proof -
  have tails: "drop (length (a @ b) - 4) (a @ b) = b" if "length b = 4" for a b :: string using that by simp
  show "leaf_chain_path base s \<noteq> leaf_key_path base t" "leaf_chain_path base s \<noteq> ca_key_path base" "leaf_key_path base s \<noteq> ca_cert_path base"
    using tails [of "''.crt''" "base @ ''/certs/'' @ safe_serial s @ ''.chain''"] tails [of "''.key''" "base @ ''/certs/'' @ safe_serial t"]
      tails [of "''.key''" "base @ ''/certs/ca''"] tails [of "''.key''" "base @ ''/certs/'' @ safe_serial s"] tails [of "''.crt''" "base @ ''/certs/ca''"]
    by (auto simp: leaf_chain_path_def leaf_key_path_def ca_key_path_def ca_cert_path_def)
qed

lemma chain_no_ca: "leaf_chain_path base s \<noteq> ca_cert_path base" "ca_key_path base \<noteq> ca_cert_path base"
proof -
  have "length (leaf_chain_path base s) > length (ca_cert_path base)" by (simp add: leaf_chain_path_def ca_cert_path_def)
  then show "leaf_chain_path base s \<noteq> ca_cert_path base" by auto
  show "ca_key_path base \<noteq> ca_cert_path base" by (simp add: ca_key_path_def ca_cert_path_def)
qed

lemma key_no_key: "leaf_key_path base s = ca_key_path base \<longleftrightarrow> safe_serial s = ''ca''"
proof
  assume "leaf_key_path base s = ca_key_path base"
  then have "safe_serial s @ ''.key'' = ''ca'' @ ''.key''" by (simp add: leaf_key_path_def ca_key_path_def)
  then show "safe_serial s = ''ca''" by (simp only: append_same_eq)
qed (simp add: leaf_key_path_def ca_key_path_def)

lemmas cert_paths = chain_no_key chain_no_key [symmetric] chain_no_ca chain_no_ca [symmetric]

lemma stored_ca_alt: "stored_ca env base v = (case (file_text v (ca_cert_path base), file_text v (ca_key_path base)) of
    (Some crt, Some key) \<Rightarrow> (case (cy_load_key env key, cy_load_cert env crt) of
          (Some (rsa, k), Some c) \<Rightarrow> if rsa \<and> is_expected_ca c then Some (k, c) else None
        | _ \<Rightarrow> None)
    | _ \<Rightarrow> None)"
  by (simp add: stored_ca_def file_text_def split: option.split)

section \<open>The chain of trust\<close>

text \<open>The authority a call works with; and, for that call, that what it writes is read back: as in the documentation of the package, PEM text
  is decoded to the first certificate in it.\<close>

definition ca_in_use :: "cert_env \<Rightarrow> string \<Rightarrow> vault \<Rightarrow> nat \<times> certificate" where
  "ca_in_use env base v = (case load_ca env base v of Some kc \<Rightarrow> kc | None \<Rightarrow> (cy_ca_key env, new_ca env))"

definition pem_reads_back :: "cert_env \<Rightarrow> string \<Rightarrow> vault \<Rightarrow> string \<Rightarrow> string list \<Rightarrow> bool" where
  "pem_reads_back env base v serial ips \<longleftrightarrow>
     (let (k, ca) = ca_in_use env base v; leaf = leaf_cert env k ca serial ips
      in cy_load_cert env (cy_pem_cert env (new_ca env)) = Some (new_ca env) \<and>
         cy_load_key env (cy_pem_key env (cy_ca_key env)) = Some (True, cy_ca_key env) \<and>
         cy_load_key env (cy_pem_key env (cy_leaf_key env)) = Some (True, cy_leaf_key env) \<and>
         cy_load_cert env (cy_pem_cert env leaf @ cy_pem_cert env ca) = Some leaf)"

definition ca_consistent :: "cert_env \<Rightarrow> string \<Rightarrow> vault \<Rightarrow> bool" where
  "ca_consistent env base v \<longleftrightarrow> (case stored_ca env base v of None \<Rightarrow> True | Some (k, c) \<Rightarrow> ct_key c = k)"

lemma load_or_create_ca_files:
  assumes "load_or_create_ca env base v = (Inr (k, ca), v1)"
    "cy_load_cert env (cy_pem_cert env (new_ca env)) = Some (new_ca env)" "cy_load_key env (cy_pem_key env (cy_ca_key env)) = Some (True, cy_ca_key env)"
  shows "(k, ca) = ca_in_use env base v \<and> stored_ca env base v1 = Some (k, ca)"
proof (cases "load_ca env base v")
  case None
  then obtain u where run: "run_file_ops (cy_io env) (Write (ca_cert_path base) (cy_pem_cert env (new_ca env))
      # write_private_key env (ca_key_path base) (cy_ca_key env)) v = (Inr u, v1)" and out: "k = cy_ca_key env" "ca = new_ca env"
    using assms(1) by (auto simp: load_or_create_ca_def split: prod.splits sum.splits)
  have expected: "is_expected_ca (new_ca env)" by (simp add: is_expected_ca_def new_ca_def)
  show ?thesis unfolding stored_ca_alt run_file_ops_done [OF run] using None out expected assms(2,3)
    by (simp add: write_private_key_def file_text_do_op cert_paths ca_in_use_def)
next
  case (Some kc)
  then have "stored_ca env base v = Some kc" by (simp add: load_ca_def split: if_splits)
  moreover have v1: "kc = (k, ca)" "v1 = do_op (Chmod (ca_key_path base) PRIVATE_MODE) v"
    using Some assms(1) by (simp_all add: load_or_create_ca_def)
  moreover have "file_text v1 = file_text v" by (simp add: v1 file_text_do_op fun_eq_iff)
  then have "stored_ca env base v1 = stored_ca env base v" unfolding stored_ca_alt by (rule arg_cong)
  ultimately show ?thesis using Some by (simp add: ca_in_use_def)
qed

lemma server_context_alt: "create_server_ssl_context env b tls12 max12 v =
   (case (file_text v (cb_leaf_chain b), file_text v (cb_leaf_key b)) of
      (Some chain, Some key) \<Rightarrow>
        if \<not> (cy_readable env (cb_leaf_chain b) \<and> cy_readable env (cb_leaf_key b)) then Inl OSErr
        else (case (cy_load_cert env chain, cy_load_key env key) of
            (Some c, Some (_, k)) \<Rightarrow> if ct_key c \<noteq> k then Inl OSErr
              else Inr \<lparr>tc_cert = c, tc_key = k, tc_min = ''TLSv1_2'', tc_max = (if tls12 \<or> max12 then Some ''TLSv1_2'' else None),
                     tc_client_cert = False, tc_ciphers = CIPHER_STRING\<rparr>
          | _ \<Rightarrow> Inl OSErr)
    | _ \<Rightarrow> Inl OSErr)"
  by (simp add: create_server_ssl_context_def file_text_def split: option.split)

lemma read_vp_ca_stored:
  assumes "stored_ca env (vps @ ''/'' @ safe_serial serial) v = Some (k, ca)" "p = ca_cert_path (vps @ ''/'' @ safe_serial serial)"
  shows "case read_vp_ca env vps serial v of Inl _ \<Rightarrow> \<not> ascii (the (file_text v p)) | Inr None \<Rightarrow> \<not> cy_readable env p
     | Inr (Some (pem, fp)) \<Rightarrow> cy_load_cert env pem = Some ca \<and> fp = ca_fingerprint env ca"
  using assms by (auto simp: stored_ca_def read_vp_ca_def file_text_def Let_def split: option.splits if_splits)

lemma ca_in_use_matches:
  assumes "ca_consistent env base v" "ca_in_use env base v = (k, ca)"
  shows "ct_key ca = k"
  using assms by (auto simp: ca_consistent_def ca_in_use_def load_ca_def new_ca_def split: option.splits if_splits)

text \<open>A start that succeeds, for any directory.\<close>

lemma ensure_certificates_chain:
  assumes run: "ensure_certificates env base serial bind ip v = (Inr b, v')"
    and "ca_consistent env base v" "safe_serial serial \<noteq> ''ca''"
    and ips: "ips = ip_list (if bind = No_ip then One_ip (the ip) else bind)" and laws: "pem_reads_back env base v serial ips"
    and readable: "cy_readable env (cb_leaf_chain b)" "cy_readable env (cb_leaf_key b)"
  obtains k ca where "ca_in_use env base v = (k, ca)" "ct_key ca = k" "stored_ca env base v' = Some (k, ca)"
    "cb_ca_cert b = ca_cert_path base" "cb_fingerprint b = ca_fingerprint env ca"
    "create_server_ssl_context env b tls12 max12 v' = Inr \<lparr>tc_cert = leaf_cert env k ca serial ips, tc_key = cy_leaf_key env, tc_min = ''TLSv1_2'',
       tc_max = (if tls12 \<or> max12 then Some ''TLSv1_2'' else None), tc_client_cert = False, tc_ciphers = CIPHER_STRING\<rparr>"
proof -
  obtain k ca v1 where ca: "load_or_create_ca env base v = (Inr (k, ca), v1)"
    using run by (auto simp: ensure_certificates_def Let_def split: if_splits prod.splits sum.splits)
  from load_or_create_ca_files [OF ca] laws have use: "ca_in_use env base v = (k, ca)" "stored_ca env base v1 = Some (k, ca)"
    by (auto simp: pem_reads_back_def Let_def split: prod.splits)
  define leaf where "leaf = leaf_cert env k ca serial ips"
  obtain u where ops: "run_file_ops (cy_io env) (write_private_key env (leaf_key_path base serial) (cy_leaf_key env)
        @ [Write (leaf_chain_path base serial) (cy_pem_cert env leaf @ cy_pem_cert env ca)]) v1 = (Inr u, v')"
    and b: "cb_leaf_chain b = leaf_chain_path base serial" "cb_leaf_key b = leaf_key_path base serial"
      "cb_ca_cert b = ca_cert_path base" "cb_fingerprint b = ca_fingerprint env ca"
    using run ca by (auto simp: ensure_certificates_def create_leaf_def leaf_def ips Let_def split: if_splits option.splits prod.splits sum.splits)
  have own: "leaf_key_path base serial \<noteq> ca_key_path base" using assms(3) by (simp add: key_no_key)
  have files: "file_text v' (leaf_chain_path base serial) = Some (cy_pem_cert env leaf @ cy_pem_cert env ca)"
    "file_text v' (leaf_key_path base serial) = Some (cy_pem_key env (cy_leaf_key env))"
    "file_text v' (ca_cert_path base) = file_text v1 (ca_cert_path base)" "file_text v' (ca_key_path base) = file_text v1 (ca_key_path base)"
    unfolding run_file_ops_done [OF ops] using own by (simp_all add: write_private_key_def file_text_do_op cert_paths own [symmetric])
  have stored: "stored_ca env base v' = Some (k, ca)" using use(2) unfolding stored_ca_alt files(3,4) .
  have reads: "cy_load_cert env (cy_pem_cert env leaf @ cy_pem_cert env ca) = Some leaf" "cy_load_key env (cy_pem_key env (cy_leaf_key env)) = Some (True, cy_leaf_key env)"
    using laws by (simp_all add: pem_reads_back_def Let_def use(1) leaf_def)
  have "ct_key leaf = cy_leaf_key env" by (simp add: leaf_def leaf_cert_def)
  then have "create_server_ssl_context env b tls12 max12 v' = Inr \<lparr>tc_cert = leaf, tc_key = cy_leaf_key env, tc_min = ''TLSv1_2'',
       tc_max = (if tls12 \<or> max12 then Some ''TLSv1_2'' else None), tc_client_cert = False, tc_ciphers = CIPHER_STRING\<rparr>"
    using readable by (simp add: server_context_alt b files(1,2) reads)
  with that use(1) ca_in_use_matches [OF assms(2) use(1)] stored b(3,4) show ?thesis unfolding leaf_def by blast
qed

section \<open>Histories of starts\<close>

text \<open>A start of the printer: the package and the disk as they are then, and what it is started with. Each start, successful or not,
  leaves its files for the next one.\<close>

type_synonym cert_start = "cert_env \<times> string \<times> ip_arg \<times> string option"

definition after_start :: "string \<Rightarrow> cert_start \<Rightarrow> vault \<Rightarrow> vault" where
  "after_start base = (\<lambda>(env, serial, bind, ip) v. snd (ensure_certificates env base serial bind ip v))"

definition after_starts :: "string \<Rightarrow> cert_start list \<Rightarrow> vault \<Rightarrow> vault" where
  "after_starts base steps v = fold (after_start base) steps v"

text \<open>A new authority is written whole, or nothing of it: no write is refused or cut off between its certificate and its key.\<close>

definition authority_whole :: "cert_env \<Rightarrow> string \<Rightarrow> vault \<Rightarrow> bool" where
  "authority_whole env base v \<longleftrightarrow> load_ca env base v \<noteq> None \<or>
     cy_io env (Write (ca_cert_path base) (cy_pem_cert env (new_ca env))) = Refused \<or>
     (cy_io env (Write (ca_cert_path base) (cy_pem_cert env (new_ca env))) = Done \<and>
      cy_io env (Write (ca_key_path base) (cy_pem_key env (cy_ca_key env))) = Done)"

text \<open>The package reads files the same way at every start, and reads back the authority that a start writes.\<close>

definition same_package :: "cert_env \<Rightarrow> cert_env \<Rightarrow> bool" where
  "same_package env e \<longleftrightarrow> cy_load_key e = cy_load_key env \<and> cy_load_cert e = cy_load_cert env \<and>
     cy_load_cert e (cy_pem_cert e (new_ca e)) = Some (new_ca e) \<and> cy_load_key e (cy_pem_key e (cy_ca_key e)) = Some (True, cy_ca_key e)"

fun sound_history :: "cert_env \<Rightarrow> string \<Rightarrow> cert_start list \<Rightarrow> vault \<Rightarrow> bool" where
  "sound_history env base [] v = True"
| "sound_history env base (st # sts) v = (case st of (e, serial, bind, ip) \<Rightarrow>
     same_package env e \<and> safe_serial serial \<noteq> ''ca'' \<and> authority_whole e base v \<and> sound_history env base sts (after_start base st v))"

definition op_path :: "file_op \<Rightarrow> string" where
  "op_path op = (case op of Write p t \<Rightarrow> p | Chmod p m \<Rightarrow> p)"

lemma run_file_ops_other: "\<forall>op \<in> set ops. op_path op \<noteq> q \<Longrightarrow> file_text (snd (run_file_ops io ops v)) q = file_text v q"
proof (induction ops arbitrary: v)
  case (Cons op ops)
  have "file_text (do_op op w) q = file_text w q" for w
    using Cons.prems by (simp add: op_path_def file_text_do_op split: file_op.splits)
  moreover have "file_text (torn_op n op v) q = file_text v q" for n
    using Cons.prems by (cases op) (auto simp: op_path_def file_text_do_op)
  ultimately show ?case using Cons by (simp split: op_outcome.split)
qed simp

lemma ca_consistent_cong:
  "file_text v' (ca_cert_path base) = file_text v (ca_cert_path base) \<Longrightarrow> file_text v' (ca_key_path base) = file_text v (ca_key_path base) \<Longrightarrow>
   ca_consistent env base v' = ca_consistent env base v"
  by (simp add: ca_consistent_def stored_ca_alt)

lemma consistent_authority:
  assumes "ca_consistent env base v" "same_package env e" "authority_whole e base v"
  shows "ca_consistent env base (snd (load_or_create_ca e base v))"
proof (cases "load_ca e base v")
  case (Some kc)
  then have "file_text (snd (load_or_create_ca e base v)) = file_text v"
    by (simp add: load_or_create_ca_def file_text_do_op fun_eq_iff)
  then show ?thesis using assms(1) by (simp add: ca_consistent_def stored_ca_alt)
next
  case None
  let ?crt = "Write (ca_cert_path base) (cy_pem_cert e (new_ca e))" and ?key = "Write (ca_key_path base) (cy_pem_key e (cy_ca_key e))"
    and ?mode = "Chmod (ca_key_path base) PRIVATE_MODE"
  have v1: "snd (load_or_create_ca e base v) = snd (run_file_ops (cy_io e) [?crt, ?key, ?mode] v)"
    by (simp add: load_or_create_ca_def None write_private_key_def case_prod_beta split: sum.split)
  show ?thesis
  proof (cases "cy_io e ?crt = Refused")
    case True
    then show ?thesis using assms(1) by (simp add: v1)
  next
    case False
    then have "cy_io e ?crt = Done" "cy_io e ?key = Done" using assms(3) None by (auto simp: authority_whole_def)
    then have "file_text (snd (load_or_create_ca e base v)) (ca_cert_path base) = Some (cy_pem_cert e (new_ca e)) \<and>
        file_text (snd (load_or_create_ca e base v)) (ca_key_path base) = Some (cy_pem_key e (cy_ca_key e))"
      unfolding v1 by (auto simp: file_text_do_op cert_paths split: op_outcome.split)
    then show ?thesis
      using assms(2) by (auto simp: ca_consistent_def stored_ca_alt same_package_def new_ca_def)
  qed
qed

lemma consistent_start:
  assumes "ca_consistent env base v" "same_package env e" "authority_whole e base v" "safe_serial serial \<noteq> ''ca''"
  shows "ca_consistent env base (snd (ensure_certificates e base serial bind ip v))"
proof -
  have own: "leaf_key_path base serial \<noteq> ca_key_path base" using assms(4) by (simp add: key_no_key)
  let ?ops = "\<lambda>k t. write_private_key e (leaf_key_path base serial) k @ [Write (leaf_chain_path base serial) t]"
  have leaf: "ca_consistent env base (snd (run_file_ops (cy_io e) (?ops k t) w))" if "ca_consistent env base w" for k t w
    using that ca_consistent_cong [of "snd (run_file_ops (cy_io e) (?ops k t) w)" base w env]
      run_file_ops_other [of "?ops k t" "ca_cert_path base" "cy_io e" w] run_file_ops_other [of "?ops k t" "ca_key_path base" "cy_io e" w] own
    by (simp add: write_private_key_def op_path_def cert_paths)
  obtain r v1 where ca: "load_or_create_ca e base v = (r, v1)" by (cases "load_or_create_ca e base v")
  have v1: "ca_consistent env base v1" using consistent_authority [OF assms(1-3)] by (simp add: ca)
  have "snd (ensure_certificates e base serial bind ip v) \<in> {v, v1} \<or>
      (\<exists>k t. snd (ensure_certificates e base serial bind ip v) = snd (run_file_ops (cy_io e) (?ops k t) v1))"
    by (auto simp: ensure_certificates_def ca Let_def case_prod_beta split: sum.split option.split)
  then show ?thesis using assms(1) v1 leaf [OF v1] by auto
qed

lemma consistent_history:
  "ca_consistent env base v \<Longrightarrow> sound_history env base steps v \<Longrightarrow> ca_consistent env base (after_starts base steps v)"
proof (induction steps arbitrary: v)
  case (Cons st sts)
  obtain e serial bind ip where st: "st = (e, serial, bind, ip)" by (cases st)
  have "ca_consistent env base (after_start base st v)"
    using Cons.prems by (simp add: st after_start_def consistent_start)
  from Cons.IH [OF this] Cons.prems(2) show ?case by (simp add: st after_starts_def)
qed (simp add: after_starts_def)



section \<open>Witness and findings\<close>

text \<open>An instance of the package that knows the certificates of one start: the authority with key 1 and the server with key 2.\<close>

definition demo_cert_env :: "nat \<Rightarrow> nat \<Rightarrow> (file_op \<Rightarrow> op_outcome) \<Rightarrow> cert_env" where
  "demo_cert_env ca_key leaf_key io = \<lparr>cy_pem_key = (\<lambda>k. ''K'' @ nat_str k),
     cy_pem_cert = (\<lambda>c. if ct_basic c = Some (True, Some 0) then ''A'' @ nat_str (ct_key c) else ''L'' @ nat_str (ct_signer c)),
     cy_load_key = (\<lambda>t. if hd t = CHR ''K'' \<and> tl t \<noteq> [] then Some (True, nat_of_digits (tl t)) else None),
     cy_load_cert = (\<lambda>t. let ca = (\<lambda>k. \<lparr>ct_subject = [CA_COMMON_NAME], ct_issuer = [CA_COMMON_NAME], ct_key = k, ct_serial = 7,
          ct_from = 0 - days 1, ct_until = days (365 * 20), ct_basic = Some (True, Some 0),
          ct_usage = [''digital_signature'', ''key_cert_sign'', ''crl_sign''], ct_extended = [], ct_names = [], ct_signer = k\<rparr>) in
        (case t of [] \<Rightarrow> None
         | kind # rest \<Rightarrow> if rest = [] then None
             else if kind = CHR ''A'' then Some (ca (nat_of_digits rest))
             else if kind = CHR ''L'' then Some \<lparr>ct_subject = [''S''], ct_issuer = [CA_COMMON_NAME], ct_key = leaf_key, ct_serial = 8,
          ct_from = 0 - days 1, ct_until = days (365 * 10), ct_basic = Some (False, None),
          ct_usage = [''digital_signature'', ''key_encipherment''], ct_extended = [''server_auth'', ''client_auth''],
          ct_names = [Dns ''localhost'', Dns ''S'', Ip ''127.0.0.1'', Ip ''10.0.0.2''], ct_signer = nat_of_digits (takeWhile is_digit rest)\<rparr>
             else None)),
     cy_digest = (\<lambda>c. [ct_key c, 255]), cy_name_ok = (\<lambda>s. s \<noteq> []), cy_ipv6_ok = (\<lambda>_. False), cy_now = 0, cy_ca_key = ca_key, cy_ca_serial = 7,
     cy_leaf_key = leaf_key, cy_leaf_serial = 8, cy_mkdir = True, cy_readable = (\<lambda>_. True), cy_io = io\<rparr>"

definition demo_env1 :: cert_env where
  "demo_env1 = demo_cert_env 1 2 (\<lambda>_. Done)"

lemma demo_first_start: "ensure_certificates demo_env1 (''vp'' @ ''/'' @ safe_serial ''S'') ''S'' (One_ip ''10.0.0.2'') None [] =
    (Inr \<lparr>cb_dir = ''vp/S/certs'', cb_ca_cert = ''vp/S/certs/ca.crt'', cb_ca_key = ''vp/S/certs/ca.key'',
       cb_leaf_chain = ''vp/S/certs/S.chain.crt'', cb_leaf_key = ''vp/S/certs/S.key'', cb_fingerprint = ''01:FF''\<rparr>,
     [(''vp/S/certs/ca.crt'', ''A1'', 420), (''vp/S/certs/ca.key'', ''K1'', 384), (''vp/S/certs/S.key'', ''K2'', 384), (''vp/S/certs/S.chain.crt'', ''L1A1'', 420)])"
  by code_simp

text \<open>A history: a start whose server key cannot be written, then one at another address; the authority of the first is kept.\<close>

definition demo_env2 :: cert_env where
  "demo_env2 = (demo_cert_env 1 2 (\<lambda>op. case op of Write p t \<Rightarrow> if p = ''vp/S/certs/S.key'' then Torn 1 else Done | Chmod p m \<Rightarrow> Done))"

definition demo_starts :: "cert_start list" where
  "demo_starts = [(demo_env2, ''S'', One_ip ''10.0.0.9'', None), (demo_env1, ''S'', One_ip ''10.0.0.2'', None)]"

lemma demo_base: "''vp/S'' = ''vp'' @ ''/'' @ safe_serial ''S''" "safe_serial ''S'' = ''S''"
  by code_simp+

lemma demo_history: "sound_history demo_env1 ''vp/S'' demo_starts []"
proof -
  have package: "same_package demo_env1 demo_env1" "same_package demo_env1 demo_env2"
    by (simp_all add: same_package_def demo_env1_def demo_env2_def demo_cert_env_def) code_simp+
  have whole: "authority_whole demo_env2 ''vp/S'' []" "authority_whole demo_env1 ''vp/S'' (after_start ''vp/S'' (demo_env2, ''S'', One_ip ''10.0.0.9'', None) [])"
    by code_simp+
  show ?thesis using package whole by (simp add: demo_starts_def demo_base(2))
qed

lemma demo_last_start: "ensure_certificates demo_env1 ''vp/S'' ''S'' (One_ip ''10.0.0.2'') None (after_starts ''vp/S'' demo_starts []) =
    (Inr \<lparr>cb_dir = ''vp/S/certs'', cb_ca_cert = ''vp/S/certs/ca.crt'', cb_ca_key = ''vp/S/certs/ca.key'',
       cb_leaf_chain = ''vp/S/certs/S.chain.crt'', cb_leaf_key = ''vp/S/certs/S.key'', cb_fingerprint = ''01:FF''\<rparr>,
     [(''vp/S/certs/ca.crt'', ''A1'', 420), (''vp/S/certs/ca.key'', ''K1'', 384), (''vp/S/certs/S.key'', ''K2'', 384), (''vp/S/certs/S.chain.crt'', ''L1A1'', 420)])"
  by code_simp

lemma demo_laws: "map_of [] (ca_cert_path ''vp/S'') = None" "safe_serial ''S'' \<noteq> ''ca''"
  "[''10.0.0.2''] = ip_list (if One_ip ''10.0.0.2'' = No_ip then One_ip (the None) else One_ip ''10.0.0.2'')"
  "pem_reads_back demo_env1 ''vp/S'' (after_starts ''vp/S'' demo_starts []) ''S'' [''10.0.0.2'']"
  "\<And>p. cy_readable demo_env1 p" "\<And>p. cy_readable demo_env1 p"
  by (simp, code_simp, simp add: ip_list_def, code_simp, simp_all add: demo_env1_def demo_cert_env_def)


text \<open>Replacing an unusable authority is interrupted between the certificate and its key: the new certificate stands beside the old key, which
  no later start notices, since only the names are checked. All server certificates are then signed by a key the published one does not vouch for.\<close>

definition interrupted :: vault where
  "interrupted = snd (ensure_certificates (demo_cert_env 1 2 (\<lambda>op. if op = Write ''vp/S/certs/ca.key'' ''K1'' then Refused else Done)) ''vp/S'' ''S'' (One_ip ''10.0.0.2'') None
     [(''vp/S/certs/ca.crt'', ''?'', 420), (''vp/S/certs/ca.key'', ''K9'', 384)])"

definition later :: "nat \<Rightarrow> vault \<Rightarrow> vault" where
  "later leaf_key v = snd (ensure_certificates (demo_cert_env 3 leaf_key (\<lambda>_. Done)) ''vp/S'' ''S'' (One_ip ''10.0.0.2'') None v)"

lemma interrupted_authority_stays_broken:
  "map_option (\<lambda>(k, ca). (k, ct_key ca)) (stored_ca demo_env1 ''vp/S'' (later 5 (later 4 interrupted))) = Some (9, 1)"
  "file_text (later 5 (later 4 interrupted)) ''vp/S/certs/S.chain.crt'' = Some ''L9A1''"
  by code_simp+

text \<open>A printer whose serial is \<open>ca\<close>: the key of its server replaces the key of its authority.\<close>

lemma serial_ca_replaces_authority_key:
  "map_option (\<lambda>(k, ca). (k, ct_key ca)) (stored_ca demo_env1 ''vp/ca''
     (snd (ensure_certificates demo_env1 ''vp/ca'' ''ca'' (One_ip ''10.0.0.2'') None []))) = Some (2, 1)"
  by code_simp

text \<open>A certificate file with text other than ASCII around the certificate: an exception, not \<open>None\<close>.\<close>

lemma unreadable_ca_raises:
  "read_vp_ca demo_env1 ''vp'' ''S'' [(''vp/S/certs/ca.crt'', ''A1'' @ [CHR 0xC3], 420)] = Inl (ValueError ''ascii'')"
  by code_simp

text \<open>Private keys: whatever was there before, a start that succeeds leaves both keys readable for the owner only.\<close>

lemma private_keys_owner_only:
  assumes "ensure_certificates env base serial bind ip v = (Inr b, v')"
  shows "file_mode v' (cb_leaf_key b) = Some PRIVATE_MODE"
proof -
  obtain k ca v1 leaf u where run: "run_file_ops (cy_io env) (write_private_key env (leaf_key_path base serial) (cy_leaf_key env)
        @ [Write (leaf_chain_path base serial) (cy_pem_cert env leaf @ cy_pem_cert env ca)]) v1 = (Inr u, v')" and b: "cb_leaf_key b = leaf_key_path base serial"
    using assms by (auto simp: ensure_certificates_def create_leaf_def Let_def split: if_splits option.splits prod.splits sum.splits)
  show ?thesis unfolding run_file_ops_done [OF run] b
    by (simp add: write_private_key_def file_mode_def map_of_do_op cert_paths)
qed

end
