(* ===== verification/SliceInfo.thy ===== *)
theory SliceInfo
  imports Capture Bytes "HOL-Library.Multiset"
begin

text \<open>
  The filaments a sliced file asks for, the second half of \<open>makeros_hub/vprinter/capture.py\<close>: the slice information in the
  archive, as an XML tree or, when it is not well formed, as text searched with a regular expression. Reading the archive, parsing
  XML (the \<open>expat\<close> library) and \<open>json.loads\<close> are parameters. Text is handled as far as it is ASCII.
\<close>

section \<open>The XML tree\<close>

datatype xml = Element (xm_tag: string) (xm_attrs: "(string \<times> string) list") (xm_text: "string option") (xm_children: "xml list")

fun xml_iter :: "xml \<Rightarrow> xml list" where
  "xml_iter (Element t a x cs) = Element t a x cs # concat (map xml_iter cs)"

definition strip_ns :: "string \<Rightarrow> string" where
  "strip_ns s = rev (takeWhile (\<lambda>c. c \<noteq> CHR 0x7D) (rev s))"

definition tag_of :: "xml \<Rightarrow> string" where
  "tag_of e = lower (strip_ns (xm_tag e))"

definition attrs_of :: "xml \<Rightarrow> (string, string) odict" where
  "attrs_of e = fold (\<lambda>(k, v). AList.update (lower (strip_ns k)) v) (xm_attrs e) []"

fun first_int :: "(string, string) odict \<Rightarrow> string list \<Rightarrow> int option" where
  "first_int attrs [] = None"
| "first_int attrs (key # ks) = (case map_of attrs key of
      None \<Rightarrow> first_int attrs ks
    | Some value \<Rightarrow> (case int_of_str value of
          None \<Rightarrow> first_int attrs ks
        | Some n \<Rightarrow> if 0 \<le> n then Some n else first_int attrs ks))"

fun first_str :: "(string, string) odict \<Rightarrow> string list \<Rightarrow> string option" where
  "first_str attrs [] = None"
| "first_str attrs (key # ks) = (case map_of attrs key of
      Some value \<Rightarrow> if strip value \<noteq> [] then Some (strip value) else first_str attrs ks
    | None \<Rightarrow> first_str attrs ks)"

fun has_token :: "string \<Rightarrow> string \<Rightarrow> bool" where
  "has_token token [] = (token = [])"
| "has_token token (c # cs) = (startswith token (c # cs) \<or> has_token token cs)"

section \<open>Colours\<close>

definition is_quote :: "char \<Rightarrow> bool" where
  "is_quote c \<longleftrightarrow> c = CHR 0x22"

definition strip_quotes :: "string \<Rightarrow> string" where
  "strip_quotes s = rstrip_by is_quote (lstrip_by is_quote s)"

definition is_upper_hex :: "char \<Rightarrow> bool" where
  "is_upper_hex c \<longleftrightarrow> is_digit c \<or> (65 \<le> (of_char c :: nat) \<and> (of_char c :: nat) \<le> 70)"

definition normalize_colour :: "string \<Rightarrow> string option" where
  "normalize_colour value =
     (let cleaned = upper (lstrip_by (\<lambda>c. c = CHR ''#'') (strip_quotes (strip value)))
      in if length cleaned = 6 \<and> list_all is_upper_hex cleaned then Some (cleaned @ ''FF'')
         else if length cleaned = 8 \<and> list_all is_upper_hex cleaned then Some cleaned
         else None)"

section \<open>Filaments by slot\<close>

type_synonym filament = "(string \<times> pyval) list"

definition set_material :: "string option \<Rightarrow> filament \<Rightarrow> filament" where
  "set_material m item = (case m of Some s \<Rightarrow> if s \<noteq> [] then AList.update ''material'' (PStr s) item else item | None \<Rightarrow> item)"

definition set_colour :: "string option \<Rightarrow> filament \<Rightarrow> filament" where
  "set_colour c item = (case c of Some s \<Rightarrow> AList.update ''color'' (PStr s) item | None \<Rightarrow> item)"

definition put_filament :: "int \<Rightarrow> string option \<Rightarrow> string option \<Rightarrow> (int, filament) odict \<Rightarrow> (int, filament) odict" where
  "put_filament slot material colour by_slot =
     (let item = (case map_of by_slot slot of Some it \<Rightarrow> it | None \<Rightarrow> [(''slot'', PInt slot)])
      in AList.update slot (set_colour colour (set_material material item)) by_slot)"

definition SLOT_KEYS :: "string list" where
  "SLOT_KEYS = [''slot'', ''id'', ''index'', ''idx'', ''extruder'', ''filament_id'']"
definition MATERIAL_KEYS :: "string list" where
  "MATERIAL_KEYS = [''material'', ''type'', ''tray_type'', ''filament_type'']"
definition COLOUR_KEYS :: "string list" where
  "COLOUR_KEYS = [''color'', ''colour'', ''tray_color'', ''filament_color'', ''filament_colour'']"

definition is_filament_tag :: "string \<Rightarrow> bool" where
  "is_filament_tag tag = list_ex (\<lambda>token. has_token token tag) [''filament'', ''slot'', ''tray'']"

definition read_element :: "xml \<Rightarrow> (int, filament) odict \<Rightarrow> (int, filament) odict" where
  "read_element e by_slot =
     (if \<not> is_filament_tag (tag_of e) then by_slot
      else (case (first_int (attrs_of e) SLOT_KEYS, first_str (attrs_of e) MATERIAL_KEYS, first_str (attrs_of e) COLOUR_KEYS) of
          (None, _, _) \<Rightarrow> by_slot
        | (Some slot, None, None) \<Rightarrow> by_slot
        | (Some slot, material, colour) \<Rightarrow> put_filament slot material (Option.bind colour normalize_colour) by_slot))"

section \<open>Lists in metadata\<close>

definition is_separator :: "char \<Rightarrow> bool" where
  "is_separator c \<longleftrightarrow> c = CHR '';'' \<or> c = CHR '',''"

fun split_separators :: "string \<Rightarrow> string \<Rightarrow> string list" where
  "split_separators acc [] = [rev acc]"
| "split_separators acc (c # cs) = (if is_separator c then rev acc # split_separators [] cs else split_separators (c # acc) cs)"

definition split_values :: "(string \<Rightarrow> pyval option) \<Rightarrow> (pyval \<Rightarrow> string) \<Rightarrow> string \<Rightarrow> string list" where
  "split_values json rep value =
     (let raw = strip value
      in if raw = [] then []
         else (case json raw of
             Some (PList items) \<Rightarrow> map (py_str rep) items
           | _ \<Rightarrow> map (\<lambda>part. strip_quotes (strip part)) (filter (\<lambda>part. strip part \<noteq> []) (split_separators [] raw))))"

definition str_or :: "string option \<Rightarrow> string option \<Rightarrow> string option" where
  "str_or a b = (case a of Some s \<Rightarrow> if s \<noteq> [] then a else b | None \<Rightarrow> b)"

definition read_metadata :: "(string \<Rightarrow> pyval option) \<Rightarrow> (pyval \<Rightarrow> string) \<Rightarrow> xml \<Rightarrow> (string, string list) odict \<Rightarrow> (string, string list) odict" where
  "read_metadata json rep e metadata =
     (if tag_of e \<noteq> ''metadata'' then metadata
      else (let key = str_or (map_of (attrs_of e) ''key'') (map_of (attrs_of e) ''name'');
                value = (case map_of (attrs_of e) ''value'' of Some v \<Rightarrow> Some v | None \<Rightarrow> str_or (xm_text e) None)
            in case (key, value) of
                 (Some k, Some v) \<Rightarrow> if k \<noteq> [] then AList.update (lower k) (split_values json rep v) metadata else metadata
               | _ \<Rightarrow> metadata))"

fun first_values :: "(string, string list) odict \<Rightarrow> string list \<Rightarrow> string list" where
  "first_values metadata [] = []"
| "first_values metadata (key # ks) = (let vs = get_or metadata key [] in if vs \<noteq> [] then vs else first_values metadata ks)"

definition TYPE_LISTS :: "string list" where
  "TYPE_LISTS = [''filament_type'', ''filament_types'', ''filament_material'']"
definition COLOUR_LISTS :: "string list" where
  "COLOUR_LISTS = [''filament_colour'', ''filament_color'', ''filament_colours'', ''filament_colors'']"

definition merge_slot :: "string list \<Rightarrow> string list \<Rightarrow> nat \<Rightarrow> (int, filament) odict \<Rightarrow> (int, filament) odict" where
  "merge_slot types colours slot by_slot =
     (let material = (if slot < length types then strip (types ! slot) else []);
          colour = (if slot < length colours then normalize_colour (colours ! slot) else None)
      in if material = [] \<and> colour = None then by_slot else put_filament (int slot) (Some material) colour by_slot)"

definition merge_array_metadata :: "(string \<Rightarrow> pyval option) \<Rightarrow> (pyval \<Rightarrow> string) \<Rightarrow> xml \<Rightarrow> (int, filament) odict \<Rightarrow> (int, filament) odict" where
  "merge_array_metadata json rep tree by_slot =
     (let metadata = fold (read_metadata json rep) (xml_iter tree) [];
          types = first_values metadata TYPE_LISTS; colours = first_values metadata COLOUR_LISTS
      in fold (merge_slot types colours) [0..<max (length types) (length colours)] by_slot)"

definition read_tree :: "(string \<Rightarrow> pyval option) \<Rightarrow> (pyval \<Rightarrow> string) \<Rightarrow> xml \<Rightarrow> filament list" where
  "read_tree json rep tree =
     (let by_slot = fold read_element (xml_iter tree) (merge_array_metadata json rep tree [])
      in map (\<lambda>slot. the (map_of by_slot slot)) (sort (keys by_slot)))"

section \<open>Text that is not XML\<close>

text \<open>The pattern is matched as the backtracking engine does: the digits of the slot as many as possible, then the material if it is one of
  the names right there (the first that leads to a match, in the order of the pattern), else without; then the first colour on the same line.\<close>

definition is_hex_char :: "char \<Rightarrow> bool" where
  "is_hex_char c \<longleftrightarrow> is_upper_hex (upper_char c)"

definition colour_at :: "string \<Rightarrow> string option" where
  "colour_at s = (case s of
      [] \<Rightarrow> None
    | c # cs \<Rightarrow> if c = CHR ''#'' then (let h = takeWhile is_hex_char (take 8 cs) in if 6 \<le> length h then Some (c # h) else None)
        else (let h = takeWhile is_hex_char (take 8 s) in if length h = 8 then Some h else None))"

fun find_colour :: "string \<Rightarrow> (string \<times> string) option" where
  "find_colour [] = None"
| "find_colour (c # cs) = (case colour_at (c # cs) of
      Some col \<Rightarrow> Some (col, drop (length col) (c # cs))
    | None \<Rightarrow> if c = CHR ''\<newline>'' then None else find_colour cs)"

definition MATERIALS :: "string list" where
  "MATERIALS = [''PLA-CF'', ''PLA'', ''PETG'', ''ABS'', ''ASA'', ''TPU'', ''PA'', ''PC'', ''PVA'', ''HIPS'']"

fun first_material :: "string list \<Rightarrow> string \<Rightarrow> (string option \<times> string \<times> string) option" where
  "first_material [] s = map_option (\<lambda>(col, rest). (None, col, rest)) (find_colour s)"
| "first_material (m # ms) s =
     (if startswith m (upper s)
      then (case find_colour (drop (length m) s) of Some (col, rest) \<Rightarrow> Some (Some m, col, rest) | None \<Rightarrow> first_material ms s)
      else first_material ms s)"

fun match_slot :: "nat \<Rightarrow> string \<Rightarrow> (int \<times> string option \<times> string \<times> string) option" where
  "match_slot 0 s = None"
| "match_slot (Suc k) s = (case first_material MATERIALS (drop (Suc k) s) of
      Some (m, col, rest) \<Rightarrow> Some (int (nat_of_digits (take (Suc k) s)), m, col, rest)
    | None \<Rightarrow> match_slot k s)"

definition is_slot_gap :: "char \<Rightarrow> bool" where
  "is_slot_gap c \<longleftrightarrow> c = CHR ''_'' \<or> c = CHR ''-'' \<or> is_space c"

definition match_filament :: "string \<Rightarrow> (int \<times> string option \<times> string \<times> string) option" where
  "match_filament s = (if startswith ''filament'' (lower s)
     then (let r = dropWhile is_slot_gap (drop 8 s) in match_slot (length (takeWhile is_digit r)) r) else None)"

definition fallback_entry :: "int \<Rightarrow> string option \<Rightarrow> string \<Rightarrow> filament" where
  "fallback_entry slot m col = set_colour (normalize_colour col) (set_material m [(''slot'', PInt slot)])"

lemma find_colour_shorter: "find_colour s = Some (col, rest) \<Longrightarrow> length rest \<le> length s"
  by (induction s) (auto split: option.splits if_splits)

lemma first_material_shorter: "first_material ms s = Some (m, col, rest) \<Longrightarrow> length rest \<le> length s"
proof (induction ms)
  case Nil
  then show ?case by (auto simp: find_colour_shorter)
next
  case (Cons n ms)
  then show ?case using find_colour_shorter [of "drop (length n) s" col rest]
    by (auto split: if_splits option.splits dest: find_colour_shorter)
qed

lemma match_slot_shorter: "match_slot k s = Some (n, m, col, rest) \<Longrightarrow> length rest \<le> length s"
proof (induction k)
  case (Suc k)
  then show ?case by (auto split: option.splits dest!: first_material_shorter)
qed simp

lemma match_filament_shorter: "match_filament s = Some (n, m, col, rest) \<Longrightarrow> length rest < length s"
proof -
  assume a: "match_filament s = Some (n, m, col, rest)"
  then have s: "startswith ''filament'' (lower s)"
    and r: "match_slot (length (takeWhile is_digit (dropWhile is_slot_gap (drop 8 s)))) (dropWhile is_slot_gap (drop 8 s)) = Some (n, m, col, rest)"
    by (auto simp: match_filament_def Let_def split: if_splits)
  from s have "8 \<le> length s" by (cases "length s < 8") (auto simp: startswith_def lower_def dest: arg_cong [of _ _ length])
  moreover have "length rest \<le> length (drop 8 s)" using match_slot_shorter [OF r] length_dropWhile_le [of is_slot_gap "drop 8 s"] by linarith
  ultimately show ?thesis by simp
qed

function fallback_scan :: "string \<Rightarrow> filament list" where
  "fallback_scan s = (case s of [] \<Rightarrow> []
     | _ # cs \<Rightarrow> (case match_filament s of
           Some (slot, m, col, rest) \<Rightarrow> fallback_entry slot m col # fallback_scan rest
         | None \<Rightarrow> fallback_scan cs))"
  by pat_completeness auto
termination
  by (relation "measure length") (auto dest: match_filament_shorter)

declare fallback_scan.simps [simp del]

section \<open>The whole file\<close>

record slice_env =
  sl_xml :: "string \<Rightarrow> xml option"
  sl_json :: "string \<Rightarrow> pyval option"
  sl_rep :: "pyval \<Rightarrow> string"

definition parse_slice_info_config :: "slice_env \<Rightarrow> byte list \<Rightarrow> filament list" where
  "parse_slice_info_config env raw =
     (let text = utf8_decode raw
      in case sl_xml env text of None \<Rightarrow> fallback_scan text | Some tree \<Rightarrow> read_tree (sl_json env) (sl_rep env) tree)"

text \<open>\<open>None\<close>: not an archive, unreadable, or without slice information. Reading what is there may raise something that is not caught.\<close>

definition MAX_SLICE_INFO_BYTES :: nat where
  "MAX_SLICE_INFO_BYTES = 10 * 1024 * 1024"

definition parse_required_filaments :: "slice_env \<Rightarrow> (nat \<times> byte list result) option \<Rightarrow> filament list result" where
  "parse_required_filaments env archive = (case archive of
      None \<Rightarrow> Inr []
    | Some (file_size, content) \<Rightarrow> if MAX_SLICE_INFO_BYTES < file_size then Inr []
        else (case content of Inl e \<Rightarrow> Inl e | Inr raw \<Rightarrow> Inr (parse_slice_info_config env raw)))"


section \<open>What is read is well formed\<close>

definition is_colour :: "string \<Rightarrow> bool" where
  "is_colour s \<longleftrightarrow> length s = 8 \<and> list_all is_upper_hex s"

definition filament_ok :: "filament \<Rightarrow> bool" where
  "filament_ok f \<longleftrightarrow> (case map_of f ''slot'' of Some (PInt n) \<Rightarrow> 0 \<le> n | _ \<Rightarrow> False) \<and>
     (case map_of f ''material'' of None \<Rightarrow> True | Some (PStr s) \<Rightarrow> s \<noteq> [] | _ \<Rightarrow> False) \<and>
     (case map_of f ''color'' of None \<Rightarrow> True | Some (PStr s) \<Rightarrow> is_colour s | _ \<Rightarrow> False)"

definition slot_of :: "filament \<Rightarrow> int" where
  "slot_of f = (case map_of f ''slot'' of Some (PInt n) \<Rightarrow> n | _ \<Rightarrow> -1)"

definition slots_ok :: "(int, filament) odict \<Rightarrow> bool" where
  "slots_ok b \<longleftrightarrow> wf_dict b \<and> (\<forall>k f. map_of b k = Some f \<longrightarrow> filament_ok f \<and> slot_of f = k)"

lemma normalize_colour_is_colour: "normalize_colour s = Some c \<Longrightarrow> is_colour c"
  by (auto simp: normalize_colour_def is_colour_def is_upper_hex_def Let_def split: if_splits)

lemma filament_parts: "map_of (set_colour c (set_material m f)) k =
   (if k = ''color'' \<and> c \<noteq> None then Some (PStr (the c)) else if k = ''material'' \<and> m \<noteq> None \<and> m \<noteq> Some [] then Some (PStr (the m)) else map_of f k)"
  by (auto simp: set_colour_def set_material_def map_of_update split: option.split)

lemma filament_ok_set:
  assumes "filament_ok f" "c = None \<or> is_colour (the c)"
  shows "filament_ok (set_colour c (set_material m f)) \<and> slot_of (set_colour c (set_material m f)) = slot_of f"
  using assms by (auto simp: filament_ok_def slot_of_def filament_parts)

lemma slots_ok_put:
  assumes "slots_ok b" "0 \<le> n" "c = None \<or> is_colour (the c)"
  shows "slots_ok (put_filament n m c b)"
proof -
  define f where "f = (case map_of b n of Some it \<Rightarrow> it | None \<Rightarrow> [(''slot'', PInt n)])"
  have "filament_ok f \<and> slot_of f = n"
  proof (cases "map_of b n")
    case None
    then show ?thesis using assms(2) by (simp add: f_def filament_ok_def slot_of_def)
  next
    case (Some it)
    then show ?thesis using assms(1) by (simp add: f_def slots_ok_def)
  qed
  with filament_ok_set [of f c m] assms show ?thesis
    by (auto simp: put_filament_def slots_ok_def wf_dict_update map_of_update simp flip: f_def)
qed

lemma first_int_nonneg: "first_int attrs ks = Some n \<Longrightarrow> 0 \<le> n"
  by (induction ks) (auto split: option.splits if_splits)

lemma colour_option: "normalize_colour c = None \<or> is_colour (the (normalize_colour c))"
  by (cases "normalize_colour c") (auto dest: normalize_colour_is_colour)

lemma slots_ok_element: "slots_ok b \<Longrightarrow> slots_ok (read_element e b)"
  using colour_option by (auto simp: read_element_def intro!: slots_ok_put dest: first_int_nonneg split: option.splits)

lemma slots_ok_fold: "(\<And>x b. slots_ok b \<Longrightarrow> slots_ok (g x b)) \<Longrightarrow> slots_ok b \<Longrightarrow> slots_ok (fold g xs b)"
  by (induction xs arbitrary: b) simp_all

lemma slots_ok_merge: "slots_ok b \<Longrightarrow> slots_ok (merge_slot types colours n b)"
  using colour_option by (auto simp: merge_slot_def Let_def intro!: slots_ok_put)

lemma read_tree_ok:
  "list_all filament_ok (read_tree json rep tree) \<and> sorted_wrt (<) (map slot_of (read_tree json rep tree))"
proof -
  define b where "b = fold read_element (xml_iter tree) (merge_array_metadata json rep tree [])"
  have "slots_ok ([] :: (int, filament) odict)" by (simp add: slots_ok_def wf_dict_def keys_def)
  then have ok: "slots_ok b"
    unfolding b_def merge_array_metadata_def Let_def by (intro slots_ok_fold slots_ok_element slots_ok_merge)
  have known: "\<exists>f. map_of b k = Some f \<and> filament_ok f \<and> slot_of f = k" if "k \<in> set (keys b)" for k
    using that ok by (cases "map_of b k") (auto simp: slots_ok_def map_of_None_keys)
  have slots: "map slot_of (read_tree json rep tree) = sort (keys b)"
    unfolding read_tree_def Let_def b_def [symmetric] map_map
    by (rule map_idI) (use known in fastforce)
  have "sorted_wrt (<) (sort (keys b))"
    using ok by (simp add: slots_ok_def wf_dict_def strict_sorted_iff)
  moreover have "list_all filament_ok (read_tree json rep tree)"
    unfolding read_tree_def Let_def b_def [symmetric] list_all_iff using known by fastforce
  ultimately show ?thesis using slots by simp
qed

lemma fallback_scan_ok: "list_all filament_ok (fallback_scan s)"
proof (induction s rule: fallback_scan.induct)
  case (1 s)
  show ?case
  proof (cases s)
    case (Cons c cs)
    have entry: "filament_ok (fallback_entry n m col)" if "0 \<le> n" for n m col
    proof -
      have "filament_ok [(''slot'', PInt n)]" using that by (simp add: filament_ok_def)
      then show ?thesis unfolding fallback_entry_def
        by (rule filament_ok_set [THEN conjunct1]) (rule colour_option)
    qed
    show ?thesis
    proof (cases "match_filament s")
      case None
      then show ?thesis using 1 Cons by (simp add: fallback_scan.simps [of "c # cs"])
    next
      case (Some x)
      obtain n m col rest where x: "x = (n, m, col, rest)" by (cases x)
      have "0 \<le> n"
      proof -
        have "match_slot k r = Some (n, m, col, rest) \<Longrightarrow> 0 \<le> n" for k r by (induction k) (auto split: option.splits)
        then show ?thesis using Some by (auto simp: x match_filament_def Let_def split: if_splits)
      qed
      then show ?thesis using 1 Cons Some entry by (simp add: x fallback_scan.simps [of "c # cs"])
    qed
  qed (simp add: fallback_scan.simps)
qed

text \<open>Every filament that is reported names a slot and, if any, a material that is not empty and a colour of eight upper-case hexadecimal
  digits, whatever the file holds; from an XML file each slot occurs once, in increasing order.\<close>

lemma required_filaments_well_formed:
  "case parse_required_filaments env archive of Inl e \<Rightarrow> map_option snd archive = Some (Inl e) | Inr fs \<Rightarrow> list_all filament_ok fs"
  using read_tree_ok fallback_scan_ok
  by (auto simp: parse_required_filaments_def parse_slice_info_config_def Let_def split: option.split sum.split)

section \<open>What the slicer declares is what the cloud gets\<close>

text \<open>What a filament element declares: its number, its material and its colour, six or eight hexadecimal digits in either case. The
  element may have any other attributes (used grams, the vendor's index) and any children.\<close>

type_synonym declared = "int \<times> string \<times> string"

definition plain_attrs :: "(string \<times> string) list \<Rightarrow> bool" where
  "plain_attrs as \<longleftrightarrow> list_all (\<lambda>(k, _). lower (strip_ns k) = k) as \<and> distinct (map fst as)"

definition declares :: "xml \<Rightarrow> declared \<Rightarrow> bool" where
  "declares e x \<longleftrightarrow> (case x of (n, m, h) \<Rightarrow> plain_attrs (xm_attrs e) \<and> map_of (xm_attrs e) ''slot'' = None \<and>
     map_of (xm_attrs e) ''id'' = Some (int_str n) \<and> map_of (xm_attrs e) ''material'' = None \<and> map_of (xm_attrs e) ''type'' = Some m \<and>
     map_of (xm_attrs e) ''color'' = Some (CHR ''#'' # h))"

definition declared_ok :: "declared \<Rightarrow> bool" where
  "declared_ok x \<longleftrightarrow> (case x of (n, m, h) \<Rightarrow> 0 \<le> n \<and> strip m \<noteq> [] \<and> length h \<in> {6, 8} \<and> list_all is_hex_char h)"

text \<open>Elements that declare nothing: no filament, slot or tray (headers, plates, objects, warnings), or without a number (the layers of
  each filament); and metadata under other names than the lists of filaments.\<close>

definition silent :: "xml \<Rightarrow> bool" where
  "silent e \<longleftrightarrow> (is_filament_tag (tag_of e) \<longrightarrow> list_all (\<lambda>(k, _). lower (strip_ns k) \<notin> set SLOT_KEYS) (xm_attrs e)) \<and>
     (tag_of e = ''metadata'' \<longrightarrow> list_all (\<lambda>(k, v). lower (strip_ns k) \<in> {''key'', ''name''} \<longrightarrow> lower v \<notin> set (TYPE_LISTS @ COLOUR_LISTS)) (xm_attrs e))"

text \<open>The elements of the file in document order: the filaments, and anything silent between and around them.\<close>

fun written :: "xml list \<Rightarrow> declared list \<Rightarrow> bool" where
  "written [] fs = (fs = [])"
| "written (e # es) fs = (if xm_tag e = ''filament'' then (case fs of [] \<Rightarrow> False | x # xs \<Rightarrow> declares e x \<and> written es xs)
     else silent e \<and> written es fs)"

definition full_colour :: "string \<Rightarrow> string" where
  "full_colour h = upper h @ (if length h = 6 then ''FF'' else [])"

definition submitted :: "declared \<Rightarrow> pyval" where
  "submitted x = (case x of (n, m, h) \<Rightarrow> PDict [(''slot'', PInt n), (''type'', PStr (strip m)), (''color'', PStr (full_colour h))])"

definition read_item :: "declared \<Rightarrow> filament" where
  "read_item x = (case x of (n, m, h) \<Rightarrow> [(''slot'', PInt n), (''material'', PStr (strip m)), (''color'', PStr (full_colour h))])"

lemma strip_by_nothing: "list_all (\<lambda>c. \<not> P c) s \<Longrightarrow> rstrip_by P (lstrip_by P s) = s"
proof -
  have keep: "dropWhile P t = t" if "list_all (\<lambda>c. \<not> P c) t" for t using that by (cases t) auto
  assume "list_all (\<lambda>c. \<not> P c) s"
  then show ?thesis using keep [of s] keep [of "rev s"] by (simp add: lstrip_by_def rstrip_by_def)
qed

lemma hex_chars: "is_hex_char c \<Longrightarrow> \<not> is_space c \<and> \<not> is_quote c \<and> c \<noteq> CHR ''#'' \<and> is_upper_hex (upper_char c)"
  by (auto simp: is_hex_char_def is_upper_hex_def is_digit_def is_space_def is_quote_def upper_char_def Let_def split: if_splits)

lemma declared_colour:
  assumes "length h \<in> {6, 8}" "list_all is_hex_char h"
  shows "strip (CHR ''#'' # h) = CHR ''#'' # h" "normalize_colour (CHR ''#'' # h) = Some (full_colour h)"
proof -
  have plain: "list_all (\<lambda>x. \<not> is_space x) (CHR ''#'' # h)" "list_all (\<lambda>x. \<not> is_quote x) (CHR ''#'' # h)"
    using assms(2) hex_chars by (auto simp: list_all_iff is_space_def is_quote_def)
  show s: "strip (CHR ''#'' # h) = CHR ''#'' # h" unfolding strip_def by (rule strip_by_nothing [OF plain(1)])
  have "lstrip_by (\<lambda>c. c = CHR ''#'') (CHR ''#'' # h) = h"
    using assms hex_chars by (cases h) (auto simp: lstrip_by_def)
  moreover have "length (upper h) = length h" "list_all is_upper_hex (upper h)"
    using assms(2) hex_chars by (auto simp: upper_def list_all_iff)
  ultimately show "normalize_colour (CHR ''#'' # h) = Some (full_colour h)"
    using assms(1) strip_by_nothing [OF plain(2)] by (auto simp: normalize_colour_def s strip_quotes_def full_colour_def)
qed

text \<open>The attributes as the code reads them.\<close>

lemma attrs_plain:
  "list_all (\<lambda>(k, _). f k = k) as \<Longrightarrow> distinct (map fst as) \<Longrightarrow>
   map_of (fold (\<lambda>(k, v). AList.update (f k) v) as b) q = (case map_of as q of None \<Rightarrow> map_of b q | Some v \<Rightarrow> Some v)"
proof (induction as arbitrary: b)
  case (Cons kv as)
  obtain k v where kv: "kv = (k, v)" by (cases kv)
  have "map_of as k = None" using Cons.prems(2) by (simp add: kv map_of_eq_None_iff)
  then show ?case using Cons by (auto simp: kv map_of_update split: option.split)
qed simp

lemma attrs_from:
  "map_of (fold (\<lambda>(k, v). AList.update (f k) v) as b) q = Some v \<Longrightarrow> map_of b q = Some v \<or> (\<exists>k. (k, v) \<in> set as \<and> f k = q)"
  by (induction as arbitrary: b) (fastforce simp: map_of_update split: if_splits)+

lemma attrs_of_from: "map_of (attrs_of e) q = Some v \<Longrightarrow> \<exists>k. (k, v) \<in> set (xm_attrs e) \<and> lower (strip_ns k) = q"
  using attrs_from [of "\<lambda>k. lower (strip_ns k)" "xm_attrs e" "[]" q v] by (simp add: attrs_of_def)

lemma declared_attrs:
  assumes "declares e (n, m, h)" "declared_ok (n, m, h)"
  shows "first_int (attrs_of e) SLOT_KEYS = Some n" "first_str (attrs_of e) MATERIAL_KEYS = Some (strip m)"
    "first_str (attrs_of e) COLOUR_KEYS = Some (CHR ''#'' # h)"
proof -
  have "map_of (attrs_of e) q = map_of (xm_attrs e) q" for q
    using assms(1) attrs_plain [of "\<lambda>k. lower (strip_ns k)" "xm_attrs e" "[]" q]
    by (simp add: declares_def plain_attrs_def attrs_of_def split: option.splits)
  then have at: "map_of (attrs_of e) ''slot'' = None" "map_of (attrs_of e) ''id'' = Some (int_str n)" "map_of (attrs_of e) ''material'' = None"
    "map_of (attrs_of e) ''type'' = Some m" "map_of (attrs_of e) ''color'' = Some (CHR ''#'' # h)"
    using assms(1) by (simp_all add: declares_def)
  have "int_of_str (int_str n) = Some n" by simp
  then show "first_int (attrs_of e) SLOT_KEYS = Some n" "first_str (attrs_of e) MATERIAL_KEYS = Some (strip m)"
    "first_str (attrs_of e) COLOUR_KEYS = Some (CHR ''#'' # h)"
    using assms(2) at declared_colour(1) [of h] by (simp_all add: declared_ok_def SLOT_KEYS_def MATERIAL_KEYS_def COLOUR_KEYS_def)
qed

lemma filament_tags: "xm_tag e = ''filament'' \<Longrightarrow> tag_of e = ''filament''" "is_filament_tag ''filament''" "\<not> is_filament_tag ''metadata''"
  by (simp_all add: tag_of_def strip_ns_def lower_def lower_char_def is_filament_tag_def startswith_def)

text \<open>What reading one element does.\<close>

definition collected :: "declared list \<Rightarrow> (int, filament) odict \<Rightarrow> bool" where
  "collected fs b \<longleftrightarrow> wf_dict b \<and> set (keys b) = fst ` set fs \<and> (\<forall>x \<in> set fs. map_of b (fst x) = Some (read_item x))"

lemma read_silent: "silent e \<Longrightarrow> read_element e b = b"
proof -
  assume s: "silent e"
  have "first_int (attrs_of e) ks = None" if "is_filament_tag (tag_of e)" "set ks \<subseteq> set SLOT_KEYS" for ks
    using that(2)
  proof (induction ks)
    case (Cons k ks)
    have "map_of (attrs_of e) k = None"
      using s that(1) Cons.prems attrs_of_from [of e k] by (cases "map_of (attrs_of e) k") (fastforce simp: silent_def list_all_iff)+
    with Cons show ?case by simp
  qed simp
  then show ?thesis by (simp add: read_element_def)
qed

lemma read_declared:
  assumes "xm_tag e = ''filament''" "declares e x" "declared_ok x" "collected fs b" "\<forall>y \<in> set fs. fst y = fst x \<longrightarrow> y = x"
  shows "collected (x # fs) (read_element e b)"
proof -
  obtain n m h where x: "x = (n, m, h)" by (cases x)
  note at = declared_attrs [OF assms(2,3) [unfolded x]]
  have "normalize_colour (CHR ''#'' # h) = Some (full_colour h)" "strip m \<noteq> []"
    using assms(3) declared_colour(2) [of h] by (auto simp: declared_ok_def x)
  then have r: "read_element e b = put_filament n (Some (strip m)) (Some (full_colour h)) b"
    using filament_tags assms(1) by (simp add: read_element_def at)
  have "put_filament n (Some (strip m)) (Some (full_colour h)) b = AList.update n (read_item x) b"
  proof (cases "map_of b n")
    case None
    then show ?thesis using \<open>strip m \<noteq> []\<close> by (simp add: put_filament_def set_material_def set_colour_def read_item_def x)
  next
    case (Some f)
    then have "n \<in> fst ` set fs" using assms(4) by (force simp: collected_def set_keys)
    then have "x \<in> set fs" using assms(5) x by fastforce
    then have "f = read_item x" using assms(4) Some x by (force simp: collected_def)
    then show ?thesis using Some \<open>strip m \<noteq> []\<close> by (simp add: put_filament_def set_material_def set_colour_def read_item_def x)
  qed
  with r have "read_element e b = AList.update (fst x) (read_item x) b" by (simp add: x)
  then show ?thesis using assms(4,5) by (auto simp: collected_def wf_dict_update keys_update map_of_update)
qed

lemma read_written:
  "written es fs \<Longrightarrow> list_all declared_ok fs \<Longrightarrow> collected ds b \<Longrightarrow> \<forall>x \<in> set fs \<union> set ds. \<forall>y \<in> set fs \<union> set ds. fst x = fst y \<longrightarrow> x = y \<Longrightarrow>
   collected (rev fs @ ds) (fold read_element es b)"
proof (induction es arbitrary: fs ds b)
  case (Cons e es)
  show ?case
  proof (cases "xm_tag e = ''filament''")
    case False
    with Cons.prems Cons.IH [of fs ds b] show ?thesis by (simp add: read_silent)
  next
    case True
    then obtain x xs where fs: "fs = x # xs" "declares e x" "written es xs" using Cons.prems(1) by (cases fs) auto
    have "collected (x # ds) (read_element e b)" by (rule read_declared [OF True fs(2)]) (use Cons.prems fs(1) in auto)
    from Cons.IH [OF fs(3) _ this] Cons.prems show ?thesis by (simp add: fs(1))
  qed
qed simp

text \<open>No list of filaments in the metadata.\<close>

lemma silent_metadata:
  assumes "silent e \<or> xm_tag e = ''filament''" "\<forall>q \<in> set (TYPE_LISTS @ COLOUR_LISTS). map_of d q = None"
  shows "\<forall>q \<in> set (TYPE_LISTS @ COLOUR_LISTS). map_of (read_metadata json rep e d) q = None"
proof (cases "tag_of e = ''metadata''")
  case False
  then show ?thesis using assms(2) by (simp add: read_metadata_def)
next
  case True
  then have s: "silent e" using assms(1) filament_tags(1) [of e] by auto
  have key: "lower k \<notin> set (TYPE_LISTS @ COLOUR_LISTS)"
    if "map_of (attrs_of e) ''key'' = Some k \<or> map_of (attrs_of e) ''name'' = Some k" for k
  proof -
    from that obtain a where "(a, k) \<in> set (xm_attrs e)" "lower (strip_ns a) \<in> {''key'', ''name''}" using attrs_of_from [of e _ k] by fastforce
    then show ?thesis using s True by (fastforce simp: silent_def list_all_iff)
  qed
  have "str_or (map_of (attrs_of e) ''key'') (map_of (attrs_of e) ''name'') = Some k \<Longrightarrow> lower k \<notin> set (TYPE_LISTS @ COLOUR_LISTS)" for k
    using key by (auto simp: str_or_def split: option.splits if_splits)
  then show ?thesis using assms(2) by (auto simp: read_metadata_def Let_def map_of_update split: option.split)
qed

lemma written_metadata:
  assumes "written (xml_iter tree) fs"
  shows "merge_array_metadata json rep tree [] = []"
proof -
  let ?lists = "TYPE_LISTS @ COLOUR_LISTS"
  have all: "\<forall>q \<in> set ?lists. map_of (fold (read_metadata json rep) es d) q = None"
    if "written es gs" "\<forall>q \<in> set ?lists. map_of d q = None" for es gs d
    using that
  proof (induction es arbitrary: gs d)
    case (Cons e es)
    have e: "silent e \<or> xm_tag e = ''filament''" and rest: "\<exists>gs'. written es gs'" using Cons.prems(1) by (auto split: if_splits list.splits)
    then show ?case using Cons.IH [OF _ silent_metadata [OF e Cons.prems(2)]] by auto
  qed simp
  let ?d = "fold (read_metadata json rep) (xml_iter tree) []"
  have "\<forall>q \<in> set ?lists. map_of ?d q = None" by (rule all [OF assms]) simp
  then have "first_values ?d ks = []" if "set ks \<subseteq> set ?lists" for ks
    using that by (induction ks) (auto simp: get_or_def Let_def)
  from this [of TYPE_LISTS] this [of COLOUR_LISTS] show ?thesis by (simp add: merge_array_metadata_def Let_def)
qed

lemma sorted_keys_unique: "sorted xs \<Longrightarrow> distinct xs \<Longrightarrow> sorted ys \<Longrightarrow> distinct ys \<Longrightarrow> set xs = set ys \<Longrightarrow> xs = ys" for xs :: "int list"
  by (rule sorted_distinct_set_unique)

text \<open>
  C40: What the slicer declares is what the cloud is asked for. When the slice information is not larger than the bound and parses to
  a tree whose filament elements declare number, material and colour - with any other elements and attributes around and
  inside them (headers, objects, layer lists), over any number of plates, a filament possibly in several of them - and whose metadata has no
  lists of filaments, exactly the declared filaments are submitted, each once, in the order of their numbers, with the material without
  surrounding space and the colour in upper case and extended to eight digits. With such lists the file may ask for more
  (\<open>lists_and_elements_disagree\<close> below).\<close>
theorem declared_filaments_submitted:
  assumes "file_size \<le> MAX_SLICE_INFO_BYTES" "sl_xml env (utf8_decode raw) = Some tree" and "written (xml_iter tree) fs"
    and "list_all declared_ok fs" "\<forall>x \<in> set fs. \<forall>y \<in> set fs. fst x = fst y \<longrightarrow> x = y"
  shows "\<exists>items. parse_required_filaments env (Some (file_size, Inr raw)) = Inr items \<and>
    map vp_submit_filament items = map submitted (sort_key fst (remdups fs))"
proof -
  let ?b = "fold read_element (xml_iter tree) []"
  have "collected [] ([] :: (int, filament) odict)" by (simp add: collected_def wf_dict_def keys_def)
  from read_written [OF assms(3,4) this] assms(5) have c: "collected (rev fs) ?b" by simp
  have items: "parse_required_filaments env (Some (file_size, Inr raw)) = Inr (map (\<lambda>slot. the (map_of ?b slot)) (sort (keys ?b)))"
    using assms(1,2) written_metadata [OF assms(3)]
    by (simp add: parse_required_filaments_def parse_slice_info_config_def read_tree_def Let_def)
  have inj: "inj_on fst (set fs)" using assms(5) by (auto simp: inj_on_def)
  have "distinct (map fst (sort_key fst (remdups fs)))" using inj by (simp add: distinct_map)
  then have "sort (keys ?b) = map fst (sort_key fst (remdups fs))"
    using c by (intro sorted_keys_unique) (simp_all add: collected_def wf_dict_def)
  then have "map (\<lambda>slot. the (map_of ?b slot)) (sort (keys ?b)) = map read_item (sort_key fst (remdups fs))"
    using c by (simp add: collected_def)
  moreover have "vp_submit_filament (read_item x) = submitted x" if "x \<in> set fs" for x
  proof -
    obtain n m h where x: "x = (n, m, h)" by (cases x)
    then have "strip m \<noteq> []" "full_colour h \<noteq> []" using that assms(4) by (auto simp: list_all_iff declared_ok_def full_colour_def upper_def)
    then show ?thesis by (simp add: x read_item_def submitted_def vp_submit_filament_def pget_def get_or_def por_def)
  qed
  ultimately show ?thesis using items by simp
qed

section \<open>Witness and finding\<close>

text \<open>Two plates as a slicer writes them: a header, objects, the layers of each filament, colours in either case, one filament in both.\<close>

definition demo_filament :: "string \<Rightarrow> string \<Rightarrow> string \<Rightarrow> string \<Rightarrow> xml" where
  "demo_filament n m c used = Element ''filament'' [(''id'', n), (''tray_info_idx'', ''GFA00''), (''type'', m), (''color'', c), (''used_g'', used)] None []"

definition demo_meta :: "string \<Rightarrow> string \<Rightarrow> xml" where
  "demo_meta k v = Element ''metadata'' [(''key'', k), (''value'', v)] None []"

definition demo_tree :: xml where
  "demo_tree = Element ''config'' [] None
     [Element ''header'' [] None [Element ''header_item'' [(''key'', ''X-BBL-Client-Type''), (''value'', ''slicer'')] None []],
      Element ''plate'' [] None [demo_meta ''index'' ''1'', demo_meta ''filament_maps'' ''1 1'',
        Element ''object'' [(''identify_id'', ''4''), (''name'', ''cube''), (''skipped'', ''false'')] None [],
        demo_filament ''2'' '' PETG'' ''#00ff00'' ''3.20'', demo_filament ''1'' ''PLA'' ''#ABCDEF80'' ''1.10'',
        Element ''layer_filament_lists'' [] None [Element ''layer_filament_list'' [(''filament_list'', ''0''), (''layer_ranges'', ''0 199'')] None []]],
      Element ''plate'' [] None [demo_meta ''index'' ''2'', demo_filament ''2'' '' PETG'' ''#00ff00'' ''9.99'']]"

definition demo_filaments :: "declared list" where
  "demo_filaments = [(2, '' PETG'', ''00ff00''), (1, ''PLA'', ''ABCDEF80''), (2, '' PETG'', ''00ff00'')]"

definition demo_slice_env :: slice_env where
  "demo_slice_env = \<lparr>sl_xml = (\<lambda>t. if t = ''<config/>'' then Some demo_tree else None), sl_json = (\<lambda>_. None), sl_rep = (\<lambda>_. [])\<rparr>"

theorem declared_filaments_submitted_witness:
  "\<exists>items. parse_required_filaments demo_slice_env (Some (900, Inr (map byte_of_char ''<config/>''))) = Inr items \<and>
     map vp_submit_filament items = [PDict [(''slot'', PInt 1), (''type'', PStr ''PLA''), (''color'', PStr ''ABCDEF80'')],
       PDict [(''slot'', PInt 2), (''type'', PStr ''PETG''), (''color'', PStr ''00FF00FF'')]]"
proof -
  have size: "900 \<le> MAX_SLICE_INFO_BYTES" by (simp add: MAX_SLICE_INFO_BYTES_def)
  have tree: "sl_xml demo_slice_env (utf8_decode (map byte_of_char ''<config/>'')) = Some demo_tree" by code_simp
  have ok: "written (xml_iter demo_tree) demo_filaments" "list_all declared_ok demo_filaments"
    "\<forall>x \<in> set demo_filaments. \<forall>y \<in> set demo_filaments. fst x = fst y \<longrightarrow> x = y" by code_simp+
  have "map submitted (sort_key fst (remdups demo_filaments)) = [PDict [(''slot'', PInt 1), (''type'', PStr ''PLA''), (''color'', PStr ''ABCDEF80'')],
       PDict [(''slot'', PInt 2), (''type'', PStr ''PETG''), (''color'', PStr ''00FF00FF'')]]" by code_simp
  with declared_filaments_submitted [OF size tree ok] show ?thesis by simp
qed

text \<open>The fallback finds a material only when it follows the digits of the slot at once: the lazy gap before the optional group is never
  extended, since the group may be left out. In text as slicers write it the material is lost, or the filament not found at all.\<close>

lemma fallback_loses_material:
  "fallback_scan ''filament_1 type=PLA color=#FF0000'' = [[(''slot'', PInt 1), (''color'', PStr ''FF0000FF'')]]"
  "fallback_scan ''filament_1PLA color=#FF0000'' = [[(''slot'', PInt 1), (''material'', PStr ''PLA''), (''color'', PStr ''FF0000FF'')]]"
  "fallback_scan ''<filament id=1 type=PLA color=#FF0000>'' = []"
  by code_simp+

text \<open>Lists in metadata count slots from zero, elements as they are numbered: a file with both asks for one filament too many.\<close>

lemma lists_and_elements_disagree:
  "map slot_of (read_tree (\<lambda>_. None) (\<lambda>_. []) (Element ''plate'' [] None [demo_meta ''filament_type'' ''PLA'', demo_filament ''1'' ''PLA'' ''#FF0000'' ''1.00''])) = [0, 1]"
  by code_simp

end
