(* ===== verification/Listeners.thy ===== *)
theory Listeners
  imports Ssdp IpAllocator VpConfig Tailscale
begin

text \<open>
  What stands around the protocols: the sessions of the FTPS server (\<open>makeros_hub/vprinter/ftp_server.py\<close>, class \<open>FtpServer\<close>), the
  discovery responder of a single printer and the start of both responders (\<open>vprinter/ssdp.py\<close>), and how the allocator finds the
  interface and the routed prefix (\<open>vprinter/ip_allocator.py\<close>). A handler of a connection ends by itself or is cancelled by closing.
\<close>

section \<open>The sessions of the FTPS server\<close>

record ftp_server =
  fv_listening :: bool
  fv_max :: nat
  fv_active :: nat
  fv_sessions :: "nat list"
  fv_tasks :: "nat list"

definition new_ftp_server :: "int \<Rightarrow> ftp_server" where
  "new_ftp_server max_sessions = \<lparr>fv_listening = False, fv_max = nat (max 1 max_sessions), fv_active = 0, fv_sessions = [], fv_tasks = []\<rparr>"

definition start_ftp :: "ftp_server \<Rightarrow> ftp_server" where
  "start_ftp s = s\<lparr>fv_listening := True\<rparr>"

text \<open>The \<open>finally\<close> of a handler.\<close>

definition end_handler :: "nat \<Rightarrow> ftp_server \<Rightarrow> ftp_server" where
  "end_handler c s = s\<lparr>fv_sessions := removeAll c (fv_sessions s), fv_active := fv_active s - 1, fv_tasks := removeAll c (fv_tasks s)\<rparr>"

text \<open>\<open>made\<close>: the session object could be built.\<close>

definition handle_connection :: "nat \<Rightarrow> bool \<Rightarrow> ftp_server \<Rightarrow> bool \<times> ftp_server" where
  "handle_connection c made s =
     (if fv_max s \<le> fv_active s then (False, s)
      else (let s1 = s\<lparr>fv_active := fv_active s + 1, fv_tasks := fv_tasks s @ [c]\<rparr>
        in if made then (True, s1\<lparr>fv_sessions := fv_sessions s1 @ [c]\<rparr>) else (False, end_handler c s1)))"

definition close_ftp :: "ftp_server \<Rightarrow> ftp_server" where
  "close_ftp s = fold end_handler (fv_tasks s) (s\<lparr>fv_listening := False\<rparr>)"

datatype server_event = Connect nat bool | Finish nat | Close_server

definition ftp_step :: "server_event \<Rightarrow> ftp_server \<Rightarrow> ftp_server" where
  "ftp_step e s = (case e of
      Connect c made \<Rightarrow> if fv_listening s then snd (handle_connection c made s) else s
    | Finish c \<Rightarrow> if c \<in> set (fv_tasks s) then end_handler c s else s
    | Close_server \<Rightarrow> close_ftp s)"

definition run_ftp :: "server_event list \<Rightarrow> ftp_server \<Rightarrow> ftp_server" where
  "run_ftp es s = fold ftp_step es s"

fun connections :: "server_event list \<Rightarrow> nat list" where
  "connections [] = []"
| "connections (Connect c made # es) = c # connections es"
| "connections (_ # es) = connections es"

text \<open>The counter is the number of running handlers, within the cap; each has its session.\<close>

definition ftp_ok :: "ftp_server \<Rightarrow> bool" where
  "ftp_ok s \<longleftrightarrow> fv_active s = length (fv_tasks s) \<and> fv_sessions s = fv_tasks s \<and> distinct (fv_tasks s) \<and> length (fv_tasks s) \<le> fv_max s"

lemma length_removeAll: "distinct xs \<Longrightarrow> c \<in> set xs \<Longrightarrow> length (removeAll c xs) = length xs - 1"
  by (metis distinct_remove1_removeAll length_remove1)

lemma end_handler_ok: "ftp_ok s \<Longrightarrow> c \<in> set (fv_tasks s) \<Longrightarrow> ftp_ok (end_handler c s)"
  using length_removeAll [of "fv_tasks s" c] by (auto simp: ftp_ok_def end_handler_def distinct_removeAll)

lemma handle_ok:
  assumes "ftp_ok s" "c \<notin> set (fv_tasks s)"
  shows "ftp_ok (snd (handle_connection c made s))" "fst (handle_connection c made s) \<longleftrightarrow> made \<and> length (fv_tasks s) < fv_max s"
    "set (fv_tasks (snd (handle_connection c made s))) \<subseteq> insert c (set (fv_tasks s))" "fv_max (snd (handle_connection c made s)) = fv_max s"
  using assms by (auto simp: handle_connection_def ftp_ok_def end_handler_def Let_def)

lemma close_all: "ftp_ok s \<Longrightarrow> ftp_ok (fold end_handler (fv_tasks s) s) \<and> fv_tasks (fold end_handler (fv_tasks s) s) = [] \<and>
    fv_max (fold end_handler (fv_tasks s) s) = fv_max s"
proof -
  have "ftp_ok t \<Longrightarrow> distinct cs \<Longrightarrow> set cs \<subseteq> set (fv_tasks t) \<Longrightarrow> ftp_ok (fold end_handler cs t) \<and>
      set (fv_tasks (fold end_handler cs t)) = set (fv_tasks t) - set cs \<and> fv_max (fold end_handler cs t) = fv_max t" for cs t
  proof (induction cs arbitrary: t)
    case (Cons c cs)
    have ok: "ftp_ok (end_handler c t)" by (rule end_handler_ok) (use Cons.prems in auto)
    have tasks: "set (fv_tasks (end_handler c t)) = set (fv_tasks t) - {c}" "fv_max (end_handler c t) = fv_max t"
      by (simp_all add: end_handler_def)
    have "set cs \<subseteq> set (fv_tasks (end_handler c t))" using Cons.prems tasks by auto
    from Cons.IH [OF ok _ this] Cons.prems(2) tasks show ?case by auto
  qed simp
  from this [of s "fv_tasks s"] show "ftp_ok s \<Longrightarrow> ?thesis" by (auto simp: ftp_ok_def)
qed

lemma close_ftp_ok: "ftp_ok s \<Longrightarrow> ftp_ok (close_ftp s) \<and> fv_tasks (close_ftp s) = [] \<and> fv_max (close_ftp s) = fv_max s"
  using close_all [of "s\<lparr>fv_listening := False\<rparr>"] by (simp add: close_ftp_def ftp_ok_def)

lemma ftp_step_ok:
  assumes "ftp_ok s" "distinct (connections (e # es))" "set (connections (e # es)) \<inter> set (fv_tasks s) = {}"
  shows "ftp_ok (ftp_step e s) \<and> set (connections es) \<inter> set (fv_tasks (ftp_step e s)) = {} \<and> fv_max (ftp_step e s) = fv_max s"
proof (cases e)
  case (Connect c made)
  have "c \<notin> set (fv_tasks s)" using assms(3) Connect by simp
  from handle_ok [OF assms(1) this, of made] show ?thesis using assms Connect by (auto simp: ftp_step_def)
next
  case (Finish c)
  show ?thesis
  proof (cases "c \<in> set (fv_tasks s)")
    case True
    from end_handler_ok [OF assms(1) this] show ?thesis using assms(3) Finish True by (auto simp: ftp_step_def end_handler_def)
  qed (use assms Finish in \<open>simp add: ftp_step_def\<close>)
next
  case Close_server
  then show ?thesis using close_ftp_ok [OF assms(1)] by (simp add: ftp_step_def)
qed

lemma run_ftp_ok:
  "ftp_ok s \<Longrightarrow> distinct (connections es) \<Longrightarrow> set (connections es) \<inter> set (fv_tasks s) = {} \<Longrightarrow> ftp_ok (run_ftp es s) \<and> fv_max (run_ftp es s) = fv_max s"
proof (induction es arbitrary: s)
  case (Cons e es)
  have tail: "distinct (connections es)" using Cons.prems(2) by (cases e) auto
  from ftp_step_ok [OF Cons.prems] Cons.IH [of "ftp_step e s"] tail show ?case by (simp add: run_ftp_def)
qed (simp add: run_ftp_def)

text \<open>
  Whatever connections come, end and fail to start, the FTPS server counts exactly the handlers that run, never more than its
  cap (at least one); the next connection is served if and only if fewer run, so that a session that ended, even one that could not be
  built, gives its place back; and closing leaves no handler and no session.\<close>
theorem ftp_sessions_capped:
  assumes "distinct (connections es)" "s = run_ftp es (start_ftp (new_ftp_server cap))"
  shows "fv_active s = length (fv_tasks s) \<and> length (fv_tasks s) \<le> nat (max 1 cap) \<and> fv_sessions s = fv_tasks s \<and>
    (c \<in> set (fv_tasks s) \<or> fst (handle_connection c True s) = (length (fv_tasks s) < nat (max 1 cap))) \<and>
    fv_tasks (close_ftp s) = [] \<and> fv_sessions (close_ftp s) = [] \<and> fv_active (close_ftp s) = 0"
proof -
  have "ftp_ok (start_ftp (new_ftp_server cap))" "fv_tasks (start_ftp (new_ftp_server cap)) = []"
    "fv_max (start_ftp (new_ftp_server cap)) = nat (max 1 cap)"
    by (simp_all add: start_ftp_def new_ftp_server_def ftp_ok_def)
  with run_ftp_ok [of "start_ftp (new_ftp_server cap)" es] assms have s: "ftp_ok s" "fv_max s = nat (max 1 cap)" by simp_all
  from close_ftp_ok [OF s(1)] handle_ok(2) [OF s(1), of c True] s show ?thesis by (auto simp: ftp_ok_def)
qed

definition demo_connections :: "server_event list" where
  "demo_connections = [Connect 1 True, Connect 2 False, Connect 3 True, Connect 4 True, Finish 1]"

theorem ftp_sessions_capped_witness:
  "let s = run_ftp demo_connections (start_ftp (new_ftp_server 2)) in fv_tasks s = [3] \<and> fst (handle_connection 5 True s) \<and> fv_tasks (close_ftp s) = []"
proof -
  have d: "distinct (connections demo_connections)" by code_simp
  have t: "fv_tasks (run_ftp demo_connections (start_ftp (new_ftp_server 2))) = [3]" by code_simp
  from ftp_sessions_capped [OF d refl, of 2 5] t show ?thesis by (simp add: Let_def)
qed

section \<open>The responder of a single printer\<close>

record ssdp_single =
  ss_config :: ssdp_config
  ss_limiter :: ssdp_limiter

definition single_datagram :: "string \<Rightarrow> string \<Rightarrow> real \<Rightarrow> ssdp_single \<Rightarrow> string list \<times> ssdp_single" where
  "single_datagram packet ip now s =
     (if length packet < 23 then ([], s)
      else if \<not> is_m_search packet then ([], s)
      else (let (ok, l) = allow ip now (ss_limiter s); s' = s\<lparr>ss_limiter := l\<rparr>
        in if ok then ([build_ssdp_response (ss_config s)], s') else ([], s')))"

text \<open>Opening the socket: a taken port raises, a refused multicast group only costs the group.\<close>

record socket_env =
  so_bind :: "unit result"
  so_join :: bool

definition start_ssdp_responder :: "socket_env \<Rightarrow> ssdp_limiter \<Rightarrow> ssdp_config \<Rightarrow> (bool \<times> ssdp_single) result" where
  "start_ssdp_responder env fresh c = (case so_bind env of Inl e \<Rightarrow> Inl e | Inr _ \<Rightarrow> Inr (so_join env, \<lparr>ss_config = c, ss_limiter = fresh\<rparr>))"

definition start_shared_ssdp :: "socket_env \<Rightarrow> ssdp_limiter \<Rightarrow> ssdp_config list \<Rightarrow> (bool \<times> ssdp_listener) result" where
  "start_shared_ssdp env fresh configs = (case so_bind env of Inl e \<Rightarrow> Inl e
     | Inr _ \<Rightarrow> Inr (so_join env, fold register configs \<lparr>sp_registry = [], sp_limiter = fresh\<rparr>))"

text \<open>The broadcasts until the task is cancelled, given by what is registered at each interval.\<close>

definition notify_loop :: "ssdp_config \<Rightarrow> nat \<Rightarrow> string list" where
  "notify_loop c rounds = replicate rounds (build_ssdp_notify c)"

definition shared_notify_loop :: "ssdp_listener list \<Rightarrow> string list" where
  "shared_notify_loop ps = concat (map notify_round ps)"

definition single_run :: "(string \<times> string \<times> real) list \<Rightarrow> ssdp_single \<Rightarrow> string list \<times> ssdp_single" where
  "single_run ds s = fold (\<lambda>(packet, ip, now) (out, s). let (o', s') = single_datagram packet ip now s in (out @ o', s')) ds ([], s)"

definition shared_run :: "(string \<times> string \<times> real) list \<Rightarrow> ssdp_listener \<Rightarrow> string list \<times> ssdp_listener" where
  "shared_run ds p = fold (\<lambda>(packet, ip, now) (out, p). let (o', p') = datagram_received packet ip now p in (out @ o', p')) ds ([], p)"

definition as_listener :: "ssdp_single \<Rightarrow> ssdp_listener" where
  "as_listener s = \<lparr>sp_registry = [(sc_serial (ss_config s), ss_config s)], sp_limiter = ss_limiter s\<rparr>"

lemma single_datagram_shared: "datagram_received packet ip now (as_listener s) =
    (let (out, s') = single_datagram packet ip now s in (out, as_listener s'))"
  by (simp add: datagram_received_def single_datagram_def as_listener_def Let_def dict_values_def split: prod.split)

text \<open>The single responder is the shared one with one printer: same answers, same limits, same broadcasts.\<close>

lemma single_responder_is_shared:
  "shared_run ds (as_listener s) = (fst (single_run ds s), as_listener (snd (single_run ds s)))"
  "shared_notify_loop (replicate n (as_listener s)) = notify_loop (ss_config s) n"
proof -
  have "fold (\<lambda>(packet, ip, now) (out, p). let (o', p') = datagram_received packet ip now p in (out @ o', p')) ds (out, as_listener s) =
      (let (o', s') = fold (\<lambda>(packet, ip, now) (out, s). let (o', s') = single_datagram packet ip now s in (out @ o', s')) ds (out, s)
       in (o', as_listener s'))" for out
    by (induction ds arbitrary: out s) (auto simp: single_datagram_shared Let_def split: prod.split)
  from this [of "[]"] show "shared_run ds (as_listener s) = (fst (single_run ds s), as_listener (snd (single_run ds s)))"
    by (simp add: shared_run_def single_run_def case_prod_beta)
  show "shared_notify_loop (replicate n (as_listener s)) = notify_loop (ss_config s) n"
    by (induction n) (simp_all add: shared_notify_loop_def notify_loop_def notify_round_def as_listener_def dict_values_def)
qed

section \<open>The interface and the routed prefix\<close>

unbundle bit_operations_syntax

text \<open>The lines of \<open>/proc/net/route\<close>, the heading first; \<open>None\<close>: it cannot be read. The kernel writes numbers as plain hexadecimal digits.\<close>

fun default_route_iface :: "string list \<Rightarrow> string option" where
  "default_route_iface [] = None"
| "default_route_iface (raw # lines) =
     (let cols = words raw
      in if length cols < 8 then default_route_iface lines
         else (case hex_of_str (cols ! 1) of
             None \<Rightarrow> default_route_iface lines
           | Some dest \<Rightarrow> if dest = 0 then Some (cols ! 0) else default_route_iface lines))"

definition guess_iface :: "string list option \<Rightarrow> string option" where
  "guess_iface route = (case route of None \<Rightarrow> None | Some lines \<Rightarrow> default_route_iface (tl lines))"

definition claim_iface :: "string option \<Rightarrow> string list option \<Rightarrow> string option" where
  "claim_iface override route = (case override of Some i \<Rightarrow> if i \<noteq> [] then Some i else guess_iface route | None \<Rightarrow> guess_iface route)"

text \<open>\<open>ipaddress.ip_network\<close> with \<open>strict\<close>, as far as it accepts IPv4; everything else raises or is no IPv4 network, and is ignored.\<close>

definition net_mask :: "nat \<Rightarrow> addr" where
  "net_mask p = NOT (mask (32 - p))"

definition ip4 :: "string \<Rightarrow> addr option" where
  "ip4 s = (if is_ipv4 s then inet_aton s else None)"

definition netmask_of :: "string \<Rightarrow> addr option" where
  "netmask_of arg = (if arg \<noteq> [] \<and> list_all is_digit arg then (if nat_of_digits arg \<le> 32 then Some (net_mask (nat_of_digits arg)) else None)
     else (case ip4 arg of
         None \<Rightarrow> None
       | Some w \<Rightarrow> (case find (\<lambda>p. net_mask p = w) [0..<33] of
             Some p \<Rightarrow> Some w
           | None \<Rightarrow> map_option net_mask (find (\<lambda>p. net_mask p = NOT w) [0..<33]))))"

definition ip4_network :: "string \<Rightarrow> (addr \<times> addr) option" where
  "ip4_network s = (case split_on CHR ''/'' s of
      [a] \<Rightarrow> map_option (\<lambda>w. (w, net_mask 32)) (ip4 a)
    | [a, m] \<Rightarrow> (case (ip4 a, netmask_of m) of
          (Some w, Some msk) \<Rightarrow> if w AND NOT msk = 0 then Some (w, msk) else None
        | _ \<Rightarrow> None)
    | _ \<Rightarrow> None)"

definition set_routed_prefix :: "string option \<Rightarrow> (addr \<times> addr) option" where
  "set_routed_prefix pfx = (case pfx of None \<Rightarrow> None | Some s \<Rightarrow> if s = [] then None else ip4_network (strip s))"

definition in_routed :: "(string \<Rightarrow> bool) \<Rightarrow> (addr \<times> addr) option \<Rightarrow> string \<Rightarrow> bool option" where
  "in_routed ipv6 routed bind_ip = (case routed of
      None \<Rightarrow> Some False
    | Some (net, msk) \<Rightarrow> (case ip4 bind_ip of
          Some w \<Rightarrow> Some (w AND msk = net)
        | None \<Rightarrow> if ipv6 bind_ip then Some False else None))"

definition alloc_env_of :: "alloc_env \<Rightarrow> (string \<Rightarrow> bool) \<Rightarrow> string option \<Rightarrow> string option \<Rightarrow> string list option \<Rightarrow> alloc_env" where
  "alloc_env_of env ipv6 pfx override route = env\<lparr>ae_routed := in_routed ipv6 (set_routed_prefix pfx), ae_iface := claim_iface override route\<rparr>"

text \<open>The network holds exactly the addresses that agree with it on the leading bits.\<close>

lemma net_mask_bit: "p \<le> 32 \<Longrightarrow> n < 32 \<Longrightarrow> bit (net_mask p) n \<longleftrightarrow> 32 - p \<le> n"
  by (auto simp: net_mask_def bit_simps)

lemma in_network_bits:
  assumes "p \<le> 32" "w AND NOT (net_mask p) = 0"
  shows "a AND net_mask p = w \<longleftrightarrow> (\<forall>n<32. 32 - p \<le> n \<longrightarrow> bit a n = bit w n)"
proof -
  have low: "\<not> bit w n" if "n < 32 - p" for n
  proof
    assume "bit w n"
    then have "bit (w AND NOT (net_mask p)) n" using that assms(1) by (simp add: bit_simps net_mask_def)
    then show False using assms(2) by simp
  qed
  have "a AND net_mask p = w \<longleftrightarrow> (\<forall>n<32. bit (a AND net_mask p) n = bit w n)"
    by (rule iffI, simp, rule bit_word_eqI) simp
  also have "\<dots> \<longleftrightarrow> (\<forall>n<32. 32 - p \<le> n \<longrightarrow> bit a n = bit w n)"
    using low assms(1) by (auto simp: bit_simps net_mask_bit) (meson not_le)+
  finally show ?thesis .
qed

text \<open>An address inside the routed prefix is claimed on the loopback interface and nowhere else.\<close>

lemma routed_claims_on_loopback:
  assumes "set_routed_prefix pfx = Some (net, msk)" "ip4 (strip ip) = Some w" "w AND msk = net"
    and "ensure_claimed (alloc_env_of env ipv6 pfx override route) model ip a = (r, a')"
  shows "ar_iface r = Some ''lo'' \<and> map_of (al_bindings a') model = Some (strip ip, ''lo'')"
proof -
  have "ae_routed (alloc_env_of env ipv6 pfx override route) (strip ip) = Some True"
    using assms(1-3) by (simp add: alloc_env_of_def in_routed_def)
  with assms(4) show ?thesis
    by (auto simp: ensure_claimed_def Let_def case_prod_beta claim_ip_eqs save_def map_of_update split: option.splits)
qed

lemma routed_prefix_example:
  "set_routed_prefix (Some ''10.7.0.0/16'') = Some (0x0A070000, net_mask 16)" "set_routed_prefix (Some ''10.7.0.1/16'') = None"
proof -
  have ip: "ip4 ''10.7.0.0'' = Some 0x0A070000" "ip4 ''10.7.0.1'' = Some 0x0A070001"
    by (simp_all add: ip4_def is_ipv4_def inet_aton_def octet_def octet_ok_def is_digit_def nat_of_digits_def digit_val_def)
  have "netmask_of ''16'' = Some (net_mask 16)" by (simp add: netmask_of_def is_digit_def nat_of_digits_def digit_val_def)
  moreover have "strip ''10.7.0.0/16'' = ''10.7.0.0/16''" "strip ''10.7.0.1/16'' = ''10.7.0.1/16''"
    by (simp_all add: strip_def rstrip_by_def lstrip_by_def is_space_def)
  moreover have "(0x0A070000 :: addr) AND NOT (net_mask 16) = 0" "(0x0A070001 :: addr) AND NOT (net_mask 16) = 1"
    by (simp_all add: net_mask_def mask_eq_exp_minus_1)
  ultimately show "set_routed_prefix (Some ''10.7.0.0/16'') = Some (0x0A070000, net_mask 16)" "set_routed_prefix (Some ''10.7.0.1/16'') = None"
    by (simp_all add: set_routed_prefix_def ip4_network_def ip)
qed

end
