(* ===== verification/JobLife.thy ===== *)
theory JobLife
  imports Heartbeat
begin

text \<open>
  The life of a captured job across the whole process (\<open>run\<close> in \<open>makeros_hub/agent.py\<close>): captures arriving between beats, beats of
  any kind, exits that the service manager follows with a new process, and the process being killed at any such point. What a new process
  finds is the directory of the outbox and the addresses on disk; the queue and everything else start empty. The log of what was posted is
  kept for the statements.
\<close>

section \<open>Processes in sequence\<close>

definition reboot :: "agent \<Rightarrow> agent" where
  "reboot a = new_agent (ag_interval a) ((ag_alloc a)\<lparr>al_bindings := al_file (ag_alloc a)\<rparr>)
     ((ag_subs a)\<lparr>sq_jobs := [], sq_dropped := 0, sq_recent := []\<rparr>)"

datatype life_event = Boot world | Beat world | Capture_job bool bool captured_job | Killed

definition life_step :: "life_event \<Rightarrow> agent \<Rightarrow> agent" where
  "life_step e a = (case e of
      Boot w \<Rightarrow> (case pull_and_note w a of (Goes_on, a1) \<Rightarrow> a1 | (_, a1) \<Rightarrow> reboot a1)
    | Beat w \<Rightarrow> (case beat w a of
          (Goes_on, _, a1) \<Rightarrow> a1
        | (Crashes, _, a1) \<Rightarrow> reboot (shutdown w a1)
        | (Restarts, _, a1) \<Rightarrow> reboot a1)
    | Capture_job io_outbox io_spool job \<Rightarrow> a\<lparr>ag_subs := on_capture io_outbox io_spool job (ag_subs a)\<rparr>
    | Killed \<Rightarrow> reboot a)"

definition run_life :: "life_event list \<Rightarrow> agent \<Rightarrow> agent" where
  "run_life es a = fold life_step es a"

section \<open>What stays on disk\<close>

text \<open>Times are kept as the text that \<open>isoformat\<close> gives; reading such a text gives it again.\<close>

definition iso_normal :: "(string \<Rightarrow> string option) \<Rightarrow> string \<Rightarrow> bool" where
  "iso_normal isof t \<longleftrightarrow> \<not> endswith ''Z'' t \<and> isof t = Some t"

definition iso_law :: "(string \<Rightarrow> string option) \<Rightarrow> bool" where
  "iso_law isof \<longleftrightarrow> (\<forall>t x. isof t = Some x \<longrightarrow> iso_normal isof x)"

definition job_ok :: "(string \<Rightarrow> string option) \<Rightarrow> captured_job \<Rightarrow> bool" where
  "job_ok isof job \<longleftrightarrow> good_id job \<and> 0 \<le> cj_attempts job \<and> iso_normal isof (cj_submitted_at job)"

text \<open>The content of a record that the next process loads, with a bound on its attempts.\<close>

definition record_of :: "(string \<Rightarrow> string option) \<Rightarrow> string \<Rightarrow> nat \<Rightarrow> pyval option \<Rightarrow> bool" where
  "record_of isof u n c \<longleftrightarrow> (\<exists>job. job_ok isof job \<and> cj_uid job = u \<and> cj_attempts job \<le> int n \<and> c = Some (PDict (record_fields job u)))"

text \<open>The failed attempts to submit a job so far, and whether the cloud has answered one finally since a point of the log.\<close>

definition failures :: "string \<Rightarrow> submissions \<Rightarrow> nat" where
  "failures u s = length (filter (\<lambda>(job, resp). cj_uid job = u \<and> failed_attempt resp) (sq_posted s))"

definition answered_since :: "nat \<Rightarrow> string \<Rightarrow> submissions \<Rightarrow> bool" where
  "answered_since n u s \<longleftrightarrow> (\<exists>(job, resp) \<in> set (drop n (sq_posted s)). cj_uid job = u \<and> final_answer resp)"

text \<open>Every copy of a submission, queued or on disk, has at most the attempts that failed.\<close>

definition tracked :: "(string \<Rightarrow> string option) \<Rightarrow> string \<Rightarrow> submissions \<Rightarrow> bool" where
  "tracked isof u s \<longleftrightarrow> (\<forall>job \<in> set (sq_jobs s). job_ok isof job \<and> (cj_uid job = u \<longrightarrow> cj_attempts job \<le> int (failures u s))) \<and>
     (\<forall>c. map_of (sq_outbox s) (file_for u) = Some c \<longrightarrow> record_of isof u (failures u s) c)"

definition on_disk :: "string \<Rightarrow> submissions \<Rightarrow> bool" where
  "on_disk u s \<longleftrightarrow> map_of (sq_outbox s) (file_for u) \<noteq> None"

definition set_aside :: "(string \<Rightarrow> string option) \<Rightarrow> string \<Rightarrow> outbox \<Rightarrow> bool" where
  "set_aside isof u d \<longleftrightarrow> (\<exists>c n. map_of d (file_for u @ ''.corrupt'') = Some c \<and> record_of isof u n c)"

text \<open>Safe: its record is on disk; or set aside, if reading it was refused once; or it was answered finally; or it was given up.\<close>

definition safe :: "bool \<Rightarrow> nat \<Rightarrow> (string \<Rightarrow> string option) \<Rightarrow> string \<Rightarrow> submissions \<Rightarrow> bool" where
  "safe refused n isof u s \<longleftrightarrow> on_disk u s \<or> (refused \<and> set_aside isof u (sq_outbox s)) \<or> answered_since n u s \<or>
     VP_SUBMISSION_MAX_ATTEMPTS \<le> int (failures u s)"

definition guarded :: "bool \<Rightarrow> nat option \<Rightarrow> (string \<Rightarrow> string option) \<Rightarrow> string \<Rightarrow> submissions \<Rightarrow> bool" where
  "guarded refused n isof u s \<longleftrightarrow> tracked isof u s \<and> (case n of None \<Rightarrow> True | Some k \<Rightarrow> safe refused k isof u s)"

lemma job_ok_good: "oe_iso env = isof \<Longrightarrow> job_ok isof job \<longleftrightarrow> good_job env job"
  by (auto simp: job_ok_def good_job_def good_id_def iso_normal_def)

definition env_for :: "(string \<Rightarrow> string option) \<Rightarrow> outbox_env" where
  "env_for isof = \<lparr>oe_rep = (\<lambda>_. []), oe_iso = isof, oe_now = [], oe_new_uid = [], oe_reads = (\<lambda>_. True), oe_moves = (\<lambda>_. True)\<rparr>"

lemma job_ok_env: "job_ok isof job \<longleftrightarrow> good_job (env_for isof) job"
  by (rule job_ok_good) (simp add: env_for_def)

lemma record_of_mono: "record_of isof u n c \<Longrightarrow> n \<le> m \<Longrightarrow> record_of isof u m c"
  by (force simp: record_of_def)

text \<open>What posting adds to the log.\<close>

lemma failures_post: "failures u (s\<lparr>sq_jobs := q, sq_posted := sq_posted s @ [(job, resp)]\<rparr>) =
    failures u s + (if cj_uid job = u \<and> failed_attempt resp then 1 else 0)"
  by (simp add: failures_def)

lemma answered_post: "answered_since n u s \<Longrightarrow> answered_since n u (s\<lparr>sq_jobs := q, sq_posted := sq_posted s @ [(job, resp)]\<rparr>)"
  "n \<le> length (sq_posted s) \<Longrightarrow> cj_uid job = u \<Longrightarrow> final_answer resp \<Longrightarrow>
    answered_since n u (s\<lparr>sq_jobs := q, sq_posted := sq_posted s @ [(job, resp)]\<rparr>)"
  by (auto simp: answered_since_def)

text \<open>Only the log, the queue and two files matter.\<close>

lemma guarded_cong:
  assumes "sq_posted t = sq_posted s" "set (sq_jobs t) \<subseteq> set (sq_jobs s)"
    "map_of (sq_outbox t) (file_for u) = map_of (sq_outbox s) (file_for u)"
    "map_of (sq_outbox t) (file_for u @ ''.corrupt'') = map_of (sq_outbox s) (file_for u @ ''.corrupt'')"
    and "guarded refused n isof u s"
  shows "guarded refused n isof u t"
proof -
  have f: "failures u t = failures u s" "answered_since k u t = answered_since k u s" for k
    using assms(1) by (simp_all add: failures_def answered_since_def)
  show ?thesis
    using assms(2-5) f unfolding guarded_def tracked_def safe_def on_disk_def set_aside_def by (auto split: option.splits)
qed

lemma corrupt_other: "file_for u @ ''.corrupt'' \<noteq> file_for v" "file_for u @ ''.corrupt'' \<noteq> tmp_for v"
proof -
  show "file_for u @ ''.corrupt'' \<noteq> file_for v" using file_for_json [of v] corrupt_not_json [of "file_for u"] by metis
  have "last (file_for u @ ''.corrupt'') \<noteq> last (tmp_for v)" by (simp add: tmp_for_def)
  then show "file_for u @ ''.corrupt'' \<noteq> tmp_for v" by metis
qed

lemma guarded_enqueue:
  assumes "guarded refused n isof u s" "job_ok isof job" "cj_uid job = u \<longrightarrow> cj_attempts job \<le> int (failures u s)"
  shows "guarded refused n isof u (enqueue_job job s)"
proof -
  have "set (sq_jobs (enqueue_job job s)) \<subseteq> insert job (set (sq_jobs s))"
    by (cases "sq_jobs s") (auto simp: enqueue_job_def enqueue_def Let_def split: if_splits)
  moreover have "failures u (enqueue_job job s) = failures u s" "answered_since k u (enqueue_job job s) = answered_since k u s" for k
    by (simp_all add: failures_def answered_since_def)
  ultimately show ?thesis
    using assms by (auto simp: guarded_def tracked_def safe_def on_disk_def split: option.splits)
qed

section \<open>Every operation on the submissions keeps a job safe\<close>

lemma persist_guarded:
  assumes p: "outbox_persist io job s = Inr s'" and g: "guarded refused n isof u s" and j: "job_ok isof job"
    and a: "cj_uid job = u \<longrightarrow> cj_attempts job \<le> int (failures u s)"
  shows "guarded refused n isof u s' \<and> failures u s' = failures u s \<and> sq_jobs s' = sq_jobs s \<and> sq_posted s' = sq_posted s \<and>
    (cj_uid job = u \<longrightarrow> on_disk u s')"
proof -
  obtain d' where s': "s' = s\<lparr>sq_outbox := d'\<rparr>" "persist job (sq_outbox s) = Inr d'"
    using p by (auto simp: outbox_persist_def res_bind_eq_Inr split: if_splits)
  then have d': "map_of d' = (map_of (sq_outbox s))(tmp_for (cj_uid job) := None,
     file_for (cj_uid job) \<mapsto> Some (PDict (record_fields job (cj_uid job))))"
    using persist_good [OF j [unfolded job_ok_env], of "sq_outbox s"] by auto
  have f: "failures u s' = failures u s" "answered_since k u s' = answered_since k u s" for k
    by (simp_all add: s' failures_def answered_since_def)
  have "tracked isof u s'"
    using g d' f j a by (auto simp: s'(1) guarded_def tracked_def record_of_def)
  moreover have "safe refused k isof u s'" if "safe refused k isof u s" for k
    using that d' f corrupt_other [of u "cj_uid job"] by (auto simp: s'(1) safe_def on_disk_def set_aside_def)
  moreover have "cj_uid job = u \<longrightarrow> on_disk u s'" using d' by (simp add: s'(1) on_disk_def)
  ultimately show ?thesis using g f by (auto simp: guarded_def s'(1) split: option.splits)
qed

lemma remove_guarded:
  assumes r: "outbox_remove io v s = Inr s'" and g: "guarded refused n isof u s"
    and why: "\<And>k. v = u \<Longrightarrow> n = Some k \<Longrightarrow> answered_since k u s \<or> VP_SUBMISSION_MAX_ATTEMPTS \<le> int (failures u s)"
  shows "guarded refused n isof u s'"
proof -
  obtain d' where s': "s' = s\<lparr>sq_outbox := d'\<rparr>" "map_of d' = (map_of (sq_outbox s))(file_for v := None)"
    using r by (auto simp: outbox_remove_def remove_job_def res_bind_eq_Inr validate_uid_ok map_of_delete fun_eq_iff split: if_splits)
  have f: "failures u s' = failures u s" "answered_since k u s' = answered_since k u s" for k
    by (simp_all add: s' failures_def answered_since_def)
  show ?thesis
    using g why f s'(2) corrupt_other(1) [of u v]
    by (auto simp: s'(1) guarded_def tracked_def safe_def on_disk_def set_aside_def split: option.splits)
qed

lemma retry_guarded:
  assumes r: "retry_or_deadletter io VP_SUBMISSION_MAX_ATTEMPTS job s = Inr s'" and g: "guarded refused n isof u s"
    and j: "job_ok isof job" and a: "cj_uid job = u \<longrightarrow> cj_attempts job + 1 \<le> int (failures u s)"
  shows "guarded refused n isof u s'"
proof (cases "VP_SUBMISSION_MAX_ATTEMPTS \<le> cj_attempts job + 1")
  case True
  with r have "outbox_remove io (cj_uid job) s = Inr s'" by (simp add: retry_or_deadletter_def VP_SUBMISSION_MAX_ATTEMPTS_def)
  then show ?thesis using g True a by (auto intro: remove_guarded)
next
  case False
  let ?j = "job\<lparr>cj_attempts := cj_attempts job + 1\<rparr>"
  from False r obtain s1 where s1: "outbox_persist io ?j s = Inr s1" "s' = enqueue_job ?j s1"
    by (auto simp: retry_or_deadletter_def VP_SUBMISSION_MAX_ATTEMPTS_def res_bind_eq_Inr Let_def)
  have "job_ok isof ?j" using j by (simp add: job_ok_def good_id_def)
  with persist_guarded [OF s1(1) g this] a show ?thesis unfolding s1(2) by (intro guarded_enqueue) simp_all
qed

text \<open>One round of the drain: the head of the queue is posted, which is logged, and settled.\<close>

lemma taken_guarded:
  assumes "guarded refused n isof u s" "sq_jobs s = job # q"
  shows "guarded refused n isof u (s\<lparr>sq_jobs := q, sq_posted := sq_posted s @ [(job, resp)]\<rparr>)"
proof -
  let ?s1 = "s\<lparr>sq_jobs := q, sq_posted := sq_posted s @ [(job, resp)]\<rparr>"
  have f: "failures u s \<le> failures u ?s1" by (simp add: failures_post)
  have "tracked isof u ?s1"
    using assms f record_of_mono [of isof u "failures u s" _ "failures u ?s1"] by (fastforce simp: guarded_def tracked_def)
  moreover have "safe refused k isof u ?s1" if "safe refused k isof u s" for k
    using that f answered_post(1) [where n = k and u = u and s = s and q = q and job = job and resp = resp] by (auto simp: safe_def on_disk_def)
  ultimately show ?thesis using assms(1) by (auto simp: guarded_def split: option.splits)
qed

lemma settle_guarded:
  assumes g: "guarded refused n isof u s" and q: "sq_jobs s = job # q" and k: "\<And>k. n = Some k \<Longrightarrow> k \<le> length (sq_posted s)"
    and r: "settle io resp job (s\<lparr>sq_jobs := q, sq_posted := sq_posted s @ [(job, resp)]\<rparr>) = Inr (m, s')"
  shows "guarded refused n isof u s'"
proof -
  let ?s1 = "s\<lparr>sq_jobs := q, sq_posted := sq_posted s @ [(job, resp)]\<rparr>"
  have g1: "guarded refused n isof u ?s1" by (rule taken_guarded [OF g q])
  have j: "job_ok isof job" "cj_uid job = u \<longrightarrow> cj_attempts job \<le> int (failures u s)" using g q by (auto simp: guarded_def tracked_def)
  consider (final) "outbox_remove io (cj_uid job) ?s1 = Inr s'" "final_answer resp" | (outage) "s' = enqueue_job job ?s1"
    | (failed) "retry_or_deadletter io VP_SUBMISSION_MAX_ATTEMPTS job ?s1 = Inr s'" "failed_attempt resp"
  proof (cases resp)
    case Transport
    then show ?thesis using r that(3) by (auto simp: settle_def failed_attempt_def res_bind_eq_Inr)
  next
    case Escapes
    then show ?thesis using r by (simp add: settle_def)
  next
    case (Response status body)
    then show ?thesis using r that by (auto simp: settle_def failed_attempt_def final_answer_def res_bind_eq_Inr split: if_splits)
  qed
  then show ?thesis
  proof cases
    case final
    then show ?thesis using answered_post(2) [where s = s and job = job and u = u and resp = resp and q = q] k by (blast intro: remove_guarded [OF final(1) g1])
  next
    case outage
    then show ?thesis using guarded_enqueue [OF g1 j(1)] j(2) by (auto simp: failures_post)
  next
    case failed
    then show ?thesis using retry_guarded [OF failed(1) g1 j(1)] j(2) failed(2) by (auto simp: failures_post)
  qed
qed

lemma settle_log: "settle io resp job s = Inr (m, s') \<Longrightarrow> sq_posted s' = sq_posted s"
  by (auto simp: settle_def retry_or_deadletter_def outbox_persist_def outbox_remove_def res_bind_eq_Inr Let_def
      split: response.splits if_splits)

lemma drain_loop_guarded:
  assumes "guarded refused n isof u s" "\<And>k. n = Some k \<Longrightarrow> k \<le> length (sq_posted s)"
  shows "guarded refused n isof u (snd (drain_loop i ts c s)) \<and> length (sq_posted s) \<le> length (sq_posted (snd (drain_loop i ts c s)))"
  using assms
proof (induction i ts c s rule: drain_loop.induct)
  case (3 i t ts c s)
  show ?case
  proof (cases "VP_DRAIN_BUDGET_SEC < tn_elapsed t \<or> sq_jobs s = []")
    case True
    then show ?thesis using "3.prems" by auto
  next
    case False
    then obtain job q where q: "sq_jobs s = job # q" by (cases "sq_jobs s") auto
    let ?s1 = "s\<lparr>sq_jobs := q, sq_posted := sq_posted s @ [(job, tn_response t)]\<rparr>"
    show ?thesis
    proof (cases "settle (tn_io t) (tn_response t) job ?s1")
      case (Inl e)
      then show ?thesis using False q taken_guarded [OF "3.prems"(1) q] by simp
    next
      case (Inr r)
      obtain m s' where r: "r = (m, s')" by (cases r)
      have s': "guarded refused n isof u s'" using settle_guarded [OF "3.prems"(1) q "3.prems"(2) Inr [unfolded r]] .
      have log: "sq_posted s' = sq_posted s @ [(job, tn_response t)]" using settle_log [OF Inr [unfolded r]] by simp
      have len: "\<And>k. n = Some k \<Longrightarrow> k \<le> length (sq_posted s')" using "3.prems"(2) log by fastforce
      from "3.IH" [OF _ q refl Inr [unfolded r] refl s' len] False q Inr r log show ?thesis by simp
    qed
  qed
qed simp_all

lemma drain_guarded:
  assumes "guarded refused n isof u s" "\<And>k. n = Some k \<Longrightarrow> k \<le> length (sq_posted s)"
  shows "guarded refused n isof u (snd (drain_submissions model m turns s)) \<and>
    length (sq_posted s) \<le> length (sq_posted (snd (drain_submissions model m turns s)))"
proof -
  have "guarded refused n isof u (snd (drop_submissions None s))"
    using assms(1) by (intro guarded_cong [OF _ _ _ _ assms(1)]) (simp_all add: drop_submissions_def)
  moreover have "sq_posted (snd (drop_submissions None s)) = sq_posted s" by (simp add: drop_submissions_def)
  ultimately show ?thesis using drain_loop_guarded [OF assms] by (simp add: drain_submissions_def)
qed

section \<open>Reading the records and capturing\<close>

lemma from_record_ok:
  assumes "from_record env r = Inr job" "oe_iso env = isof" "iso_law isof" "iso_normal isof (oe_now env)"
  shows "0 \<le> cj_attempts job \<and> iso_normal isof (cj_submitted_at job)"
proof (cases r)
  case (PDict d)
  have "iso_normal isof (datetime_field env d names)" for names
    using assms(2-4) by (auto simp: datetime_field_def iso_law_def Let_def split: pyval.split option.split)
  with assms(1) PDict show ?thesis by (auto simp: from_record_def res_bind_eq_Inr)
qed (use assms(1) in \<open>simp_all add: from_record_def\<close>)

lemma loaded_job_ok:
  assumes "load_file env name content = Inr job" "oe_iso env = isof" "iso_law isof" "iso_normal isof (oe_now env)"
  shows "job_ok isof job \<and> cj_uid job = stem name"
proof -
  obtain u where u: "validate_submission_uid (stem name) = Inr u" using assms(1) by (auto simp: load_file_def res_bind_eq_Inr)
  then obtain r where r: "from_record env r = Inr job" "cj_uid job = u"
    using assms(1) by (auto simp: load_file_def read_record_def res_bind_eq_Inr Let_def split: option.splits if_splits)
  from u have "validate_submission_uid u = Inr u" "u = stem name" by (simp_all add: validate_uid_ok)
  with r from_record_ok [OF r(1) assms(2-4)] show ?thesis by (simp add: job_ok_def good_id_def)
qed

lemma record_of_loads:
  assumes "record_of isof u n c" "oe_iso env = isof"
  shows "\<exists>job. record_job env (file_for u) c = Inr job \<and> cj_uid job = u \<and> cj_attempts job \<le> int n"
proof -
  obtain job where job: "job_ok isof job" "cj_uid job = u" "cj_attempts job \<le> int n" "c = Some (PDict (record_fields job u))"
    using assms(1) by (auto simp: record_of_def)
  with record_job_good [of env job] assms(2) show ?thesis by (auto simp: job_ok_good)
qed

lemma quarantine_other:
  assumes "file_for u \<noteq> name" "endswith ''.json'' name"
  shows "map_of (quarantine env name d) (file_for u) = map_of d (file_for u) \<and>
    map_of (quarantine env name d) (file_for u @ ''.corrupt'') = map_of d (file_for u @ ''.corrupt'')"
proof -
  have "file_for u \<noteq> name @ ''.corrupt''" using file_for_json [of u] corrupt_not_json [of name] by metis
  moreover have "file_for u @ ''.corrupt'' \<noteq> name" using assms(2) corrupt_not_json [of "file_for u"] by metis
  ultimately show ?thesis using assms(1) by (simp add: map_of_quarantine)
qed

text \<open>What is on disk about a submission: a good record, and whether one is there or was set aside.\<close>

definition disk_ok :: "(string \<Rightarrow> string option) \<Rightarrow> string \<Rightarrow> nat \<Rightarrow> outbox \<Rightarrow> bool" where
  "disk_ok isof u n d \<longleftrightarrow> (\<forall>c. map_of d (file_for u) = Some c \<longrightarrow> record_of isof u n c)"

definition disk_safe :: "bool \<Rightarrow> (string \<Rightarrow> string option) \<Rightarrow> string \<Rightarrow> outbox \<Rightarrow> bool" where
  "disk_safe refused isof u d \<longleftrightarrow> map_of d (file_for u) \<noteq> None \<or> refused \<and> set_aside isof u d"

lemma quarantine_disk:
  assumes ok: "disk_ok isof u n d" and name: "endswith ''.json'' name" and iso: "oe_iso env = isof"
    and refused: "\<not> oe_reads env (file_for u) \<longrightarrow> refused" and e: "load_file env name (get_or d name None) = Inl e"
  shows "disk_ok isof u n (quarantine env name d) \<and> (disk_safe refused isof u d \<longrightarrow> disk_safe refused isof u (quarantine env name d))"
proof (cases "file_for u = name")
  case False
  with quarantine_other [OF False name, of env d] ok show ?thesis by (simp add: disk_ok_def disk_safe_def set_aside_def)
next
  case own: True
  show ?thesis
  proof (cases "map_of d name")
    case None
    then have "quarantine env name d = d" by (simp add: quarantine_def)
    with ok show ?thesis by simp
  next
    case (Some c)
    then have c: "record_of isof u n c" using ok own by (auto simp: disk_ok_def)
    have "\<not> oe_reads env name"
      using record_of_loads [OF c iso] e Some own by (auto simp: get_or_def load_file_reads)
    then have refused using refused own by simp
    moreover have "map_of (quarantine env name d) (file_for u) = (if oe_moves env name then None else Some c)"
      "oe_moves env name \<Longrightarrow> map_of (quarantine env name d) (file_for u @ ''.corrupt'') = Some c"
      using Some corrupt_other(1) [of u u] by (auto simp: quarantine_def own [symmetric] map_of_update map_of_delete)
    ultimately show ?thesis using c by (auto simp: disk_ok_def disk_safe_def set_aside_def)
  qed
qed

lemma load_loop_guarded:
  assumes env: "oe_iso env = isof" "iso_law isof" "iso_normal isof (oe_now env)" "\<not> oe_reads env (file_for u) \<longrightarrow> refused"
    and "disk_ok isof u n d" "\<forall>name \<in> set ns. endswith ''.json'' name"
  shows "(\<forall>job \<in> set (fst (load_loop env ns d)). job_ok isof job \<and> (cj_uid job = u \<longrightarrow> cj_attempts job \<le> int n)) \<and>
    disk_ok isof u n (snd (load_loop env ns d)) \<and> (disk_safe refused isof u d \<longrightarrow> disk_safe refused isof u (snd (load_loop env ns d)))"
  using assms(5,6)
proof (induction ns arbitrary: d)
  case (Cons name ns)
  have json: "endswith ''.json'' name" using Cons.prems by simp
  show ?case
  proof (cases "load_file env name (get_or d name None)")
    case (Inl e)
    with quarantine_disk [OF Cons.prems(1) json env(1,4) Inl] Cons.IH [of "quarantine env name d"] Cons.prems(2) show ?thesis by simp
  next
    case (Inr job)
    note ok = loaded_job_ok [OF Inr env(1-3)]
    have "cj_attempts job \<le> int n" if u: "cj_uid job = u"
    proof -
      have "name \<noteq> ''.json''"
        using Inr by (auto simp: load_file_def stem_def validate_submission_uid_def uid_char_def)
      then have name: "name = file_for u" using json_stem [OF json] ok u by simp
      have "map_of d name \<noteq> None"
      proof
        assume "map_of d name = None"
        with Inr show False by (auto simp: get_or_def load_file_def read_record_def res_bind_eq_Inr split: if_splits)
      qed
      then obtain c where c: "map_of d name = Some c" "record_of isof u n c" using Cons.prems(1) name by (auto simp: disk_ok_def)
      with record_of_loads [OF c(2) env(1)] Inr name show ?thesis by (auto simp: get_or_def load_file_Inr)
    qed
    with ok Cons.IH [of d] Cons.prems Inr show ?thesis by (simp add: case_prod_beta)
  qed
qed simp

lemma enqueue_all_guarded:
  "guarded refused n isof u s \<Longrightarrow> \<forall>job \<in> set jobs. job_ok isof job \<and> (cj_uid job = u \<longrightarrow> cj_attempts job \<le> int (failures u s)) \<Longrightarrow>
   guarded refused n isof u (fold enqueue_job jobs s) \<and> sq_posted (fold enqueue_job jobs s) = sq_posted s"
proof (induction jobs arbitrary: s)
  case (Cons job jobs)
  have "failures u (enqueue_job job s) = failures u s" by (simp add: failures_def)
  with Cons.IH [of "enqueue_job job s"] Cons.prems guarded_enqueue [OF Cons.prems(1), of job] show ?case by simp
qed simp

lemma rehydrate_guarded:
  assumes env: "oe_iso env = isof" "iso_law isof" "iso_normal isof (oe_now env)" "\<not> oe_reads env (file_for u) \<longrightarrow> refused"
    and g: "guarded refused n isof u s"
  shows "guarded refused n isof u (snd (rehydrate env s)) \<and> sq_posted (snd (rehydrate env s)) = sq_posted s"
proof -
  obtain jobs d where l: "load_all env (sq_outbox s) = (jobs, d)" by (cases "load_all env (sq_outbox s)")
  have "disk_ok isof u (failures u s) (sq_outbox s)" using g by (auto simp: guarded_def tracked_def disk_ok_def)
  from load_loop_guarded [OF env this, of "json_files (sq_outbox s)"]
  have d: "\<forall>job \<in> set jobs. job_ok isof job \<and> (cj_uid job = u \<longrightarrow> cj_attempts job \<le> int (failures u s))"
    "disk_ok isof u (failures u s) d" "disk_safe refused isof u (sq_outbox s) \<longrightarrow> disk_safe refused isof u d"
    using l by (auto simp: load_all_def json_files_def)
  let ?s = "s\<lparr>sq_outbox := d\<rparr>"
  have f: "failures u ?s = failures u s" "answered_since k u ?s = answered_since k u s" for k
    by (simp_all add: failures_def answered_since_def)
  have "guarded refused n isof u ?s"
    using g d(2,3) f by (auto simp: guarded_def tracked_def safe_def on_disk_def disk_ok_def disk_safe_def split: option.splits)
  from enqueue_all_guarded [OF this, of jobs] d(1) f show ?thesis by (simp add: rehydrate_def l)
qed

lemma capture_guarded:
  assumes j: "job_ok isof job" "cj_attempts job = 0" and g: "guarded refused n isof u s"
  shows "guarded refused n isof u (on_capture io1 io2 job s)" "sq_posted (on_capture io1 io2 job s) = sq_posted s"
    "io1 \<Longrightarrow> cj_uid job = u \<Longrightarrow> guarded refused (Some k) isof u (on_capture io1 io2 job s)"
proof -
  define s1 where "s1 = (case outbox_persist io1 job s of Inl e \<Rightarrow> s | Inr s' \<Rightarrow> s')"
  define s2 where "s2 = s1\<lparr>sq_recent := remember_recent 64 (cj_uid job) (sq_recent s1)\<rparr>"
  define s3 where "s3 = (case stage_spool_file io2 job s2 of Inl e \<Rightarrow> s2 | Inr (staged, s') \<Rightarrow> s')"
  have out: "on_capture io1 io2 job s = enqueue_job job s3" by (simp only: on_capture_def s3_def s2_def s1_def Let_def)
  have s3: "sq_outbox s3 = sq_outbox s1" "sq_jobs s3 = sq_jobs s1" "sq_posted s3 = sq_posted s1"
    by (auto simp: s3_def s2_def stage_spool_file_def res_bind_eq_Inr split: sum.splits if_splits)
  have a: "cj_uid job = u \<longrightarrow> cj_attempts job \<le> int (failures u t)" for t using j(2) by simp
  have s1: "guarded refused n isof u s1 \<and> sq_posted s1 = sq_posted s"
    using g persist_guarded [OF _ g j(1) a] by (auto simp: s1_def split: sum.split)
  have g3: "guarded refused m isof u s3" if "guarded refused m isof u s1" for m
    by (rule guarded_cong [OF _ _ _ _ that]) (simp_all add: s3)
  show "guarded refused n isof u (on_capture io1 io2 job s)"
    unfolding out by (rule guarded_enqueue [OF g3 j(1) a]) (use s1 in blast)
  show "sq_posted (on_capture io1 io2 job s) = sq_posted s" using s1 by (simp add: out s3)
  assume "io1" "cj_uid job = u"
  then obtain s' where p: "outbox_persist io1 job s = Inr s'"
    using outbox_ok(2) [of "env_for isof" job s] j(1) by (auto simp: job_ok_env)
  with persist_guarded [OF p g j(1) a] \<open>cj_uid job = u\<close> have "guarded refused (Some k) isof u s1"
    by (simp add: s1_def guarded_def safe_def)
  from guarded_enqueue [OF g3 [OF this] j(1) a] show "guarded refused (Some k) isof u (on_capture io1 io2 job s)" unfolding out .
qed

section \<open>The rest of a beat does not touch them\<close>

lemma subs_config:
  "ag_subs (agent_reconcile_vp w c a) = ag_subs a" "ag_subs (apply_virtual_printers w body a) = ag_subs a" "ag_subs (snd (apply_tailscale w v a)) = ag_subs a"
  by (auto simp: agent_reconcile_vp_def apply_virtual_printers_def apply_tailscale_def Let_def split: prod.splits option.splits)

lemma subs_pull: "ag_subs (snd (pull_config w a)) = ag_subs a"
  using subs_config(2,3)
  by (auto simp: pull_config_def Let_def case_prod_beta split: response.splits option.splits)

lemma subs_phases:
  "ag_subs (finish_prints fs a) = ag_subs a" "ag_subs (tail_phase w a) = ag_subs a" "ag_subs (vp_phase w a) = ag_subs a"
  "ag_subs (mirror_phase w a) = ag_subs a" "ag_subs (snd (confirm_sent w body jobs a)) = ag_subs a" "ag_subs (run_requests w body a) = ag_subs a"
  by (auto simp: finish_prints_def tail_phase_def vp_phase_def mirror_phase_def confirm_sent_def run_requests_def subs_config Let_def case_prod_beta
      split: option.splits sum.splits prod.splits)

definition world_ok :: "(string \<Rightarrow> string option) \<Rightarrow> world \<Rightarrow> bool" where
  "world_ok isof w \<longleftrightarrow> oe_iso (wd_outbox w) = isof \<and> iso_normal isof (oe_now (wd_outbox w))"

text \<open>One step of the life of an agent does not harm a submission: it stays guarded, and the log only grows.\<close>


definition agent_good :: "bool \<Rightarrow> nat option \<Rightarrow> (string \<Rightarrow> string option) \<Rightarrow> string \<Rightarrow> agent \<Rightarrow> bool" where
  "agent_good refused n isof u a \<longleftrightarrow> guarded refused n isof u (ag_subs a) \<and> (\<forall>k. n = Some k \<longrightarrow> k \<le> length (sq_posted (ag_subs a)))"

definition world_good :: "bool \<Rightarrow> (string \<Rightarrow> string option) \<Rightarrow> string \<Rightarrow> world \<Rightarrow> bool" where
  "world_good refused isof u w \<longleftrightarrow> iso_law isof \<and> world_ok isof w \<and> (\<not> oe_reads (wd_outbox w) (file_for u) \<longrightarrow> refused)"

lemma good_same: "ag_subs b = ag_subs a \<Longrightarrow> agent_good refused n isof u b = agent_good refused n isof u a"
  by (simp add: agent_good_def)

lemma rehydrate_once_good: "world_good refused isof u w \<Longrightarrow> agent_good refused n isof u a \<Longrightarrow> agent_good refused n isof u (rehydrate_once w a)"
  using rehydrate_guarded [of "wd_outbox w" isof u refused n "ag_subs a"]
  by (simp add: rehydrate_once_def agent_good_def world_good_def world_ok_def)

lemma before_post_good:
  assumes "world_good refused isof u w" "agent_good refused n isof u a"
  shows "agent_good refused n isof u (before_post w a)"
proof -
  have "agent_good refused n isof u (vp_phase w (tail_phase w (finish_prints (wd_finished w) a)))" using assms(2) by (simp add: agent_good_def subs_phases)
  from rehydrate_once_good [OF assms(1) this] show ?thesis by (simp add: before_post_def agent_good_def subs_phases)
qed

lemma pull_and_note_good:
  assumes "world_good refused isof u w" "agent_good refused n isof u a"
  shows "agent_good refused n isof u (snd (pull_and_note w a))"
proof -
  obtain r a' where p: "pull_config w a = (r, a')" by (cases "pull_config w a")
  then have same: "ag_subs a' = ag_subs a" using subs_pull [of w a] by simp
  then have "agent_good refused n isof u (a'\<lparr>ag_status := s\<rparr>)" "agent_good refused n isof u a'" for s using assms(2) by (simp_all add: agent_good_def)
  then have "agent_good refused n isof u (rehydrate_once w (a'\<lparr>ag_status := s\<rparr>))" "agent_good refused n isof u (rehydrate_once w a')" for s
    by (blast intro: rehydrate_once_good [OF assms(1)])+
  with assms(2) good_same [OF same] show ?thesis by (simp add: pull_and_note_def p split: pull_result.split)
qed

lemma accepted_good:
  assumes "world_good refused isof u w" "agent_good refused n isof u a"
  shows "agent_good refused n isof u (snd (accepted w body jobs a))"
proof -
  obtain f a1 where c: "confirm_sent w body jobs a = (f, a1)" by (cases "confirm_sent w body jobs a")
  then have a1: "agent_good refused n isof u a1" using assms(2) subs_phases(5) [of w body jobs a] by (simp add: agent_good_def)
  have run: "agent_good refused n isof u (run_requests w body b) = agent_good refused n isof u b" for b by (rule good_same) (simp add: subs_phases)
  from pull_and_note_good [OF assms(1) a1] a1 run show ?thesis
    by (auto simp: accepted_def c Let_def case_prod_beta split: pyval.split)
qed

lemma drain_agent_good: "agent_good refused n isof u a \<Longrightarrow> agent_good refused n isof u (drain w a)" "agent_good refused n isof u a \<Longrightarrow> agent_good refused n isof u (shutdown w a)"
  using drain_guarded [of refused n isof u "ag_subs a"] by (fastforce simp: agent_good_def drain_def shutdown_def)+

lemma beat_good:
  assumes "world_good refused isof u w" "agent_good refused n isof u a"
  shows "agent_good refused n isof u (snd (snd (beat w a)))"
proof -
  define b where "b = finish_prints (wd_late w) (before_post w a)"
  have b: "agent_good refused n isof u b" using before_post_good [OF assms] by (simp add: b_def agent_good_def subs_phases)
  then have t: "agent_good refused n isof u (b\<lparr>ag_timer := x\<rparr>)" for x by (simp add: agent_good_def)
  show ?thesis
    using b t [THEN accepted_good [OF assms(1)]] t [THEN drain_agent_good(1)] drain_agent_good(1)
    unfolding beat_def Let_def b_def [symmetric]
    by (auto simp: case_prod_beta split: response.split intro: drain_agent_good(1))
qed

lemma reboot_good: "agent_good refused n isof u a \<Longrightarrow> agent_good refused n isof u (reboot a)"
proof -
  assume a: "agent_good refused n isof u a"
  have "guarded refused n isof u (ag_subs (reboot a))"
    by (rule guarded_cong [of _ "ag_subs a"]) (use a in \<open>simp_all add: reboot_def new_agent_def agent_good_def\<close>)
  with a show ?thesis by (simp add: agent_good_def reboot_def new_agent_def)
qed

definition event_good :: "bool \<Rightarrow> (string \<Rightarrow> string option) \<Rightarrow> string \<Rightarrow> life_event \<Rightarrow> bool" where
  "event_good refused isof u e \<longleftrightarrow> (case e of Boot w \<Rightarrow> world_good refused isof u w | Beat w \<Rightarrow> world_good refused isof u w
     | Capture_job io1 io2 job \<Rightarrow> job_ok isof job \<and> cj_attempts job = 0 | Killed \<Rightarrow> True)"

lemma life_step_good:
  assumes "event_good refused isof u e" "agent_good refused n isof u a"
  shows "agent_good refused n isof u (life_step e a)"
proof (cases e)
  case (Boot w)
  then show ?thesis using pull_and_note_good [OF _ assms(2), of w] assms(1) reboot_good
    by (auto simp: life_step_def event_good_def split: prod.split fate.split)
next
  case (Beat w)
  then show ?thesis using beat_good [OF _ assms(2), of w] assms(1) reboot_good drain_agent_good(2)
    by (auto simp: life_step_def event_good_def split: prod.split fate.split)
next
  case (Capture_job io1 io2 job)
  then show ?thesis using capture_guarded(1,2) [of isof job refused n u "ag_subs a"] assms
    by (simp add: life_step_def event_good_def agent_good_def)
next
  case Killed
  then show ?thesis using reboot_good [OF assms(2)] by (simp add: life_step_def)
qed

lemma run_life_good: "list_all (event_good refused isof u) es \<Longrightarrow> agent_good refused n isof u a \<Longrightarrow> agent_good refused n isof u (run_life es a)"
  by (induction es arbitrary: a) (simp_all add: run_life_def life_step_good)


text \<open>What is known of the events: times read back as they are, and a captured job has a valid id and no attempts yet. Whether
  the file system refuses to read the record of a submission:\<close>

definition event_ok :: "(string \<Rightarrow> string option) \<Rightarrow> life_event \<Rightarrow> bool" where
  "event_ok isof e = (case e of Boot w \<Rightarrow> world_ok isof w | Beat w \<Rightarrow> world_ok isof w
     | Capture_job io1 io2 job \<Rightarrow> job_ok isof job \<and> cj_attempts job = 0 | Killed \<Rightarrow> True)"

definition read_refused :: "string \<Rightarrow> life_event \<Rightarrow> bool" where
  "read_refused u e = (case e of Boot w \<Rightarrow> \<not> oe_reads (wd_outbox w) (file_for u) | Beat w \<Rightarrow> \<not> oe_reads (wd_outbox w) (file_for u) | _ \<Rightarrow> False)"


section \<open>A new process takes the records up again\<close>

lemma enqueue_all_room:
  "length (sq_jobs s) + length jobs \<le> VP_SUBMISSION_QUEUE_MAX \<Longrightarrow> sq_jobs (fold enqueue_job jobs s) = sq_jobs s @ jobs"
  by (induction jobs arbitrary: s) (simp_all add: enqueue_job_room)

lemma restart_requeues:
  assumes "wf_dict (sq_outbox s)" "sq_jobs s = []" "map_of (sq_outbox s) (file_for u) = Some c" "record_of (oe_iso env) u n c"
    "\<forall>name. oe_reads env name" "length (fst (load_all env (sq_outbox s))) \<le> VP_SUBMISSION_QUEUE_MAX"
  shows "\<exists>job \<in> set (sq_jobs (snd (rehydrate env s))). cj_uid job = u"
proof -
  obtain job where job: "stored env (sq_outbox s) u = Some job" "cj_uid job = u"
    using record_of_loads [OF assms(4) refl] assms(3) by (auto simp: stored_def)
  then have "job \<in> set (fst (load_all env (sq_outbox s)))" using load_all_stored [OF _ assms(1)] assms(5) by (force simp: ran_def)
  then show ?thesis using assms(2,6) enqueue_all_room [of "s\<lparr>sq_outbox := snd (load_all env (sq_outbox s))\<rparr>" "fst (load_all env (sq_outbox s))"]
      job(2) by (auto simp: rehydrate_def case_prod_beta)
qed

text \<open>But only once per process: while no virtual printer is live, a drain empties the queue, and what was dropped is not taken up
  again when a printer comes back; the records wait in the outbox for the next restart.\<close>

lemma dropped_until_restart:
  assumes "fc_model (ag_facade a) = None" "ag_rehydrated a"
  shows "sq_jobs (ag_subs (drain w a)) = []" "sq_outbox (ag_subs (drain w a)) = sq_outbox (ag_subs a)"
    "rehydrate_once w' ((drain w a)\<lparr>ag_facade := f\<rparr>) = (drain w a)\<lparr>ag_facade := f\<rparr>"
  using assms by (simp_all add: drain_def drain_submissions_def drop_submissions_def rehydrate_once_def)

section \<open>A concrete life\<close>

definition demo_iso :: "string \<Rightarrow> string option" where
  "demo_iso t = (if endswith ''Z'' t then None else Some t)"

definition demo_life_world :: world where
  "demo_life_world = (sample_world Transport [])\<lparr>wd_outbox := \<lparr>oe_rep = (\<lambda>_. []), oe_iso = demo_iso, oe_now = ''2026-01-01'', oe_new_uid = ''u'',
    oe_reads = (\<lambda>_. True), oe_moves = (\<lambda>_. True)\<rparr>\<rparr>"

lemma demo_iso_law: "iso_law demo_iso"
  by (auto simp: iso_law_def iso_normal_def demo_iso_def split: if_splits)

lemma demo_life_ok: "event_ok demo_iso (Boot demo_life_world)" "event_ok demo_iso (Beat demo_life_world)" "event_ok demo_iso (Capture_job True False example_job)"
proof -
  have "iso_normal demo_iso ''2026-01-01''" by code_simp
  then show "event_ok demo_iso (Boot demo_life_world)" "event_ok demo_iso (Beat demo_life_world)"
    by (simp_all add: event_ok_def world_ok_def demo_life_world_def)
  show "event_ok demo_iso (Capture_job True False example_job)"
    unfolding event_ok_def life_event.case job_ok_def good_id_def iso_normal_def by code_simp
qed


end
