(* ===== verification/Spec2Isabelle.thy ===== *)
theory Spec2Isabelle
  imports VpAuth MqttCodec Capture MqttBroker Outbox Submissions Ftp Net IpAllocator Jobs QueueProgress Camera
    FailureWatch Detector Update BambuParse PoolRanking LivePool Klipper Bambu Manager VpConfig VpManager Ssdp
    Diagnostics Tailscale Probes Heartbeat Http Multipart Ingest Report
    Discovery LanCamera Sensing VpRuntime Cert SliceInfo Listeners JobLife
begin

text \<open>
  A verification development of the MakerOS hub agent (\<open>src/makeros_hub\<close>): the Python service a maker
  space runs on a small box in its LAN. The agent beats against the cloud, drives the printers of the
  space, and runs virtual printers to which members send prints from their slicer. Paths below are
  relative to \<open>src/makeros_hub\<close>.

  \<^bold>\<open>The virtual printer: from a slicer to the cloud.\<close>
  A slicer uploads a file by FTPS and sends a print command by MQTT, each after logging in with the
  member's access code; the pair becomes a captured job, which is written to a durable outbox and
  submitted to the cloud.
  \<^item> \<open>VpAuth\<close> (\<open>vprinter/auth.py\<close>): member codes and the failure limiter, per address and per code.
    The limiter refines a plain log of failures; past the limit even the right code is refused.
  \<^item> \<open>MqttCodec\<close> (packet functions of \<open>vprinter/mqtt_broker.py\<close>): the byte codec; round trips on
    arbitrary streams through the locale \<open>frame_codec\<close>, size bounds, exact errors.
  \<^item> \<open>MqttBroker\<close> (the broker class of the same file): connections as a state machine whose steps are
    the stretches between two \<open>await\<close>s, so displacement, time-outs and closing interleave as in the
    event loop. Invariants over runs of events: one client at a time, nothing sent before login, a
    displaced connection is silent, print commands carry the member that logged in.
  \<^item> \<open>Ftp\<close> (\<open>vprinter/ftp_server.py\<close>): the command loop of one session over an explicit directory, the
    upload with its limits, the clean-up sweep.
  \<^item> \<open>Capture\<close> (\<open>vprinter/capture.py\<close>): parsing of the print command, pairing of uploads and commands
    in bounded queues with expiry, the digest check, the job record and the request body.
  \<^item> \<open>SliceInfo\<close> (the rest of the same file): the filaments a sliced file asks for, read from its XML
    tree or, failing that, by the backtracking of a regular expression; what the slicer declares is
    what is submitted.
  \<^item> \<open>Outbox\<close> (\<open>vprinter/outbox.py\<close>): the store of captured jobs with the individual file system steps
    of a persist, so that a crash can fall between any two; insert/remove/load laws (locale
    \<open>durable_store\<close>).
  \<^item> \<open>Submissions\<close> (the submission part of \<open>agent.py\<close>): the queue drain with retry, dead letters and
    credential outages; every queued job is accounted for.
  \<^item> \<open>PoolRanking\<close>, \<open>LivePool\<close> (\<open>vprinter/pool_ranking.py\<close>, \<open>vprinter/live_pool.py\<close>): the filament
    slots a virtual printer mirrors from the real ones, and which are kept when they do not fit.
  \<^item> \<open>Report\<close> (\<open>vprinter/report.py\<close>): the status and version reports built from that pool; the parser
    in \<open>BambuParse\<close> reads every tray back from them.
  \<^item> \<open>VpConfig\<close> (\<open>config.py\<close>): the settings of the agent and the virtual printers the cloud configures,
    validated; exactly the configured members log in.
  \<^item> \<open>VpManager\<close>, \<open>VpRuntime\<close> (\<open>vprinter/manager.py\<close>): the supervisor that makes the running printers
    follow the configuration, by hot changes or restarts; and one printer, whose servers come up all
    together or not at all, with the wiring of report, broker and capture and the life of the loop thread.
  \<^item> \<open>Cert\<close> (\<open>vprinter/cert.py\<close>): the certificate authority kept in files step by step, the server
    certificates it signs, the TLS context and the authority that the heartbeat publishes.
  \<^item> \<open>Ssdp\<close> (\<open>vprinter/ssdp.py\<close>, \<open>vprinter/bind_server.py\<close>): discovery answers under a token bucket
    per source, and the framed bind protocol.
  \<^item> \<open>Listeners\<close> (the rest of \<open>vprinter/ftp_server.py\<close>, \<open>vprinter/ssdp.py\<close> and
    \<open>vprinter/ip_allocator.py\<close>): the session cap and the closing of the FTPS server, the responder of a
    single printer, the same as the shared one, and the routed prefix.
  \<^item> \<open>Net\<close>, \<open>IpAllocator\<close> (\<open>lan_scan.py\<close>, \<open>vprinter/ip_allocator.py\<close>): sweep targets and the address
    aliases of the virtual printers; an allocated address was probed free and is never shared.
  \<^item> \<open>Multipart\<close>, \<open>Ingest\<close> (\<open>multipart.py\<close>, \<open>ingest.py\<close>): the upload form a slicer posts to the box, and
    the server that spools and submits it; the form is read back byte by byte.

  \<^bold>\<open>The real printers.\<close>
  \<^item> \<open>BambuParse\<close> (\<open>printers/bambu_parse.py\<close>): deep merge of telemetry deltas, the status record and the
    scrubbing of secrets.
  \<^item> \<open>Jobs\<close> (\<open>printers/jobs.py\<close>): the tracker that turns telemetry into terminal job records, buffered
    until the cloud confirms them; records are justified by what was observed, and the buffer is the
    newest part of the ledger of unconfirmed records.
  \<^item> \<open>Klipper\<close>, \<open>Bambu\<close> (\<open>printers/klipper.py\<close>, \<open>printers/bambu.py\<close>, \<open>printers/bambu_send.py\<close>): the two
    kinds of adapters: polled telemetry with its own job tracker, and the message loop with commands and
    the upload that precedes a start.
  \<^item> \<open>QueueProgress\<close> (\<open>printers/queue_progress.py\<close>): which queue job an observed print belongs to and
    the reports that follow the transition map of the cloud.
  \<^item> \<open>Manager\<close> (\<open>printers/manager.py\<close>): the adapters of the configured printers, and the dispatch of
    control commands and queue assignments, each sent at most once.
  \<^item> \<open>Camera\<close>, \<open>FailureWatch\<close>, \<open>Detector\<close> (\<open>printers/camera.py\<close>, \<open>printers/failure_watch.py\<close>,
    \<open>printers/yolo_decode.py\<close>, \<open>printers/yolo_preprocess.py\<close>, \<open>printers/onnx_detector.py\<close>): one camera
    beat, the failure samples derived from frames, and the detector booted on a pinned model.
  \<^item> \<open>LanCamera\<close> (\<open>printers/bambu_camera.py\<close>, \<open>printers/rtsp_camera.py\<close>): one frame from a raw stream or
    from an external decoder, with limits and reasons of failure.

  \<^bold>\<open>The beat.\<close>
  \<^item> \<open>Heartbeat\<close> (\<open>agent.py\<close>, one pass of its loop): what is sent, what the configuration in the answer
    changes, and the results that wait until the cloud has accepted them; the retry timers of virtual
    printers and Tailscale as one interface.
  \<^item> \<open>Sensing\<close> (the collection phases of \<open>agent.py\<close>): cameras, failure watch, detector, certificates,
    discovery and metrics composed into the telemetry of a beat.
  \<^item> \<open>JobLife\<close> (\<open>run\<close> in \<open>agent.py\<close>): the processes one after the other, with captures between the beats,
    crashes and kills; a captured job is never lost.
  \<^item> \<open>Discovery\<close> (\<open>discovery.py\<close> and the probes of \<open>lan_scan.py\<close>): paced scans of the LAN and their cache.
  \<^item> \<open>Http\<close> (\<open>http.py\<close>): requests with bounded retries, equal to the first settled attempt.
  \<^item> \<open>Diagnostics\<close> (\<open>diagnostics.py\<close>): the log ring, the report and the redaction of secrets.
  \<^item> \<open>Probes\<close>, \<open>Tailscale\<close>, \<open>Update\<close> (\<open>probes.py\<close>, \<open>tailscale.py\<close>, \<open>update.py\<close>): the fixed diagnostic
    commands, the reconciliation of the VPN, and the gate in front of the self-update.

  \<^bold>\<open>The library.\<close>
  \<open>Prelude\<close> holds errors as values, insertion-ordered dictionaries as association lists with their
  laws, and two interfaces: \<open>bounded_fifo\<close>, the buffer that evicts its oldest entries, interpreted on
  the job buffers of \<open>Jobs\<close> and \<open>Klipper\<close>, the latency ring (\<open>Detector\<close>), the log ring (\<open>Diagnostics\<close>)
  and the queue of \<open>Submissions\<close>; and \<open>frame_codec\<close>, the self-delimiting encoding, interpreted on the
  elements of the MQTT wire format and the frames of the bind protocol (\<open>Ssdp\<close>). \<open>durable_store\<close> is the
  interface of the outbox (\<open>Outbox\<close>), \<open>retry_timer\<close> that of the back-off timers (\<open>Heartbeat\<close>). \<open>PyText\<close>
  holds Python's string operations, dynamic values (\<open>pyval\<close>) and number reading, \<open>Bytes\<close> the byte strings.

  \<^bold>\<open>Conventions.\<close>
  Python's integers are \<open>int\<close>, addresses \<open>32 word\<close>, wire bytes \<open>8 word\<close>. Floating point numbers (clock
  readings, scores, fractions) are exact reals: rounding is not modelled, and NaN and infinities appear
  only where a definition names them. Strings are lists of 8-bit characters; case folding and digit
  classes are those of ASCII. Exceptions are left values of a sum. The clock, the network, the file
  system primitives, hash functions, JSON and \<open>repr\<close> are parameters of the definitions that use them.
  Third-party code is a parameter with its documented behaviour as named hypotheses: \<open>cryptography\<close> in
  \<open>Cert\<close>, the detector's inference, the archive and XML readers in \<open>SliceInfo\<close>.
  Loops over data are recursions on the data, or on a decreasing length (\<open>redact_run\<close>, \<open>utf8_decode\<close>,
  \<open>fallback_scan\<close>), with their termination proved. The one loop that is bounded by a count is the eviction
  of the capture coordinator: it runs with as many steps as entries are pending, which suffices because
  each step removes one. Servers that run until they are stopped are modelled by the list of their events.

  \<^bold>\<open>What the lemmas show.\<close>
  The properties tagged \<open>C1\<close> to \<open>C40\<close> stand in the theories of their components: safety over arbitrary
  runs of events (broker, upload session, drain, beats), refinement of a plain specification (limiter log,
  ledger of records, crash-atomic store), round trips (packets, forms, reports, print commands, slice
  information), bounds (answers, billing, scans), and that every operation ends with a result or a named
  error. Lemmas at the end of several theories show where the code falls short of its own documents; they are
  the findings of the manifest.

  \<^bold>\<open>Not modelled.\<close>
  Process control of \<open>agent.py\<close> and \<open>__main__.py\<close> (signals, threads, the sleeping loop), the sockets and
  timers under the servers (accepting connections, TLS records, multicast membership), the work of external
  programs (ffmpeg, ip, tailscale, systemctl) beyond their exit and output, ONNX inference and image decoding,
  logging texts, and the installation scripts. Time-outs of closing are taken to be kept. The parts are
  listed in the manifest with their reason.
\<close>

end
